(* ===== verification/Prelude.thy ===== *)
theory Prelude
  imports Main "HOL-Library.Word"
begin

text \<open>
  Types, automation and lemmas that every component of the development shares.

  \<^item> Bytes and the fixed-width unsigned integers of the C++ code are words; a
    \<^verbatim>\<open>std::string\<close> or a byte buffer that carries protocol data is a list of bytes.
  \<^item> The big-endian ("network byte order") conversions that the packet filter, the
    protocol formatter and the clipboard marshaller all write out with shifts and masks are
    stated once, with the lemmas that make them inverse to each other.
  \<^item> \<open>wire_simps\<close> collects the facts that evaluate these conversions, \<open>fifo_simps\<close> the
    laws of the byte queue, \<open>cfg_simps\<close> the laws of the screen configuration.
\<close>

unbundle bit_operations_syntax

named_theorems wire_simps
named_theorems fifo_simps
named_theorems cfg_simps

type_synonym byte = "8 word"
type_synonym u16 = "16 word"
type_synonym u32 = "32 word"
type_synonym bytes = "byte list"

subsection \<open>Characters as bytes\<close>

text \<open>A \<^verbatim>\<open>char\<close> of a C string, seen as the unsigned byte with the same code.\<close>

abbreviation byte_of :: "char \<Rightarrow> byte" where
  "byte_of c \<equiv> of_char c"

abbreviation bytes_of :: "string \<Rightarrow> bytes" where
  "bytes_of s \<equiv> map of_char s"

lemma unat_of_char_byte [simp]: "unat (of_char c :: byte) = of_char c"
proof -
  have "(of_char c :: nat) < 256"
    using of_char_mod_256 [of c, where ?'a = nat] by (metis mod_less_divisor zero_less_numeral)
  then have "unat (of_nat (of_char c) :: byte) = of_char c"
    by (simp add: unat_of_nat)
  then show ?thesis by (simp only: of_nat_of_char)
qed

lemma unat_byte_less: "unat (b :: byte) < 256"
proof -
  have "unat b < 2 ^ 8" by (rule order_less_le_trans [OF unsigned_less]) simp
  then show ?thesis by simp
qed

lemma of_char_byte_inj [simp]: "(of_char c :: byte) = of_char d \<longleftrightarrow> c = d"
  by (metis unat_of_char_byte of_char_eq_iff)

lemma byte_of_char_of [simp]: "byte_of (char_of (n :: nat)) = of_nat n"
proof -
  have "of_nat (of_char (char_of n) :: nat) = (of_char (char_of n) :: byte)" by (rule of_nat_of_char)
  then show ?thesis by (simp add: word_unat_eq_iff unat_of_nat)
qed

abbreviation chars_of :: "bytes \<Rightarrow> string" where
  "chars_of bs \<equiv> map (\<lambda>b. char_of (unat b)) bs"

lemma chars_of_bytes [simp]: "chars_of (bytes_of s) = s"
  by (simp add: comp_def)

subsection \<open>Network byte order\<close>

text \<open>
  \<^verbatim>\<open>appendInteger\<close> of \<^verbatim>\<open>ProtocolUtil::writefArgs\<close>: the low \<open>n\<close> bytes of a 32-bit value, most
  significant first.
\<close>

fun appendInteger :: "u32 \<Rightarrow> nat \<Rightarrow> bytes" where
  "appendInteger v 0 = []"
| "appendInteger v (Suc k) = ucast (drop_bit (8 * k) v AND 255) # appendInteger v k"

text \<open>The shift-and-or reads of the code, for two and for four bytes.\<close>

definition be16 :: "byte \<Rightarrow> byte \<Rightarrow> u16" where
  "be16 a b = push_bit 8 (ucast a) OR ucast b"

definition be32 :: "byte \<Rightarrow> byte \<Rightarrow> byte \<Rightarrow> byte \<Rightarrow> u32" where
  "be32 a b c d =
     push_bit 24 (ucast a) OR push_bit 16 (ucast b) OR push_bit 8 (ucast c) OR ucast d"

lemma mask_byte: "(255 :: 'a::len word) = mask 8"
  by (simp add: mask_eq_exp_minus_1)

lemma byte_of_shift: "(ucast (drop_bit k (v::u32) AND 255) :: byte) = ucast (drop_bit k v)"
  by (rule bit_word_eqI) (simp add: mask_byte bit_simps)

lemma byte_of_low: "(ucast ((v::u32) AND 255) :: byte) = ucast v"
  using byte_of_shift [of 0 v] by simp

lemma appendInteger_1: "appendInteger v 1 = [ucast v]"
  by (simp add: byte_of_low)

lemma appendInteger_2: "appendInteger v 2 = [ucast (drop_bit 8 v), ucast v]"
  by (simp add: eval_nat_numeral byte_of_shift byte_of_low flip: numeral_eq_Suc)

lemma appendInteger_4:
  "appendInteger v 4 =
     [ucast (drop_bit 24 v), ucast (drop_bit 16 v), ucast (drop_bit 8 v), ucast v]"
  by (simp add: eval_nat_numeral byte_of_shift byte_of_low flip: numeral_eq_Suc)

lemma length_appendInteger [simp]: "length (appendInteger v n) = n"
  by (induction n) auto

lemma be32_split:
  "be32 (ucast (drop_bit 24 v)) (ucast (drop_bit 16 v)) (ucast (drop_bit 8 v)) (ucast v) = v"
proof (rule bit_word_eqI)
  fix n assume n: "n < LENGTH(32)"
  then consider "n < 8" | "8 \<le> n" "n < 16" | "16 \<le> n" "n < 24" | "24 \<le> n" "n < 32"
    by fastforce
  then show "bit (be32 (ucast (drop_bit 24 v)) (ucast (drop_bit 16 v)) (ucast (drop_bit 8 v))
      (ucast v)) n = bit v n"
    by cases (auto simp: be32_def bit_simps)
qed

lemma be16_split: "be16 (ucast (drop_bit 8 v)) (ucast v) = (ucast (v::u32) :: u16)"
proof (rule bit_word_eqI)
  fix n assume n: "n < LENGTH(16)"
  then consider "n < 8" | "8 \<le> n" "n < 16" by fastforce
  then show "bit (be16 (ucast (drop_bit 8 v)) (ucast v)) n = bit (ucast v :: u16) n"
    by cases (auto simp: be16_def bit_simps)
qed

lemma ucast_u16_u32 [simp]: "(ucast (ucast (x::u16) :: u32) :: u16) = x"
  by (rule bit_word_eqI) (simp add: bit_simps)

text \<open>Four bytes are decoded and encoded again unchanged: no two encodings coincide.\<close>

lemma appendInteger_be32: "appendInteger (be32 a b c d) 4 = [a, b, c, d]"
proof -
  have "ucast (drop_bit 24 (be32 a b c d)) = a"
    by (rule bit_word_eqI) (auto simp: be32_def bit_simps dest: bit_imp_le_length)
  moreover have "ucast (drop_bit 16 (be32 a b c d)) = b"
    by (rule bit_word_eqI) (auto simp: be32_def bit_simps dest: bit_imp_le_length)
  moreover have "ucast (drop_bit 8 (be32 a b c d)) = c"
    by (rule bit_word_eqI) (auto simp: be32_def bit_simps dest: bit_imp_le_length)
  moreover have "ucast (be32 a b c d) = d"
    by (rule bit_word_eqI) (auto simp: be32_def bit_simps dest: bit_imp_le_length)
  ultimately show ?thesis by (simp add: appendInteger_4)
qed

text \<open>Reading the first four bytes of a buffer.\<close>

fun decode_be32 :: "bytes \<Rightarrow> u32 option" where
  "decode_be32 (a # b # c # d # _) = Some (be32 a b c d)"
| "decode_be32 _ = None"

lemma decode_be32_append [simp]: "decode_be32 (appendInteger v 4 @ xs) = Some v"
  by (simp add: appendInteger_4 be32_split)

lemma decode_be32_encoded [simp]: "decode_be32 (appendInteger v 4) = Some v"
  using decode_be32_append [of v "[]"] by simp

lemma decode_be32_Some_iff: "(\<exists>v. decode_be32 xs = Some v) \<longleftrightarrow> 4 \<le> length xs"
  by (cases xs rule: decode_be32.cases) auto

lemma decode_be32_take: "4 \<le> n \<Longrightarrow> decode_be32 (take n xs) = decode_be32 xs"
  by (cases xs rule: decode_be32.cases; cases n)
     (auto simp: take_Cons eval_nat_numeral split: nat.splits)

lemma decode_be32_encode:
  "decode_be32 xs = Some v \<Longrightarrow> appendInteger v 4 = take 4 xs"
  by (cases xs rule: decode_be32.cases) (auto simp: appendInteger_be32)

lemmas wire_codec [wire_simps] =
  appendInteger_1 appendInteger_2 appendInteger_4 be32_split be16_split

subsection \<open>Results\<close>

text \<open>
  Fallible operations return \<open>'e + 'a\<close>; \<open>and_then\<close> runs the rest of an operation when the first part
  did not fail.
\<close>

definition and_then :: "'e + 'a \<Rightarrow> ('a \<Rightarrow> 'e + 'b) \<Rightarrow> 'e + 'b" where
  "and_then r k = (case r of Inl e \<Rightarrow> Inl e | Inr x \<Rightarrow> k x)"

lemma and_then_simps [simp]: "and_then (Inl e) k = Inl e" "and_then (Inr x) k = k x"
  by (simp_all add: and_then_def)

lemma and_then_eq_Inr [simp]: "and_then r k = Inr y \<longleftrightarrow> (\<exists>x. r = Inr x \<and> k x = Inr y)"
  by (cases r) auto

lemma and_then_cong [fundef_cong]:
  "r = r' \<Longrightarrow> (\<And>x. r' = Inr x \<Longrightarrow> k x = k' x) \<Longrightarrow> and_then r k = and_then r' k'"
  by (cases r') auto

end
