(* ===== verification/StreamBuffer.thy ===== *)
theory StreamBuffer
  imports Prelude
begin

text \<open>
  The chunked byte FIFO of \<^verbatim>\<open>src/lib/io/StreamBuffer.cpp\<close>. The record holds the three data
  members; \<open>peek\<close>, \<open>pop\<close> and \<open>write\<close> follow the code chunk by chunk. The abstraction
  \<open>sb_bytes\<close> is the plain list of bytes still in the buffer; every operation is shown to
  implement the list operation it promises, and the interface other components use is the locale
  \<open>byte_fifo\<close>, interpreted at the end of the theory.

  A failed \<^verbatim>\<open>assert\<close> (or the out-of-range access it guards) is the value \<open>None\<close>.
\<close>

subsection \<open>State and operations\<close>

record stream_buffer =
  sb_chunks :: "bytes list"
  sb_size :: nat
  sb_headUsed :: nat

definition kChunkSize :: nat where
  "kChunkSize = 4096"

definition sb_empty :: stream_buffer where
  "sb_empty = \<lparr>sb_chunks = [], sb_size = 0, sb_headUsed = 0\<rparr>"

text \<open>The loop of \<^verbatim>\<open>peek\<close>: later chunks are moved into the first one until it holds \<open>n\<close> bytes.\<close>

fun consolidate :: "nat \<Rightarrow> nat \<Rightarrow> bytes \<Rightarrow> bytes list \<Rightarrow> bytes \<times> bytes list" where
  "consolidate used n head [] = (head, [])"
| "consolidate used n head (c # cs) =
     (if length head - used < n then consolidate used n (head @ c) cs else (head, c # cs))"

definition sb_peek :: "stream_buffer \<Rightarrow> nat \<Rightarrow> (bytes \<times> stream_buffer) option" where
  "sb_peek b n =
     (if sb_size b < n then None
      else if n = 0 then Some ([], b)
      else case sb_chunks b of
        [] \<Rightarrow> None
      | c # cs \<Rightarrow>
          (let (head, rest) = consolidate (sb_headUsed b) n c cs;
               avail = drop (sb_headUsed b) head
           in if length avail < n then None
              else Some (take n avail, b\<lparr>sb_chunks := head # rest\<rparr>)))"

text \<open>The loop of \<^verbatim>\<open>pop\<close>: whole chunks are erased until fewer than a chunk remains to discard.\<close>

fun discard_chunks :: "nat \<Rightarrow> nat \<Rightarrow> bytes list \<Rightarrow> (nat \<times> nat \<times> bytes list) option" where
  "discard_chunks n used [] = None"
| "discard_chunks n used (c # cs) =
     (if length c - used \<le> n then discard_chunks (n - (length c - used)) 0 cs
      else Some (n, used, c # cs))"

definition sb_pop :: "stream_buffer \<Rightarrow> nat \<Rightarrow> stream_buffer option" where
  "sb_pop b n =
     (if sb_size b \<le> n then Some sb_empty
      else case discard_chunks n (sb_headUsed b) (sb_chunks b) of
        None \<Rightarrow> None
      | Some (m, used, cs) \<Rightarrow>
          Some (b\<lparr>sb_size := sb_size b - n,
                  sb_headUsed := (if 0 < m then used + m else used),
                  sb_chunks := cs\<rparr>))"

text \<open>
  The loop of \<^verbatim>\<open>write\<close>: \<open>cur\<close> is the chunk being filled, \<open>pre\<close> the chunks before it. A chunk
  takes at most \<open>kChunkSize\<close> bytes; a new one is appended while data is left.
\<close>

function append_data :: "bytes list \<Rightarrow> bytes \<Rightarrow> bytes \<Rightarrow> bytes list" where
  "append_data pre cur data =
     (let count = min (kChunkSize - length cur) (length data);
          cur' = cur @ take count data;
          rest = drop count data
      in if rest = [] then pre @ [cur'] else append_data (pre @ [cur']) [] rest)"
  by pat_completeness auto
termination
  by (relation "measures [\<lambda>(pre, cur, data). length data, \<lambda>(pre, cur, data). length cur]")
     (auto simp: kChunkSize_def)

declare append_data.simps [simp del]

definition sb_write :: "stream_buffer \<Rightarrow> bytes \<Rightarrow> stream_buffer" where
  "sb_write b data =
     (if data = [] then b
      else b\<lparr>sb_size := (sb_size b + length data) mod 2 ^ 32,
             sb_chunks :=
               (if sb_chunks b = [] \<or> kChunkSize \<le> length (last (sb_chunks b))
                then append_data (sb_chunks b) [] data
                else append_data (butlast (sb_chunks b)) (last (sb_chunks b)) data)\<rparr>)"

definition sb_getSize :: "stream_buffer \<Rightarrow> nat" where
  "sb_getSize b = sb_size b"

subsection \<open>Abstraction and invariant\<close>

definition sb_bytes :: "stream_buffer \<Rightarrow> bytes" where
  "sb_bytes b = drop (sb_headUsed b) (concat (sb_chunks b))"

definition sb_inv :: "stream_buffer \<Rightarrow> bool" where
  "sb_inv b \<longleftrightarrow>
     sb_size b = length (sb_bytes b) \<and>
     length (sb_bytes b) < 2 ^ 32 \<and>
     [] \<notin> set (sb_chunks b) \<and>
     (case sb_chunks b of [] \<Rightarrow> sb_headUsed b = 0 | c # _ \<Rightarrow> sb_headUsed b < length c)"

lemma sb_inv_empty [simp]: "sb_inv sb_empty"
  by (simp add: sb_inv_def sb_empty_def sb_bytes_def)

lemma sb_bytes_empty [simp]: "sb_bytes sb_empty = []"
  by (simp add: sb_bytes_def sb_empty_def)

subsection \<open>The loops\<close>

lemma concat_append_data: "concat (append_data pre cur data) = concat pre @ cur @ data"
proof (induction pre cur data rule: append_data.induct)
  case (1 pre cur data)
  then show ?case
    by (subst append_data.simps) (auto simp: Let_def simp del: append_assoc, simp_all)
qed

lemma append_data_prefix: "\<exists>c cs. append_data pre cur data = pre @ c # cs"
proof (induction pre cur data rule: append_data.induct)
  case (1 pre cur data)
  then show ?case
    by (subst append_data.simps) (force simp: Let_def)
qed

lemma append_data_nonempty:
  "data \<noteq> [] \<Longrightarrow> length cur < kChunkSize \<Longrightarrow> [] \<notin> set pre \<Longrightarrow> [] \<notin> set (append_data pre cur data)"
proof (induction pre cur data rule: append_data.induct)
  case (1 pre cur data)
  then show ?case
    by (subst append_data.simps) (auto simp: Let_def kChunkSize_def)
qed

lemma append_data_head:
  "pre = [] \<Longrightarrow> \<exists>cs x. append_data pre cur data = (cur @ x) # cs"
proof (induction pre cur data rule: append_data.induct)
  case (1 pre cur data)
  show ?case
    using append_data_prefix [of "pre @ [cur @ take (min (kChunkSize - length cur) (length data)) data]"]
      "1.prems"
    by (subst append_data.simps) (force simp: Let_def)
qed

lemma consolidate_concat:
  "consolidate used n head cs = (h, rest) \<Longrightarrow> h @ concat rest = head @ concat cs"
  by (induction used n head cs rule: consolidate.induct) (auto split: if_splits)

lemma consolidate_props:
  "consolidate used n head cs = (h, rest) \<Longrightarrow> used < length head \<Longrightarrow> [] \<notin> set cs \<Longrightarrow>
     used < length h \<and> [] \<notin> set rest \<and>
     (n \<le> length (head @ concat cs) - used \<longrightarrow> n \<le> length h - used)"
  by (induction used n head cs rule: consolidate.induct) (auto split: if_splits simp: not_less)

lemma discard_chunks_spec:
  assumes "[] \<notin> set cs" and "case cs of [] \<Rightarrow> used = 0 | c # _ \<Rightarrow> used < length c"
    and "n < length (drop used (concat cs))"
  shows "\<exists>m u ds. discard_chunks n used cs = Some (m, u, ds) \<and>
           drop (u + m) (concat ds) = drop n (drop used (concat cs)) \<and>
           [] \<notin> set ds \<and> ds \<noteq> [] \<and> u + m < length (hd ds)"
  using assms
proof (induction n used cs rule: discard_chunks.induct)
  case (1 n used)
  then show ?case by simp
next
  case (2 n used c cs)
  show ?case
  proof (cases "length c - used \<le> n")
    case True
    have "case cs of [] \<Rightarrow> (0::nat) = 0 | c # _ \<Rightarrow> 0 < length c"
      using "2.prems"(1) by (auto split: list.splits)
    moreover have "n - (length c - used) < length (drop 0 (concat cs))"
      using "2.prems"(2,3) True by auto
    moreover have "[] \<notin> set cs" using "2.prems"(1) by simp
    ultimately obtain m u ds where
      r: "discard_chunks (n - (length c - used)) 0 cs = Some (m, u, ds)" and
      d: "drop (u + m) (concat ds) = drop (n - (length c - used)) (concat cs)" and
      w: "[] \<notin> set ds \<and> ds \<noteq> [] \<and> u + m < length (hd ds)"
      using "2.IH" [OF True] by auto
    have "drop n (drop used (concat (c # cs))) = drop (n - (length c - used)) (concat cs)"
      using True "2.prems"(2) by simp
    with r d w True show ?thesis by (auto simp del: drop_drop)
  next
    case False
    with "2.prems" show ?thesis by (auto simp: add.commute)
  qed
qed

subsection \<open>The operations implement the list operations\<close>

lemma sb_size_bytes: "sb_inv b \<Longrightarrow> sb_getSize b = length (sb_bytes b)"
  by (simp add: sb_inv_def sb_getSize_def)

lemma sb_write_bytes:
  assumes "sb_inv b"
  shows "sb_bytes (sb_write b data) = sb_bytes b @ data"
proof (cases "sb_chunks b = []")
  case True
  with assms have "sb_headUsed b = 0" by (simp add: sb_inv_def)
  with True show ?thesis
    by (simp add: sb_write_def sb_bytes_def concat_append_data)
next
  case False
  have "sb_headUsed b \<le> length (concat (sb_chunks b))"
    using assms False by (cases "sb_chunks b") (auto simp: sb_inv_def)
  moreover have "concat (butlast (sb_chunks b)) @ last (sb_chunks b) = concat (sb_chunks b)"
    using False by (metis append_butlast_last_id append_Nil2 concat.simps concat_append)
  ultimately show ?thesis
    using False by (simp add: sb_write_def sb_bytes_def concat_append_data flip: append_assoc)
qed

lemma sb_write_chunks_wf:
  assumes "sb_inv b" "data \<noteq> []"
  shows "[] \<notin> set (sb_chunks (sb_write b data)) \<and>
         (\<exists>c cs. sb_chunks (sb_write b data) = c # cs \<and> sb_headUsed b < length c)"
proof (cases "sb_chunks b")
  case Nil
  with assms have "sb_headUsed b = 0" by (simp add: sb_inv_def)
  moreover obtain c cs where "append_data [] [] data = c # cs"
    using append_data_prefix [of "[]" "[]" data] by auto
  moreover have "[] \<notin> set (append_data [] [] data)"
    using assms(2) by (intro append_data_nonempty) (auto simp: kChunkSize_def)
  ultimately show ?thesis using Nil assms(2) by (auto simp: sb_write_def)
next
  case (Cons c cs)
  with assms have used: "sb_headUsed b < length c" and ne: "[] \<notin> set (c # cs)"
    by (auto simp: sb_inv_def)
  show ?thesis
  proof (cases "kChunkSize \<le> length (last (c # cs))")
    case True
    have "\<exists>d ds. append_data (c # cs) [] data = (c # cs) @ d # ds" by (rule append_data_prefix)
    moreover have "[] \<notin> set (append_data (c # cs) [] data)"
      using assms(2) ne by (intro append_data_nonempty) (auto simp: kChunkSize_def)
    ultimately show ?thesis using Cons True used assms(2) by (auto simp: sb_write_def)
  next
    case False
    then have lt: "length (last (c # cs)) < kChunkSize" by simp
    have "[] \<notin> set (butlast (c # cs))" using ne by (meson in_set_butlastD)
    then have wf: "[] \<notin> set (append_data (butlast (c # cs)) (last (c # cs)) data)"
      using assms(2) lt by (intro append_data_nonempty)
    show ?thesis
    proof (cases cs)
      case Nil
      then obtain x ds where "append_data [] c data = (c @ x) # ds"
        using append_data_head [of "[]" c data] by auto
      then show ?thesis using Cons Nil False used assms(2) wf by (auto simp: sb_write_def)
    next
      case (Cons d ds)
      then have "\<exists>e es. append_data (butlast (c # cs)) (last (c # cs)) data = butlast (c # cs) @ e # es"
        using append_data_prefix by blast
      then show ?thesis
        using \<open>sb_chunks b = c # cs\<close> Cons False used assms(2) wf by (auto simp: sb_write_def)
    qed
  qed
qed

lemma sb_write_inv:
  assumes "sb_inv b" "length (sb_bytes b) + length data < 2 ^ 32"
  shows "sb_inv (sb_write b data)"
proof (cases "data = []")
  case True
  with assms show ?thesis by (simp add: sb_write_def)
next
  case False
  have "sb_size (sb_write b data) = length (sb_bytes b) + length data"
    using assms False by (simp add: sb_write_def sb_inv_def)
  moreover have "sb_headUsed (sb_write b data) = sb_headUsed b"
    using False by (simp add: sb_write_def)
  ultimately show ?thesis
    using assms sb_write_chunks_wf [OF assms(1) False] sb_write_bytes [OF assms(1), of data]
    by (auto simp: sb_inv_def)
qed

lemma sb_peek_spec:
  assumes "sb_inv b" "n \<le> length (sb_bytes b)"
  shows "\<exists>b'. sb_peek b n = Some (take n (sb_bytes b), b') \<and> sb_bytes b' = sb_bytes b \<and> sb_inv b'"
proof (cases "n = 0")
  case True
  then show ?thesis using assms by (simp add: sb_peek_def)
next
  case False
  then obtain c cs where cs: "sb_chunks b = c # cs"
    using assms by (cases "sb_chunks b") (auto simp: sb_bytes_def)
  obtain h rest where hr: "consolidate (sb_headUsed b) n c cs = (h, rest)" by fastforce
  have wf: "sb_headUsed b < length c" "[] \<notin> set cs" "sb_size b = length (sb_bytes b)"
    using assms(1) cs by (auto simp: sb_inv_def)
  have conc: "h @ concat rest = c @ concat cs" using consolidate_concat [OF hr] .
  have p: "sb_headUsed b < length h" "[] \<notin> set rest" "n \<le> length h - sb_headUsed b"
    using consolidate_props [OF hr wf(1,2)] assms(2) cs by (auto simp: sb_bytes_def)
  have bs: "sb_bytes b = drop (sb_headUsed b) h @ concat rest"
    using p(1) cs by (simp add: sb_bytes_def flip: conc)
  then have "take n (drop (sb_headUsed b) h) = take n (sb_bytes b)" using p(3) by simp
  then have "sb_peek b n = Some (take n (sb_bytes b), b\<lparr>sb_chunks := h # rest\<rparr>)"
    using False wf p assms cs hr by (simp add: sb_peek_def)
  moreover have "sb_bytes (b\<lparr>sb_chunks := h # rest\<rparr>) = sb_bytes b"
    using bs p(1) by (simp add: sb_bytes_def)
  ultimately show ?thesis
    using p(1,2) assms(1) by (auto simp: sb_inv_def)
qed

lemma sb_pop_spec:
  assumes "sb_inv b"
  shows "\<exists>b'. sb_pop b n = Some b' \<and> sb_bytes b' = drop n (sb_bytes b) \<and> sb_inv b'"
proof (cases "sb_size b \<le> n")
  case True
  with assms have "length (sb_bytes b) \<le> n" by (simp add: sb_inv_def)
  with True show ?thesis by (simp add: sb_pop_def)
next
  case False
  with assms have "n < length (drop (sb_headUsed b) (concat (sb_chunks b)))"
    by (simp add: sb_inv_def sb_bytes_def)
  then obtain m u ds where d: "discard_chunks n (sb_headUsed b) (sb_chunks b) = Some (m, u, ds)"
    "drop (u + m) (concat ds) = drop n (drop (sb_headUsed b) (concat (sb_chunks b)))"
    "[] \<notin> set ds" "ds \<noteq> []" "u + m < length (hd ds)"
    using discard_chunks_spec [of "sb_chunks b" "sb_headUsed b" n] assms
    by (auto simp: sb_inv_def)
  define b' where "b' = b\<lparr>sb_size := sb_size b - n, sb_headUsed := u + m, sb_chunks := ds\<rparr>"
  have "sb_pop b n = Some b'" using d(1) False by (simp add: sb_pop_def b'_def)
  moreover have bs: "sb_bytes b' = drop n (sb_bytes b)" using d(2) by (simp add: b'_def sb_bytes_def)
  moreover have "sb_inv b'"
    using assms d bs by (cases ds) (auto simp: sb_inv_def b'_def)
  ultimately show ?thesis by blast
qed

subsection \<open>The interface\<close>

text \<open>
  What a client of the buffer relies on: the bytes form a FIFO, a look at available bytes never
  fails and moves nothing, and discarding never fails.
\<close>

locale byte_fifo =
  fixes inv :: "'q \<Rightarrow> bool" and contents :: "'q \<Rightarrow> bytes"
    and new :: 'q and put :: "'q \<Rightarrow> bytes \<Rightarrow> 'q" and look :: "'q \<Rightarrow> nat \<Rightarrow> (bytes \<times> 'q) option"
    and discard :: "'q \<Rightarrow> nat \<Rightarrow> 'q option" and size_of :: "'q \<Rightarrow> nat"
  assumes new_inv: "inv new" and new_contents: "contents new = []"
    and size_contents: "inv q \<Longrightarrow> size_of q = length (contents q)"
    and size_bound: "inv q \<Longrightarrow> length (contents q) < 2 ^ 32"
    and put_contents: "inv q \<Longrightarrow> contents (put q xs) = contents q @ xs"
    and put_inv: "inv q \<Longrightarrow> length (contents q) + length xs < 2 ^ 32 \<Longrightarrow> inv (put q xs)"
    and look_spec: "inv q \<Longrightarrow> n \<le> length (contents q) \<Longrightarrow>
      \<exists>q'. look q n = Some (take n (contents q), q') \<and> contents q' = contents q \<and> inv q'"
    and discard_spec: "inv q \<Longrightarrow>
      \<exists>q'. discard q n = Some q' \<and> contents q' = drop n (contents q) \<and> inv q'"
begin

text \<open>The way every reader uses the buffer: look at \<open>n\<close> bytes, then discard them.\<close>

lemma take_out:
  assumes "inv q" "n \<le> length (contents q)"
  obtains q' q'' where "look q n = Some (take n (contents q), q')" "discard q' n = Some q''"
    "contents q'' = drop n (contents q)" "inv q''"
proof -
  obtain q' where q': "look q n = Some (take n (contents q), q')" "contents q' = contents q" "inv q'"
    using look_spec [OF assms] by blast
  obtain q'' where "discard q' n = Some q''" "contents q'' = drop n (contents q')" "inv q''"
    using discard_spec [OF q'(3)] by blast
  with q' show thesis using that by simp
qed

lemma clear_all:
  assumes "inv q"
  obtains q' where "discard q (size_of q) = Some q'" "contents q' = []" "inv q'"
  using discard_spec [OF assms, of "size_of q"] size_contents [OF assms] by auto

lemma put_many_contents:
  assumes "inv q" "length (contents q) + length (concat xss) < 2 ^ 32"
  shows "inv (foldl put q xss) \<and> contents (foldl put q xss) = contents q @ concat xss"
  using assms
proof (induction xss arbitrary: q)
  case Nil
  then show ?case by simp
next
  case (Cons xs xss)
  then have "inv (put q xs)" "contents (put q xs) = contents q @ xs"
    by (auto intro: put_inv simp: put_contents)
  with Cons show ?case by simp
qed

end

interpretation sb: byte_fifo sb_inv sb_bytes sb_empty sb_write sb_peek sb_pop sb_getSize
proof unfold_locales
  show "sb_inv b \<Longrightarrow> length (sb_bytes b) < 2 ^ 32" for b by (simp add: sb_inv_def)
qed (fact sb_inv_empty sb_bytes_empty sb_size_bytes sb_write_bytes sb_write_inv
       sb_peek_spec sb_pop_spec)+

subsection \<open>Properties\<close>

text \<open>
  C25. The chunked buffer implements a byte queue: any sequence of writes of together less than 2^32 bytes
  appends to the contents, \<open>peek\<close> shows the oldest bytes without changing the contents, and \<open>pop\<close>
  after it removes exactly these.
\<close>

theorem stream_buffer_is_fifo:
  assumes "sb_inv b" "length (sb_bytes b) + length (concat writes) < 2 ^ 32"
    and "n \<le> length (sb_bytes b @ concat writes)"
  shows "\<exists>b1 b2. sb_peek (foldl sb_write b writes) n = Some (take n (sb_bytes b @ concat writes), b1) \<and>
    sb_bytes b1 = sb_bytes b @ concat writes \<and>
    sb_pop b1 n = Some b2 \<and> sb_bytes b2 = drop n (sb_bytes b @ concat writes) \<and> sb_inv b2 \<and>
    sb_getSize b2 = length (sb_bytes b @ concat writes) - n"
proof -
  let ?q = "foldl sb_write b writes"
  have q: "sb_inv ?q" "sb_bytes ?q = sb_bytes b @ concat writes"
    using sb.put_many_contents [OF assms(1,2)] by auto
  obtain b1 where b1: "sb_peek ?q n = Some (take n (sb_bytes ?q), b1)" "sb_bytes b1 = sb_bytes ?q" "sb_inv b1"
    using sb_peek_spec [OF q(1), of n] assms(3) q(2) by auto
  obtain b2 where b2: "sb_pop b1 n = Some b2" "sb_bytes b2 = drop n (sb_bytes b1)" "sb_inv b2"
    using sb_pop_spec [OF b1(3)] by auto
  from b1 b2 q sb_size_bytes [OF b2(3)] show ?thesis by simp
qed

theorem stream_buffer_is_fifo_witness:
  "\<exists>b1 b2. sb_peek (foldl sb_write sb_empty [[1, 2], [], [3, 4]]) 3 =
      Some (take 3 (sb_bytes sb_empty @ concat [[1, 2], [], [3, 4]]), b1) \<and>
    sb_bytes b1 = sb_bytes sb_empty @ concat [[1, 2], [], [3, 4]] \<and>
    sb_pop b1 3 = Some b2 \<and> sb_bytes b2 = drop 3 (sb_bytes sb_empty @ concat [[1, 2], [], [3, 4]]) \<and> sb_inv b2 \<and>
    sb_getSize b2 = length (sb_bytes sb_empty @ concat [[1, 2], [], [3, 4]]) - 3"
  by (rule stream_buffer_is_fifo) simp_all

end
