(* ===== verification/EventQueue.thy ===== *)
theory EventQueue
  imports Prelude "HOL-Library.Multiset"
begin

text \<open>
  The event queue of \<^verbatim>\<open>src/lib/base/EventQueue.cpp\<close> with its default buffer
  \<^verbatim>\<open>SimpleEventQueueBuffer.cpp\<close>. Events are stored in a table under an id; only the id travels
  through the buffer. The theory shows that an id handed out never belongs to an event that is
  still waiting, that the table and the buffer always agree, and that the pair behaves as a FIFO
  (locale \<open>event_channel\<close>). Timers, the condition variables and platform buffers are not part
  of this model; a target is a value of the type \<open>'t\<close>, a handler a value of the type \<open>'h\<close>.
\<close>

subsection \<open>Events\<close>

text \<open>
  \<^verbatim>\<open>EventType\<close>: the members that the modelled code inspects or sends, in the order of the
  enumeration; every other member is \<open>OTHER_EVENT n\<close> with its number.
\<close>

datatype event_type =
    UNKNOWN | QUIT | SYSTEM | TIMER
  | STREAM_INPUT_READY | STREAM_OUTPUT_FLUSHED | STREAM_OUTPUT_ERROR | STREAM_INPUT_SHUTDOWN
  | STREAM_OUTPUT_SHUTDOWN | STREAM_INPUT_FORMAT_ERROR
  | CLIPBOARD_GRABBED | CLIPBOARD_CHANGED | CLIPBOARD_SENDING | FILE_CHUNK_SENDING
  | FILE_RECEIVE_COMPLETED | FILE_KEEPALIVE
  | OTHER_EVENT nat

record ('t, 'd) event =
  ev_type :: event_type
  ev_target :: "'t option"
  ev_data :: "'d option"
  ev_flags :: u32

definition kDeliverImmediately :: u32 where
  "kDeliverImmediately = 1"

text \<open>The default-constructed event, which \<^verbatim>\<open>removeEvent\<close> returns for an unknown id.\<close>

definition null_event :: "('t, 'd) event" where
  "null_event = \<lparr>ev_type = UNKNOWN, ev_target = None, ev_data = None, ev_flags = 0\<rparr>"

subsection \<open>SimpleEventQueueBuffer\<close>

record simple_buffer =
  m_queue :: "nat list"
  m_queueReady :: bool

definition simple_buffer_new :: simple_buffer where
  "simple_buffer_new = \<lparr>m_queue = [], m_queueReady = False\<rparr>"

definition buf_addEvent :: "simple_buffer \<Rightarrow> nat \<Rightarrow> simple_buffer" where
  "buf_addEvent b i = b\<lparr>m_queue := i # m_queue b, m_queueReady := True\<rparr>"

definition buf_isEmpty :: "simple_buffer \<Rightarrow> bool" where
  "buf_isEmpty b \<longleftrightarrow> \<not> m_queueReady b"

text \<open>\<open>None\<close> is \<^verbatim>\<open>kNone\<close>, \<open>Some i\<close> is \<^verbatim>\<open>kUser\<close> with the id \<open>i\<close>.\<close>

definition buf_getEvent :: "simple_buffer \<Rightarrow> nat option \<times> simple_buffer" where
  "buf_getEvent b =
     (if \<not> m_queueReady b then (None, b)
      else (Some (last (m_queue b)),
            b\<lparr>m_queue := butlast (m_queue b), m_queueReady := (butlast (m_queue b) \<noteq> [])\<rparr>))"

subsection \<open>EventQueue\<close>

record ('t, 'd, 'h) event_queue =
  eq_events :: "(nat \<times> ('t, 'd) event) list"
  eq_oldEventIDs :: "nat list"
  eq_pending :: "('t, 'd) event list"
  eq_buffer :: simple_buffer
  eq_is_ready :: bool
  eq_handlers :: "'t \<rightharpoonup> (event_type \<times> 'h) list"
  eq_owned :: "'t \<Rightarrow> nat option"
  eq_self :: nat

definition event_queue_new :: "nat \<Rightarrow> ('t, 'd, 'h) event_queue" where
  "event_queue_new self =
     \<lparr>eq_events = [], eq_oldEventIDs = [], eq_pending = [], eq_buffer = simple_buffer_new,
      eq_is_ready = False, eq_handlers = Map.empty, eq_owned = (\<lambda>_. None), eq_self = self\<rparr>"

text \<open>The most recently freed id is reused; otherwise the table's size is the next id.\<close>

definition save_event ::
    "('t, 'd, 'h) event_queue \<Rightarrow> ('t, 'd) event \<Rightarrow> nat \<times> ('t, 'd, 'h) event_queue" where
  "save_event q e =
     (let (i, olds) = (if eq_oldEventIDs q \<noteq> []
                       then (last (eq_oldEventIDs q), butlast (eq_oldEventIDs q))
                       else (length (eq_events q) mod 2 ^ 32, eq_oldEventIDs q))
      in (i, q\<lparr>eq_oldEventIDs := olds,
               eq_events := (i, e) # filter (\<lambda>(j, _). j \<noteq> i) (eq_events q)\<rparr>))"

definition removeEvent ::
    "('t, 'd, 'h) event_queue \<Rightarrow> nat \<Rightarrow> ('t, 'd) event \<times> ('t, 'd, 'h) event_queue" where
  "removeEvent q i =
     (case map_of (eq_events q) i of
        None \<Rightarrow> (null_event, q)
      | Some e \<Rightarrow>
          (e, q\<lparr>eq_events := filter (\<lambda>(j, _). j \<noteq> i) (eq_events q),
                eq_oldEventIDs := eq_oldEventIDs q @ [i]\<rparr>))"

definition add_event_to_buffer ::
    "('t, 'd, 'h) event_queue \<Rightarrow> ('t, 'd) event \<Rightarrow> ('t, 'd, 'h) event_queue" where
  "add_event_to_buffer q e =
     (let (i, q') = save_event q e in q'\<lparr>eq_buffer := buf_addEvent (eq_buffer q') i\<rparr>)"

definition get_handler ::
    "('t, 'd, 'h) event_queue \<Rightarrow> event_type \<Rightarrow> 't option \<Rightarrow> 'h option" where
  "get_handler q ty tgt =
     (case tgt of None \<Rightarrow> None
      | Some t \<Rightarrow> (case eq_handlers q t of None \<Rightarrow> None | Some hs \<Rightarrow> map_of hs ty))"

text \<open>The handler that runs, if any: the one for the event's type, else the catch-all one.\<close>

definition dispatchEvent :: "('t, 'd, 'h) event_queue \<Rightarrow> ('t, 'd) event \<Rightarrow> 'h option" where
  "dispatchEvent q e =
     (case get_handler q (ev_type e) (ev_target e) of
        Some h \<Rightarrow> Some h
      | None \<Rightarrow> get_handler q UNKNOWN (ev_target e))"

text \<open>The second component is the handler run at once for an immediate event.\<close>

definition add_event ::
    "('t, 'd, 'h) event_queue \<Rightarrow> ('t, 'd) event \<Rightarrow> ('t, 'd, 'h) event_queue \<times> 'h option" where
  "add_event q e =
     (if ev_type e \<in> {UNKNOWN, SYSTEM, TIMER} then (q, None)
      else if ev_flags e AND kDeliverImmediately \<noteq> 0 then (q, dispatchEvent q e)
      else if \<not> eq_is_ready q then (q\<lparr>eq_pending := eq_pending q @ [e]\<rparr>, None)
      else (add_event_to_buffer q e, None))"

text \<open>The prologue of \<^verbatim>\<open>loop\<close>: the queue becomes ready and pending events enter the buffer.\<close>

definition loop_start :: "('t, 'd, 'h) event_queue \<Rightarrow> ('t, 'd, 'h) event_queue" where
  "loop_start q =
     (foldl add_event_to_buffer (q\<lparr>eq_is_ready := True\<rparr>) (eq_pending q))\<lparr>eq_pending := []\<rparr>"

text \<open>The part of \<^verbatim>\<open>getEvent\<close> after the wait, for an event that came through the buffer.\<close>

definition getEvent ::
    "('t, 'd, 'h) event_queue \<Rightarrow> ('t, 'd) event option \<times> ('t, 'd, 'h) event_queue" where
  "getEvent q =
     (case buf_getEvent (eq_buffer q) of
        (None, b) \<Rightarrow> (None, q\<lparr>eq_buffer := b\<rparr>)
      | (Some i, b) \<Rightarrow>
          (let (e, q') = removeEvent (q\<lparr>eq_buffer := b\<rparr>) i in (Some e, q')))"

definition set_buffer :: "('t, 'd, 'h) event_queue \<Rightarrow> ('t, 'd, 'h) event_queue" where
  "set_buffer q =
     q\<lparr>eq_events := [], eq_oldEventIDs := [], eq_buffer := simple_buffer_new\<rparr>"

datatype queue_error = WrongEventQueue

definition add_handler ::
    "('t, 'd, 'h) event_queue \<Rightarrow> event_type \<Rightarrow> 't \<Rightarrow> 'h \<Rightarrow>
       queue_error + ('t, 'd, 'h) event_queue" where
  "add_handler q ty t h =
     (if eq_owned q t \<noteq> None \<and> eq_owned q t \<noteq> Some (eq_self q) then Inl WrongEventQueue
      else Inr (q\<lparr>eq_owned := (eq_owned q)(t \<mapsto> eq_self q),
                 eq_handlers := (eq_handlers q)
                   (t \<mapsto> (ty, h) # (case eq_handlers q t of None \<Rightarrow> []
                          | Some hs \<Rightarrow> filter (\<lambda>(k, _). k \<noteq> ty) hs))\<rparr>))"

definition remove_handler ::
    "('t, 'd, 'h) event_queue \<Rightarrow> event_type \<Rightarrow> 't \<Rightarrow> ('t, 'd, 'h) event_queue" where
  "remove_handler q ty t =
     (if eq_owned q t = None then q
      else case eq_handlers q t of
        None \<Rightarrow> q
      | Some hs \<Rightarrow>
          (let hs' = filter (\<lambda>(k, _). k \<noteq> ty) hs in
           if hs' = []
           then q\<lparr>eq_handlers := (eq_handlers q)(t := None), eq_owned := (eq_owned q)(t := None)\<rparr>
           else q\<lparr>eq_handlers := (eq_handlers q)(t \<mapsto> hs')\<rparr>))"

definition remove_handlers ::
    "('t, 'd, 'h) event_queue \<Rightarrow> 't \<Rightarrow> queue_error + ('t, 'd, 'h) event_queue" where
  "remove_handlers q t =
     (if eq_owned q t = None then Inr q
      else if eq_owned q t \<noteq> Some (eq_self q) then Inl WrongEventQueue
      else Inr (q\<lparr>eq_handlers := (eq_handlers q)(t := None),
                 eq_owned := (eq_owned q)(t := None)\<rparr>))"

subsection \<open>The invariant: ids\<close>

text \<open>
  Live and freed ids together are exactly the numbers below a bound and no id is both; the buffer
  holds the ids of the stored events, each once, and its ready flag says whether it holds any.
\<close>

definition eq_ids :: "('t, 'd, 'h) event_queue \<Rightarrow> nat list" where
  "eq_ids q = map fst (eq_events q) @ eq_oldEventIDs q"

definition ids_ok :: "('t, 'd, 'h) event_queue \<Rightarrow> bool" where
  "ids_ok q \<longleftrightarrow>
     distinct (eq_ids q) \<and> set (eq_ids q) = {..<length (eq_ids q)} \<and> length (eq_ids q) \<le> 2 ^ 32"

lemma ids_ok_mset: "ids_ok q \<Longrightarrow> mset (eq_ids q') = mset (eq_ids q) \<Longrightarrow> ids_ok q'"
  unfolding ids_ok_def by (metis mset_eq_imp_distinct_iff mset_eq_length mset_eq_setD)

definition eq_inv :: "('t, 'd, 'h) event_queue \<Rightarrow> bool" where
  "eq_inv q \<longleftrightarrow> ids_ok q \<and>
     distinct (m_queue (eq_buffer q)) \<and>
     set (m_queue (eq_buffer q)) = set (map fst (eq_events q)) \<and>
     (m_queueReady (eq_buffer q) \<longleftrightarrow> m_queue (eq_buffer q) \<noteq> [])"

text \<open>The events waiting in the buffer, oldest first.\<close>

definition eq_waiting :: "('t, 'd, 'h) event_queue \<Rightarrow> ('t, 'd) event list" where
  "eq_waiting q = map (\<lambda>i. the (map_of (eq_events q) i)) (rev (m_queue (eq_buffer q)))"

lemma filter_fresh: "i \<notin> set (map fst xs) \<Longrightarrow> filter (\<lambda>(j, _). j \<noteq> i) xs = xs"
  by (induction xs) auto

lemma map_fst_filter: "map fst (filter (\<lambda>(j, _). j \<noteq> i) xs) = filter (\<lambda>j. j \<noteq> i) (map fst xs)"
  by (induction xs) auto

lemma map_of_filter: "map_of (filter (\<lambda>(j, _). j \<noteq> i) xs) k = (if k = i then None else map_of xs k)"
  by (induction xs) auto

lemma event_queue_new_inv: "eq_inv (event_queue_new self)"
  by (simp add: eq_inv_def ids_ok_def eq_ids_def event_queue_new_def simple_buffer_new_def)

lemma mset_keys_filter:
  "distinct (map fst xs) \<Longrightarrow> i \<in> set (map fst xs) \<Longrightarrow>
     mset (map fst xs) = add_mset i (mset (map fst (filter (\<lambda>(j, _). j \<noteq> i) xs)))"
proof (induction xs)
  case Nil
  then show ?case by simp
next
  case (Cons x xs)
  then show ?case by (cases x; cases "fst x = i") (simp_all add: filter_fresh)
qed

lemma save_event_fresh:
  assumes "ids_ok q" "length (eq_events q) < 2 ^ 32" "save_event q e = (i, q')"
  shows "i \<notin> set (map fst (eq_events q)) \<and> eq_events q' = (i, e) # eq_events q \<and>
         ids_ok q' \<and> eq_buffer q' = eq_buffer q"
proof (cases "eq_oldEventIDs q" rule: rev_cases)
  case Nil
  with assms have i: "i = length (eq_events q)" by (auto simp: save_event_def Let_def)
  have keys: "set (map fst (eq_events q)) = {..<length (eq_events q)}"
    using assms(1) Nil by (simp add: ids_ok_def eq_ids_def)
  then have "i \<notin> set (map fst (eq_events q))" using i by simp
  moreover from this have "q' = q\<lparr>eq_events := (i, e) # eq_events q\<rparr>"
    using assms(2,3) Nil by (auto simp: save_event_def Let_def filter_fresh)
  moreover have "ids_ok (q\<lparr>eq_events := (i, e) # eq_events q\<rparr>)"
    using keys i assms(1,2) Nil by (auto simp: ids_ok_def eq_ids_def lessThan_Suc)
  ultimately show ?thesis by simp
next
  case (snoc olds j)
  then have i: "i = j" using assms(3) by (auto simp: save_event_def)
  with assms(1) snoc have fresh: "i \<notin> set (map fst (eq_events q))"
    by (auto simp: ids_ok_def eq_ids_def)
  then have q': "q' = q\<lparr>eq_oldEventIDs := olds, eq_events := (i, e) # eq_events q\<rparr>"
    using assms(3) snoc i by (auto simp: save_event_def filter_fresh)
  have "ids_ok q'" using assms(1) by (rule ids_ok_mset) (simp add: eq_ids_def q' snoc i)
  with fresh show ?thesis by (simp add: q')
qed

lemma removeEvent_ids:
  assumes "ids_ok q" "i \<in> set (map fst (eq_events q))" "removeEvent q i = (e, q')"
  shows "map_of (eq_events q) i = Some e \<and> ids_ok q' \<and> eq_buffer q' = eq_buffer q \<and>
         eq_events q' = filter (\<lambda>(j, _). j \<noteq> i) (eq_events q)"
proof -
  obtain x where x: "map_of (eq_events q) i = Some x"
    using assms(2) by (metis map_of_eq_None_iff not_None_eq set_map)
  then have q': "q' = q\<lparr>eq_events := filter (\<lambda>(j, _). j \<noteq> i) (eq_events q),
      eq_oldEventIDs := eq_oldEventIDs q @ [i]\<rparr>" "e = x"
    using assms(3) by (auto simp: removeEvent_def)
  have "ids_ok q'"
    using assms(1)
  proof (rule ids_ok_mset)
    have "distinct (map fst (eq_events q))" using assms(1) by (simp add: ids_ok_def eq_ids_def)
    from mset_keys_filter [OF this assms(2)] show "mset (eq_ids q') = mset (eq_ids q)"
      by (simp add: eq_ids_def q')
  qed
  with x q' show ?thesis by simp
qed

subsection \<open>The queue as a channel\<close>

lemma add_event_to_buffer_inv:
  assumes "eq_inv q" "length (eq_events q) < 2 ^ 32"
  shows "eq_inv (add_event_to_buffer q e) \<and>
         eq_waiting (add_event_to_buffer q e) = eq_waiting q @ [e]"
proof -
  obtain i q' where s: "save_event q e = (i, q')" by fastforce
  have f: "i \<notin> set (map fst (eq_events q))" "eq_events q' = (i, e) # eq_events q"
    "ids_ok q'" "eq_buffer q' = eq_buffer q"
    using save_event_fresh [OF _ assms(2) s] assms(1) by (auto simp: eq_inv_def)
  have fresh: "i \<notin> set (m_queue (eq_buffer q))" using assms(1) f(1) by (simp add: eq_inv_def)
  have "ids_ok (add_event_to_buffer q e)"
    using f(3) by (rule ids_ok_mset) (simp add: add_event_to_buffer_def s eq_ids_def)
  then have "eq_inv (add_event_to_buffer q e)"
    using assms(1) f fresh by (auto simp: eq_inv_def add_event_to_buffer_def s buf_addEvent_def)
  moreover have "eq_waiting (add_event_to_buffer q e) = eq_waiting q @ [e]"
    using fresh f by (auto simp: eq_waiting_def add_event_to_buffer_def s buf_addEvent_def)
  ultimately show ?thesis by simp
qed

lemma getEvent_empty: "eq_inv q \<Longrightarrow> eq_waiting q = [] \<Longrightarrow> getEvent q = (None, q)"
  by (simp add: getEvent_def buf_getEvent_def eq_inv_def eq_waiting_def)

lemma getEvent_first:
  assumes "eq_inv q" "eq_waiting q = e # es"
  shows "\<exists>q'. getEvent q = (Some e, q') \<and> eq_inv q' \<and> eq_waiting q' = es"
proof -
  obtain ids i where ids: "m_queue (eq_buffer q) = ids @ [i]"
    using assms(2) by (cases "m_queue (eq_buffer q)" rule: rev_cases) (auto simp: eq_waiting_def)
  define b where "b = (eq_buffer q)\<lparr>m_queue := ids, m_queueReady := (ids \<noteq> [])\<rparr>"
  have get: "buf_getEvent (eq_buffer q) = (Some i, b)"
    using assms(1) ids by (simp add: buf_getEvent_def eq_inv_def b_def)
  obtain x q' where r: "removeEvent (q\<lparr>eq_buffer := b\<rparr>) i = (x, q')" by fastforce
  have "ids_ok (q\<lparr>eq_buffer := b\<rparr>)"
    by (rule ids_ok_mset [of q]) (use assms(1) in \<open>auto simp: eq_inv_def eq_ids_def\<close>)
  moreover have "i \<in> set (map fst (eq_events (q\<lparr>eq_buffer := b\<rparr>)))"
    using assms(1) ids by (auto simp: eq_inv_def)
  ultimately have q': "map_of (eq_events q) i = Some x" "ids_ok q'" "eq_buffer q' = b"
    "eq_events q' = filter (\<lambda>(j, _). j \<noteq> i) (eq_events q)"
    using removeEvent_ids [OF _ _ r] by auto
  have ni: "i \<notin> set ids" using assms(1) ids by (auto simp: eq_inv_def)
  have "eq_inv q'"
    using assms(1) ids q' ni by (auto simp: eq_inv_def b_def map_fst_filter simp del: set_map)
  moreover have "eq_waiting q' = es" "x = e"
    using assms(2) ids q' ni by (auto simp: eq_waiting_def b_def map_of_filter)
  ultimately show ?thesis by (simp add: getEvent_def get r)
qed

lemma eq_events_waiting: "eq_inv q \<Longrightarrow> length (eq_events q) = length (eq_waiting q)"
proof -
  assume q: "eq_inv q"
  then have "length (map fst (eq_events q)) = length (m_queue (eq_buffer q))"
    unfolding eq_inv_def ids_ok_def eq_ids_def by (metis distinct_append distinct_card)
  then show ?thesis by (simp add: eq_waiting_def)
qed

text \<open>Receiving \<open>n\<close> times, collecting what arrives.\<close>

fun drain :: "('q \<Rightarrow> 'e option \<times> 'q) \<Rightarrow> nat \<Rightarrow> 'q \<Rightarrow> 'e list \<times> 'q" where
  "drain recv 0 q = ([], q)"
| "drain recv (Suc n) q =
     (case recv q of
        (None, q') \<Rightarrow> ([], q')
      | (Some e, q') \<Rightarrow> (let (es, q'') = drain recv n q' in (e # es, q'')))"

locale event_channel =
  fixes inv :: "'q \<Rightarrow> bool" and waiting :: "'q \<Rightarrow> 'e list" and capacity :: nat
    and send :: "'q \<Rightarrow> 'e \<Rightarrow> 'q" and recv :: "'q \<Rightarrow> 'e option \<times> 'q"
  assumes send_inv: "inv q \<Longrightarrow> length (waiting q) < capacity \<Longrightarrow> inv (send q e)"
    and send_waiting: "inv q \<Longrightarrow> length (waiting q) < capacity \<Longrightarrow> waiting (send q e) = waiting q @ [e]"
    and recv_none: "inv q \<Longrightarrow> waiting q = [] \<Longrightarrow> recv q = (None, q)"
    and recv_first: "inv q \<Longrightarrow> waiting q = e # es \<Longrightarrow>
      \<exists>q'. recv q = (Some e, q') \<and> inv q' \<and> waiting q' = es"
begin

lemma send_all:
  "inv q \<Longrightarrow> length (waiting q) + length es \<le> capacity \<Longrightarrow>
     inv (foldl send q es) \<and> waiting (foldl send q es) = waiting q @ es"
proof (induction es arbitrary: q)
  case Nil
  then show ?case by simp
next
  case (Cons e es)
  then have "inv (send q e)" "waiting (send q e) = waiting q @ [e]"
    by (auto intro: send_inv simp: send_waiting)
  with Cons show ?case by simp
qed

lemma drain_waiting:
  "inv q \<Longrightarrow> waiting q = es @ rest \<Longrightarrow>
     \<exists>q'. drain recv (length es) q = (es, q') \<and> inv q' \<and> waiting q' = rest"
proof (induction es arbitrary: q)
  case Nil
  then show ?case by simp
next
  case (Cons e es)
  then obtain q1 where "recv q = (Some e, q1)" "inv q1" "waiting q1 = es @ rest"
    using recv_first [of q e "es @ rest"] by auto
  with Cons.IH [of q1] show ?case by auto
qed

lemma in_order:
  assumes "inv q" "length (waiting q) + length es \<le> capacity"
  shows "fst (drain recv (length (waiting q @ es)) (foldl send q es)) = waiting q @ es"
proof -
  have "inv (foldl send q es)" "waiting (foldl send q es) = (waiting q @ es) @ []"
    using send_all [OF assms] by auto
  from drain_waiting [OF this] show ?thesis by auto
qed

end

interpretation eq: event_channel eq_inv eq_waiting "2 ^ 32" add_event_to_buffer getEvent
proof unfold_locales
  fix q :: "('a, 'b, 'c) event_queue" and e
  assume "eq_inv q" "length (eq_waiting q) < 2 ^ 32"
  then show "eq_inv (add_event_to_buffer q e)" "eq_waiting (add_event_to_buffer q e) = eq_waiting q @ [e]"
    using add_event_to_buffer_inv [of q e] eq_events_waiting [of q] by auto
qed (auto intro: getEvent_empty getEvent_first)

lemma add_event_to_buffer_ready_pending:
  "eq_is_ready (add_event_to_buffer q e) = eq_is_ready q \<and>
   eq_pending (add_event_to_buffer q e) = eq_pending q"
  by (simp add: add_event_to_buffer_def save_event_def Let_def split: prod.splits)

lemma eq_inv_frame:
  "eq_inv (q\<lparr>eq_is_ready := r\<rparr>) = eq_inv q" "eq_inv (q\<lparr>eq_pending := p\<rparr>) = eq_inv q"
  "eq_waiting (q\<lparr>eq_is_ready := r\<rparr>) = eq_waiting q" "eq_waiting (q\<lparr>eq_pending := p\<rparr>) = eq_waiting q"
  by (simp_all add: eq_inv_def ids_ok_def eq_ids_def eq_waiting_def)

lemma loop_start_waiting:
  assumes "eq_inv q" "length (eq_waiting q) + length (eq_pending q) \<le> 2 ^ 32"
  shows "eq_inv (loop_start q) \<and> eq_waiting (loop_start q) = eq_waiting q @ eq_pending q \<and>
         eq_pending (loop_start q) = []"
  using eq.send_all [of "q\<lparr>eq_is_ready := True\<rparr>" "eq_pending q"] assms
  by (simp add: loop_start_def eq_inv_frame)

subsection \<open>Handlers\<close>

lemma dispatch_after_add_handler:
  assumes "add_handler q ty t h = Inr q'" "ev_type e = ty" "ev_target e = Some t"
  shows "dispatchEvent q' e = Some h"
  using assms by (auto simp: add_handler_def dispatchEvent_def get_handler_def split: if_splits)

lemma dispatch_other_target:
  assumes "add_handler q ty t h = Inr q'" "ev_target e \<noteq> Some t"
  shows "dispatchEvent q' e = dispatchEvent q e"
  using assms
  by (auto simp: add_handler_def dispatchEvent_def get_handler_def split: if_splits option.splits)

lemma dispatch_after_remove_handlers:
  assumes "remove_handlers q t = Inr q'" "\<forall>t. eq_handlers q t \<noteq> None \<longrightarrow> eq_owned q t \<noteq> None"
    "ev_target e = Some t"
  shows "dispatchEvent q' e = None"
  using assms by (auto simp: remove_handlers_def dispatchEvent_def get_handler_def
      split: if_splits option.splits)

lemma map_of_filter_key:
  "map_of (filter (\<lambda>(k, _). k \<noteq> ty) hs) x = (if x = ty then None else map_of hs x)"
  by (induction hs) auto

lemma get_handler_after_remove:
  assumes "eq_owned q t \<noteq> None"
  shows "get_handler (remove_handler q ty t) ty' tgt =
           (if ty' = ty \<and> tgt = Some t then None else get_handler q ty' tgt)"
proof (cases "eq_handlers q t")
  case None
  then show ?thesis using assms by (auto simp: remove_handler_def get_handler_def split: option.splits)
next
  case (Some hs)
  have "filter (\<lambda>(k, _). k \<noteq> ty) hs = [] \<Longrightarrow> map_of hs ty' = (if ty' = ty then map_of hs ty else None)"
    using map_of_filter_key [of ty hs ty'] by (auto split: if_splits)
  then show ?thesis
    using assms Some
    by (auto simp: remove_handler_def get_handler_def Let_def map_of_filter_key split: option.splits)
qed

subsection \<open>Properties\<close>

text \<open>
  C23. Events are delivered in the order they were added, each once: those posted before the loop started,
  which are kept aside until then, come before those posted while it runs.
\<close>

theorem events_delivered_in_order:
  assumes "eq_inv q" "eq_waiting q = []" "length (eq_pending q) + length es \<le> 2 ^ 32"
    and "\<forall>e \<in> set es. ev_type e \<notin> {UNKNOWN, SYSTEM, TIMER} \<and> ev_flags e AND kDeliverImmediately = 0"
  shows "fst (drain getEvent (length (eq_pending q @ es))
      (foldl (\<lambda>r e. fst (add_event r e)) (loop_start q) es)) = eq_pending q @ es"
proof -
  have ready: "eq_is_ready (loop_start q)"
  proof -
    have "eq_is_ready (foldl add_event_to_buffer r xs) = eq_is_ready r" for r :: "('a, 'b, 'c) event_queue" and xs
      by (induction xs arbitrary: r) (auto simp: add_event_to_buffer_ready_pending)
    then show ?thesis by (simp add: loop_start_def)
  qed
  have add: "foldl (\<lambda>r e. fst (add_event r e)) r es = foldl add_event_to_buffer r es"
    if "eq_is_ready r" for r :: "('a, 'b, 'c) event_queue"
    using that assms(4)
    by (induction es arbitrary: r) (auto simp: add_event_def add_event_to_buffer_ready_pending)
  have s: "eq_inv (loop_start q)" "eq_waiting (loop_start q) = eq_pending q"
    using loop_start_waiting [OF assms(1)] assms(2,3) by auto
  show ?thesis
    using eq.in_order [OF s(1), of es] assms(3) by (simp add: s(2) add [OF ready])
qed

definition sample_event :: "nat \<Rightarrow> (nat, nat) event" where
  "sample_event n = \<lparr>ev_type = OTHER_EVENT n, ev_target = Some 0, ev_data = None, ev_flags = 0\<rparr>"

definition sample_queue :: "(nat, nat, nat) event_queue" where
  "sample_queue = (event_queue_new 0)\<lparr>eq_pending := [sample_event 1]\<rparr>"

theorem events_delivered_in_order_witness:
  "fst (drain getEvent (length (eq_pending sample_queue @ [sample_event 2, sample_event 3]))
      (foldl (\<lambda>r e. fst (add_event r e)) (loop_start sample_queue) [sample_event 2, sample_event 3])) =
    eq_pending sample_queue @ [sample_event 2, sample_event 3]"
proof (rule events_delivered_in_order)
  show "eq_inv sample_queue"
    by (simp add: sample_queue_def eq_inv_frame event_queue_new_inv)
qed (simp_all add: sample_queue_def eq_inv_frame eq_waiting_def event_queue_new_def simple_buffer_new_def
    sample_event_def)

text \<open>
  An event is never stored under the id of another event that still waits, although ids are reused:
  the new id is fresh and the table keeps the id bookkeeping intact.
\<close>

theorem event_ids_never_clash:
  assumes "eq_inv q" "length (eq_events q) < 2 ^ 32" "save_event q e = (i, q')"
  shows "map_of (eq_events q) i = None \<and> map_of (eq_events q') i = Some e \<and>
    (\<forall>j. j \<noteq> i \<longrightarrow> map_of (eq_events q') j = map_of (eq_events q) j) \<and> ids_ok q'"
  using save_event_fresh [of q e i q'] assms by (auto simp: eq_inv_def map_of_eq_None_iff)

theorem event_ids_never_clash_witness:
  "map_of (eq_events (event_queue_new 0 :: (nat, nat, nat) event_queue)) 0 = None \<and>
   map_of (eq_events (snd (save_event (event_queue_new 0 :: (nat, nat, nat) event_queue) (sample_event 4)))) 0 =
     Some (sample_event 4)"
proof -
  have "save_event (event_queue_new 0 :: (nat, nat, nat) event_queue) (sample_event 4) =
      (0, snd (save_event (event_queue_new 0) (sample_event 4)))"
    by (simp add: save_event_def event_queue_new_def)
  from event_ids_never_clash [OF event_queue_new_inv _ this] show ?thesis by (simp add: event_queue_new_def)
qed

end
