(* ===== verification/IStream.thy ===== *)
theory IStream
  imports Prelude
begin

text \<open>
  The contract of \<^verbatim>\<open>IStream::read\<close> (\<^verbatim>\<open>src/lib/io/IStream.h\<close>) that the protocol reader relies
  on, and the loop of \<^verbatim>\<open>ProtocolUtil::read\<close> over it. A stream is any state type with a read
  function: \<open>rd s n\<close> delivers at most \<open>n\<close> bytes, none only if none is available or none is
  asked for. \<open>rd s n = None\<close> stands for a failed assertion inside the stream.
\<close>

type_synonym 's reader = "'s \<Rightarrow> nat \<Rightarrow> (bytes \<times> 's) option"

text \<open>The exceptions that reach a caller of the protocol reader.\<close>

datatype read_error =
    XIOEndOfStream | XIOReadMismatch | XBadClient | AssertionFailed

text \<open>
  \<^verbatim>\<open>ProtocolUtil::read\<close>: reads are repeated until \<open>count\<close> bytes have arrived; a read that
  delivers nothing ends with \<^verbatim>\<open>XIOEndOfStream\<close>. The bytes that arrived before an exception are lost
  to the caller; the stream keeps its new state.
\<close>

function stream_read :: "'s reader \<Rightarrow> 's \<Rightarrow> nat \<Rightarrow> (read_error + bytes) \<times> 's" where
  "stream_read rd s count =
     (if count = 0 then (Inr [], s)
      else case rd s count of
        None \<Rightarrow> (Inl AssertionFailed, s)
      | Some (bs, s') \<Rightarrow>
          (if bs = [] then (Inl XIOEndOfStream, s')
           else case stream_read rd s' (count - length bs) of
             (Inl e, s'') \<Rightarrow> (Inl e, s'')
           | (Inr rest, s'') \<Rightarrow> (Inr (bs @ rest), s'')))"
  by pat_completeness auto
termination
  by (relation "measure (\<lambda>(rd, s, count). count)") auto

declare stream_read.simps [simp del]

locale istream =
  fixes ok :: "'s \<Rightarrow> bool" and avail :: "'s \<Rightarrow> bytes" and rd :: "'s reader"
  assumes rd_spec: "ok s \<Longrightarrow>
    \<exists>bs s'. rd s n = Some (bs, s') \<and> ok s' \<and> avail s = bs @ avail s' \<and> length bs \<le> n \<and>
      (0 < n \<and> avail s \<noteq> [] \<longrightarrow> bs \<noteq> [])"
begin

text \<open>With enough bytes available the loop delivers exactly the first \<open>count\<close> of them.\<close>

lemma stream_read_enough:
  assumes "ok s" "avail s = bs @ rest" "length bs = count"
  shows "\<exists>s'. stream_read rd s count = (Inr bs, s') \<and> ok s' \<and> avail s' = rest"
  using assms
proof (induction count arbitrary: s bs rule: less_induct)
  case (less count)
  show ?case
  proof (cases "count = 0")
    case True
    with less.prems show ?thesis by (simp add: stream_read.simps)
  next
    case False
    then have ne: "avail s \<noteq> []" using less.prems(2,3) by auto
    obtain cs s' where r: "rd s count = Some (cs, s')" "ok s'" "avail s = cs @ avail s'"
      "length cs \<le> count" "cs \<noteq> []"
      using rd_spec [OF less.prems(1), of count] False ne by auto
    then obtain ds where ds: "bs = cs @ ds" "avail s' = ds @ rest"
      using less.prems(2,3) by (metis append_eq_append_conv_if append_take_drop_id append_assoc same_append_eq)
    have "count - length cs < count" "length ds = count - length cs"
      using r(5) ds(1) less.prems(3) False by auto
    then obtain s'' where "stream_read rd s' (count - length cs) = (Inr ds, s'')" "ok s''" "avail s'' = rest"
      using less.IH [OF _ r(2) ds(2)] by blast
    then show ?thesis
      using r(1,5) ds(1) False by (subst stream_read.simps) simp
  qed
qed

text \<open>With too few bytes the loop drains the stream and reports the end of it.\<close>

lemma stream_read_short:
  assumes "ok s" "length (avail s) < count"
  shows "\<exists>s'. stream_read rd s count = (Inl XIOEndOfStream, s') \<and> ok s' \<and> avail s' = []"
  using assms
proof (induction count arbitrary: s rule: less_induct)
  case (less count)
  obtain cs s' where r: "rd s count = Some (cs, s')" "ok s'" "avail s = cs @ avail s'"
    "length cs \<le> count" "avail s \<noteq> [] \<longrightarrow> cs \<noteq> []"
    using rd_spec [OF less.prems(1), of count] less.prems(2) by auto
  show ?case
  proof (cases "cs = []")
    case True
    with r(3,5) have "avail s' = []" by simp
    moreover have "stream_read rd s count = (Inl XIOEndOfStream, s')"
      using r(1) True less.prems(2) by (subst stream_read.simps) simp
    ultimately show ?thesis using r(2) by blast
  next
    case False
    then have "count - length cs < count" "length (avail s') < count - length cs"
      using r(3,4) less.prems(2) by auto
    then obtain s'' where "stream_read rd s' (count - length cs) = (Inl XIOEndOfStream, s'')"
      "ok s''" "avail s'' = []"
      using less.IH [OF _ r(2)] by blast
    moreover from this have "stream_read rd s count = (Inl XIOEndOfStream, s'')"
      using r(1) False less.prems(2) by (subst stream_read.simps) simp
    ultimately show ?thesis by blast
  qed
qed

text \<open>In every case the loop ends and the stream stays well formed.\<close>

lemma stream_read_cases:
  assumes "ok s"
  obtains s' where "count \<le> length (avail s)" "stream_read rd s count = (Inr (take count (avail s)), s')"
      "ok s'" "avail s' = drop count (avail s)"
  | s' where "length (avail s) < count" "stream_read rd s count = (Inl XIOEndOfStream, s')"
      "ok s'" "avail s' = []"
proof (cases "count \<le> length (avail s)")
  case True
  then obtain s' where "stream_read rd s count = (Inr (take count (avail s)), s')" "ok s'"
    "avail s' = drop count (avail s)"
    using stream_read_enough [OF assms, of "take count (avail s)" "drop count (avail s)" count] by auto
  with True that(1) show thesis by blast
next
  case False
  then show thesis using stream_read_short [OF assms, of count] that(2) by auto
qed

end

end
