(* ===== verification/ProtocolUtil.thy ===== *)
theory ProtocolUtil
  imports IStream
begin

text \<open>
  The formatted reader and writer of \<^verbatim>\<open>src/lib/inputleap/ProtocolUtil.cpp\<close>, with the message
  formats of \<^verbatim>\<open>protocol_types.cpp\<close>. A format is a C string: ordinary characters are sent as they are,
  \<open>%1i\<close>, \<open>%2i\<close>, \<open>%4i\<close> are big-endian integers, \<open>%1I\<close>, \<open>%2I\<close>, \<open>%4I\<close> counted lists, \<open>%s\<close> and
  \<open>%S\<close> counted byte strings. Both passes of the writer are modelled, with every exception; the reader
  works on any stream with the contract \<open>istream\<close>. The main lemmas say that the writer emits exactly
  as many bytes as its first pass computed, never more than the protocol's limit, and that the reader
  returns what the writer was given, byte for byte.
\<close>

subsection \<open>Limits and formats\<close>

definition PROTOCOL_MAX_MESSAGE_LENGTH :: nat where
  "PROTOCOL_MAX_MESSAGE_LENGTH = 4 * 1024 * 1024"

definition PROTOCOL_MAX_LIST_LENGTH :: nat where
  "PROTOCOL_MAX_LIST_LENGTH = 1024 * 1024"

definition PROTOCOL_MAX_STRING_LENGTH :: nat where
  "PROTOCOL_MAX_STRING_LENGTH = 1024 * 1024"

lemmas protocol_limits =
  PROTOCOL_MAX_MESSAGE_LENGTH_def PROTOCOL_MAX_LIST_LENGTH_def PROTOCOL_MAX_STRING_LENGTH_def

text \<open>The message formats, in the order of \<^verbatim>\<open>protocol_types.cpp\<close>.\<close>

definition kMsgHello :: string where "kMsgHello = ''Barrier%2i%2i''"
definition kMsgHelloBack :: string where "kMsgHelloBack = ''Barrier%2i%2i%s''"
definition kMsgCNoop :: string where "kMsgCNoop = ''CNOP''"
definition kMsgCClose :: string where "kMsgCClose = ''CBYE''"
definition kMsgCEnter :: string where "kMsgCEnter = ''CINN%2i%2i%4i%2i''"
definition kMsgCLeave :: string where "kMsgCLeave = ''COUT''"
definition kMsgCClipboard :: string where "kMsgCClipboard = ''CCLP%1i%4i''"
definition kMsgCScreenSaver :: string where "kMsgCScreenSaver = ''CSEC%1i''"
definition kMsgCResetOptions :: string where "kMsgCResetOptions = ''CROP''"
definition kMsgCInfoAck :: string where "kMsgCInfoAck = ''CIAK''"
definition kMsgCKeepAlive :: string where "kMsgCKeepAlive = ''CALV''"
definition kMsgDKeyDown :: string where "kMsgDKeyDown = ''DKDN%2i%2i%2i''"
definition kMsgDKeyDown1_0 :: string where "kMsgDKeyDown1_0 = ''DKDN%2i%2i''"
definition kMsgDKeyRepeat :: string where "kMsgDKeyRepeat = ''DKRP%2i%2i%2i%2i''"
definition kMsgDKeyRepeat1_0 :: string where "kMsgDKeyRepeat1_0 = ''DKRP%2i%2i%2i''"
definition kMsgDKeyUp :: string where "kMsgDKeyUp = ''DKUP%2i%2i%2i''"
definition kMsgDKeyUp1_0 :: string where "kMsgDKeyUp1_0 = ''DKUP%2i%2i''"
definition kMsgDMouseDown :: string where "kMsgDMouseDown = ''DMDN%1i''"
definition kMsgDMouseUp :: string where "kMsgDMouseUp = ''DMUP%1i''"
definition kMsgDMouseMove :: string where "kMsgDMouseMove = ''DMMV%2i%2i''"
definition kMsgDMouseRelMove :: string where "kMsgDMouseRelMove = ''DMRM%2i%2i''"
definition kMsgDMouseWheel :: string where "kMsgDMouseWheel = ''DMWM%2i%2i''"
definition kMsgDMouseWheel1_0 :: string where "kMsgDMouseWheel1_0 = ''DMWM%2i''"
definition kMsgDClipboard :: string where "kMsgDClipboard = ''DCLP%1i%4i%1i%s''"
definition kMsgDInfo :: string where "kMsgDInfo = ''DINF%2i%2i%2i%2i%2i%2i%2i''"
definition kMsgDSetOptions :: string where "kMsgDSetOptions = ''DSOP%4I''"
definition kMsgDFileTransfer :: string where "kMsgDFileTransfer = ''DFTR%1i%s''"
definition kMsgDDragInfo :: string where "kMsgDDragInfo = ''DDRG%2i%s''"
definition kMsgQInfo :: string where "kMsgQInfo = ''QINF''"
definition kMsgEIncompatible :: string where "kMsgEIncompatible = ''EICV%2i%2i''"
definition kMsgEBusy :: string where "kMsgEBusy = ''EBSY''"
definition kMsgEUnknown :: string where "kMsgEUnknown = ''EUNK''"
definition kMsgEBad :: string where "kMsgEBad = ''EBAD''"

lemmas msg_defs =
  kMsgHello_def kMsgHelloBack_def kMsgCNoop_def kMsgCClose_def kMsgCEnter_def kMsgCLeave_def
  kMsgCClipboard_def kMsgCScreenSaver_def kMsgCResetOptions_def kMsgCInfoAck_def kMsgCKeepAlive_def
  kMsgDKeyDown_def kMsgDKeyDown1_0_def kMsgDKeyRepeat_def kMsgDKeyRepeat1_0_def kMsgDKeyUp_def
  kMsgDKeyUp1_0_def kMsgDMouseDown_def kMsgDMouseUp_def kMsgDMouseMove_def kMsgDMouseRelMove_def
  kMsgDMouseWheel_def kMsgDMouseWheel1_0_def kMsgDClipboard_def kMsgDInfo_def kMsgDSetOptions_def
  kMsgDFileTransfer_def kMsgDDragInfo_def kMsgQInfo_def kMsgEIncompatible_def kMsgEBusy_def
  kMsgEUnknown_def kMsgEBad_def

subsection \<open>eatLength\<close>

definition digit_value :: "char \<Rightarrow> u32 option" where
  "digit_value c =
     (let code = of_char c :: nat in
      if 48 \<le> code \<and> code \<le> 57 then Some (of_nat (code - 48)) else None)"

text \<open>The decimal number at the cursor, in 32-bit arithmetic, and the rest of the format.\<close>

fun eatLength :: "u32 \<Rightarrow> string \<Rightarrow> u32 \<times> string" where
  "eatLength n [] = (n, [])"
| "eatLength n (c # cs) =
     (case digit_value c of None \<Rightarrow> (n, c # cs) | Some d \<Rightarrow> eatLength (10 * n + d) cs)"

lemma eatLength_le: "eatLength n cs = (m, rest) \<Longrightarrow> length rest \<le> length cs"
  by (induction n cs rule: eatLength.induct) (auto split: option.splits)

lemma eatLength_less: "(m, d # rest) = eatLength n cs \<Longrightarrow> length rest < length cs"
  using eatLength_le [of n cs m "d # rest"] by simp

subsection \<open>The writer\<close>

text \<open>
  A \<^verbatim>\<open>WriteArgument\<close>: an integer, or a pointer (\<open>None\<close> is \<^verbatim>\<open>nullptr\<close>) to a string, a list or raw
  bytes.
\<close>

datatype write_arg =
    WInteger u32
  | WString "bytes option"
  | WList8 "byte list option"
  | WList16 "u16 list option"
  | WList32 "u32 list option"
  | WBytes "bytes option"

text \<open>\<^verbatim>\<open>std::length_error\<close>, \<^verbatim>\<open>std::invalid_argument\<close>, and a read outside the argument's memory.\<close>

datatype write_error = LengthError | InvalidArgument | OutOfBounds

definition addLength :: "nat \<Rightarrow> nat \<Rightarrow> write_error + nat" where
  "addLength tot len =
     (if PROTOCOL_MAX_MESSAGE_LENGTH - tot < len then Inl LengthError else Inr (tot + len))"

text \<open>The size check of a list argument, whose elements take \<open>len\<close> bytes each.\<close>

definition list_total :: "nat \<Rightarrow> nat \<Rightarrow> nat \<Rightarrow> write_error + nat" where
  "list_total tot n len =
     (if PROTOCOL_MAX_LIST_LENGTH < n then Inl LengthError
      else if (PROTOCOL_MAX_MESSAGE_LENGTH - 4) div len < n then Inl LengthError
      else addLength tot (4 + n * len))"

text \<open>
  One format specifier of the first pass: the arguments left over and the new tot, or the
  exception. A list whose pointer is null is refused, a string whose pointer is null is empty.
\<close>

definition check_spec :: "u32 \<Rightarrow> char \<Rightarrow> write_arg list \<Rightarrow> nat \<Rightarrow> write_error + write_arg list \<times> nat" where
  "check_spec len c args tot =
     (if c = CHR ''i'' then
        (if len \<noteq> 1 \<and> len \<noteq> 2 \<and> len \<noteq> 4 then Inl InvalidArgument
         else case args of
           WInteger _ # rest \<Rightarrow> map_sum id (Pair rest) (addLength tot (unat len))
         | _ \<Rightarrow> Inl InvalidArgument)
      else if c = CHR ''I'' then
        (if len \<noteq> 1 \<and> len \<noteq> 2 \<and> len \<noteq> 4 then Inl InvalidArgument
         else case args of
           WList8 p # rest \<Rightarrow>
             (if len \<noteq> 1 then Inl InvalidArgument
              else case p of None \<Rightarrow> Inl LengthError
                | Some xs \<Rightarrow> map_sum id (Pair rest) (list_total tot (length xs) 1))
         | WList16 p # rest \<Rightarrow>
             (if len \<noteq> 2 then Inl InvalidArgument
              else case p of None \<Rightarrow> Inl LengthError
                | Some xs \<Rightarrow> map_sum id (Pair rest) (list_total tot (length xs) 2))
         | WList32 p # rest \<Rightarrow>
             (if len \<noteq> 4 then Inl InvalidArgument
              else case p of None \<Rightarrow> Inl LengthError
                | Some xs \<Rightarrow> map_sum id (Pair rest) (list_total tot (length xs) 4))
         | _ \<Rightarrow> Inl InvalidArgument)
      else if c = CHR ''s'' then
        (if len \<noteq> 0 then Inl InvalidArgument
         else case args of
           WString p # rest \<Rightarrow>
             (let sz = (case p of None \<Rightarrow> 0 | Some xs \<Rightarrow> length xs) in
              if PROTOCOL_MAX_STRING_LENGTH < sz then Inl LengthError
              else map_sum id (Pair rest) (addLength tot (4 + sz)))
         | _ \<Rightarrow> Inl InvalidArgument)
      else if c = CHR ''S'' then
        (if len \<noteq> 0 then Inl InvalidArgument
         else case args of
           WInteger n # WBytes p # rest \<Rightarrow>
             (if PROTOCOL_MAX_STRING_LENGTH < unat n \<or> (n \<noteq> 0 \<and> p = None) then Inl LengthError
              else map_sum id (Pair rest) (addLength tot (4 + unat n)))
         | _ \<Rightarrow> Inl InvalidArgument)
      else if c = CHR ''%'' then
        (if len \<noteq> 0 then Inl InvalidArgument else map_sum id (Pair args) (addLength tot 1))
      else Inl InvalidArgument)"

text \<open>The first pass: the length of the message, or the exception.\<close>

function writef_check :: "string \<Rightarrow> write_arg list \<Rightarrow> nat \<Rightarrow> write_error + write_arg list \<times> nat" where
  "writef_check [] args tot = Inr (args, tot)"
| "writef_check (c # cs) args tot =
     (if c \<noteq> CHR ''%'' then
        (case addLength tot 1 of Inl e \<Rightarrow> Inl e | Inr tot' \<Rightarrow> writef_check cs args tot')
      else case eatLength 0 cs of
        (len, []) \<Rightarrow> Inl InvalidArgument
      | (len, d # ds) \<Rightarrow>
          (case check_spec len d args tot of
             Inl e \<Rightarrow> Inl e
           | Inr (args', tot') \<Rightarrow> writef_check ds args' tot'))"
  by pat_completeness auto
termination
  by (relation "measure (\<lambda>(fmt, args, tot). length fmt)") (auto dest!: eatLength_less)

text \<open>One specifier of the second pass: the bytes it appends and the arguments left.\<close>

definition emit_spec :: "u32 \<Rightarrow> char \<Rightarrow> write_arg list \<Rightarrow> write_error + write_arg list \<times> bytes" where
  "emit_spec len c args =
     (if c = CHR ''i'' then
        (case args of
           WInteger v # rest \<Rightarrow> Inr (rest, appendInteger v (unat len))
         | _ \<Rightarrow> Inl OutOfBounds)
      else if c = CHR ''I'' then
        (case args of
           WList8 (Some xs) # rest \<Rightarrow>
             Inr (rest, appendInteger (of_nat (length xs)) 4 @ xs)
         | WList16 (Some xs) # rest \<Rightarrow>
             Inr (rest, appendInteger (of_nat (length xs)) 4 @
                        concat (map (\<lambda>x. appendInteger (ucast x) 2) xs))
         | WList32 (Some xs) # rest \<Rightarrow>
             Inr (rest, appendInteger (of_nat (length xs)) 4 @
                        concat (map (\<lambda>x. appendInteger x 4) xs))
         | _ \<Rightarrow> Inl OutOfBounds)
      else if c = CHR ''s'' then
        (case args of
           WString p # rest \<Rightarrow>
             (let text = (case p of None \<Rightarrow> [] | Some xs \<Rightarrow> xs) in
              Inr (rest, appendInteger (of_nat (length text)) 4 @ text))
         | _ \<Rightarrow> Inl OutOfBounds)
      else if c = CHR ''S'' then
        (case args of
           WInteger n # WBytes p # rest \<Rightarrow>
             (let mem = (case p of None \<Rightarrow> [] | Some xs \<Rightarrow> xs) in
              if length mem < unat n then Inl OutOfBounds
              else Inr (rest, appendInteger n 4 @ take (unat n) mem))
         | _ \<Rightarrow> Inl OutOfBounds)
      else if c = CHR ''%'' then Inr (args, [byte_of (CHR ''%'')])
      else Inl InvalidArgument)"

function writef_emit :: "string \<Rightarrow> write_arg list \<Rightarrow> write_error + bytes" where
  "writef_emit [] args = Inr []"
| "writef_emit (c # cs) args =
     (if c \<noteq> CHR ''%'' then map_sum id (\<lambda>bs. byte_of c # bs) (writef_emit cs args)
      else case eatLength 0 cs of
        (len, []) \<Rightarrow> Inl InvalidArgument
      | (len, d # ds) \<Rightarrow>
          (case emit_spec len d args of
             Inl e \<Rightarrow> Inl e
           | Inr (args', out) \<Rightarrow> map_sum id (\<lambda>bs. out @ bs) (writef_emit ds args')))"
  by pat_completeness auto
termination
  by (relation "measure (\<lambda>(fmt, args). length fmt)") (auto dest!: eatLength_less)

text \<open>
  \<^verbatim>\<open>writefArgs\<close>: the bytes handed to \<^verbatim>\<open>stream->write\<close>; an empty result means that nothing is written.
\<close>

definition writefArgs :: "string \<Rightarrow> write_arg list \<Rightarrow> write_error + bytes" where
  "writefArgs fmt args =
     (case writef_check fmt args 0 of
        Inl e \<Rightarrow> Inl e
      | Inr (rest, tot) \<Rightarrow> if rest \<noteq> [] then Inl InvalidArgument else writef_emit fmt args)"

subsection \<open>The reader\<close>

text \<open>A value stored through one of the argument pointers of \<^verbatim>\<open>readf\<close>.\<close>

datatype read_val =
    RInt1 byte | RInt2 u16 | RInt4 u32
  | RList1 "byte list" | RList2 "u16 list" | RList4 "u32 list"
  | RString bytes

text \<open>The \<open>%i\<close> conversion: the bytes read, taken as one integer of their number.\<close>

definition int_of_bytes :: "bytes \<Rightarrow> read_val option" where
  "int_of_bytes bs =
     (case bs of [a] \<Rightarrow> Some (RInt1 a)
      | [a, b] \<Rightarrow> Some (RInt2 (be16 a b))
      | [a, b, c, d] \<Rightarrow> Some (RInt4 (be32 a b c d))
      | _ \<Rightarrow> None)"

definition read_int :: "'s reader \<Rightarrow> 's \<Rightarrow> u32 \<Rightarrow> read_val list \<times> read_error option \<times> 's" where
  "read_int rd s len =
     (if len \<noteq> 1 \<and> len \<noteq> 2 \<and> len \<noteq> 4 then ([], Some AssertionFailed, s)
      else case stream_read rd s (unat len) of
        (Inl e, s') \<Rightarrow> ([], Some e, s')
      | (Inr bs, s') \<Rightarrow>
          (case int_of_bytes bs of None \<Rightarrow> ([], Some AssertionFailed, s')
           | Some v \<Rightarrow> ([v], None, s')))"

text \<open>
  The loop of the \<open>%I\<close> conversion: \<open>n\<close> items of \<open>len\<close> bytes; an exception keeps the items stored
  so far.
\<close>

fun read_items :: "'s reader \<Rightarrow> 's \<Rightarrow> nat \<Rightarrow> nat \<Rightarrow> bytes list \<times> read_error option \<times> 's" where
  "read_items rd s len 0 = ([], None, s)"
| "read_items rd s len (Suc n) =
     (case stream_read rd s len of
        (Inl e, s') \<Rightarrow> ([], Some e, s')
      | (Inr bs, s') \<Rightarrow>
          (case read_items rd s' len n of (rest, err, s'') \<Rightarrow> (bs # rest, err, s'')))"

definition list_of_items :: "u32 \<Rightarrow> bytes list \<Rightarrow> read_val" where
  "list_of_items len items =
     (if len = 1 then RList1 (map hd items)
      else if len = 2 then RList2 (map (\<lambda>bs. be16 (bs ! 0) (bs ! 1)) items)
      else RList4 (map (\<lambda>bs. be32 (bs ! 0) (bs ! 1) (bs ! 2) (bs ! 3)) items))"

text \<open>The 4-byte count in front of a list or a string.\<close>

definition read_count :: "'s reader \<Rightarrow> 's \<Rightarrow> (read_error + nat) \<times> 's" where
  "read_count rd s =
     (case stream_read rd s 4 of
        (Inl e, s') \<Rightarrow> (Inl e, s')
      | (Inr bs, s') \<Rightarrow>
          (case decode_be32 bs of None \<Rightarrow> (Inl AssertionFailed, s')
           | Some v \<Rightarrow> (Inr (unat v), s')))"

definition read_list :: "'s reader \<Rightarrow> 's \<Rightarrow> u32 \<Rightarrow> read_val list \<times> read_error option \<times> 's" where
  "read_list rd s len =
     (if len \<noteq> 1 \<and> len \<noteq> 2 \<and> len \<noteq> 4 then ([], Some AssertionFailed, s)
      else case read_count rd s of
        (Inl e, s') \<Rightarrow> ([], Some e, s')
      | (Inr n, s') \<Rightarrow>
          (if PROTOCOL_MAX_LIST_LENGTH < n then ([], Some XBadClient, s')
           else case read_items rd s' (unat len) n of
             (items, err, s'') \<Rightarrow> ([list_of_items len items], err, s'')))"

definition read_string :: "'s reader \<Rightarrow> 's \<Rightarrow> u32 \<Rightarrow> read_val list \<times> read_error option \<times> 's" where
  "read_string rd s len =
     (if len \<noteq> 0 then ([], Some AssertionFailed, s)
      else case read_count rd s of
        (Inl e, s') \<Rightarrow> ([], Some e, s')
      | (Inr n, s') \<Rightarrow>
          (if PROTOCOL_MAX_STRING_LENGTH < n then ([], Some XBadClient, s')
           else case stream_read rd s' n of
             (Inl e, s'') \<Rightarrow> ([], Some e, s'')
           | (Inr bs, s'') \<Rightarrow> ([RString bs], None, s'')))"

text \<open>
  One specifier. \<open>%%\<close> reads nothing: the code only checks that no length was given.
\<close>

definition read_spec ::
    "'s reader \<Rightarrow> 's \<Rightarrow> u32 \<Rightarrow> char \<Rightarrow> read_val list \<times> read_error option \<times> 's" where
  "read_spec rd s len c =
     (if c = CHR ''i'' then read_int rd s len
      else if c = CHR ''I'' then read_list rd s len
      else if c = CHR ''s'' then read_string rd s len
      else if c = CHR ''%'' then
        (if len \<noteq> 0 then ([], Some AssertionFailed, s) else ([], None, s))
      else ([], Some AssertionFailed, s))"

text \<open>
  \<^verbatim>\<open>vreadf\<close>: the values stored, the exception if one was thrown, and the stream afterwards.
\<close>

function vreadf :: "'s reader \<Rightarrow> 's \<Rightarrow> string \<Rightarrow> read_val list \<times> read_error option \<times> 's" where
  "vreadf rd s [] = ([], None, s)"
| "vreadf rd s (c # cs) =
     (if c = CHR ''%'' then
        (case eatLength 0 cs of
           (len, []) \<Rightarrow> ([], Some AssertionFailed, s)
         | (len, d # ds) \<Rightarrow>
             (case read_spec rd s len d of
                (vs, Some e, s') \<Rightarrow> (vs, Some e, s')
              | (vs, None, s') \<Rightarrow>
                  (case vreadf rd s' ds of (ws, err, s'') \<Rightarrow> (vs @ ws, err, s''))))
      else case stream_read rd s 1 of
        (Inl e, s') \<Rightarrow> ([], Some e, s')
      | (Inr bs, s') \<Rightarrow>
          (if bs \<noteq> [byte_of c] then ([], Some XIOReadMismatch, s') else vreadf rd s' cs))"
  by pat_completeness auto
termination
  by (relation "measure (\<lambda>(rd, s, fmt). length fmt)") (auto dest!: eatLength_less)

text \<open>
  \<^verbatim>\<open>readf\<close>: an \<^verbatim>\<open>XIO\<close> exception becomes the result \<open>False\<close>; \<^verbatim>\<open>XBadClient\<close> is not an \<^verbatim>\<open>XIO\<close> and
  goes on to the caller.
\<close>

definition is_XIO :: "read_error \<Rightarrow> bool" where
  "is_XIO e \<longleftrightarrow> e = XIOEndOfStream \<or> e = XIOReadMismatch"

definition readf :: "'s reader \<Rightarrow> 's \<Rightarrow> string \<Rightarrow> (read_error + bool) \<times> read_val list \<times> 's" where
  "readf rd s fmt =
     (case vreadf rd s fmt of
        (vs, None, s') \<Rightarrow> (Inr True, vs, s')
      | (vs, Some e, s') \<Rightarrow> ((if is_XIO e then Inr False else Inl e), vs, s'))"

text \<open>
  The typed overload for \<open>%4I\<close>: it appends to the destination only when the whole list arrived.
  \<open>None\<close> in the first component is \<^verbatim>\<open>std::invalid_argument\<close> for another format.
\<close>

definition readf_u32_list ::
    "'s reader \<Rightarrow> 's \<Rightarrow> string \<Rightarrow> u32 list \<Rightarrow> (read_error + bool) option \<times> u32 list \<times> 's" where
  "readf_u32_list rd s fmt values =
     (if fmt \<noteq> ''%4I'' then (None, values, s)
      else case read_count rd s of
        (Inl e, s') \<Rightarrow> (Some (if is_XIO e then Inr False else Inl e), values, s')
      | (Inr n, s') \<Rightarrow>
          (if PROTOCOL_MAX_LIST_LENGTH < n then (Some (Inl XBadClient), values, s')
           else case read_items rd s' 4 n of
             (items, None, s'') \<Rightarrow>
               (Some (Inr True),
                values @ map (\<lambda>bs. be32 (bs ! 0) (bs ! 1) (bs ! 2) (bs ! 3)) items, s'')
           | (items, Some e, s'') \<Rightarrow> (Some (if is_XIO e then Inr False else Inl e), values, s'')))"

subsection \<open>The writer emits what it announced\<close>

lemma addLength_Inr: "addLength tot n = Inr t \<longleftrightarrow> t = tot + n \<and> n \<le> PROTOCOL_MAX_MESSAGE_LENGTH - tot"
  by (auto simp: addLength_def)

lemma list_total_Inr:
  "list_total tot n len = Inr t \<Longrightarrow>
     t = tot + 4 + n * len \<and> 4 + n * len \<le> PROTOCOL_MAX_MESSAGE_LENGTH - tot \<and> n \<le> PROTOCOL_MAX_LIST_LENGTH"
  by (auto simp: list_total_def addLength_Inr split: if_splits)

lemma length_concat_const: "(\<And>x. x \<in> set xs \<Longrightarrow> length (f x) = k) \<Longrightarrow> length (concat (map f xs)) = k * length xs"
  by (induction xs) auto

lemma map_sum_Inr_iff: "map_sum id f x = Inr y \<longleftrightarrow> (\<exists>z. x = Inr z \<and> y = f z)"
  by (cases x) auto

lemma map_sum_Inl_iff: "map_sum id f x = Inl e \<longleftrightarrow> x = Inl e"
  by (cases x) auto

text \<open>A raw byte argument points to at least as many bytes as its count says.\<close>

fun memory_ok :: "write_arg list \<Rightarrow> bool" where
  "memory_ok (WInteger n # WBytes (Some m) # rest) \<longleftrightarrow> unat n \<le> length m \<and> memory_ok rest"
| "memory_ok (_ # rest) \<longleftrightarrow> memory_ok rest"
| "memory_ok [] \<longleftrightarrow> True"

lemma memory_ok_tail: "memory_ok (a # rest) \<Longrightarrow> memory_ok rest"
  by (cases "a # rest" rule: memory_ok.cases) auto

lemma check_emit_spec:
  assumes "check_spec len c args tot = Inr (args', tot')" "memory_ok args"
  shows "\<exists>out. emit_spec len c args = Inr (args', out) \<and> tot' = tot + length out \<and>
           memory_ok args' \<and> (tot \<le> PROTOCOL_MAX_MESSAGE_LENGTH \<longrightarrow> tot' \<le> PROTOCOL_MAX_MESSAGE_LENGTH)"
  using assms unfolding check_spec_def emit_spec_def
  by (auto simp: map_sum_Inr_iff addLength_Inr length_concat_const Let_def
      split: if_splits list.splits write_arg.splits option.splits
      dest!: list_total_Inr dest: memory_ok_tail)

lemma writef_check_emit:
  assumes "writef_check fmt args tot = Inr (args', tot')" "memory_ok args"
  shows "\<exists>out. writef_emit fmt args = Inr out \<and> tot' = tot + length out \<and>
           (tot \<le> PROTOCOL_MAX_MESSAGE_LENGTH \<longrightarrow> tot' \<le> PROTOCOL_MAX_MESSAGE_LENGTH)"
  using assms
proof (induction fmt args tot rule: writef_check.induct)
  case (1 args tot)
  then show ?case by simp
next
  case (2 c cs args tot)
  show ?case
  proof (cases "c = CHR ''%''")
    case False
    with "2.prems" obtain t where t: "addLength tot 1 = Inr t" "writef_check cs args t = Inr (args', tot')"
      by (auto split: sum.splits)
    from "2.IH"(1) [OF False t "2.prems"(2)] False t(1) show ?thesis
      by (auto simp: addLength_Inr)
  next
    case True
    obtain len ds where e: "eatLength 0 cs = (len, ds)" by fastforce
    with True "2.prems"(1) obtain d ds' args1 tot1 where ds: "ds = d # ds'"
      and c: "check_spec len d args tot = Inr (args1, tot1)"
      and w: "writef_check ds' args1 tot1 = Inr (args', tot')"
      by (auto split: list.splits sum.splits)
    obtain out where o: "emit_spec len d args = Inr (args1, out)" "tot1 = tot + length out" "memory_ok args1"
      "tot \<le> PROTOCOL_MAX_MESSAGE_LENGTH \<longrightarrow> tot1 \<le> PROTOCOL_MAX_MESSAGE_LENGTH"
      using check_emit_spec [OF c "2.prems"(2)] by auto
    obtain out2 where o2: "writef_emit ds' args1 = Inr out2" "tot' = tot1 + length out2"
      "tot1 \<le> PROTOCOL_MAX_MESSAGE_LENGTH \<longrightarrow> tot' \<le> PROTOCOL_MAX_MESSAGE_LENGTH"
      using "2.IH"(2) [OF _ e [symmetric] ds c refl w o(3)] True by auto
    show ?thesis using True e ds o o2 by auto
  qed
qed

lemma writefArgs_length:
  assumes "writefArgs fmt args = Inr out" "memory_ok args"
  shows "writef_check fmt args 0 = Inr ([], length out) \<and> length out \<le> PROTOCOL_MAX_MESSAGE_LENGTH"
proof -
  obtain tot where t: "writef_check fmt args 0 = Inr ([], tot)" and w: "writef_emit fmt args = Inr out"
    using assms(1) by (auto simp: writefArgs_def split: sum.splits if_splits)
  from writef_check_emit [OF t assms(2)] w show ?thesis by (auto simp: t)
qed

subsection \<open>Reading back what was written\<close>

text \<open>
  The value that one argument arrives as, and all values of a message. \<open>readable\<close> formats are those
  whose specifiers the reader knows how to consume: \<open>%S\<close> has no reader, \<open>%%\<close> is written but not
  read.
\<close>

definition sent_value :: "u32 \<Rightarrow> write_arg \<Rightarrow> read_val" where
  "sent_value len a =
     (case a of
        WInteger v \<Rightarrow> (if len = 1 then RInt1 (ucast v) else if len = 2 then RInt2 (ucast v) else RInt4 v)
      | WString p \<Rightarrow> RString (case p of None \<Rightarrow> [] | Some xs \<Rightarrow> xs)
      | WList8 p \<Rightarrow> RList1 (case p of None \<Rightarrow> [] | Some xs \<Rightarrow> xs)
      | WList16 p \<Rightarrow> RList2 (case p of None \<Rightarrow> [] | Some xs \<Rightarrow> xs)
      | WList32 p \<Rightarrow> RList4 (case p of None \<Rightarrow> [] | Some xs \<Rightarrow> xs)
      | WBytes p \<Rightarrow> RString (case p of None \<Rightarrow> [] | Some xs \<Rightarrow> xs))"

function sent_values :: "string \<Rightarrow> write_arg list \<Rightarrow> read_val list" where
  "sent_values [] args = []"
| "sent_values (c # cs) args =
     (if c \<noteq> CHR ''%'' then sent_values cs args
      else case eatLength 0 cs of
        (len, []) \<Rightarrow> []
      | (len, d # ds) \<Rightarrow>
          (case args of [] \<Rightarrow> [] | a # rest \<Rightarrow> sent_value len a # sent_values ds rest))"
  by pat_completeness auto
termination
  by (relation "measure (\<lambda>(fmt, args). length fmt)") (auto dest!: eatLength_less)

function readable :: "string \<Rightarrow> bool" where
  "readable [] = True"
| "readable (c # cs) =
     (if c \<noteq> CHR ''%'' then readable cs
      else case eatLength 0 cs of
        (len, []) \<Rightarrow> False
      | (len, d # ds) \<Rightarrow> d \<in> {CHR ''i'', CHR ''I'', CHR ''s''} \<and> readable ds)"
  by pat_completeness auto
termination
  by (relation "measure length") (auto dest!: eatLength_less)

lemma read_items_decode:
  "map (\<lambda>bs. be32 (bs ! 0) (bs ! 1) (bs ! 2) (bs ! 3)) (map (\<lambda>x. appendInteger x 4) xs) = xs"
  "map (\<lambda>bs. be16 (bs ! 0) (bs ! 1)) (map (\<lambda>x. appendInteger (ucast x) 2) ys) = ys"
  by (induction xs) (simp_all add: wire_simps, induction ys, simp_all add: wire_simps)

context istream
begin

lemma read_items_enough:
  assumes "ok s" "avail s = concat items @ rest" "\<forall>i \<in> set items. length i = len"
  shows "\<exists>s'. read_items rd s len (length items) = (items, None, s') \<and> ok s' \<and> avail s' = rest"
  using assms
proof (induction items arbitrary: s)
  case Nil
  then show ?case by simp
next
  case (Cons i items)
  then obtain s1 where s1: "stream_read rd s len = (Inr i, s1)" "ok s1" "avail s1 = concat items @ rest"
    using stream_read_enough [of s i "concat items @ rest" len] by auto
  then obtain s2 where "read_items rd s1 len (length items) = (items, None, s2)" "ok s2" "avail s2 = rest"
    using Cons.IH [of s1] Cons.prems(3) by auto
  with s1 show ?case by simp
qed

lemma read_count_written:
  assumes "ok s" "avail s = appendInteger (of_nat n) 4 @ rest" "n < 2 ^ 32"
  shows "\<exists>s'. read_count rd s = (Inr n, s') \<and> ok s' \<and> avail s' = rest"
proof -
  obtain s' where "stream_read rd s 4 = (Inr (appendInteger (of_nat n) 4), s')" "ok s'" "avail s' = rest"
    using stream_read_enough [OF assms(1,2)] by auto
  moreover have "unat (of_nat n :: u32) = n" using assms(3) by (simp add: unat_of_nat)
  ultimately show ?thesis by (simp add: read_count_def)
qed

lemma read_int_written:
  assumes "ok s" "len = 1 \<or> len = 2 \<or> len = 4" "avail s = appendInteger v (unat len) @ rest"
  shows "\<exists>s'. read_int rd s len = ([sent_value len (WInteger v)], None, s') \<and> ok s' \<and> avail s' = rest"
proof -
  obtain s' where r: "stream_read rd s (unat len) = (Inr (appendInteger v (unat len)), s')" "ok s'" "avail s' = rest"
    using stream_read_enough [OF assms(1,3)] by auto
  have "int_of_bytes (appendInteger v (unat len)) = Some (sent_value len (WInteger v))"
    using assms(2) by (auto simp: int_of_bytes_def sent_value_def wire_simps simp del: One_nat_def)
  with r assms(2) show ?thesis by (auto simp: read_int_def)
qed

lemma read_list_written:
  assumes "ok s" "len = 1 \<or> len = 2 \<or> len = 4" "length items \<le> PROTOCOL_MAX_LIST_LENGTH"
    "\<forall>i \<in> set items. length i = unat len"
    "avail s = appendInteger (of_nat (length items)) 4 @ concat items @ rest"
  shows "\<exists>s'. read_list rd s len = ([list_of_items len items], None, s') \<and> ok s' \<and> avail s' = rest"
proof -
  have "length items < 2 ^ 32" using assms(3) by (simp add: protocol_limits)
  then obtain s1 where s1: "read_count rd s = (Inr (length items), s1)" "ok s1" "avail s1 = concat items @ rest"
    using read_count_written [OF assms(1,5)] by auto
  then obtain s2 where "read_items rd s1 (unat len) (length items) = (items, None, s2)" "ok s2" "avail s2 = rest"
    using read_items_enough [OF s1(2,3) assms(4)] by auto
  with s1 assms(2,3) show ?thesis by (auto simp: read_list_def)
qed

lemma read_string_written:
  assumes "ok s" "length text \<le> PROTOCOL_MAX_STRING_LENGTH"
    "avail s = appendInteger (of_nat (length text)) 4 @ text @ rest"
  shows "\<exists>s'. read_string rd s 0 = ([RString text], None, s') \<and> ok s' \<and> avail s' = rest"
proof -
  have "length text < 2 ^ 32" using assms(2) by (simp add: protocol_limits)
  then obtain s1 where s1: "read_count rd s = (Inr (length text), s1)" "ok s1" "avail s1 = text @ rest"
    using read_count_written [OF assms(1,3)] by auto
  then obtain s2 where "stream_read rd s1 (length text) = (Inr text, s2)" "ok s2" "avail s2 = rest"
    using stream_read_enough [OF s1(2,3)] by auto
  with s1 assms(2) show ?thesis by (auto simp: read_string_def)
qed

text \<open>One specifier, then a whole format.\<close>

lemma read_spec_written:
  assumes "check_spec len c args tot = Inr (args', tot')" "emit_spec len c args = Inr (args', out)"
    "c \<in> {CHR ''i'', CHR ''I'', CHR ''s''}" "ok s" "avail s = out @ rest"
  shows "\<exists>a s'. args = a # args' \<and> read_spec rd s len c = ([sent_value len a], None, s') \<and>
           ok s' \<and> avail s' = rest"
proof -
  consider "c = CHR ''i''" | "c = CHR ''I''" | "c = CHR ''s''" using assms(3) by auto
  then show ?thesis
  proof cases
    case 1
    then obtain v where a: "args = WInteger v # args'" "len = 1 \<or> len = 2 \<or> len = 4"
      "out = appendInteger v (unat len)"
      using assms(1,2) by (auto simp: check_spec_def emit_spec_def map_sum_Inr_iff
          split: if_splits list.splits write_arg.splits)
    with read_int_written [OF assms(4) a(2), of v rest] assms(5) 1 show ?thesis
      by (auto simp: read_spec_def)
  next
    case 2
    then consider xs where "args = WList8 (Some xs) # args'" "len = 1" "length xs \<le> PROTOCOL_MAX_LIST_LENGTH"
        "out = appendInteger (of_nat (length xs)) 4 @ xs"
      | xs where "args = WList16 (Some xs) # args'" "len = 2" "length xs \<le> PROTOCOL_MAX_LIST_LENGTH"
        "out = appendInteger (of_nat (length xs)) 4 @ concat (map (\<lambda>x. appendInteger (ucast x) 2) xs)"
      | xs where "args = WList32 (Some xs) # args'" "len = 4" "length xs \<le> PROTOCOL_MAX_LIST_LENGTH"
        "out = appendInteger (of_nat (length xs)) 4 @ concat (map (\<lambda>x. appendInteger x 4) xs)"
      using assms(1,2) by (auto simp: check_spec_def emit_spec_def map_sum_Inr_iff
          split: if_splits list.splits write_arg.splits option.splits dest: list_total_Inr)
    then show ?thesis
    proof cases
      case (1 xs)
      have "concat (map (\<lambda>x. [x]) xs) = xs" by (induction xs) auto
      with read_list_written [OF assms(4), of len "map (\<lambda>x. [x]) xs" rest] 1 2 assms(5) show ?thesis
        by (auto simp: read_spec_def list_of_items_def sent_value_def comp_def)
    next
      case (2 xs)
      with read_list_written [OF assms(4), of len "map (\<lambda>x. appendInteger (ucast x) 2) xs" rest]
        \<open>c = CHR ''I''\<close> assms(5) show ?thesis
        by (auto simp: read_spec_def list_of_items_def sent_value_def read_items_decode simp del: map_map One_nat_def)
    next
      case (3 xs)
      with read_list_written [OF assms(4), of len "map (\<lambda>x. appendInteger x 4) xs" rest]
        \<open>c = CHR ''I''\<close> assms(5) show ?thesis
        by (auto simp: read_spec_def list_of_items_def sent_value_def read_items_decode simp del: map_map One_nat_def)
    qed
  next
    case 3
    then obtain p str where a: "args = WString p # args'" "len = 0"
      "str = (case p of None \<Rightarrow> [] | Some xs \<Rightarrow> xs)" "length str \<le> PROTOCOL_MAX_STRING_LENGTH"
      "out = appendInteger (of_nat (length str)) 4 @ str"
      using assms(1,2) by (auto simp: check_spec_def emit_spec_def map_sum_Inr_iff Let_def
          split: if_splits list.splits write_arg.splits option.splits)
    with read_string_written [OF assms(4) a(4), of rest] assms(5) 3 show ?thesis
      by (auto simp: read_spec_def sent_value_def)
  qed
qed

lemma vreadf_written:
  assumes "writef_check fmt args tot = Inr ([], tot')" "writef_emit fmt args = Inr out"
    "memory_ok args" "readable fmt" "ok s" "avail s = out @ rest"
  shows "\<exists>s'. vreadf rd s fmt = (sent_values fmt args, None, s') \<and> ok s' \<and> avail s' = rest"
  using assms
proof (induction fmt args tot arbitrary: s out rule: writef_check.induct)
  case (1 args tot)
  then show ?case by simp
next
  case (2 c cs args tot)
  show ?case
  proof (cases "c = CHR ''%''")
    case False
    with "2.prems" obtain t out' where t: "addLength tot 1 = Inr t" "writef_check cs args t = Inr ([], tot')"
      and out: "writef_emit cs args = Inr out'" "out = byte_of c # out'"
      by (auto split: sum.splits simp: map_sum_Inr_iff)
    have "avail s = [byte_of c] @ out' @ rest" using "2.prems"(6) out(2) by simp
    then obtain s1 where s1: "stream_read rd s 1 = (Inr [byte_of c], s1)" "ok s1" "avail s1 = out' @ rest"
      using stream_read_enough [OF "2.prems"(5), of "[byte_of c]" "out' @ rest" 1] by auto
    have "readable cs" using "2.prems"(4) False by simp
    from "2.IH"(1) [OF False t out(1) "2.prems"(3) this s1(2,3)] False s1(1) show ?thesis by auto
  next
    case True
    obtain len ds where e: "eatLength 0 cs = (len, ds)" by fastforce
    with True "2.prems"(1) obtain d ds' args1 tot1 where ds: "ds = d # ds'"
      and c: "check_spec len d args tot = Inr (args1, tot1)"
      and w: "writef_check ds' args1 tot1 = Inr ([], tot')"
      by (auto split: list.splits sum.splits)
    obtain o1 where o1: "emit_spec len d args = Inr (args1, o1)" "memory_ok args1"
      using check_emit_spec [OF c "2.prems"(3)] by auto
    then obtain o2 where o2: "writef_emit ds' args1 = Inr o2" "out = o1 @ o2"
      using "2.prems"(2) True e ds by (auto simp: map_sum_Inr_iff)
    have rd: "d \<in> {CHR ''i'', CHR ''I'', CHR ''s''}" "readable ds'"
      using "2.prems"(4) True e ds by auto
    have "avail s = o1 @ o2 @ rest" using "2.prems"(6) o2(2) by simp
    then obtain a s1 where s1: "args = a # args1" "read_spec rd s len d = ([sent_value len a], None, s1)"
      "ok s1" "avail s1 = o2 @ rest"
      using read_spec_written [OF c o1(1) rd(1) "2.prems"(5)] by blast
    from "2.IH"(2) [OF _ e [symmetric] ds c refl w o2(1) o1(2) rd(2) s1(3,4)] True s1 e ds
    show ?thesis by auto
  qed
qed

text \<open>What \<^verbatim>\<open>writef\<close> accepted, \<^verbatim>\<open>readf\<close> with the same format returns, consuming exactly the message.\<close>

lemma readf_written:
  assumes "writefArgs fmt args = Inr out" "memory_ok args" "readable fmt" "ok s" "avail s = out @ rest"
  shows "\<exists>s'. readf rd s fmt = (Inr True, sent_values fmt args, s') \<and> ok s' \<and> avail s' = rest"
proof -
  have "writef_check fmt args 0 = Inr ([], length out)"
    using writefArgs_length [OF assms(1,2)] by simp
  moreover have "writef_emit fmt args = Inr out"
    using assms(1) by (auto simp: writefArgs_def split: sum.splits if_splits)
  ultimately obtain s' where "vreadf rd s fmt = (sent_values fmt args, None, s')" "ok s'" "avail s' = rest"
    using vreadf_written [OF _ _ assms(2-5)] by blast
  then show ?thesis by (simp add: readf_def)
qed

end

text \<open>Every message format of the protocol is readable.\<close>

definition all_formats :: "string list" where
  "all_formats =
     [kMsgHello, kMsgHelloBack, kMsgCNoop, kMsgCClose, kMsgCEnter, kMsgCLeave, kMsgCClipboard,
      kMsgCScreenSaver, kMsgCResetOptions, kMsgCInfoAck, kMsgCKeepAlive, kMsgDKeyDown,
      kMsgDKeyDown1_0, kMsgDKeyRepeat, kMsgDKeyRepeat1_0, kMsgDKeyUp, kMsgDKeyUp1_0, kMsgDMouseDown,
      kMsgDMouseUp, kMsgDMouseMove, kMsgDMouseRelMove, kMsgDMouseWheel, kMsgDMouseWheel1_0,
      kMsgDClipboard, kMsgDInfo, kMsgDSetOptions, kMsgDFileTransfer, kMsgDDragInfo, kMsgQInfo,
      kMsgEIncompatible, kMsgEBusy, kMsgEUnknown, kMsgEBad]"

lemma all_formats_readable: "list_all readable all_formats"
  by code_simp

text \<open>
  C26. A message that \<^verbatim>\<open>writef\<close> accepts is never longer than the protocol allows, and its two passes agree:
  the second pass emits exactly the number of bytes the first one counted.
\<close>

theorem written_message_bounded:
  assumes "writefArgs fmt args = Inr out" "memory_ok args"
  shows "writef_check fmt args 0 = Inr ([], length out) \<and> length out \<le> PROTOCOL_MAX_MESSAGE_LENGTH"
  using assms by (rule writefArgs_length)

theorem written_message_bounded_witness:
  "writef_check kMsgDMouseMove [WInteger 3, WInteger 4] 0 = Inr ([], length [68, 77, 77, 86, 0, 3, 0, 4 :: byte]) \<and>
   length [68, 77, 77, 86, 0, 3, 0, 4 :: byte] \<le> PROTOCOL_MAX_MESSAGE_LENGTH"
  by (rule written_message_bounded)
     (simp_all add: writefArgs_def kMsgDMouseMove_def check_spec_def emit_spec_def addLength_def digit_value_def
       protocol_limits appendInteger_2)

end
