(* ===== verification/PacketFilter.thy ===== *)
theory PacketFilter
  imports StreamBuffer EventQueue ProtocolUtil
begin

text \<open>
  The packetizing stream filter of \<^verbatim>\<open>src/lib/inputleap/PacketStreamFilter.cpp\<close>: every message
  travels as a 4-byte big-endian length and the payload. The record holds the data members and the
  events the filter has queued. The upstream socket is the environment: a call of \<open>readMore\<close> is given
  the results of its successive reads, and what the filter does to the socket is returned as a list
  of operations. The theory shows that packets come out whole and in order however the network cuts
  the bytes, that an oversized length is reported and stops reading, and that the filter satisfies
  the stream contract the protocol reader needs.
\<close>

subsection \<open>State and operations\<close>

record packet_filter =
  pf_size :: nat
  pf_buffer :: stream_buffer
  pf_inputShutdown :: bool
  pf_events :: "event_type list"

datatype upstream_op = UpWrite bytes | UpClose | UpShutdownInput

definition pf_new :: packet_filter where
  "pf_new = \<lparr>pf_size = 0, pf_buffer = sb_empty, pf_inputShutdown = False, pf_events = []\<rparr>"

definition pf_isReadyNoLock :: "packet_filter \<Rightarrow> bool" where
  "pf_isReadyNoLock s \<longleftrightarrow> pf_size s \<noteq> 0 \<and> pf_size s \<le> sb_getSize (pf_buffer s)"

definition pf_isReady :: "packet_filter \<Rightarrow> bool" where
  "pf_isReady s = pf_isReadyNoLock s"

definition pf_getSize :: "packet_filter \<Rightarrow> nat" where
  "pf_getSize s = (if pf_isReadyNoLock s then pf_size s else 0)"

definition pf_add_event :: "packet_filter \<Rightarrow> event_type \<Rightarrow> packet_filter" where
  "pf_add_event s e = s\<lparr>pf_events := pf_events s @ [e]\<rparr>"

text \<open>The result is \<open>False\<close> exactly when a length above the protocol's limit was read.\<close>

definition pf_readPacketSize :: "packet_filter \<Rightarrow> (bool \<times> packet_filter) option" where
  "pf_readPacketSize s =
     (if pf_size s = 0 \<and> 4 \<le> sb_getSize (pf_buffer s) then
        (case sb_peek (pf_buffer s) 4 of
           None \<Rightarrow> None
         | Some (bs, b1) \<Rightarrow>
             (case (sb_pop b1 4, decode_be32 bs) of
                (Some b2, Some v) \<Rightarrow>
                  (let s' = s\<lparr>pf_buffer := b2, pf_size := unat v\<rparr> in
                   if PROTOCOL_MAX_MESSAGE_LENGTH < unat v
                   then Some (False, pf_add_event s' STREAM_INPUT_FORMAT_ERROR)
                   else Some (True, s'))
              | _ \<Rightarrow> None))
      else Some (True, s))"

definition pf_read :: "packet_filter \<Rightarrow> nat \<Rightarrow> (bytes \<times> packet_filter) option" where
  "pf_read s n =
     (if n = 0 \<or> \<not> pf_isReadyNoLock s then Some ([], s)
      else (let m = min n (pf_size s) in
        case sb_peek (pf_buffer s) m of
          None \<Rightarrow> None
        | Some (bs, b1) \<Rightarrow>
            (case sb_pop b1 m of
               None \<Rightarrow> None
             | Some b2 \<Rightarrow>
                 (case pf_readPacketSize (s\<lparr>pf_buffer := b2, pf_size := pf_size s - m\<rparr>) of
                    None \<Rightarrow> None
                  | Some (_, s') \<Rightarrow>
                      Some (bs, if pf_inputShutdown s' \<and> pf_size s' = 0
                                then pf_add_event s' STREAM_INPUT_SHUTDOWN else s')))))"

definition pf_write :: "bytes \<Rightarrow> upstream_op list" where
  "pf_write data = [UpWrite (appendInteger (of_nat (length data)) 4), UpWrite data]"

definition pf_close :: "packet_filter \<Rightarrow> (packet_filter \<times> upstream_op list) option" where
  "pf_close s =
     (case sb_pop (pf_buffer s) (sb_getSize (pf_buffer s)) of
        None \<Rightarrow> None
      | Some b \<Rightarrow> Some (s\<lparr>pf_size := 0, pf_buffer := b\<rparr>, [UpClose]))"

definition pf_shutdownInput :: "packet_filter \<Rightarrow> (packet_filter \<times> upstream_op list) option" where
  "pf_shutdownInput s =
     (case sb_pop (pf_buffer s) (sb_getSize (pf_buffer s)) of
        None \<Rightarrow> None
      | Some b \<Rightarrow> Some (s\<lparr>pf_size := 0, pf_buffer := b\<rparr>, [UpShutdownInput]))"

text \<open>
  The loop of \<^verbatim>\<open>readMore\<close>. The list holds what the upstream reads deliver; an empty read, or the end
  of the list, is a read that returned 0. The result keeps the reads that were not made.
\<close>

fun pf_fill :: "packet_filter \<Rightarrow> bytes list \<Rightarrow> (packet_filter \<times> bytes list) option" where
  "pf_fill s [] = Some (s, [])"
| "pf_fill s (r # rs) =
     (if r = [] then Some (s, rs)
      else case pf_readPacketSize (s\<lparr>pf_buffer := sb_write (pf_buffer s) r\<rparr>) of
        None \<Rightarrow> None
      | Some (ok, s') \<Rightarrow> (if ok then pf_fill s' rs else Some (s', rs)))"

definition pf_readMore :: "packet_filter \<Rightarrow> bytes list \<Rightarrow> (bool \<times> packet_filter \<times> bytes list) option" where
  "pf_readMore s rs =
     (case pf_fill s rs of
        None \<Rightarrow> None
      | Some (s', rest) \<Rightarrow> Some (pf_isReadyNoLock s \<noteq> pf_isReadyNoLock s', s', rest))"

text \<open>The first component says whether the event is passed on to the filter's own target.\<close>

definition pf_filterEvent ::
    "packet_filter \<Rightarrow> event_type \<Rightarrow> bytes list \<Rightarrow> (bool \<times> packet_filter \<times> bytes list) option" where
  "pf_filterEvent s e rs =
     (if e = STREAM_INPUT_READY then pf_readMore s rs
      else if e = STREAM_INPUT_SHUTDOWN then
        Some (pf_size s = 0, s\<lparr>pf_inputShutdown := True\<rparr>, rs)
      else Some (True, s, rs))"

subsection \<open>Frames\<close>

definition frame :: "bytes \<Rightarrow> bytes" where
  "frame p = appendInteger (of_nat (length p)) 4 @ p"

lemma pf_write_frame: "concat [d. UpWrite d \<leftarrow> pf_write p] = frame p"
  by (simp add: pf_write_def frame_def)

definition good_payload :: "bytes \<Rightarrow> bool" where
  "good_payload p \<longleftrightarrow> p \<noteq> [] \<and> length p \<le> PROTOCOL_MAX_MESSAGE_LENGTH"

text \<open>Everything the filter still holds, as the bytes it would have to receive again.\<close>

definition pf_wire :: "packet_filter \<Rightarrow> bytes" where
  "pf_wire s = (if pf_size s = 0 then [] else appendInteger (of_nat (pf_size s)) 4) @ sb_bytes (pf_buffer s)"

definition pf_inv :: "packet_filter \<Rightarrow> bool" where
  "pf_inv s \<longleftrightarrow> sb_inv (pf_buffer s) \<and> pf_size s < 2 ^ 32"

lemma pf_new_inv: "pf_inv pf_new" "pf_wire pf_new = []"
  by (simp_all add: pf_inv_def pf_new_def pf_wire_def)

lemma pf_ready_iff:
  "pf_inv s \<Longrightarrow> pf_isReadyNoLock s \<longleftrightarrow> pf_size s \<noteq> 0 \<and> pf_size s \<le> length (sb_bytes (pf_buffer s))"
  by (auto simp: pf_isReadyNoLock_def pf_inv_def sb.size_contents)

text \<open>
  \<^verbatim>\<open>readPacketSize\<close> never fails; when it consumes a length, the state it leaves is determined by the
  first four buffered bytes.
\<close>

lemma pf_readPacketSize_idle:
  "pf_size s \<noteq> 0 \<or> length (sb_bytes (pf_buffer s)) < 4 \<Longrightarrow> pf_inv s \<Longrightarrow> pf_readPacketSize s = Some (True, s)"
  by (auto simp: pf_readPacketSize_def pf_inv_def sb.size_contents)

lemma pf_readPacketSize_header:
  assumes "pf_inv s" "pf_size s = 0" "decode_be32 (sb_bytes (pf_buffer s)) = Some v"
  shows "\<exists>s'. pf_readPacketSize s = Some (unat v \<le> PROTOCOL_MAX_MESSAGE_LENGTH, s') \<and> pf_inv s' \<and>
           pf_size s' = unat v \<and> sb_bytes (pf_buffer s') = drop 4 (sb_bytes (pf_buffer s)) \<and>
           pf_inputShutdown s' = pf_inputShutdown s \<and>
           pf_events s' = pf_events s @
             (if unat v \<le> PROTOCOL_MAX_MESSAGE_LENGTH then [] else [STREAM_INPUT_FORMAT_ERROR])"
proof -
  have inv: "sb_inv (pf_buffer s)" using assms(1) by (simp add: pf_inv_def)
  have len: "4 \<le> length (sb_bytes (pf_buffer s))" using assms(3) decode_be32_Some_iff by blast
  obtain b1 b2 where b: "sb_peek (pf_buffer s) 4 = Some (take 4 (sb_bytes (pf_buffer s)), b1)"
    "sb_pop b1 4 = Some b2" "sb_bytes b2 = drop 4 (sb_bytes (pf_buffer s))" "sb_inv b2"
    using sb.take_out [OF inv len] by blast
  have d: "decode_be32 (take 4 (sb_bytes (pf_buffer s))) = Some v"
    using assms(3) by (simp add: decode_be32_take)
  have "unat v < 2 ^ 32" using unsigned_less [of v] by simp
  with b d len inv assms(2) show ?thesis
    by (auto simp: pf_readPacketSize_def sb.size_contents pf_inv_def pf_add_event_def Let_def)
qed

lemma unat_length: "good_payload p \<Longrightarrow> unat (of_nat (length p) :: u32) = length p"
  by (simp add: good_payload_def protocol_limits unat_of_nat)

text \<open>The beginning of a stream of frames, cut anywhere.\<close>

definition good_wire :: "bytes \<Rightarrow> bool" where
  "good_wire w \<longleftrightarrow> (\<exists>ps tail. list_all good_payload ps \<and> w @ tail = concat (map frame ps))"

lemma good_wire_frames: "list_all good_payload ps \<Longrightarrow> good_wire (concat (map frame ps))"
  unfolding good_wire_def by (metis append_Nil2)

lemma good_wire_prefix: "good_wire (v @ w) \<Longrightarrow> good_wire v"
  unfolding good_wire_def by (metis append_assoc)

lemma good_wire_header:
  assumes "good_wire w" "4 \<le> length w"
  shows "\<exists>p. good_payload p \<and> decode_be32 w = Some (of_nat (length p))"
proof -
  obtain ps tail where ps: "list_all good_payload ps" "w @ tail = concat (map frame ps)"
    using assms(1) by (auto simp: good_wire_def)
  then obtain q qs where q: "ps = q # qs" using assms(2) by (cases ps) auto
  have "take 4 w = take 4 (w @ tail)" using assms(2) by simp
  also have "\<dots> = take 4 (frame q @ concat (map frame qs))" using ps(2) q by simp
  finally have "decode_be32 (take 4 w) = decode_be32 (take 4 (frame q @ concat (map frame qs)))" by simp
  then have "decode_be32 w = decode_be32 (frame q @ concat (map frame qs))"
    by (simp only: decode_be32_take order_refl)
  also have "\<dots> = Some (of_nat (length q))" by (simp add: frame_def)
  finally show ?thesis using ps(1) q by auto
qed

text \<open>No complete length is left unread: it has been taken off the buffer.\<close>

definition pf_synced :: "packet_filter \<Rightarrow> bool" where
  "pf_synced s \<longleftrightarrow> pf_size s \<noteq> 0 \<or> length (sb_bytes (pf_buffer s)) < 4"

lemma pf_new_synced: "pf_synced pf_new"
  by (simp add: pf_synced_def pf_new_def)

lemma pf_readPacketSize_good:
  assumes "pf_inv s" "good_wire (pf_wire s)"
  shows "\<exists>s'. pf_readPacketSize s = Some (True, s') \<and> pf_inv s' \<and> pf_synced s' \<and> pf_wire s' = pf_wire s \<and>
           pf_events s' = pf_events s \<and> pf_inputShutdown s' = pf_inputShutdown s \<and>
           (pf_size s' = 0 \<longrightarrow> pf_wire s' = sb_bytes (pf_buffer s'))"
proof (cases "pf_size s \<noteq> 0 \<or> length (sb_bytes (pf_buffer s)) < 4")
  case True
  with assms show ?thesis by (auto simp: pf_readPacketSize_idle pf_synced_def pf_wire_def)
next
  case False
  then have w: "pf_wire s = sb_bytes (pf_buffer s)" "4 \<le> length (pf_wire s)" "pf_size s = 0"
    by (auto simp: pf_wire_def)
  obtain p where p: "good_payload p" "decode_be32 (sb_bytes (pf_buffer s)) = Some (of_nat (length p))"
    using good_wire_header [OF assms(2) w(2)] w(1) by auto
  have u: "unat (of_nat (length p) :: u32) = length p" using p(1) by (rule unat_length)
  obtain s' where s': "pf_readPacketSize s = Some (True, s')" "pf_inv s'" "pf_size s' = length p"
    "sb_bytes (pf_buffer s') = drop 4 (sb_bytes (pf_buffer s))"
    "pf_inputShutdown s' = pf_inputShutdown s" "pf_events s' = pf_events s"
    using pf_readPacketSize_header [OF assms(1) w(3) p(2)] p(1) by (auto simp: u good_payload_def)
  have "appendInteger (of_nat (length p)) 4 = take 4 (sb_bytes (pf_buffer s))"
    using decode_be32_encode [OF p(2)] .
  then have "pf_wire s' = pf_wire s" using s'(3,4) p(1) w(1) by (simp add: pf_wire_def good_payload_def)
  moreover have "pf_synced s'" "pf_size s' \<noteq> 0" using s'(3) p(1) by (auto simp: pf_synced_def good_payload_def)
  ultimately show ?thesis using s' by auto
qed

lemma pf_fill_good:
  assumes "pf_inv s" "pf_synced s" "good_wire (pf_wire s @ concat rs)" "[] \<notin> set rs"
    "length (pf_wire s @ concat rs) < 2 ^ 32"
  shows "\<exists>s'. pf_fill s rs = Some (s', []) \<and> pf_inv s' \<and> pf_synced s' \<and>
           pf_wire s' = pf_wire s @ concat rs \<and> pf_events s' = pf_events s \<and>
           pf_inputShutdown s' = pf_inputShutdown s"
  using assms
proof (induction rs arbitrary: s)
  case Nil
  then show ?case by simp
next
  case (Cons r rs)
  define t where "t = s\<lparr>pf_buffer := sb_write (pf_buffer s) r\<rparr>"
  have inv: "sb_inv (pf_buffer s)" using Cons.prems(1) by (simp add: pf_inv_def)
  have wire_t: "pf_wire t = pf_wire s @ r"
    using inv by (simp add: t_def pf_wire_def sb.put_contents)
  have "length (sb_bytes (pf_buffer s)) + length r < 2 ^ 32"
    using Cons.prems(5) by (auto simp: pf_wire_def split: if_splits)
  then have "pf_inv t" using Cons.prems(1) inv by (simp add: t_def pf_inv_def sb.put_inv)
  moreover have "good_wire (pf_wire t)"
    using Cons.prems(3) by (auto simp: wire_t intro: good_wire_prefix [of _ "concat rs"])
  ultimately obtain t' where t': "pf_readPacketSize t = Some (True, t')" "pf_inv t'" "pf_synced t'"
    "pf_wire t' = pf_wire s @ r" "pf_events t' = pf_events t" "pf_inputShutdown t' = pf_inputShutdown t"
    using pf_readPacketSize_good [of t] wire_t by auto
  then obtain s' where "pf_fill t' rs = Some (s', [])" "pf_inv s'" "pf_synced s'"
    "pf_wire s' = pf_wire t' @ concat rs" "pf_events s' = pf_events t'" "pf_inputShutdown s' = pf_inputShutdown t'"
    using Cons.IH [of t'] Cons.prems(3,4,5) by auto
  then show ?case using t' Cons.prems(4) by (auto simp: t_def)
qed

text \<open>A whole packet at the front is exactly what \<open>read\<close> delivers, however much is asked for.\<close>

lemma pf_front_packet:
  assumes "pf_inv s" "pf_synced s" "pf_wire s = frame p @ w" "good_payload p"
  shows "pf_size s = length p \<and> sb_bytes (pf_buffer s) = p @ w"
proof -
  have nz: "pf_size s \<noteq> 0"
  proof
    assume "pf_size s = 0"
    then have "length (frame p @ w) < 4"
      using assms(2) by (simp add: pf_synced_def pf_wire_def flip: assms(3))
    then show False by (simp add: frame_def)
  qed
  then have eq: "appendInteger (of_nat (pf_size s)) 4 @ sb_bytes (pf_buffer s) =
      appendInteger (of_nat (length p)) 4 @ p @ w"
    using assms(3) by (simp add: pf_wire_def frame_def)
  then have "(of_nat (pf_size s) :: u32) = of_nat (length p)"
    by (metis decode_be32_append option.inject)
  then have "unat (of_nat (pf_size s) :: u32) = unat (of_nat (length p) :: u32)" by simp
  then have "pf_size s = length p"
    using assms(1) unat_length [OF assms(4)] by (simp add: pf_inv_def unat_of_nat)
  with eq show ?thesis by simp
qed

lemma pf_read_packet:
  assumes "pf_inv s" "pf_synced s" "pf_wire s = frame p @ w" "good_payload p" "good_wire w"
    "length p \<le> n" "\<not> pf_inputShutdown s"
  shows "pf_getSize s = length p \<and>
         (\<exists>s'. pf_read s n = Some (p, s') \<and> pf_inv s' \<and> pf_synced s' \<and> pf_wire s' = w \<and>
           pf_events s' = pf_events s \<and> \<not> pf_inputShutdown s')"
proof -
  have sz: "pf_size s = length p" and bytes: "sb_bytes (pf_buffer s) = p @ w"
    using pf_front_packet [OF assms(1-4)] by auto
  have inv: "sb_inv (pf_buffer s)" using assms(1) by (simp add: pf_inv_def)
  have ready: "pf_isReadyNoLock s" using assms(1,4) sz bytes by (simp add: pf_ready_iff good_payload_def)
  have m: "min n (pf_size s) = length p" using assms(6) sz by simp
  obtain b1 b2 where b: "sb_peek (pf_buffer s) (length p) = Some (p, b1)"
    "sb_pop b1 (length p) = Some b2" "sb_bytes b2 = w" "sb_inv b2"
    using sb.take_out [OF inv, of "length p"] bytes by auto
  define t where "t = s\<lparr>pf_buffer := b2, pf_size := 0\<rparr>"
  have "pf_inv t" "pf_wire t = w" using b by (auto simp: t_def pf_inv_def pf_wire_def)
  then obtain t' where t': "pf_readPacketSize t = Some (True, t')" "pf_inv t'" "pf_synced t'" "pf_wire t' = w"
    "pf_events t' = pf_events s" "pf_inputShutdown t' = pf_inputShutdown s"
    using pf_readPacketSize_good [of t] assms(5) by (auto simp: t_def)
  have "0 < length p" using assms(4) by (simp add: good_payload_def)
  then have "n \<noteq> 0" using assms(6) by linarith
  then have "pf_read s n = Some (p, t')"
    using ready m b t' assms(7) by (simp add: pf_read_def Let_def sz t_def)
  then show ?thesis using t' assms(7) ready sz by (simp add: pf_getSize_def)
qed

text \<open>A reader that takes one packet after the other.\<close>

fun read_packets :: "nat \<Rightarrow> packet_filter \<Rightarrow> bytes list" where
  "read_packets 0 s = []"
| "read_packets (Suc k) s =
     (case pf_read s (pf_getSize s) of None \<Rightarrow> [] | Some (bs, s') \<Rightarrow> bs # read_packets k s')"

lemma read_packets_frames:
  assumes "pf_inv s" "pf_synced s" "pf_wire s = concat (map frame ps)" "list_all good_payload ps"
    "\<not> pf_inputShutdown s"
  shows "read_packets (length ps) s = ps"
  using assms
proof (induction ps arbitrary: s)
  case Nil
  then show ?case by simp
next
  case (Cons p ps)
  have "pf_getSize s = length p" and r: "\<exists>s'. pf_read s (length p) = Some (p, s') \<and> pf_inv s' \<and> pf_synced s' \<and>
      pf_wire s' = concat (map frame ps) \<and> pf_events s' = pf_events s \<and> \<not> pf_inputShutdown s'"
    using pf_read_packet [OF Cons.prems(1,2), of p "concat (map frame ps)" "length p"] Cons.prems(3-5)
      good_wire_frames [of ps] by auto
  with Cons.IH Cons.prems(4) show ?case by auto
qed

subsection \<open>The stream contract\<close>

text \<open>
  All bytes that reads can deliver without further input: the payload of the current packet when it
  is complete, then that of the packets behind it. A length of 0 stops the reader.
\<close>

function ready_bytes :: "nat \<Rightarrow> bytes \<Rightarrow> bytes" where
  "ready_bytes sz bs =
     (if sz = 0 \<or> length bs < sz then []
      else take sz bs @
        (case decode_be32 (drop sz bs) of
           None \<Rightarrow> []
         | Some v \<Rightarrow> ready_bytes (unat v) (drop 4 (drop sz bs))))"
  by pat_completeness auto
termination
  by (relation "measure (\<lambda>(sz, bs). length bs)") auto

declare ready_bytes.simps [simp del]

definition pf_avail :: "packet_filter \<Rightarrow> bytes" where
  "pf_avail s = ready_bytes (pf_size s) (sb_bytes (pf_buffer s))"

lemma ready_bytes_0 [simp]: "ready_bytes 0 bs = []"
  by (simp add: ready_bytes.simps)

lemma ready_bytes_part:
  "m < sz \<Longrightarrow> sz \<le> length bs \<Longrightarrow> ready_bytes sz bs = take m bs @ ready_bytes (sz - m) (drop m bs)"
proof -
  assume m: "m < sz" "sz \<le> length bs"
  have "take sz bs = take m bs @ take (sz - m) (drop m bs)"
    using m(1) by (metis le_add_diff_inverse less_imp_le take_add)
  moreover have "drop (sz - m) (drop m bs) = drop sz bs" using m by simp
  ultimately show ?thesis
    using m by (simp add: ready_bytes.simps [of sz bs] ready_bytes.simps [of "sz - m" "drop m bs"]
        del: drop_drop split: option.split)
qed

lemma pf_readPacketSize_avail:
  assumes "pf_inv s" "pf_size s = 0"
  shows "\<exists>ok s'. pf_readPacketSize s = Some (ok, s') \<and> pf_inv s' \<and>
           pf_avail s' = (case decode_be32 (sb_bytes (pf_buffer s)) of None \<Rightarrow> []
             | Some v \<Rightarrow> ready_bytes (unat v) (drop 4 (sb_bytes (pf_buffer s))))"
proof (cases "decode_be32 (sb_bytes (pf_buffer s))")
  case None
  then have "length (sb_bytes (pf_buffer s)) < 4" using decode_be32_Some_iff [of "sb_bytes (pf_buffer s)"] by auto
  then have "pf_readPacketSize s = Some (True, s)" using assms(1) by (simp add: pf_readPacketSize_idle)
  with assms None show ?thesis by (auto simp: pf_avail_def)
next
  case (Some v)
  from pf_readPacketSize_header [OF assms Some] Some show ?thesis by (auto simp: pf_avail_def)
qed

lemma pf_read_avail:
  assumes "pf_inv s"
  shows "\<exists>bs s'. pf_read s n = Some (bs, s') \<and> pf_inv s' \<and> pf_avail s = bs @ pf_avail s' \<and> length bs \<le> n \<and>
           (0 < n \<and> pf_avail s \<noteq> [] \<longrightarrow> bs \<noteq> [])"
proof (cases "n = 0 \<or> \<not> pf_isReadyNoLock s")
  case True
  then have "pf_read s n = Some ([], s)" by (simp add: pf_read_def)
  moreover have "\<not> pf_isReadyNoLock s \<Longrightarrow> pf_avail s = []"
    using assms by (auto simp: pf_ready_iff pf_avail_def ready_bytes.simps)
  ultimately show ?thesis using True assms by auto
next
  case False
  let ?bs = "sb_bytes (pf_buffer s)" and ?m = "min n (pf_size s)"
  have sz: "0 < pf_size s" "pf_size s \<le> length ?bs" and n: "0 < n"
    using False assms by (auto simp: pf_ready_iff)
  have inv: "sb_inv (pf_buffer s)" using assms by (simp add: pf_inv_def)
  obtain b1 b2 where b: "sb_peek (pf_buffer s) ?m = Some (take ?m ?bs, b1)" "sb_pop b1 ?m = Some b2"
    "sb_bytes b2 = drop ?m ?bs" "sb_inv b2"
    using sb.take_out [OF inv, of ?m] min.coboundedI2 [OF sz(2)] by blast
  define t where "t = s\<lparr>pf_buffer := b2, pf_size := pf_size s - ?m\<rparr>"
  have inv_t: "pf_inv t" using assms b(4) by (simp add: t_def pf_inv_def less_imp_diff_less)
  have avail_t: "\<exists>ok t'. pf_readPacketSize t = Some (ok, t') \<and> pf_inv t' \<and> pf_avail s = take ?m ?bs @ pf_avail t'"
  proof (cases "?m < pf_size s")
    case True
    then have "pf_readPacketSize t = Some (True, t)" using inv_t by (intro pf_readPacketSize_idle) (auto simp: t_def)
    moreover have "pf_avail s = take ?m ?bs @ pf_avail t"
      using ready_bytes_part [OF True sz(2)] b(3) by (simp add: pf_avail_def t_def)
    ultimately show ?thesis using inv_t by blast
  next
    case False
    then have m: "?m = pf_size s" "pf_size t = 0" by (auto simp: t_def)
    have "pf_avail s = take (pf_size s) ?bs @ (case decode_be32 (drop (pf_size s) ?bs) of None \<Rightarrow> []
        | Some v \<Rightarrow> ready_bytes (unat v) (drop 4 (drop (pf_size s) ?bs)))"
      using sz by (simp add: pf_avail_def ready_bytes.simps [of "pf_size s"])
    moreover have "drop (pf_size s) ?bs = sb_bytes (pf_buffer t)" using b(3) m(1) by (simp add: t_def)
    ultimately show ?thesis
      using pf_readPacketSize_avail [OF inv_t m(2)] unfolding m(1) by (simp only:) auto
  qed
  then obtain ok t' where t': "pf_readPacketSize t = Some (ok, t')" "pf_inv t'" "pf_avail s = take ?m ?bs @ pf_avail t'"
    by blast
  define s' where "s' = (if pf_inputShutdown t' \<and> pf_size t' = 0 then pf_add_event t' STREAM_INPUT_SHUTDOWN else t')"
  have "pf_read s n = Some (take ?m ?bs, s')"
    using False n b t'(1) by (simp add: pf_read_def Let_def s'_def t_def)
  moreover have "pf_inv s'" "pf_avail s' = pf_avail t'"
    using t'(2) by (auto simp: s'_def pf_inv_def pf_add_event_def pf_avail_def)
  ultimately show ?thesis using t'(3) sz n by auto
qed

interpretation pf: istream pf_inv pf_avail pf_read
  by unfold_locales (rule pf_read_avail)

lemma ready_bytes_frames:
  "good_payload p \<Longrightarrow> list_all good_payload ps \<Longrightarrow>
     ready_bytes (length p) (p @ concat (map frame ps)) = p @ concat ps"
proof (induction ps arbitrary: p)
  case Nil
  then show ?case by (simp add: ready_bytes.simps good_payload_def)
next
  case (Cons q ps)
  have "ready_bytes (length q) (q @ concat (map frame ps)) = q @ concat ps"
    using Cons by simp
  with Cons.prems unat_length [of q] show ?case
    by (subst ready_bytes.simps) (simp add: frame_def good_payload_def)
qed

lemma pf_avail_frames:
  assumes "pf_inv s" "pf_synced s" "pf_wire s = concat (map frame ps)" "list_all good_payload ps"
  shows "pf_avail s = concat ps"
proof (cases ps)
  case Nil
  with assms(3) have "sb_bytes (pf_buffer s) = []" by (simp add: pf_wire_def)
  with Nil show ?thesis by (simp add: pf_avail_def ready_bytes.simps [of "pf_size s"])
next
  case (Cons p qs)
  with pf_front_packet [OF assms(1,2), of p "concat (map frame qs)"] assms(3,4)
    ready_bytes_frames [of p qs] show ?thesis by (simp add: pf_avail_def)
qed

subsection \<open>Properties\<close>

text \<open>
  C19. Packets survive fragmentation: whatever pieces the network cuts the framed packets into, the filter
  hands them out whole, in order and unchanged, and reports no error.
\<close>

theorem packets_survive_fragmentation:
  assumes "list_all good_payload ps" "concat rs = concat (map (\<lambda>p. concat [d. UpWrite d \<leftarrow> pf_write p]) ps)"
    and "[] \<notin> set rs" "length (concat rs) < 2 ^ 32"
  shows "\<exists>changed s. pf_readMore pf_new rs = Some (changed, s, []) \<and> read_packets (length ps) s = ps \<and>
    pf_events s = []"
proof -
  have w: "concat rs = concat (map frame ps)" using assms(2) by (simp only: pf_write_frame)
  then have "good_wire (pf_wire pf_new @ concat rs)" using good_wire_frames [OF assms(1)] by (simp add: pf_new_inv)
  then obtain s where s: "pf_fill pf_new rs = Some (s, [])" "pf_inv s" "pf_synced s"
      "pf_wire s = concat (map frame ps)" "pf_events s = []" "\<not> pf_inputShutdown s"
    using pf_fill_good [OF pf_new_inv(1) pf_new_synced, of rs] assms(3,4)
    by (auto simp: pf_new_inv w) (auto simp: pf_new_def)
  from read_packets_frames [OF s(2-4) assms(1) s(6)] s(1,5) show ?thesis by (simp add: pf_readMore_def)
qed

theorem packets_survive_fragmentation_witness:
  "\<exists>changed s. pf_readMore pf_new [[0, 0], [0, 2, 7, 8, 0, 0, 0], [1, 9]] = Some (changed, s, []) \<and>
    read_packets (length [[7, 8], [9 :: byte]]) s = [[7, 8], [9]] \<and> pf_events s = []"
  by (rule packets_survive_fragmentation)
     (simp_all add: good_payload_def protocol_limits pf_write_def appendInteger_4)

text \<open>
  A packet whose announced length exceeds the protocol limit is reported as a format error, and the filter
  takes no further input: the reads that would follow are left unread.
\<close>

theorem oversized_length_stops_reading:
  assumes "pf_inv s" "pf_size s = 0" "sb_bytes (pf_buffer s) = []" "length r < 2 ^ 32"
    and "decode_be32 r = Some v" "PROTOCOL_MAX_MESSAGE_LENGTH < unat v"
  shows "\<exists>s'. pf_fill s (r # rs) = Some (s', rs) \<and> pf_events s' = pf_events s @ [STREAM_INPUT_FORMAT_ERROR] \<and>
    pf_size s' = unat v \<and> pf_inv s'"
proof -
  let ?t = "s\<lparr>pf_buffer := sb_write (pf_buffer s) r\<rparr>"
  have inv: "sb_inv (pf_buffer s)" using assms(1) by (simp add: pf_inv_def)
  have b: "sb_bytes (pf_buffer ?t) = r" using sb.put_contents [OF inv, of r] assms(3) by simp
  have "pf_inv ?t" using assms(1,3,4) sb.put_inv [OF inv, of r] by (simp add: pf_inv_def)
  from pf_readPacketSize_header [OF this _, of v] assms(2,5,6) b obtain s' where
    "pf_readPacketSize ?t = Some (False, s')" "pf_inv s'" "pf_size s' = unat v"
    "pf_events s' = pf_events s @ [STREAM_INPUT_FORMAT_ERROR]" by auto
  moreover have "r \<noteq> []" using assms(5) by auto
  ultimately show ?thesis by simp
qed

theorem oversized_length_stops_reading_witness:
  "\<exists>s'. pf_fill pf_new ([255, 255, 255, 255, 1] # [[2], [3]]) = Some (s', [[2], [3]]) \<and>
    pf_events s' = pf_events pf_new @ [STREAM_INPUT_FORMAT_ERROR] \<and>
    pf_size s' = unat (be32 255 255 255 255) \<and> pf_inv s'"
proof (rule oversized_length_stops_reading)
  show "PROTOCOL_MAX_MESSAGE_LENGTH < unat (be32 255 255 255 255)"
    by (simp add: be32_def protocol_limits)
qed (simp_all add: pf_new_inv, simp_all add: pf_new_def)

text \<open>
  A packet of length 0 hides the packet behind it: when both arrive in one read, the filter has consumed
  only the first length, reports itself not ready and delivers nothing, although the second packet
  is complete in its buffer.
\<close>

theorem empty_packet_hides_next:
  assumes "good_payload p"
  shows "\<exists>s. pf_readMore pf_new [frame [] @ frame p] = Some (False, s, []) \<and> \<not> pf_isReady s \<and>
    sb_bytes (pf_buffer s) = frame p \<and> pf_read s n = Some ([], s)"
proof -
  let ?r = "frame [] @ frame p" and ?t = "pf_new\<lparr>pf_buffer := sb_write (pf_buffer pf_new) (frame [] @ frame p)\<rparr>"
  have inv: "sb_inv (pf_buffer pf_new)" using pf_new_inv(1) by (simp add: pf_inv_def)
  have e: "sb_bytes (pf_buffer pf_new) = []" by (simp add: pf_new_def)
  have b: "sb_bytes (pf_buffer ?t) = ?r" using sb.put_contents [OF inv, of ?r] e by simp
  have "length ?r < 2 ^ 32" using assms by (simp add: frame_def good_payload_def protocol_limits)
  then have "pf_inv ?t" using sb.put_inv [OF inv, of ?r] e pf_new_inv(1) by (simp add: pf_inv_def)
  moreover have "decode_be32 (sb_bytes (pf_buffer ?t)) = Some 0" using b by (simp add: frame_def)
  moreover have "pf_size ?t = 0" by (simp add: pf_new_def)
  ultimately obtain s where s: "pf_readPacketSize ?t = Some (True, s)" "pf_size s = 0"
      "sb_bytes (pf_buffer s) = drop 4 ?r"
    using pf_readPacketSize_header [of ?t 0] b by auto
  have "drop 4 ?r = frame p" by (simp add: frame_def)
  moreover have "?r \<noteq> []" by (simp add: frame_def appendInteger_4)
  ultimately show ?thesis using s
    by (simp add: pf_readMore_def pf_isReadyNoLock_def pf_isReady_def pf_read_def) (simp add: pf_new_def)
qed

theorem empty_packet_hides_next_witness:
  "\<exists>s. pf_readMore pf_new [frame [] @ frame [5]] = Some (False, s, []) \<and> \<not> pf_isReady s \<and>
    sb_bytes (pf_buffer s) = frame [5] \<and> pf_read s 10 = Some ([], s)"
  by (rule empty_packet_hides_next) (simp add: good_payload_def protocol_limits)

end
