(* ===== verification/Strings.thy ===== *)
theory Strings
  imports Prelude "HOL-Library.Sublist"
begin

text \<open>
  String helpers of \<^verbatim>\<open>src/lib/base/String.cpp\<close> that the rest of the program computes with:
  hexadecimal conversion (certificate fingerprints), caseless comparison (screen names), decimal
  sizes (chunk headers), splitting, and the indexed format substitution. A \<^verbatim>\<open>std::string\<close> is a
  \<open>string\<close>; \<^verbatim>\<open>npos\<close> is \<open>None\<close>.
\<close>

subsection \<open>Hexadecimal\<close>

text \<open>The cases of the switch, by the ranges of character codes they cover.\<close>

definition hex_to_number :: "char \<Rightarrow> int" where
  "hex_to_number ch =
     (let code = of_char ch :: int in
      if 48 \<le> code \<and> code \<le> 57 then code - 48
      else if 97 \<le> code \<and> code \<le> 102 then code - 87
      else if 65 \<le> code \<and> code \<le> 70 then code - 55
      else -1)"

text \<open>
  \<^verbatim>\<open>from_hex\<close>: colons are skipped, pairs of digits are bytes; anything else, or a single trailing
  character, makes the whole result empty. The accumulator is \<^verbatim>\<open>result\<close>.
\<close>

fun from_hex_loop :: "bytes \<Rightarrow> string \<Rightarrow> bytes" where
  "from_hex_loop result [] = result"
| "from_hex_loop result (c # cs) =
     (if c = CHR '':'' then from_hex_loop result cs
      else case cs of
        [] \<Rightarrow> []
      | d # ds \<Rightarrow>
          (if hex_to_number c < 0 \<or> hex_to_number d < 0 then []
           else from_hex_loop (result @ [of_int (hex_to_number c * 16 + hex_to_number d)]) ds))"

definition from_hex :: "string \<Rightarrow> bytes" where
  "from_hex data = from_hex_loop [] data"

text \<open>
  \<^verbatim>\<open>ss << std::hex << std::setw(width) << std::setfill(fill)\<close>: lower-case digits without leading
  zeros, padded on the left to \<open>width\<close>.
\<close>

definition hex_digit :: "nat \<Rightarrow> char" where
  "hex_digit n = ''0123456789abcdef'' ! n"

definition hex_number :: "byte \<Rightarrow> string" where
  "hex_number b =
     (if unat b < 16 then [hex_digit (unat b)] else [hex_digit (unat b div 16), hex_digit (unat b mod 16)])"

definition pad_left :: "nat \<Rightarrow> char \<Rightarrow> string \<Rightarrow> string" where
  "pad_left width fill s = replicate (width - length s) fill @ s"

definition to_hex :: "bytes \<Rightarrow> nat \<Rightarrow> char \<Rightarrow> string" where
  "to_hex subject width fill = concat (map (\<lambda>b. pad_left width fill (hex_number b)) subject)"

subsection \<open>Case\<close>

text \<open>\<^verbatim>\<open>toupper\<close> and \<^verbatim>\<open>tolower\<close> in the C locale.\<close>

definition toupper :: "char \<Rightarrow> char" where
  "toupper c = (let n = of_char c :: nat in if 97 \<le> n \<and> n \<le> 122 then char_of (n - 32) else c)"

definition tolower :: "char \<Rightarrow> char" where
  "tolower c = (let n = of_char c :: nat in if 65 \<le> n \<and> n \<le> 90 then char_of (n + 32) else c)"

definition uppercase :: "string \<Rightarrow> string" where
  "uppercase s = map toupper s"

definition removeChar :: "string \<Rightarrow> char \<Rightarrow> string" where
  "removeChar s c = filter (\<lambda>x. x \<noteq> c) s"

text \<open>
  The code of a character passed to \<^verbatim>\<open>tolower\<close> is that of a signed \<^verbatim>\<open>char\<close>; on codes below 128,
  the names and keywords of the configuration, it is the plain code used here.
\<close>

definition cmpEqual :: "char \<Rightarrow> char \<Rightarrow> bool" where
  "cmpEqual a b \<longleftrightarrow> tolower a = tolower b"

definition cmpLess :: "char \<Rightarrow> char \<Rightarrow> bool" where
  "cmpLess a b \<longleftrightarrow> (of_char (tolower a) :: nat) < of_char (tolower b)"

text \<open>\<^verbatim>\<open>std::lexicographical_compare\<close> with \<open>cmpLess\<close>.\<close>

fun caseless_less :: "string \<Rightarrow> string \<Rightarrow> bool" where
  "caseless_less _ [] = False"
| "caseless_less [] (_ # _) = True"
| "caseless_less (a # as) (b # bs) =
     (if cmpLess a b then True else if cmpLess b a then False else caseless_less as bs)"

definition caseless_equal :: "string \<Rightarrow> string \<Rightarrow> bool" where
  "caseless_equal a b \<longleftrightarrow> \<not> (caseless_less a b \<or> caseless_less b a)"

subsection \<open>Sizes in decimal\<close>

text \<open>\<^verbatim>\<open>ss << n\<close> and \<^verbatim>\<open>std::to_string\<close>: the decimal digits.\<close>

fun sizeTypeToString :: "nat \<Rightarrow> string" where
  "sizeTypeToString n =
     (if n < 10 then [char_of (48 + n)] else sizeTypeToString (n div 10) @ [char_of (48 + n mod 10)])"

declare sizeTypeToString.simps [simp del]

definition is_digit :: "char \<Rightarrow> bool" where
  "is_digit c \<longleftrightarrow> 48 \<le> (of_char c :: nat) \<and> (of_char c :: nat) \<le> 57"

definition digit_of :: "char \<Rightarrow> nat" where
  "digit_of c = of_char c - 48"

text \<open>
  \<^verbatim>\<open>iss >> value\<close> for a 64-bit unsigned \<^verbatim>\<open>value\<close> in the C locale: blanks are skipped, a sign is taken,
  then the digits at the front; without digits the value is 0, digits that do not fit give the
  maximum, a minus sign negates modulo \<open>2 ^ 64\<close>. When nothing but blanks is left the extraction
  does not touch \<^verbatim>\<open>value\<close>, which the code leaves uninitialised: \<open>None\<close>.
\<close>

definition is_space :: "char \<Rightarrow> bool" where
  "is_space c \<longleftrightarrow> c = CHR '' '' \<or> (9 \<le> (of_char c :: nat) \<and> (of_char c :: nat) \<le> 13)"

definition decimal_value :: "string \<Rightarrow> nat" where
  "decimal_value ds = foldl (\<lambda>acc c. acc * 10 + digit_of c) 0 ds"

definition stringToSizeType :: "string \<Rightarrow> nat option" where
  "stringToSizeType s =
     (case dropWhile is_space s of
        [] \<Rightarrow> None
      | c # cs \<Rightarrow>
          (let ds = (if c = CHR ''-'' \<or> c = CHR ''+'' then takeWhile is_digit cs
                     else takeWhile is_digit (c # cs));
               v = decimal_value ds
           in Some (if 2 ^ 64 \<le> v then 2 ^ 64 - 1
                    else if c = CHR ''-'' then (2 ^ 64 - v) mod 2 ^ 64 else v)))"

subsection \<open>Searching, replacing, splitting\<close>

text \<open>\<^verbatim>\<open>subject.find(c)\<close> for a character, from the front.\<close>

fun find_char :: "string \<Rightarrow> char \<Rightarrow> nat option" where
  "find_char [] c = None"
| "find_char (x # xs) c = (if x = c then Some 0 else map_option Suc (find_char xs c))"

text \<open>
  \<^verbatim>\<open>splitString\<close>: \<open>head\<close> is what has been read since the last separator; empty pieces are dropped.
\<close>

fun split_loop :: "string \<Rightarrow> string \<Rightarrow> char \<Rightarrow> string list" where
  "split_loop head [] c = (if head = [] then [] else [head])"
| "split_loop head (x # xs) c =
     (if x = c then (if head = [] then split_loop [] xs c else head # split_loop [] xs c)
      else split_loop (head @ [x]) xs c)"

definition splitString :: "string \<Rightarrow> char \<Rightarrow> string list" where
  "splitString s c = split_loop [] s c"

definition removeFileExt :: "string \<Rightarrow> string" where
  "removeFileExt filename =
     (case find_char (rev filename) (CHR ''.'') of
        None \<Rightarrow> filename
      | Some i \<Rightarrow> take (length filename - Suc i) filename)"

text \<open>
  \<^verbatim>\<open>findReplaceAll\<close>: the search goes on behind the replacement, so replaced text is not searched
  again. With an empty \<^verbatim>\<open>find\<close> the loop of the code never ends: \<open>None\<close>.
\<close>

fun replace_loop :: "nat \<Rightarrow> string \<Rightarrow> string \<Rightarrow> string \<Rightarrow> string" where
  "replace_loop 0 pat repl s = s"
| "replace_loop (Suc fuel) pat repl s =
     (case s of
        [] \<Rightarrow> []
      | x # xs \<Rightarrow>
          (if prefix pat s then repl @ replace_loop fuel pat repl (drop (length pat) s)
           else x # replace_loop fuel pat repl xs))"

definition findReplaceAll :: "string \<Rightarrow> string \<Rightarrow> string \<Rightarrow> string option" where
  "findReplaceAll subject pat repl =
     (if pat = [] then None else Some (replace_loop (Suc (length subject)) pat repl subject))"

subsection \<open>Indexed substitution\<close>

text \<open>
  \<^verbatim>\<open>strtol\<close> in base 10: the value (\<open>None\<close> when it is out of range and \<^verbatim>\<open>errno\<close> is set) and the text behind
  the number; without digits the value is 0 and nothing is consumed.
\<close>

definition strtol :: "string \<Rightarrow> int option \<times> string" where
  "strtol s =
     (let r1 = dropWhile is_space s;
          neg = (r1 \<noteq> [] \<and> hd r1 = CHR ''-'');
          r2 = (if r1 \<noteq> [] \<and> (hd r1 = CHR ''-'' \<or> hd r1 = CHR ''+'') then tl r1 else r1);
          ds = takeWhile is_digit r2;
          v = (if neg then - int (decimal_value ds) else int (decimal_value ds))
      in if ds = [] then (Some 0, s)
         else ((if - (2 ^ 63) \<le> v \<and> v < 2 ^ 63 then Some v else None), dropWhile is_digit r2))"

lemma strtol_le: "strtol s = (v, rest) \<Longrightarrow> length rest \<le> length s"
proof -
  assume a: "strtol s = (v, rest)"
  let ?r1 = "dropWhile is_space s"
  have "length (dropWhile is_digit ?r1) \<le> length s" "length (dropWhile is_digit (tl ?r1)) \<le> length s"
    using length_dropWhile_le [of is_space s] length_dropWhile_le [of is_digit ?r1]
      length_dropWhile_le [of is_digit "tl ?r1"] by auto
  with a show ?thesis by (auto simp: strtol_def Let_def split: if_splits)
qed

text \<open>
  \<^verbatim>\<open>vformat\<close>. The first loop collects the substitutions: \<open>(index, pos, width)\<close>, with index 0 for a
  literal \<open>%%\<close>. An index that is negative, out of range or not closed by \<open>}\<close> is ignored and scanning
  goes on where the number stopped.
\<close>

function scan_format :: "nat \<Rightarrow> string \<Rightarrow> (nat \<times> nat \<times> nat) list" where
  "scan_format p [] = []"
| "scan_format p (c # cs) =
     (if c \<noteq> CHR ''%'' then scan_format (Suc p) cs
      else case cs of
        [] \<Rightarrow> []
      | d # ds \<Rightarrow>
          (if d = CHR ''%'' then (0, p, 2) # scan_format (p + 2) ds
           else if d = CHR ''{'' then
             (case strtol ds of
                (v, rest) \<Rightarrow>
                  (let used = length ds - length rest in
                   if v \<noteq> None \<and> 0 \<le> the v \<and> rest \<noteq> [] \<and> hd rest = CHR ''}''
                   then (nat (the v), p, used + 3) # scan_format (p + used + 3) (tl rest)
                   else scan_format (p + used + 2) rest))
           else scan_format (p + 2) ds))"
  by pat_completeness auto
termination
  by (relation "measure (\<lambda>(p, s). length s)") (auto dest!: sym [THEN strtol_le])

text \<open>
  The second half: the pieces of the format between the substitutions, with the arguments put in.
  \<open>None\<close> is an index beyond the arguments passed.
\<close>

fun substitute :: "string \<Rightarrow> string list \<Rightarrow> nat \<Rightarrow> (nat \<times> nat \<times> nat) list \<Rightarrow> string option" where
  "substitute fmt vals src [] = Some (drop src fmt)"
| "substitute fmt vals src ((i, p, w) # subs) =
     (if i < length vals then
        map_option (\<lambda>r. take (p - src) (drop src fmt) @ vals ! i @ r) (substitute fmt vals (p + w) subs)
      else None)"

definition vformat :: "string \<Rightarrow> string list \<Rightarrow> string option" where
  "vformat fmt args = substitute fmt (''%'' # args) 0 (scan_format 0 fmt)"

subsection \<open>Properties: hexadecimal\<close>

lemma hex_digit_number: "n < 16 \<Longrightarrow> hex_to_number (hex_digit n) = int n"
proof -
  have "\<forall>n \<in> set [0..<16]. hex_to_number (hex_digit n) = int n" by code_simp
  then show "n < 16 \<Longrightarrow> hex_to_number (hex_digit n) = int n" by simp
qed

lemma hex_digit_not_colon: "n < 16 \<Longrightarrow> hex_digit n \<noteq> CHR '':''"
proof -
  have "\<forall>n \<in> set [0..<16]. hex_digit n \<noteq> CHR '':''" by code_simp
  then show "n < 16 \<Longrightarrow> hex_digit n \<noteq> CHR '':''" by simp
qed

lemma pad_hex_number:
  "pad_left 2 (CHR ''0'') (hex_number b) = [hex_digit (unat b div 16), hex_digit (unat b mod 16)]"
  by (auto simp: pad_left_def hex_number_def hex_digit_def)

lemma byte_of_nibbles: "of_int (int (unat (b::byte) div 16) * 16 + int (unat b mod 16)) = b"
proof -
  have "int (unat b div 16) * 16 + int (unat b mod 16) = int (unat b)"
    by (metis div_mult_mod_eq of_nat_add of_nat_mult of_nat_numeral)
  then show ?thesis by simp
qed

lemma from_hex_loop_to_hex:
  "from_hex_loop acc (to_hex bs 2 (CHR ''0'') @ rest) = from_hex_loop (acc @ bs) rest"
proof (induction bs arbitrary: acc)
  case Nil
  then show ?case by (simp add: to_hex_def)
next
  case (Cons b bs)
  have n: "unat b div 16 < 16" "unat b mod 16 < 16"
  proof -
    have "unat b < 2 ^ 8" using unsigned_less [of b] by simp
    then show "unat b div 16 < 16" by (simp add: less_mult_imp_div_less)
  qed simp
  then have "from_hex_loop acc (to_hex (b # bs) 2 (CHR ''0'') @ rest) =
      from_hex_loop (acc @ [b]) (to_hex bs 2 (CHR ''0'') @ rest)"
    using byte_of_nibbles [of b]
    by (simp add: to_hex_def pad_hex_number hex_digit_number hex_digit_not_colon)
  with Cons.IH show ?case by simp
qed

subsection \<open>Properties: caseless order\<close>

lemma of_char_eq_nat: "(of_char a :: nat) = of_char b \<longleftrightarrow> a = b"
  by simp

lemma cmpLess_linear: "\<not> cmpLess a b \<Longrightarrow> \<not> cmpLess b a \<Longrightarrow> tolower a = tolower b"
  unfolding cmpLess_def by (metis linorder_neqE_nat of_char_eq_nat)

lemma caseless_less_irrefl: "\<not> caseless_less a a"
  by (induction a) (auto simp: cmpLess_def)

lemma caseless_less_trans: "caseless_less a b \<Longrightarrow> caseless_less b c \<Longrightarrow> caseless_less a c"
proof (induction a b arbitrary: c rule: caseless_less.induct)
  case (3 a as b bs)
  then obtain d ds where c: "c = d # ds" by (cases c) auto
  show ?case
    using 3 unfolding c by (auto simp: cmpLess_def split: if_splits)
next
  case (2 b bs)
  then show ?case by (cases c) auto
qed auto

lemma caseless_equal_iff: "caseless_equal a b \<longleftrightarrow> map tolower a = map tolower b"
proof (induction a b rule: caseless_less.induct)
  case (3 a as b bs)
  consider "cmpLess a b" | "cmpLess b a" | "\<not> cmpLess a b" "\<not> cmpLess b a" by blast
  then show ?case
  proof cases
    case 1
    then have "tolower a \<noteq> tolower b" by (auto simp: cmpLess_def)
    with 1 show ?thesis by (simp add: caseless_equal_def)
  next
    case 2
    then have "tolower a \<noteq> tolower b" "\<not> cmpLess a b" by (auto simp: cmpLess_def)
    with 2 show ?thesis by (simp add: caseless_equal_def)
  next
    case eq: 3
    then have "tolower a = tolower b" by (rule cmpLess_linear)
    with 3 eq show ?thesis by (simp add: caseless_equal_def)
  qed
next
  case (1 a)
  then show ?case by (cases a) (simp_all add: caseless_equal_def)
qed (simp_all add: caseless_equal_def)

subsection \<open>Properties: decimal sizes\<close>

lemma decimal_value_snoc: "decimal_value (ds @ [d]) = decimal_value ds * 10 + digit_of d"
  by (simp add: decimal_value_def)

lemma digit_char: "n < 10 \<Longrightarrow> is_digit (char_of (48 + n)) \<and> digit_of (char_of (48 + n)) = n"
  by (simp add: is_digit_def digit_of_def)

lemma sizeTypeToString_digits:
  "(\<forall>c \<in> set (sizeTypeToString n). is_digit c) \<and> decimal_value (sizeTypeToString n) = n \<and>
   sizeTypeToString n \<noteq> []"
proof (induction n rule: sizeTypeToString.induct)
  case (1 n)
  show ?case
  proof (cases "n < 10")
    case True
    then show ?thesis
      using digit_char [of n] by (subst (1 2 3) sizeTypeToString.simps) (simp add: decimal_value_def)
  next
    case False
    have "n mod 10 < 10" by simp
    note d = digit_char [OF this]
    show ?thesis
      using "1.IH" [OF False] False d
      by (subst (1 2 3) sizeTypeToString.simps) (auto simp: decimal_value_snoc)
  qed
qed

lemma digit_not_special: "is_digit c \<Longrightarrow> \<not> is_space c \<and> c \<noteq> CHR ''-'' \<and> c \<noteq> CHR ''+''"
  by (auto simp: is_digit_def is_space_def)

lemma size_string_roundtrip:
  assumes "n < 2 ^ 64"
  shows "stringToSizeType (sizeTypeToString n) = Some n"
proof -
  obtain c cs where c: "sizeTypeToString n = c # cs" and v: "decimal_value (c # cs) = n"
    and ds: "\<forall>x \<in> set (c # cs). is_digit x"
    using sizeTypeToString_digits [of n] by (cases "sizeTypeToString n") auto
  have tw: "takeWhile is_digit cs = cs" using ds by (simp add: takeWhile_eq_all_conv)
  then show ?thesis
    using c v ds digit_not_special [of c] assms by (simp add: stringToSizeType_def Let_def tw)
qed

subsection \<open>Properties: splitting and replacing\<close>

lemma split_loop_pieces:
  "c \<notin> set head \<Longrightarrow> (\<forall>p \<in> set (split_loop head s c). p \<noteq> [] \<and> c \<notin> set p) \<and>
     concat (split_loop head s c) = head @ filter (\<lambda>x. x \<noteq> c) s"
proof (induction s arbitrary: head)
  case Nil
  then show ?case by simp
next
  case (Cons x xs)
  show ?case
  proof (cases "x = c")
    case True
    with Cons.IH [of "[]"] Cons.prems show ?thesis by simp
  next
    case False
    with Cons.IH [of "head @ [x]"] Cons.prems show ?thesis by simp
  qed
qed

lemma replace_loop_fuel:
  "pat \<noteq> [] \<Longrightarrow> length s < f \<Longrightarrow> length s < g \<Longrightarrow> replace_loop f pat repl s = replace_loop g pat repl s"
proof (induction f arbitrary: g s)
  case 0
  then show ?case by simp
next
  case (Suc f)
  then obtain g' where g: "g = Suc g'" by (cases g) auto
  show ?case
  proof (cases s)
    case Nil
    then show ?thesis using g by simp
  next
    case (Cons x xs)
    have "length (drop (length pat) s) < f" "length (drop (length pat) s) < g'"
      using Suc.prems g Cons by (auto simp: neq_Nil_conv)
    then have "replace_loop f pat repl (drop (length pat) s) = replace_loop g' pat repl (drop (length pat) s)"
      by (rule Suc.IH [OF Suc.prems(1)])
    moreover have "replace_loop f pat repl xs = replace_loop g' pat repl xs"
      using Suc.prems Cons g by (intro Suc.IH) auto
    ultimately show ?thesis using Cons g by simp
  qed
qed

lemma replace_loop_absent:
  "\<not> sublist pat s \<Longrightarrow> replace_loop f pat repl s = s"
proof (induction f arbitrary: s)
  case 0
  then show ?case by simp
next
  case (Suc f)
  show ?case
  proof (cases s)
    case Nil
    then show ?thesis by simp
  next
    case (Cons x xs)
    have "\<not> prefix pat s" "\<not> sublist pat xs"
      using Suc.prems Cons by (auto simp: sublist_Cons_right)
    then show ?thesis using Suc.IH Cons by simp
  qed
qed

lemma scan_format_plain: "CHR ''%'' \<notin> set s \<Longrightarrow> scan_format p s = []"
  by (induction s arbitrary: p) auto

subsection \<open>Statements about the string functions\<close>

text \<open>
  A fingerprint printed as hexadecimal digits reads back as the same bytes.
\<close>

theorem hex_roundtrip: "from_hex (to_hex bs 2 (CHR ''0'')) = bs"
  using from_hex_loop_to_hex [of "[]" bs "[]"] by (simp add: from_hex_def)

text \<open>
  Screen names compare without regard to case: the comparison is a strict order, and two names are
  equal for it exactly when they differ in case only.
\<close>

theorem caseless_is_order:
  "\<not> caseless_less a a \<and> (caseless_less a b \<and> caseless_less b c \<longrightarrow> caseless_less a c) \<and>
   (caseless_equal a b \<longleftrightarrow> map tolower a = map tolower b)"
  using caseless_less_irrefl caseless_less_trans caseless_equal_iff by blast

theorem caseless_is_order_witness:
  "caseless_less ''Alpha'' ''beta'' \<and> caseless_less ''beta'' ''Gamma'' \<and> caseless_less ''Alpha'' ''Gamma''"
  using caseless_is_order [of "''Alpha''" "''beta''" "''Gamma''"] by code_simp

text \<open>
  Splitting a text at a separator yields non-empty pieces without the separator, which together are the
  text with its separators removed.
\<close>

theorem split_pieces:
  "(\<forall>p. p \<in> set (splitString s c) \<longrightarrow> p \<noteq> [] \<and> c \<notin> set p) \<and>
   concat (splitString s c) = filter (\<lambda>x. x \<noteq> c) s"
  using split_loop_pieces [of c "[]" s] by (simp add: splitString_def)

theorem split_pieces_witness:
  "''b'' \<in> set (splitString ''a,,b'' (CHR '','')) \<and> CHR '','' \<notin> set ''b''"
proof -
  have "''b'' \<in> set (splitString ''a,,b'' (CHR '',''))" by code_simp
  then show ?thesis using split_pieces [of "''a,,b''" "CHR '',''"] by blast
qed

end
