(* ===== verification/Chunks.thy ===== *)
theory Chunks
  imports PacketFilter Strings
begin

text \<open>
  Chunked transfer of clipboards and files: \<^verbatim>\<open>ClipboardChunk.cpp\<close>, \<^verbatim>\<open>FileChunk.cpp\<close> and
  \<^verbatim>\<open>StreamChunker.cpp\<close> of \<^verbatim>\<open>src/lib/inputleap\<close>. The sender posts events, one per chunk, whose handlers
  write a \<^verbatim>\<open>DCLP\<close> or \<^verbatim>\<open>DFTR\<close> message; the receiver reads one message per call of \<open>assemble\<close> and
  collects the data. The theorems show that what a sender posts makes the receiver finish with exactly
  the data sent, over any stream that keeps the contract \<open>istream\<close>, and what happens when a file
  transfer is interrupted.
\<close>

subsection \<open>Chunks\<close>

definition kDataStart :: byte where "kDataStart = 1"
definition kDataChunk :: byte where "kDataChunk = 2"
definition kDataEnd :: byte where "kDataEnd = 3"

definition kClipboardEnd :: byte where "kClipboardEnd = 2"

lemmas mark_defs = kDataStart_def kDataChunk_def kDataEnd_def

datatype transfer_state = kStart | kNotFinish | kFinish | kError

record clipboard_chunk =
  cc_id :: byte
  cc_sequence :: u32
  cc_mark :: byte
  cc_data :: bytes

definition ClipboardChunk_start :: "byte \<Rightarrow> u32 \<Rightarrow> nat \<Rightarrow> clipboard_chunk" where
  "ClipboardChunk_start i sq sz =
     \<lparr>cc_id = i, cc_sequence = sq, cc_mark = kDataStart, cc_data = bytes_of (sizeTypeToString sz)\<rparr>"

definition ClipboardChunk_data :: "byte \<Rightarrow> u32 \<Rightarrow> bytes \<Rightarrow> clipboard_chunk" where
  "ClipboardChunk_data i sq d = \<lparr>cc_id = i, cc_sequence = sq, cc_mark = kDataChunk, cc_data = d\<rparr>"

definition ClipboardChunk_end :: "byte \<Rightarrow> u32 \<Rightarrow> clipboard_chunk" where
  "ClipboardChunk_end i sq = \<lparr>cc_id = i, cc_sequence = sq, cc_mark = kDataEnd, cc_data = []\<rparr>"

record file_chunk =
  fc_mark :: byte
  fc_data :: bytes

definition FileChunk_start :: "nat \<Rightarrow> file_chunk" where
  "FileChunk_start sz = \<lparr>fc_mark = kDataStart, fc_data = bytes_of (sizeTypeToString sz)\<rparr>"

definition FileChunk_data :: "bytes \<Rightarrow> file_chunk" where
  "FileChunk_data d = \<lparr>fc_mark = kDataChunk, fc_data = d\<rparr>"

definition FileChunk_end :: file_chunk where
  "FileChunk_end = \<lparr>fc_mark = kDataEnd, fc_data = []\<rparr>"

subsection \<open>The receivers\<close>

text \<open>
  The size announced by a start message. The text of it goes through \<open>stringToSizeType\<close>, which leaves
  its result uninitialised for a blank text; \<open>u\<close> stands for what the memory holds then.
\<close>

definition parse_size :: "nat \<Rightarrow> bytes \<Rightarrow> nat" where
  "parse_size u bs = (case stringToSizeType (chars_of bs) of None \<Rightarrow> u | Some n \<Rightarrow> n)"

text \<open>
  \<^verbatim>\<open>ClipboardChunk::assemble\<close>. Its state is the static \<^verbatim>\<open>s_expectedSize\<close> and the caller's \<^verbatim>\<open>dataCached\<close>,
  \<^verbatim>\<open>id\<close> and \<^verbatim>\<open>sequence\<close>. An exception of \<^verbatim>\<open>readf\<close> that is not an \<^verbatim>\<open>XIO\<close> leaves the function.
\<close>

record clipboard_assembly =
  ca_expectedSize :: nat
  ca_dataCached :: bytes
  ca_id :: byte
  ca_sequence :: u32

definition ClipboardChunk_store :: "nat \<Rightarrow> byte \<Rightarrow> u32 \<Rightarrow> byte \<Rightarrow> bytes \<Rightarrow> clipboard_assembly \<Rightarrow>
    transfer_state \<times> clipboard_assembly" where
  "ClipboardChunk_store u i sq mark d a0 =
     (let a = a0\<lparr>ca_id := i, ca_sequence := sq\<rparr> in
      if mark = kDataStart then
        (kStart, a\<lparr>ca_expectedSize := parse_size u d, ca_dataCached := []\<rparr>)
      else if mark = kDataChunk then (kNotFinish, a\<lparr>ca_dataCached := ca_dataCached a @ d\<rparr>)
      else if mark = kDataEnd then
        (if kClipboardEnd \<le> i then (kError, a)
         else if ca_expectedSize a \<noteq> length (ca_dataCached a) then (kError, a)
         else (kFinish, a))
      else (kError, a))"

text \<open>
  \<^verbatim>\<open>ClipboardChunk::assemble\<close>. The id and the sequence number are variables of the caller that every call sets anew; what
  a read that fails leaves in them is not recorded, and no caller looks at it.
\<close>

definition ClipboardChunk_assemble :: "nat \<Rightarrow> 's reader \<Rightarrow> 's \<Rightarrow> clipboard_assembly \<Rightarrow>
    (read_error + transfer_state) \<times> clipboard_assembly \<times> 's" where
  "ClipboardChunk_assemble u rd s a =
     (case readf rd s (drop 4 kMsgDClipboard) of
        (Inl e, _, s') \<Rightarrow> (Inl e, a, s')
      | (Inr False, _, s') \<Rightarrow> (Inr kError, a, s')
      | (Inr True, [RInt1 i, RInt4 sq, RInt1 mark, RString d], s') \<Rightarrow>
          (let (r, a') = ClipboardChunk_store u i sq mark d a in (Inr r, a', s'))
      | (Inr True, _, s') \<Rightarrow> (Inl AssertionFailed, a, s'))"

text \<open>\<^verbatim>\<open>FileChunk::assemble\<close>; the stopwatch and the average speed it logs are left out.\<close>

record file_assembly =
  fa_expectedSize :: nat
  fa_dataReceived :: bytes

definition FileChunk_store :: "nat \<Rightarrow> byte \<Rightarrow> bytes \<Rightarrow> file_assembly \<Rightarrow> transfer_state \<times> file_assembly" where
  "FileChunk_store u mark d a =
     (if mark = kDataStart then (kStart, a\<lparr>fa_dataReceived := [], fa_expectedSize := parse_size u d\<rparr>)
      else if mark = kDataChunk then (kNotFinish, a\<lparr>fa_dataReceived := fa_dataReceived a @ d\<rparr>)
      else if mark = kDataEnd then
        (if fa_expectedSize a \<noteq> length (fa_dataReceived a) then (kError, a) else (kFinish, a))
      else (kError, a))"

definition FileChunk_assemble :: "nat \<Rightarrow> 's reader \<Rightarrow> 's \<Rightarrow> file_assembly \<Rightarrow>
    (read_error + transfer_state) \<times> file_assembly \<times> 's" where
  "FileChunk_assemble u rd s a =
     (case readf rd s (drop 4 kMsgDFileTransfer) of
        (Inl e, _, s') \<Rightarrow> (Inl e, a, s')
      | (Inr False, _, s') \<Rightarrow> (Inr kError, a, s')
      | (Inr True, [RInt1 mark, RString d], s') \<Rightarrow>
          (let (r, a') = FileChunk_store u mark d a in (Inr r, a', s'))
      | (Inr True, _, s') \<Rightarrow> (Inl AssertionFailed, a, s'))"

subsection \<open>The senders\<close>

definition g_chunkSize :: nat where "g_chunkSize = 32 * 1024"

text \<open>The events posted to the sender's own target.\<close>

datatype chunk_event =
    FILE_KEEPALIVE_EV
  | CLIPBOARD_SENDING_EV clipboard_chunk
  | FILE_CHUNK_SENDING_EV file_chunk

text \<open>
  The size of the chunk that starts at \<open>sent\<close>: \<^verbatim>\<open>chunkSize\<close> is only ever reduced for the last one.
\<close>

definition chunk_size :: "nat \<Rightarrow> nat \<Rightarrow> nat" where
  "chunk_size sz sent = (if sz < sent + g_chunkSize then sz - sent else g_chunkSize)"

text \<open>The loop of \<^verbatim>\<open>sendClipboard\<close>. \<open>sz < sent\<close> never holds in it and only makes the recursion total.\<close>

function send_clipboard_chunks :: "bytes \<Rightarrow> nat \<Rightarrow> byte \<Rightarrow> u32 \<Rightarrow> nat \<Rightarrow> chunk_event list" where
  "send_clipboard_chunks data sz i sq sent =
     (let n = chunk_size sz sent; sent' = sent + n in
      FILE_KEEPALIVE_EV #
      CLIPBOARD_SENDING_EV (ClipboardChunk_data i sq (take n (drop sent data))) #
      (if sent' = sz \<or> sz < sent then [] else send_clipboard_chunks data sz i sq sent'))"
  by pat_completeness auto
termination
  by (relation "measure (\<lambda>(_, sz, _, _, sent). sz - sent)")
     (auto simp: chunk_size_def g_chunkSize_def split: if_splits)

declare send_clipboard_chunks.simps [simp del]

text \<open>
  \<^verbatim>\<open>sendClipboard\<close>: the events it posts; \<open>None\<close> when the given size exceeds the data, where the code
  would read outside it.
\<close>

definition sendClipboard :: "bytes \<Rightarrow> nat \<Rightarrow> byte \<Rightarrow> u32 \<Rightarrow> chunk_event list option" where
  "sendClipboard data sz i sq =
     (if length data < sz then None
      else Some (CLIPBOARD_SENDING_EV (ClipboardChunk_start i sq sz) #
                 send_clipboard_chunks data sz i sq 0 @
                 [CLIPBOARD_SENDING_EV (ClipboardChunk_end i sq)]))"

text \<open>
  The file sender runs in a thread of its own and shares two flags with \<open>interruptFile\<close>, which the
  event thread calls. \<open>polls\<close> lists, for each round of the loop, whether \<^verbatim>\<open>interruptFile\<close> ran since the
  previous round.
\<close>

record chunker =
  s_isChunkingFile :: bool
  s_interruptFile :: bool

definition interruptFile :: "chunker \<Rightarrow> chunker" where
  "interruptFile st = (if s_isChunkingFile st then st\<lparr>s_interruptFile := True\<rparr> else st)"

definition poll :: "bool \<Rightarrow> chunker \<Rightarrow> chunker" where
  "poll p st = (if p then interruptFile st else st)"

function send_file_chunks :: "bytes \<Rightarrow> bool list \<Rightarrow> chunker \<Rightarrow> nat \<Rightarrow> chunk_event list \<times> chunker" where
  "send_file_chunks file polls st sent =
     (let st1 = poll (case polls of [] \<Rightarrow> False | p # _ \<Rightarrow> p) st; sz = length file;
          n = chunk_size sz sent; sent' = sent + n in
      if s_interruptFile st1 then ([], st1\<lparr>s_interruptFile := False\<rparr>)
      else
        let evs = [FILE_KEEPALIVE_EV, FILE_CHUNK_SENDING_EV (FileChunk_data (take n (drop sent file)))] in
        if sent' = sz \<or> sz < sent then (evs, st1)
        else let (evs', st2) = send_file_chunks file (drop 1 polls) st1 sent' in (evs @ evs', st2))"
  by pat_completeness auto
termination
  by (relation "measure (\<lambda>(file, _, _, sent). length file - sent)")
     (auto simp: chunk_size_def g_chunkSize_def split: if_splits)

declare send_file_chunks.simps [simp del]

text \<open>
  \<^verbatim>\<open>sendFile\<close>: a file that cannot be opened is \<open>None\<close>; then \<^verbatim>\<open>std::runtime_error\<close> leaves the function
  (\<open>None\<close> as the first result) before anything is posted.
\<close>

definition sendFile :: "bytes option \<Rightarrow> bool list \<Rightarrow> chunker \<Rightarrow> chunk_event list option \<times> chunker" where
  "sendFile file polls st =
     (let st0 = st\<lparr>s_isChunkingFile := True\<rparr> in
      case file of
        None \<Rightarrow> (None, st0)
      | Some content \<Rightarrow>
          (let (evs, st1) = send_file_chunks content polls st0 0
           in (Some (FILE_CHUNK_SENDING_EV (FileChunk_start (length content)) # evs @
                     [FILE_CHUNK_SENDING_EV FileChunk_end]),
               st1\<lparr>s_isChunkingFile := False\<rparr>)))"

subsection \<open>The messages of the events\<close>

text \<open>
  The handlers of the sending events write the chunk with \<^verbatim>\<open>writef\<close>
  (\<^verbatim>\<open>ServerProxy::handle_clipboard_sending_event\<close>, \<^verbatim>\<open>ClientConnectionByStream\<close> and their
  file counterparts); a keep-alive goes to another handler and sends no chunk.
\<close>

definition clipboard_args :: "clipboard_chunk \<Rightarrow> write_arg list" where
  "clipboard_args c = [WInteger (ucast (cc_id c)), WInteger (cc_sequence c), WInteger (ucast (cc_mark c)),
     WString (Some (cc_data c))]"

definition send_clipboard_chunk :: "clipboard_chunk \<Rightarrow> write_error + bytes" where
  "send_clipboard_chunk c = writefArgs kMsgDClipboard (clipboard_args c)"

definition file_args :: "file_chunk \<Rightarrow> write_arg list" where
  "file_args c = [WInteger (ucast (fc_mark c)), WString (Some (fc_data c))]"

definition file_chunk_sending :: "file_chunk \<Rightarrow> write_error + bytes" where
  "file_chunk_sending c = writefArgs kMsgDFileTransfer (file_args c)"

fun clipboard_chunks_of :: "chunk_event list \<Rightarrow> clipboard_chunk list" where
  "clipboard_chunks_of [] = []"
| "clipboard_chunks_of (CLIPBOARD_SENDING_EV c # es) = c # clipboard_chunks_of es"
| "clipboard_chunks_of (_ # es) = clipboard_chunks_of es"

fun file_chunks_of :: "chunk_event list \<Rightarrow> file_chunk list" where
  "file_chunks_of [] = []"
| "file_chunks_of (FILE_CHUNK_SENDING_EV c # es) = c # file_chunks_of es"
| "file_chunks_of (_ # es) = file_chunks_of es"

subsection \<open>What the senders post\<close>

text \<open>The data chunks carry the data in order, each at most \<open>g_chunkSize\<close> bytes, at least one of them.\<close>

definition cuts :: "bytes \<Rightarrow> bytes list \<Rightarrow> bool" where
  "cuts data ps \<longleftrightarrow> concat ps = data \<and> ps \<noteq> [] \<and> (\<forall>p \<in> set ps. length p \<le> g_chunkSize)"

lemma chunk_size_le: "sent \<le> sz \<Longrightarrow> sent + chunk_size sz sent \<le> sz"
  by (auto simp: chunk_size_def)

lemma chunk_size_max: "chunk_size sz sent \<le> g_chunkSize"
  by (auto simp: chunk_size_def)

lemma piece_max: "length (take (chunk_size sz sent) xs) \<le> g_chunkSize"
  using chunk_size_max [of sz sent] by simp

lemma take_then_drop: "take n (drop k xs) @ drop (k + n) xs = drop k xs"
  by (metis append_take_drop_id drop_drop add.commute)

lemma cuts_single: "cuts (take (chunk_size sz sent) xs) [take (chunk_size sz sent) xs]"
  using piece_max [of sz sent xs] by (simp add: cuts_def)

lemma cuts_cons:
  "cuts ys ps \<Longrightarrow> take (chunk_size sz sent) xs @ ys = zs \<Longrightarrow> cuts zs (take (chunk_size sz sent) xs # ps)"
  using piece_max [of sz sent xs] by (auto simp: cuts_def)

lemma send_clipboard_chunks_cuts:
  "sent \<le> sz \<Longrightarrow> \<exists>ps. clipboard_chunks_of (send_clipboard_chunks data sz i sq sent) =
     map (ClipboardChunk_data i sq) ps \<and> cuts (drop sent (take sz data)) ps"
proof (induction data sz i sq sent rule: send_clipboard_chunks.induct)
  case (1 data sz i sq sent)
  let ?n = "chunk_size sz sent"
  let ?p = "take ?n (drop sent data)"
  show ?case
  proof (cases "sent + ?n = sz")
    case True
    then have "?n = sz - sent" by simp
    then have "drop sent (take sz data) = ?p" by (simp add: drop_take)
    then have "cuts (drop sent (take sz data)) [?p]" using cuts_single [of sz sent] by simp
    then show ?thesis using True
      by (subst send_clipboard_chunks.simps) (auto simp: Let_def intro!: exI [of _ "[?p]"])
  next
    case False
    have le: "sent + ?n \<le> sz" using chunk_size_le "1.prems" by simp
    have nlt: "\<not> sz < sent" using "1.prems" by simp
    from "1.IH" [OF refl refl] False nlt le obtain ps where
      ps: "clipboard_chunks_of (send_clipboard_chunks data sz i sq (sent + ?n)) =
        map (ClipboardChunk_data i sq) ps" "cuts (drop (sent + ?n) (take sz data)) ps" by auto
    have "?p @ drop (sent + ?n) (take sz data) = drop sent (take sz data)"
    proof -
      have "?p = take ?n (drop sent (take sz data))" using le by (simp add: drop_take min_def)
      then show ?thesis by (simp only: take_then_drop)
    qed
    then have "cuts (drop sent (take sz data)) (?p # ps)" by (rule cuts_cons [OF ps(2)])
    then show ?thesis using False nlt ps(1)
      by (subst send_clipboard_chunks.simps) (auto simp: Let_def intro!: exI [of _ "?p # ps"])
  qed
qed

lemma clipboard_chunks_of_append [simp]:
  "clipboard_chunks_of (xs @ ys) = clipboard_chunks_of xs @ clipboard_chunks_of ys"
  by (induction xs rule: clipboard_chunks_of.induct) auto

lemma file_chunks_of_append [simp]: "file_chunks_of (xs @ ys) = file_chunks_of xs @ file_chunks_of ys"
  by (induction xs rule: file_chunks_of.induct) auto

lemma sendClipboard_posts:
  assumes "sendClipboard data sz i sq = Some evs"
  shows "\<exists>ps. clipboard_chunks_of evs =
    ClipboardChunk_start i sq sz # map (ClipboardChunk_data i sq) ps @ [ClipboardChunk_end i sq] \<and>
    cuts (take sz data) ps"
  using assms send_clipboard_chunks_cuts [of 0 sz data i sq] by (auto simp: sendClipboard_def split: if_splits)

lemma send_file_chunks_cuts:
  "sent \<le> length content \<Longrightarrow> \<not> s_interruptFile st \<Longrightarrow> True \<notin> set polls \<Longrightarrow>
     \<exists>ps evs. send_file_chunks content polls st sent = (evs, st) \<and>
       file_chunks_of evs = map FileChunk_data ps \<and> cuts (drop sent content) ps"
proof (induction content polls st sent rule: send_file_chunks.induct)
  case (1 content polls st sent)
  let ?n = "chunk_size (length content) sent"
  let ?p = "take ?n (drop sent content)"
  have st: "poll (case polls of [] \<Rightarrow> False | p # _ \<Rightarrow> p) st = st"
    using "1.prems"(3) by (cases polls) (auto simp: poll_def)
  show ?case
  proof (cases "sent + ?n = length content")
    case True
    then have "?n = length content - sent" by simp
    then have "drop sent content = ?p" by simp
    then have "cuts (drop sent content) [?p]" using cuts_single [of "length content" sent] by metis
    then show ?thesis using True "1.prems"(2)
      by (subst send_file_chunks.simps) (auto simp: Let_def st intro!: exI [of _ "[?p]"])
  next
    case False
    have le: "sent + ?n \<le> length content" using chunk_size_le "1.prems"(1) by simp
    have nlt: "\<not> length content < sent" using "1.prems"(1) by simp
    have "True \<notin> set (drop 1 polls)" using "1.prems"(3) by (meson in_set_dropD)
    from "1.IH" [OF refl refl refl refl _ refl _ le, unfolded st, OF "1.prems"(2) _ "1.prems"(2) this]
      False nlt obtain ps evs where
      ps: "send_file_chunks content (drop 1 polls) st (sent + ?n) = (evs, st)"
        "file_chunks_of evs = map FileChunk_data ps" "cuts (drop (sent + ?n) content) ps" by auto
    have "?p @ drop (sent + ?n) content = drop sent content"
      by (rule take_then_drop)
    then have "cuts (drop sent content) (?p # ps)" by (rule cuts_cons [OF ps(3)])
    then show ?thesis using False nlt ps(1,2) "1.prems"(2)
      by (subst send_file_chunks.simps) (auto simp: Let_def st intro!: exI [of _ "?p # ps"])
  qed
qed

lemma sendFile_posts:
  assumes "\<not> s_interruptFile st" "True \<notin> set polls"
  shows "\<exists>ps evs. sendFile (Some content) polls st = (Some evs, st\<lparr>s_isChunkingFile := False\<rparr>) \<and>
    file_chunks_of evs = FileChunk_start (length content) # map FileChunk_data ps @ [FileChunk_end] \<and>
    cuts content ps"
  using send_file_chunks_cuts [of 0 content "st\<lparr>s_isChunkingFile := True\<rparr>" polls] assms
  by (auto simp: sendFile_def)

subsection \<open>What the receivers make of it\<close>

text \<open>
  The receiving loop: \<open>ServerProxy::handle_data\<close> and \<open>ClientProxy::handle_data\<close> read a four-byte code and
  then call \<open>assemble\<close>; here for \<open>n\<close> messages in a row, with the results in order.
\<close>

fun receive_clipboard :: "nat \<Rightarrow> 's reader \<Rightarrow> 's \<Rightarrow> clipboard_assembly \<Rightarrow> nat \<Rightarrow>
    (read_error + transfer_state) list \<times> clipboard_assembly \<times> 's" where
  "receive_clipboard u rd s a 0 = ([], a, s)"
| "receive_clipboard u rd s a (Suc n) =
     (case stream_read rd s 4 of
        (Inl e, s1) \<Rightarrow> ([Inl e], a, s1)
      | (Inr _, s1) \<Rightarrow>
          (let (r, a', s2) = ClipboardChunk_assemble u rd s1 a;
               (rs, a'', s3) = receive_clipboard u rd s2 a' n
           in (r # rs, a'', s3)))"

fun receive_file :: "nat \<Rightarrow> 's reader \<Rightarrow> 's \<Rightarrow> file_assembly \<Rightarrow> nat \<Rightarrow>
    (read_error + transfer_state) list \<times> file_assembly \<times> 's" where
  "receive_file u rd s a 0 = ([], a, s)"
| "receive_file u rd s a (Suc n) =
     (case stream_read rd s 4 of
        (Inl e, s1) \<Rightarrow> ([Inl e], a, s1)
      | (Inr _, s1) \<Rightarrow>
          (let (r, a', s2) = FileChunk_assemble u rd s1 a;
               (rs, a'', s3) = receive_file u rd s2 a' n
           in (r # rs, a'', s3)))"

fun store_clipboard :: "nat \<Rightarrow> clipboard_chunk list \<Rightarrow> clipboard_assembly \<Rightarrow> transfer_state list \<times> clipboard_assembly" where
  "store_clipboard u [] a = ([], a)"
| "store_clipboard u (c # cs) a =
     (let (r, a') = ClipboardChunk_store u (cc_id c) (cc_sequence c) (cc_mark c) (cc_data c) a;
          (rs, a'') = store_clipboard u cs a'
      in (r # rs, a''))"

fun store_file :: "nat \<Rightarrow> file_chunk list \<Rightarrow> file_assembly \<Rightarrow> transfer_state list \<times> file_assembly" where
  "store_file u [] a = ([], a)"
| "store_file u (c # cs) a =
     (let (r, a') = FileChunk_store u (fc_mark c) (fc_data c) a; (rs, a'') = store_file u cs a'
      in (r # rs, a''))"

lemma ucast_byte_id [simp]: "(ucast (ucast (b :: byte) :: u32) :: byte) = b"
  by (rule bit_word_eqI) (auto simp: bit_simps)

lemma clipboard_message:
  assumes "length (cc_data c) \<le> g_chunkSize"
  shows "\<exists>body. send_clipboard_chunk c = Inr (bytes_of ''DCLP'' @ body) \<and>
    writefArgs (drop 4 kMsgDClipboard) (clipboard_args c) = Inr body"
  using assms
  by (simp add: send_clipboard_chunk_def writefArgs_def kMsgDClipboard_def clipboard_args_def
      check_spec_def emit_spec_def addLength_def digit_value_def protocol_limits g_chunkSize_def Let_def)

lemma file_message:
  assumes "length (fc_data c) \<le> g_chunkSize"
  shows "\<exists>body. file_chunk_sending c = Inr (bytes_of ''DFTR'' @ body) \<and>
    writefArgs (drop 4 kMsgDFileTransfer) (file_args c) = Inr body"
  using assms
  by (simp add: file_chunk_sending_def writefArgs_def kMsgDFileTransfer_def file_args_def
      check_spec_def emit_spec_def addLength_def digit_value_def protocol_limits g_chunkSize_def Let_def)

lemma clipboard_values:
  "sent_values (drop 4 kMsgDClipboard) (clipboard_args c) =
     [RInt1 (cc_id c), RInt4 (cc_sequence c), RInt1 (cc_mark c), RString (cc_data c)]"
  by (simp add: kMsgDClipboard_def clipboard_args_def digit_value_def sent_value_def)

lemma file_values:
  "sent_values (drop 4 kMsgDFileTransfer) (file_args c) = [RInt1 (fc_mark c), RString (fc_data c)]"
  by (simp add: kMsgDFileTransfer_def file_args_def digit_value_def sent_value_def)

lemma chunk_formats_readable: "readable (drop 4 kMsgDClipboard)" "readable (drop 4 kMsgDFileTransfer)"
  by code_simp+

context istream
begin

lemma assemble_clipboard_chunk:
  assumes "send_clipboard_chunk c = Inr msg" "length (cc_data c) \<le> g_chunkSize" "ok s"
    "avail s = msg @ rest" "ClipboardChunk_store u (cc_id c) (cc_sequence c) (cc_mark c) (cc_data c) a = (r, a')"
  shows "\<exists>s1 s2 x. stream_read rd s 4 = (Inr x, s1) \<and>
    ClipboardChunk_assemble u rd s1 a = (Inr r, a', s2) \<and> ok s2 \<and> avail s2 = rest"
proof -
  obtain body where b: "msg = bytes_of ''DCLP'' @ body"
      "writefArgs (drop 4 kMsgDClipboard) (clipboard_args c) = Inr body"
    using clipboard_message [OF assms(2)] assms(1) by auto
  have "avail s = bytes_of ''DCLP'' @ body @ rest" using assms(4) b(1) by simp
  then obtain s1 where s1: "stream_read rd s 4 = (Inr (bytes_of ''DCLP''), s1)" "ok s1" "avail s1 = body @ rest"
    using stream_read_enough [OF assms(3), of "bytes_of ''DCLP''" "body @ rest" 4] by auto
  have "memory_ok (clipboard_args c)" by (simp add: clipboard_args_def)
  from readf_written [OF b(2) this chunk_formats_readable(1) s1(2,3)] obtain s2 where
    "readf rd s1 (drop 4 kMsgDClipboard) =
       (Inr True, sent_values (drop 4 kMsgDClipboard) (clipboard_args c), s2)" "ok s2" "avail s2 = rest" by auto
  then show ?thesis using s1(1) assms(5)
    by (auto simp: ClipboardChunk_assemble_def clipboard_values simp del: drop_Cons)
qed

lemma assemble_file_chunk:
  assumes "file_chunk_sending c = Inr msg" "length (fc_data c) \<le> g_chunkSize" "ok s"
    "avail s = msg @ rest" "FileChunk_store u (fc_mark c) (fc_data c) a = (r, a')"
  shows "\<exists>s1 s2 x. stream_read rd s 4 = (Inr x, s1) \<and>
    FileChunk_assemble u rd s1 a = (Inr r, a', s2) \<and> ok s2 \<and> avail s2 = rest"
proof -
  obtain body where b: "msg = bytes_of ''DFTR'' @ body"
      "writefArgs (drop 4 kMsgDFileTransfer) (file_args c) = Inr body"
    using file_message [OF assms(2)] assms(1) by auto
  have "avail s = bytes_of ''DFTR'' @ body @ rest" using assms(4) b(1) by simp
  then obtain s1 where s1: "stream_read rd s 4 = (Inr (bytes_of ''DFTR''), s1)" "ok s1" "avail s1 = body @ rest"
    using stream_read_enough [OF assms(3), of "bytes_of ''DFTR''" "body @ rest" 4] by auto
  have "memory_ok (file_args c)" by (simp add: file_args_def)
  from readf_written [OF b(2) this chunk_formats_readable(2) s1(2,3)] obtain s2 where
    "readf rd s1 (drop 4 kMsgDFileTransfer) =
       (Inr True, sent_values (drop 4 kMsgDFileTransfer) (file_args c), s2)" "ok s2" "avail s2 = rest" by auto
  then show ?thesis using s1(1) assms(5)
    by (auto simp: FileChunk_assemble_def file_values)
qed

lemma receive_clipboard_sent:
  assumes "\<forall>c \<in> set cs. length (cc_data c) \<le> g_chunkSize" "map send_clipboard_chunk cs = map Inr msgs"
    and "ok s" "avail s = concat msgs @ rest"
  shows "\<exists>s'. receive_clipboard u rd s a (length cs) =
    (map Inr (fst (store_clipboard u cs a)), snd (store_clipboard u cs a), s') \<and> ok s' \<and> avail s' = rest"
  using assms
proof (induction cs arbitrary: msgs s a)
  case (Cons c cs)
  obtain m ms where m: "msgs = m # ms" "send_clipboard_chunk c = Inr m" "map send_clipboard_chunk cs = map Inr ms"
    using Cons.prems(2) by (cases msgs) auto
  obtain r a' where r: "ClipboardChunk_store u (cc_id c) (cc_sequence c) (cc_mark c) (cc_data c) a = (r, a')"
    by fastforce
  have "length (cc_data c) \<le> g_chunkSize" "avail s = m @ concat ms @ rest" using Cons.prems m by auto
  then obtain s1 s2 x where s: "stream_read rd s 4 = (Inr x, s1)"
      "ClipboardChunk_assemble u rd s1 a = (Inr r, a', s2)" "ok s2" "avail s2 = concat ms @ rest"
    using assemble_clipboard_chunk [OF m(2) _ Cons.prems(3) _ r] by blast
  obtain s3 where "receive_clipboard u rd s2 a' (length cs) =
      (map Inr (fst (store_clipboard u cs a')), snd (store_clipboard u cs a'), s3)" "ok s3" "avail s3 = rest"
    using Cons.IH [OF _ m(3) s(3,4)] Cons.prems(1) by auto
  then show ?case using s(1,2) r by (auto simp: case_prod_beta)
qed simp

lemma receive_file_sent:
  assumes "\<forall>c \<in> set cs. length (fc_data c) \<le> g_chunkSize" "map file_chunk_sending cs = map Inr msgs"
    and "ok s" "avail s = concat msgs @ rest"
  shows "\<exists>s'. receive_file u rd s a (length cs) =
    (map Inr (fst (store_file u cs a)), snd (store_file u cs a), s') \<and> ok s' \<and> avail s' = rest"
  using assms
proof (induction cs arbitrary: msgs s a)
  case (Cons c cs)
  obtain m ms where m: "msgs = m # ms" "file_chunk_sending c = Inr m" "map file_chunk_sending cs = map Inr ms"
    using Cons.prems(2) by (cases msgs) auto
  obtain r a' where r: "FileChunk_store u (fc_mark c) (fc_data c) a = (r, a')" by fastforce
  have "length (fc_data c) \<le> g_chunkSize" "avail s = m @ concat ms @ rest" using Cons.prems m by auto
  then obtain s1 s2 x where s: "stream_read rd s 4 = (Inr x, s1)"
      "FileChunk_assemble u rd s1 a = (Inr r, a', s2)" "ok s2" "avail s2 = concat ms @ rest"
    using assemble_file_chunk [OF m(2) _ Cons.prems(3) _ r] by blast
  obtain s3 where "receive_file u rd s2 a' (length cs) =
      (map Inr (fst (store_file u cs a')), snd (store_file u cs a'), s3)" "ok s3" "avail s3 = rest"
    using Cons.IH [OF _ m(3) s(3,4)] Cons.prems(1) by auto
  then show ?case using s(1,2) r by (auto simp: case_prod_beta)
qed simp

end

lemma parse_size_start: "n < 2 ^ 64 \<Longrightarrow> parse_size u (bytes_of (sizeTypeToString n)) = n"
  by (simp only: parse_size_def chars_of_bytes size_string_roundtrip option.case)

lemma size_text_short: "n < 2 ^ 64 \<Longrightarrow> length (sizeTypeToString n) \<le> 20"
proof -
  have d: "n < 10 ^ Suc k \<Longrightarrow> length (sizeTypeToString n) \<le> Suc k" for k
  proof (induction k arbitrary: n)
    case 0
    then show ?case by (subst sizeTypeToString.simps) simp
  next
    case (Suc k)
    have "n div 10 < 10 ^ Suc k" using Suc.prems by (simp add: less_mult_imp_div_less mult.commute)
    from Suc.IH [OF this] show ?case by (subst sizeTypeToString.simps) simp
  qed
  assume "n < 2 ^ 64"
  then have "n < 10 ^ Suc 19" by simp
  from d [OF this] show ?thesis by simp
qed

lemma data_chunk_fields [simp]:
  "cc_id (ClipboardChunk_data i sq d) = i" "cc_sequence (ClipboardChunk_data i sq d) = sq"
  "cc_mark (ClipboardChunk_data i sq d) = kDataChunk" "cc_data (ClipboardChunk_data i sq d) = d"
  "fc_mark (FileChunk_data d) = kDataChunk" "fc_data (FileChunk_data d) = d"
  by (simp_all add: ClipboardChunk_data_def FileChunk_data_def)

lemma store_clipboard_data:
  "store_clipboard u (map (ClipboardChunk_data i sq) ps @ cs) a =
     (let (rs, a') = store_clipboard u cs
        (if ps = [] then a else a\<lparr>ca_id := i, ca_sequence := sq, ca_dataCached := ca_dataCached a @ concat ps\<rparr>)
      in (replicate (length ps) kNotFinish @ rs, a'))"
proof (induction ps arbitrary: a)
  case (Cons p ps)
  show ?case
    by (simp add: Cons.IH ClipboardChunk_store_def mark_defs Let_def case_prod_beta)
qed (simp add: case_prod_beta)

lemma store_file_data:
  "store_file u (map FileChunk_data ps @ cs) a =
     (let (rs, a') = store_file u cs (a\<lparr>fa_dataReceived := fa_dataReceived a @ concat ps\<rparr>)
      in (replicate (length ps) kNotFinish @ rs, a'))"
proof (induction ps arbitrary: a)
  case (Cons p ps)
  show ?case by (simp add: Cons.IH FileChunk_store_def mark_defs Let_def case_prod_beta)
qed (simp add: case_prod_beta)

lemma store_clipboard_transfer:
  assumes "cuts data ps" "length data < 2 ^ 64" "i < kClipboardEnd"
  shows "store_clipboard u (ClipboardChunk_start i sq (length data) # map (ClipboardChunk_data i sq) ps @
      [ClipboardChunk_end i sq]) a =
    (kStart # replicate (length ps) kNotFinish @ [kFinish],
     a\<lparr>ca_expectedSize := length data, ca_dataCached := data, ca_id := i, ca_sequence := sq\<rparr>)"
proof -
  have "ps \<noteq> []" "concat ps = data" using assms(1) by (auto simp: cuts_def)
  then show ?thesis using assms(2,3) parse_size_start [of "length data"]
    by (simp add: store_clipboard_data ClipboardChunk_start_def ClipboardChunk_end_def ClipboardChunk_store_def
        mark_defs Let_def not_le)
qed

lemma store_file_transfer:
  assumes "cuts data ps" "length data < 2 ^ 64"
  shows "store_file u (FileChunk_start (length data) # map FileChunk_data ps @ [FileChunk_end]) a =
    (kStart # replicate (length ps) kNotFinish @ [kFinish],
     a\<lparr>fa_expectedSize := length data, fa_dataReceived := data\<rparr>)"
  using assms parse_size_start [of "length data"]
  by (simp add: cuts_def store_file_data FileChunk_start_def FileChunk_end_def FileChunk_store_def mark_defs
      Let_def)

lemma transfer_chunks_small:
  assumes "cuts data ps" "length data < 2 ^ 64"
  shows "\<forall>c \<in> set (ClipboardChunk_start i sq (length data) # map (ClipboardChunk_data i sq) ps @
      [ClipboardChunk_end i sq]). length (cc_data c) \<le> g_chunkSize"
    and "\<forall>c \<in> set (FileChunk_start (length data) # map FileChunk_data ps @ [FileChunk_end]).
      length (fc_data c) \<le> g_chunkSize"
  using assms size_text_short [OF assms(2)]
  by (auto simp: cuts_def ClipboardChunk_start_def ClipboardChunk_end_def FileChunk_start_def FileChunk_end_def
      g_chunkSize_def)

lemma clipboard_messages_exist:
  "\<forall>c \<in> set cs. length (cc_data c) \<le> g_chunkSize \<Longrightarrow> \<exists>msgs. map send_clipboard_chunk cs = map Inr msgs"
proof (induction cs)
  case (Cons c cs)
  obtain body where "send_clipboard_chunk c = Inr (bytes_of ''DCLP'' @ body)"
    using clipboard_message [of c] Cons.prems by auto
  moreover obtain msgs where "map send_clipboard_chunk cs = map Inr msgs" using Cons by auto
  ultimately have "map send_clipboard_chunk (c # cs) = map Inr ((bytes_of ''DCLP'' @ body) # msgs)" by simp
  then show ?case by (rule exI)
qed simp

lemma file_messages_exist:
  "\<forall>c \<in> set cs. length (fc_data c) \<le> g_chunkSize \<Longrightarrow> \<exists>msgs. map file_chunk_sending cs = map Inr msgs"
proof (induction cs)
  case (Cons c cs)
  obtain body where "file_chunk_sending c = Inr (bytes_of ''DFTR'' @ body)"
    using file_message [of c] Cons.prems by auto
  moreover obtain msgs where "map file_chunk_sending cs = map Inr msgs" using Cons by auto
  ultimately have "map file_chunk_sending (c # cs) = map Inr ((bytes_of ''DFTR'' @ body) # msgs)" by simp
  then show ?case by (rule exI)
qed simp

lemma chunk_message_good:
  assumes "writefArgs fmt args = Inr (x # msg)" "memory_ok args"
  shows "good_payload (x # msg)"
  using writefArgs_length [OF assms] by (simp add: good_payload_def)

lemma clipboard_messages_good:
  "\<forall>c \<in> set cs. length (cc_data c) \<le> g_chunkSize \<Longrightarrow> map send_clipboard_chunk cs = map Inr msgs \<Longrightarrow>
     list_all good_payload msgs"
proof (induction cs arbitrary: msgs)
  case (Cons c cs)
  obtain m ms where m: "msgs = m # ms" "send_clipboard_chunk c = Inr m" "map send_clipboard_chunk cs = map Inr ms"
    using Cons.prems(2) by (cases msgs) auto
  obtain body where "m = bytes_of ''DCLP'' @ body" using clipboard_message [of c] m(2) Cons.prems(1) by auto
  then have "good_payload m"
    using m(2) chunk_message_good [of kMsgDClipboard "clipboard_args c"]
    by (simp add: send_clipboard_chunk_def clipboard_args_def)
  then show ?case using Cons.IH [OF _ m(3)] Cons.prems(1) m(1) by simp
qed simp

lemma file_messages_good:
  "\<forall>c \<in> set cs. length (fc_data c) \<le> g_chunkSize \<Longrightarrow> map file_chunk_sending cs = map Inr msgs \<Longrightarrow>
     list_all good_payload msgs"
proof (induction cs arbitrary: msgs)
  case (Cons c cs)
  obtain m ms where m: "msgs = m # ms" "file_chunk_sending c = Inr m" "map file_chunk_sending cs = map Inr ms"
    using Cons.prems(2) by (cases msgs) auto
  obtain body where "m = bytes_of ''DFTR'' @ body" using file_message [of c] m(2) Cons.prems(1) by auto
  then have "good_payload m"
    using m(2) chunk_message_good [of kMsgDFileTransfer "file_args c"]
    by (simp add: file_chunk_sending_def file_args_def)
  then show ?case using Cons.IH [OF _ m(3)] Cons.prems(1) m(1) by simp
qed simp

text \<open>Messages framed and cut in any way fill a fresh packet filter with their bytes.\<close>

lemma fresh_filter_delivers:
  assumes "list_all good_payload msgs" "concat rs = concat (map frame msgs)" "[] \<notin> set rs"
    "length (concat rs) < 2 ^ 32"
  shows "\<exists>s. pf_fill pf_new rs = Some (s, []) \<and> pf_inv s \<and> pf_avail s = concat msgs @ []"
proof -
  have "good_wire (pf_wire pf_new @ concat rs)" using good_wire_frames [OF assms(1)] assms(2) pf_new_inv(2) by simp
  with pf_fill_good [OF pf_new_inv(1) pf_new_synced, of rs] assms(3,4) obtain s where
    "pf_fill pf_new rs = Some (s, [])" "pf_inv s" "pf_synced s" "pf_wire s = concat (map frame msgs)"
    by (auto simp: pf_new_inv(2) assms(2))
  with pf_avail_frames assms(1) show ?thesis by auto
qed

text \<open>
  C20. A clipboard survives the chunked transfer: the messages that \<open>sendClipboard\<close> causes, framed by the
  packet filter and cut by the network in any way, make the receiver report a start, one
  continuation per data chunk and the finish, and leave exactly the data sent in its cache.
\<close>

theorem clipboard_transfer:
  assumes "sendClipboard data (length data) i sq = Some evs" "i < kClipboardEnd"
    and "map send_clipboard_chunk (clipboard_chunks_of evs) = map Inr msgs"
    and "concat rs = concat (map frame msgs)" "[] \<notin> set rs" "length (concat rs) < 2 ^ 32"
    and "length data < 2 ^ 64"
  shows "\<exists>s s'. pf_fill pf_new rs = Some (s, []) \<and>
    receive_clipboard u pf_read s a (length msgs) =
      (map Inr (kStart # replicate (length msgs - 2) kNotFinish @ [kFinish]),
       a\<lparr>ca_expectedSize := length data, ca_dataCached := data, ca_id := i, ca_sequence := sq\<rparr>, s')"
proof -
  obtain ps where ps: "clipboard_chunks_of evs =
      ClipboardChunk_start i sq (length data) # map (ClipboardChunk_data i sq) ps @ [ClipboardChunk_end i sq]"
    "cuts data ps" using sendClipboard_posts [OF assms(1)] by auto
  note small = transfer_chunks_small(1) [OF ps(2) assms(7), of i sq, folded ps(1)]
  obtain s where s: "pf_fill pf_new rs = Some (s, [])" "pf_inv s" "pf_avail s = concat msgs @ []"
    using fresh_filter_delivers [OF clipboard_messages_good [OF small assms(3)] assms(4-6)] by blast
  have len: "length (clipboard_chunks_of evs) = length msgs" using assms(3) by (metis length_map)
  then have "length ps = length msgs - 2" by (simp add: ps(1))
  with pf.receive_clipboard_sent [OF small assms(3) s(2,3), of u a] s(1) len
    store_clipboard_transfer [OF ps(2) assms(7,2), of u sq a, folded ps(1)]
  show ?thesis by auto
qed

theorem clipboard_transfer_witness:
  "\<exists>evs msgs s s'. sendClipboard [104, 105] 2 1 9 = Some evs \<and>
    map send_clipboard_chunk (clipboard_chunks_of evs) = map Inr msgs \<and>
    pf_fill pf_new [concat (map frame msgs)] = Some (s, []) \<and>
    receive_clipboard 0 pf_read s \<lparr>ca_expectedSize = 0, ca_dataCached = [3], ca_id = 0, ca_sequence = 0\<rparr> (length msgs) =
      (map Inr (kStart # replicate (length msgs - 2) kNotFinish @ [kFinish]),
       \<lparr>ca_expectedSize = 2, ca_dataCached = [104, 105], ca_id = 1, ca_sequence = 9\<rparr>, s')"
proof -
  let ?cs = "[ClipboardChunk_start 1 9 2, ClipboardChunk_data 1 9 [104, 105], ClipboardChunk_end 1 9]"
  let ?m = "\<lambda>mark d. bytes_of ''DCLP'' @ [1, 0, 0, 0, 9, mark, 0, 0, 0, of_nat (length d)] @ d"
  let ?msgs = "[?m 1 [50], ?m 2 [104, 105], ?m 3 []]"
  let ?evs = "[CLIPBOARD_SENDING_EV (ClipboardChunk_start 1 9 2), FILE_KEEPALIVE_EV,
    CLIPBOARD_SENDING_EV (ClipboardChunk_data 1 9 [104, 105]), CLIPBOARD_SENDING_EV (ClipboardChunk_end 1 9)]"
  have e: "sendClipboard [104, 105] (length [104, 105 :: byte]) 1 9 = Some ?evs"
    by (simp add: sendClipboard_def send_clipboard_chunks.simps chunk_size_def g_chunkSize_def Let_def)
       (simp only: numeral_2_eq_2)
  have m: "map send_clipboard_chunk (clipboard_chunks_of ?evs) = map Inr ?msgs"
    by (simp add: send_clipboard_chunk_def writefArgs_def kMsgDClipboard_def clipboard_args_def
      check_spec_def emit_spec_def addLength_def digit_value_def protocol_limits Let_def appendInteger_1
      appendInteger_4 ClipboardChunk_start_def ClipboardChunk_data_def ClipboardChunk_end_def mark_defs
      sizeTypeToString.simps)
  have g: "[] \<notin> set [concat (map frame ?msgs)]" "length (concat [concat (map frame ?msgs)]) < 2 ^ 32"
    by (simp_all add: frame_def)
  obtain evs msgs where em: "sendClipboard [104, 105] (length [104, 105 :: byte]) 1 9 = Some evs"
    "map send_clipboard_chunk (clipboard_chunks_of evs) = map Inr msgs"
    "[] \<notin> set [concat (map frame msgs)]" "length (concat [concat (map frame msgs)]) < 2 ^ 32"
    using e m g by blast
  have "length [104, 105 :: byte] < 2 ^ 64" by simp
  from clipboard_transfer [OF em(1) _ em(2) _ em(3,4) this,
      of 0 "\<lparr>ca_expectedSize = 0, ca_dataCached = [3], ca_id = 0, ca_sequence = 0\<rparr>"]
  show ?thesis using em(1,2) by (auto simp: kClipboardEnd_def numeral_2_eq_2 simp del: pf_fill.simps)
qed

text \<open>
  C21. A file survives the chunked transfer when nothing interrupts it: the receiver finishes with exactly
  the content of the file, however the network cuts the messages, and the sender's flags are clear.
\<close>

theorem file_transfer:
  assumes "sendFile (Some content) polls st = (Some evs, st')" "\<not> s_interruptFile st" "True \<notin> set polls"
    and "map file_chunk_sending (file_chunks_of evs) = map Inr msgs"
    and "concat rs = concat (map frame msgs)" "[] \<notin> set rs" "length (concat rs) < 2 ^ 32"
    and "length content < 2 ^ 64"
  shows "\<not> s_isChunkingFile st' \<and> \<not> s_interruptFile st' \<and>
    (\<exists>s s'. pf_fill pf_new rs = Some (s, []) \<and>
      receive_file u pf_read s a (length msgs) =
        (map Inr (kStart # replicate (length msgs - 2) kNotFinish @ [kFinish]),
         a\<lparr>fa_expectedSize := length content, fa_dataReceived := content\<rparr>, s'))"
proof -
  obtain ps where ps: "file_chunks_of evs =
      FileChunk_start (length content) # map FileChunk_data ps @ [FileChunk_end]" "cuts content ps"
    and st': "st' = st\<lparr>s_isChunkingFile := False\<rparr>"
    using sendFile_posts [OF assms(2,3), of content] assms(1) by auto
  note small = transfer_chunks_small(2) [OF ps(2) assms(8), folded ps(1)]
  obtain s where s: "pf_fill pf_new rs = Some (s, [])" "pf_inv s" "pf_avail s = concat msgs @ []"
    using fresh_filter_delivers [OF file_messages_good [OF small assms(4)] assms(5-7)] by blast
  have len: "length (file_chunks_of evs) = length msgs" using assms(4) by (metis length_map)
  then have "length ps = length msgs - 2" by (simp add: ps(1))
  with pf.receive_file_sent [OF small assms(4) s(2,3), of u a] s(1) len st' assms(2)
    store_file_transfer [OF ps(2) assms(8), of u a, folded ps(1)]
  show ?thesis by auto
qed

theorem file_transfer_witness:
  "\<exists>evs st' msgs s s'.
    sendFile (Some [7, 8, 9]) [False] \<lparr>s_isChunkingFile = False, s_interruptFile = False\<rparr> = (Some evs, st') \<and>
    map file_chunk_sending (file_chunks_of evs) = map Inr msgs \<and> \<not> s_isChunkingFile st' \<and>
    pf_fill pf_new [concat (map frame msgs)] = Some (s, []) \<and>
    receive_file 0 pf_read s \<lparr>fa_expectedSize = 0, fa_dataReceived = []\<rparr> (length msgs) =
      (map Inr (kStart # replicate (length msgs - 2) kNotFinish @ [kFinish]),
       \<lparr>fa_expectedSize = 3, fa_dataReceived = [7, 8, 9]\<rparr>, s')"
proof -
  let ?m = "\<lambda>mark d. bytes_of ''DFTR'' @ [mark, 0, 0, 0, of_nat (length d)] @ d"
  let ?msgs = "[?m 1 [51], ?m 2 [7, 8, 9], ?m 3 []]"
  let ?st = "\<lparr>s_isChunkingFile = False, s_interruptFile = False\<rparr>"
  let ?a = "\<lparr>fa_expectedSize = 0, fa_dataReceived = []\<rparr>"
  let ?evs = "[FILE_CHUNK_SENDING_EV (FileChunk_start 3), FILE_KEEPALIVE_EV,
    FILE_CHUNK_SENDING_EV (FileChunk_data [7, 8, 9]), FILE_CHUNK_SENDING_EV FileChunk_end]"
  have e: "sendFile (Some [7, 8, 9]) [False] ?st = (Some ?evs, ?st)"
    by (simp add: sendFile_def send_file_chunks.simps chunk_size_def g_chunkSize_def poll_def Let_def)
       (simp only: numeral_3_eq_3)
  have m: "map file_chunk_sending (file_chunks_of ?evs) = map Inr ?msgs"
    by (simp add: file_chunk_sending_def writefArgs_def kMsgDFileTransfer_def file_args_def
      check_spec_def emit_spec_def addLength_def digit_value_def protocol_limits Let_def appendInteger_1
      appendInteger_4 FileChunk_start_def FileChunk_data_def FileChunk_end_def mark_defs
      sizeTypeToString.simps)
  have g: "[] \<notin> set [concat (map frame ?msgs)]" "length (concat [concat (map frame ?msgs)]) < 2 ^ 32"
    by (simp_all add: frame_def)
  obtain evs st' msgs where em: "sendFile (Some [7, 8, 9]) [False] ?st = (Some evs, st')"
    "map file_chunk_sending (file_chunks_of evs) = map Inr msgs"
    "[] \<notin> set [concat (map frame msgs)]" "length (concat [concat (map frame msgs)]) < 2 ^ 32"
    using e m g by blast
  from file_transfer [OF em(1) _ _ em(2) _ em(3,4), of 0 ?a]
  show ?thesis using em(1,2) by (auto simp: numeral_3_eq_3 simp del: pf_fill.simps)
qed

text \<open>
  A file that cannot be opened leaves the sender marked as busy, because the exception passes the
  statement that clears the mark. An interruption requested after that, with no transfer running,
  stays pending and cuts off the next transfer: of a non-empty file only the start and the end
  are sent, and the receiver reports an error.
\<close>

theorem failed_open_breaks_next_transfer:
  assumes "content \<noteq> []" "length content < 2 ^ 64"
  shows "\<exists>st1 evs st2. sendFile None polls st = (None, st1) \<and> s_isChunkingFile st1 \<and>
    sendFile (Some content) [] (interruptFile st1) = (Some evs, st2) \<and>
    file_chunks_of evs = [FileChunk_start (length content), FileChunk_end] \<and>
    fst (store_file u (file_chunks_of evs) a) = [kStart, kError]"
  using assms parse_size_start [of "length content"]
  by (simp add: sendFile_def interruptFile_def send_file_chunks.simps poll_def Let_def FileChunk_start_def
      FileChunk_end_def FileChunk_store_def mark_defs)

theorem failed_open_breaks_next_transfer_witness:
  "\<exists>st1 evs st2. sendFile None [] \<lparr>s_isChunkingFile = False, s_interruptFile = False\<rparr> = (None, st1) \<and>
    s_isChunkingFile st1 \<and> sendFile (Some [7]) [] (interruptFile st1) = (Some evs, st2) \<and>
    file_chunks_of evs = [FileChunk_start (length [7 :: byte]), FileChunk_end] \<and>
    fst (store_file 0 (file_chunks_of evs) \<lparr>fa_expectedSize = 0, fa_dataReceived = []\<rparr>) = [kStart, kError]"
  by (rule failed_open_breaks_next_transfer) simp_all

end
