(* ===== verification/Clipboard.thy ===== *)
theory Clipboard
  imports Prelude
begin

text \<open>
  The clipboard model of \<^verbatim>\<open>src/lib/inputleap/IClipboard.{h,cpp}\<close> and \<^verbatim>\<open>Clipboard.{h,cpp}\<close>: the abstract
  clipboard and its static operations \<open>marshall\<close>, \<open>unmarshall\<close> and \<open>copy\<close>, which the code writes
  against the virtual methods, and the in-memory \<^verbatim>\<open>Clipboard\<close> that server and client keep per
  clipboard id. The virtual methods are a record of operations, their contract is the locale
  \<open>iclipboard\<close>, in which the round trip through the wire form and the copy are proved once; the
  in-memory clipboard interprets it. A failed assertion and a read outside the marshalled data are
  errors of the model.
\<close>

subsection \<open>The wire form\<close>

datatype clip_error = ClipAssertion | ClipOutOfBounds

definition kNumFormats :: nat where "kNumFormats = 8"

definition writeUInt32 :: "bytes \<Rightarrow> u32 \<Rightarrow> bytes" where
  "writeUInt32 buf v =
     buf @ [ucast (drop_bit 24 v AND 0xff), ucast (drop_bit 16 v AND 0xff),
            ucast (drop_bit 8 v AND 0xff), ucast (v AND 0xff)]"

text \<open>
  Reading at offset \<open>i\<close> of a string: its bytes and the terminating zero are readable, what lies
  beyond is not.
\<close>

definition readUInt32 :: "bytes \<Rightarrow> nat \<Rightarrow> clip_error + u32" where
  "readUInt32 data i =
     (case decode_be32 (drop i (data @ [0])) of None \<Rightarrow> Inl ClipOutOfBounds | Some v \<Rightarrow> Inr v)"

definition read_bytes :: "bytes \<Rightarrow> nat \<Rightarrow> nat \<Rightarrow> clip_error + bytes" where
  "read_bytes data i n =
     (if i + n \<le> Suc (length data) then Inr (take n (drop i (data @ [0]))) else Inl ClipOutOfBounds)"

subsection \<open>The virtual methods and the static operations\<close>

record 'c clipboard_ops =
  op_open :: "'c \<Rightarrow> u32 \<Rightarrow> clip_error + 'c \<times> bool"
  op_close :: "'c \<Rightarrow> clip_error + 'c"
  op_clear :: "'c \<Rightarrow> clip_error + 'c \<times> bool"
  op_add :: "'c \<Rightarrow> nat \<Rightarrow> bytes \<Rightarrow> clip_error + 'c"
  op_has :: "'c \<Rightarrow> nat \<Rightarrow> clip_error + bool"
  op_get :: "'c \<Rightarrow> nat \<Rightarrow> clip_error + bytes"
  op_getTime :: "'c \<Rightarrow> u32"

fun unmarshall_formats :: "'c clipboard_ops \<Rightarrow> bytes \<Rightarrow> nat \<Rightarrow> nat \<Rightarrow> 'c \<Rightarrow> clip_error + 'c" where
  "unmarshall_formats ops data index 0 c = Inr c"
| "unmarshall_formats ops data index (Suc n) c =
     and_then (readUInt32 data index) (\<lambda>format.
     and_then (readUInt32 data (index + 4)) (\<lambda>sz.
     and_then (if format < of_nat kNumFormats
               then and_then (read_bytes data (index + 8) (unat sz)) (\<lambda>d. op_add ops c (unat format) d)
               else Inr c) (\<lambda>c'.
     unmarshall_formats ops data (index + 8 + unat sz) n c')))"

definition unmarshall :: "'c clipboard_ops \<Rightarrow> 'c \<Rightarrow> bytes \<Rightarrow> u32 \<Rightarrow> clip_error + 'c" where
  "unmarshall ops c data time =
     and_then (op_open ops c time) (\<lambda>(c1, opened).
     if opened then
       and_then (op_clear ops c1) (\<lambda>(c2, _).
       and_then (readUInt32 data 0) (\<lambda>numFormats.
       and_then (unmarshall_formats ops data 4 (unat numFormats) c2) (\<lambda>c3.
       op_close ops c3)))
     else Inr c1)"

text \<open>
  The first loop of \<^verbatim>\<open>marshall\<close> collects the formats that are present and their data, the second writes
  them; \<open>collect\<close> is the first over the format numbers given.
\<close>

fun collect :: "'c clipboard_ops \<Rightarrow> 'c \<Rightarrow> nat list \<Rightarrow> clip_error + (nat \<times> bytes) list" where
  "collect ops c [] = Inr []"
| "collect ops c (f # fs) =
     and_then (op_has ops c f) (\<lambda>h.
     if h then and_then (op_get ops c f) (\<lambda>d.
               and_then (collect ops c fs) (\<lambda>r. Inr ((f, d) # r)))
     else collect ops c fs)"

fun write_formats :: "'c clipboard_ops \<Rightarrow> 'c \<Rightarrow> (nat \<times> bytes) list \<Rightarrow> nat list \<Rightarrow> bytes \<Rightarrow>
    clip_error + bytes" where
  "write_formats ops c formatData [] data = Inr data"
| "write_formats ops c formatData (f # fs) data =
     and_then (op_has ops c f) (\<lambda>h.
     if h then
       let d = (case map_of formatData f of None \<Rightarrow> [] | Some d \<Rightarrow> d)
       in write_formats ops c formatData fs
            (writeUInt32 (writeUInt32 data (of_nat f)) (of_nat (length d)) @ d)
     else write_formats ops c formatData fs data)"

definition marshall :: "'c clipboard_ops \<Rightarrow> 'c \<Rightarrow> clip_error + 'c \<times> bytes" where
  "marshall ops c =
     and_then (op_open ops c 0) (\<lambda>(c1, opened).
     if opened then
       and_then (collect ops c1 [0..<kNumFormats]) (\<lambda>formatData.
       and_then (write_formats ops c1 formatData [0..<kNumFormats]
                   (writeUInt32 [] (of_nat (length formatData)))) (\<lambda>data.
       and_then (op_close ops c1) (\<lambda>c2. Inr (c2, data))))
     else Inr (c1, []))"

fun copy_formats :: "'d clipboard_ops \<Rightarrow> 'c clipboard_ops \<Rightarrow> 'd \<Rightarrow> 'c \<Rightarrow> nat list \<Rightarrow> clip_error + 'd" where
  "copy_formats dops sops dst src [] = Inr dst"
| "copy_formats dops sops dst src (f # fs) =
     and_then (op_has sops src f) (\<lambda>h.
     and_then (if h then and_then (op_get sops src f) (\<lambda>d. op_add dops dst f d) else Inr dst) (\<lambda>dst'.
     copy_formats dops sops dst' src fs))"

text \<open>\<^verbatim>\<open>copy\<close> at a given time: both clipboards afterwards, and whether it succeeded.\<close>

definition copy_at :: "'d clipboard_ops \<Rightarrow> 'c clipboard_ops \<Rightarrow> 'd \<Rightarrow> 'c \<Rightarrow> u32 \<Rightarrow>
    clip_error + 'd \<times> 'c \<times> bool" where
  "copy_at dops sops dst src time =
     and_then (op_open sops src time) (\<lambda>(src1, sok).
     if sok then
       and_then (op_open dops dst time) (\<lambda>(dst1, dok).
       and_then
         (if dok then
            and_then (op_clear dops dst1) (\<lambda>(dst2, cleared).
            and_then (if cleared then copy_formats dops sops dst2 src1 [0..<kNumFormats] else Inr dst2) (\<lambda>dst3.
            and_then (op_close dops dst3) (\<lambda>dst4. Inr (dst4, cleared))))
          else Inr (dst1, False)) (\<lambda>(dst5, success).
       and_then (op_close sops src1) (\<lambda>src2. Inr (dst5, src2, success))))
     else Inr (dst, src1, False))"

definition copy :: "'d clipboard_ops \<Rightarrow> 'c clipboard_ops \<Rightarrow> 'd \<Rightarrow> 'c \<Rightarrow> clip_error + 'd \<times> 'c \<times> bool" where
  "copy dops sops dst src = copy_at dops sops dst src (op_getTime sops src)"

subsection \<open>The in-memory clipboard\<close>

record clipboard =
  m_open :: bool
  m_time :: u32
  m_owner :: bool
  m_timeOwned :: u32
  m_added :: "bool list"
  m_data :: "bytes list"

definition clip_open :: "clipboard \<Rightarrow> u32 \<Rightarrow> clip_error + clipboard \<times> bool" where
  "clip_open c time =
     (if m_open c then Inl ClipAssertion else Inr (c\<lparr>m_open := True, m_time := time\<rparr>, True))"

definition clip_close :: "clipboard \<Rightarrow> clip_error + clipboard" where
  "clip_close c = (if m_open c then Inr (c\<lparr>m_open := False\<rparr>) else Inl ClipAssertion)"

definition clip_clear :: "clipboard \<Rightarrow> clip_error + clipboard \<times> bool" where
  "clip_clear c =
     (if m_open c then
        Inr (c\<lparr>m_data := replicate kNumFormats [], m_added := replicate kNumFormats False,
               m_timeOwned := m_time c, m_owner := True\<rparr>, True)
      else Inl ClipAssertion)"

definition clip_add :: "clipboard \<Rightarrow> nat \<Rightarrow> bytes \<Rightarrow> clip_error + clipboard" where
  "clip_add c format data =
     (if \<not> m_open c \<or> \<not> m_owner c then Inl ClipAssertion
      else if kNumFormats \<le> format then Inl ClipOutOfBounds
      else Inr (c\<lparr>m_data := (m_data c)[format := data], m_added := (m_added c)[format := True]\<rparr>))"

definition clip_has :: "clipboard \<Rightarrow> nat \<Rightarrow> clip_error + bool" where
  "clip_has c format =
     (if \<not> m_open c then Inl ClipAssertion
      else if kNumFormats \<le> format then Inl ClipOutOfBounds else Inr (m_added c ! format))"

definition clip_get :: "clipboard \<Rightarrow> nat \<Rightarrow> clip_error + bytes" where
  "clip_get c format =
     (if \<not> m_open c then Inl ClipAssertion
      else if kNumFormats \<le> format then Inl ClipOutOfBounds else Inr (m_data c ! format))"

definition clip_getTime :: "clipboard \<Rightarrow> u32" where
  "clip_getTime c = m_timeOwned c"

definition clip_ops :: "clipboard clipboard_ops" where
  "clip_ops = \<lparr>op_open = clip_open, op_close = clip_close, op_clear = clip_clear, op_add = clip_add,
     op_has = clip_has, op_get = clip_get, op_getTime = clip_getTime\<rparr>"

text \<open>The constructor opens, clears and closes the fresh object.\<close>

definition clip_raw :: clipboard where
  "clip_raw = \<lparr>m_open = False, m_time = 0, m_owner = False, m_timeOwned = 0,
     m_added = replicate kNumFormats False, m_data = replicate kNumFormats []\<rparr>"

definition clip_new :: "clip_error + clipboard" where
  "clip_new =
     and_then (clip_open clip_raw 0) (\<lambda>(c1, _).
     and_then (clip_clear c1) (\<lambda>(c2, _). clip_close c2))"

definition clip_unmarshall :: "clipboard \<Rightarrow> bytes \<Rightarrow> u32 \<Rightarrow> clip_error + clipboard" where
  "clip_unmarshall c data time = unmarshall clip_ops c data time"

definition clip_marshall :: "clipboard \<Rightarrow> clip_error + clipboard \<times> bytes" where
  "clip_marshall c = marshall clip_ops c"

definition clip_content :: "clipboard \<Rightarrow> nat \<Rightarrow> bytes option" where
  "clip_content c f = (if f < kNumFormats \<and> m_added c ! f then Some (m_data c ! f) else None)"

definition clip_inv :: "clipboard \<Rightarrow> bool" where
  "clip_inv c \<longleftrightarrow> length (m_added c) = kNumFormats \<and> length (m_data c) = kNumFormats"

subsection \<open>The wire form as a specification\<close>

definition entries :: "(nat \<Rightarrow> bytes option) \<Rightarrow> nat list \<Rightarrow> (nat \<times> bytes) list" where
  "entries m fs = concat (map (\<lambda>f. case m f of None \<Rightarrow> [] | Some d \<Rightarrow> [(f, d)]) fs)"

definition wire_entry :: "nat \<times> bytes \<Rightarrow> bytes" where
  "wire_entry e =
     appendInteger (of_nat (fst e)) 4 @ appendInteger (of_nat (length (snd e))) 4 @ snd e"

definition wire_form :: "(nat \<Rightarrow> bytes option) \<Rightarrow> bytes" where
  "wire_form m =
     (let es = entries m [0..<kNumFormats]
      in appendInteger (of_nat (length es)) 4 @ concat (map wire_entry es))"

definition small_content :: "(nat \<Rightarrow> bytes option) \<Rightarrow> bool" where
  "small_content m \<longleftrightarrow> (\<forall>f d. m f = Some d \<longrightarrow> length d < 2 ^ 32)"

lemma entries_simps [simp]:
  "entries m [] = []"
  "entries m (f # fs) = (case m f of None \<Rightarrow> entries m fs | Some d \<Rightarrow> (f, d) # entries m fs)"
  by (auto simp: entries_def split: option.split)

lemma set_entries: "(f, d) \<in> set (entries m fs) \<longleftrightarrow> f \<in> set fs \<and> m f = Some d"
  by (induction fs) (auto split: option.splits)

lemma length_entries: "length (entries m fs) \<le> length fs"
  by (induction fs) (auto split: option.splits)

lemma map_of_entries: "f \<in> set fs \<Longrightarrow> map_of (entries m fs) f = m f"
  by (induction fs) (auto split: option.splits simp: map_of_eq_None_iff set_entries
      dest: map_of_SomeD intro: ccontr)

lemma writeUInt32_append: "writeUInt32 buf v = buf @ appendInteger v 4"
proof -
  have "ucast (x AND 0xff) = (ucast x :: byte)" for x :: u32
  proof -
    have m: "(0xff :: u32) = mask 8" by (simp add: mask_eq_exp_minus_1)
    show ?thesis unfolding m by (rule bit_word_eqI) (auto simp: bit_simps)
  qed
  then show ?thesis by (simp add: writeUInt32_def appendInteger_4)
qed

lemma readUInt32_at:
  "data = pre @ appendInteger v 4 @ post \<Longrightarrow> i = length pre \<Longrightarrow> readUInt32 data i = Inr v"
  by (simp add: readUInt32_def)

lemma read_bytes_at: "data = pre @ d @ post \<Longrightarrow> i = length pre \<Longrightarrow> read_bytes data i (length d) = Inr d"
  by (simp add: read_bytes_def)

subsection \<open>The contract of a clipboard and what it gives\<close>

locale iclipboard =
  fixes ops :: "'c clipboard_ops"
    and st_closed st_open st_owned :: "'c \<Rightarrow> bool"
    and content :: "'c \<Rightarrow> nat \<Rightarrow> bytes option"
  assumes open_law:
      "st_closed c \<Longrightarrow> \<exists>c'. op_open ops c t = Inr (c', True) \<and> st_open c' \<and> content c' = content c"
    and clear_law:
      "st_open c \<Longrightarrow> \<exists>c'. op_clear ops c = Inr (c', True) \<and> st_open c' \<and> st_owned c' \<and>
         content c' = (\<lambda>_. None)"
    and add_law:
      "st_open c \<Longrightarrow> st_owned c \<Longrightarrow> f < kNumFormats \<Longrightarrow>
         \<exists>c'. op_add ops c f d = Inr c' \<and> st_open c' \<and> st_owned c' \<and> content c' = (content c)(f := Some d)"
    and has_law: "st_open c \<Longrightarrow> f < kNumFormats \<Longrightarrow> op_has ops c f = Inr (content c f \<noteq> None)"
    and get_law: "st_open c \<Longrightarrow> content c f = Some d \<Longrightarrow> op_get ops c f = Inr d"
    and close_law: "st_open c \<Longrightarrow> \<exists>c'. op_close ops c = Inr c' \<and> st_closed c' \<and> content c' = content c"
    and content_range: "st_open c \<Longrightarrow> content c f = Some d \<Longrightarrow> f < kNumFormats"
begin

lemma collect_entries:
  "st_open c \<Longrightarrow> \<forall>f \<in> set fs. f < kNumFormats \<Longrightarrow> collect ops c fs = Inr (entries (content c) fs)"
  by (induction fs) (auto simp: has_law get_law split: option.split)

lemma write_formats_entries:
  assumes "st_open c" "\<forall>f \<in> set fs. f < kNumFormats \<and> map_of fd f = content c f"
  shows "write_formats ops c fd fs data = Inr (data @ concat (map wire_entry (entries (content c) fs)))"
  using assms(2)
  by (induction fs arbitrary: data)
     (auto simp: has_law [OF assms(1)] Let_def writeUInt32_append wire_entry_def split: option.split)

lemma marshall_content:
  assumes "st_closed c"
  shows "\<exists>c'. marshall ops c = Inr (c', wire_form (content c)) \<and> st_closed c' \<and> content c' = content c"
proof -
  obtain c1 where c1: "op_open ops c 0 = Inr (c1, True)" "st_open c1" "content c1 = content c"
    using open_law [OF assms, of 0] by auto
  obtain c2 where c2: "op_close ops c1 = Inr c2" "st_closed c2" "content c2 = content c1"
    using close_law [OF c1(2)] by auto
  have "collect ops c1 [0..<kNumFormats] = Inr (entries (content c) [0..<kNumFormats])"
    using collect_entries [OF c1(2), of "[0..<kNumFormats]"] c1(3) by simp
  moreover have "write_formats ops c1 (entries (content c) [0..<kNumFormats]) [0..<kNumFormats] b =
      Inr (b @ concat (map wire_entry (entries (content c) [0..<kNumFormats])))" for b
    using write_formats_entries [OF c1(2), of "[0..<kNumFormats]" "entries (content c) [0..<kNumFormats]" b]
    by (simp add: c1(3) map_of_entries)
  ultimately show ?thesis using c1 c2
    by (simp add: marshall_def wire_form_def Let_def writeUInt32_append)
qed

lemma unmarshall_entries:
  assumes "st_open c" "st_owned c" "\<forall>(f, d) \<in> set es. f < kNumFormats \<and> length d < 2 ^ 32"
    and "data = pre @ concat (map wire_entry es) @ post" "i = length pre"
  shows "\<exists>c'. unmarshall_formats ops data i (length es) c = Inr c' \<and> st_open c' \<and>
    content c' = (content c ++ map_of (rev es))"
  using assms
proof (induction es arbitrary: c pre i)
  case (Cons e es)
  obtain f d where e: "e = (f, d)" by force
  have fd: "f < kNumFormats" "length d < 2 ^ 32" using Cons.prems(3) e by auto
  have uf: "unat (of_nat f :: u32) = f" "unat (of_nat (length d) :: u32) = length d"
    using fd by (simp_all add: unat_of_nat kNumFormats_def)
  have known: "(of_nat f :: u32) < of_nat kNumFormats"
    using fd(1) uf(1) by (simp add: word_less_nat_alt kNumFormats_def)
  let ?rest = "concat (map wire_entry es) @ post"
  let ?h = "appendInteger (of_nat f) 4" and ?l = "appendInteger (of_nat (length d)) 4"
  have data: "data = pre @ ?h @ ?l @ d @ ?rest" using Cons.prems(4) e by (simp add: wire_entry_def [of "(f, d)"])
  have r: "readUInt32 data i = Inr (of_nat f)" "readUInt32 data (i + 4) = Inr (of_nat (length d))"
    "read_bytes data (i + 8) (length d) = Inr d"
    by (rule readUInt32_at [OF data Cons.prems(5)],
        rule readUInt32_at [of _ "pre @ ?h" _ "d @ ?rest"], simp add: data, simp add: Cons.prems(5),
        rule read_bytes_at [of _ "pre @ ?h @ ?l" _ ?rest], simp add: data, simp add: Cons.prems(5))
  obtain c1 where c1: "op_add ops c f d = Inr c1" "st_open c1" "st_owned c1"
      "content c1 = (content c)(f := Some d)"
    using add_law [OF Cons.prems(1,2) fd(1), of d] by auto
  obtain c2 where "unmarshall_formats ops data (i + 8 + length d) (length es) c1 = Inr c2"
      "st_open c2" "content c2 = content c1 ++ map_of (rev es)"
    using Cons.IH [OF c1(2,3), of "pre @ ?h @ ?l @ d" "i + 8 + length d"] Cons.prems(3,5) data by auto
  then show ?case using r c1 uf known by (simp add: e)
qed simp

lemma map_of_rev_entries: "distinct fs \<Longrightarrow> map_of (rev (entries m fs)) f = (if f \<in> set fs then m f else None)"
  by (induction fs) (auto split: option.splits simp: map_add_def map_of_eq_None_iff set_entries)

lemma unmarshall_wire_form:
  assumes "st_closed c" "small_content m" "\<And>f d. m f = Some d \<Longrightarrow> f < kNumFormats"
  shows "\<exists>c'. unmarshall ops c (wire_form m) t = Inr c' \<and> st_closed c' \<and> content c' = m"
proof -
  let ?es = "entries m [0..<kNumFormats]"
  obtain c1 where c1: "op_open ops c t = Inr (c1, True)" "st_open c1"
    using open_law [OF assms(1), of t] by auto
  obtain c2 where c2: "op_clear ops c1 = Inr (c2, True)" "st_open c2" "st_owned c2"
      "content c2 = (\<lambda>_. None)"
    using clear_law [OF c1(2)] by auto
  have es: "\<forall>(f, d) \<in> set ?es. f < kNumFormats \<and> length d < 2 ^ 32"
    using assms(2) by (auto simp: set_entries small_content_def)
  have w: "wire_form m = appendInteger (of_nat (length ?es)) 4 @ concat (map wire_entry ?es) @ []"
    by (simp add: wire_form_def Let_def)
  obtain c3 where c3: "unmarshall_formats ops (wire_form m) 4 (length ?es) c2 = Inr c3" "st_open c3"
      "content c3 = map_of (rev ?es)"
    using unmarshall_entries [OF c2(2,3) es w, of 4] c2(4) by auto
  have "m f = None" if "\<not> f < kNumFormats" for f using assms(3) [of f] that by (cases "m f") auto
  then have "content c3 = m" using c3(3) by (auto simp: map_of_rev_entries fun_eq_iff)
  moreover obtain c4 where "op_close ops c3 = Inr c4" "st_closed c4" "content c4 = content c3"
    using close_law [OF c3(2)] by auto
  moreover have "readUInt32 (wire_form m) 0 = Inr (of_nat (length ?es))"
    by (rule readUInt32_at [of _ "[]" _ "concat (map wire_entry ?es)"]) (simp_all add: w)
  moreover have "unat (of_nat (length ?es) :: u32) = length ?es"
    using length_entries [of m "[0..<kNumFormats]"] by (simp add: unat_of_nat kNumFormats_def)
  ultimately show ?thesis using c1 c2 c3 by (simp add: unmarshall_def)
qed

end

text \<open>Two clipboards, of possibly different kinds.\<close>

locale iclipboard_pair = dst: iclipboard dops d_closed d_open d_owned d_content +
  src: iclipboard sops s_closed s_open s_owned s_content
  for dops :: "'d clipboard_ops" and d_closed d_open d_owned d_content
    and sops :: "'c clipboard_ops" and s_closed s_open s_owned s_content
begin

lemma copy_formats_content:
  assumes "d_open d" "d_owned d" "s_open s" "\<forall>f \<in> set fs. f < kNumFormats"
  shows "\<exists>d'. copy_formats dops sops d s fs = Inr d' \<and> d_open d' \<and>
    d_content d' = (\<lambda>f. if f \<in> set fs \<and> s_content s f \<noteq> None then s_content s f else d_content d f)"
  using assms
proof (induction fs arbitrary: d)
  case (Cons f fs)
  show ?case
  proof (cases "s_content s f")
    case None
    obtain d' where "copy_formats dops sops d s fs = Inr d'" "d_open d'"
        "d_content d' = (\<lambda>g. if g \<in> set fs \<and> s_content s g \<noteq> None then s_content s g else d_content d g)"
      using Cons.IH [OF Cons.prems(1-3)] Cons.prems(4) by auto
    then show ?thesis using None Cons.prems(4) by (auto simp: src.has_law [OF Cons.prems(3)] fun_eq_iff)
  next
    case (Some x)
    have f: "f < kNumFormats" using Cons.prems(4) by simp
    obtain d1 where d1: "dops = dops" "op_add dops d f x = Inr d1" "d_open d1" "d_owned d1"
        "d_content d1 = (d_content d)(f := Some x)"
      using dst.add_law [OF Cons.prems(1,2) f, of x] by auto
    obtain d2 where "copy_formats dops sops d1 s fs = Inr d2" "d_open d2"
        "d_content d2 = (\<lambda>g. if g \<in> set fs \<and> s_content s g \<noteq> None then s_content s g else d_content d1 g)"
      using Cons.IH [OF d1(3,4) Cons.prems(3)] Cons.prems(4) by auto
    then show ?thesis using d1 Some f
      by (auto simp: src.has_law [OF Cons.prems(3)] src.get_law [OF Cons.prems(3) Some] fun_eq_iff)
  qed
qed simp

lemma copy_at_content:
  assumes "d_closed d" "s_closed s"
  shows "\<exists>d' s'. copy_at dops sops d s t = Inr (d', s', True) \<and> d_closed d' \<and> s_closed s' \<and>
    d_content d' = s_content s \<and> s_content s' = s_content s"
proof -
  obtain s1 where s1: "op_open sops s t = Inr (s1, True)" "s_open s1" "s_content s1 = s_content s"
    using src.open_law [OF assms(2), of t] by auto
  obtain d1 where d1: "op_open dops d t = Inr (d1, True)" "d_open d1"
    using dst.open_law [OF assms(1), of t] by auto
  obtain d2 where d2: "op_clear dops d1 = Inr (d2, True)" "d_open d2" "d_owned d2"
      "d_content d2 = (\<lambda>_. None)"
    using dst.clear_law [OF d1(2)] by auto
  obtain d3 where d3: "copy_formats dops sops d2 s1 [0..<kNumFormats] = Inr d3" "d_open d3"
      "d_content d3 = (\<lambda>f. if f \<in> set [0..<kNumFormats] \<and> s_content s1 f \<noteq> None then s_content s1 f
        else d_content d2 f)"
    using copy_formats_content [OF d2(2,3) s1(2), of "[0..<kNumFormats]"] by auto
  have "s_content s1 f = None" if "\<not> f < kNumFormats" for f
    using src.content_range [OF s1(2), of f] that by (cases "s_content s1 f") auto
  then have "d_content d3 = s_content s" using d3(3) d2(4) s1(3) by (auto simp: fun_eq_iff)
  moreover obtain d4 where "op_close dops d3 = Inr d4" "d_closed d4" "d_content d4 = d_content d3"
    using dst.close_law [OF d3(2)] by auto
  moreover obtain s2 where "op_close sops s1 = Inr s2" "s_closed s2" "s_content s2 = s_content s1"
    using src.close_law [OF s1(2)] by auto
  ultimately show ?thesis using s1 d1 d2 d3(1) by (simp add: copy_at_def)
qed

end

subsection \<open>The in-memory clipboard keeps the contract\<close>

definition clip_closed :: "clipboard \<Rightarrow> bool" where
  "clip_closed c \<longleftrightarrow> clip_inv c \<and> \<not> m_open c"

definition clip_opened :: "clipboard \<Rightarrow> bool" where
  "clip_opened c \<longleftrightarrow> clip_inv c \<and> m_open c"

lemmas clip_defs = clip_closed_def clip_opened_def clip_inv_def clip_content_def clip_open_def
  clip_close_def clip_clear_def clip_add_def clip_has_def clip_get_def

interpretation clip: iclipboard clip_ops clip_closed clip_opened m_owner clip_content
  by unfold_locales (auto simp: clip_ops_def clip_defs fun_eq_iff nth_list_update split: if_splits)

interpretation clip_pair: iclipboard_pair clip_ops clip_closed clip_opened m_owner clip_content
  clip_ops clip_closed clip_opened m_owner clip_content ..

lemma clip_new_closed: "\<exists>c. clip_new = Inr c \<and> clip_closed c \<and> clip_content c = (\<lambda>_. None) \<and> m_timeOwned c = 0"
  by (auto simp: clip_new_def clip_raw_def clip_defs fun_eq_iff)

lemma clip_content_range: "clip_content c f = Some d \<Longrightarrow> f < kNumFormats"
  by (simp add: clip_content_def split: if_splits)

lemma small_clip:
  "clip_inv c \<Longrightarrow> \<forall>d \<in> set (m_data c). length d < 2 ^ 32 \<Longrightarrow> small_content (clip_content c)"
  by (auto simp: small_content_def clip_content_def clip_inv_def split: if_splits)

text \<open>
  C22. Round trip of the clipboard: what one side marshalls, the other side unmarshalls to exactly the same
  formats with the same data, whatever its clipboard held before, and both clipboards end closed.
\<close>

theorem clipboard_roundtrip:
  assumes "clip_closed src" "clip_closed dst" "small_content (clip_content src)"
  shows "\<exists>src' data dst'. clip_marshall src = Inr (src', data) \<and> clip_unmarshall dst data t = Inr dst' \<and>
    clip_closed src' \<and> clip_closed dst' \<and> clip_content src' = clip_content src \<and>
    clip_content dst' = clip_content src"
proof -
  obtain src' where "clip_marshall src = Inr (src', wire_form (clip_content src))" "clip_closed src'"
      "clip_content src' = clip_content src"
    using clip.marshall_content [OF assms(1)] by (auto simp: clip_marshall_def)
  moreover obtain dst' where "clip_unmarshall dst (wire_form (clip_content src)) t = Inr dst'"
      "clip_closed dst'" "clip_content dst' = clip_content src"
    using clip.unmarshall_wire_form [of dst "clip_content src" t] assms(2,3) clip_content_range
    by (auto simp: clip_unmarshall_def)
  ultimately show ?thesis by blast
qed

definition sample_clip :: clipboard where
  "sample_clip = \<lparr>m_open = False, m_time = 5, m_owner = True, m_timeOwned = 5,
     m_added = [True, False, True, False, False, False, False, False],
     m_data = [[104, 105], [], [1, 2, 3], [], [], [], [], []]\<rparr>"

lemma sample_clip_facts: "clip_closed sample_clip" "small_content (clip_content sample_clip)"
proof -
  show "clip_closed sample_clip" by (simp add: sample_clip_def clip_defs kNumFormats_def)
  then have "clip_inv sample_clip" by (simp add: clip_closed_def)
  then show "small_content (clip_content sample_clip)" by (rule small_clip) (simp add: sample_clip_def)
qed

theorem clipboard_roundtrip_witness:
  "\<exists>src' data dst'. clip_marshall sample_clip = Inr (src', data) \<and>
    clip_unmarshall sample_clip data 7 = Inr dst' \<and> clip_closed src' \<and> clip_closed dst' \<and>
    clip_content src' = clip_content sample_clip \<and> clip_content dst' = clip_content sample_clip"
  using sample_clip_facts by (intro clipboard_roundtrip)

text \<open>
  Copying one clipboard into another succeeds, leaves the source as it was and gives the destination
  exactly the formats and data of the source.
\<close>

theorem clipboard_copy:
  assumes "clip_closed src" "clip_closed dst"
  shows "\<exists>dst' src'. copy clip_ops clip_ops dst src = Inr (dst', src', True) \<and> clip_closed dst' \<and>
    clip_closed src' \<and> clip_content dst' = clip_content src \<and> clip_content src' = clip_content src"
  unfolding copy_def by (rule clip_pair.copy_at_content [OF assms(2,1)])

theorem clipboard_copy_witness:
  "\<exists>dst' src'. copy clip_ops clip_ops sample_clip sample_clip = Inr (dst', src', True) \<and> clip_closed dst' \<and>
    clip_closed src' \<and> clip_content dst' = clip_content sample_clip \<and> clip_content src' = clip_content sample_clip"
  using sample_clip_facts(1) by (intro clipboard_copy)

text \<open>
  Marshalled data that announces more formats than it holds makes \<open>unmarshall\<close> read past the end of the
  string: nothing in the code checks the announced count against the length.
\<close>

theorem unmarshall_reads_past_end:
  assumes "clip_closed c" "n \<noteq> 0"
  shows "clip_unmarshall c (appendInteger n 4) t = Inl ClipOutOfBounds"
proof -
  obtain k where k: "unat n = Suc k" using assms(2) by (cases "unat n") (auto simp: unat_eq_0)
  have r: "readUInt32 (appendInteger n 4) 0 = Inr n" by (rule readUInt32_at [of _ "[]" _ "[]"]) simp_all
  have "readUInt32 (appendInteger n 4) 4 = Inl ClipOutOfBounds" by (simp add: readUInt32_def)
  then show ?thesis using assms(1) k r
    by (simp add: clip_unmarshall_def unmarshall_def clip_ops_def clip_defs)
qed

theorem unmarshall_reads_past_end_witness:
  "clip_unmarshall sample_clip (appendInteger 3 4) 7 = Inl ClipOutOfBounds"
  by (rule unmarshall_reads_past_end) (simp_all add: sample_clip_facts)

end
