(* ===== verification/Unicode.thy ===== *)
theory Unicode
  imports Prelude
begin

text \<open>
  The UTF-8 codec and the wide-character conversions of \<^verbatim>\<open>src/lib/base/Unicode.cpp\<close>, through which
  all clipboard text passes. \<open>fromUTF8\<close> and \<open>toUTF8\<close> follow the code's branches and bit operations;
  the conversion loops thread the \<^verbatim>\<open>errors\<close> flag. The byte order in which the code reads and writes
  16- and 32-bit units is that of the host, a parameter here. The lemmas show that decoding always
  advances, that what \<open>toUTF8\<close> writes \<open>fromUTF8\<close> reads, and that text survives the way through
  UTF-16 and UCS-4 unchanged. The conversions to and from the multibyte encoding of the C locale
  (\<^verbatim>\<open>wcrtomb\<close>, \<^verbatim>\<open>mbrtowc\<close>) are not modelled.
\<close>

subsection \<open>One character\<close>

definition s_invalid :: u32 where "s_invalid = 0x0000ffff"
definition s_replacement :: u32 where "s_replacement = 0x0000fffd"

text \<open>The length of the sequence a first byte announces; \<open>None\<close> for a byte that cannot be first.\<close>

definition utf8_size :: "byte \<Rightarrow> nat option" where
  "utf8_size d =
     (if d < 0x80 then Some 1
      else if d < 0xc0 then None
      else if d < 0xe0 then Some 2
      else if d < 0xf0 then Some 3
      else if d < 0xf8 then Some 4
      else if d < 0xfc then Some 5
      else if d < 0xfe then Some 6
      else None)"

definition low6 :: "byte \<Rightarrow> u32" where
  "low6 d = ucast d AND 0x3f"

definition utf8_char :: "nat \<Rightarrow> bytes \<Rightarrow> u32" where
  "utf8_char sz d =
     (if sz = 1 then ucast (d ! 0)
      else if sz = 2 then push_bit 6 (ucast (d ! 0) AND 0x1f) OR low6 (d ! 1)
      else if sz = 3 then
        push_bit 12 (ucast (d ! 0) AND 0x0f) OR push_bit 6 (low6 (d ! 1)) OR low6 (d ! 2)
      else if sz = 4 then
        push_bit 18 (ucast (d ! 0) AND 0x07) OR push_bit 12 (low6 (d ! 1)) OR
        push_bit 6 (low6 (d ! 2)) OR low6 (d ! 3)
      else if sz = 5 then
        push_bit 24 (ucast (d ! 0) AND 0x03) OR push_bit 18 (low6 (d ! 1)) OR
        push_bit 12 (low6 (d ! 2)) OR push_bit 6 (low6 (d ! 3)) OR low6 (d ! 4)
      else
        push_bit 30 (ucast (d ! 0) AND 0x01) OR push_bit 24 (low6 (d ! 1)) OR
        push_bit 18 (low6 (d ! 2)) OR push_bit 12 (low6 (d ! 3)) OR
        push_bit 6 (low6 (d ! 4)) OR low6 (d ! 5))"

text \<open>
  The falling-through switch: from the last byte down to the second, a byte that is not of the form
  \<open>10xxxxxx\<close> marks the sequence as truncated there.
\<close>

fun truncate_scan :: "bytes \<Rightarrow> nat \<Rightarrow> nat \<times> bool \<Rightarrow> nat \<times> bool" where
  "truncate_scan d 0 r = r"
| "truncate_scan d (Suc i) r =
     truncate_scan d i (if d ! Suc i AND 0xc0 \<noteq> 0x80 then (Suc i, True) else r)"

definition s_minChar :: "nat \<Rightarrow> u32" where
  "s_minChar sz = [0, 0x00000000, 0x00000080, 0x00000800, 0x00010000, 0x00200000, 0x04000000] ! sz"

text \<open>
  \<^verbatim>\<open>fromUTF8\<close> on a non-empty input, given by its first byte and the rest: the character and the bytes
  that remain.
\<close>

definition fromUTF8 :: "byte \<Rightarrow> bytes \<Rightarrow> u32 \<times> bytes" where
  "fromUTF8 d0 ds =
     (let data = d0 # ds in
      case utf8_size d0 of
        None \<Rightarrow> (s_invalid, ds)
      | Some sz \<Rightarrow>
          (if length data < sz then (s_invalid, [])
           else let c = utf8_char sz data;
                    (sz', truncated) = truncate_scan data (sz - 1) (sz, False);
                    rest = drop sz' data
                in if truncated then (s_invalid, rest)
                   else if c < s_minChar sz' then (s_invalid, rest)
                   else if 0xd800 \<le> c \<and> c \<le> 0xdfff then (s_invalid, rest)
                   else if 0xfffe \<le> c \<and> c \<le> 0xffff then (s_invalid, rest)
                   else (c, rest)))"

definition cont_byte :: "u32 \<Rightarrow> byte" where
  "cont_byte x = ucast ((x AND 0x3f) + 0x80)"

text \<open>\<^verbatim>\<open>toUTF8\<close>: whether the error flag is set, and the bytes appended.\<close>

definition toUTF8 :: "u32 \<Rightarrow> bool \<times> bytes" where
  "toUTF8 c0 =
     (let bad = ((0xd800 \<le> c0 \<and> c0 \<le> 0xdfff) \<or> 0x80000000 \<le> c0);
          c = (if bad then s_replacement else c0)
      in (bad,
        (if c < 0x80 then [ucast c]
         else if c < 0x800 then [ucast ((drop_bit 6 c AND 0x1f) + 0xc0), cont_byte c]
         else if c < 0x10000 then
           [ucast ((drop_bit 12 c AND 0x0f) + 0xe0), cont_byte (drop_bit 6 c), cont_byte c]
         else if c < 0x200000 then
           [ucast ((drop_bit 18 c AND 0x07) + 0xf0), cont_byte (drop_bit 12 c),
            cont_byte (drop_bit 6 c), cont_byte c]
         else if c < 0x4000000 then
           [ucast ((drop_bit 24 c AND 0x03) + 0xf8), cont_byte (drop_bit 18 c),
            cont_byte (drop_bit 12 c), cont_byte (drop_bit 6 c), cont_byte c]
         else
           [ucast ((drop_bit 30 c AND 0x01) + 0xfc), cont_byte (drop_bit 24 c),
            cont_byte (drop_bit 18 c), cont_byte (drop_bit 12 c), cont_byte (drop_bit 6 c),
            cont_byte c])))"

subsection \<open>Decoding advances\<close>

lemma truncate_scan_range:
  "i < fst r \<Longrightarrow> 0 < fst r \<Longrightarrow> fst r \<le> n \<Longrightarrow>
     0 < fst (truncate_scan d i r) \<and> fst (truncate_scan d i r) \<le> n"
  by (induction d i r rule: truncate_scan.induct) auto

lemma utf8_size_range: "utf8_size d = Some sz \<Longrightarrow> 1 \<le> sz \<and> sz \<le> 6"
  by (auto simp: utf8_size_def split: if_splits)

lemma fromUTF8_consumes:
  assumes "fromUTF8 d ds = (c, rest)"
  shows "\<exists>used. d # ds = used @ rest \<and> used \<noteq> [] \<and> length used \<le> max 6 (length (d # ds))"
proof -
  have "\<exists>n. 0 < n \<and> rest = drop n (d # ds)"
  proof (cases "utf8_size d")
    case None
    then show ?thesis using assms by (auto simp: fromUTF8_def intro: exI [of _ 1])
  next
    case (Some sz)
    have "1 \<le> sz" using utf8_size_range [OF Some] by simp
    then have "0 < fst (truncate_scan (d # ds) (sz - 1) (sz, False))"
      using truncate_scan_range [of "sz - 1" "(sz, False)" sz "d # ds"] by simp
    then show ?thesis
      using assms Some
      by (auto simp: fromUTF8_def Let_def split: if_splits prod.splits
          intro: exI [of _ "length (d # ds)"])
  qed
  then obtain n where n: "0 < n" "rest = drop n (d # ds)" by blast
  have "d # ds = take n (d # ds) @ rest" using n(2) by simp
  moreover have "take n (d # ds) \<noteq> []" using n(1) by simp
  ultimately show ?thesis by (intro exI [of _ "take n (d # ds)"]) auto
qed

lemma fromUTF8_shorter: "(c, rest) = fromUTF8 d ds \<Longrightarrow> length rest \<le> length ds"
proof -
  assume "(c, rest) = fromUTF8 d ds"
  then obtain used where "d # ds = used @ rest" "used \<noteq> []"
    using fromUTF8_consumes [of d ds c rest] by auto
  then show ?thesis by (cases used) auto
qed

subsection \<open>Units in the byte order of the host\<close>

text \<open>
  The unions in \<^verbatim>\<open>decode16\<close> and \<^verbatim>\<open>decode32\<close> and the \<^verbatim>\<open>reinterpret_cast\<close>s that append units read and
  write memory in host order: \<open>le\<close> says whether the host is little-endian.
\<close>

definition n16 :: "bool \<Rightarrow> byte \<Rightarrow> byte \<Rightarrow> u16" where
  "n16 le a b = (if le then be16 b a else be16 a b)"

definition n32 :: "bool \<Rightarrow> byte \<Rightarrow> byte \<Rightarrow> byte \<Rightarrow> byte \<Rightarrow> u32" where
  "n32 le a b c d = (if le then be32 d c b a else be32 a b c d)"

definition put16 :: "bool \<Rightarrow> u16 \<Rightarrow> bytes" where
  "put16 le v = (let bs = appendInteger (ucast v) 2 in if le then rev bs else bs)"

definition put32 :: "bool \<Rightarrow> u32 \<Rightarrow> bytes" where
  "put32 le v = (let bs = appendInteger v 4 in if le then rev bs else bs)"

definition decode16 :: "bool \<Rightarrow> bytes \<Rightarrow> bool \<Rightarrow> u16" where
  "decode16 le n byteSwapped =
     (if byteSwapped then n16 le (n ! 1) (n ! 0) else n16 le (n ! 0) (n ! 1))"

definition decode32 :: "bool \<Rightarrow> bytes \<Rightarrow> bool \<Rightarrow> u32" where
  "decode32 le n byteSwapped =
     (if byteSwapped then n32 le (n ! 3) (n ! 2) (n ! 1) (n ! 0)
      else n32 le (n ! 0) (n ! 1) (n ! 2) (n ! 3))"

subsection \<open>The conversions\<close>

function isUTF8 :: "bytes \<Rightarrow> bool" where
  "isUTF8 [] = True"
| "isUTF8 (d # ds) =
     (let (c, rest) = fromUTF8 d ds in if c = s_invalid then False else isUTF8 rest)"
  by pat_completeness auto
termination by (relation "measure length") (auto dest: fromUTF8_shorter)

text \<open>
  The four loops from UTF-8 differ in the largest character they accept and in how they append one:
  \<open>from_utf8_loop\<close> is their common shape, with the error flag and the output threaded through it.
\<close>

function from_utf8_loop :: "(u32 \<Rightarrow> bool \<times> bytes) \<Rightarrow> bytes \<Rightarrow> bool \<times> bytes \<Rightarrow> bool \<times> bytes" where
  "from_utf8_loop put [] (errors, dst) = (errors, dst)"
| "from_utf8_loop put (d # ds) (errors, dst) =
     (let (c, rest) = fromUTF8 d ds; (e, bs) = put c
      in from_utf8_loop put rest (errors \<or> e, dst @ bs))"
  by pat_completeness auto
termination
  by (relation "measure (\<lambda>(_, ds, _). length ds)") (auto dest: fromUTF8_shorter)

definition put_ucs2 :: "bool \<Rightarrow> u32 \<Rightarrow> bool \<times> bytes" where
  "put_ucs2 le c0 =
     (let e = (c0 \<noteq> s_invalid \<and> 0x00010000 \<le> c0);
          c = (if c0 = s_invalid \<or> e then s_replacement else c0)
      in (e, put16 le (ucast c)))"

definition UTF8ToUCS2 :: "bool \<Rightarrow> bytes \<Rightarrow> bool \<times> bytes" where
  "UTF8ToUCS2 le src = from_utf8_loop (put_ucs2 le) src (False, [])"

definition put_ucs4 :: "bool \<Rightarrow> u32 \<Rightarrow> bool \<times> bytes" where
  "put_ucs4 le c0 = (False, put32 le (if c0 = s_invalid then s_replacement else c0))"

definition UTF8ToUCS4 :: "bool \<Rightarrow> bytes \<Rightarrow> bool \<times> bytes" where
  "UTF8ToUCS4 le src = from_utf8_loop (put_ucs4 le) src (False, [])"

definition put_utf16 :: "bool \<Rightarrow> u32 \<Rightarrow> bool \<times> bytes" where
  "put_utf16 le c0 =
     (let e = (c0 \<noteq> s_invalid \<and> 0x00110000 \<le> c0);
          c = (if c0 = s_invalid \<or> e then s_replacement else c0)
      in (e,
        if c < 0x00010000 then put16 le (ucast c)
        else let c' = c - 0x00010000
             in put16 le (ucast (drop_bit 10 c' + 0xd800)) @ put16 le (ucast ((c' AND 0x03ff) + 0xdc00))))"

definition UTF8ToUTF16 :: "bool \<Rightarrow> bytes \<Rightarrow> bool \<times> bytes" where
  "UTF8ToUTF16 le src = from_utf8_loop (put_utf16 le) src (False, [])"

definition put_utf32 :: "bool \<Rightarrow> u32 \<Rightarrow> bool \<times> bytes" where
  "put_utf32 le c0 =
     (let e = (c0 \<noteq> s_invalid \<and> 0x00110000 \<le> c0)
      in (e, put32 le (if c0 = s_invalid \<or> e then s_replacement else c0)))"

definition UTF8ToUTF32 :: "bool \<Rightarrow> bytes \<Rightarrow> bool \<times> bytes" where
  "UTF8ToUTF32 le src = from_utf8_loop (put_utf32 le) src (False, [])"

text \<open>
  The loops to UTF-8. \<open>bom16\<close> and \<open>bom32\<close> are the test of the first unit: the data and the count after
  it, and whether the units are byte-swapped.
\<close>

definition bom16 :: "bool \<Rightarrow> bytes \<Rightarrow> nat \<Rightarrow> bytes \<times> nat \<times> bool" where
  "bom16 le data n =
     (if 1 \<le> n then
        if decode16 le data False = 0xfeff then (drop 2 data, n - 1, False)
        else if decode16 le data False = 0xfffe then (drop 2 data, n - 1, True)
        else (data, n, False)
      else (data, n, False))"

definition bom32 :: "bool \<Rightarrow> bytes \<Rightarrow> nat \<Rightarrow> bytes \<times> nat \<times> bool" where
  "bom32 le data n =
     (if 1 \<le> n then
        if decode32 le data False = 0x0000feff then (drop 4 data, n - 1, False)
        else if decode32 le data False = 0x0000fffe then (drop 4 data, n - 1, True)
        else (data, n, False)
      else (data, n, False))"

fun ucs2_loop :: "bool \<Rightarrow> bool \<Rightarrow> bytes \<Rightarrow> nat \<Rightarrow> bool \<times> bytes \<Rightarrow> bool \<times> bytes" where
  "ucs2_loop le sw data 0 (errors, dst) = (errors, dst)"
| "ucs2_loop le sw data (Suc n) (errors, dst) =
     (let (e, bs) = toUTF8 (ucast (decode16 le data sw))
      in ucs2_loop le sw (drop 2 data) n (errors \<or> e, dst @ bs))"

definition doUCS2ToUTF8 :: "bool \<Rightarrow> bytes \<Rightarrow> nat \<Rightarrow> bool \<times> bytes" where
  "doUCS2ToUTF8 le data n =
     (let (data', n', sw) = bom16 le data n in ucs2_loop le sw data' n' (False, []))"

fun ucs4_loop :: "bool \<Rightarrow> bool \<Rightarrow> bytes \<Rightarrow> nat \<Rightarrow> bool \<times> bytes \<Rightarrow> bool \<times> bytes" where
  "ucs4_loop le sw data 0 (errors, dst) = (errors, dst)"
| "ucs4_loop le sw data (Suc n) (errors, dst) =
     (let (e, bs) = toUTF8 (decode32 le data sw)
      in ucs4_loop le sw (drop 4 data) n (errors \<or> e, dst @ bs))"

definition doUCS4ToUTF8 :: "bool \<Rightarrow> bytes \<Rightarrow> nat \<Rightarrow> bool \<times> bytes" where
  "doUCS4ToUTF8 le data n =
     (let (data', n', sw) = bom32 le data n in ucs4_loop le sw data' n' (False, []))"

fun utf16_loop :: "bool \<Rightarrow> bool \<Rightarrow> bytes \<Rightarrow> nat \<Rightarrow> bool \<times> bytes \<Rightarrow> bool \<times> bytes" where
  "utf16_loop le sw data 0 (errors, dst) = (errors, dst)"
| "utf16_loop le sw data (Suc n) (errors, dst) =
     (let c = ucast (decode16 le data sw) :: u32; bad = dst @ snd (toUTF8 s_replacement) in
      if c < 0xd800 \<or> 0xdfff < c then
        utf16_loop le sw (drop 2 data) n (errors \<or> fst (toUTF8 c), dst @ snd (toUTF8 c))
      else if n = 0 then (True, bad)
      else if 0xd800 \<le> c \<and> c \<le> 0xdbff then
        let c2 = ucast (decode16 le (drop 2 data) sw) :: u32 in
        if c2 < 0xdc00 \<or> 0xdfff < c2 then utf16_loop le sw (drop 4 data) (n - 1) (True, bad)
        else let ch = (push_bit 10 (c - 0xd800) OR (c2 - 0xdc00)) + 0x00010000
             in utf16_loop le sw (drop 4 data) (n - 1) (errors \<or> fst (toUTF8 ch), dst @ snd (toUTF8 ch))
      else utf16_loop le sw (drop 2 data) n (True, bad))"

definition doUTF16ToUTF8 :: "bool \<Rightarrow> bytes \<Rightarrow> nat \<Rightarrow> bool \<times> bytes" where
  "doUTF16ToUTF8 le data n =
     (let (data', n', sw) = bom16 le data n in utf16_loop le sw data' n' (False, []))"

fun utf32_loop :: "bool \<Rightarrow> bool \<Rightarrow> bytes \<Rightarrow> nat \<Rightarrow> bool \<times> bytes \<Rightarrow> bool \<times> bytes" where
  "utf32_loop le sw data 0 (errors, dst) = (errors, dst)"
| "utf32_loop le sw data (Suc n) (errors, dst) =
     (let c0 = decode32 le data sw; big = 0x00110000 \<le> c0;
          (e, bs) = toUTF8 (if big then s_replacement else c0)
      in utf32_loop le sw (drop 4 data) n (errors \<or> big \<or> e, dst @ bs))"

definition doUTF32ToUTF8 :: "bool \<Rightarrow> bytes \<Rightarrow> nat \<Rightarrow> bool \<times> bytes" where
  "doUTF32ToUTF8 le data n =
     (let (data', n', sw) = bom32 le data n in utf32_loop le sw data' n' (False, []))"

text \<open>The entry points cast the byte count to 32 bits before they halve or quarter it.\<close>

definition UCS2ToUTF8 :: "bool \<Rightarrow> bytes \<Rightarrow> bool \<times> bytes" where
  "UCS2ToUTF8 le src = doUCS2ToUTF8 le src ((length src mod 2 ^ 32) div 2)"

definition UCS4ToUTF8 :: "bool \<Rightarrow> bytes \<Rightarrow> bool \<times> bytes" where
  "UCS4ToUTF8 le src = doUCS4ToUTF8 le src ((length src mod 2 ^ 32) div 4)"

definition UTF16ToUTF8 :: "bool \<Rightarrow> bytes \<Rightarrow> bool \<times> bytes" where
  "UTF16ToUTF8 le src = doUTF16ToUTF8 le src ((length src mod 2 ^ 32) div 2)"

definition UTF32ToUTF8 :: "bool \<Rightarrow> bytes \<Rightarrow> bool \<times> bytes" where
  "UTF32ToUTF8 le src = doUTF32ToUTF8 le src ((length src mod 2 ^ 32) div 4)"

text \<open>\<^verbatim>\<open>wchar_t\<close> strings, in the encoding of the platform.\<close>

datatype wide_char_encoding = kUCS2 | kUCS4 | kUTF16 | kUTF32

definition UTF8ToWideChar :: "wide_char_encoding \<Rightarrow> bool \<Rightarrow> bytes \<Rightarrow> bool \<times> bytes \<times> nat" where
  "UTF8ToWideChar enc le src =
     (let (e, tmp) = (case enc of kUCS2 \<Rightarrow> UTF8ToUCS2 le src | kUCS4 \<Rightarrow> UTF8ToUCS4 le src
                        | kUTF16 \<Rightarrow> UTF8ToUTF16 le src | kUTF32 \<Rightarrow> UTF8ToUTF32 le src);
          unit_bytes = (case enc of kUCS2 \<Rightarrow> 2 | kUCS4 \<Rightarrow> 4 | kUTF16 \<Rightarrow> 2 | kUTF32 \<Rightarrow> 4);
          sz = (length tmp mod 2 ^ 32) div unit_bytes
      in (e, take (unit_bytes * sz) tmp, sz))"

definition wideCharToUTF8 :: "wide_char_encoding \<Rightarrow> bool \<Rightarrow> bytes \<Rightarrow> nat \<Rightarrow> bool \<times> bytes" where
  "wideCharToUTF8 enc le src sz =
     (case enc of kUCS2 \<Rightarrow> doUCS2ToUTF8 le src sz | kUCS4 \<Rightarrow> doUCS4ToUTF8 le src sz
      | kUTF16 \<Rightarrow> doUTF16ToUTF8 le src sz | kUTF32 \<Rightarrow> doUTF32ToUTF8 le src sz)"

subsection \<open>What toUTF8 writes, fromUTF8 reads\<close>

lemma mask_numerals:
  "(0x3f :: u32) = mask 6" "(0x1f :: u32) = mask 5" "(0x0f :: u32) = mask 4" "(0x07 :: u32) = mask 3"
  "(0x03 :: u32) = mask 2" "(0x01 :: u32) = mask 1"
  by (simp_all add: mask_eq_exp_minus_1)

lemma and_mask_take_bit: "(x :: u32) AND mask k = take_bit k x"
  by (simp add: take_bit_eq_mask)

lemma unat_take_bit_less: "unat (take_bit k (x :: u32)) < 2 ^ k"
  by (simp add: unsigned_take_bit_eq)

lemma unat_ucast_byte: "unat (ucast (x :: u32) :: byte) = unat x mod 256"
  by (simp add: unsigned_ucast_eq take_bit_eq_mod)

lemma unat_ucast_u32: "unat (ucast (b :: byte) :: u32) = unat b"
proof -
  have "unat b < 2 ^ 8" using unsigned_less [of b] by simp
  then show ?thesis by (simp add: unsigned_ucast_eq take_bit_nat_eq_self)
qed

text \<open>A first byte: \<open>off\<close> marks the length, the low \<open>k\<close> bits carry data.\<close>

lemma unat_lead:
  assumes "unat (off :: u32) + 2 ^ k \<le> 256"
  shows "unat (ucast (take_bit k x + off) :: byte) = unat (take_bit k (x::u32)) + unat off"
proof -
  have lt: "unat (take_bit k x) + unat off < 256" using assms unat_take_bit_less [of k x] by linarith
  then have "unat (take_bit k x + off) = unat (take_bit k x) + unat off"
    by (simp add: unat_word_ariths)
  with lt show ?thesis by (simp add: unat_ucast_byte)
qed

lemma lead_data:
  assumes "unat (off :: u32) + 2 ^ k \<le> 256" "2 ^ k dvd unat off"
  shows "(ucast (ucast (take_bit k x + off) :: byte) :: u32) AND mask k = take_bit k x"
proof -
  let ?b = "ucast (take_bit k x + off) :: byte"
  have "unat ((ucast ?b :: u32) AND mask k) = take_bit k (unat ?b)"
    by (simp add: and_mask_take_bit unsigned_take_bit_eq unat_ucast_u32)
  also have "\<dots> = unat ?b mod 2 ^ k" by (rule take_bit_eq_mod)
  also have "\<dots> = unat (take_bit k x) mod 2 ^ k"
    using assms(2) by (auto simp: unat_lead [OF assms(1)] elim!: dvdE)
  also have "\<dots> = unat (take_bit k x)" using unat_take_bit_less [of k x] by simp
  finally show ?thesis by (rule word_unat_eq_iff [THEN iffD2])
qed

lemma cont_byte_data: "low6 (cont_byte x) = take_bit 6 x"
  using lead_data [of "0x80" 6 x]
  by (simp add: low6_def cont_byte_def mask_numerals(1) and_mask_take_bit)

lemma cont_byte_form: "cont_byte x AND 0xc0 = 0x80"
proof -
  have u: "unat (cont_byte x) = unat (take_bit 6 x) + 128"
    using unat_lead [of "0x80" 6 x] by (simp add: cont_byte_def mask_numerals(1) and_mask_take_bit)
  have "drop_bit 6 (cont_byte x) = 2"
  proof -
    have "unat (drop_bit 6 (cont_byte x)) = drop_bit 6 (unat (cont_byte x))"
      using unat_byte_less [of "cont_byte x"] by (simp add: unsigned_drop_bit_eq take_bit_nat_eq_self)
    also have "\<dots> = (unat (take_bit 6 x) + 128) div 64" by (simp add: drop_bit_eq_div u)
    also have "\<dots> = 2" using unat_take_bit_less [of 6 x] by simp
    finally show ?thesis by (simp add: word_unat_eq_iff)
  qed
  moreover have "y AND 0xc0 = push_bit 6 (drop_bit 6 y)" for y :: byte
  proof -
    have m: "(0xc0 :: byte) = push_bit 6 (mask 2)" by (simp add: mask_eq_exp_minus_1 push_bit_eq_mult)
    show ?thesis unfolding m by (rule bit_word_eqI) (auto simp: bit_simps)
  qed
  ultimately show ?thesis by (simp add: push_bit_eq_mult)
qed

text \<open>Gluing the pieces of a character together again.\<close>

lemma glue_bits: "push_bit k (take_bit m (drop_bit k c)) OR take_bit k c = take_bit (k + m) (c :: u32)"
  by (rule bit_word_eqI) (auto simp: bit_simps)

lemma take_bit_small: "c < 2 ^ k \<Longrightarrow> k < 32 \<Longrightarrow> take_bit k (c :: u32) = c"
proof -
  assume a: "c < 2 ^ k" "k < 32"
  have "(2 :: nat) ^ k < 2 ^ 32" using a(2) by (rule power_strict_increasing) simp
  then have "unat (of_nat (2 ^ k) :: u32) = 2 ^ k"
    by (simp add: unat_of_nat del: of_nat_power)
  then have "unat (2 ^ k :: u32) = 2 ^ k" by simp
  then have "unat c < 2 ^ k" using a(1) by (simp add: word_less_nat_alt)
  then show ?thesis by (simp add: word_unat_eq_iff unsigned_take_bit_eq take_bit_nat_eq_self)
qed


text \<open>The characters that have an encoding of their own.\<close>

definition valid_char :: "u32 \<Rightarrow> bool" where
  "valid_char c \<longleftrightarrow> c < 0x80000000 \<and> \<not> (0xd800 \<le> c \<and> c \<le> 0xdfff) \<and> c \<noteq> 0xfffe \<and> c \<noteq> 0xffff"

definition encode :: "u32 \<Rightarrow> bytes" where
  "encode c = snd (toUTF8 c)"

lemma lead_size:
  "utf8_size (ucast (take_bit 5 (x :: u32) + 0xc0)) = Some 2"
  "utf8_size (ucast (take_bit 4 x + 0xe0)) = Some 3"
  "utf8_size (ucast (take_bit 3 x + 0xf0)) = Some 4"
  "utf8_size (ucast (take_bit 2 x + 0xf8)) = Some 5"
  "utf8_size (ucast (take_bit 1 x + 0xfc)) = Some 6"
  using unat_take_bit_less [of 5 x] unat_take_bit_less [of 4 x] unat_take_bit_less [of 3 x]
    unat_take_bit_less [of 2 x] unat_take_bit_less [of 1 x]
    unat_lead [of "0xc0" 5 x] unat_lead [of "0xe0" 4 x] unat_lead [of "0xf0" 3 x]
    unat_lead [of "0xf8" 2 x] unat_lead [of "0xfc" 1 x]
  by (simp_all add: utf8_size_def word_less_nat_alt)

lemma lead_bits:
  "(ucast (ucast (take_bit 5 x + 0xc0) :: byte) :: u32) AND mask 5 = take_bit 5 x"
  "(ucast (ucast (take_bit 4 x + 0xe0) :: byte) :: u32) AND mask 4 = take_bit 4 x"
  "(ucast (ucast (take_bit 3 x + 0xf0) :: byte) :: u32) AND mask 3 = take_bit 3 x"
  "(ucast (ucast (take_bit 2 x + 0xf8) :: byte) :: u32) AND mask 2 = take_bit 2 x"
  "(ucast (ucast (take_bit 1 x + 0xfc) :: byte) :: u32) AND mask 1 = take_bit 1 x"
  by (rule lead_data; simp)+

lemma glue2: "push_bit 6 (take_bit 5 (drop_bit 6 c)) OR take_bit 6 c = take_bit 11 (c :: u32)"
  using glue_bits [of 6 5 c] by simp

lemma glue_low:
  "push_bit 6 (take_bit 6 (drop_bit 6 c)) OR take_bit 6 c = take_bit 12 (c :: u32)"
  "push_bit 12 (take_bit 6 (drop_bit 12 c)) OR take_bit 12 c = take_bit 18 c"
  "push_bit 18 (take_bit 6 (drop_bit 18 c)) OR take_bit 18 c = take_bit 24 c"
  "push_bit 24 (take_bit 6 (drop_bit 24 c)) OR take_bit 24 c = take_bit 30 c"
  using glue_bits [of 6 6 c] glue_bits [of 12 6 c] glue_bits [of 18 6 c] glue_bits [of 24 6 c] by simp_all

lemma glue_high:
  "push_bit 12 (take_bit 4 (drop_bit 12 c)) OR take_bit 12 c = take_bit 16 (c :: u32)"
  "push_bit 18 (take_bit 3 (drop_bit 18 c)) OR take_bit 18 c = take_bit 21 c"
  "push_bit 24 (take_bit 2 (drop_bit 24 c)) OR take_bit 24 c = take_bit 26 c"
  "push_bit 30 (take_bit 1 (drop_bit 30 c)) OR take_bit 30 c = take_bit 31 c"
  using glue_bits [of 12 4 c] glue_bits [of 18 3 c] glue_bits [of 24 2 c] glue_bits [of 30 1 c] by simp_all

text \<open>The round trip for one character, by the length of its encoding.\<close>

lemma toUTF8_valid: "valid_char c \<Longrightarrow> \<not> fst (toUTF8 c)"
  by (auto simp: valid_char_def toUTF8_def Let_def)

lemma truncate_scan_cont:
  "(\<forall>j. 1 \<le> j \<and> j \<le> i \<longrightarrow> d ! j AND 0xc0 = (0x80 :: byte)) \<Longrightarrow> truncate_scan d i r = r"
  by (induction d i r rule: truncate_scan.induct) auto

lemma fromUTF8_good:
  assumes "utf8_size (hd d) = Some (length d)" "d \<noteq> []"
    and "\<forall>j. 1 \<le> j \<and> j < length d \<longrightarrow> d ! j AND 0xc0 = 0x80"
    and "utf8_char (length d) d = c" "s_minChar (length d) \<le> c" "valid_char c"
    and "fromUTF8 (hd d) (tl d @ rest) = r"
  shows "r = (c, rest)"
proof -
  have dd: "hd d # tl d @ rest = d @ rest" using assms(2) by (cases d) auto
  have scan: "truncate_scan (d @ rest) (length d - Suc 0) x = x" for x
    by (rule truncate_scan_cont) (use assms(2,3) in \<open>auto simp: nth_append Suc_le_eq\<close>)
  have len: "1 \<le> length d" "length d \<le> 6" using utf8_size_range [OF assms(1)] by auto
  have ch: "utf8_char (length d) (d @ rest) = c"
    using assms(4) len by (auto simp: utf8_char_def nth_append split: if_splits)
  have v: "\<not> (0xd800 \<le> c \<and> c \<le> 0xdfff)" "\<not> (0xfffe \<le> c \<and> c \<le> 0xffff)"
  proof -
    show "\<not> (0xd800 \<le> c \<and> c \<le> 0xdfff)" using assms(6) by (simp add: valid_char_def)
    have "unat c \<noteq> 0xfffe" "unat c \<noteq> 0xffff"
      using assms(6) by (auto simp: valid_char_def word_unat_eq_iff)
    then show "\<not> (0xfffe \<le> c \<and> c \<le> 0xffff)" by (simp add: word_le_nat_alt)
  qed
  have "fromUTF8 (hd d) (tl d @ rest) = (c, rest)"
    using v assms(5) by (auto simp: fromUTF8_def dd assms(1) scan ch Let_def not_le simp del: append_assoc)
  then show ?thesis using assms(7) by simp
qed

lemma masked_drop:
  "(drop_bit k c AND 0x1f) = take_bit 5 (drop_bit k (c :: u32))"
  "(drop_bit k c AND 0x0f) = take_bit 4 (drop_bit k c)"
  "(drop_bit k c AND 0x07) = take_bit 3 (drop_bit k c)"
  "(drop_bit k c AND 0x03) = take_bit 2 (drop_bit k c)"
  "(drop_bit k c AND 0x01) = take_bit 1 (drop_bit k c)"
  by (simp_all only: mask_numerals and_mask_take_bit)

lemma utf8_char_multi:
  "utf8_char 2 [ucast (take_bit 5 a + 0xc0), cont_byte b] = push_bit 6 (take_bit 5 a) OR take_bit 6 b"
  "utf8_char 3 [ucast (take_bit 4 a + 0xe0), cont_byte b, cont_byte b2] =
     push_bit 12 (take_bit 4 a) OR push_bit 6 (take_bit 6 b) OR take_bit 6 b2"
  "utf8_char 4 [ucast (take_bit 3 a + 0xf0), cont_byte b, cont_byte b2, cont_byte b3] =
     push_bit 18 (take_bit 3 a) OR push_bit 12 (take_bit 6 b) OR push_bit 6 (take_bit 6 b2) OR
     take_bit 6 b3"
  "utf8_char 5 [ucast (take_bit 2 a + 0xf8), cont_byte b, cont_byte b2, cont_byte b3, cont_byte b4] =
     push_bit 24 (take_bit 2 a) OR push_bit 18 (take_bit 6 b) OR push_bit 12 (take_bit 6 b2) OR
     push_bit 6 (take_bit 6 b3) OR take_bit 6 b4"
  "utf8_char 6 [ucast (take_bit 1 a + 0xfc), cont_byte b, cont_byte b2, cont_byte b3, cont_byte b4,
       cont_byte b5] =
     push_bit 30 (take_bit 1 a) OR push_bit 24 (take_bit 6 b) OR push_bit 18 (take_bit 6 b2) OR
     push_bit 12 (take_bit 6 b3) OR push_bit 6 (take_bit 6 b4) OR take_bit 6 b5"
  by (simp_all only: utf8_char_def mask_numerals lead_bits cont_byte_data nth_Cons_0 nth_Cons_numeral
      numeral_eq_one_iff numeral_eq_iff num.simps if_True if_False refl)
     (simp_all add: cont_byte_data mask_numerals lead_bits del: mask_1)

lemma encode_cases:
  assumes "valid_char c"
  shows "encode c =
    (if c < 0x80 then [ucast c]
     else if c < 0x800 then [ucast (take_bit 5 (drop_bit 6 c) + 0xc0), cont_byte c]
     else if c < 0x10000 then
       [ucast (take_bit 4 (drop_bit 12 c) + 0xe0), cont_byte (drop_bit 6 c), cont_byte c]
     else if c < 0x200000 then
       [ucast (take_bit 3 (drop_bit 18 c) + 0xf0), cont_byte (drop_bit 12 c),
        cont_byte (drop_bit 6 c), cont_byte c]
     else if c < 0x4000000 then
       [ucast (take_bit 2 (drop_bit 24 c) + 0xf8), cont_byte (drop_bit 18 c),
        cont_byte (drop_bit 12 c), cont_byte (drop_bit 6 c), cont_byte c]
     else
       [ucast (take_bit 1 (drop_bit 30 c) + 0xfc), cont_byte (drop_bit 24 c),
        cont_byte (drop_bit 18 c), cont_byte (drop_bit 12 c), cont_byte (drop_bit 6 c),
        cont_byte c])"
proof -
  have nb: "(0xd800 \<le> c \<and> c \<le> 0xdfff \<or> 0x80000000 \<le> c) = False"
    using assms by (auto simp: valid_char_def)
  show ?thesis by (simp only: encode_def toUTF8_def Let_def nb if_False snd_conv masked_drop)
qed

lemmas utf8_multi = utf8_char_multi glue2 glue_low glue_high

lemma utf8_length_cases:
  "valid_char c \<Longrightarrow> length (encode c) =
    (if c < 0x80 then 1 else if c < 0x800 then 2 else if c < 0x10000 then 3
     else if c < 0x200000 then 4 else if c < 0x4000000 then 5 else 6)"
  by (simp add: encode_cases)

lemma utf8_char_encode:
  assumes v: "valid_char c"
  shows "utf8_char (length (encode c)) (encode c) = c"
proof -
  have lt: "c < 0x80 \<Longrightarrow> ucast (ucast c :: byte) = c"
  proof -
    assume "c < 0x80"
    then have "unat c < 128" by (simp add: word_less_nat_alt)
    then show ?thesis by (simp add: word_unat_eq_iff unat_ucast_u32 unat_ucast_byte)
  qed
  have tb: "c < 0x800 \<Longrightarrow> take_bit 11 c = c" "c < 0x10000 \<Longrightarrow> take_bit 16 c = c"
    "c < 0x200000 \<Longrightarrow> take_bit 21 c = c" "c < 0x4000000 \<Longrightarrow> take_bit 26 c = c"
    "take_bit 31 c = c"
    using take_bit_small [of c 11] take_bit_small [of c 16] take_bit_small [of c 21]
      take_bit_small [of c 26] take_bit_small [of c 31] v
    by (simp_all add: valid_char_def)
  consider "c < 0x80" | "\<not> c < 0x80" "c < 0x800" | "\<not> c < 0x80" "\<not> c < 0x800" "c < 0x10000"
    | "\<not> c < 0x80" "\<not> c < 0x800" "\<not> c < 0x10000" "c < 0x200000"
    | "\<not> c < 0x80" "\<not> c < 0x800" "\<not> c < 0x10000" "\<not> c < 0x200000" "c < 0x4000000"
    | "\<not> c < 0x80" "\<not> c < 0x800" "\<not> c < 0x10000" "\<not> c < 0x200000" "\<not> c < 0x4000000"
    by blast
  then show ?thesis
  proof cases
    case 1
    then show ?thesis
      by (simp only: utf8_length_cases [OF v] if_True)
         (simp add: encode_cases [OF v] utf8_char_def lt)
  qed (simp only: utf8_length_cases [OF v] if_True if_False,
       simp only: encode_cases [OF v] if_True if_False utf8_multi tb)+
qed

lemma encode_form:
  assumes v: "valid_char c"
  shows "utf8_size (hd (encode c)) = Some (length (encode c))"
    and "\<And>j. 1 \<le> j \<Longrightarrow> j < length (encode c) \<Longrightarrow> encode c ! j AND 0xc0 = 0x80"
    and "s_minChar (length (encode c)) \<le> c" and "encode c \<noteq> []"
proof -
  have one: "c < 0x80 \<Longrightarrow> utf8_size (ucast c) = Some 1"
  proof -
    assume "c < 0x80"
    then have "unat (ucast c :: byte) < 128" by (simp add: word_less_nat_alt unat_ucast_byte)
    then show ?thesis by (simp add: utf8_size_def word_less_nat_alt)
  qed
  show "utf8_size (hd (encode c)) = Some (length (encode c))"
    unfolding utf8_length_cases [OF v]
    unfolding encode_cases [OF v]
    by (simp only: if_distrib [of hd] if_distrib [of utf8_size] if_distrib [of Some] list.sel
        lead_size one cong: if_cong)
  show "encode c ! j AND 0xc0 = 0x80" if "1 \<le> j" "j < length (encode c)" for j
  proof -
    have "j \<le> 5" using that(2) by (simp add: utf8_length_cases [OF v] split: if_splits)
    then have "j = 1 \<or> j = 2 \<or> j = 3 \<or> j = 4 \<or> j = 5" using that(1) by linarith
    then show ?thesis using that(2)
      unfolding utf8_length_cases [OF v] encode_cases [OF v]
      by (elim disjE) (simp_all add: cont_byte_form split: if_splits)
  qed
  show "s_minChar (length (encode c)) \<le> c"
    by (simp add: utf8_length_cases [OF v] s_minChar_def not_less)
  show "encode c \<noteq> []" by (simp add: encode_cases [OF v])
qed

lemma fromUTF8_encode:
  assumes "valid_char c"
  shows "\<exists>d ds. encode c = d # ds \<and> fromUTF8 d (ds @ rest) = (c, rest)"
proof -
  have f: "fromUTF8 (hd (encode c)) (tl (encode c) @ rest) = (c, rest)"
    using encode_form [OF assms] utf8_char_encode [OF assms] assms
    by (intro fromUTF8_good [of "encode c"]) auto
  moreover have "encode c = hd (encode c) # tl (encode c)" using encode_form(4) [OF assms] by simp
  ultimately show ?thesis by blast
qed

subsection \<open>Texts\<close>

definition encode_all :: "u32 list \<Rightarrow> bytes" where
  "encode_all cs = concat (map encode cs)"

lemma encode_all_simps [simp]:
  "encode_all [] = []" "encode_all (c # cs) = encode c @ encode_all cs"
  by (simp_all add: encode_all_def)

lemma valid_not_invalid: "valid_char c \<Longrightarrow> c \<noteq> s_invalid"
  by (auto simp: valid_char_def s_invalid_def)

lemma isUTF8_encode_all: "\<forall>c \<in> set cs. valid_char c \<Longrightarrow> isUTF8 (encode_all cs)"
proof (induction cs)
  case (Cons c cs)
  obtain d ds where "encode c = d # ds" "fromUTF8 d (ds @ encode_all cs) = (c, encode_all cs)"
    using fromUTF8_encode [of c "encode_all cs"] Cons.prems by auto
  then show ?case using Cons valid_not_invalid [of c] by simp
qed simp

lemma from_utf8_loop_encoded:
  assumes "\<forall>c \<in> set cs. valid_char c"
  shows "from_utf8_loop put (encode_all cs) (e, dst) =
    (e \<or> (\<exists>c \<in> set cs. fst (put c)), dst @ concat (map (\<lambda>c. snd (put c)) cs))"
  using assms
proof (induction cs arbitrary: e dst)
  case (Cons c cs)
  obtain d ds where "encode c = d # ds" "fromUTF8 d (ds @ encode_all cs) = (c, encode_all cs)"
    using fromUTF8_encode [of c "encode_all cs"] Cons.prems by auto
  then show ?case using Cons by (auto simp: Let_def case_prod_beta)
qed simp

lemma length_put [simp]: "length (put16 le v) = 2" "length (put32 le w) = 4"
  by (simp_all add: put16_def put32_def Let_def)

lemma decode_put16: "decode16 le (put16 le v @ rest) False = v"
  by (simp add: decode16_def put16_def n16_def Let_def appendInteger_2 be16_split)

lemma decode_put32: "decode32 le (put32 le v @ rest) False = v"
  by (simp add: decode32_def put32_def n32_def Let_def appendInteger_4 be32_split)

lemma ucast_u16_id: "c < 0x10000 \<Longrightarrow> ucast (ucast (c :: u32) :: u16) = c"
proof -
  assume "c < 0x10000"
  then have "unat c < 2 ^ 16" by (simp add: word_less_nat_alt)
  then show ?thesis
    by (simp add: word_unat_eq_iff unsigned_ucast_eq unsigned_take_bit_eq take_bit_nat_eq_self)
qed

text \<open>Splitting a character beyond the basic plane into its two surrogates, and joining them.\<close>

lemma surrogates:
  assumes "0x10000 \<le> c" "c < 0x110000"
  defines "h \<equiv> drop_bit 10 (c - 0x10000) + 0xd800" and "l \<equiv> ((c - 0x10000) AND 0x03ff) + 0xdc00 :: u32"
  shows "ucast (ucast h :: u16) = h" "ucast (ucast l :: u16) = l" "0xd800 \<le> h" "h \<le> 0xdbff"
    "0xdc00 \<le> l" "l \<le> 0xdfff"
    "(push_bit 10 (h - 0xd800) OR (l - 0xdc00)) + 0x10000 = c"
proof -
  define x where "x = c - 0x10000"
  have "unat x = unat c - 65536" unfolding x_def
    using assms(1) by (simp add: unat_sub word_le_nat_alt)
  then have x: "unat x < 1048576" using assms(1,2) by (simp add: word_le_nat_alt word_less_nat_alt)
  have m: "(0x3ff :: u32) = mask 10" by (simp add: mask_eq_exp_minus_1)
  have l': "l = take_bit 10 x + 0xdc00" by (simp add: l_def x_def m and_mask_take_bit)
  have h': "h = drop_bit 10 x + 0xd800" by (simp add: h_def x_def)
  have "unat (drop_bit 10 x) = drop_bit 10 (unat x)"
    using x by (simp add: unsigned_drop_bit_eq take_bit_nat_eq_self)
  then have ud: "unat (drop_bit 10 x) < 1024" using x by (simp add: drop_bit_eq_div)
  have ut: "unat (take_bit 10 x) < 1024" using unat_take_bit_less [of 10 x] by simp
  have uh: "unat h = unat (drop_bit 10 x) + 0xd800" using ud by (simp add: h' unat_word_ariths)
  have ul: "unat l = unat (take_bit 10 x) + 0xdc00" using ut by (simp add: l' unat_word_ariths)
  show "0xd800 \<le> h" "h \<le> 0xdbff" "0xdc00 \<le> l" "l \<le> 0xdfff"
    using uh ul ud ut by (simp_all add: word_le_nat_alt)
  have "h < 0x10000" "l < 0x10000" using uh ul ud ut by (simp_all add: word_less_nat_alt)
  then show "ucast (ucast h :: u16) = h" "ucast (ucast l :: u16) = l"
    by (simp_all add: ucast_u16_id)
  have "push_bit 10 (drop_bit 10 x) OR take_bit 10 x = x"
    by (rule bit_word_eqI) (auto simp: bit_simps)
  then show "(push_bit 10 (h - 0xd800) OR (l - 0xdc00)) + 0x10000 = c"
    by (simp add: h' l' x_def)
qed

definition utf16_char :: "u32 \<Rightarrow> bool" where
  "utf16_char c \<longleftrightarrow> valid_char c \<and> c < 0x110000"

lemma put_utf16_cases:
  assumes "utf16_char c"
  shows "put_utf16 le c = (False,
    if c < 0x10000 then put16 le (ucast c)
    else put16 le (ucast (drop_bit 10 (c - 0x10000) + 0xd800)) @
         put16 le (ucast (((c - 0x10000) AND 0x3ff) + 0xdc00)))"
  using assms valid_not_invalid [of c]
  by (auto simp: put_utf16_def utf16_char_def Let_def not_le)

lemma utf16_loop_step:
  assumes "utf16_char c" "n = length (snd (put_utf16 le c)) div 2 + m"
  shows "utf16_loop le False (snd (put_utf16 le c) @ rest) n (e, dst) =
    utf16_loop le False rest m (e, dst @ encode c)"
proof -
  have v: "valid_char c" using assms(1) by (simp add: utf16_char_def)
  have t: "\<not> fst (toUTF8 c)" "snd (toUTF8 c) = encode c"
    using toUTF8_valid [OF v] by (simp_all add: encode_def)
  show ?thesis
  proof (cases "c < 0x10000")
    case True
    then have "\<not> (0xd800 \<le> c \<and> c \<le> 0xdfff)" using v by (simp add: valid_char_def)
    then have "c < 0xd800 \<or> 0xdfff < c" by auto
    then show ?thesis using True assms t
      by (simp add: put_utf16_cases decode_put16 ucast_u16_id)
  next
    case False
    have "c < 0x110000" using assms(1) by (simp add: utf16_char_def)
    note sg = surrogates [OF _ this, unfolded not_less [symmetric], OF False]
    define h where "h = drop_bit 10 (c - 0x10000) + 0xd800"
    define l where "l = ((c - 0x10000) AND 0x03ff) + 0xdc00"
    note sg' = sg [folded h_def l_def, unfolded not_less]
    have p: "snd (put_utf16 le c) = put16 le (ucast h) @ put16 le (ucast l)"
      using False by (simp add: put_utf16_cases [OF assms(1)] h_def l_def)
    have n: "n = Suc (Suc m)" using assms(2) by (simp add: p)
    have ranges: "\<not> (h < 0xd800 \<or> 0xdfff < h)" "0xd800 \<le> h \<and> h \<le> 0xdbff"
      "\<not> (l < 0xdc00 \<or> 0xdfff < l)"
      using sg'(3-6) by (auto simp: word_le_nat_alt word_less_nat_alt)
    have d4: "drop 4 (put16 le (ucast h) @ put16 le (ucast l) @ rest) = rest"
      by simp
    show ?thesis
      unfolding p n append_assoc utf16_loop.simps(2) decode_put16 sg'(1) Let_def
      using ranges t
      by (simp only: if_False if_True ranges d4 decode_put16 sg'(2) sg'(7) nat.simps diff_Suc_1
          drop_append length_put) (simp add: decode_put16 sg' ranges)
  qed
qed

definition utf16_of :: "bool \<Rightarrow> u32 list \<Rightarrow> bytes" where
  "utf16_of le cs = concat (map (\<lambda>c. snd (put_utf16 le c)) cs)"

lemma even_put_utf16: "utf16_char c \<Longrightarrow> 2 dvd length (snd (put_utf16 le c))"
  by (auto simp: put_utf16_cases)

lemma length_utf16_of: "\<forall>c \<in> set cs. utf16_char c \<Longrightarrow> 2 dvd length (utf16_of le cs)"
  by (induction cs) (auto simp: utf16_of_def even_put_utf16 intro!: dvd_add)

lemma utf16_loop_all:
  "\<forall>c \<in> set cs. utf16_char c \<Longrightarrow>
     utf16_loop le False (utf16_of le cs) (length (utf16_of le cs) div 2) (e, dst) =
       (e, dst @ encode_all cs)"
proof (induction cs arbitrary: dst)
  case Nil
  then show ?case by (simp add: utf16_of_def)
next
  case (Cons c cs)
  have c: "utf16_char c" and cs: "\<forall>c \<in> set cs. utf16_char c" using Cons.prems by auto
  have "length (utf16_of le (c # cs)) div 2 =
      length (snd (put_utf16 le c)) div 2 + length (utf16_of le cs) div 2"
    using even_put_utf16 [OF c] by (simp add: utf16_of_def div_plus_div_distrib_dvd_left)
  from utf16_loop_step [OF c this, of "utf16_of le cs" e dst] Cons.IH [OF cs, of "dst @ encode c"]
  show ?case by (simp add: utf16_of_def)
qed

text \<open>A text that does not start with a byte order mark is taken as it stands.\<close>

lemma bom16_none:
  assumes "\<forall>c \<in> set cs. utf16_char c" "cs = [] \<or> hd cs \<noteq> 0xfeff"
  shows "bom16 le (utf16_of le cs) n = (utf16_of le cs, n, False) \<or> n \<noteq> length (utf16_of le cs) div 2"
proof (cases cs)
  case Nil
  then show ?thesis by (auto simp: bom16_def utf16_of_def)
next
  case (Cons c ds)
  have c: "utf16_char c" "c \<noteq> 0xfeff" using assms Cons by auto
  have "\<exists>u rest. utf16_of le cs = put16 le u @ rest \<and> u \<noteq> 0xfeff \<and> u \<noteq> 0xfffe"
  proof (cases "c < 0x10000")
    case True
    have "ucast c \<noteq> (0xfeff :: u16)" "ucast c \<noteq> (0xfffe :: u16)"
      using ucast_u16_id [OF True] c by (auto simp: utf16_char_def valid_char_def)
    then show ?thesis using True Cons by (auto simp: utf16_of_def put_utf16_cases [OF c(1)])
  next
    case False
    have "c < 0x110000" using c(1) by (simp add: utf16_char_def)
    define h where "h = drop_bit 10 (c - 0x10000) + 0xd800"
    have "ucast (ucast h :: u16) = h" "h \<le> 0xdbff"
      using surrogates [of c] \<open>c < 0x110000\<close> False by (auto simp: h_def)
    then have "ucast h \<noteq> (0xfeff :: u16)" "ucast h \<noteq> (0xfffe :: u16)" by auto
    then show ?thesis using False Cons by (auto simp: utf16_of_def put_utf16_cases [OF c(1)] h_def)
  qed
  then show ?thesis by (auto simp: bom16_def decode_put16)
qed

lemma UTF8ToUTF16_encoded:
  assumes "\<forall>c \<in> set cs. utf16_char c"
  shows "UTF8ToUTF16 le (encode_all cs) = (False, utf16_of le cs)"
proof -
  have v: "\<forall>c \<in> set cs. valid_char c" using assms by (simp add: utf16_char_def)
  show ?thesis using assms
    by (auto simp: UTF8ToUTF16_def from_utf8_loop_encoded [OF v] utf16_of_def put_utf16_cases)
qed

lemma UTF16ToUTF8_encoded:
  assumes "\<forall>c \<in> set cs. utf16_char c" "cs = [] \<or> hd cs \<noteq> 0xfeff" "length (utf16_of le cs) < 2 ^ 32"
  shows "UTF16ToUTF8 le (utf16_of le cs) = (False, encode_all cs)"
  using bom16_none [OF assms(1,2), of le "length (utf16_of le cs) div 2"]
    utf16_loop_all [OF assms(1), of le False "[]"] assms(3)
  by (simp add: UTF16ToUTF8_def doUTF16ToUTF8_def)

subsection \<open>Properties\<close>

text \<open>
  UTF-8 round trip of the code's own encoder and decoder: what \<open>toUTF8\<close> writes for a character without
  an error, \<open>fromUTF8\<close> reads back as that character, consuming exactly these bytes, and a text of
  such characters passes \<open>isUTF8\<close>. The characters U+FFFE and U+FFFF are the exception: they are
  written but not accepted.
\<close>

theorem utf8_roundtrip:
  assumes "\<not> fst (toUTF8 c)" "c \<noteq> 0xfffe" "c \<noteq> 0xffff"
  shows "\<exists>d ds. snd (toUTF8 c) = d # ds \<and> fromUTF8 d (ds @ rest) = (c, rest) \<and> isUTF8 (snd (toUTF8 c))"
proof -
  have v: "valid_char c" using assms by (auto simp: toUTF8_def valid_char_def Let_def)
  from fromUTF8_encode [OF this, of rest] isUTF8_encode_all [of "[c]"] v show ?thesis
    by (auto simp: encode_def)
qed

theorem utf8_roundtrip_witness:
  "\<exists>d ds. snd (toUTF8 0x20ac) = d # ds \<and> fromUTF8 d (ds @ [65]) = (0x20ac, [65]) \<and> isUTF8 (snd (toUTF8 0x20ac))"
  by (rule utf8_roundtrip) (simp_all add: toUTF8_def Let_def)

text \<open>
  C27. Text survives the way through UTF-16, on hosts of either byte order: converting the UTF-8 encoding of any
  characters up to U+10FFFF to UTF-16 and back gives the same bytes, without an error on either way, as long
  as the text does not begin with a byte order mark, which the way back removes.
\<close>

theorem utf16_roundtrip:
  assumes "\<forall>c \<in> set cs. utf16_char c" "cs = [] \<or> hd cs \<noteq> 0xfeff"
    and "UTF8ToUTF16 le (encode_all cs) = (e, wide)" "length wide < 2 ^ 32"
  shows "\<not> e \<and> UTF16ToUTF8 le wide = (False, encode_all cs)"
  using UTF8ToUTF16_encoded [OF assms(1), of le] UTF16ToUTF8_encoded [OF assms(1,2), of le] assms(3,4) by auto

theorem utf16_roundtrip_witness:
  "UTF16ToUTF8 True (snd (UTF8ToUTF16 True (encode_all [0x41, 0x1f600]))) = (False, encode_all [0x41, 0x1f600])"
proof -
  have c: "\<forall>c \<in> set [0x41, 0x1f600 :: u32]. utf16_char c" by (simp add: utf16_char_def valid_char_def)
  have l: "length (snd (UTF8ToUTF16 True (encode_all [0x41, 0x1f600]))) < 2 ^ 32"
    using UTF8ToUTF16_encoded [OF c, of True] c
    by (simp add: utf16_of_def put_utf16_cases)
  from utf16_roundtrip [OF c, of True _ "snd (UTF8ToUTF16 True (encode_all [0x41, 0x1f600]))",
      OF _ prod.collapse [symmetric] l] show ?thesis by simp
qed

text \<open>
  A UTF-32 text in the other byte order is not recognised by its byte order mark: its first unit reads as
  U+FFFE0000, while the code compares with U+0000FFFE, so the units are taken unswapped.
\<close>

theorem swapped_utf32_mark_missed:
  "bom32 le (rev (put32 le 0x0000feff) @ data) (Suc n) = (rev (put32 le 0x0000feff) @ data, Suc n, False)"
  by (simp add: bom32_def decode32_def put32_def n32_def appendInteger_4 Let_def be32_def)

end
