(* ===== verification/FloatArith.thy ===== *)
theory FloatArith
  imports Complex_Main "HOL-Library.Log_Nat"
begin

text \<open>
  The floating-point arithmetic of the language, as the configuration and the geometry of the server use it. A finite
  \<^verbatim>\<open>float\<close> or \<^verbatim>\<open>double\<close> is the rational number it stands for, and every operation is the exact one followed by
  rounding to the nearest value of the format, halves to even: 24 bits and least exponent -149 for
  \<^verbatim>\<open>float\<close>, 53 bits and -1074 for \<^verbatim>\<open>double\<close>. Each operation rounds on its own (no excess precision, no contraction to
  a fused operation). The theory shows that rounding is monotone, exact on what the format holds, and how far it may be
  off.
\<close>

subsection \<open>Rounding to an integer\<close>

definition round_even :: "rat \<Rightarrow> int" where
  "round_even x =
     (let f = \<lfloor>x\<rfloor>; d = x - of_int f
      in if d < 1 / 2 then f else if 1 / 2 < d then f + 1 else if even f then f else f + 1)"

lemma round_even_bound: "\<bar>of_int (round_even x) - x\<bar> \<le> 1 / 2"
proof -
  have "of_int \<lfloor>x\<rfloor> \<le> x" "x < of_int \<lfloor>x\<rfloor> + 1" by linarith+
  then show ?thesis by (simp add: round_even_def Let_def abs_le_iff)
qed

lemma round_even_of_int [simp]: "round_even (of_int n) = n"
  by (simp add: round_even_def)

lemma round_even_of_nat [simp]: "round_even (of_nat n) = int n"
  using round_even_of_int[of "int n"] by (simp del: round_even_of_int)

lemma round_even_zero [simp]: "round_even 0 = 0" and round_even_one [simp]: "round_even 1 = 1"
  using round_even_of_int[of 0] round_even_of_int[of 1] by (simp_all del: round_even_of_int)

lemma round_even_cases: "round_even x = \<lfloor>x\<rfloor> \<or> round_even x = \<lfloor>x\<rfloor> + 1"
  by (simp add: round_even_def Let_def)

lemma round_even_mono: assumes "x \<le> y" shows "round_even x \<le> round_even y"
proof (cases "\<lfloor>x\<rfloor> = \<lfloor>y\<rfloor>")
  case True
  then show ?thesis using assms by (auto simp: round_even_def Let_def)
next
  case False
  moreover have "\<lfloor>x\<rfloor> \<le> \<lfloor>y\<rfloor>" using assms by (rule floor_mono)
  ultimately show ?thesis using round_even_cases[of x] round_even_cases[of y] by linarith
qed

lemma round_even_le: "x \<le> of_int n \<Longrightarrow> round_even x \<le> n"
  using round_even_mono[of x "of_int n"] by simp

lemma round_even_ge: "of_int n \<le> x \<Longrightarrow> n \<le> round_even x"
  using round_even_mono[of "of_int n" x] by simp

lemma round_even_eqI: assumes "\<bar>x - of_int n\<bar> < 1 / 2" shows "round_even x = n"
proof -
  have "\<bar>of_int (round_even x) - of_int n\<bar> < (1 :: rat)" using round_even_bound[of x] assms by linarith
  then have "\<bar>round_even x - n\<bar> < 1" by (metis of_int_1 of_int_abs of_int_diff of_int_less_iff)
  then show ?thesis by simp
qed

lemma round_even_less: assumes "x < of_int n - 1 / 2" shows "round_even x < n"
proof -
  have "of_int (round_even x) < (of_int n :: rat)" using round_even_bound[of x] assms by linarith
  then show ?thesis by simp
qed

subsection \<open>Binary logarithm\<close>

definition ilog2 :: "rat \<Rightarrow> int" where
  "ilog2 x = (if 1 \<le> x then int (floorlog 2 (nat \<lfloor>x\<rfloor>)) - 1 else - int (floorlog 2 (nat (\<lceil>1 / x\<rceil> - 1))))"

abbreviation two_to :: "int \<Rightarrow> rat" where "two_to k \<equiv> power_int 2 k"

lemma two_to_pos [simp]: "0 < two_to k" "0 \<le> two_to k" "two_to k \<noteq> 0"
  by (simp_all add: less_imp_le)

lemma two_to_mono: "i \<le> j \<Longrightarrow> two_to i \<le> two_to j"
  by (rule power_int_increasing) simp_all

lemma two_to_less: "i < j \<Longrightarrow> two_to i < two_to j"
  by (rule power_int_strict_increasing) simp_all

lemma two_to_Suc: "two_to (i + 1) = 2 * two_to i"
  by (simp add: power_int_add)

lemma two_to_int: "0 \<le> k \<Longrightarrow> two_to k = of_int (2 ^ nat k)"
  by (simp add: power_int_def)

lemma two_to_split: "two_to i = two_to (i - j) * two_to j"
  by (simp add: power_int_diff)

lemma floorlog2_bounds:
  assumes "0 < n"
  shows "two_to (int (floorlog 2 n) - 1) \<le> of_nat n" "of_nat n + 1 \<le> two_to (int (floorlog 2 n))"
proof -
  have b: "2 ^ (floorlog 2 n - 1) \<le> n" "n < 2 ^ floorlog 2 n" using floorlog_bounds[of n 2] assms by auto
  have "0 < floorlog 2 n" using b(2) assms by (cases "floorlog 2 n") auto
  then have "two_to (int (floorlog 2 n) - 1) = 2 ^ (floorlog 2 n - 1)"
    by (metis Suc_pred' diff_Suc_1 of_nat_Suc power_int_of_nat add_diff_cancel_left')
  also have "\<dots> \<le> of_nat n" using b(1) by (metis of_nat_le_iff of_nat_numeral of_nat_power)
  finally show "two_to (int (floorlog 2 n) - 1) \<le> of_nat n" .
  have "Suc n \<le> 2 ^ floorlog 2 n" using b(2) by simp
  then have "(of_nat (Suc n) :: rat) \<le> 2 ^ floorlog 2 n" by (metis of_nat_le_iff of_nat_numeral of_nat_power)
  then show "of_nat n + 1 \<le> two_to (int (floorlog 2 n))" by simp
qed

lemma ilog2_bounds:
  assumes "0 < x"
  shows "two_to (ilog2 x) \<le> x" "x < two_to (ilog2 x + 1)"
proof -
  have "two_to (ilog2 x) \<le> x \<and> x < two_to (ilog2 x + 1)"
  proof (cases "1 \<le> x")
    case True
    let ?n = "nat \<lfloor>x\<rfloor>"
    have n: "0 < ?n" "of_nat ?n \<le> x" "x < of_nat ?n + 1" using True by (simp_all, linarith+)
    have "ilog2 x = int (floorlog 2 ?n) - 1" using True by (simp add: ilog2_def)
    then show ?thesis using floorlog2_bounds[OF n(1)] n(2,3) by (metis diff_add_cancel order.trans order_less_le_trans)
  next
    case False
    let ?y = "1 / x" and ?n = "nat (\<lceil>1 / x\<rceil> - 1)"
    have y: "1 < ?y" using False assms by simp
    then have "2 \<le> \<lceil>?y\<rceil>" by (simp add: le_ceiling_iff)
    then have n: "0 < ?n" "(of_nat ?n :: rat) = of_int \<lceil>?y\<rceil> - 1" by (simp_all only: zero_less_nat_eq of_nat_nat)
    let ?k = "int (floorlog 2 ?n)"
    have lo: "two_to (?k - 1) < ?y" and hi: "?y \<le> two_to ?k"
      using floorlog2_bounds[OF n(1)] n(2) by linarith+
    have "x \<ge> inverse (two_to ?k)"
      using hi assms by (simp add: field_simps)
    moreover have "x < inverse (two_to (?k - 1))"
      using lo assms by (simp add: field_simps)
    moreover have "inverse (two_to ?k) = two_to (- ?k)" "inverse (two_to (?k - 1)) = two_to (- ?k + 1)"
      by (simp_all only: power_int_minus[symmetric] minus_diff_eq uminus_add_conv_diff)
    moreover have "ilog2 x = - ?k" using False by (simp add: ilog2_def)
    ultimately show ?thesis by (simp only:)
  qed
  then show "two_to (ilog2 x) \<le> x" "x < two_to (ilog2 x + 1)" by simp_all
qed

lemma ilog2_unique: assumes "two_to k \<le> x" "x < two_to (k + 1)" shows "ilog2 x = k"
proof (rule ccontr)
  assume ne: "ilog2 x \<noteq> k"
  have pos: "0 < x" using assms(1) two_to_pos(1)[of k] by linarith
  consider "ilog2 x + 1 \<le> k" | "k + 1 \<le> ilog2 x" using ne by linarith
  then show False
    using ilog2_bounds[OF pos] assms two_to_mono[of "ilog2 x + 1" k] two_to_mono[of "k + 1" "ilog2 x"]
    by cases linarith+
qed

lemma ilog2_mono: assumes "0 < x" "x \<le> y" shows "ilog2 x \<le> ilog2 y"
proof (rule ccontr)
  assume "\<not> ilog2 x \<le> ilog2 y"
  then have "two_to (ilog2 y + 1) \<le> two_to (ilog2 x)" by (intro two_to_mono) simp
  then show False using ilog2_bounds[of x] ilog2_bounds[of y] assms by linarith
qed

subsection \<open>Formats\<close>

text \<open>The exponent of the last place of a number, and the number rounded to a multiple of that place.\<close>

definition last_place :: "int \<Rightarrow> int \<Rightarrow> rat \<Rightarrow> int" where
  "last_place p emin x = max (ilog2 \<bar>x\<bar> - (p - 1)) emin"

definition fl :: "int \<Rightarrow> int \<Rightarrow> rat \<Rightarrow> rat" where
  "fl p emin x = of_int (round_even (x / two_to (last_place p emin x))) * two_to (last_place p emin x)"

definition fl32 :: "rat \<Rightarrow> rat" where "fl32 = fl 24 (- 149)"
definition fl64 :: "rat \<Rightarrow> rat" where "fl64 = fl 53 (- 1074)"

text \<open>The numbers that a format holds.\<close>

definition in_format :: "int \<Rightarrow> int \<Rightarrow> rat \<Rightarrow> bool" where
  "in_format p emin x \<longleftrightarrow> (\<exists>m e. x = of_int m * two_to e \<and> \<bar>m\<bar> \<le> 2 ^ nat p \<and> emin \<le> e)"

definition is_float :: "rat \<Rightarrow> bool" where "is_float = in_format 24 (- 149)"

lemma fl_zero [simp]: "fl p emin 0 = 0"
  by (simp add: fl_def)

text \<open>A multiple of the last place bounds the rounded number as it bounds the number.\<close>

lemma fl_le_multiple:
  assumes "x \<le> of_int m * two_to (last_place p emin x)"
  shows "fl p emin x \<le> of_int m * two_to (last_place p emin x)"
proof -
  have "round_even (x / two_to (last_place p emin x)) \<le> m"
    by (rule round_even_le) (use assms in \<open>simp add: pos_divide_le_eq\<close>)
  then show ?thesis by (simp add: fl_def mult_right_mono)
qed

lemma fl_ge_multiple:
  assumes "of_int m * two_to (last_place p emin x) \<le> x"
  shows "of_int m * two_to (last_place p emin x) \<le> fl p emin x"
proof -
  have "m \<le> round_even (x / two_to (last_place p emin x))"
    by (rule round_even_ge) (use assms in \<open>simp add: pos_le_divide_eq\<close>)
  then show ?thesis by (simp add: fl_def mult_right_mono)
qed

lemma multiple_coarser: assumes "e \<le> k" shows "\<exists>n. two_to k = of_int n * two_to e"
proof -
  have "two_to k = of_int (2 ^ nat (k - e)) * two_to e"
    using assms two_to_split[of k e] two_to_int[of "k - e"] by simp
  then show ?thesis ..
qed

lemma fl_nonneg: "0 \<le> x \<Longrightarrow> 0 \<le> fl p emin x"
  using fl_ge_multiple[of 0 p emin x] by simp

lemma fl_mono:
  assumes x: "0 \<le> x" "x \<le> y" and p: "1 \<le> p"
  shows "fl p emin x \<le> fl p emin y"
proof (cases "x = 0")
  case True
  then show ?thesis using fl_nonneg[of y] x by simp
next
  case False
  then have pos: "0 < x" "0 < y" using x by simp_all
  let ?e = "last_place p emin"
  have le: "?e x \<le> ?e y" using ilog2_mono[of x y] pos x by (simp add: last_place_def)
  show ?thesis
  proof (cases "?e x = ?e y")
    case True
    have "round_even (x / two_to (?e x)) \<le> round_even (y / two_to (?e x))"
      by (rule round_even_mono) (use x in \<open>simp add: divide_right_mono\<close>)
    then show ?thesis by (simp add: fl_def True mult_right_mono)
  next
    case False
    let ?k = "ilog2 y"
    have k: "ilog2 x + 1 \<le> ?k" "?e x \<le> ?k" "?e y \<le> ?k"
      using False le pos p by (simp_all add: last_place_def max_def split: if_splits)
    have up: "x \<le> two_to ?k"
      using ilog2_bounds(2)[OF pos(1)] two_to_mono[OF k(1)] by linarith
    obtain n where "two_to ?k = of_int n * two_to (?e x)" using multiple_coarser[OF k(2)] by blast
    then have "fl p emin x \<le> two_to ?k" using fl_le_multiple[of x n p emin] up by simp
    moreover obtain m where "two_to ?k = of_int m * two_to (?e y)" using multiple_coarser[OF k(3)] by blast
    then have "two_to ?k \<le> fl p emin y" using fl_ge_multiple[of m p emin y] ilog2_bounds(1)[OF pos(2)] by simp
    ultimately show ?thesis by simp
  qed
qed

lemma fl_exact:
  assumes "in_format p emin x" "1 \<le> p"
  shows "fl p emin x = x"
proof (cases "x = 0")
  case False
  obtain m e where x: "x = of_int m * two_to e" and m: "\<bar>m\<bar> \<le> 2 ^ nat p" and e: "emin \<le> e"
    using assms(1) by (auto simp: in_format_def)
  let ?l = "last_place p emin x" and ?k = "ilog2 \<bar>x\<bar>"
  have "\<exists>n. x = of_int n * two_to ?l"
  proof (cases "?l \<le> e")
    case True
    then obtain n where "two_to e = of_int n * two_to ?l" using multiple_coarser by blast
    then have "x = of_int (m * n) * two_to ?l" by (simp add: x)
    then show ?thesis ..
  next
    case f: False
    then have l: "p + e \<le> ?k" "?l = ?k - (p - 1)" using e by (auto simp: last_place_def)
    have "\<bar>x\<bar> = of_int \<bar>m\<bar> * two_to e" by (simp add: x abs_mult)
    also have "\<dots> \<le> of_int (2 ^ nat p) * two_to e" using m by (intro mult_right_mono) (simp_all only: of_int_le_iff two_to_pos)
    also have "\<dots> = two_to (p + e)" using assms(2) two_to_int[of p] by (simp add: power_int_add)
    finally have "\<bar>x\<bar> = two_to ?k"
      using ilog2_bounds(1)[of "\<bar>x\<bar>"] two_to_mono[OF l(1)] False by simp
    moreover obtain n where "two_to ?k = of_int n * two_to ?l" using multiple_coarser[of ?l ?k] l(2) assms(2) by auto
    ultimately have "x = of_int n * two_to ?l \<or> x = of_int (- n) * two_to ?l" by (auto simp: abs_if split: if_splits)
    then show ?thesis by blast
  qed
  then obtain n where n: "x = of_int n * two_to ?l" ..
  then have "round_even (x / two_to ?l) = n" by (metis nonzero_mult_div_cancel_right round_even_of_int two_to_pos(3))
  then show ?thesis using n by (simp add: fl_def)
qed simp

lemma fl_in_format:
  assumes "0 \<le> x" "1 \<le> p"
  shows "in_format p emin (fl p emin x)"
proof -
  let ?l = "last_place p emin x" and ?k = "ilog2 \<bar>x\<bar>"
  let ?m = "round_even (x / two_to ?l)"
  have "x \<le> of_int (2 ^ nat p) * two_to ?l"
  proof (cases "x = 0")
    case False
    then have "x \<le> two_to (?k + 1)" using ilog2_bounds(2)[of x] assms(1) by simp
    also have "\<dots> \<le> two_to (p + ?l)" by (rule two_to_mono) (simp add: last_place_def)
    also have "\<dots> = of_int (2 ^ nat p) * two_to ?l" using assms(2) two_to_int[of p] by (simp add: power_int_add)
    finally show ?thesis .
  qed simp
  then have "?m \<le> 2 ^ nat p" by (intro round_even_le) (simp add: pos_divide_le_eq)
  moreover have "0 \<le> ?m" by (rule round_even_ge) (use assms(1) in simp)
  ultimately show ?thesis unfolding in_format_def
    by (intro exI[of _ ?m] exI[of _ ?l]) (simp add: fl_def last_place_def)
qed

lemma fl_le: "\<lbrakk>0 \<le> x; x \<le> r; in_format p emin r; 1 \<le> p\<rbrakk> \<Longrightarrow> fl p emin x \<le> r"
  using fl_mono[of x r p emin] fl_exact[of p emin r] by simp

lemma fl_ge: "\<lbrakk>0 \<le> r; r \<le> x; in_format p emin r; 1 \<le> p\<rbrakk> \<Longrightarrow> r \<le> fl p emin x"
  using fl_mono[of r x p emin] fl_exact[of p emin r] by simp

text \<open>The error is at most half of the last place.\<close>

lemma fl_error: "\<bar>fl p emin x - x\<bar> \<le> two_to (last_place p emin x) / 2"
proof -
  let ?l = "two_to (last_place p emin x)"
  have "fl p emin x - x = (of_int (round_even (x / ?l)) - x / ?l) * ?l"
    by (simp add: fl_def left_diff_distrib)
  then have "\<bar>fl p emin x - x\<bar> = \<bar>of_int (round_even (x / ?l)) - x / ?l\<bar> * ?l" by (simp add: abs_mult)
  also have "\<dots> \<le> 1 / 2 * ?l" by (rule mult_right_mono[OF round_even_bound]) simp
  finally show ?thesis by simp
qed

lemma fl_error_below:
  assumes x: "0 \<le> x" "x \<le> two_to k" and p: "1 \<le> p" "emin \<le> k - p"
  shows "\<bar>fl p emin x - x\<bar> \<le> two_to (k - p - 1)"
proof (cases "x = 0 \<or> x = two_to k")
  case True
  have "in_format p emin (two_to k)" unfolding in_format_def using p by (intro exI[of _ 1] exI[of _ k]) simp
  then show ?thesis using True p(1) by (auto simp: fl_exact)
next
  case False
  then have pos: "0 < x" "x < two_to k" using x by auto
  have "ilog2 x < k"
  proof (rule ccontr)
    assume "\<not> ilog2 x < k"
    then have "two_to k \<le> two_to (ilog2 x)" by (intro two_to_mono) simp
    then show False using ilog2_bounds(1)[OF pos(1)] pos(2) by linarith
  qed
  then have "two_to (last_place p emin x) \<le> two_to (k - p)"
    using p pos by (intro two_to_mono) (simp add: last_place_def)
  moreover have "two_to (k - p) = 2 * two_to (k - p - 1)" using two_to_Suc[of "k - p - 1"] by simp
  ultimately show ?thesis using fl_error[of p emin x] by simp
qed

subsection \<open>Single precision\<close>

lemma is_float_fl32 [simp]: "0 \<le> x \<Longrightarrow> is_float (fl32 x)"
  by (simp add: is_float_def fl32_def fl_in_format)

lemma fl32_exact: "is_float x \<Longrightarrow> fl32 x = x"
  by (simp add: is_float_def fl32_def fl_exact)

lemma fl32_mono: "\<lbrakk>0 \<le> x; x \<le> y\<rbrakk> \<Longrightarrow> fl32 x \<le> fl32 y"
  by (simp add: fl32_def fl_mono)

lemma fl32_nonneg [simp]: "0 \<le> x \<Longrightarrow> 0 \<le> fl32 x"
  by (simp add: fl32_def fl_nonneg)

lemma fl32_le: "\<lbrakk>0 \<le> x; x \<le> r; is_float r\<rbrakk> \<Longrightarrow> fl32 x \<le> r"
  by (simp add: fl32_def is_float_def fl_le)

lemma fl32_ge: "\<lbrakk>0 \<le> r; r \<le> x; is_float r\<rbrakk> \<Longrightarrow> r \<le> fl32 x"
  by (simp add: fl32_def is_float_def fl_ge)

lemma is_float_of_int: "\<bar>n\<bar> \<le> 2 ^ 24 \<Longrightarrow> is_float (of_int n)"
  unfolding is_float_def in_format_def by (intro exI[of _ n] exI[of _ 0]) simp

lemma is_float_half: "\<bar>n\<bar> \<le> 2 ^ 24 \<Longrightarrow> is_float (of_int n / 2)"
  unfolding is_float_def in_format_def by (intro exI[of _ n] exI[of _ "- 1"]) (simp add: power_int_minus)

lemma is_float_two_to: "- 149 \<le> k \<Longrightarrow> is_float (two_to k)"
  unfolding is_float_def in_format_def by (intro exI[of _ 1] exI[of _ k]) simp

lemma is_float_simps [simp]: "is_float 0" "is_float 1" "is_float (1 / 2)" "is_float (1 / 4)"
  using is_float_of_int[of 0] is_float_of_int[of 1] is_float_half[of 1] is_float_two_to[of "- 2"]
  by (simp_all add: power_int_minus)

lemma fl32_simps [simp]: "fl32 0 = 0" "fl32 1 = 1" "fl32 (1 / 2) = 1 / 2" "fl32 (1 / 4) = 1 / 4"
  by (simp_all add: fl32_exact)

lemma fl32_idem [simp]: "0 \<le> x \<Longrightarrow> fl32 (fl32 x) = fl32 x"
  by (simp add: fl32_exact)

lemma fl32_error: "\<lbrakk>0 \<le> x; x \<le> two_to k; - 125 \<le> k\<rbrakk> \<Longrightarrow> \<bar>fl32 x - x\<bar> \<le> two_to (k - 25)"
  using fl_error_below[of x k 24 "- 149"] by (simp add: fl32_def)

lemma fl32_error_unit: assumes "0 \<le> x" "x \<le> 1" shows "\<bar>fl32 x - x\<bar> \<le> 1 / 2 ^ 25"
proof -
  have "two_to (0 - 25) = 1 / 2 ^ 25" by (simp add: power_int_def power_divide)
  then show ?thesis using fl32_error[of x 0] assms by simp
qed

text \<open>The rounded number from its binary place and the nearest multiple of its last place.\<close>

lemma fl32_eqI:
  assumes "two_to k \<le> x" "x < two_to (k + 1)" "- 126 \<le> k" "\<bar>x / two_to (k - 23) - of_int m\<bar> < 1 / 2"
  shows "fl32 x = of_int m * two_to (k - 23)"
proof -
  have "0 < x" using assms(1) two_to_pos(1)[of k] by linarith
  then have "last_place 24 (- 149) x = k - 23" using ilog2_unique[OF assms(1,2)] assms(3) by (simp add: last_place_def)
  then show ?thesis using round_even_eqI[OF assms(4)] by (simp add: fl32_def fl_def)
qed

text \<open>Above 1 the last place is $2^{-23}$, and less than its half is rounded off.\<close>

lemma fl32_le_one: assumes "0 \<le> x" "x \<le> 1 + 1 / 2 ^ 25" shows "fl32 x \<le> 1"
proof -
  have "fl32 x \<le> fl32 (1 + 1 / 2 ^ 25)" using assms by (intro fl32_mono)
  also have "fl32 (1 + 1 / 2 ^ 25) = of_int (2 ^ 23) * two_to (0 - 23)"
    by (rule fl32_eqI) (simp_all add: power_int_def power_divide)
  also have "\<dots> = 1" by (simp add: power_int_def power_divide)
  finally show ?thesis .
qed

text \<open>
  Numbers on the grid of the least last place, such as sums and differences of floats, are rounded with a small
  relative error: those below the normal range are exact.
\<close>

lemma fl32_relative:
  assumes x: "0 \<le> x" "x = of_int m * two_to (- 149)"
  shows "\<bar>fl32 x - x\<bar> \<le> x / 2 ^ 24"
proof (cases "x < two_to (- 126)")
  case True
  have "of_int m * two_to (- 149) < of_int (2 ^ 23) * two_to (- 149)"
    using True x(2) two_to_split[of "- 126" "- 149"] by simp
  then have "m < 2 ^ 23" by (metis mult_less_cancel_right_pos of_int_less_iff two_to_pos(1))
  moreover have "0 \<le> m" using x by (simp add: zero_le_mult_iff)
  ultimately have "is_float x" unfolding is_float_def in_format_def x(2) by (intro exI[of _ m] exI[of _ "- 149"]) simp
  then show ?thesis using x(1) by (simp add: fl32_exact)
next
  case False
  have pos: "0 < x" using False two_to_pos(1)[of "- 126"] by linarith
  let ?k = "ilog2 x"
  have "- 126 \<le> ?k"
  proof (rule ccontr)
    assume "\<not> - 126 \<le> ?k"
    then have "two_to (?k + 1) \<le> two_to (- 126)" by (intro two_to_mono) simp
    then show False using ilog2_bounds(2)[OF pos] False by linarith
  qed
  then have "last_place 24 (- 149) x = ?k - 23" using pos by (simp add: last_place_def)
  then have "\<bar>fl32 x - x\<bar> \<le> two_to (?k - 23) / 2" using fl_error[of 24 "- 149" x] by (simp add: fl32_def)
  also have "\<dots> = two_to ?k / 2 ^ 24" by (simp add: power_int_diff)
  also have "\<dots> \<le> x / 2 ^ 24" using ilog2_bounds(1)[OF pos] by (rule divide_right_mono) simp
  finally show ?thesis .
qed

lemma is_float_grid: assumes "is_float x" shows "\<exists>m. x = of_int m * two_to (- 149)"
proof -
  obtain m e where x: "x = of_int m * two_to e" "- 149 \<le> e" using assms by (auto simp: is_float_def in_format_def)
  obtain n where "two_to e = of_int n * two_to (- 149)" using multiple_coarser[OF x(2)] by blast
  then have "x = of_int (m * n) * two_to (- 149)" by (simp add: x(1))
  then show ?thesis ..
qed

lemma fl32_difference:
  assumes "is_float x" "is_float y" "y \<le> x"
  shows "\<bar>fl32 (x - y) - (x - y)\<bar> \<le> (x - y) / 2 ^ 24"
proof -
  obtain m n where "x = of_int m * two_to (- 149)" "y = of_int n * two_to (- 149)"
    using is_float_grid assms by meson
  then have "x - y = of_int (m - n) * two_to (- 149)" by (simp add: left_diff_distrib)
  then show ?thesis using fl32_relative[of "x - y" "m - n"] assms(3) by simp
qed

text \<open>A quotient of two differences, with three roundings.\<close>

lemma fl32_quotient:
  assumes d: "0 \<le> d" "d \<le> w" "0 < w"
    and e: "\<bar>fl32 d - d\<bar> \<le> d / 2 ^ 24" "\<bar>fl32 w - w\<bar> \<le> w / 2 ^ 24"
  shows "0 \<le> fl32 (fl32 d / fl32 w)" "fl32 (fl32 d / fl32 w) \<le> 1"
    "\<bar>fl32 (fl32 d / fl32 w) - d / w\<bar> \<le> 1 / 2 ^ 22"
proof -
  have "w / 2 ^ 24 \<le> w / 4" using d(3) by simp
  then have w: "4 * w \<le> 7 * fl32 w" using e(2) d(3) by linarith
  then have pos: "0 < fl32 w" using d(3) by linarith
  let ?q = "fl32 d / fl32 w"
  have q: "0 \<le> ?q" "?q \<le> 1" using fl32_mono[OF d(1,2)] pos d(1) by simp_all
  show "0 \<le> fl32 ?q" "fl32 ?q \<le> 1" using q by (simp_all add: fl32_le)
  have "\<bar>fl32 d * w - d * fl32 w\<bar> = \<bar>(fl32 d - d) * w - d * (fl32 w - w)\<bar>" by (simp add: algebra_simps)
  also have "\<dots> \<le> \<bar>fl32 d - d\<bar> * w + d * \<bar>fl32 w - w\<bar>"
    using abs_triangle_ineq4[of "(fl32 d - d) * w" "d * (fl32 w - w)"] d by (simp add: abs_mult)
  also have "\<dots> \<le> d / 2 ^ 24 * w + d * (w / 2 ^ 24)"
    using d by (intro add_mono mult_right_mono[OF e(1)] mult_left_mono[OF e(2)]) simp_all
  also have "\<dots> = d * (w / 2 ^ 23)" by simp
  also have "\<dots> \<le> w * (7 / 2 ^ 25 * fl32 w)" using d w by (intro mult_mono) simp_all
  finally have "\<bar>fl32 d * w - d * fl32 w\<bar> \<le> 7 / 2 ^ 25 * (fl32 w * w)" by (simp add: ac_simps)
  moreover have "?q - d / w = (fl32 d * w - d * fl32 w) / (fl32 w * w)" using pos d(3) by (simp add: field_simps)
  ultimately have "\<bar>?q - d / w\<bar> \<le> 7 / 2 ^ 25" using pos d(3) by (simp add: abs_divide abs_mult pos_divide_le_eq)
  moreover have "\<bar>fl32 ?q - ?q\<bar> \<le> 1 / 2 ^ 25" using fl32_error_unit[OF q] .
  moreover have "7 / 2 ^ 25 + 1 / 2 ^ 25 = (1 / 2 ^ 22 :: rat)" by simp
  ultimately show "\<bar>fl32 ?q - d / w\<bar> \<le> 1 / 2 ^ 22" by linarith
qed

text \<open>A fraction below 1 of a whole number stays below it.\<close>

lemma float_below_one: assumes "is_float u" "0 \<le> u" "u < 1" shows "u \<le> 1 - 1 / 2 ^ 24"
proof (rule ccontr)
  assume n: "\<not> u \<le> 1 - 1 / 2 ^ 24"
  have "ilog2 u = - 1" by (rule ilog2_unique) (use n assms(3) in \<open>simp_all add: power_int_minus\<close>)
  then have "last_place 24 (- 149) u = - 24" using assms(2) by (simp add: last_place_def)
  then obtain m where "fl32 u = of_int m * two_to (- 24)" by (simp add: fl32_def fl_def)
  then have m: "u = of_int m / 2 ^ 24" using fl32_exact[OF assms(1)] by (simp add: power_int_def power_divide)
  have "of_int (2 ^ 24 - 1) < (of_int m :: rat)" "of_int m < (of_int (2 ^ 24) :: rat)"
    using n assms(3) by (simp_all add: m)
  then show False by (simp only: of_int_less_iff)
qed

lemma fl32_scale_less:
  assumes u: "is_float u" "0 \<le> u" "u < 1" and h: "1 \<le> h" "h \<le> 2 ^ 24"
  shows "fl32 (u * of_int h) < of_int h"
proof -
  let ?x = "u * of_int h" and ?k = "ilog2 (of_int h)"
  have k: "two_to ?k \<le> of_int h" "of_int h < two_to (?k + 1)" using ilog2_bounds[of "of_int h"] h by simp_all
  have k0: "0 \<le> ?k" using ilog2_mono[of 1 "of_int h"] ilog2_unique[of 0 1] h(1) by simp
  have x: "0 \<le> ?x" "?x \<le> of_int h - of_int h / 2 ^ 24"
    using u(2) mult_right_mono[OF float_below_one[OF u], of "of_int h"] h by (simp_all add: left_diff_distrib)
  show ?thesis
  proof (cases "of_int h = two_to ?k")
    case True
    have "two_to ?k - two_to ?k / 2 ^ 24 = of_int (2 ^ 24 - 1) * two_to (?k - 24)"
      by (simp add: power_int_diff)
    moreover have "\<bar>2 ^ 24 - 1 :: int\<bar> \<le> 2 ^ nat 24 \<and> - 149 \<le> ?k - 24" using k0 by simp
    ultimately have "is_float (two_to ?k - two_to ?k / 2 ^ 24)" unfolding is_float_def in_format_def by blast
    then have "fl32 ?x \<le> two_to ?k - two_to ?k / 2 ^ 24" using x True by (intro fl32_le) simp_all
    moreover have "0 < two_to ?k / 2 ^ 24" by simp
    ultimately show ?thesis using True by linarith
  next
    case False
    then have k': "two_to ?k < of_int h" using k(1) by simp
    show ?thesis
    proof (cases "?x < two_to ?k")
      case True
      then have "fl32 ?x \<le> two_to ?k" using x(1) k0 by (intro fl32_le) (simp_all add: is_float_two_to)
      then show ?thesis using k' by simp
    next
      case False
      have "0 \<le> (of_int h :: rat) / 2 ^ 24" using h(1) by simp
      then have "ilog2 ?x = ?k" using False x(2) k(2) by (intro ilog2_unique) linarith+
      then have l: "last_place 24 (- 149) ?x = ?k - 23" using x(1) k0 by (simp add: last_place_def)
      have "two_to ?k < two_to 24" using k' h(2) by (simp add: less_le_trans)
      then have "?k < 24" by (meson two_to_mono not_le)
      then obtain i where "two_to 0 = of_int i * two_to (?k - 23)" using multiple_coarser[of "?k - 23" 0] by auto
      then have n: "of_int h = of_int (h * i) * two_to (?k - 23)" by simp
      have "?x < of_int h - two_to (?k - 23) / 2" using x(2) k' by (simp add: power_int_diff)
      then have "?x / two_to (?k - 23) < of_int (h * i) - 1 / 2" by (simp add: pos_divide_less_eq left_diff_distrib n[symmetric] del: of_int_mult)
      then have "round_even (?x / two_to (?k - 23)) < h * i" by (rule round_even_less)
      then have "fl32 ?x < of_int (h * i) * two_to (?k - 23)" by (simp add: fl32_def fl_def l del: of_int_mult)
      then show ?thesis by (simp only: n[symmetric])
    qed
  qed
qed

subsection \<open>Double precision\<close>

lemma fl64_nonneg [simp]: "0 \<le> x \<Longrightarrow> 0 \<le> fl64 x"
  by (simp add: fl64_def fl_nonneg)

lemma fl64_mono: "\<lbrakk>0 \<le> x; x \<le> y\<rbrakk> \<Longrightarrow> fl64 x \<le> fl64 y"
  by (simp add: fl64_def fl_mono)

lemma in_format_of_int: assumes "\<bar>n\<bar> \<le> 2 ^ nat p" "emin \<le> 0" shows "in_format p emin (of_int n)"
  unfolding in_format_def using assms by (intro exI [of _ n] exI [of _ 0]) simp

lemma in_format_two_to: assumes "emin \<le> k" shows "in_format p emin (two_to k)"
  unfolding in_format_def using assms by (intro exI [of _ 1] exI [of _ k]) simp

lemma fl64_of_int: "\<bar>n\<bar> \<le> 2 ^ 53 \<Longrightarrow> fl64 (of_int n) = of_int n"
  unfolding fl64_def by (rule fl_exact [OF in_format_of_int]) simp_all

lemma fl64_simps [simp]: "fl64 0 = 0" "fl64 1 = 1" "fl64 (1 / 2) = 1 / 2" "fl64 (1 / 4) = 1 / 4"
proof -
  show "fl64 0 = 0" "fl64 1 = 1" using fl64_of_int [of 0] fl64_of_int [of 1] by simp_all
  have "two_to (- 1) = 1 / 2" "two_to (- 2) = 1 / 4" by (simp_all add: power_int_def power_divide)
  moreover have "fl64 (two_to (- 1)) = two_to (- 1)" "fl64 (two_to (- 2)) = two_to (- 2)"
    unfolding fl64_def by (rule fl_exact [OF in_format_two_to]; simp)+
  ultimately show "fl64 (1 / 2) = 1 / 2" "fl64 (1 / 4) = 1 / 4" by (simp_all only:)
qed

lemma fl64_error_unit: assumes "0 \<le> x" "x \<le> 1" shows "\<bar>fl64 x - x\<bar> \<le> 1 / 2 ^ 54"
proof -
  have "two_to (0 - 53 - 1) = 1 / 2 ^ 54" by (simp add: power_int_def power_divide)
  then show ?thesis using fl_error_below [of x 0 53 "- 1074"] assms by (simp add: fl64_def)
qed

end
