(* ===== verification/StdMap.thy ===== *)
theory StdMap
  imports Prelude
begin

text \<open>
  \<^verbatim>\<open>std::map\<close> with a comparator, as the configuration uses it three times: screen and alias names under
  \<^verbatim>\<open>CaselessCmp\<close>, links under the order of \<^verbatim>\<open>CellEdge\<close>, options under the order of their ids. A map is the
  list of its entries in iteration order. The operations take the comparator; two keys that neither is
  less than the other are the same key. The locale \<open>strict_weak_order\<close> is what the standard requires
  of a comparator, and the laws of the map are proved in it.
\<close>

subsection \<open>Operations\<close>

definition sm_equiv :: "('k \<Rightarrow> 'k \<Rightarrow> bool) \<Rightarrow> 'k \<Rightarrow> 'k \<Rightarrow> bool" where
  "sm_equiv lt a b \<longleftrightarrow> \<not> lt a b \<and> \<not> lt b a"

fun sm_find :: "('k \<Rightarrow> 'k \<Rightarrow> bool) \<Rightarrow> 'k \<Rightarrow> ('k \<times> 'v) list \<Rightarrow> ('k \<times> 'v) option" where
  "sm_find lt k [] = None"
| "sm_find lt k ((j, v) # m) = (if sm_equiv lt k j then Some (j, v) else sm_find lt k m)"

text \<open>\<^verbatim>\<open>insert\<close> leaves an entry that is already there as it is.\<close>

fun sm_insert :: "('k \<Rightarrow> 'k \<Rightarrow> bool) \<Rightarrow> 'k \<Rightarrow> 'v \<Rightarrow> ('k \<times> 'v) list \<Rightarrow> ('k \<times> 'v) list" where
  "sm_insert lt k v [] = [(k, v)]"
| "sm_insert lt k v ((j, w) # m) =
     (if lt k j then (k, v) # (j, w) # m
      else if lt j k then (j, w) # sm_insert lt k v m
      else (j, w) # m)"

definition sm_erase :: "('k \<Rightarrow> 'k \<Rightarrow> bool) \<Rightarrow> 'k \<Rightarrow> ('k \<times> 'v) list \<Rightarrow> ('k \<times> 'v) list" where
  "sm_erase lt k m = filter (\<lambda>(j, _). \<not> sm_equiv lt k j) m"

text \<open>A change of the value that \<^verbatim>\<open>find\<close> points to.\<close>

fun sm_update :: "('k \<Rightarrow> 'k \<Rightarrow> bool) \<Rightarrow> 'k \<Rightarrow> ('v \<Rightarrow> 'v) \<Rightarrow> ('k \<times> 'v) list \<Rightarrow> ('k \<times> 'v) list" where
  "sm_update lt k f [] = []"
| "sm_update lt k f ((j, v) # m) =
     (if sm_equiv lt k j then (j, f v) # m else (j, v) # sm_update lt k f m)"

text \<open>\<^verbatim>\<open>upper_bound\<close>: the entries before the iterator and those from it on.\<close>

definition sm_below :: "('k \<Rightarrow> 'k \<Rightarrow> bool) \<Rightarrow> 'k \<Rightarrow> ('k \<times> 'v) list \<Rightarrow> ('k \<times> 'v) list" where
  "sm_below lt k m = takeWhile (\<lambda>(j, _). \<not> lt k j) m"

definition sm_above :: "('k \<Rightarrow> 'k \<Rightarrow> bool) \<Rightarrow> 'k \<Rightarrow> ('k \<times> 'v) list \<Rightarrow> ('k \<times> 'v) list" where
  "sm_above lt k m = dropWhile (\<lambda>(j, _). \<not> lt k j) m"

definition sm_wf :: "('k \<Rightarrow> 'k \<Rightarrow> bool) \<Rightarrow> ('k \<times> 'v) list \<Rightarrow> bool" where
  "sm_wf lt m \<longleftrightarrow> sorted_wrt lt (map fst m)"

lemma sm_wf_simps [simp]:
  "sm_wf lt []"
  "sm_wf lt ((k, v) # m) \<longleftrightarrow> (\<forall>j \<in> set (map fst m). lt k j) \<and> sm_wf lt m"
  by (simp_all add: sm_wf_def)

lemma sm_below_above: "sm_below lt k m @ sm_above lt k m = m"
  by (simp add: sm_below_def sm_above_def)

lemma sm_find_member: "sm_find lt k m = Some (j, v) \<Longrightarrow> (j, v) \<in> set m \<and> sm_equiv lt k j"
  by (induction m) (auto split: if_splits)

lemma sm_find_None: "sm_find lt k m = None \<longleftrightarrow> (\<forall>(j, v) \<in> set m. \<not> sm_equiv lt k j)"
  by (induction m) (auto split: if_splits)

lemma map_fst_update [simp]: "map fst (sm_update lt k f m) = map fst m"
  by (induction m) auto

lemma sm_wf_keys: "map fst m = map fst m' \<Longrightarrow> sm_wf lt m \<longleftrightarrow> sm_wf lt m'"
  by (simp add: sm_wf_def)

lemma sm_wf_update [simp]: "sm_wf lt (sm_update lt k f m) = sm_wf lt m"
  by (rule sm_wf_keys) simp

lemma sm_wf_erase: "sm_wf lt m \<Longrightarrow> sm_wf lt (sm_erase lt k m)"
  by (induction m) (auto simp: sm_erase_def)

lemma sm_wf_filter: "sm_wf lt m \<Longrightarrow> sm_wf lt (filter P m)"
  by (induction m) auto

lemma sm_erase_set: "set (sm_erase lt k m) = {(j, v) \<in> set m. \<not> sm_equiv lt k j}"
  by (auto simp: sm_erase_def)

subsection \<open>The comparator and the laws of the map\<close>

locale strict_weak_order =
  fixes lt :: "'k \<Rightarrow> 'k \<Rightarrow> bool"
  assumes less_irrefl: "\<not> lt a a"
    and less_trans: "lt a b \<Longrightarrow> lt b c \<Longrightarrow> lt a c"
    and equiv_trans: "\<not> lt a b \<Longrightarrow> \<not> lt b a \<Longrightarrow> \<not> lt b c \<Longrightarrow> \<not> lt c b \<Longrightarrow> \<not> lt a c \<and> \<not> lt c a"
begin

lemma equiv_refl [simp]: "sm_equiv lt a a"
  by (simp add: sm_equiv_def less_irrefl)

lemma equiv_sym: "sm_equiv lt a b \<Longrightarrow> sm_equiv lt b a"
  by (simp add: sm_equiv_def)

lemma equiv_trans': "sm_equiv lt a b \<Longrightarrow> sm_equiv lt b c \<Longrightarrow> sm_equiv lt a c"
  unfolding sm_equiv_def using equiv_trans [of a b c] by blast

lemma less_asym: "lt a b \<Longrightarrow> \<not> lt b a"
  using less_irrefl less_trans by blast

lemma equiv_less: "sm_equiv lt a b \<Longrightarrow> lt b c \<Longrightarrow> lt a c"
proof (rule ccontr)
  assume a: "sm_equiv lt a b" "lt b c" "\<not> lt a c"
  then have "\<not> lt c a" using less_trans [of b c a] by (auto simp: sm_equiv_def)
  then have "sm_equiv lt a c" using a(3) by (simp add: sm_equiv_def)
  from equiv_trans' [OF equiv_sym [OF a(1)] this] a(2) show False by (simp add: sm_equiv_def)
qed

lemma less_equiv: "lt a b \<Longrightarrow> sm_equiv lt b c \<Longrightarrow> lt a c"
proof (rule ccontr)
  assume a: "lt a b" "sm_equiv lt b c" "\<not> lt a c"
  then have "\<not> lt c a" using less_trans [of c a b] by (auto simp: sm_equiv_def)
  then have "sm_equiv lt a c" using a(3) by (simp add: sm_equiv_def)
  from equiv_trans' [OF this equiv_sym [OF a(2)]] a(1) show False by (simp add: sm_equiv_def)
qed

lemma equiv_iff: "sm_equiv lt a b \<Longrightarrow> sm_equiv lt c a \<longleftrightarrow> sm_equiv lt c b"
  using equiv_sym equiv_trans' by blast

lemma find_equiv: "sm_equiv lt a b \<Longrightarrow> sm_find lt a m = sm_find lt b m"
proof (induction m)
  case (Cons p m)
  obtain j v where p: "p = (j, v)" by force
  have "sm_equiv lt a j \<longleftrightarrow> sm_equiv lt b j" using Cons.prems equiv_sym equiv_trans' by blast
  then show ?case using Cons p by simp
qed simp

lemma set_insert: "set (sm_insert lt k v m) \<subseteq> insert (k, v) (set m)"
  by (induction m) (auto split: if_splits)

lemma set_insert_new: "sm_find lt k m = None \<Longrightarrow> set (sm_insert lt k v m) = insert (k, v) (set m)"
  by (induction m) (auto simp: sm_equiv_def split: if_splits)

lemma wf_insert: "sm_wf lt m \<Longrightarrow> sm_wf lt (sm_insert lt k v m)"
proof (induction m)
  case (Cons p m)
  obtain j w where p: "p = (j, w)" by force
  consider "lt k j" | "\<not> lt k j" "lt j k" | "\<not> lt k j" "\<not> lt j k" by blast
  then show ?case
  proof cases
    case 1
    then show ?thesis using Cons p less_trans by fastforce
  next
    case 2
    have "\<forall>i \<in> set (map fst (sm_insert lt k v m)). lt j i"
      using set_insert [of k v m] 2 Cons.prems p by fastforce
    then show ?thesis using Cons p 2 by simp
  next
    case 3
    then show ?thesis using Cons p by simp
  qed
qed simp

lemma find_insert:
  assumes "sm_wf lt m"
  shows "sm_find lt i (sm_insert lt k v m) =
    (if sm_equiv lt i k then (case sm_find lt k m of None \<Rightarrow> Some (k, v) | Some e \<Rightarrow> Some e)
     else sm_find lt i m)"
  using assms
proof (induction m)
  case (Cons p m)
  obtain j w where p: "p = (j, w)" by force
  consider (lt) "lt k j" | (gt) "\<not> lt k j" "lt j k" | (eq) "sm_equiv lt k j"
    by (auto simp: sm_equiv_def)
  then show ?case
  proof cases
    case lt
    have "\<forall>(a, b) \<in> set ((j, w) # m). lt k a" using Cons.prems p lt less_trans by fastforce
    then have "sm_find lt k ((j, w) # m) = None" by (auto simp: sm_find_None sm_equiv_def)
    then show ?thesis using lt p by simp
  next
    case gt
    then have "\<not> sm_equiv lt k j" by (simp add: sm_equiv_def)
    moreover have "sm_equiv lt i k \<Longrightarrow> \<not> sm_equiv lt i j"
      using calculation equiv_sym equiv_trans' by blast
    ultimately show ?thesis using gt p Cons by simp
  next
    case eq
    then have "sm_equiv lt i j \<longleftrightarrow> sm_equiv lt i k" using equiv_sym equiv_trans' by blast
    then show ?thesis using eq p by (auto simp: sm_equiv_def)
  qed
qed simp

lemma find_erase: "sm_find lt i (sm_erase lt k m) = (if sm_equiv lt i k then None else sm_find lt i m)"
proof (induction m)
  case (Cons p m)
  obtain j w where p: "p = (j, w)" by force
  have "sm_equiv lt i k \<Longrightarrow> sm_equiv lt i j \<longleftrightarrow> sm_equiv lt k j" using equiv_sym equiv_trans' by blast
  moreover have "sm_equiv lt k j \<Longrightarrow> sm_equiv lt i j \<longleftrightarrow> sm_equiv lt i k"
    using equiv_sym equiv_trans' by blast
  ultimately show ?case using Cons p by (auto simp: sm_erase_def)
qed (simp add: sm_erase_def)

lemma find_update:
  "sm_find lt i (sm_update lt k f m) =
    (case sm_find lt i m of None \<Rightarrow> None
     | Some (j, v) \<Rightarrow> Some (j, if sm_equiv lt i k then f v else v))"
proof (induction m)
  case (Cons p m)
  obtain j w where p: "p = (j, w)" by force
  have "sm_equiv lt k j \<Longrightarrow> sm_equiv lt i j \<longleftrightarrow> sm_equiv lt i k"
    using equiv_sym equiv_trans' by blast
  moreover have "sm_equiv lt i k \<Longrightarrow> sm_equiv lt i j \<longleftrightarrow> sm_equiv lt k j" using equiv_sym equiv_trans' by blast
  ultimately show ?case using Cons p by (auto split: option.splits)
qed simp

lemma find_member: "sm_wf lt m \<Longrightarrow> (j, v) \<in> set m \<Longrightarrow> sm_equiv lt k j \<Longrightarrow> sm_find lt k m = Some (j, v)"
proof (induction m)
  case (Cons p m)
  obtain i w where p: "p = (i, w)" by force
  show ?case
  proof (cases "(j, v) = (i, w)")
    case True
    then show ?thesis using Cons.prems p by simp
  next
    case False
    then have m: "(j, v) \<in> set m" using Cons.prems p by auto
    then have "lt i j" using Cons.prems(1) p by force
    then have "\<not> sm_equiv lt k i" using Cons.prems(3) equiv_less less_irrefl
      by (metis equiv_sym less_equiv)
    then show ?thesis using Cons m p by simp
  qed
qed simp

lemma below_less: "(j, v) \<in> set (sm_below lt k m) \<Longrightarrow> \<not> lt k j"
  unfolding sm_below_def by (drule set_takeWhileD) simp

lemma above_less: "sm_wf lt m \<Longrightarrow> (j, v) \<in> set (sm_above lt k m) \<Longrightarrow> lt k j"
proof (induction m)
  case (Cons p m)
  then show ?case by (cases p) (fastforce simp: sm_above_def split: if_splits intro: less_trans)
qed (simp add: sm_above_def)

end

end
