(* ===== verification/Config.thy ===== *)
theory Config
  imports FloatArith StdMap Strings
begin

text \<open>
  The server configuration of \<^verbatim>\<open>src/lib/server/Config.cpp\<close>: screens and their aliases, the links between
  screen edges, and options. The theory models \<^verbatim>\<open>Config::CellEdge\<close>, \<^verbatim>\<open>Config::Cell\<close>, \<^verbatim>\<open>Config::Name\<close> and
  the operations of \<^verbatim>\<open>Config\<close>.
  Positions along an edge are \<^verbatim>\<open>float\<close> in the code. A position is the rational number that the float stands for, and
  every subtraction, product, quotient and sum of \<open>transform\<close> and \<open>inverseTransform\<close> is rounded to single
  precision. The listen address and the input filter rules are type parameters, because the operations
  only store and compare them.
\<close>

subsection \<open>Edges\<close>

datatype EDirection = kNoDirection | kLeft | kRight | kTop | kBottom

fun dir_number :: "EDirection \<Rightarrow> nat" where
  "dir_number kNoDirection = 0"
| "dir_number kLeft = 1"
| "dir_number kRight = 2"
| "dir_number kTop = 3"
| "dir_number kBottom = 4"

record cell_edge =
  ce_name :: string
  ce_side :: EDirection
  ce_first :: rat
  ce_second :: rat

text \<open>The constructors; \<open>None\<close> is a failed assertion.\<close>

definition CellEdge_at :: "EDirection \<Rightarrow> rat \<Rightarrow> cell_edge option" where
  "CellEdge_at side position =
     (if side = kNoDirection then None
      else Some \<lparr>ce_name = [], ce_side = side, ce_first = position, ce_second = position\<rparr>)"

definition CellEdge_named :: "string \<Rightarrow> EDirection \<Rightarrow> rat \<Rightarrow> rat \<Rightarrow> cell_edge option" where
  "CellEdge_named name side a b =
     (if 0 \<le> a \<and> b \<le> 1 \<and> a < b \<and> side \<noteq> kNoDirection
      then Some \<lparr>ce_name = name, ce_side = side, ce_first = a, ce_second = b\<rparr> else None)"

definition CellEdge_new :: "EDirection \<Rightarrow> rat \<Rightarrow> rat \<Rightarrow> cell_edge option" where
  "CellEdge_new side a b = CellEdge_named [] side a b"

definition edge_overlaps :: "cell_edge \<Rightarrow> cell_edge \<Rightarrow> bool" where
  "edge_overlaps x y \<longleftrightarrow> ce_side x = ce_side y \<and>
     (ce_first x \<ge> ce_first y \<and> ce_first x < ce_second y \<or>
      ce_second x > ce_first y \<and> ce_second x \<le> ce_second y \<or>
      ce_first y \<ge> ce_first x \<and> ce_first y < ce_second x \<or>
      ce_second y > ce_first x \<and> ce_second y \<le> ce_second x)"

definition isInside :: "cell_edge \<Rightarrow> rat \<Rightarrow> bool" where
  "isInside e x \<longleftrightarrow> ce_first e \<le> x \<and> x < ce_second e"

definition transform :: "cell_edge \<Rightarrow> rat \<Rightarrow> rat" where
  "transform e x = fl32 (fl32 (x - ce_first e) / fl32 (ce_second e - ce_first e))"

definition inverseTransform :: "cell_edge \<Rightarrow> rat \<Rightarrow> rat" where
  "inverseTransform e x = fl32 (fl32 (x * fl32 (ce_second e - ce_first e)) + ce_first e)"

definition edge_less :: "cell_edge \<Rightarrow> cell_edge \<Rightarrow> bool" where
  "edge_less x y =
     (if dir_number (ce_side x) < dir_number (ce_side y) then True
      else if dir_number (ce_side x) > dir_number (ce_side y) then False
      else ce_first x < ce_first y)"

definition edge_eq :: "cell_edge \<Rightarrow> cell_edge \<Rightarrow> bool" where
  "edge_eq x y \<longleftrightarrow> ce_side x = ce_side y \<and> ce_first x = ce_first y \<and> ce_second x = ce_second y"

subsection \<open>Cells\<close>

type_synonym screen_options = "(nat \<times> int) list"

record cell =
  m_neighbors :: "(cell_edge \<times> cell_edge) list"
  m_options :: screen_options

definition cell_new :: cell where
  "cell_new = \<lparr>m_neighbors = [], m_options = []\<rparr>"

definition hasEdge :: "cell \<Rightarrow> cell_edge \<Rightarrow> bool" where
  "hasEdge c e =
     (case sm_find edge_less e (m_neighbors c) of None \<Rightarrow> False | Some (k, _) \<Rightarrow> edge_eq k e)"

definition cell_overlaps :: "cell \<Rightarrow> cell_edge \<Rightarrow> bool" where
  "cell_overlaps c e =
     (let below = sm_below edge_less e (m_neighbors c); above = sm_above edge_less e (m_neighbors c) in
      if above \<noteq> [] \<and> edge_overlaps (fst (hd above)) e then True
      else if below \<noteq> [] \<and> edge_overlaps (fst (last below)) e then True
      else False)"

definition cell_add :: "cell \<Rightarrow> cell_edge \<Rightarrow> cell_edge \<Rightarrow> bool \<times> cell" where
  "cell_add c src dst =
     (if \<not> hasEdge c src \<and> cell_overlaps c src then (False, c)
      else (True, c\<lparr>m_neighbors := sm_insert edge_less src dst (sm_erase edge_less src (m_neighbors c))\<rparr>))"

definition cell_remove_side :: "cell \<Rightarrow> EDirection \<Rightarrow> cell" where
  "cell_remove_side c side = c\<lparr>m_neighbors := filter (\<lambda>(k, _). ce_side k \<noteq> side) (m_neighbors c)\<rparr>"

fun remove_first_at :: "EDirection \<Rightarrow> rat \<Rightarrow> (cell_edge \<times> cell_edge) list \<Rightarrow> (cell_edge \<times> cell_edge) list" where
  "remove_first_at side position [] = []"
| "remove_first_at side position ((k, v) # m) =
     (if ce_side k = side \<and> isInside k position then m else (k, v) # remove_first_at side position m)"

definition cell_remove_at :: "cell \<Rightarrow> EDirection \<Rightarrow> rat \<Rightarrow> cell" where
  "cell_remove_at c side position = c\<lparr>m_neighbors := remove_first_at side position (m_neighbors c)\<rparr>"

text \<open>The name comparison of \<^verbatim>\<open>Config::Name\<close> is passed in as a predicate.\<close>

definition cell_remove_name :: "cell \<Rightarrow> (string \<Rightarrow> bool) \<Rightarrow> cell" where
  "cell_remove_name c nm = c\<lparr>m_neighbors := filter (\<lambda>(_, v). \<not> nm (ce_name v)) (m_neighbors c)\<rparr>"

definition cell_rename :: "cell \<Rightarrow> (string \<Rightarrow> bool) \<Rightarrow> string \<Rightarrow> cell" where
  "cell_rename c nm newName =
     c\<lparr>m_neighbors := map (\<lambda>(k, v). (k, if nm (ce_name v) then v\<lparr>ce_name := newName\<rparr> else v)) (m_neighbors c)\<rparr>"

definition getLink :: "cell \<Rightarrow> EDirection \<Rightarrow> rat \<Rightarrow> (cell_edge \<times> cell_edge) option" where
  "getLink c side position =
     (case CellEdge_at side position of
        None \<Rightarrow> None
      | Some e \<Rightarrow>
          (let below = sm_below edge_less e (m_neighbors c) in
           if below = [] then None
           else let (k, v) = last below in
                if ce_side k = side \<and> isInside k position then Some (k, v) else None))"

definition cell_eq :: "cell \<Rightarrow> cell \<Rightarrow> bool" where
  "cell_eq c d \<longleftrightarrow>
     m_options c = m_options d \<and> length (m_neighbors c) = length (m_neighbors d) \<and>
     list_all2 (\<lambda>(k, v) (l, w). edge_eq k l \<and> edge_eq v w \<and> caseless_equal (ce_name v) (ce_name w))
       (m_neighbors c) (m_neighbors d)"

subsection \<open>The configuration\<close>

record ('a, 'r) config =
  cfg_map :: "(string \<times> cell) list"
  cfg_names :: "(string \<times> string) list"
  cfg_listen_address :: 'a
  cfg_globalOptions :: screen_options
  cfg_rules :: "'r list"
  cfg_hasLockToScreenAction :: bool

definition Config_new :: "'a \<Rightarrow> ('a, 'r) config" where
  "Config_new addr = \<lparr>cfg_map = [], cfg_names = [], cfg_listen_address = addr, cfg_globalOptions = [],
     cfg_rules = [], cfg_hasLockToScreenAction = False\<rparr>"

abbreviation find_screen :: "('a, 'r) config \<Rightarrow> string \<Rightarrow> (string \<times> cell) option" where
  "find_screen c n \<equiv> sm_find caseless_less n (cfg_map c)"

abbreviation find_name :: "('a, 'r) config \<Rightarrow> string \<Rightarrow> (string \<times> string) option" where
  "find_name c n \<equiv> sm_find caseless_less n (cfg_names c)"

definition getCanonicalName :: "('a, 'r) config \<Rightarrow> string \<Rightarrow> string" where
  "getCanonicalName c name = (case find_name c name of None \<Rightarrow> [] | Some (_, canonical) \<Rightarrow> canonical)"

definition isScreen :: "('a, 'r) config \<Rightarrow> string \<Rightarrow> bool" where
  "isScreen c name \<longleftrightarrow> find_name c name \<noteq> None"

definition isCanonicalName :: "('a, 'r) config \<Rightarrow> string \<Rightarrow> bool" where
  "isCanonicalName c name \<longleftrightarrow> name \<noteq> [] \<and> caseless_equal (getCanonicalName c name) name"

text \<open>\<^verbatim>\<open>Config::Name\<close>: the canonical form of a name is fixed when the object is made.\<close>

definition Name_new :: "('a, 'r) config \<Rightarrow> string \<Rightarrow> string" where
  "Name_new c name = getCanonicalName c name"

definition Name_eq :: "('a, 'r) config \<Rightarrow> string \<Rightarrow> string \<Rightarrow> bool" where
  "Name_eq c m_name name \<longleftrightarrow> caseless_equal (getCanonicalName c name) m_name"

definition addScreen :: "('a, 'r) config \<Rightarrow> string \<Rightarrow> bool \<times> ('a, 'r) config" where
  "addScreen c name =
     (if find_name c name \<noteq> None then (False, c)
      else (True, c\<lparr>cfg_map := sm_insert caseless_less name cell_new (cfg_map c),
                    cfg_names := sm_insert caseless_less name name (cfg_names c)\<rparr>))"

definition renameScreen :: "('a, 'r) config \<Rightarrow> string \<Rightarrow> string \<Rightarrow> bool \<times> ('a, 'r) config" where
  "renameScreen c oldName newName =
     (let oldCanonical = getCanonicalName c oldName in
      case find_screen c oldCanonical of
        None \<Rightarrow> (False, c)
      | Some (_, tmpCell) \<Rightarrow>
          (if \<not> caseless_equal oldName newName \<and> find_name c newName \<noteq> None then (False, c)
           else
             let c1 = c\<lparr>cfg_map := sm_insert caseless_less newName tmpCell
                                     (sm_erase caseless_less oldCanonical (cfg_map c)),
                        cfg_names := sm_insert caseless_less newName newName
                                       (sm_erase caseless_less oldCanonical (cfg_names c))\<rparr>;
                 oldNameObj = Name_new c1 oldName;
                 c2 = c1\<lparr>cfg_map := map (\<lambda>(n, cl). (n, cell_rename cl (Name_eq c1 oldNameObj) newName)) (cfg_map c1)\<rparr>;
                 c3 = (if caseless_equal oldName oldCanonical
                       then c2\<lparr>cfg_names := map (\<lambda>(n, t). (n, if caseless_equal t oldCanonical then newName else t))
                                              (cfg_names c2)\<rparr>
                       else c2)
             in (True, c3)))"

text \<open>
  The loop of \<^verbatim>\<open>removeScreen\<close> over the names advances the wrong iterator when it meets a name of another
  screen: \<^verbatim>\<open>index\<close> is already past the end of the other map, and \<^verbatim>\<open>iter\<close> stays where it is. \<open>None\<close> is that
  undefined behaviour.
\<close>

fun removeScreen_names :: "string \<Rightarrow> (string \<times> string) list \<Rightarrow> (string \<times> string) list option" where
  "removeScreen_names canonical [] = Some []"
| "removeScreen_names canonical ((n, t) # m) =
     (if t = canonical then removeScreen_names canonical m else None)"

definition removeScreen :: "('a, 'r) config \<Rightarrow> string \<Rightarrow> ('a, 'r) config option" where
  "removeScreen c name =
     (let canonical = getCanonicalName c name in
      case find_screen c canonical of
        None \<Rightarrow> Some c
      | Some _ \<Rightarrow>
          (let c1 = c\<lparr>cfg_map := sm_erase caseless_less canonical (cfg_map c)\<rparr>;
               nameObj = Name_new c1 name;
               c2 = c1\<lparr>cfg_map := map (\<lambda>(n, cl). (n, cell_remove_name cl (Name_eq c1 nameObj))) (cfg_map c1)\<rparr>
           in case removeScreen_names canonical (cfg_names c2) of
                None \<Rightarrow> None
              | Some names \<Rightarrow> Some (c2\<lparr>cfg_names := names\<rparr>)))"

definition removeAllScreens :: "('a, 'r) config \<Rightarrow> ('a, 'r) config" where
  "removeAllScreens c = c\<lparr>cfg_map := [], cfg_names := []\<rparr>"

definition addAlias :: "('a, 'r) config \<Rightarrow> string \<Rightarrow> string \<Rightarrow> bool \<times> ('a, 'r) config" where
  "addAlias c canonical alias =
     (if find_name c alias \<noteq> None then (False, c)
      else if find_screen c canonical = None then (False, c)
      else (True, c\<lparr>cfg_names := sm_insert caseless_less alias canonical (cfg_names c)\<rparr>))"

definition removeAlias :: "('a, 'r) config \<Rightarrow> string \<Rightarrow> bool \<times> ('a, 'r) config" where
  "removeAlias c alias =
     (if find_screen c alias \<noteq> None then (False, c)
      else if find_name c alias = None then (False, c)
      else (True, c\<lparr>cfg_names := sm_erase caseless_less alias (cfg_names c)\<rparr>))"

definition removeAliases :: "('a, 'r) config \<Rightarrow> string \<Rightarrow> bool \<times> ('a, 'r) config" where
  "removeAliases c canonical =
     (if find_screen c canonical = None then (False, c)
      else (True, c\<lparr>cfg_names := filter (\<lambda>(n, t). \<not> (t = canonical \<and> n \<noteq> canonical)) (cfg_names c)\<rparr>))"

definition removeAllAliases :: "('a, 'r) config \<Rightarrow> ('a, 'r) config" where
  "removeAllAliases c =
     c\<lparr>cfg_names := foldl (\<lambda>m (n, _). sm_insert caseless_less n n m) [] (cfg_map c)\<rparr>"

text \<open>\<open>None\<close> is a failed assertion about the side or an interval.\<close>

definition connect :: "('a, 'r) config \<Rightarrow> string \<Rightarrow> EDirection \<Rightarrow> rat \<Rightarrow> rat \<Rightarrow> string \<Rightarrow> rat \<Rightarrow> rat \<Rightarrow>
    (bool \<times> ('a, 'r) config) option" where
  "connect c srcName srcSide srcStart srcEnd dstName dstStart dstEnd =
     (if srcSide = kNoDirection then None
      else case find_screen c (getCanonicalName c srcName) of
        None \<Rightarrow> Some (False, c)
      | Some (_, cl) \<Rightarrow>
          (case (CellEdge_new srcSide srcStart srcEnd, CellEdge_named dstName srcSide dstStart dstEnd) of
             (Some src, Some dst) \<Rightarrow>
               (let (ok, cl') = cell_add cl src dst
                in Some (ok, c\<lparr>cfg_map := sm_update caseless_less (getCanonicalName c srcName) (\<lambda>_. cl') (cfg_map c)\<rparr>))
           | _ \<Rightarrow> None))"

definition disconnect_side :: "('a, 'r) config \<Rightarrow> string \<Rightarrow> EDirection \<Rightarrow> (bool \<times> ('a, 'r) config) option" where
  "disconnect_side c srcName srcSide =
     (if srcSide = kNoDirection then None
      else case find_screen c srcName of
        None \<Rightarrow> Some (False, c)
      | Some _ \<Rightarrow>
          Some (True, c\<lparr>cfg_map := sm_update caseless_less srcName (\<lambda>cl. cell_remove_side cl srcSide) (cfg_map c)\<rparr>))"

definition disconnect_at :: "('a, 'r) config \<Rightarrow> string \<Rightarrow> EDirection \<Rightarrow> rat \<Rightarrow> (bool \<times> ('a, 'r) config) option" where
  "disconnect_at c srcName srcSide position =
     (if srcSide = kNoDirection then None
      else case find_screen c srcName of
        None \<Rightarrow> Some (False, c)
      | Some _ \<Rightarrow>
          Some (True, c\<lparr>cfg_map := sm_update caseless_less srcName (\<lambda>cl. cell_remove_at cl srcSide position) (cfg_map c)\<rparr>))"

definition set_listen_address :: "('a, 'r) config \<Rightarrow> 'a \<Rightarrow> ('a, 'r) config" where
  "set_listen_address c addr = c\<lparr>cfg_listen_address := addr\<rparr>"

text \<open>The options of a screen, or the global ones for the empty name, replaced by \<open>f\<close>.\<close>

definition on_options :: "('a, 'r) config \<Rightarrow> string \<Rightarrow> (screen_options \<Rightarrow> screen_options) \<Rightarrow> bool \<times> ('a, 'r) config" where
  "on_options c name f =
     (if name = [] then (True, c\<lparr>cfg_globalOptions := f (cfg_globalOptions c)\<rparr>)
      else if find_screen c name = None then (False, c)
      else (True, c\<lparr>cfg_map := sm_update caseless_less name (\<lambda>cl. cl\<lparr>m_options := f (m_options cl)\<rparr>) (cfg_map c)\<rparr>))"

definition addOption :: "('a, 'r) config \<Rightarrow> string \<Rightarrow> nat \<Rightarrow> int \<Rightarrow> bool \<times> ('a, 'r) config" where
  "addOption c name option value = on_options c name (sm_insert (<) option value)"

definition removeOption :: "('a, 'r) config \<Rightarrow> string \<Rightarrow> nat \<Rightarrow> bool \<times> ('a, 'r) config" where
  "removeOption c name option = on_options c name (sm_erase (<) option)"

definition removeOptions :: "('a, 'r) config \<Rightarrow> string \<Rightarrow> bool \<times> ('a, 'r) config" where
  "removeOptions c name = on_options c name (\<lambda>_. [])"

definition getOptions :: "('a, 'r) config \<Rightarrow> string \<Rightarrow> screen_options option" where
  "getOptions c name =
     (if name = [] then Some (cfg_globalOptions c)
      else map_option (\<lambda>(_, cl). m_options cl) (find_screen c name))"

text \<open>The neighbour and the position on it; the name is empty when there is none.\<close>

definition getNeighbor :: "('a, 'r) config \<Rightarrow> string \<Rightarrow> EDirection \<Rightarrow> rat \<Rightarrow> string \<times> rat option" where
  "getNeighbor c srcName srcSide position =
     (case find_screen c (getCanonicalName c srcName) of
        None \<Rightarrow> ([], None)
      | Some (_, cl) \<Rightarrow>
          (case getLink cl srcSide position of
             None \<Rightarrow> ([], None)
           | Some (src, dst) \<Rightarrow>
               (getCanonicalName c (ce_name dst), Some (inverseTransform dst (transform src position)))))"

definition hasNeighbor :: "('a, 'r) config \<Rightarrow> string \<Rightarrow> EDirection \<Rightarrow> rat \<Rightarrow> rat \<Rightarrow> bool option" where
  "hasNeighbor c srcName srcSide a b =
     (if srcSide = kNoDirection then None
      else case find_screen c (getCanonicalName c srcName) of
        None \<Rightarrow> Some False
      | Some (_, cl) \<Rightarrow> map_option (cell_overlaps cl) (CellEdge_new srcSide a b))"

definition Config_eq :: "('r list \<Rightarrow> 'r list \<Rightarrow> bool) \<Rightarrow> ('a, 'r) config \<Rightarrow> ('a, 'r) config \<Rightarrow> bool" where
  "Config_eq are_rules_equal c d \<longleftrightarrow>
     cfg_listen_address c = cfg_listen_address d \<and>
     length (cfg_map c) = length (cfg_map d) \<and> length (cfg_names c) = length (cfg_names d) \<and>
     cfg_globalOptions c = cfg_globalOptions d \<and>
     list_all2 (\<lambda>(n, x) (m, y). caseless_equal n m \<and> cell_eq x y) (cfg_map c) (cfg_map d) \<and>
     list_all2 (\<lambda>(n, x) (m, y). caseless_equal n m \<and> caseless_equal x y) (cfg_names c) (cfg_names d) \<and>
     are_rules_equal (cfg_rules c) (cfg_rules d)"

subsection \<open>Screen names\<close>

definition isalnum :: "char \<Rightarrow> bool" where
  "isalnum c \<longleftrightarrow> (let n = of_char c :: nat in
     48 \<le> n \<and> n \<le> 57 \<or> 65 \<le> n \<and> n \<le> 90 \<or> 97 \<le> n \<and> n \<le> 122)"

definition valid_part :: "string \<Rightarrow> bool" where
  "valid_part p \<longleftrightarrow> p \<noteq> [] \<and> (isalnum (hd p) \<or> hd p = CHR ''_'') \<and> (isalnum (last p) \<or> last p = CHR ''_'') \<and>
     (\<forall>x \<in> set p. isalnum x \<or> x = CHR ''_'' \<or> x = CHR ''-'')"

function valid_parts :: "string \<Rightarrow> bool" where
  "valid_parts s =
     (if s = [] then True
      else let part = takeWhile (\<lambda>x. x \<noteq> CHR ''.'') s; rest = dropWhile (\<lambda>x. x \<noteq> CHR ''.'') s in
           valid_part part \<and> (case rest of [] \<Rightarrow> True | _ # r \<Rightarrow> valid_parts r))"
  by pat_completeness auto
termination
proof (relation "measure length", goal_cases)
  case (2 s part rest x r)
  then have "x # r = dropWhile (\<lambda>x. x \<noteq> CHR ''.'') s" by simp
  then have "length (x # r) \<le> length s" by (metis length_dropWhile_le)
  then show ?case by simp
qed simp

declare valid_parts.simps [simp del]

definition isValidScreenName :: "string \<Rightarrow> bool" where
  "isValidScreenName name \<longleftrightarrow> name \<noteq> [] \<and> valid_parts name"

subsection \<open>The comparators\<close>

lemma caseless_equiv: "sm_equiv caseless_less a b \<longleftrightarrow> map tolower a = map tolower b"
  using caseless_equal_iff [of a b] by (simp add: sm_equiv_def caseless_equal_def)

lemma caseless_equal_equiv: "caseless_equal a b \<longleftrightarrow> sm_equiv caseless_less a b"
  by (simp add: caseless_equiv caseless_equal_iff)

interpretation nm: strict_weak_order caseless_less
proof unfold_locales
  show "\<not> caseless_less a b \<Longrightarrow> \<not> caseless_less b a \<Longrightarrow> \<not> caseless_less b c \<Longrightarrow> \<not> caseless_less c b \<Longrightarrow>
      \<not> caseless_less a c \<and> \<not> caseless_less c a" for a b c
    using caseless_equiv [of a b] caseless_equiv [of b c] caseless_equiv [of a c] by (simp add: sm_equiv_def)
qed (auto intro: caseless_less_irrefl [THEN notE] dest: caseless_less_trans)

lemma dir_number_inj: "dir_number a = dir_number b \<longleftrightarrow> a = b"
  by (cases a; cases b) auto

interpretation ed: strict_weak_order edge_less
  by unfold_locales (auto simp: edge_less_def split: if_splits)

interpretation op: strict_weak_order "(<) :: nat \<Rightarrow> nat \<Rightarrow> bool"
  by unfold_locales auto

lemma edge_equiv: "sm_equiv edge_less x y \<longleftrightarrow> ce_side x = ce_side y \<and> ce_first x = ce_first y"
  by (auto simp: sm_equiv_def edge_less_def dir_number_inj [symmetric] split: if_splits)

subsection \<open>Links that do not overlap\<close>

definition edge_valid :: "cell_edge \<Rightarrow> bool" where
  "edge_valid e \<longleftrightarrow> 0 \<le> ce_first e \<and> ce_first e < ce_second e \<and> ce_second e \<le> 1 \<and> ce_side e \<noteq> kNoDirection"

definition links_ok :: "(cell_edge \<times> cell_edge) list \<Rightarrow> bool" where
  "links_ok m \<longleftrightarrow> sm_wf edge_less m \<and> (\<forall>(k, v) \<in> set m. edge_valid k \<and> edge_valid v) \<and>
     (\<forall>p \<in> set m. \<forall>q \<in> set m. edge_overlaps (fst p) (fst q) \<longrightarrow> p = q)"

lemma overlaps_iff:
  "edge_valid x \<Longrightarrow> edge_valid y \<Longrightarrow>
     edge_overlaps x y \<longleftrightarrow> ce_side x = ce_side y \<and> ce_first x < ce_second y \<and> ce_first y < ce_second x"
  by (auto simp: edge_overlaps_def edge_valid_def)

lemma overlaps_sym: "edge_overlaps x y \<longleftrightarrow> edge_overlaps y x"
  by (auto simp: edge_overlaps_def)

lemma overlaps_cong:
  "edge_eq x y \<Longrightarrow> edge_overlaps x z \<longleftrightarrow> edge_overlaps y z"
  by (simp add: edge_overlaps_def edge_eq_def)

text \<open>Entries below the upper bound of an edge start no later on its side, entries above start later.\<close>

lemma edge_not_less: "\<not> edge_less e k \<longleftrightarrow>
    dir_number (ce_side k) < dir_number (ce_side e) \<or> ce_side k = ce_side e \<and> ce_first k \<le> ce_first e"
  by (auto simp: edge_less_def dir_number_inj [symmetric])

lemma edge_less_iff: "edge_less e k \<longleftrightarrow>
    dir_number (ce_side e) < dir_number (ce_side k) \<or> ce_side k = ce_side e \<and> ce_first e < ce_first k"
  by (auto simp: edge_less_def dir_number_inj [symmetric])

lemma last_below:
  assumes "sm_wf edge_less m" "(k, v) \<in> set (sm_below edge_less e m)"
  shows "\<exists>l w. last (sm_below edge_less e m) = (l, w) \<and> (l, w) \<in> set m \<and> \<not> edge_less e l \<and>
    ((l, w) = (k, v) \<or> edge_less k l)"
proof -
  let ?b = "sm_below edge_less e m"
  have ne: "?b \<noteq> []" using assms(2) by auto
  obtain bs l w where b: "?b = bs @ [(l, w)]" using ne by (metis append_butlast_last_id surj_pair)
  have "sm_wf edge_less (?b @ sm_above edge_less e m)" using assms(1) by (simp add: sm_below_above)
  then have "sorted_wrt edge_less (map fst ?b)" by (simp add: sm_wf_def sorted_wrt_append)
  then have "(l, w) = (k, v) \<or> edge_less k l" using assms(2) unfolding b by (auto simp: sorted_wrt_append)
  moreover have "(l, w) \<in> set m" using b sm_below_above [of edge_less e m] by (metis in_set_conv_decomp append_assoc append_Cons)
  moreover have "\<not> edge_less e l" using ed.below_less [of l w e m] b by simp
  ultimately show ?thesis using b by auto
qed

lemma hd_above:
  assumes "sm_wf edge_less m" "(k, v) \<in> set (sm_above edge_less e m)"
  shows "\<exists>h w rest. sm_above edge_less e m = (h, w) # rest \<and> (h, w) \<in> set m \<and> edge_less e h \<and>
    ((h, w) = (k, v) \<or> edge_less h k)"
proof -
  let ?a = "sm_above edge_less e m"
  obtain h w rest where a: "?a = (h, w) # rest" using assms(2) by (cases ?a) auto
  have "sm_wf edge_less (sm_below edge_less e m @ ?a)" using assms(1) by (simp add: sm_below_above)
  then have "sorted_wrt edge_less (map fst ?a)" by (simp add: sm_wf_def sorted_wrt_append)
  then have "(h, w) = (k, v) \<or> edge_less h k" using assms(2) unfolding a by auto
  moreover have "(h, w) \<in> set m" using a sm_below_above [of edge_less e m] by (metis in_set_conv_decomp)
  moreover have "edge_less e h" using ed.above_less [OF assms(1), of h w e] a by simp
  ultimately show ?thesis using a by auto
qed

lemma cell_overlaps_iff:
  assumes "links_ok (m_neighbors c)" "edge_valid e"
  shows "cell_overlaps c e \<longleftrightarrow> (\<exists>(k, v) \<in> set (m_neighbors c). edge_overlaps k e)"
proof
  let ?m = "m_neighbors c"
  have wf: "sm_wf edge_less ?m" and val: "\<And>k v. (k, v) \<in> set ?m \<Longrightarrow> edge_valid k"
    and sep: "\<And>p q. p \<in> set ?m \<Longrightarrow> q \<in> set ?m \<Longrightarrow> edge_overlaps (fst p) (fst q) \<Longrightarrow> p = q"
    using assms(1) by (auto simp: links_ok_def)
  assume "\<exists>(k, v) \<in> set ?m. edge_overlaps k e"
  then obtain k v where k: "(k, v) \<in> set ?m" "edge_overlaps k e" by auto
  have ke: "ce_side k = ce_side e" "ce_first k < ce_second e" "ce_first e < ce_second k"
    using overlaps_iff [OF val [OF k(1)] assms(2)] k(2) by auto
  have "(k, v) \<in> set (sm_below edge_less e ?m) \<or> (k, v) \<in> set (sm_above edge_less e ?m)"
    using k(1) sm_below_above [of edge_less e ?m] by (metis Un_iff set_append)
  then show "cell_overlaps c e"
  proof
    assume "(k, v) \<in> set (sm_below edge_less e ?m)"
    with last_below [OF wf] obtain l w where l: "last (sm_below edge_less e ?m) = (l, w)" "(l, w) \<in> set ?m"
        "\<not> edge_less e l" "(l, w) = (k, v) \<or> edge_less k l" by blast
    have "edge_overlaps l e"
    proof (cases "(l, w) = (k, v)")
      case False
      then have "ce_side l = ce_side k" "ce_first k < ce_first l" "ce_first l \<le> ce_first e"
        using l(3,4) ke(1) by (auto simp: edge_not_less edge_less_iff)
      then have "edge_overlaps l k"
        using ke(3) val [OF l(2)] val [OF k(1)] by (auto simp: overlaps_iff edge_valid_def)
      from sep [OF l(2) k(1)] this False show ?thesis by simp
    qed (use k in auto)
    then show ?thesis using l(1) \<open>(k, v) \<in> set (sm_below edge_less e ?m)\<close>
      by (auto simp: cell_overlaps_def Let_def)
  next
    assume "(k, v) \<in> set (sm_above edge_less e ?m)"
    with hd_above [OF wf] obtain h w rest where h: "sm_above edge_less e ?m = (h, w) # rest" "(h, w) \<in> set ?m"
        "edge_less e h" "(h, w) = (k, v) \<or> edge_less h k" by blast
    have hk: "ce_side h = ce_side e \<and> ce_first e < ce_first h \<and> ce_first h \<le> ce_first k"
    proof (cases "h = k")
      case True
      then show ?thesis using h(3) unfolding edge_less_iff True ke(1) by simp
    next
      case False
      then have "edge_less h k" using h(4) by simp
      then show ?thesis using h(3) unfolding edge_less_iff ke(1) by (elim disjE conjE) simp_all
    qed
    have vh: "ce_first h < ce_second h" using val [OF h(2)] by (simp add: edge_valid_def)
    have "ce_first h < ce_second e" "ce_first e < ce_second h"
      using hk ke(2) vh by linarith+
    then have "edge_overlaps h e" using hk by (simp add: overlaps_iff [OF val [OF h(2)] assms(2)])
    then show ?thesis using h(1) by (simp add: cell_overlaps_def Let_def)
  qed
next
  assume a: "cell_overlaps c e"
  have "set (sm_below edge_less e (m_neighbors c)) \<subseteq> set (m_neighbors c)"
    "set (sm_above edge_less e (m_neighbors c)) \<subseteq> set (m_neighbors c)"
    using sm_below_above [of edge_less e "m_neighbors c"] by (metis set_append Un_upper1, metis set_append Un_upper2)
  moreover from a have
    "sm_above edge_less e (m_neighbors c) \<noteq> [] \<and> edge_overlaps (fst (hd (sm_above edge_less e (m_neighbors c)))) e \<or>
     sm_below edge_less e (m_neighbors c) \<noteq> [] \<and> edge_overlaps (fst (last (sm_below edge_less e (m_neighbors c)))) e"
    by (auto simp: cell_overlaps_def Let_def split: if_splits)
  ultimately show "\<exists>(k, v) \<in> set (m_neighbors c). edge_overlaps k e"
    unfolding case_prod_beta by (meson hd_in_set last_in_set subsetD)
qed

lemma getLink_iff:
  assumes "links_ok (m_neighbors c)" "side \<noteq> kNoDirection"
  shows "getLink c side x = Some (k, v) \<longleftrightarrow> (k, v) \<in> set (m_neighbors c) \<and> ce_side k = side \<and> isInside k x"
proof
  let ?m = "m_neighbors c" and ?e = "\<lparr>ce_name = [], ce_side = side, ce_first = x, ce_second = x\<rparr>"
  have wf: "sm_wf edge_less ?m" and val: "\<And>k v. (k, v) \<in> set ?m \<Longrightarrow> edge_valid k"
    and sep: "\<And>p q. p \<in> set ?m \<Longrightarrow> q \<in> set ?m \<Longrightarrow> edge_overlaps (fst p) (fst q) \<Longrightarrow> p = q"
    using assms(1) by (auto simp: links_ok_def)
  have at: "CellEdge_at side x = Some ?e" using assms(2) by (simp add: CellEdge_at_def)
  assume k: "(k, v) \<in> set ?m \<and> ce_side k = side \<and> isInside k x"
  then have "\<not> edge_less ?e k" by (auto simp: edge_not_less isInside_def)
  then have "(k, v) \<notin> set (sm_above edge_less ?e ?m)" using ed.above_less [OF wf, of k v ?e] by blast
  then have b: "(k, v) \<in> set (sm_below edge_less ?e ?m)"
    using k sm_below_above [of edge_less ?e ?m] by (metis Un_iff set_append)
  with last_below [OF wf] obtain l w where l: "last (sm_below edge_less ?e ?m) = (l, w)" "(l, w) \<in> set ?m"
      "\<not> edge_less ?e l" "(l, w) = (k, v) \<or> edge_less k l" by blast
  have "(l, w) = (k, v)"
  proof (rule ccontr)
    assume ne: "(l, w) \<noteq> (k, v)"
    then have "ce_side l = ce_side k" "ce_first k < ce_first l" "ce_first l \<le> x"
      using l(3,4) k by (auto simp: edge_not_less edge_less_iff)
    then have "edge_overlaps l k"
      using k val [OF l(2)] val [of k v] by (auto simp: overlaps_iff edge_valid_def isInside_def)
    from sep [OF l(2), of "(k, v)"] this k ne show False by simp
  qed
  then show "getLink c side x = Some (k, v)" using l(1) b k by (auto simp: getLink_def at Let_def)
next
  let ?e = "\<lparr>ce_name = [], ce_side = side, ce_first = x, ce_second = x\<rparr>"
  have at: "CellEdge_at side x = Some ?e" using assms(2) by (simp add: CellEdge_at_def)
  assume a: "getLink c side x = Some (k, v)"
  have sub: "set (sm_below edge_less ?e (m_neighbors c)) \<subseteq> set (m_neighbors c)"
    using sm_below_above [of edge_less ?e "m_neighbors c"] by (metis set_append Un_upper1)
  have "sm_below edge_less ?e (m_neighbors c) \<noteq> []" "last (sm_below edge_less ?e (m_neighbors c)) = (k, v)"
    "ce_side k = side" "isInside k x"
    using a by (auto simp: getLink_def at Let_def split: if_splits prod.splits)
  then show "(k, v) \<in> set (m_neighbors c) \<and> ce_side k = side \<and> isInside k x"
    using sub last_in_set by (metis subsetD)
qed

lemma cell_add_ok:
  assumes "links_ok (m_neighbors c)" "edge_valid src" "edge_valid dst" "cell_add c src dst = (ok, c')"
  shows "links_ok (m_neighbors c')"
proof (cases ok)
  case False
  then show ?thesis using assms by (auto simp: cell_add_def split: if_splits)
next
  case True
  let ?m = "m_neighbors c" and ?e = "sm_erase edge_less src (m_neighbors c)"
  have c': "m_neighbors c' = sm_insert edge_less src dst ?e" and g: "hasEdge c src \<or> \<not> cell_overlaps c src"
    using assms(4) True by (auto simp: cell_add_def split: if_splits)
  have wf: "sm_wf edge_less ?e" using assms(1) by (auto simp: links_ok_def intro: sm_wf_erase)
  have none: "sm_find edge_less src ?e = None" by (simp add: ed.find_erase)
  have st: "set (m_neighbors c') = insert (src, dst) (set ?e)"
    unfolding c' by (rule ed.set_insert_new [OF none])
  have sep: "\<not> edge_overlaps (fst p) src" if p: "p \<in> set ?e" for p
  proof -
    have pm: "p \<in> set ?m" "\<not> sm_equiv edge_less src (fst p)" using p by (auto simp: sm_erase_set)
    show ?thesis
    proof (cases "cell_overlaps c src")
      case False
      then show ?thesis using cell_overlaps_iff [OF assms(1,2)] pm(1) by (auto simp: case_prod_beta)
    next
      case True
      then obtain k v where k: "(k, v) \<in> set ?m" "edge_eq k src"
        using g by (auto simp: hasEdge_def split: option.splits dest!: sm_find_member)
      have "edge_overlaps (fst p) src \<longleftrightarrow> edge_overlaps (fst p) k"
        using overlaps_cong [OF k(2), of "fst p"] overlaps_sym by metis
      moreover have "p \<noteq> (k, v)" using pm(2) k(2) by (auto simp: edge_equiv edge_eq_def)
      ultimately show ?thesis using assms(1) pm(1) k(1) by (fastforce simp: links_ok_def)
    qed
  qed
  have sub: "set ?e \<subseteq> set ?m" by (auto simp: sm_erase_set)
  have "sm_wf edge_less (m_neighbors c')" unfolding c' by (rule ed.wf_insert [OF wf])
  moreover have "\<forall>(k, v) \<in> set (m_neighbors c'). edge_valid k \<and> edge_valid v"
    using assms(1-3) sub st by (auto simp: links_ok_def)
  moreover have "\<forall>p \<in> set (m_neighbors c'). \<forall>q \<in> set (m_neighbors c'). edge_overlaps (fst p) (fst q) \<longrightarrow> p = q"
  proof (intro ballI impI)
    fix p q
    assume pq: "p \<in> set (m_neighbors c')" "q \<in> set (m_neighbors c')" "edge_overlaps (fst p) (fst q)"
    have old: "a = b" if "a \<in> set ?e" "b \<in> set ?e" "edge_overlaps (fst a) (fst b)" for a b
      using assms(1) that sub by (auto simp: links_ok_def)
    from pq(1,2) have "p = (src, dst) \<or> p \<in> set ?e" "q = (src, dst) \<or> q \<in> set ?e" by (simp_all add: st)
    then show "p = q" using pq(3) sep [of p] sep [of q] old [of p q] overlaps_sym [of src "fst q"] by auto
  qed
  ultimately show ?thesis by (simp add: links_ok_def)
qed

subsection \<open>Well-formed configurations\<close>

text \<open>
  Every screen is its own canonical name, every name leads to a screen, and the links of each screen do not
  overlap.
\<close>

definition cfg_inv :: "('a, 'r) config \<Rightarrow> bool" where
  "cfg_inv c \<longleftrightarrow> sm_wf caseless_less (cfg_map c) \<and> sm_wf caseless_less (cfg_names c) \<and>
     (\<forall>(n, cl) \<in> set (cfg_map c). links_ok (m_neighbors cl) \<and> (n, n) \<in> set (cfg_names c)) \<and>
     (\<forall>(n, t) \<in> set (cfg_names c). find_screen c t \<noteq> None)"

lemma cfg_invI:
  assumes "sm_wf caseless_less (cfg_map c)" "sm_wf caseless_less (cfg_names c)"
    and "\<And>n cl. (n, cl) \<in> set (cfg_map c) \<Longrightarrow> links_ok (m_neighbors cl)"
    and "\<And>n cl. (n, cl) \<in> set (cfg_map c) \<Longrightarrow> (n, n) \<in> set (cfg_names c)"
    and "\<And>n t. (n, t) \<in> set (cfg_names c) \<Longrightarrow> find_screen c t \<noteq> None"
  shows "cfg_inv c"
  using assms by (auto simp: cfg_inv_def)

lemma cfg_invD:
  assumes "cfg_inv c"
  shows "sm_wf caseless_less (cfg_map c)" "sm_wf caseless_less (cfg_names c)"
    and "(n, cl) \<in> set (cfg_map c) \<Longrightarrow> links_ok (m_neighbors cl)"
    and "(n, cl) \<in> set (cfg_map c) \<Longrightarrow> (n, n) \<in> set (cfg_names c)"
    and "(n, t) \<in> set (cfg_names c) \<Longrightarrow> find_screen c t \<noteq> None"
  using assms by (auto simp: cfg_inv_def)

lemma find_screen_known: "find_screen c t \<noteq> None \<longleftrightarrow> (\<exists>(n, cl) \<in> set (cfg_map c). sm_equiv caseless_less t n)"
  using sm_find_None [of caseless_less t "cfg_map c"] by auto

lemma Config_new_inv: "cfg_inv (Config_new a)"
  by (simp add: cfg_inv_def Config_new_def)

text \<open>A new screen does not occur among the screens when it does not occur among the names.\<close>

lemma screen_name_known: "cfg_inv c \<Longrightarrow> find_name c name = None \<Longrightarrow> find_screen c name = None"
  using cfg_invD(4) by (fastforce simp: sm_find_None)

lemma links_ok_new [simp]: "links_ok (m_neighbors cell_new)"
  by (simp add: links_ok_def cell_new_def)

lemma addScreen_inv: "cfg_inv c \<Longrightarrow> cfg_inv (snd (addScreen c name))"
proof -
  assume c: "cfg_inv c"
  show ?thesis
  proof (cases "find_name c name")
    case (Some e)
    then show ?thesis using c by (simp add: addScreen_def)
  next
    case None
    note fresh = screen_name_known [OF c None]
    note sets = nm.set_insert_new [OF fresh, of cell_new] nm.set_insert_new [OF None, of name]
    have "snd (addScreen c name) = c\<lparr>cfg_map := sm_insert caseless_less name cell_new (cfg_map c),
        cfg_names := sm_insert caseless_less name name (cfg_names c)\<rparr>" (is "_ = ?d")
      using None by (simp add: addScreen_def)
    moreover have "cfg_inv ?d"
    proof (rule cfg_invI)
      show "find_screen ?d t \<noteq> None" if "(n, t) \<in> set (cfg_names ?d)" for n t
        using that cfg_invD(5) [OF c, of n t]
        by (auto simp: sets(2) nm.find_insert [OF cfg_invD(1) [OF c]] split: option.split)
    qed (use c sets in \<open>auto simp: cfg_invD(1,2) nm.wf_insert intro: cfg_invD(3) dest: cfg_invD(4)\<close>)
    ultimately show ?thesis by simp
  qed
qed

lemma addAlias_inv: "cfg_inv c \<Longrightarrow> cfg_inv (snd (addAlias c canonical alias))"
proof -
  assume c: "cfg_inv c"
  show ?thesis
  proof (cases "find_name c alias = None \<and> find_screen c canonical \<noteq> None")
    case False
    then show ?thesis using c by (auto simp: addAlias_def)
  next
    case True
    then have n: "find_name c alias = None" by simp
    have "snd (addAlias c canonical alias) = c\<lparr>cfg_names := sm_insert caseless_less alias canonical (cfg_names c)\<rparr>"
      using True by (auto simp: addAlias_def)
    moreover have "cfg_inv \<dots>"
      using c True nm.set_insert_new [OF n, of canonical]
      by (intro cfg_invI) (auto simp: cfg_invD nm.wf_insert dest: cfg_invD(3,4,5))
    ultimately show ?thesis by simp
  qed
qed

text \<open>Removing names that are not canonical keeps the invariant.\<close>

lemma drop_names_inv:
  assumes "cfg_inv c" "\<And>n cl. (n, cl) \<in> set (cfg_map c) \<Longrightarrow> P (n, n)"
  shows "cfg_inv (c\<lparr>cfg_names := filter P (cfg_names c)\<rparr>)"
  using assms by (intro cfg_invI) (auto simp: cfg_invD(1,2) sm_wf_filter intro: cfg_invD(3) dest: cfg_invD(4,5))

lemma removeAlias_inv:
  assumes "cfg_inv c"
  shows "cfg_inv (snd (removeAlias c alias))"
proof (cases "find_screen c alias = None \<and> find_name c alias \<noteq> None")
  case True
  have "cfg_inv (c\<lparr>cfg_names := filter (\<lambda>(j, _). \<not> sm_equiv caseless_less alias j) (cfg_names c)\<rparr>)"
    using assms by (rule drop_names_inv) (use True in \<open>auto simp: sm_find_None\<close>)
  then show ?thesis using True by (auto simp: removeAlias_def sm_erase_def)
qed (use assms in \<open>auto simp: removeAlias_def\<close>)

lemma removeAliases_inv:
  assumes "cfg_inv c"
  shows "cfg_inv (snd (removeAliases c canonical))"
  using drop_names_inv [OF assms, of "\<lambda>(n, t). \<not> (t = canonical \<and> n \<noteq> canonical)"] assms
  by (auto simp: removeAliases_def)

lemma canonical_names_set:
  assumes "sm_wf caseless_less xs" "\<forall>p \<in> set acc. \<forall>q \<in> set xs. \<not> sm_equiv caseless_less (fst q) (fst p)"
    and "sm_wf caseless_less acc"
  shows "set (foldl (\<lambda>m (n, _). sm_insert caseless_less n n m) acc xs) = set acc \<union> (\<lambda>(n, _). (n, n)) ` set xs \<and>
    sm_wf caseless_less (foldl (\<lambda>m (n, _). sm_insert caseless_less n n m) acc xs)"
  using assms
proof (induction xs arbitrary: acc)
  case (Cons p xs)
  obtain n cl where p: "p = (n, cl)" by force
  have none: "sm_find caseless_less n acc = None" using Cons.prems(2) p by (auto simp: sm_find_None)
  have "\<forall>q \<in> set xs. \<not> sm_equiv caseless_less (fst q) n" using Cons.prems(1) p by (auto simp: sm_equiv_def)
  then have "\<forall>a \<in> set (sm_insert caseless_less n n acc). \<forall>q \<in> set xs. \<not> sm_equiv caseless_less (fst q) (fst a)"
    using nm.set_insert_new [OF none, of n] Cons.prems(2) by auto
  from Cons.IH [OF _ this nm.wf_insert [OF Cons.prems(3)]] Cons.prems(1) p nm.set_insert_new [OF none, of n]
  show ?case by auto
qed simp

lemma removeAllAliases_inv:
  assumes "cfg_inv c"
  shows "cfg_inv (removeAllAliases c)"
proof -
  let ?names = "foldl (\<lambda>m (n, _). sm_insert caseless_less n n m) [] (cfg_map c)"
  have s: "set ?names = (\<lambda>(n, _). (n, n)) ` set (cfg_map c)" "sm_wf caseless_less ?names"
    using canonical_names_set [OF cfg_invD(1) [OF assms], of "[]"] by auto
  have "cfg_inv (c\<lparr>cfg_names := ?names\<rparr>)"
  proof (rule cfg_invI)
    show "find_screen (c\<lparr>cfg_names := ?names\<rparr>) t \<noteq> None"
      if "(n, t) \<in> set (cfg_names (c\<lparr>cfg_names := ?names\<rparr>))" for n t
    proof -
      have "(n, t) \<in> (\<lambda>(n, _). (n, n)) ` set (cfg_map c)" using that unfolding s(1) [symmetric] by simp
      then obtain cl where "(t, cl) \<in> set (cfg_map c)" by auto
      from nm.find_member [OF cfg_invD(1) [OF assms] this, of t] show ?thesis by simp
    qed
    show "(n, n) \<in> set (cfg_names (c\<lparr>cfg_names := ?names\<rparr>))"
      if "(n, cl) \<in> set (cfg_map (c\<lparr>cfg_names := ?names\<rparr>))" for n cl
      using that s(1) by force
  qed (use assms s(2) in \<open>auto simp: cfg_invD(1) intro: cfg_invD(3)\<close>)
  then show ?thesis by (simp add: removeAllAliases_def)
qed

text \<open>A change of one cell that keeps its links apart keeps the invariant.\<close>

lemma set_update:
  "(j, w) \<in> set (sm_update lt k f m) \<Longrightarrow> (j, w) \<in> set m \<or> (\<exists>v. (j, v) \<in> set m \<and> w = f v \<and> sm_equiv lt k j)"
proof (induction m)
  case (Cons p m)
  then show ?case by (cases p) (simp split: if_splits, blast+)
qed simp

lemma update_cell_inv:
  assumes "cfg_inv c" "\<And>j cl. (j, cl) \<in> set (cfg_map c) \<Longrightarrow> sm_equiv caseless_less k j \<Longrightarrow> links_ok (m_neighbors (f cl))"
  shows "cfg_inv (c\<lparr>cfg_map := sm_update caseless_less k f (cfg_map c)\<rparr>)" (is "cfg_inv ?d")
proof (rule cfg_invI)
  show "links_ok (m_neighbors cl)" if "(n, cl) \<in> set (cfg_map ?d)" for n cl
    using set_update [of n cl caseless_less k f "cfg_map c"] that assms(2) cfg_invD(3) [OF assms(1)] by auto
  show "(n, n) \<in> set (cfg_names ?d)" if "(n, cl) \<in> set (cfg_map ?d)" for n cl
    using set_update [of n cl caseless_less k f "cfg_map c"] that cfg_invD(4) [OF assms(1)] by auto
  show "find_screen ?d t \<noteq> None" if "(n, t) \<in> set (cfg_names ?d)" for n t
    using that cfg_invD(5) [OF assms(1), of n t] by (auto simp: nm.find_update split: option.splits)
qed (use assms(1) in \<open>auto simp: cfg_invD(1,2)\<close>)

lemma CellEdge_new_valid:
  "CellEdge_new side a b = Some e \<Longrightarrow> edge_valid e" "CellEdge_named n side a b = Some e \<Longrightarrow> edge_valid e"
  by (auto simp: CellEdge_new_def CellEdge_named_def edge_valid_def split: if_splits)

lemma connect_inv:
  assumes "cfg_inv c" "connect c srcName side a b dstName a' b' = Some (ok, d)"
  shows "cfg_inv d"
proof (cases "find_screen c (getCanonicalName c srcName)")
  case None
  then show ?thesis using assms by (auto simp: connect_def split: if_splits)
next
  case (Some p)
  obtain n cl where p: "p = (n, cl)" by force
  then obtain src dst cl' where e: "CellEdge_new side a b = Some src" "CellEdge_named dstName side a' b' = Some dst"
      "cell_add cl src dst = (ok, cl')"
      "d = c\<lparr>cfg_map := sm_update caseless_less (getCanonicalName c srcName) (\<lambda>_. cl') (cfg_map c)\<rparr>"
    using assms(2) Some by (auto simp: connect_def split: if_splits option.splits prod.splits)
  have "(n, cl) \<in> set (cfg_map c)" using Some p sm_find_member by fastforce
  then have "links_ok (m_neighbors cl')"
    using cell_add_ok [OF cfg_invD(3) [OF assms(1)] CellEdge_new_valid(1) [OF e(1)] CellEdge_new_valid(2) [OF e(2)] e(3)]
    by blast
  then show ?thesis unfolding e(4) by (intro update_cell_inv [OF assms(1)])
qed

lemma links_ok_filter: "links_ok m \<Longrightarrow> links_ok (filter P m)"
  unfolding links_ok_def by (auto simp: sm_wf_filter)

lemma remove_first_at_sub: "set (remove_first_at side x m) \<subseteq> set m"
  by (induction side x m rule: remove_first_at.induct) auto

lemma links_ok_remove_at: "links_ok m \<Longrightarrow> links_ok (remove_first_at side x m)"
proof -
  assume m: "links_ok m"
  have "sm_wf edge_less m \<Longrightarrow> sm_wf edge_less (remove_first_at side x m)"
    using remove_first_at_sub [of side x] by (induction side x m rule: remove_first_at.induct) fastforce+
  then show ?thesis using m remove_first_at_sub [of side x m] unfolding links_ok_def by blast
qed

lemma disconnect_inv:
  "cfg_inv c \<Longrightarrow> disconnect_side c n side = Some (ok, d) \<Longrightarrow> cfg_inv d"
  "cfg_inv c \<Longrightarrow> disconnect_at c n side x = Some (ok, d) \<Longrightarrow> cfg_inv d"
  by (auto simp: disconnect_side_def disconnect_at_def cell_remove_side_def cell_remove_at_def
      split: if_splits option.splits intro!: update_cell_inv links_ok_filter links_ok_remove_at intro: cfg_invD(3))

lemma on_options_inv: "cfg_inv c \<Longrightarrow> cfg_inv (snd (on_options c name f))"
proof -
  assume c: "cfg_inv c"
  have "cfg_inv (c\<lparr>cfg_globalOptions := x\<rparr>)" for x using c by (simp add: cfg_inv_def)
  then show ?thesis using c by (auto simp: on_options_def intro!: update_cell_inv intro: cfg_invD(3))
qed

lemma options_inv:
  assumes "cfg_inv c"
  shows "cfg_inv (snd (addOption c name i v))" "cfg_inv (snd (removeOption c name i))"
    "cfg_inv (snd (removeOptions c name))"
  using on_options_inv [OF assms] by (simp_all add: addOption_def removeOption_def removeOptions_def)

subsection \<open>Renaming\<close>

lemma sm_find_map:
  "sm_find lt k (map (\<lambda>(n, x). (n, f x)) m) = map_option (\<lambda>(n, x). (n, f x)) (sm_find lt k m)"
  by (induction m) auto

lemma sm_wf_map: "sm_wf lt (map (\<lambda>(n, x). (n, f n x)) m) = sm_wf lt m"
  by (rule sm_wf_keys) (induction m, auto)

lemma edge_valid_rename [simp]: "edge_valid (v\<lparr>ce_name := n\<rparr>) = edge_valid v"
  by (simp add: edge_valid_def)

lemma links_ok_rename: "links_ok (m_neighbors cl) \<Longrightarrow> links_ok (m_neighbors (cell_rename cl P new))"
proof -
  assume m: "links_ok (m_neighbors cl)"
  have "sm_wf edge_less (m_neighbors (cell_rename cl P new))"
    using m sm_wf_map [of edge_less "\<lambda>_ v. if P (ce_name v) then v\<lparr>ce_name := new\<rparr> else v" "m_neighbors cl"]
    by (simp add: cell_rename_def links_ok_def)
  moreover have "\<forall>(k, v) \<in> set (m_neighbors (cell_rename cl P new)). edge_valid k \<and> edge_valid v"
    using m by (auto simp: cell_rename_def links_ok_def)
  moreover have "p = q" if pq: "p \<in> set (m_neighbors (cell_rename cl P new))" "q \<in> set (m_neighbors (cell_rename cl P new))"
      "edge_overlaps (fst p) (fst q)" for p q
  proof -
    obtain k v l w where "(k, v) \<in> set (m_neighbors cl)" "p = (k, if P (ce_name v) then v\<lparr>ce_name := new\<rparr> else v)"
        "(l, w) \<in> set (m_neighbors cl)" "q = (l, if P (ce_name w) then w\<lparr>ce_name := new\<rparr> else w)"
      using pq(1,2) by (auto simp: cell_rename_def)
    moreover from this have "(k, v) = (l, w)" using m pq(3) by (fastforce simp: links_ok_def)
    ultimately show ?thesis by simp
  qed
  ultimately show ?thesis by (auto simp: links_ok_def)
qed

lemma renameScreen_inv:
  assumes c: "cfg_inv c" and canon: "caseless_equal oldName (getCanonicalName c oldName)"
  shows "cfg_inv (snd (renameScreen c oldName newName))"
proof (cases "find_screen c (getCanonicalName c oldName) = None \<or>
    \<not> caseless_equal oldName newName \<and> find_name c newName \<noteq> None")
  case True
  then show ?thesis using c by (auto simp: renameScreen_def Let_def split: option.split)
next
  case False
  define old where "old = getCanonicalName c oldName"
  obtain k tmp where find: "find_screen c old = Some (k, tmp)" using False by (auto simp: old_def)
  have eo: "sm_equiv caseless_less oldName old" using canon by (simp add: old_def caseless_equal_equiv)
  let ?map = "sm_erase caseless_less old (cfg_map c)" and ?names = "sm_erase caseless_less old (cfg_names c)"
  have fn: "sm_find caseless_less newName ?names = None"
  proof (cases "sm_equiv caseless_less newName old")
    case ne: False
    then have "\<not> caseless_equal oldName newName"
      using nm.equiv_trans' [OF nm.equiv_sym eo] by (auto simp: caseless_equal_equiv)
    then have "find_name c newName = None" using False by blast
    then show ?thesis using ne by (simp add: nm.find_erase)
  qed (simp add: nm.find_erase)
  have fm: "sm_find caseless_less newName ?map = None"
    using fn screen_name_known [OF c, of newName] by (auto simp: nm.find_erase split: if_splits)
  note sn = nm.set_insert_new [OF fn, of newName] and sm = nm.set_insert_new [OF fm, of tmp]
  define c1 where "c1 = c\<lparr>cfg_map := sm_insert caseless_less newName tmp ?map,
    cfg_names := sm_insert caseless_less newName newName ?names\<rparr>"
  define P where "P = Name_eq c1 (Name_new c1 oldName)"
  let ?tgt = "\<lambda>t. if caseless_equal t old then newName else t"
  let ?d = "c1\<lparr>cfg_map := map (\<lambda>(n, cl). (n, cell_rename cl P newName)) (cfg_map c1),
    cfg_names := map (\<lambda>(n, t). (n, ?tgt t)) (cfg_names c1)\<rparr>"
  have r: "snd (renameScreen c oldName newName) = ?d"
    using False canon find by (auto simp: renameScreen_def Let_def old_def [symmetric] c1_def P_def)
  have wf: "sm_wf caseless_less ?map" "sm_wf caseless_less ?names"
    using cfg_invD(1,2) [OF c] by (auto intro: sm_wf_erase)
  have tmp: "links_ok (m_neighbors tmp)" using find sm_find_member cfg_invD(3) [OF c] by fastforce
  have "cfg_inv ?d"
  proof (rule cfg_invI)
    show "sm_wf caseless_less (cfg_map ?d)" "sm_wf caseless_less (cfg_names ?d)"
      by (simp_all add: c1_def sm_wf_map nm.wf_insert [OF wf(1)] nm.wf_insert [OF wf(2)])
    show "links_ok (m_neighbors cl)" if "(n, cl) \<in> set (cfg_map ?d)" for n cl
      using that tmp cfg_invD(3) [OF c] by (auto simp: c1_def sm sm_erase_set intro!: links_ok_rename)
    show "(n, n) \<in> set (cfg_names ?d)" if "(n, cl) \<in> set (cfg_map ?d)" for n cl
    proof -
      have "n = newName \<or> (n, n) \<in> set (cfg_names c) \<and> \<not> sm_equiv caseless_less old n"
        using that cfg_invD(4) [OF c] by (auto simp: c1_def sm sm_erase_set)
      then have "(n, n) \<in> set (cfg_names c1) \<and> ?tgt n = n"
        by (auto simp: c1_def sn sm_erase_set caseless_equal_equiv dest: nm.equiv_sym)
      then show ?thesis by force
    qed
    show "find_screen ?d t \<noteq> None" if nt: "(n, t) \<in> set (cfg_names ?d)" for n t
    proof -
      obtain p where p: "p \<in> set (cfg_names c1)" "(n, t) = (\<lambda>(n, t). (n, ?tgt t)) p"
        using nt by (auto simp del: if_split)
      have "(n, snd p) \<in> set (cfg_names c1) \<and> t = ?tgt (snd p)" using p by (simp add: case_prod_beta)
      then obtain u where u: "(n, u) \<in> set (cfg_names c1)" "t = ?tgt u" by blast
      have "t = newName \<or> find_screen c t \<noteq> None \<and> \<not> sm_equiv caseless_less t old"
        using u cfg_invD(5) [OF c] by (auto simp: c1_def sn sm_erase_set caseless_equal_equiv)
      then show ?thesis
        by (auto simp: sm_find_map c1_def nm.find_insert [OF wf(1)] nm.find_erase fm split: option.split)
    qed
  qed
  then show ?thesis using r by simp
qed

lemma removeScreen_names_Some: "removeScreen_names t m = Some r \<longleftrightarrow> r = [] \<and> (\<forall>(n, u) \<in> set m. u = t)"
  by (induction t m rule: removeScreen_names.induct) auto

lemma removeScreen_inv:
  assumes c: "cfg_inv c" and r: "removeScreen c name = Some d"
  shows "cfg_inv d"
proof (cases "find_screen c (getCanonicalName c name)")
  case None
  then show ?thesis using assms by (simp add: removeScreen_def Let_def)
next
  case (Some p)
  let ?t = "getCanonicalName c name"
  have all: "\<forall>(n, u) \<in> set (cfg_names c). u = ?t" and names: "cfg_names d = []"
    and map: "map fst (cfg_map d) = map fst (sm_erase caseless_less ?t (cfg_map c))"
    using r Some by (auto simp: removeScreen_def Let_def removeScreen_names_Some split: option.splits)
  have "n = ?t" if "(n, cl) \<in> set (cfg_map c)" for n cl using cfg_invD(4) [OF c that] all by auto
  then have "sm_erase caseless_less ?t (cfg_map c) = []"
    by (auto simp: sm_erase_def filter_empty_conv caseless_equiv)
  then have "cfg_map d = []" using map by simp
  then show ?thesis using names by (simp add: cfg_inv_def)
qed

subsection \<open>Reachable configurations\<close>

text \<open>
  The operations as steps. A screen is renamed through its canonical name; renaming through an alias is a
  separate matter, below.
\<close>

inductive cfg_step :: "('a, 'r) config \<Rightarrow> ('a, 'r) config \<Rightarrow> bool" where
  step_addScreen: "cfg_step c (snd (addScreen c name))"
| step_renameScreen: "isCanonicalName c old \<Longrightarrow> cfg_step c (snd (renameScreen c old new))"
| step_removeScreen: "removeScreen c name = Some d \<Longrightarrow> cfg_step c d"
| step_removeAllScreens: "cfg_step c (removeAllScreens c)"
| step_addAlias: "cfg_step c (snd (addAlias c canonical alias))"
| step_removeAlias: "cfg_step c (snd (removeAlias c alias))"
| step_removeAliases: "cfg_step c (snd (removeAliases c canonical))"
| step_removeAllAliases: "cfg_step c (removeAllAliases c)"
| step_connect: "connect c src side a b dst a' b' = Some (ok, d) \<Longrightarrow> cfg_step c d"
| step_disconnect_side: "disconnect_side c src side = Some (ok, d) \<Longrightarrow> cfg_step c d"
| step_disconnect_at: "disconnect_at c src side x = Some (ok, d) \<Longrightarrow> cfg_step c d"
| step_addOption: "cfg_step c (snd (addOption c name i v))"
| step_removeOption: "cfg_step c (snd (removeOption c name i))"
| step_removeOptions: "cfg_step c (snd (removeOptions c name))"
| step_set_listen_address: "cfg_step c (set_listen_address c addr)"

lemma cfg_step_inv:
  assumes "cfg_step c d" "cfg_inv c"
  shows "cfg_inv d"
  using assms
proof cases
  case (step_renameScreen old new)
  have "caseless_equal old (getCanonicalName c old)"
    using step_renameScreen nm.equiv_sym by (simp add: isCanonicalName_def caseless_equal_equiv)
  then show ?thesis using step_renameScreen renameScreen_inv [OF assms(2)] by blast
next
  case step_removeAllScreens
  then show ?thesis by (simp add: removeAllScreens_def cfg_inv_def)
next
  case (step_set_listen_address addr)
  then show ?thesis using assms(2) by (simp add: set_listen_address_def cfg_inv_def)
qed (use assms(2) in \<open>blast intro: addScreen_inv addAlias_inv removeAlias_inv removeAliases_inv
    removeAllAliases_inv connect_inv disconnect_inv removeScreen_inv
    options_inv\<close>)+

subsection \<open>Properties\<close>

text \<open>
  C7. Every configuration that the operations of \<^verbatim>\<open>Config\<close> build from an empty one is well formed, provided screens are
  renamed by their canonical names: each screen is its own canonical name, each name, alias or canonical, leads
  to an existing screen, and the links on one side of a screen never overlap. Renaming through an alias breaks
  it, see \<open>rename_through_alias_breaks_names\<close>.
\<close>

theorem reachable_config_well_formed:
  assumes "cfg_step\<^sup>*\<^sup>* (Config_new addr) c"
  shows "cfg_inv c"
  using assms by (induction rule: rtranclp_induct) (auto intro: Config_new_inv cfg_step_inv)

theorem reachable_config_well_formed_witness:
  "cfg_inv (snd (addAlias (snd (addScreen (Config_new () :: (unit, unit) config) ''desk'')) ''desk'' ''pc''))"
proof -
  have "cfg_step\<^sup>*\<^sup>* (Config_new () :: (unit, unit) config)
      (snd (addAlias (snd (addScreen (Config_new ()) ''desk'')) ''desk'' ''pc''))"
    by (rule rtranclp.rtrancl_into_rtrancl [OF r_into_rtranclp]) (rule step_addScreen step_addAlias)+
  then show ?thesis by (rule reachable_config_well_formed)
qed

text \<open>
  C24. Adding a link checks only the two neighbours in the ordered map, and that is enough: for links that do
  not overlap, the check finds an overlap exactly when some link of the screen overlaps the new one,
  so a link is refused exactly when it overlaps another link without being the same interval.
\<close>

theorem overlap_check_complete:
  assumes "links_ok (m_neighbors c)" "edge_valid src"
  shows "fst (cell_add c src dst) \<longleftrightarrow>
    (\<exists>(k, v) \<in> set (m_neighbors c). edge_eq k src) \<or> (\<forall>(k, v) \<in> set (m_neighbors c). \<not> edge_overlaps k src)"
proof -
  have wf: "sm_wf edge_less (m_neighbors c)" using assms(1) by (simp add: links_ok_def)
  have "hasEdge c src \<longleftrightarrow> (\<exists>(k, v) \<in> set (m_neighbors c). edge_eq k src)"
  proof
    assume "\<exists>(k, v) \<in> set (m_neighbors c). edge_eq k src"
    then obtain k v where k: "(k, v) \<in> set (m_neighbors c)" "edge_eq k src" by auto
    then have "sm_equiv edge_less src k" by (simp add: edge_equiv edge_eq_def)
    from ed.find_member [OF wf k(1) this] k(2) show "hasEdge c src" by (simp add: hasEdge_def)
  qed (auto simp: hasEdge_def split: option.splits dest!: sm_find_member)
  then show ?thesis using cell_overlaps_iff [OF assms] by (auto simp: cell_add_def)
qed

definition half :: "EDirection \<Rightarrow> rat \<Rightarrow> rat \<Rightarrow> cell_edge" where
  "half side a b = \<lparr>ce_name = ''pc'', ce_side = side, ce_first = a, ce_second = b\<rparr>"

definition half_cell :: cell where
  "half_cell = \<lparr>m_neighbors = [(half kLeft 0 (1/2), half kLeft 0 1)], m_options = []\<rparr>"

lemma half_cell_ok: "links_ok (m_neighbors half_cell)" "edge_valid (half kLeft (1/2) 1)"
  by (auto simp: half_cell_def half_def links_ok_def edge_valid_def)

theorem overlap_check_complete_witness:
  "fst (cell_add half_cell (half kLeft (1/2) 1) (half kLeft 0 1))"
  using overlap_check_complete [OF half_cell_ok, of "half kLeft 0 1"]
  by (simp add: half_cell_def half_def edge_overlaps_def edge_eq_def)

text \<open>
  The position on the neighbour. Rounding keeps it from the first end of the interval up to 1, which it can reach; for
  floats it is close to the linear image of the position.
\<close>

lemma transform_range:
  assumes "edge_valid src" "isInside src x"
  shows "0 \<le> transform src x" "transform src x \<le> 1"
proof -
  let ?d = "x - ce_first src" and ?w = "ce_second src - ce_first src"
  have "0 \<le> ?d" "?d \<le> ?w" using assms by (auto simp: isInside_def edge_valid_def)
  then have "0 \<le> fl32 ?d" "fl32 ?d \<le> fl32 ?w" by (simp_all add: fl32_mono)
  then have "0 \<le> fl32 ?d / fl32 ?w" "fl32 ?d / fl32 ?w \<le> 1" by (auto simp: divide_le_eq_1)
  then show "0 \<le> transform src x" "transform src x \<le> 1" by (simp_all add: transform_def fl32_le)
qed

lemma inverseTransform_parts:
  assumes "edge_valid dst" "0 \<le> t" "t \<le> 1"
  shows "0 \<le> fl32 (t * fl32 (ce_second dst - ce_first dst))"
    "fl32 (t * fl32 (ce_second dst - ce_first dst)) + ce_first dst \<le> 1 + 1 / 2 ^ 25"
    "\<bar>fl32 (t * fl32 (ce_second dst - ce_first dst)) - t * (ce_second dst - ce_first dst)\<bar> \<le> 1 / 2 ^ 24"
proof -
  define w where "w = ce_second dst - ce_first dst"
  have w: "0 \<le> w" "w \<le> 1" "w + ce_first dst \<le> 1" using assms(1) by (auto simp: w_def edge_valid_def)
  have f: "0 \<le> fl32 w" "fl32 w \<le> 1" using w by (simp_all add: fl32_le)
  have p: "0 \<le> t * fl32 w" "t * fl32 w \<le> fl32 w" using assms(2,3) f(1) by (simp_all add: mult_left_le_one_le)
  show "0 \<le> fl32 (t * fl32 (ce_second dst - ce_first dst))" using p(1) by (simp add: w_def)
  have "fl32 (t * fl32 w) \<le> fl32 w" using p w(1) by (intro fl32_le) simp_all
  moreover have e: "\<bar>fl32 w - w\<bar> \<le> 1 / 2 ^ 25" using fl32_error_unit [OF w(1,2)] .
  ultimately show "fl32 (t * fl32 (ce_second dst - ce_first dst)) + ce_first dst \<le> 1 + 1 / 2 ^ 25"
    using w(3) unfolding w_def [symmetric] by linarith
  have "\<bar>t * fl32 w - t * w\<bar> = t * \<bar>fl32 w - w\<bar>" using assms(2) by (simp add: right_diff_distrib [symmetric] abs_mult)
  also have "\<dots> \<le> \<bar>fl32 w - w\<bar>" using assms(2,3) by (simp add: mult_left_le_one_le)
  finally have "\<bar>t * fl32 w - t * w\<bar> \<le> 1 / 2 ^ 25" using e by linarith
  moreover have "\<bar>fl32 (t * fl32 w) - t * fl32 w\<bar> \<le> 1 / 2 ^ 25" using p f by (intro fl32_error_unit) simp_all
  moreover have "1 / 2 ^ 25 + 1 / 2 ^ 25 = (1 / 2 ^ 24 :: rat)" by simp
  ultimately show "\<bar>fl32 (t * fl32 (ce_second dst - ce_first dst)) - t * (ce_second dst - ce_first dst)\<bar> \<le> 1 / 2 ^ 24"
    unfolding w_def [symmetric] by linarith
qed

lemma link_position:
  assumes "edge_valid src" "edge_valid dst" "isInside src x"
  shows "0 \<le> inverseTransform dst (transform src x)"
    and "inverseTransform dst (transform src x) \<le> 1"
    and "is_float (inverseTransform dst (transform src x))"
    and "is_float (ce_first dst) \<Longrightarrow> ce_first dst \<le> inverseTransform dst (transform src x)"
proof -
  note parts = inverseTransform_parts [OF assms(2) transform_range [OF assms(1,3)]]
  have f: "0 \<le> ce_first dst" using assms(2) by (simp add: edge_valid_def)
  show "0 \<le> inverseTransform dst (transform src x)" "is_float (inverseTransform dst (transform src x))"
    using parts(1) f by (simp_all add: inverseTransform_def)
  show "inverseTransform dst (transform src x) \<le> 1"
    unfolding inverseTransform_def using parts(1,2) f by (intro fl32_le_one) simp_all
  show "ce_first dst \<le> inverseTransform dst (transform src x)" if "is_float (ce_first dst)"
    unfolding inverseTransform_def using parts(1) f that by (intro fl32_ge) simp_all
qed

lemma link_position_error:
  assumes v: "edge_valid src" "edge_valid dst" "isInside src x"
    and fl: "is_float x" "is_float (ce_first src)" "is_float (ce_second src)"
  shows "\<bar>inverseTransform dst (transform src x) - (ce_first dst +
    (x - ce_first src) / (ce_second src - ce_first src) * (ce_second dst - ce_first dst))\<bar> \<le> 1 / 2 ^ 21"
proof -
  define d w u t where "d = x - ce_first src" and "w = ce_second src - ce_first src"
    and "u = ce_second dst - ce_first dst" and "t = transform src x"
  have d: "0 \<le> d" "d \<le> w" "0 < w" using v(1,3) by (auto simp: d_def w_def isInside_def edge_valid_def)
  have u: "0 \<le> u" "u \<le> 1" "0 \<le> ce_first dst" using v(2) by (auto simp: u_def edge_valid_def)
  have "\<bar>t - d / w\<bar> \<le> 1 / 2 ^ 22"
    unfolding t_def transform_def d_def w_def
    using fl v(1,3) d unfolding d_def w_def
    by (intro fl32_quotient fl32_difference) (auto simp: isInside_def edge_valid_def)
  then have "\<bar>t - d / w\<bar> * u \<le> 1 / 2 ^ 22 * 1" using u by (intro mult_mono) simp_all
  moreover have "\<bar>t * u - d / w * u\<bar> = \<bar>t - d / w\<bar> * u" by (metis left_diff_distrib abs_mult abs_of_nonneg u(1))
  ultimately have 1: "\<bar>t * u - d / w * u\<bar> \<le> 1 / 2 ^ 22" by linarith
  note r = transform_range [OF v(1,3), folded t_def]
  note parts = inverseTransform_parts [OF v(2) r, folded u_def]
  define z where "z = fl32 (t * fl32 u) + ce_first dst"
  have z: "0 \<le> z" "z \<le> 1 + 1 / 2 ^ 25" using parts(1,2) u(3) by (simp_all add: z_def)
  have "1 + 1 / 2 ^ 25 \<le> power_int (2 :: rat) 1" by simp
  then have "\<bar>fl32 z - z\<bar> \<le> power_int 2 (1 - 25)" using z by (intro fl32_error) linarith+
  then have 3: "\<bar>fl32 z - z\<bar> \<le> 1 / 2 ^ 24" by (simp add: power_int_def power_divide)
  have "inverseTransform dst t = fl32 z" by (simp add: inverseTransform_def z_def u_def)
  moreover have "1 / 2 ^ 22 + 1 / 2 ^ 24 + 1 / 2 ^ 24 \<le> (1 / 2 ^ 21 :: rat)" by simp
  ultimately have "\<bar>inverseTransform dst t - (ce_first dst + d / w * u)\<bar> \<le> 1 / 2 ^ 21"
    using 1 parts(3) 3 z_def by linarith
  then show ?thesis by (simp add: d_def w_def u_def t_def)
qed

lemma getNeighbor_range:
  assumes "cfg_inv c" "getNeighbor c n side x = (d, Some y)" "side \<noteq> kNoDirection"
  shows "0 \<le> y" "y \<le> 1" "is_float y"
proof -
  obtain n' cl src dst where f: "find_screen c (getCanonicalName c n) = Some (n', cl)"
      "getLink cl side x = Some (src, dst)" "y = inverseTransform dst (transform src x)"
    using assms(2) by (auto simp: getNeighbor_def split: option.splits)
  have ok: "links_ok (m_neighbors cl)"
    using cfg_invD(3) [OF assms(1)] sm_find_member [OF f(1)] by blast
  have l: "(src, dst) \<in> set (m_neighbors cl)" "isInside src x"
    using getLink_iff [OF ok assms(3)] f(2) by blast+
  have v: "edge_valid src" "edge_valid dst" using ok l(1) by (auto simp: links_ok_def)
  show "0 \<le> y" "y \<le> 1" "is_float y" using link_position(1-3) [OF v l(2)] f(3) by simp_all
qed

text \<open>
  C14. The neighbour at a position of an edge is the one the configuration links there: \<open>getNeighbor\<close> finds the
  link whose interval covers the position if there is one, and maps the position into the interval on
  the neighbour. In single precision the result is not below the start of that interval, not above 1, and
  off from the linear image of the position by no more than two millionths of the edge.
\<close>

theorem neighbor_follows_link:
  assumes "cfg_inv c" "find_screen c (getCanonicalName c n) = Some (n', cl)" "side \<noteq> kNoDirection"
    and "(src, dst) \<in> set (m_neighbors cl)" "ce_side src = side" "isInside src x"
    and "is_float x" "is_float (ce_first src)" "is_float (ce_second src)" "is_float (ce_first dst)"
  shows "\<exists>y. getNeighbor c n side x = (getCanonicalName c (ce_name dst), Some y) \<and>
    is_float y \<and> ce_first dst \<le> y \<and> y \<le> 1 \<and>
    \<bar>y - (ce_first dst + (x - ce_first src) / (ce_second src - ce_first src) * (ce_second dst - ce_first dst))\<bar> \<le> 1 / 2 ^ 21"
proof -
  have m: "(n', cl) \<in> set (cfg_map c)" using assms(2) sm_find_member by fastforce
  note ok = cfg_invD(3) [OF assms(1) m]
  have l: "getLink cl side x = Some (src, dst)" using getLink_iff [OF ok assms(3)] assms(4-6) by blast
  have v: "edge_valid src" "edge_valid dst" using ok assms(4) by (auto simp: links_ok_def)
  have g: "getNeighbor c n side x = (getCanonicalName c (ce_name dst), Some (inverseTransform dst (transform src x)))"
    using l assms(2) by (simp add: getNeighbor_def)
  show ?thesis using g link_position [OF v assms(6)] assms(10) link_position_error [OF v assms(6-9)] by blast
qed

definition two_screens :: "(unit, unit) config" where
  "two_screens = \<lparr>cfg_map = [(''desk'', half_cell), (''pc'', cell_new)],
     cfg_names = [(''box'', ''pc''), (''desk'', ''desk''), (''pc'', ''pc'')], cfg_listen_address = (),
     cfg_globalOptions = [], cfg_rules = [], cfg_hasLockToScreenAction = False\<rparr>"

lemma two_screens_inv: "cfg_inv two_screens"
proof (rule cfg_invI)
  show "sm_wf caseless_less (cfg_map two_screens)" "sm_wf caseless_less (cfg_names two_screens)"
    by (simp_all add: two_screens_def) code_simp+
  show "links_ok (m_neighbors cl)" if "(n, cl) \<in> set (cfg_map two_screens)" for n cl
    using that half_cell_ok(1) by (auto simp: two_screens_def)
  show "(n, n) \<in> set (cfg_names two_screens)" if "(n, cl) \<in> set (cfg_map two_screens)" for n cl
    using that by (auto simp: two_screens_def)
  have "find_screen two_screens ''pc'' \<noteq> None" "find_screen two_screens ''desk'' \<noteq> None"
    by (simp_all add: two_screens_def)
  then show "find_screen two_screens t \<noteq> None" if "(n, t) \<in> set (cfg_names two_screens)" for n t
    using that by (auto simp: two_screens_def)
qed

theorem neighbor_follows_link_witness:
  "\<exists>y. getNeighbor two_screens ''desk'' kLeft (1/4) =
      (getCanonicalName two_screens (ce_name (half kLeft 0 1)), Some y) \<and>
    is_float y \<and> ce_first (half kLeft 0 1) \<le> y \<and> y \<le> 1 \<and>
    \<bar>y - (ce_first (half kLeft 0 1) + (1/4 - ce_first (half kLeft 0 (1/2))) /
      (ce_second (half kLeft 0 (1/2)) - ce_first (half kLeft 0 (1/2))) *
      (ce_second (half kLeft 0 1) - ce_first (half kLeft 0 1)))\<bar> \<le> 1 / 2 ^ 21"
proof (rule neighbor_follows_link [OF two_screens_inv])
  have n: "find_name two_screens ''desk'' = Some (''desk'', ''desk'')" by code_simp
  show "find_screen two_screens (getCanonicalName two_screens ''desk'') = Some (''desk'', half_cell)"
    unfolding getCanonicalName_def n by (simp add: two_screens_def sm_equiv_def caseless_less_irrefl)
qed (simp_all add: half_cell_def half_def isInside_def)

text \<open>
  C28. \<open>removeScreen\<close> does not survive the presence of another name: unless every name in the configuration has
  the removed screen as its target, its clean-up loop increments the iterator of the other map past
  its end. So it works for the only screen of a configuration and for no other.
\<close>

theorem removeScreen_undefined:
  assumes "find_screen c (getCanonicalName c name) \<noteq> None"
    and "(n, t) \<in> set (cfg_names c)" "t \<noteq> getCanonicalName c name"
  shows "removeScreen c name = None"
proof (rule ccontr)
  assume "removeScreen c name \<noteq> None"
  then obtain d where "removeScreen c name = Some d" by blast
  with assms show False
    by (auto simp: removeScreen_def Let_def removeScreen_names_Some split: option.splits)
qed

theorem removeScreen_undefined_witness: "removeScreen two_screens ''pc'' = None"
proof (rule removeScreen_undefined)
  have n: "find_name two_screens ''pc'' = Some (''pc'', ''pc'')" by code_simp
  then have g: "getCanonicalName two_screens ''pc'' = ''pc''" by (simp add: getCanonicalName_def)
  have "(''pc'', cell_new) \<in> set (cfg_map two_screens)" by (simp add: two_screens_def)
  from nm.find_member [OF cfg_invD(1) [OF two_screens_inv] this nm.equiv_refl]
  show "find_screen two_screens (getCanonicalName two_screens ''pc'') \<noteq> None" by (simp add: g)
  show "(''desk'', ''desk'') \<in> set (cfg_names two_screens)" by (simp add: two_screens_def)
  show "''desk'' \<noteq> getCanonicalName two_screens ''pc''" by (simp add: g)
qed

text \<open>
  An option that is already set keeps its first value: \<open>addOption\<close> inserts into the map, which does not
  replace, so of two settings of the same option the earlier one wins.
\<close>

theorem addOption_keeps_first:
  assumes "sm_wf (<) (cfg_globalOptions c)" "sm_find (<) i (cfg_globalOptions c) = Some (i, v)"
  shows "sm_find (<) i (cfg_globalOptions (snd (addOption c [] i w))) = Some (i, v)"
  using assms by (simp add: addOption_def on_options_def op.find_insert)

theorem addOption_keeps_first_witness:
  "sm_find (<) 7 (cfg_globalOptions (snd (addOption (two_screens\<lparr>cfg_globalOptions := [(7, 1)]\<rparr>) [] 7 2))) = Some (7, 1)"
  by (rule addOption_keeps_first) (simp_all add: sm_equiv_def)

text \<open>
  Renaming a screen through one of its aliases leaves names that lead nowhere: the targets of the aliases
  are only updated when the screen is named by its canonical name.
\<close>

theorem rename_through_alias_breaks_names:
  "cfg_inv two_screens \<and> fst (renameScreen two_screens ''box'' ''new'') \<and>
   isScreen (snd (renameScreen two_screens ''box'' ''new'')) ''box'' \<and>
   find_screen (snd (renameScreen two_screens ''box'' ''new''))
     (getCanonicalName (snd (renameScreen two_screens ''box'' ''new'')) ''box'') = None"
proof -
  have "fst (renameScreen two_screens ''box'' ''new'') \<and>
     isScreen (snd (renameScreen two_screens ''box'' ''new'')) ''box'' \<and>
     find_screen (snd (renameScreen two_screens ''box'' ''new''))
       (getCanonicalName (snd (renameScreen two_screens ''box'' ''new'')) ''box'') = None"
    by code_simp
  then show ?thesis using two_screens_inv by blast
qed

end
