(* ===== verification/ServerState.thy ===== *)
theory ServerState
  imports Config Clipboard "HOL-Library.List_Lexorder" "HOL-Library.Char_ord"
begin

text \<open>
  The state of \<^verbatim>\<open>src/lib/server/Server.cpp\<close> and of the proxies it holds: \<^verbatim>\<open>BaseClientProxy\<close>,
  \<^verbatim>\<open>PrimaryClient\<close> for the server's own screen and \<^verbatim>\<open>ClientProxy1_6\<close> for a connected client. A pointer to a
  proxy is an address; \<open>m_proxies\<close> is the part of the heap that holds them, so that the use of a deleted
  proxy is the error \<open>DanglingPointer\<close> of the model. What the server does to a proxy beyond its own state,
  to the event queue and to threads is appended to \<open>m_trace\<close>. What the platform answers while an event is
  handled is the record \<open>env\<close>. Coordinates are \<^verbatim>\<open>int32_t\<close> in the code and integers here.
\<close>

subsection \<open>Constants\<close>

datatype server_error = AssertFailed | DanglingPointer | OutOfRange | NeverReturns | ClipboardFailed clip_error

type_synonym cid = nat
type_synonym shape = "int \<times> int \<times> int \<times> int"

definition OPTION_CODE :: "char \<Rightarrow> char \<Rightarrow> char \<Rightarrow> char \<Rightarrow> nat" where
  "OPTION_CODE a b c d = of_char a * 2 ^ 24 + of_char b * 2 ^ 16 + of_char c * 2 ^ 8 + of_char d"

definition kOptionHeartbeat :: nat where
  "kOptionHeartbeat = OPTION_CODE (CHR ''H'') (CHR ''A'') (CHR ''R'') (CHR ''T'')"
definition kOptionScreenSwitchCorners :: nat where
  "kOptionScreenSwitchCorners = OPTION_CODE (CHR ''S'') (CHR ''S'') (CHR ''C'') (CHR ''M'')"
definition kOptionScreenSwitchCornerSize :: nat where
  "kOptionScreenSwitchCornerSize = OPTION_CODE (CHR ''S'') (CHR ''S'') (CHR ''C'') (CHR ''S'')"
definition kOptionScreenSwitchDelay :: nat where
  "kOptionScreenSwitchDelay = OPTION_CODE (CHR ''S'') (CHR ''S'') (CHR ''W'') (CHR ''T'')"
definition kOptionScreenSwitchTwoTap :: nat where
  "kOptionScreenSwitchTwoTap = OPTION_CODE (CHR ''S'') (CHR ''S'') (CHR ''T'') (CHR ''T'')"
definition kOptionScreenSwitchNeedsShift :: nat where
  "kOptionScreenSwitchNeedsShift = OPTION_CODE (CHR ''S'') (CHR ''S'') (CHR ''N'') (CHR ''S'')"
definition kOptionScreenSwitchNeedsControl :: nat where
  "kOptionScreenSwitchNeedsControl = OPTION_CODE (CHR ''S'') (CHR ''S'') (CHR ''N'') (CHR ''C'')"
definition kOptionScreenSwitchNeedsAlt :: nat where
  "kOptionScreenSwitchNeedsAlt = OPTION_CODE (CHR ''S'') (CHR ''S'') (CHR ''N'') (CHR ''A'')"
definition kOptionRelativeMouseMoves :: nat where
  "kOptionRelativeMouseMoves = OPTION_CODE (CHR ''M'') (CHR ''D'') (CHR ''L'') (CHR ''T'')"
definition kOptionClipboardSharing :: nat where
  "kOptionClipboardSharing = OPTION_CODE (CHR ''C'') (CHR ''L'') (CHR ''P'') (CHR ''S'')"
definition kOptionClipboardSharingSize :: nat where
  "kOptionClipboardSharingSize = OPTION_CODE (CHR ''C'') (CHR ''L'') (CHR ''S'') (CHR ''Z'')"

lemmas option_codes = OPTION_CODE_def kOptionHeartbeat_def kOptionScreenSwitchCorners_def
  kOptionScreenSwitchCornerSize_def kOptionScreenSwitchDelay_def kOptionScreenSwitchTwoTap_def
  kOptionScreenSwitchNeedsShift_def kOptionScreenSwitchNeedsControl_def kOptionScreenSwitchNeedsAlt_def
  kOptionRelativeMouseMoves_def kOptionClipboardSharing_def kOptionClipboardSharingSize_def

definition kOptionModifierMapForShift :: nat where
  "kOptionModifierMapForShift = OPTION_CODE (CHR ''M'') (CHR ''M'') (CHR ''F'') (CHR ''S'')"
definition kOptionModifierMapForControl :: nat where
  "kOptionModifierMapForControl = OPTION_CODE (CHR ''M'') (CHR ''M'') (CHR ''F'') (CHR ''C'')"
definition kOptionModifierMapForAlt :: nat where
  "kOptionModifierMapForAlt = OPTION_CODE (CHR ''M'') (CHR ''M'') (CHR ''F'') (CHR ''A'')"
definition kOptionModifierMapForAltGr :: nat where
  "kOptionModifierMapForAltGr = OPTION_CODE (CHR ''M'') (CHR ''M'') (CHR ''F'') (CHR ''G'')"
definition kOptionModifierMapForMeta :: nat where
  "kOptionModifierMapForMeta = OPTION_CODE (CHR ''M'') (CHR ''M'') (CHR ''F'') (CHR ''M'')"
definition kOptionModifierMapForSuper :: nat where
  "kOptionModifierMapForSuper = OPTION_CODE (CHR ''M'') (CHR ''M'') (CHR ''F'') (CHR ''R'')"

definition kOptionHalfDuplexCapsLock :: nat where
  "kOptionHalfDuplexCapsLock = OPTION_CODE (CHR ''H'') (CHR ''D'') (CHR ''C'') (CHR ''L'')"
definition kOptionHalfDuplexNumLock :: nat where
  "kOptionHalfDuplexNumLock = OPTION_CODE (CHR ''H'') (CHR ''D'') (CHR ''N'') (CHR ''L'')"
definition kOptionHalfDuplexScrollLock :: nat where
  "kOptionHalfDuplexScrollLock = OPTION_CODE (CHR ''H'') (CHR ''D'') (CHR ''S'') (CHR ''L'')"
definition kOptionScreenSaverSync :: nat where
  "kOptionScreenSaverSync = OPTION_CODE (CHR ''S'') (CHR ''S'') (CHR ''V'') (CHR ''R'')"
definition kOptionXTestXineramaUnaware :: nat where
  "kOptionXTestXineramaUnaware = OPTION_CODE (CHR ''X'') (CHR ''T'') (CHR ''X'') (CHR ''U'')"
definition kOptionScreenPreserveFocus :: nat where
  "kOptionScreenPreserveFocus = OPTION_CODE (CHR ''S'') (CHR ''F'') (CHR ''O'') (CHR ''C'')"
definition kOptionWin32KeepForeground :: nat where
  "kOptionWin32KeepForeground = OPTION_CODE (CHR ''_'') (CHR ''K'') (CHR ''F'') (CHR ''W'')"

definition kKeyModifierIDNull :: nat where "kKeyModifierIDNull = 0"
definition kKeyModifierIDShift :: nat where "kKeyModifierIDShift = 1"
definition kKeyModifierIDControl :: nat where "kKeyModifierIDControl = 2"
definition kKeyModifierIDAlt :: nat where "kKeyModifierIDAlt = 3"
definition kKeyModifierIDMeta :: nat where "kKeyModifierIDMeta = 4"
definition kKeyModifierIDSuper :: nat where "kKeyModifierIDSuper = 5"
definition kKeyModifierIDAltGr :: nat where "kKeyModifierIDAltGr = 6"
definition kKeyModifierIDLast :: nat where "kKeyModifierIDLast = 7"

lemmas modifier_ids = kKeyModifierIDNull_def kKeyModifierIDShift_def kKeyModifierIDControl_def
  kKeyModifierIDAlt_def kKeyModifierIDMeta_def kKeyModifierIDSuper_def kKeyModifierIDAltGr_def
  kKeyModifierIDLast_def

definition KeyModifierShift :: u32 where "KeyModifierShift = 0x0001"
definition KeyModifierControl :: u32 where "KeyModifierControl = 0x0002"
definition KeyModifierAlt :: u32 where "KeyModifierAlt = 0x0004"
definition KeyModifierScrollLock :: u32 where "KeyModifierScrollLock = 0x4000"

definition kNoCornerMask :: u32 where "kNoCornerMask = 0"
definition kTopLeftMask :: u32 where "kTopLeftMask = 1"
definition kTopRightMask :: u32 where "kTopRightMask = 2"
definition kBottomLeftMask :: u32 where "kBottomLeftMask = 4"
definition kBottomRightMask :: u32 where "kBottomRightMask = 8"
definition kAllCornersMask :: u32 where "kAllCornersMask = 15"

definition dir_mask :: "EDirection \<Rightarrow> u32" where
  "dir_mask d = push_bit (dir_number d) 1"

definition kFileList :: nat where "kFileList = 7"
definition kNumClipboards :: nat where "kNumClipboards = 2"

subsection \<open>Proxies, actions and the server\<close>

record proxy =
  px_primary :: bool
  px_name :: string
  px_shape :: shape
  px_cursor :: "int \<times> int"
  px_jump :: "int \<times> int"
  px_dirty :: "bool list"
  px_clipboards :: "clipboard list"

text \<open>The calls on a proxy that reach the screen or the connection behind it.\<close>

datatype client_call =
    Enter int int u32 u32 bool
  | Leave
  | MouseMove int int
  | MouseRelativeMove int int
  | MouseWheel int int
  | MouseDown nat
  | MouseUp nat
  | KeyDown u32 u32 u16
  | KeyRepeat u32 u32 int u16
  | KeyUp u32 u32 u16
  | SetClipboard nat bytes
  | GrabClipboard nat
  | Screensaver bool
  | ResetOptions
  | SetOptions "u32 list"
  | Flush
  | FileChunkSending byte bytes
  | Reconfigure u32
  | FakeInputBegin
  | FakeInputEnd
  | Enable

datatype server_event =
    ScreenSwitched string
  | ScreenDisconnected string
  | ServerDisconnected
  | ServerConnected string

datatype action =
    Call cid client_call
  | Post server_event
  | StartSwitchTimer rat
  | StopSwitchTimer
  | StartCloseTimer cid
  | StopCloseTimer cid
  | StartSendFile string
  | InterruptFile
  | StartSendDragInfo cid
  | StartWriteToDropDir
  | ClearDraggingFilename
  | AddLockToScreenRule

record clipboard_info =
  ci_clipboard :: clipboard
  ci_data :: bytes
  ci_owner :: string
  ci_seqNum :: u32

record ('a, 'r) server =
  m_primaryClient :: cid
  m_proxies :: "cid \<Rightarrow> proxy option"
  m_clients :: "(string \<times> cid) list"
  m_clientSet :: "cid list"
  m_oldClients :: "cid list"
  m_active :: cid
  m_seqNum :: u32
  m_x :: int
  m_y :: int
  m_xDelta :: int
  m_yDelta :: int
  m_xDelta2 :: int
  m_yDelta2 :: int
  m_config :: "('a, 'r) config"
  m_clipboards :: "clipboard_info list"
  m_activeSaver :: "cid option"
  m_xSaver :: int
  m_ySaver :: int
  m_switchDir :: EDirection
  m_switchScreen :: "cid option"
  m_switchWaitDelay :: rat
  m_switchWaitTimer :: bool
  m_switchWaitX :: int
  m_switchWaitY :: int
  m_switchTwoTapDelay :: rat
  m_switchTwoTapTimer :: rat
  m_switchTwoTapEngaged :: bool
  m_switchTwoTapArmed :: bool
  m_switchTwoTapZone :: int
  m_switchNeedsShift :: bool
  m_switchNeedsControl :: bool
  m_switchNeedsAlt :: bool
  m_relativeMoves :: bool
  m_keyboardBroadcasting :: bool
  m_keyboardBroadcastingScreens :: string
  m_lockedToScreen :: bool
  m_sendFileThread :: bool
  m_ignoreFileTransfer :: bool
  m_enableClipboard :: bool
  m_maximumClipboardSize :: nat
  m_sendDragInfoThread :: bool
  m_waitDragInfoThread :: bool
  m_enableDragDrop :: bool
  m_trace :: "action list"

text \<open>
  What the platform screen, the clock and the file system answer while one event is handled, and
  whether the program was built with assertions.
\<close>

record env =
  ev_debug :: bool
  ev_toggleMask :: u32
  ev_locked :: bool
  ev_jumpZone :: int
  ev_canLeave :: bool
  ev_center :: "int \<times> int"
  ev_now :: rat
  ev_getClipboard :: "nat \<Rightarrow> (nat \<times> bytes) list option"
  ev_packageFileList :: "bytes \<Rightarrow> bytes option"
  ev_unpackFilePackage :: "bytes \<Rightarrow> bytes option"
  ev_isFilePackage :: "bytes \<Rightarrow> bool"
  ev_draggingStarted :: bool
  ev_onScreen :: bool
  ev_draggingFilename :: string

subsection \<open>Access to the proxies\<close>

definition sv_assert :: "env \<Rightarrow> bool \<Rightarrow> server_error + unit" where
  "sv_assert env b = (if b \<or> \<not> ev_debug env then Inr () else Inl AssertFailed)"

definition deref :: "('a, 'r) server \<Rightarrow> cid \<Rightarrow> server_error + proxy" where
  "deref s c = (case m_proxies s c of None \<Rightarrow> Inl DanglingPointer | Some p \<Rightarrow> Inr p)"

definition emit :: "action \<Rightarrow> ('a, 'r) server \<Rightarrow> ('a, 'r) server" where
  "emit a s = s\<lparr>m_trace := m_trace s @ [a]\<rparr>"

definition call :: "('a, 'r) server \<Rightarrow> cid \<Rightarrow> client_call \<Rightarrow> server_error + ('a, 'r) server" where
  "call s c m = and_then (deref s c) (\<lambda>p. Inr (emit (Call c m) s))"

definition set_proxy :: "cid \<Rightarrow> proxy \<Rightarrow> ('a, 'r) server \<Rightarrow> ('a, 'r) server" where
  "set_proxy c p s = s\<lparr>m_proxies := (m_proxies s)(c := Some p)\<rparr>"

definition getShape :: "('a, 'r) server \<Rightarrow> cid \<Rightarrow> server_error + shape" where
  "getShape s c = and_then (deref s c) (\<lambda>p. Inr (px_shape p))"

definition setJumpCursorPos :: "('a, 'r) server \<Rightarrow> cid \<Rightarrow> int \<Rightarrow> int \<Rightarrow> server_error + ('a, 'r) server" where
  "setJumpCursorPos s c x y = and_then (deref s c) (\<lambda>p. Inr (set_proxy c (p\<lparr>px_jump := (x, y)\<rparr>) s))"

definition getJumpCursorPos :: "('a, 'r) server \<Rightarrow> cid \<Rightarrow> server_error + int \<times> int" where
  "getJumpCursorPos s c = and_then (deref s c) (\<lambda>p. Inr (px_jump p))"

definition getCursorPos :: "('a, 'r) server \<Rightarrow> cid \<Rightarrow> server_error + int \<times> int" where
  "getCursorPos s c = and_then (deref s c) (\<lambda>p. Inr (px_cursor p))"

definition setClipboardDirty :: "('a, 'r) server \<Rightarrow> cid \<Rightarrow> nat \<Rightarrow> bool \<Rightarrow> server_error + ('a, 'r) server" where
  "setClipboardDirty s c i d =
     and_then (deref s c) (\<lambda>p. Inr (set_proxy c (p\<lparr>px_dirty := (px_dirty p)[i := d]\<rparr>) s))"

definition grabClipboard :: "('a, 'r) server \<Rightarrow> cid \<Rightarrow> nat \<Rightarrow> server_error + ('a, 'r) server" where
  "grabClipboard s c i = and_then (call s c (GrabClipboard i)) (\<lambda>s. setClipboardDirty s c i True)"

text \<open>\<^verbatim>\<open>Server::getName\<close>: the canonical name of a client, or the name it gave when it has none.\<close>

definition getName :: "('a, 'r) server \<Rightarrow> cid \<Rightarrow> server_error + string" where
  "getName s c =
     and_then (deref s c) (\<lambda>p.
     (let name = getCanonicalName (m_config s) (px_name p)
      in Inr (if name = [] then px_name p else name)))"

abbreviation find_client :: "('a, 'r) server \<Rightarrow> string \<Rightarrow> (string \<times> cid) option" where
  "find_client s n \<equiv> sm_find (<) n (m_clients s)"

definition lift_clip :: "clip_error + 'b \<Rightarrow> server_error + 'b" where
  "lift_clip r = (case r of Inl e \<Rightarrow> Inl (ClipboardFailed e) | Inr x \<Rightarrow> Inr x)"

text \<open>The connected clients are ordered by the names' characters.\<close>

lemma string_equiv [simp]: "sm_equiv (<) (a :: string) b \<longleftrightarrow> a = b"
  by (auto simp: sm_equiv_def)

interpretation cl: strict_weak_order "(<) :: string \<Rightarrow> string \<Rightarrow> bool"
  by unfold_locales (auto simp: sm_equiv_def)

subsection \<open>The members after construction\<close>

text \<open>
  The initialisers of the constructor. The position of the pointer, the saved position and the position
  to switch to have none: \<open>u\<close> is what the memory holds. \<open>heap\<close> are the proxies that exist.
\<close>

definition server_members :: "int \<Rightarrow> (cid \<Rightarrow> proxy option) \<Rightarrow> cid \<Rightarrow> ('a, 'r) config \<Rightarrow> bool \<Rightarrow>
    clipboard_info list \<Rightarrow> ('a, 'r) server" where
  "server_members u heap primary config dragDrop clips =
     \<lparr>m_primaryClient = primary, m_proxies = heap, m_clients = [], m_clientSet = [], m_oldClients = [],
      m_active = primary, m_seqNum = 0, m_x = u, m_y = u, m_xDelta = 0, m_yDelta = 0, m_xDelta2 = 0,
      m_yDelta2 = 0, m_config = config, m_clipboards = clips, m_activeSaver = None, m_xSaver = u, m_ySaver = u,
      m_switchDir = kNoDirection, m_switchScreen = None, m_switchWaitDelay = 0, m_switchWaitTimer = False,
      m_switchWaitX = u, m_switchWaitY = u, m_switchTwoTapDelay = 0, m_switchTwoTapTimer = 0,
      m_switchTwoTapEngaged = False, m_switchTwoTapArmed = False, m_switchTwoTapZone = 3,
      m_switchNeedsShift = False, m_switchNeedsControl = False, m_switchNeedsAlt = False,
      m_relativeMoves = False, m_keyboardBroadcasting = False, m_keyboardBroadcastingScreens = [],
      m_lockedToScreen = False, m_sendFileThread = False, m_ignoreFileTransfer = False,
      m_enableClipboard = True, m_maximumClipboardSize = 2147483647, m_sendDragInfoThread = False,
      m_waitDragInfoThread = True, m_enableDragDrop = dragDrop, m_trace = []\<rparr>"

text \<open>
  A small world for the witnesses: the server's own screen \<^verbatim>\<open>desk\<close> at address 0, a client \<^verbatim>\<open>pc\<close> to its right at
  address 1.
\<close>

definition full_edge :: "string \<Rightarrow> EDirection \<Rightarrow> cell_edge" where
  "full_edge n side = \<lparr>ce_name = n, ce_side = side, ce_first = 0, ce_second = 1\<rparr>"

definition link_cell :: "EDirection \<Rightarrow> string \<Rightarrow> EDirection \<Rightarrow> cell" where
  "link_cell side n back = \<lparr>m_neighbors = [(full_edge [] side, full_edge n back)], m_options = []\<rparr>"

definition linked_pair :: "string \<Rightarrow> cell \<Rightarrow> string \<Rightarrow> cell \<Rightarrow> (unit, unit) config" where
  "linked_pair a x b y = \<lparr>cfg_map = [(a, x), (b, y)], cfg_names = [(a, a), (b, b)], cfg_listen_address = (),
     cfg_globalOptions = [], cfg_rules = [], cfg_hasLockToScreenAction = False\<rparr>"

definition pair_config :: "(unit, unit) config" where
  "pair_config = linked_pair ''desk'' (link_cell kRight ''pc'' kLeft) ''pc'' (link_cell kLeft ''desk'' kRight)"

definition sample_proxy :: "bool \<Rightarrow> string \<Rightarrow> int \<Rightarrow> int \<Rightarrow> proxy" where
  "sample_proxy prim n w h = \<lparr>px_primary = prim, px_name = n, px_shape = (0, 0, w, h), px_cursor = (w div 2, h div 2),
     px_jump = (w div 2, h div 2), px_dirty = [\<not> prim, \<not> prim], px_clipboards = [sample_clip, sample_clip]\<rparr>"

definition sample_heap :: "cid \<Rightarrow> proxy option" where
  "sample_heap = [0 \<mapsto> sample_proxy True ''desk'' 100 50, 1 \<mapsto> sample_proxy False ''pc'' 60 40]"

definition sample_info :: "clipboard_info" where
  "sample_info = \<lparr>ci_clipboard = sample_clip, ci_data = [], ci_owner = ''pc'', ci_seqNum = 0\<rparr>"

definition sample_server :: "(unit, unit) server" where
  "sample_server = (server_members 10 sample_heap 0 pair_config False [sample_info, sample_info])
     \<lparr>m_clients := [(''desk'', 0), (''pc'', 1)], m_clientSet := [0, 1]\<rparr>"

definition sample_env :: env where
  "sample_env = \<lparr>ev_debug = True, ev_toggleMask = 0, ev_locked = False, ev_jumpZone = 1, ev_canLeave = True,
     ev_center = (50, 25), ev_now = 0, ev_getClipboard = (\<lambda>_. None), ev_packageFileList = (\<lambda>_. None),
     ev_unpackFilePackage = (\<lambda>_. None), ev_isFilePackage = (\<lambda>_. False), ev_draggingStarted = False,
     ev_onScreen = True, ev_draggingFilename = []\<rparr>"

lemma full_edge_valid: "side \<noteq> kNoDirection \<Longrightarrow> edge_valid (full_edge n side)"
  by (simp add: full_edge_def edge_valid_def)

lemma link_cell_ok: "side \<noteq> kNoDirection \<Longrightarrow> back \<noteq> kNoDirection \<Longrightarrow> links_ok (m_neighbors (link_cell side n back))"
  by (simp add: link_cell_def links_ok_def full_edge_valid)

lemma linked_pair_inv:
  assumes "links_ok (m_neighbors x)" "links_ok (m_neighbors y)" "caseless_less a b"
  shows "cfg_inv (linked_pair a x b y)"
  using assms by (auto simp: cfg_inv_def linked_pair_def)

lemma pair_config_inv: "cfg_inv pair_config"
proof -
  have "caseless_less ''desk'' ''pc''" by code_simp
  then show ?thesis unfolding pair_config_def by (intro linked_pair_inv link_cell_ok) simp_all
qed

end
