(* ===== verification/ServerGeometry.thy ===== *)
theory ServerGeometry
  imports ServerState
begin

text \<open>
  Finding the screen the pointer moves to: \<^verbatim>\<open>mapToFraction\<close>, \<^verbatim>\<open>mapToPixel\<close>, \<^verbatim>\<open>getNeighbor\<close>, \<^verbatim>\<open>mapToNeighbor\<close>,
  \<^verbatim>\<open>avoidJumpZone\<close> and \<^verbatim>\<open>getCorner\<close> of \<^verbatim>\<open>src/lib/server/Server.cpp\<close>. Both searches are loops that the code
  does not bound. They are partial functions; a loop that never ends is the error \<open>NeverReturns\<close>. The
  lemmas say when they end, which screen they find and where the position lies on it. Fractions of an
  edge are \<^verbatim>\<open>float\<close>: every conversion, sum, product and quotient is rounded to single precision.
\<close>

subsection \<open>Definitions\<close>

text \<open>Conversion of \<^verbatim>\<open>float\<close> to \<^verbatim>\<open>int32_t\<close> truncates towards zero.\<close>

definition truncate_rat :: "rat \<Rightarrow> int" where
  "truncate_rat q = (if 0 \<le> q then \<lfloor>q\<rfloor> else \<lceil>q\<rceil>)"

definition mapToFraction :: "shape \<Rightarrow> EDirection \<Rightarrow> int \<Rightarrow> int \<Rightarrow> server_error + rat" where
  "mapToFraction sh dir x y =
     (let (sx, sy, sw, sh) = sh in
      case dir of
        kLeft \<Rightarrow> Inr (fl32 (fl32 (fl32 (of_int (y - sy)) + 1/2) / fl32 (of_int sh)))
      | kRight \<Rightarrow> Inr (fl32 (fl32 (fl32 (of_int (y - sy)) + 1/2) / fl32 (of_int sh)))
      | kTop \<Rightarrow> Inr (fl32 (fl32 (fl32 (of_int (x - sx)) + 1/2) / fl32 (of_int sw)))
      | kBottom \<Rightarrow> Inr (fl32 (fl32 (fl32 (of_int (x - sx)) + 1/2) / fl32 (of_int sw)))
      | kNoDirection \<Rightarrow> Inl AssertFailed)"

definition mapToPixel :: "shape \<Rightarrow> EDirection \<Rightarrow> rat \<Rightarrow> int \<Rightarrow> int \<Rightarrow> server_error + int \<times> int" where
  "mapToPixel sh dir f x y =
     (let (sx, sy, sw, sh) = sh in
      case dir of
        kLeft \<Rightarrow> Inr (x, truncate_rat (fl32 (f * fl32 (of_int sh))) + sy)
      | kRight \<Rightarrow> Inr (x, truncate_rat (fl32 (f * fl32 (of_int sh))) + sy)
      | kTop \<Rightarrow> Inr (truncate_rat (fl32 (f * fl32 (of_int sw))) + sx, y)
      | kBottom \<Rightarrow> Inr (truncate_rat (fl32 (f * fl32 (of_int sw))) + sx, y)
      | kNoDirection \<Rightarrow> Inl AssertFailed)"

definition hasAnyNeighbor :: "('a, 'r) server \<Rightarrow> cid \<Rightarrow> EDirection \<Rightarrow> server_error + bool" where
  "hasAnyNeighbor s c dir =
     and_then (getName s c) (\<lambda>n.
     case hasNeighbor (m_config s) n dir 0 1 of None \<Rightarrow> Inl AssertFailed | Some b \<Rightarrow> Inr b)"

text \<open>The loop of \<^verbatim>\<open>Server::getNeighbor\<close>: screens that are not connected are skipped.\<close>

partial_function (option) neighbor_search ::
    "('a, 'r) server \<Rightarrow> EDirection \<Rightarrow> string \<Rightarrow> rat \<Rightarrow> (cid \<times> rat) option option" where
  "neighbor_search s dir srcName t =
     (case getNeighbor (m_config s) srcName dir t of
        (dstName, None) \<Rightarrow> Some None
      | (dstName, Some tTmp) \<Rightarrow>
          if dstName = [] then Some None
          else case find_client s dstName of
                 Some (_, c) \<Rightarrow> Some (Some (c, tTmp))
               | None \<Rightarrow> neighbor_search s dir dstName tTmp)"

definition sv_getNeighbor :: "('a, 'r) server \<Rightarrow> cid \<Rightarrow> EDirection \<Rightarrow> int \<Rightarrow> int \<Rightarrow>
    server_error + cid option \<times> int \<times> int" where
  "sv_getNeighbor s src dir x y =
     and_then (getName s src) (\<lambda>srcName.
     and_then (getShape s src) (\<lambda>sh.
     and_then (mapToFraction sh dir x y) (\<lambda>t.
     case neighbor_search s dir srcName t of
       None \<Rightarrow> Inl NeverReturns
     | Some None \<Rightarrow> Inr (None, x, y)
     | Some (Some (dst, tTmp)) \<Rightarrow>
         and_then (getShape s dst) (\<lambda>dsh.
         and_then (mapToPixel dsh dir tTmp x y) (\<lambda>(x, y). Inr (Some dst, x, y))))))"

text \<open>
  The four loops of \<^verbatim>\<open>mapToNeighbor\<close> in one: \<open>walk_move\<close> is the adjustment of the position on the way from
  the screen left behind to the next one, \<open>walk_done\<close> the test that the position lies on the next one.
\<close>

fun walk_move :: "EDirection \<Rightarrow> shape \<Rightarrow> shape \<Rightarrow> int \<Rightarrow> int \<Rightarrow> int \<times> int" where
  "walk_move kLeft (_, _, lw, lh) (_, _, dw, dh) x y = (x + dw, y)"
| "walk_move kRight (_, _, lw, lh) (_, _, dw, dh) x y = (x - lw, y)"
| "walk_move kTop (_, _, lw, lh) (_, _, dw, dh) x y = (x, y + dh)"
| "walk_move kBottom (_, _, lw, lh) (_, _, dw, dh) x y = (x, y - lh)"
| "walk_move kNoDirection _ _ x y = (x, y)"

fun walk_done :: "EDirection \<Rightarrow> shape \<Rightarrow> int \<Rightarrow> int \<Rightarrow> bool" where
  "walk_done kLeft (_, _, dw, dh) x y = (0 \<le> x)"
| "walk_done kRight (_, _, dw, dh) x y = (x < dw)"
| "walk_done kTop (_, _, dw, dh) x y = (0 \<le> y)"
| "walk_done kBottom (_, _, dw, dh) x y = (y < dh)"
| "walk_done kNoDirection _ x y = True"

partial_function (option) walk :: "('a, 'r) server \<Rightarrow> EDirection \<Rightarrow> cid option \<Rightarrow> cid \<Rightarrow> shape \<Rightarrow>
    int \<Rightarrow> int \<Rightarrow> (server_error + cid \<times> shape \<times> int \<times> int) option" where
  "walk s dir dst lastGoodScreen sh x y =
     (case dst of
        None \<Rightarrow> Some (Inr (lastGoodScreen, sh, x, y))
      | Some d \<Rightarrow>
          (case getShape s d of
             Inl e \<Rightarrow> Some (Inl e)
           | Inr dsh \<Rightarrow>
               (let (x1, y1) = walk_move dir sh dsh x y in
                if walk_done dir dsh x1 y1 then Some (Inr (d, dsh, x1, y1))
                else case sv_getNeighbor s d dir x1 y1 of
                       Inl e \<Rightarrow> Some (Inl e)
                     | Inr (n, x2, y2) \<Rightarrow> walk s dir n d dsh x2 y2)))"

definition getJumpZoneSize :: "env \<Rightarrow> ('a, 'r) server \<Rightarrow> cid \<Rightarrow> int" where
  "getJumpZoneSize env s c = (if c = m_primaryClient s then ev_jumpZone env else 0)"

definition avoidJumpZone :: "env \<Rightarrow> ('a, 'r) server \<Rightarrow> cid \<Rightarrow> EDirection \<Rightarrow> int \<Rightarrow> int \<Rightarrow>
    server_error + int \<times> int" where
  "avoidJumpZone env s dst dir x y =
     (if dst \<noteq> m_primaryClient s then Inr (x, y)
      else
        and_then (getName s dst) (\<lambda>dstName.
        and_then (getShape s dst) (\<lambda>sh.
        and_then (mapToFraction sh dir x y) (\<lambda>t.
        let (dx, dy, dw, dh) = sh;
            z = getJumpZoneSize env s dst;
            linked = (\<lambda>side. fst (getNeighbor (m_config s) dstName side t) \<noteq> [])
        in case dir of
             kLeft \<Rightarrow> Inr (if linked kRight \<and> dx + dw - 1 - z < x then (dx + dw - 1 - z, y) else (x, y))
           | kRight \<Rightarrow> Inr (if linked kLeft \<and> x < dx + z then (dx + z, y) else (x, y))
           | kTop \<Rightarrow> Inr (if linked kBottom \<and> dy + dh - 1 - z < y then (x, dy + dh - 1 - z) else (x, y))
           | kBottom \<Rightarrow> Inr (if linked kTop \<and> y < dy + z then (x, dy + z) else (x, y))
           | kNoDirection \<Rightarrow> Inl AssertFailed))))"

text \<open>The position relative to a screen's corner along the direction of the search, and back.\<close>

fun to_canonical :: "EDirection \<Rightarrow> shape \<Rightarrow> int \<Rightarrow> int \<Rightarrow> int \<times> int" where
  "to_canonical dir (dx, dy, _, _) x y =
     (if dir = kLeft \<or> dir = kRight then (x - dx, y) else (x, y - dy))"

fun from_canonical :: "EDirection \<Rightarrow> shape \<Rightarrow> int \<Rightarrow> int \<Rightarrow> int \<times> int" where
  "from_canonical dir (dx, dy, _, _) x y =
     (if dir = kLeft \<or> dir = kRight then (x + dx, y) else (x, y + dy))"

definition mapToNeighbor :: "env \<Rightarrow> ('a, 'r) server \<Rightarrow> cid \<Rightarrow> EDirection \<Rightarrow> int \<Rightarrow> int \<Rightarrow>
    server_error + cid option \<times> int \<times> int" where
  "mapToNeighbor env s src srcSide x y =
     and_then (sv_getNeighbor s src srcSide x y) (\<lambda>(dst, x, y).
     if dst = None then Inr (None, x, y)
     else
       and_then (getShape s src) (\<lambda>sh.
       if srcSide = kNoDirection then Inl AssertFailed
       else
         (let (x, y) = to_canonical srcSide sh x y in
          and_then (case walk s srcSide dst src sh x y of None \<Rightarrow> Inl NeverReturns | Some r \<Rightarrow> r)
            (\<lambda>(d, dsh, x, y).
             let (x, y) = from_canonical srcSide dsh x y in
             and_then (avoidJumpZone env s d srcSide x y) (\<lambda>(x, y). Inr (Some d, x, y))))))"

definition getCorner :: "('a, 'r) server \<Rightarrow> cid \<Rightarrow> int \<Rightarrow> int \<Rightarrow> int \<Rightarrow> server_error + u32" where
  "getCorner s c x y sz =
     and_then (getShape s c) (\<lambda>(ax, ay, aw, ah).
     let xSide = (if x \<le> ax then -1 else if ax + aw - 1 \<le> x then 1 else 0 :: int);
         ySide = (if y \<le> ay then -1 else if ay + ah - 1 \<le> y then 1 else 0 :: int)
     in Inr (if xSide \<noteq> 0 \<and> y < ay + sz then (if xSide < 0 then kTopLeftMask else kTopRightMask)
             else if xSide \<noteq> 0 \<and> ay + ah - sz \<le> y then (if xSide < 0 then kBottomLeftMask else kBottomRightMask)
             else if ySide \<noteq> 0 \<and> x < ax + sz then (if ySide < 0 then kTopLeftMask else kBottomLeftMask)
             else if ySide \<noteq> 0 \<and> ax + aw - sz \<le> x then (if ySide < 0 then kTopRightMask else kBottomRightMask)
             else kNoCornerMask))"

subsection \<open>When the search over unconnected screens ends\<close>

text \<open>One step of the search: from a screen to its neighbour, when the neighbour is not connected.\<close>

definition skip_edges :: "('a, 'r) server \<Rightarrow> EDirection \<Rightarrow> (string \<times> string) set" where
  "skip_edges s dir = {(n, d). n \<in> snd ` set (cfg_names (m_config s)) \<and> d \<noteq> [] \<and> find_client s d = None \<and>
     (\<exists>t t'. getNeighbor (m_config s) n dir t = (d, Some t'))}"

lemma getNeighbor_target: "getNeighbor c n dir t = (d, Some t') \<Longrightarrow> d \<noteq> [] \<Longrightarrow> d \<in> snd ` set (cfg_names c)"
  by (force simp: getNeighbor_def getCanonicalName_def split: option.splits prod.splits dest: sm_find_member)

lemma finite_skip_edges: "finite (skip_edges s dir)"
proof (rule finite_subset)
  let ?T = "snd ` set (cfg_names (m_config s))"
  show "skip_edges s dir \<subseteq> ?T \<times> ?T" by (auto simp: skip_edges_def dest: getNeighbor_target)
qed simp

lemma neighbor_search_known:
  assumes "acyclic (skip_edges s dir)" "n \<in> snd ` set (cfg_names (m_config s))"
  shows "\<exists>r. neighbor_search s dir n t = Some r"
proof -
  have "wf ((skip_edges s dir)\<inverse>)" using finite_skip_edges assms(1) by (rule finite_acyclic_wf_converse)
  then show ?thesis using assms(2)
  proof (induction n arbitrary: t rule: wf_induct_rule)
    case (less n)
    obtain d q where g: "getNeighbor (m_config s) n dir t = (d, q)" by force
    show ?case
    proof (cases "q = None \<or> d = [] \<or> find_client s d \<noteq> None")
      case True
      then show ?thesis using g by (subst neighbor_search.simps) (auto split: option.splits)
    next
      case False
      then obtain t' where q: "q = Some t'" and new: "d \<noteq> []" "find_client s d = None" by fast
      have "(d, n) \<in> (skip_edges s dir)\<inverse>" using new less.prems g q by (auto simp: skip_edges_def)
      from less.IH [OF this] getNeighbor_target [of "m_config s" n dir t d t'] g q new
      show ?thesis by (subst neighbor_search.simps) auto
    qed
  qed
qed

lemma neighbor_search_total:
  assumes "acyclic (skip_edges s dir)"
  shows "\<exists>r. neighbor_search s dir n t = Some r"
proof -
  obtain d q where g: "getNeighbor (m_config s) n dir t = (d, q)" by force
  show ?thesis
  proof (cases "q = None \<or> d = [] \<or> find_client s d \<noteq> None")
    case True
    then show ?thesis using g by (subst neighbor_search.simps) (auto split: option.splits)
  next
    case False
    then obtain t' where q: "q = Some t'" and new: "d \<noteq> []" "find_client s d = None" by fast
    have "\<exists>r. neighbor_search s dir d t' = Some r"
      using neighbor_search_known [OF assms] getNeighbor_target [of "m_config s" n dir t d t'] g q new(1) by blast
    then show ?thesis using g q new by (subst neighbor_search.simps) simp
  qed
qed

text \<open>
  The screen that a position leads to in a direction: the first connected one when unconnected screens are skipped,
  with the position on it.
\<close>

inductive leads :: "('a, 'r) server \<Rightarrow> EDirection \<Rightarrow> string \<Rightarrow> rat \<Rightarrow> cid \<Rightarrow> rat \<Rightarrow> bool" for s dir where
  found: "\<lbrakk>getNeighbor (m_config s) n dir t = (d, Some u); d \<noteq> []; find_client s d = Some (k, c)\<rbrakk> \<Longrightarrow>
    leads s dir n t c u"
| skip: "\<lbrakk>getNeighbor (m_config s) n dir t = (d, Some v); d \<noteq> []; find_client s d = None; leads s dir d v c u\<rbrakk> \<Longrightarrow>
    leads s dir n t c u"

lemma leads_search: "leads s dir n t c u \<Longrightarrow> neighbor_search s dir n t = Some (Some (c, u))"
proof (induction rule: leads.induct)
  case (found n t d u k c)
  then show ?case by (subst neighbor_search.simps) simp
next
  case (skip n t d v c u)
  then show ?case by (subst neighbor_search.simps) simp
qed

lemma search_leads:
  fixes s :: "('a, 'r) server"
  assumes "neighbor_search s dir n t = Some (Some (c, u))"
  shows "leads s dir n t c u"
proof -
  have "\<forall>c u. r = Some (c, u) \<longrightarrow> leads s dir n t c u" if "neighbor_search s dir n t = Some r"
    for s :: "('a, 'r) server" and dir n t r
  proof (rule neighbor_search.raw_induct [OF _ that])
    fix f s' dir' n' t' r'
    assume IH: "\<And>s dir n t r. f s dir n t = Some r \<Longrightarrow> \<forall>c u. r = Some (c, u) \<longrightarrow> leads s dir n t c u"
      and eq: "(case getNeighbor (m_config s') n' dir' t' of
        (dstName, None) \<Rightarrow> Some None
      | (dstName, Some tTmp) \<Rightarrow>
          if dstName = [] then Some None
          else case find_client s' dstName of
                 Some (_, c) \<Rightarrow> Some (Some (c, tTmp))
               | None \<Rightarrow> f s' dir' dstName tTmp) = Some r'"
    show "\<forall>c u. r' = Some (c, u) \<longrightarrow> leads s' dir' n' t' c u"
    proof (intro allI impI)
      fix c u assume r: "r' = Some (c, u)"
      obtain d v where g: "getNeighbor (m_config s') n' dir' t' = (d, Some v)" "d \<noteq> []"
        using eq r by (cases "getNeighbor (m_config s') n' dir' t'"; cases "snd (getNeighbor (m_config s') n' dir' t')")
          (auto split: if_splits)
      show "leads s' dir' n' t' c u"
      proof (cases "find_client s' d")
        case None
        then have "f s' dir' d v = Some r'" using eq g by simp
        then show ?thesis using IH r None g leads.skip by blast
      next
        case (Some e)
        then have "c = snd e" "v = u" using eq g r by (cases e; simp)+
        then show ?thesis using g Some leads.found [of s' n' dir' t' d u "fst e" "snd e"] by simp
      qed
    qed
  qed
  then show ?thesis using assms by blast
qed

lemma search_leads_iff: "neighbor_search s dir n t = Some (Some (c, u)) \<longleftrightarrow> leads s dir n t c u"
  using leads_search search_leads by blast

text \<open>A single step of the search, with positions.\<close>

definition skip_steps :: "('a, 'r) server \<Rightarrow> EDirection \<Rightarrow> ((string \<times> rat) \<times> string \<times> rat) set" where
  "skip_steps s dir = {((n, t), (d, u)). getNeighbor (m_config s) n dir t = (d, Some u) \<and> d \<noteq> [] \<and> find_client s d = None}"

lemma skip_steps_unique: "(a, b) \<in> skip_steps s dir \<Longrightarrow> (a, c) \<in> skip_steps s dir \<Longrightarrow> b = c"
  by (auto simp: skip_steps_def)

lemma skip_steps_search:
  "((n, t), (d, u)) \<in> skip_steps s dir \<Longrightarrow> neighbor_search s dir n t = neighbor_search s dir d u"
  by (subst neighbor_search.simps) (simp add: skip_steps_def)

lemma skip_steps_stop:
  assumes "\<And>b. ((n, t), b) \<notin> skip_steps s dir"
  shows "\<exists>r. neighbor_search s dir n t = Some r"
  using assms by (subst neighbor_search.simps) (auto simp: skip_steps_def split: prod.splits option.splits)

lemma skip_steps_rtrancl_search:
  assumes "(a, b) \<in> (skip_steps s dir)\<^sup>*"
  shows "neighbor_search s dir (fst a) (snd a) = neighbor_search s dir (fst b) (snd b)"
  using assms
proof (induction rule: rtrancl_induct)
  case (step b c)
  then show ?case using skip_steps_search [of "fst b" "snd b" "fst c" "snd c"] by simp
qed simp

text \<open>In a relation with unique successors every successor of a point on a circle lies on the circle.\<close>

lemma circle_returns:
  assumes unique: "\<And>a b c. (a, b) \<in> r \<Longrightarrow> (a, c) \<in> r \<Longrightarrow> b = c"
    and circle: "(a, a) \<in> r\<^sup>+" and "(a, b) \<in> r\<^sup>*"
  shows "(b, a) \<in> r\<^sup>*"
  using assms(3)
proof (induction rule: rtrancl_induct)
  case (step b c)
  have "(b, a) \<in> r\<^sup>+" using step.IH circle by (rule rtrancl_trancl_trancl)
  then obtain d where "(b, d) \<in> r" "(d, a) \<in> r\<^sup>*" by (meson tranclD)
  then show ?case using unique step.hyps(2) by blast
qed simp

text \<open>The positions a search can visit are finite: a name of the configuration and a float from 0 to 1.\<close>

lemma finite_unit_floats: "finite {x. is_float x \<and> 0 \<le> x \<and> x \<le> 1}"
proof (rule finite_subset)
  show "{x. is_float x \<and> 0 \<le> x \<and> x \<le> 1} \<subseteq> (\<lambda>m. of_int m * two_to (- 149)) ` {0..2 ^ 149}"
  proof
    fix x :: rat assume "x \<in> {x. is_float x \<and> 0 \<le> x \<and> x \<le> 1}"
    then obtain m where x: "x = of_int m * two_to (- 149)" "0 \<le> x" "x \<le> 1" using is_float_grid by blast
    have one: "1 = of_int (2 ^ 149) * two_to (- 149)" by (simp add: power_int_minus)
    have "0 \<le> m" using x(1,2) by (simp add: zero_le_mult_iff)
    moreover have "m \<le> 2 ^ 149"
      using x(3) unfolding x(1) by (subst (asm) one) (simp only: mult_le_cancel_right_pos two_to_pos of_int_le_iff)
    ultimately show "x \<in> (\<lambda>m. of_int m * two_to (- 149)) ` {0..2 ^ 149}" using x(1) by simp
  qed
qed simp

lemma skip_steps_target:
  assumes "cfg_inv (m_config s)" "dir \<noteq> kNoDirection" "(a, (d, u)) \<in> skip_steps s dir"
  shows "d \<in> snd ` set (cfg_names (m_config s))" "is_float u \<and> 0 \<le> u \<and> u \<le> 1"
proof -
  have g: "getNeighbor (m_config s) (fst a) dir (snd a) = (d, Some u)" "d \<noteq> []"
    using assms(3) by (auto simp: skip_steps_def)
  show "d \<in> snd ` set (cfg_names (m_config s))" using getNeighbor_target [OF g] .
  show "is_float u \<and> 0 \<le> u \<and> u \<le> 1" using getNeighbor_range [OF assms(1) g(1) assms(2)] by simp
qed

lemma search_circle:
  assumes inv: "cfg_inv (m_config s)" "dir \<noteq> kNoDirection" and none: "neighbor_search s dir n t = None"
  shows "\<exists>a. ((n, t), a) \<in> (skip_steps s dir)\<^sup>* \<and> (a, a) \<in> (skip_steps s dir)\<^sup>+"
proof (rule ccontr)
  let ?r = "skip_steps s dir"
  let ?R = "?r \<inter> {a. ((n, t), a) \<in> ?r\<^sup>*} \<times> UNIV"
  assume no: "\<not> ?thesis"
  let ?F = "snd ` set (cfg_names (m_config s)) \<times> {x. is_float x \<and> 0 \<le> x \<and> x \<le> 1}"
  have "?R \<subseteq> insert (n, t) ?F \<times> ?F"
  proof
    fix e assume "e \<in> ?R"
    then obtain a d u where e: "e = (a, (d, u))" "(a, (d, u)) \<in> ?r" "((n, t), a) \<in> ?r\<^sup>*" by (cases e) auto
    have "(d, u) \<in> ?F" using skip_steps_target [OF inv e(2)] by simp
    moreover have "a \<in> insert (n, t) ?F"
      using e(3)
    proof (cases rule: rtranclE)
      case (step b)
      then show ?thesis using skip_steps_target [OF inv, of b "fst a" "snd a"] by (simp add: mem_Times_iff)
    qed simp
    ultimately show "e \<in> insert (n, t) ?F \<times> ?F" by (simp add: e(1))
  qed
  then have "finite ?R" by (rule finite_subset) (intro finite_cartesian_product finite.insertI finite_unit_floats; simp)
  moreover have "acyclic ?R"
  proof (rule acyclicI, rule allI, rule notI)
    fix a assume c: "(a, a) \<in> ?R\<^sup>+"
    then have "((n, t), a) \<in> ?r\<^sup>*" by (auto dest: tranclD)
    moreover have "(a, a) \<in> ?r\<^sup>+" using c by (rule trancl_mono) simp
    ultimately show False using no by blast
  qed
  ultimately have wf: "wf (?R\<inverse>)" by (rule finite_acyclic_wf_converse)
  have "((n, t), a) \<in> ?r\<^sup>* \<longrightarrow> neighbor_search s dir (fst a) (snd a) \<noteq> None" for a
    using wf
  proof (induction a rule: wf_induct_rule)
    case (less a)
    show ?case
    proof (rule impI, cases "\<exists>b. (a, b) \<in> ?r")
      case False
      then show "neighbor_search s dir (fst a) (snd a) \<noteq> None" using skip_steps_stop [of "fst a" "snd a" s dir] by auto
    next
      case True
      assume a: "((n, t), a) \<in> ?r\<^sup>*"
      obtain b where b: "(a, b) \<in> ?r" using True by blast
      have "(b, a) \<in> ?R\<inverse>" "((n, t), b) \<in> ?r\<^sup>*" using a b by auto
      then show "neighbor_search s dir (fst a) (snd a) \<noteq> None"
        using less.IH skip_steps_rtrancl_search [OF r_into_rtrancl [OF b]] by simp
    qed
  qed
  from this [of "(n, t)"] none show False by simp
qed

text \<open>Positions on unconnected screens that lead to each other for ever.\<close>

definition endless :: "('a, 'r) server \<Rightarrow> EDirection \<Rightarrow> (string \<times> rat) set \<Rightarrow> bool" where
  "endless s dir S \<longleftrightarrow> (\<forall>(n, t) \<in> S. \<exists>d t'. getNeighbor (m_config s) n dir t = (d, Some t') \<and> d \<noteq> [] \<and>
     find_client s d = None \<and> (d, t') \<in> S)"

lemma neighbor_search_endless:
  assumes "endless s dir S" "(n, t) \<in> S"
  shows "neighbor_search s dir n t = None"
proof -
  have "endless s dir S \<longrightarrow> (n, t) \<notin> S" if "neighbor_search s dir n t = Some r" for r n t
  proof (rule neighbor_search.raw_induct [OF _ that])
    fix f s' dir' n' t' r'
    assume IH: "\<And>s dir n t r. f s dir n t = Some r \<Longrightarrow> endless s dir S \<longrightarrow> (n, t) \<notin> S"
      and eq: "(case getNeighbor (m_config s') n' dir' t' of
        (dstName, None) \<Rightarrow> Some None
      | (dstName, Some tTmp) \<Rightarrow>
          if dstName = [] then Some None
          else case find_client s' dstName of
                 Some (_, c) \<Rightarrow> Some (Some (c, tTmp))
               | None \<Rightarrow> f s' dir' dstName tTmp) = Some r'"
    show "endless s' dir' S \<longrightarrow> (n', t') \<notin> S"
    proof (rule impI, rule notI)
      assume e: "endless s' dir' S" and i: "(n', t') \<in> S"
      then obtain d u where d: "getNeighbor (m_config s') n' dir' t' = (d, Some u)" "d \<noteq> []"
          "find_client s' d = None" "(d, u) \<in> S"
        by (fastforce simp: endless_def)
      then have "f s' dir' d u = Some r'" using eq by simp
      from IH [OF this] e d(4) show False by simp
    qed
  qed
  then show ?thesis using assms by (cases "neighbor_search s dir n t") auto
qed

lemma skip_steps_circle:
  assumes "((n, t), a) \<in> (skip_steps s dir)\<^sup>*" "(a, a) \<in> (skip_steps s dir)\<^sup>+"
  shows "neighbor_search s dir n t = None"
proof -
  let ?r = "skip_steps s dir"
  have "endless s dir {b. (a, b) \<in> ?r\<^sup>*}"
    unfolding endless_def
  proof (rule ballI)
    fix b assume "b \<in> {b. (a, b) \<in> ?r\<^sup>*}"
    then have b: "(a, b) \<in> ?r\<^sup>*" by simp
    have "(b, a) \<in> ?r\<^sup>*" using skip_steps_unique assms(2) b by (rule circle_returns)
    then have "(b, a) \<in> ?r\<^sup>+" using assms(2) by (rule rtrancl_trancl_trancl)
    then obtain c where c: "(b, c) \<in> ?r" by (meson tranclD)
    then have "(a, c) \<in> ?r\<^sup>*" using b by (rule rtrancl_into_rtrancl [rotated])
    then show "case b of (n, t) \<Rightarrow> \<exists>d t'. getNeighbor (m_config s) n dir t = (d, Some t') \<and> d \<noteq> [] \<and>
        find_client s d = None \<and> (d, t') \<in> {b. (a, b) \<in> ?r\<^sup>*}"
      using c by (cases b; cases c) (simp add: skip_steps_def)
  qed
  then have "neighbor_search s dir (fst a) (snd a) = None" by (rule neighbor_search_endless) simp
  then show ?thesis using skip_steps_rtrancl_search [OF assms(1)] by simp
qed

subsection \<open>Positions relative to a screen\<close>

fun on_screen :: "shape \<Rightarrow> int \<Rightarrow> int \<Rightarrow> bool" where
  "on_screen (sx, sy, sw, sh) x y \<longleftrightarrow> sx \<le> x \<and> x < sx + sw \<and> sy \<le> y \<and> y < sy + sh"

definition horizontal :: "EDirection \<Rightarrow> bool" where
  "horizontal dir \<longleftrightarrow> dir = kLeft \<or> dir = kRight"

definition backward :: "EDirection \<Rightarrow> bool" where
  "backward dir \<longleftrightarrow> dir = kLeft \<or> dir = kTop"

text \<open>The coordinate a move in a direction changes, and the extent of a screen along it.\<close>

definition along :: "EDirection \<Rightarrow> int \<Rightarrow> int \<Rightarrow> int" where
  "along dir x y = (if horizontal dir then x else y)"

fun extent :: "EDirection \<Rightarrow> shape \<Rightarrow> int" where
  "extent dir (sx, sy, sw, sh) = (if horizontal dir then sw else sh)"

fun origin :: "EDirection \<Rightarrow> shape \<Rightarrow> int" where
  "origin dir (sx, sy, sw, sh) = (if horizontal dir then sx else sy)"

text \<open>The other coordinate, the size of a screen along it, and where it starts.\<close>

definition across :: "EDirection \<Rightarrow> int \<Rightarrow> int \<Rightarrow> int" where
  "across dir x y = (if horizontal dir then y else x)"

fun breadth :: "EDirection \<Rightarrow> shape \<Rightarrow> int" where
  "breadth dir (sx, sy, sw, sh) = (if horizontal dir then sh else sw)"

fun corner :: "EDirection \<Rightarrow> shape \<Rightarrow> int" where
  "corner dir (sx, sy, sw, sh) = (if horizontal dir then sy else sx)"

text \<open>That coordinate lies within the screen, or within it and the one pixel that follows it.\<close>

definition beside :: "EDirection \<Rightarrow> shape \<Rightarrow> int \<Rightarrow> int \<Rightarrow> bool" where
  "beside dir sh x y \<longleftrightarrow> corner dir sh \<le> across dir x y \<and> across dir x y < corner dir sh + breadth dir sh"

definition flush :: "EDirection \<Rightarrow> shape \<Rightarrow> int \<Rightarrow> int \<Rightarrow> bool" where
  "flush dir sh x y \<longleftrightarrow> corner dir sh \<le> across dir x y \<and> across dir x y \<le> corner dir sh + breadth dir sh"

text \<open>The pixel across for a fraction of the edge.\<close>

definition pixel :: "EDirection \<Rightarrow> shape \<Rightarrow> rat \<Rightarrow> int" where
  "pixel dir sh f = truncate_rat (fl32 (f * fl32 (of_int (breadth dir sh)))) + corner dir sh"

text \<open>A distance from the origin that is past the side the direction names.\<close>

definition past :: "EDirection \<Rightarrow> shape \<Rightarrow> int \<Rightarrow> bool" where
  "past dir sh a \<longleftrightarrow> (if backward dir then a < 0 else extent dir sh \<le> a)"

definition beyond :: "EDirection \<Rightarrow> shape \<Rightarrow> int \<Rightarrow> int \<Rightarrow> bool" where
  "beyond dir sh x y \<longleftrightarrow> past dir sh (along dir x y - origin dir sh)"

text \<open>How far past the side a position lies.\<close>

definition overshoot :: "EDirection \<Rightarrow> shape \<Rightarrow> int \<Rightarrow> int \<Rightarrow> int" where
  "overshoot dir sh x y =
     (let a = along dir x y - origin dir sh in if backward dir then - a else a - extent dir sh + 1)"

text \<open>A size that is not empty and that single precision holds exactly; the protocol sends sizes in 16 bits.\<close>

fun has_area :: "shape \<Rightarrow> bool" where
  "has_area (sx, sy, sw, sh) \<longleftrightarrow> 0 < sw \<and> sw \<le> 2 ^ 24 \<and> 0 < sh \<and> sh \<le> 2 ^ 24"

lemmas position_defs = horizontal_def backward_def along_def across_def past_def beyond_def overshoot_def

lemma on_screen_split:
  "on_screen sh x y \<longleftrightarrow> beside dir sh x y \<and> 0 \<le> along dir x y - origin dir sh \<and>
     along dir x y - origin dir sh < extent dir sh"
  by (cases sh) (auto simp: position_defs beside_def)

lemma extent_pos: "has_area sh \<Longrightarrow> 0 < extent dir sh"
  by (cases sh) auto

text \<open>All connected screens exist and have a size.\<close>

definition screens_ok :: "('a, 'r) server \<Rightarrow> bool" where
  "screens_ok s \<longleftrightarrow> (\<forall>(n, c) \<in> set (m_clients s). \<exists>p. m_proxies s c = Some p \<and> has_area (px_shape p))"

definition connected :: "('a, 'r) server \<Rightarrow> cid \<Rightarrow> bool" where
  "connected s c \<longleftrightarrow> c \<in> snd ` set (m_clients s)"

lemma connected_shape:
  assumes "screens_ok s" "connected s c"
  obtains p where "m_proxies s c = Some p" "getShape s c = Inr (px_shape p)" "has_area (px_shape p)"
  using assms by (fastforce simp: screens_ok_def getShape_def deref_def connected_def)

lemma pixel_range:
  assumes "has_area sh" "0 \<le> f" "f \<le> 1"
  shows "corner dir sh \<le> pixel dir sh f" "pixel dir sh f \<le> corner dir sh + breadth dir sh"
    and "is_float f \<Longrightarrow> f < 1 \<Longrightarrow> pixel dir sh f < corner dir sh + breadth dir sh"
proof -
  define n where "n = breadth dir sh"
  have n: "1 \<le> n" "n \<le> 2 ^ 24" using assms(1) by (cases sh; auto simp: n_def)+
  then have fl: "is_float (of_int n)" by (intro is_float_of_int) simp
  have "0 \<le> f * of_int n" "f * of_int n \<le> of_int n" using assms(2,3) n(1) by (simp_all add: mult_left_le_one_le)
  then have b: "0 \<le> fl32 (f * of_int n)" "fl32 (f * of_int n) \<le> of_int n" using fl by (simp_all add: fl32_le)
  have p: "pixel dir sh f = \<lfloor>fl32 (f * of_int n)\<rfloor> + corner dir sh"
    using b(1) fl32_exact [OF fl] by (simp add: pixel_def n_def truncate_rat_def)
  have "\<lfloor>fl32 (f * of_int n)\<rfloor> \<le> n" using b(2) by (simp add: floor_le_iff)
  then show "corner dir sh \<le> pixel dir sh f" "pixel dir sh f \<le> corner dir sh + breadth dir sh"
    using b(1) by (simp_all add: p n_def)
  show "pixel dir sh f < corner dir sh + breadth dir sh" if "is_float f" "f < 1"
    using fl32_scale_less [OF that(1) assms(2) that(2) n] by (simp add: p n_def floor_less_iff)
qed

lemma mapToPixel_pixel:
  assumes "dir \<noteq> kNoDirection"
  shows "\<exists>x' y'. mapToPixel sh dir f x y = Inr (x', y') \<and> across dir x' y' = pixel dir sh f \<and> along dir x' y' = along dir x y"
  using assms by (cases sh; cases dir) (auto simp: mapToPixel_def position_defs pixel_def)

lemma leads_result:
  assumes "leads s dir n t c u"
  shows "connected s c" "\<exists>n' t' d. getNeighbor (m_config s) n' dir t' = (d, Some u)"
proof -
  have "connected s c \<and> (\<exists>n' t' d. getNeighbor (m_config s) n' dir t' = (d, Some u))"
    using assms
  proof (induction rule: leads.induct)
    case (found n t d u k c)
    then have "(k, c) \<in> set (m_clients s)" using sm_find_member by fast
    then show ?case using found.hyps(1) by (force simp: connected_def)
  qed simp
  then show "connected s c" "\<exists>n' t' d. getNeighbor (m_config s) n' dir t' = (d, Some u)" by simp_all
qed

lemma leads_range:
  assumes "cfg_inv (m_config s)" "dir \<noteq> kNoDirection" "leads s dir n t c u"
  shows "0 \<le> u" "u \<le> 1" "is_float u"
  using leads_result(2) [OF assms(3)] getNeighbor_range [OF assms(1) _ assms(2)] by blast+

lemma neighbor_search_result: "neighbor_search s dir n t = Some (Some (c, u)) \<Longrightarrow> connected s c"
  using leads_result(1) search_leads by blast

text \<open>From a connected screen to the one that a position of its edge leads to.\<close>

definition hops :: "('a, 'r) server \<Rightarrow> EDirection \<Rightarrow> (cid \<times> cid) set" where
  "hops s dir = {(c, d). \<exists>n t u. getName s c = Inr n \<and> leads s dir n t d u}"

text \<open>What \<^verbatim>\<open>getNeighbor\<close> answers: nothing and the position as it was, or the screen it leads to and the pixel there.\<close>

lemma sv_getNeighbor_none:
  assumes "dir \<noteq> kNoDirection" "acyclic (skip_edges s dir)" "m_proxies s src = Some p"
    and "getName s src = Inr n" "mapToFraction (px_shape p) dir x y = Inr t" "\<nexists>c u. leads s dir n t c u"
  shows "sv_getNeighbor s src dir x y = Inr (None, x, y)"
proof -
  obtain r where r: "neighbor_search s dir n t = Some r" using neighbor_search_total [OF assms(2)] by blast
  then have "r = None" using assms(6) search_leads [of s dir n t] by (cases r) auto
  then show ?thesis using r assms(3-5) by (simp add: sv_getNeighbor_def getShape_def deref_def)
qed

lemma sv_getNeighbor_leads:
  assumes "cfg_inv (m_config s)" "screens_ok s" "dir \<noteq> kNoDirection" "m_proxies s src = Some p"
    and "getName s src = Inr n" "mapToFraction (px_shape p) dir x y = Inr t" "leads s dir n t c u"
  shows "\<exists>q x' y'. sv_getNeighbor s src dir x y = Inr (Some c, x', y') \<and> m_proxies s c = Some q \<and>
    has_area (px_shape q) \<and> across dir x' y' = pixel dir (px_shape q) u \<and> flush dir (px_shape q) x' y' \<and>
    along dir x' y' = along dir x y"
proof -
  obtain q where q: "m_proxies s c = Some q" "getShape s c = Inr (px_shape q)" "has_area (px_shape q)"
    using connected_shape [OF assms(2) leads_result(1) [OF assms(7)]] by blast
  obtain x' y' where m: "mapToPixel (px_shape q) dir u x y = Inr (x', y')" "across dir x' y' = pixel dir (px_shape q) u"
      "along dir x' y' = along dir x y"
    using mapToPixel_pixel [OF assms(3)] by blast
  have "sv_getNeighbor s src dir x y = Inr (Some c, x', y')"
    using assms(4-6) leads_search [OF assms(7)] q(1) m(1) by (simp add: sv_getNeighbor_def getShape_def deref_def)
  moreover have "flush dir (px_shape q) x' y'"
    using pixel_range [OF q(3) leads_range(1,2) [OF assms(1,3,7)]] m(2) by (simp add: flush_def)
  ultimately show ?thesis using q m(2,3) by blast
qed

lemma getName_total: "m_proxies s c = Some p \<Longrightarrow> \<exists>n. getName s c = Inr n"
  by (simp add: getName_def deref_def Let_def)

lemma mapToFraction_total: "dir \<noteq> kNoDirection \<Longrightarrow> \<exists>t. mapToFraction sh dir x y = Inr t"
  by (cases sh; cases dir) (auto simp: mapToFraction_def)

lemma sv_getNeighbor_total:
  assumes "cfg_inv (m_config s)" "screens_ok s" "dir \<noteq> kNoDirection" "acyclic (skip_edges s dir)"
    and "m_proxies s src = Some p"
  shows "sv_getNeighbor s src dir x y = Inr (None, x, y) \<or>
    (\<exists>d q x' y'. sv_getNeighbor s src dir x y = Inr (Some d, x', y') \<and> (src, d) \<in> hops s dir \<and> connected s d \<and>
      m_proxies s d = Some q \<and> has_area (px_shape q) \<and> flush dir (px_shape q) x' y' \<and> along dir x' y' = along dir x y)"
proof -
  obtain n where n: "getName s src = Inr n" using getName_total [OF assms(5)] by blast
  obtain t where t: "mapToFraction (px_shape p) dir x y = Inr t" using mapToFraction_total [OF assms(3)] by blast
  show ?thesis
  proof (cases "\<exists>c u. leads s dir n t c u")
    case True
    then obtain c u where l: "leads s dir n t c u" by blast
    then have "(src, c) \<in> hops s dir" using n by (auto simp: hops_def)
    then show ?thesis using sv_getNeighbor_leads [OF assms(1-3,5) n t l] leads_result(1) [OF l] by blast
  next
    case False
    then show ?thesis using sv_getNeighbor_none [OF assms(3-5) n t] by blast
  qed
qed

subsection \<open>Walking over the connected screens\<close>

lemma walk_move_along:
  assumes "dir \<noteq> kNoDirection" "walk_move dir sh dsh x y = (x1, y1)"
  shows "along dir x1 y1 = (if backward dir then along dir x y + extent dir dsh else along dir x y - extent dir sh)"
    and "across dir x1 y1 = across dir x y"
  using assms by (cases sh; cases dsh; cases dir; auto simp: position_defs)+

lemma walk_done_past: "dir \<noteq> kNoDirection \<Longrightarrow> walk_done dir sh x y \<longleftrightarrow> \<not> past dir sh (along dir x y)"
  by (cases sh; cases dir) (auto simp: position_defs)

text \<open>What is left of the way: it shrinks with every screen passed.\<close>

definition walk_rest :: "EDirection \<Rightarrow> int \<Rightarrow> nat" where
  "walk_rest dir a = (if backward dir then nat (- a) else nat a)"

lemma walk_rest_less:
  assumes "dir \<noteq> kNoDirection" "walk_move dir sh dsh x y = (x1, y1)" "past dir sh (along dir x y)"
    and "past dir dsh (along dir x1 y1)" "has_area sh" "has_area dsh"
  shows "walk_rest dir (along dir x1 y1) < walk_rest dir (along dir x y)"
  using walk_move_along(1) [OF assms(1,2)] assms(3,4) extent_pos [OF assms(5), of dir] extent_pos [OF assms(6), of dir]
  by (auto simp: walk_rest_def past_def split: if_splits)

lemma walk_arrives:
  assumes "dir \<noteq> kNoDirection" "walk_move dir sh dsh x y = (x1, y1)" "past dir sh (along dir x y)"
    and "\<not> past dir dsh (along dir x1 y1)"
  shows "0 \<le> along dir x1 y1" "along dir x1 y1 < extent dir dsh"
  using walk_move_along(1) [OF assms(1,2)] assms(3,4) by (auto simp: past_def split: if_splits)

lemma walk_total:
  assumes "cfg_inv (m_config s)" "screens_ok s" "dir \<noteq> kNoDirection" "acyclic (skip_edges s dir)"
    and "has_area sh" "past dir sh (along dir x y)"
    and "connected s d" "m_proxies s d = Some p" "flush dir (px_shape p) x y"
  shows "\<exists>d' q x' y'. walk s dir (Some d) good sh x y = Some (Inr (d', px_shape q, x', y')) \<and> connected s d' \<and>
    (d, d') \<in> (hops s dir)\<^sup>* \<and> m_proxies s d' = Some q \<and> flush dir (px_shape q) x' y' \<and>
    (0 \<le> along dir x' y' \<and> along dir x' y' < extent dir (px_shape q) \<or> past dir (px_shape q) (along dir x' y'))"
  using assms(5-)
proof (induction "walk_rest dir (along dir x y)" arbitrary: d p good sh x y rule: less_induct)
  case less
  let ?dsh = "px_shape p"
  obtain x1 y1 where m: "walk_move dir sh ?dsh x y = (x1, y1)" by force
  have sh: "getShape s d = Inr ?dsh" using less.prems(4) by (simp add: getShape_def deref_def)
  have area: "has_area ?dsh" using connected_shape [OF assms(2) less.prems(3)] less.prems(4) by (metis option.inject)
  have b1: "flush dir ?dsh x1 y1" using walk_move_along(2) [OF assms(3) m] less.prems(5) by (simp add: flush_def)
  show ?case
  proof (cases "past dir ?dsh (along dir x1 y1)")
    case False
    have w: "walk s dir (Some d) good sh x y = Some (Inr (d, ?dsh, x1, y1))"
      using False m sh walk_done_past [OF assms(3)] by (subst walk.simps) simp
    show ?thesis
      by (rule exI [of _ d], rule exI [of _ p], rule exI [of _ x1], rule exI [of _ y1])
         (use w less.prems(3,4) b1 walk_arrives [OF assms(3) m less.prems(2) False] in simp)
  next
    case True
    have go: "walk s dir (Some d) good sh x y =
        (case sv_getNeighbor s d dir x1 y1 of Inl e \<Rightarrow> Some (Inl e) | Inr (n, x2, y2) \<Rightarrow> walk s dir n d ?dsh x2 y2)"
      using True m sh walk_done_past [OF assms(3)] by (subst walk.simps) simp
    note rest = walk_rest_less [OF assms(3) m less.prems(2) True less.prems(1) area]
    from sv_getNeighbor_total [OF assms(1-4) less.prems(4), of x1 y1] show ?thesis
    proof (elim disjE exE conjE)
      assume "sv_getNeighbor s d dir x1 y1 = Inr (None, x1, y1)"
      then have w: "walk s dir (Some d) good sh x y = Some (Inr (d, ?dsh, x1, y1))"
        unfolding go by (simp add: walk.simps)
      show ?thesis
        by (rule exI [of _ d], rule exI [of _ p], rule exI [of _ x1], rule exI [of _ y1])
           (use w less.prems(3,4) b1 True in simp)
    next
      fix e q x2 y2
      assume n: "sv_getNeighbor s d dir x1 y1 = Inr (Some e, x2, y2)" "(d, e) \<in> hops s dir" "connected s e"
        "m_proxies s e = Some q" "has_area (px_shape q)" "flush dir (px_shape q) x2 y2" "along dir x2 y2 = along dir x1 y1"
      have w: "walk s dir (Some d) good sh x y = walk s dir (Some e) d ?dsh x2 y2" unfolding go using n(1) by simp
      have "past dir ?dsh (along dir x2 y2)" "walk_rest dir (along dir x2 y2) < walk_rest dir (along dir x y)"
        using True rest n(7) by simp_all
      from less.hyps [OF this(2) area this(1) n(3,4,6), of d]
      show ?thesis unfolding w using converse_rtrancl_into_rtrancl [OF n(2)] by blast
    qed
  qed
qed

text \<open>A move no further than the first screen reaches ends there.\<close>

lemma walk_first:
  assumes "dir \<noteq> kNoDirection" "has_area sh" "past dir sh (along dir x y)" "m_proxies s d = Some p"
    and "(if backward dir then - along dir x y else along dir x y - extent dir sh + 1) \<le> extent dir (px_shape p)"
  shows "\<exists>x' y'. walk s dir (Some d) good sh x y = Some (Inr (d, px_shape p, x', y')) \<and>
    0 \<le> along dir x' y' \<and> along dir x' y' < extent dir (px_shape p) \<and> across dir x' y' = across dir x y \<and>
    along dir x' y' = (if backward dir then along dir x y + extent dir (px_shape p) else along dir x y - extent dir sh)"
proof -
  obtain x1 y1 where m: "walk_move dir sh (px_shape p) x y = (x1, y1)" by force
  have sh: "getShape s d = Inr (px_shape p)" using assms(4) by (simp add: getShape_def deref_def)
  have np: "\<not> past dir (px_shape p) (along dir x1 y1)"
    using walk_move_along(1) [OF assms(1) m] assms(3,5) by (auto simp: past_def split: if_splits)
  have "walk s dir (Some d) good sh x y = Some (Inr (d, px_shape p, x1, y1))"
    using np m sh walk_done_past [OF assms(1)] by (subst walk.simps) simp
  with walk_arrives [OF assms(1) m assms(3) np] walk_move_along [OF assms(1) m] show ?thesis by blast
qed

lemma to_canonical_along:
  assumes "to_canonical dir sh x y = (x', y')" "dir \<noteq> kNoDirection"
  shows "along dir x' y' = along dir x y - origin dir sh" "across dir x' y' = across dir x y"
  using assms by (cases sh; cases dir; auto simp: position_defs)+

lemma from_canonical_along:
  assumes "from_canonical dir sh x y = (x', y')" "dir \<noteq> kNoDirection"
  shows "along dir x' y' = along dir x y + origin dir sh" "across dir x' y' = across dir x y"
  using assms by (cases sh; cases dir; auto simp: position_defs)+

text \<open>Within the screen along the direction.\<close>

definition level :: "EDirection \<Rightarrow> shape \<Rightarrow> int \<Rightarrow> int \<Rightarrow> bool" where
  "level dir sh x y \<longleftrightarrow> 0 \<le> along dir x y - origin dir sh \<and> along dir x y - origin dir sh < extent dir sh"

lemma avoidJumpZone_position:
  assumes "dir \<noteq> kNoDirection" "m_proxies s d = Some p"
    and "0 \<le> ev_jumpZone env" "d = m_primaryClient s \<Longrightarrow> ev_jumpZone env < extent dir (px_shape p)"
  shows "\<exists>x' y'. avoidJumpZone env s d dir x y = Inr (x', y') \<and> across dir x' y' = across dir x y \<and>
    (d \<noteq> m_primaryClient s \<longrightarrow> along dir x' y' = along dir x y) \<and>
    (level dir (px_shape p) x y \<longrightarrow> level dir (px_shape p) x' y') \<and>
    (beyond dir (px_shape p) x y \<longrightarrow> level dir (px_shape p) x' y' \<or> beyond dir (px_shape p) x' y')"
proof (cases "d = m_primaryClient s")
  case False
  then show ?thesis by (auto simp: avoidJumpZone_def)
next
  case True
  obtain n where n: "getName s d = Inr n" using getName_total [OF assms(2)] by blast
  have sh: "getShape s d = Inr (px_shape p)" using assms(2) by (simp add: getShape_def deref_def)
  obtain t where t: "mapToFraction (px_shape p) dir x y = Inr t" using mapToFraction_total [OF assms(1)] by blast
  obtain sx sy sw h where p: "px_shape p = (sx, sy, sw, h)" by (cases "px_shape p") auto
  from assms(1) show ?thesis
    using assms(3-4) n sh t True
    by (cases dir) (auto simp: avoidJumpZone_def p Let_def position_defs level_def getJumpZoneSize_def)
qed

lemma on_screen_level: "on_screen sh x y \<longleftrightarrow> beside dir sh x y \<and> level dir sh x y"
  using on_screen_split [of sh x y dir] by (simp add: level_def)

text \<open>The parts of \<open>mapToNeighbor\<close> put together: a search that finds a screen, the walk from there, and the jump zone.\<close>

lemma mapToNeighbor_parts:
  assumes "dir \<noteq> kNoDirection" "m_proxies s src = Some p" "sv_getNeighbor s src dir x y = Inr (Some c, x1, y1)"
    and "to_canonical dir (px_shape p) x1 y1 = (x2, y2)"
    and "walk s dir (Some c) src (px_shape p) x2 y2 = Some (Inr (d, px_shape r, x3, y3))" "m_proxies s d = Some r"
    and "0 \<le> ev_jumpZone env" "d = m_primaryClient s \<Longrightarrow> ev_jumpZone env < extent dir (px_shape r)"
  shows "\<exists>x' y'. mapToNeighbor env s src dir x y = Inr (Some d, x', y') \<and> across dir x' y' = across dir x3 y3 \<and>
    (d \<noteq> m_primaryClient s \<longrightarrow> along dir x' y' = along dir x3 y3 + origin dir (px_shape r)) \<and>
    (0 \<le> along dir x3 y3 \<and> along dir x3 y3 < extent dir (px_shape r) \<longrightarrow> level dir (px_shape r) x' y') \<and>
    (past dir (px_shape r) (along dir x3 y3) \<longrightarrow> level dir (px_shape r) x' y' \<or> beyond dir (px_shape r) x' y')"
proof -
  have sh: "getShape s src = Inr (px_shape p)" using assms(2) by (simp add: getShape_def deref_def)
  obtain x4 y4 where f: "from_canonical dir (px_shape r) x3 y3 = (x4, y4)" by force
  note a4 = from_canonical_along [OF f assms(1)]
  obtain x5 y5 where j: "avoidJumpZone env s d dir x4 y4 = Inr (x5, y5)" "across dir x5 y5 = across dir x4 y4"
      "d \<noteq> m_primaryClient s \<longrightarrow> along dir x5 y5 = along dir x4 y4"
      "level dir (px_shape r) x4 y4 \<longrightarrow> level dir (px_shape r) x5 y5"
      "beyond dir (px_shape r) x4 y4 \<longrightarrow> level dir (px_shape r) x5 y5 \<or> beyond dir (px_shape r) x5 y5"
    using avoidJumpZone_position [OF assms(1,6-8)] by blast
  have "mapToNeighbor env s src dir x y = Inr (Some d, x5, y5)"
    using assms(1,3-5) sh f j(1) by (simp add: mapToNeighbor_def)
  then show ?thesis using j(2-) a4 by (simp add: level_def beyond_def)
qed

subsection \<open>Properties\<close>

text \<open>
  C12. Crossing an edge: when the pointer has left a screen through a side, provided the screens that are not
  connected do not link in a circle, \<open>mapToNeighbor\<close> returns. If the links of that direction, followed
  over unconnected screens, lead nowhere from the position it left at, it finds no screen and leaves the
  position alone. If they lead to a connected screen, it finds that screen or one further on in the same
  direction. A pointer that went no further past the edge than the first screen is wide (or high) lands
  on the first one, at the pixel the fraction of the edge stands for and as far from the edge as it had
  gone past it; there it is on the screen, except when rounding moved the fraction up to 1, which is
  one pixel past its end. On the server's own screen the distance from the edge may change to avoid the
  jump zone.
\<close>

theorem pointer_lands_on_neighbor:
  assumes "cfg_inv (m_config s)" "screens_ok s" "dir \<noteq> kNoDirection" "acyclic (skip_edges s dir)"
    and "m_proxies s src = Some p" "has_area (px_shape p)" "beyond dir (px_shape p) x y"
    and "0 \<le> ev_jumpZone env"
    and "\<forall>q. m_proxies s (m_primaryClient s) = Some q \<longrightarrow> ev_jumpZone env < extent dir (px_shape q)"
    and "getName s src = Inr n" "mapToFraction (px_shape p) dir x y = Inr t"
  shows "if \<exists>c u. leads s dir n t c u then
      \<exists>c u q d r x' y'. leads s dir n t c u \<and> m_proxies s c = Some q \<and>
        mapToNeighbor env s src dir x y = Inr (Some d, x', y') \<and>
        connected s d \<and> (c, d) \<in> (hops s dir)\<^sup>* \<and> m_proxies s d = Some r \<and>
        flush dir (px_shape r) x' y' \<and> (level dir (px_shape r) x' y' \<or> beyond dir (px_shape r) x' y') \<and>
        (overshoot dir (px_shape p) x y \<le> extent dir (px_shape q) \<longrightarrow>
          d = c \<and> across dir x' y' = pixel dir (px_shape q) u \<and> level dir (px_shape q) x' y' \<and>
          (u < 1 \<longrightarrow> on_screen (px_shape q) x' y') \<and>
          (c \<noteq> m_primaryClient s \<longrightarrow> along dir x' y' = origin dir (px_shape q) +
            (if backward dir then extent dir (px_shape q) - overshoot dir (px_shape p) x y
             else overshoot dir (px_shape p) x y - 1)))
    else mapToNeighbor env s src dir x y = Inr (None, x, y)"
proof (cases "\<exists>c u. leads s dir n t c u")
  case False
  then have "sv_getNeighbor s src dir x y = Inr (None, x, y)" by (rule sv_getNeighbor_none [OF assms(3-5,10,11)])
  then show ?thesis using False by (simp add: mapToNeighbor_def)
next
  case True
  then obtain c u where l: "leads s dir n t c u" by blast
  obtain q x1 y1 where g: "sv_getNeighbor s src dir x y = Inr (Some c, x1, y1)" "m_proxies s c = Some q"
      "has_area (px_shape q)" "across dir x1 y1 = pixel dir (px_shape q) u" "flush dir (px_shape q) x1 y1"
      "along dir x1 y1 = along dir x y"
    using sv_getNeighbor_leads [OF assms(1-3,5,10,11) l] by blast
  obtain x2 y2 where k: "to_canonical dir (px_shape p) x1 y1 = (x2, y2)" by force
  have a2: "along dir x2 y2 = along dir x y - origin dir (px_shape p)" "across dir x2 y2 = pixel dir (px_shape q) u"
      "flush dir (px_shape q) x2 y2"
    using to_canonical_along [OF k assms(3)] g(4-6) by (simp_all add: flush_def)
  have past: "past dir (px_shape p) (along dir x2 y2)" using assms(7) a2(1) by (simp add: beyond_def)
  have zone: "e = m_primaryClient s \<Longrightarrow> ev_jumpZone env < extent dir (px_shape r)" if "m_proxies s e = Some r" for e r
    using assms(9) that by blast
  show ?thesis
  proof (cases "overshoot dir (px_shape p) x y \<le> extent dir (px_shape q)")
    case near: True
    have over: "overshoot dir (px_shape p) x y = (if backward dir then - along dir x2 y2 else along dir x2 y2 - extent dir (px_shape p) + 1)"
      using a2(1) by (simp add: overshoot_def Let_def)
    obtain x3 y3 where w: "walk s dir (Some c) src (px_shape p) x2 y2 = Some (Inr (c, px_shape q, x3, y3))"
        "0 \<le> along dir x3 y3" "along dir x3 y3 < extent dir (px_shape q)" "across dir x3 y3 = across dir x2 y2"
        "along dir x3 y3 = (if backward dir then along dir x2 y2 + extent dir (px_shape q) else along dir x2 y2 - extent dir (px_shape p))"
      using walk_first [OF assms(3,6) past g(2) near [unfolded over]] by blast
    obtain x' y' where m: "mapToNeighbor env s src dir x y = Inr (Some c, x', y')" "across dir x' y' = across dir x3 y3"
        "c \<noteq> m_primaryClient s \<longrightarrow> along dir x' y' = along dir x3 y3 + origin dir (px_shape q)" "level dir (px_shape q) x' y'"
      using mapToNeighbor_parts [OF assms(3,5) g(1) k w(1) g(2) assms(8) zone [OF g(2)]] w(2,3) by blast
    have across: "across dir x' y' = pixel dir (px_shape q) u" using m(2) w(4) a2(2) by simp
    have fl: "flush dir (px_shape q) x' y'" using a2(2,3) across by (simp add: flush_def)
    have on: "u < 1 \<longrightarrow> on_screen (px_shape q) x' y'"
      using pixel_range [OF g(3) leads_range(1,2) [OF assms(1,3) l], of dir] leads_range(3) [OF assms(1,3) l] m(4) across
      by (simp add: on_screen_level [of _ _ _ dir] beside_def)
    have dist: "c \<noteq> m_primaryClient s \<longrightarrow> along dir x' y' = origin dir (px_shape q) +
        (if backward dir then extent dir (px_shape q) - overshoot dir (px_shape p) x y
         else overshoot dir (px_shape p) x y - 1)"
      using m(3) w(5) over by auto
    show ?thesis using True l g(2) m(1,4) fl leads_result(1) [OF l] across on dist by (simp only: if_True) blast
  next
    case far: False
    obtain d r x3 y3 where w: "walk s dir (Some c) src (px_shape p) x2 y2 = Some (Inr (d, px_shape r, x3, y3))"
        "connected s d" "(c, d) \<in> (hops s dir)\<^sup>*" "m_proxies s d = Some r" "flush dir (px_shape r) x3 y3"
        "0 \<le> along dir x3 y3 \<and> along dir x3 y3 < extent dir (px_shape r) \<or> past dir (px_shape r) (along dir x3 y3)"
      using walk_total [OF assms(1-4,6) past leads_result(1) [OF l] g(2) a2(3)] by blast
    obtain x' y' where m: "mapToNeighbor env s src dir x y = Inr (Some d, x', y')" "across dir x' y' = across dir x3 y3"
        "level dir (px_shape r) x' y' \<or> beyond dir (px_shape r) x' y'"
      using mapToNeighbor_parts [OF assms(3,5) g(1) k w(1,4) assms(8) zone [OF w(4)]] w(6) by blast
    have fl: "flush dir (px_shape r) x' y'" using m(2) w(5) by (simp add: flush_def)
    show ?thesis using True far l g(2) m(1,3) w(2-4) fl by (simp only: if_True) blast
  qed
qed

lemma linked_pair_getNeighbor:
  assumes "caseless_less a b" "side \<noteq> kNoDirection" "0 \<le> t" "t < 1" "is_float t" "a \<noteq> []" "b \<noteq> []"
  shows "getNeighbor (linked_pair a (link_cell side n back) b y) a side t =
      (getCanonicalName (linked_pair a (link_cell side n back) b y) n, Some t)"
    and "getNeighbor (linked_pair a x b (link_cell side n back)) b side t =
      (getCanonicalName (linked_pair a x b (link_cell side n back)) n, Some t)"
proof -
  have link: "getLink (link_cell side n back) side t = Some (full_edge [] side, full_edge n back)"
    using assms(2-4) getLink_iff [of "link_cell side n back" side t]
    by (auto simp: link_cell_def full_edge_def links_ok_def edge_valid_def isInside_def getLink_def CellEdge_at_def
      sm_below_def edge_less_def Let_def)
  have eq: "\<not> sm_equiv caseless_less a b" "\<not> sm_equiv caseless_less b a" using assms(1) by (auto simp: sm_equiv_def)
  note defs = getNeighbor_def getCanonicalName_def linked_pair_def transform_def inverseTransform_def full_edge_def
    fl32_exact [OF assms(5)]
  show "getNeighbor (linked_pair a (link_cell side n back) b y) a side t =
      (getCanonicalName (linked_pair a (link_cell side n back) b y) n, Some t)"
    using eq link by (simp add: defs)
  show "getNeighbor (linked_pair a x b (link_cell side n back)) b side t =
      (getCanonicalName (linked_pair a x b (link_cell side n back)) n, Some t)"
    using eq link by (simp add: defs)
qed

lemma sample_names: "find_client sample_server d = None \<Longrightarrow> d \<notin> snd ` set (cfg_names (m_config sample_server))"
  by (auto simp: sample_server_def server_members_def pair_config_def linked_pair_def)

lemma sample_skip: "skip_edges sample_server dir = {}"
  unfolding skip_edges_def using sample_names getNeighbor_target by blast

lemma sample_server_facts:
  "m_proxies sample_server = sample_heap" "m_clients sample_server = [(''desk'', 0), (''pc'', 1)]"
  "m_config sample_server = pair_config" "m_primaryClient sample_server = 0" "m_active sample_server = 0"
  "m_clientSet sample_server = [0, 1]"
  by (simp_all add: sample_server_def server_members_def)

lemma sample_screens_ok: "screens_ok sample_server"
  by (simp add: screens_ok_def sample_server_facts sample_heap_def sample_proxy_def)

lemma fl32_small: "\<bar>n\<bar> \<le> 2 ^ 24 \<Longrightarrow> fl32 (of_int n) = of_int n"
  by (simp add: fl32_exact is_float_of_int)

text \<open>Row 20 of 50 is the fraction 0.41, rounded.\<close>

definition sample_fraction :: rat where
  "sample_fraction = fl32 (41/100)"

lemma sample_fraction_range: "is_float sample_fraction" "0 \<le> sample_fraction" "sample_fraction < 1"
proof -
  show "is_float sample_fraction" "0 \<le> sample_fraction" by (simp_all add: sample_fraction_def)
  have "sample_fraction \<le> 1/2" unfolding sample_fraction_def by (rule fl32_le) simp_all
  then show "sample_fraction < 1" by simp
qed

lemma sample_mapToFraction: "mapToFraction (0, 0, 100, 50) kRight x 20 = Inr sample_fraction"
proof -
  have "fl32 (of_int 20) = of_int 20" "fl32 (of_int 50) = of_int 50" by (rule fl32_small; simp)+
  moreover have "fl32 (of_int 41 / 2) = of_int 41 / 2" by (rule fl32_exact, rule is_float_half) simp
  ultimately have e: "fl32 20 = 20" "fl32 50 = 50" "fl32 (41 / 2) = 41 / 2" by (simp_all only: of_int_numeral)
  show ?thesis by (simp add: mapToFraction_def sample_fraction_def e)
qed

lemma sample_leads: "leads sample_server kRight ''desk'' sample_fraction 1 sample_fraction"
proof -
  have less: "caseless_less ''desk'' ''pc''" by code_simp
  have n: "getCanonicalName pair_config ''pc'' = ''pc''" by code_simp
  have "getNeighbor pair_config ''desk'' kRight sample_fraction = (''pc'', Some sample_fraction)"
    using linked_pair_getNeighbor(1) [OF less, of kRight sample_fraction "''pc''" kLeft "link_cell kLeft ''desk'' kRight"]
      sample_fraction_range n by (simp add: pair_config_def)
  moreover have "sm_find (<) ''pc'' [(''desk'', 0), (''pc'', 1)] = Some (''pc'', 1 :: cid)" by code_simp
  ultimately show ?thesis
    using leads.found [of sample_server "''desk''" kRight sample_fraction "''pc''" sample_fraction "''pc''" 1]
    by (simp add: sample_server_facts)
qed

theorem pointer_lands_on_neighbor_witness:
  "\<exists>x'. mapToNeighbor sample_env sample_server 0 kRight 103 20 = Inr (Some 1, x', pixel kRight (0, 0, 60, 40) sample_fraction) \<and>
     x' = 3 \<and> on_screen (0, 0, 60, 40) x' (pixel kRight (0, 0, 60, 40) sample_fraction)"
proof -
  let ?p = "sample_proxy True ''desk'' 100 50"
  have src: "m_proxies sample_server 0 = Some ?p" by (simp add: sample_server_facts sample_heap_def)
  have zone: "\<forall>q. m_proxies sample_server (m_primaryClient sample_server) = Some q \<longrightarrow>
      ev_jumpZone sample_env < extent kRight (px_shape q)"
    by (simp add: sample_server_facts sample_heap_def sample_proxy_def sample_env_def horizontal_def)
  have name: "getName sample_server 0 = Inr ''desk''"
    by (simp add: getName_def deref_def sample_server_facts sample_heap_def sample_proxy_def pair_config_def linked_pair_def getCanonicalName_def)
  have frac: "mapToFraction (px_shape ?p) kRight 103 20 = Inr sample_fraction"
    using sample_mapToFraction by (simp add: sample_proxy_def)
  have "cfg_inv (m_config sample_server)" "acyclic (skip_edges sample_server kRight)"
    "has_area (px_shape ?p)" "beyond kRight (px_shape ?p) 103 20" "0 \<le> ev_jumpZone sample_env"
    by (simp_all add: sample_server_facts pair_config_inv sample_skip sample_proxy_def position_defs sample_env_def acyclic_def)
  note main = pointer_lands_on_neighbor [OF this(1) sample_screens_ok _ this(2) src this(3,4,5) zone name frac]
  have ex: "\<exists>c u. leads sample_server kRight ''desk'' sample_fraction c u" using sample_leads by blast
  from main [unfolded if_P [OF ex]] obtain c u q d x' y' where r: "leads sample_server kRight ''desk'' sample_fraction c u" "m_proxies sample_server c = Some q"
      "mapToNeighbor sample_env sample_server 0 kRight 103 20 = Inr (Some d, x', y')"
      "overshoot kRight (px_shape ?p) 103 20 \<le> extent kRight (px_shape q) \<longrightarrow> d = c \<and> across kRight x' y' = pixel kRight (px_shape q) u \<and>
         (u < 1 \<longrightarrow> on_screen (px_shape q) x' y') \<and> (c \<noteq> m_primaryClient sample_server \<longrightarrow>
         along kRight x' y' = origin kRight (px_shape q) + (if backward kRight then extent kRight (px_shape q) -
           overshoot kRight (px_shape ?p) 103 20 else overshoot kRight (px_shape ?p) 103 20 - 1))"
    by blast
  have cu: "c = 1" "u = sample_fraction" using leads_search [OF r(1)] leads_search [OF sample_leads] by simp_all
  have "q = sample_proxy False ''pc'' 60 40" using r(2) cu(1) by (simp add: sample_server_facts sample_heap_def)
  then show ?thesis using r(3,4) sample_fraction_range(3)
    by (simp add: cu sample_server_facts sample_proxy_def position_defs)
qed

text \<open>
  C29. Termination of the search for a connected neighbour: the loop of \<open>getNeighbor\<close> runs for ever exactly when the
  neighbours of the position, all of them unconnected, come back to a screen at the same position: there
  are only finitely many floats between 0 and 1, so a search that repeats none ends.
\<close>

theorem neighbor_search_stuck_iff:
  assumes "cfg_inv (m_config s)" "dir \<noteq> kNoDirection"
  shows "neighbor_search s dir n t = None \<longleftrightarrow>
    (\<exists>a. ((n, t), a) \<in> (skip_steps s dir)\<^sup>* \<and> (a, a) \<in> (skip_steps s dir)\<^sup>+)"
  using search_circle [OF assms] skip_steps_circle by blast

definition circle_server :: "(unit, unit) server" where
  "circle_server = sample_server\<lparr>m_clients := [(''desk'', 0)], m_clientSet := [0],
     m_config := linked_pair ''desk'' (link_cell kRight ''pc'' kLeft) ''pc'' (link_cell kRight ''pc'' kLeft)\<rparr>"

lemma circle_step:
  assumes "m \<in> {''desk'', ''pc''}" "is_float t" "0 \<le> t" "t < 1"
  shows "((m, t), (''pc'', t)) \<in> skip_steps circle_server kRight"
proof -
  have l: "caseless_less ''desk'' ''pc''" by code_simp
  let ?c = "linked_pair ''desk'' (link_cell kRight ''pc'' kLeft) ''pc'' (link_cell kRight ''pc'' kLeft)"
  have n: "getCanonicalName ?c ''pc'' = ''pc''" by code_simp
  have "getNeighbor ?c m kRight t = (''pc'', Some t)"
    using assms linked_pair_getNeighbor [OF l, of kRight t] n by auto
  then show ?thesis by (simp add: skip_steps_def circle_server_def)
qed

theorem neighbor_search_stuck_iff_witness: "neighbor_search circle_server kRight ''desk'' (1/2) = None"
proof -
  have "caseless_less ''desk'' ''pc''" by code_simp
  then have inv: "cfg_inv (m_config circle_server)"
    unfolding circle_server_def by (simp, intro linked_pair_inv link_cell_ok) simp_all
  have "((''desk'', 1/2), (''pc'', 1/2)) \<in> skip_steps circle_server kRight"
    "((''pc'', 1/2), (''pc'', 1/2)) \<in> skip_steps circle_server kRight" by (rule circle_step; simp)+
  then have "\<exists>a. ((''desk'', 1/2), a) \<in> (skip_steps circle_server kRight)\<^sup>* \<and> (a, a) \<in> (skip_steps circle_server kRight)\<^sup>+"
    by blast
  with neighbor_search_stuck_iff [OF inv, of kRight "''desk''" "1/2"] show ?thesis by simp
qed

text \<open>
  Then \<^verbatim>\<open>getNeighbor\<close> never returns. The comment in the code says that the search stops when the destination is the
  source; it only stops when there is no neighbour.
\<close>

theorem neighbor_search_runs_forever:
  assumes "m_proxies s src = Some p" "getName s src = Inr n" "mapToFraction (px_shape p) dir x y = Inr t"
    and "((n, t), a) \<in> (skip_steps s dir)\<^sup>*" "(a, a) \<in> (skip_steps s dir)\<^sup>+"
  shows "sv_getNeighbor s src dir x y = Inl NeverReturns"
  using assms(1-3) skip_steps_circle [OF assms(4,5)] by (simp add: sv_getNeighbor_def getShape_def deref_def)

theorem neighbor_search_runs_forever_witness:
  "sv_getNeighbor circle_server 0 kRight 100 20 = Inl NeverReturns"
proof (rule neighbor_search_runs_forever)
  show "m_proxies circle_server 0 = Some (sample_proxy True ''desk'' 100 50)"
    by (simp add: circle_server_def sample_server_facts sample_heap_def)
  have "getCanonicalName (m_config circle_server) ''desk'' = ''desk''"
    by (simp add: circle_server_def linked_pair_def getCanonicalName_def)
  then show "getName circle_server 0 = Inr ''desk''"
    by (simp add: getName_def deref_def circle_server_def sample_server_facts sample_heap_def sample_proxy_def)
  show "mapToFraction (px_shape (sample_proxy True ''desk'' 100 50)) kRight 100 20 = Inr sample_fraction"
    using sample_mapToFraction by (simp add: sample_proxy_def)
  show "((''desk'', sample_fraction), (''pc'', sample_fraction)) \<in> (skip_steps circle_server kRight)\<^sup>*"
    using circle_step [of "''desk''"] sample_fraction_range by blast
  show "((''pc'', sample_fraction), (''pc'', sample_fraction)) \<in> (skip_steps circle_server kRight)\<^sup>+"
    using circle_step [of "''pc''"] sample_fraction_range by blast
qed

end
