(* ===== verification/Server.thy ===== *)
theory Server
  imports ServerGeometry
begin

text \<open>
  Switching between screens: the operations of \<^verbatim>\<open>src/lib/server/Server.cpp\<close> that decide whether the pointer
  may leave a screen, that move it to another one and that keep the clipboards of all screens up to
  date. Every operation takes the answers of the platform, \<open>env\<close>, and the state, and returns the new
  state or the error it runs into.
\<close>

subsection \<open>Locks and delays\<close>

definition isLockedToScreenServer :: "('a, 'r) server \<Rightarrow> bool" where
  "isLockedToScreenServer s = m_lockedToScreen s"

definition isLockedToScreen :: "env \<Rightarrow> ('a, 'r) server \<Rightarrow> bool" where
  "isLockedToScreen env s = (if isLockedToScreenServer s then True else if ev_locked env then True else False)"

definition add_side :: "('a, 'r) server \<Rightarrow> EDirection \<Rightarrow> u32 \<Rightarrow> server_error + u32" where
  "add_side s dir sides =
     and_then (hasAnyNeighbor s (m_primaryClient s) dir) (\<lambda>b. Inr (if b then sides OR dir_mask dir else sides))"

definition getActivePrimarySides :: "('a, 'r) server \<Rightarrow> server_error + u32" where
  "getActivePrimarySides s =
     (if isLockedToScreenServer s then Inr 0
      else and_then (add_side s kLeft 0) (\<lambda>m. and_then (add_side s kRight m) (\<lambda>m.
           and_then (add_side s kTop m) (\<lambda>m. add_side s kBottom m))))"

definition stopSwitchTwoTap :: "('a, 'r) server \<Rightarrow> ('a, 'r) server" where
  "stopSwitchTwoTap s = s\<lparr>m_switchTwoTapEngaged := False, m_switchTwoTapArmed := False\<rparr>"

definition stopSwitchWait :: "('a, 'r) server \<Rightarrow> ('a, 'r) server" where
  "stopSwitchWait s = (if m_switchWaitTimer s then emit StopSwitchTimer (s\<lparr>m_switchWaitTimer := False\<rparr>) else s)"

definition stopSwitch :: "('a, 'r) server \<Rightarrow> ('a, 'r) server" where
  "stopSwitch s =
     (if m_switchScreen s \<noteq> None
      then stopSwitchWait (stopSwitchTwoTap (s\<lparr>m_switchScreen := None, m_switchDir := kNoDirection\<rparr>))
      else s)"

definition startSwitchTwoTap :: "env \<Rightarrow> ('a, 'r) server \<Rightarrow> ('a, 'r) server" where
  "startSwitchTwoTap env s =
     s\<lparr>m_switchTwoTapEngaged := True, m_switchTwoTapArmed := False, m_switchTwoTapTimer := ev_now env\<rparr>"

definition armSwitchTwoTap :: "env \<Rightarrow> ('a, 'r) server \<Rightarrow> int \<Rightarrow> int \<Rightarrow> server_error + ('a, 'r) server" where
  "armSwitchTwoTap env s x y =
     (if \<not> m_switchTwoTapEngaged s then Inr s
      else if m_switchTwoTapDelay s < ev_now env - m_switchTwoTapTimer s then Inr (stopSwitchTwoTap s)
      else if m_switchTwoTapArmed s then Inr s
      else
        and_then (getShape s (m_active s)) (\<lambda>(ax, ay, aw, ah).
        let tapZone = (if ev_jumpZone env < m_switchTwoTapZone s then m_switchTwoTapZone s else ev_jumpZone env) in
        if ax + tapZone \<le> x \<and> x < ax + aw - tapZone \<and> ay + tapZone \<le> y \<and> y < ay + ah - tapZone then
          Inr (case m_switchDir s of
              kLeft \<Rightarrow> s\<lparr>m_switchTwoTapArmed := 0 < m_xDelta s \<and> 0 < m_xDelta2 s\<rparr>
            | kRight \<Rightarrow> s\<lparr>m_switchTwoTapArmed := m_xDelta s < 0 \<and> m_xDelta2 s < 0\<rparr>
            | kTop \<Rightarrow> s\<lparr>m_switchTwoTapArmed := 0 < m_yDelta s \<and> 0 < m_yDelta2 s\<rparr>
            | kBottom \<Rightarrow> s\<lparr>m_switchTwoTapArmed := m_yDelta s < 0 \<and> m_yDelta2 s < 0\<rparr>
            | kNoDirection \<Rightarrow> s)
        else Inr s))"

definition isSwitchTwoTapStarted :: "('a, 'r) server \<Rightarrow> bool" where
  "isSwitchTwoTapStarted s = m_switchTwoTapEngaged s"

definition shouldSwitchTwoTap :: "env \<Rightarrow> ('a, 'r) server \<Rightarrow> bool" where
  "shouldSwitchTwoTap env s \<longleftrightarrow> m_switchTwoTapArmed s \<and> ev_now env - m_switchTwoTapTimer s \<le> m_switchTwoTapDelay s"

definition startSwitchWait :: "('a, 'r) server \<Rightarrow> int \<Rightarrow> int \<Rightarrow> ('a, 'r) server" where
  "startSwitchWait s x y =
     (let s = stopSwitchWait s
      in emit (StartSwitchTimer (m_switchWaitDelay s))
           (s\<lparr>m_switchWaitX := x, m_switchWaitY := y, m_switchWaitTimer := True\<rparr>))"

definition isSwitchWaitStarted :: "('a, 'r) server \<Rightarrow> bool" where
  "isSwitchWaitStarted s = m_switchWaitTimer s"

definition noSwitch :: "env \<Rightarrow> ('a, 'r) server \<Rightarrow> int \<Rightarrow> int \<Rightarrow> server_error + ('a, 'r) server" where
  "noSwitch env s x y = and_then (armSwitchTwoTap env s x y) (\<lambda>s. Inr (stopSwitchWait s))"

subsection \<open>May the pointer leave?\<close>

text \<open>The options that apply to the active screen's corners: its own, or the global ones.\<close>

definition corner_options :: "('a, 'r) server \<Rightarrow> server_error + screen_options option" where
  "corner_options s =
     and_then (getName s (m_active s)) (\<lambda>n.
     let options = getOptions (m_config s) n in
     Inr (case options of
            None \<Rightarrow> getOptions (m_config s) []
          | Some os \<Rightarrow> if sm_find (<) kOptionScreenSwitchCorners os = None then getOptions (m_config s) []
                        else options))"

definition in_locked_corner :: "('a, 'r) server \<Rightarrow> int \<Rightarrow> int \<Rightarrow> server_error + bool" where
  "in_locked_corner s xActive yActive =
     and_then (corner_options s) (\<lambda>options.
     case options of
       None \<Rightarrow> Inr False
     | Some os \<Rightarrow>
         (case sm_find (<) kOptionScreenSwitchCorners os of
            None \<Rightarrow> Inr False
          | Some (_, corners) \<Rightarrow>
              (let sz = (case sm_find (<) kOptionScreenSwitchCornerSize os of None \<Rightarrow> 0 | Some (_, v) \<Rightarrow> v) in
               and_then (getCorner s (m_active s) xActive yActive sz) (\<lambda>k.
               Inr (k AND word_of_int corners \<noteq> 0)))))"

definition missing_modifiers :: "env \<Rightarrow> ('a, 'r) server \<Rightarrow> bool" where
  "missing_modifiers env s \<longleftrightarrow>
     m_switchNeedsShift s \<and> ev_toggleMask env AND KeyModifierShift \<noteq> KeyModifierShift \<or>
     m_switchNeedsControl s \<and> ev_toggleMask env AND KeyModifierControl \<noteq> KeyModifierControl \<or>
     m_switchNeedsAlt s \<and> ev_toggleMask env AND KeyModifierAlt \<noteq> KeyModifierAlt"

text \<open>The double tap: whether the switch is allowed now, whether it is prevented, and the state.\<close>

definition check_two_tap :: "env \<Rightarrow> ('a, 'r) server \<Rightarrow> bool \<Rightarrow> bool \<times> bool \<times> ('a, 'r) server" where
  "check_two_tap env s isNewDirection =
     (if 0 < m_switchTwoTapDelay s then
        if isNewDirection \<or> \<not> isSwitchTwoTapStarted s \<or> \<not> shouldSwitchTwoTap env s
        then (False, True, startSwitchTwoTap env s)
        else (True, False, s)
      else (False, False, s))"

definition check_wait :: "('a, 'r) server \<Rightarrow> bool \<Rightarrow> bool \<Rightarrow> bool \<Rightarrow> int \<Rightarrow> int \<Rightarrow> bool \<times> ('a, 'r) server" where
  "check_wait s allowSwitch preventSwitch isNewDirection x y =
     (if \<not> allowSwitch \<and> 0 < m_switchWaitDelay s
      then (True, if isNewDirection \<or> \<not> isSwitchWaitStarted s then startSwitchWait s x y else s)
      else (preventSwitch, s))"

text \<open>The direction and the screen of a pending switch are recorded when they are new.\<close>

definition note_direction :: "('a, 'r) server \<Rightarrow> cid option \<Rightarrow> EDirection \<Rightarrow> ('a, 'r) server" where
  "note_direction s newScreen dir =
     (if dir \<noteq> m_switchDir s \<or> m_switchScreen s = None
      then s\<lparr>m_switchDir := dir, m_switchScreen := newScreen\<rparr> else s)"

text \<open>The refusals: a locked corner, a locked pointer, a missing modifier.\<close>

definition final_checks :: "env \<Rightarrow> bool \<Rightarrow> bool \<Rightarrow> ('a, 'r) server \<Rightarrow> bool \<times> ('a, 'r) server" where
  "final_checks env locked preventSwitch s =
     (let (prevent, s) = (if locked then (True, stopSwitch s) else (preventSwitch, s));
          (prevent, s) = (if \<not> prevent \<and> isLockedToScreen env s then (True, stopSwitch s) else (prevent, s));
          (prevent, s) = (if \<not> prevent \<and> missing_modifiers env s then (True, stopSwitch s) else (prevent, s))
      in (\<not> prevent, s))"

definition isSwitchOkay :: "env \<Rightarrow> ('a, 'r) server \<Rightarrow> cid option \<Rightarrow> EDirection \<Rightarrow> int \<Rightarrow> int \<Rightarrow> int \<Rightarrow> int \<Rightarrow>
    server_error + bool \<times> ('a, 'r) server" where
  "isSwitchOkay env s newScreen dir x y xActive yActive =
     (if newScreen = None then Inr (False, stopSwitch s)
      else
        (let isNewDirection = (dir \<noteq> m_switchDir s);
             (allowSwitch, prevent, s2) = check_two_tap env (note_direction s newScreen dir) isNewDirection;
             (prevent, s3) = check_wait s2 allowSwitch prevent isNewDirection x y
         in and_then (in_locked_corner s3 xActive yActive) (\<lambda>locked. Inr (final_checks env locked prevent s3))))"

subsection \<open>Clipboards\<close>

definition clip_info :: "('a, 'r) server \<Rightarrow> nat \<Rightarrow> server_error + clipboard_info" where
  "clip_info s i = (if i < length (m_clipboards s) then Inr (m_clipboards s ! i) else Inl OutOfRange)"

definition set_clip_info :: "nat \<Rightarrow> clipboard_info \<Rightarrow> ('a, 'r) server \<Rightarrow> ('a, 'r) server" where
  "set_clip_info i ci s = s\<lparr>m_clipboards := (m_clipboards s)[i := ci]\<rparr>"

text \<open>Without assertions an open clipboard can be opened again.\<close>

definition reopen :: "env \<Rightarrow> clipboard \<Rightarrow> clipboard" where
  "reopen env c = (if ev_debug env then c else c\<lparr>m_open := False\<rparr>)"

definition sv_marshall :: "env \<Rightarrow> clipboard \<Rightarrow> server_error + clipboard \<times> bytes" where
  "sv_marshall env c = lift_clip (clip_marshall (reopen env c))"

definition sv_open :: "env \<Rightarrow> clipboard \<Rightarrow> server_error + clipboard" where
  "sv_open env c = and_then (lift_clip (clip_open (reopen env c) 0)) (\<lambda>(c, _). Inr c)"

text \<open>
  \<^verbatim>\<open>setClipboard\<close> of both proxies: nothing happens when the clipboard is not dirty. A client's proxy keeps a
  copy and sends it, the primary screen hands it to the platform.
\<close>

definition setClipboard :: "('a, 'r) server \<Rightarrow> cid \<Rightarrow> nat \<Rightarrow> clipboard \<Rightarrow> server_error + ('a, 'r) server" where
  "setClipboard s c i clip =
     and_then (deref s c) (\<lambda>p.
     if length (px_dirty p) \<le> i then Inl OutOfRange
     else if \<not> px_dirty p ! i then Inr s
     else
       (let p = p\<lparr>px_dirty := (px_dirty p)[i := False]\<rparr> in
        if px_primary p then
          and_then (lift_clip (clip_marshall clip)) (\<lambda>(_, data).
          Inr (emit (Call c (SetClipboard i data)) (set_proxy c p s)))
        else if length (px_clipboards p) \<le> i then Inl OutOfRange
        else
          and_then (lift_clip (copy clip_ops clip_ops (px_clipboards p ! i) clip)) (\<lambda>(own, _, _).
          and_then (lift_clip (clip_marshall own)) (\<lambda>(own, data).
          Inr (emit (Call c (SetClipboard i data))
            (set_proxy c (p\<lparr>px_clipboards := (px_clipboards p)[i := own]\<rparr>) s))))))"

fun add_formats :: "clipboard \<Rightarrow> (nat \<times> bytes) list \<Rightarrow> clip_error + clipboard" where
  "add_formats c [] = Inr c"
| "add_formats c ((f, d) # fds) = and_then (clip_add c f d) (\<lambda>c. add_formats c fds)"

text \<open>
  \<^verbatim>\<open>getClipboard\<close>: the primary screen asks the platform, which fills the clipboard or fails; a client's
  proxy copies what the client sent last.
\<close>

definition get_clipboard :: "env \<Rightarrow> ('a, 'r) server \<Rightarrow> cid \<Rightarrow> nat \<Rightarrow> clipboard \<Rightarrow>
    server_error + clipboard \<times> bool \<times> ('a, 'r) server" where
  "get_clipboard env s c i clip =
     and_then (deref s c) (\<lambda>p.
     if px_primary p then
       (case ev_getClipboard env i of
          None \<Rightarrow> Inr (clip, False, s)
        | Some fds \<Rightarrow>
            and_then (lift_clip (
              and_then (clip_open clip 0) (\<lambda>(o1, _).
              and_then (clip_clear o1) (\<lambda>(o2, _).
              and_then (add_formats o2 fds) (\<lambda>o3. clip_close o3))))) (\<lambda>clip. Inr (clip, True, s)))
     else if length (px_clipboards p) \<le> i then Inl OutOfRange
     else
       and_then (lift_clip (copy clip_ops clip_ops clip (px_clipboards p ! i))) (\<lambda>(clip, own, _).
       Inr (clip, True, set_proxy c (p\<lparr>px_clipboards := (px_clipboards p)[i := own]\<rparr>) s)))"

fun copy_other_formats :: "clipboard \<Rightarrow> clipboard \<Rightarrow> nat list \<Rightarrow> clip_error + clipboard" where
  "copy_other_formats dst src [] = Inr dst"
| "copy_other_formats dst src (f # fs) =
     and_then (clip_has src f) (\<lambda>h.
     if f \<noteq> kFileList \<and> h
     then and_then (clip_get src f) (\<lambda>d. and_then (clip_add dst f d) (\<lambda>dst. copy_other_formats dst src fs))
     else copy_other_formats dst src fs)"

text \<open>
  A new clipboard with the formats of \<open>c\<close>, but with \<open>files\<close> as its file list, and \<open>c\<close> after it was read.
\<close>

definition with_file_list :: "clipboard \<Rightarrow> bytes \<Rightarrow> server_error + clipboard \<times> clipboard" where
  "with_file_list c files = lift_clip (
     and_then clip_new (\<lambda>new.
     and_then (clip_open new 0) (\<lambda>(n1, _).
     and_then (clip_clear n1) (\<lambda>(n2, _).
     and_then (clip_open c 0) (\<lambda>(c1, _).
     and_then (copy_other_formats n2 c1 [0..<kNumFormats]) (\<lambda>n3.
     and_then (clip_close c1) (\<lambda>c2.
     and_then (clip_add n3 kFileList files) (\<lambda>n4.
     and_then (clip_close n4) (\<lambda>n5. Inr (n5, c2))))))))))"

fun for_clients :: "(('a, 'r) server \<Rightarrow> cid \<Rightarrow> server_error + ('a, 'r) server) \<Rightarrow> ('a, 'r) server \<Rightarrow>
    (string \<times> cid) list \<Rightarrow> server_error + ('a, 'r) server" where
  "for_clients f s [] = Inr s"
| "for_clients f s ((n, c) # cs) = and_then (f s c) (\<lambda>s. for_clients f s cs)"

text \<open>
  The file list of the primary screen is turned into a package. The result is the server's clipboard and
  the clipboard to send: \<open>None\<close> when packaging failed, \<open>Some None\<close> when it is the server's own. The server's
  own stays open in that case.
\<close>

definition prepare_outgoing :: "env \<Rightarrow> bool \<Rightarrow> clipboard \<Rightarrow>
    server_error + clipboard \<times> clipboard option option" where
  "prepare_outgoing env fromPrimary c =
     (if \<not> fromPrimary then Inr (c, Some None)
      else
        and_then (sv_open env c) (\<lambda>c.
        and_then (lift_clip (clip_has c kFileList)) (\<lambda>h.
        if \<not> h then Inr (c, Some None)
        else
          and_then (lift_clip (clip_get c kFileList)) (\<lambda>files.
          and_then (lift_clip (clip_close c)) (\<lambda>c.
          case ev_packageFileList env files of
            None \<Rightarrow> Inr (c, None)
          | Some package \<Rightarrow> and_then (with_file_list c package) (\<lambda>(out, c). Inr (c, Some (Some out))))))))"

text \<open>The file list of a clipboard that holds a package.\<close>

definition file_package :: "env \<Rightarrow> clipboard \<Rightarrow> server_error + bytes option" where
  "file_package env c =
     and_then (lift_clip (clip_open c 0)) (\<lambda>(c, _).
     and_then (lift_clip (clip_has c kFileList)) (\<lambda>h.
     if \<not> h then Inr None
     else and_then (lift_clip (clip_get c kFileList)) (\<lambda>files.
          Inr (if ev_isFilePackage env files then Some files else None))))"

definition deliver_clipboard :: "env \<Rightarrow> ('a, 'r) server \<Rightarrow> cid \<Rightarrow> nat \<Rightarrow> clipboard_info \<Rightarrow> clipboard option \<Rightarrow>
    server_error + ('a, 'r) server" where
  "deliver_clipboard env s sender i ci out =
     and_then (file_package env (case out of None \<Rightarrow> ci_clipboard ci | Some c \<Rightarrow> c)) (\<lambda>package.
     if m_active s = m_primaryClient s \<and> sender = m_primaryClient s then Inr s
     else case out of
       Some c \<Rightarrow> setClipboard s (m_active s) i c
     | None \<Rightarrow>
         if m_active s = m_primaryClient s \<and> package \<noteq> None then
           (case ev_unpackFilePackage env (the package) of
              None \<Rightarrow> Inr s
            | Some localFiles \<Rightarrow>
                and_then (with_file_list (ci_clipboard ci) localFiles) (\<lambda>(local, c).
                setClipboard (set_clip_info i (ci\<lparr>ci_clipboard := c\<rparr>) s) (m_active s) i local))
         else setClipboard s (m_active s) i (ci_clipboard ci))"

definition onClipboardChanged :: "env \<Rightarrow> ('a, 'r) server \<Rightarrow> cid \<Rightarrow> nat \<Rightarrow> u32 \<Rightarrow>
    server_error + ('a, 'r) server" where
  "onClipboardChanged env s sender i seqNum =
     and_then (clip_info s i) (\<lambda>ci.
     if seqNum < ci_seqNum ci then Inr s
     else
       and_then (sv_assert env (map_option snd (find_client s (ci_owner ci)) = Some sender)) (\<lambda>_.
       and_then (get_clipboard env s sender i (ci_clipboard ci)) (\<lambda>(c, ok, s).
       if \<not> ok then Inr (set_clip_info i (ci\<lparr>ci_clipboard := c\<rparr>) s)
       else
         and_then (prepare_outgoing env (sender = m_primaryClient s) c) (\<lambda>(c, prepared).
         case prepared of
           None \<Rightarrow> Inr (set_clip_info i (ci\<lparr>ci_clipboard := c\<rparr>) s)
         | Some out \<Rightarrow>
             and_then (sv_marshall env (case out of None \<Rightarrow> c | Some x \<Rightarrow> x)) (\<lambda>(m, data).
             let ci' = ci\<lparr>ci_clipboard := (if out = None then m else c)\<rparr>;
                 out = map_option (\<lambda>_. m) out
             in if m_maximumClipboardSize s < length data \<or> data = ci_data ci then Inr (set_clip_info i ci' s)
                else
                  (let ci' = ci'\<lparr>ci_data := data\<rparr>; s = set_clip_info i ci' s in
                   and_then (for_clients (\<lambda>s c. setClipboardDirty s c i (c \<noteq> sender)) s (m_clients s)) (\<lambda>s.
                   deliver_clipboard env s sender i ci' out)))))))"

subsection \<open>Switching screens\<close>

definition leave :: "env \<Rightarrow> ('a, 'r) server \<Rightarrow> cid \<Rightarrow> server_error + bool \<times> ('a, 'r) server" where
  "leave env s c =
     and_then (deref s c) (\<lambda>p. Inr (if px_primary p then ev_canLeave env else True, emit (Call c Leave) s))"

fun update_primary_clipboards :: "env \<Rightarrow> ('a, 'r) server \<Rightarrow> nat list \<Rightarrow> server_error + ('a, 'r) server" where
  "update_primary_clipboards env s [] = Inr s"
| "update_primary_clipboards env s (i # is) =
     and_then (clip_info s i) (\<lambda>ci.
     and_then (getName s (m_primaryClient s)) (\<lambda>n.
     and_then (if ci_owner ci = n then onClipboardChanged env s (m_primaryClient s) i (ci_seqNum ci) else Inr s)
       (\<lambda>s. update_primary_clipboards env s is)))"

fun send_clipboards :: "env \<Rightarrow> ('a, 'r) server \<Rightarrow> nat list \<Rightarrow> server_error + ('a, 'r) server" where
  "send_clipboards env s [] = Inr s"
| "send_clipboards env s (i # is) =
     and_then (clip_info s i) (\<lambda>ci.
     and_then (sv_marshall env (ci_clipboard ci)) (\<lambda>(c, data).
     let s = set_clip_info i (ci\<lparr>ci_clipboard := c\<rparr>) s in
     and_then
       (if m_maximumClipboardSize s < length data then Inr s
        else
          and_then (lift_clip clip_new) (\<lambda>new.
          and_then (lift_clip (clip_unmarshall new (ci_data ci) 0)) (\<lambda>new.
          setClipboard s (m_active s) i new)))
       (\<lambda>s. send_clipboards env s is)))"

text \<open>The cut-over to the new screen.\<close>

definition enter_screen :: "env \<Rightarrow> ('a, 'r) server \<Rightarrow> cid \<Rightarrow> int \<Rightarrow> int \<Rightarrow> bool \<Rightarrow>
    server_error + ('a, 'r) server" where
  "enter_screen env s dst x y forScreensaver =
     (let s = s\<lparr>m_active := dst, m_seqNum := m_seqNum s + 1\<rparr> in
      and_then (call s dst (Enter x y (m_seqNum s) (ev_toggleMask env) forScreensaver)) (\<lambda>s.
      and_then (if m_enableClipboard s then send_clipboards env s [0..<kNumClipboards] else Inr s) (\<lambda>s.
      and_then (deref s dst) (\<lambda>p. Inr (emit (Post (ScreenSwitched (px_name p))) s)))))"

definition record_position :: "('a, 'r) server \<Rightarrow> int \<Rightarrow> int \<Rightarrow> ('a, 'r) server" where
  "record_position s x y =
     s\<lparr>m_x := x, m_y := y, m_xDelta := 0, m_yDelta := 0, m_xDelta2 := 0, m_yDelta2 := 0\<rparr>"

definition switchScreen :: "env \<Rightarrow> ('a, 'r) server \<Rightarrow> cid \<Rightarrow> int \<Rightarrow> int \<Rightarrow> bool \<Rightarrow>
    server_error + ('a, 'r) server" where
  "switchScreen env s dst x y forScreensaver =
     and_then (if ev_debug env
               then and_then (getShape s dst) (\<lambda>sh. sv_assert env (on_screen sh x y)) else Inr ()) (\<lambda>_.
     and_then (getName s (m_active s)) (\<lambda>_.
     and_then (getName s dst) (\<lambda>_.
     let s = record_position (stopSwitch s) x y in
     if m_active s \<noteq> dst then
       and_then (leave env s (m_active s)) (\<lambda>(left, s).
       if \<not> left then Inr s
       else
         and_then (if m_active s = m_primaryClient s \<and> m_enableClipboard s
                   then update_primary_clipboards env s [0..<kNumClipboards] else Inr s) (\<lambda>s.
         enter_screen env s dst x y forScreensaver))
     else call s (m_active s) (MouseMove x y))))"

definition jumpToScreen :: "env \<Rightarrow> ('a, 'r) server \<Rightarrow> cid \<Rightarrow> server_error + ('a, 'r) server" where
  "jumpToScreen env s newScreen =
     and_then (setJumpCursorPos s (m_active s) (m_x s) (m_y s)) (\<lambda>s.
     and_then (getJumpCursorPos s newScreen) (\<lambda>(x, y). switchScreen env s newScreen x y False))"

definition stopRelativeMoves :: "('a, 'r) server \<Rightarrow> server_error + ('a, 'r) server" where
  "stopRelativeMoves s =
     (if m_relativeMoves s \<and> m_active s \<noteq> m_primaryClient s then
        and_then (getShape s (m_active s)) (\<lambda>(ax, ay, aw, ah).
        let s = record_position s (ax + aw div 2) (ay + ah div 2)
        in call s (m_active s) (MouseMove (m_x s) (m_y s)))
      else Inr s)"

subsection \<open>Options\<close>

definition options_list :: "screen_options option \<Rightarrow> u32 list" where
  "options_list options =
     (case options of None \<Rightarrow> [] | Some os \<Rightarrow> concat (map (\<lambda>(i, v). [of_nat i, word_of_int v]) os))"

definition sendOptions :: "('a, 'r) server \<Rightarrow> cid \<Rightarrow> server_error + ('a, 'r) server" where
  "sendOptions s c =
     and_then (getName s c) (\<lambda>n.
     let optionsList = options_list (getOptions (m_config s) n) @ options_list (getOptions (m_config s) [])
     in and_then (call s c ResetOptions) (\<lambda>s. call s c (SetOptions optionsList)))"

text \<open>One option; the relative moves are only recorded until all options have been looked at.\<close>

definition processOption :: "('a, 'r) server \<times> bool \<Rightarrow> nat \<times> int \<Rightarrow> ('a, 'r) server \<times> bool" where
  "processOption sr iv =
     (let (s, newRelativeMoves) = sr; (i, v) = iv in
      if i = kOptionScreenSwitchDelay
        then (stopSwitchWait (s\<lparr>m_switchWaitDelay := max 0 (of_int v / 1000)\<rparr>), newRelativeMoves)
      else if i = kOptionScreenSwitchTwoTap
        then (stopSwitchTwoTap (s\<lparr>m_switchTwoTapDelay := max 0 (of_int v / 1000)\<rparr>), newRelativeMoves)
      else if i = kOptionScreenSwitchNeedsControl then (s\<lparr>m_switchNeedsControl := v \<noteq> 0\<rparr>, newRelativeMoves)
      else if i = kOptionScreenSwitchNeedsShift then (s\<lparr>m_switchNeedsShift := v \<noteq> 0\<rparr>, newRelativeMoves)
      else if i = kOptionScreenSwitchNeedsAlt then (s\<lparr>m_switchNeedsAlt := v \<noteq> 0\<rparr>, newRelativeMoves)
      else if i = kOptionRelativeMouseMoves then (s, v \<noteq> 0)
      else if i = kOptionClipboardSharing then (s\<lparr>m_enableClipboard := v \<noteq> 0\<rparr>, newRelativeMoves)
      else if i = kOptionClipboardSharingSize
        then (s\<lparr>m_maximumClipboardSize := (if v \<le> 0 then 0 else nat v)\<rparr>, newRelativeMoves)
      else (s, newRelativeMoves))"

definition processOptions :: "('a, 'r) server \<Rightarrow> server_error + ('a, 'r) server" where
  "processOptions s =
     (case getOptions (m_config s) [] of
        None \<Rightarrow> Inr s
      | Some options \<Rightarrow>
          (let s = s\<lparr>m_switchNeedsShift := False, m_switchNeedsControl := False, m_switchNeedsAlt := False\<rparr>;
               (s, newRelativeMoves) = foldl processOption (s, m_relativeMoves s) options
           in and_then (if m_relativeMoves s \<and> \<not> newRelativeMoves then stopRelativeMoves s else Inr s) (\<lambda>s.
              Inr (s\<lparr>m_relativeMoves := newRelativeMoves\<rparr>))))"

end
