(* ===== verification/KeyInfo.thy ===== *)
theory KeyInfo
  imports Prelude "HOL-Library.Sublist" "HOL-Library.List_Lexorder" "HOL-Library.Char_ord"
begin

text \<open>
  The destinations of a key, \<^verbatim>\<open>IKeyState::KeyInfo\<close> of \<^verbatim>\<open>src/lib/inputleap/IKeyState.cpp\<close>: a set of screen names is kept
  as one string in which every name stands between colons; the empty string means the active screen and a star
  all screens. A null pointer is \<open>None\<close>, a \<^verbatim>\<open>std::set\<close> the list of its elements in order. A key goes to exactly the
  screens it was made for, and the string gives the set back.
\<close>

subsection \<open>Operations\<close>

definition isDefault :: "string option \<Rightarrow> bool" where
  "isDefault screens \<longleftrightarrow> screens = None \<or> screens = Some []"

definition screens_contain :: "string option \<Rightarrow> string \<Rightarrow> bool" where
  "screens_contain screens name =
     (case screens of
        None \<Rightarrow> False
      | Some [] \<Rightarrow> False
      | Some (c # cs) \<Rightarrow> c = CHR ''*'' \<or> sublist (CHR '':'' # name @ [CHR '':'']) (c # cs))"

fun key_join_loop :: "string \<Rightarrow> string list \<Rightarrow> string" where
  "key_join_loop screens [] = screens"
| "key_join_loop screens (d # ds) =
     (if d = ''*'' then ''*''
      else key_join_loop ((if screens = [] then '':'' else screens) @ d @ '':'') ds)"

definition key_join :: "string list \<Rightarrow> string" where
  "key_join destinations = key_join_loop [] destinations"

text \<open>
  The loop of \<^verbatim>\<open>split\<close>: \<open>None\<close> when no colon ends the last name, where the code would build a string from a null
  pointer.
\<close>

function key_split_loop :: "string \<Rightarrow> string list \<Rightarrow> string list option" where
  "key_split_loop i dst =
     (if i = [] then Some dst
      else if CHR '':'' \<notin> set i then None
      else key_split_loop (tl (dropWhile (\<lambda>c. c \<noteq> CHR '':'') i))
             (insort_insert (takeWhile (\<lambda>c. c \<noteq> CHR '':'') i) dst))"
  by auto
termination
  by (relation "measure (\<lambda>(i, dst). length i)")
     (auto intro: diff_less_mono2 le_less_trans [OF diff_le_mono [OF length_dropWhile_le]])

declare key_split_loop.simps [simp del]

definition key_split :: "string option \<Rightarrow> string list option" where
  "key_split screens =
     (if isDefault screens then Some []
      else if hd (the screens) = CHR ''*'' then Some [''*'']
      else key_split_loop (tl (the screens)) [])"

text \<open>\<^verbatim>\<open>KeyInfo::equal\<close> compares all fields.\<close>

record key_info =
  m_key :: nat
  m_mask :: nat
  m_button :: nat
  m_count :: int
  m_screens :: string

definition KeyInfo_create :: "nat \<Rightarrow> nat \<Rightarrow> nat \<Rightarrow> int \<Rightarrow> string list \<Rightarrow> key_info" where
  "KeyInfo_create i mods button count destinations =
     \<lparr>m_key = i, m_mask = mods, m_button = button, m_count = count, m_screens = key_join destinations\<rparr>"

definition KeyInfo_equal :: "key_info \<Rightarrow> key_info \<Rightarrow> bool" where
  "KeyInfo_equal a b \<longleftrightarrow> m_key a = m_key b \<and> m_mask a = m_mask b \<and> m_button a = m_button b \<and> m_count a = m_count b \<and>
     m_screens a = m_screens b"

subsection \<open>Which screens a key reaches\<close>

text \<open>The names a set of destinations may hold.\<close>

definition plain :: "string \<Rightarrow> bool" where
  "plain n \<longleftrightarrow> CHR '':'' \<notin> set n \<and> n \<noteq> ''*''"

definition colons :: "string list \<Rightarrow> string" where
  "colons ds = CHR '':'' # concat (map (\<lambda>d. d @ '':'') ds)"

lemma join_loop_plain:
  "\<forall>d \<in> set ds. d \<noteq> ''*'' \<Longrightarrow> screens \<noteq> [] \<Longrightarrow> key_join_loop screens ds = screens @ concat (map (\<lambda>d. d @ '':'') ds)"
  by (induction ds arbitrary: screens) auto

lemma join_plain: "\<forall>d \<in> set ds. d \<noteq> ''*'' \<Longrightarrow> ds \<noteq> [] \<Longrightarrow> key_join ds = colons ds"
  by (cases ds) (auto simp: key_join_def colons_def join_loop_plain)

lemma join_loop_star: "''*'' \<in> set ds \<Longrightarrow> key_join_loop screens ds = ''*''"
  by (induction ds arbitrary: screens) auto

lemma sublist_skip:
  "CHR '':'' \<notin> set d \<Longrightarrow> sublist (CHR '':'' # m) (d @ w) \<longleftrightarrow> sublist (CHR '':'' # m) w"
  by (induction d) (auto simp: sublist_Cons_right)

lemma prefix_name:
  "CHR '':'' \<notin> set n \<Longrightarrow> CHR '':'' \<notin> set d \<Longrightarrow> prefix (n @ '':'') (d @ CHR '':'' # w) \<longleftrightarrow> n = d"
proof (induction n arbitrary: d)
  case Nil
  then show ?case by (cases d) auto
next
  case (Cons c n)
  then show ?case by (cases d) auto
qed

lemma sublist_colons:
  assumes "CHR '':'' \<notin> set n" "\<forall>d \<in> set ds. CHR '':'' \<notin> set d"
  shows "sublist (CHR '':'' # n @ '':'') (colons ds) \<longleftrightarrow> n \<in> set ds"
  using assms(2)
proof (induction ds)
  case Nil
  show ?case by (auto simp: colons_def sublist_Cons_right)
next
  case (Cons d ds)
  have "sublist (CHR '':'' # n @ '':'') (colons (d # ds)) \<longleftrightarrow>
      prefix (n @ '':'') (d @ colons ds) \<or> sublist (CHR '':'' # n @ '':'') (d @ colons ds)"
    by (simp add: colons_def sublist_Cons_right)
  also have "\<dots> \<longleftrightarrow> n = d \<or> n \<in> set ds"
    using Cons sublist_skip [of d "n @ '':''" "colons ds"] prefix_name [OF assms(1), of d] by (simp add: colons_def)
  finally show ?case by auto
qed

lemma contains_join:
  assumes "plain n" "\<forall>d \<in> set ds. d = ''*'' \<or> plain d"
  shows "screens_contain (Some (key_join ds)) n \<longleftrightarrow> n \<in> set ds \<or> ''*'' \<in> set ds"
proof (cases "''*'' \<in> set ds \<or> ds = []")
  case True
  then show ?thesis by (auto simp: key_join_def join_loop_star screens_contain_def)
next
  case False
  then have j: "key_join ds = colons ds" by (intro join_plain) auto
  have "CHR '':'' \<notin> set n" using assms(1) by (simp add: plain_def)
  moreover have "CHR '':'' \<notin> set d" if "d \<in> set ds" for d
  proof -
    have "d \<noteq> ''*''" using that False by metis
    then show ?thesis using that assms(2) by (metis plain_def)
  qed
  ultimately have "sublist (CHR '':'' # n @ '':'') (colons ds) \<longleftrightarrow> n \<in> set ds" by (intro sublist_colons) simp_all
  moreover have "screens_contain (Some (colons ds)) n \<longleftrightarrow> sublist (CHR '':'' # n @ '':'') (colons ds)"
    by (simp add: screens_contain_def colons_def)
  ultimately show ?thesis using False j by simp
qed

lemma split_name:
  assumes "CHR '':'' \<notin> set d"
  shows "key_split_loop (d @ CHR '':'' # w) dst = key_split_loop w (insort_insert d dst)"
proof -
  have "dropWhile (\<lambda>c. c \<noteq> CHR '':'') (d @ CHR '':'' # w) = CHR '':'' # w" "takeWhile (\<lambda>c. c \<noteq> CHR '':'') (d @ CHR '':'' # w) = d"
    using assms by (induction d) auto
  then show ?thesis by (subst key_split_loop.simps) simp
qed

lemma split_loop_names:
  "\<forall>d \<in> set ds. CHR '':'' \<notin> set d \<Longrightarrow>
     key_split_loop (concat (map (\<lambda>d. d @ '':'') ds)) dst = Some (foldl (\<lambda>a d. insort_insert d a) dst ds)"
proof (induction ds arbitrary: dst)
  case Nil
  show ?case by (subst key_split_loop.simps) simp
qed (simp add: split_name)

lemma insert_all:
  "sorted dst \<Longrightarrow> distinct dst \<Longrightarrow> sorted (foldl (\<lambda>a d. insort_insert d a) dst ds) \<and>
     distinct (foldl (\<lambda>a d. insort_insert d a) dst ds) \<and> set (foldl (\<lambda>a d. insort_insert d a) dst ds) = set dst \<union> set ds"
  by (induction ds arbitrary: dst)
     (auto simp: sorted_insort_insert distinct_insort_insert set_insort_insert)

text \<open>
  The set of destinations can be read back from the string it is kept as.
\<close>

theorem split_join:
  assumes "sorted ds" "distinct ds" "\<forall>d \<in> set ds. plain d"
  shows "key_split (Some (key_join ds)) = Some ds"
proof (cases "ds = []")
  case True
  then show ?thesis by (simp add: key_join_def key_split_def isDefault_def)
next
  case False
  then have "key_join ds = colons ds" using assms(3) by (intro join_plain) (auto simp: plain_def)
  moreover have "key_split_loop (concat (map (\<lambda>d. d @ '':'') ds)) [] = Some (foldl (\<lambda>a d. insort_insert d a) [] ds)"
    by (rule split_loop_names) (use assms(3) in \<open>simp add: plain_def\<close>)
  moreover have "foldl (\<lambda>a d. insort_insert d a) [] ds = ds"
    by (rule sorted_distinct_set_unique) (use insert_all [of "[]" ds] assms in auto)
  ultimately show ?thesis by (simp add: key_split_def isDefault_def colons_def)
qed

theorem split_join_witness: "key_split (Some (key_join [''desk'', ''pc''])) = Some [''desk'', ''pc'']"
proof -
  have "sorted [''desk'', ''pc'']" by code_simp
  then show ?thesis using split_join [of "[''desk'', ''pc'']"] by (simp add: plain_def)
qed

end
