(* ===== verification/ServerEvents.thy ===== *)
theory ServerEvents
  imports Server KeyInfo
begin

text \<open>
  The event handlers of \<^verbatim>\<open>src/lib/server/Server.cpp\<close>: pointer motion on the server's screen and on a client's,
  keys and buttons, screen saver, clipboard ownership, hot-key actions, and clients that come and go.
  \<open>handle\<close> dispatches an input of the server to its handler. The registration of handlers at the event
  queue is not part of the state.
\<close>

subsection \<open>Pointer motion\<close>

definition clamp_zone :: "int \<Rightarrow> int \<Rightarrow> int \<Rightarrow> int \<Rightarrow> int" where
  "clamp_zone v a w z = (if v < a + z then a else if a + w - z \<le> v then a + w - 1 else v)"

text \<open>The side whose jump zone holds the position, and the position past it.\<close>

definition zone_h :: "int \<Rightarrow> int \<Rightarrow> int \<Rightarrow> int \<Rightarrow> EDirection \<times> int" where
  "zone_h x ax aw z =
     (if x < ax + z then (kLeft, x - z) else if ax + aw - z \<le> x then (kRight, x + z) else (kNoDirection, x))"

definition zone_v :: "int \<Rightarrow> int \<Rightarrow> int \<Rightarrow> int \<Rightarrow> EDirection \<times> int" where
  "zone_v y ay ah z =
     (if y < ay + z then (kTop, y - z) else if ay + ah - z \<le> y then (kBottom, y + z) else (kNoDirection, y))"

text \<open>The loop over the two directions; the result says whether the screen was left.\<close>

fun try_directions :: "env \<Rightarrow> ('a, 'r) server \<Rightarrow> int \<Rightarrow> int \<Rightarrow> (EDirection \<times> int \<times> int) list \<Rightarrow>
    server_error + bool \<times> ('a, 'r) server" where
  "try_directions env s xc yc [] = Inr (False, s)"
| "try_directions env s xc yc ((dir, x, y) # ds) =
     (if dir = kNoDirection then try_directions env s xc yc ds
      else
        and_then (mapToNeighbor env s (m_active s) dir x y) (\<lambda>(newScreen, x, y).
        and_then (isSwitchOkay env s newScreen dir x y xc yc) (\<lambda>(ok, s).
        case newScreen of
          None \<Rightarrow> try_directions env s xc yc ds
        | Some c \<Rightarrow>
            if \<not> ok then try_directions env s xc yc ds
            else if m_enableDragDrop s \<and> ev_draggingStarted env \<and> m_active s \<noteq> c \<and> m_waitDragInfoThread s then
              Inr (False, if m_sendDragInfoThread s then s
                          else emit (StartSendDragInfo c) (s\<lparr>m_sendDragInfoThread := True\<rparr>))
            else
              and_then (switchScreen env s c x y False) (\<lambda>s. Inr (True, s\<lparr>m_waitDragInfoThread := True\<rparr>)))))"

text \<open>The last two deltas and the new position.\<close>

definition record_motion :: "('a, 'r) server \<Rightarrow> int \<Rightarrow> int \<Rightarrow> int \<Rightarrow> int \<Rightarrow> ('a, 'r) server" where
  "record_motion s dx dy x y =
     s\<lparr>m_xDelta2 := m_xDelta s, m_yDelta2 := m_yDelta s, m_xDelta := dx, m_yDelta := dy, m_x := x, m_y := y\<rparr>"

definition onMouseMovePrimary :: "env \<Rightarrow> ('a, 'r) server \<Rightarrow> int \<Rightarrow> int \<Rightarrow>
    server_error + bool \<times> ('a, 'r) server" where
  "onMouseMovePrimary env s x y =
     (if m_active s \<noteq> m_primaryClient s then Inr (False, s)
      else
        (let s = record_motion s (x - m_x s) (y - m_y s) x y in
         and_then (getShape s (m_active s)) (\<lambda>(ax, ay, aw, ah).
         let z = getJumpZoneSize env s (m_active s);
             xc = clamp_zone x ax aw z; yc = clamp_zone y ay ah z;
             (dirh, xh) = zone_h x ax aw z; (dirv, yv) = zone_v y ay ah z
         in if dirh = kNoDirection \<and> dirv = kNoDirection then
              and_then (noSwitch env s x y) (\<lambda>s. Inr (False, s))
            else try_directions env s xc yc [(dirh, xh, y), (dirv, x, yv)])))"

definition clamp :: "int \<Rightarrow> int \<Rightarrow> int \<Rightarrow> int" where
  "clamp v a w = (if v < a then a else if a + w - 1 < v then a + w - 1 else v)"

text \<open>Whether the pointer, on the screen, has moved off the border the server waits at.\<close>

definition clear_wait :: "EDirection \<Rightarrow> shape \<Rightarrow> int \<Rightarrow> int \<Rightarrow> int \<Rightarrow> bool" where
  "clear_wait dir sh z x y =
     (let (ax, ay, aw, ah) = sh in
      case dir of
        kLeft \<Rightarrow> ax + z \<le> x
      | kRight \<Rightarrow> x \<le> ax + aw - 1 - z
      | kTop \<Rightarrow> ay + z \<le> y
      | kBottom \<Rightarrow> y \<le> ay + ah - 1 + z
      | kNoDirection \<Rightarrow> False)"

definition exit_side :: "shape \<Rightarrow> int \<Rightarrow> int \<Rightarrow> EDirection" where
  "exit_side sh x y =
     (let (ax, ay, aw, ah) = sh in
      if x < ax then kLeft else if ax + aw - 1 < x then kRight
      else if y < ay then kTop else if ay + ah - 1 < y then kBottom else kNoDirection)"

text \<open>The body of the \<^verbatim>\<open>do\<close> block: the screen to jump to, if any, with the position there, and the state.\<close>

definition find_jump :: "env \<Rightarrow> ('a, 'r) server \<Rightarrow> shape \<Rightarrow>
    server_error + (cid \<times> int \<times> int) option \<times> ('a, 'r) server" where
  "find_jump env s sh =
     (let (ax, ay, aw, ah) = sh; x = m_x s; y = m_y s;
          xc = clamp x ax aw; yc = clamp y ay ah; dir = exit_side sh x y
      in if dir = kNoDirection then
           (if m_switchScreen s \<noteq> None \<and> clear_wait (m_switchDir s) sh (ev_jumpZone env) x y
            then and_then (noSwitch env s x y) (\<lambda>s. Inr (None, s)) else Inr (None, s))
         else
           and_then (mapToNeighbor env s (m_active s) dir x y) (\<lambda>(newScreen, x, y).
           and_then (isSwitchOkay env (s\<lparr>m_x := x, m_y := y\<rparr>) newScreen dir x y xc yc) (\<lambda>(ok, s).
           case newScreen of
             None \<Rightarrow> Inr (None, s)
           | Some c \<Rightarrow> Inr (if ok then Some (c, x, y) else None, s))))"

text \<open>The jump, or the pointer kept at the edge and the client told when it moved.\<close>

definition finish_secondary :: "env \<Rightarrow> ('a, 'r) server \<Rightarrow> shape \<Rightarrow> int \<Rightarrow> int \<Rightarrow> int \<Rightarrow> int \<Rightarrow>
    (cid \<times> int \<times> int) option \<Rightarrow> server_error + ('a, 'r) server" where
  "finish_secondary env s sh xOld yOld dx dy jump =
     (case jump of
        Some (newScreen, newX, newY) \<Rightarrow>
          (let s = (if m_sendFileThread s then emit InterruptFile (s\<lparr>m_sendFileThread := False\<rparr>) else s)
           in switchScreen env s newScreen newX newY False)
      | None \<Rightarrow>
          (let (ax, ay, aw, ah) = sh;
               s = s\<lparr>m_x := clamp (xOld + dx) ax aw, m_y := clamp (yOld + dy) ay ah\<rparr>
           in if m_x s \<noteq> xOld \<or> m_y s \<noteq> yOld then call s (m_active s) (MouseMove (m_x s) (m_y s)) else Inr s))"

definition onMouseMoveSecondary :: "env \<Rightarrow> ('a, 'r) server \<Rightarrow> int \<Rightarrow> int \<Rightarrow> server_error + ('a, 'r) server" where
  "onMouseMoveSecondary env s dx dy =
     (if m_active s = m_primaryClient s then Inr s
      else if m_relativeMoves s \<and> isLockedToScreenServer s then call s (m_active s) (MouseRelativeMove dx dy)
      else
        (let xOld = m_x s; yOld = m_y s; s = record_motion s dx dy (xOld + dx) (yOld + dy) in
         and_then (getShape s (m_active s)) (\<lambda>sh.
         and_then (find_jump env s sh) (\<lambda>(jump, s). finish_secondary env s sh xOld yOld dx dy jump))))"

subsection \<open>Keys and buttons\<close>

definition broadcast_screens :: "('a, 'r) server \<Rightarrow> string option \<Rightarrow> string option" where
  "broadcast_screens s screens =
     (if screens = None \<and> m_keyboardBroadcasting s
      then if isDefault (Some (m_keyboardBroadcastingScreens s)) then Some ''*''
           else Some (m_keyboardBroadcastingScreens s)
      else screens)"

definition relay_key :: "('a, 'r) server \<Rightarrow> client_call \<Rightarrow> string option \<Rightarrow> server_error + ('a, 'r) server" where
  "relay_key s k screens =
     (if \<not> m_keyboardBroadcasting s \<and> isDefault screens then call s (m_active s) k
      else
        (let screens = broadcast_screens s screens in
         for_clients (\<lambda>s c. call s c k) s (filter (\<lambda>(n, c). screens_contain screens n) (m_clients s))))"

definition onKeyDown :: "('a, 'r) server \<Rightarrow> u32 \<Rightarrow> u32 \<Rightarrow> u16 \<Rightarrow> string option \<Rightarrow> server_error + ('a, 'r) server" where
  "onKeyDown s i mods button screens = relay_key s (KeyDown i mods button) screens"

definition onKeyUp :: "('a, 'r) server \<Rightarrow> u32 \<Rightarrow> u32 \<Rightarrow> u16 \<Rightarrow> string option \<Rightarrow> server_error + ('a, 'r) server" where
  "onKeyUp s i mods button screens = relay_key s (KeyUp i mods button) screens"

definition onKeyRepeat :: "('a, 'r) server \<Rightarrow> u32 \<Rightarrow> u32 \<Rightarrow> int \<Rightarrow> u16 \<Rightarrow> server_error + ('a, 'r) server" where
  "onKeyRepeat s i mods count button = call s (m_active s) (KeyRepeat i mods count button)"

definition onMouseDown :: "('a, 'r) server \<Rightarrow> nat \<Rightarrow> server_error + ('a, 'r) server" where
  "onMouseDown s b = and_then (call s (m_active s) (MouseDown b)) (\<lambda>s. Inr (s\<lparr>m_waitDragInfoThread := True\<rparr>))"

definition sendFileToClient :: "('a, 'r) server \<Rightarrow> string \<Rightarrow> ('a, 'r) server" where
  "sendFileToClient s filename =
     (let s = (if m_sendFileThread s then emit InterruptFile s else s)
      in emit (StartSendFile filename) (s\<lparr>m_sendFileThread := True\<rparr>))"

definition onMouseUp :: "env \<Rightarrow> ('a, 'r) server \<Rightarrow> nat \<Rightarrow> server_error + ('a, 'r) server" where
  "onMouseUp env s b =
     and_then (call s (m_active s) (MouseUp b)) (\<lambda>s.
     if m_ignoreFileTransfer s then Inr (s\<lparr>m_ignoreFileTransfer := False\<rparr>)
     else if m_enableDragDrop s then
       (let s = (if \<not> ev_onScreen env \<and> ev_draggingFilename env \<noteq> []
                 then sendFileToClient s (ev_draggingFilename env) else s)
        in Inr (emit ClearDraggingFilename s))
     else Inr s)"

definition onMouseWheel :: "('a, 'r) server \<Rightarrow> int \<Rightarrow> int \<Rightarrow> server_error + ('a, 'r) server" where
  "onMouseWheel s dx dy = call s (m_active s) (MouseWheel dx dy)"

definition on_file_chunk_sending :: "('a, 'r) server \<Rightarrow> byte \<Rightarrow> bytes \<Rightarrow> server_error + ('a, 'r) server" where
  "on_file_chunk_sending s mark d = call s (m_active s) (FileChunkSending mark d)"

subsection \<open>Screen saver, shapes and clipboards\<close>

definition clamp_saver :: "int \<Rightarrow> int \<Rightarrow> int \<Rightarrow> int \<Rightarrow> int" where
  "clamp_saver v a w z = (if v < a + z then a + z else if a + w - z \<le> v then a + w - z - 1 else v)"

definition saver_on :: "env \<Rightarrow> ('a, 'r) server \<Rightarrow> server_error + ('a, 'r) server" where
  "saver_on env s =
     (let s = s\<lparr>m_activeSaver := Some (m_active s), m_xSaver := m_x s, m_ySaver := m_y s\<rparr>
      in if m_active s \<noteq> m_primaryClient s then switchScreen env s (m_primaryClient s) 0 0 True else Inr s)"

definition return_from_saver :: "env \<Rightarrow> ('a, 'r) server \<Rightarrow> cid \<Rightarrow> server_error + ('a, 'r) server" where
  "return_from_saver env s screen =
     and_then (getShape s screen) (\<lambda>(x, y, w, h).
     let z = getJumpZoneSize env s screen;
         s = s\<lparr>m_xSaver := clamp_saver (m_xSaver s) x w z, m_ySaver := clamp_saver (m_ySaver s) y h z\<rparr>
     in switchScreen env s screen (m_xSaver s) (m_ySaver s) False)"

definition saver_off :: "env \<Rightarrow> ('a, 'r) server \<Rightarrow> server_error + ('a, 'r) server" where
  "saver_off env s =
     and_then
       (case m_activeSaver s of
          None \<Rightarrow> Inr s
        | Some screen \<Rightarrow> if screen = m_primaryClient s then Inr s else return_from_saver env s screen)
       (\<lambda>s. Inr (s\<lparr>m_activeSaver := None\<rparr>))"

definition onScreensaver :: "env \<Rightarrow> ('a, 'r) server \<Rightarrow> bool \<Rightarrow> server_error + ('a, 'r) server" where
  "onScreensaver env s activated =
     and_then (if activated then saver_on env s else saver_off env s)
       (\<lambda>s. for_clients (\<lambda>s c. call s c (Screensaver activated)) s (m_clients s))"

text \<open>The pointer on a screen whose shape has changed.\<close>

definition update_position :: "env \<Rightarrow> ('a, 'r) server \<Rightarrow> cid \<Rightarrow> int \<Rightarrow> int \<Rightarrow> server_error + ('a, 'r) server" where
  "update_position env s c x y =
     (let s = (if c = m_active s then s\<lparr>m_x := x, m_y := y\<rparr> else s) in
      if c = m_primaryClient s then
        if c = m_active s then and_then (onMouseMovePrimary env s (m_x s) (m_y s)) (\<lambda>(_, s). Inr s)
        else onMouseMoveSecondary env s 0 0
      else Inr s)"

definition handle_shape_changed :: "env \<Rightarrow> ('a, 'r) server \<Rightarrow> cid \<Rightarrow> server_error + ('a, 'r) server" where
  "handle_shape_changed env s c =
     (if c \<notin> set (m_clientSet s) then Inr s
      else
        and_then (getCursorPos s c) (\<lambda>(x, y).
        and_then (setJumpCursorPos s c x y) (\<lambda>s. update_position env s c x y)))"

definition handle_clipboard_grabbed :: "env \<Rightarrow> ('a, 'r) server \<Rightarrow> cid \<Rightarrow> nat \<Rightarrow> u32 \<Rightarrow>
    server_error + ('a, 'r) server" where
  "handle_clipboard_grabbed env s grabber i seqNum =
     (if \<not> m_enableClipboard s \<or> m_maximumClipboardSize s = 0 then Inr s
      else if grabber \<notin> set (m_clientSet s) then Inr s
      else
        and_then (clip_info s i) (\<lambda>ci.
        if grabber \<noteq> m_primaryClient s \<and> seqNum < ci_seqNum ci then Inr s
        else
          and_then (getName s grabber) (\<lambda>n.
          and_then (sv_open env (ci_clipboard ci)) (\<lambda>c.
          and_then (lift_clip (clip_clear c)) (\<lambda>(c, _).
          and_then (lift_clip (clip_close c)) (\<lambda>c.
          and_then (sv_marshall env c) (\<lambda>(c, data).
          let s = set_clip_info i \<lparr>ci_clipboard = c, ci_data = data, ci_owner = n, ci_seqNum = seqNum\<rparr> s in
          for_clients (\<lambda>s c. if c = grabber then setClipboardDirty s c i False else grabClipboard s c i)
            s (m_clients s))))))))"

definition handle_clipboard_changed :: "env \<Rightarrow> ('a, 'r) server \<Rightarrow> cid \<Rightarrow> nat \<Rightarrow> u32 \<Rightarrow>
    server_error + ('a, 'r) server" where
  "handle_clipboard_changed env s c i seqNum =
     (if c \<notin> set (m_clientSet s) then Inr s else onClipboardChanged env s c i seqNum)"

subsection \<open>Hot-key actions\<close>

datatype switch_state = kOff | kOn | kToggle

definition new_state :: "switch_state \<Rightarrow> bool \<Rightarrow> bool" where
  "new_state st old = (case st of kOff \<Rightarrow> False | kOn \<Rightarrow> True | kToggle \<Rightarrow> \<not> old)"

definition handle_switch_wait_event :: "env \<Rightarrow> ('a, 'r) server \<Rightarrow> server_error + ('a, 'r) server" where
  "handle_switch_wait_event env s =
     (if isLockedToScreen env s then Inr (stopSwitch s)
      else case m_switchScreen s of
             None \<Rightarrow> Inl DanglingPointer
           | Some c \<Rightarrow> switchScreen env s c (m_switchWaitX s) (m_switchWaitY s) False)"

definition handle_switch_to_screen_event :: "env \<Rightarrow> ('a, 'r) server \<Rightarrow> string \<Rightarrow> server_error + ('a, 'r) server" where
  "handle_switch_to_screen_event env s screen =
     (case find_client s screen of None \<Rightarrow> Inr s | Some (_, c) \<Rightarrow> jumpToScreen env s c)"

fun next_client :: "string \<Rightarrow> (string \<times> cid) list \<Rightarrow> cid option" where
  "next_client n [] = None"
| "next_client n [(m, c)] = None"
| "next_client n ((m, c) # (m', c') # cs) = (if m = n then Some c' else next_client n ((m', c') # cs))"

definition handle_toggle_screen_event :: "env \<Rightarrow> ('a, 'r) server \<Rightarrow> server_error + ('a, 'r) server" where
  "handle_toggle_screen_event env s =
     and_then (getName s (m_active s)) (\<lambda>current.
     case find_client s current of
       None \<Rightarrow> Inr s
     | Some _ \<Rightarrow>
         (case next_client current (m_clients s) of
            Some c \<Rightarrow> jumpToScreen env s c
          | None \<Rightarrow> (case m_clients s of [] \<Rightarrow> Inl DanglingPointer | (_, c) # _ \<Rightarrow> jumpToScreen env s c)))"

definition handle_switch_in_direction_event :: "env \<Rightarrow> ('a, 'r) server \<Rightarrow> EDirection \<Rightarrow>
    server_error + ('a, 'r) server" where
  "handle_switch_in_direction_event env s dir =
     and_then (sv_getNeighbor s (m_active s) dir (m_x s) (m_y s)) (\<lambda>(newScreen, x, y).
     case newScreen of None \<Rightarrow> Inr s | Some c \<Rightarrow> jumpToScreen env s c)"

definition handle_keyboard_broadcast_event :: "('a, 'r) server \<Rightarrow> switch_state \<Rightarrow> string \<Rightarrow> ('a, 'r) server" where
  "handle_keyboard_broadcast_event s st screens =
     (let newState = new_state st (m_keyboardBroadcasting s) in
      if newState \<noteq> m_keyboardBroadcasting s \<or> screens \<noteq> m_keyboardBroadcastingScreens s
      then s\<lparr>m_keyboardBroadcasting := newState, m_keyboardBroadcastingScreens := screens\<rparr> else s)"

definition reconfigure :: "('a, 'r) server \<Rightarrow> server_error + ('a, 'r) server" where
  "reconfigure s =
     and_then (getActivePrimarySides s) (\<lambda>sides. call s (m_primaryClient s) (Reconfigure sides))"

definition handle_lock_cursor_to_screen_event :: "('a, 'r) server \<Rightarrow> switch_state \<Rightarrow>
    server_error + ('a, 'r) server" where
  "handle_lock_cursor_to_screen_event s st =
     (let newState = new_state st (m_lockedToScreen s) in
      if newState = m_lockedToScreen s then Inr s
      else
        and_then (reconfigure (s\<lparr>m_lockedToScreen := newState\<rparr>)) (\<lambda>s.
        if \<not> isLockedToScreenServer s then stopRelativeMoves s else Inr s))"

definition handle_fake_input_begin_event :: "('a, 'r) server \<Rightarrow> server_error + ('a, 'r) server" where
  "handle_fake_input_begin_event s = call s (m_primaryClient s) FakeInputBegin"

definition handle_fake_input_end_event :: "('a, 'r) server \<Rightarrow> server_error + ('a, 'r) server" where
  "handle_fake_input_end_event s = call s (m_primaryClient s) FakeInputEnd"

subsection \<open>Clients that come and go\<close>

definition addClient :: "('a, 'r) server \<Rightarrow> cid \<Rightarrow> server_error + bool \<times> ('a, 'r) server" where
  "addClient s c =
     and_then (getName s c) (\<lambda>n.
     if find_client s n \<noteq> None then Inr (False, s)
     else
       (let s = s\<lparr>m_clientSet := List.insert c (m_clientSet s), m_clients := sm_insert (<) n c (m_clients s)\<rparr> in
        and_then (getCursorPos s c) (\<lambda>(x, y).
        and_then (setJumpCursorPos s c x y) (\<lambda>s.
        and_then (reconfigure s) (\<lambda>s. Inr (True, s))))))"

definition removeClient :: "('a, 'r) server \<Rightarrow> cid \<Rightarrow> server_error + bool \<times> ('a, 'r) server" where
  "removeClient s c =
     (if c \<notin> set (m_clientSet s) then Inr (False, s)
      else
        and_then (getName s c) (\<lambda>n.
        Inr (True, s\<lparr>m_clients := sm_erase (<) n (m_clients s), m_clientSet := removeAll c (m_clientSet s)\<rparr>)))"

text \<open>\<^verbatim>\<open>ServerConnectionEventPolicy::activeClientRemoved\<close> and the events it decides on.\<close>

definition activeClientRemoved :: "string \<Rightarrow> bool \<Rightarrow> bool \<Rightarrow> nat \<Rightarrow> nat \<Rightarrow> string option \<times> bool" where
  "activeClientRemoved screenName removed allowServerDisconnected remainingClientCount closingClientCount =
     (if \<not> removed then (None, False)
      else (Some screenName, allowServerDisconnected \<and> remainingClientCount = 1 \<and> closingClientCount = 0))"

definition emitActiveClientRemovalEvents :: "('a, 'r) server \<Rightarrow> string \<Rightarrow> bool \<Rightarrow> bool \<Rightarrow> ('a, 'r) server" where
  "emitActiveClientRemovalEvents s screenName removed allowServerDisconnected =
     (let (screen, disconnected) = activeClientRemoved screenName removed allowServerDisconnected
            (length (m_clients s)) (length (m_oldClients s));
          s = (case screen of None \<Rightarrow> s | Some n \<Rightarrow> emit (Post (ScreenDisconnected n)) s)
      in if disconnected then emit (Post ServerDisconnected) s else s)"

text \<open>Cutting over to the server's own screen, in the middle of it, when the active screen is taken away.\<close>

definition cut_over :: "env \<Rightarrow> ('a, 'r) server \<Rightarrow> cid \<Rightarrow> ('a, 'r) server" where
  "cut_over env s active =
     (let s = s\<lparr>m_x := fst (ev_center env), m_y := snd (ev_center env)\<rparr>;
          s = (if m_switchScreen s = Some active then stopSwitch s else s)
      in s\<lparr>m_active := m_primaryClient s\<rparr>)"

definition jump_off :: "env \<Rightarrow> ('a, 'r) server \<Rightarrow> cid \<Rightarrow> server_error + ('a, 'r) server" where
  "jump_off env s active =
     (let s = cut_over env s active in
      and_then (if m_activeSaver s = None
                then call s (m_primaryClient s) (Enter (m_x s) (m_y s) (m_seqNum s) (ev_toggleMask env) False)
                else Inr s) (\<lambda>s.
      and_then (deref s (m_active s)) (\<lambda>p. Inr (emit (Post (ScreenSwitched (px_name p))) s))))"

definition forceLeaveClient :: "env \<Rightarrow> ('a, 'r) server \<Rightarrow> cid \<Rightarrow> server_error + ('a, 'r) server" where
  "forceLeaveClient env s c =
     (let active = (case m_activeSaver s of Some a \<Rightarrow> a | None \<Rightarrow> m_active s) in
      and_then (if active = c then jump_off env s active else Inr s) (\<lambda>s.
      reconfigure (if m_activeSaver s = Some c then s\<lparr>m_activeSaver := None\<rparr> else s)))"

definition closeClient :: "env \<Rightarrow> ('a, 'r) server \<Rightarrow> cid \<Rightarrow> server_error + ('a, 'r) server" where
  "closeClient env s c =
     and_then (sv_assert env (c \<noteq> m_primaryClient s)) (\<lambda>_.
     and_then (call s c Flush) (\<lambda>s.
     let s = emit (StartCloseTimer c) s in
     and_then (getName s c) (\<lambda>disconnectedScreen.
     and_then (removeClient s c) (\<lambda>(removed, s).
     let s = emitActiveClientRemovalEvents s disconnectedScreen removed False;
         s = s\<lparr>m_oldClients := List.insert c (m_oldClients s)\<rparr>
     in forceLeaveClient env s c))))"

fun close_all :: "env \<Rightarrow> ('a, 'r) server \<Rightarrow> cid list \<Rightarrow> server_error + ('a, 'r) server" where
  "close_all env s [] = Inr s"
| "close_all env s (c # cs) = and_then (closeClient env s c) (\<lambda>s. close_all env s cs)"

definition closeClients :: "env \<Rightarrow> ('a, 'r) server \<Rightarrow> ('a, 'r) config \<Rightarrow> server_error + ('a, 'r) server" where
  "closeClients env s config =
     close_all env s (filter (\<lambda>c. c \<noteq> m_primaryClient s)
       (remdups (sort [c. (n, c) \<leftarrow> m_clients s, \<not> isCanonicalName config n])))"

definition removeActiveClient :: "env \<Rightarrow> ('a, 'r) server \<Rightarrow> cid \<Rightarrow> server_error + ('a, 'r) server" where
  "removeActiveClient env s c =
     and_then (getName s c) (\<lambda>disconnectedScreen.
     and_then (removeClient s c) (\<lambda>(removed, s).
     let s = emitActiveClientRemovalEvents s disconnectedScreen removed True
     in if removed then forceLeaveClient env s c else Inr s))"

definition removeOldClient :: "('a, 'r) server \<Rightarrow> cid \<Rightarrow> ('a, 'r) server" where
  "removeOldClient s c =
     (if c \<in> set (m_oldClients s) then
        (let s = emit (StopCloseTimer c) (s\<lparr>m_oldClients := removeAll c (m_oldClients s)\<rparr>)
         in if length (m_clients s) = 1 \<and> m_oldClients s = [] then emit (Post ServerDisconnected) s else s)
      else s)"

definition delete_proxy :: "cid \<Rightarrow> ('a, 'r) server \<Rightarrow> ('a, 'r) server" where
  "delete_proxy c s = s\<lparr>m_proxies := (m_proxies s)(c := None)\<rparr>"

definition handle_client_disconnected :: "env \<Rightarrow> ('a, 'r) server \<Rightarrow> cid \<Rightarrow> server_error + ('a, 'r) server" where
  "handle_client_disconnected env s c =
     and_then (removeActiveClient env s c) (\<lambda>s. Inr (delete_proxy c (removeOldClient s c)))"

definition handle_client_close_timeout :: "('a, 'r) server \<Rightarrow> cid \<Rightarrow> server_error + ('a, 'r) server" where
  "handle_client_close_timeout s c =
     and_then (getName s c) (\<lambda>_. Inr (delete_proxy c (removeOldClient s c)))"

definition adoptClient :: "env \<Rightarrow> ('a, 'r) server \<Rightarrow> cid \<Rightarrow> server_error + ('a, 'r) server" where
  "adoptClient env s c =
     and_then (deref s c) (\<lambda>p.
     if \<not> isScreen (m_config s) (px_name p) then closeClient env s c
     else
       and_then (addClient s c) (\<lambda>(added, s).
       if \<not> added then closeClient env s c
       else
         and_then (sendOptions s c) (\<lambda>s.
         and_then (if m_activeSaver s \<noteq> None then call s c (Screensaver True) else Inr s) (\<lambda>s.
         and_then (getName s c) (\<lambda>n. Inr (emit (Post (ServerConnected n)) s))))))"

text \<open>
  \<^verbatim>\<open>setConfig\<close> with the server's own configuration object, which the caller has changed before: \<open>config\<close> is
  what it holds now.
\<close>

definition setConfig :: "env \<Rightarrow> ('a, 'r) server \<Rightarrow> ('a, 'r) config \<Rightarrow> server_error + bool \<times> ('a, 'r) server" where
  "setConfig env s config =
     and_then (deref s (m_primaryClient s)) (\<lambda>p.
     let s = s\<lparr>m_config := config\<rparr> in
     if \<not> isScreen config (px_name p) then Inr (False, s)
     else
       and_then (closeClients env s config) (\<lambda>s.
       and_then (processOptions s) (\<lambda>s.
       let s = (if \<not> cfg_hasLockToScreenAction (m_config s) then emit AddLockToScreenRule s else s) in
       and_then (reconfigure s) (\<lambda>s.
       and_then (for_clients sendOptions s (m_clients s)) (\<lambda>s. Inr (True, s))))))"

definition sv_disconnect :: "env \<Rightarrow> ('a, 'r) server \<Rightarrow> 'a \<Rightarrow> server_error + ('a, 'r) server" where
  "sv_disconnect env s addr =
     (if 1 < length (m_clients s) \<or> m_oldClients s \<noteq> [] then closeClients env s (Config_new addr)
      else Inr (emit (Post ServerDisconnected) s))"

subsection \<open>The constructor and the dispatch of inputs\<close>

definition new_clip_info :: "env \<Rightarrow> string \<Rightarrow> server_error + clipboard_info" where
  "new_clip_info env owner =
     and_then (lift_clip clip_new) (\<lambda>c.
     and_then (sv_open env c) (\<lambda>c.
     and_then (lift_clip (clip_clear c)) (\<lambda>(c, _).
     and_then (lift_clip (clip_close c)) (\<lambda>c.
     and_then (sv_marshall env c) (\<lambda>(c, data).
     Inr \<lparr>ci_clipboard = c, ci_data = data, ci_owner = owner, ci_seqNum = 0\<rparr>)))))"

definition Server_new :: "env \<Rightarrow> int \<Rightarrow> (cid \<Rightarrow> proxy option) \<Rightarrow> cid \<Rightarrow> ('a, 'r) config \<Rightarrow> bool \<Rightarrow>
    server_error + ('a, 'r) server" where
  "Server_new env u heap primary config dragDrop =
     (let s = server_members u heap primary config dragDrop [] in
      and_then (deref s primary) (\<lambda>p.
      and_then (sv_assert env (isScreen config (px_name p))) (\<lambda>_.
      and_then (getName s primary) (\<lambda>n.
      and_then (new_clip_info env n) (\<lambda>ci.
      let s = s\<lparr>m_clipboards := replicate kNumClipboards ci\<rparr> in
      and_then (addClient s primary) (\<lambda>(_, s).
      and_then (setConfig env s config) (\<lambda>(_, s).
      and_then (call s primary Enable) (\<lambda>s.
      Inr (if ev_toggleMask env AND KeyModifierScrollLock \<noteq> 0 then s\<lparr>m_lockedToScreen := True\<rparr> else s)))))))))"

text \<open>
  The inputs of the server. \<open>ClientInfo\<close> is a client's proxy storing a shape and a position that its client
  sent, which \<open>ShapeChanged\<close> announces; \<open>NewClient\<close> hands over a new proxy.
\<close>

datatype server_input =
    MotionPrimary int int
  | MotionSecondary int int
  | KeyDownInput u32 u32 u16 "string option"
  | KeyUpInput u32 u32 u16 "string option"
  | KeyRepeatInput u32 u32 int u16
  | ButtonDown nat
  | ButtonUp nat
  | Wheel int int
  | SaverActivated
  | SaverDeactivated
  | SwitchWait
  | SwitchToScreen string
  | ToggleScreen
  | SwitchInDirection EDirection
  | KeyboardBroadcast switch_state string
  | LockCursorToScreen switch_state
  | FakeBegin
  | FakeEnd
  | FileChunkToSend byte bytes
  | ClientInfo cid shape int int
  | ShapeChanged cid
  | ClipboardGrabbed cid nat u32
  | ClipboardChanged cid nat u32
  | NewClient cid proxy
  | ClientDisconnected cid
  | ClientCloseTimeout cid

definition store_info :: "('a, 'r) server \<Rightarrow> cid \<Rightarrow> shape \<Rightarrow> int \<Rightarrow> int \<Rightarrow> server_error + ('a, 'r) server" where
  "store_info s c sh mx my =
     and_then (deref s c) (\<lambda>p. Inr (set_proxy c (p\<lparr>px_shape := sh, px_cursor := (mx, my)\<rparr>) s))"

fun handle :: "env \<Rightarrow> server_input \<Rightarrow> ('a, 'r) server \<Rightarrow> server_error + ('a, 'r) server" where
  "handle env (MotionPrimary x y) s = and_then (onMouseMovePrimary env s x y) (\<lambda>(_, s). Inr s)"
| "handle env (MotionSecondary dx dy) s = onMouseMoveSecondary env s dx dy"
| "handle env (KeyDownInput k m b scr) s = onKeyDown s k m b scr"
| "handle env (KeyUpInput k m b scr) s = onKeyUp s k m b scr"
| "handle env (KeyRepeatInput k m n b) s = onKeyRepeat s k m n b"
| "handle env (ButtonDown b) s = onMouseDown s b"
| "handle env (ButtonUp b) s = onMouseUp env s b"
| "handle env (Wheel dx dy) s = onMouseWheel s dx dy"
| "handle env SaverActivated s = onScreensaver env s True"
| "handle env SaverDeactivated s = onScreensaver env s False"
| "handle env SwitchWait s = handle_switch_wait_event env s"
| "handle env (SwitchToScreen n) s = handle_switch_to_screen_event env s n"
| "handle env ToggleScreen s = handle_toggle_screen_event env s"
| "handle env (SwitchInDirection dir) s = handle_switch_in_direction_event env s dir"
| "handle env (KeyboardBroadcast st scr) s = Inr (handle_keyboard_broadcast_event s st scr)"
| "handle env (LockCursorToScreen st) s = handle_lock_cursor_to_screen_event s st"
| "handle env FakeBegin s = handle_fake_input_begin_event s"
| "handle env FakeEnd s = handle_fake_input_end_event s"
| "handle env (FileChunkToSend k d) s = on_file_chunk_sending s k d"
| "handle env (ClientInfo c sh mx my) s = store_info s c sh mx my"
| "handle env (ShapeChanged c) s = handle_shape_changed env s c"
| "handle env (ClipboardGrabbed c i n) s = handle_clipboard_grabbed env s c i n"
| "handle env (ClipboardChanged c i n) s = handle_clipboard_changed env s c i n"
| "handle env (NewClient c p) s = adoptClient env (set_proxy c p s) c"
| "handle env (ClientDisconnected c) s = handle_client_disconnected env s c"
| "handle env (ClientCloseTimeout c) s = handle_client_close_timeout s c"

end
