(* ===== verification/ServerSafety.thy ===== *)
theory ServerSafety
  imports ServerEvents
begin

text \<open>
  Memory safety of the server. The references the server keeps to proxies are in \<open>m_clients\<close>, \<open>m_clientSet\<close>,
  \<open>m_oldClients\<close>, \<open>m_active\<close>, \<open>m_activeSaver\<close> and \<open>m_switchScreen\<close>. The judgement \<open>safe r P\<close> says that an
  operation does not use a deleted proxy and that \<open>P\<close> holds of what it returns. One lemma per operation
  says which references it changes; together they give that no sequence of inputs makes the server use a
  deleted proxy, under two conditions on the order of inputs. The last part shows that both are needed.
\<close>

subsection \<open>The judgement\<close>

definition safe :: "server_error + 'x \<Rightarrow> ('x \<Rightarrow> bool) \<Rightarrow> bool" where
  "safe r P \<longleftrightarrow> (case r of Inl e \<Rightarrow> e \<noteq> DanglingPointer | Inr x \<Rightarrow> P x)"

lemma safe_simps [simp]:
  "safe (Inr x) P \<longleftrightarrow> P x" "safe (Inl e) P \<longleftrightarrow> e \<noteq> DanglingPointer"
  "safe (and_then r k) P \<longleftrightarrow> safe r (\<lambda>x. safe (k x) P)"
  by (cases r; simp add: safe_def)+

lemma safe_mono: "safe r Q \<Longrightarrow> (\<And>x. Q x \<Longrightarrow> P x) \<Longrightarrow> safe r P"
  by (cases r) auto

lemma safe_lift_clip: "safe (lift_clip r) P \<longleftrightarrow> (\<forall>x. r = Inr x \<longrightarrow> P x)"
  by (cases r) (auto simp: lift_clip_def)

lemma safe_lift_clipI: "(\<And>x. r = Inr x \<Longrightarrow> P x) \<Longrightarrow> safe (lift_clip r) P"
  by (simp add: safe_lift_clip)

lemma safe_assert: "P () \<Longrightarrow> safe (sv_assert env b) P"
  by (simp add: sv_assert_def)

lemma safe_top: "safe r Q \<Longrightarrow> safe r (\<lambda>_. True)"
  by (erule safe_mono) simp

subsection \<open>References\<close>

definition alive :: "('a, 'r) server \<Rightarrow> cid \<Rightarrow> bool" where
  "alive s c \<longleftrightarrow> m_proxies s c \<noteq> None"

definition names :: "('a, 'r) server \<Rightarrow> cid \<Rightarrow> string option" where
  "names s c = map_option px_name (m_proxies s c)"

text \<open>What the operations on proxies leave alone, without and with the state of a pending switch.\<close>

definition refs :: "('a, 'r) server \<Rightarrow> cid \<times> (cid \<Rightarrow> string option) \<times> (string \<times> cid) list \<times> cid list \<times> cid list \<times>
    cid option \<times> ('a, 'r) config" where
  "refs s = (m_primaryClient s, names s, m_clients s, m_clientSet s, m_oldClients s, m_activeSaver s, m_config s)"

definition full :: "('a, 'r) server \<Rightarrow> (cid \<times> (cid \<Rightarrow> string option) \<times> (string \<times> cid) list \<times> cid list \<times> cid list \<times>
    cid option \<times> ('a, 'r) config) \<times> cid \<times> cid option \<times> bool" where
  "full s = (refs s, m_active s, m_switchScreen s, m_switchWaitTimer s)"

lemma alive_names: "alive s c \<longleftrightarrow> names s c \<noteq> None"
  by (simp add: alive_def names_def)

lemma refs_eq: "refs s' = refs s \<longleftrightarrow> m_primaryClient s' = m_primaryClient s \<and> names s' = names s \<and>
    m_clients s' = m_clients s \<and> m_clientSet s' = m_clientSet s \<and> m_oldClients s' = m_oldClients s \<and>
    m_activeSaver s' = m_activeSaver s \<and> m_config s' = m_config s"
  by (auto simp: refs_def)

lemma full_eq: "full s' = full s \<longleftrightarrow> refs s' = refs s \<and> m_active s' = m_active s \<and>
    m_switchScreen s' = m_switchScreen s \<and> m_switchWaitTimer s' = m_switchWaitTimer s"
  by (auto simp: full_def)

lemma refsD:
  assumes "refs s' = refs s"
  shows "m_primaryClient s' = m_primaryClient s" "names s' = names s" "m_clients s' = m_clients s"
    "m_clientSet s' = m_clientSet s" "m_oldClients s' = m_oldClients s" "m_activeSaver s' = m_activeSaver s"
    "m_config s' = m_config s" "alive s' = alive s"
  using assms by (auto simp: refs_eq alive_names fun_eq_iff)

lemma fullD:
  assumes "full s' = full s"
  shows "refs s' = refs s" "m_active s' = m_active s" "m_switchScreen s' = m_switchScreen s"
    "m_switchWaitTimer s' = m_switchWaitTimer s" "alive s' = alive s" "m_clients s' = m_clients s"
    "m_primaryClient s' = m_primaryClient s" "m_config s' = m_config s"
  using assms refsD(3,8,1,7) [of s' s] by (auto simp: full_eq)

lemma full_emit [simp]: "full (emit a s) = full s"
  by (simp add: full_eq refs_eq emit_def names_def fun_eq_iff)

lemma full_set_clip_info [simp]: "full (set_clip_info i ci s) = full s"
  by (simp add: full_eq refs_eq set_clip_info_def names_def fun_eq_iff)

lemma full_set_proxy [simp]: "names s c = Some (px_name q) \<Longrightarrow> full (set_proxy c q s) = full s"
  by (auto simp: full_eq refs_eq set_proxy_def names_def fun_eq_iff)

lemma emit_simps [simp]:
  "alive (emit a s) = alive s" "refs (emit a s) = refs s" "m_active (emit a s) = m_active s"
  "m_switchScreen (emit a s) = m_switchScreen s" "m_switchWaitTimer (emit a s) = m_switchWaitTimer s"
  using fullD [OF full_emit] by blast+

lemma names_known: "m_proxies s c = Some p \<Longrightarrow> names s c = Some (px_name p)"
  by (simp add: names_def)

subsection \<open>Operations on proxies\<close>

lemma safe_deref: "alive s c \<Longrightarrow> (\<And>p. m_proxies s c = Some p \<Longrightarrow> P p) \<Longrightarrow> safe (deref s c) P"
  by (auto simp: alive_def deref_def)

lemma safe_call: "alive s c \<Longrightarrow> P (emit (Call c m) s) \<Longrightarrow> safe (call s c m) P"
  by (auto simp: call_def intro: safe_deref)

lemma call_full: "alive s c \<Longrightarrow> safe (call s c m) (\<lambda>s'. full s' = full s)"
  by (rule safe_call) simp_all

lemma safe_getShape: "alive s c \<Longrightarrow> (\<And>sh. P sh) \<Longrightarrow> safe (getShape s c) P"
  by (auto simp: getShape_def intro: safe_deref)

lemma safe_getName: "alive s c \<Longrightarrow> (\<And>n. getName s c = Inr n \<Longrightarrow> P n) \<Longrightarrow> safe (getName s c) P"
  by (auto simp: getName_def deref_def alive_def Let_def)

lemma getName_cong: "names s' c = names s c \<Longrightarrow> m_config s' = m_config s \<Longrightarrow> getName s' c = getName s c"
  by (cases "m_proxies s c"; cases "m_proxies s' c") (auto simp: getName_def deref_def names_def Let_def)

lemma safe_getCursorPos: "alive s c \<Longrightarrow> (\<And>x. P x) \<Longrightarrow> safe (getCursorPos s c) P"
  by (auto simp: getCursorPos_def intro: safe_deref)

lemma safe_getJumpCursorPos: "alive s c \<Longrightarrow> (\<And>x. P x) \<Longrightarrow> safe (getJumpCursorPos s c) P"
  by (auto simp: getJumpCursorPos_def intro: safe_deref)

lemma setJumpCursorPos_full: "alive s c \<Longrightarrow> safe (setJumpCursorPos s c x y) (\<lambda>s'. full s' = full s)"
  by (auto simp: setJumpCursorPos_def intro!: safe_deref dest: names_known)

lemma setClipboardDirty_full: "alive s c \<Longrightarrow> safe (setClipboardDirty s c i d) (\<lambda>s'. full s' = full s)"
  by (auto simp: setClipboardDirty_def intro!: safe_deref dest: names_known)

lemma grabClipboard_full: "alive s c \<Longrightarrow> safe (grabClipboard s c i) (\<lambda>s'. full s' = full s)"
  unfolding grabClipboard_def
  by (simp, rule safe_call, assumption, rule safe_mono [OF setClipboardDirty_full]) simp_all

lemma for_clients_full:
  assumes "\<And>s c. alive s c \<Longrightarrow> safe (f s c) (\<lambda>s'. full s' = full s)" "\<forall>(n, c) \<in> set cs. alive s c"
  shows "safe (for_clients f s cs) (\<lambda>s'. full s' = full s)"
  using assms(2)
proof (induction cs arbitrary: s)
  case (Cons nc cs)
  obtain n c where nc: "nc = (n, c)" by force
  have "safe (f s c) (\<lambda>s1. safe (for_clients f s1 cs) (\<lambda>s'. full s' = full s))"
  proof (rule safe_mono [OF assms(1)])
    show "alive s c" using Cons.prems nc by simp
    fix s1 assume f: "full s1 = full s"
    then have "\<forall>(n, c) \<in> set cs. alive s1 c" using Cons.prems fullD(5) [OF f] by auto
    from Cons.IH [OF this] f show "safe (for_clients f s1 cs) (\<lambda>s'. full s' = full s)" by simp
  qed
  then show ?case by (simp add: nc)
qed simp

subsection \<open>Searching\<close>

definition clients_alive :: "('a, 'r) server \<Rightarrow> bool" where
  "clients_alive s \<longleftrightarrow> (\<forall>(n, c) \<in> set (m_clients s). alive s c)"

lemma clients_aliveD: "clients_alive s \<Longrightarrow> connected s c \<Longrightarrow> alive s c"
  by (auto simp: clients_alive_def connected_def)

definition lands :: "('a, 'r) server \<Rightarrow> cid option \<times> int \<times> int \<Rightarrow> bool" where
  "lands s r \<longleftrightarrow> (case r of (None, _) \<Rightarrow> True | (Some c, _) \<Rightarrow> connected s c)"

lemma safe_mapToFraction: "(\<And>t. P t) \<Longrightarrow> safe (mapToFraction sh dir x y) P"
  by (cases sh) (simp add: mapToFraction_def split: EDirection.split)

lemma safe_mapToPixel: "(\<And>t. P t) \<Longrightarrow> safe (mapToPixel sh dir f x y) P"
  by (cases sh) (simp add: mapToPixel_def split: EDirection.split)

lemma sv_getNeighbor_lands:
  assumes "alive s src" "clients_alive s"
  shows "safe (sv_getNeighbor s src dir x y) (lands s)"
  unfolding sv_getNeighbor_def
  using assms(2) by (auto simp: lands_def split: option.split dest!: neighbor_search_result
      intro!: safe_getName [OF assms(1)] safe_getShape [OF assms(1)] safe_mapToFraction safe_getShape
        safe_mapToPixel clients_aliveD)

lemma walk_lands:
  fixes s :: "('a, 'r) server"
  assumes "walk s dir dst l sh x y = Some r" "clients_alive s" "\<forall>d. dst = Some d \<longrightarrow> connected s d"
    and "connected s l \<or> dst \<noteq> None"
  shows "safe r (\<lambda>(d, _). connected s d)"
proof -
  define good where "good s dst l r \<longleftrightarrow> clients_alive s \<longrightarrow> (\<forall>d. dst = Some d \<longrightarrow> connected s d) \<longrightarrow>
      connected s l \<or> dst \<noteq> None \<longrightarrow> safe r (\<lambda>(d, _). connected s d)"
    for s :: "('a, 'r) server" and dst l and r :: "server_error + cid \<times> shape \<times> int \<times> int"
  have step: "good s dst l r"
    if IH: "\<And>s dir dst l sh x y r. f s dir dst l sh x y = Some r \<Longrightarrow> good s dst l r"
      and eq: "(case dst of
        None \<Rightarrow> Some (Inr (l, sh, x, y))
      | Some d \<Rightarrow>
          (case getShape s d of
             Inl e \<Rightarrow> Some (Inl e)
           | Inr dsh \<Rightarrow>
               (let (x1, y1) = walk_move dir sh dsh x y in
                if walk_done dir dsh x1 y1 then Some (Inr (d, dsh, x1, y1))
                else case sv_getNeighbor s d dir x1 y1 of
                       Inl e \<Rightarrow> Some (Inl e)
                     | Inr (n, x2, y2) \<Rightarrow> f s dir n d dsh x2 y2))) = Some r"
    for f s dir dst l sh x y r
  proof (cases dst)
    case None
    then have "r = Inr (l, sh, x, y)" using eq by simp
    then show ?thesis using None by (simp add: good_def)
  next
    case (Some d)
    show ?thesis unfolding good_def
    proof (intro impI)
      assume a: "clients_alive s" "\<forall>d. dst = Some d \<longrightarrow> connected s d"
      then have d: "connected s d" "alive s d" using Some clients_aliveD by auto
      have sh: "safe (getShape s d) (\<lambda>_. True)" by (rule safe_getShape [OF d(2)]) simp
      show "safe r (\<lambda>(d, _). connected s d)"
      proof (cases "getShape s d")
        case (Inl e)
        then show ?thesis using eq Some sh by auto
      next
        case (Inr dsh)
        obtain x1 y1 where m: "walk_move dir sh dsh x y = (x1, y1)" by force
        note n = sv_getNeighbor_lands [OF d(2) a(1), of dir x1 y1]
        show ?thesis
        proof (cases "walk_done dir dsh x1 y1")
          case True
          then show ?thesis using eq Some Inr m d(1) by auto
        next
          case False
          show ?thesis
          proof (cases "sv_getNeighbor s d dir x1 y1")
            case (Inl e)
            then show ?thesis using eq Some Inr m False n by auto
          next
            case nb: (Inr q)
            obtain k x2 y2 where q: "q = (k, x2, y2)" by (cases q) auto
            have "f s dir k d dsh x2 y2 = Some r" using eq Some Inr m False nb q by simp
            from IH [OF this] a(1) d(1) n nb q show ?thesis by (auto simp: good_def lands_def split: option.splits)
          qed
        qed
      qed
    qed
  qed
  note ind = walk.raw_induct [where P = "\<lambda>s dir dst l sh x y. good s dst l" and
      xa = "((((((s, dir), dst), l), sh), x), y)", unfolded prod.case]
  have "good s dst l r" by (rule ind [OF step assms(1)])
  with assms(2-4) show ?thesis by (simp add: good_def)
qed

lemma safe_avoidJumpZone: "alive s d \<Longrightarrow> (\<And>q. P q) \<Longrightarrow> safe (avoidJumpZone env s d dir x y) P"
  unfolding avoidJumpZone_def
  by (auto simp: Let_def split: EDirection.split intro!: safe_getName safe_getShape safe_mapToFraction)

lemma mapToNeighbor_lands:
  assumes "alive s src" "clients_alive s"
  shows "safe (mapToNeighbor env s src dir x y) (lands s)"
proof -
  have w: "safe (case walk s dir (Some d) src sh x y of None \<Rightarrow> Inl NeverReturns | Some r \<Rightarrow> r)
      (\<lambda>(d, _). connected s d)" if "connected s d" for d sh x y
    using walk_lands [of s dir "Some d" src sh x y] assms(2) that by (auto split: option.split)
  have j: "safe (avoidJumpZone env s d dir x y) (\<lambda>(x, y). lands s (Some d, x, y))" if "connected s d" for d x y
    by (rule safe_avoidJumpZone) (use that clients_aliveD [OF assms(2)] in \<open>auto simp: lands_def\<close>)
  have k: "safe (case walk s dir (Some d) src sh x y of None \<Rightarrow> Inl NeverReturns | Some r \<Rightarrow> r)
      (\<lambda>(d, dsh, x, y). let (x, y) = from_canonical dir dsh x y in
        safe (avoidJumpZone env s d dir x y) (\<lambda>(x, y). lands s (Some d, x, y)))" if "connected s d" for d sh x y
    by (rule safe_mono [OF w [OF that]]) (simp add: case_prod_beta Let_def j)
  show ?thesis unfolding mapToNeighbor_def safe_simps
  proof (rule safe_mono [OF sv_getNeighbor_lands [OF assms]], goal_cases)
    case (1 q)
    obtain dst x y where q: "q = (dst, x, y)" by (cases q) auto
    show ?case
    proof (cases dst)
      case (Some d)
      then have "connected s d" using 1 q by (simp add: lands_def)
      then show ?thesis using k Some q
        by (simp add: Let_def case_prod_beta') (auto intro!: safe_getShape [OF assms(1)])
    qed (simp add: q lands_def)
  qed
qed

lemma safe_getCorner: "alive s c \<Longrightarrow> (\<And>k. P k) \<Longrightarrow> safe (getCorner s c x y z) P"
  by (auto simp: getCorner_def Let_def intro!: safe_getShape)

subsection \<open>Waiting to switch\<close>

text \<open>The pending switch: its target is connected, and its timer runs only while there is one.\<close>

definition pending_ok :: "('a, 'r) server \<Rightarrow> bool" where
  "pending_ok s \<longleftrightarrow> (\<forall>c. m_switchScreen s = Some c \<longrightarrow> connected s c) \<and>
     (m_switchWaitTimer s \<longrightarrow> m_switchScreen s \<noteq> None)"

text \<open>Nothing but the pending switch has changed, and it is in order.\<close>

definition steady :: "('a, 'r) server \<Rightarrow> ('a, 'r) server \<Rightarrow> bool" where
  "steady s s' \<longleftrightarrow> refs s' = refs s \<and> m_active s' = m_active s \<and> pending_ok s'"

lemma connected_refs: "refs s' = refs s \<Longrightarrow> connected s' = connected s"
  by (simp add: connected_def refs_eq fun_eq_iff)

lemma pending_full: "full s' = full s \<Longrightarrow> pending_ok s' = pending_ok s"
  by (simp add: pending_ok_def full_eq refs_eq connected_def)

lemma steady_full: "pending_ok s \<Longrightarrow> full s' = full s \<Longrightarrow> steady s s'"
  using pending_full [of s' s] by (simp add: steady_def full_eq)

lemmas steady_defs = steady_def pending_ok_def refs_eq names_def fun_eq_iff connected_def

lemma steady_trans: "steady s s1 \<Longrightarrow> steady s1 s2 \<Longrightarrow> steady s s2"
  by (simp add: steady_def)

lemma steady_refs: "steady s s' \<Longrightarrow> refs s' = refs s" "steady s s' \<Longrightarrow> m_active s' = m_active s"
    "steady s s' \<Longrightarrow> pending_ok s'"
  by (simp_all add: steady_def)

lemma refs_unchanged:
  "refs (stopSwitchTwoTap s) = refs s" "refs (stopSwitchWait s) = refs s" "refs (stopSwitch s) = refs s"
  "refs (startSwitchTwoTap env s) = refs s" "refs (startSwitchWait s x y) = refs s"
  "m_active (stopSwitchTwoTap s) = m_active s" "m_active (stopSwitchWait s) = m_active s"
  "m_active (stopSwitch s) = m_active s" "m_active (startSwitchTwoTap env s) = m_active s"
  "m_active (startSwitchWait s x y) = m_active s"
  by (simp_all add: refs_eq names_def fun_eq_iff stopSwitchTwoTap_def stopSwitchWait_def stopSwitch_def
      startSwitchTwoTap_def startSwitchWait_def emit_def Let_def)

lemma stopSwitch_fields: "m_switchScreen (stopSwitch s) = None" "pending_ok s \<Longrightarrow> \<not> m_switchWaitTimer (stopSwitch s)"
  by (auto simp: stopSwitch_def stopSwitchWait_def stopSwitchTwoTap_def emit_def pending_ok_def)

lemma stopSwitch_steady: "pending_ok s \<Longrightarrow> steady s (stopSwitch s)"
  using stopSwitch_fields [of s] by (simp add: steady_def refs_unchanged pending_ok_def)

lemma stopSwitchWait_steady: "pending_ok s \<Longrightarrow> steady s (stopSwitchWait s)"
  by (auto simp: steady_defs stopSwitchWait_def emit_def)

lemma stopSwitchTwoTap_steady: "pending_ok s \<Longrightarrow> steady s (stopSwitchTwoTap s)"
  by (auto simp: steady_defs stopSwitchTwoTap_def)

lemma startSwitchTwoTap_steady: "pending_ok s \<Longrightarrow> steady s (startSwitchTwoTap env s)"
  by (auto simp: steady_defs startSwitchTwoTap_def)

lemma startSwitchWait_steady: "pending_ok s \<Longrightarrow> m_switchScreen s \<noteq> None \<Longrightarrow> steady s (startSwitchWait s x y)"
  by (auto simp: steady_defs startSwitchWait_def stopSwitchWait_def emit_def Let_def)

lemma armSwitchTwoTap_steady:
  assumes "alive s (m_active s)" "pending_ok s"
  shows "safe (armSwitchTwoTap env s x y) (steady s)"
proof -
  have "steady s (s\<lparr>m_switchTwoTapArmed := b\<rparr>)" for b
    by (rule steady_full [OF assms(2)]) (simp add: full_eq refs_eq names_def fun_eq_iff)
  moreover have "steady s s" using assms(2) by (simp add: steady_def)
  ultimately show ?thesis
    using stopSwitchTwoTap_steady [OF assms(2)] unfolding armSwitchTwoTap_def
    by (auto simp: Let_def split: EDirection.split intro!: safe_getShape [OF assms(1)])
qed

lemma noSwitch_steady:
  assumes "alive s (m_active s)" "pending_ok s"
  shows "safe (noSwitch env s x y) (steady s)"
  unfolding noSwitch_def safe_simps
  by (rule safe_mono [OF armSwitchTwoTap_steady [OF assms]])
     (blast intro: steady_trans stopSwitchWait_steady steady_refs)

lemma safe_in_locked_corner:
  assumes "alive s (m_active s)" "\<And>b. P b"
  shows "safe (in_locked_corner s x y) P"
  unfolding in_locked_corner_def corner_options_def
  by (auto simp: Let_def assms(2) split: option.split intro!: safe_getName [OF assms(1)] safe_getCorner [OF assms(1)])

lemma note_direction_steady:
  assumes "pending_ok s" "connected s c"
  shows "steady s (note_direction s (Some c) dir)" "m_switchScreen (note_direction s (Some c) dir) \<noteq> None"
  using assms by (auto simp: note_direction_def steady_defs)

lemma check_two_tap_steady:
  assumes "check_two_tap env s new = (al, p, s')" "pending_ok s"
  shows "steady s s'" "m_switchScreen s' = m_switchScreen s"
  using assms startSwitchTwoTap_steady [OF assms(2), of env]
  by (auto simp: check_two_tap_def startSwitchTwoTap_def steady_def split: if_splits)

lemma check_wait_steady:
  assumes "check_wait s al p new x y = (p', s')" "pending_ok s" "m_switchScreen s \<noteq> None"
  shows "steady s s'"
  using assms startSwitchWait_steady [OF assms(2,3)] by (auto simp: check_wait_def steady_def split: if_splits)

lemma final_checks_steady: "pending_ok s \<Longrightarrow> steady s (snd (final_checks env locked p s))"
  using stopSwitch_steady [of s] by (auto simp: final_checks_def Let_def steady_def)

lemma isSwitchOkay_steady:
  assumes "alive s (m_active s)" "pending_ok s" "\<forall>c. newScreen = Some c \<longrightarrow> connected s c"
  shows "safe (isSwitchOkay env s newScreen dir x y xa ya) (\<lambda>(ok, s'). steady s s')"
proof (cases newScreen)
  case None
  then show ?thesis by (simp add: isSwitchOkay_def stopSwitch_steady [OF assms(2)])
next
  case (Some c)
  let ?s1 = "note_direction s (Some c) dir"
  have s1: "steady s ?s1" "m_switchScreen ?s1 \<noteq> None"
    using note_direction_steady [OF assms(2)] assms(3) Some by blast+
  obtain al p2 s2 where s2: "check_two_tap env ?s1 (dir \<noteq> m_switchDir s) = (al, p2, s2)" by (metis prod_cases3)
  note t2 = check_two_tap_steady [OF s2 steady_refs(3) [OF s1(1)]]
  obtain p3 s3 where s3: "check_wait s2 al p2 (dir \<noteq> m_switchDir s) x y = (p3, s3)" by force
  have "steady s2 s3" using check_wait_steady [OF s3 steady_refs(3) [OF t2(1)]] t2(2) s1(2) by simp
  then have t3: "steady s s3" using s1(1) t2(1) by (blast intro: steady_trans)
  have al: "alive s3 (m_active s3)" using refsD(8) [OF steady_refs(1) [OF t3]] steady_refs(2) [OF t3] assms(1) by simp
  have eq: "isSwitchOkay env s newScreen dir x y xa ya =
      and_then (in_locked_corner s3 xa ya) (\<lambda>locked. Inr (final_checks env locked p3 s3))"
    using Some s2 s3 by (simp add: isSwitchOkay_def)
  show ?thesis unfolding eq safe_simps
    by (rule safe_in_locked_corner [OF al])
       (use steady_trans [OF t3 final_checks_steady [OF steady_refs(3) [OF t3]]] in \<open>simp add: case_prod_beta\<close>)
qed

subsection \<open>Clipboards\<close>

lemma safe_clip_info: "(\<And>ci. P ci) \<Longrightarrow> safe (clip_info s i) P"
  by (simp add: clip_info_def)

lemma safe_marshall: "(\<And>q. P q) \<Longrightarrow> safe (sv_marshall env c) P"
  by (simp add: sv_marshall_def safe_lift_clip)

lemma safe_open: "(\<And>q. P q) \<Longrightarrow> safe (sv_open env c) P"
  by (auto simp: sv_open_def intro!: safe_lift_clipI)

lemma safe_with_file_list: "(\<And>q. P q) \<Longrightarrow> safe (with_file_list c files) P"
  by (simp add: with_file_list_def safe_lift_clip)

lemma safe_file_package: "(\<And>q. P q) \<Longrightarrow> safe (file_package env c) P"
  by (auto simp: file_package_def intro!: safe_lift_clipI)

lemma safe_prepare_outgoing: "(\<And>q. P q) \<Longrightarrow> safe (prepare_outgoing env b c) P"
  by (auto simp: prepare_outgoing_def split: option.split intro!: safe_open safe_lift_clipI safe_with_file_list)

lemma setClipboard_full: "alive s c \<Longrightarrow> safe (setClipboard s c i clip) (\<lambda>s'. full s' = full s)"
  unfolding setClipboard_def
  by (auto simp: Let_def names_known intro!: safe_deref safe_lift_clipI)

lemma get_clipboard_full: "alive s c \<Longrightarrow> safe (get_clipboard env s c i clip) (\<lambda>(_, _, s'). full s' = full s)"
  unfolding get_clipboard_def
  by (auto split: option.split intro!: safe_deref safe_lift_clipI dest: names_known)

lemma deliver_clipboard_full:
  assumes "alive s (m_active s)"
  shows "safe (deliver_clipboard env s sender i ci out) (\<lambda>s'. full s' = full s)"
proof -
  have "safe (setClipboard (set_clip_info i ci' s) (m_active s) i c) (\<lambda>s'. full s' = full s)" for ci' c
    using setClipboard_full [of "set_clip_info i ci' s" "m_active s" i c] assms fullD(5) [OF full_set_clip_info, of i ci' s]
    by (auto elim: safe_mono)
  then show ?thesis using setClipboard_full [OF assms] unfolding deliver_clipboard_def
    by (auto split: option.split intro!: safe_file_package safe_with_file_list)
qed

text \<open>A clipboard update touches the proxies of the sender, of the clients and of the active screen.\<close>

lemma onClipboardChanged_full:
  assumes "alive s sender" "alive s (m_active s)" "clients_alive s"
  shows "safe (onClipboardChanged env s sender i seqNum) (\<lambda>s'. full s' = full s)"
proof -
  have spread: "safe (for_clients (\<lambda>s c. setClipboardDirty s c i (c \<noteq> sender)) t (m_clients t))
      (\<lambda>t'. safe (deliver_clipboard env t' sender i ci out) (\<lambda>s'. full s' = full s))"
    if t: "full t = full s" for t ci out
  proof (rule safe_mono [OF for_clients_full])
    show "\<forall>(n, c) \<in> set (m_clients t). alive t c" using assms(3) fullD(5,6) [OF t] by (simp add: clients_alive_def)
    fix t' assume f: "full t' = full t"
    then have "alive t' (m_active t')" using assms(2) fullD(2,5) [OF f] fullD(2,5) [OF t] by simp
    from deliver_clipboard_full [OF this] f t show "safe (deliver_clipboard env t' sender i ci out) (\<lambda>s'. full s' = full s)"
      by simp
  qed (rule setClipboardDirty_full)
  show ?thesis unfolding onClipboardChanged_def safe_simps
  proof (rule safe_clip_info, goal_cases)
    case (1 ci)
    show ?case
      by (auto simp: Let_def split: option.split
          intro!: safe_assert safe_mono [OF get_clipboard_full [OF assms(1)]] safe_prepare_outgoing safe_marshall spread)
  qed
qed

lemma update_primary_clipboards_full:
  assumes "alive s (m_primaryClient s)" "alive s (m_active s)" "clients_alive s"
  shows "safe (update_primary_clipboards env s is) (\<lambda>s'. full s' = full s)"
  using assms
proof (induction "is" arbitrary: s)
  case (Cons i "is")
  have "safe (update_primary_clipboards env t is) (\<lambda>s'. full s' = full s)" if t: "full t = full s" for t
    using Cons.IH [of t] Cons.prems fullD(2,5,6,7) [OF t] t by (simp add: clients_alive_def)
  then show ?case
    by (auto intro!: safe_clip_info safe_getName [OF Cons.prems(1)] safe_mono [OF onClipboardChanged_full [OF Cons.prems]])
qed simp

lemma send_clipboards_full:
  assumes "alive s (m_active s)"
  shows "safe (send_clipboards env s is) (\<lambda>s'. full s' = full s)"
  using assms
proof (induction "is" arbitrary: s)
  case (Cons i "is")
  have rest: "safe (send_clipboards env t is) (\<lambda>s'. full s' = full s)" if t: "full t = full s" for t
    using Cons.IH [of t] Cons.prems fullD(2,5) [OF t] t by simp
  have "safe (setClipboard t (m_active t) i c) (\<lambda>t. safe (send_clipboards env t is) (\<lambda>s'. full s' = full s))"
    if t: "full t = full s" for t c
    by (rule safe_mono [OF setClipboard_full]) (use Cons.prems fullD(2,5) [OF t] t rest in auto)
  with rest show ?case
    by (auto simp: Let_def intro!: safe_clip_info safe_marshall safe_lift_clipI)
qed simp

subsection \<open>Switching screens\<close>

text \<open>A switch leaves the references alone but for the active screen and the pending switch, which is over.\<close>

definition switched :: "('a, 'r) server \<Rightarrow> cid \<Rightarrow> ('a, 'r) server \<Rightarrow> bool" where
  "switched s dst s' \<longleftrightarrow> refs s' = refs s \<and> (m_active s' = m_active s \<or> m_active s' = dst) \<and>
     m_switchScreen s' = None \<and> \<not> m_switchWaitTimer s'"

lemma leave_full: "alive s c \<Longrightarrow> safe (leave env s c) (\<lambda>(_, s'). full s' = full s)"
  by (auto simp: leave_def intro!: safe_deref)

lemma enter_screen_switched:
  assumes "alive s dst" "m_switchScreen s = None" "\<not> m_switchWaitTimer s"
  shows "safe (enter_screen env s dst x y ss) (switched s dst)"
proof -
  define t where "t = s\<lparr>m_active := dst, m_seqNum := m_seqNum s + 1\<rparr>"
  have t: "refs t = refs s" "m_active t = dst" "m_switchScreen t = None" "\<not> m_switchWaitTimer t"
    using assms by (simp_all add: t_def refs_eq names_def fun_eq_iff)
  have d: "alive t dst" using refsD(8) [OF t(1)] assms(1) by simp
  have fin: "safe (deref u dst) (\<lambda>p. switched s dst (emit (Post (ScreenSwitched (px_name p))) u))"
    if "full u = full t" for u
    by (rule safe_deref) (use d t fullD [OF that] in \<open>simp_all add: switched_def\<close>)
  have "safe (send_clipboards env u [0..<kNumClipboards]) (\<lambda>u.
      safe (deref u dst) (\<lambda>p. switched s dst (emit (Post (ScreenSwitched (px_name p))) u)))" if "full u = full t" for u
    by (rule safe_mono [OF send_clipboards_full]) (use d t(2) fullD(2,5) [OF that] that fin in auto)
  then show ?thesis using fin unfolding enter_screen_def Let_def t_def [symmetric]
    by (auto intro!: safe_call [OF d])
qed

lemma switched_trans: "refs s1 = refs s \<Longrightarrow> m_active s1 = m_active s \<Longrightarrow> switched s1 dst t \<Longrightarrow> switched s dst t"
  by (simp add: switched_def)

lemma switchScreen_switched:
  assumes "alive s dst" "alive s (m_active s)" "alive s (m_primaryClient s)" "clients_alive s" "pending_ok s"
  shows "safe (switchScreen env s dst x y ss) (switched s dst)"
proof -
  define s1 where "s1 = record_position (stopSwitch s) x y"
  have f1: "refs s1 = refs s" "m_active s1 = m_active s" "m_switchScreen s1 = None" "\<not> m_switchWaitTimer s1"
    using stopSwitch_fields [of s] assms(5) refs_unchanged(3,8) [of s]
    by (simp_all add: s1_def record_position_def refs_eq names_def fun_eq_iff)
  note al = refsD(8) [OF f1(1)] refsD(1,3) [OF f1(1)]
  have same: "switched s dst t" if "full t = full s1" for t
    using fullD [OF that] f1 by (simp add: switched_def)
  have enter: "safe (enter_screen env t dst x y ss) (switched s dst)" if "full t = full s1" for t
    by (rule safe_mono [OF enter_screen_switched])
       (use assms(1) al fullD [OF that] f1 in \<open>auto intro: switched_trans\<close>)
  have upd: "safe (update_primary_clipboards env t [0..<kNumClipboards])
      (\<lambda>t. safe (enter_screen env t dst x y ss) (switched s dst))" if "full t = full s1" for t
    by (rule safe_mono [OF update_primary_clipboards_full])
       (use assms al fullD [OF that] f1 that enter in \<open>auto simp: clients_alive_def\<close>)
  have lv: "alive s1 (m_active s1)" "alive s (m_active s1)" using assms(2) al f1 by simp_all
  show ?thesis unfolding switchScreen_def Let_def s1_def [symmetric]
    using same enter upd
    by (auto intro!: safe_getShape [OF assms(1)] safe_getShape [OF lv(2)] safe_assert
        safe_getName [OF assms(1)] safe_getName [OF assms(2)] safe_getName [OF lv(2)]
        safe_call [OF lv(1)] safe_mono [OF leave_full [OF lv(1)]])
qed

subsection \<open>The invariant\<close>

text \<open>
  The table of clients and the set of clients agree, every client is entered under its name; the server's own
  screen, the active screen and the one the screen saver interrupted are connected; the clients that are being
  closed still exist and are not connected any more.
\<close>

definition sv_inv :: "('a, 'r) server \<Rightarrow> bool" where
  "sv_inv s \<longleftrightarrow> sm_wf (<) (m_clients s) \<and> snd ` set (m_clients s) = set (m_clientSet s) \<and>
     (\<forall>(n, c) \<in> set (m_clients s). getName s c = Inr n) \<and>
     connected s (m_primaryClient s) \<and> connected s (m_active s) \<and>
     (\<forall>c. m_activeSaver s = Some c \<longrightarrow> connected s c) \<and>
     (\<forall>c \<in> set (m_oldClients s). alive s c \<and> \<not> connected s c) \<and> pending_ok s"

lemma getName_alive: "getName s c = Inr n \<Longrightarrow> alive s c"
  by (auto simp: getName_def deref_def alive_def split: option.splits)

lemma invD:
  assumes "sv_inv s"
  shows "clients_alive s" "alive s (m_primaryClient s)" "alive s (m_active s)" "pending_ok s"
    "connected s c \<Longrightarrow> alive s c" "connected s (m_active s)" "connected s (m_primaryClient s)"
    "c \<in> set (m_clientSet s) \<longleftrightarrow> connected s c"
proof -
  show c: "clients_alive s" using assms by (auto simp: sv_inv_def clients_alive_def dest: getName_alive)
  show "alive s (m_primaryClient s)" "alive s (m_active s)" "pending_ok s" "connected s c \<Longrightarrow> alive s c"
    "connected s (m_active s)" "connected s (m_primaryClient s)" "c \<in> set (m_clientSet s) \<longleftrightarrow> connected s c"
    using assms clients_aliveD [OF c] by (auto simp: sv_inv_def connected_def)
qed

lemma inv_refs:
  assumes "sv_inv s" "refs s' = refs s" "connected s (m_active s')" "pending_ok s'"
  shows "sv_inv s'"
proof -
  have "getName s' = getName s" using getName_cong refsD(2,7) [OF assms(2)] by (metis ext)
  with assms refsD [OF assms(2)] connected_refs [OF assms(2)] show ?thesis by (simp add: sv_inv_def)
qed

lemma inv_full: "sv_inv s \<Longrightarrow> full s' = full s \<Longrightarrow> sv_inv s'"
  using inv_refs [of s s'] fullD [of s' s] pending_full [of s' s] invD(4,6) [of s] by simp

lemma inv_steady: "sv_inv s \<Longrightarrow> steady s s' \<Longrightarrow> sv_inv s'"
  using inv_refs [of s s'] steady_refs [of s s'] invD(6) [of s] by simp

text \<open>An operation under the invariant: it keeps it, and the references but for the active screen.\<close>

definition keeps :: "('a, 'r) server \<Rightarrow> ('a, 'r) server \<Rightarrow> bool" where
  "keeps s s' \<longleftrightarrow> sv_inv s' \<and> refs s' = refs s"

lemma keeps_full: "sv_inv s \<Longrightarrow> full s' = full s \<Longrightarrow> keeps s s'"
  unfolding keeps_def using inv_full fullD(1) by blast

lemma keeps_steady: "sv_inv s \<Longrightarrow> steady s s' \<Longrightarrow> keeps s s'"
  unfolding keeps_def using inv_steady steady_refs(1) by blast

lemma keeps_trans: "keeps s s1 \<Longrightarrow> keeps s1 s2 \<Longrightarrow> keeps s s2"
  by (simp add: keeps_def)

lemma keeps_inv: "keeps s s' \<Longrightarrow> sv_inv s'"
  by (simp add: keeps_def)

lemma switchScreen_keeps:
  assumes "sv_inv s" "connected s dst"
  shows "safe (switchScreen env s dst x y ss) (keeps s)"
proof (rule safe_mono [OF switchScreen_switched [OF invD(5) [OF assms] invD(3,2,1,4) [OF assms(1)]]])
  fix s' assume s': "switched s dst s'"
  then have "pending_ok s'" "connected s (m_active s')"
    using assms(2) invD(6) [OF assms(1)] by (auto simp: switched_def pending_ok_def)
  then show "keeps s s'" using inv_refs [OF assms(1)] s' by (simp add: keeps_def switched_def)
qed

text \<open>Fields that hold no reference.\<close>

lemma full_fields [simp]:
  "full (s\<lparr>m_x := a\<rparr>) = full s" "full (s\<lparr>m_y := a\<rparr>) = full s" "full (s\<lparr>m_xDelta := a\<rparr>) = full s"
  "full (s\<lparr>m_yDelta := a\<rparr>) = full s" "full (s\<lparr>m_xDelta2 := a\<rparr>) = full s" "full (s\<lparr>m_yDelta2 := a\<rparr>) = full s"
  "full (s\<lparr>m_waitDragInfoThread := b\<rparr>) = full s" "full (s\<lparr>m_sendDragInfoThread := b\<rparr>) = full s"
  "full (s\<lparr>m_sendFileThread := b\<rparr>) = full s" "full (s\<lparr>m_ignoreFileTransfer := b\<rparr>) = full s"
  "full (s\<lparr>m_keyboardBroadcasting := b\<rparr>) = full s" "full (s\<lparr>m_keyboardBroadcastingScreens := n\<rparr>) = full s"
  "full (s\<lparr>m_lockedToScreen := b\<rparr>) = full s" "full (s\<lparr>m_xSaver := a\<rparr>) = full s" "full (s\<lparr>m_ySaver := a\<rparr>) = full s"
  "full (s\<lparr>m_seqNum := q\<rparr>) = full s" "full (s\<lparr>m_relativeMoves := b\<rparr>) = full s"
  "full (s\<lparr>m_switchNeedsShift := b\<rparr>) = full s" "full (s\<lparr>m_switchNeedsControl := b\<rparr>) = full s"
  "full (s\<lparr>m_switchNeedsAlt := b\<rparr>) = full s" "full (s\<lparr>m_enableClipboard := b\<rparr>) = full s"
  "full (s\<lparr>m_maximumClipboardSize := k\<rparr>) = full s" "full (s\<lparr>m_switchTwoTapDelay := t\<rparr>) = full s"
  "full (s\<lparr>m_switchWaitDelay := t\<rparr>) = full s"
  by (simp_all add: full_eq refs_eq names_def fun_eq_iff)

lemma full_record [simp]:
  "full (record_position s x y) = full s" "full (record_motion s dx dy x y) = full s"
  by (simp_all add: record_position_def record_motion_def)

subsection \<open>Every handler keeps the invariant\<close>

lemma try_directions_keeps:
  assumes "sv_inv s"
  shows "safe (try_directions env s xc yc ds) (\<lambda>(_, s'). keeps s s')"
  using assms
proof (induction ds arbitrary: s)
  case Nil
  then show ?case by (simp add: keeps_def)
next
  case (Cons d ds)
  obtain dir x y where d: "d = (dir, x, y)" by (cases d) auto
  have rest: "safe (try_directions env t xc yc ds) (\<lambda>(_, s'). keeps s s')" if "steady s t" for t
    using Cons.IH [OF inv_steady [OF Cons.prems that]] keeps_trans [OF keeps_steady [OF Cons.prems that]]
    by (auto elim!: safe_mono)
  have sw: "safe (switchScreen env t c x y False) (\<lambda>u. keeps s (u\<lparr>m_waitDragInfoThread := b\<rparr>))"
    if t: "steady s t" "connected s c" for t c x y b
  proof (rule safe_mono [OF switchScreen_keeps [OF inv_steady [OF Cons.prems t(1)]]])
    show "connected t c" using t connected_refs [OF steady_refs(1) [OF t(1)]] by simp
    show "keeps s (u\<lparr>m_waitDragInfoThread := b\<rparr>)" if "keeps t u" for u
      using keeps_trans [OF keeps_trans [OF keeps_steady [OF Cons.prems t(1)] that] keeps_full [OF keeps_inv [OF that]]]
      by simp
  qed
  have drag: "keeps s (emit a (t\<lparr>m_sendDragInfoThread := True\<rparr>))" "keeps s t" if "steady s t" for t a
    using keeps_steady [OF Cons.prems that] keeps_trans [OF _ keeps_full [OF keeps_inv, of s t]] by auto
  have nb: "safe (isSwitchOkay env s n dir x' y' xc yc) (\<lambda>(ok, t). safe (case n of
          None \<Rightarrow> try_directions env t xc yc ds
        | Some c \<Rightarrow>
            if \<not> ok then try_directions env t xc yc ds
            else if m_enableDragDrop t \<and> ev_draggingStarted env \<and> m_active t \<noteq> c \<and> m_waitDragInfoThread t then
              Inr (False, if m_sendDragInfoThread t then t
                          else emit (StartSendDragInfo c) (t\<lparr>m_sendDragInfoThread := True\<rparr>))
            else and_then (switchScreen env t c x' y' False) (\<lambda>s. Inr (True, s\<lparr>m_waitDragInfoThread := True\<rparr>)))
      (\<lambda>(_, s'). keeps s s'))" if "lands s (n, x', y')" for n x' y'
    by (rule safe_mono [OF isSwitchOkay_steady [OF invD(3,4) [OF Cons.prems]]])
       (use that rest sw drag in \<open>auto simp: lands_def split: option.splits\<close>)
  show ?case
  proof (cases "dir = kNoDirection")
    case True
    then show ?thesis using Cons.IH [OF Cons.prems] by (simp add: d)
  next
    case False
    then show ?thesis
      by (auto simp: d case_prod_beta' intro!: safe_mono [OF mapToNeighbor_lands [OF invD(3,1) [OF Cons.prems]]]
          nb [unfolded case_prod_beta'])
  qed
qed

lemma noSwitch_keeps: "sv_inv s \<Longrightarrow> safe (noSwitch env s x y) (keeps s)"
  using noSwitch_steady [of s env x y] invD(3,4) [of s] keeps_steady by (blast intro: safe_mono)

lemma call_keeps: "sv_inv s \<Longrightarrow> connected s c \<Longrightarrow> safe (call s c m) (keeps s)"
  using call_full [OF invD(5)] keeps_full by (blast intro: safe_mono)

text \<open>From a state with the same references.\<close>

lemma safe_keeps: "safe r (keeps t) \<Longrightarrow> keeps s t \<Longrightarrow> safe r (keeps s)"
  using keeps_trans by (blast intro: safe_mono)

lemma safe_keeps_snd: "safe r (\<lambda>q. keeps t (snd q)) \<Longrightarrow> keeps s t \<Longrightarrow> safe r (\<lambda>q. keeps s (snd q))"
  using keeps_trans by (blast intro: safe_mono)

lemma onMouseMovePrimary_keeps:
  assumes "sv_inv s"
  shows "safe (onMouseMovePrimary env s x y) (\<lambda>q. keeps s (snd q))"
proof -
  define t where "t = record_motion s (x - m_x s) (y - m_y s) x y"
  have f: "full t = full s" by (simp add: t_def)
  note i = inv_full [OF assms f] and k = keeps_full [OF assms f]
  have "safe (noSwitch env t x y) (keeps s)" by (rule safe_keeps [OF noSwitch_keeps [OF i] k])
  moreover have "safe (try_directions env t xc yc ds) (\<lambda>q. keeps s (snd q))" for xc yc ds
    by (rule safe_keeps_snd [OF _ k]) (use try_directions_keeps [OF i] in \<open>simp add: case_prod_beta'\<close>)
  ultimately show ?thesis unfolding onMouseMovePrimary_def t_def [symmetric] Let_def
    by (auto simp: case_prod_beta' keeps_def [of s s] assms simp del: try_directions.simps
        intro!: safe_getShape [OF invD(3) [OF i]])
qed

definition jump_ok :: "('a, 'r) server \<Rightarrow> (cid \<times> int \<times> int) option \<times> ('a, 'r) server \<Rightarrow> bool" where
  "jump_ok s q \<longleftrightarrow> keeps s (snd q) \<and> (\<forall>c x y. fst q = Some (c, x, y) \<longrightarrow> connected s c)"

lemma isSwitchOkay_moved:
  assumes "sv_inv s" "lands s (n, x, y)"
  shows "safe (isSwitchOkay env (s\<lparr>m_x := x, m_y := y\<rparr>) n dir x y xc yc) (\<lambda>q. keeps s (snd q))"
proof -
  let ?t = "s\<lparr>m_x := x, m_y := y\<rparr>"
  have f: "full ?t = full s" by simp
  note i = inv_full [OF assms(1) f]
  have "\<forall>c. n = Some c \<longrightarrow> connected ?t c" using assms(2) by (auto simp: lands_def connected_def)
  from isSwitchOkay_steady [OF invD(3,4) [OF i] this] show ?thesis
    using keeps_trans [OF keeps_full [OF assms(1) f] keeps_steady [OF i]] by (rule safe_mono) (simp add: case_prod_beta')
qed

lemma find_jump_ok:
  assumes "sv_inv s"
  shows "safe (find_jump env s sh) (jump_ok s)"
proof -
  obtain ax ay aw ah where sh: "sh = (ax, ay, aw, ah)" by (cases sh) auto
  have go: "safe (isSwitchOkay env (s\<lparr>m_x := x, m_y := y\<rparr>) n dir x y xc yc) (\<lambda>r. safe (case r of (ok, t) \<Rightarrow>
      (case n of None \<Rightarrow> Inr (None, t) | Some c \<Rightarrow> Inr (if ok then Some (c, x, y) else None, t))) (jump_ok s))"
    if "lands s (n, x, y)" for n x y dir xc yc
    by (rule safe_mono [OF isSwitchOkay_moved [OF assms that]])
       (use that in \<open>auto simp: lands_def jump_ok_def split: option.splits\<close>)
  show ?thesis
  proof (cases "exit_side sh (m_x s) (m_y s) = kNoDirection")
    case True
    have "safe (noSwitch env s x y) (\<lambda>t. jump_ok s (None, t))" for x y
      using noSwitch_keeps [OF assms] by (rule safe_mono) (simp add: jump_ok_def)
    then show ?thesis using True assms by (simp add: find_jump_def sh Let_def) (simp add: jump_ok_def keeps_def)
  next
    case False
    have "safe (mapToNeighbor env s (m_active s) dir x y) (\<lambda>q. safe (case q of (n, x, y) \<Rightarrow>
        and_then (isSwitchOkay env (s\<lparr>m_x := x, m_y := y\<rparr>) n dir x y xc yc) (\<lambda>(ok, t).
        case n of None \<Rightarrow> Inr (None, t) | Some c \<Rightarrow> Inr (if ok then Some (c, x, y) else None, t))) (jump_ok s))"
      for dir x y xc yc
    proof (rule safe_mono [OF mapToNeighbor_lands [OF invD(3,1) [OF assms]]], goal_cases)
      case (1 q)
      then show ?case using go by (cases q) simp
    qed
    then show ?thesis using False by (simp add: find_jump_def sh Let_def)
  qed
qed

lemma finish_secondary_keeps:
  assumes "sv_inv s" "\<forall>c x y. jump = Some (c, x, y) \<longrightarrow> connected s c"
  shows "safe (finish_secondary env s sh xOld yOld dx dy jump) (keeps s)"
proof (cases jump)
  case None
  obtain ax ay aw ah where sh: "sh = (ax, ay, aw, ah)" by (cases sh) auto
  have f: "full (s\<lparr>m_x := a, m_y := b\<rparr>) = full s" for a b by simp
  have "safe (call (s\<lparr>m_x := a, m_y := b\<rparr>) (m_active s) m) (keeps s)" for a b m
    using safe_keeps [OF call_keeps [OF inv_full [OF assms(1) f]] keeps_full [OF assms(1) f]]
      invD(6) [OF inv_full [OF assms(1) f]] by simp
  then show ?thesis using keeps_full [OF assms(1) f] None by (auto simp: finish_secondary_def sh Let_def)
next
  case (Some j)
  obtain c x y where j: "j = (c, x, y)" by (cases j) auto
  let ?t = "if m_sendFileThread s then emit InterruptFile (s\<lparr>m_sendFileThread := False\<rparr>) else s"
  have f: "full ?t = full s" by simp
  have "connected ?t c" using assms(2) Some j connected_refs [OF fullD(1) [OF f]] by simp
  from safe_keeps [OF switchScreen_keeps [OF inv_full [OF assms(1) f] this] keeps_full [OF assms(1) f]]
  show ?thesis using Some j by (simp add: finish_secondary_def Let_def)
qed

lemma onMouseMoveSecondary_keeps:
  assumes "sv_inv s"
  shows "safe (onMouseMoveSecondary env s dx dy) (keeps s)"
proof -
  define t where "t = record_motion s dx dy (m_x s + dx) (m_y s + dy)"
  have f: "full t = full s" by (simp add: t_def)
  note i = inv_full [OF assms f]
  have "safe (find_jump env t sh) (\<lambda>q. safe (finish_secondary env (snd q) sh (m_x s) (m_y s) dx dy (fst q)) (keeps s))" for sh
  proof (rule safe_mono [OF find_jump_ok [OF i]], goal_cases)
    case (1 q)
    then have k: "keeps t (snd q)" and j: "\<forall>c x y. fst q = Some (c, x, y) \<longrightarrow> connected (snd q) c"
      using connected_refs [of "snd q" t] by (auto simp: jump_ok_def keeps_def)
    show ?case by (rule safe_keeps [OF finish_secondary_keeps [OF keeps_inv [OF k] j]
          keeps_trans [OF keeps_full [OF assms f] k]])
  qed
  then show ?thesis unfolding onMouseMoveSecondary_def Let_def t_def [symmetric]
    using call_keeps [OF assms invD(6) [OF assms]]
    by (auto simp: keeps_def [of s s] assms case_prod_beta' intro!: safe_getShape [OF invD(3) [OF i]])
qed

lemma for_clients_keeps:
  assumes "sv_inv s" "\<And>s c. alive s c \<Longrightarrow> safe (f s c) (\<lambda>s'. full s' = full s)" "set cs \<subseteq> set (m_clients s)"
  shows "safe (for_clients f s cs) (keeps s)"
proof (rule safe_mono [OF for_clients_full [OF assms(2)]])
  show "\<forall>(n, c) \<in> set cs. alive s c" using assms(3) invD(1) [OF assms(1)] by (auto simp: clients_alive_def)
qed (use keeps_full [OF assms(1)] in auto)

lemma relay_key_keeps: "sv_inv s \<Longrightarrow> safe (relay_key s k screens) (keeps s)"
  unfolding relay_key_def Let_def
  by (auto intro!: call_keeps invD(6) for_clients_keeps call_full)

lemma onMouseDown_keeps: "sv_inv s \<Longrightarrow> safe (onMouseDown s b) (keeps s)"
  by (simp add: onMouseDown_def) (rule safe_call, simp add: invD(3), rule keeps_full, simp_all)

lemma sendFileToClient_full: "full (sendFileToClient s f) = full s"
  by (simp add: sendFileToClient_def Let_def)

lemma onMouseUp_keeps: "sv_inv s \<Longrightarrow> safe (onMouseUp env s b) (keeps s)"
  by (simp add: onMouseUp_def) (rule safe_call, simp add: invD(3), auto simp: sendFileToClient_full Let_def intro: keeps_full)

lemma saver_simps [simp]:
  "getName (s\<lparr>m_activeSaver := a\<rparr>) = getName s" "connected (s\<lparr>m_activeSaver := a\<rparr>) = connected s"
  "alive (s\<lparr>m_activeSaver := a\<rparr>) = alive s" "pending_ok (s\<lparr>m_activeSaver := a\<rparr>) = pending_ok s"
  by (simp_all add: getName_def deref_def connected_def alive_def pending_ok_def fun_eq_iff)

lemma inv_saver: "sv_inv s \<Longrightarrow> (\<forall>c. a = Some c \<longrightarrow> connected s c) \<Longrightarrow> sv_inv (s\<lparr>m_activeSaver := a\<rparr>)"
  unfolding sv_inv_def saver_simps by simp

lemma for_all_clients_inv:
  assumes "safe r sv_inv" "\<And>s c. alive s c \<Longrightarrow> safe (f s c) (\<lambda>s'. full s' = full s)"
  shows "safe (and_then r (\<lambda>s. for_clients f s (m_clients s))) sv_inv"
  unfolding safe_simps
proof (rule safe_mono [OF assms(1)])
  show "safe (for_clients f s (m_clients s)) sv_inv" if "sv_inv s" for s
    by (rule safe_mono [OF for_clients_keeps [OF that assms(2)]]) (auto dest: keeps_inv)
qed

lemma saver_on_inv:
  assumes "sv_inv s"
  shows "safe (saver_on env s) sv_inv"
proof -
  let ?t = "s\<lparr>m_activeSaver := Some (m_active s)\<rparr>"
  let ?u = "?t\<lparr>m_xSaver := m_x s, m_ySaver := m_y s\<rparr>"
  have "sv_inv ?t" using inv_saver [OF assms, of "Some (m_active s)"] invD(6) [OF assms] by simp
  then have u: "sv_inv ?u" by (rule inv_full) simp
  have "safe (switchScreen env ?u (m_primaryClient ?u) 0 0 True) sv_inv"
    using switchScreen_keeps [OF u invD(7) [OF u]] keeps_inv by (blast intro: safe_mono)
  then show ?thesis using u by (cases "m_active s = m_primaryClient s") (simp_all add: saver_on_def Let_def)
qed

lemma saver_off_inv:
  assumes "sv_inv s"
  shows "safe (saver_off env s) sv_inv"
proof (cases "m_activeSaver s")
  case None
  then show ?thesis using inv_saver [OF assms, of None] by (simp add: saver_off_def)
next
  case (Some c)
  have c: "connected s c" "alive s c" using assms Some invD(5) [OF assms, of c] by (auto simp: sv_inv_def)
  have sw: "safe (switchScreen env (s\<lparr>m_xSaver := a, m_ySaver := b\<rparr>) c x y False) (\<lambda>t. sv_inv (t\<lparr>m_activeSaver := None\<rparr>))"
    for a b x y
  proof -
    have f: "full (s\<lparr>m_xSaver := a, m_ySaver := b\<rparr>) = full s" by simp
    have "connected (s\<lparr>m_xSaver := a, m_ySaver := b\<rparr>) c" using c(1) connected_refs [OF fullD(1) [OF f]] by simp
    from switchScreen_keeps [OF inv_full [OF assms f] this] show ?thesis
      by (rule safe_mono) (auto dest: keeps_inv intro: inv_saver)
  qed
  have "safe (return_from_saver env s c) (\<lambda>t. sv_inv (t\<lparr>m_activeSaver := None\<rparr>))"
    unfolding return_from_saver_def safe_simps
    by (rule safe_getShape [OF c(2)]) (simp add: case_prod_beta' Let_def sw)
  then show ?thesis using Some inv_saver [OF assms, of None] by (simp add: saver_off_def)
qed

lemma onScreensaver_inv: "sv_inv s \<Longrightarrow> safe (onScreensaver env s activated) sv_inv"
  unfolding onScreensaver_def
  by (rule for_all_clients_inv [OF _ call_full]) (simp_all add: saver_on_inv saver_off_inv)

lemma update_position_inv:
  assumes "sv_inv s"
  shows "safe (update_position env s c x y) sv_inv"
proof -
  let ?t = "if c = m_active s then s\<lparr>m_x := x, m_y := y\<rparr> else s"
  have t: "sv_inv ?t" by (rule inv_full [OF assms]) simp
  have "safe (onMouseMovePrimary env ?t a b) (\<lambda>q. sv_inv (snd q))" for a b
    using onMouseMovePrimary_keeps [OF t] keeps_inv by (blast intro: safe_mono)
  moreover have "safe (onMouseMoveSecondary env ?t 0 0) sv_inv"
    using onMouseMoveSecondary_keeps [OF t] keeps_inv by (blast intro: safe_mono)
  ultimately show ?thesis using t by (simp add: update_position_def Let_def case_prod_beta')
qed

lemma handle_shape_changed_inv:
  assumes "sv_inv s"
  shows "safe (handle_shape_changed env s c) sv_inv"
proof (cases "c \<in> set (m_clientSet s)")
  case True
  then have c: "alive s c" using invD(5,8) [OF assms] by blast
  have "safe (setJumpCursorPos s c x y) (\<lambda>t. safe (update_position env t c x y) sv_inv)" for x y
    by (rule safe_mono [OF setJumpCursorPos_full [OF c]]) (rule update_position_inv [OF inv_full [OF assms]])
  then show ?thesis using True by (auto simp: handle_shape_changed_def intro!: safe_getCursorPos [OF c])
qed (use assms in \<open>simp add: handle_shape_changed_def\<close>)

lemma handle_clipboard_grabbed_keeps:
  assumes "sv_inv s"
  shows "safe (handle_clipboard_grabbed env s g i n) (keeps s)"
proof (cases "g \<in> set (m_clientSet s)")
  case True
  then have g: "alive s g" using invD(5,8) [OF assms] by blast
  have "safe (for_clients (\<lambda>s c. if c = g then setClipboardDirty s c i False else grabClipboard s c i)
      (set_clip_info i ci s) (m_clients s)) (keeps s)" for ci
  proof (rule safe_keeps [OF for_clients_keeps])
    show "sv_inv (set_clip_info i ci s)" "keeps s (set_clip_info i ci s)"
      by (rule inv_full [OF assms], simp) (rule keeps_full [OF assms], simp)
  qed (auto simp: set_clip_info_def intro: setClipboardDirty_full grabClipboard_full)
  then show ?thesis unfolding handle_clipboard_grabbed_def
    by (auto simp: keeps_def [of s s] assms Let_def set_clip_info_def
        intro!: safe_clip_info safe_getName [OF g] safe_getName [OF invD(2) [OF assms]] safe_open safe_lift_clipI safe_marshall)
qed (use assms in \<open>simp add: handle_clipboard_grabbed_def keeps_def\<close>)

lemma handle_clipboard_changed_keeps:
  assumes "sv_inv s"
  shows "safe (handle_clipboard_changed env s c i n) (keeps s)"
proof (cases "c \<in> set (m_clientSet s)")
  case True
  then have "alive s c" using invD(5,8) [OF assms] by blast
  then have "safe (onClipboardChanged env s c i n) (keeps s)"
    by (rule safe_mono [OF onClipboardChanged_full [OF _ invD(3,1) [OF assms]] keeps_full [OF assms]])
  then show ?thesis using True by (simp add: handle_clipboard_changed_def)
qed (use assms in \<open>simp add: handle_clipboard_changed_def keeps_def\<close>)

lemma jumpToScreen_keeps:
  assumes "sv_inv s" "connected s c"
  shows "safe (jumpToScreen env s c) (keeps s)"
proof -
  have "safe (setJumpCursorPos s (m_active s) a b) (\<lambda>t. safe (getJumpCursorPos t c) (\<lambda>q.
      safe (switchScreen env t c (fst q) (snd q) False) (keeps s)))" for a b
  proof (rule safe_mono [OF setJumpCursorPos_full [OF invD(3) [OF assms(1)]]])
    fix t assume t: "full t = full s"
    have c: "connected t c" using assms(2) connected_refs [OF fullD(1) [OF t]] by simp
    note i = inv_full [OF assms(1) t]
    show "safe (getJumpCursorPos t c) (\<lambda>q. safe (switchScreen env t c (fst q) (snd q) False) (keeps s))"
      by (rule safe_getJumpCursorPos [OF invD(5) [OF i c]])
         (rule safe_keeps [OF switchScreen_keeps [OF i c] keeps_full [OF assms(1) t]])
  qed
  then show ?thesis by (simp add: jumpToScreen_def case_prod_beta')
qed

lemma find_client_connected: "find_client s n = Some (m, c) \<Longrightarrow> connected s c"
  using sm_find_member [of "(<)" n "m_clients s" m c] by (force simp: connected_def)

lemma next_client_member: "next_client n cs = Some c \<Longrightarrow> c \<in> snd ` set cs"
  by (induction n cs rule: next_client.induct) (auto split: if_splits)

lemma handle_toggle_screen_keeps:
  assumes "sv_inv s"
  shows "safe (handle_toggle_screen_event env s) (keeps s)"
proof -
  have "m_clients s \<noteq> []" using invD(7) [OF assms] by (auto simp: connected_def)
  then obtain n c cs where cs: "m_clients s = (n, c) # cs" by (cases "m_clients s") auto
  then have "connected s c" by (simp add: connected_def)
  moreover have "connected s d" if "next_client m (m_clients s) = Some d" for m d
    using next_client_member [OF that] by (simp add: connected_def)
  ultimately show ?thesis using cs assms unfolding handle_toggle_screen_event_def
    by (auto simp: keeps_def [of s s] split: option.split
        intro!: safe_getName [OF invD(3) [OF assms]] jumpToScreen_keeps)
qed

lemma handle_switch_in_direction_keeps:
  assumes "sv_inv s"
  shows "safe (handle_switch_in_direction_event env s dir) (keeps s)"
  unfolding handle_switch_in_direction_event_def safe_simps
  by (rule safe_mono [OF sv_getNeighbor_lands [OF invD(3,1) [OF assms]]])
     (use jumpToScreen_keeps [OF assms] in \<open>auto simp: lands_def keeps_def [of s s] assms split: option.splits\<close>)

lemma safe_hasAnyNeighbor: "alive s c \<Longrightarrow> (\<And>b. P b) \<Longrightarrow> safe (hasAnyNeighbor s c dir) P"
  by (auto simp: hasAnyNeighbor_def split: option.split intro!: safe_getName)

lemma safe_getActivePrimarySides:
  "alive s (m_primaryClient s) \<Longrightarrow> (\<And>b. P b) \<Longrightarrow> safe (getActivePrimarySides s) P"
  by (auto simp: getActivePrimarySides_def add_side_def intro!: safe_hasAnyNeighbor)

lemma reconfigure_full: "alive s (m_primaryClient s) \<Longrightarrow> safe (reconfigure s) (\<lambda>s'. full s' = full s)"
  by (auto simp: reconfigure_def intro!: safe_getActivePrimarySides call_full)

lemma reconfigure_keeps: "sv_inv s \<Longrightarrow> safe (reconfigure s) (keeps s)"
  by (rule safe_mono [OF reconfigure_full keeps_full]) (simp_all add: invD(2))

lemma stopRelativeMoves_full: "alive s (m_active s) \<Longrightarrow> safe (stopRelativeMoves s) (\<lambda>s'. full s' = full s)"
proof -
  assume a: "alive s (m_active s)"
  have "safe (call (record_position s x y) (m_active s) m) (\<lambda>s'. full s' = full s)" for x y m
    using call_full [of "record_position s x y" "m_active s" m] a fullD(5) [of "record_position s x y" s]
    by (auto elim!: safe_mono)
  moreover have "m_active (record_position s x y) = m_active s" for x y using fullD(2) [of "record_position s x y" s] by simp
  ultimately show ?thesis by (auto simp: stopRelativeMoves_def Let_def intro!: safe_getShape [OF a])
qed

lemma handle_lock_cursor_keeps:
  assumes "sv_inv s"
  shows "safe (handle_lock_cursor_to_screen_event s st) (keeps s)"
proof -
  let ?t = "s\<lparr>m_lockedToScreen := new_state st (m_lockedToScreen s)\<rparr>"
  have f: "full ?t = full s" by simp
  note i = inv_full [OF assms f]
  have "safe (reconfigure ?t) (\<lambda>u. safe (if \<not> isLockedToScreenServer u then stopRelativeMoves u else Inr u) (keeps s))"
  proof (rule safe_mono [OF safe_keeps [OF reconfigure_keeps [OF i] keeps_full [OF assms f]]])
    fix u assume u: "keeps s u"
    have "safe (stopRelativeMoves u) (keeps u)"
      by (rule safe_mono [OF stopRelativeMoves_full keeps_full]) (use invD(3) keeps_inv [OF u] in auto)
    then have "safe (stopRelativeMoves u) (keeps s)" using u by (rule safe_keeps)
    then show "safe (if \<not> isLockedToScreenServer u then stopRelativeMoves u else Inr u) (keeps s)" using u by simp
  qed
  moreover have "keeps s s" by (simp add: keeps_def assms)
  ultimately show ?thesis unfolding handle_lock_cursor_to_screen_event_def Let_def
    by (cases "new_state st (m_lockedToScreen s) = m_lockedToScreen s") (simp_all only: if_True if_False safe_simps simp_thms)
qed

lemma handle_switch_wait_keeps:
  assumes "sv_inv s" "m_switchWaitTimer s"
  shows "safe (handle_switch_wait_event env s) (keeps s)"
proof -
  obtain c where c: "m_switchScreen s = Some c" "connected s c"
    using invD(4) [OF assms(1)] assms(2) by (auto simp: pending_ok_def)
  then show ?thesis using switchScreen_keeps [OF assms(1) c(2)] keeps_steady [OF assms(1) stopSwitch_steady]
      invD(4) [OF assms(1)] by (simp add: handle_switch_wait_event_def)
qed

end
