(* ===== verification/ServerClients.thy ===== *)
theory ServerClients
  imports ServerSafety
begin

text \<open>
  Clients that connect and disconnect, the server as a state machine over its inputs, and memory safety of every
  run. The conditions on the order of inputs say that memory is not reused while it is in use, that a timer
  fires only while it runs, and, for a client that disconnects, that the server neither waits to switch to it
  nor has it as its active screen while the screen saver interrupted another one. The last part shows
  that a run that violates one of the two latter conditions uses a deleted proxy, and two more errors.
\<close>

subsection \<open>Adding and deleting proxies\<close>

lemma set_proxy_other:
  "d \<noteq> c \<Longrightarrow> getName (set_proxy c p s) d = getName s d" "d \<noteq> c \<Longrightarrow> alive (set_proxy c p s) d = alive s d"
  "connected (set_proxy c p s) = connected s" "pending_ok (set_proxy c p s) = pending_ok s"
  by (simp_all add: set_proxy_def getName_def deref_def alive_def connected_def pending_ok_def fun_eq_iff)

lemma sv_invI:
  assumes "sm_wf (<) (m_clients s)" "snd ` set (m_clients s) = set (m_clientSet s)"
    and "\<And>n c. (n, c) \<in> set (m_clients s) \<Longrightarrow> getName s c = Inr n"
    and "connected s (m_primaryClient s)" "connected s (m_active s)"
    and "\<And>c. m_activeSaver s = Some c \<Longrightarrow> connected s c"
    and "\<And>c. c \<in> set (m_oldClients s) \<Longrightarrow> alive s c" "\<And>c. c \<in> set (m_oldClients s) \<Longrightarrow> \<not> connected s c"
    and "pending_ok s"
  shows "sv_inv s"
  using assms by (auto simp: sv_inv_def)

lemma sv_invD:
  assumes "sv_inv s"
  shows "sm_wf (<) (m_clients s)" "snd ` set (m_clients s) = set (m_clientSet s)"
    and "(n, c) \<in> set (m_clients s) \<Longrightarrow> getName s c = Inr n"
    and "m_activeSaver s = Some c \<Longrightarrow> connected s c"
    and "c \<in> set (m_oldClients s) \<Longrightarrow> alive s c" "c \<in> set (m_oldClients s) \<Longrightarrow> \<not> connected s c"
  using assms by (auto simp: sv_inv_def)

lemma inv_other_proxy:
  assumes "sv_inv s" "\<not> connected s c" "c \<notin> set (m_oldClients s)"
    and "\<And>d. d \<noteq> c \<Longrightarrow> getName t d = getName s d" "\<And>d. d \<noteq> c \<Longrightarrow> alive t d = alive s d"
    and "m_clients t = m_clients s" "m_clientSet t = m_clientSet s" "m_oldClients t = m_oldClients s"
    and "m_primaryClient t = m_primaryClient s" "m_active t = m_active s" "m_activeSaver t = m_activeSaver s"
    and "pending_ok t = pending_ok s"
  shows "sv_inv t"
proof -
  have con: "connected t = connected s" using assms(6) by (simp add: connected_def fun_eq_iff)
  have ne: "d \<noteq> c" if "(n, d) \<in> set (m_clients s)" for n d using assms(2) that by (force simp: connected_def)
  show ?thesis
  proof (rule sv_invI)
    show "getName t d = Inr n" if "(n, d) \<in> set (m_clients t)" for n d
      using that ne [of n d] assms(4) [of d] sv_invD(3) [OF assms(1), of n d] assms(6) by simp
    show "alive t d" if "d \<in> set (m_oldClients t)" for d
      using that assms(3,5,8) sv_invD(5) [OF assms(1), of d] by (cases "d = c") auto
  qed (use assms(6-12) con sv_invD [OF assms(1)] invD(4,6,7) [OF assms(1)] in simp_all)
qed

lemma inv_new_proxy:
  assumes "sv_inv s" "m_proxies s c = None"
  shows "sv_inv (set_proxy c p s)" "alive (set_proxy c p s) c" "\<not> connected (set_proxy c p s) c"
    "c \<notin> set (m_oldClients (set_proxy c p s))"
proof -
  have n: "\<not> connected s c" "c \<notin> set (m_oldClients s)"
    using invD(5) [OF assms(1), of c] assms by (auto simp: alive_def sv_inv_def)
  show "sv_inv (set_proxy c p s)"
    by (rule inv_other_proxy [OF assms(1) n]) (simp_all add: set_proxy_other, simp_all add: set_proxy_def)
  show "alive (set_proxy c p s) c" "\<not> connected (set_proxy c p s) c" "c \<notin> set (m_oldClients (set_proxy c p s))"
    using n by (simp_all add: set_proxy_other, simp_all add: set_proxy_def alive_def)
qed

lemma inv_delete:
  assumes "sv_inv s" "\<not> connected s c" "c \<notin> set (m_oldClients s)"
  shows "sv_inv (delete_proxy c s)"
  by (rule inv_other_proxy [OF assms])
     (simp_all add: delete_proxy_def getName_def deref_def alive_def connected_def pending_ok_def)

lemma removeOldClient_inv:
  assumes "sv_inv s"
  shows "sv_inv (removeOldClient s c)" "c \<notin> set (m_oldClients (removeOldClient s c))"
    "connected (removeOldClient s c) = connected s"
proof -
  have e: "sv_inv (emit a t) = sv_inv t" for a and t :: "('a, 'b) server" using inv_full [of t "emit a t"] inv_full [of "emit a t" t] by auto
  have o: "m_oldClients (emit a t) = m_oldClients t" "m_clients (emit a t) = m_clients t" for a and t :: "('a, 'b) server"
    by (simp_all add: emit_def)
  have "sv_inv (s\<lparr>m_oldClients := removeAll c (m_oldClients s)\<rparr>)"
    using assms by (auto simp: sv_inv_def getName_def deref_def alive_def connected_def pending_ok_def)
  then show "sv_inv (removeOldClient s c)" using assms by (simp add: removeOldClient_def Let_def e)
  show "c \<notin> set (m_oldClients (removeOldClient s c))" by (simp add: removeOldClient_def Let_def o)
  show "connected (removeOldClient s c) = connected s"
    by (simp add: removeOldClient_def Let_def connected_def fun_eq_iff o)
qed

subsection \<open>A client connects\<close>

lemma addClient_table:
  assumes "sv_inv s" "getName s c = Inr n" "find_client s n = None" "\<not> connected s c" "c \<notin> set (m_oldClients s)"
  defines "t \<equiv> s\<lparr>m_clientSet := List.insert c (m_clientSet s), m_clients := sm_insert (<) n c (m_clients s)\<rparr>"
  shows "sv_inv t" "connected t c"
proof -
  note set = cl.set_insert_new [OF assms(3), of c]
  have con: "connected t d \<longleftrightarrow> d = c \<or> connected s d" for d by (auto simp: connected_def set t_def)
  have gn: "getName t = getName s" "alive t = alive s" by (simp_all add: getName_def deref_def alive_def fun_eq_iff t_def)
  show "connected t c" by (simp add: con)
  have "sm_wf (<) (m_clients t)" using assms(1) cl.wf_insert by (auto simp: sv_inv_def t_def)
  moreover have "snd ` set (m_clients t) = set (m_clientSet t)" using assms(1) by (auto simp: set sv_inv_def t_def)
  moreover have "\<forall>(m, d) \<in> set (m_clients t). getName t d = Inr m"
    unfolding gn using assms(1,2) by (auto simp: set sv_inv_def t_def)
  moreover have "pending_ok t" using invD(4) [OF assms(1)] by (simp add: pending_ok_def con) (simp add: t_def)
  moreover have "m_primaryClient t = m_primaryClient s" "m_active t = m_active s" "m_activeSaver t = m_activeSaver s"
    "m_oldClients t = m_oldClients s" by (simp_all add: t_def)
  ultimately show "sv_inv t" using assms(1,5) unfolding sv_inv_def con gn by auto
qed

lemma addClient_inv:
  assumes "sv_inv s" "alive s c" "\<not> connected s c" "c \<notin> set (m_oldClients s)"
  shows "safe (addClient s c) (\<lambda>q. if fst q then sv_inv (snd q) \<and> connected (snd q) c else snd q = s)"
proof -
  obtain n where n: "getName s c = Inr n" using assms(2) by (auto simp: getName_def deref_def alive_def Let_def)
  show ?thesis
  proof (cases "find_client s n")
    case (Some e)
    then show ?thesis using n by (simp add: addClient_def)
  next
    case None
    define t where "t = s\<lparr>m_clientSet := List.insert c (m_clientSet s), m_clients := sm_insert (<) n c (m_clients s)\<rparr>"
    have t: "sv_inv t" "connected t c" using addClient_table [OF assms(1) n None assms(3,4)] by (simp_all add: t_def)
    have "safe (reconfigure u) (\<lambda>u. sv_inv u \<and> connected u c)" if "full u = full t" for u
    proof (rule safe_mono [OF reconfigure_keeps [OF inv_full [OF t(1) that]]])
      fix v assume "keeps u v"
      then show "sv_inv v \<and> connected v c" using t(2) connected_refs [of v u] connected_refs [OF fullD(1) [OF that]]
        by (auto simp: keeps_def)
    qed
    then have "safe (setJumpCursorPos t c x y) (\<lambda>u. safe (reconfigure u) (\<lambda>u. sv_inv u \<and> connected u c))" for x y
      using setJumpCursorPos_full [OF invD(5) [OF t]] by (blast intro: safe_mono)
    then show ?thesis using n None invD(5) [OF t] unfolding addClient_def t_def [symmetric]
      by (auto simp: t_def [symmetric] Let_def intro!: safe_getCursorPos)
  qed
qed

subsection \<open>A client leaves\<close>

text \<open>The invariant but for the references to \<open>c\<close>, which has just been taken out of the table of clients.\<close>

definition apart :: "('a, 'r) server \<Rightarrow> cid \<Rightarrow> bool" where
  "apart s c \<longleftrightarrow> sm_wf (<) (m_clients s) \<and> snd ` set (m_clients s) = set (m_clientSet s) \<and>
     (\<forall>(n, d) \<in> set (m_clients s). getName s d = Inr n) \<and> connected s (m_primaryClient s) \<and> \<not> connected s c \<and>
     (m_active s = c \<or> connected s (m_active s)) \<and>
     (\<forall>d. m_activeSaver s = Some d \<or> m_switchScreen s = Some d \<longrightarrow> d = c \<or> connected s d) \<and>
     (\<forall>d \<in> set (m_oldClients s). alive s d \<and> \<not> connected s d) \<and> (m_switchWaitTimer s \<longrightarrow> m_switchScreen s \<noteq> None)"

text \<open>The screen that \<^verbatim>\<open>forceLeaveClient\<close> takes for the active one.\<close>

definition leaves :: "('a, 'r) server \<Rightarrow> cid \<Rightarrow> bool" where
  "leaves s c \<longleftrightarrow> (case m_activeSaver s of Some a \<Rightarrow> a | None \<Rightarrow> m_active s) = c"

definition clean_leave :: "('a, 'r) server \<Rightarrow> cid \<Rightarrow> bool" where
  "clean_leave s c \<longleftrightarrow> leaves s c \<or> m_active s \<noteq> c \<and> m_switchScreen s \<noteq> Some c"

lemma apart_inv:
  assumes "apart s c" "refs t = refs s" "connected s (m_active t)" "pending_ok t"
  shows "sv_inv (if m_activeSaver t = Some c then t\<lparr>m_activeSaver := None\<rparr> else t)"
proof -
  note r = refsD [OF assms(2)] and con = connected_refs [OF assms(2)]
  have gn: "getName t = getName s" using getName_cong r(2,7) by (metis ext)
  have "sv_inv (t\<lparr>m_activeSaver := a\<rparr>)" if "\<forall>d. a = Some d \<longrightarrow> connected s d" for a
    using assms(1,3,4) that by (auto simp: sv_inv_def apart_def r con gn)
  moreover have "m_activeSaver t \<noteq> Some c \<Longrightarrow> \<forall>d. m_activeSaver t = Some d \<longrightarrow> connected s d"
    using assms(1) by (auto simp: apart_def r)
  moreover have "t\<lparr>m_activeSaver := m_activeSaver t\<rparr> = t" by simp
  ultimately show ?thesis by (metis option.distinct(1))
qed

lemma apart_full: "apart s c \<Longrightarrow> full t = full s \<Longrightarrow> apart t c"
proof -
  assume a: "apart s c" "full t = full s"
  note r = refsD [OF fullD(1) [OF a(2)]]
  have "getName t = getName s" using getName_cong r(2,7) by (metis ext)
  with a(1) r connected_refs [OF fullD(1) [OF a(2)]] fullD(2-4) [OF a(2)] show ?thesis by (simp add: apart_def)
qed

lemma stopSwitch_apart:
  assumes "apart s c"
  shows "pending_ok (if m_switchScreen s = Some c then stopSwitch s else s)"
  using assms stopSwitch_fields(1) [of s]
  by (auto simp: pending_ok_def apart_def stopSwitch_def stopSwitchWait_def stopSwitchTwoTap_def emit_def)

definition left_ok :: "('a, 'r) server \<Rightarrow> cid \<Rightarrow> ('a, 'r) server \<Rightarrow> bool" where
  "left_ok s c t \<longleftrightarrow> sv_inv t \<and> connected t = connected s \<and> m_oldClients t = m_oldClients s \<and>
     m_primaryClient t = m_primaryClient s \<and>
     (\<forall>d. d \<noteq> c \<and> d \<noteq> m_primaryClient s \<and> clean_leave s d \<longrightarrow> clean_leave t d)"

lemma clean_leave_cong: "m_active t = m_active s \<Longrightarrow> m_activeSaver t = m_activeSaver s \<Longrightarrow>
    m_switchScreen t = m_switchScreen s \<Longrightarrow> clean_leave t c = clean_leave s c"
  by (simp add: clean_leave_def leaves_def split: option.split)

lemma clean_leave_full: "full t = full s \<Longrightarrow> clean_leave t c = clean_leave s c"
  using clean_leave_cong [of t s c] fullD(2,3) [of t s] refsD(6) [OF fullD(1) [of t s]] by simp

text \<open>The last step of \<^verbatim>\<open>forceLeaveClient\<close>.\<close>

lemma finish_leave:
  assumes "apart s c" "refs t = refs s" "connected s (m_active t)" "pending_ok t"
    and "\<And>d. d \<noteq> c \<Longrightarrow> d \<noteq> m_primaryClient s \<Longrightarrow> clean_leave s d \<Longrightarrow> clean_leave t d \<and> (m_activeSaver t = Some c \<longrightarrow> m_active t \<noteq> d \<and> m_switchScreen t \<noteq> Some d)"
  shows "safe (reconfigure (if m_activeSaver t = Some c then t\<lparr>m_activeSaver := None\<rparr> else t)) (left_ok s c)"
proof -
  let ?t = "if m_activeSaver t = Some c then t\<lparr>m_activeSaver := None\<rparr> else t"
  have inv: "sv_inv ?t" by (rule apart_inv [OF assms(1-4)])
  show ?thesis
  proof (rule safe_mono [OF reconfigure_full [OF invD(2) [OF inv]]])
    fix u assume f: "full u = full ?t"
    have "clean_leave ?t d" if "d \<noteq> c" "d \<noteq> m_primaryClient s" "clean_leave s d" for d
      using assms(5) [OF that] by (auto simp: clean_leave_def)
    then show "left_ok s c u"
      using inv_full [OF inv f] clean_leave_full [OF f] connected_refs [OF fullD(1) [OF f]] refsD(1,5) [OF fullD(1) [OF f]]
        connected_refs [OF assms(2)] refsD(1,5) [OF assms(2)] by (simp add: left_ok_def)
  qed
qed

lemma cut_over_ok:
  assumes "apart s c"
  shows "refs (cut_over env s c) = refs s" "m_active (cut_over env s c) = m_primaryClient s"
    "pending_ok (cut_over env s c)" "m_switchScreen (cut_over env s c) \<in> {None, m_switchScreen s}"
proof -
  let ?s0 = "s\<lparr>m_x := fst (ev_center env), m_y := snd (ev_center env)\<rparr>"
  have f0: "full ?s0 = full s" by simp
  show "refs (cut_over env s c) = refs s" "m_active (cut_over env s c) = m_primaryClient s"
    "pending_ok (cut_over env s c)"
    using stopSwitch_apart [OF apart_full [OF assms f0]] refs_unchanged(3) [of ?s0] fullD(1) [OF f0]
    by (auto simp: cut_over_def Let_def refs_eq names_def fun_eq_iff pending_ok_def connected_def)
  show "m_switchScreen (cut_over env s c) \<in> {None, m_switchScreen s}"
    using stopSwitch_fields(1) [of ?s0] by (simp add: cut_over_def Let_def)
qed

lemma forceLeaveClient_inv:
  assumes "apart s c" "clean_leave s c"
  shows "safe (forceLeaveClient env s c) (left_ok s c)"
proof (cases "leaves s c")
  case False
  then have "connected s (m_active s)" "pending_ok s" "m_activeSaver s \<noteq> Some c"
    using assms by (auto simp: clean_leave_def apart_def pending_ok_def leaves_def)
  then show ?thesis using finish_leave [OF assms(1) refl] False by (auto simp: forceLeaveClient_def leaves_def Let_def)
next
  case True
  let ?t = "cut_over env s c"
  note t = cut_over_ok [OF assms(1), of env]
  have c: "connected s (m_primaryClient s)" "\<forall>(n, d) \<in> set (m_clients s). getName s d = Inr n"
    using assms(1) by (simp_all add: apart_def)
  then have al: "alive s (m_primaryClient s)" using getName_alive by (fastforce simp: connected_def)
  have fin: "safe (reconfigure (if m_activeSaver u = Some c then u\<lparr>m_activeSaver := None\<rparr> else u)) (left_ok s c)"
    if f: "full u = full ?t" for u
  proof (rule finish_leave [OF assms(1)])
    note u = fullD(1-3) [OF f]
    show "refs u = refs s" "connected s (m_active u)" "pending_ok u" using c(1) t(1-3) u pending_full [OF f] by simp_all
    show "clean_leave u d \<and> (m_activeSaver u = Some c \<longrightarrow> m_active u \<noteq> d \<and> m_switchScreen u \<noteq> Some d)"
      if "d \<noteq> c" "d \<noteq> m_primaryClient s" "clean_leave s d" for d
      using that True t(2,4) u(2,3) by (auto simp: clean_leave_def leaves_def)
  qed
  have go: "safe (deref u (m_active u)) (\<lambda>q. safe (let v = emit (Post (ScreenSwitched (px_name q))) u in
      reconfigure (if m_activeSaver v = Some c then v\<lparr>m_activeSaver := None\<rparr> else v)) (left_ok s c))"
    if "full u = full ?t" for u
    unfolding Let_def
    by (rule safe_deref) (use al t that fullD(2,5) [OF that] refsD(8) [OF t(1)] full_emit fin in simp_all)
  have "safe (if m_activeSaver ?t = None then call ?t (m_primaryClient ?t) m else Inr ?t) (\<lambda>u. full u = full ?t)" for m
    using call_full [of ?t "m_primaryClient ?t"] al refsD(1,8) [OF t(1)] by simp
  from safe_mono [OF this go] show ?thesis using True
    by (simp add: forceLeaveClient_def jump_off_def leaves_def Let_def)
qed

text \<open>What \<^verbatim>\<open>removeClient\<close> leaves alone.\<close>

definition taken_out :: "('a, 'r) server \<Rightarrow> cid \<Rightarrow> ('a, 'r) server \<Rightarrow> bool" where
  "taken_out s c t \<longleftrightarrow> apart t c \<and> m_active t = m_active s \<and> m_activeSaver t = m_activeSaver s \<and>
     m_switchScreen t = m_switchScreen s \<and> alive t = alive s \<and> m_oldClients t = m_oldClients s \<and>
     m_primaryClient t = m_primaryClient s \<and> (\<forall>d. connected t d \<longleftrightarrow> d \<noteq> c \<and> connected s d)"

lemma inv_apart:
  assumes "sv_inv s" "\<not> connected s c"
  shows "apart s c" "clean_leave s c"
  using assms by (auto simp: sv_inv_def apart_def pending_ok_def clean_leave_def)

lemma removeClient_connected:
  assumes "sv_inv s" "connected s c" "c \<noteq> m_primaryClient s"
  shows "safe (removeClient s c) (\<lambda>(removed, t). removed \<and> taken_out s c t)"
proof -
  obtain n where n: "(n, c) \<in> set (m_clients s)" using assms(2) by (auto simp: connected_def)
  note gn = sv_invD(3) [OF assms(1) n]
  define t where "t = s\<lparr>m_clients := sm_erase (<) n (m_clients s), m_clientSet := removeAll c (m_clientSet s)\<rparr>"
  have k: "getName t = getName s" "alive t = alive s" by (simp_all add: t_def getName_def deref_def alive_def fun_eq_iff)
  have e: "set (m_clients t) = {(j, v) \<in> set (m_clients s). v \<noteq> c}"
  proof -
    have "sm_equiv (<) n j \<longleftrightarrow> v = c" if "(j, v) \<in> set (m_clients s)" for j v
    proof
      assume "sm_equiv (<) n j"
      then have "(j, c) \<in> set (m_clients s)" "j = n" using n by (auto simp: sm_equiv_def)
      then show "v = c" using cl.find_member [of "m_clients s" j v j] cl.find_member [of "m_clients s" j c j]
          sv_invD(1) [OF assms(1)] that by (auto simp: sm_equiv_def)
    next
      assume "v = c"
      then show "sm_equiv (<) n j" using sv_invD(3) [OF assms(1) that] gn by (simp add: sm_equiv_def)
    qed
    then show ?thesis by (auto simp: t_def sm_erase_set)
  qed
  have con: "connected t d \<longleftrightarrow> d \<noteq> c \<and> connected s d" for d by (force simp: connected_def e)
  have "sm_wf (<) (m_clients t)" using sv_invD(1) [OF assms(1)] by (simp add: t_def sm_wf_erase)
  moreover have "snd ` set (m_clients t) = set (m_clientSet t)"
    using sv_invD(2) [OF assms(1)] unfolding e by (force simp: t_def)
  moreover have "\<forall>(m, d) \<in> set (m_clients t). getName t d = Inr m" using sv_invD(3) [OF assms(1)] by (auto simp: e k)
  ultimately have "apart t c"
    unfolding apart_def con k using assms(1,3) by (auto simp: t_def sv_inv_def pending_ok_def)
  moreover have "removeClient s c = Inr (True, t)"
    using invD(8) [OF assms(1)] assms(2) gn by (simp add: removeClient_def t_def)
  ultimately show ?thesis by (simp add: taken_out_def con k) (simp add: t_def)
qed

lemma removeClient_taken_out:
  assumes "sv_inv s" "c \<noteq> m_primaryClient s"
  shows "safe (removeClient s c) (\<lambda>(removed, t). (removed \<longleftrightarrow> connected s c) \<and> taken_out s c t)"
proof (cases "connected s c")
  case True
  show ?thesis by (rule safe_mono [OF removeClient_connected [OF assms(1) True assms(2)]]) (auto simp: True)
next
  case False
  then have "removeClient s c = Inr (False, s)" using invD(8) [OF assms(1)] by (simp add: removeClient_def)
  then show ?thesis using inv_apart(1) [OF assms(1) False] False by (auto simp: taken_out_def)
qed

lemma emitActive_full: "full (emitActiveClientRemovalEvents s n r b) = full s"
  by (simp add: emitActiveClientRemovalEvents_def Let_def case_prod_beta split: option.split)

lemma taken_out_leave:
  assumes "taken_out s c t" "clean_leave s c" "full u = full t"
  shows "safe (forceLeaveClient env u c) (\<lambda>v. left_ok u c v \<and> \<not> connected v c)"
proof (rule safe_mono [OF forceLeaveClient_inv])
  show a: "apart u c" using apart_full [OF _ assms(3)] assms(1) by (simp add: taken_out_def)
  show "clean_leave u c" using clean_leave_full [OF assms(3)] clean_leave_cong [of t s c] assms(1,2)
    by (simp add: taken_out_def)
  show "left_ok u c v \<and> \<not> connected v c" if "left_ok u c v" for v using that a by (simp add: left_ok_def apart_def)
qed

lemma removeActiveClient_inv:
  assumes "sv_inv s" "alive s c" "c \<noteq> m_primaryClient s" "connected s c \<Longrightarrow> clean_leave s c"
  shows "safe (removeActiveClient env s c) (\<lambda>t. sv_inv t \<and> \<not> connected t c)"
proof (cases "connected s c")
  case False
  then have "removeClient s c = Inr (False, s)" using invD(8) [OF assms(1)] by (simp add: removeClient_def)
  moreover have "sv_inv (emitActiveClientRemovalEvents s n r b)" "\<not> connected (emitActiveClientRemovalEvents s n r b) c" for n r b
    using False inv_full [OF assms(1) emitActive_full] connected_refs [OF fullD(1) [OF emitActive_full [of s n r b]]] by simp_all
  ultimately show ?thesis by (simp add: removeActiveClient_def safe_getName [OF assms(2)])
next
  case True
  have "safe (forceLeaveClient env (emitActiveClientRemovalEvents t n r b) c) (\<lambda>t. sv_inv t \<and> \<not> connected t c)"
    if "taken_out s c t" for t n r b
    by (rule safe_mono [OF taken_out_leave [OF that assms(4) [OF True] emitActive_full]]) (auto simp: left_ok_def)
  then show ?thesis unfolding removeActiveClient_def
    by (auto simp: Let_def True intro!: safe_getName [OF assms(2)] safe_mono [OF removeClient_taken_out [OF assms(1,3)]])
qed

lemma handle_client_disconnected_inv:
  assumes "sv_inv s" "alive s c" "c \<noteq> m_primaryClient s" "connected s c \<Longrightarrow> clean_leave s c"
  shows "safe (handle_client_disconnected env s c) sv_inv"
  unfolding handle_client_disconnected_def safe_simps
  by (rule safe_mono [OF removeActiveClient_inv [OF assms]]) (auto intro!: inv_delete simp: removeOldClient_inv)

lemma close_timeout_inv:
  assumes "sv_inv s" "c \<in> set (m_oldClients s)"
  shows "safe (handle_client_close_timeout s c) sv_inv"
proof -
  have "alive s c" using sv_invD(5) [OF assms(1)] assms(2) by blast
  moreover have "sv_inv (delete_proxy c (removeOldClient s c))"
    by (rule inv_delete) (use assms in \<open>auto simp: removeOldClient_inv sv_invD(6)\<close>)
  ultimately show ?thesis unfolding handle_client_close_timeout_def by (simp add: safe_getName)
qed

text \<open>Closing a client, connected or not: it is on the list of clients that are being closed.\<close>

definition closed :: "('a, 'r) server \<Rightarrow> cid \<Rightarrow> ('a, 'r) server \<Rightarrow> bool" where
  "closed s c t \<longleftrightarrow> sv_inv t \<and> (\<forall>d. connected t d \<longleftrightarrow> d \<noteq> c \<and> connected s d) \<and> m_primaryClient t = m_primaryClient s \<and>
     (\<forall>d. d \<noteq> c \<and> d \<noteq> m_primaryClient s \<and> clean_leave s d \<longrightarrow> clean_leave t d)"

lemma old_simps:
  "getName (t\<lparr>m_oldClients := l\<rparr>) = getName t" "alive (t\<lparr>m_oldClients := l\<rparr>) = alive t"
  "connected (t\<lparr>m_oldClients := l\<rparr>) = connected t" "clean_leave (t\<lparr>m_oldClients := l\<rparr>) = clean_leave t"
  by (simp_all add: getName_def deref_def alive_def connected_def clean_leave_def leaves_def fun_eq_iff split: option.split)

lemma apart_old: "apart t c \<Longrightarrow> alive t c \<Longrightarrow> apart (t\<lparr>m_oldClients := List.insert c (m_oldClients t)\<rparr>) c"
  unfolding apart_def by (simp add: old_simps)

lemma closeClient_inv:
  assumes "sv_inv s" "alive s c" "c \<noteq> m_primaryClient s" "clean_leave s c"
  shows "safe (closeClient env s c) (closed s c)"
proof -
  let ?s = "emit (StartCloseTimer c) (emit (Call c Flush) s)"
  have f: "full ?s = full s" by simp
  note i = inv_full [OF assms(1) f]
  have go: "safe (forceLeaveClient env (u\<lparr>m_oldClients := List.insert c (m_oldClients u)\<rparr>) c) (closed s c)"
    if "taken_out ?s c t" "full u = full t" for t u
  proof (rule safe_mono [OF forceLeaveClient_inv])
    let ?u = "u\<lparr>m_oldClients := List.insert c (m_oldClients u)\<rparr>"
    have t: "apart t c" "m_active t = m_active s" "m_activeSaver t = m_activeSaver s" "m_switchScreen t = m_switchScreen s"
      "alive t = alive s" "m_primaryClient t = m_primaryClient s" "\<And>d. connected t d \<longleftrightarrow> d \<noteq> c \<and> connected s d"
      using that(1) fullD [OF f] refsD [OF fullD(1) [OF f]] connected_refs [OF fullD(1) [OF f]] by (auto simp: taken_out_def)
    have cl: "clean_leave ?u d = clean_leave s d" for d
      using clean_leave_full [OF that(2)] clean_leave_cong [OF t(2-4)] by (simp add: old_simps)
    have u: "connected u = connected t" "m_primaryClient u = m_primaryClient t"
      using connected_refs [OF fullD(1) [OF that(2)]] fullD(7) [OF that(2)] by simp_all
    show "apart ?u c" using apart_old [OF apart_full [OF t(1) that(2)]] fullD(5) [OF that(2)] t(5) assms(2) by simp
    show "clean_leave ?u c" using cl assms(4) by simp
    fix v assume "left_ok ?u c v"
    then show "closed s c v" using cl t(6,7) u by (simp add: left_ok_def closed_def old_simps)
  qed
  show ?thesis using assms(2,3) refsD(1) [OF fullD(1) [OF f]] go [OF _ emitActive_full] unfolding closeClient_def
    by (auto simp: Let_def intro!: safe_assert safe_call safe_getName safe_mono [OF removeClient_taken_out [OF i]])
qed

text \<open>The invariant, for a server whose own screen is \<open>p\<close>.\<close>

definition serves :: "cid \<Rightarrow> ('a, 'r) server \<Rightarrow> bool" where
  "serves p s \<longleftrightarrow> sv_inv s \<and> m_primaryClient s = p"

lemma serves_keeps: "serves p s \<Longrightarrow> keeps s t \<Longrightarrow> serves p t"
  using refsD(1) [of t s] by (simp add: serves_def keeps_def)

lemma serves_full: "serves p s \<Longrightarrow> full t = full s \<Longrightarrow> serves p t"
  using keeps_full serves_keeps serves_def by metis

lemma close_all_inv:
  assumes "serves p s" "distinct cs" "\<forall>c \<in> set cs. connected s c \<and> c \<noteq> p \<and> clean_leave s c"
  shows "safe (close_all env s cs) (serves p)"
  using assms
proof (induction cs arbitrary: s)
  case (Cons c cs)
  have "safe (closeClient env s c) (\<lambda>t. safe (close_all env t cs) (serves p))"
  proof (rule safe_mono [OF closeClient_inv])
    show "sv_inv s" "alive s c" "c \<noteq> m_primaryClient s" "clean_leave s c"
      using Cons.prems invD(5) by (auto simp: serves_def)
    show "safe (close_all env t cs) (serves p)" if "closed s c t" for t
      by (rule Cons.IH) (use Cons.prems that in \<open>auto simp: closed_def serves_def\<close>)
  qed
  then show ?case by simp
qed simp

text \<open>The clients that are dropped leave cleanly.\<close>

definition drops_cleanly :: "('a, 'r) server \<Rightarrow> ('a, 'r) config \<Rightarrow> bool" where
  "drops_cleanly s config \<longleftrightarrow>
     (\<forall>(n, c) \<in> set (m_clients s). isCanonicalName config n \<or> c = m_primaryClient s \<or> clean_leave s c)"

lemma closeClients_inv:
  assumes "serves p s" "drops_cleanly s config"
  shows "safe (closeClients env s config) (serves p)"
  unfolding closeClients_def
  by (rule close_all_inv [OF assms(1)])
     (use assms in \<open>auto simp: drops_cleanly_def connected_def serves_def intro!: image_eqI\<close>)

lemma sendOptions_full: "alive s c \<Longrightarrow> safe (sendOptions s c) (\<lambda>s'. full s' = full s)"
  by (simp add: sendOptions_def Let_def safe_getName safe_call)

lemma sendOptions_keeps: "sv_inv s \<Longrightarrow> connected s c \<Longrightarrow> safe (sendOptions s c) (keeps s)"
  by (rule safe_mono [OF sendOptions_full keeps_full]) (simp_all add: invD(5))

lemma adoptClient_inv:
  assumes "sv_inv s" "alive s c" "\<not> connected s c" "c \<notin> set (m_oldClients s)"
  shows "safe (adoptClient env s c) sv_inv"
proof -
  have "c \<noteq> m_primaryClient s" using assms(3) invD(7) [OF assms(1)] by blast
  then have close: "safe (closeClient env s c) sv_inv"
    by (rule safe_mono [OF closeClient_inv [OF assms(1,2) _ inv_apart(2) [OF assms(1,3)]]]) (simp_all add: closed_def)
  define greet where "greet t = and_then (sendOptions t c) (\<lambda>s.
      and_then (if m_activeSaver s \<noteq> None then call s c (Screensaver True) else Inr s) (\<lambda>s.
      and_then (getName s c) (\<lambda>n. Inr (emit (Post (ServerConnected n)) s))))" for t :: "('a, 'b) server"
  have greet: "safe (greet t) sv_inv" if "sv_inv t" "connected t c" for t
    unfolding greet_def safe_simps
  proof (rule safe_mono [OF sendOptions_keeps [OF that]])
    fix u assume u: "keeps t u"
    then have c: "sv_inv u" "connected u c" using that connected_refs [of u t] by (auto simp: keeps_def)
    have "safe (getName v c) (\<lambda>n. sv_inv (emit (Post (ServerConnected n)) v))" if "keeps u v" for v
      using that c connected_refs [of v u] inv_full [OF _ full_emit]
      by (auto simp: keeps_def intro!: safe_getName invD(5))
    moreover have "keeps u u" using c by (simp add: keeps_def)
    ultimately show "safe (if m_activeSaver u \<noteq> None then call u c (Screensaver True) else Inr u)
      (\<lambda>s. safe (getName s c) (\<lambda>n. sv_inv (emit (Post (ServerConnected n)) s)))"
      using safe_mono [OF call_keeps [OF c]] by simp
  qed
  have "safe (addClient s c) (\<lambda>q. safe (if \<not> fst q then closeClient env (snd q) c else greet (snd q)) sv_inv)"
    by (rule safe_mono [OF addClient_inv [OF assms]]) (use close greet in \<open>auto split: if_splits\<close>)
  then show ?thesis using close unfolding adoptClient_def greet_def [symmetric]
    by (auto simp: case_prod_beta intro!: safe_deref [OF assms(2)])
qed

subsection \<open>Options and reconfiguration\<close>

lemma processOption_steady:
  assumes "pending_ok s"
  shows "steady s (fst (processOption (s, b) iv))"
proof -
  have "steady s (stopSwitchWait (s\<lparr>m_switchWaitDelay := d\<rparr>))" "steady s (stopSwitchTwoTap (s\<lparr>m_switchTwoTapDelay := d\<rparr>))" for d
    using assms by (auto simp: stopSwitchWait_def stopSwitchTwoTap_def steady_defs emit_def)
  moreover have "steady s t" if "full t = full s" for t using steady_full [OF assms that] .
  ultimately show ?thesis using assms by (simp add: processOption_def Let_def case_prod_beta)
qed

lemma processOptions_fold: "pending_ok s \<Longrightarrow> steady s (fst (foldl processOption (s, b) os))"
proof (induction os arbitrary: s b)
  case (Cons iv os)
  obtain t c where t: "processOption (s, b) iv = (t, c)" by force
  have "steady s t" using processOption_steady [OF Cons.prems, of b iv] t by simp
  with Cons.IH [OF steady_refs(3) [OF this]] show ?case by (auto simp: t intro: steady_trans)
qed (simp add: steady_def)

lemma processOptions_keeps:
  assumes "sv_inv s"
  shows "safe (processOptions s) (keeps s)"
proof (cases "getOptions (m_config s) []")
  case None
  then show ?thesis by (simp add: processOptions_def keeps_def assms)
next
  case (Some os)
  let ?s = "s\<lparr>m_switchNeedsShift := False, m_switchNeedsControl := False, m_switchNeedsAlt := False\<rparr>"
  obtain t b where t: "foldl processOption (?s, m_relativeMoves ?s) os = (t, b)" by force
  have f: "full ?s = full s" by simp
  have "steady ?s t" using processOptions_fold [of ?s "m_relativeMoves ?s" os] invD(4) [OF inv_full [OF assms f]] t by simp
  then have k: "keeps s t" using keeps_steady [OF inv_full [OF assms f]] keeps_full [OF assms f] by (blast intro: keeps_trans)
  have r: "safe (if m_relativeMoves t \<and> \<not> b then stopRelativeMoves t else Inr t) (\<lambda>u. full u = full t)"
    using stopRelativeMoves_full [OF invD(3) [OF keeps_inv [OF k]]] by simp
  have "keeps s (u\<lparr>m_relativeMoves := b\<rparr>)" if "full u = full t" for u
    using keeps_trans [OF k] keeps_full [OF keeps_inv [OF k], of "u\<lparr>m_relativeMoves := b\<rparr>"] that by simp
  from safe_mono [OF r this] show ?thesis using Some t by (simp add: processOptions_def Let_def)
qed

text \<open>A new configuration keeps the names of the connected clients.\<close>

definition same_names :: "('a, 'r) server \<Rightarrow> ('a, 'r) config \<Rightarrow> bool" where
  "same_names s config \<longleftrightarrow> (\<forall>(n, c) \<in> set (m_clients s). getName (s\<lparr>m_config := config\<rparr>) c = Inr n)"

lemma inv_config:
  assumes "sv_inv s" "same_names s config"
  shows "sv_inv (s\<lparr>m_config := config\<rparr>)"
  using assms by (auto simp: sv_inv_def same_names_def connected_def pending_ok_def alive_def)

lemma setConfig_inv:
  fixes s :: "('a, 'r) server"
  assumes "serves p s" "same_names s config" "drops_cleanly s config"
  shows "safe (setConfig env s config) (\<lambda>q. serves p (snd q))"
proof -
  let ?s = "s\<lparr>m_config := config\<rparr>"
  have i: "serves p ?s" using inv_config [of s config] assms(1,2) by (simp add: serves_def)
  have "clean_leave ?s c = clean_leave s c" for c by (rule clean_leave_cong) simp_all
  then have d: "drops_cleanly ?s config" using assms(3) by (simp add: drops_cleanly_def)
  have clients: "safe (for_clients sendOptions t (m_clients t)) (serves p)" if "serves p t" for t :: "('a, 'r) server"
    by (rule safe_mono [OF for_clients_full serves_full])
       (use that invD(1) [of t] sendOptions_full in \<open>auto simp: clients_alive_def serves_def\<close>)
  have rec: "safe (reconfigure t) (\<lambda>t. safe (for_clients sendOptions t (m_clients t)) (serves p))"
    if "serves p t" for t :: "('a, 'r) server"
    by (rule safe_mono [OF reconfigure_keeps]) (use that serves_keeps [OF that] clients in \<open>auto simp: serves_def\<close>)
  have lock: "serves p (if b then emit AddLockToScreenRule t else t)" if "serves p t" for b and t :: "('a, 'r) server"
    using that serves_full [OF that full_emit] by simp
  have opt: "safe (processOptions t) (\<lambda>t. safe (reconfigure (if \<not> cfg_hasLockToScreenAction (m_config t) then emit AddLockToScreenRule t else t))
      (\<lambda>t. safe (for_clients sendOptions t (m_clients t)) (serves p)))" if "serves p t" for t :: "('a, 'r) server"
    by (rule safe_mono [OF processOptions_keeps rec [OF lock [OF serves_keeps [OF that]]]]) (use that in \<open>simp_all add: serves_def\<close>)
  note go = safe_mono [OF closeClients_inv [OF i d] opt]
  have "alive s (m_primaryClient s)" using assms(1) invD(2) by (auto simp: serves_def)
  from go i show ?thesis unfolding setConfig_def Let_def
    by (auto intro!: safe_deref [OF \<open>alive s (m_primaryClient s)\<close>])
qed

lemma sv_disconnect_inv:
  assumes "serves p s" "drops_cleanly s (Config_new addr)"
  shows "safe (sv_disconnect env s addr) (serves p)"
  using closeClients_inv [OF assms] serves_full [OF assms(1) full_emit] by (simp add: sv_disconnect_def)

end
