(* ===== verification/ServerRuns.thy ===== *)
theory ServerRuns
  imports ServerClients
begin

text \<open>
  The server as a state machine over its inputs. \<open>orderly\<close> states what the caller owes it: memory is not reused
  while it is in use, a timer fires only while it runs, and a client that disconnects leaves cleanly. Every state
  that orderly inputs lead to satisfies the invariant, and no input uses a deleted proxy there. The last part shows
  runs in which a client does not leave cleanly and the server uses a deleted proxy.
\<close>

subsection \<open>The constructor\<close>

lemma first_client_inv:
  assumes "getName s p = Inr n" "m_clients s = [(n, p)]" "m_clientSet s = [p]" "m_oldClients s = []"
    and "m_primaryClient s = p" "m_active s = p" "m_activeSaver s = None" "m_switchScreen s = None" "\<not> m_switchWaitTimer s"
  shows "sv_inv s"
  using assms by (simp add: sv_inv_def connected_def pending_ok_def sm_wf_def)

lemma add_first_inv:
  assumes "m_clients s = []" "m_clientSet s = []" "m_oldClients s = []" "m_primaryClient s = p" "m_active s = p"
    and "m_activeSaver s = None" "m_switchScreen s = None" "\<not> m_switchWaitTimer s" "alive s p"
  shows "safe (addClient s p) (\<lambda>q. serves p (snd q) \<and> snd ` set (m_clients (snd q)) = {p} \<and>
    m_config (snd q) = m_config s)"
proof -
  obtain n where n: "getName s p = Inr n" using assms(9) by (auto simp: getName_def deref_def alive_def Let_def)
  define t where "t = s\<lparr>m_clientSet := [p], m_clients := [(n, p)]\<rparr>"
  have gn: "getName t = getName s" by (simp add: t_def getName_def deref_def fun_eq_iff)
  have i: "sv_inv t" by (rule first_client_inv [of _ p n]) (use assms n gn in \<open>simp_all add: t_def\<close>)
  have fin: "serves p v \<and> snd ` set (m_clients v) = {p} \<and> m_config v = m_config s"
    if "full v = full t" for v using inv_full [OF i that] fullD(6-8) [OF that] assms(4) by (simp add: t_def serves_def)
  have a: "alive t p" using assms(9) by (simp add: t_def alive_def)
  have "safe (setJumpCursorPos t p x y) (\<lambda>u. safe (reconfigure u) (\<lambda>v. serves p v \<and> snd ` set (m_clients v) = {p} \<and>
      m_config v = m_config s))" for x y
  proof (rule safe_mono [OF setJumpCursorPos_full [OF a]])
    fix u assume u: "full u = full t"
    show "safe (reconfigure u) (\<lambda>v. serves p v \<and> snd ` set (m_clients v) = {p} \<and> m_config v = m_config s)"
      by (rule safe_mono [OF reconfigure_full [OF invD(2) [OF inv_full [OF i u]]] fin]) (simp add: u)
  qed
  then show ?thesis using n assms(1,2)
    by (auto simp: addClient_def t_def [symmetric] intro!: safe_getCursorPos [OF a])
qed

lemma Server_new_inv:
  assumes "heap primary \<noteq> None"
  shows "safe (Server_new env u heap primary config dragDrop) sv_inv"
proof -
  let ?m = "server_members u heap primary config dragDrop []"
  have al: "alive (?m\<lparr>m_clipboards := l\<rparr>) primary" "alive ?m primary" for l
    using assms by (simp_all add: server_members_def alive_def)
  let ?lock = "ev_toggleMask env AND KeyModifierScrollLock"
  let ?done = "\<lambda>t. (?lock \<noteq> 0 \<longrightarrow> sv_inv (t\<lparr>m_lockedToScreen := True\<rparr>)) \<and> (?lock = 0 \<longrightarrow> sv_inv t)"
  have enable: "safe (call t primary Enable) ?done" if "serves primary t" for t
    using that invD(2) [of t] inv_full [of t] by (auto simp: serves_def intro!: safe_call)
  have conf: "safe (setConfig env s config) (\<lambda>q. safe (call (snd q) primary Enable) ?done)"
    if "serves primary s \<and> snd ` set (m_clients s) = {primary} \<and> m_config s = config" for s
  proof (rule safe_mono [OF setConfig_inv [of primary]])
    show "serves primary s" using that by simp
    have "s\<lparr>m_config := config\<rparr> = s" using that by auto
    then show "same_names s config" using that sv_invD(3) [of s] by (auto simp: same_names_def serves_def)
    show "drops_cleanly s config" using that by (force simp: drops_cleanly_def serves_def)
  qed (simp add: enable)
  have first: "safe (addClient (?m\<lparr>m_clipboards := l\<rparr>) primary) (\<lambda>q. safe (setConfig env (snd q) config)
      (\<lambda>q. safe (call (snd q) primary Enable) ?done))" for l
    by (rule safe_mono [OF add_first_inv]) (use al in \<open>auto intro!: conf simp: server_members_def\<close>)
  have info: "safe (new_clip_info env n) P" if "\<And>ci. P ci" for n P
    using that by (auto simp: new_clip_info_def case_prod_beta intro!: safe_lift_clipI safe_open safe_marshall)
  show ?thesis unfolding Server_new_def Let_def
    by (auto simp: case_prod_beta first intro!: safe_deref [OF al(2)] safe_assert safe_getName [OF al(2)] info)
qed

subsection \<open>Runs\<close>

text \<open>What is owed to the server by whoever delivers an input.\<close>

fun orderly :: "('a, 'r) server \<Rightarrow> server_input \<Rightarrow> bool" where
  "orderly s (NewClient c p) = (m_proxies s c = None)"
| "orderly s (ClientDisconnected c) = (alive s c \<and> c \<noteq> m_primaryClient s \<and> (connected s c \<longrightarrow> clean_leave s c))"
| "orderly s (ClientCloseTimeout c) = (c \<in> set (m_oldClients s))"
| "orderly s SwitchWait = m_switchWaitTimer s"
| "orderly s (ClientInfo c sh mx my) = alive s c"
| "orderly s i = True"

lemma store_info_full: "alive s c \<Longrightarrow> safe (store_info s c sh mx my) (\<lambda>t. full t = full s)"
  by (auto simp: store_info_def intro!: safe_deref dest: names_known)

lemma keeps_safe: "safe r (keeps s) \<Longrightarrow> safe r sv_inv"
  by (erule safe_mono) (simp add: keeps_def)

lemma switch_to_screen_inv:
  assumes "sv_inv s"
  shows "safe (handle_switch_to_screen_event env s n) sv_inv"
  using keeps_safe [OF jumpToScreen_keeps [OF assms find_client_connected]] assms
  by (auto simp: handle_switch_to_screen_event_def split: option.split)

lemma broadcast_inv: "sv_inv s \<Longrightarrow> sv_inv (handle_keyboard_broadcast_event s st scr)"
  using inv_full [of s] by (auto simp: handle_keyboard_broadcast_event_def Let_def)

lemma new_client_inv: "sv_inv s \<Longrightarrow> m_proxies s c = None \<Longrightarrow> safe (adoptClient env (set_proxy c p s) c) sv_inv"
  by (rule adoptClient_inv) (use inv_new_proxy [of s c p] in auto)

lemmas keeps_invs = call_keeps [THEN keeps_safe] onMouseMoveSecondary_keeps [THEN keeps_safe] relay_key_keeps [THEN keeps_safe]
  onMouseDown_keeps [THEN keeps_safe] onMouseUp_keeps [THEN keeps_safe] handle_switch_wait_keeps [THEN keeps_safe]
  handle_toggle_screen_keeps [THEN keeps_safe] handle_switch_in_direction_keeps [THEN keeps_safe]
  handle_lock_cursor_keeps [THEN keeps_safe] handle_clipboard_grabbed_keeps [THEN keeps_safe]
  handle_clipboard_changed_keeps [THEN keeps_safe]

lemma handle_inv:
  assumes "sv_inv s" "orderly s i"
  shows "safe (handle env i s) sv_inv"
proof (cases i)
  case (MotionPrimary x y)
  then show ?thesis using onMouseMovePrimary_keeps [OF assms(1), of env x y]
    by (auto simp: case_prod_beta keeps_def elim!: safe_mono)
next
  case (ClientInfo c sh mx my)
  then show ?thesis using safe_mono [OF store_info_full inv_full [OF assms(1)]] assms(2) by simp
qed (use assms invD(6,7) [OF assms(1)] in \<open>simp_all add: keeps_invs onKeyDown_def onKeyUp_def onKeyRepeat_def onMouseWheel_def
    on_file_chunk_sending_def handle_fake_input_begin_event_def handle_fake_input_end_event_def onScreensaver_inv
    switch_to_screen_inv broadcast_inv handle_shape_changed_inv new_client_inv handle_client_disconnected_inv
    close_timeout_inv\<close>)

text \<open>
  The states of a server: as constructed, after an input, after its configuration was replaced by one that keeps
  the names of the connected clients, and after it was told to disconnect all of them.
\<close>

inductive sv_reach :: "('a, 'r) server \<Rightarrow> bool" where
  start: "Server_new env u heap primary config dragDrop = Inr s \<Longrightarrow> sv_reach s"
| input: "sv_reach s \<Longrightarrow> orderly s i \<Longrightarrow> handle env i s = Inr t \<Longrightarrow> sv_reach t"
| config: "sv_reach s \<Longrightarrow> same_names s config \<Longrightarrow> drops_cleanly s config \<Longrightarrow> setConfig env s config = Inr (b, t) \<Longrightarrow>
    sv_reach t"
| disconnect: "sv_reach s \<Longrightarrow> drops_cleanly s (Config_new addr) \<Longrightarrow> sv_disconnect env s addr = Inr t \<Longrightarrow> sv_reach t"

lemma reach_inv: "sv_reach s \<Longrightarrow> sv_inv s"
proof (induction rule: sv_reach.induct)
  case (start env u heap primary config dragDrop s)
  then have "heap primary \<noteq> None" by (cases "heap primary") (auto simp: Server_new_def server_members_def deref_def Let_def)
  from Server_new_inv [of heap primary env u config dragDrop, OF this] start show ?case by (metis safe_simps(1))
next
  case (input s i env t)
  with handle_inv [of s i env] show ?case by simp
next
  case (config s config env b t)
  with setConfig_inv [of "m_primaryClient s" s config env] show ?case by (simp add: serves_def)
next
  case (disconnect s addr env t)
  with sv_disconnect_inv [of "m_primaryClient s" s addr env] show ?case by (simp add: serves_def)
qed

lemma pair_facts:
  "isScreen pair_config ''desk''" "getCanonicalName pair_config ''desk'' = ''desk''"
  "getCanonicalName pair_config ''pc'' = ''pc''" "isCanonicalName pair_config ''desk''"
  "getOptions pair_config [] = Some []" "getOptions pair_config ''desk'' = Some []"
  "cfg_hasLockToScreenAction pair_config = False"
  "hasNeighbor pair_config ''desk'' kLeft 0 1 = Some False" "hasNeighbor pair_config ''desk'' kRight 0 1 = Some True"
  "hasNeighbor pair_config ''desk'' kTop 0 1 = Some False" "hasNeighbor pair_config ''desk'' kBottom 0 1 = Some False"
  by code_simp+

lemma new_clip_info_returns: "\<exists>ci. new_clip_info sample_env n = Inr ci"
proof -
  have "(case new_clip_info sample_env n of Inl _ \<Rightarrow> False | Inr _ \<Rightarrow> True)" by code_simp
  then show ?thesis by (cases "new_clip_info sample_env n") auto
qed

lemmas reconfigure_eval = reconfigure_def getActivePrimarySides_def isLockedToScreenServer_def add_side_def hasAnyNeighbor_def
  call_def emit_def

lemma sample_start: "\<exists>s. Server_new sample_env 10 sample_heap 0 pair_config False = Inr s"
  using new_clip_info_returns [of "''desk''"]
  by (auto simp: Server_new_def Let_def server_members_def deref_def sample_heap_def sample_proxy_def getName_def pair_facts sv_assert_def
     addClient_def getCursorPos_def setJumpCursorPos_def set_proxy_def reconfigure_eval setConfig_def closeClients_def processOptions_def sendOptions_def)

text \<open>
  C11. Whatever the order in which clients connect and disconnect, the screen saver starts and stops, the pointer
  moves and the configuration is reloaded, every proxy the server refers to exists: those in its table of
  clients, each entered under its name, its own screen, the active screen, the one the screen saver interrupted
  and the one it waits to switch to.
\<close>

theorem reachable_references:
  assumes "sv_reach s"
  shows "(\<forall>(n, c) \<in> set (m_clients s). getName s c = Inr n) \<and> connected s (m_primaryClient s) \<and>
    connected s (m_active s) \<and> (\<forall>c. m_activeSaver s = Some c \<or> m_switchScreen s = Some c \<longrightarrow> connected s c) \<and>
    (\<forall>c. connected s c \<or> c \<in> set (m_oldClients s) \<longrightarrow> alive s c)"
  using reach_inv [OF assms] invD(4-7) [OF reach_inv [OF assms]] by (auto simp: sv_inv_def pending_ok_def)

theorem reachable_references_witness:
  "\<exists>s :: (unit, unit) server. sv_reach s \<and> connected s (m_active s) \<and> alive s (m_active s)"
proof -
  obtain s where s: "Server_new sample_env 10 sample_heap 0 pair_config False = Inr s" using sample_start by blast
  show ?thesis using reachable_references [OF sv_reach.start [OF s]] sv_reach.start [OF s] by blast
qed

text \<open>
  C2. No orderly input makes the server use a proxy that has been deleted, in any state that orderly inputs, orderly
  replacements of the configuration and \<open>disconnect\<close> lead to. An input is orderly if, when a connected client
  disconnects, the server is on its screen or neither is there nor waits to switch there; a replacement
  of the configuration, and \<open>disconnect\<close>, if the clients it drops leave in that way, and the replacement if it keeps the
  names of the connected clients. Without these conditions the theorem fails: see \<open>wait_for_lost_client\<close> and
  \<open>renamed_client_dangles\<close>.
\<close>

theorem server_memory_safe:
  assumes "sv_reach s" "orderly s i"
  shows "handle env i s \<noteq> Inl DanglingPointer"
  using handle_inv [OF reach_inv [OF assms(1)] assms(2), of env] by auto

theorem server_memory_safe_witness:
  "\<exists>s :: (unit, unit) server. sv_reach s \<and> handle sample_env (MotionPrimary 99 5) s \<noteq> Inl DanglingPointer"
proof -
  obtain s :: "(unit, unit) server" where "sv_reach s" using sample_start sv_reach.start by blast
  then show ?thesis using server_memory_safe [of s "MotionPrimary 99 5" sample_env] by auto
qed

subsection \<open>Clients that do not leave cleanly\<close>

lemma call_emits: "call s c m = Inr t \<Longrightarrow> t = emit (Call c m) s"
  by (cases "m_proxies s c") (auto simp: call_def deref_def)

lemma reconfigure_emits: "reconfigure s = Inr t \<Longrightarrow> \<exists>a. t = emit a s"
  by (auto simp: reconfigure_def dest!: call_emits)

lemma forceLeaveClient_elsewhere:
  assumes "\<not> leaves s c" "forceLeaveClient env s c = Inr t"
  shows "\<exists>a. t = emit a s"
  using assms reconfigure_emits by (auto simp: forceLeaveClient_def leaves_def Let_def split: if_splits)

lemma emit_keeps:
  "m_clients (emit a s) = m_clients s" "m_oldClients (emit a s) = m_oldClients s" "m_activeSaver (emit a s) = m_activeSaver s"
  "m_primaryClient (emit a s) = m_primaryClient s" "m_proxies (emit a s) = m_proxies s"
  by (simp_all add: emit_def)

lemma emitActive_emits:
  "m_clients (emitActiveClientRemovalEvents s n r b) = m_clients s"
  "m_oldClients (emitActiveClientRemovalEvents s n r b) = m_oldClients s"
  "m_active (emitActiveClientRemovalEvents s n r b) = m_active s"
  "m_switchScreen (emitActiveClientRemovalEvents s n r b) = m_switchScreen s"
  "leaves (emitActiveClientRemovalEvents s n r b) = leaves s"
  by (simp_all add: emitActiveClientRemovalEvents_def Let_def case_prod_beta emit_keeps leaves_def fun_eq_iff split: option.split)

lemma leaves_table: "leaves (s\<lparr>m_clients := cs, m_clientSet := ds\<rparr>) = leaves s"
  by (simp add: leaves_def fun_eq_iff split: option.split)

text \<open>
  C32. While the server waits to switch to a client, it forgets the target only if the client that
  disconnects is the active one: when the client it waits for disconnects, the timer of the wait makes the server
  use the deleted proxy, in every build, unless the cursor is locked to the screen by then.
\<close>

theorem wait_for_lost_client:
  assumes "c \<in> set (m_clientSet s)" "m_switchScreen s = Some c" "\<not> leaves s c"
    and "handle env (ClientDisconnected c) s = Inr t" "\<not> isLockedToScreen env' t"
  shows "handle env' SwitchWait t = Inl DanglingPointer"
proof -
  obtain n v where v: "forceLeaveClient env (emitActiveClientRemovalEvents (s\<lparr>m_clients := sm_erase (<) n (m_clients s),
        m_clientSet := removeAll c (m_clientSet s)\<rparr>) n True True) c = Inr v"
    and t: "t = delete_proxy c (removeOldClient v c)"
    using assms(1,4) by (auto simp: handle_client_disconnected_def removeActiveClient_def removeClient_def Let_def)
  have "m_switchScreen v = Some c"
    using forceLeaveClient_elsewhere [OF _ v] assms(2,3) by (auto simp: emitActive_emits leaves_table)
  then have "m_switchScreen t = Some c" "m_proxies t c = None"
    by (simp_all add: t removeOldClient_def delete_proxy_def Let_def)
  then show ?thesis using assms(5)
    by (simp add: handle_switch_wait_event_def switchScreen_def getShape_def getName_def deref_def Let_def split: option.split)
qed

lemma sample_erase: "sm_erase (<) ''pc'' [(''desk'', 0), (''pc'', Suc 0)] = [(''desk'', 0)]"
  by code_simp

lemma sample_waits: "case handle sample_env (ClientDisconnected 1) (sample_server\<lparr>m_switchScreen := Some 1\<rparr>) of
    Inl _ \<Rightarrow> False | Inr t \<Rightarrow> \<not> isLockedToScreen sample_env t"
  by (simp add: handle_client_disconnected_def removeActiveClient_def removeClient_def sample_server_def server_members_def
      sample_heap_def sample_proxy_def getName_def deref_def pair_facts sample_erase emitActiveClientRemovalEvents_def activeClientRemoved_def
      forceLeaveClient_def reconfigure_eval removeOldClient_def delete_proxy_def isLockedToScreen_def sample_env_def Let_def)

theorem wait_for_lost_client_witness:
  "\<exists>t. handle sample_env (ClientDisconnected 1) (sample_server\<lparr>m_switchScreen := Some 1\<rparr>) = Inr t \<and>
    handle sample_env SwitchWait t = Inl DanglingPointer"
proof -
  obtain t where t: "handle sample_env (ClientDisconnected 1) (sample_server\<lparr>m_switchScreen := Some 1\<rparr>) = Inr t"
    "\<not> isLockedToScreen sample_env t" using sample_waits by (auto split: sum.splits)
  have "handle sample_env SwitchWait t = Inl DanglingPointer"
    by (rule wait_for_lost_client [OF _ _ _ t(1,2)])
       (simp_all add: sample_server_def server_members_def leaves_def sample_env_def)
  with t(1) show ?thesis by blast
qed

lemma forceLeaveClient_tables:
  assumes "forceLeaveClient env s c = Inr t"
  shows "m_clients t = m_clients s" "m_oldClients t = m_oldClients s"
proof -
  have r: "m_clients (stopSwitch u) = m_clients u" "m_oldClients (stopSwitch u) = m_oldClients u" for u :: "('a, 'b) server"
    using refsD(3,5) [OF refs_unchanged(3) [of u]] by simp_all
  have j: "m_clients u = m_clients s \<and> m_oldClients u = m_oldClients s" if "jump_off env s c = Inr u" for u
    using that by (auto simp: jump_off_def cut_over_def Let_def r emit_keeps dest!: call_emits split: if_splits)
  show "m_clients t = m_clients s" "m_oldClients t = m_oldClients s"
    using assms j by (auto simp: forceLeaveClient_def Let_def emit_keeps dest!: reconfigure_emits split: if_splits)
qed

text \<open>
  The name under which a client was entered is looked up again when it is closed, in the configuration that has
  just been loaded. If that configuration gives the client another name, the client stays in the table of
  clients, and its entry refers to a deleted proxy once the client has been closed.
\<close>

theorem renamed_client_dangles:
  assumes "(n, c) \<in> set (m_clients s)" "getName s c = Inr m" "m \<noteq> n" "closeClient env s c = Inr t"
    and "handle_client_close_timeout t c = Inr u"
  shows "c \<in> set (m_oldClients t) \<and> (n, c) \<in> set (m_clients u) \<and> \<not> alive u c"
proof -
  let ?s = "emit (StartCloseTimer c) (emit (Call c Flush) s)"
  have g: "getName ?s c = Inr m" using assms(2) by (simp add: getName_def deref_def emit_def)
  obtain v r where v: "removeClient ?s c = Inr (r, v)" and l: "forceLeaveClient env ((emitActiveClientRemovalEvents v m r False)
      \<lparr>m_oldClients := List.insert c (m_oldClients (emitActiveClientRemovalEvents v m r False))\<rparr>) c = Inr t"
    using assms(4) g by (auto simp: closeClient_def Let_def dest!: call_emits)
  have "(n, c) \<in> set (m_clients v)" using v assms(1,3) g
    by (auto simp: removeClient_def sm_erase_set sm_equiv_def emit_keeps split: if_splits)
  then have t: "(n, c) \<in> set (m_clients t)" "c \<in> set (m_oldClients t)"
    using forceLeaveClient_tables [OF l] by (simp_all add: emitActive_emits)
  then show ?thesis using assms(5)
    by (auto simp: handle_client_close_timeout_def delete_proxy_def removeOldClient_def Let_def alive_def emit_keeps)
qed

text \<open>A configuration in which the client's name has become an alias of another screen.\<close>

definition alias_config :: "(unit, unit) config" where
  "alias_config = pair_config\<lparr>cfg_map := [(''desk'', link_cell kRight ''laptop'' kLeft), (''laptop'', link_cell kLeft ''desk'' kRight)],
     cfg_names := [(''desk'', ''desk''), (''laptop'', ''laptop''), (''pc'', ''laptop'')]\<rparr>"

lemma alias_facts:
  "getCanonicalName alias_config ''pc'' = ''laptop''" "getCanonicalName alias_config ''desk'' = ''desk''"
  "hasNeighbor alias_config ''desk'' kLeft 0 1 = Some False" "hasNeighbor alias_config ''desk'' kRight 0 1 = Some True"
  "hasNeighbor alias_config ''desk'' kTop 0 1 = Some False" "hasNeighbor alias_config ''desk'' kBottom 0 1 = Some False"
  "sm_erase (<) ''laptop'' [(''desk'', 0), (''pc'', Suc 0)] = [(''desk'', 0), (''pc'', Suc 0)]"
  by code_simp+

lemma sample_closes: "\<exists>t u. closeClient sample_env (sample_server\<lparr>m_config := alias_config\<rparr>) 1 = Inr t \<and>
  handle_client_close_timeout t 1 = Inr u"
proof -
  have "case closeClient sample_env (sample_server\<lparr>m_config := alias_config\<rparr>) 1 of Inl _ \<Rightarrow> False
      | Inr t \<Rightarrow> (case handle_client_close_timeout t 1 of Inl _ \<Rightarrow> False | Inr u \<Rightarrow> True)"
    by (simp add: handle_client_close_timeout_def closeClient_def removeClient_def sample_server_def server_members_def sv_assert_def
      sample_heap_def sample_proxy_def getName_def deref_def alias_facts emitActiveClientRemovalEvents_def activeClientRemoved_def
      forceLeaveClient_def reconfigure_eval removeOldClient_def delete_proxy_def isLockedToScreen_def sample_env_def Let_def)
  then show ?thesis by (auto split: sum.splits)
qed

theorem renamed_client_dangles_witness:
  "\<exists>t. closeClient sample_env (sample_server\<lparr>m_config := alias_config\<rparr>) 1 = Inr t \<and>
    (\<exists>u. handle_client_close_timeout t 1 = Inr u \<and> (''pc'', 1) \<in> set (m_clients u) \<and> \<not> alive u 1)"
proof -
  obtain t u where t: "closeClient sample_env (sample_server\<lparr>m_config := alias_config\<rparr>) 1 = Inr t"
    "handle_client_close_timeout t 1 = Inr u" using sample_closes by blast
  have "getName (sample_server\<lparr>m_config := alias_config\<rparr>) 1 = Inr ''laptop''"
    by (simp add: getName_def deref_def sample_server_def server_members_def sample_heap_def sample_proxy_def alias_facts)
  from renamed_client_dangles [OF _ this _ t(1,2), of "''pc''"] t show ?thesis
    by (simp add: sample_server_def server_members_def)
qed

end
