(* ===== verification/ServerSwitching.thy ===== *)
theory ServerSwitching
  imports ServerRuns
begin

text \<open>
  What the server does when it switches: a locked pointer stays on its screen, the old screen is left before the
  new one is entered, keys go to the active screen or to the screens a broadcast names, and the clipboard that a
  screen grabs is clean on that screen alone.
\<close>

subsection \<open>Results that are returned\<close>

definition on_ok :: "server_error + 'x \<Rightarrow> ('x \<Rightarrow> bool) \<Rightarrow> bool" where
  "on_ok r P \<longleftrightarrow> (case r of Inl e \<Rightarrow> True | Inr x \<Rightarrow> P x)"

lemma on_ok_simps [simp]:
  "on_ok (Inr x) P = P x" "on_ok (Inl e) P" "on_ok (and_then r k) P = on_ok r (\<lambda>x. on_ok (k x) P)"
  by (cases r; simp add: on_ok_def)+

lemma on_okD: "on_ok r P \<Longrightarrow> r = Inr x \<Longrightarrow> P x"
  by simp

lemma on_ok_mono: "on_ok r Q \<Longrightarrow> (\<And>x. Q x \<Longrightarrow> P x) \<Longrightarrow> on_ok r P"
  by (cases r) auto

lemma on_ok_any: "(\<And>x. P x) \<Longrightarrow> on_ok r P"
  by (cases r) auto

lemma on_ok_all: "(\<And>x. r = Inr x \<Longrightarrow> P x) \<Longrightarrow> on_ok r P"
  by (cases r) auto

subsection \<open>A locked pointer\<close>

text \<open>The state of the lock and the active screen are the same.\<close>

definition held :: "('a, 'r) server \<Rightarrow> ('a, 'r) server \<Rightarrow> bool" where
  "held s t \<longleftrightarrow> m_lockedToScreen t = m_lockedToScreen s \<and> m_active t = m_active s \<and> m_proxies t = m_proxies s"

lemma held_trans: "held s t \<Longrightarrow> held t u \<Longrightarrow> held s u"
  by (simp add: held_def)

lemma held_locked: "held s t \<Longrightarrow> isLockedToScreen env t = isLockedToScreen env s"
  by (simp add: held_def isLockedToScreen_def isLockedToScreenServer_def)

lemmas held_defs = held_def stopSwitch_def stopSwitchWait_def stopSwitchTwoTap_def startSwitchTwoTap_def startSwitchWait_def
  emit_def note_direction_def record_motion_def

lemma held_simps:
  "held s (stopSwitch s)" "held s (stopSwitchWait s)" "held s (stopSwitchTwoTap s)" "held s (startSwitchTwoTap env s)"
  "held s (startSwitchWait s x y)" "held s (note_direction s n dir)" "held s s" "held s (s\<lparr>m_x := x, m_y := y\<rparr>)"
  "held s (s\<lparr>m_switchTwoTapArmed := b\<rparr>)" "held s (record_motion s dx dy x y)"
  by (simp_all add: held_defs Let_def)

lemma noSwitch_held: "on_ok (noSwitch env s x y) (held s)"
proof -
  have "on_ok (armSwitchTwoTap env s x y) (held s)"
    unfolding armSwitchTwoTap_def by (auto simp: Let_def held_simps split: EDirection.splits if_splits intro!: on_ok_all)
  then show ?thesis unfolding noSwitch_def on_ok_simps
    by (rule on_ok_mono) (blast intro: held_trans held_simps)
qed

lemma isSwitchOkay_locked:
  assumes "isLockedToScreen env s"
  shows "on_ok (isSwitchOkay env s n dir x y xa ya) (\<lambda>(ok, t). \<not> ok \<and> held s t)"
proof (cases "n = None")
  case False
  obtain al p2 s2 where s2: "check_two_tap env (note_direction s n dir) (dir \<noteq> m_switchDir s) = (al, p2, s2)" by (metis prod_cases3)
  have h2: "held s s2" using s2 held_simps(6) [of s n dir] held_simps(4)
    by (auto simp: check_two_tap_def split: if_splits intro: held_trans)
  obtain p3 s3 where s3: "check_wait s2 al p2 (dir \<noteq> m_switchDir s) x y = (p3, s3)" by force
  have h3: "held s s3" using s3 h2 by (auto simp: check_wait_def split: if_splits intro: held_trans held_simps)
  have "\<not> fst (final_checks env b p3 s3) \<and> held s (snd (final_checks env b p3 s3))" for b
    using assms held_locked [OF h3] held_trans [OF h3 held_simps(1)] h3 by (simp add: final_checks_def Let_def)
  then show ?thesis using False s2 s3 by (auto simp: isSwitchOkay_def case_prod_beta intro!: on_ok_all)
qed (simp add: isSwitchOkay_def held_simps)

lemma switch_locked:
  "isSwitchOkay env s n dir x y xa ya = Inr (ok, t) \<Longrightarrow> isLockedToScreen env s \<Longrightarrow> \<not> ok \<and> held s t"
  using on_okD [OF isSwitchOkay_locked] by fastforce

lemma try_directions_locked:
  "try_directions env s xc yc ds = Inr (left, t) \<Longrightarrow> isLockedToScreen env s \<Longrightarrow> \<not> left \<and> held s t"
proof (induction ds arbitrary: s)
  case (Cons d ds)
  obtain dir x y where d: "d = (dir, x, y)" by (cases d) auto
  show ?case
  proof (cases "dir = kNoDirection")
    case True
    then show ?thesis using Cons.IH Cons.prems d by auto
  next
    case False
    then obtain n x' y' ok u where ok: "isSwitchOkay env s n dir x' y' xc yc = Inr (ok, u)"
      and rest: "(case n of None \<Rightarrow> try_directions env u xc yc ds
        | Some c \<Rightarrow> if \<not> ok then try_directions env u xc yc ds
            else if m_enableDragDrop u \<and> ev_draggingStarted env \<and> m_active u \<noteq> c \<and> m_waitDragInfoThread u then
              Inr (False, if m_sendDragInfoThread u then u
                          else emit (StartSendDragInfo c) (u\<lparr>m_sendDragInfoThread := True\<rparr>))
            else and_then (switchScreen env u c x' y' False) (\<lambda>s. Inr (True, s\<lparr>m_waitDragInfoThread := True\<rparr>))) = Inr (left, t)"
      using Cons.prems(1) by (auto simp: d)
    note u = switch_locked [OF ok Cons.prems(2)]
    then have "try_directions env u xc yc ds = Inr (left, t)" using rest by (auto split: option.splits)
    from Cons.IH [OF this] u show ?thesis using Cons.prems(2) held_locked held_trans by metis
  qed
qed (simp add: held_simps)

lemma onMouseMovePrimary_locked:
  assumes "onMouseMovePrimary env s x y = Inr (left, t)" "isLockedToScreen env s"
  shows "\<not> left \<and> held s t"
proof -
  let ?s = "record_motion s (x - m_x s) (y - m_y s) x y"
  have h: "held s ?s" by (rule held_simps)
  show ?thesis
  proof (cases "m_active s = m_primaryClient s")
    case False
    then show ?thesis using assms(1) by (auto simp: onMouseMovePrimary_def held_simps)
  next
    case True
    let ?z = "getJumpZoneSize env ?s (m_active ?s)"
    obtain ax ay aw ah where sh: "getShape ?s (m_active ?s) = Inr (ax, ay, aw, ah)"
      using assms(1) True by (auto simp: onMouseMovePrimary_def Let_def)
    obtain dirh xh where zh: "zone_h x ax aw ?z = (dirh, xh)" by force
    obtain dirv yv where zv: "zone_v y ay ah ?z = (dirv, yv)" by force
    show ?thesis
    proof (cases "dirh = kNoDirection \<and> dirv = kNoDirection")
      case in_zone: True
      then have "noSwitch env ?s x y = Inr t" "\<not> left"
        using assms(1) True sh zh zv by (auto simp: onMouseMovePrimary_def Let_def)
      then show ?thesis using on_okD [OF noSwitch_held] held_trans [OF h] by blast
    next
      case in_zone: False
      have "try_directions env ?s (clamp_zone x ax aw ?z) (clamp_zone y ay ah ?z) [(dirh, xh, y), (dirv, x, yv)] = Inr (left, t)"
        using assms(1) True sh zh zv in_zone by (simp add: onMouseMovePrimary_def Let_def del: try_directions.simps)
      from try_directions_locked [OF this] show ?thesis using assms(2) held_locked [OF h] held_trans [OF h] by metis
    qed
  qed
qed

lemma find_jump_locked:
  assumes "find_jump env s sh = Inr (jump, t)" "isLockedToScreen env s"
  shows "jump = None \<and> held s t"
proof -
  consider "jump = None" "t = s" | x y where "jump = None" "noSwitch env s x y = Inr t"
    | n dir x y xc yc ok where "isSwitchOkay env (s\<lparr>m_x := x, m_y := y\<rparr>) n dir x y xc yc = Inr (ok, t)" "ok \<or> jump = None"
    using assms(1) by (auto simp: find_jump_def Let_def case_prod_beta split: if_splits option.splits)
  then show ?thesis
  proof cases
    case 2
    then show ?thesis using on_okD [OF noSwitch_held] by blast
  next
    case 3
    then show ?thesis using switch_locked [OF 3(1)] assms(2) held_locked [OF held_simps(8)] held_trans [OF held_simps(8)] by metis
  qed (simp add: held_simps)
qed

lemma clamp_range: "0 < w \<Longrightarrow> a \<le> clamp v a w \<and> clamp v a w < a + w"
  by (simp add: clamp_def)

lemma onMouseMoveSecondary_locked:
  assumes "onMouseMoveSecondary env s dx dy = Inr u" "isLockedToScreen env s" "m_active s \<noteq> m_primaryClient s"
    and "\<not> (m_relativeMoves s \<and> isLockedToScreenServer s)"
  obtains sh v where "getShape s (m_active s) = Inr sh" "held s v" "finish_secondary env v sh (m_x s) (m_y s) dx dy None = Inr u"
proof -
  let ?s = "record_motion s dx dy (m_x s + dx) (m_y s + dy)"
  have h: "held s ?s" by (rule held_simps)
  obtain sh jump v where v: "getShape ?s (m_active ?s) = Inr sh" "find_jump env ?s sh = Inr (jump, v)"
    "finish_secondary env v sh (m_x s) (m_y s) dx dy jump = Inr u"
    using assms(1,3,4) by (auto simp: onMouseMoveSecondary_def Let_def)
  from find_jump_locked [OF v(2)] have "jump = None" "held s v" using assms(2) held_locked [OF h] held_trans [OF h] by metis+
  moreover have "getShape s (m_active s) = Inr sh" using v(1) h by (simp add: getShape_def deref_def held_def)
  ultimately show ?thesis using v(3) that by blast
qed

lemma finish_secondary_stays:
  assumes "finish_secondary env v (ax, ay, aw, ah) xOld yOld dx dy None = Inr u"
  shows "m_active u = m_active v" "m_x u = clamp (xOld + dx) ax aw" "m_y u = clamp (yOld + dy) ay ah"
  using assms by (auto simp: finish_secondary_def Let_def emit_def dest!: call_emits split: if_splits)

text \<open>
  C13. While the pointer is locked to a screen, no motion makes it leave that screen; on a client's screen, with
  absolute moves, its position stays within the borders.
\<close>

theorem locked_pointer_stays:
  assumes "isLockedToScreen env s"
  shows "(onMouseMovePrimary env s x y = Inr (left, t) \<longrightarrow> \<not> left \<and> m_active t = m_active s) \<and>
    (onMouseMoveSecondary env s dx dy = Inr u \<longrightarrow> m_active u = m_active s \<and>
      (m_active s \<noteq> m_primaryClient s \<and> \<not> m_relativeMoves s \<and> getShape s (m_active s) = Inr (ax, ay, aw, ah) \<and> 0 < aw \<and> 0 < ah \<longrightarrow>
        on_screen (ax, ay, aw, ah) (m_x u) (m_y u)))"
proof (intro conjI impI)
  assume "onMouseMovePrimary env s x y = Inr (left, t)"
  from onMouseMovePrimary_locked [OF this assms] show "\<not> left" "m_active t = m_active s" by (auto simp: held_def)
next
  assume m: "onMouseMoveSecondary env s dx dy = Inr u"
  show "m_active u = m_active s"
  proof (cases "m_active s \<noteq> m_primaryClient s \<and> \<not> (m_relativeMoves s \<and> isLockedToScreenServer s)")
    case True
    then obtain sh v where "held s v" "finish_secondary env v sh (m_x s) (m_y s) dx dy None = Inr u"
      using onMouseMoveSecondary_locked [OF m assms] by metis
    then show ?thesis using finish_secondary_stays(1) by (cases sh) (fastforce simp: held_def)
  next
    case False
    then show ?thesis using m by (auto simp: onMouseMoveSecondary_def dest!: call_emits split: if_splits)
  qed
  show "on_screen (ax, ay, aw, ah) (m_x u) (m_y u)"
    if a: "m_active s \<noteq> m_primaryClient s \<and> \<not> m_relativeMoves s \<and> getShape s (m_active s) = Inr (ax, ay, aw, ah) \<and> 0 < aw \<and> 0 < ah"
  proof -
    obtain v where "finish_secondary env v (ax, ay, aw, ah) (m_x s) (m_y s) dx dy None = Inr u"
      using onMouseMoveSecondary_locked [OF m assms] a by (metis sum.inject(2))
    from finish_secondary_stays(2,3) [OF this] clamp_range a show ?thesis by simp
  qed
qed

text \<open>The server with its pointer locked to the client's screen, near the right edge.\<close>

definition locked_sample :: "(unit, unit) server" where
  "locked_sample = sample_server\<lparr>m_active := 1, m_x := 59, m_lockedToScreen := True\<rparr>"

lemma locked_sample_moves: "\<exists>u. onMouseMoveSecondary sample_env locked_sample 7 0 = Inr u"
proof -
  have "fst (getNeighbor pair_config ''pc'' kRight p) = []" for p by code_simp
  then have n: "neighbor_search v kRight ''pc'' p = Some None" if "m_config v = pair_config" for v :: "(unit, unit) server" and p
    using that by (subst neighbor_search.simps) (auto simp: case_prod_beta split: option.splits)
  have "case onMouseMoveSecondary sample_env locked_sample 7 0 of Inl _ \<Rightarrow> False | Inr u \<Rightarrow> True"
    by (simp add: onMouseMoveSecondary_def locked_sample_def sample_server_def server_members_def sample_heap_def sample_proxy_def
      record_motion_def getShape_def deref_def find_jump_def exit_side_def mapToNeighbor_def sv_getNeighbor_def mapToFraction_def
      isSwitchOkay_def stopSwitch_def finish_secondary_def clamp_def getName_def pair_facts Let_def n)
  then show ?thesis by (auto split: sum.splits)
qed

theorem locked_pointer_stays_witness:
  "\<exists>u. onMouseMoveSecondary sample_env locked_sample 7 0 = Inr u \<and> m_active u = 1 \<and> on_screen (0, 0, 60, 40) (m_x u) (m_y u)"
proof -
  have "isLockedToScreen sample_env locked_sample"
    by (simp add: locked_sample_def isLockedToScreen_def isLockedToScreenServer_def)
  from locked_pointer_stays [OF this, of 0 0 False locked_sample 7 0 _ 0 0 60 40] locked_sample_moves show ?thesis
    by (auto simp: locked_sample_def sample_server_def server_members_def getShape_def deref_def sample_heap_def sample_proxy_def)
qed

subsection \<open>Keys\<close>

lemma for_clients_call:
  assumes "\<forall>(n, c) \<in> set cs. alive s c"
  shows "for_clients (\<lambda>s c. call s c k) s cs = Inr (s\<lparr>m_trace := m_trace s @ map (\<lambda>(n, c). Call c k) cs\<rparr>)"
  using assms
proof (induction cs arbitrary: s)
  case (Cons nc cs)
  obtain n c where nc: "nc = (n, c)" by force
  have "call s c k = Inr (emit (Call c k) s)" using Cons.prems by (auto simp: call_def deref_def alive_def nc)
  moreover have "\<forall>(n, c) \<in> set cs. alive (emit (Call c k) s) c" for c using Cons.prems by auto
  ultimately show ?case using Cons.IH [of "emit (Call c k) s"] Cons.prems by (auto simp: nc emit_def alive_def)
qed simp

text \<open>
  C31. A key with destinations is relayed to exactly the connected screens among them, in the order of their
  names, whatever the active screen is; a key without destinations goes to the active screen unless keys are
  broadcast. The names of screens and destinations contain no colon and are not \<^verbatim>\<open>*\<close>.
\<close>

theorem keys_reach_their_screens:
  assumes "sv_inv s" "\<forall>(n, c) \<in> set (m_clients s). plain n" "\<forall>d \<in> set ds. plain d" "ds \<noteq> []"
  shows "onKeyDown s i mods b (Some (key_join ds)) = Inr (s\<lparr>m_trace := m_trace s @
      map (\<lambda>(n, c). Call c (KeyDown i mods b)) (filter (\<lambda>(n, c). n \<in> set ds) (m_clients s))\<rparr>) \<and>
    (\<not> m_keyboardBroadcasting s \<longrightarrow>
      onKeyDown s i mods b None = Inr (s\<lparr>m_trace := m_trace s @ [Call (m_active s) (KeyDown i mods b)]\<rparr>))"
proof -
  have "screens_contain (Some (key_join ds)) n \<longleftrightarrow> n \<in> set ds" if "(n, c) \<in> set (m_clients s)" for n c
    using contains_join [of n ds] that assms(2,3) by (auto simp: plain_def)
  then have "filter (\<lambda>(n, c). screens_contain (Some (key_join ds)) n) (m_clients s) = filter (\<lambda>(n, c). n \<in> set ds) (m_clients s)"
    by (intro filter_cong) auto
  moreover have "key_join ds \<noteq> []" using join_plain [of ds] assms(3,4) by (auto simp: plain_def colons_def)
  moreover have "\<forall>(n, c) \<in> set (filter (\<lambda>(n, c). n \<in> set ds) (m_clients s)). alive s c"
    using invD(1) [OF assms(1)] by (auto simp: clients_alive_def)
  moreover have "call s (m_active s) k = Inr (s\<lparr>m_trace := m_trace s @ [Call (m_active s) k]\<rparr>)" for k
    using invD(3) [OF assms(1)] by (auto simp: call_def deref_def alive_def emit_def)
  ultimately show ?thesis
    by (simp add: onKeyDown_def relay_key_def isDefault_def broadcast_screens_def for_clients_call)
qed

lemma sample_inv: "sv_inv sample_server"
  by (simp add: sv_inv_def sample_server_def server_members_def getName_def deref_def sample_heap_def sample_proxy_def pair_facts
      connected_def pending_ok_def sm_wf_def)

theorem keys_reach_their_screens_witness:
  "onKeyDown sample_server 97 0 38 (Some (key_join [''pc''])) = Inr (sample_server\<lparr>m_trace := [Call 1 (KeyDown 97 0 38)]\<rparr>)"
proof -
  have "\<forall>(n, c) \<in> set (m_clients sample_server). plain n" "\<forall>d \<in> set [''pc'']. plain d"
    by (simp_all add: sample_server_def plain_def)
  from keys_reach_their_screens [OF sample_inv this, of 97 0 38] show ?thesis
    by (simp add: sample_server_def server_members_def)
qed

subsection \<open>Leaving and entering\<close>

text \<open>The calls by which a screen is left or entered.\<close>

fun crossing :: "action \<Rightarrow> bool" where
  "crossing (Call c Leave) = True"
| "crossing (Call c (Enter x y n m b)) = True"
| "crossing a = False"

text \<open>Nothing is left or entered, and pointer, active screen and sequence number stay.\<close>

definition quiet :: "('a, 'r) server \<Rightarrow> ('a, 'r) server \<Rightarrow> bool" where
  "quiet s t \<longleftrightarrow> m_active t = m_active s \<and> m_x t = m_x s \<and> m_y t = m_y s \<and> m_seqNum t = m_seqNum s \<and>
     m_switchScreen t = m_switchScreen s \<and> (\<exists>as. m_trace t = m_trace s @ as \<and> \<not> (\<exists>a \<in> set as. crossing a))"

lemma quiet_refl [simp]: "quiet s s"
  by (simp add: quiet_def)

lemma quiet_trans: "quiet s t \<Longrightarrow> quiet t u \<Longrightarrow> quiet s u"
  unfolding quiet_def by (metis append_assoc in_set_conv_decomp split_list set_append UnE)

lemma quiet_emit: "\<not> crossing a \<Longrightarrow> quiet s (emit a s)"
  by (simp add: quiet_def emit_def)

lemma quiet_set_proxy: "quiet s (set_proxy c p s)"
  by (simp add: quiet_def set_proxy_def)

lemma quiet_set_clip_info: "quiet s (set_clip_info i ci s)"
  by (simp add: quiet_def set_clip_info_def)

lemma quiet_emit_proxy: "\<not> crossing a \<Longrightarrow> quiet s (emit a (set_proxy c p s))"
  by (simp add: quiet_def set_proxy_def emit_def)

lemma setClipboard_quiet: "setClipboard s c i clip = Inr t \<Longrightarrow> quiet s t"
  by (auto simp: setClipboard_def Let_def quiet_emit_proxy split: if_splits)

lemma setClipboardDirty_quiet: "setClipboardDirty s c i d = Inr t \<Longrightarrow> quiet s t"
  by (auto simp: setClipboardDirty_def quiet_set_proxy)

lemma get_clipboard_quiet: "get_clipboard env s c i clip = Inr (a, b, t) \<Longrightarrow> quiet s t"
  by (auto simp: get_clipboard_def quiet_set_proxy split: if_splits option.splits)

lemma for_clients_quiet:
  assumes "\<And>s c t. f s c = Inr t \<Longrightarrow> quiet s t"
  shows "for_clients f s cs = Inr t \<Longrightarrow> quiet s t"
proof (induction cs arbitrary: s)
  case (Cons nc cs)
  then obtain u where "f s (snd nc) = Inr u" "for_clients f u cs = Inr t" by (cases nc) auto
  then show ?case using assms Cons.IH quiet_trans by blast
qed simp

lemma deliver_clipboard_quiet: "deliver_clipboard env s sender i ci out = Inr t \<Longrightarrow> quiet s t"
  by (auto simp: deliver_clipboard_def split: if_splits option.splits
      intro: setClipboard_quiet quiet_trans [OF quiet_set_clip_info setClipboard_quiet])

lemma spread_quiet:
  assumes "for_clients (\<lambda>s c. setClipboardDirty s c i (c \<noteq> sender)) (set_clip_info i ci s) cs = Inr t"
    and "deliver_clipboard env t sender i ci out = Inr u"
  shows "quiet s u"
  using quiet_trans [OF quiet_set_clip_info quiet_trans [OF for_clients_quiet [OF _ assms(1)] deliver_clipboard_quiet [OF assms(2)]]]
    setClipboardDirty_quiet by blast

lemmas on_ok_atoms = on_ok_any [of _ "clip_info s i" for s i] on_ok_any [of _ "sv_assert env b" for env b]
  on_ok_any [of _ "prepare_outgoing env b c" for env b c] on_ok_any [of _ "sv_marshall env c" for env c]

lemma onClipboardChanged_quiet: "onClipboardChanged env s sender i n = Inr t \<Longrightarrow> quiet s t"
proof -
  have get: "on_ok (get_clipboard env s sender i c) (\<lambda>(a, b, t). quiet s t)" for c
    using get_clipboard_quiet by (intro on_ok_all) auto
  have spread: "on_ok (for_clients (\<lambda>s c. setClipboardDirty s c i (c \<noteq> sender)) (set_clip_info i ci t) cs)
      (\<lambda>u. on_ok (deliver_clipboard env u sender i ci out) (quiet s))" if "quiet s t" for t ci cs out
    using quiet_trans [OF that spread_quiet] by (intro on_ok_all) auto
  have "on_ok (onClipboardChanged env s sender i n) (quiet s)" unfolding onClipboardChanged_def
    by (auto simp: Let_def split: option.split intro!: on_ok_atoms on_ok_mono [OF get] spread quiet_trans [OF _ quiet_set_clip_info])
  then show "onClipboardChanged env s sender i n = Inr t \<Longrightarrow> quiet s t" by (rule on_okD)
qed

lemma update_primary_clipboards_quiet: "update_primary_clipboards env s is = Inr t \<Longrightarrow> quiet s t"
  by (induction "is" arbitrary: s) (auto split: if_splits intro: quiet_trans onClipboardChanged_quiet)

lemma send_clipboards_quiet: "send_clipboards env s is = Inr t \<Longrightarrow> quiet s t"
proof (induction "is" arbitrary: s)
  case (Cons i "is")
  then show ?case
    by (auto simp: Let_def split: if_splits dest!: setClipboard_quiet
        intro: quiet_trans [OF quiet_set_clip_info] quiet_trans [OF quiet_set_clip_info quiet_trans])
qed simp

lemma stopSwitch_trace: "\<exists>as. m_trace (stopSwitch s) = m_trace s @ as \<and> \<not> (\<exists>a \<in> set as. crossing a)"
  by (simp add: stopSwitch_def stopSwitchWait_def stopSwitchTwoTap_def emit_def)

lemma enter_screen_trace:
  assumes "enter_screen env s dst x y ss = Inr t"
  shows "m_active t = dst \<and> m_x t = m_x s \<and> m_y t = m_y s \<and> m_seqNum t = m_seqNum s + 1 \<and> m_switchScreen t = m_switchScreen s \<and>
    (\<exists>cs n. m_trace t = m_trace s @ Call dst (Enter x y (m_seqNum s + 1) (ev_toggleMask env) ss) # cs @ [Post (ScreenSwitched n)] \<and>
       \<not> (\<exists>a \<in> set cs. crossing a))"
proof -
  let ?s = "s\<lparr>m_active := dst, m_seqNum := m_seqNum s + 1\<rparr>"
  obtain u v where u: "call ?s dst (Enter x y (m_seqNum s + 1) (ev_toggleMask env) ss) = Inr u"
    "(if m_enableClipboard u then send_clipboards env u [0..<kNumClipboards] else Inr u) = Inr v"
    "\<exists>n. t = emit (Post (ScreenSwitched n)) v"
    using assms by (auto simp: enter_screen_def Let_def)
  have "quiet u v" using u(2) send_clipboards_quiet by (auto split: if_splits)
  then show ?thesis using call_emits [OF u(1)] u(3) by (auto simp: quiet_def emit_def)
qed

text \<open>
  C10. A switch to another screen leaves the old screen first and enters the new one once, at the position given
  and with the next sequence number, and nothing else is left or entered. The new screen is then the active one,
  the pointer is at that position, no switch is pending any more and the switch is announced last.
\<close>

theorem switch_leaves_then_enters:
  assumes "switchScreen env s dst x y ss = Inr t" "m_active s \<noteq> dst" "ev_canLeave env"
  shows "m_active t = dst \<and> m_x t = x \<and> m_y t = y \<and> m_seqNum t = m_seqNum s + 1 \<and> m_switchScreen t = None \<and>
    (\<exists>as bs cs n. m_trace t = m_trace s @ as @ Call (m_active s) Leave # bs @
       Call dst (Enter x y (m_seqNum s + 1) (ev_toggleMask env) ss) # cs @ [Post (ScreenSwitched n)] \<and>
       \<not> (\<exists>a \<in> set (as @ bs @ cs). crossing a))"
proof -
  let ?s = "record_position (stopSwitch s) x y"
  have act: "m_active ?s = m_active s" using refs_unchanged(8) by (simp add: record_position_def)
  obtain left u v where l: "leave env ?s (m_active ?s) = Inr (left, u)"
    and v: "if \<not> left then v = u \<and> t = u else (if m_active u = m_primaryClient u \<and> m_enableClipboard u
                   then update_primary_clipboards env u [0..<kNumClipboards] else Inr u) = Inr v \<and> enter_screen env v dst x y ss = Inr t"
    using assms(1,2) act by (auto simp: switchScreen_def Let_def split: if_splits)
  have left: "left" "u = emit (Call (m_active s) Leave) ?s" using l assms(3) act by (auto simp: leave_def split: if_splits)
  have "quiet u v" using v left update_primary_clipboards_quiet by (auto split: if_splits)
  moreover obtain as where "m_trace (stopSwitch s) = m_trace s @ as" "\<not> (\<exists>a \<in> set as. crossing a)"
    using stopSwitch_trace by blast
  moreover have "m_seqNum (stopSwitch s) = m_seqNum s" "m_switchScreen (stopSwitch s) = None"
    using stopSwitch_fields(1) by (simp_all add: stopSwitch_def stopSwitchWait_def stopSwitchTwoTap_def emit_def)
  ultimately show ?thesis using enter_screen_trace [of env v dst x y ss t] v left
    by (fastforce simp: quiet_def emit_def record_position_def)
qed

lemma sample_switches: "\<exists>t. switchScreen sample_env (sample_server\<lparr>m_enableClipboard := False\<rparr>) 1 5 5 False = Inr t"
proof -
  have "case switchScreen sample_env (sample_server\<lparr>m_enableClipboard := False\<rparr>) 1 5 5 False of Inl _ \<Rightarrow> False | Inr t \<Rightarrow> True"
    by (simp add: switchScreen_def sample_server_def server_members_def sample_heap_def sample_proxy_def sample_env_def getShape_def getName_def pair_facts Let_def
      deref_def sv_assert_def record_position_def stopSwitch_def leave_def emit_def enter_screen_def call_def)
  then show ?thesis by (auto split: sum.splits)
qed

theorem switch_leaves_then_enters_witness:
  "\<exists>t as bs cs n. switchScreen sample_env (sample_server\<lparr>m_enableClipboard := False\<rparr>) 1 5 5 False = Inr t \<and> m_active t = 1 \<and>
    m_trace t = as @ Call 0 Leave # bs @ Call 1 (Enter 5 5 1 0 False) # cs @ [Post (ScreenSwitched n)]"
proof -
  obtain t where t: "switchScreen sample_env (sample_server\<lparr>m_enableClipboard := False\<rparr>) 1 5 5 False = Inr t"
    using sample_switches ..
  show ?thesis using switch_leaves_then_enters [OF t] t
    by (fastforce simp: sample_server_def server_members_def sample_env_def)
qed

subsection \<open>Grabbing a clipboard\<close>

lemma set_dirty_other: "setClipboardDirty s c i d = Inr t \<Longrightarrow> e \<noteq> c \<Longrightarrow> m_proxies t e = m_proxies s e"
  by (auto simp: setClipboardDirty_def set_proxy_def)

text \<open>Whether the clipboard of a screen has to be sent to it before it is used there.\<close>

definition clip_dirty :: "('a, 'r) server \<Rightarrow> cid \<Rightarrow> nat \<Rightarrow> bool option" where
  "clip_dirty s c i = (case m_proxies s c of None \<Rightarrow> None | Some p \<Rightarrow>
     if i < length (px_dirty p) then Some (px_dirty p ! i) else None)"

lemma mark_dirty:
  assumes "(if c = g then setClipboardDirty s c i False else grabClipboard s c i) = Inr t"
  shows "clip_dirty t e i = (if e = c then map_option (\<lambda>_. c \<noteq> g) (clip_dirty s c i) else clip_dirty s e i)"
    and "m_clipboards t = m_clipboards s" and "alive t = alive s"
  using assms by (auto simp: setClipboardDirty_def grabClipboard_def call_def deref_def emit_def set_proxy_def clip_dirty_def alive_def
      fun_eq_iff split: if_splits option.splits)

lemma mark_all_dirty:
  assumes "for_clients (\<lambda>s c. if c = g then setClipboardDirty s c i False else grabClipboard s c i) s cs = Inr t"
  shows "clip_dirty t e i = (if e \<in> snd ` set cs then map_option (\<lambda>_. e \<noteq> g) (clip_dirty s e i) else clip_dirty s e i) \<and>
    m_clipboards t = m_clipboards s"
  using assms
proof (induction cs arbitrary: s)
  case (Cons nc cs)
  obtain n c where nc: "nc = (n, c)" by force
  obtain u where u: "(if c = g then setClipboardDirty s c i False else grabClipboard s c i) = Inr u"
    "for_clients (\<lambda>s c. if c = g then setClipboardDirty s c i False else grabClipboard s c i) u cs = Inr t"
    using Cons.prems nc by auto
  show ?case using Cons.IH [OF u(2)] mark_dirty [OF u(1)] by (auto simp: nc option.map_comp comp_def)
qed simp

text \<open>
  C30. With clipboard sharing enabled, when a screen grabs a clipboard and the grab is not out of date, the server records it as the owner with the
  sequence number of the grab, and afterwards the clipboard is marked as up to date on that screen and on no other
  connected one. A grab that is out of date, or that is not from a connected screen, changes nothing.
\<close>

theorem grab_makes_owner:
  assumes "handle_clipboard_grabbed env s g i n = Inr t" "m_enableClipboard s" "m_maximumClipboardSize s \<noteq> 0"
    and "i < length (m_clipboards s)"
  defines "late \<equiv> g \<noteq> m_primaryClient s \<and> n < ci_seqNum (m_clipboards s ! i)"
  shows "if late \<or> g \<notin> set (m_clientSet s) then t = s
    else getName s g = Inr (ci_owner (m_clipboards t ! i)) \<and> ci_seqNum (m_clipboards t ! i) = n \<and>
      (\<forall>c \<in> snd ` set (m_clients s). \<forall>d. clip_dirty t c i = Some d \<longrightarrow> (d \<longleftrightarrow> c \<noteq> g))"
proof (cases "late \<or> g \<notin> set (m_clientSet s)")
  case True
  then show ?thesis using assms(1-4) by (auto simp: handle_clipboard_grabbed_def late_def clip_info_def split: if_splits)
next
  case False
  then obtain m c data where m: "getName s g = Inr m"
    and f: "for_clients (\<lambda>s c. if c = g then setClipboardDirty s c i False else grabClipboard s c i)
      (set_clip_info i \<lparr>ci_clipboard = c, ci_data = data, ci_owner = m, ci_seqNum = n\<rparr> s) (m_clients s) = Inr t"
    using assms(1-4) by (auto simp: handle_clipboard_grabbed_def late_def clip_info_def Let_def set_clip_info_def)
  note d = mark_all_dirty [OF f]
  have "m_clipboards t ! i = \<lparr>ci_clipboard = c, ci_data = data, ci_owner = m, ci_seqNum = n\<rparr>" using d assms(4) by (simp add: set_clip_info_def)
  moreover have "clip_dirty t c i = Some b \<Longrightarrow> b = (c \<noteq> g)" if "c \<in> snd ` set (m_clients s)" for c b
    using d [of c] that by (auto split: if_splits)
  ultimately show ?thesis using m False by auto
qed

lemma sample_grabs: "\<exists>t. handle_clipboard_grabbed sample_env sample_server 1 0 4 = Inr t"
proof -
  have "case and_then (sv_open sample_env sample_clip) (\<lambda>c. and_then (lift_clip (clip_clear c)) (\<lambda>(c, _).
      and_then (lift_clip (clip_close c)) (sv_marshall sample_env))) of Inl _ \<Rightarrow> False | Inr _ \<Rightarrow> True" by code_simp
  then obtain c c1 b c2 c3 data where c: "sv_open sample_env sample_clip = Inr c" "lift_clip (clip_clear c) = Inr (c1, b)"
    "lift_clip (clip_close c1) = Inr c2" "sv_marshall sample_env c2 = Inr (c3, data)"
    by (auto split: sum.splits)
  have "case handle_clipboard_grabbed sample_env sample_server 1 0 4 of Inl _ \<Rightarrow> False | Inr t \<Rightarrow> True"
    by (simp add: handle_clipboard_grabbed_def sample_server_def server_members_def sample_heap_def sample_proxy_def clip_info_def
      sample_info_def getName_def deref_def pair_facts c set_clip_info_def setClipboardDirty_def grabClipboard_def call_def
      emit_def set_proxy_def Let_def)
  then show ?thesis by (auto split: sum.splits)
qed

theorem grab_makes_owner_witness:
  "\<exists>t. handle_clipboard_grabbed sample_env sample_server 1 0 4 = Inr t \<and> ci_owner (m_clipboards t ! 0) = ''pc''"
proof -
  obtain t where t: "handle_clipboard_grabbed sample_env sample_server 1 0 4 = Inr t" using sample_grabs ..
  show ?thesis using grab_makes_owner [OF t] t
    by (auto simp: sample_server_def server_members_def sample_info_def getName_def deref_def sample_heap_def sample_proxy_def pair_facts)
qed

end
