(* ===== verification/PacketStream.thy ===== *)
theory PacketStream
  imports PacketFilter
begin

text \<open>
  What the message handlers of both ends rely on beyond the contract \<open>istream\<close>: the stream knows where
  packets end. A read never crosses the end of a packet, and \<^verbatim>\<open>isReady\<close> says whether a packet is left. The
  locale \<open>packet_stream\<close> states this contract and shows that reading one message leaves exactly the packets
  behind it; the packet filter is shown to provide it.
\<close>

subsection \<open>Consuming bytes of a list of packets\<close>

fun skip :: "nat \<Rightarrow> bytes list \<Rightarrow> bytes list" where
  "skip n [] = []"
| "skip n (p # ps) = (if length p \<le> n then skip (n - length p) ps else drop n p # ps)"

lemma concat_skip: "concat (skip n ps) = drop n (concat ps)"
  by (induction n ps rule: skip.induct) auto

lemma skip_skip: "skip a (skip b ps) = skip (a + b) ps"
  by (induction b ps rule: skip.induct) (auto simp: add.commute intro!: arg_cong2 [where f = skip])

lemma skip_0 [simp]: "[] \<notin> set ps \<Longrightarrow> skip 0 ps = ps"
  by (cases ps) auto

lemma skip_front: "[] \<notin> set ps \<Longrightarrow> length p \<le> k \<Longrightarrow> drop k (p @ concat ps) = concat ps \<Longrightarrow> skip k (p # ps) = ps"
proof -
  assume ne: "[] \<notin> set ps" and k: "length p \<le> k" and d: "drop k (p @ concat ps) = concat ps"
  have "length (concat ps) + length p - k = length (concat ps)" using arg_cong [OF d, of length] by simp
  then have "k = length p \<or> length (concat ps) = 0" using k by linarith
  then have "k = length p \<or> concat ps = []" by (simp only: length_0_conv)
  then show ?thesis
  proof
    assume "concat ps = []"
    then have "ps = []" using ne by (cases ps) auto
    then show ?thesis using k by simp
  qed (use ne in simp)
qed

subsection \<open>A message is its code and its arguments\<close>

lemma addLength_shift: "addLength (tot + k) n = Inr t \<Longrightarrow> \<exists>t'. addLength tot n = Inr t' \<and> t = t' + k"
  by (auto simp: addLength_def split: if_splits)

lemma list_total_shift: "list_total (tot + k) n len = Inr t \<Longrightarrow> \<exists>t'. list_total tot n len = Inr t' \<and> t = t' + k"
  by (auto simp: list_total_def dest: addLength_shift split: if_splits)

lemma check_spec_shift:
  "check_spec len c args (tot + k) = Inr (r, t) \<Longrightarrow> \<exists>t'. check_spec len c args tot = Inr (r, t') \<and> t = t' + k"
  by (auto simp: check_spec_def map_sum_Inr_iff Let_def dest!: addLength_shift list_total_shift
      split: if_splits list.splits write_arg.splits option.splits)

lemma writef_check_shift:
  "writef_check fmt args u = Inr (r, t) \<Longrightarrow> u = tot + k \<Longrightarrow>
     \<exists>t'. writef_check fmt args tot = Inr (r, t') \<and> t = t' + k"
proof (induction fmt args u arbitrary: tot rule: writef_check.induct)
  case (1 args u)
  then show ?case by simp
next
  case (2 c cs args u)
  show ?case
  proof (cases "c = CHR ''%''")
    case False
    with "2.prems" obtain u' where u': "addLength u 1 = Inr u'" "writef_check cs args u' = Inr (r, t)"
      by (auto split: sum.splits)
    with addLength_shift [of tot k 1 u'] "2.prems"(2) obtain v where v: "addLength tot 1 = Inr v" "u' = v + k"
      by auto
    from "2.IH"(1) [OF False u'(1,2) v(2)] False v(1) show ?thesis by auto
  next
    case True
    obtain len ds where e: "eatLength 0 cs = (len, ds)" by fastforce
    with True "2.prems"(1) obtain d ds' args1 u1 where ds: "ds = d # ds'"
      and c: "check_spec len d args u = Inr (args1, u1)" and w: "writef_check ds' args1 u1 = Inr (r, t)"
      by (auto split: list.splits sum.splits)
    from check_spec_shift [of len d args tot k args1 u1] c "2.prems"(2) obtain v where
      v: "check_spec len d args tot = Inr (args1, v)" "u1 = v + k" by auto
    from "2.IH"(2) [OF _ e [symmetric] ds c refl w v(2)] True e ds v(1) show ?thesis by auto
  qed
qed

lemma writefArgs_code:
  assumes "writefArgs (code @ fmt) args = Inr out" "CHR ''%'' \<notin> set code"
  shows "\<exists>body. out = bytes_of code @ body \<and> writefArgs fmt args = Inr body"
proof -
  obtain t where "writef_check (code @ fmt) args 0 = Inr ([], t)" and e: "writef_emit (code @ fmt) args = Inr out"
    using assms(1) by (auto simp: writefArgs_def split: sum.splits if_splits)
  moreover have "\<exists>u. writef_check fmt args u = Inr ([], t)" if "writef_check (code @ fmt) args n = Inr ([], t)" for n
    using that assms(2) by (induction code arbitrary: n) (auto split: sum.splits)
  ultimately obtain t' where "writef_check fmt args 0 = Inr ([], t')"
    using writef_check_shift [of fmt args _ "[]" t 0] by (metis add_0)
  moreover have "\<exists>body. out = bytes_of code @ body \<and> writef_emit fmt args = Inr body"
    using e assms(2) by (induction code arbitrary: out) (auto simp: map_sum_Inr_iff)
  ultimately show ?thesis by (auto simp: writefArgs_def)
qed

subsection \<open>The contract\<close>

locale packet_stream = istream ok avail rd
  for ok :: "'s \<Rightarrow> bool" and avail :: "'s \<Rightarrow> bytes" and rd :: "'s reader" +
  fixes holds :: "'s \<Rightarrow> bytes list \<Rightarrow> bool" and ready :: "'s \<Rightarrow> bool"
  assumes holds_avail: "holds s ps \<Longrightarrow> avail s = concat ps \<and> [] \<notin> set ps"
    and read_front: "holds s (p # ps) \<Longrightarrow>
      \<exists>s'. rd s n = Some (take n p, s') \<and> holds s' (if n < length p then drop n p # ps else ps)"
    and read_none: "holds s [] \<Longrightarrow> \<exists>s'. rd s n = Some ([], s') \<and> holds s' []"
    and ready_iff: "holds s ps \<Longrightarrow> ready s \<longleftrightarrow> ps \<noteq> []"

sublocale packet_stream \<subseteq> within: istream "\<lambda>s. \<exists>k. holds s (skip k all)" avail rd for all
proof
  fix s n
  assume "\<exists>k. holds s (skip k all)"
  then obtain k where k: "holds s (skip k all)" by blast
  note ha = holds_avail [OF k]
  show "\<exists>bs s'. rd s n = Some (bs, s') \<and> (\<exists>k. holds s' (skip k all)) \<and> avail s = bs @ avail s' \<and>
    length bs \<le> n \<and> (0 < n \<and> avail s \<noteq> [] \<longrightarrow> bs \<noteq> [])"
  proof (cases "skip k all")
    case Nil
    with k obtain s' where s': "rd s n = Some ([], s')" "holds s' []" using read_none [of s n] by auto
    then show ?thesis using Nil ha holds_avail [OF s'(2)] by (metis append_Nil concat.simps(1) list.size(3) zero_le)
  next
    case (Cons p ps)
    with k obtain s' where s': "rd s n = Some (take n p, s')" "holds s' (if n < length p then drop n p # ps else ps)"
      using read_front [of s p ps n] by auto
    have "skip (min n (length p)) (p # ps) = (if n < length p then drop n p # ps else ps)"
      using ha Cons by auto
    then have h: "holds s' (skip (min n (length p) + k) all)"
      using s'(2) Cons skip_skip [of "min n (length p)" k all] by simp
    moreover have "avail s = take n p @ avail s'"
      using ha Cons holds_avail [OF s'(2)] by (cases "n < length p") (simp_all flip: append_assoc)
    moreover have "p \<noteq> []" using ha Cons by auto
    ultimately show ?thesis using s'(1) by auto
  qed
qed

context packet_stream
begin

text \<open>Reading a whole message with the format it was written with leaves the packets behind it.\<close>

lemma readf_front:
  assumes "holds s (body # ps)" "writefArgs fmt args = Inr body" "memory_ok args" "readable fmt"
  shows "\<exists>s'. readf rd s fmt = (Inr True, sent_values fmt args, s') \<and> holds s' ps"
proof -
  note ha = holds_avail [OF assms(1)]
  have at: "\<exists>k. holds s (skip k (body # ps))" using assms(1) ha by (intro exI [of _ 0]) auto
  have "avail s = body @ concat ps" using ha by simp
  from within.readf_written [OF assms(2-4) at this] obtain s' k where
    r: "readf rd s fmt = (Inr True, sent_values fmt args, s')" "holds s' (skip k (body # ps))" "avail s' = concat ps"
    by (elim exE conjE) (rule that)
  have "avail s' = concat (skip k (body # ps))" using holds_avail [OF r(2)] by blast
  then have d: "drop k (body @ concat ps) = concat ps" by (simp only: r(3) concat_skip concat.simps)
  have "length (body @ concat ps) - k = length (concat ps)" using d by (metis length_drop)
  then have "length body \<le> k" using d by (cases "concat ps = []") auto
  then have "skip k (body # ps) = ps" using skip_front [OF _ _ d] ha by simp
  with r show ?thesis by auto
qed

text \<open>The four bytes of a message code are read off the front packet.\<close>

lemma read_code:
  assumes "holds s ((code @ body) # ps)" "length code = 4"
  shows "\<exists>s'. rd s 4 = Some (code, s') \<and> holds s' (if body = [] then ps else body # ps)"
  using read_front [OF assms(1), of 4] assms(2) by auto

end

subsection \<open>The packet filter provides it\<close>

definition pf_holds :: "packet_filter \<Rightarrow> bytes list \<Rightarrow> bool" where
  "pf_holds s ps \<longleftrightarrow> pf_inv s \<and> pf_synced s \<and> pf_wire s = concat (map frame ps) \<and>
     list_all good_payload ps \<and> \<not> pf_inputShutdown s"

lemma pf_read_part:
  assumes "pf_holds s (p # ps)" "0 < n" "n < length p"
  shows "\<exists>s'. pf_read s n = Some (take n p, s') \<and> pf_holds s' (drop n p # ps)"
proof -
  have h: "pf_inv s" "pf_synced s" "pf_wire s = frame p @ concat (map frame ps)" "good_payload p"
    "list_all good_payload ps" "\<not> pf_inputShutdown s"
    using assms(1) by (auto simp: pf_holds_def)
  have sz: "pf_size s = length p" and bytes: "sb_bytes (pf_buffer s) = p @ concat (map frame ps)"
    using pf_front_packet [OF h(1-4)] by auto
  have inv: "sb_inv (pf_buffer s)" using h(1) by (simp add: pf_inv_def)
  have ready: "pf_isReadyNoLock s" using h(1,4) sz bytes by (simp add: pf_ready_iff good_payload_def)
  obtain b1 b2 where b: "sb_peek (pf_buffer s) n = Some (take n p, b1)" "sb_pop b1 n = Some b2"
    "sb_bytes b2 = drop n p @ concat (map frame ps)" "sb_inv b2"
    using sb.take_out [OF inv, of n] bytes assms(3) by auto
  define t where "t = s\<lparr>pf_buffer := b2, pf_size := length p - n\<rparr>"
  have t: "pf_inv t" "pf_size t \<noteq> 0"
    using b(4) h(1) assms(3) sz by (auto simp: t_def pf_inv_def)
  then have "pf_readPacketSize t = Some (True, t)" by (simp add: pf_readPacketSize_idle)
  moreover have "min n (length p) = n" using assms(3) by simp
  ultimately have "pf_read s n = Some (take n p, t)"
    using ready b(1,2) assms(2) h(6) t(2) by (simp add: pf_read_def Let_def sz t_def)
  moreover have "pf_holds t (drop n p # ps)"
    using t b(3) assms(3) h(4-6) by (auto simp: pf_holds_def pf_wire_def pf_synced_def frame_def good_payload_def t_def)
  ultimately show ?thesis by blast
qed

lemma pf_read_front:
  assumes "pf_holds s (p # ps)"
  shows "\<exists>s'. pf_read s n = Some (take n p, s') \<and> pf_holds s' (if n < length p then drop n p # ps else ps)"
proof -
  consider "n = 0" | "0 < n" "n < length p" | "length p \<le> n" by linarith
  then show ?thesis
  proof cases
    case 1
    moreover have "p \<noteq> []" using assms by (auto simp: pf_holds_def good_payload_def)
    ultimately show ?thesis using assms by (simp add: pf_read_def)
  next
    case 2
    with pf_read_part [OF assms] show ?thesis by simp
  next
    case 3
    have "pf_inv s" "pf_synced s" "pf_wire s = frame p @ concat (map frame ps)" "good_payload p"
      "good_wire (concat (map frame ps))" "\<not> pf_inputShutdown s" "list_all good_payload ps"
      using assms good_wire_frames [of ps] by (auto simp: pf_holds_def)
    with pf_read_packet [of s p "concat (map frame ps)" n] 3 show ?thesis by (auto simp: pf_holds_def)
  qed
qed

lemma pf_holds_none: "pf_holds s [] \<Longrightarrow> \<not> pf_isReadyNoLock s"
  by (auto simp: pf_holds_def pf_ready_iff pf_wire_def split: if_splits)

lemma pf_holds_some: "pf_holds s (p # ps) \<Longrightarrow> pf_isReadyNoLock s"
  using pf_front_packet [of s p "concat (map frame ps)"]
  by (auto simp: pf_holds_def pf_ready_iff good_payload_def)

interpretation pfs: packet_stream pf_inv pf_avail pf_read pf_holds pf_isReady
proof
  show "pf_avail s = concat ps \<and> [] \<notin> set ps" if "pf_holds s ps" for s ps
    using that pf_avail_frames [of s ps] by (auto simp: pf_holds_def list_all_iff good_payload_def)
  show "\<exists>s'. pf_read s n = Some (take n p, s') \<and> pf_holds s' (if n < length p then drop n p # ps else ps)"
    if "pf_holds s (p # ps)" for s p ps n
    by (rule pf_read_front [OF that])
  show "\<exists>s'. pf_read s n = Some ([], s') \<and> pf_holds s' []" if "pf_holds s []" for s n
    using that pf_holds_none [OF that] by (simp add: pf_read_def)
  show "pf_isReady s \<longleftrightarrow> ps \<noteq> []" if "pf_holds s ps" for s ps
    using that pf_holds_none pf_holds_some by (cases ps) (auto simp: pf_isReady_def)
qed

text \<open>However the network cuts them, framed packets end up held by a fresh filter.\<close>

lemma fresh_filter_holds:
  assumes "list_all good_payload ps" "concat rs = concat (map frame ps)" "[] \<notin> set rs"
    "length (concat rs) < 2 ^ 32"
  shows "\<exists>s. pf_fill pf_new rs = Some (s, []) \<and> pf_holds s ps"
proof -
  have "good_wire (pf_wire pf_new @ concat rs)" using good_wire_frames [OF assms(1)] assms(2) by (simp add: pf_new_inv)
  then obtain s where "pf_fill pf_new rs = Some (s, [])" "pf_inv s" "pf_synced s" "pf_wire s = concat rs"
    "pf_inputShutdown s = pf_inputShutdown pf_new"
    using pf_fill_good [of pf_new rs] assms(3,4) pf_new_inv pf_new_synced by auto
  then show ?thesis using assms(1,2) by (auto simp: pf_holds_def pf_new_def)
qed

lemma one_packet_holds: "good_payload p \<Longrightarrow> \<exists>s. pf_holds s [p]"
proof -
  assume p: "good_payload p"
  then have "length (frame p) < 2 ^ 32" "frame p \<noteq> []"
    by (auto simp: frame_def appendInteger_4 good_payload_def protocol_limits)
  with p fresh_filter_holds [of "[p]" "[frame p]"] show ?thesis by auto
qed

end
