(* ===== verification/DragInformation.thy ===== *)
theory DragInformation
  imports Strings
begin

text \<open>
  The list of dragged files that travels in a drag message: \<^verbatim>\<open>DragInformation::parseDragInfo\<close> and
  \<^verbatim>\<open>stringToNum\<close> of \<^verbatim>\<open>src/lib/inputleap/DragInformation.cpp\<close>. Positions are \<^verbatim>\<open>size_t\<close>: \<open>npos\<close> is the largest, and
  the code computes with it. An access by \<^verbatim>\<open>at\<close> or \<^verbatim>\<open>substr\<close> past the end is the exception \<open>OutOfRange\<close>.
\<close>

subsection \<open>Searching in a string\<close>

type_synonym str_pos = "64 word"

definition npos :: str_pos where "npos = - 1"

definition str_find :: "byte \<Rightarrow> bytes \<Rightarrow> str_pos \<Rightarrow> str_pos" where
  "str_find c data pos =
     (let n = unat pos + length (takeWhile (\<lambda>b. b \<noteq> c) (drop (unat pos) data)) in
      if n < length data then of_nat n else npos)"

definition str_find_last_of :: "byte \<Rightarrow> bytes \<Rightarrow> str_pos \<Rightarrow> str_pos" where
  "str_find_last_of c data pos =
     (case dropWhile (\<lambda>b. b \<noteq> c) (rev (take (Suc (unat pos)) data)) of [] \<Rightarrow> npos | _ # r \<Rightarrow> of_nat (length r))"

datatype drag_error = OutOfRange

definition str_substr :: "bytes \<Rightarrow> str_pos \<Rightarrow> str_pos \<Rightarrow> drag_error + bytes" where
  "str_substr data pos n =
     (if length data < unat pos then Inl OutOfRange else Inr (take (unat n) (drop (unat pos) data)))"

subsection \<open>Dragged files\<close>

text \<open>The size is \<open>None\<close> when the code leaves it uninitialised.\<close>

record drag_file =
  df_filename :: bytes
  df_filesize :: "nat option"

definition stringToNum :: "bytes \<Rightarrow> nat option" where
  "stringToNum str = stringToSizeType (chars_of (takeWhile (\<lambda>b. b \<noteq> 0) str))"

abbreviation comma :: byte where "comma \<equiv> 0x2C"

text \<open>The loop of \<^verbatim>\<open>parseDragInfo\<close>, with the number of rounds left; \<open>index\<close> counts those done.\<close>

fun drag_loop :: "bytes \<Rightarrow> byte \<Rightarrow> nat \<Rightarrow> nat \<Rightarrow> str_pos \<Rightarrow> drag_file list \<Rightarrow> drag_error + drag_file list" where
  "drag_loop data slash 0 index startPos files = Inr files"
| "drag_loop data slash (Suc n) index startPos files =
     (let findResult1 = str_find comma data startPos;
          findResult2 = str_find_last_of slash data findResult1
      in if findResult1 = startPos then Inr files
         else
           and_then
             (if 1 < findResult1 - findResult2 then
                and_then (str_substr data (findResult2 + 1) (findResult1 - findResult2 - 1)) (\<lambda>filename.
                Inr (files @ [\<lparr>df_filename = filename, df_filesize = Some 0\<rparr>]))
              else Inr files) (\<lambda>files.
           let findResult2 = str_find comma data (findResult1 + 1) in
           and_then
             (if 1 < findResult2 - findResult1 then
                and_then (str_substr data (findResult1 + 1) (findResult2 - findResult1 - 1)) (\<lambda>filesize.
                if index < length files then Inr (files[index := (files ! index)\<lparr>df_filesize := stringToNum filesize\<rparr>])
                else Inl OutOfRange)
              else Inr files) (\<lambda>files.
           drag_loop data slash n (Suc index) (findResult1 + 1) files)))"

definition parseDragInfo :: "u32 \<Rightarrow> bytes \<Rightarrow> drag_error + drag_file list" where
  "parseDragInfo fileNum data =
     (let slash = (if str_find 0x2F data 0 \<noteq> npos then 0x2F else 0x5C)
      in drag_loop data slash (unat fileNum) 0 0 [])"

subsection \<open>Properties\<close>

text \<open>
  A message whose one file has no name ends with an exception: the size is stored for an entry that was not made.
\<close>

theorem drag_info_without_name: "parseDragInfo 1 (bytes_of ''a/,5,'') = Inl OutOfRange"
  by code_simp

text \<open>
  Only one file is read as it was written. The search for the second name starts at the size of the first
  file, and its last separator is that of the first name: the second entry gets the first name again, with
  its size, and no size.
\<close>

theorem second_file_misread:
  "parseDragInfo 2 (bytes_of ''/x/a,5,/x/b,7,'') =
     Inr [\<lparr>df_filename = bytes_of ''a'', df_filesize = Some 5\<rparr>, \<lparr>df_filename = bytes_of ''a,5'', df_filesize = Some 0\<rparr>]"
proof -
  have u: "unat (2 :: u32) = Suc (Suc 0)" by code_simp
  have c: "chars_of [53] = ''5''" "chars_of [47, 120, 47, 98] = ''/x/b''" by code_simp+
  have "stringToNum [53] = Some 5" "stringToNum [47, 120, 47, 98] = Some 0"
    by (simp_all add: stringToNum_def c stringToSizeType_def is_space_def is_digit_def decimal_value_def digit_of_def
        del: list.map)
  with u show ?thesis
    by (simp only: parseDragInfo_def) (simp add: str_find_def str_find_last_of_def str_substr_def npos_def)
qed

end
