(* ===== verification/ProxyMessages.thy ===== *)
theory ProxyMessages
  imports Chunks PacketStream ServerState DragInformation
begin

text \<open>
  What the two ends of a connection share: the constants of the keep-alive protocol, how a handler fails,
  the test of a message code, and the messages of \<^verbatim>\<open>src/lib/server/ClientConnectionByStream.cpp\<close>, one
  definition per \<^verbatim>\<open>send_\<close> function: the format and the arguments it hands to \<^verbatim>\<open>writef\<close>.
\<close>

definition kKeepAliveRate :: rat where "kKeepAliveRate = 3"
definition kKeepAlivesUntilDeath :: rat where "kKeepAlivesUntilDeath = 3"
definition kHeartRate :: rat where "kHeartRate = - 1"
definition kHeartBeatsUntilDeath :: rat where "kHeartBeatsUntilDeath = 3"
definition kProtocolMajorVersion :: int where "kProtocolMajorVersion = 1"
definition kProtocolMinorVersion :: int where "kProtocolMinorVersion = 6"
definition kMaxHelloLength :: nat where "kMaxHelloLength = 1024"

text \<open>
  How a handler fails. \<open>ThrowBadClient\<close> is the exception that \<open>handle_data\<close> catches; the other reasons are
  exceptions that leave it, failed assertions and undefined behaviour.
\<close>

datatype proxy_fault =
    ThrowBadClient | AssertionFault | Uninitialised | TableOutOfRange | OptionsOutOfRange | DragInfoOutOfRange | NullStream
  | ThrowWrite write_error | ClipboardFault clip_error

definition thrown :: "read_error \<Rightarrow> proxy_fault" where
  "thrown e = (if e = XBadClient then ThrowBadClient else AssertionFault)"

definition is_msg :: "bytes \<Rightarrow> string \<Rightarrow> bool" where
  "is_msg code m \<longleftrightarrow> code = bytes_of (take 4 m)"

text \<open>What is left of an integer that travels in two bytes: read as \<^verbatim>\<open>int16_t\<close>, and an unsigned one.\<close>

definition wrap16 :: "int \<Rightarrow> int" where
  "wrap16 x = sint (of_int x :: u16)"

definition low16 :: "u32 \<Rightarrow> u32" where
  "low16 x = ucast (ucast x :: u16)"

lemma wrap16_id [simp]: "- 32768 \<le> x \<Longrightarrow> x \<le> 32767 \<Longrightarrow> wrap16 x = x"
  by (simp add: wrap16_def signed_of_int signed_take_bit_int_eq_self)

lemma ucast_of_int16: "(ucast (of_int x :: u32) :: u16) = of_int x"
  by (rule bit_word_eqI) (simp add: bit_simps)

subsection \<open>The messages of a client connection\<close>

type_synonym message = "string \<times> write_arg list"

abbreviation WInt :: "int \<Rightarrow> write_arg" where
  "WInt x \<equiv> WInteger (of_int x)"

definition send_query_info_1_6 :: message where
  "send_query_info_1_6 = (kMsgQInfo, [])"

definition send_enter_1_6 :: "int \<Rightarrow> int \<Rightarrow> u32 \<Rightarrow> u32 \<Rightarrow> message" where
  "send_enter_1_6 x y sq m = (kMsgCEnter, [WInt x, WInt y, WInteger sq, WInteger m])"

definition send_leave_1_6 :: message where
  "send_leave_1_6 = (kMsgCLeave, [])"

definition send_key_down_1_6 :: "u32 \<Rightarrow> u32 \<Rightarrow> u16 \<Rightarrow> message" where
  "send_key_down_1_6 k m b = (kMsgDKeyDown, [WInteger k, WInteger m, WInteger (ucast b)])"

definition send_key_up_1_6 :: "u32 \<Rightarrow> u32 \<Rightarrow> u16 \<Rightarrow> message" where
  "send_key_up_1_6 k m b = (kMsgDKeyUp, [WInteger k, WInteger m, WInteger (ucast b)])"

definition send_key_repeat_1_6 :: "u32 \<Rightarrow> u32 \<Rightarrow> int \<Rightarrow> u16 \<Rightarrow> message" where
  "send_key_repeat_1_6 k m n b = (kMsgDKeyRepeat, [WInteger k, WInteger m, WInt n, WInteger (ucast b)])"

definition send_mouse_down_1_6 :: "nat \<Rightarrow> message" where
  "send_mouse_down_1_6 b = (kMsgDMouseDown, [WInteger (of_nat b)])"

definition send_mouse_up_1_6 :: "nat \<Rightarrow> message" where
  "send_mouse_up_1_6 b = (kMsgDMouseUp, [WInteger (of_nat b)])"

definition send_mouse_move_1_6 :: "int \<Rightarrow> int \<Rightarrow> message" where
  "send_mouse_move_1_6 x y = (kMsgDMouseMove, [WInt x, WInt y])"

definition send_mouse_relative_move_1_6 :: "int \<Rightarrow> int \<Rightarrow> message" where
  "send_mouse_relative_move_1_6 x y = (kMsgDMouseRelMove, [WInt x, WInt y])"

definition send_mouse_wheel_1_6 :: "int \<Rightarrow> int \<Rightarrow> message" where
  "send_mouse_wheel_1_6 x y = (kMsgDMouseWheel, [WInt x, WInt y])"

definition send_drag_info_1_6 :: "u32 \<Rightarrow> bytes \<Rightarrow> message" where
  "send_drag_info_1_6 n data = (kMsgDDragInfo, [WInteger n, WString (Some data)])"

definition send_screensaver_1_6 :: "bool \<Rightarrow> message" where
  "send_screensaver_1_6 on = (kMsgCScreenSaver, [WInteger (if on then 1 else 0)])"

definition send_reset_options_1_6 :: message where
  "send_reset_options_1_6 = (kMsgCResetOptions, [])"

definition send_set_options_1_6 :: "u32 list \<Rightarrow> message" where
  "send_set_options_1_6 options = (kMsgDSetOptions, [WList32 (Some options)])"

definition send_info_ack_1_6 :: message where
  "send_info_ack_1_6 = (kMsgCInfoAck, [])"

definition send_keep_alive_1_6 :: message where
  "send_keep_alive_1_6 = (kMsgCKeepAlive, [])"

definition send_close_1_6 :: "string \<Rightarrow> message" where
  "send_close_1_6 msg = (msg, [])"

definition send_clipboard_chunk_1_6 :: "clipboard_chunk \<Rightarrow> message" where
  "send_clipboard_chunk_1_6 c = (kMsgDClipboard, clipboard_args c)"

definition send_file_chunk_1_6 :: "file_chunk \<Rightarrow> message" where
  "send_file_chunk_1_6 c = (kMsgDFileTransfer, file_args c)"

definition send_grab_clipboard :: "nat \<Rightarrow> message" where
  "send_grab_clipboard i = (kMsgCClipboard, [WInteger (of_nat i), WInteger 0])"

lemmas send_defs = send_query_info_1_6_def send_enter_1_6_def send_leave_1_6_def send_key_down_1_6_def
  send_key_up_1_6_def send_key_repeat_1_6_def send_mouse_down_1_6_def send_mouse_up_1_6_def
  send_mouse_move_1_6_def send_mouse_relative_move_1_6_def send_mouse_wheel_1_6_def
  send_drag_info_1_6_def send_screensaver_1_6_def send_reset_options_1_6_def send_set_options_1_6_def
  send_info_ack_1_6_def send_keep_alive_1_6_def send_close_1_6_def send_clipboard_chunk_1_6_def
  send_file_chunk_1_6_def send_grab_clipboard_def

text \<open>What it takes to evaluate the writing of a message.\<close>

lemmas write_simps = send_defs msg_defs writefArgs_def check_spec_def emit_spec_def addLength_def digit_value_def
  protocol_limits appendInteger_2 appendInteger_4

end
