(* ===== verification/Client.thy ===== *)
theory Client
  imports ProxyMessages Server
begin

text \<open>
  The client program's core, \<^verbatim>\<open>src/lib/client/Client.cpp\<close>: the life of a connection from the first
  attempt to the handshake and the disconnect, the handlers it installs, its clipboards, and the options
  it takes from the server. The record holds the data members; a pointer to an object the client owns is
  whether the object exists, except the stream, whose state is kept. The handlers that are installed on
  the stream, the screen and the timer are part of the state, so that an event can be delivered only
  where the code listens. What reaches the screen, the proxy of the server and the event queue is
  appended to a trace. A failed assertion and the use of an object that does not exist are errors.
\<close>

subsection \<open>State\<close>

datatype client_fault =
    NullServerProxy | ClientAssertion | ClientNullStream | OptionsPastEnd
  | ClientReadError read_error | ClientWriteError write_error | ClientClipboardError server_error

datatype fail_reason = FailText string | FailIncompatible int int

datatype client_event = CLIENT_CONNECTED_EV | CLIENT_DISCONNECTED_EV | CLIENT_CONNECTION_FAILED_EV fail_reason

datatype client_action =
    ScreenCall client_call
  | ScreenEnter u32
  | ScreenSetClipboard nat clipboard
  | ScreenEnable
  | ScreenDisable
  | PostClient client_event
  | PostInputReady
  | ClientWrite bytes
  | NewSocket
  | NewServerProxy
  | DeleteServerProxy
  | DeleteStream
  | StartConnectTimer
  | StopConnectTimer
  | ServerInfoChanged
  | ServerGrabClipboard nat
  | ServerClipboardChanged nat clipboard
  | ServerFileChunk file_chunk
  | ServerDragInfo u32 bytes
  | InterruptSending
  | StartSendThread string
  | StartWriteThread

datatype input_reader = HelloReader | ProxyReader

record client_handlers =
  h_connected :: bool
  h_secureConnected :: bool
  h_connectionFailed :: bool
  h_connection :: bool
  h_input :: "input_reader option"
  h_screen :: bool

record 's client =
  c_name :: bytes
  c_enableCrypto :: bool
  c_enableDragDrop :: bool
  c_stream :: "'s option"
  c_timer :: bool
  c_server :: bool
  c_ready :: bool
  c_active :: bool
  c_suspended :: bool
  c_connectOnResume :: bool
  c_ownClipboard :: "bool list"
  c_sentClipboard :: "bool list"
  c_timeClipboard :: "u32 list"
  c_dataClipboard :: "bytes list"
  c_sendFileThread :: bool
  c_restartable :: bool
  c_enableClipboard :: bool
  c_maximumClipboardSize :: nat
  c_handlers :: client_handlers
  c_trace :: "client_action list"

definition no_handlers :: client_handlers where
  "no_handlers = \<lparr>h_connected = False, h_secureConnected = False, h_connectionFailed = False,
     h_connection = False, h_input = None, h_screen = False\<rparr>"

text \<open>The constructor. The clipboard arrays are not initialised: \<open>u\<close> and \<open>t\<close> are what the memory holds.\<close>

definition Client_new :: "bytes \<Rightarrow> bool \<Rightarrow> bool \<Rightarrow> bool list \<Rightarrow> u32 list \<Rightarrow> 's client" where
  "Client_new name crypto drag u t =
     \<lparr>c_name = name, c_enableCrypto = crypto, c_enableDragDrop = drag, c_stream = None, c_timer = False, c_server = False, c_ready = False,
      c_active = False, c_suspended = False, c_connectOnResume = False, c_ownClipboard = u, c_sentClipboard = u,
      c_timeClipboard = t, c_dataClipboard = replicate kNumClipboards [], c_sendFileThread = False,
      c_restartable = True, c_enableClipboard = True, c_maximumClipboardSize = 2 ^ 31 - 1,
      c_handlers = no_handlers, c_trace = []\<rparr>"

definition c_emit :: "client_action \<Rightarrow> 's client \<Rightarrow> 's client" where
  "c_emit a c = c\<lparr>c_trace := c_trace c @ [a]\<rparr>"

definition send_event :: "client_event \<Rightarrow> 's client \<Rightarrow> 's client" where
  "send_event e c = c_emit (PostClient e) c"

definition sendConnectionFailedEvent :: "fail_reason \<Rightarrow> 's client \<Rightarrow> 's client" where
  "sendConnectionFailedEvent msg c = send_event (CLIENT_CONNECTION_FAILED_EV msg) c"

definition isConnected :: "'s client \<Rightarrow> bool" where
  "isConnected c = c_server c"

definition isConnecting :: "'s client \<Rightarrow> bool" where
  "isConnecting c = c_timer c"

subsection \<open>Setting up and cleaning up\<close>

definition setupConnecting :: "'s client \<Rightarrow> client_fault + 's client" where
  "setupConnecting c =
     (if c_stream c = None then Inl ClientAssertion
      else Inr (c\<lparr>c_handlers := (c_handlers c)\<lparr>h_secureConnected := h_secureConnected (c_handlers c) \<or> c_enableCrypto c,
                  h_connected := h_connected (c_handlers c) \<or> \<not> c_enableCrypto c, h_connectionFailed := True\<rparr>\<rparr>))"

definition setupConnection :: "'s client \<Rightarrow> client_fault + 's client" where
  "setupConnection c =
     (if c_stream c = None then Inl ClientAssertion
      else Inr (c\<lparr>c_handlers := (c_handlers c)\<lparr>h_connection := True, h_input := Some HelloReader\<rparr>\<rparr>))"

text \<open>The constructor of the proxy installs its own handler for input in place of \<open>handle_hello\<close>.\<close>

definition setupScreen :: "'s client \<Rightarrow> client_fault + 's client" where
  "setupScreen c =
     (if c_server c then Inl ClientAssertion
      else Inr (c_emit NewServerProxy (c\<lparr>c_ready := False, c_server := True,
             c_handlers := (c_handlers c)\<lparr>h_input := Some ProxyReader, h_screen := True\<rparr>\<rparr>)))"

definition setupTimer :: "'s client \<Rightarrow> client_fault + 's client" where
  "setupTimer c =
     (if c_timer c then Inl ClientAssertion else Inr (c_emit StartConnectTimer (c\<lparr>c_timer := True\<rparr>)))"

definition cleanupConnecting :: "'s client \<Rightarrow> 's client" where
  "cleanupConnecting c =
     (if c_stream c \<noteq> None
      then c\<lparr>c_handlers := (c_handlers c)\<lparr>h_connected := False, h_connectionFailed := False\<rparr>\<rparr> else c)"

text \<open>Deleting the stream removes what is still installed on it.\<close>

definition cleanupStream :: "'s client \<Rightarrow> 's client" where
  "cleanupStream c =
     (if c_stream c \<noteq> None
      then c_emit DeleteStream (c\<lparr>c_stream := None,
             c_handlers := no_handlers\<lparr>h_screen := h_screen (c_handlers c)\<rparr>\<rparr>)
      else c)"

definition cleanupConnection :: "'s client \<Rightarrow> 's client" where
  "cleanupConnection c =
     (if c_stream c \<noteq> None
      then cleanupStream (c\<lparr>c_handlers := (c_handlers c)\<lparr>h_connection := False, h_input := None\<rparr>\<rparr>) else c)"

text \<open>The destructor of the proxy removes its handler for input.\<close>

definition cleanupScreen :: "'s client \<Rightarrow> 's client" where
  "cleanupScreen c =
     (if c_server c then
        (let c = (if c_ready c then (c_emit ScreenDisable c)\<lparr>c_ready := False\<rparr> else c) in
         c_emit DeleteServerProxy (c\<lparr>c_server := False,
           c_handlers := (c_handlers c)\<lparr>h_screen := False, h_input := None\<rparr>\<rparr>))
      else c)"

definition cleanupTimer :: "'s client \<Rightarrow> 's client" where
  "cleanupTimer c = (if c_timer c then (c_emit StopConnectTimer c)\<lparr>c_timer := False\<rparr> else c)"

subsection \<open>Connecting and disconnecting\<close>

text \<open>
  What happens to the attempt: the address cannot be resolved or the socket not be created, the connection
  cannot be started, or it is under way on a stream in the given state.
\<close>

datatype 's attempt = NoSocket string | ConnectThrows 's string | UnderWay 's

definition start_connecting :: "'s \<Rightarrow> 's client \<Rightarrow> client_fault + 's client" where
  "start_connecting s c =
     and_then (setupConnecting (c_emit NewSocket (c\<lparr>c_stream := Some s\<rparr>))) setupTimer"

definition connection_attempt_failed :: "string \<Rightarrow> 's client \<Rightarrow> 's client" where
  "connection_attempt_failed msg c =
     sendConnectionFailedEvent (FailText msg) (cleanupStream (cleanupConnecting (cleanupTimer c)))"

definition Client_connect :: "'s attempt \<Rightarrow> 's client \<Rightarrow> client_fault + 's client" where
  "Client_connect a c =
     (if c_stream c \<noteq> None then Inr c
      else if c_suspended c then Inr (c\<lparr>c_connectOnResume := True\<rparr>)
      else case a of
        NoSocket msg \<Rightarrow> Inr (connection_attempt_failed msg c)
      | ConnectThrows s msg \<Rightarrow> and_then (start_connecting s c) (\<lambda>c. Inr (connection_attempt_failed msg c))
      | UnderWay s \<Rightarrow> start_connecting s c)"

definition Client_disconnect :: "string option \<Rightarrow> 's client \<Rightarrow> 's client" where
  "Client_disconnect msg c =
     (let c = cleanupConnection (cleanupConnecting (cleanupScreen (cleanupTimer (c\<lparr>c_connectOnResume := False\<rparr>)))) in
      case msg of
        Some m \<Rightarrow> sendConnectionFailedEvent (FailText m) c
      | None \<Rightarrow> send_event CLIENT_DISCONNECTED_EV c)"

definition Client_delete :: "'s client \<Rightarrow> 's client" where
  "Client_delete c = cleanupConnection (cleanupConnecting (cleanupScreen (cleanupTimer c)))"

definition handshakeComplete :: "'s client \<Rightarrow> 's client" where
  "handshakeComplete c = send_event CLIENT_CONNECTED_EV (c_emit ScreenEnable (c\<lparr>c_ready := True\<rparr>))"

definition handle_connected :: "'s client \<Rightarrow> client_fault + 's client" where
  "handle_connected c =
     and_then (setupConnection (cleanupConnecting c)) (\<lambda>c.
     Inr (c\<lparr>c_ownClipboard := replicate kNumClipboards False, c_sentClipboard := replicate kNumClipboards False,
           c_timeClipboard := replicate kNumClipboards 0\<rparr>))"

definition handle_connection_failed :: "string \<Rightarrow> 's client \<Rightarrow> 's client" where
  "handle_connection_failed msg c = connection_attempt_failed msg c"

definition handle_connect_timeout :: "'s client \<Rightarrow> 's client" where
  "handle_connect_timeout c =
     sendConnectionFailedEvent (FailText ''Timed out'')
       (cleanupStream (cleanupConnection (cleanupConnecting (cleanupTimer c))))"

definition handle_output_error :: "'s client \<Rightarrow> 's client" where
  "handle_output_error c = send_event CLIENT_DISCONNECTED_EV (cleanupConnection (cleanupScreen (cleanupTimer c)))"

definition handle_disconnected :: "'s client \<Rightarrow> 's client" where
  "handle_disconnected c = send_event CLIENT_DISCONNECTED_EV (cleanupConnection (cleanupScreen (cleanupTimer c)))"

definition handle_stop_retry :: "'s client \<Rightarrow> 's client" where
  "handle_stop_retry c = c\<lparr>c_restartable := False\<rparr>"

definition handle_suspend :: "'s client \<Rightarrow> 's client" where
  "handle_suspend c =
     (let wasConnected = isConnected c in (Client_disconnect None (c\<lparr>c_suspended := True\<rparr>))\<lparr>c_connectOnResume := wasConnected\<rparr>)"

definition handle_resume :: "'s attempt \<Rightarrow> 's client \<Rightarrow> client_fault + 's client" where
  "handle_resume a c =
     (let c = c\<lparr>c_suspended := False\<rparr> in
      if c_connectOnResume c then Client_connect a (c\<lparr>c_connectOnResume := False\<rparr>) else Inr c)"

subsection \<open>The greeting\<close>

definition hello_failed :: "fail_reason \<Rightarrow> 's client \<Rightarrow> 's client" where
  "hello_failed msg c = cleanupConnection (cleanupTimer (sendConnectionFailedEvent msg c))"

definition answer_hello :: "('s \<Rightarrow> bool) \<Rightarrow> 's \<Rightarrow> 's client \<Rightarrow> client_fault + 's client" where
  "answer_hello ready s c =
     (case writefArgs kMsgHelloBack
        [WInt kProtocolMajorVersion, WInt kProtocolMinorVersion, WString (Some (c_name c))] of
        Inl e \<Rightarrow> Inl (ClientWriteError e)
      | Inr bs \<Rightarrow>
          and_then (setupScreen (c_emit (ClientWrite bs) c)) (\<lambda>c.
          (let c = cleanupTimer c in Inr (if ready s then c_emit PostInputReady c else c))))"

definition handle_hello :: "'s reader \<Rightarrow> ('s \<Rightarrow> bool) \<Rightarrow> 's client \<Rightarrow> client_fault + 's client" where
  "handle_hello rd ready c =
     (case c_stream c of
        None \<Rightarrow> Inl ClientNullStream
      | Some s \<Rightarrow>
          (case readf rd s kMsgHello of
             (Inl e, _, _) \<Rightarrow> Inl (ClientReadError e)
           | (Inr ok, vs, s) \<Rightarrow>
               (let c = c\<lparr>c_stream := Some s\<rparr> in
                if \<not> ok then
                  Inr (hello_failed (FailText ''Protocol error from server, check encryption settings'') c)
                else case vs of
                  [RInt2 major, RInt2 minor] \<Rightarrow>
                    (if sint major < kProtocolMajorVersion \<or>
                        sint major = kProtocolMajorVersion \<and> sint minor < kProtocolMinorVersion
                     then Inr (hello_failed (FailIncompatible (sint major) (sint minor)) c)
                     else answer_hello ready s c)
                | _ \<Rightarrow> Inl ClientAssertion)))"

subsection \<open>Calls of the proxy\<close>

definition to_screen :: "client_call \<Rightarrow> 's client \<Rightarrow> 's client" where
  "to_screen k c = c_emit (ScreenCall k) c"

definition c_enter :: "int \<Rightarrow> int \<Rightarrow> u32 \<Rightarrow> u32 \<Rightarrow> bool \<Rightarrow> 's client \<Rightarrow> 's client" where
  "c_enter x y sq m saver c =
     (let c = c_emit (ScreenEnter m) (to_screen (MouseMove x y) (c\<lparr>c_active := True\<rparr>)) in
      if c_sendFileThread c then (c_emit InterruptSending c)\<lparr>c_sendFileThread := False\<rparr> else c)"

text \<open>
  \<open>c_sendClipboard\<close>. \<open>grab\<close> is the screen's \<open>getClipboard\<close>, which fills the clipboard it is given. A clipboard whose
  time did not change is not sent again, nor one whose data was sent before.
\<close>

definition c_sendClipboard :: "env \<Rightarrow> (nat \<Rightarrow> clipboard \<Rightarrow> clipboard) \<Rightarrow> nat \<Rightarrow> 's client \<Rightarrow> client_fault + 's client" where
  "c_sendClipboard env grab i c =
     (if \<not> c_server c then Inl ClientAssertion
      else
        case and_then (lift_clip (and_then clip_new (\<lambda>new. and_then (clip_open new (c_timeClipboard c ! i)) (\<lambda>(o1, _). clip_close o1)))) (\<lambda>clip.
             (let clip = grab i clip in
              if c_timeClipboard c ! i = 0 \<or> clip_getTime clip \<noteq> c_timeClipboard c ! i then
                and_then (prepare_outgoing env True clip) (\<lambda>(clip', out).
                case out of
                  None \<Rightarrow> Inr (Some (clip_getTime clip, None))
                | Some out \<Rightarrow>
                    and_then (sv_marshall env (case out of None \<Rightarrow> clip' | Some x \<Rightarrow> x)) (\<lambda>(m, data).
                    Inr (Some (clip_getTime clip, Some (m, data)))))
              else Inr None)) of
          Inl e \<Rightarrow> Inl (ClientClipboardError e)
        | Inr None \<Rightarrow> Inr c
        | Inr (Some (time, outgoing)) \<Rightarrow>
            (let c = c\<lparr>c_timeClipboard := (c_timeClipboard c)[i := time]\<rparr> in
             case outgoing of
               None \<Rightarrow> Inr c
             | Some (clip, data) \<Rightarrow>
                 (if c_maximumClipboardSize c \<le> length data then Inr c
                  else if \<not> c_sentClipboard c ! i \<or> data \<noteq> c_dataClipboard c ! i then
                    Inr (c_emit (ServerClipboardChanged i clip)
                      (c\<lparr>c_sentClipboard := (c_sentClipboard c)[i := True], c_dataClipboard := (c_dataClipboard c)[i := data]\<rparr>))
                  else Inr c)))"

fun send_owned :: "env \<Rightarrow> (nat \<Rightarrow> clipboard \<Rightarrow> clipboard) \<Rightarrow> nat list \<Rightarrow> 's client \<Rightarrow> client_fault + 's client" where
  "send_owned env grab [] c = Inr c"
| "send_owned env grab (i # is) c =
     and_then (if c_ownClipboard c ! i then c_sendClipboard env grab i c else Inr c) (send_owned env grab is)"

definition c_leave :: "env \<Rightarrow> (nat \<Rightarrow> clipboard \<Rightarrow> clipboard) \<Rightarrow> 's client \<Rightarrow> client_fault + 's client" where
  "c_leave env grab c =
     (let c = to_screen Leave (c\<lparr>c_active := False\<rparr>) in
      if c_enableClipboard c then send_owned env grab [0..<kNumClipboards] c else Inr c)"

definition disown :: "nat \<Rightarrow> 's client \<Rightarrow> 's client" where
  "disown i c = c\<lparr>c_ownClipboard := (c_ownClipboard c)[i := False], c_sentClipboard := (c_sentClipboard c)[i := False]\<rparr>"

text \<open>
  \<open>setClipboard\<close>. A file package is unpacked into the cache directory; \<open>home\<close> says whether \<^verbatim>\<open>HOME\<close> is set. The
  package of the selection is ignored.
\<close>

definition c_setClipboard :: "env \<Rightarrow> bool \<Rightarrow> nat \<Rightarrow> clipboard \<Rightarrow> 's client \<Rightarrow> client_fault + 's client" where
  "c_setClipboard env home i clip c =
     (case and_then (lift_clip (clip_open clip 0)) (\<lambda>(o1, _).
           and_then (lift_clip (clip_has o1 kFileList)) (\<lambda>hasFiles.
           and_then (lift_clip (if hasFiles then clip_get o1 kFileList else Inr [])) (\<lambda>files.
           and_then (lift_clip (clip_close o1)) (\<lambda>shut. Inr (hasFiles \<and> ev_isFilePackage env files, files, shut))))) of
        Inl e \<Rightarrow> Inl (ClientClipboardError e)
      | Inr (isPackage, files, shut) \<Rightarrow>
          (if \<not> isPackage then Inr (disown i (c_emit (ScreenSetClipboard i shut) c))
           else if i = 1 then Inr (disown i c)
           else if \<not> home then Inr c
           else case ev_unpackFilePackage env files of
             None \<Rightarrow> Inr c
           | Some localFiles \<Rightarrow>
               (case with_file_list shut localFiles of
                  Inl e \<Rightarrow> Inl (ClientClipboardError e)
                | Inr (own, _) \<Rightarrow> Inr (disown i (c_emit (ScreenSetClipboard i own) c)))))"

definition c_grabClipboard :: "nat \<Rightarrow> 's client \<Rightarrow> 's client" where
  "c_grabClipboard i c = disown i (to_screen (GrabClipboard i) c)"

text \<open>
  The loop of \<open>setOptions\<close> steps over single elements, so that values are looked at as if they were
  options; after the clipboard switch it stops. Reading the value behind the last element is an error.
\<close>

fun take_options :: "u32 list \<Rightarrow> 's client \<Rightarrow> client_fault + 's client" where
  "take_options [] c = Inr c"
| "take_options (opt # rest) c =
     (if unat opt = kOptionClipboardSharing then
        (case rest of [] \<Rightarrow> Inl OptionsPastEnd | v # _ \<Rightarrow> Inr (c\<lparr>c_enableClipboard := (v \<noteq> 0)\<rparr>))
      else if unat opt = kOptionClipboardSharingSize then
        (case rest of [] \<Rightarrow> Inl OptionsPastEnd | v # rest' \<Rightarrow> take_options rest' (c\<lparr>c_maximumClipboardSize := unat v\<rparr>))
      else take_options rest c)"

definition c_setOptions :: "u32 list \<Rightarrow> 's client \<Rightarrow> client_fault + 's client" where
  "c_setOptions options c =
     and_then (take_options options c) (\<lambda>c.
     (let c = (if c_enableClipboard c \<and> c_maximumClipboardSize c = 0 then c\<lparr>c_enableClipboard := False\<rparr> else c) in
      Inr (to_screen (SetOptions options) c)))"

subsection \<open>Events of the screen\<close>

definition c_handle_shape_changed :: "'s client \<Rightarrow> client_fault + 's client" where
  "c_handle_shape_changed c = (if c_server c then Inr (c_emit ServerInfoChanged c) else Inl NullServerProxy)"

definition c_handle_clipboard_grabbed :: "env \<Rightarrow> (nat \<Rightarrow> clipboard \<Rightarrow> clipboard) \<Rightarrow> nat \<Rightarrow> 's client \<Rightarrow> client_fault + 's client" where
  "c_handle_clipboard_grabbed env grab i c =
     (if \<not> c_enableClipboard c \<or> c_maximumClipboardSize c = 0 then Inr c
      else if \<not> c_server c then Inl NullServerProxy
      else
        (let c = c_emit (ServerGrabClipboard i) c;
             c = c\<lparr>c_ownClipboard := (c_ownClipboard c)[i := True], c_sentClipboard := (c_sentClipboard c)[i := False],
                   c_timeClipboard := (c_timeClipboard c)[i := 0]\<rparr>
         in if \<not> c_active c then c_sendClipboard env grab i c else Inr c))"

subsection \<open>Files\<close>

definition send_file_chunk :: "file_chunk \<Rightarrow> 's client \<Rightarrow> client_fault + 's client" where
  "send_file_chunk chunk c = (if c_server c then Inr (c_emit (ServerFileChunk chunk) c) else Inl ClientAssertion)"

definition c_sendDragInfo :: "u32 \<Rightarrow> bytes \<Rightarrow> 's client \<Rightarrow> client_fault + 's client" where
  "c_sendDragInfo n info c = (if c_server c then Inr (c_emit (ServerDragInfo n info) c) else Inl NullServerProxy)"

definition onFileReceiveCompleted :: "nat \<Rightarrow> bytes \<Rightarrow> 's client \<Rightarrow> 's client" where
  "onFileReceiveCompleted expected received c = (if expected = length received then c_emit StartWriteThread c else c)"

definition sendFileToServer :: "string \<Rightarrow> 's client \<Rightarrow> 's client" where
  "sendFileToServer name c =
     (let c = (if c_sendFileThread c then c_emit InterruptSending c else c) in
      (c_emit (StartSendThread name) c)\<lparr>c_sendFileThread := True\<rparr>)"

end
