(* ===== verification/ServerProxy.thy ===== *)
theory ServerProxy
  imports ProxyMessages
begin

text \<open>
  The client's end of a connection: \<^verbatim>\<open>src/lib/client/ServerProxy.cpp\<close> turns the messages of the server into
  calls on the client and the client's changes into messages. The record holds the data members, the
  static buffer of the clipboard being received, the client's file buffer and a trace of everything the
  proxy does to the client, the stream, the event queue and its alarm. The stream is any state type with
  a reader; the client's shape and cursor, which the code asks for, are part of the record \<open>link\<close>. A
  handler that fails returns the reason together with the state it left: a thrown \<^verbatim>\<open>XBadClient\<close> is caught in
  \<open>handle_data\<close>, the other reasons are undefined behaviour or exceptions that leave it. Pointer coordinates
  are \<^verbatim>\<open>int32_t\<close> in the code and integers here.
\<close>

subsection \<open>Constants\<close>

definition KeyModifierMeta :: u32 where "KeyModifierMeta = 0x0008"
definition KeyModifierSuper :: u32 where "KeyModifierSuper = 0x0010"
definition KeyModifierAltGr :: u32 where "KeyModifierAltGr = 0x0020"

lemmas modifier_masks = KeyModifierShift_def KeyModifierControl_def KeyModifierAlt_def
  KeyModifierMeta_def KeyModifierSuper_def KeyModifierAltGr_def

definition kKeyNone :: u32 where "kKeyNone = 0x0000"
definition kKeyAltGr :: u32 where "kKeyAltGr = 0xEF7E"
definition kKeyShift_L :: u32 where "kKeyShift_L = 0xEFE1"
definition kKeyShift_R :: u32 where "kKeyShift_R = 0xEFE2"
definition kKeyControl_L :: u32 where "kKeyControl_L = 0xEFE3"
definition kKeyControl_R :: u32 where "kKeyControl_R = 0xEFE4"
definition kKeyMeta_L :: u32 where "kKeyMeta_L = 0xEFE7"
definition kKeyMeta_R :: u32 where "kKeyMeta_R = 0xEFE8"
definition kKeyAlt_L :: u32 where "kKeyAlt_L = 0xEFE9"
definition kKeyAlt_R :: u32 where "kKeyAlt_R = 0xEFEA"
definition kKeySuper_L :: u32 where "kKeySuper_L = 0xEFEB"
definition kKeySuper_R :: u32 where "kKeySuper_R = 0xEFEC"

lemmas modifier_keys = kKeyNone_def kKeyAltGr_def kKeyShift_L_def kKeyShift_R_def kKeyControl_L_def
  kKeyControl_R_def kKeyMeta_L_def kKeyMeta_R_def kKeyAlt_L_def kKeyAlt_R_def kKeySuper_L_def
  kKeySuper_R_def

lemmas modifier_options = OPTION_CODE_def kOptionModifierMapForShift_def kOptionModifierMapForControl_def
  kOptionModifierMapForAlt_def kOptionModifierMapForAltGr_def kOptionModifierMapForMeta_def
  kOptionModifierMapForSuper_def kOptionHeartbeat_def

subsection \<open>State\<close>

datatype sp_parser = ParseHandshake | ParseMessage
datatype sp_result = kOkay | kUnknown | kDisconnect

text \<open>The calls on the client, on the stream, on the event queue and on the alarm.\<close>

datatype sp_action =
    ToClient client_call
  | ClientClipboard byte clipboard
  | ClientDraggingFiles "drag_file list"
  | ClientHandshakeComplete
  | ClientDisconnect "string option"
  | StreamWrite bytes
  | PostChunks "chunk_event list"
  | PostFileReceiveCompleted
  | StartAlarm rat
  | StopAlarm

record 's server_proxy =
  sp_stream :: 's
  sp_seqNum :: u32
  sp_compressMouse :: bool
  sp_compressMouseRelative :: bool
  sp_xMouse :: int
  sp_yMouse :: int
  sp_dxMouse :: int
  sp_dyMouse :: int
  sp_ignoreMouse :: bool
  sp_modifierTranslationTable :: "u32 list"
  sp_keepAliveAlarm :: rat
  sp_keepAliveAlarmTimer :: bool
  sp_parser :: sp_parser
  sp_clipboard :: clipboard_assembly
  sp_file :: file_assembly
  sp_trace :: "sp_action list"

text \<open>
  What the proxy asks of others: the stream's \<open>read\<close> and \<open>isReady\<close>, the client's shape and cursor,
  what an uninitialised size holds, and whether the client has drag and drop enabled.
\<close>

record 's link =
  lk_read :: "'s reader"
  lk_isReady :: "'s \<Rightarrow> bool"
  lk_shape :: shape
  lk_cursor :: "int \<times> int"
  lk_junk :: nat
  lk_enableDragDrop :: bool

type_synonym ('s, 'a) sp_step = "(proxy_fault \<times> 's server_proxy) + 'a"

definition sp_emit :: "sp_action \<Rightarrow> 's server_proxy \<Rightarrow> 's server_proxy" where
  "sp_emit a p = p\<lparr>sp_trace := sp_trace p @ [a]\<rparr>"

abbreviation to_client :: "client_call \<Rightarrow> 's server_proxy \<Rightarrow> 's server_proxy" where
  "to_client c \<equiv> sp_emit (ToClient c)"

text \<open>\<^verbatim>\<open>ProtocolUtil::writef\<close> and \<^verbatim>\<open>ProtocolUtil::readf\<close> on the proxy's stream.\<close>

definition sp_writef :: "string \<Rightarrow> write_arg list \<Rightarrow> 's server_proxy \<Rightarrow> ('s, 's server_proxy) sp_step" where
  "sp_writef fmt args p =
     (case writefArgs fmt args of
        Inl e \<Rightarrow> Inl (ThrowWrite e, p)
      | Inr bs \<Rightarrow> Inr (sp_emit (StreamWrite bs) p))"

definition sp_readf :: "'s link \<Rightarrow> string \<Rightarrow> 's server_proxy \<Rightarrow>
    ('s, bool \<times> read_val list \<times> 's server_proxy) sp_step" where
  "sp_readf l fmt p =
     (case readf (lk_read l) (sp_stream p) fmt of
        (Inl e, _, s) \<Rightarrow> Inl (thrown e, p\<lparr>sp_stream := s\<rparr>)
      | (Inr ok, vs, s) \<Rightarrow> Inr (ok, vs, p\<lparr>sp_stream := s\<rparr>))"

subsection \<open>Keep-alive alarm\<close>

definition resetKeepAliveAlarm :: "'s server_proxy \<Rightarrow> 's server_proxy" where
  "resetKeepAliveAlarm p =
     (let p = (if sp_keepAliveAlarmTimer p then (sp_emit StopAlarm p)\<lparr>sp_keepAliveAlarmTimer := False\<rparr> else p) in
      if 0 < sp_keepAliveAlarm p
      then (sp_emit (StartAlarm (sp_keepAliveAlarm p)) p)\<lparr>sp_keepAliveAlarmTimer := True\<rparr> else p)"

definition setKeepAliveRate :: "rat \<Rightarrow> 's server_proxy \<Rightarrow> 's server_proxy" where
  "setKeepAliveRate rate p = resetKeepAliveAlarm (p\<lparr>sp_keepAliveAlarm := rate * kKeepAlivesUntilDeath\<rparr>)"

definition handle_keep_alive_alarm :: "'s server_proxy \<Rightarrow> 's server_proxy" where
  "handle_keep_alive_alarm p = sp_emit (ClientDisconnect (Some ''server is not responding'')) p"

definition identity_table :: "u32 list" where
  "identity_table = map of_nat [0..<kKeyModifierIDLast]"

text \<open>The constructor; the static clipboard buffer and the client's file buffer exist before it.\<close>

definition ServerProxy_new :: "'s \<Rightarrow> clipboard_assembly \<Rightarrow> file_assembly \<Rightarrow> 's server_proxy" where
  "ServerProxy_new s ca fa = setKeepAliveRate kKeepAliveRate
     \<lparr>sp_stream = s, sp_seqNum = 0, sp_compressMouse = False, sp_compressMouseRelative = False,
      sp_xMouse = 0, sp_yMouse = 0, sp_dxMouse = 0, sp_dyMouse = 0, sp_ignoreMouse = False,
      sp_modifierTranslationTable = identity_table, sp_keepAliveAlarm = 0, sp_keepAliveAlarmTimer = False,
      sp_parser = ParseHandshake, sp_clipboard = ca, sp_file = fa, sp_trace = []\<rparr>"

definition ServerProxy_delete :: "'s server_proxy \<Rightarrow> 's server_proxy" where
  "ServerProxy_delete p = setKeepAliveRate (- 1) p"

subsection \<open>Translation of modifiers\<close>

definition s_translationTable :: "(u32 \<times> u32) list" where
  "s_translationTable =
     [(kKeyNone, kKeyNone), (kKeyShift_L, kKeyShift_R), (kKeyControl_L, kKeyControl_R),
      (kKeyAlt_L, kKeyAlt_R), (kKeyMeta_L, kKeyMeta_R), (kKeySuper_L, kKeySuper_R),
      (kKeyAltGr, kKeyAltGr)]"

text \<open>The switch of \<open>translateKey\<close>: the modifier of a key and its side.\<close>

definition modifier_side :: "u32 \<Rightarrow> nat \<times> nat" where
  "modifier_side k =
     (if k = kKeyShift_L then (kKeyModifierIDShift, 0)
      else if k = kKeyShift_R then (kKeyModifierIDShift, 1)
      else if k = kKeyControl_L then (kKeyModifierIDControl, 0)
      else if k = kKeyControl_R then (kKeyModifierIDControl, 1)
      else if k = kKeyAlt_L then (kKeyModifierIDAlt, 0)
      else if k = kKeyAlt_R then (kKeyModifierIDAlt, 1)
      else if k = kKeyAltGr then (kKeyModifierIDAltGr, 1)
      else if k = kKeyMeta_L then (kKeyModifierIDMeta, 0)
      else if k = kKeyMeta_R then (kKeyModifierIDMeta, 1)
      else if k = kKeySuper_L then (kKeyModifierIDSuper, 0)
      else if k = kKeySuper_R then (kKeyModifierIDSuper, 1)
      else (kKeyModifierIDNull, 0))"

text \<open>\<open>None\<close> is an access outside \<^verbatim>\<open>s_translationTable\<close> or \<^verbatim>\<open>s_masks\<close>.\<close>

definition translateKey :: "u32 list \<Rightarrow> u32 \<Rightarrow> u32 option" where
  "translateKey table k =
     (let (id2, side) = modifier_side k in
      if id2 \<noteq> kKeyModifierIDNull then
        (let row = unat (table ! id2) in
         if row < length s_translationTable
         then Some (if side = 0 then fst (s_translationTable ! row) else snd (s_translationTable ! row))
         else None)
      else Some k)"

definition s_masks :: "u32 list" where
  "s_masks = [0x0000, KeyModifierShift, KeyModifierControl, KeyModifierAlt, KeyModifierMeta,
     KeyModifierSuper, KeyModifierAltGr]"

fun translate_bits :: "u32 list \<Rightarrow> u32 \<Rightarrow> (u32 \<times> nat) list \<Rightarrow> u32 \<Rightarrow> u32 option" where
  "translate_bits table m [] newMask = Some newMask"
| "translate_bits table m ((b, k) # rest) newMask =
     (if m AND b \<noteq> 0 then
        (let i = unat (table ! k) in
         if i < length s_masks then translate_bits table m rest (newMask OR s_masks ! i) else None)
      else translate_bits table m rest newMask)"

definition translateModifierMask :: "u32 list \<Rightarrow> u32 \<Rightarrow> u32 option" where
  "translateModifierMask table m = translate_bits table m
     [(KeyModifierShift, kKeyModifierIDShift), (KeyModifierControl, kKeyModifierIDControl),
      (KeyModifierAlt, kKeyModifierIDAlt), (KeyModifierAltGr, kKeyModifierIDAltGr),
      (KeyModifierMeta, kKeyModifierIDMeta), (KeyModifierSuper, kKeyModifierIDSuper)]
     (m AND NOT (KeyModifierShift OR KeyModifierControl OR KeyModifierAlt OR KeyModifierMeta OR
       KeyModifierSuper OR KeyModifierAltGr))"

subsection \<open>Messages to the server\<close>

definition sendInfo :: "shape \<Rightarrow> int \<times> int \<Rightarrow> 's server_proxy \<Rightarrow> ('s, 's server_proxy) sp_step" where
  "sendInfo = (\<lambda>(x, y, w, h) (mx, my). sp_writef kMsgDInfo
     [WInteger (of_int x), WInteger (of_int y), WInteger (of_int w), WInteger (of_int h), WInteger 0,
      WInteger (of_int mx), WInteger (of_int my)])"

definition queryInfo :: "'s link \<Rightarrow> 's server_proxy \<Rightarrow> ('s, 's server_proxy) sp_step" where
  "queryInfo l p = sendInfo (lk_shape l) (lk_cursor l) p"

definition onInfoChanged :: "'s link \<Rightarrow> 's server_proxy \<Rightarrow> ('s, 's server_proxy) sp_step" where
  "onInfoChanged l p = queryInfo l (p\<lparr>sp_ignoreMouse := True\<rparr>)"

definition onGrabClipboard :: "byte \<Rightarrow> 's server_proxy \<Rightarrow> ('s, 's server_proxy) sp_step" where
  "onGrabClipboard i p = sp_writef kMsgCClipboard [WInteger (ucast i), WInteger (sp_seqNum p)] p"

definition sp_onClipboardChanged :: "byte \<Rightarrow> clipboard \<Rightarrow> 's server_proxy \<Rightarrow> ('s, 's server_proxy) sp_step" where
  "sp_onClipboardChanged i c p =
     (case clip_marshall c of
        Inl e \<Rightarrow> Inl (ClipboardFault e, p)
      | Inr (_, data) \<Rightarrow>
          (case sendClipboard data (length data) i (sp_seqNum p) of
             None \<Rightarrow> Inl (AssertionFault, p)
           | Some evs \<Rightarrow> Inr (sp_emit (PostChunks evs) p)))"

definition sp_handle_clipboard_sending_event :: "clipboard_chunk \<Rightarrow> 's server_proxy \<Rightarrow> ('s, 's server_proxy) sp_step" where
  "sp_handle_clipboard_sending_event c p = sp_writef kMsgDClipboard (clipboard_args c) p"

definition sp_file_chunk_sending :: "file_chunk \<Rightarrow> 's server_proxy \<Rightarrow> ('s, 's server_proxy) sp_step" where
  "sp_file_chunk_sending c p = sp_writef kMsgDFileTransfer (file_args c) p"

definition sp_sendDragInfo :: "u32 \<Rightarrow> bytes \<Rightarrow> 's server_proxy \<Rightarrow> ('s, 's server_proxy) sp_step" where
  "sp_sendDragInfo n info p = sp_writef kMsgDDragInfo [WInteger n, WString (Some info)] p"

subsection \<open>Messages from the server\<close>

definition flushCompressedMouse :: "'s server_proxy \<Rightarrow> 's server_proxy" where
  "flushCompressedMouse p =
     (let p = (if sp_compressMouse p
               then to_client (MouseMove (sp_xMouse p) (sp_yMouse p)) (p\<lparr>sp_compressMouse := False\<rparr>) else p) in
      if sp_compressMouseRelative p
      then (to_client (MouseRelativeMove (sp_dxMouse p) (sp_dyMouse p)) (p\<lparr>sp_compressMouseRelative := False\<rparr>))
             \<lparr>sp_dxMouse := 0, sp_dyMouse := 0\<rparr>
      else p)"

text \<open>The results of these reads are used whether or not they were all stored.\<close>

definition sp_enter :: "'s link \<Rightarrow> 's server_proxy \<Rightarrow> ('s, 's server_proxy) sp_step" where
  "sp_enter l p =
     and_then (sp_readf l (drop 4 kMsgCEnter) p) (\<lambda>(ok, vs, p).
     case vs of
       [RInt2 x, RInt2 y, RInt4 sq, RInt2 m] \<Rightarrow>
         Inr (to_client (Enter (sint x) (sint y) sq (ucast m) False)
           (p\<lparr>sp_compressMouse := False, sp_compressMouseRelative := False, sp_dxMouse := 0, sp_dyMouse := 0,
              sp_seqNum := sq\<rparr>))
     | _ \<Rightarrow> Inl (Uninitialised, p))"

definition sp_leave :: "'s server_proxy \<Rightarrow> 's server_proxy" where
  "sp_leave p = to_client Leave (flushCompressedMouse p)"

definition sp_setClipboard :: "'s link \<Rightarrow> 's server_proxy \<Rightarrow> ('s, 's server_proxy) sp_step" where
  "sp_setClipboard l p =
     (case ClipboardChunk_assemble (lk_junk l) (lk_read l) (sp_stream p) (sp_clipboard p) of
        (Inl e, a, s) \<Rightarrow> Inl (thrown e, p\<lparr>sp_clipboard := a, sp_stream := s\<rparr>)
      | (Inr r, a, s) \<Rightarrow>
          (let p = p\<lparr>sp_clipboard := a, sp_stream := s\<rparr> in
           if r = kFinish then
             (case and_then clip_new (\<lambda>c. clip_unmarshall c (ca_dataCached a) 0) of
                Inl e \<Rightarrow> Inl (ClipboardFault e, p)
              | Inr c \<Rightarrow> Inr (sp_emit (ClientClipboard (ca_id a) c) p))
           else Inr p))"

definition sp_grabClipboard :: "'s link \<Rightarrow> 's server_proxy \<Rightarrow> ('s, 's server_proxy) sp_step" where
  "sp_grabClipboard l p =
     and_then (sp_readf l (drop 4 kMsgCClipboard) p) (\<lambda>(ok, vs, p).
     case vs of
       RInt1 i # _ \<Rightarrow> Inr (if kClipboardEnd \<le> i then p else to_client (GrabClipboard (unat i)) p)
     | _ \<Rightarrow> Inl (Uninitialised, p))"

text \<open>The key handlers share their translation; \<open>k\<close> is the call they make.\<close>

definition forward_key :: "u16 \<Rightarrow> u16 \<Rightarrow> (u32 \<Rightarrow> u32 \<Rightarrow> client_call) \<Rightarrow> 's server_proxy \<Rightarrow>
    ('s, 's server_proxy) sp_step" where
  "forward_key i m k p =
     (case (translateKey (sp_modifierTranslationTable p) (ucast i),
            translateModifierMask (sp_modifierTranslationTable p) (ucast m)) of
        (Some i2, Some m2) \<Rightarrow> Inr (to_client (k i2 m2) p)
      | _ \<Rightarrow> Inl (TableOutOfRange, p))"

definition sp_keyDown :: "'s link \<Rightarrow> 's server_proxy \<Rightarrow> ('s, 's server_proxy) sp_step" where
  "sp_keyDown l p =
     and_then (sp_readf l (drop 4 kMsgDKeyDown) (flushCompressedMouse p)) (\<lambda>(ok, vs, p).
     if \<not> ok then Inl (ThrowBadClient, p)
     else case vs of
       [RInt2 i, RInt2 m, RInt2 b] \<Rightarrow> forward_key i m (\<lambda>i m. KeyDown i m b) p
     | _ \<Rightarrow> Inl (AssertionFault, p))"

definition sp_keyRepeat :: "'s link \<Rightarrow> 's server_proxy \<Rightarrow> ('s, 's server_proxy) sp_step" where
  "sp_keyRepeat l p =
     and_then (sp_readf l (drop 4 kMsgDKeyRepeat) (flushCompressedMouse p)) (\<lambda>(ok, vs, p).
     if \<not> ok then Inl (ThrowBadClient, p)
     else case vs of
       [RInt2 i, RInt2 m, RInt2 n, RInt2 b] \<Rightarrow> forward_key i m (\<lambda>i m. KeyRepeat i m (uint n) b) p
     | _ \<Rightarrow> Inl (AssertionFault, p))"

definition sp_keyUp :: "'s link \<Rightarrow> 's server_proxy \<Rightarrow> ('s, 's server_proxy) sp_step" where
  "sp_keyUp l p =
     and_then (sp_readf l (drop 4 kMsgDKeyUp) (flushCompressedMouse p)) (\<lambda>(ok, vs, p).
     if \<not> ok then Inl (ThrowBadClient, p)
     else case vs of
       [RInt2 i, RInt2 m, RInt2 b] \<Rightarrow> forward_key i m (\<lambda>i m. KeyUp i m b) p
     | _ \<Rightarrow> Inl (AssertionFault, p))"

definition sp_mouseDown :: "'s link \<Rightarrow> 's server_proxy \<Rightarrow> ('s, 's server_proxy) sp_step" where
  "sp_mouseDown l p =
     and_then (sp_readf l (drop 4 kMsgDMouseDown) (flushCompressedMouse p)) (\<lambda>(ok, vs, p).
     if \<not> ok then Inl (ThrowBadClient, p)
     else case vs of
       [RInt1 i] \<Rightarrow> Inr (to_client (MouseDown (unat i)) p)
     | _ \<Rightarrow> Inl (AssertionFault, p))"

definition sp_mouseUp :: "'s link \<Rightarrow> 's server_proxy \<Rightarrow> ('s, 's server_proxy) sp_step" where
  "sp_mouseUp l p =
     and_then (sp_readf l (drop 4 kMsgDMouseUp) (flushCompressedMouse p)) (\<lambda>(ok, vs, p).
     if \<not> ok then Inl (ThrowBadClient, p)
     else case vs of
       [RInt1 i] \<Rightarrow> Inr (to_client (MouseUp (unat i)) p)
     | _ \<Rightarrow> Inl (AssertionFault, p))"

text \<open>
  Motion. \<open>ready\<close> says whether more input follows: then the motion is recorded and sent later. The
  flag that decides whether to forward is read before the recording may set it.
\<close>

definition record_move :: "bool \<Rightarrow> int \<Rightarrow> int \<Rightarrow> 's server_proxy \<Rightarrow> 's server_proxy" where
  "record_move ready x y p =
     (let ignore = sp_ignoreMouse p;
          p = (if \<not> ignore \<and> \<not> sp_compressMouse p \<and> ready then p\<lparr>sp_compressMouse := True\<rparr> else p);
          (ignore, p) = (if sp_compressMouse p
            then (True, p\<lparr>sp_compressMouseRelative := False, sp_xMouse := x, sp_yMouse := y,
                          sp_dxMouse := 0, sp_dyMouse := 0\<rparr>)
            else (ignore, p))
      in if \<not> ignore then to_client (MouseMove x y) p else p)"

definition sp_mouseMove :: "'s link \<Rightarrow> 's server_proxy \<Rightarrow> ('s, 's server_proxy) sp_step" where
  "sp_mouseMove l p =
     and_then (sp_readf l (drop 4 kMsgDMouseMove) p) (\<lambda>(ok, vs, p).
     if \<not> ok then Inl (ThrowBadClient, p)
     else case vs of
       [RInt2 x, RInt2 y] \<Rightarrow> Inr (record_move (lk_isReady l (sp_stream p)) (sint x) (sint y) p)
     | _ \<Rightarrow> Inl (AssertionFault, p))"

definition record_relative :: "bool \<Rightarrow> int \<Rightarrow> int \<Rightarrow> 's server_proxy \<Rightarrow> 's server_proxy" where
  "record_relative ready dx dy p =
     (let ignore = sp_ignoreMouse p;
          p = (if \<not> ignore \<and> \<not> sp_compressMouseRelative p \<and> ready
               then p\<lparr>sp_compressMouseRelative := True\<rparr> else p);
          (ignore, p) = (if sp_compressMouseRelative p
            then (True, p\<lparr>sp_dxMouse := sp_dxMouse p + dx, sp_dyMouse := sp_dyMouse p + dy\<rparr>)
            else (ignore, p))
      in if \<not> ignore then to_client (MouseRelativeMove dx dy) p else p)"

definition sp_mouseRelativeMove :: "'s link \<Rightarrow> 's server_proxy \<Rightarrow> ('s, 's server_proxy) sp_step" where
  "sp_mouseRelativeMove l p =
     and_then (sp_readf l (drop 4 kMsgDMouseRelMove) p) (\<lambda>(ok, vs, p).
     if \<not> ok then Inl (ThrowBadClient, p)
     else case vs of
       [RInt2 dx, RInt2 dy] \<Rightarrow> Inr (record_relative (lk_isReady l (sp_stream p)) (sint dx) (sint dy) p)
     | _ \<Rightarrow> Inl (AssertionFault, p))"

definition sp_mouseWheel :: "'s link \<Rightarrow> 's server_proxy \<Rightarrow> ('s, 's server_proxy) sp_step" where
  "sp_mouseWheel l p =
     and_then (sp_readf l (drop 4 kMsgDMouseWheel) (flushCompressedMouse p)) (\<lambda>(ok, vs, p).
     case vs of
       [RInt2 x, RInt2 y] \<Rightarrow> Inr (to_client (MouseWheel (sint x) (sint y)) p)
     | _ \<Rightarrow> Inl (Uninitialised, p))"

definition sp_screensaver :: "'s link \<Rightarrow> 's server_proxy \<Rightarrow> ('s, 's server_proxy) sp_step" where
  "sp_screensaver l p =
     and_then (sp_readf l (drop 4 kMsgCScreenSaver) p) (\<lambda>(ok, vs, p).
     case vs of
       [RInt1 b] \<Rightarrow> Inr (to_client (Screensaver (b \<noteq> 0)) p)
     | _ \<Rightarrow> Inl (Uninitialised, p))"

subsection \<open>Options\<close>

definition sp_resetOptions :: "'s server_proxy \<Rightarrow> 's server_proxy" where
  "sp_resetOptions p =
     (setKeepAliveRate kKeepAliveRate (to_client ResetOptions p))\<lparr>sp_modifierTranslationTable := identity_table\<rparr>"

definition modifier_option :: "u32 \<Rightarrow> nat" where
  "modifier_option opt =
     (let v = unat opt in
      if v = kOptionModifierMapForShift then kKeyModifierIDShift
      else if v = kOptionModifierMapForControl then kKeyModifierIDControl
      else if v = kOptionModifierMapForAlt then kKeyModifierIDAlt
      else if v = kOptionModifierMapForAltGr then kKeyModifierIDAltGr
      else if v = kOptionModifierMapForMeta then kKeyModifierIDMeta
      else if v = kOptionModifierMapForSuper then kKeyModifierIDSuper
      else kKeyModifierIDNull)"

definition apply_option :: "u32 \<Rightarrow> u32 \<Rightarrow> 's server_proxy \<Rightarrow> 's server_proxy" where
  "apply_option opt v p =
     (let i = modifier_option opt;
          p = (if i = kKeyModifierIDNull \<and> unat opt = kOptionHeartbeat
               then setKeepAliveRate (of_nat (unat v) / 1000) p else p)
      in if i \<noteq> kKeyModifierIDNull
         then p\<lparr>sp_modifierTranslationTable := (sp_modifierTranslationTable p)[i := v]\<rparr> else p)"

text \<open>The loop over the options, two at a time; the value of a last odd option lies outside the list.\<close>

fun apply_options :: "u32 list \<Rightarrow> 's server_proxy \<Rightarrow> ('s, 's server_proxy) sp_step" where
  "apply_options [] p = Inr p"
| "apply_options [opt] p =
     (if modifier_option opt \<noteq> kKeyModifierIDNull \<or> unat opt = kOptionHeartbeat
      then Inl (OptionsOutOfRange, p) else Inr p)"
| "apply_options (opt # v # rest) p = apply_options rest (apply_option opt v p)"

definition sp_setOptions :: "'s link \<Rightarrow> 's server_proxy \<Rightarrow> ('s, 's server_proxy) sp_step" where
  "sp_setOptions l p =
     (case readf_u32_list (lk_read l) (sp_stream p) (drop 4 kMsgDSetOptions) [] of
        (None, _, s) \<Rightarrow> Inl (AssertionFault, p\<lparr>sp_stream := s\<rparr>)
      | (Some (Inl e), _, s) \<Rightarrow> Inl (thrown e, p\<lparr>sp_stream := s\<rparr>)
      | (Some (Inr ok), options, s) \<Rightarrow>
          apply_options options (to_client (SetOptions options) (p\<lparr>sp_stream := s\<rparr>)))"

definition infoAcknowledgment :: "'s server_proxy \<Rightarrow> 's server_proxy" where
  "infoAcknowledgment p = p\<lparr>sp_ignoreMouse := False\<rparr>"

subsection \<open>Files\<close>

definition sp_fileChunkReceived :: "'s link \<Rightarrow> 's server_proxy \<Rightarrow> ('s, 's server_proxy) sp_step" where
  "sp_fileChunkReceived l p =
     (case FileChunk_assemble (lk_junk l) (lk_read l) (sp_stream p) (sp_file p) of
        (Inl e, a, s) \<Rightarrow> Inl (thrown e, p\<lparr>sp_file := a, sp_stream := s\<rparr>)
      | (Inr r, a, s) \<Rightarrow>
          (let p = p\<lparr>sp_file := a, sp_stream := s\<rparr> in
           Inr (if r = kFinish then sp_emit PostFileReceiveCompleted p else p)))"

text \<open>\<^verbatim>\<open>Client::dragInfoReceived\<close>: the list is parsed, and the client drags the files or waits for their contents.\<close>

definition c_dragInfoReceived :: "'s link \<Rightarrow> u32 \<Rightarrow> bytes \<Rightarrow> 's server_proxy \<Rightarrow> ('s, 's server_proxy) sp_step" where
  "c_dragInfoReceived l fileNum data p =
     (if \<not> lk_enableDragDrop l then Inr p
      else case parseDragInfo fileNum data of
        Inl _ \<Rightarrow> Inl (DragInfoOutOfRange, p)
      | Inr files \<Rightarrow> Inr (sp_emit (ClientDraggingFiles files) p))"

text \<open>The 2-byte count is stored in the low half of a 4-byte variable that starts as 0.\<close>

definition sp_dragInfoReceived :: "'s link \<Rightarrow> 's server_proxy \<Rightarrow> ('s, 's server_proxy) sp_step" where
  "sp_dragInfoReceived l p =
     and_then (sp_readf l (drop 4 kMsgDDragInfo) p) (\<lambda>(ok, vs, p).
     case vs of
       [RInt2 n, RString content] \<Rightarrow> c_dragInfoReceived l (ucast n) content p
     | [RInt2 n] \<Rightarrow> c_dragInfoReceived l (ucast n) [] p
     | _ \<Rightarrow> c_dragInfoReceived l 0 [] p)"

subsection \<open>The parsers\<close>

definition echo_keep_alive :: "'s server_proxy \<Rightarrow> ('s, 's server_proxy) sp_step" where
  "echo_keep_alive p = and_then (sp_writef kMsgCKeepAlive [] p) (\<lambda>p. Inr (resetKeepAliveAlarm p))"

definition hang_up :: "string option \<Rightarrow> 's server_proxy \<Rightarrow> ('s, sp_result \<times> 's server_proxy) sp_step" where
  "hang_up msg p = Inr (kDisconnect, sp_emit (ClientDisconnect msg) p)"

definition okay :: "('s, 's server_proxy) sp_step \<Rightarrow> ('s, sp_result \<times> 's server_proxy) sp_step" where
  "okay r = and_then r (\<lambda>p. Inr (kOkay, p))"

definition parseHandshakeMessage :: "'s link \<Rightarrow> bytes \<Rightarrow> 's server_proxy \<Rightarrow>
    ('s, sp_result \<times> 's server_proxy) sp_step" where
  "parseHandshakeMessage l code p =
     (if is_msg code kMsgQInfo then okay (queryInfo l p)
      else if is_msg code kMsgCInfoAck then okay (Inr (infoAcknowledgment p))
      else if is_msg code kMsgDSetOptions then
        okay (and_then (sp_setOptions l p) (\<lambda>p. Inr (sp_emit ClientHandshakeComplete (p\<lparr>sp_parser := ParseMessage\<rparr>))))
      else if is_msg code kMsgCResetOptions then okay (Inr (sp_resetOptions p))
      else if is_msg code kMsgCKeepAlive then okay (echo_keep_alive p)
      else if is_msg code kMsgCNoop then okay (Inr p)
      else if is_msg code kMsgCClose then hang_up None p
      else if is_msg code kMsgEIncompatible then
        and_then (sp_readf l (drop 4 kMsgEIncompatible) p) (\<lambda>(ok, vs, p).
        hang_up (Some ''server has incompatible version'') p)
      else if is_msg code kMsgEBusy then
        hang_up (Some ''server already has a connected client with our name'') p
      else if is_msg code kMsgEUnknown then hang_up (Some ''server refused client with our name'') p
      else if is_msg code kMsgEBad then hang_up (Some ''server reported a protocol error'') p
      else Inr (kUnknown, p))"

text \<open>The messages that \<open>parseMessage\<close> answers with a no-op; \<open>None\<close> for any other code.\<close>

definition message_handler :: "'s link \<Rightarrow> bytes \<Rightarrow> ('s server_proxy \<Rightarrow> ('s, 's server_proxy) sp_step) option" where
  "message_handler l code =
     (if is_msg code kMsgDMouseMove then Some (sp_mouseMove l)
      else if is_msg code kMsgDMouseRelMove then Some (sp_mouseRelativeMove l)
      else if is_msg code kMsgDMouseWheel then Some (sp_mouseWheel l)
      else if is_msg code kMsgDKeyDown then Some (sp_keyDown l)
      else if is_msg code kMsgDKeyUp then Some (sp_keyUp l)
      else if is_msg code kMsgDMouseDown then Some (sp_mouseDown l)
      else if is_msg code kMsgDMouseUp then Some (sp_mouseUp l)
      else if is_msg code kMsgDKeyRepeat then Some (sp_keyRepeat l)
      else if is_msg code kMsgCKeepAlive then Some echo_keep_alive
      else if is_msg code kMsgCNoop then Some Inr
      else if is_msg code kMsgCEnter then Some (sp_enter l)
      else if is_msg code kMsgCLeave then Some (\<lambda>p. Inr (sp_leave p))
      else if is_msg code kMsgCClipboard then Some (sp_grabClipboard l)
      else if is_msg code kMsgCScreenSaver then Some (sp_screensaver l)
      else if is_msg code kMsgQInfo then Some (queryInfo l)
      else if is_msg code kMsgCInfoAck then Some (\<lambda>p. Inr (infoAcknowledgment p))
      else if is_msg code kMsgDClipboard then Some (sp_setClipboard l)
      else if is_msg code kMsgCResetOptions then Some (\<lambda>p. Inr (sp_resetOptions p))
      else if is_msg code kMsgDSetOptions then Some (sp_setOptions l)
      else if is_msg code kMsgDFileTransfer then Some (sp_fileChunkReceived l)
      else if is_msg code kMsgDDragInfo then Some (sp_dragInfoReceived l)
      else None)"

definition parseMessage :: "'s link \<Rightarrow> bytes \<Rightarrow> 's server_proxy \<Rightarrow>
    ('s, sp_result \<times> 's server_proxy) sp_step" where
  "parseMessage l code p =
     (case message_handler l code of
        Some h \<Rightarrow> okay (and_then (h p) (sp_writef kMsgCNoop []))
      | None \<Rightarrow>
          (if is_msg code kMsgCClose then hang_up None p
           else if is_msg code kMsgEBad then hang_up (Some ''server reported a protocol error'') p
           else Inr (kUnknown, p)))"

definition run_parser :: "'s link \<Rightarrow> bytes \<Rightarrow> 's server_proxy \<Rightarrow> ('s, sp_result \<times> 's server_proxy) sp_step" where
  "run_parser l code p =
     (case sp_parser p of ParseHandshake \<Rightarrow> parseHandshakeMessage l code p | ParseMessage \<Rightarrow> parseMessage l code p)"

text \<open>
  \<open>handle_data\<close>: messages are handled until a read delivers nothing. \<open>None\<close> is a run that never ends. After
  a disconnect the client deletes the proxy, and the code returns without touching it again.
\<close>

partial_function (option) handle_data :: "'s link \<Rightarrow> 's server_proxy \<Rightarrow> ('s, 's server_proxy) sp_step option" where
  "handle_data l p =
     (case lk_read l (sp_stream p) 4 of
        None \<Rightarrow> Some (Inl (AssertionFault, p))
      | Some (code, s) \<Rightarrow>
          (let p = p\<lparr>sp_stream := s\<rparr> in
           if code = [] then Some (Inr (flushCompressedMouse p))
           else if length code \<noteq> 4 then
             Some (Inr (sp_emit (ClientDisconnect (Some ''incomplete message from server'')) p))
           else case run_parser l code p of
             Inr (kOkay, p) \<Rightarrow> handle_data l p
           | Inr (kUnknown, p) \<Rightarrow> Some (Inr (sp_emit (ClientDisconnect (Some ''invalid message from server'')) p))
           | Inr (kDisconnect, p) \<Rightarrow> Some (Inr p)
           | Inl (ThrowBadClient, p) \<Rightarrow>
               Some (and_then (sp_writef kMsgEBad [] p) (\<lambda>p.
                 Inr (sp_emit (ClientDisconnect (Some ''invalid message from server'')) p)))
           | Inl (f, p) \<Rightarrow> Some (Inl (f, p))))"

subsection \<open>Translation tables\<close>

definition valid_table :: "u32 list \<Rightarrow> bool" where
  "valid_table t \<longleftrightarrow> length t = kKeyModifierIDLast \<and> (\<forall>v \<in> set t. unat v < kKeyModifierIDLast)"

lemma table_lengths [simp]: "length s_translationTable = 7" "length s_masks = 7"
  by (simp_all add: s_translationTable_def s_masks_def)

lemma valid_table_nth: "valid_table t \<Longrightarrow> i < 7 \<Longrightarrow> unat (t ! i) < 7"
  by (simp add: valid_table_def kKeyModifierIDLast_def)

lemma modifier_side_range: "fst (modifier_side k) < 7"
  by (simp add: modifier_side_def modifier_ids)

lemma translateKey_valid: "valid_table t \<Longrightarrow> \<exists>k2. translateKey t k = Some k2"
  using valid_table_nth [OF _ modifier_side_range] by (auto simp: translateKey_def case_prod_beta Let_def)

lemma translate_bits_valid:
  "valid_table t \<Longrightarrow> list_all (\<lambda>(b, k). k < 7) bs \<Longrightarrow> \<exists>m2. translate_bits t m bs n = Some m2"
  by (induction t m bs n rule: translate_bits.induct) (auto simp: Let_def valid_table_nth)

lemma translateModifierMask_valid: "valid_table t \<Longrightarrow> \<exists>m2. translateModifierMask t m = Some m2"
  unfolding translateModifierMask_def by (rule translate_bits_valid) (simp_all add: modifier_ids)

lemma identity_table_eq: "identity_table = [0, 1, 2, 3, 4, 5, 6]"
  by code_simp

lemma identity_table_valid: "valid_table identity_table"
  by code_simp

lemma translateKey_identity: "translateKey identity_table k = Some k"
  by (simp add: translateKey_def modifier_side_def modifier_ids identity_table_eq s_translationTable_def)

lemma or_single_bit:
  "(if m AND 2 ^ k \<noteq> 0 then n OR 2 ^ k else n) = n OR (m AND (2 ^ k :: u32))"
proof (cases "bit m k")
  case True
  then have "m AND 2 ^ k = 2 ^ k" by (intro bit_word_eqI) (auto simp: bit_and_iff bit_exp_iff)
  moreover have "m AND 2 ^ k \<noteq> 0" using True by (simp add: and_exp_eq_0_iff_not_bit)
  ultimately show ?thesis by simp
next
  case False
  then have "m AND 2 ^ k = 0" by (simp only: and_exp_eq_0_iff_not_bit not_False_eq_True)
  then show ?thesis by simp
qed

lemma modifier_bits: "KeyModifierShift = 2 ^ 0" "KeyModifierControl = 2 ^ 1"
  "KeyModifierAlt = 2 ^ 2" "KeyModifierMeta = 2 ^ 3" "KeyModifierSuper = 2 ^ 4" "KeyModifierAltGr = 2 ^ 5"
  by (simp_all add: modifier_masks)

lemma translate_bits_cons:
  assumes "unat (t ! i) < length s_masks" "s_masks ! unat (t ! i) = 2 ^ k"
  shows "translate_bits t m ((2 ^ k, i) # rest) n = translate_bits t m rest (n OR (m AND 2 ^ k))"
  using assms by (auto simp: Let_def or_single_bit [symmetric])

lemma identity_masks:
  "s_masks ! unat (identity_table ! kKeyModifierIDShift) = 2 ^ 0" "s_masks ! unat (identity_table ! kKeyModifierIDControl) = 2 ^ 1"
  "s_masks ! unat (identity_table ! kKeyModifierIDAlt) = 2 ^ 2" "s_masks ! unat (identity_table ! kKeyModifierIDMeta) = 2 ^ 3"
  "s_masks ! unat (identity_table ! kKeyModifierIDSuper) = 2 ^ 4" "s_masks ! unat (identity_table ! kKeyModifierIDAltGr) = 2 ^ 5"
  by code_simp+

lemma identity_range: "i < 7 \<Longrightarrow> unat (identity_table ! i) < length s_masks"
proof -
  have "list_all (\<lambda>i. unat (identity_table ! i) < length s_masks) [0..<7]" by code_simp
  then show "i < 7 \<Longrightarrow> ?thesis" by (simp add: list_all_iff)
qed

lemma and_parts:
  "((((((m AND NOT (a OR b OR c OR d OR e OR f)) OR (m AND a)) OR (m AND b)) OR (m AND c)) OR (m AND f)) OR
     (m AND d)) OR (m AND e) = (m :: u32)"
  by (rule bit_word_eqI) (auto simp: bit_simps)

lemma translateModifierMask_identity: "translateModifierMask identity_table m = Some m"
proof -
  have *: "translateModifierMask identity_table m = Some (((((((m AND NOT (2 ^ 0 OR 2 ^ 1 OR 2 ^ 2 OR
     2 ^ 3 OR 2 ^ 4 OR 2 ^ 5)) OR (m AND 2 ^ 0)) OR (m AND 2 ^ 1)) OR
     (m AND 2 ^ 2)) OR (m AND 2 ^ 5)) OR (m AND 2 ^ 3)) OR (m AND 2 ^ 4))"
    unfolding translateModifierMask_def modifier_bits
    by (subst translate_bits_cons, rule identity_range, simp add: modifier_ids, rule identity_masks)+ simp
  show ?thesis unfolding * and_parts ..
qed
end
