(* ===== verification/ClientProxy.thy ===== *)
theory ClientProxy
  imports ProxyMessages
begin

text \<open>
  The server's end of a connection: \<^verbatim>\<open>ClientProxy1_6.cpp\<close> turns the calls of the server into messages and the
  messages of the client into events, and \<^verbatim>\<open>ClientProxyUnknown.cpp\<close> greets a new connection and creates the
  proxy. The records hold the data members and a trace of what the proxy writes, posts and does to its
  timers. A handler that fails returns the reason and the state it left.
\<close>

subsection \<open>ClientProxy1\_6: state\<close>

datatype cp_parser = CpHandshake | CpMessage

datatype cp_event =
    CLIENT_PROXY_READY_EV
  | CLIENT_PROXY_DISCONNECTED_EV
  | SCREEN_SHAPE_CHANGED_EV
  | CLIPBOARD_CHANGED_EV byte u32
  | CLIPBOARD_GRABBED_EV byte u32
  | FILE_RECEIVE_COMPLETED_EV

datatype cp_action =
    CpWrite bytes
  | CpFlush
  | CpClose
  | CpPost cp_event
  | CpChunks "chunk_event list"
  | CpStartDraggingFiles "drag_file list"
  | StartKeepAlive rat
  | StopKeepAlive
  | StartHeartbeat rat
  | StopHeartbeat
  | RemoveHandlers

record client_info =
  i_x :: int
  i_y :: int
  i_w :: int
  i_h :: int
  i_mx :: int
  i_my :: int

record client_clipboard =
  cl_clipboard :: clipboard
  cl_sequenceNumber :: u32
  cl_dirty :: bool

text \<open>
  \<open>cp_enableDragDrop\<close> is the option of the server that the proxy belongs to. The clipboard and the file under
  assembly are shared by all proxies in the code (static variables and members of the server), so that two clients
  which send at the same time disturb each other; here each proxy has its own.
\<close>

record 's client_proxy =
  cp_stream :: 's
  cp_enableDragDrop :: bool
  cp_parser :: cp_parser
  cp_info :: client_info
  cp_clipboards :: "client_clipboard list"
  cp_keepAliveRate :: rat
  cp_heartbeatAlarm :: rat
  cp_keepAliveTimer :: bool
  cp_heartbeatTimer :: bool
  cp_assembly :: clipboard_assembly
  cp_file :: file_assembly
  cp_trace :: "cp_action list"

type_synonym ('s, 'a) cp_step = "(proxy_fault \<times> 's client_proxy) + 'a"

definition cp_emit :: "cp_action \<Rightarrow> 's client_proxy \<Rightarrow> 's client_proxy" where
  "cp_emit a p = p\<lparr>cp_trace := cp_trace p @ [a]\<rparr>"

definition cp_send :: "message \<Rightarrow> 's client_proxy \<Rightarrow> ('s, 's client_proxy) cp_step" where
  "cp_send m p =
     (case writefArgs (fst m) (snd m) of
        Inl e \<Rightarrow> Inl (ThrowWrite e, p)
      | Inr bs \<Rightarrow> Inr (cp_emit (CpWrite bs) p))"

definition cp_readf :: "'s reader \<Rightarrow> string \<Rightarrow> 's client_proxy \<Rightarrow>
    ('s, bool \<times> read_val list \<times> 's client_proxy) cp_step" where
  "cp_readf rd fmt p =
     (case readf rd (cp_stream p) fmt of
        (Inl e, _, s) \<Rightarrow> Inl (thrown e, p\<lparr>cp_stream := s\<rparr>)
      | (Inr ok, vs, s) \<Rightarrow> Inr (ok, vs, p\<lparr>cp_stream := s\<rparr>))"

subsection \<open>Timers\<close>

definition addHeartbeatTimer :: "'s client_proxy \<Rightarrow> 's client_proxy" where
  "addHeartbeatTimer p =
     (let p = (if 0 < cp_keepAliveRate p
               then (cp_emit (StartKeepAlive (cp_keepAliveRate p)) p)\<lparr>cp_keepAliveTimer := True\<rparr> else p) in
      if 0 < cp_heartbeatAlarm p
      then (cp_emit (StartHeartbeat (cp_heartbeatAlarm p)) p)\<lparr>cp_heartbeatTimer := True\<rparr> else p)"

definition removeHeartbeatTimer :: "'s client_proxy \<Rightarrow> 's client_proxy" where
  "removeHeartbeatTimer p =
     (let p = (if cp_keepAliveTimer p then (cp_emit StopKeepAlive p)\<lparr>cp_keepAliveTimer := False\<rparr> else p) in
      if cp_heartbeatTimer p then (cp_emit StopHeartbeat p)\<lparr>cp_heartbeatTimer := False\<rparr> else p)"

definition resetHeartbeatTimer :: "'s client_proxy \<Rightarrow> 's client_proxy" where
  "resetHeartbeatTimer p =
     (let p = (if cp_heartbeatTimer p then (cp_emit StopHeartbeat p)\<lparr>cp_heartbeatTimer := False\<rparr> else p) in
      if 0 < cp_heartbeatAlarm p
      then (cp_emit (StartHeartbeat (cp_heartbeatAlarm p)) p)\<lparr>cp_heartbeatTimer := True\<rparr> else p)"

definition setHeartbeatRate :: "rat \<Rightarrow> rat \<Rightarrow> 's client_proxy \<Rightarrow> 's client_proxy" where
  "setHeartbeatRate rate alarm p = p\<lparr>cp_keepAliveRate := rate, cp_heartbeatAlarm := alarm\<rparr>"

definition resetHeartbeatRate :: "'s client_proxy \<Rightarrow> 's client_proxy" where
  "resetHeartbeatRate p = setHeartbeatRate kKeepAliveRate (kKeepAliveRate * kKeepAlivesUntilDeath) p"

subsection \<open>Construction and the end of a connection\<close>

definition ClientClipboard_new :: "clip_error + client_clipboard" where
  "ClientClipboard_new = and_then clip_new (\<lambda>c. Inr \<lparr>cl_clipboard = c, cl_sequenceNumber = 0, cl_dirty = True\<rparr>)"

text \<open>
  The members before the constructor's body; \<open>info\<close> is what the memory of the uninitialised \<^verbatim>\<open>m_info\<close> holds.
\<close>

definition cp_members :: "bool \<Rightarrow> 's \<Rightarrow> client_info \<Rightarrow> client_clipboard list \<Rightarrow> clipboard_assembly \<Rightarrow> file_assembly \<Rightarrow>
    's client_proxy" where
  "cp_members drag s info cs ca fa =
     \<lparr>cp_stream = s, cp_enableDragDrop = drag, cp_parser = CpHandshake, cp_info = info, cp_clipboards = cs,
      cp_keepAliveRate = kKeepAliveRate, cp_heartbeatAlarm = 0, cp_keepAliveTimer = False,
      cp_heartbeatTimer = False, cp_assembly = ca, cp_file = fa, cp_trace = []\<rparr>"

definition ClientProxy1_6_new :: "bool \<Rightarrow> 's \<Rightarrow> client_info \<Rightarrow> client_clipboard list \<Rightarrow> clipboard_assembly \<Rightarrow> file_assembly \<Rightarrow>
    ('s, 's client_proxy) cp_step" where
  "ClientProxy1_6_new drag s info cs ca fa =
     and_then (cp_send send_query_info_1_6
       (setHeartbeatRate kHeartRate (kHeartRate * kHeartBeatsUntilDeath) (cp_members drag s info cs ca fa))) (\<lambda>p.
     Inr (setHeartbeatRate kKeepAliveRate (kKeepAliveRate * kKeepAlivesUntilDeath) p))"

definition cp_remove_handlers :: "'s client_proxy \<Rightarrow> 's client_proxy" where
  "cp_remove_handlers p = removeHeartbeatTimer (cp_emit RemoveHandlers p)"

definition cp_disconnect :: "'s client_proxy \<Rightarrow> 's client_proxy" where
  "cp_disconnect p = cp_emit (CpPost CLIENT_PROXY_DISCONNECTED_EV) (cp_emit CpClose (cp_remove_handlers p))"

definition cp_handle_disconnect :: "'s client_proxy \<Rightarrow> 's client_proxy" where
  "cp_handle_disconnect p = cp_disconnect p"

definition cp_handle_write_error :: "'s client_proxy \<Rightarrow> 's client_proxy" where
  "cp_handle_write_error p = cp_disconnect p"

definition cp_handle_flatline :: "'s client_proxy \<Rightarrow> 's client_proxy" where
  "cp_handle_flatline p = cp_disconnect p"

text \<open>\<^verbatim>\<open>ClientProxy::close\<close> of the base class: the message is not used.\<close>

definition cp_close :: "string \<Rightarrow> 's client_proxy \<Rightarrow> 's client_proxy" where
  "cp_close msg p = cp_emit CpFlush p"

subsection \<open>Messages from the client\<close>

definition center_cursor :: "client_info \<Rightarrow> client_info" where
  "center_cursor i =
     (if i_mx i < i_x i \<or> i_x i + i_w i \<le> i_mx i \<or> i_my i < i_y i \<or> i_y i + i_h i \<le> i_my i
      then i\<lparr>i_mx := wrap16 (i_x i + i_w i div 2), i_my := wrap16 (i_y i + i_h i div 2)\<rparr> else i)"

definition recvInfo :: "'s reader \<Rightarrow> 's client_proxy \<Rightarrow> ('s, bool \<times> 's client_proxy) cp_step" where
  "recvInfo rd p =
     and_then (cp_readf rd (drop 4 kMsgDInfo) p) (\<lambda>(ok, vs, p).
     if \<not> ok then Inr (False, p)
     else case vs of
       [RInt2 x, RInt2 y, RInt2 w, RInt2 h, RInt2 d, RInt2 mx, RInt2 my] \<Rightarrow>
         (if sint w \<le> 0 \<or> sint h \<le> 0 then Inr (False, p)
          else and_then (cp_send send_info_ack_1_6
            (p\<lparr>cp_info := center_cursor \<lparr>i_x = sint x, i_y = sint y, i_w = sint w, i_h = sint h,
                                         i_mx = sint mx, i_my = sint my\<rparr>\<rparr>)) (\<lambda>p. Inr (True, p)))
     | _ \<Rightarrow> Inl (AssertionFault, p))"

definition recvClipboard :: "nat \<Rightarrow> 's reader \<Rightarrow> 's client_proxy \<Rightarrow> ('s, bool \<times> 's client_proxy) cp_step" where
  "recvClipboard junk rd p =
     (case ClipboardChunk_assemble junk rd (cp_stream p) (cp_assembly p) of
        (Inl e, a, s) \<Rightarrow> Inl (thrown e, p\<lparr>cp_assembly := a, cp_stream := s\<rparr>)
      | (Inr r, a, s) \<Rightarrow>
          (let p = p\<lparr>cp_assembly := a, cp_stream := s\<rparr>; i = unat (ca_id a); c = cp_clipboards p ! i in
           if r \<noteq> kFinish then Inr (True, p)
           else case clip_unmarshall (cl_clipboard c) (ca_dataCached a) 0 of
             Inl e \<Rightarrow> Inl (ClipboardFault e, p)
           | Inr clip \<Rightarrow>
               Inr (True, cp_emit (CpPost (CLIPBOARD_CHANGED_EV (ca_id a) (ca_sequence a)))
                 (p\<lparr>cp_clipboards := (cp_clipboards p)[i := c\<lparr>cl_clipboard := clip,
                                         cl_sequenceNumber := ca_sequence a\<rparr>]\<rparr>))))"

definition recvGrabClipboard :: "'s reader \<Rightarrow> 's client_proxy \<Rightarrow> ('s, bool \<times> 's client_proxy) cp_step" where
  "recvGrabClipboard rd p =
     and_then (cp_readf rd (drop 4 kMsgCClipboard) p) (\<lambda>(ok, vs, p).
     if \<not> ok then Inr (False, p)
     else case vs of
       [RInt1 i, RInt4 sq] \<Rightarrow>
         (if kClipboardEnd \<le> i then Inr (False, p)
          else Inr (True, cp_emit (CpPost (CLIPBOARD_GRABBED_EV i sq)) p))
     | _ \<Rightarrow> Inl (AssertionFault, p))"

definition cp_fileChunkReceived :: "nat \<Rightarrow> 's reader \<Rightarrow> 's client_proxy \<Rightarrow> ('s, 's client_proxy) cp_step" where
  "cp_fileChunkReceived junk rd p =
     (case FileChunk_assemble junk rd (cp_stream p) (cp_file p) of
        (Inl e, a, s) \<Rightarrow> Inl (thrown e, p\<lparr>cp_file := a, cp_stream := s\<rparr>)
      | (Inr r, a, s) \<Rightarrow>
          (let p = p\<lparr>cp_file := a, cp_stream := s\<rparr> in
           Inr (if r = kFinish then cp_emit (CpPost FILE_RECEIVE_COMPLETED_EV) p else p)))"

text \<open>
  \<^verbatim>\<open>Server::dragInfoReceived\<close>, which the handler of the message calls: with drag and drop enabled the list is parsed
  and the screen starts to drag the files.
\<close>

definition sv_dragInfoReceived :: "u32 \<Rightarrow> bytes \<Rightarrow> 's client_proxy \<Rightarrow> ('s, 's client_proxy) cp_step" where
  "sv_dragInfoReceived fileNum content p =
     (if \<not> cp_enableDragDrop p then Inr p
      else case parseDragInfo fileNum content of
        Inl _ \<Rightarrow> Inl (DragInfoOutOfRange, p)
      | Inr files \<Rightarrow> Inr (cp_emit (CpStartDraggingFiles files) p))"

definition cp_dragInfoReceived :: "'s reader \<Rightarrow> 's client_proxy \<Rightarrow> ('s, 's client_proxy) cp_step" where
  "cp_dragInfoReceived rd p =
     and_then (cp_readf rd (drop 4 kMsgDDragInfo) p) (\<lambda>(ok, vs, p).
     case vs of
       [RInt2 n, RString content] \<Rightarrow> sv_dragInfoReceived (ucast n) content p
     | [RInt2 n] \<Rightarrow> sv_dragInfoReceived (ucast n) [] p
     | _ \<Rightarrow> sv_dragInfoReceived 0 [] p)"

definition keepAlive :: "'s client_proxy \<Rightarrow> ('s, 's client_proxy) cp_step" where
  "keepAlive p = cp_send send_keep_alive_1_6 p"

definition cp_parseHandshakeMessage :: "'s reader \<Rightarrow> bytes \<Rightarrow> 's client_proxy \<Rightarrow>
    ('s, bool \<times> 's client_proxy) cp_step" where
  "cp_parseHandshakeMessage rd code p =
     (if is_msg code kMsgCNoop then Inr (True, p)
      else if is_msg code kMsgDInfo then
        and_then (recvInfo rd (p\<lparr>cp_parser := CpMessage\<rparr>)) (\<lambda>(ok, p).
        Inr (if ok then (True, addHeartbeatTimer (cp_emit (CpPost CLIENT_PROXY_READY_EV) p)) else (False, p)))
      else Inr (False, p))"

definition handled :: "('s, 's client_proxy) cp_step \<Rightarrow> ('s, bool \<times> 's client_proxy) cp_step" where
  "handled r = and_then r (\<lambda>p. Inr (True, p))"

definition cp_parseMessage :: "nat \<Rightarrow> 's reader \<Rightarrow> bytes \<Rightarrow> 's client_proxy \<Rightarrow>
    ('s, bool \<times> 's client_proxy) cp_step" where
  "cp_parseMessage junk rd code p =
     (if is_msg code kMsgDFileTransfer then handled (cp_fileChunkReceived junk rd p)
      else if is_msg code kMsgDDragInfo then handled (cp_dragInfoReceived rd p)
      else if is_msg code kMsgCKeepAlive then Inr (True, resetHeartbeatTimer p)
      else if is_msg code kMsgDInfo then
        and_then (recvInfo rd p) (\<lambda>(ok, p).
        Inr (if ok then (True, cp_emit (CpPost SCREEN_SHAPE_CHANGED_EV) p) else (False, p)))
      else if is_msg code kMsgCNoop then Inr (True, p)
      else if is_msg code kMsgCClipboard then recvGrabClipboard rd p
      else if is_msg code kMsgDClipboard then recvClipboard junk rd p
      else Inr (False, p))"

definition cp_run_parser :: "nat \<Rightarrow> 's reader \<Rightarrow> bytes \<Rightarrow> 's client_proxy \<Rightarrow>
    ('s, bool \<times> 's client_proxy) cp_step" where
  "cp_run_parser junk rd code p =
     (case cp_parser p of
        CpHandshake \<Rightarrow> cp_parseHandshakeMessage rd code p
      | CpMessage \<Rightarrow> cp_parseMessage junk rd code p)"

text \<open>\<open>handle_data\<close>; \<open>None\<close> is a run that never ends.\<close>

partial_function (option) cp_handle_data :: "nat \<Rightarrow> 's reader \<Rightarrow> 's client_proxy \<Rightarrow>
    ('s, 's client_proxy) cp_step option" where
  "cp_handle_data junk rd p =
     (case rd (cp_stream p) 4 of
        None \<Rightarrow> Some (Inl (AssertionFault, p))
      | Some (code, s) \<Rightarrow>
          (let p = p\<lparr>cp_stream := s\<rparr> in
           if code = [] then Some (Inr (resetHeartbeatTimer p))
           else if length code \<noteq> 4 then Some (Inr (cp_disconnect p))
           else case cp_run_parser junk rd code p of
             Inr (ok, p) \<Rightarrow> (if ok then cp_handle_data junk rd p else Some (Inr (cp_disconnect p)))
           | Inl (ThrowBadClient, p) \<Rightarrow> Some (Inr (cp_disconnect p))
           | Inl (f, p) \<Rightarrow> Some (Inl (f, p))))"

subsection \<open>Calls of the server\<close>

definition cp_getClipboard :: "nat \<Rightarrow> clipboard \<Rightarrow> 's client_proxy \<Rightarrow> ('s, clipboard \<times> bool) cp_step" where
  "cp_getClipboard i dst p =
     (case copy clip_ops clip_ops dst (cl_clipboard (cp_clipboards p ! i)) of
        Inl e \<Rightarrow> Inl (ClipboardFault e, p)
      | Inr (dst, _, _) \<Rightarrow> Inr (dst, True))"

definition cp_getShape :: "'s client_proxy \<Rightarrow> shape" where
  "cp_getShape p = (i_x (cp_info p), i_y (cp_info p), i_w (cp_info p), i_h (cp_info p))"

definition cp_getCursorPos :: "'s client_proxy \<Rightarrow> int \<times> int" where
  "cp_getCursorPos p = (i_mx (cp_info p), i_my (cp_info p))"

definition cp_enter :: "int \<Rightarrow> int \<Rightarrow> u32 \<Rightarrow> u32 \<Rightarrow> bool \<Rightarrow> 's client_proxy \<Rightarrow> ('s, 's client_proxy) cp_step" where
  "cp_enter x y sq m saver p = cp_send (send_enter_1_6 x y sq m) p"

definition cp_leave :: "'s client_proxy \<Rightarrow> ('s, bool \<times> 's client_proxy) cp_step" where
  "cp_leave p = and_then (cp_send send_leave_1_6 p) (\<lambda>p. Inr (True, p))"

text \<open>
  The contents are only logged between \<^verbatim>\<open>open\<close> and \<^verbatim>\<open>close\<close>; the calls stay because they can fail.
\<close>

definition log_clipboard :: "clipboard \<Rightarrow> clip_error + clipboard" where
  "log_clipboard c =
     and_then (clip_open c 0) (\<lambda>(c, opened).
     if opened then and_then (clip_has c kFileList) (\<lambda>files.
       and_then (if files then clip_get c kFileList else Inr []) (\<lambda>_. clip_close c))
     else Inr c)"

definition cp_setClipboard :: "nat \<Rightarrow> clipboard \<Rightarrow> 's client_proxy \<Rightarrow> ('s, 's client_proxy) cp_step" where
  "cp_setClipboard i src p =
     (let c = cp_clipboards p ! i in
      if \<not> cl_dirty c then Inr p
      else case and_then (copy clip_ops clip_ops (cl_clipboard c) src) (\<lambda>(own, _, _).
                and_then (log_clipboard own) clip_marshall) of
        Inl e \<Rightarrow> Inl (ClipboardFault e, p\<lparr>cp_clipboards := (cp_clipboards p)[i := c\<lparr>cl_dirty := False\<rparr>]\<rparr>)
      | Inr (own, data) \<Rightarrow>
          (let p = p\<lparr>cp_clipboards := (cp_clipboards p)[i := c\<lparr>cl_dirty := False, cl_clipboard := own\<rparr>]\<rparr> in
           case sendClipboard data (length data) (of_nat i) 0 of
             None \<Rightarrow> Inl (AssertionFault, p)
           | Some evs \<Rightarrow> Inr (cp_emit (CpChunks evs) p)))"

definition cp_setClipboardDirty :: "nat \<Rightarrow> bool \<Rightarrow> 's client_proxy \<Rightarrow> 's client_proxy" where
  "cp_setClipboardDirty i d p =
     p\<lparr>cp_clipboards := (cp_clipboards p)[i := (cp_clipboards p ! i)\<lparr>cl_dirty := d\<rparr>]\<rparr>"

definition cp_grabClipboard :: "nat \<Rightarrow> 's client_proxy \<Rightarrow> ('s, 's client_proxy) cp_step" where
  "cp_grabClipboard i p = and_then (cp_send (send_grab_clipboard i) p) (\<lambda>p. Inr (cp_setClipboardDirty i True p))"

definition cp_handle_clipboard_sending_event :: "clipboard_chunk \<Rightarrow> 's client_proxy \<Rightarrow> ('s, 's client_proxy) cp_step" where
  "cp_handle_clipboard_sending_event c p = cp_send (send_clipboard_chunk_1_6 c) p"

definition cp_sendDragInfo :: "u32 \<Rightarrow> bytes \<Rightarrow> 's client_proxy \<Rightarrow> ('s, 's client_proxy) cp_step" where
  "cp_sendDragInfo n info p = cp_send (send_drag_info_1_6 n info) p"

definition cp_file_chunk_sending :: "file_chunk \<Rightarrow> 's client_proxy \<Rightarrow> ('s, 's client_proxy) cp_step" where
  "cp_file_chunk_sending c p = cp_send (send_file_chunk_1_6 c) p"

definition cp_resetOptions :: "'s client_proxy \<Rightarrow> ('s, 's client_proxy) cp_step" where
  "cp_resetOptions p =
     and_then (cp_send send_reset_options_1_6 p) (\<lambda>p.
     Inr (addHeartbeatTimer (removeHeartbeatTimer (resetHeartbeatRate p))))"

definition cp_apply_heartbeat :: "u32 \<Rightarrow> 's client_proxy \<Rightarrow> 's client_proxy" where
  "cp_apply_heartbeat v p =
     (let rate = of_nat (unat v) / 1000; rate = (if rate \<le> 0 then - 1 else rate) in
      addHeartbeatTimer (removeHeartbeatTimer (setHeartbeatRate rate (rate * kHeartBeatsUntilDeath) p)))"

fun cp_apply_options :: "u32 list \<Rightarrow> 's client_proxy \<Rightarrow> ('s, 's client_proxy) cp_step" where
  "cp_apply_options [] p = Inr p"
| "cp_apply_options [opt] p = (if unat opt = kOptionHeartbeat then Inl (OptionsOutOfRange, p) else Inr p)"
| "cp_apply_options (opt # v # rest) p =
     cp_apply_options rest (if unat opt = kOptionHeartbeat then cp_apply_heartbeat v p else p)"

definition cp_setOptions :: "u32 list \<Rightarrow> 's client_proxy \<Rightarrow> ('s, 's client_proxy) cp_step" where
  "cp_setOptions options p = and_then (cp_send (send_set_options_1_6 options) p) (cp_apply_options options)"

text \<open>
  The calls that are one message and nothing else, by the call the server makes; \<open>None\<close> for the others.
\<close>

fun plain_message :: "client_call \<Rightarrow> message option" where
  "plain_message (Enter x y sq m saver) = Some (send_enter_1_6 x y sq m)"
| "plain_message Leave = Some send_leave_1_6"
| "plain_message (MouseMove x y) = Some (send_mouse_move_1_6 x y)"
| "plain_message (MouseRelativeMove x y) = Some (send_mouse_relative_move_1_6 x y)"
| "plain_message (MouseWheel x y) = Some (send_mouse_wheel_1_6 x y)"
| "plain_message (MouseDown b) = Some (send_mouse_down_1_6 b)"
| "plain_message (MouseUp b) = Some (send_mouse_up_1_6 b)"
| "plain_message (KeyDown k m b) = Some (send_key_down_1_6 k m b)"
| "plain_message (KeyRepeat k m n b) = Some (send_key_repeat_1_6 k m n b)"
| "plain_message (KeyUp k m b) = Some (send_key_up_1_6 k m b)"
| "plain_message (Screensaver on) = Some (send_screensaver_1_6 on)"
| "plain_message _ = None"

definition cp_call :: "client_call \<Rightarrow> 's client_proxy \<Rightarrow> ('s, 's client_proxy) cp_step" where
  "cp_call c p =
     (case c of
        GrabClipboard i \<Rightarrow> cp_grabClipboard i p
      | ResetOptions \<Rightarrow> cp_resetOptions p
      | SetOptions options \<Rightarrow> cp_setOptions options p
      | FileChunkSending mark data \<Rightarrow> cp_file_chunk_sending \<lparr>fc_mark = mark, fc_data = data\<rparr> p
      | Flush \<Rightarrow> Inr (cp_emit CpFlush p)
      | _ \<Rightarrow> (case plain_message c of None \<Rightarrow> Inr p | Some m \<Rightarrow> cp_send m p))"

fun cp_calls :: "client_call list \<Rightarrow> 's client_proxy \<Rightarrow> ('s, 's client_proxy) cp_step" where
  "cp_calls [] p = Inr p"
| "cp_calls (c # cs) p = and_then (cp_call c p) (cp_calls cs)"

subsection \<open>ClientProxyUnknown\<close>

text \<open>
  The stream is \<open>None\<close> once it has been moved into a connection. The clock, the event queue and the new
  proxy are seen through the trace.
\<close>

datatype 's cu_action =
    CuWrite bytes
  | CuStartTimer rat
  | CuStopTimer
  | CuStreamHandlers bool
  | CuProxyHandlers bool
  | CuCreateProxy bytes 's
  | CuDeleteProxy
  | CuSuccess
  | CuFailure

record 's unknown_proxy =
  cu_stream :: "'s option"
  cu_proxy :: bool
  cu_ready :: bool
  cu_timer :: bool
  cu_trace :: "'s cu_action list"

definition cu_emit :: "'s cu_action \<Rightarrow> 's unknown_proxy \<Rightarrow> 's unknown_proxy" where
  "cu_emit a u = u\<lparr>cu_trace := cu_trace u @ [a]\<rparr>"

definition cu_writef :: "string \<Rightarrow> write_arg list \<Rightarrow> 's unknown_proxy \<Rightarrow> proxy_fault + 's unknown_proxy" where
  "cu_writef fmt args u =
     (case writefArgs fmt args of
        Inl e \<Rightarrow> Inl (ThrowWrite e)
      | Inr bs \<Rightarrow> if cu_stream u = None then Inl NullStream else Inr (cu_emit (CuWrite bs) u))"

definition ClientProxyUnknown_new :: "'s \<Rightarrow> rat \<Rightarrow> proxy_fault + 's unknown_proxy" where
  "ClientProxyUnknown_new s timeout =
     cu_writef kMsgHello [WInt kProtocolMajorVersion, WInt kProtocolMinorVersion]
       \<lparr>cu_stream = Some s, cu_proxy = False, cu_ready = False, cu_timer = True,
        cu_trace = [CuStartTimer timeout, CuStreamHandlers True]\<rparr>"

definition cu_remove_handlers :: "'s unknown_proxy \<Rightarrow> 's unknown_proxy" where
  "cu_remove_handlers u =
     (let u = (if cu_stream u \<noteq> None then cu_emit (CuStreamHandlers False) u else u) in
      if cu_proxy u then cu_emit (CuProxyHandlers False) u else u)"

definition cu_removeTimer :: "'s unknown_proxy \<Rightarrow> 's unknown_proxy" where
  "cu_removeTimer u = (if cu_timer u then (cu_emit CuStopTimer u)\<lparr>cu_timer := False\<rparr> else u)"

definition cu_delete_proxy :: "'s unknown_proxy \<Rightarrow> 's unknown_proxy" where
  "cu_delete_proxy u = (if cu_proxy u then (cu_emit CuDeleteProxy u)\<lparr>cu_proxy := False\<rparr> else u)"

definition ClientProxyUnknown_delete :: "'s unknown_proxy \<Rightarrow> 's unknown_proxy" where
  "ClientProxyUnknown_delete u = cu_delete_proxy (cu_removeTimer (cu_remove_handlers u))"

definition orphanClientProxy :: "'s unknown_proxy \<Rightarrow> bool \<times> 's unknown_proxy" where
  "orphanClientProxy u =
     (if cu_ready u then (cu_proxy u, (cu_remove_handlers u)\<lparr>cu_proxy := False\<rparr>) else (False, u))"

definition sendSuccess :: "'s unknown_proxy \<Rightarrow> 's unknown_proxy" where
  "sendSuccess u = cu_emit CuSuccess (cu_removeTimer (u\<lparr>cu_ready := True\<rparr>))"

definition sendFailure :: "'s unknown_proxy \<Rightarrow> 's unknown_proxy" where
  "sendFailure u =
     cu_emit CuFailure (cu_removeTimer (cu_remove_handlers ((cu_delete_proxy u)\<lparr>cu_ready := False\<rparr>)))"

definition cu_handle_ready :: "'s unknown_proxy \<Rightarrow> 's unknown_proxy" where
  "cu_handle_ready u = sendSuccess u"

definition cu_handle_timeout :: "'s unknown_proxy \<Rightarrow> 's unknown_proxy" where
  "cu_handle_timeout u = sendFailure u"

definition cu_handle_disconnect :: "'s unknown_proxy \<Rightarrow> 's unknown_proxy" where
  "cu_handle_disconnect u = sendFailure u"

definition cu_handle_write_error :: "'s unknown_proxy \<Rightarrow> 's unknown_proxy" where
  "cu_handle_write_error u = sendFailure u"

text \<open>
  The try block of \<open>handle_data\<close>. \<open>stream_size\<close> is the stream's \<^verbatim>\<open>getSize\<close>. The stream leaves the object before
  the version is checked against the versions that have a proxy.
\<close>

datatype 's hello_result =
    HelloProxy "'s unknown_proxy"
  | HelloBad "'s unknown_proxy"
  | HelloIncompatible "'s unknown_proxy"
  | HelloFault proxy_fault

definition accept_version :: "int \<Rightarrow> int \<Rightarrow> bytes \<Rightarrow> 's \<Rightarrow> 's unknown_proxy \<Rightarrow> 's hello_result" where
  "accept_version major minor name s u =
     (if major \<le> 0 \<or> minor < 0 then HelloIncompatible u
      else
        (let u = (cu_remove_handlers u)\<lparr>cu_stream := None\<rparr> in
         if major = 1 \<and> minor = 6
         then HelloProxy (cu_emit (CuProxyHandlers True) ((cu_emit (CuCreateProxy name s) u)\<lparr>cu_proxy := True\<rparr>))
         else HelloIncompatible u))"

definition read_hello :: "'s reader \<Rightarrow> ('s \<Rightarrow> nat) \<Rightarrow> 's \<Rightarrow> 's unknown_proxy \<Rightarrow> 's hello_result" where
  "read_hello rd stream_size s u =
     (if kMaxHelloLength < stream_size s then HelloBad u
      else case readf rd s kMsgHelloBack of
        (Inl e, _, s) \<Rightarrow>
          (if e = XBadClient then HelloBad (u\<lparr>cu_stream := Some s\<rparr>) else HelloFault AssertionFault)
      | (Inr ok, vs, s) \<Rightarrow>
          (if \<not> ok then HelloBad (u\<lparr>cu_stream := Some s\<rparr>)
           else case vs of
             [RInt2 major, RInt2 minor, RString name] \<Rightarrow>
               accept_version (sint major) (sint minor) name s (u\<lparr>cu_stream := Some s\<rparr>)
           | _ \<Rightarrow> HelloFault AssertionFault))"

definition cu_handle_data :: "'s reader \<Rightarrow> ('s \<Rightarrow> nat) \<Rightarrow> 's unknown_proxy \<Rightarrow> proxy_fault + 's unknown_proxy" where
  "cu_handle_data rd stream_size u =
     (case cu_stream u of
        None \<Rightarrow> Inl NullStream
      | Some s \<Rightarrow>
          (case read_hello rd stream_size s u of
             HelloProxy u \<Rightarrow> Inr u
           | HelloBad u \<Rightarrow> and_then (cu_writef kMsgEBad [] u) (\<lambda>u. Inr (sendFailure u))
           | HelloIncompatible u \<Rightarrow>
               and_then (cu_writef kMsgEIncompatible [WInt kProtocolMajorVersion, WInt kProtocolMinorVersion] u)
                 (\<lambda>u. Inr (sendFailure u))
           | HelloFault e \<Rightarrow> Inl e))"

end
