(* ===== verification/ProxyReads.thy ===== *)
theory ProxyReads
  imports ServerProxy ClientProxy
begin

text \<open>
  No message makes either end of a connection read forever. Everything that reads from a stream with the
  contract \<open>istream\<close> leaves at most the bytes that were there, and every round of \<open>handle_data\<close> takes at least
  one, so that both loops return whatever the other end sends.
\<close>

definition drains :: "('s \<Rightarrow> bool) \<Rightarrow> ('s \<Rightarrow> bytes) \<Rightarrow> 's \<Rightarrow> 's \<Rightarrow> bool" where
  "drains ok avail s s' \<longleftrightarrow> (ok s \<longrightarrow> ok s' \<and> length (avail s') \<le> length (avail s))"

lemma drains_refl [simp, intro]: "drains ok avail s s"
  by (simp add: drains_def)

lemma drains_trans: "drains ok avail s t \<Longrightarrow> drains ok avail t u \<Longrightarrow> drains ok avail s u"
  by (auto simp: drains_def)

context istream
begin

lemma stream_read_drains: "stream_read rd s n = (r, s') \<Longrightarrow> drains ok avail s s'"
  using stream_read_cases [of s n] unfolding drains_def
  by (metis Pair_inject diff_le_self le0 length_drop list.size(3))

lemma read_items_drains: "read_items rd s len n = (xs, e, s') \<Longrightarrow> drains ok avail s s'"
proof (induction n arbitrary: s xs)
  case (Suc n)
  then show ?case
    by (auto split: prod.splits sum.splits dest!: stream_read_drains intro: drains_trans)
qed simp

lemma read_count_drains: "read_count rd s = (r, s') \<Longrightarrow> drains ok avail s s'"
  by (auto simp: read_count_def split: prod.splits sum.splits option.splits dest: stream_read_drains)

lemma read_spec_drains: "read_spec rd s len c = (vs, e, s') \<Longrightarrow> drains ok avail s s'"
  by (auto simp: read_spec_def read_int_def read_list_def read_string_def
      split: if_splits prod.splits sum.splits option.splits
      dest: stream_read_drains read_count_drains read_items_drains intro: drains_trans)

lemma vreadf_drains: "vreadf rd s fmt = (vs, e, s') \<Longrightarrow> drains ok avail s s'"
proof (induction fmt arbitrary: s vs rule: length_induct)
  case (1 fmt)
  have IH: "vreadf rd t f = (ws, e, s') \<Longrightarrow> length f < length fmt \<Longrightarrow> drains ok avail t s'" for t f ws
    using "1.IH" by blast
  show ?case
  proof (cases fmt)
    case Nil
    with "1.prems" show ?thesis by simp
  next
    case (Cons c cs)
    show ?thesis
    proof (cases "c = CHR ''%''")
      case False
      then show ?thesis using "1.prems" Cons IH
        by (auto split: prod.splits sum.splits if_splits dest!: stream_read_drains intro: drains_trans)
    next
      case True
      obtain len ds where e: "eatLength 0 cs = (len, ds)" by fastforce
      show ?thesis
      proof (cases ds)
        case Nil
        with "1.prems" Cons True e show ?thesis by simp
      next
        case (Cons d ds')
        then have lt: "length ds' < length fmt" using eatLength_le [OF e] \<open>fmt = c # cs\<close> by simp
        obtain us err t where r: "read_spec rd s len d = (us, err, t)" by (metis prod_cases3)
        have "drains ok avail s t" by (rule read_spec_drains [OF r])
        moreover have "drains ok avail t s'"
          using "1.prems" \<open>fmt = c # cs\<close> True e Cons r IH [OF _ lt] by (auto split: option.splits prod.splits)
        ultimately show ?thesis by (rule drains_trans)
      qed
    qed
  qed
qed

lemma readf_drains: "readf rd s fmt = (r, vs, s') \<Longrightarrow> drains ok avail s s'"
  by (auto simp: readf_def split: prod.splits option.splits dest: vreadf_drains)

lemma readf_u32_list_drains: "readf_u32_list rd s fmt xs = (r, ys, s') \<Longrightarrow> drains ok avail s s'"
  by (auto simp: readf_u32_list_def split: if_splits prod.splits sum.splits option.splits
      dest: read_count_drains read_items_drains intro: drains_trans)

lemma clipboard_assemble_drains: "ClipboardChunk_assemble u rd s a = (r, a', s') \<Longrightarrow> drains ok avail s s'"
  by (cases "readf rd s (drop 4 kMsgDClipboard)" rule: prod_cases3)
     (auto simp: ClipboardChunk_assemble_def split: sum.splits bool.splits prod.splits list.splits read_val.splits
       dest: readf_drains)

lemma file_assemble_drains: "FileChunk_assemble u rd s a = (r, a', s') \<Longrightarrow> drains ok avail s s'"
  by (cases "readf rd s (drop 4 kMsgDFileTransfer)" rule: prod_cases3)
     (auto simp: FileChunk_assemble_def split: sum.splits bool.splits prod.splits list.splits read_val.splits
       dest: readf_drains)

end

subsection \<open>The client's end\<close>

lemma stream_of_actions [simp]:
  "sp_stream (sp_emit a p) = sp_stream p" "sp_stream (flushCompressedMouse p) = sp_stream p"
  "sp_stream (record_move r x y p) = sp_stream p" "sp_stream (record_relative r x y p) = sp_stream p"
  "sp_stream (resetKeepAliveAlarm p) = sp_stream p" "sp_stream (setKeepAliveRate k p) = sp_stream p"
  "sp_stream (sp_resetOptions p) = sp_stream p" "sp_stream (infoAcknowledgment p) = sp_stream p"
  "sp_stream (sp_leave p) = sp_stream p" "sp_stream (apply_option opt v p) = sp_stream p"
  by (simp_all add: sp_emit_def flushCompressedMouse_def record_move_def record_relative_def resetKeepAliveAlarm_def
      setKeepAliveRate_def sp_resetOptions_def infoAcknowledgment_def sp_leave_def apply_option_def Let_def)

lemma dragInfo_stream: "c_dragInfoReceived l n data q = Inr p \<Longrightarrow> sp_stream p = sp_stream q"
  by (auto simp: c_dragInfoReceived_def split: if_splits sum.splits)

lemma stream_of_steps:
  "sp_writef fmt args p = Inr p' \<Longrightarrow> sp_stream p' = sp_stream p"
  "echo_keep_alive p = Inr p' \<Longrightarrow> sp_stream p' = sp_stream p"
  "queryInfo l p = Inr p' \<Longrightarrow> sp_stream p' = sp_stream p"
  "forward_key i m k p = Inr p' \<Longrightarrow> sp_stream p' = sp_stream p"
  "apply_options opts p = Inr p' \<Longrightarrow> sp_stream p' = sp_stream p"
proof -
  show w: "sp_writef fmt args p = Inr p' \<Longrightarrow> sp_stream p' = sp_stream p" for fmt args and p p' :: "'b server_proxy"
    by (auto simp: sp_writef_def split: sum.splits)
  show "echo_keep_alive p = Inr p' \<Longrightarrow> sp_stream p' = sp_stream p"
    by (auto simp: echo_keep_alive_def dest: w)
  show "queryInfo l p = Inr p' \<Longrightarrow> sp_stream p' = sp_stream p"
    by (auto simp: queryInfo_def sendInfo_def case_prod_beta dest: w)
  show "forward_key i m k p = Inr p' \<Longrightarrow> sp_stream p' = sp_stream p"
    by (auto simp: forward_key_def split: option.splits)
  show "apply_options opts p = Inr p' \<Longrightarrow> sp_stream p' = sp_stream p"
    by (induction opts p rule: apply_options.induct) (auto split: if_splits)
qed

context istream
begin

lemma sp_readf_drains:
  assumes "lk_read l = rd"
  shows "sp_readf l fmt p = Inr (b, vs, p') \<Longrightarrow> drains ok avail (sp_stream p) (sp_stream p')"
  by (auto simp: sp_readf_def assms split: prod.splits sum.splits dest: readf_drains)

text \<open>A handler that reads once and then leaves the stream alone.\<close>

lemma readf_then:
  assumes "lk_read l = rd" "and_then (sp_readf l fmt q) k = Inr p'" "sp_stream q = sp_stream p"
    "\<And>b vs q'. k (b, vs, q') = Inr p' \<Longrightarrow> sp_stream p' = sp_stream q'"
  shows "drains ok avail (sp_stream p) (sp_stream p')"
proof -
  obtain b vs q' where "sp_readf l fmt q = Inr (b, vs, q')" "k (b, vs, q') = Inr p'" using assms(2) by auto
  then show ?thesis using sp_readf_drains [OF assms(1)] assms(3,4) by metis
qed

lemma sp_handler_drains:
  assumes l: "lk_read l = rd"
  shows "sp_enter l p = Inr p' \<Longrightarrow> drains ok avail (sp_stream p) (sp_stream p')"
    "sp_keyDown l p = Inr p' \<Longrightarrow> drains ok avail (sp_stream p) (sp_stream p')"
    "sp_keyUp l p = Inr p' \<Longrightarrow> drains ok avail (sp_stream p) (sp_stream p')"
    "sp_keyRepeat l p = Inr p' \<Longrightarrow> drains ok avail (sp_stream p) (sp_stream p')"
    "sp_mouseDown l p = Inr p' \<Longrightarrow> drains ok avail (sp_stream p) (sp_stream p')"
    "sp_mouseUp l p = Inr p' \<Longrightarrow> drains ok avail (sp_stream p) (sp_stream p')"
    "sp_mouseMove l p = Inr p' \<Longrightarrow> drains ok avail (sp_stream p) (sp_stream p')"
    "sp_mouseRelativeMove l p = Inr p' \<Longrightarrow> drains ok avail (sp_stream p) (sp_stream p')"
    "sp_mouseWheel l p = Inr p' \<Longrightarrow> drains ok avail (sp_stream p) (sp_stream p')"
    "sp_screensaver l p = Inr p' \<Longrightarrow> drains ok avail (sp_stream p) (sp_stream p')"
    "sp_grabClipboard l p = Inr p' \<Longrightarrow> drains ok avail (sp_stream p) (sp_stream p')"
    "sp_dragInfoReceived l p = Inr p' \<Longrightarrow> drains ok avail (sp_stream p) (sp_stream p')"
  unfolding sp_enter_def sp_keyDown_def sp_keyUp_def sp_keyRepeat_def sp_mouseDown_def sp_mouseUp_def sp_mouseMove_def
    sp_mouseRelativeMove_def sp_mouseWheel_def sp_screensaver_def sp_grabClipboard_def sp_dragInfoReceived_def
  by (erule readf_then [OF l];
      auto split: list.splits read_val.splits if_splits dest: stream_of_steps(4) dragInfo_stream)+

lemma sp_data_drains:
  assumes "lk_read l = rd"
  shows "sp_setClipboard l p = Inr p' \<Longrightarrow> drains ok avail (sp_stream p) (sp_stream p')"
    "sp_fileChunkReceived l p = Inr p' \<Longrightarrow> drains ok avail (sp_stream p) (sp_stream p')"
    "sp_setOptions l p = Inr p' \<Longrightarrow> drains ok avail (sp_stream p) (sp_stream p')"
  by (auto simp: sp_setClipboard_def sp_fileChunkReceived_def sp_setOptions_def assms Let_def
      split: prod.splits sum.splits option.splits if_splits
      dest!: stream_of_steps(5) dest: clipboard_assemble_drains file_assemble_drains readf_u32_list_drains)

lemma message_handler_drains:
  assumes "lk_read l = rd" "message_handler l code = Some h" "h p = Inr p'"
  shows "drains ok avail (sp_stream p) (sp_stream p')"
  using assms(2,3)
  by (auto simp: message_handler_def split: if_splits
      dest: sp_handler_drains [OF assms(1)] sp_data_drains [OF assms(1)] stream_of_steps)

lemma run_parser_drains:
  assumes l: "lk_read l = rd" and r: "run_parser l code p = Inr (res, p')"
  shows "drains ok avail (sp_stream p) (sp_stream p')"
proof (cases "sp_parser p")
  case ParseHandshake
  then show ?thesis
    using r by (auto simp: run_parser_def parseHandshakeMessage_def okay_def hang_up_def split: if_splits
        dest: sp_data_drains(3) [OF l] sp_readf_drains [OF l] stream_of_steps(2,3))
next
  case ParseMessage
  then show ?thesis
    using r by (auto simp: run_parser_def parseMessage_def okay_def hang_up_def split: option.splits if_splits
        dest!: stream_of_steps(1) dest: message_handler_drains [OF l])
qed

text \<open>The loop returns.\<close>

lemma handle_data_ends:
  assumes l: "lk_read l = rd"
  shows "ok (sp_stream p) \<Longrightarrow> \<exists>r. handle_data l p = Some r"
proof (induction "length (avail (sp_stream p))" arbitrary: p rule: less_induct)
  case less
  obtain code s where r: "rd (sp_stream p) 4 = Some (code, s)" "ok s" "avail (sp_stream p) = code @ avail s"
    using rd_spec [OF less.prems, of 4] by blast
  let ?p = "p\<lparr>sp_stream := s\<rparr>"
  have rec: "\<exists>r. handle_data l p' = Some r" if "code \<noteq> []" "run_parser l code ?p = Inr (kOkay, p')" for p'
  proof (rule less.hyps)
    have "drains ok avail s (sp_stream p')" using run_parser_drains [OF l that(2)] by simp
    then show "ok (sp_stream p')" "length (avail (sp_stream p')) < length (avail (sp_stream p))"
      using r(2,3) that(1) by (auto simp: drains_def less_le_trans simp flip: length_greater_0_conv)
  qed
  show ?case
    using rec r(1) by (subst handle_data.simps)
      (auto simp: l Let_def split: sum.split prod.split sp_result.split proxy_fault.split)
qed

end

text \<open>
  C17. Whatever bytes the server sends, handling them at the client ends: the loop of \<open>handle_data\<close> over the
  packet filter returns from every state.
\<close>

theorem client_handles_any_input:
  assumes "lk_read l = pf_read" "pf_inv (sp_stream p)"
  shows "\<exists>r. handle_data l p = Some r"
  by (rule pf.handle_data_ends [OF assms])

theorem client_handles_any_input_witness:
  "\<exists>s r. pf_holds s [bytes_of ''DMMV'' @ [0]] \<and>
     handle_data \<lparr>lk_read = pf_read, lk_isReady = pf_isReady, lk_shape = (0, 0, 8, 6), lk_cursor = (1, 1), lk_junk = 0, lk_enableDragDrop = True\<rparr>
       ((ServerProxy_new s \<lparr>ca_expectedSize = 0, ca_dataCached = [], ca_id = 0, ca_sequence = 0\<rparr>
           \<lparr>fa_expectedSize = 0, fa_dataReceived = []\<rparr>)\<lparr>sp_stream := s, sp_parser := ParseMessage\<rparr>) = Some r"
proof -
  obtain s where s: "pf_holds s [bytes_of ''DMMV'' @ [0]]"
    using one_packet_holds [of "bytes_of ''DMMV'' @ [0]"] by (auto simp: good_payload_def protocol_limits)
  then have "pf_inv s" by (simp add: pf_holds_def)
  with s client_handles_any_input [where p = "q\<lparr>sp_stream := s, sp_parser := ParseMessage\<rparr>" for q] show ?thesis by fastforce
qed

end
