(* ===== verification/ProxyValues.thy ===== *)
theory ProxyValues
  imports ProxyReads
begin

text \<open>
  What \<^verbatim>\<open>readf\<close> can deliver: for a format with sensible lengths a read from a stream with the contract
  \<open>istream\<close> either fails with an exception of the protocol or stores one value of the right width for every
  specifier. With it the server's end is shown to survive whatever a client sends.
\<close>

subsection \<open>Formats and the values they deliver\<close>

definition spec_ok :: "u32 \<Rightarrow> char \<Rightarrow> bool" where
  "spec_ok len c \<longleftrightarrow> (c = CHR ''i'' \<or> c = CHR ''I'') \<and> (len = 1 \<or> len = 2 \<or> len = 4) \<or> c = CHR ''s'' \<and> len = 0"

definition has_shape :: "u32 \<Rightarrow> char \<Rightarrow> read_val \<Rightarrow> bool" where
  "has_shape len c v \<longleftrightarrow>
     (case v of
        RInt1 _ \<Rightarrow> c = CHR ''i'' \<and> len = 1
      | RInt2 _ \<Rightarrow> c = CHR ''i'' \<and> len = 2
      | RInt4 _ \<Rightarrow> c = CHR ''i'' \<and> len = 4
      | RString _ \<Rightarrow> c = CHR ''s''
      | _ \<Rightarrow> c = CHR ''I'')"

function specs :: "string \<Rightarrow> (u32 \<times> char) list" where
  "specs [] = []"
| "specs (c # cs) =
     (if c \<noteq> CHR ''%'' then specs cs
      else case eatLength 0 cs of
        (len, []) \<Rightarrow> [(0, CHR ''%'')]
      | (len, d # ds) \<Rightarrow> (len, d) # specs ds)"
  by pat_completeness auto
termination
  by (relation "measure length") (auto dest!: eatLength_less)

definition format_ok :: "string \<Rightarrow> bool" where
  "format_ok fmt \<longleftrightarrow> (\<forall>(len, c) \<in> set (specs fmt). spec_ok len c)"

lemma length_2_4: "length xs = 2 \<Longrightarrow> \<exists>a b. xs = [a, b]" "length xs = 4 \<Longrightarrow> \<exists>a b c d. xs = [a, b, c, d]"
  by (auto simp: numeral_eq_Suc length_Suc_conv)

lemma int_of_bytes_shape:
  assumes "length bs = unat len" "len = 1 \<or> len = 2 \<or> len = 4"
  shows "\<exists>v. int_of_bytes bs = Some v \<and> has_shape len (CHR ''i'') v"
proof -
  consider "len = 1" "length bs = 1" | "len = 2" "length bs = 2" | "len = 4" "length bs = 4"
    using assms by auto
  then show ?thesis
    by cases (auto simp: int_of_bytes_def has_shape_def length_Suc_conv dest!: length_2_4)
qed

context istream
begin

lemma stream_read_result:
  assumes "ok s" "stream_read rd s n = (r, s')"
  shows "(case r of Inl e \<Rightarrow> e = XIOEndOfStream | Inr bs \<Rightarrow> length bs = n)" "ok s'"
  using stream_read_cases [OF assms(1), of n] assms(2) by fastforce+

lemma read_items_result:
  "ok s \<Longrightarrow> read_items rd s len n = (xs, e, s') \<Longrightarrow> (e = None \<or> e = Some XIOEndOfStream) \<and> ok s'"
proof (induction n arbitrary: s xs)
  case (Suc n)
  obtain r t where r: "stream_read rd s len = (r, t)" by fastforce
  note q = stream_read_result [OF Suc.prems(1) r]
  show ?case
  proof (cases r)
    case (Inl e')
    with q Suc.prems(2) r show ?thesis by simp
  next
    case (Inr bs)
    with Suc.prems(2) r obtain ys where "read_items rd t len n = (ys, e, s')" by (auto split: prod.splits)
    with Suc.IH [OF q(2)] show ?thesis by blast
  qed
qed simp

lemma read_count_result:
  assumes "ok s" "read_count rd s = (r, s')"
  shows "(case r of Inl e \<Rightarrow> e = XIOEndOfStream | Inr n \<Rightarrow> True)" "ok s'"
proof -
  obtain q t where q: "stream_read rd s 4 = (q, t)" by fastforce
  have "\<exists>v. decode_be32 bs = Some v" if "q = Inr bs" for bs
    using stream_read_result(1) [OF assms(1) q] that by (simp add: decode_be32_Some_iff)
  then show "(case r of Inl e \<Rightarrow> e = XIOEndOfStream | Inr n \<Rightarrow> True)" "ok s'"
    using assms(2) q stream_read_result [OF assms(1) q] by (fastforce simp: read_count_def split: sum.splits option.splits)+
qed

lemma read_list_result:
  assumes "ok s" "len = 1 \<or> len = 2 \<or> len = 4" "read_list rd s len = (vs, e, s')"
  shows "(case e of None \<Rightarrow> \<exists>v. vs = [v] \<and> has_shape len (CHR ''I'') v | Some e \<Rightarrow> e \<noteq> AssertionFailed) \<and> ok s'"
proof -
  obtain r t where r: "read_count rd s = (r, t)" by fastforce
  note q = read_count_result [OF assms(1) r]
  show ?thesis
  proof (cases r)
    case (Inl e')
    with q assms(2,3) r show ?thesis by (auto simp: read_list_def)
  next
    case (Inr n)
    obtain items err u where i: "read_items rd t (unat len) n = (items, err, u)" by (metis prod_cases3)
    from read_items_result [OF q(2) i] Inr q assms(2,3) r i show ?thesis
      by (auto simp: read_list_def has_shape_def list_of_items_def split: if_splits)
  qed
qed

lemma read_string_result:
  assumes "ok s" "read_string rd s 0 = (vs, e, s')"
  shows "(case e of None \<Rightarrow> \<exists>v. vs = [v] \<and> has_shape 0 (CHR ''s'') v | Some e \<Rightarrow> e \<noteq> AssertionFailed) \<and> ok s'"
proof -
  obtain r t where r: "read_count rd s = (r, t)" by fastforce
  note q = read_count_result [OF assms(1) r]
  show ?thesis
  proof (cases r)
    case (Inl e')
    with q assms(2) r show ?thesis by (auto simp: read_string_def)
  next
    case (Inr n)
    obtain b u where i: "stream_read rd t n = (b, u)" by fastforce
    from stream_read_result [OF q(2) i] Inr q assms(2) r i show ?thesis
      by (auto simp: read_string_def has_shape_def split: if_splits sum.splits)
  qed
qed

lemma read_int_result:
  assumes "ok s" "len = 1 \<or> len = 2 \<or> len = 4" "read_int rd s len = (vs, e, s')"
  shows "(case e of None \<Rightarrow> \<exists>v. vs = [v] \<and> has_shape len (CHR ''i'') v | Some e \<Rightarrow> e \<noteq> AssertionFailed) \<and> ok s'"
proof -
  obtain r t where r: "stream_read rd s (unat len) = (r, t)" by fastforce
  note q = stream_read_result [OF assms(1) r]
  show ?thesis
  proof (cases r)
    case (Inl e')
    with q assms(2,3) r show ?thesis by (auto simp: read_int_def)
  next
    case (Inr bs)
    with int_of_bytes_shape [of bs len] q(1) assms(2) obtain v where "int_of_bytes bs = Some v" "has_shape len (CHR ''i'') v"
      by auto
    with Inr q assms(2,3) r show ?thesis by (auto simp: read_int_def)
  qed
qed

lemma read_spec_result:
  assumes "ok s" "spec_ok len c" "read_spec rd s len c = (vs, e, s')"
  shows "(case e of None \<Rightarrow> \<exists>v. vs = [v] \<and> has_shape len c v | Some e \<Rightarrow> e \<noteq> AssertionFailed) \<and> ok s'"
  using assms(2,3) read_int_result [OF assms(1), of len vs e s'] read_list_result [OF assms(1), of len vs e s']
    read_string_result [OF assms(1), of vs e s']
  by (auto simp: spec_ok_def read_spec_def)

text \<open>A whole format: no assertion fails, and a successful read stores one value per specifier.\<close>

lemma vreadf_result:
  assumes "ok s" "format_ok fmt" "vreadf rd s fmt = (vs, e, s')"
  shows "case e of None \<Rightarrow> list_all2 (\<lambda>(len, c) v. has_shape len c v) (specs fmt) vs | Some e \<Rightarrow> e \<noteq> AssertionFailed"
  using assms
proof (induction fmt arbitrary: s vs rule: length_induct)
  case (1 fmt)
  have IH: "case e of None \<Rightarrow> list_all2 (\<lambda>(len, c) v. has_shape len c v) (specs f) ws | Some e \<Rightarrow> e \<noteq> AssertionFailed"
    if "vreadf rd t f = (ws, e, s')" "length f < length fmt" "ok t" "format_ok f" for t f ws
    using "1.IH" that by blast
  show ?case
  proof (cases fmt)
    case Nil
    with "1.prems" show ?thesis by auto
  next
    case (Cons c cs)
    show ?thesis
    proof (cases "c = CHR ''%''")
      case False
      obtain r t where r: "stream_read rd s 1 = (r, t)" by fastforce
      note q = stream_read_result [OF "1.prems"(1) r]
      have sp: "specs fmt = specs cs" using Cons False by simp
      then have "format_ok cs" using "1.prems"(2) by (simp add: format_ok_def)
      then show ?thesis unfolding sp
        using "1.prems"(3) Cons False r q IH [of t cs vs] by (cases r) (auto split: if_splits)
    next
      case True
      obtain len ds where e: "eatLength 0 cs = (len, ds)" by fastforce
      show ?thesis
      proof (cases ds)
        case Nil
        with "1.prems"(2) Cons True e show ?thesis by (simp add: format_ok_def spec_ok_def)
      next
        case (Cons d ds')
        have lt: "length ds' < length fmt" using eatLength_le [OF e] \<open>fmt = c # cs\<close> Cons by simp
        obtain us err t where r: "read_spec rd s len d = (us, err, t)" by (metis prod_cases3)
        have f: "spec_ok len d" "format_ok ds'" and sp: "specs fmt = (len, d) # specs ds'"
          using "1.prems"(2) \<open>fmt = c # cs\<close> True e Cons by (auto simp: format_ok_def)
        note q = read_spec_result [OF "1.prems"(1) f(1) r]
        obtain ws err2 u where v: "vreadf rd t ds' = (ws, err2, u)" by (metis prod_cases3)
        show ?thesis
          using "1.prems"(3) \<open>fmt = c # cs\<close> True e Cons r q v IH [of t ds' ws] lt f(2) sp by (auto split: option.splits)
      qed
    qed
  qed
qed

lemma readf_result:
  assumes "ok s" "format_ok fmt" "readf rd s fmt = (r, vs, s')"
  shows "case r of Inl e \<Rightarrow> e = XBadClient
    | Inr ok \<Rightarrow> ok \<longrightarrow> list_all2 (\<lambda>(len, c) v. has_shape len c v) (specs fmt) vs"
proof -
  obtain ws e t where v: "vreadf rd s fmt = (ws, e, t)" by (metis prod_cases3)
  from vreadf_result [OF assms(1,2) v] assms(3) v show ?thesis
    by (cases e) (auto simp: readf_def is_XIO_def split: if_splits, metis read_error.exhaust)
qed

end

lemma shape_iffs:
  "has_shape 1 (CHR ''i'') v \<longleftrightarrow> (\<exists>x. v = RInt1 x)" "has_shape 2 (CHR ''i'') v \<longleftrightarrow> (\<exists>x. v = RInt2 x)"
  "has_shape 4 (CHR ''i'') v \<longleftrightarrow> (\<exists>x. v = RInt4 x)" "has_shape len (CHR ''s'') v \<longleftrightarrow> (\<exists>x. v = RString x)"
  by (cases v; simp add: has_shape_def)+

lemma client_formats:
  "specs (drop 4 kMsgDInfo) = [(2, CHR ''i''), (2, CHR ''i''), (2, CHR ''i''), (2, CHR ''i''), (2, CHR ''i''), (2, CHR ''i''),
     (2, CHR ''i'')]"
  "specs (drop 4 kMsgCClipboard) = [(1, CHR ''i''), (4, CHR ''i'')]"
  "specs (drop 4 kMsgDClipboard) = [(1, CHR ''i''), (4, CHR ''i''), (1, CHR ''i''), (0, CHR ''s'')]"
  "specs (drop 4 kMsgDFileTransfer) = [(1, CHR ''i''), (0, CHR ''s'')]"
  "specs (drop 4 kMsgDDragInfo) = [(2, CHR ''i''), (0, CHR ''s'')]"
  by code_simp+

lemma client_formats_ok:
  "format_ok (drop 4 kMsgDInfo)" "format_ok (drop 4 kMsgCClipboard)" "format_ok (drop 4 kMsgDClipboard)"
  "format_ok (drop 4 kMsgDFileTransfer)" "format_ok (drop 4 kMsgDDragInfo)"
  by (simp_all add: format_ok_def client_formats spec_ok_def)

subsection \<open>The server's end\<close>

text \<open>
  A handler is tame if it fails only with the exception that \<open>handle_data\<close> catches, in the clipboard or, with drag
  and drop enabled, in the list of dragged files, and leaves at most the bytes that were there.
\<close>

definition tame :: "('s \<Rightarrow> bool) \<Rightarrow> ('s \<Rightarrow> bytes) \<Rightarrow> 's client_proxy \<Rightarrow> ('s, bool \<times> 's client_proxy) cp_step \<Rightarrow> bool" where
  "tame ok avail p r \<longleftrightarrow>
     (case r of
        Inl (f, _) \<Rightarrow> f = ThrowBadClient \<or> (\<exists>e. f = ClipboardFault e) \<or> f = DragInfoOutOfRange \<and> cp_enableDragDrop p
      | Inr (_, p') \<Rightarrow> drains ok avail (cp_stream p) (cp_stream p') \<and> cp_enableDragDrop p' = cp_enableDragDrop p)"

text \<open>The failures that nothing catches.\<close>

definition mishap :: "'s client_proxy \<Rightarrow> proxy_fault \<Rightarrow> bool" where
  "mishap p f \<longleftrightarrow> (\<exists>e. f = ClipboardFault e) \<or> cp_enableDragDrop p \<and> f = DragInfoOutOfRange"

lemma tame_Inr: "tame ok avail p (Inr (b, p')) \<longleftrightarrow>
    drains ok avail (cp_stream p) (cp_stream p') \<and> cp_enableDragDrop p' = cp_enableDragDrop p"
  by (simp add: tame_def)

lemma cp_stream_of_actions [simp]:
  "cp_stream (cp_emit a p) = cp_stream p" "cp_stream (resetHeartbeatTimer p) = cp_stream p"
  "cp_stream (addHeartbeatTimer p) = cp_stream p"
  "cp_enableDragDrop (cp_emit a p) = cp_enableDragDrop p" "cp_enableDragDrop (resetHeartbeatTimer p) = cp_enableDragDrop p"
  "cp_enableDragDrop (addHeartbeatTimer p) = cp_enableDragDrop p"
  by (simp_all add: cp_emit_def resetHeartbeatTimer_def addHeartbeatTimer_def Let_def)

lemma info_ack_sent: "cp_send send_info_ack_1_6 p = Inr (cp_emit (CpWrite (bytes_of ''CIAK'')) p)"
  by (simp add: cp_send_def send_info_ack_1_6_def kMsgCInfoAck_def writefArgs_def addLength_def protocol_limits)

context istream
begin

lemma tame_readf:
  assumes "ok (cp_stream p)" "format_ok fmt"
    "\<And>b vs p'. (b \<Longrightarrow> list_all2 (\<lambda>(len, c) v. has_shape len c v) (specs fmt) vs) \<Longrightarrow>
       drains ok avail (cp_stream p) (cp_stream p') \<and> cp_enableDragDrop p' = cp_enableDragDrop p \<Longrightarrow> tame ok avail p (k (b, vs, p'))"
  shows "tame ok avail p (and_then (cp_readf rd fmt p) k)"
proof -
  obtain r vs s where r: "readf rd (cp_stream p) fmt = (r, vs, s)" by (metis prod_cases3)
  note q = readf_result [OF assms(1,2) r] readf_drains [OF r]
  show ?thesis
  proof (cases r)
    case (Inl e)
    with q r show ?thesis by (simp add: cp_readf_def tame_def thrown_def)
  next
    case (Inr b)
    then have "tame ok avail p (k (b, vs, p\<lparr>cp_stream := s\<rparr>))"
      using q by (intro assms(3)) simp_all
    then show ?thesis using Inr r by (simp add: cp_readf_def)
  qed
qed

lemma recvInfo_tame:
  assumes "ok (cp_stream p)"
  shows "tame ok avail p (recvInfo rd p)"
  unfolding recvInfo_def
proof (rule tame_readf [OF assms client_formats_ok(1)], goal_cases)
  case (1 b vs p')
  show ?case
  proof (cases b)
    case True
    then obtain x y w h z mx my where "vs = [RInt2 x, RInt2 y, RInt2 w, RInt2 h, RInt2 z, RInt2 mx, RInt2 my]"
      using 1(1) by (auto simp: client_formats list_all2_Cons1 shape_iffs)
    then show ?thesis using True 1(2) by (simp add: tame_Inr info_ack_sent)
  qed (use 1(2) in \<open>simp add: tame_Inr\<close>)
qed

lemma recvGrabClipboard_tame:
  assumes "ok (cp_stream p)"
  shows "tame ok avail p (recvGrabClipboard rd p)"
  unfolding recvGrabClipboard_def
proof (rule tame_readf [OF assms client_formats_ok(2)], goal_cases)
  case (1 b vs p')
  show ?case
  proof (cases b)
    case True
    then obtain x y where "vs = [RInt1 x, RInt4 y]"
      using 1(1) by (auto simp: client_formats list_all2_Cons1 shape_iffs)
    then show ?thesis using True 1(2) by (simp add: tame_Inr)
  qed (use 1(2) in \<open>simp add: tame_Inr\<close>)
qed

lemma dragInfo_tame:
  assumes "ok (cp_stream p)"
  shows "tame ok avail p (handled (cp_dragInfoReceived rd p))"
proof -
  have "handled (cp_dragInfoReceived rd p) = and_then (cp_readf rd (drop 4 kMsgDDragInfo) p) (\<lambda>(b, vs, p').
      handled (case vs of [RInt2 n, RString content] \<Rightarrow> sv_dragInfoReceived (ucast n) content p'
        | [RInt2 n] \<Rightarrow> sv_dragInfoReceived (ucast n) [] p' | _ \<Rightarrow> sv_dragInfoReceived 0 [] p'))"
    by (cases "cp_readf rd (drop 4 kMsgDDragInfo) p") (auto simp: cp_dragInfoReceived_def handled_def)
  moreover have "tame ok avail p (handled (sv_dragInfoReceived n content p'))"
    if "drains ok avail (cp_stream p) (cp_stream p') \<and> cp_enableDragDrop p' = cp_enableDragDrop p" for n content p'
    using that by (auto simp: sv_dragInfoReceived_def handled_def tame_def split: sum.split)
  ultimately show ?thesis
    by (simp only:) (rule tame_readf [OF assms client_formats_ok(5)], auto split: list.split read_val.split)
qed

text \<open>The chunk assemblers fail only with the exception of \<^verbatim>\<open>readf\<close>.\<close>

lemma clipboard_assemble_result:
  assumes "ok s" "ClipboardChunk_assemble u rd s a = (r, a', s')"
  shows "case r of Inl e \<Rightarrow> e = XBadClient | Inr _ \<Rightarrow> True"
proof -
  obtain q vs t where q: "readf rd s (drop 4 kMsgDClipboard) = (q, vs, t)" by (metis prod_cases3)
  from readf_result [OF assms(1) client_formats_ok(3) q] assms(2) q show ?thesis
    by (cases q) (auto simp: ClipboardChunk_assemble_def client_formats list_all2_Cons1 shape_iffs split: bool.splits prod.splits)
qed

lemma file_assemble_result:
  assumes "ok s" "FileChunk_assemble u rd s a = (r, a', s')"
  shows "case r of Inl e \<Rightarrow> e = XBadClient | Inr _ \<Rightarrow> True"
proof -
  obtain q vs t where q: "readf rd s (drop 4 kMsgDFileTransfer) = (q, vs, t)" by (metis prod_cases3)
  from readf_result [OF assms(1) client_formats_ok(4) q] assms(2) q show ?thesis
    by (cases q) (auto simp: FileChunk_assemble_def client_formats list_all2_Cons1 shape_iffs split: bool.splits prod.splits)
qed

lemma recvClipboard_tame:
  assumes "ok (cp_stream p)"
  shows "tame ok avail p (recvClipboard junk rd p)"
proof -
  obtain r a s where r: "ClipboardChunk_assemble junk rd (cp_stream p) (cp_assembly p) = (r, a, s)" by (metis prod_cases3)
  from clipboard_assemble_result [OF assms r] clipboard_assemble_drains [OF r] r show ?thesis
    by (cases r) (auto simp: recvClipboard_def tame_def thrown_def Let_def split: sum.splits)
qed

lemma fileChunk_tame:
  assumes "ok (cp_stream p)"
  shows "tame ok avail p (handled (cp_fileChunkReceived junk rd p))"
proof -
  obtain r a s where r: "FileChunk_assemble junk rd (cp_stream p) (cp_file p) = (r, a, s)" by (metis prod_cases3)
  from file_assemble_result [OF assms r] file_assemble_drains [OF r] r show ?thesis
    by (cases r) (auto simp: cp_fileChunkReceived_def handled_def tame_def thrown_def Let_def)
qed

lemma tame_then:
  "tame ok avail p r \<Longrightarrow> (\<And>b p'. drains ok avail (cp_stream p) (cp_stream p') \<and>
     cp_enableDragDrop p' = cp_enableDragDrop p \<Longrightarrow> tame ok avail p (k (b, p'))) \<Longrightarrow>
     tame ok avail p (and_then r k)"
  by (cases r) (auto simp: tame_def)

lemma tame_parser: "tame ok avail (p\<lparr>cp_parser := c\<rparr>) r = tame ok avail p r"
  by (cases r) (auto simp: tame_def)

lemma cp_run_parser_tame:
  assumes "ok (cp_stream p)"
  shows "tame ok avail p (cp_run_parser junk rd code p)"
proof (cases "cp_parser p")
  case CpHandshake
  have "tame ok avail p (recvInfo rd (p\<lparr>cp_parser := CpMessage\<rparr>))"
    using recvInfo_tame [of "p\<lparr>cp_parser := CpMessage\<rparr>"] assms by (simp add: tame_parser)
  then show ?thesis using CpHandshake
    by (auto simp: cp_run_parser_def cp_parseHandshakeMessage_def tame_Inr intro!: tame_then)
next
  case CpMessage
  then show ?thesis
    by (auto simp: cp_run_parser_def cp_parseMessage_def tame_Inr intro!: fileChunk_tame dragInfo_tame recvInfo_tame tame_then
        recvGrabClipboard_tame recvClipboard_tame assms)
qed

text \<open>The loop returns, and nothing but a malformed clipboard or list of files makes it fail.\<close>

lemma cp_handle_data_survives:
  "ok (cp_stream p) \<Longrightarrow> \<exists>r. cp_handle_data junk rd p = Some r \<and>
     (case r of Inl (f, _) \<Rightarrow> mishap p f | Inr _ \<Rightarrow> True)"
proof (induction "length (avail (cp_stream p))" arbitrary: p rule: less_induct)
  case less
  obtain code s where r: "rd (cp_stream p) 4 = Some (code, s)" "ok s" "avail (cp_stream p) = code @ avail s"
    using rd_spec [OF less.prems, of 4] by blast
  let ?p = "p\<lparr>cp_stream := s\<rparr>"
  have t: "tame ok avail ?p (cp_run_parser junk rd code ?p)" using r(2) by (intro cp_run_parser_tame) simp
  have rec: "\<exists>r. cp_handle_data junk rd p' = Some r \<and> (case r of Inl (f, _) \<Rightarrow> mishap p f | Inr _ \<Rightarrow> True)"
    if "code \<noteq> []" "cp_run_parser junk rd code ?p = Inr (True, p')" for p'
  proof -
    have d: "drains ok avail s (cp_stream p')" "cp_enableDragDrop p' = cp_enableDragDrop p"
      using t that(2) by (simp_all add: tame_def)
    have "ok (cp_stream p')" "length (avail (cp_stream p')) < length (avail (cp_stream p))"
      using d(1) r(2,3) that(1) by (auto simp: drains_def less_le_trans simp flip: length_greater_0_conv)
    moreover have "mishap p' = mishap p" by (simp add: mishap_def fun_eq_iff d(2))
    ultimately show ?thesis using less.hyps [of p'] by (simp only:)
  qed
  show ?case
  proof (cases "code = [] \<or> length code \<noteq> 4")
    case True
    then show ?thesis using r(1) by (subst cp_handle_data.simps) (auto simp: Let_def)
  next
    case False
    then show ?thesis using t rec r(1)
      by (subst cp_handle_data.simps)
         (cases "cp_run_parser junk rd code ?p", auto simp: tame_def mishap_def split: proxy_fault.split)
  qed
qed

end



end
