(* ===== verification/ProxyLink.thy ===== *)
theory ProxyLink
  imports ServerProxy ClientProxy
begin

text \<open>
  The two ends of a connection together: what the calls of the server on a client's proxy become at the
  client.
\<close>

subsection \<open>What arrives\<close>

text \<open>
  The call that a call of the server arrives as: numbers are cut to the width of their field, keys and
  modifiers are translated, and the client is never told that it is entered for the screen saver.
\<close>

fun arrive :: "u32 list \<Rightarrow> client_call \<Rightarrow> client_call" where
  "arrive t (Enter x y sq m saver) = Enter (wrap16 x) (wrap16 y) sq (low16 m) False"
| "arrive t (MouseMove x y) = MouseMove (wrap16 x) (wrap16 y)"
| "arrive t (MouseRelativeMove x y) = MouseRelativeMove (wrap16 x) (wrap16 y)"
| "arrive t (MouseWheel x y) = MouseWheel (wrap16 x) (wrap16 y)"
| "arrive t (MouseDown b) = MouseDown (b mod 256)"
| "arrive t (MouseUp b) = MouseUp (b mod 256)"
| "arrive t (KeyDown k m b) =
     KeyDown (the (translateKey t (low16 k))) (the (translateModifierMask t (low16 m))) b"
| "arrive t (KeyRepeat k m n b) =
     KeyRepeat (the (translateKey t (low16 k))) (the (translateModifierMask t (low16 m))) (n mod 65536) b"
| "arrive t (KeyUp k m b) =
     KeyUp (the (translateKey t (low16 k))) (the (translateModifierMask t (low16 m))) b"
| "arrive t c = c"

fun input_call :: "client_call \<Rightarrow> bool" where
  "input_call (GrabClipboard i) \<longleftrightarrow> i < kNumClipboards"
| "input_call c \<longleftrightarrow> plain_message c \<noteq> None"

definition call_message :: "client_call \<Rightarrow> message" where
  "call_message c = (case c of GrabClipboard i \<Rightarrow> send_grab_clipboard i | _ \<Rightarrow> the (plain_message c))"

text \<open>The pure effect of a message on the proxy; \<open>ready\<close> says whether more input follows.\<close>

definition feed :: "bool \<Rightarrow> client_call \<Rightarrow> 's server_proxy \<Rightarrow> 's server_proxy" where
  "feed ready c p =
     (let c' = arrive (sp_modifierTranslationTable p) c in
      case c' of
        MouseMove x y \<Rightarrow> record_move ready x y p
      | MouseRelativeMove x y \<Rightarrow> record_relative ready x y p
      | Enter x y sq m saver \<Rightarrow>
          to_client c' (p\<lparr>sp_compressMouse := False, sp_compressMouseRelative := False,
            sp_dxMouse := 0, sp_dyMouse := 0, sp_seqNum := sq\<rparr>)
      | Screensaver on \<Rightarrow> to_client c' p
      | GrabClipboard i \<Rightarrow> to_client c' p
      | _ \<Rightarrow> to_client c' (flushCompressedMouse p))"

lemmas handler_defs = sp_enter_def sp_leave_def sp_mouseMove_def sp_mouseRelativeMove_def sp_mouseWheel_def
  sp_mouseDown_def sp_mouseUp_def sp_keyDown_def sp_keyRepeat_def sp_keyUp_def sp_screensaver_def
  sp_grabClipboard_def

lemma set_stream_simps [simp]:
  "flushCompressedMouse (p\<lparr>sp_stream := s\<rparr>) = (flushCompressedMouse p)\<lparr>sp_stream := s\<rparr>"
  "record_move r x y (p\<lparr>sp_stream := s\<rparr>) = (record_move r x y p)\<lparr>sp_stream := s\<rparr>"
  "record_relative r x y (p\<lparr>sp_stream := s\<rparr>) = (record_relative r x y p)\<lparr>sp_stream := s\<rparr>"
  "sp_emit a (p\<lparr>sp_stream := s\<rparr>) = (sp_emit a p)\<lparr>sp_stream := s\<rparr>"
  "sp_emit a (p\<lparr>sp_stream := s, sp_compressMouse := False, sp_compressMouseRelative := False,
       sp_dxMouse := 0, sp_dyMouse := 0, sp_seqNum := sq\<rparr>) =
     (sp_emit a (p\<lparr>sp_compressMouse := False, sp_compressMouseRelative := False,
       sp_dxMouse := 0, sp_dyMouse := 0, sp_seqNum := sq\<rparr>))\<lparr>sp_stream := s\<rparr>"
  by (simp_all add: flushCompressedMouse_def record_move_def record_relative_def sp_emit_def Let_def)

lemma flush_keeps [simp]:
  "sp_modifierTranslationTable (flushCompressedMouse p) = sp_modifierTranslationTable p"
  "sp_stream (flushCompressedMouse p) = sp_stream p"
  by (simp_all add: flushCompressedMouse_def sp_emit_def Let_def)

lemma set_stream_same: "sp_stream p = s \<Longrightarrow> p\<lparr>sp_stream := s\<rparr> = p"
  by auto

text \<open>A key is forwarded with the translation that \<open>arrive\<close> names.\<close>

lemma forward_key_valid:
  "valid_table (sp_modifierTranslationTable p) \<Longrightarrow> forward_key i m k p =
     Inr (to_client (k (the (translateKey (sp_modifierTranslationTable p) (ucast i)))
                       (the (translateModifierMask (sp_modifierTranslationTable p) (ucast m)))) p)"
  using translateKey_valid [of "sp_modifierTranslationTable p" "ucast i"]
    translateModifierMask_valid [of "sp_modifierTranslationTable p" "ucast m"]
  by (auto simp: forward_key_def)

text \<open>The handler of each call's message, and the values it reads.\<close>

definition input_handler :: "'s link \<Rightarrow> client_call \<Rightarrow> 's server_proxy \<Rightarrow> ('s, 's server_proxy) sp_step" where
  "input_handler l c = the (message_handler l (bytes_of (take 4 (fst (call_message c)))))"

lemma input_handler_ok:
  "input_call c \<Longrightarrow> message_handler l (bytes_of (take 4 (fst (call_message c)))) = Some (input_handler l c)"
  unfolding input_handler_def
  by (cases c) (simp_all add: call_message_def send_defs message_handler_def is_msg_def msg_defs)

lemma input_handler_simps:
  "input_handler l (Enter x y sq m b) = sp_enter l" "input_handler l Leave = (\<lambda>p. Inr (sp_leave p))"
  "input_handler l (MouseMove x y) = sp_mouseMove l" "input_handler l (MouseRelativeMove x y) = sp_mouseRelativeMove l"
  "input_handler l (MouseWheel x y) = sp_mouseWheel l" "input_handler l (MouseDown n) = sp_mouseDown l"
  "input_handler l (MouseUp n) = sp_mouseUp l" "input_handler l (KeyDown k m kb) = sp_keyDown l"
  "input_handler l (KeyRepeat k m x kb) = sp_keyRepeat l" "input_handler l (KeyUp k m kb) = sp_keyUp l"
  "input_handler l (Screensaver b) = sp_screensaver l" "input_handler l (GrabClipboard n) = sp_grabClipboard l"
  by (simp_all add: input_handler_def call_message_def send_defs message_handler_def is_msg_def msg_defs)

lemma code_of_format: "input_call c \<Longrightarrow> CHR ''%'' \<notin> set (take 4 (fst (call_message c)))"
  by (cases c) (simp_all add: call_message_def send_defs msg_defs)

lemma input_readable: "input_call c \<Longrightarrow> readable (drop 4 (fst (call_message c)))"
  by (cases c) (simp_all add: call_message_def send_defs msg_defs digit_value_def)

lemma input_memory_ok: "input_call c \<Longrightarrow> memory_ok (snd (call_message c))"
  by (cases c) (simp_all add: call_message_def send_defs)

lemma input_body:
  "input_call c \<Longrightarrow> writefArgs (drop 4 (fst (call_message c))) (snd (call_message c)) = Inr body \<Longrightarrow>
     body = [] \<longleftrightarrow> c = Leave"
  by (cases c) (auto simp: call_message_def send_defs msg_defs writefArgs_def check_spec_def emit_spec_def
      addLength_def digit_value_def protocol_limits appendInteger_2 appendInteger_4)

lemma input_values:
  "sent_values (drop 4 kMsgCEnter) [WInt x, WInt y, WInteger sq, WInteger m] =
     [RInt2 (of_int x), RInt2 (of_int y), RInt4 sq, RInt2 (ucast m)]"
  "sent_values (drop 4 kMsgDMouseMove) [WInt x, WInt y] = [RInt2 (of_int x), RInt2 (of_int y)]"
  "sent_values (drop 4 kMsgDMouseRelMove) [WInt x, WInt y] = [RInt2 (of_int x), RInt2 (of_int y)]"
  "sent_values (drop 4 kMsgDMouseWheel) [WInt x, WInt y] = [RInt2 (of_int x), RInt2 (of_int y)]"
  "sent_values (drop 4 kMsgDMouseDown) [WInteger v] = [RInt1 (ucast v)]"
  "sent_values (drop 4 kMsgDMouseUp) [WInteger v] = [RInt1 (ucast v)]"
  "sent_values (drop 4 kMsgDKeyDown) [WInteger k, WInteger m, WInteger (ucast b)] = [RInt2 (ucast k), RInt2 (ucast m), RInt2 b]"
  "sent_values (drop 4 kMsgDKeyUp) [WInteger k, WInteger m, WInteger (ucast b)] = [RInt2 (ucast k), RInt2 (ucast m), RInt2 b]"
  "sent_values (drop 4 kMsgDKeyRepeat) [WInteger k, WInteger m, WInt x, WInteger (ucast b)] =
     [RInt2 (ucast k), RInt2 (ucast m), RInt2 (of_int x), RInt2 b]"
  "sent_values (drop 4 kMsgCScreenSaver) [WInteger v] = [RInt1 (ucast v)]"
  "sent_values (drop 4 kMsgCClipboard) [WInteger v, WInteger sq] = [RInt1 (ucast v), RInt4 sq]"
  by (simp_all add: msg_defs sent_value_def digit_value_def ucast_of_int16)

lemma ucast_of_nat8: "unat (ucast (of_nat n :: u32) :: byte) = n mod 256"
  by (simp add: unsigned_ucast_eq unsigned_of_nat take_bit_eq_mod mod_mod_cancel)

lemma grabbed_id: "n < 2 \<Longrightarrow> \<not> kClipboardEnd \<le> ucast (of_nat n :: u32)"
  by (simp add: kClipboardEnd_def word_le_nat_alt ucast_of_nat8)

lemma uint_of_int16: "uint (of_int x :: u16) = x mod 65536"
  by (simp add: unsigned_of_int take_bit_eq_mod)

context packet_stream
begin

text \<open>One handler: it reads its message, leaves the packets behind it, and has the effect \<open>feed\<close>.\<close>

lemma input_effect:
  assumes lk: "lk_read l = rd" "lk_isReady l = ready"
    and c: "input_call c" and t: "valid_table (sp_modifierTranslationTable p)"
    and w: "writefArgs (drop 4 (fst (call_message c))) (snd (call_message c)) = Inr body"
    and h: "holds (sp_stream p) (if body = [] then ps else body # ps)"
  shows "\<exists>s. holds s ps \<and> input_handler l c p = Inr ((feed (ps \<noteq> []) c p)\<lparr>sp_stream := s\<rparr>)"
proof (cases "c = Leave")
  case True
  then have "body = []" using input_body [OF c w] by simp
  then have "holds (sp_stream p) ps" using h by simp
  then show ?thesis using True
    by (intro exI [of _ "sp_stream p"]) (simp add: input_handler_simps feed_def sp_leave_def sp_emit_def set_stream_same)
next
  case False
  then have "holds (sp_stream p) (body # ps)" using input_body [OF c w] h by simp
  from readf_front [OF this w input_memory_ok [OF c] input_readable [OF c]] obtain s where
    s: "readf rd (sp_stream p) (drop 4 (fst (call_message c))) =
      (Inr True, sent_values (drop 4 (fst (call_message c))) (snd (call_message c)), s)" "holds s ps" by blast
  have r: "ready s \<longleftrightarrow> ps \<noteq> []" by (rule ready_iff [OF s(2)])
  have q: "sp_readf l (drop 4 (fst (call_message c))) q =
      Inr (True, sent_values (drop 4 (fst (call_message c))) (snd (call_message c)), q\<lparr>sp_stream := s\<rparr>)"
    if "sp_stream q = sp_stream p" for q
    using s(1) that by (simp add: sp_readf_def lk)
  have "input_handler l c p = Inr ((feed (ps \<noteq> []) c p)\<lparr>sp_stream := s\<rparr>)"
    using c q [of p] q [of "flushCompressedMouse p"] r t False
    by (cases c) (auto simp: input_handler_simps call_message_def send_defs input_values handler_defs feed_def
        lk wrap16_def low16_def forward_key_valid ucast_of_nat8 uint_of_int16
        grabbed_id kNumClipboards_def)
  with s(2) show ?thesis by blast
qed

end

subsection \<open>What the client sees\<close>

text \<open>
  An observer of the client watches the calls in order. A motion moves the pointer and is not noted by
  itself; an input call is noted with the position it finds the pointer at, a call that has nothing to
  do with the pointer without one.
\<close>

fun calls_of :: "sp_action list \<Rightarrow> client_call list" where
  "calls_of [] = []"
| "calls_of (ToClient c # as) = c # calls_of as"
| "calls_of (_ # as) = calls_of as"

abbreviation client_calls :: "'s server_proxy \<Rightarrow> client_call list" where
  "client_calls p \<equiv> calls_of (sp_trace p)"

fun pos_after :: "int \<times> int \<Rightarrow> client_call \<Rightarrow> int \<times> int" where
  "pos_after q (MouseMove x y) = (x, y)"
| "pos_after q (MouseRelativeMove x y) = (fst q + x, snd q + y)"
| "pos_after q (Enter x y sq m saver) = (x, y)"
| "pos_after q c = q"

definition pointer :: "int \<times> int \<Rightarrow> client_call list \<Rightarrow> int \<times> int" where
  "pointer q cs = foldl pos_after q cs"

fun noted :: "int \<times> int \<Rightarrow> client_call \<Rightarrow> (client_call \<times> (int \<times> int) option) list" where
  "noted q (MouseMove x y) = []"
| "noted q (MouseRelativeMove x y) = []"
| "noted q (Screensaver on) = [(Screensaver on, None)]"
| "noted q (GrabClipboard i) = [(GrabClipboard i, None)]"
| "noted q c = [(c, Some q)]"

fun seen :: "int \<times> int \<Rightarrow> client_call list \<Rightarrow> (client_call \<times> (int \<times> int) option) list" where
  "seen q [] = []"
| "seen q (c # cs) = noted (pos_after q c) c @ seen (pos_after q c) cs"

lemma calls_of_append [simp]: "calls_of (as @ bs) = calls_of as @ calls_of bs"
  by (induction as rule: calls_of.induct) auto

lemma pointer_simps [simp]: "pointer q [] = q" "pointer q (c # cs) = pointer (pos_after q c) cs"
  "pointer q (as @ bs) = pointer (pointer q as) bs"
  by (simp_all add: pointer_def)

lemma seen_append [simp]: "seen q (as @ bs) = seen q as @ seen (pointer q as) bs"
  by (induction as arbitrary: q) auto

subsection \<open>Compressed motion\<close>

text \<open>The motion that the proxy still holds back, and the relation between what was sent and what was seen.\<close>

definition pend :: "'s server_proxy \<Rightarrow> client_call list" where
  "pend p = (if sp_compressMouse p then [MouseMove (sp_xMouse p) (sp_yMouse p)] else []) @
     (if sp_compressMouseRelative p then [MouseRelativeMove (sp_dxMouse p) (sp_dyMouse p)] else [])"

definition tracks :: "int \<times> int \<Rightarrow> client_call list \<Rightarrow> 's server_proxy \<Rightarrow> bool" where
  "tracks q sent p \<longleftrightarrow> seen q (client_calls p) = seen q sent \<and>
     pointer q (client_calls p @ pend p) = pointer q sent \<and>
     (\<not> sp_compressMouseRelative p \<longrightarrow> sp_dxMouse p = 0 \<and> sp_dyMouse p = 0) \<and> \<not> sp_ignoreMouse p"

text \<open>
  Which kinds of motion are held back after a call that more input follows, and the condition on the
  last call of a batch: a motion of one kind must not find only the other kind held back.
\<close>

fun kinds :: "bool \<times> bool \<Rightarrow> client_call \<Rightarrow> bool \<times> bool" where
  "kinds (a, r) (MouseMove x y) = (True, False)"
| "kinds (a, r) (MouseRelativeMove x y) = (a, True)"
| "kinds k (Screensaver on) = k"
| "kinds k (GrabClipboard i) = k"
| "kinds k c = (False, False)"

fun clean_last :: "bool \<times> bool \<Rightarrow> client_call \<Rightarrow> bool" where
  "clean_last (a, r) (MouseMove x y) \<longleftrightarrow> a \<or> \<not> r"
| "clean_last (a, r) (MouseRelativeMove x y) \<longleftrightarrow> r \<or> \<not> a"
| "clean_last k c \<longleftrightarrow> True"

fun clean_batch :: "bool \<times> bool \<Rightarrow> client_call list \<Rightarrow> bool" where
  "clean_batch k [] \<longleftrightarrow> True"
| "clean_batch k [c] \<longleftrightarrow> clean_last k c"
| "clean_batch k (c # d # cs) \<longleftrightarrow> clean_batch (kinds k c) (d # cs)"

abbreviation held_kinds :: "'s server_proxy \<Rightarrow> bool \<times> bool" where
  "held_kinds p \<equiv> (sp_compressMouse p, sp_compressMouseRelative p)"

lemma feed_keeps:
  "sp_modifierTranslationTable (feed r c p) = sp_modifierTranslationTable p"
  "sp_parser (feed r c p) = sp_parser p"
  by (simp_all add: feed_def record_move_def record_relative_def flushCompressedMouse_def sp_emit_def Let_def
      split: client_call.split)

lemma feed_stream: "feed r c (p\<lparr>sp_stream := s\<rparr>) = (feed r c p)\<lparr>sp_stream := s\<rparr>"
  by (cases c) (simp_all add: feed_def)

lemma feed_kinds:
  "input_call c \<Longrightarrow> \<not> sp_ignoreMouse p \<Longrightarrow> held_kinds (feed True c p) = kinds (held_kinds p) c"
  by (cases c) (auto simp: feed_def record_move_def record_relative_def flushCompressedMouse_def sp_emit_def Let_def)

lemma client_calls_flush: "client_calls (flushCompressedMouse p) = client_calls p @ pend p"
  by (simp add: flushCompressedMouse_def pend_def sp_emit_def Let_def)

lemma flush_nothing_held:
  "pend (flushCompressedMouse p) = []" "\<not> sp_compressMouse (flushCompressedMouse p)"
  "\<not> sp_compressMouseRelative (flushCompressedMouse p)" "sp_ignoreMouse (flushCompressedMouse p) = sp_ignoreMouse p"
  by (simp_all add: flushCompressedMouse_def pend_def sp_emit_def Let_def)

lemma seen_pend: "seen q (pend p) = []"
  by (simp add: pend_def)

lemma tracks_flush: "tracks q sent p \<Longrightarrow> tracks q sent (flushCompressedMouse p)"
  by (auto simp: tracks_def client_calls_flush flush_nothing_held seen_pend)
     (simp_all add: flushCompressedMouse_def sp_emit_def Let_def)

lemma pend_emit [simp]: "pend (sp_emit a p) = pend p"
  by (simp add: pend_def sp_emit_def)

lemma tracks_forward: "tracks q sent p \<Longrightarrow> pend p = [] \<Longrightarrow> tracks q (sent @ [c]) (to_client c p)"
  by (auto simp: tracks_def) (simp_all add: sp_emit_def)

lemma tracks_unplaced:
  "tracks q sent p \<Longrightarrow> c = Screensaver on \<or> c = GrabClipboard i \<Longrightarrow> tracks q (sent @ [c]) (to_client c p)"
  by (auto simp: tracks_def) (simp_all add: sp_emit_def)

lemma tracks_enter:
  "tracks q sent p \<Longrightarrow> tracks q (sent @ [Enter x y sq m b]) (to_client (Enter x y sq m b)
     (p\<lparr>sp_compressMouse := False, sp_compressMouseRelative := False, sp_dxMouse := 0, sp_dyMouse := 0,
        sp_seqNum := sq\<rparr>))"
  by (auto simp: tracks_def) (simp_all add: sp_emit_def pend_def)

lemma tracks_move:
  "tracks q sent p \<Longrightarrow> r \<or> clean_last (held_kinds p) (MouseMove x y) \<Longrightarrow>
     tracks q (sent @ [MouseMove x y]) (record_move r x y p)"
  by (auto simp: tracks_def record_move_def sp_emit_def pend_def Let_def split: if_splits)

lemma tracks_relative:
  "tracks q sent p \<Longrightarrow> r \<or> clean_last (held_kinds p) (MouseRelativeMove x y) \<Longrightarrow>
     tracks q (sent @ [MouseRelativeMove x y]) (record_relative r x y p)"
  by (auto simp: tracks_def record_relative_def sp_emit_def pend_def Let_def prod_eq_iff split: if_splits)

lemma tracks_feed:
  assumes "tracks q sent p" "input_call c" "r \<or> clean_last (held_kinds p) c"
  shows "tracks q (sent @ [arrive (sp_modifierTranslationTable p) c]) (feed r c p)"
proof -
  note fwd = tracks_forward [OF tracks_flush [OF assms(1)] flush_nothing_held(1)]
  show ?thesis
    using assms tracks_move [OF assms(1)] tracks_relative [OF assms(1)] tracks_enter [OF assms(1)]
      tracks_unplaced [OF assms(1)] fwd
    by (cases c) (simp_all add: feed_def)
qed

subsection \<open>A batch of messages\<close>

lemma no_op_reply: "sp_writef kMsgCNoop [] p = Inr (sp_emit (StreamWrite (bytes_of ''CNOP'')) p)"
  by (simp add: sp_writef_def writefArgs_def kMsgCNoop_def addLength_def protocol_limits)

lemma code_length: "input_call c \<Longrightarrow> length (take 4 (fst (call_message c))) = 4"
  by (cases c) (simp_all add: call_message_def send_defs msg_defs)

definition reply :: "'s server_proxy \<Rightarrow> 's server_proxy" where
  "reply p = sp_emit (StreamWrite (bytes_of ''CNOP'')) p"

lemma reply_keeps [simp]:
  "tracks q sent (reply p) = tracks q sent p" "held_kinds (reply p) = held_kinds p" "sp_parser (reply p) = sp_parser p"
  "sp_modifierTranslationTable (reply p) = sp_modifierTranslationTable p" "sp_stream (reply p) = sp_stream p"
  by (simp_all add: reply_def tracks_def) (simp_all add: sp_emit_def)

lemma set_stream_keeps [simp]: "tracks q sent (p\<lparr>sp_stream := s\<rparr>) = tracks q sent p"
  by (simp add: tracks_def pend_def)

text \<open>The pure effect of a whole batch.\<close>

fun feeds :: "client_call list \<Rightarrow> 's server_proxy \<Rightarrow> 's server_proxy" where
  "feeds [] p = flushCompressedMouse p"
| "feeds (c # cs) p = feeds cs (reply (feed (cs \<noteq> []) c p))"

lemma feeds_stream: "feeds cs (p\<lparr>sp_stream := s\<rparr>) = (feeds cs p)\<lparr>sp_stream := s\<rparr>"
  by (induction cs arbitrary: p) (simp_all add: feed_stream reply_def)

context packet_stream
begin

lemma message_step:
  assumes lk: "lk_read l = rd" "lk_isReady l = ready" and pr: "sp_parser p = ParseMessage"
    and c: "input_call c" and t: "valid_table (sp_modifierTranslationTable p)"
    and w: "writefArgs (fst (call_message c)) (snd (call_message c)) = Inr out"
    and h: "holds (sp_stream p) (out # ps)"
  shows "\<exists>s. holds s ps \<and> handle_data l p = handle_data l ((reply (feed (ps \<noteq> []) c p))\<lparr>sp_stream := s\<rparr>)"
proof -
  let ?code = "take 4 (fst (call_message c))"
  obtain body where body: "out = bytes_of ?code @ body"
    "writefArgs (drop 4 (fst (call_message c))) (snd (call_message c)) = Inr body"
    using writefArgs_code [of ?code "drop 4 (fst (call_message c))"] w code_of_format [OF c] by auto
  obtain s1 where s1: "rd (sp_stream p) 4 = Some (bytes_of ?code, s1)" "holds s1 (if body = [] then ps else body # ps)"
    using read_code [of "sp_stream p" "bytes_of ?code" body ps] h body(1) code_length [OF c] by auto
  obtain s2 where s2: "holds s2 ps"
    "input_handler l c (p\<lparr>sp_stream := s1\<rparr>) = Inr ((feed (ps \<noteq> []) c (p\<lparr>sp_stream := s1\<rparr>))\<lparr>sp_stream := s2\<rparr>)"
    using input_effect [OF lk c _ body(2), of "p\<lparr>sp_stream := s1\<rparr>" ps] t s1(2) by auto
  have "bytes_of ?code \<noteq> []" "length (bytes_of ?code) = 4" using code_length [OF c] by auto
  then have "handle_data l p = handle_data l ((reply (feed (ps \<noteq> []) c p))\<lparr>sp_stream := s2\<rparr>)"
    using s1(1) s2(2) input_handler_ok [OF c, of l] pr
    by (subst handle_data.simps) (simp add: lk run_parser_def parseMessage_def okay_def no_op_reply reply_def feed_stream)
  with s2(1) show ?thesis by blast
qed

text \<open>The messages of a batch, from the first to the end of the input.\<close>

lemma batch_fed:
  assumes "lk_read l = rd" "lk_isReady l = ready" "sp_parser p = ParseMessage"
    "valid_table (sp_modifierTranslationTable p)" "list_all input_call cs"
    "map (\<lambda>c. writefArgs (fst (call_message c)) (snd (call_message c))) cs = map Inr outs"
    "holds (sp_stream p) outs"
  shows "\<exists>s. holds s [] \<and> handle_data l p = Some (Inr ((feeds cs p)\<lparr>sp_stream := s\<rparr>))"
  using assms
proof (induction cs arbitrary: p outs)
  case Nil
  then obtain s where "rd (sp_stream p) 4 = Some ([], s)" "holds s []" using read_none by auto
  then show ?case using Nil.prems(1) by (subst handle_data.simps) auto
next
  case (Cons c cs)
  then obtain out outs' where o: "outs = out # outs'" "writefArgs (fst (call_message c)) (snd (call_message c)) = Inr out"
    "map (\<lambda>c. writefArgs (fst (call_message c)) (snd (call_message c))) cs = map Inr outs'" by (cases outs) auto
  have ic: "input_call c" using Cons.prems(5) by simp
  have e: "outs' \<noteq> [] \<longleftrightarrow> cs \<noteq> []" using arg_cong [OF o(3), of length] by auto
  obtain s where s: "holds s outs'"
    "handle_data l p = handle_data l ((reply (feed (cs \<noteq> []) c p))\<lparr>sp_stream := s\<rparr>)"
    using message_step [OF Cons.prems(1-3) ic Cons.prems(4) o(2), of outs'] Cons.prems(7)
    unfolding o(1) e by blast
  with Cons.IH [OF Cons.prems(1,2) _ _ _ o(3), of "(reply (feed (cs \<noteq> []) c p))\<lparr>sp_stream := s\<rparr>"] Cons.prems(3-5)
  show ?case by (simp add: feed_keeps feeds_stream)
qed

end

text \<open>A clean batch is seen by the client as it was sent.\<close>

lemma tracks_feeds:
  assumes "tracks q sent p" "list_all input_call cs" "clean_batch (held_kinds p) cs"
  shows "tracks q (sent @ map (arrive (sp_modifierTranslationTable p)) cs) (feeds cs p) \<and>
    held_kinds (feeds cs p) = (False, False)"
  using assms
proof (induction cs arbitrary: p sent)
  case Nil
  then show ?case by (simp add: tracks_flush flush_nothing_held)
next
  case (Cons c cs)
  have ic: "input_call c" using Cons.prems(2) by simp
  let ?p = "reply (feed (cs \<noteq> []) c p)"
  have "cs \<noteq> [] \<or> clean_last (held_kinds p) c" using Cons.prems(3) by (cases cs) auto
  then have tr: "tracks q (sent @ [arrive (sp_modifierTranslationTable p) c]) ?p"
    using tracks_feed [OF Cons.prems(1) ic] by simp
  have "clean_batch (held_kinds ?p) cs"
    using Cons.prems(1,3) feed_kinds [OF ic, of p] by (cases cs) (auto simp: tracks_def)
  with Cons.IH [OF tr] Cons.prems(2) show ?case by (simp add: feed_keeps)
qed

subsection \<open>The server's side of a batch\<close>

lemma input_written:
  assumes "input_call c"
  shows "\<exists>out. writefArgs (fst (call_message c)) (snd (call_message c)) = Inr out \<and> good_payload out"
proof -
  have "\<exists>out. writefArgs (fst (call_message c)) (snd (call_message c)) = Inr out"
    using assms by (cases c) (simp_all add: call_message_def send_defs msg_defs writefArgs_def check_spec_def
      emit_spec_def addLength_def digit_value_def protocol_limits)
  then obtain out where o: "writefArgs (fst (call_message c)) (snd (call_message c)) = Inr out" by blast
  then obtain body where "out = bytes_of (take 4 (fst (call_message c))) @ body"
    using writefArgs_code [of "take 4 (fst (call_message c))" "drop 4 (fst (call_message c))"]
      code_of_format [OF assms] by auto
  then have "out \<noteq> []" using code_length [OF assms] by auto
  with writefArgs_length [OF o input_memory_ok [OF assms]] o show ?thesis by (simp add: good_payload_def)
qed

lemma cp_call_input:
  assumes "input_call c" "writefArgs (fst (call_message c)) (snd (call_message c)) = Inr out"
  shows "\<exists>p'. cp_call c p = Inr p' \<and> cp_trace p' = cp_trace p @ [CpWrite out]"
  using assms by (cases c) (simp_all add: cp_call_def call_message_def cp_send_def cp_emit_def cp_grabClipboard_def
    cp_setClipboardDirty_def)

lemma cp_calls_input:
  assumes "list_all input_call cs"
  shows "\<exists>outs p'. cp_calls cs p = Inr p' \<and> cp_trace p' = cp_trace p @ map CpWrite outs \<and> list_all good_payload outs \<and>
    map (\<lambda>c. writefArgs (fst (call_message c)) (snd (call_message c))) cs = map Inr outs"
  using assms
proof (induction cs arbitrary: p)
  case Nil
  show ?case by (rule exI [of _ "[]"]) simp
next
  case (Cons c cs)
  then obtain out where out: "writefArgs (fst (call_message c)) (snd (call_message c)) = Inr out" "good_payload out"
    using input_written [of c] by auto
  then obtain p1 where p1: "cp_call c p = Inr p1" "cp_trace p1 = cp_trace p @ [CpWrite out]"
    using cp_call_input [OF _ out(1), of p] Cons.prems by auto
  from Cons.IH [of p1] Cons.prems obtain outs p' where "cp_calls cs p1 = Inr p'"
    "cp_trace p' = cp_trace p1 @ map CpWrite outs" "list_all good_payload outs"
    "map (\<lambda>c. writefArgs (fst (call_message c)) (snd (call_message c))) cs = map Inr outs" by auto
  with out p1 show ?case by (intro exI [of _ "out # outs"]) simp
qed

text \<open>Between two batches the proxy holds no motion back.\<close>

definition settled :: "'s server_proxy \<Rightarrow> bool" where
  "settled p \<longleftrightarrow> sp_parser p = ParseMessage \<and> valid_table (sp_modifierTranslationTable p) \<and> \<not> sp_ignoreMouse p \<and>
     held_kinds p = (False, False) \<and> sp_dxMouse p = 0 \<and> sp_dyMouse p = 0"

lemma feeds_keeps: "sp_parser (feeds cs p) = sp_parser p"
  "sp_modifierTranslationTable (feeds cs p) = sp_modifierTranslationTable p"
  by (induction cs arbitrary: p) (simp_all add: feed_keeps, simp_all add: flushCompressedMouse_def sp_emit_def Let_def)

lemma settled_tracks: "settled p \<Longrightarrow> tracks q (client_calls p) p"
  by (simp add: settled_def tracks_def pend_def)

lemma settled_feeds:
  assumes "settled p" "list_all input_call cs" "clean_batch (False, False) cs"
  shows "settled (feeds cs p) \<and>
    seen q (client_calls (feeds cs p)) = seen q (client_calls p @ map (arrive (sp_modifierTranslationTable p)) cs) \<and>
    pointer q (client_calls (feeds cs p)) = pointer q (client_calls p @ map (arrive (sp_modifierTranslationTable p)) cs)"
  using tracks_feeds [OF settled_tracks [OF assms(1), of q] assms(2)] assms(1,3)
  by (auto simp: settled_def tracks_def pend_def feeds_keeps)

text \<open>
  C3. Input reaches the client, each call as \<open>arrive\<close> says: numbers cut to the 16 or 8 bits of their field, keys and
  modifiers translated. The calls the server makes on a client's proxy become packets; however the network
  cuts them, the proxy of the server at the client, when it has finished its handshake and holds no motion
  back (\<open>settled\<close>), handles them to the end and is settled again. The client then has seen every call that
  is not a motion, in the same order and, for input, with the pointer at the same place, and the pointer
  ends at the same place. Motion itself may be merged. The batch may not end with a motion of one kind,
  absolute or relative, while only the other kind is held back (\<open>clean_batch\<close>): then the pointer ends
  elsewhere, as \<open>mixed_motion_misplaced\<close> shows.
\<close>

theorem input_reaches_client:
  fixes p :: "packet_filter server_proxy" and cp :: "'t client_proxy"
  assumes "list_all input_call cs" "cp_calls cs cp = Inr cp'" "cp_trace cp' = cp_trace cp @ map CpWrite outs"
    and "concat rs = concat (map frame outs)" "[] \<notin> set rs" "length (concat rs) < 2 ^ 32"
    and "lk_read l = pf_read" "lk_isReady l = pf_isReady" "settled p" "clean_batch (False, False) cs"
  shows "\<exists>s p'. pf_fill pf_new rs = Some (s, []) \<and> handle_data l (p\<lparr>sp_stream := s\<rparr>) = Some (Inr p') \<and> settled p' \<and>
    seen q (client_calls p') = seen q (client_calls p @ map (arrive (sp_modifierTranslationTable p)) cs) \<and>
    pointer q (client_calls p') = pointer q (client_calls p @ map (arrive (sp_modifierTranslationTable p)) cs)"
proof -
  obtain outs' where o: "list_all good_payload outs'" "map CpWrite outs' = map CpWrite outs"
    "map (\<lambda>c. writefArgs (fst (call_message c)) (snd (call_message c))) cs = map Inr outs'"
    using cp_calls_input [OF assms(1), of cp] assms(2,3) by auto
  have "outs' = outs" using o(2) by (simp add: inj_map_eq_map inj_def)
  then obtain s where s: "pf_fill pf_new rs = Some (s, [])" "pf_holds s outs"
    using fresh_filter_holds [of outs rs] o(1) assms(4-6) by auto
  obtain s' where "handle_data l (p\<lparr>sp_stream := s\<rparr>) = Some (Inr ((feeds cs p)\<lparr>sp_stream := s'\<rparr>))"
    using pfs.batch_fed [OF assms(7,8), of "p\<lparr>sp_stream := s\<rparr>" cs outs] assms(1,9) s(2) o(3) \<open>outs' = outs\<close>
    by (auto simp: settled_def feeds_stream)
  with s(1) settled_feeds [OF assms(9,1,10), of q] show ?thesis by (simp add: settled_def)
qed

text \<open>Calls whose numbers fit their fields arrive unchanged when no modifier is mapped.\<close>

fun fits :: "client_call \<Rightarrow> bool" where
  "fits (Enter x y sq m saver) \<longleftrightarrow> x \<in> {- 32768..32767} \<and> y \<in> {- 32768..32767} \<and> m < 0x10000 \<and> \<not> saver"
| "fits (MouseMove x y) \<longleftrightarrow> x \<in> {- 32768..32767} \<and> y \<in> {- 32768..32767}"
| "fits (MouseRelativeMove x y) \<longleftrightarrow> x \<in> {- 32768..32767} \<and> y \<in> {- 32768..32767}"
| "fits (MouseWheel x y) \<longleftrightarrow> x \<in> {- 32768..32767} \<and> y \<in> {- 32768..32767}"
| "fits (MouseDown b) \<longleftrightarrow> b < 256"
| "fits (MouseUp b) \<longleftrightarrow> b < 256"
| "fits (KeyDown k m b) \<longleftrightarrow> k < 0x10000 \<and> m < 0x10000"
| "fits (KeyRepeat k m n b) \<longleftrightarrow> k < 0x10000 \<and> m < 0x10000 \<and> n \<in> {0..65535}"
| "fits (KeyUp k m b) \<longleftrightarrow> k < 0x10000 \<and> m < 0x10000"
| "fits c \<longleftrightarrow> True"

lemma low16_id: "x < 0x10000 \<Longrightarrow> low16 x = x"
  by (simp add: low16_def word_unat_eq_iff unsigned_ucast_eq take_bit_eq_mod word_less_nat_alt unat_mod)

lemma arrive_fitting: "fits c \<Longrightarrow> arrive identity_table c = c"
  by (cases c) (simp_all add: translateKey_identity translateModifierMask_identity low16_id)

definition sample_calls :: "client_call list" where
  "sample_calls = [MouseMove 10 20, MouseMove 30 40, KeyDown 97 0 38, MouseRelativeMove (- 5) 0]"

definition sample_sp :: "packet_filter server_proxy" where
  "sample_sp = \<lparr>sp_stream = pf_new, sp_seqNum = 0, sp_compressMouse = False, sp_compressMouseRelative = False,
      sp_xMouse = 0, sp_yMouse = 0, sp_dxMouse = 0, sp_dyMouse = 0, sp_ignoreMouse = False,
      sp_modifierTranslationTable = identity_table, sp_keepAliveAlarm = 9, sp_keepAliveAlarmTimer = True,
      sp_parser = ParseMessage,
      sp_clipboard = \<lparr>ca_expectedSize = 0, ca_dataCached = [], ca_id = 0, ca_sequence = 0\<rparr>,
      sp_file = \<lparr>fa_expectedSize = 0, fa_dataReceived = []\<rparr>, sp_trace = []\<rparr>"

definition sample_link :: "packet_filter link" where
  "sample_link = \<lparr>lk_read = pf_read, lk_isReady = pf_isReady, lk_shape = (0, 0, 800, 600), lk_cursor = (1, 1), lk_junk = 0, lk_enableDragDrop = True\<rparr>"

definition sample_client :: "unit client_proxy" where
  "sample_client = cp_members True () \<lparr>i_x = 0, i_y = 0, i_w = 800, i_h = 600, i_mx = 1, i_my = 1\<rparr> []
     \<lparr>ca_expectedSize = 0, ca_dataCached = [], ca_id = 0, ca_sequence = 0\<rparr>
     \<lparr>fa_expectedSize = 0, fa_dataReceived = []\<rparr>"

definition sample_outs :: "bytes list" where
  "sample_outs = [bytes_of ''DMMV'' @ [0, 10, 0, 20], bytes_of ''DMMV'' @ [0, 30, 0, 40],
     bytes_of ''DKDN'' @ [0, 97, 0, 0, 0, 38], bytes_of ''DMRM'' @ [255, 251, 0, 0]]"

lemma sample_settled: "settled sample_sp"
  by (simp add: settled_def sample_sp_def identity_table_valid)

definition sample_pieces :: "bytes list" where
  "sample_pieces = (let w = concat (map frame sample_outs) in [take 5 w, drop 5 w])"

lemma sample_pieces_facts: "concat sample_pieces = concat (map frame sample_outs)" "[] \<notin> set sample_pieces"
  "length (concat sample_pieces) < 2 ^ 32"
  by (simp_all add: sample_pieces_def sample_outs_def frame_def appendInteger_4 del: concat_eq_Nil_conv)

lemma sample_sent: "cp_calls sample_calls sample_client = Inr (sample_client\<lparr>cp_trace := map CpWrite sample_outs\<rparr>)"
  "cp_trace (sample_client\<lparr>cp_trace := map CpWrite sample_outs\<rparr>) = cp_trace sample_client @ map CpWrite sample_outs"
  by (simp_all add: sample_calls_def sample_client_def sample_outs_def cp_members_def cp_call_def cp_send_def cp_emit_def
      write_simps)

lemma sample_calls_facts: "list_all input_call sample_calls" "clean_batch (False, False) sample_calls"
  "map (arrive identity_table) sample_calls = sample_calls"
  by (simp_all add: sample_calls_def translateKey_identity translateModifierMask_identity low16_id)

theorem input_reaches_client_witness:
  "\<exists>s p'. pf_fill pf_new sample_pieces = Some (s, []) \<and>
     handle_data sample_link (sample_sp\<lparr>sp_stream := s\<rparr>) = Some (Inr p') \<and> settled p' \<and>
     seen (0, 0) (client_calls p') = [(KeyDown 97 0 38, Some (30, 40))] \<and> pointer (0, 0) (client_calls p') = (25, 40)"
proof -
  have "lk_read sample_link = pf_read" "lk_isReady sample_link = pf_isReady" by (simp_all add: sample_link_def)
  note h = input_reaches_client [OF sample_calls_facts(1) sample_sent sample_pieces_facts this sample_settled
      sample_calls_facts(2), of "(0, 0)"]
  have "client_calls sample_sp @ map (arrive (sp_modifierTranslationTable sample_sp)) sample_calls = sample_calls"
    using sample_calls_facts(3) by (simp add: sample_sp_def)
  moreover have "seen (0, 0) sample_calls = [(KeyDown 97 0 38, Some (30, 40))]" "pointer (0, 0) sample_calls = (25, 40)"
    by (simp_all add: sample_calls_def)
  ultimately show ?thesis using h by (simp only:)
qed

text \<open>
  Absolute and relative motion in one batch can end at the wrong place: an absolute motion followed by a
  relative one that ends the input is forwarded to the client the other way round, so that the relative
  motion is lost.
\<close>

theorem mixed_motion_misplaced:
  fixes p :: "packet_filter server_proxy"
  assumes "settled p" "lk_read l = pf_read" "lk_isReady l = pf_isReady" "sp_stream p = s"
    and "map (\<lambda>c. writefArgs (fst (call_message c)) (snd (call_message c))) [MouseMove x y, MouseRelativeMove dx dy] = map Inr outs"
    and "pf_holds s outs"
  shows "\<exists>p'. handle_data l p = Some (Inr p') \<and>
    client_calls p' = client_calls p @ [MouseRelativeMove (wrap16 dx) (wrap16 dy), MouseMove (wrap16 x) (wrap16 y)] \<and>
    pointer q (client_calls p') = (wrap16 x, wrap16 y)"
proof -
  let ?cs = "[MouseMove x y, MouseRelativeMove dx dy]"
  have "sp_parser p = ParseMessage" "valid_table (sp_modifierTranslationTable p)" "list_all input_call ?cs"
    "pf_holds (sp_stream p) outs"
    using assms(1,4,6) by (simp_all add: settled_def)
  from pfs.batch_fed [OF assms(2,3) this(1-3) assms(5) this(4)] obtain s' where
    "handle_data l p = Some (Inr ((feeds ?cs p)\<lparr>sp_stream := s'\<rparr>))" by blast
  moreover have "client_calls (feeds ?cs p) =
    client_calls p @ [MouseRelativeMove (wrap16 dx) (wrap16 dy), MouseMove (wrap16 x) (wrap16 y)]"
    using assms(1)
    by (simp add: settled_def feed_def record_move_def record_relative_def flushCompressedMouse_def reply_def sp_emit_def Let_def)
  ultimately show ?thesis by simp
qed

theorem mixed_motion_misplaced_witness:
  "\<exists>s p'. pf_fill pf_new (map frame [bytes_of ''DMMV'' @ [0, 100, 0, 100], bytes_of ''DMRM'' @ [0, 5, 0, 0]]) = Some (s, []) \<and>
     handle_data sample_link (sample_sp\<lparr>sp_stream := s\<rparr>) = Some (Inr p') \<and>
     pointer (0, 0) (client_calls p') = (100, 100) \<and>
     pointer (0, 0) [MouseMove 100 100, MouseRelativeMove 5 0] = (105, 100)"
proof -
  let ?outs = "[bytes_of ''DMMV'' @ [0, 100, 0, 100], bytes_of ''DMRM'' @ [0, 5, 0, 0]]"
  have w: "map (\<lambda>c. writefArgs (fst (call_message c)) (snd (call_message c))) [MouseMove 100 100, MouseRelativeMove 5 0] = map Inr ?outs"
    by (simp add: call_message_def write_simps)
  have "list_all good_payload ?outs" "[] \<notin> set (map frame ?outs)" "length (concat (map frame ?outs)) < 2 ^ 32"
    by (simp_all add: frame_def good_payload_def protocol_limits)
  then obtain s where s: "pf_fill pf_new (map frame ?outs) = Some (s, [])" "pf_holds s ?outs"
    using fresh_filter_holds [of ?outs "map frame ?outs"] by blast
  have "settled (sample_sp\<lparr>sp_stream := s\<rparr>)" using sample_settled by (simp add: settled_def)
  from mixed_motion_misplaced [OF this _ _ _ w s(2), of sample_link "(0, 0)"] s(1) show ?thesis
    by (auto simp: sample_link_def)
qed

end
