(* ===== verification/ClientRuns.thy ===== *)
theory ClientRuns
  imports Client ProxyValues ProxyLink
begin

text \<open>
  The client as a state machine. A step is a call of the application, an event that a handler is
  installed for, a call of the screen, or a call of the proxy of the server while it exists. The invariant
  says which objects and which handlers exist together; with it no step uses a stream or a proxy that is
  gone and no assertion about them fails, but for the file transfer: its events and calls come whether or
  not there is a proxy of the server.
\<close>

subsection \<open>Inputs\<close>

datatype client_input =
    CallConnect "packet_filter attempt"
  | CallDisconnect "string option"
  | Suspend
  | Resume "packet_filter attempt"
  | SocketConnected
  | SocketFailed string
  | ConnectTimeout
  | StreamReady packet_filter
  | StreamError
  | StreamClosed
  | StopRetry
  | ShapeChanged
  | ClipboardGrabbed nat
  | ProxyHandshake
  | ProxyDisconnect "string option"
  | ProxyEnter int int u32 u32
  | ProxyLeave
  | ProxySetClipboard nat clipboard
  | ProxyGrab nat
  | ProxySetOptions "u32 list"
  | FileChunkSending file_chunk
  | FileReceiveCompleted nat bytes
  | ScreenDragInfo u32 bytes
  | ScreenSendFile string

text \<open>
  What the rest of the program provides: the packing of files, the platform's clipboards, and whether
  \<^verbatim>\<open>HOME\<close> is set. The stream is the packet filter that \<open>connect\<close> puts over the socket.
\<close>

record client_env =
  ce_env :: env
  ce_grab :: "nat \<Rightarrow> clipboard \<Rightarrow> clipboard"
  ce_home :: bool

text \<open>
  Which inputs can come: an event only where a handler is installed, and a call of the proxy only while it
  handles input. A socket reports once that it is connected. The handlers of the file transfer are installed
  by the constructor when drag and drop is enabled, and so long as the client exists; the size and
  the data of \<open>FileReceiveCompleted\<close> are those the proxy has collected. The screen calls the client when
  files are dragged off it.
\<close>

fun enabled :: "client_input \<Rightarrow> packet_filter client \<Rightarrow> bool" where
  "enabled SocketConnected c \<longleftrightarrow> (h_connected (c_handlers c) \<or> h_secureConnected (c_handlers c)) \<and> \<not> h_connection (c_handlers c)"
| "enabled (SocketFailed msg) c \<longleftrightarrow> h_connectionFailed (c_handlers c)"
| "enabled ConnectTimeout c \<longleftrightarrow> c_timer c"
| "enabled (StreamReady s) c \<longleftrightarrow> pf_inv s \<and> h_input (c_handlers c) = Some HelloReader"
| "enabled StreamError c \<longleftrightarrow> h_connection (c_handlers c)"
| "enabled StreamClosed c \<longleftrightarrow> h_connection (c_handlers c)"
| "enabled StopRetry c \<longleftrightarrow> h_connection (c_handlers c)"
| "enabled ShapeChanged c \<longleftrightarrow> h_screen (c_handlers c)"
| "enabled (ClipboardGrabbed i) c \<longleftrightarrow> h_screen (c_handlers c)"
| "enabled ProxyHandshake c \<longleftrightarrow> h_input (c_handlers c) = Some ProxyReader"
| "enabled (ProxyDisconnect msg) c \<longleftrightarrow> h_input (c_handlers c) = Some ProxyReader"
| "enabled (ProxyEnter x y sq m) c \<longleftrightarrow> h_input (c_handlers c) = Some ProxyReader"
| "enabled ProxyLeave c \<longleftrightarrow> h_input (c_handlers c) = Some ProxyReader"
| "enabled (ProxySetClipboard i clip) c \<longleftrightarrow> h_input (c_handlers c) = Some ProxyReader"
| "enabled (ProxyGrab i) c \<longleftrightarrow> h_input (c_handlers c) = Some ProxyReader"
| "enabled (ProxySetOptions options) c \<longleftrightarrow> h_input (c_handlers c) = Some ProxyReader"
| "enabled (FileChunkSending chunk) c \<longleftrightarrow> c_enableDragDrop c"
| "enabled (FileReceiveCompleted n data) c \<longleftrightarrow> c_enableDragDrop c"
| "enabled (ScreenDragInfo n info) c \<longleftrightarrow> c_enableDragDrop c"
| "enabled (ScreenSendFile name) c \<longleftrightarrow> c_enableDragDrop c"
| "enabled _ c \<longleftrightarrow> True"

text \<open>The handler of each input; new bytes have changed the stream when it is ready.\<close>

fun client_handle :: "client_env \<Rightarrow> client_input \<Rightarrow> packet_filter client \<Rightarrow> client_fault + packet_filter client" where
  "client_handle e (CallConnect a) c = Client_connect a c"
| "client_handle e (CallDisconnect msg) c = Inr (Client_disconnect msg c)"
| "client_handle e Suspend c = Inr (handle_suspend c)"
| "client_handle e (Resume a) c = handle_resume a c"
| "client_handle e SocketConnected c = handle_connected c"
| "client_handle e (SocketFailed msg) c = Inr (handle_connection_failed msg c)"
| "client_handle e ConnectTimeout c = Inr (handle_connect_timeout c)"
| "client_handle e (StreamReady s) c = handle_hello pf_read pf_isReady (c\<lparr>c_stream := map_option (\<lambda>_. s) (c_stream c)\<rparr>)"
| "client_handle e StreamError c = Inr (handle_output_error c)"
| "client_handle e StreamClosed c = Inr (handle_disconnected c)"
| "client_handle e StopRetry c = Inr (handle_stop_retry c)"
| "client_handle e ShapeChanged c = c_handle_shape_changed c"
| "client_handle e (ClipboardGrabbed i) c = c_handle_clipboard_grabbed (ce_env e) (ce_grab e) i c"
| "client_handle e ProxyHandshake c = Inr (handshakeComplete c)"
| "client_handle e (ProxyDisconnect msg) c = Inr (Client_disconnect msg c)"
| "client_handle e (ProxyEnter x y sq m) c = Inr (c_enter x y sq m False c)"
| "client_handle e ProxyLeave c = c_leave (ce_env e) (ce_grab e) c"
| "client_handle e (ProxySetClipboard i clip) c = c_setClipboard (ce_env e) (ce_home e) i clip c"
| "client_handle e (ProxyGrab i) c = Inr (c_grabClipboard i c)"
| "client_handle e (ProxySetOptions options) c = c_setOptions options c"
| "client_handle e (FileChunkSending chunk) c = send_file_chunk chunk c"
| "client_handle e (FileReceiveCompleted n data) c = Inr (onFileReceiveCompleted n data c)"
| "client_handle e (ScreenDragInfo n info) c = c_sendDragInfo n info c"
| "client_handle e (ScreenSendFile name) c = Inr (sendFileToServer name c)"

text \<open>The inputs that are passed on to the proxy of the server without asking whether there is one.\<close>

fun sends_to_server :: "client_input \<Rightarrow> bool" where
  "sends_to_server (FileChunkSending chunk) = True"
| "sends_to_server (ScreenDragInfo n info) = True"
| "sends_to_server _ = False"

inductive client_reach :: "client_env \<Rightarrow> packet_filter client \<Rightarrow> packet_filter client \<Rightarrow> bool" for e c0 where
  start: "client_reach e c0 c0"
| step: "client_reach e c0 c \<Longrightarrow> enabled i c \<Longrightarrow> client_handle e i c = Inr c' \<Longrightarrow> client_reach e c0 c'"

subsection \<open>The invariant\<close>

definition client_inv :: "'s client \<Rightarrow> bool" where
  "client_inv c \<longleftrightarrow>
     (c_server c \<longrightarrow> c_stream c \<noteq> None \<and> h_connection (c_handlers c) \<and> h_input (c_handlers c) = Some ProxyReader) \<and>
     (h_screen (c_handlers c) \<longleftrightarrow> c_server c) \<and>
     (c_ready c \<longrightarrow> c_server c) \<and>
     (c_timer c \<longrightarrow> c_stream c \<noteq> None \<and> \<not> c_server c) \<and>
     (h_input (c_handlers c) = Some ProxyReader \<longrightarrow> c_server c) \<and>
     (h_input (c_handlers c) \<noteq> None \<longrightarrow> h_connection (c_handlers c)) \<and>
     (h_connection (c_handlers c) \<longrightarrow> c_stream c \<noteq> None) \<and>
     (h_connected (c_handlers c) \<or> h_connectionFailed (c_handlers c) \<longrightarrow> \<not> c_server c \<and> \<not> h_connection (c_handlers c)) \<and>
     (h_connected (c_handlers c) \<or> h_secureConnected (c_handlers c) \<or> h_connectionFailed (c_handlers c) \<longrightarrow> c_stream c \<noteq> None)"

text \<open>What the parts of a disconnect leave of the fields the invariant is about.\<close>

lemma emit_fields [simp]:
  "c_stream (c_emit a c) = c_stream c" "c_timer (c_emit a c) = c_timer c" "c_server (c_emit a c) = c_server c"
  "c_ready (c_emit a c) = c_ready c" "c_handlers (c_emit a c) = c_handlers c" "c_suspended (c_emit a c) = c_suspended c"
  "c_connectOnResume (c_emit a c) = c_connectOnResume c" "c_enableCrypto (c_emit a c) = c_enableCrypto c"
  by (simp_all add: c_emit_def)

lemma cleanupTimer_fields [simp]:
  "c_stream (cleanupTimer c) = c_stream c" "c_timer (cleanupTimer c) = False" "c_server (cleanupTimer c) = c_server c"
  "c_ready (cleanupTimer c) = c_ready c" "c_handlers (cleanupTimer c) = c_handlers c"
  by (simp_all add: cleanupTimer_def)

lemma cleanupScreen_fields [simp]:
  "c_stream (cleanupScreen c) = c_stream c" "c_timer (cleanupScreen c) = c_timer c" "c_server (cleanupScreen c) = False"
  "c_ready (cleanupScreen c) = (c_ready c \<and> \<not> c_server c)"
  "c_handlers (cleanupScreen c) = (if c_server c then (c_handlers c)\<lparr>h_screen := False, h_input := None\<rparr> else c_handlers c)"
  by (simp_all add: cleanupScreen_def Let_def)

lemma cleanupConnecting_fields [simp]:
  "c_stream (cleanupConnecting c) = c_stream c" "c_timer (cleanupConnecting c) = c_timer c"
  "c_server (cleanupConnecting c) = c_server c" "c_ready (cleanupConnecting c) = c_ready c"
  "c_handlers (cleanupConnecting c) =
     (if c_stream c = None then c_handlers c else (c_handlers c)\<lparr>h_connected := False, h_connectionFailed := False\<rparr>)"
  by (simp_all add: cleanupConnecting_def)

lemma cleanupStream_fields [simp]:
  "c_stream (cleanupStream c) = None" "c_timer (cleanupStream c) = c_timer c" "c_server (cleanupStream c) = c_server c"
  "c_ready (cleanupStream c) = c_ready c"
  "c_handlers (cleanupStream c) =
     (if c_stream c = None then c_handlers c else no_handlers\<lparr>h_screen := h_screen (c_handlers c)\<rparr>)"
  by (auto simp: cleanupStream_def)

lemma cleanupConnection_fields [simp]:
  "c_stream (cleanupConnection c) = None" "c_timer (cleanupConnection c) = c_timer c"
  "c_server (cleanupConnection c) = c_server c" "c_ready (cleanupConnection c) = c_ready c"
  "c_handlers (cleanupConnection c) =
     (if c_stream c = None then c_handlers c else no_handlers\<lparr>h_screen := h_screen (c_handlers c)\<rparr>)"
  by (simp_all add: cleanupConnection_def)

text \<open>Nothing of a connection exists.\<close>

definition idle :: "'s client \<Rightarrow> bool" where
  "idle c \<longleftrightarrow> c_stream c = None \<and> \<not> c_timer c \<and> \<not> c_server c \<and> \<not> c_ready c \<and> c_handlers c = no_handlers"

lemma idle_inv: "idle c \<Longrightarrow> client_inv c"
  by (simp add: idle_def client_inv_def no_handlers_def)

lemma inv_no_stream: "client_inv c \<Longrightarrow> c_stream c = None \<Longrightarrow> idle c"
  by (auto simp: idle_def client_inv_def no_handlers_def)

lemma idle_emit [simp]: "idle (c_emit a c) = idle c"
  by (simp add: idle_def)

lemma idle_send [simp]: "idle (send_event ev c) = idle c" "idle (sendConnectionFailedEvent msg c) = idle c"
  by (simp_all add: send_event_def sendConnectionFailedEvent_def)

text \<open>Every way a connection ends leaves nothing of it.\<close>

lemma cleaned_up:
  assumes "client_inv c"
  shows "idle (cleanupConnection (cleanupScreen (cleanupTimer c)))"
    "idle (cleanupConnection (cleanupConnecting (cleanupScreen (cleanupTimer c))))"
    "\<not> c_server c \<Longrightarrow> idle (cleanupStream (cleanupConnecting (cleanupTimer c)))"
    "\<not> c_server c \<Longrightarrow> idle (cleanupConnection (cleanupTimer c))"
  using assms inv_no_stream [OF assms] by (auto simp: idle_def client_inv_def no_handlers_def)

text \<open>What a step may leave: a good state, or an exception of the clipboard, the protocol or the options.\<close>

fun benign :: "client_fault \<Rightarrow> bool" where
  "benign NullServerProxy = False"
| "benign ClientAssertion = False"
| "benign ClientNullStream = False"
| "benign (ClientReadError e) = (e \<noteq> AssertionFailed)"
| "benign _ = True"

definition stands :: "client_fault + 's client \<Rightarrow> bool" where
  "stands r \<longleftrightarrow> (case r of Inl e \<Rightarrow> benign e | Inr c \<Rightarrow> client_inv c)"

lemma stands_simps [simp]: "stands (Inl e) = benign e" "stands (Inr c) = client_inv c"
  by (simp_all add: stands_def)

text \<open>The invariant is about the objects and the handlers only.\<close>

lemma inv_fields [simp]:
  "client_inv (c_emit a c) = client_inv c"
  "client_inv (c\<lparr>c_connectOnResume := b\<rparr>) = client_inv c"
  "client_inv (c\<lparr>c_suspended := b\<rparr>) = client_inv c"
  "client_inv (c\<lparr>c_active := b\<rparr>) = client_inv c"
  "client_inv (c\<lparr>c_restartable := b\<rparr>) = client_inv c"
  "client_inv (c\<lparr>c_sendFileThread := b\<rparr>) = client_inv c"
  "client_inv (c\<lparr>c_enableClipboard := b\<rparr>) = client_inv c"
  "client_inv (c\<lparr>c_maximumClipboardSize := n\<rparr>) = client_inv c"
  "client_inv (c\<lparr>c_ownClipboard := bs\<rparr>) = client_inv c"
  "client_inv (c\<lparr>c_sentClipboard := bs\<rparr>) = client_inv c"
  "client_inv (c\<lparr>c_timeClipboard := ts\<rparr>) = client_inv c"
  "client_inv (c\<lparr>c_dataClipboard := ds\<rparr>) = client_inv c"
  by (simp_all add: client_inv_def)

lemma disconnect_idle: "client_inv c \<Longrightarrow> idle (Client_disconnect msg c)"
  using cleaned_up(2) [of "c\<lparr>c_connectOnResume := False\<rparr>"] by (simp add: Client_disconnect_def Let_def split: option.split)

lemma attempt_failed_idle:
  "client_inv c \<Longrightarrow> \<not> c_server c \<Longrightarrow> idle (connection_attempt_failed msg c)"
  using cleaned_up(3) [of c] by (simp add: connection_attempt_failed_def)

lemma start_connecting_inv:
  assumes "idle c"
  shows "\<exists>c'. start_connecting s c = Inr c' \<and> client_inv c' \<and> \<not> c_server c'"
  using assms by (auto simp: start_connecting_def setupConnecting_def setupTimer_def idle_def client_inv_def no_handlers_def)

lemma connect_stands:
  assumes "client_inv c"
  shows "stands (Client_connect a c)"
proof (cases "c_stream c = None \<and> \<not> c_suspended c")
  case False
  then have "Client_connect a c = Inr c \<or> Client_connect a c = Inr (c\<lparr>c_connectOnResume := True\<rparr>)"
    by (auto simp: Client_connect_def)
  then show ?thesis using assms by (elim disjE) simp_all
next
  case True
  with assms have i: "idle c" by (simp add: inv_no_stream)
  note failed = idle_inv [OF attempt_failed_idle]
  have n: "\<not> c_server c" using i by (simp add: idle_def)
  show ?thesis
  proof (cases a)
    case (NoSocket msg)
    with True failed [OF assms n] show ?thesis by (simp add: Client_connect_def)
  next
    case (ConnectThrows s msg)
    obtain c' where "start_connecting s c = Inr c'" "client_inv c'" "\<not> c_server c'" using start_connecting_inv [OF i] by blast
    with ConnectThrows True failed [of c' msg] show ?thesis by (simp add: Client_connect_def)
  next
    case (UnderWay s)
    obtain c' where "start_connecting s c = Inr c'" "client_inv c'" using start_connecting_inv [OF i] by blast
    with UnderWay True show ?thesis by (simp add: Client_connect_def)
  qed
qed

lemma connected_stands:
  assumes "client_inv c" "enabled SocketConnected c"
  shows "stands (handle_connected c)"
proof -
  have "c_stream c \<noteq> None" using assms by (auto simp: client_inv_def)
  then show ?thesis using assms by (simp add: handle_connected_def setupConnection_def) (auto simp: client_inv_def)
qed

lemma resume_stands: "client_inv c \<Longrightarrow> stands (handle_resume a c)"
  using connect_stands [of "c\<lparr>c_suspended := False, c_connectOnResume := False\<rparr>" a]
  by (simp add: handle_resume_def Let_def)

lemma suspend_inv: "client_inv c \<Longrightarrow> client_inv (handle_suspend c)"
  using idle_inv [OF disconnect_idle, of "c\<lparr>c_suspended := True\<rparr>" None] by (simp add: handle_suspend_def)

lemma closed_idle:
  assumes "client_inv c"
  shows "idle (handle_output_error c)" "idle (handle_disconnected c)"
  using cleaned_up(1) [OF assms] by (simp_all add: handle_output_error_def handle_disconnected_def)

lemma no_stream_cleanup [simp]: "c_stream c = None \<Longrightarrow> cleanupStream c = c"
  by (simp add: cleanupStream_def)

lemma inv_cleanupConnecting: "client_inv c \<Longrightarrow> client_inv (cleanupConnecting c)"
  by (cases "c_stream c = None") (auto simp: client_inv_def)

lemma timeout_idle:
  assumes "client_inv c" "\<not> c_server c"
  shows "idle (handle_connect_timeout c)"
proof -
  have "cleanupConnecting (cleanupTimer c) = cleanupTimer (cleanupConnecting c)"
    by (simp add: cleanupConnecting_def cleanupTimer_def c_emit_def)
  then have "idle (cleanupConnection (cleanupConnecting (cleanupTimer c)))"
    using cleaned_up(4) [OF inv_cleanupConnecting [OF assms(1)]] assms(2) by simp
  then show ?thesis by (simp add: handle_connect_timeout_def)
qed

subsection \<open>The greeting and the calls of the proxy\<close>

lemma hello_failed_idle: "client_inv c \<Longrightarrow> \<not> c_server c \<Longrightarrow> idle (hello_failed msg c)"
  using cleaned_up(4) [of "sendConnectionFailedEvent msg c"]
  by (simp add: hello_failed_def sendConnectionFailedEvent_def send_event_def)

lemma cleanupTimer_inv: "client_inv c \<Longrightarrow> client_inv (cleanupTimer c)"
  by (simp add: client_inv_def)

lemma answer_hello_stands:
  assumes "client_inv (c\<lparr>c_timer := False\<rparr>)" "h_input (c_handlers c) = Some HelloReader" "\<not> c_server c"
  shows "stands (answer_hello ready s c)"
proof (cases "writefArgs kMsgHelloBack [WInt kProtocolMajorVersion, WInt kProtocolMinorVersion, WString (Some (c_name c))]")
  case (Inr bs)
  let ?c = "c_emit NewServerProxy ((c_emit (ClientWrite bs) c)\<lparr>c_ready := False, c_server := True,
             c_handlers := (c_handlers c)\<lparr>h_input := Some ProxyReader, h_screen := True\<rparr>\<rparr>)"
  have "client_inv (cleanupTimer ?c)" using assms by (auto simp: client_inv_def)
  then show ?thesis using Inr assms(3) by (simp add: answer_hello_def setupScreen_def Let_def)
qed (simp add: answer_hello_def)

lemma kMsgHello_specs: "specs kMsgHello = [(2, CHR ''i''), (2, CHR ''i'')]"
  by code_simp

context istream
begin

lemma handle_hello_stands:
  assumes "client_inv c" "h_input (c_handlers c) = Some HelloReader" "c_stream c = Some s" "ok s"
  shows "stands (handle_hello rd ready c)"
proof -
  have n: "\<not> c_server c" using assms(1,2) by (auto simp: client_inv_def)
  obtain r vs t where r: "readf rd s kMsgHello = (r, vs, t)" by (metis prod_cases3)
  have f: "format_ok kMsgHello" by (simp add: format_ok_def kMsgHello_specs spec_ok_def)
  have i: "client_inv (c\<lparr>c_stream := Some t\<rparr>)" "client_inv (c\<lparr>c_stream := Some t, c_timer := False\<rparr>)"
    using assms(1,3) by (simp_all add: client_inv_def)
  note failed = idle_inv [OF hello_failed_idle [OF i(1)]]
  show ?thesis
  proof (cases r)
    case (Inl e)
    with readf_result [OF assms(4) f r] r assms(3) show ?thesis by (simp add: handle_hello_def)
  next
    case (Inr b)
    show ?thesis
    proof (cases b)
      case False
      with Inr r assms(3) failed n show ?thesis by (simp add: handle_hello_def Let_def)
    next
      case True
      with readf_result [OF assms(4) f r] Inr obtain x y where "vs = [RInt2 x, RInt2 y]"
        by (auto simp: kMsgHello_specs list_all2_Cons1 shape_iffs)
      with True Inr r assms(2,3) failed n answer_hello_stands [of "c\<lparr>c_stream := Some t\<rparr>"] i(2) show ?thesis
        by (simp add: handle_hello_def Let_def)
    qed
  qed
qed

end

lemma sendClipboard_cases:
  assumes "c_server c"
  shows "case c_sendClipboard env grab i c of
    Inl e \<Rightarrow> benign e | Inr c' \<Rightarrow> client_inv c' = client_inv c \<and> c_server c'"
  using assms by (auto simp: c_sendClipboard_def Let_def split: sum.split option.split)

lemma sendClipboard_stands:
  assumes "client_inv c" "c_server c"
  shows "stands (c_sendClipboard env grab i c)"
  using sendClipboard_cases [OF assms(2), of env grab i] assms(1) by (auto simp: stands_def split: sum.splits)

lemma send_owned_stands: "client_inv c \<Longrightarrow> c_server c \<Longrightarrow> stands (send_owned env grab is c)"
proof (induction "is" arbitrary: c)
  case (Cons i "is")
  show ?case
  proof (cases "c_ownClipboard c ! i")
    case True
    with sendClipboard_cases [OF Cons.prems(2), of env grab i] Cons show ?thesis
      by (cases "c_sendClipboard env grab i c") simp_all
  qed (use Cons in simp)
qed simp

lemma leave_stands: "client_inv c \<Longrightarrow> c_server c \<Longrightarrow> stands (c_leave env grab c)"
  using send_owned_stands [of "to_screen Leave (c\<lparr>c_active := False\<rparr>)" env grab "[0..<kNumClipboards]"]
  by (simp add: c_leave_def to_screen_def Let_def)

lemma clipboard_grabbed_stands: "client_inv c \<Longrightarrow> c_server c \<Longrightarrow> stands (c_handle_clipboard_grabbed env grab i c)"
  by (simp add: c_handle_clipboard_grabbed_def Let_def sendClipboard_stands)

lemma setClipboard_stands: "client_inv c \<Longrightarrow> stands (c_setClipboard env home i clip c)"
  by (auto simp: c_setClipboard_def disown_def split: sum.split option.split)

lemma take_options_stands: "client_inv c \<Longrightarrow> stands (take_options options c)"
  by (induction options c rule: take_options.induct) (auto split: list.split)

lemma setOptions_stands: "client_inv c \<Longrightarrow> stands (c_setOptions options c)"
  using take_options_stands [of c options]
  by (cases "take_options options c") (simp_all add: c_setOptions_def Let_def to_screen_def)

subsection \<open>Every step\<close>

lemma proxy_enabled: "client_inv c \<Longrightarrow> h_input (c_handlers c) = Some ProxyReader \<Longrightarrow> c_server c"
  "client_inv c \<Longrightarrow> h_screen (c_handlers c) \<Longrightarrow> c_server c"
  "client_inv c \<Longrightarrow> c_timer c \<Longrightarrow> \<not> c_server c"
  "client_inv c \<Longrightarrow> h_connectionFailed (c_handlers c) \<Longrightarrow> \<not> c_server c"
  by (auto simp: client_inv_def)

lemma stream_ready_stands:
  assumes "client_inv c" "enabled (StreamReady s) c"
  shows "stands (client_handle e (StreamReady s) c)"
proof -
  have "c_stream c \<noteq> None" "h_input (c_handlers c) = Some HelloReader" "pf_inv s"
    using assms by (auto simp: client_inv_def)
  moreover from this have "client_inv (c\<lparr>c_stream := Some s\<rparr>)" using assms(1) by (auto simp: client_inv_def)
  ultimately show ?thesis using pf.handle_hello_stands [of "c\<lparr>c_stream := Some s\<rparr>" s pf_isReady] by auto
qed

lemma client_handle_stands:
  assumes "client_inv c" "enabled i c" "sends_to_server i \<Longrightarrow> c_server c"
  shows "stands (client_handle e i c)"
proof (cases i)
  case (StreamReady s)
  then show ?thesis using stream_ready_stands assms by blast
next
  case (CallConnect a)
  then show ?thesis using connect_stands assms(1) by simp
next
  case (Resume a)
  then show ?thesis using resume_stands assms(1) by simp
next
  case SocketConnected
  then show ?thesis using connected_stands assms by simp
next
  case (SocketFailed msg)
  then show ?thesis using idle_inv [OF attempt_failed_idle [OF assms(1)]] assms proxy_enabled(4) [OF assms(1)]
    by (simp add: handle_connection_failed_def)
next
  case ConnectTimeout
  then show ?thesis using idle_inv [OF timeout_idle [OF assms(1)]] assms proxy_enabled(3) [OF assms(1)] by simp
next
  case ProxyHandshake
  then show ?thesis using assms proxy_enabled(1) [OF assms(1)]
    by (simp add: handshakeComplete_def send_event_def) (simp add: client_inv_def)
next
  case (ClipboardGrabbed j)
  then show ?thesis using clipboard_grabbed_stands assms proxy_enabled(2) [OF assms(1)] by simp
next
  case ProxyLeave
  then show ?thesis using leave_stands assms proxy_enabled(1) [OF assms(1)] by simp
qed (use assms in \<open>auto simp: idle_inv disconnect_idle suspend_inv closed_idle setClipboard_stands setOptions_stands
   c_handle_shape_changed_def handle_stop_retry_def send_file_chunk_def c_sendDragInfo_def onFileReceiveCompleted_def
   sendFileToServer_def c_enter_def c_grabClipboard_def disown_def to_screen_def Let_def
   dest: proxy_enabled\<close>)

lemma file_without_server:
  "sends_to_server i \<Longrightarrow> \<not> c_server c \<Longrightarrow> \<exists>f. client_handle e i c = Inl f \<and> \<not> benign f"
  by (cases i) (simp_all add: send_file_chunk_def c_sendDragInfo_def)

lemma Client_new_inv: "client_inv (Client_new name crypto drag u t)"
  by (rule idle_inv) (simp add: idle_def Client_new_def)

lemma client_reach_inv: "client_reach e c0 c \<Longrightarrow> client_inv c0 \<Longrightarrow> client_inv c"
proof (induction rule: client_reach.induct)
  case (step c i c')
  then show ?case using client_handle_stands [of c i e] file_without_server [of i c e] by auto
qed

subsection \<open>Properties\<close>

text \<open>
  C4. The client as a state machine: from a new client on, whatever calls, events and messages come, the objects
  and handlers that exist keep fitting together. A step uses a stream or a proxy of the server that does
  not exist, or fails an assertion about them, in one case, which needs drag and drop enabled: when a chunk of a
  file or the list of dragged files is to be sent and there is no proxy of the server. Then it always
  does: a transfer that is under way when the connection ends takes the client down.
\<close>

theorem client_objects_fit:
  assumes "client_reach e (Client_new name crypto drag u t) c" "enabled i c"
  shows "client_inv c \<and> (case client_handle e i c of
    Inl f \<Rightarrow> f \<in> {NullServerProxy, ClientAssertion, ClientNullStream, ClientReadError AssertionFailed} \<longleftrightarrow>
      sends_to_server i \<and> c_enableDragDrop c \<and> \<not> c_server c
  | Inr c' \<Rightarrow> client_inv c' \<and> \<not> (sends_to_server i \<and> \<not> c_server c))"
proof -
  have inv: "client_inv c" by (rule client_reach_inv [OF assms(1) Client_new_inv])
  have bad: "f \<in> {NullServerProxy, ClientAssertion, ClientNullStream, ClientReadError AssertionFailed} \<longleftrightarrow> \<not> benign f" for f
    by (cases f) simp_all
  have drag: "sends_to_server i \<Longrightarrow> c_enableDragDrop c" using assms(2) by (cases i) simp_all
  show ?thesis
  proof (cases "sends_to_server i \<and> \<not> c_server c")
    case True
    then obtain f where "client_handle e i c = Inl f" "\<not> benign f" using file_without_server by blast
    then show ?thesis using inv drag True by (simp only: bad sum.case) simp
  next
    case False
    then show ?thesis using inv client_handle_stands [OF inv assms(2), of e]
      by (cases "client_handle e i c") (auto simp only: bad sum.case stands_simps)
  qed
qed

definition sample_ce :: client_env where
  "sample_ce = \<lparr>ce_env = sample_env, ce_grab = \<lambda>_ clip. clip, ce_home = True\<rparr>"

definition sample_c0 :: "packet_filter client" where
  "sample_c0 = Client_new [99] False True [False, False] [0, 0]"

text \<open>A client that was greeted over a filter holding the server's hello.\<close>

definition sample_hello :: bytes where
  "sample_hello = bytes_of ''Barrier'' @ [0, 1, 0, 6]"

lemma sample_hello_holds: "\<exists>s. pf_holds s [sample_hello]"
  by (rule one_packet_holds) (simp add: sample_hello_def good_payload_def protocol_limits)

lemma sample_hello_read:
  assumes "pf_holds s [sample_hello]"
  shows "\<exists>s'. readf pf_read s kMsgHello = (Inr True, [RInt2 1, RInt2 6], s')"
proof -
  have "writefArgs kMsgHello [WInt 1, WInt 6] = Inr sample_hello" by (simp add: write_simps sample_hello_def)
  moreover have "memory_ok [WInt 1, WInt 6]" "readable kMsgHello" "sent_values kMsgHello [WInt 1, WInt 6] = [RInt2 1, RInt2 6]"
    by code_simp+
  ultimately show ?thesis using pfs.readf_front [OF assms, of kMsgHello "[WInt 1, WInt 6]"] by auto
qed

lemma sample_connecting:
  "\<exists>c. client_reach sample_ce sample_c0 c \<and> c_name c = [99] \<and> c_stream c = Some pf_new \<and> \<not> c_server c \<and>
    h_input (c_handlers c) = Some HelloReader"
proof -
  obtain c where c: "client_handle sample_ce (CallConnect (UnderWay pf_new)) sample_c0 = Inr c"
    "c_stream c = Some pf_new" "enabled SocketConnected c" "c_name c = [99]" "\<not> c_server c"
    by (simp add: Client_connect_def start_connecting_def setupConnecting_def setupTimer_def sample_c0_def Client_new_def
        no_handlers_def c_emit_def)
  obtain c' where c': "client_handle sample_ce SocketConnected c = Inr c'" "c_name c' = c_name c" "c_stream c' = c_stream c"
    "c_server c' = c_server c" "h_input (c_handlers c') = Some HelloReader"
    using c(2) by (simp add: handle_connected_def setupConnection_def cleanupConnecting_def)
  have "client_reach sample_ce sample_c0 c"
    by (rule client_reach.step [OF client_reach.start _ c(1)]) simp
  from client_reach.step [OF this c(3) c'(1)] c c' show ?thesis by auto
qed

lemma sample_greeted: "\<exists>c. client_reach sample_ce sample_c0 c \<and> enabled ShapeChanged c \<and> c_server c"
proof -
  obtain c where c: "client_reach sample_ce sample_c0 c" "c_name c = [99]" "c_stream c = Some pf_new" "\<not> c_server c"
    "h_input (c_handlers c) = Some HelloReader" using sample_connecting by blast
  obtain s where s: "pf_holds s [sample_hello]" using sample_hello_holds by blast
  obtain s' where r: "readf pf_read s kMsgHello = (Inr True, [RInt2 1, RInt2 6], s')" using sample_hello_read [OF s] by blast
  have w: "\<exists>bs. writefArgs kMsgHelloBack [WInt kProtocolMajorVersion, WInt kProtocolMinorVersion, WString (Some [99])] = Inr bs"
    by (simp add: write_simps kProtocolMajorVersion_def kProtocolMinorVersion_def)
  then obtain c' where c': "client_handle sample_ce (StreamReady s) c = Inr c'" "c_server c'" "h_screen (c_handlers c')"
    using r c by (auto simp: handle_hello_def answer_hello_def setupScreen_def Let_def kProtocolMajorVersion_def kProtocolMinorVersion_def)
  have "enabled (StreamReady s) c" using s c(5) by (simp add: pf_holds_def)
  from client_reach.step [OF c(1) this c'(1)] c' show ?thesis by auto
qed

theorem client_objects_fit_witness:
  "\<exists>c. client_reach sample_ce sample_c0 c \<and> enabled ShapeChanged c \<and> client_inv c \<and>
    client_handle sample_ce ShapeChanged c = Inr (c_emit ServerInfoChanged c)"
proof -
  obtain c where c: "client_reach sample_ce sample_c0 c" "enabled ShapeChanged c" "c_server c"
    using sample_greeted by blast
  from client_objects_fit [OF c(1) [unfolded sample_c0_def] c(2)] c show ?thesis
    by (auto simp: c_handle_shape_changed_def)
qed

text \<open>
  C18. A connection that ends leaves nothing behind and can be made again: after a disconnect of a reachable
  client, or a lost or refused connection, no stream, timer, proxy or handler is left, and unless the machine
  is suspended the next call of \<open>connect\<close> starts a new attempt.
\<close>

theorem client_reconnects:
  assumes "client_reach e (Client_new name crypto drag u t) c" "enabled i c"
    "i = StreamClosed \<or> i = StreamError \<or> i = ConnectTimeout \<or> i = SocketFailed msg \<or> i = CallDisconnect m"
  shows "\<exists>c'. client_handle e i c = Inr c' \<and> idle c' \<and>
    (\<not> c_suspended c' \<longrightarrow> (\<exists>c''. Client_connect (UnderWay s) c' = Inr c'' \<and> isConnecting c'' \<and> c_stream c'' = Some s \<and>
       enabled SocketConnected c'' \<and> enabled (SocketFailed msg') c'' \<and> enabled ConnectTimeout c''))"
proof -
  have inv: "client_inv c" by (rule client_reach_inv [OF assms(1) Client_new_inv])
  have "\<exists>c'. client_handle e i c = Inr c' \<and> idle c'"
    using assms(2,3) closed_idle [OF inv] timeout_idle [OF inv] attempt_failed_idle [OF inv] disconnect_idle [OF inv]
      proxy_enabled(3,4) [OF inv] by (elim disjE) (simp_all add: handle_connection_failed_def)
  then obtain c' where c': "client_handle e i c = Inr c'" "idle c'" by blast
  then have "\<exists>c''. Client_connect (UnderWay s) c' = Inr c'' \<and> isConnecting c'' \<and> c_stream c'' = Some s \<and>
       enabled SocketConnected c'' \<and> enabled (SocketFailed msg') c'' \<and> enabled ConnectTimeout c''" if "\<not> c_suspended c'"
    using that by (auto simp: Client_connect_def start_connecting_def setupConnecting_def setupTimer_def idle_def
        isConnecting_def no_handlers_def)
  with c' show ?thesis by blast
qed

lemma clipboard_codes: "kOptionClipboardSharing = 1129074771" "kOptionClipboardSharingSize = 1129075546"
  by (simp_all add: kOptionClipboardSharing_def kOptionClipboardSharingSize_def OPTION_CODE_def)

text \<open>
  The limit on the size of a clipboard that the server sends never takes effect at the client: the loop over
  the options stops at the switch for the clipboard, which comes first in the order the server sends them.
\<close>

theorem clipboard_limit_not_taken:
  assumes "\<forall>v \<in> set pre. unat v \<noteq> kOptionClipboardSharing \<and> unat v \<noteq> kOptionClipboardSharingSize"
    "unat clps = kOptionClipboardSharing" "unat clsz = kOptionClipboardSharingSize"
    "options = pre @ [clps, on] @ mid @ [clsz, limit] @ post"
  shows "clps < clsz \<and> (\<exists>c'. c_setOptions options c = Inr c' \<and> c_maximumClipboardSize c' = c_maximumClipboardSize c \<and>
    c_enableClipboard c' = (on \<noteq> 0 \<and> c_maximumClipboardSize c \<noteq> 0))"
proof -
  have "clps < clsz" using assms(2,3) by (simp add: word_less_nat_alt clipboard_codes)
  moreover have "take_options (pre @ clps # on # ts) c = Inr (c\<lparr>c_enableClipboard := (on \<noteq> 0)\<rparr>)" for ts
    using assms(1,2) by (induction pre) simp_all
  ultimately show ?thesis using assms(4)
    by (simp add: c_setOptions_def Let_def to_screen_def c_emit_def)
qed

theorem clipboard_limit_not_taken_witness:
  "(1129074771 :: u32) < 1129075546 \<and>
    (\<exists>c'. c_setOptions [1129074771, 1, 1129075546, 1024] sample_c0 = Inr c' \<and> c_maximumClipboardSize c' = 2 ^ 31 - 1 \<and>
      c_enableClipboard c')"
  using clipboard_limit_not_taken [of "[]" 1129074771 1129075546 "[1129074771, 1, 1129075546, 1024]" 1 "[]" 1024 "[]" sample_c0]
  by (simp add: clipboard_codes sample_c0_def Client_new_def)

theorem client_reconnects_witness:
  "\<exists>c c'. client_reach sample_ce sample_c0 c \<and> c_server c \<and> client_handle sample_ce (CallDisconnect None) c = Inr c' \<and> idle c'"
proof -
  obtain c where c: "client_reach sample_ce sample_c0 c" "c_server c" using sample_greeted by blast
  from client_reconnects [OF c(1) [unfolded sample_c0_def], of "CallDisconnect None" "[]" None] c show ?thesis by auto
qed

end
