(* ===== verification/Handshake.thy ===== *)
theory Handshake
  imports ClientRuns
begin

text \<open>
  The handshake across both programs: the greeting of \<^verbatim>\<open>ClientProxyUnknown\<close>, the client's answer, the proxy that
  the server creates for it, and the exchange of the screen's shape. Each side reads what the other wrote
  through a packet filter.
\<close>

subsection \<open>The greeting\<close>

definition hello_bytes :: bytes where
  "hello_bytes = bytes_of ''Barrier'' @ [0, 1, 0, 6]"

definition hello_back :: "int \<Rightarrow> int \<Rightarrow> bytes \<Rightarrow> bytes" where
  "hello_back major minor name = bytes_of ''Barrier'' @ appendInteger (of_int major) 2 @ appendInteger (of_int minor) 2 @
     appendInteger (of_nat (length name)) 4 @ name"

lemma versions: "kProtocolMajorVersion = 1" "kProtocolMinorVersion = 6"
  by (simp_all add: kProtocolMajorVersion_def kProtocolMinorVersion_def)

lemma hello_written: "writefArgs kMsgHello [WInt kProtocolMajorVersion, WInt kProtocolMinorVersion] = Inr hello_bytes"
  by (simp add: write_simps versions hello_bytes_def)

lemma hello_back_written:
  assumes "length name \<le> PROTOCOL_MAX_STRING_LENGTH"
  shows "writefArgs kMsgHelloBack [WInt major, WInt minor, WString (Some name)] = Inr (hello_back major minor name)"
  using assms by (simp add: write_simps hello_back_def Let_def)

lemma hello_back_length: "length (hello_back major minor name) = 15 + length name"
  by (simp add: hello_back_def appendInteger_2 appendInteger_4)

lemma hello_formats:
  "readable kMsgHello" "readable kMsgHelloBack"
  "sent_values kMsgHello [WInt a, WInt b] = [RInt2 (of_int a), RInt2 (of_int b)]"
  "sent_values kMsgHelloBack [WInt a, WInt b, WString (Some name)] = [RInt2 (of_int a), RInt2 (of_int b), RString name]"
  by (simp_all add: msg_defs sent_value_def digit_value_def ucast_of_int16)

lemma pf_holds_size: "pf_holds s (p # ps) \<Longrightarrow> pf_getSize s = length p"
  using pf_read_packet [of s p "concat (map frame ps)" "length p"] good_wire_frames [of ps] by (auto simp: pf_holds_def)

text \<open>The client reads the server's greeting.\<close>

lemma greeting_read:
  assumes "pf_holds s [hello_bytes]"
  shows "\<exists>s'. readf pf_read s kMsgHello = (Inr True, [RInt2 1, RInt2 6], s') \<and> pf_holds s' []"
  using pfs.readf_front [OF assms hello_written, unfolded hello_formats versions] by (simp add: hello_formats)

text \<open>The server reads the client's answer.\<close>

lemma answer_read:
  assumes "pf_holds s [hello_back major minor name]" "length name \<le> PROTOCOL_MAX_STRING_LENGTH"
  shows "\<exists>s'. readf pf_read s kMsgHelloBack = (Inr True, [RInt2 (of_int major), RInt2 (of_int minor), RString name], s') \<and>
    pf_holds s' []"
  using pfs.readf_front [OF assms(1) hello_back_written [OF assms(2)], unfolded hello_formats] by (simp add: hello_formats)

text \<open>
  C15. A greeting makes a proxy: the client answers the server's hello, creates its proxy of the server and stops
  its timer; the server, reading the answer, creates a proxy under the client's name, or answers with an error
  and gives up when the whole answer is longer than the limit, that is when the name has more than 1009 bytes.
\<close>

theorem greeting_creates_proxy:
  assumes "ClientProxyUnknown_new t0 timeout = Inr u" "CuWrite hello \<in> set (cu_trace u)"
    "c_stream c = Some s" "pf_holds s [hello]" "\<not> c_server c" "length (c_name c) \<le> PROTOCOL_MAX_STRING_LENGTH"
  shows "\<exists>c' reply. handle_hello pf_read pf_isReady c = Inr c' \<and> c_server c' \<and> \<not> c_timer c' \<and>
    h_input (c_handlers c') = Some ProxyReader \<and>
    c_trace c' = c_trace c @ [ClientWrite reply, NewServerProxy] @ (if c_timer c then [StopConnectTimer] else []) \<and>
    (\<forall>t. pf_holds t [reply] \<longrightarrow>
       (if length (c_name c) \<le> 1009
        then \<exists>u' t'. cu_handle_data pf_read pf_getSize (u\<lparr>cu_stream := Some t\<rparr>) = Inr u' \<and> cu_proxy u' \<and> cu_timer u' \<and>
          cu_trace u' = cu_trace u @ [CuStreamHandlers False, CuCreateProxy (c_name c) t', CuProxyHandlers True] \<and> pf_holds t' []
        else \<exists>u' bad. cu_handle_data pf_read pf_getSize (u\<lparr>cu_stream := Some t\<rparr>) = Inr u' \<and> \<not> cu_proxy u' \<and>
          cu_trace u' = cu_trace u @ [CuWrite bad, CuStreamHandlers False, CuStopTimer, CuFailure]))"
proof -
  have u: "u = cu_emit (CuWrite hello_bytes) \<lparr>cu_stream = Some t0, cu_proxy = False, cu_ready = False, cu_timer = True,
        cu_trace = [CuStartTimer timeout, CuStreamHandlers True]\<rparr>"
    using assms(1) by (simp add: ClientProxyUnknown_new_def cu_writef_def hello_written)
  then have hello: "hello = hello_bytes" using assms(2) by (auto simp: cu_emit_def)
  obtain s' where r: "readf pf_read s kMsgHello = (Inr True, [RInt2 1, RInt2 6], s')" "pf_holds s' []"
    using greeting_read assms(4) hello by blast
  let ?reply = "hello_back 1 6 (c_name c)"
  have server: "if length (c_name c) \<le> 1009
     then \<exists>u' t'. cu_handle_data pf_read pf_getSize (u\<lparr>cu_stream := Some t\<rparr>) = Inr u' \<and> cu_proxy u' \<and> cu_timer u' \<and>
          cu_trace u' = cu_trace u @ [CuStreamHandlers False, CuCreateProxy (c_name c) t', CuProxyHandlers True] \<and> pf_holds t' []
     else \<exists>u' bad. cu_handle_data pf_read pf_getSize (u\<lparr>cu_stream := Some t\<rparr>) = Inr u' \<and> \<not> cu_proxy u' \<and>
          cu_trace u' = cu_trace u @ [CuWrite bad, CuStreamHandlers False, CuStopTimer, CuFailure]"
    if t: "pf_holds t [?reply]" for t
  proof -
    have sz: "pf_getSize t = 15 + length (c_name c)" using pf_holds_size [OF t] by (simp add: hello_back_length)
    obtain t' where "readf pf_read t kMsgHelloBack = (Inr True, [RInt2 1, RInt2 6, RString (c_name c)], t')" "pf_holds t' []"
      using answer_read [OF t assms(6)] by auto
    with sz u show ?thesis
      by (auto simp: cu_handle_data_def read_hello_def accept_version_def kMaxHelloLength_def cu_remove_handlers_def cu_emit_def
          cu_writef_def write_simps sendFailure_def cu_delete_proxy_def cu_removeTimer_def Let_def)
  qed
  have "\<exists>c'. handle_hello pf_read pf_isReady c = Inr c' \<and> c_server c' \<and> \<not> c_timer c' \<and>
    h_input (c_handlers c') = Some ProxyReader \<and>
    c_trace c' = c_trace c @ [ClientWrite ?reply, NewServerProxy] @ (if c_timer c then [StopConnectTimer] else [])"
    using r assms(3,5) hello_back_written [OF assms(6), of 1 6, simplified] pfs.ready_iff [OF r(2)]
    by (auto simp: handle_hello_def versions answer_hello_def setupScreen_def Let_def cleanupTimer_def c_emit_def)
  with server show ?thesis by blast
qed

text \<open>
  C33. A client that answers with a version other than 1.6, its major number at least 1 and its minor number at least
  0, crashes the server: the stream has left the object before the version is looked up, and the answer is
  written to a stream that is gone.
\<close>

theorem unsupported_version_crashes:
  assumes "cu_stream u = Some t" "pf_holds t [hello_back major minor name]" "length name \<le> 1009"
    "0 < major" "0 \<le> minor" "major < 2 ^ 15" "minor < 2 ^ 15" "(major, minor) \<noteq> (1, 6)"
  shows "cu_handle_data pf_read pf_getSize u = Inl NullStream"
proof -
  have sz: "pf_getSize t = 15 + length name" using pf_holds_size [OF assms(2)] by (simp add: hello_back_length)
  have "length name \<le> PROTOCOL_MAX_STRING_LENGTH" using assms(3) by (simp add: protocol_limits)
  then obtain t' where "readf pf_read t kMsgHelloBack = (Inr True, [RInt2 (of_int major), RInt2 (of_int minor), RString name], t')"
    using answer_read [OF assms(2)] by blast
  moreover have "sint (word_of_int major :: 16 word) = major" "sint (word_of_int minor :: 16 word) = minor"
    using assms(4-7) by (simp_all add: signed_of_int signed_take_bit_int_eq_self)
  ultimately show ?thesis using assms(1,3-5,8) sz
    by (auto simp: cu_handle_data_def read_hello_def accept_version_def kMaxHelloLength_def cu_writef_def write_simps versions Let_def)
qed

subsection \<open>The shape of the screen\<close>

definition fits16 :: "int \<Rightarrow> bool" where
  "fits16 x \<longleftrightarrow> - (2 ^ 15) \<le> x \<and> x < 2 ^ 15"

lemma sint_fits16: "fits16 x \<Longrightarrow> sint (word_of_int x :: 16 word) = x"
  by (simp add: fits16_def signed_of_int signed_take_bit_int_eq_self)

definition info_body :: "shape \<Rightarrow> int \<times> int \<Rightarrow> write_arg list" where
  "info_body = (\<lambda>(x, y, w, h) (mx, my). [WInteger (of_int x), WInteger (of_int y), WInteger (of_int w), WInteger (of_int h),
     WInteger 0, WInteger (of_int mx), WInteger (of_int my)])"

lemma info_written:
  assumes "sendInfo (x, y, w, h) (mx, my) q = Inr q'"
  shows "\<exists>info body. sp_trace q' = sp_trace q @ [StreamWrite info] \<and> info = bytes_of ''DINF'' @ body \<and>
    writefArgs (drop 4 kMsgDInfo) (info_body (x, y, w, h) (mx, my)) = Inr body \<and> body \<noteq> []"
  using assms by (auto simp: sendInfo_def sp_writef_def info_body_def write_simps sp_emit_def)

lemma info_format:
  "readable (drop 4 kMsgDInfo)" "memory_ok (info_body (x, y, w, h) (mx, my))"
  "sent_values (drop 4 kMsgDInfo) (info_body (x, y, w, h) (mx, my)) =
     [RInt2 (of_int x), RInt2 (of_int y), RInt2 (of_int w), RInt2 (of_int h), RInt2 0, RInt2 (of_int mx), RInt2 (of_int my)]"
  by (simp_all add: msg_defs sent_value_def digit_value_def ucast_of_int16 info_body_def)

text \<open>
  What the server keeps of a cursor position: one on the screen is kept; for one outside, the code adds half of the size to
  the corner in 16 bits, which is the middle of the screen unless the sum does not fit, and then a point outside.
\<close>

definition kept_cursor :: "shape \<Rightarrow> int \<times> int \<Rightarrow> int \<times> int" where
  "kept_cursor = (\<lambda>(x, y, w, h) (mx, my).
     if x \<le> mx \<and> mx < x + w \<and> y \<le> my \<and> my < y + h then (mx, my)
     else (wrap16 (x + w div 2), wrap16 (y + h div 2)))"

lemma recvInfo_takes:
  assumes "pf_holds (cp_stream p) (body # ps)" "writefArgs (drop 4 kMsgDInfo) (info_body (x, y, w, h) (mx, my)) = Inr body"
    "fits16 x" "fits16 y" "fits16 w" "fits16 h" "fits16 mx" "fits16 my" "0 < w" "0 < h"
  shows "\<exists>p'. recvInfo pf_read p = Inr (True, p') \<and> pf_holds (cp_stream p') ps \<and> cp_getShape p' = (x, y, w, h) \<and>
    cp_getCursorPos p' = kept_cursor (x, y, w, h) (mx, my) \<and> cp_parser p' = cp_parser p \<and>
    cp_trace p' = cp_trace p @ [CpWrite (bytes_of ''CIAK'')]"
proof -
  obtain s where s: "readf pf_read (cp_stream p) (drop 4 kMsgDInfo) = (Inr True, [RInt2 (of_int x), RInt2 (of_int y),
      RInt2 (of_int w), RInt2 (of_int h), RInt2 0, RInt2 (of_int mx), RInt2 (of_int my)], s)" "pf_holds s ps"
    using pfs.readf_front [OF assms(1,2) info_format(2,1)] by (auto simp: info_format)
  have ack: "writefArgs kMsgCInfoAck [] = Inr (bytes_of ''CIAK'')" by (simp add: write_simps)
  let ?p = "p\<lparr>cp_stream := s, cp_info := center_cursor \<lparr>i_x = x, i_y = y, i_w = w, i_h = h, i_mx = mx, i_my = my\<rparr>\<rparr>"
  have "recvInfo pf_read p = Inr (True, cp_emit (CpWrite (bytes_of ''CIAK'')) ?p)"
    using s(1) ack assms(9,10) by (simp add: recvInfo_def cp_readf_def sint_fits16 assms(3-8) cp_send_def send_info_ack_1_6_def)
  then show ?thesis using s(2)
    by (auto simp: cp_emit_def cp_getShape_def cp_getCursorPos_def center_cursor_def kept_cursor_def)
qed

lemma addHeartbeat_fields:
  "cp_stream (addHeartbeatTimer p) = cp_stream p" "cp_info (addHeartbeatTimer p) = cp_info p"
  "cp_parser (addHeartbeatTimer p) = cp_parser p" "\<exists>hs. cp_trace (addHeartbeatTimer p) = cp_trace p @ hs"
  by (auto simp: addHeartbeatTimer_def cp_emit_def Let_def)

lemma resetHeartbeat_fields:
  "cp_info (resetHeartbeatTimer p) = cp_info p" "cp_parser (resetHeartbeatTimer p) = cp_parser p"
  "\<exists>hs. cp_trace (resetHeartbeatTimer p) = cp_trace p @ hs"
  by (auto simp: resetHeartbeatTimer_def cp_emit_def Let_def)

text \<open>
  C16. The shape of the client's screen reaches the server: after the client's \<open>sendInfo\<close> the proxy at the server has
  the same shape, acknowledges it and reports that it is ready, provided all the numbers fit in 16 bits and the size is
  positive. The cursor position is kept if it lies on the screen. Otherwise it becomes the corner plus half of the
  size, computed in 16 bits: the middle of the screen, or a point outside of it when the sum does not fit.
\<close>

theorem screen_info_arrives:
  assumes "sendInfo (x, y, w, h) (mx, my) q = Inr q'" "sp_trace q' = sp_trace q @ [StreamWrite info]"
    "pf_holds (cp_stream p) [info]" "cp_parser p = CpHandshake"
    "list_all fits16 [x, y, w, h, mx, my]" "0 < w" "0 < h"
  shows "\<exists>p' hs. cp_handle_data junk pf_read p = Some (Inr p') \<and> cp_parser p' = CpMessage \<and>
    cp_getShape p' = (x, y, w, h) \<and> cp_getCursorPos p' = kept_cursor (x, y, w, h) (mx, my) \<and>
    cp_trace p' = cp_trace p @ [CpWrite (bytes_of ''CIAK''), CpPost CLIENT_PROXY_READY_EV] @ hs"
proof -
  obtain body where b: "info = bytes_of ''DINF'' @ body" "body \<noteq> []"
    "writefArgs (drop 4 kMsgDInfo) (info_body (x, y, w, h) (mx, my)) = Inr body"
    using info_written [OF assms(1)] assms(2) by auto
  obtain s where s: "pf_read (cp_stream p) 4 = Some (bytes_of ''DINF'', s)" "pf_holds s [body]"
    using pfs.read_code [of "cp_stream p" "bytes_of ''DINF''" body "[]"] assms(3) b(1,2) by auto
  obtain p1 where p1: "recvInfo pf_read (p\<lparr>cp_stream := s, cp_parser := CpMessage\<rparr>) = Inr (True, p1)" "pf_holds (cp_stream p1) []"
    "cp_getShape p1 = (x, y, w, h)" "cp_getCursorPos p1 = kept_cursor (x, y, w, h) (mx, my)" "cp_parser p1 = CpMessage"
    "cp_trace p1 = cp_trace p @ [CpWrite (bytes_of ''CIAK'')]"
    using recvInfo_takes [of "p\<lparr>cp_stream := s, cp_parser := CpMessage\<rparr>" body "[]" x y w h mx my] s(2) b(3) assms(5-7) by auto
  define p2 where "p2 = addHeartbeatTimer (cp_emit (CpPost CLIENT_PROXY_READY_EV) p1)"
  have run: "cp_run_parser junk pf_read (bytes_of ''DINF'') (p\<lparr>cp_stream := s\<rparr>) = Inr (True, p2)"
    using p1(1) assms(4) by (simp add: cp_run_parser_def cp_parseHandshakeMessage_def is_msg_def msg_defs p2_def)
  have "pf_holds (cp_stream p2) []" using p1(2) by (simp add: p2_def addHeartbeat_fields cp_emit_def)
  then obtain s' where s': "pf_read (cp_stream p2) 4 = Some ([], s')" using pfs.read_none by blast
  have "cp_handle_data junk pf_read p2 = Some (Inr (resetHeartbeatTimer (p2\<lparr>cp_stream := s'\<rparr>)))"
    using s' by (subst cp_handle_data.simps) simp
  with run s(1) have "cp_handle_data junk pf_read p = Some (Inr (resetHeartbeatTimer (p2\<lparr>cp_stream := s'\<rparr>)))"
    by (subst cp_handle_data.simps) simp
  moreover obtain hs where "cp_trace p2 = cp_trace p @ [CpWrite (bytes_of ''CIAK''), CpPost CLIENT_PROXY_READY_EV] @ hs"
    using addHeartbeat_fields(4) [of "cp_emit (CpPost CLIENT_PROXY_READY_EV) p1"] p1(6) by (auto simp: p2_def cp_emit_def)
  moreover have "cp_parser p2 = CpMessage" "cp_info p2 = cp_info p1" using p1(5) by (simp_all add: p2_def addHeartbeat_fields cp_emit_def)
  ultimately show ?thesis using p1(3,4) resetHeartbeat_fields [of "p2\<lparr>cp_stream := s'\<rparr>"]
    by (auto simp: cp_getShape_def cp_getCursorPos_def)
qed

subsection \<open>Examples\<close>

lemma sample_packets: "\<exists>s. pf_holds s [hello_bytes]" "\<exists>s. pf_holds s [hello_back 1 3 [99]]"
  "\<exists>s. pf_holds s [bytes_of ''DINF'' @ [0, 0, 0, 0, 0, 100, 0, 50, 0, 0, 0, 1, 0, 1]]"
  by (rule one_packet_holds; simp add: hello_bytes_def hello_back_def appendInteger_2 appendInteger_4 good_payload_def protocol_limits)+

definition sample_unknown :: "packet_filter unknown_proxy" where
  "sample_unknown = \<lparr>cu_stream = Some pf_new, cu_proxy = False, cu_ready = False, cu_timer = True,
     cu_trace = [CuStartTimer 30, CuStreamHandlers True, CuWrite hello_bytes]\<rparr>"

theorem greeting_creates_proxy_witness:
  "\<exists>s c' reply. pf_holds s [hello_bytes] \<and> handle_hello pf_read pf_isReady (sample_c0\<lparr>c_stream := Some s\<rparr>) = Inr c' \<and>
     c_trace c' = [ClientWrite reply, NewServerProxy] \<and>
     (\<forall>t. pf_holds t [reply] \<longrightarrow> (\<exists>u' t'. cu_handle_data pf_read pf_getSize (sample_unknown\<lparr>cu_stream := Some t\<rparr>) = Inr u' \<and>
        CuCreateProxy [99] t' \<in> set (cu_trace u')))"
proof -
  obtain s where s: "pf_holds s [hello_bytes]" using sample_packets(1) by blast
  have u: "ClientProxyUnknown_new pf_new 30 = Inr sample_unknown"
    by (simp add: ClientProxyUnknown_new_def cu_writef_def hello_written cu_emit_def sample_unknown_def)
  have "CuWrite hello_bytes \<in> set (cu_trace sample_unknown)" by (simp add: sample_unknown_def)
  note g = greeting_creates_proxy [OF u this, of "sample_c0\<lparr>c_stream := Some s\<rparr>" s]
  have c: "c_name sample_c0 = [99]" "c_trace sample_c0 = []" "\<not> c_server sample_c0" "\<not> c_timer sample_c0"
    by (simp_all add: sample_c0_def Client_new_def)
  from g s c obtain c' ans where "handle_hello pf_read pf_isReady (sample_c0\<lparr>c_stream := Some s\<rparr>) = Inr c'"
    "c_trace c' = [ClientWrite ans, NewServerProxy]"
    and t: "\<forall>t. pf_holds t [ans] \<longrightarrow> (\<exists>u' t'. cu_handle_data pf_read pf_getSize (sample_unknown\<lparr>cu_stream := Some t\<rparr>) = Inr u' \<and>
      cu_trace u' = cu_trace sample_unknown @ [CuStreamHandlers False, CuCreateProxy [99] t', CuProxyHandlers True])"
    by (simp add: protocol_limits) blast
  moreover have "CuCreateProxy n v \<in> set (a @ [b, CuCreateProxy n v, d])" for n v a b d by simp
  ultimately show ?thesis using s by metis
qed

theorem unsupported_version_crashes_witness:
  "\<exists>t. pf_holds t [hello_back 1 3 [99]] \<and>
    cu_handle_data pf_read pf_getSize (sample_unknown\<lparr>cu_stream := Some t\<rparr>) = Inl NullStream"
proof -
  obtain t where t: "pf_holds t [hello_back 1 3 [99]]" using sample_packets(2) by blast
  from unsupported_version_crashes [OF _ t, of "sample_unknown\<lparr>cu_stream := Some t\<rparr>"] t show ?thesis by auto
qed

theorem screen_info_arrives_witness:
  "\<exists>s p'. pf_holds s [bytes_of ''DINF'' @ [0, 0, 0, 0, 0, 100, 0, 50, 0, 0, 0, 1, 0, 1]] \<and>
    cp_handle_data 0 pf_read (cp_members True s (cp_info sample_client) [] (cp_assembly sample_client) (cp_file sample_client)) = Some (Inr p') \<and>
    cp_getShape p' = (0, 0, 100, 50) \<and> cp_getCursorPos p' = (1, 1)"
proof -
  let ?info = "bytes_of ''DINF'' @ [0, 0, 0, 0, 0, 100, 0, 50, 0, 0, 0, 1, 0, 1]"
  obtain s where s: "pf_holds s [?info]" using sample_packets(3) by blast
  have w: "sendInfo (0, 0, 100, 50) (1, 1) sample_sp = Inr (sp_emit (StreamWrite ?info) sample_sp)"
    by (simp add: sendInfo_def sp_writef_def write_simps)
  let ?p = "cp_members True s (cp_info sample_client) [] (cp_assembly sample_client) (cp_file sample_client)"
  have "sp_trace (sp_emit (StreamWrite ?info) sample_sp) = sp_trace sample_sp @ [StreamWrite ?info]" by (simp add: sp_emit_def)
  from screen_info_arrives [OF w this, of ?p 0] s show ?thesis
    by (auto simp: cp_members_def fits16_def kept_cursor_def)
qed

end
