(* ===== verification/KeyNames.thy ===== *)
theory KeyNames
  imports Strings
begin

text \<open>
  Names of keys and modifiers: the tables of \<^verbatim>\<open>src/lib/inputleap/key_types.cpp\<close> and \<open>formatKey\<close>, \<open>parseKey\<close> and
  \<open>parseModifiers\<close> of \<^verbatim>\<open>src/lib/inputleap/KeyMap.cpp\<close>, with which hot keys are written to and read from a
  configuration. Keys and masks are natural numbers below \<open>2 ^ 32\<close>. What is printed reads back, except for the
  key whose name is also that of a modifier.
\<close>

subsection \<open>Tables\<close>

definition kKeyNameMap :: "(string \<times> nat) list" where
  "kKeyNameMap =
    [(''AltGr'', 0xEF7E), (''Alt_L'', 0xEFE9), (''Alt_R'', 0xEFEA), (''AppMail'', 0xE0B4), (''AppMedia'', 0xE0B5),
     (''AppUser1'', 0xE0B6), (''AppUser2'', 0xE0B7), (''AudioDown'', 0xE0AE), (''AudioMute'', 0xE0AD),
     (''AudioNext'', 0xE0B0), (''AudioPlay'', 0xE0B3), (''AudioPrev'', 0xE0B1), (''AudioStop'', 0xE0B2),
     (''AudioUp'', 0xE0AF), (''BackSpace'', 0xEF08), (''Begin'', 0xEF58), (''Break'', 0xEF6B),
     (''Cancel'', 0xEF69), (''CapsLock'', 0xEFE5), (''Clear'', 0xEF0B), (''Control_L'', 0xEFE3),
     (''Control_R'', 0xEFE4), (''Delete'', 0xEFFF), (''Down'', 0xEF54), (''EisuToggle'', 0xEF30),
     (''Eject'', 0xE001), (''End'', 0xEF57), (''Escape'', 0xEF1B), (''Execute'', 0xEF62), (''F1'', 0xEFBE),
     (''F2'', 0xEFBF), (''F3'', 0xEFC0), (''F4'', 0xEFC1), (''F5'', 0xEFC2), (''F6'', 0xEFC3),
     (''F7'', 0xEFC4), (''F8'', 0xEFC5), (''F9'', 0xEFC6), (''F10'', 0xEFC7), (''F11'', 0xEFC8),
     (''F12'', 0xEFC9), (''F13'', 0xEFCA), (''F14'', 0xEFCB), (''F15'', 0xEFCC), (''F16'', 0xEFCD),
     (''F17'', 0xEFCE), (''F18'', 0xEFCF), (''F19'', 0xEFD0), (''F20'', 0xEFD1), (''F21'', 0xEFD2),
     (''F22'', 0xEFD3), (''F23'', 0xEFD4), (''F24'', 0xEFD5), (''F25'', 0xEFD6), (''F26'', 0xEFD7),
     (''F27'', 0xEFD8), (''F28'', 0xEFD9), (''F29'', 0xEFDA), (''F30'', 0xEFDB), (''F31'', 0xEFDC),
     (''F32'', 0xEFDD), (''F33'', 0xEFDE), (''F34'', 0xEFDF), (''F35'', 0xEFE0), (''Find'', 0xEF68),
     (''Help'', 0xEF6A), (''Henkan'', 0xEF23), (''Home'', 0xEF50), (''Hyper_L'', 0xEFED),
     (''Hyper_R'', 0xEFEE), (''Insert'', 0xEF63), (''Kana'', 0xEF26), (''KP_0'', 0xEFB0), (''KP_1'', 0xEFB1),
     (''KP_2'', 0xEFB2), (''KP_3'', 0xEFB3), (''KP_4'', 0xEFB4), (''KP_5'', 0xEFB5), (''KP_6'', 0xEFB6),
     (''KP_7'', 0xEFB7), (''KP_8'', 0xEFB8), (''KP_9'', 0xEFB9), (''KP_Add'', 0xEFAB), (''KP_Begin'', 0xEF9D),
     (''KP_Decimal'', 0xEFAE), (''KP_Delete'', 0xEF9F), (''KP_Divide'', 0xEFAF), (''KP_Down'', 0xEF99),
     (''KP_End'', 0xEF9C), (''KP_Enter'', 0xEF8D), (''KP_Equal'', 0xEFBD), (''KP_F1'', 0xEF91),
     (''KP_F2'', 0xEF92), (''KP_F3'', 0xEF93), (''KP_F4'', 0xEF94), (''KP_Home'', 0xEF95),
     (''KP_Insert'', 0xEF9E), (''KP_Left'', 0xEF96), (''KP_Multiply'', 0xEFAA), (''KP_PageDown'', 0xEF9B),
     (''KP_PageUp'', 0xEF9A), (''KP_Right'', 0xEF98), (''KP_Separator'', 0xEFAC), (''KP_Space'', 0xEF80),
     (''KP_Subtract'', 0xEFAD), (''KP_Tab'', 0xEF89), (''KP_Up'', 0xEF97), (''Left'', 0xEF51),
     (''LeftTab'', 0xEE20), (''Linefeed'', 0xEF0A), (''Menu'', 0xEF67), (''Meta_L'', 0xEFE7),
     (''Meta_R'', 0xEFE8), (''Muhenkan'', 0xEF22), (''NumLock'', 0xEF7F), (''PageDown'', 0xEF56),
     (''PageUp'', 0xEF55), (''Pause'', 0xEF13), (''Print'', 0xEF61), (''Redo'', 0xEF66), (''Return'', 0xEF0D),
     (''Right'', 0xEF53), (''ScrollLock'', 0xEF14), (''Select'', 0xEF60), (''ShiftLock'', 0xEFE6),
     (''Shift_L'', 0xEFE1), (''Shift_R'', 0xEFE2), (''Sleep'', 0xE05F), (''Super_L'', 0xEFEB),
     (''Super_R'', 0xEFEC), (''SysReq'', 0xEF15), (''Tab'', 0xEF09), (''Undo'', 0xEF65), (''Up'', 0xEF52),
     (''WWWBack'', 0xE0A6), (''WWWFavorites'', 0xE0AB), (''WWWForward'', 0xE0A7), (''WWWHome'', 0xE0AC),
     (''WWWRefresh'', 0xE0A8), (''WWWSearch'', 0xE0AA), (''WWWStop'', 0xE0A9), (''Zenkaku'', 0xEF2A),
     (''Space'', 0x20), (''Exclaim'', 0x21), (''DoubleQuote'', 0x22), (''Number'', 0x23), (''Dollar'', 0x24),
     (''Percent'', 0x25), (''Ampersand'', 0x26), (''Apostrophe'', 0x27), (''ParenthesisL'', 0x28),
     (''ParenthesisR'', 0x29), (''Asterisk'', 0x2A), (''Plus'', 0x2B), (''Comma'', 0x2C), (''Minus'', 0x2D),
     (''Period'', 0x2E), (''Slash'', 0x2F), (''Colon'', 0x3A), (''Semicolon'', 0x3B), (''Less'', 0x3C),
     (''Equal'', 0x3D), (''Greater'', 0x3E), (''Question'', 0x3F), (''At'', 0x40), (''BracketL'', 0x5B),
     (''Backslash'', 0x5C), (''BracketR'', 0x5D), (''Circumflex'', 0x5E), (''Underscore'', 0x5F),
     (''Grave'', 0x60), (''BraceL'', 0x7B), (''Bar'', 0x7C), (''BraceR'', 0x7D), (''Tilde'', 0x7E),
     (''Copy'', 0x1008EF57), (''Cut'', 0x1008EF58), (''Open'', 0x1008EF6B), (''Paste'', 0x1008EF6D),
     (''Props'', 0x1005EF70), (''Front'', 0x1005EF71)]"

definition kModifierNameMap :: "(string \<times> nat) list" where
  "kModifierNameMap = [(''Alt'', 0x4), (''AltGr'', 0x20), (''Control'', 0x2), (''Meta'', 0x8), (''Shift'', 0x1), (''Super'', 0x10)]"

text \<open>
  The maps that \<open>initKeyNameMaps\<close> fills: a later entry replaces an earlier one under the same key. Names are
  compared without regard to case.
\<close>

definition s_nameToKeyMap :: "string \<Rightarrow> nat option" where
  "s_nameToKeyMap x = map_option snd (List.find (\<lambda>(n, _). caseless_equal n x) (rev kKeyNameMap))"

definition s_keyToNameMap :: "nat \<Rightarrow> string option" where
  "s_keyToNameMap k = map_option fst (List.find (\<lambda>(_, i). i = k) (rev kKeyNameMap))"

definition s_nameToModifierMap :: "string \<Rightarrow> nat option" where
  "s_nameToModifierMap x = map_option snd (List.find (\<lambda>(n, _). caseless_equal n x) (rev kModifierNameMap))"

definition s_modifierToNameMap :: "nat \<Rightarrow> string option" where
  "s_modifierToNameMap m = map_option fst (List.find (\<lambda>(_, i). i = m) (rev kModifierNameMap))"

subsection \<open>Hexadecimal numbers\<close>

fun hex_string :: "nat \<Rightarrow> string" where
  "hex_string n = (if n < 16 then [hex_digit n] else hex_string (n div 16) @ [hex_digit (n mod 16)])"

declare hex_string.simps [simp del]

definition is_hex :: "char \<Rightarrow> bool" where
  "is_hex c \<longleftrightarrow> is_digit c \<or> 65 \<le> (of_char c :: nat) \<and> (of_char c :: nat) \<le> 70 \<or> 97 \<le> (of_char c :: nat) \<and> (of_char c :: nat) \<le> 102"

definition hex_value :: "string \<Rightarrow> int" where
  "hex_value ds = foldl (\<lambda>acc c. acc * 16 + hex_to_number c) 0 ds"

text \<open>\<^verbatim>\<open>strtol\<close> in base 16, for text too short to overflow.\<close>

definition strtol16 :: "string \<Rightarrow> int \<times> string" where
  "strtol16 s =
     (let r1 = dropWhile is_space s;
          neg = (r1 \<noteq> [] \<and> hd r1 = CHR ''-'');
          r2 = (if r1 \<noteq> [] \<and> (hd r1 = CHR ''-'' \<or> hd r1 = CHR ''+'') then tl r1 else r1);
          r3 = (if 3 \<le> length r2 \<and> r2 ! 0 = CHR ''0'' \<and> (r2 ! 1 = CHR ''x'' \<or> r2 ! 1 = CHR ''X'') \<and> is_hex (r2 ! 2)
                then drop 2 r2 else r2);
          ds = takeWhile is_hex r3
      in if ds = [] then (0, s)
         else (if neg then - hex_value ds else hex_value ds, dropWhile is_hex r3))"

subsection \<open>Printing and parsing\<close>

definition kKeyModifierNumBits :: nat where
  "kKeyModifierNumBits = 16"

definition format_modifiers :: "nat \<Rightarrow> string" where
  "format_modifiers m =
     concat (map (\<lambda>i. if bit m i then (case s_modifierToNameMap (2 ^ i) of None \<Rightarrow> [] | Some n \<Rightarrow> n @ ''+'') else [])
       [0..<kKeyModifierNumBits])"

definition formatKey :: "nat \<Rightarrow> nat \<Rightarrow> string" where
  "formatKey key m =
     (let x = format_modifiers m in
      if key \<noteq> 0 then
        x @ (case s_keyToNameMap key of
               Some n \<Rightarrow> n
             | None \<Rightarrow> if 33 \<le> key \<and> key < 127 then [char_of key]
                      else CHR 0x5C # CHR ''u'' # pad_left 4 (CHR ''0'') (hex_string key))
      else butlast x)"

definition isgraph :: "char \<Rightarrow> bool" where
  "isgraph c \<longleftrightarrow> 33 \<le> (of_char c :: nat) \<and> (of_char c :: nat) \<le> 126"

definition parseKey :: "string \<Rightarrow> nat option" where
  "parseKey x =
     (case s_nameToKeyMap x of
        Some k \<Rightarrow> Some k
      | None \<Rightarrow>
          (if length x = 1 then (if isgraph (hd x) then Some (of_char (hd x)) else None)
           else if length x = 6 \<and> x ! 0 = CHR 0x5C \<and> x ! 1 = CHR ''u'' then
             (case strtol16 (drop 2 x) of
                (v, rest) \<Rightarrow> if rest = [] then Some (nat (v mod 2 ^ 32)) else None)
           else if x \<noteq> [] then None
           else Some 0))"

definition is_blank :: "char \<Rightarrow> bool" where
  "is_blank c \<longleftrightarrow> c = CHR '' '' \<or> c = CHR 0x09"

definition trim :: "string \<Rightarrow> string" where
  "trim s = rev (dropWhile is_blank (rev (dropWhile is_blank s)))"

definition component :: "string \<Rightarrow> string" where
  "component s = takeWhile (\<lambda>x. x \<notin> {CHR '' '', CHR 0x09, CHR ''+'', CHR '')''}) s"

text \<open>
  The loop of \<open>parseModifiers\<close> on the text from the next component on. The result is the rest of the text and the
  mask; \<open>None\<close> is the return value \<^verbatim>\<open>false\<close>.
\<close>

function modifiers_loop :: "string \<Rightarrow> nat \<Rightarrow> (string \<times> nat) option" where
  "modifiers_loop s m =
     (if s = [] then Some ([], m)
      else let c = component s in
        if c = [] then None
        else case s_nameToModifierMap c of
          None \<Rightarrow> Some (trim s, m)
        | Some md \<Rightarrow>
            (if m AND md \<noteq> 0 then None
             else let r = dropWhile is_blank (drop (length c) s) in
               if r = [] then Some ([], m OR md)
               else if hd r \<noteq> CHR ''+'' then None
               else modifiers_loop (dropWhile is_blank (tl r)) (m OR md)))"
  by pat_completeness auto
termination
proof (relation "measure (\<lambda>(s, m). length s)", goal_cases)
  case (2 s m c md r)
  have "length (dropWhile is_blank (tl r)) \<le> length (tl r)" by (rule length_dropWhile_le)
  moreover have "length r \<le> length s"
    using 2(6) length_dropWhile_le [of is_blank "drop (length c) s"] by simp
  moreover have "length (tl r) < length r" using 2(7) by (cases r) simp_all
  ultimately show ?case by simp
qed simp

declare modifiers_loop.simps [simp del]

definition parseModifiers :: "string \<Rightarrow> (string \<times> nat) option" where
  "parseModifiers x = modifiers_loop (dropWhile is_blank x) 0"

subsection \<open>Lookup in the tables\<close>

lemma tolower_letters:
  "tolower CHR ''A'' = CHR ''a''" "tolower CHR ''B'' = CHR ''b''" "tolower CHR ''C'' = CHR ''c''"
  "tolower CHR ''D'' = CHR ''d''" "tolower CHR ''E'' = CHR ''e''" "tolower CHR ''F'' = CHR ''f''"
  "tolower CHR ''G'' = CHR ''g''" "tolower CHR ''H'' = CHR ''h''" "tolower CHR ''I'' = CHR ''i''"
  "tolower CHR ''J'' = CHR ''j''" "tolower CHR ''K'' = CHR ''k''" "tolower CHR ''L'' = CHR ''l''"
  "tolower CHR ''M'' = CHR ''m''" "tolower CHR ''N'' = CHR ''n''" "tolower CHR ''O'' = CHR ''o''"
  "tolower CHR ''P'' = CHR ''p''" "tolower CHR ''Q'' = CHR ''q''" "tolower CHR ''R'' = CHR ''r''"
  "tolower CHR ''S'' = CHR ''s''" "tolower CHR ''T'' = CHR ''t''" "tolower CHR ''U'' = CHR ''u''"
  "tolower CHR ''V'' = CHR ''v''" "tolower CHR ''W'' = CHR ''w''" "tolower CHR ''X'' = CHR ''x''"
  "tolower CHR ''Y'' = CHR ''y''" "tolower CHR ''Z'' = CHR ''z''" "tolower CHR ''a'' = CHR ''a''"
  "tolower CHR ''b'' = CHR ''b''" "tolower CHR ''c'' = CHR ''c''" "tolower CHR ''d'' = CHR ''d''"
  "tolower CHR ''e'' = CHR ''e''" "tolower CHR ''f'' = CHR ''f''" "tolower CHR ''g'' = CHR ''g''"
  "tolower CHR ''h'' = CHR ''h''" "tolower CHR ''i'' = CHR ''i''" "tolower CHR ''j'' = CHR ''j''"
  "tolower CHR ''k'' = CHR ''k''" "tolower CHR ''l'' = CHR ''l''" "tolower CHR ''m'' = CHR ''m''"
  "tolower CHR ''n'' = CHR ''n''" "tolower CHR ''o'' = CHR ''o''" "tolower CHR ''p'' = CHR ''p''"
  "tolower CHR ''q'' = CHR ''q''" "tolower CHR ''r'' = CHR ''r''" "tolower CHR ''s'' = CHR ''s''"
  "tolower CHR ''t'' = CHR ''t''" "tolower CHR ''u'' = CHR ''u''" "tolower CHR ''v'' = CHR ''v''"
  "tolower CHR ''w'' = CHR ''w''" "tolower CHR ''x'' = CHR ''x''" "tolower CHR ''y'' = CHR ''y''"
  "tolower CHR ''z'' = CHR ''z''" "tolower CHR ''0'' = CHR ''0''" "tolower CHR ''1'' = CHR ''1''"
  "tolower CHR ''2'' = CHR ''2''" "tolower CHR ''3'' = CHR ''3''" "tolower CHR ''4'' = CHR ''4''"
  "tolower CHR ''5'' = CHR ''5''" "tolower CHR ''6'' = CHR ''6''" "tolower CHR ''7'' = CHR ''7''"
  "tolower CHR ''8'' = CHR ''8''" "tolower CHR ''9'' = CHR ''9''" "tolower CHR ''_'' = CHR ''_''"
  by code_simp+

lemma lower_names: "map (map tolower \<circ> fst) kKeyNameMap = [''altgr'', ''alt_l'', ''alt_r'', ''appmail'', ''appmedia'', ''appuser1'', ''appuser2'', ''audiodown'',
    ''audiomute'', ''audionext'', ''audioplay'', ''audioprev'', ''audiostop'', ''audioup'', ''backspace'',
    ''begin'', ''break'', ''cancel'', ''capslock'', ''clear'', ''control_l'', ''control_r'', ''delete'',
    ''down'', ''eisutoggle'', ''eject'', ''end'', ''escape'', ''execute'', ''f1'', ''f2'', ''f3'', ''f4'',
    ''f5'', ''f6'', ''f7'', ''f8'', ''f9'', ''f10'', ''f11'', ''f12'', ''f13'', ''f14'', ''f15'', ''f16'',
    ''f17'', ''f18'', ''f19'', ''f20'', ''f21'', ''f22'', ''f23'', ''f24'', ''f25'', ''f26'', ''f27'', ''f28'',
    ''f29'', ''f30'', ''f31'', ''f32'', ''f33'', ''f34'', ''f35'', ''find'', ''help'', ''henkan'', ''home'',
    ''hyper_l'', ''hyper_r'', ''insert'', ''kana'', ''kp_0'', ''kp_1'', ''kp_2'', ''kp_3'', ''kp_4'', ''kp_5'',
    ''kp_6'', ''kp_7'', ''kp_8'', ''kp_9'', ''kp_add'', ''kp_begin'', ''kp_decimal'', ''kp_delete'',
    ''kp_divide'', ''kp_down'', ''kp_end'', ''kp_enter'', ''kp_equal'', ''kp_f1'', ''kp_f2'', ''kp_f3'',
    ''kp_f4'', ''kp_home'', ''kp_insert'', ''kp_left'', ''kp_multiply'', ''kp_pagedown'', ''kp_pageup'',
    ''kp_right'', ''kp_separator'', ''kp_space'', ''kp_subtract'', ''kp_tab'', ''kp_up'', ''left'',
    ''lefttab'', ''linefeed'', ''menu'', ''meta_l'', ''meta_r'', ''muhenkan'', ''numlock'', ''pagedown'',
    ''pageup'', ''pause'', ''print'', ''redo'', ''return'', ''right'', ''scrolllock'', ''select'',
    ''shiftlock'', ''shift_l'', ''shift_r'', ''sleep'', ''super_l'', ''super_r'', ''sysreq'', ''tab'',
    ''undo'', ''up'', ''wwwback'', ''wwwfavorites'', ''wwwforward'', ''wwwhome'', ''wwwrefresh'',
    ''wwwsearch'', ''wwwstop'', ''zenkaku'', ''space'', ''exclaim'', ''doublequote'', ''number'', ''dollar'',
    ''percent'', ''ampersand'', ''apostrophe'', ''parenthesisl'', ''parenthesisr'', ''asterisk'', ''plus'',
    ''comma'', ''minus'', ''period'', ''slash'', ''colon'', ''semicolon'', ''less'', ''equal'', ''greater'',
    ''question'', ''at'', ''bracketl'', ''backslash'', ''bracketr'', ''circumflex'', ''underscore'', ''grave'',
    ''bracel'', ''bar'', ''bracer'', ''tilde'', ''copy'', ''cut'', ''open'', ''paste'', ''props'', ''front'']"
  unfolding kKeyNameMap_def by (simp add: tolower_letters)

lemma names_distinct: "distinct (map (map tolower \<circ> fst) kKeyNameMap)" "distinct (map snd kKeyNameMap)"
  unfolding lower_names by simp (simp add: kKeyNameMap_def)

lemma find_unique: "x \<in> set xs \<Longrightarrow> P x \<Longrightarrow> \<forall>y \<in> set xs. P y \<longrightarrow> y = x \<Longrightarrow> List.find P xs = Some x"
proof (induction xs)
  case (Cons a xs)
  show ?case
  proof (cases "P a")
    case True
    then have "a = x" using Cons.prems(3) by simp
    then show ?thesis using Cons.prems(2) by simp
  next
    case False
    then have "x \<in> set xs" using Cons.prems(1,2) by auto
    moreover have "\<forall>y \<in> set xs. P y \<longrightarrow> y = x" using Cons.prems(3) by (meson list.set_intros(2))
    ultimately have "List.find P xs = Some x" using Cons.IH Cons.prems(2) by blast
    then show ?thesis using False by (simp only: find.simps if_False)
  qed
qed simp

lemma key_of_name: "(n, k) \<in> set kKeyNameMap \<Longrightarrow> s_nameToKeyMap n = Some k"
proof -
  assume a: "(n, k) \<in> set kKeyNameMap"
  have i: "inj_on (map tolower \<circ> fst) (set kKeyNameMap)" using names_distinct(1) by (simp only: distinct_map)
  have "List.find (\<lambda>(i, _). caseless_equal i n) (rev kKeyNameMap) = Some (n, k)"
    using a inj_onD [OF i _ _ a] by (intro find_unique) (auto simp: caseless_equal_iff)
  then show ?thesis by (simp add: s_nameToKeyMap_def)
qed

lemma name_of_key: "(n, k) \<in> set kKeyNameMap \<Longrightarrow> s_keyToNameMap k = Some n"
proof -
  assume a: "(n, k) \<in> set kKeyNameMap"
  have i: "inj_on snd (set kKeyNameMap)" using names_distinct(2) by (simp only: distinct_map)
  have "List.find (\<lambda>(_, i). i = k) (rev kKeyNameMap) = Some (n, k)"
    using a inj_onD [OF i _ _ a] by (intro find_unique) auto
  then show ?thesis by (simp add: s_keyToNameMap_def)
qed

lemma name_member: "s_keyToNameMap k = Some n \<Longrightarrow> (n, k) \<in> set kKeyNameMap"
  by (auto simp: s_keyToNameMap_def find_Some_iff) (metis in_set_conv_nth length_rev nth_mem set_rev snd_conv fst_conv surj_pair)

lemma no_such_name: "map tolower x \<notin> set (map (map tolower \<circ> fst) kKeyNameMap) \<Longrightarrow> s_nameToKeyMap x = None"
  by (auto simp: s_nameToKeyMap_def find_None_iff caseless_equal_iff image_iff split: prod.splits)

text \<open>What the parser sees of a name.\<close>

definition is_word :: "string \<Rightarrow> bool" where
  "is_word n \<longleftrightarrow> n \<noteq> [] \<and> list_all (\<lambda>c. c \<notin> {CHR '' '', CHR 0x09, CHR ''+'', CHR '')''}) n"

lemma names_lexical:
  "list_all (\<lambda>(n, k). is_word n \<and> 2 \<le> length n) kKeyNameMap"
  unfolding kKeyNameMap_def by (simp add: is_word_def)

lemma lower_names_lexical:
  "list_all (\<lambda>n. 2 \<le> length n \<and> hd n \<noteq> CHR 0x5C) (map (map tolower \<circ> fst) kKeyNameMap)"
  "list_all (\<lambda>n. n = ''altgr'' \<or> n \<notin> {''alt'', ''control'', ''meta'', ''shift'', ''super''}) (map (map tolower \<circ> fst) kKeyNameMap)"
  unfolding lower_names by simp_all

lemma modifier_iff: "s_nameToModifierMap x = None \<longleftrightarrow> map tolower x \<notin> {''alt'', ''altgr'', ''control'', ''meta'', ''shift'', ''super''}"
  by (auto simp: s_nameToModifierMap_def kModifierNameMap_def caseless_equal_iff tolower_letters)

lemma modifiers_of_names:
  "s_nameToModifierMap ''Shift'' = Some (2 ^ 0)" "s_nameToModifierMap ''Control'' = Some (2 ^ 1)"
  "s_nameToModifierMap ''Alt'' = Some (2 ^ 2)" "s_nameToModifierMap ''Meta'' = Some (2 ^ 3)"
  "s_nameToModifierMap ''Super'' = Some (2 ^ 4)" "s_nameToModifierMap ''AltGr'' = Some (2 ^ 5)"
  by (simp_all add: s_nameToModifierMap_def kModifierNameMap_def caseless_equal_iff tolower_letters)

lemma mod_bits: "[0..<kKeyModifierNumBits] = [0, 1, 2, 3, 4, 5, 6, 7, 8, 9, 10, 11, 12, 13, 14, 15]"
  by (simp add: kKeyModifierNumBits_def upt_rec)

text \<open>The names and bits of the modifiers of a mask, in the order in which they are printed.\<close>

definition mods_of :: "nat \<Rightarrow> (string \<times> nat) list" where
  "mods_of m = map (\<lambda>(n, i). (n, 2 ^ i)) (filter (\<lambda>(n, i). bit m i)
     [(''Shift'', 0), (''Control'', 1), (''Alt'', 2), (''Meta'', 3), (''Super'', 4), (''AltGr'', 5)])"

lemma format_modifiers_mods: "format_modifiers m = concat (map (\<lambda>(n, v). n @ ''+'') (mods_of m))"
  unfolding format_modifiers_def mod_bits mods_of_def by (simp add: s_modifierToNameMap_def kModifierNameMap_def)

subsection \<open>What is printed reads back\<close>

lemma component_word:
  assumes "is_word n" "rest = [] \<or> hd rest \<in> {CHR '' '', CHR 0x09, CHR ''+'', CHR '')''}"
  shows "component (n @ rest) = n"
proof -
  have "\<forall>x \<in> set n. x \<notin> {CHR '' '', CHR 0x09, CHR ''+'', CHR '')''}" using assms(1) by (simp add: is_word_def list_all_iff)
  then show ?thesis using assms(2) by (cases rest) (simp_all add: component_def takeWhile_append2)
qed

lemma word_start: "is_word n \<Longrightarrow> \<exists>c n'. n = c # n' \<and> \<not> is_blank c"
  by (cases n) (auto simp: is_word_def is_blank_def)

lemma loop_modifier:
  assumes "is_word n" "s_nameToModifierMap n = Some v" "m AND v = 0"
  shows "modifiers_loop (n @ ''+'' @ rest) m = modifiers_loop (dropWhile is_blank rest) (m OR v)"
    "modifiers_loop n m = Some ([], m OR v)"
proof -
  have n: "n \<noteq> []" using assms(1) by (simp add: is_word_def)
  show "modifiers_loop (n @ ''+'' @ rest) m = modifiers_loop (dropWhile is_blank rest) (m OR v)"
    using component_word [OF assms(1), of "''+'' @ rest"] assms(2,3) n
    by (subst modifiers_loop.simps) (simp add: Let_def is_blank_def)
  show "modifiers_loop n m = Some ([], m OR v)"
    using component_word [OF assms(1), of "[]"] assms(2,3) n by (subst modifiers_loop.simps) (simp add: Let_def)
qed

lemma and_or_zero: "m AND w = 0 \<Longrightarrow> v AND w = 0 \<Longrightarrow> (m OR v) AND w = (0 :: nat)"
  by (simp add: bit_eq_iff bit_simps) blast

lemma mods_start:
  assumes "\<forall>(n, v) \<in> set ms. is_word n" "dropWhile is_blank rest = rest"
  shows "dropWhile is_blank (concat (map (\<lambda>(n, v). n @ ''+'') ms) @ rest) = concat (map (\<lambda>(n, v). n @ ''+'') ms) @ rest"
proof (cases ms)
  case (Cons b bs)
  obtain k w where b: "b = (k, w)" by force
  then obtain c k' where "k = c # k'" "\<not> is_blank c" using assms(1) Cons word_start [of k] by auto
  then show ?thesis using Cons b by simp
qed (use assms(2) in simp)

lemma loop_modifiers:
  assumes "\<forall>(n, v) \<in> set ms. is_word n \<and> s_nameToModifierMap n = Some v \<and> m AND v = 0"
    "sorted_wrt (\<lambda>(_, v) (_, w). v AND w = 0) ms" "dropWhile is_blank rest = rest"
  shows "modifiers_loop (concat (map (\<lambda>(n, v). n @ ''+'') ms) @ rest) m = modifiers_loop rest (foldl (\<lambda>m (n, v). m OR v) m ms)"
  using assms
proof (induction ms arbitrary: m)
  case (Cons a ms)
  obtain n v where a: "a = (n, v)" by force
  let ?tail = "concat (map (\<lambda>(n, v). n @ ''+'') ms) @ rest"
  have "dropWhile is_blank ?tail = ?tail"
    using Cons.prems(1,3) by (intro mods_start) auto
  moreover have "modifiers_loop (n @ ''+'' @ ?tail) m = modifiers_loop (dropWhile is_blank ?tail) (m OR v)"
    using Cons.prems(1) a by (intro loop_modifier) auto
  moreover have "\<forall>(k, w) \<in> set ms. is_word k \<and> s_nameToModifierMap k = Some w \<and> (m OR v) AND w = 0"
    using Cons.prems(1,2) a by (auto dest!: bspec intro!: and_or_zero)
  ultimately show ?case using Cons.IH [of "m OR v"] Cons.prems(2,3) a by simp
qed simp

lemma mods_facts:
  "\<forall>(n, v) \<in> set (mods_of m). is_word n \<and> s_nameToModifierMap n = Some v \<and> 0 AND v = 0"
  "sorted_wrt (\<lambda>(_, v) (_, w). v AND w = 0) (mods_of m)"
  by (auto simp: mods_of_def modifiers_of_names is_word_def sorted_wrt_map)

lemma mods_value: "m < 64 \<Longrightarrow> foldl (\<lambda>m (n, v). m OR v) 0 (mods_of m) = m"
proof -
  have "list_all (\<lambda>m. foldl (\<lambda>m (n, v). m OR v) 0 (mods_of m) = m) [0..<64]" by code_simp
  then show "m < 64 \<Longrightarrow> ?thesis" by (simp add: list_all_iff)
qed

text \<open>The text of a key on its own.\<close>

definition key_text :: "nat \<Rightarrow> string" where
  "key_text key = (case s_keyToNameMap key of
     Some n \<Rightarrow> n
   | None \<Rightarrow> if 33 \<le> key \<and> key < 127 then [char_of key]
            else CHR 0x5C # CHR ''u'' # pad_left 4 (CHR ''0'') (hex_string key))"

lemma parse_format_key:
  assumes "m < 64" "key \<noteq> 0" "is_word (key_text key)" "s_nameToModifierMap (key_text key) = None"
  shows "parseModifiers (formatKey key m) = Some (trim (key_text key), m)"
proof -
  let ?t = "key_text key"
  obtain c t' where t: "?t = c # t'" "\<not> is_blank c" using word_start [OF assms(3)] by blast
  have f: "formatKey key m = concat (map (\<lambda>(n, v). n @ ''+'') (mods_of m)) @ ?t"
    using assms(2) by (simp add: formatKey_def format_modifiers_mods key_text_def)
  have "modifiers_loop (formatKey key m) 0 = modifiers_loop ?t m"
    using loop_modifiers [OF mods_facts [of m], of ?t] mods_value [OF assms(1)] f t by simp
  moreover have "dropWhile is_blank (formatKey key m) = formatKey key m"
    unfolding f using mods_facts(1) [of m] t by (intro mods_start) auto
  moreover have "modifiers_loop ?t m = Some (trim ?t, m)"
    using component_word [OF assms(3), of "[]"] t assms(4) by (subst modifiers_loop.simps) (simp add: Let_def)
  ultimately show ?thesis by (simp add: parseModifiers_def)
qed

lemma no_blank_drop: "\<forall>c \<in> set s. \<not> is_blank c \<Longrightarrow> dropWhile is_blank s = s"
  by (cases s) auto

lemma no_blank_trim: "list_all (\<lambda>c. \<not> is_blank c) s \<Longrightarrow> trim s = s"
  using no_blank_drop [of s] no_blank_drop [of "rev s"] by (simp add: trim_def list_all_iff)

lemma word_trim: "is_word n \<Longrightarrow> trim n = n"
  by (rule no_blank_trim) (auto simp: is_word_def is_blank_def list_all_iff)

lemma hex_digit_facts: "n < 16 \<Longrightarrow> is_hex (hex_digit n) \<and> hex_digit n \<notin> {CHR ''x'', CHR ''X'', CHR ''-'', CHR ''+'', CHR '')'', CHR '' '', CHR 0x09} \<and>
    \<not> is_space (hex_digit n)"
proof -
  have "list_all (\<lambda>n. is_hex (hex_digit n) \<and> hex_digit n \<notin> {CHR ''x'', CHR ''X'', CHR ''-'', CHR ''+'', CHR '')'', CHR '' '', CHR 0x09} \<and>
    \<not> is_space (hex_digit n)) [0..<16]" by code_simp
  then show "n < 16 \<Longrightarrow> ?thesis" by (simp add: list_all_iff)
qed

lemma hex_string_facts:
  "hex_value (hex_string n) = int n \<and> (\<forall>c \<in> set (hex_string n). \<exists>d < 16. c = hex_digit d) \<and> hex_string n \<noteq> [] \<and>
    (n < 16 ^ Suc k \<longrightarrow> length (hex_string n) \<le> Suc k)"
proof (induction n arbitrary: k rule: less_induct)
  case (less n)
  show ?case
  proof (cases "n < 16")
    case True
    then show ?thesis by (auto simp: hex_string.simps hex_value_def hex_digit_number)
  next
    case False
    then have d: "n div 16 < n" by simp
    have "n < 16 ^ Suc k \<longrightarrow> length (hex_string (n div 16)) \<le> k"
    proof (cases k)
      case (Suc k')
      with less.IH [OF d, of k'] show ?thesis by (auto simp: less_mult_imp_div_less)
    qed (use False in simp)
    moreover have "hex_string n = hex_string (n div 16) @ [hex_digit (n mod 16)]" using False by (subst hex_string.simps) simp
    moreover have "int (n div 16) * 16 + int (n mod 16) = int n" by presburger
    moreover have "\<exists>d < 16. hex_digit (n mod 16) = hex_digit d" by (rule exI [of _ "n mod 16"]) simp
    ultimately show ?thesis using less.IH [OF d, of k] by (simp add: hex_value_def hex_digit_number)
  qed
qed

lemma padded_hex:
  assumes "n < 2 ^ 16"
  shows "length (pad_left 4 (CHR ''0'') (hex_string n)) = 4 \<and> (\<forall>c \<in> set (pad_left 4 (CHR ''0'') (hex_string n)). \<exists>d < 16. c = hex_digit d) \<and>
    hex_value (pad_left 4 (CHR ''0'') (hex_string n)) = int n"
proof -
  have z: "hex_value (replicate k (CHR ''0'') @ s) = hex_value s" for k s
    by (induction k) (simp_all add: hex_value_def hex_to_number_def)
  have "CHR ''0'' = hex_digit 0" by code_simp
  then have "\<exists>d < 16. CHR ''0'' = hex_digit d" by (intro exI [of _ 0]) simp
  then show ?thesis using hex_string_facts [of n 3] assms z by (auto simp: pad_left_def)
qed

lemma padded_hex_read:
  assumes "n < 2 ^ 16"
  shows "strtol16 (pad_left 4 (CHR ''0'') (hex_string n)) = (int n, [])"
proof -
  obtain a b c d where x: "pad_left 4 (CHR ''0'') (hex_string n) = [a, b, c, d]"
    using padded_hex [OF assms] by (auto simp: length_Suc_conv numeral_eq_Suc)
  have "\<forall>y \<in> {a, b, c, d}. is_hex y \<and> y \<notin> {CHR ''x'', CHR ''X'', CHR ''-'', CHR ''+''} \<and> \<not> is_space y"
    using padded_hex [OF assms] hex_digit_facts unfolding x by fastforce
  then have "is_hex a" "is_hex b" "is_hex c" "is_hex d" "b \<noteq> CHR ''x''" "b \<noteq> CHR ''X''" "a \<noteq> CHR ''-''" "a \<noteq> CHR ''+''" "\<not> is_space a"
    by auto
  moreover have "hex_value [a, b, c, d] = int n" using padded_hex [OF assms] x by simp
  ultimately show ?thesis unfolding x by (simp add: strtol16_def)
qed

lemma escape_facts:
  assumes "n < 2 ^ 16"
  defines "t \<equiv> CHR 0x5C # CHR ''u'' # pad_left 4 (CHR ''0'') (hex_string n)"
  shows "is_word t" "s_nameToModifierMap t = None" "s_nameToKeyMap t = None" "parseKey t = Some n"
proof -
  note h = padded_hex [OF assms(1)]
  show "is_word t" using h hex_digit_facts by (fastforce simp: t_def is_word_def list_all_iff)
  have lo: "map tolower t = CHR 0x5C # CHR ''u'' # map tolower (pad_left 4 (CHR ''0'') (hex_string n))"
    by (simp add: t_def tolower_letters) (simp add: tolower_def)
  then show "s_nameToModifierMap t = None" by (simp add: modifier_iff)
  show k: "s_nameToKeyMap t = None"
    using lower_names_lexical(1) lo by (intro no_such_name) (auto simp: list_all_iff)
  show "parseKey t = Some n"
    using k h padded_hex_read [OF assms(1)] assms(1) by (simp add: parseKey_def t_def)
qed

lemma named_facts:
  assumes "(n, k) \<in> set kKeyNameMap" "k \<noteq> 0xEF7E"
  shows "is_word n" "s_nameToModifierMap n = None" "parseKey n = Some k"
proof -
  show "is_word n" using names_lexical assms(1) by (auto simp: list_all_iff)
  have "(''AltGr'', 0xEF7E) \<in> set kKeyNameMap" by (simp add: kKeyNameMap_def)
  then have "map tolower n \<noteq> ''altgr''"
    using assms key_of_name [OF assms(1)] key_of_name [of "''AltGr''" "0xEF7E"]
    by (auto simp: s_nameToKeyMap_def caseless_equal_iff tolower_letters)
  then show "s_nameToModifierMap n = None"
    using lower_names_lexical(2) assms(1) by (auto simp: modifier_iff list_all_iff)
  show "parseKey n = Some k" using key_of_name [OF assms(1)] by (simp add: parseKey_def)
qed

lemma char_facts:
  assumes "s_keyToNameMap k = None" "33 \<le> k" "k < 127"
  shows "is_word [char_of k]" "s_nameToModifierMap [char_of k] = None" "parseKey [char_of k] = Some k"
proof -
  have "(''Plus'', 0x2B) \<in> set kKeyNameMap" "(''ParenthesisR'', 0x29) \<in> set kKeyNameMap" by (simp_all add: kKeyNameMap_def)
  then have k: "k \<noteq> 0x2B" "k \<noteq> 0x29" using assms(1) name_of_key by fastforce+
  have o: "(of_char (char_of k :: char) :: nat) = k" using assms(3) by simp
  then have ne: "(char_of k :: char) \<noteq> c" if "k \<noteq> of_char c" for c using that by metis
  show "is_word [char_of k]"
    using ne [of "CHR '' ''"] ne [of "CHR 0x09"] ne [of "CHR ''+''"] ne [of "CHR '')''"] k assms(2) by (simp add: is_word_def)
  show "s_nameToModifierMap [char_of k] = None" by (simp add: modifier_iff)
  have "s_nameToKeyMap [char_of k] = None"
    using lower_names_lexical(1) by (intro no_such_name) (auto simp: list_all_iff)
  then show "parseKey [char_of k] = Some k" using assms(2,3) o by (simp add: parseKey_def isgraph_def)
qed

lemma key_text_facts:
  assumes "k < 2 ^ 16 \<or> s_keyToNameMap k \<noteq> None" "k \<noteq> 0xEF7E"
  shows "is_word (key_text k)" "s_nameToModifierMap (key_text k) = None" "parseKey (key_text k) = Some k"
proof -
  have "is_word (key_text k) \<and> s_nameToModifierMap (key_text k) = None \<and> parseKey (key_text k) = Some k"
  proof (cases "s_keyToNameMap k")
    case (Some n)
    then have "key_text k = n" by (simp add: key_text_def)
    with named_facts [OF name_member [OF Some] assms(2)] show ?thesis by simp
  next
    case None
    then show ?thesis using assms(1) char_facts [OF None] escape_facts [of k] by (simp add: key_text_def)
  qed
  then show "is_word (key_text k)" "s_nameToModifierMap (key_text k) = None" "parseKey (key_text k) = Some k" by blast+
qed

lemma mods_only:
  assumes "m < 64" "m \<noteq> 0"
  shows "parseModifiers (formatKey 0 m) = Some ([], m)"
proof -
  have "mods_of m \<noteq> []" using mods_value [OF assms(1)] assms(2) by auto
  then obtain ms n v where ms: "mods_of m = ms @ [(n, v)]" by (metis rev_exhaust surj_pair)
  have f: "formatKey 0 m = concat (map (\<lambda>(n, v). n @ ''+'') ms) @ n"
    by (simp add: formatKey_def format_modifiers_mods ms butlast_append)
  have w: "is_word n" "s_nameToModifierMap n = Some v" using mods_facts(1) [of m] ms by auto
  have "foldl (\<lambda>m (n, v). m OR v) 0 ms AND v = 0"
  proof -
    have "\<forall>(k, w) \<in> set ms. w AND v = 0" using mods_facts(2) [of m] ms by (auto simp: sorted_wrt_append)
    then have "a AND v = 0 \<Longrightarrow> foldl (\<lambda>m (n, v). m OR v) a ms AND v = 0" for a
      by (induction ms arbitrary: a) (auto simp: and_or_zero)
    then show ?thesis by simp
  qed
  moreover have "modifiers_loop (formatKey 0 m) 0 = modifiers_loop n (foldl (\<lambda>m (n, v). m OR v) 0 ms)"
    unfolding f using mods_facts [of m] ms word_start [OF w(1)]
    by (intro loop_modifiers) (auto simp: sorted_wrt_append)
  ultimately have "modifiers_loop (formatKey 0 m) 0 = Some ([], m)"
    using loop_modifier(2) [OF w] mods_value [OF assms(1)] ms by simp
  moreover have "dropWhile is_blank (formatKey 0 m) = formatKey 0 m"
    unfolding f using mods_facts(1) [of m] ms word_start [OF w(1)] by (intro mods_start) auto
  ultimately show ?thesis by (simp add: parseModifiers_def)
qed

text \<open>
  C34. Hot keys survive being written and read: the text that \<open>formatKey\<close> makes of a key and modifiers that have
  names (a mask below 64) is read back by \<open>parseModifiers\<close> and \<open>parseKey\<close> as the same key and modifiers, for every key
  that has a name or a code below 65536, except AltGr.
\<close>

theorem key_text_roundtrip:
  assumes "m < 64" "key < 2 ^ 16 \<or> s_keyToNameMap key \<noteq> None" "key \<noteq> 0xEF7E" "key \<noteq> 0 \<or> m \<noteq> 0"
  shows "\<exists>rest. parseModifiers (formatKey key m) = Some (rest, m) \<and> parseKey rest = Some key"
proof (cases "key = 0")
  case True
  have "s_nameToKeyMap [] = None" using lower_names_lexical(1) by (intro no_such_name) (auto simp: list_all_iff)
  then show ?thesis using True assms(1,4) mods_only [of m] by (simp add: parseKey_def)
next
  case False
  note f = key_text_facts [OF assms(2,3)]
  show ?thesis using parse_format_key [OF assms(1) False f(1,2)] word_trim [OF f(1)] f(3) by simp
qed

theorem key_text_roundtrip_witness:
  "\<exists>rest. parseModifiers (formatKey 0xEFBE 3) = Some (rest, 3) \<and> parseKey rest = Some 0xEFBE"
  by (rule key_text_roundtrip) simp_all

text \<open>The key AltGr is printed like the modifier AltGr and reads back as it.\<close>

theorem altgr_key_lost:
  "parseModifiers (formatKey 0xEF7E 0) = Some ([], 0x20) \<and> parseKey [] = Some 0"
proof -
  have "(''AltGr'', 0xEF7E) \<in> set kKeyNameMap" by (simp add: kKeyNameMap_def)
  then have f: "formatKey 0xEF7E 0 = ''AltGr''"
    using name_of_key by (simp add: formatKey_def format_modifiers_mods mods_of_def)
  have "s_nameToKeyMap [] = None" using lower_names_lexical(1) by (intro no_such_name) (auto simp: list_all_iff)
  moreover have "is_word ''AltGr''" by (simp add: is_word_def)
  ultimately show ?thesis unfolding f
    using loop_modifier(2) [of "''AltGr''" "2 ^ 5" 0] modifiers_of_names by (simp add: parseModifiers_def is_blank_def parseKey_def)
qed

end
