(* ===== verification/InputFilter.thy ===== *)
theory InputFilter
  imports KeyNames ServerEvents "HOL-Library.Multiset"
begin

text \<open>
  The hot keys of \<^verbatim>\<open>src/lib/server/InputFilter.cpp\<close>: conditions, actions, rules, and the filter between the
  events of the primary screen and the server. An event is a value of one type for what comes in and for what
  is posted; the calls of the primary screen that register hot keys are a trace of actions, with the ids that
  the screen returns as a parameter. The rules live in a \<^verbatim>\<open>std::vector\<close>, whose capacity is part of the state: growing
  it copies the rules.
\<close>

subsection \<open>Events, conditions, actions\<close>

datatype input_event =
    KeyStateKeyDown key_info
  | KeyStateKeyUp key_info
  | KeyStateKeyRepeat key_info
  | ScreenButtonDown nat nat
  | ScreenButtonUp nat nat
  | HotKeyDown nat
  | HotKeyUp nat
  | ServerConnected string
  | ServerLockCursorToScreen switch_state
  | ServerSwitchToScreen string
  | ServerToggleScreen
  | ServerSwitchInDirection EDirection
  | ServerKeyboardBroadcast switch_state string
  | FakeInputBegin
  | FakeInputEnd

datatype filter_status = kNoMatch | kActivate | kDeactivate

datatype condition =
    KeystrokeCondition nat nat nat
  | MouseButtonCondition nat nat
  | ScreenConnectedCondition string

datatype filter_action =
    LockCursorToScreenAction switch_state
  | SwitchToScreenAction string
  | ToggleScreenAction
  | SwitchInDirectionAction EDirection
  | KeyboardBroadcastAction switch_state string
  | KeystrokeAction key_info bool
  | MouseButtonAction nat nat bool

text \<open>A copy of a condition has no hot key registered.\<close>

fun clone_condition :: "condition \<Rightarrow> condition" where
  "clone_condition (KeystrokeCondition i key m) = KeystrokeCondition 0 key m"
| "clone_condition (MouseButtonCondition b m) = MouseButtonCondition b m"
| "clone_condition (ScreenConnectedCondition scr) = ScreenConnectedCondition scr"

definition KeystrokeCondition_format :: "nat \<Rightarrow> nat \<Rightarrow> string" where
  "KeystrokeCondition_format key m = ''keystroke('' @ formatKey key m @ '')''"

definition MouseButtonCondition_format :: "nat \<Rightarrow> nat \<Rightarrow> string" where
  "MouseButtonCondition_format b m =
     (let key = formatKey 0 m in
      ''mousebutton('' @ (if key \<noteq> [] then key @ ''+'' else key) @ sizeTypeToString b @ '')'')"

definition ScreenConnectedCondition_format :: "string \<Rightarrow> string" where
  "ScreenConnectedCondition_format scr = ''connect('' @ scr @ '')''"

fun format_condition :: "condition \<Rightarrow> string" where
  "format_condition (KeystrokeCondition i key m) = KeystrokeCondition_format key m"
| "format_condition (MouseButtonCondition b m) = MouseButtonCondition_format b m"
| "format_condition (ScreenConnectedCondition scr) = ScreenConnectedCondition_format scr"

definition s_ignoreMask :: nat where
  "s_ignoreMask = 0x20 OR 0x1000 OR 0x2000 OR 0x4000"

text \<open>\<^verbatim>\<open>mask & ~s_ignoreMask\<close> on 32 bits.\<close>

definition effective_mask :: "nat \<Rightarrow> nat" where
  "effective_mask m = m AND (2 ^ 32 - 1 - s_ignoreMask)"

definition KeystrokeCondition_match :: "nat \<Rightarrow> input_event \<Rightarrow> filter_status" where
  "KeystrokeCondition_match i ev =
     (case ev of
        HotKeyDown j \<Rightarrow> if j \<noteq> i then kNoMatch else kActivate
      | HotKeyUp j \<Rightarrow> if j \<noteq> i then kNoMatch else kDeactivate
      | _ \<Rightarrow> kNoMatch)"

definition MouseButtonCondition_match :: "nat \<Rightarrow> nat \<Rightarrow> input_event \<Rightarrow> filter_status" where
  "MouseButtonCondition_match b m ev =
     (case ev of
        ScreenButtonDown c n \<Rightarrow> if c \<noteq> b \<or> effective_mask n \<noteq> m then kNoMatch else kActivate
      | ScreenButtonUp c n \<Rightarrow> if c \<noteq> b \<or> effective_mask n \<noteq> m then kNoMatch else kDeactivate
      | _ \<Rightarrow> kNoMatch)"

definition ScreenConnectedCondition_match :: "string \<Rightarrow> input_event \<Rightarrow> filter_status" where
  "ScreenConnectedCondition_match scr ev =
     (case ev of
        ServerConnected name \<Rightarrow> if scr = name \<or> scr = [] then kActivate else kNoMatch
      | _ \<Rightarrow> kNoMatch)"

fun match_condition :: "condition \<Rightarrow> input_event \<Rightarrow> filter_status" where
  "match_condition (KeystrokeCondition i key m) ev = KeystrokeCondition_match i ev"
| "match_condition (MouseButtonCondition b m) ev = MouseButtonCondition_match b m ev"
| "match_condition (ScreenConnectedCondition scr) ev = ScreenConnectedCondition_match scr ev"

lemmas condition_defs [simp] =
  KeystrokeCondition_match_def MouseButtonCondition_match_def ScreenConnectedCondition_match_def

definition s_mode :: "switch_state \<Rightarrow> string" where
  "s_mode st = (case st of kOff \<Rightarrow> ''off'' | kOn \<Rightarrow> ''on'' | kToggle \<Rightarrow> ''toggle'')"

definition s_names :: "EDirection \<Rightarrow> string" where
  "s_names d = (case d of kNoDirection \<Rightarrow> [] | kLeft \<Rightarrow> ''left'' | kRight \<Rightarrow> ''right'' | kTop \<Rightarrow> ''up'' | kBottom \<Rightarrow> ''down'')"

definition LockCursorToScreenAction_format :: "switch_state \<Rightarrow> string" where
  "LockCursorToScreenAction_format st = ''lockCursorToScreen('' @ s_mode st @ '')''"

definition SwitchToScreenAction_format :: "string \<Rightarrow> string" where
  "SwitchToScreenAction_format scr = ''switchToScreen('' @ scr @ '')''"

definition ToggleScreenAction_format :: string where
  "ToggleScreenAction_format = ''toggleScreen''"

definition SwitchInDirectionAction_format :: "EDirection \<Rightarrow> string" where
  "SwitchInDirectionAction_format d = ''switchInDirection('' @ s_names d @ '')''"

definition KeyboardBroadcastAction_format :: "switch_state \<Rightarrow> string \<Rightarrow> string" where
  "KeyboardBroadcastAction_format st screens =
     (if screens = [] \<or> hd screens = CHR ''*'' then ''keyboardBroadcast('' @ s_mode st @ '')''
      else ''keyboardBroadcast('' @ s_mode st @ '','' @ butlast (tl screens) @ '')'')"

definition KeystrokeAction_formatName :: "bool \<Rightarrow> string" where
  "KeystrokeAction_formatName press = (if press then ''keyDown'' else ''keyUp'')"

definition KeystrokeAction_format :: "key_info \<Rightarrow> bool \<Rightarrow> string" where
  "KeystrokeAction_format info press =
     (let type = KeystrokeAction_formatName press; key = formatKey (m_key info) (m_mask info) in
      if m_screens info = [] then type @ ''('' @ key @ '')''
      else if m_screens info = ''*'' then type @ ''('' @ key @ '',*)''
      else type @ ''('' @ key @ '','' @ m_screens info @ '')'')"

definition MouseButtonAction_formatName :: "bool \<Rightarrow> string" where
  "MouseButtonAction_formatName press = (if press then ''mouseDown'' else ''mouseUp'')"

definition MouseButtonAction_format :: "nat \<Rightarrow> nat \<Rightarrow> bool \<Rightarrow> string" where
  "MouseButtonAction_format b m press =
     (let key = formatKey 0 m in
      MouseButtonAction_formatName press @ ''('' @ key @ (if key = [] then [] else ''+'') @ sizeTypeToString b @ '')'')"

fun format_action :: "filter_action \<Rightarrow> string" where
  "format_action (LockCursorToScreenAction st) = LockCursorToScreenAction_format st"
| "format_action (SwitchToScreenAction scr) = SwitchToScreenAction_format scr"
| "format_action ToggleScreenAction = ToggleScreenAction_format"
| "format_action (SwitchInDirectionAction d) = SwitchInDirectionAction_format d"
| "format_action (KeyboardBroadcastAction st screens) = KeyboardBroadcastAction_format st screens"
| "format_action (KeystrokeAction info press) = KeystrokeAction_format info press"
| "format_action (MouseButtonAction b m press) = MouseButtonAction_format b m press"

definition kKeySetModifiers :: nat where "kKeySetModifiers = 0xEE06"
definition kKeyClearModifiers :: nat where "kKeyClearModifiers = 0xEE07"

text \<open>The events that an action posts, for immediate delivery in this order.\<close>

definition LockCursorToScreenAction_perform :: "switch_state \<Rightarrow> input_event list" where
  "LockCursorToScreenAction_perform st = [ServerLockCursorToScreen st]"

definition SwitchToScreenAction_perform :: "string \<Rightarrow> input_event \<Rightarrow> input_event list" where
  "SwitchToScreenAction_perform scr ev =
     [ServerSwitchToScreen (case ev of ServerConnected name \<Rightarrow> if scr = [] then name else scr | _ \<Rightarrow> scr)]"

definition ToggleScreenAction_perform :: "input_event list" where
  "ToggleScreenAction_perform = [ServerToggleScreen]"

definition SwitchInDirectionAction_perform :: "EDirection \<Rightarrow> input_event list" where
  "SwitchInDirectionAction_perform d = [ServerSwitchInDirection d]"

definition KeyboardBroadcastAction_perform :: "switch_state \<Rightarrow> string \<Rightarrow> input_event list" where
  "KeyboardBroadcastAction_perform st screens = [ServerKeyboardBroadcast st screens]"

definition KeystrokeAction_perform :: "key_info \<Rightarrow> bool \<Rightarrow> input_event list" where
  "KeystrokeAction_perform info press =
     [FakeInputBegin, if press then KeyStateKeyDown info else KeyStateKeyUp info, FakeInputEnd]"

definition MouseButtonAction_perform :: "nat \<Rightarrow> nat \<Rightarrow> bool \<Rightarrow> input_event list" where
  "MouseButtonAction_perform b m press =
     (if m \<noteq> 0 then [KeyStateKeyDown \<lparr>m_key = (if press then kKeySetModifiers else kKeyClearModifiers), m_mask = m,
                                     m_button = 0, m_count = 1, m_screens = []\<rparr>] else []) @
     [if press then ScreenButtonDown b m else ScreenButtonUp b m]"

fun perform :: "filter_action \<Rightarrow> input_event \<Rightarrow> input_event list" where
  "perform (LockCursorToScreenAction st) ev = LockCursorToScreenAction_perform st"
| "perform (SwitchToScreenAction scr) ev = SwitchToScreenAction_perform scr ev"
| "perform ToggleScreenAction ev = ToggleScreenAction_perform"
| "perform (SwitchInDirectionAction d) ev = SwitchInDirectionAction_perform d"
| "perform (KeyboardBroadcastAction st screens) ev = KeyboardBroadcastAction_perform st screens"
| "perform (KeystrokeAction info press) ev = KeystrokeAction_perform info press"
| "perform (MouseButtonAction b m press) ev = MouseButtonAction_perform b m press"

subsection \<open>Rules\<close>

record rule =
  r_condition :: "condition option"
  r_activateActions :: "filter_action list"
  r_deactivateActions :: "filter_action list"

definition Rule_new :: "condition option \<Rightarrow> rule" where
  "Rule_new c = \<lparr>r_condition = c, r_activateActions = [], r_deactivateActions = []\<rparr>"

definition rule_copy :: "rule \<Rightarrow> rule" where
  "rule_copy r = r\<lparr>r_condition := map_option clone_condition (r_condition r)\<rparr>"

definition setCondition :: "condition option \<Rightarrow> rule \<Rightarrow> rule" where
  "setCondition c r = r\<lparr>r_condition := c\<rparr>"

definition adoptAction :: "filter_action option \<Rightarrow> bool \<Rightarrow> rule \<Rightarrow> rule" where
  "adoptAction act onActivation r =
     (case act of
        None \<Rightarrow> r
      | Some a \<Rightarrow>
          if onActivation then r\<lparr>r_activateActions := r_activateActions r @ [a]\<rparr>
          else r\<lparr>r_deactivateActions := r_deactivateActions r @ [a]\<rparr>)"

text \<open>An index outside of the list is undefined behaviour: \<open>None\<close>.\<close>

definition remove_at :: "nat \<Rightarrow> 'a list \<Rightarrow> 'a list option" where
  "remove_at i xs = (if i < length xs then Some (take i xs @ drop (Suc i) xs) else None)"

definition removeAction :: "bool \<Rightarrow> nat \<Rightarrow> rule \<Rightarrow> rule option" where
  "removeAction onActivation i r =
     (if onActivation then map_option (\<lambda>xs. r\<lparr>r_activateActions := xs\<rparr>) (remove_at i (r_activateActions r))
      else map_option (\<lambda>xs. r\<lparr>r_deactivateActions := xs\<rparr>) (remove_at i (r_deactivateActions r)))"

definition replaceAction :: "filter_action option \<Rightarrow> bool \<Rightarrow> nat \<Rightarrow> rule \<Rightarrow> rule option" where
  "replaceAction adopted onActivation i r =
     (case adopted of
        None \<Rightarrow> removeAction onActivation i r
      | Some a \<Rightarrow>
          if onActivation then
            (if i < length (r_activateActions r) then Some (r\<lparr>r_activateActions := (r_activateActions r)[i := a]\<rparr>) else None)
          else
            (if i < length (r_deactivateActions r) then Some (r\<lparr>r_deactivateActions := (r_deactivateActions r)[i := a]\<rparr>) else None))"

definition getNumActions :: "bool \<Rightarrow> rule \<Rightarrow> nat" where
  "getNumActions onActivation r = length (if onActivation then r_activateActions r else r_deactivateActions r)"

definition getAction :: "bool \<Rightarrow> nat \<Rightarrow> rule \<Rightarrow> filter_action option" where
  "getAction onActivation i r =
     (let xs = (if onActivation then r_activateActions r else r_deactivateActions r) in if i < length xs then Some (xs ! i) else None)"

fun comma_list :: "string list \<Rightarrow> string" where
  "comma_list [] = []"
| "comma_list [x] = x"
| "comma_list (x # y # xs) = x @ '', '' @ comma_list (y # xs)"

definition format_rule :: "rule \<Rightarrow> string" where
  "format_rule r =
     (case r_condition r of
        None \<Rightarrow> []
      | Some c \<Rightarrow>
          format_condition c @ '' = '' @ comma_list (map format_action (r_activateActions r)) @
          (if r_deactivateActions r \<noteq> [] then ''; '' @ comma_list (map format_action (r_deactivateActions r)) else []))"

text \<open>\<open>None\<close> is an event that the rule does not handle.\<close>

definition rule_handle_event :: "rule \<Rightarrow> input_event \<Rightarrow> input_event list option" where
  "rule_handle_event r ev =
     (case r_condition r of
        None \<Rightarrow> None
      | Some c \<Rightarrow>
          (case match_condition c ev of
             kNoMatch \<Rightarrow> None
           | kActivate \<Rightarrow> Some (concat (map (\<lambda>a. perform a ev) (r_activateActions r)))
           | kDeactivate \<Rightarrow> Some (concat (map (\<lambda>a. perform a ev) (r_deactivateActions r)))))"

definition format_rules :: "rule list \<Rightarrow> string \<Rightarrow> string" where
  "format_rules rules line_prefix = concat (map (\<lambda>r. line_prefix @ format_rule r @ [CHR 0x0A]) rules)"

definition are_rules_equal :: "rule list \<Rightarrow> rule list \<Rightarrow> bool" where
  "are_rules_equal rules1 rules2 \<longleftrightarrow>
     length rules1 = length rules2 \<and> sort (map format_rule rules1) = sort (map format_rule rules2)"

subsection \<open>The filter\<close>

datatype filter_call =
    RegisterHotKey nat nat nat nat
  | UnregisterHotKey nat nat
  | AddFilterHandlers nat
  | RemoveFilterHandlers nat

record input_filter =
  f_rules :: "rule list"
  f_capacity :: nat
  f_primaryClient :: "nat option"
  f_trace :: "filter_call list"

text \<open>The id that the screen of a client returns for a hot key, given the calls made so far.\<close>

type_synonym registrar = "filter_call list \<Rightarrow> nat \<Rightarrow> nat \<Rightarrow> nat"

fun enable_rule :: "registrar \<Rightarrow> nat \<Rightarrow> rule \<Rightarrow> filter_call list \<Rightarrow> rule \<times> filter_call list" where
  "enable_rule reg client r tr =
     (case r_condition r of
        Some (KeystrokeCondition i key m) \<Rightarrow>
          (let j = reg tr key m in (r\<lparr>r_condition := Some (KeystrokeCondition j key m)\<rparr>, tr @ [RegisterHotKey client key m j]))
      | _ \<Rightarrow> (r, tr))"

fun disable_rule :: "nat \<Rightarrow> rule \<Rightarrow> filter_call list \<Rightarrow> rule \<times> filter_call list" where
  "disable_rule client r tr =
     (case r_condition r of
        Some (KeystrokeCondition i key m) \<Rightarrow>
          (r\<lparr>r_condition := Some (KeystrokeCondition 0 key m)\<rparr>, tr @ [UnregisterHotKey client i])
      | _ \<Rightarrow> (r, tr))"

fun for_rules :: "(rule \<Rightarrow> filter_call list \<Rightarrow> rule \<times> filter_call list) \<Rightarrow> rule list \<Rightarrow> filter_call list \<Rightarrow> rule list \<times> filter_call list" where
  "for_rules f [] tr = ([], tr)"
| "for_rules f (r # rs) tr = (let (r', tr') = f r tr; (rs', tr'') = for_rules f rs tr' in (r' # rs', tr''))"

definition InputFilter_new :: input_filter where
  "InputFilter_new = \<lparr>f_rules = [], f_capacity = 0, f_primaryClient = None, f_trace = []\<rparr>"

definition setPrimaryClient :: "registrar \<Rightarrow> nat option \<Rightarrow> input_filter \<Rightarrow> input_filter" where
  "setPrimaryClient reg client f =
     (if f_primaryClient f = client then f
      else
        let f = (case f_primaryClient f of
                   None \<Rightarrow> f
                 | Some old \<Rightarrow>
                     (let (rs, tr) = for_rules (disable_rule old) (f_rules f) (f_trace f)
                      in f\<lparr>f_rules := rs, f_trace := tr @ [RemoveFilterHandlers old]\<rparr>));
            f = f\<lparr>f_primaryClient := client\<rparr>
        in case client of
             None \<Rightarrow> f
           | Some c \<Rightarrow>
               (let (rs, tr) = for_rules (enable_rule reg c) (f_rules f) (f_trace f @ [AddFilterHandlers c])
                in f\<lparr>f_rules := rs, f_trace := tr\<rparr>))"

text \<open>
  \<open>push_back\<close> copies the rule into the vector. At the end of its capacity the vector moves to a larger block, and
  because a rule has a copy constructor and none that moves, all rules are copied. \<open>grow\<close> is the new capacity.
\<close>

definition push_back :: "(nat \<Rightarrow> nat) \<Rightarrow> rule \<Rightarrow> input_filter \<Rightarrow> input_filter" where
  "push_back grow r f =
     (if length (f_rules f) < f_capacity f then f\<lparr>f_rules := f_rules f @ [rule_copy r]\<rparr>
      else f\<lparr>f_rules := map rule_copy (f_rules f) @ [rule_copy r], f_capacity := grow (f_capacity f)\<rparr>)"

definition addFilterRule :: "(nat \<Rightarrow> nat) \<Rightarrow> registrar \<Rightarrow> rule \<Rightarrow> input_filter \<Rightarrow> input_filter" where
  "addFilterRule grow reg r f =
     (let f = push_back grow r f in
      case f_primaryClient f of
        None \<Rightarrow> f
      | Some c \<Rightarrow>
          (let (r', tr) = enable_rule reg c (last (f_rules f)) (f_trace f)
           in f\<lparr>f_rules := butlast (f_rules f) @ [r'], f_trace := tr\<rparr>))"

definition add_rules :: "(nat \<Rightarrow> nat) \<Rightarrow> registrar \<Rightarrow> rule list \<Rightarrow> input_filter \<Rightarrow> input_filter" where
  "add_rules grow reg rules f = fold (addFilterRule grow reg) rules f"

definition InputFilter_copy :: "registrar \<Rightarrow> input_filter \<Rightarrow> input_filter" where
  "InputFilter_copy reg x =
     setPrimaryClient reg (f_primaryClient x)
       \<lparr>f_rules = map rule_copy (f_rules x), f_capacity = length (f_rules x), f_primaryClient = None, f_trace = []\<rparr>"

definition InputFilter_assign :: "registrar \<Rightarrow> input_filter \<Rightarrow> input_filter \<Rightarrow> input_filter" where
  "InputFilter_assign reg x f =
     (let oldClient = f_primaryClient f;
          f = setPrimaryClient reg None f;
          f = f\<lparr>f_rules := map rule_copy (f_rules x), f_capacity := max (f_capacity f) (length (f_rules x))\<rparr>
      in setPrimaryClient reg oldClient f)"

definition InputFilter_delete :: "registrar \<Rightarrow> input_filter \<Rightarrow> input_filter" where
  "InputFilter_delete reg f = setPrimaryClient reg None f"

fun first_handler :: "rule list \<Rightarrow> input_event \<Rightarrow> input_event list" where
  "first_handler [] ev = [ev]"
| "first_handler (r # rs) ev = (case rule_handle_event r ev of Some evs \<Rightarrow> evs | None \<Rightarrow> first_handler rs ev)"

definition filter_event :: "input_filter \<Rightarrow> input_event \<Rightarrow> input_event list" where
  "filter_event f ev = first_handler (f_rules f) ev"

text \<open>What \<^verbatim>\<open>Server::setConfig\<close> adds when the configuration has no action that locks the cursor.\<close>

definition kKeyScrollLock :: nat where "kKeyScrollLock = 0xEF14"

definition lock_rule :: rule where
  "lock_rule = adoptAction (Some (LockCursorToScreenAction kToggle)) True (Rule_new (Some (KeystrokeCondition 0 kKeyScrollLock 0)))"

subsection \<open>Comparing rules\<close>

lemma sort_mset: "sort xs = sort ys \<longleftrightarrow> mset xs = mset (ys :: 'a :: linorder list)"
  by (metis mset_sort properties_for_sort sorted_sort)

text \<open>
  Rules are compared as multisets: \<open>are_rules_equal\<close> holds exactly if both lists give the same texts the same
  number of times, in whatever order, so that it is an equivalence and ignores the order of the rules.
\<close>

theorem rules_compared_as_multisets:
  "are_rules_equal rules1 rules2 \<longleftrightarrow> mset (map format_rule rules1) = mset (map format_rule rules2)"
proof -
  have "mset (map format_rule rules1) = mset (map format_rule rules2) \<Longrightarrow> length rules1 = length rules2"
    by (metis length_map size_mset)
  then show ?thesis unfolding are_rules_equal_def by (metis sort_mset)
qed

subsection \<open>Registered hot keys\<close>

text \<open>The hot keys that are registered after a trace, each with the client that it is registered with.\<close>

fun after_call :: "filter_call \<Rightarrow> (nat \<times> nat) multiset \<Rightarrow> (nat \<times> nat) multiset" where
  "after_call (RegisterHotKey c key m i) A = add_mset (c, i) A"
| "after_call (UnregisterHotKey c i) A = A - {#(c, i)#}"
| "after_call (AddFilterHandlers c) A = A"
| "after_call (RemoveFilterHandlers c) A = A"

definition registered :: "filter_call list \<Rightarrow> (nat \<times> nat) multiset" where
  "registered tr = fold after_call tr {#}"

fun rule_id :: "rule \<Rightarrow> nat list" where
  "rule_id r = (case r_condition r of Some (KeystrokeCondition i key m) \<Rightarrow> [i] | _ \<Rightarrow> [])"

definition ids :: "rule list \<Rightarrow> nat multiset" where
  "ids rs = mset (concat (map rule_id rs))"

definition hot_keys :: "input_filter \<Rightarrow> (nat \<times> nat) multiset" where
  "hot_keys f = (case f_primaryClient f of None \<Rightarrow> {#} | Some c \<Rightarrow> image_mset (Pair c) (ids (f_rules f)))"

lemma registered_simps [simp]:
  "registered [] = {#}"
  "registered (tr @ [x]) = after_call x (registered tr)"
  by (simp_all add: registered_def)

lemma ids_simps [simp]: "ids [] = {#}" "ids (r # rs) = mset (rule_id r) + ids rs" "ids (rs @ rs') = ids rs + ids rs'"
  by (simp_all add: ids_def)

lemma enable_registers:
  "for_rules (enable_rule reg c) rs tr = (rs', tr') \<Longrightarrow> registered tr' = registered tr + image_mset (Pair c) (ids rs')"
proof (induction rs arbitrary: tr rs' tr')
  case (Cons r rs)
  obtain r1 tr1 where 1: "enable_rule reg c r tr = (r1, tr1)" by force
  obtain rs2 tr2 where 2: "for_rules (enable_rule reg c) rs tr1 = (rs2, tr2)" by force
  have "registered tr1 = registered tr + image_mset (Pair c) (mset (rule_id r1))"
    using 1 by (auto simp: Let_def split: option.splits condition.splits)
  then show ?case using Cons.IH [OF 2] Cons.prems 1 2 by (auto simp: Let_def simp del: enable_rule.simps rule_id.simps)
qed simp

lemma disable_unregisters:
  "for_rules (disable_rule c) rs tr = (rs', tr') \<Longrightarrow> image_mset (Pair c) (ids rs) + A = registered tr \<Longrightarrow> registered tr' = A"
proof (induction rs arbitrary: tr rs' tr')
  case (Cons r rs)
  obtain r1 tr1 where 1: "disable_rule c r tr = (r1, tr1)" by force
  obtain rs2 tr2 where 2: "for_rules (disable_rule c) rs tr1 = (rs2, tr2)" by force
  let ?X = "image_mset (Pair c) (mset (rule_id r))" and ?B = "image_mset (Pair c) (ids rs) + A"
  have tr: "registered tr = ?X + ?B" using Cons.prems(2) by (simp add: ac_simps del: rule_id.simps)
  have "registered tr1 = registered tr - ?X"
    using 1 by (auto split: option.splits condition.splits)
  then have "?B = registered tr1" by (simp only: tr add_diff_cancel_left')
  then show ?case using Cons.IH [OF 2] Cons.prems(1) 1 2 by (simp add: Let_def del: disable_rule.simps rule_id.simps)
qed simp

definition balanced :: "input_filter \<Rightarrow> bool" where
  "balanced f \<longleftrightarrow> registered (f_trace f) = hot_keys f"

lemma set_client_balanced: "balanced f \<Longrightarrow> balanced (setPrimaryClient reg client f)"
proof -
  assume b: "balanced f"
  define g where "g = (case f_primaryClient f of
                   None \<Rightarrow> f
                 | Some old \<Rightarrow>
                     (let (rs, tr) = for_rules (disable_rule old) (f_rules f) (f_trace f)
                      in f\<lparr>f_rules := rs, f_trace := tr @ [RemoveFilterHandlers old]\<rparr>))"
  have g: "registered (f_trace g) = {#}"
    using b disable_unregisters [of _ "f_rules f" "f_trace f" _ _ "{#}"]
    by (auto simp: g_def balanced_def hot_keys_def split: option.splits prod.splits)
  have "balanced (case client of None \<Rightarrow> g\<lparr>f_primaryClient := None\<rparr>
      | Some c \<Rightarrow> (let (rs, tr) = for_rules (enable_rule reg c) (f_rules g) (f_trace g @ [AddFilterHandlers c])
                   in g\<lparr>f_primaryClient := Some c, f_rules := rs, f_trace := tr\<rparr>))"
    using g by (auto simp: balanced_def hot_keys_def dest!: enable_registers split: option.splits prod.splits)
  moreover have "setPrimaryClient reg client f = (if f_primaryClient f = client then f else
      (case client of None \<Rightarrow> g\<lparr>f_primaryClient := None\<rparr>
      | Some c \<Rightarrow> (let (rs, tr) = for_rules (enable_rule reg c) (f_rules g) (f_trace g @ [AddFilterHandlers c])
                   in g\<lparr>f_primaryClient := Some c, f_rules := rs, f_trace := tr\<rparr>)))"
    unfolding setPrimaryClient_def g_def [symmetric] by (auto simp: Let_def split: option.splits prod.splits)
  ultimately show ?thesis using b by simp
qed

lemma set_client_client: "f_primaryClient (setPrimaryClient reg client f) = client"
  by (auto simp: setPrimaryClient_def Let_def split: option.splits prod.splits)

lemma assign_balanced: "balanced f \<Longrightarrow> balanced (InputFilter_assign reg x f)"
proof -
  assume "balanced f"
  then have "registered (f_trace (setPrimaryClient reg None f)) = {#}"
    using set_client_balanced [of f reg None] set_client_client [of reg None f] by (simp add: balanced_def hot_keys_def)
  then show ?thesis unfolding InputFilter_assign_def Let_def
    by (intro set_client_balanced) (simp add: balanced_def hot_keys_def set_client_client)
qed

lemma add_balanced:
  assumes "balanced f" "f_primaryClient f = None \<or> length (f_rules f) < f_capacity f"
  shows "balanced (addFilterRule grow reg r f)"
proof (cases "f_primaryClient f")
  case None
  then show ?thesis using assms(1) by (simp add: addFilterRule_def push_back_def Let_def balanced_def hot_keys_def)
next
  case (Some c)
  then show ?thesis using assms
    by (auto simp: addFilterRule_def push_back_def Let_def balanced_def hot_keys_def split: option.splits condition.splits)
qed

text \<open>The life of a filter in which no rule is added while a client is set and the vector is full.\<close>

inductive filter_reachable :: "(nat \<Rightarrow> nat) \<Rightarrow> registrar \<Rightarrow> input_filter \<Rightarrow> bool" for grow reg where
  fr_new: "filter_reachable grow reg InputFilter_new"
| fr_copy: "filter_reachable grow reg (InputFilter_copy reg x)"
| fr_client: "filter_reachable grow reg f \<Longrightarrow> filter_reachable grow reg (setPrimaryClient reg client f)"
| fr_assign: "filter_reachable grow reg f \<Longrightarrow> filter_reachable grow reg (InputFilter_assign reg x f)"
| fr_add: "filter_reachable grow reg f \<Longrightarrow> f_primaryClient f = None \<or> length (f_rules f) < f_capacity f \<Longrightarrow>
    filter_reachable grow reg (addFilterRule grow reg r f)"

lemma reachable_balanced: "filter_reachable grow reg f \<Longrightarrow> balanced f"
proof (induction rule: filter_reachable.induct)
  case (fr_copy x)
  show ?case unfolding InputFilter_copy_def by (rule set_client_balanced) (simp add: balanced_def hot_keys_def)
qed (simp_all add: set_client_balanced assign_balanced add_balanced, simp add: balanced_def hot_keys_def InputFilter_new_def)

text \<open>
  C35. While no rule is added to a full vector, the hot keys registered with the screen of the client are exactly
  those of the keystroke rules, each once, and a filter that is deleted or whose client is taken away leaves
  none registered.
\<close>

theorem hot_keys_registered:
  assumes "filter_reachable grow reg f"
  shows "registered (f_trace f) = hot_keys f \<and> registered (f_trace (InputFilter_delete reg f)) = {#}"
  using reachable_balanced [OF assms] set_client_balanced [OF reachable_balanced [OF assms], of reg None]
    set_client_client [of reg None f]
  by (simp add: balanced_def hot_keys_def InputFilter_delete_def)

theorem hot_keys_registered_witness:
  "let f = setPrimaryClient (\<lambda>tr key m. 7) (Some 1) (addFilterRule Suc (\<lambda>tr key m. 7) lock_rule InputFilter_new)
   in registered (f_trace f) = {#(1, 7)#} \<and> registered (f_trace (InputFilter_delete (\<lambda>tr key m. 7) f)) = {#}"
proof -
  let ?reg = "\<lambda>(tr :: filter_call list) (key :: nat) (m :: nat). 7 :: nat"
  let ?f = "setPrimaryClient ?reg (Some 1) (addFilterRule Suc ?reg lock_rule InputFilter_new)"
  have "filter_reachable Suc ?reg ?f"
    by (intro fr_client fr_add fr_new) (simp add: InputFilter_new_def)
  then have "registered (f_trace ?f) = hot_keys ?f \<and> registered (f_trace (InputFilter_delete ?reg ?f)) = {#}"
    by (rule hot_keys_registered)
  moreover have "hot_keys ?f = {#(1, 7)#}"
    by (simp add: hot_keys_def setPrimaryClient_def addFilterRule_def push_back_def InputFilter_new_def lock_rule_def Rule_new_def adoptAction_def
        rule_copy_def)
  ultimately show ?thesis by (simp add: Let_def)
qed

subsection \<open>Adding a rule to a full vector\<close>

definition all_mute :: "nat \<Rightarrow> rule list \<Rightarrow> bool" where
  "all_mute i rs \<longleftrightarrow> (\<forall>r \<in> set rs. i \<notin> set (rule_id r))"

lemma mute_rule: "i \<notin> set (rule_id r) \<Longrightarrow> rule_handle_event r (HotKeyDown i) = None"
proof (cases "r_condition r")
  case (Some x)
  then show "i \<notin> set (rule_id r) \<Longrightarrow> ?thesis" by (cases x) (auto simp: rule_handle_event_def)
qed (simp add: rule_handle_event_def)

lemma mute_passes: "all_mute i rs \<Longrightarrow> first_handler rs (HotKeyDown i) = [HotKeyDown i]"
  by (induction rs) (simp_all add: all_mute_def mute_rule del: rule_id.simps)

lemma copy_id: "set (rule_id (rule_copy r)) \<subseteq> {0}"
proof (cases "r_condition r")
  case (Some x)
  then show ?thesis by (cases x) (simp_all add: rule_copy_def)
qed (simp add: rule_copy_def)

lemma copies_mute: "i \<noteq> 0 \<Longrightarrow> all_mute i (map rule_copy rs)"
  using copy_id by (fastforce simp: all_mute_def simp del: rule_id.simps)

text \<open>
  A rule that is added while a client is set and the vector is full takes the hot keys of all other rules
  away: the screen still has them registered, and the filter no longer knows them, so that the event of a hot key
  passes the filter unhandled. This happens in \<^verbatim>\<open>Server::setConfig\<close>, which adds a rule to the running filter when a
  configuration is loaded again.
\<close>

theorem growing_loses_hot_keys:
  assumes "balanced f" "f_primaryClient f = Some c" "f_capacity f \<le> length (f_rules f)"
    and "(c, i) \<in># hot_keys f" "i \<noteq> 0" "i \<noteq> reg (f_trace f) kKeyScrollLock 0"
  shows "(c, i) \<in># registered (f_trace (addFilterRule grow reg lock_rule f)) \<and>
    filter_event (addFilterRule grow reg lock_rule f) (HotKeyDown i) = [HotKeyDown i]"
proof -
  let ?f = "addFilterRule grow reg lock_rule f"
  let ?new = "lock_rule\<lparr>r_condition := Some (KeystrokeCondition (reg (f_trace f) kKeyScrollLock 0) kKeyScrollLock 0)\<rparr>"
  have eq: "?f = f\<lparr>f_rules := map rule_copy (f_rules f) @ [?new], f_capacity := grow (f_capacity f),
      f_trace := f_trace f @ [RegisterHotKey c kKeyScrollLock 0 (reg (f_trace f) kKeyScrollLock 0)]\<rparr>"
    using assms(2,3) by (simp add: addFilterRule_def push_back_def Let_def lock_rule_def rule_copy_def adoptAction_def Rule_new_def)
  have "all_mute i (f_rules ?f)"
    unfolding eq using copies_mute [OF assms(5), of "f_rules f"] assms(6) by (simp add: all_mute_def ball_Un)
  moreover have "(c, i) \<in># registered (f_trace ?f)" unfolding eq using assms(1,4) by (simp add: balanced_def)
  ultimately show ?thesis by (simp add: filter_event_def mute_passes)
qed

theorem growing_loses_hot_keys_witness:
  "let reg = (\<lambda>tr key m. Suc (length tr)); f = setPrimaryClient reg (Some 1) (addFilterRule Suc reg lock_rule InputFilter_new)
   in (1, 2) \<in># registered (f_trace (addFilterRule Suc reg lock_rule f)) \<and>
      filter_event f (HotKeyDown 2) = [ServerLockCursorToScreen kToggle] \<and>
      filter_event (addFilterRule Suc reg lock_rule f) (HotKeyDown 2) = [HotKeyDown 2]"
proof -
  let ?reg = "\<lambda>(tr :: filter_call list) (key :: nat) (m :: nat). Suc (length tr)"
  let ?f = "setPrimaryClient ?reg (Some 1) (addFilterRule Suc ?reg lock_rule InputFilter_new)"
  have f: "?f = \<lparr>f_rules = [lock_rule\<lparr>r_condition := Some (KeystrokeCondition 2 kKeyScrollLock 0)\<rparr>], f_capacity = 1, f_primaryClient = Some 1,
      f_trace = [AddFilterHandlers 1, RegisterHotKey 1 kKeyScrollLock 0 2]\<rparr>"
    by (simp add: setPrimaryClient_def addFilterRule_def push_back_def InputFilter_new_def lock_rule_def Rule_new_def adoptAction_def rule_copy_def)
  have "balanced ?f" by (intro reachable_balanced [of Suc ?reg] fr_client fr_add fr_new) (simp add: InputFilter_new_def)
  moreover have "f_primaryClient ?f = Some 1" by (rule set_client_client)
  moreover have "f_capacity ?f \<le> length (f_rules ?f)" unfolding f by simp
  moreover have "(1, 2) \<in># hot_keys ?f" unfolding f by (simp add: hot_keys_def)
  moreover have "2 \<noteq> ?reg (f_trace ?f) kKeyScrollLock 0" unfolding f by simp
  ultimately have "(1, 2) \<in># registered (f_trace (addFilterRule Suc ?reg lock_rule ?f)) \<and>
      filter_event (addFilterRule Suc ?reg lock_rule ?f) (HotKeyDown 2) = [HotKeyDown 2]"
    by (intro growing_loses_hot_keys) simp_all
  moreover have "filter_event ?f (HotKeyDown 2) = [ServerLockCursorToScreen kToggle]"
    unfolding f by (simp add: filter_event_def rule_handle_event_def lock_rule_def adoptAction_def Rule_new_def
        LockCursorToScreenAction_perform_def)
  ultimately show ?thesis by (simp only: Let_def simp_thms)
qed

end
