(* ===== verification/NetworkAddress.thy ===== *)
theory NetworkAddress
  imports Strings
begin

text \<open>
  Names of hosts with ports: \<^verbatim>\<open>src/lib/net/NetworkAddress.cpp\<close>. What the operating system resolves a name to is the
  parameter \<open>arch_net\<close>, with addresses of any type; a failed look-up is one of the exceptions of \<^verbatim>\<open>arch/XArch.h\<close>. An
  \<^verbatim>\<open>int\<close> has 32 bits and a \<^verbatim>\<open>long\<close> 64.
\<close>

datatype arch_error =
  XArchNetworkNameUnknown | XArchNetworkNameNoAddress | XArchNetworkNameUnsupported | XArchNetworkName

record 'n arch_net =
  newAnyAddr :: 'n
  nameToAddr :: "string \<Rightarrow> arch_error + 'n"
  setAddrPort :: "'n \<Rightarrow> int \<Rightarrow> 'n"

datatype address_error = kAddressUnknown | kNotFound | kNoAddress | kUnsupported | kBadPort

datatype socket_error = XSocketAddress address_error string int

record 'n net_address =
  na_address :: "'n option"
  na_hostname :: string
  na_port :: int

text \<open>The value of \<^verbatim>\<open>strtol\<close> in base 10, which out of range is the nearest \<^verbatim>\<open>long\<close>.\<close>

definition strtol_value :: "string \<Rightarrow> int" where
  "strtol_value s =
     (case fst (strtol s) of
        Some v \<Rightarrow> v
      | None \<Rightarrow> if hd (dropWhile is_space s) = CHR ''-'' then - (2 ^ 63) else 2 ^ 63 - 1)"

definition to_int32 :: "int \<Rightarrow> int" where
  "to_int32 v = (v + 2 ^ 31) mod 2 ^ 32 - 2 ^ 31"

text \<open>The success, the host and the port; what is not found in the address keeps the values passed in.\<close>

definition parse_address :: "string \<Rightarrow> string \<Rightarrow> int \<Rightarrow> bool \<times> string \<times> int" where
  "parse_address address host port =
     (if address \<noteq> [] \<and> hd address = CHR ''['' then
        (let r = tl address in
         if CHR '']'' \<notin> set r then (False, host, port)
         else let h = takeWhile (\<lambda>c. c \<noteq> CHR '']'') r; rest = tl (dropWhile (\<lambda>c. c \<noteq> CHR '']'') r) in
           if rest = [] then (True, h, port)
           else if hd rest \<noteq> CHR '':'' then (False, h, port)
           else (True, h, to_int32 (strtol_value (tl rest))))
      else
        (let rest = dropWhile (\<lambda>c. c \<noteq> CHR '':'') address in
         if rest \<noteq> [] \<and> CHR '':'' \<notin> set (tl rest)
         then (True, takeWhile (\<lambda>c. c \<noteq> CHR '':'') address, to_int32 (strtol_value (tl rest)))
         else (True, address, port)))"

definition checkPort :: "bool \<Rightarrow> 'n net_address \<Rightarrow> socket_error + 'n net_address" where
  "checkPort allowZeroPort a =
     (if na_port a < (if allowZeroPort then 0 else 1) \<or> na_port a > 65535
      then Inl (XSocketAddress kBadPort (na_hostname a) (na_port a)) else Inr a)"

definition NetworkAddress_new :: "'n net_address" where
  "NetworkAddress_new = \<lparr>na_address = None, na_hostname = [], na_port = 0\<rparr>"

definition NetworkAddress_port :: "'n arch_net \<Rightarrow> int \<Rightarrow> socket_error + 'n net_address" where
  "NetworkAddress_port net port =
     (case checkPort False \<lparr>na_address = None, na_hostname = [], na_port = port\<rparr> of
        Inl e \<Rightarrow> Inl e
      | Inr a \<Rightarrow> Inr (a\<lparr>na_address := Some (setAddrPort net (newAnyAddr net) port)\<rparr>))"

definition NetworkAddress_host :: "string \<Rightarrow> int \<Rightarrow> bool \<Rightarrow> socket_error + 'n net_address" where
  "NetworkAddress_host hostname port allowZeroPort =
     (case parse_address hostname hostname port of
        (ok, h, p) \<Rightarrow>
          if ok then checkPort allowZeroPort \<lparr>na_address = None, na_hostname = h, na_port = p\<rparr>
          else Inl (XSocketAddress kAddressUnknown h p))"

definition forListener :: "string \<Rightarrow> int \<Rightarrow> socket_error + 'n net_address" where
  "forListener hostname port = NetworkAddress_host hostname port True"

definition resolve :: "'n arch_net \<Rightarrow> 'n net_address \<Rightarrow> socket_error + 'n net_address" where
  "resolve net a =
     (case (if na_hostname a = [] then Inr (newAnyAddr net) else nameToAddr net (na_hostname a)) of
        Inr n \<Rightarrow> Inr (a\<lparr>na_address := Some (setAddrPort net n (na_port a))\<rparr>)
      | Inl e \<Rightarrow>
          Inl (XSocketAddress
            (case e of XArchNetworkNameUnknown \<Rightarrow> kNotFound | XArchNetworkNameNoAddress \<Rightarrow> kNoAddress
             | XArchNetworkNameUnsupported \<Rightarrow> kUnsupported | XArchNetworkName \<Rightarrow> kAddressUnknown)
            (na_hostname a) (na_port a)))"

definition isValid :: "'n net_address \<Rightarrow> bool" where
  "isValid a \<longleftrightarrow> na_address a \<noteq> None"

subsection \<open>Hosts and ports\<close>

lemma takeWhile_until: "c \<notin> set h \<Longrightarrow> takeWhile (\<lambda>x. x \<noteq> c) (h @ c # t) = h \<and> dropWhile (\<lambda>x. x \<noteq> c) (h @ c # t) = c # t"
  by (induction h) auto

lemma dropWhile_absent: "c \<notin> set h \<Longrightarrow> dropWhile (\<lambda>x. x \<noteq> c) h = []"
  by (induction h) auto

lemma strtol_decimal:
  assumes "n < 2 ^ 63"
  shows "strtol (sizeTypeToString n) = (Some (int n), [])"
proof -
  have d: "sizeTypeToString n \<noteq> []" "\<forall>c \<in> set (sizeTypeToString n). is_digit c" "decimal_value (sizeTypeToString n) = n"
    using sizeTypeToString_digits [of n] by (auto simp: list_all_iff)
  then obtain c cs where c: "sizeTypeToString n = c # cs" by (cases "sizeTypeToString n") auto
  then have "\<not> is_space c" "c \<noteq> CHR ''-''" "c \<noteq> CHR ''+''" using d(2) digit_not_special by auto
  moreover have "takeWhile is_digit (sizeTypeToString n) = sizeTypeToString n" "dropWhile is_digit (sizeTypeToString n) = []"
    using d(2) by (auto simp: takeWhile_eq_all_conv)
  ultimately show ?thesis using assms c d(3) by (simp add: strtol_def)
qed

lemma strtol_value_decimal: "n < 2 ^ 63 \<Longrightarrow> strtol_value (sizeTypeToString n) = int n"
  by (simp add: strtol_value_def strtol_decimal)

lemma to_int32_id: "- (2 ^ 31) \<le> v \<Longrightarrow> v < 2 ^ 31 \<Longrightarrow> to_int32 v = v"
  by (simp add: to_int32_def)

lemma digits_no_colon: "CHR '':'' \<notin> set (sizeTypeToString n)"
proof -
  have "\<not> is_digit (CHR '':'')" by (simp add: is_digit_def)
  then show ?thesis using sizeTypeToString_digits [of n] by (auto simp: list_all_iff)
qed

text \<open>
  A host with a port is found in what is written for it: \<^verbatim>\<open>host:port\<close> for a name or an IPv4 address,
  \<^verbatim>\<open>[host]:port\<close> for an address with colons, and without a port the host alone or in brackets with the port
  that is the default.
\<close>

theorem address_text_parsed:
  assumes "0 < p" "p \<le> 65535" "0 < dflt" "dflt \<le> 65535" "CHR '']'' \<notin> set h"
  shows "NetworkAddress_host (CHR ''['' # h @ CHR '']'' # CHR '':'' # sizeTypeToString p) (int dflt) z =
      Inr \<lparr>na_address = None, na_hostname = h, na_port = int p\<rparr>"
    and "NetworkAddress_host (CHR ''['' # h @ '']'') (int dflt) z = Inr \<lparr>na_address = None, na_hostname = h, na_port = int dflt\<rparr>"
    and "CHR '':'' \<notin> set h \<Longrightarrow> h = [] \<or> hd h \<noteq> CHR ''['' \<Longrightarrow>
      NetworkAddress_host (h @ CHR '':'' # sizeTypeToString p) (int dflt) z = Inr \<lparr>na_address = None, na_hostname = h, na_port = int p\<rparr>"
    and "CHR '':'' \<notin> set h \<Longrightarrow> h = [] \<or> hd h \<noteq> CHR ''['' \<Longrightarrow>
      NetworkAddress_host h (int dflt) z = Inr \<lparr>na_address = None, na_hostname = h, na_port = int dflt\<rparr>"
proof -
  have v: "to_int32 (strtol_value (sizeTypeToString p)) = int p"
    using assms(2) by (simp add: strtol_value_decimal to_int32_id)
  note t = takeWhile_until [OF assms(5)]
  show "NetworkAddress_host (CHR ''['' # h @ CHR '']'' # CHR '':'' # sizeTypeToString p) (int dflt) z =
      Inr \<lparr>na_address = None, na_hostname = h, na_port = int p\<rparr>"
    using assms(1,2) v t by (simp add: NetworkAddress_host_def parse_address_def checkPort_def)
  show "NetworkAddress_host (CHR ''['' # h @ '']'') (int dflt) z = Inr \<lparr>na_address = None, na_hostname = h, na_port = int dflt\<rparr>"
    using assms(3,4) t by (simp add: NetworkAddress_host_def parse_address_def checkPort_def)
  assume h: "CHR '':'' \<notin> set h" "h = [] \<or> hd h \<noteq> CHR ''[''"
  then have n: "\<not> (h @ s \<noteq> [] \<and> hd (h @ s) = CHR ''['')" if "s = [] \<or> hd s \<noteq> CHR ''[''" for s
    using that by (cases h) auto
  show "NetworkAddress_host (h @ CHR '':'' # sizeTypeToString p) (int dflt) z = Inr \<lparr>na_address = None, na_hostname = h, na_port = int p\<rparr>"
    using assms(1,2) v takeWhile_until [OF h(1)] n [of "CHR '':'' # sizeTypeToString p"] digits_no_colon [of p]
    by (simp add: NetworkAddress_host_def parse_address_def checkPort_def)
  show "NetworkAddress_host h (int dflt) z = Inr \<lparr>na_address = None, na_hostname = h, na_port = int dflt\<rparr>"
    using assms(3,4) h(2) dropWhile_absent [OF h(1)]
    by (auto simp: NetworkAddress_host_def parse_address_def checkPort_def)
qed

end
