(* ===== verification/ConfigContext.thy ===== *)
theory ConfigContext
  imports InputFilter NetworkAddress
begin

text \<open>
  The reader of configuration files, \<^verbatim>\<open>ConfigReadContext\<close> of \<^verbatim>\<open>src/lib/server/Config.cpp\<close>: lines without comments and
  outer blanks, and the values that they hold. A stream is the text that is left with its failure bit; a position
  in a line is the text from there on. An exception carries the number of the line, the message and its
  arguments. \<^verbatim>\<open>strtod\<close> returns a number rounded to double precision, an infinity or not-a-number.
\<close>

datatype read_failure =
    XConfigRead nat string "string list"
  | XConfigReadAddress nat socket_error
  | ConfigAssertion

subsection \<open>Lines\<close>

record read_context =
  rc_text :: string
  rc_ok :: bool
  rc_line :: nat

definition ConfigReadContext_new :: "string \<Rightarrow> read_context" where
  "ConfigReadContext_new s = \<lparr>rc_text = s, rc_ok = True, rc_line = 0\<rparr>"

text \<open>\<^verbatim>\<open>std::getline\<close>: \<open>None\<close> when nothing is left, which sets the failure bit.\<close>

definition getline :: "string \<Rightarrow> (string \<times> string) option" where
  "getline s =
     (if s = [] then None
      else Some (takeWhile (\<lambda>c. c \<noteq> CHR 0x0A) s, drop 1 (dropWhile (\<lambda>c. c \<noteq> CHR 0x0A) s)))"

text \<open>A line of nothing but blanks keeps them: the positions that the code looks for do not exist.\<close>

definition clean_line :: "string \<Rightarrow> string" where
  "clean_line l =
     (let l1 = (if list_all is_blank l then l else dropWhile is_blank l);
          l2 = takeWhile (\<lambda>c. c \<noteq> CHR ''#'') l1
      in if list_all (\<lambda>c. is_blank c \<or> c = CHR 0x0D) l2 then l2
         else rev (dropWhile (\<lambda>c. is_blank c \<or> c = CHR 0x0D) (rev l2)))"

definition line_char :: "char \<Rightarrow> bool" where
  "line_char c \<longleftrightarrow> isgraph c \<or> is_blank c"

text \<open>\<^verbatim>\<open>sprintf("%#2x", c)\<close> of a \<^verbatim>\<open>char\<close> with a sign.\<close>

definition invalid_text :: "char \<Rightarrow> string" where
  "invalid_text c =
     (let n = of_char c; v = (if n < 128 then n else 2 ^ 32 - 256 + n)
      in if v = 0 then '' 0'' else ''0x'' @ hex_string v)"

lemma getline_shorter: "getline s = Some (l, rest) \<Longrightarrow> length rest < length s"
  using length_dropWhile_le [of "\<lambda>c. c \<noteq> CHR 0x0A" s] by (cases s) (auto simp: getline_def split: if_splits)

function readLine_loop :: "string \<Rightarrow> nat \<Rightarrow> read_failure + string option \<times> read_context" where
  "readLine_loop s n =
     (case getline s of
        None \<Rightarrow> Inr (None, \<lparr>rc_text = [], rc_ok = False, rc_line = n\<rparr>)
      | Some (l, rest) \<Rightarrow>
          (let line = clean_line l in
           if line \<noteq> [] then
             (case List.find (\<lambda>c. \<not> line_char c) line of
                Some c \<Rightarrow> Inl (XConfigRead n ''invalid character %{1}'' [invalid_text c])
              | None \<Rightarrow> Inr (Some line, \<lparr>rc_text = rest, rc_ok = True, rc_line = n\<rparr>))
           else readLine_loop rest (Suc n)))"
  by pat_completeness auto
termination
  by (relation "measure (\<lambda>(s, n). length s)") (auto dest: getline_shorter)

declare readLine_loop.simps [simp del]

definition readLine :: "read_context \<Rightarrow> read_failure + string option \<times> read_context" where
  "readLine rd =
     (if rc_ok rd then readLine_loop (rc_text rd) (Suc (rc_line rd))
      else Inr (None, rd\<lparr>rc_line := Suc (rc_line rd)\<rparr>))"

subsection \<open>Values\<close>

definition parseBoolean :: "nat \<Rightarrow> string \<Rightarrow> read_failure + int" where
  "parseBoolean n arg =
     (if caseless_equal arg ''true'' then Inr 1
      else if caseless_equal arg ''false'' then Inr 0
      else Inl (XConfigRead n ''invalid boolean argument \"%{1}\"'' [arg]))"

definition parseInt :: "nat \<Rightarrow> string \<Rightarrow> read_failure + int" where
  "parseInt n arg =
     (let tmp = strtol_value arg; v = to_int32 tmp in
      if snd (strtol arg) \<noteq> [] then Inl (XConfigRead n ''invalid integer argument \"%{1}\"'' [arg])
      else if v \<noteq> tmp then Inl (XConfigRead n ''integer argument \"%{1}\" out of range'' [arg])
      else Inr v)"

definition parseModifierKey :: "nat \<Rightarrow> string \<Rightarrow> read_failure + int" where
  "parseModifierKey n arg =
     (if caseless_equal arg ''shift'' then Inr (int kKeyModifierIDShift)
      else if caseless_equal arg ''ctrl'' then Inr (int kKeyModifierIDControl)
      else if caseless_equal arg ''alt'' then Inr (int kKeyModifierIDAlt)
      else if caseless_equal arg ''altgr'' then Inr (int kKeyModifierIDAltGr)
      else if caseless_equal arg ''meta'' then Inr (int kKeyModifierIDMeta)
      else if caseless_equal arg ''super'' then Inr (int kKeyModifierIDSuper)
      else if caseless_equal arg ''none'' then Inr (int kKeyModifierIDNull)
      else Inl (XConfigRead n ''invalid argument \"%{1}\"'' [arg]))"

definition parseCorner :: "nat \<Rightarrow> string \<Rightarrow> read_failure + int" where
  "parseCorner n arg =
     (if caseless_equal arg ''left'' then Inr (uint (kTopLeftMask OR kBottomLeftMask))
      else if caseless_equal arg ''right'' then Inr (uint (kTopRightMask OR kBottomRightMask))
      else if caseless_equal arg ''top'' then Inr (uint (kTopLeftMask OR kTopRightMask))
      else if caseless_equal arg ''bottom'' then Inr (uint (kBottomLeftMask OR kBottomRightMask))
      else if caseless_equal arg ''top-left'' then Inr (uint kTopLeftMask)
      else if caseless_equal arg ''top-right'' then Inr (uint kTopRightMask)
      else if caseless_equal arg ''bottom-left'' then Inr (uint kBottomLeftMask)
      else if caseless_equal arg ''bottom-right'' then Inr (uint kBottomRightMask)
      else if caseless_equal arg ''none'' then Inr (uint kNoCornerMask)
      else if caseless_equal arg ''all'' then Inr (uint kAllCornersMask)
      else Inl (XConfigRead n ''invalid argument \"%{1}\"'' [arg]))"

text \<open>The loop of \<open>parseCorners\<close> from an operator on.\<close>

function corners_loop :: "nat \<Rightarrow> string \<Rightarrow> int \<Rightarrow> read_failure + int" where
  "corners_loop n s corners =
     (if s = [] then Inr corners
      else if hd s \<noteq> CHR ''-'' \<and> hd s \<noteq> CHR ''+'' then Inl (XConfigRead n ''invalid corner operator \"%{1}\"'' [[hd s]])
      else let r = dropWhile is_blank (tl s) in
        if r = [] then Inl (XConfigRead n ''missing corner argument'' [])
        else case parseCorner n (takeWhile (\<lambda>c. \<not> is_blank c) r) of
          Inl e \<Rightarrow> Inl e
        | Inr m \<Rightarrow>
            corners_loop n (dropWhile is_blank (dropWhile (\<lambda>c. \<not> is_blank c) r))
              (if hd s = CHR ''+'' then corners OR m else corners AND NOT m))"
  by pat_completeness auto
termination
proof (relation "measure (\<lambda>(n, s, c). length s)", goal_cases)
  case (2 n s corners r m)
  have "length (dropWhile is_blank (dropWhile (\<lambda>c. \<not> is_blank c) r)) \<le> length r"
    using length_dropWhile_le order_trans by blast
  moreover have "length r \<le> length (tl s)" using 2(3) length_dropWhile_le [of is_blank "tl s"] by simp
  ultimately show ?case using 2(1) by (cases s) auto
qed simp

declare corners_loop.simps [simp del]

definition parseCorners :: "nat \<Rightarrow> string \<Rightarrow> read_failure + int" where
  "parseCorners n args =
     (let r = dropWhile is_blank args in
      if r = [] then Inl (XConfigRead n ''missing corner argument'' [])
      else case parseCorner n (takeWhile (\<lambda>c. \<not> is_blank c) r) of
        Inl e \<Rightarrow> Inl e
      | Inr corners \<Rightarrow> corners_loop n (dropWhile is_blank (dropWhile (\<lambda>c. \<not> is_blank c) r)) corners)"

subsection \<open>Floating-point numbers\<close>

datatype double_val = DFinite rat | DInf bool | DNan

fun d_less :: "double_val \<Rightarrow> double_val \<Rightarrow> bool" where
  "d_less (DFinite a) (DFinite b) = (a < b)"
| "d_less (DInf neg) (DFinite b) = neg"
| "d_less (DFinite a) (DInf neg) = (\<not> neg)"
| "d_less (DInf neg) (DInf neg') = (neg \<and> \<not> neg')"
| "d_less _ _ = False"

definition d_ge :: "double_val \<Rightarrow> double_val \<Rightarrow> bool" where
  "d_ge a b \<longleftrightarrow> a \<noteq> DNan \<and> b \<noteq> DNan \<and> \<not> d_less a b"

definition exponent_part :: "char list \<Rightarrow> string \<Rightarrow> int \<times> string" where
  "exponent_part letters r =
     (if r \<noteq> [] \<and> hd r \<in> set letters then
        (let r1 = tl r;
             r2 = (if r1 \<noteq> [] \<and> (hd r1 = CHR ''-'' \<or> hd r1 = CHR ''+'') then tl r1 else r1);
             ds = takeWhile is_digit r2;
             v = int (decimal_value ds)
         in if ds = [] then (0, r)
            else (if r1 \<noteq> [] \<and> hd r1 = CHR ''-'' then - v else v, dropWhile is_digit r2))
      else (0, r))"

text \<open>Digits with an optional point and exponent: the magnitude and the rest, \<open>None\<close> without a digit.\<close>

definition mantissa :: "(char \<Rightarrow> bool) \<Rightarrow> (string \<Rightarrow> rat) \<Rightarrow> rat \<Rightarrow> rat \<Rightarrow> char list \<Rightarrow> string \<Rightarrow> (rat \<times> string) option" where
  "mantissa digit val base ebase letters r =
     (let ip = takeWhile digit r; r1 = dropWhile digit r;
          point = (r1 \<noteq> [] \<and> hd r1 = CHR ''.'');
          fp = (if point then takeWhile digit (tl r1) else []);
          r2 = (if point then dropWhile digit (tl r1) else r1)
      in if ip @ fp = [] then None
         else case exponent_part letters r2 of
           (e, r3) \<Rightarrow> Some (val (ip @ fp) / base ^ length fp * power_int ebase e, r3))"

definition to_double :: "rat \<Rightarrow> double_val" where
  "to_double v = (if 2 ^ 1024 \<le> \<bar>fl64 v\<bar> then DInf (v < 0) else DFinite (fl64 v))"

text \<open>
  \<^verbatim>\<open>strtod\<close> returns the value rounded to double precision, an infinity when that is too large. The text between brackets that may follow \<^verbatim>\<open>nan\<close> is left out: an argument holds no
  closing bracket.
\<close>

definition strtod :: "string \<Rightarrow> double_val \<times> string" where
  "strtod s =
     (let r1 = dropWhile is_space s;
          neg = (r1 \<noteq> [] \<and> hd r1 = CHR ''-'');
          r2 = (if r1 \<noteq> [] \<and> (hd r1 = CHR ''-'' \<or> hd r1 = CHR ''+'') then tl r1 else r1);
          sign = (\<lambda>v :: rat. if neg then - v else v);
          hex = (if 2 \<le> length r2 \<and> r2 ! 0 = CHR ''0'' \<and> (r2 ! 1 = CHR ''x'' \<or> r2 ! 1 = CHR ''X'')
                 then mantissa is_hex (\<lambda>ds. of_int (hex_value ds)) 16 2 ''pP'' (drop 2 r2) else None)
      in if caseless_equal (take 8 r2) ''infinity'' then (DInf neg, drop 8 r2)
         else if caseless_equal (take 3 r2) ''inf'' then (DInf neg, drop 3 r2)
         else if caseless_equal (take 3 r2) ''nan'' then (DNan, drop 3 r2)
         else case hex of
           Some (v, rest) \<Rightarrow> (to_double (sign v), rest)
         | None \<Rightarrow>
             (case mantissa is_digit (\<lambda>ds. of_nat (decimal_value ds)) 10 10 ''eE'' r2 of
                Some (v, rest) \<Rightarrow> (to_double (sign v), rest)
              | None \<Rightarrow> (DFinite 0, s)))"

fun arg_list :: "string list \<Rightarrow> string" where
  "arg_list [] = []"
| "arg_list [x] = x"
| "arg_list (x # y # xs) = x @ '','' @ arg_list (y # xs)"

definition concatArgs :: "string list \<Rightarrow> string" where
  "concatArgs args = ''('' @ arg_list args @ '')''"

text \<open>A bound of an interval, divided by 100 in double precision and rounded to a float; \<open>None\<close> is not-a-number.\<close>

definition bound_of :: "double_val \<Rightarrow> rat option" where
  "bound_of d = (case d of DFinite v \<Rightarrow> Some (fl32 (fl64 (v / 100))) | _ \<Rightarrow> None)"

definition parseInterval :: "nat \<Rightarrow> string list \<Rightarrow> read_failure + rat option \<times> rat option" where
  "parseInterval n args =
     (let bad = Inl (XConfigRead n ''invalid interval \"%{1}\"'' [concatArgs args]) in
      case args of
        [] \<Rightarrow> Inr (Some 0, Some 1)
      | [a, b] \<Rightarrow>
          if a = [] \<or> b = [] then bad
          else let (x, r) = strtod a; (y, r') = strtod b in
            if r \<noteq> [] then bad
            else if r' \<noteq> [] then bad
            else if d_less x (DFinite 0) \<or> d_less (DFinite 100) x \<or> d_less y (DFinite 0) \<or> d_less (DFinite 100) y \<or> d_ge x y then bad
            else Inr (bound_of x, bound_of y)
      | _ \<Rightarrow> bad)"

subsection \<open>Names with arguments\<close>

definition trim_arg :: "string \<Rightarrow> string" where
  "trim_arg s = (if list_all is_blank s then s else trim s)"

definition ends_arg :: "char \<Rightarrow> bool" where
  "ends_arg c \<longleftrightarrow> c = CHR '','' \<or> c = CHR '')''"

text \<open>
  The loop over the arguments, from behind the opening bracket. The position that the code looks at behind the
  loop is that of the last character of the last argument which is not blank: without one the closing
  bracket counts as missing.
\<close>

function args_loop :: "nat \<Rightarrow> string \<Rightarrow> string list \<Rightarrow> read_failure + string list \<times> string" where
  "args_loop n s args =
     (let r = dropWhile (\<lambda>c. \<not> ends_arg c) s in
      if r = [] then Inl (XConfigRead n ''missing )'' [])
      else let arg = takeWhile (\<lambda>c. \<not> ends_arg c) s in
        if hd r = CHR '')'' then
          (if list_all is_blank arg then Inl (XConfigRead n ''missing )'' []) else Inr (args @ [trim_arg arg], tl r))
        else args_loop n (tl r) (args @ [trim_arg arg]))"
  by pat_completeness auto
termination
proof (relation "measure (\<lambda>(n, s, args). length s)", goal_cases)
  case (2 n s args r arg)
  have "length r \<le> length s" using 2(1) by (simp add: length_dropWhile_le)
  then show ?case using 2(2) by (cases r) auto
qed simp

declare args_loop.simps [simp del]

lemma args_loop_none: "\<forall>c \<in> set s. \<not> ends_arg c \<Longrightarrow> args_loop n s args = Inl (XConfigRead n ''missing )'' [])"
  by (subst args_loop.simps) simp

lemma args_loop_end:
  "\<forall>c \<in> set a. \<not> ends_arg c \<Longrightarrow>
    args_loop n (a @ CHR '')'' # r) args =
      (if list_all is_blank a then Inl (XConfigRead n ''missing )'' []) else Inr (args @ [trim_arg a], r))"
  by (subst args_loop.simps) (simp add: dropWhile_append2 takeWhile_append2, simp add: ends_arg_def)

lemma args_loop_more:
  "\<forall>c \<in> set a. \<not> ends_arg c \<Longrightarrow> args_loop n (a @ CHR '','' # r) args = args_loop n r (args @ [trim_arg a])"
  by (subst args_loop.simps) (simp add: dropWhile_append2 takeWhile_append2, simp add: ends_arg_def)

definition ends_name :: "string \<Rightarrow> char \<Rightarrow> bool" where
  "ends_name delim c \<longleftrightarrow> is_blank c \<or> c = CHR ''('' \<or> c \<in> set delim"

definition need_delim :: "string \<Rightarrow> bool" where
  "need_delim delim \<longleftrightarrow> delim \<noteq> [] \<and> CHR 0x0A \<notin> set delim"

definition parseNameWithArgs :: "nat \<Rightarrow> string \<Rightarrow> string \<Rightarrow> string \<Rightarrow> read_failure + string \<times> string list \<times> string" where
  "parseNameWithArgs n type s delim =
     (let r = dropWhile is_blank s in
      if r = [] then Inl (XConfigRead n (''missing '' @ type) [])
      else
        let name = takeWhile (\<lambda>c. \<not> ends_name delim c) r;
            r2 = dropWhile is_blank (dropWhile (\<lambda>c. \<not> ends_name delim c) r)
        in if r2 = [] \<and> need_delim delim then Inl (XConfigRead n (''missing '' @ [hd delim]) [])
           else if r2 = [] then Inr (name, [], [])
           else if hd r2 \<noteq> CHR ''('' then Inr (name, [], r2)
           else case args_loop n (tl r2) [] of
             Inl e \<Rightarrow> Inl e
           | Inr (args, r3) \<Rightarrow>
               (let r4 = dropWhile is_blank r3 in
                if r4 = [] \<and> need_delim delim then Inl (XConfigRead n (''missing '' @ [hd delim]) [])
                else if need_delim delim \<and> hd r4 \<notin> set delim then Inl (XConfigRead n (''expected '' @ [hd delim]) [])
                else Inr (name, args, r4)))"

subsection \<open>Keys and buttons\<close>

definition parseKeystroke :: "nat \<Rightarrow> string \<Rightarrow> string list \<Rightarrow> read_failure + key_info" where
  "parseKeystroke n keystroke screens =
     (case parseModifiers keystroke of
        None \<Rightarrow> Inl (XConfigRead n ''unable to parse key modifiers'' [])
      | Some (s, m) \<Rightarrow>
          (case parseKey s of
             None \<Rightarrow> Inl (XConfigRead n ''unable to parse key'' [])
           | Some key \<Rightarrow>
               if key = 0 \<and> m = 0 then Inl (XConfigRead n ''missing key and/or modifiers in keystroke'' [])
               else Inr (KeyInfo_create key m 0 0 screens)))"

definition parseMouse :: "nat \<Rightarrow> string \<Rightarrow> read_failure + nat \<times> nat" where
  "parseMouse n mouse =
     (case parseModifiers mouse of
        None \<Rightarrow> Inl (XConfigRead n ''unable to parse button modifiers'' [])
      | Some (s, m) \<Rightarrow>
          (let button = nat (strtol_value s mod 2 ^ 8) in
           if snd (strtol s) \<noteq> [] then Inl (XConfigRead n ''unable to parse button'' [])
           else if s = [] \<or> button = 0 then Inl (XConfigRead n ''invalid button'' [])
           else Inr (button, m)))"

definition parseModifier :: "nat \<Rightarrow> string \<Rightarrow> read_failure + nat" where
  "parseModifier n modifiers =
     (case parseModifiers modifiers of
        None \<Rightarrow> Inl (XConfigRead n ''unable to parse modifiers'' [])
      | Some (s, m) \<Rightarrow> if m = 0 then Inl (XConfigRead n ''no modifiers specified'' []) else Inr m)"

end
