(* ===== verification/ConfigRead.thy ===== *)
theory ConfigRead
  imports ConfigContext
begin

text \<open>
  Reading a configuration, \<^verbatim>\<open>Config::read\<close> of \<^verbatim>\<open>src/lib/server/Config.cpp\<close> with its four kinds of sections. A section is a
  loop over lines that the step of its kind interprets; the state of the loop is the configuration and the
  screen that the lines are about. Whatever the text, reading ends, with an exception or with a
  configuration that is well formed.
\<close>

type_synonym 'n full_config = "('n net_address, rule) config"

subsection \<open>Conditions and actions\<close>

function parseScreens :: "'n full_config \<Rightarrow> nat \<Rightarrow> string \<Rightarrow> string list \<Rightarrow> read_failure + string list" where
  "parseScreens c n s screens =
     (if s = [] then Inr screens
      else
        let rawName = trim (takeWhile (\<lambda>x. x \<noteq> CHR '':'') s); rest = drop 1 (dropWhile (\<lambda>x. x \<noteq> CHR '':'') s) in
        if rawName = ''*'' then parseScreens c n rest (insort_insert ''*'' screens)
        else if rawName \<noteq> [] then
          (let name = getCanonicalName c rawName in
           if name = [] then Inl (XConfigRead n ''unknown screen name \"%{1}\"'' [rawName])
           else parseScreens c n rest (insort_insert name screens))
        else parseScreens c n rest screens)"
  by pat_completeness auto
termination
proof (relation "measure (\<lambda>(c, n, s, screens). length s)", goal_cases)
  case (2 c n s screens rawName rest)
  then show ?case using length_dropWhile_le [of "\<lambda>x. x \<noteq> CHR '':''" s] by (cases s) auto
next
  case (3 c n s screens rawName rest name)
  then show ?case using length_dropWhile_le [of "\<lambda>x. x \<noteq> CHR '':''" s] by (cases s) auto
next
  case (4 c n s screens rawName rest)
  then show ?case using length_dropWhile_le [of "\<lambda>x. x \<noteq> CHR '':''" s] by (cases s) auto
qed simp

declare parseScreens.simps [simp del]

text \<open>A screen in a condition or an action, under its canonical name; the empty name stays empty.\<close>

definition screen_arg :: "'n full_config \<Rightarrow> nat \<Rightarrow> string \<Rightarrow> string list \<Rightarrow> string \<Rightarrow> read_failure + string" where
  "screen_arg c n msg margs screen =
     (if isScreen c screen then Inr (getCanonicalName c screen)
      else if screen \<noteq> [] then Inl (XConfigRead n msg margs)
      else Inr screen)"

definition parseCondition :: "'n full_config \<Rightarrow> nat \<Rightarrow> string \<Rightarrow> string list \<Rightarrow> read_failure + condition" where
  "parseCondition c n name args =
     (if name = ''keystroke'' then
        (if length args \<noteq> 1 then Inl (XConfigRead n ''syntax for condition: keystroke(modifiers+key)'' [])
         else and_then (parseKeystroke n (args ! 0) []) (\<lambda>info. Inr (KeystrokeCondition 0 (m_key info) (m_mask info))))
      else if name = ''mousebutton'' then
        (if length args \<noteq> 1 then Inl (XConfigRead n ''syntax for condition: mousebutton(modifiers+button)'' [])
         else and_then (parseMouse n (args ! 0)) (\<lambda>(b, m). Inr (MouseButtonCondition b m)))
      else if name = ''connect'' then
        (if length args \<noteq> 1 then Inl (XConfigRead n ''syntax for condition: connect([screen])'' [])
         else and_then (screen_arg c n ''unknown screen name \"%{1}\" in connect'' [args ! 0] (args ! 0)) (\<lambda>screen.
           Inr (ScreenConnectedCondition screen)))
      else Inl (XConfigRead n ''unknown argument \"%{1}\"'' [name]))"

text \<open>
  An action that is one of a pair: \<open>both\<close> is the name for pressing on activation and releasing on deactivation,
  \<open>down\<close> that for pressing alone.
\<close>

definition press_actions :: "string \<Rightarrow> string \<Rightarrow> (bool \<Rightarrow> filter_action) \<Rightarrow> string \<Rightarrow> rule \<Rightarrow> bool \<Rightarrow> rule" where
  "press_actions both down act name r activate =
     (if name = both then adoptAction (Some (act False)) False (adoptAction (Some (act True)) True r)
      else if name = down then adoptAction (Some (act True)) activate r
      else adoptAction (Some (act False)) activate r)"

definition keystroke_action :: "'n full_config \<Rightarrow> nat \<Rightarrow> string \<Rightarrow> string list \<Rightarrow> rule \<Rightarrow> bool \<Rightarrow> read_failure + rule" where
  "keystroke_action c n name args r activate =
     (if length args < 1 \<or> length args > 2 then Inl (XConfigRead n ''syntax for action: keystroke(modifiers+key[,screens])'' [])
      else and_then (if length args = 1 then parseKeystroke n (args ! 0) []
                     else and_then (parseScreens c n (args ! 1) []) (\<lambda>screens. parseKeystroke n (args ! 0) screens)) (\<lambda>info.
        Inr (press_actions ''keystroke'' ''keyDown'' (KeystrokeAction info) name r activate)))"

definition mouse_action :: "nat \<Rightarrow> string \<Rightarrow> string list \<Rightarrow> rule \<Rightarrow> bool \<Rightarrow> read_failure + rule" where
  "mouse_action n name args r activate =
     (if length args \<noteq> 1 then Inl (XConfigRead n ''syntax for action: mousebutton(modifiers+button)'' [])
      else and_then (parseMouse n (args ! 0)) (\<lambda>(b, m).
        Inr (press_actions ''mousebutton'' ''mouseDown'' (MouseButtonAction b m) name r activate)))"

definition direction_arg :: "nat \<Rightarrow> string \<Rightarrow> read_failure + EDirection" where
  "direction_arg n arg =
     (if arg = ''left'' then Inr kLeft
      else if arg = ''right'' then Inr kRight
      else if arg = ''up'' then Inr kTop
      else if arg = ''down'' then Inr kBottom
      else Inl (XConfigRead n ''unknown direction \"%{1}\" in switchToScreen'' [arg]))"

definition mode_arg :: "read_failure \<Rightarrow> string list \<Rightarrow> read_failure + switch_state" where
  "mode_arg e args =
     (if args = [] then Inr kToggle
      else if hd args = ''off'' then Inr kOff
      else if hd args = ''on'' then Inr kOn
      else if hd args = ''toggle'' then Inr kToggle
      else Inl e)"

definition lock_action :: "nat \<Rightarrow> string list \<Rightarrow> read_failure + switch_state" where
  "lock_action n args =
     (let e = XConfigRead n ''syntax for action: lockCursorToScreen([{off|on|toggle}])'' [] in
      if length args > 1 then Inl e else mode_arg e args)"

definition broadcast_action :: "'n full_config \<Rightarrow> nat \<Rightarrow> string list \<Rightarrow> read_failure + filter_action" where
  "broadcast_action c n args =
     (let e = XConfigRead n ''syntax for action: keyboardBroadcast([{off|on|toggle}[,screens]])'' [] in
      if length args > 2 then Inl e
      else and_then (mode_arg e args) (\<lambda>mode.
           and_then (if length args \<ge> 2 then parseScreens c n (args ! 1) [] else Inr []) (\<lambda>screens.
           Inr (KeyboardBroadcastAction mode (key_join screens)))))"

definition parseAction :: "'n full_config \<Rightarrow> nat \<Rightarrow> string \<Rightarrow> string list \<Rightarrow> rule \<Rightarrow> bool \<Rightarrow>
    read_failure + 'n full_config \<times> rule" where
  "parseAction c n name args r activate =
     (if name \<in> {''keystroke'', ''keyDown'', ''keyUp''} then
        and_then (keystroke_action c n name args r activate) (\<lambda>r. Inr (c, r))
      else if name \<in> {''mousebutton'', ''mouseDown'', ''mouseUp''} then
        and_then (mouse_action n name args r activate) (\<lambda>r. Inr (c, r))
      else if name = ''switchToScreen'' then
        (if length args \<noteq> 1 then Inl (XConfigRead n ''syntax for action: switchToScreen(name)'' [])
         else and_then (screen_arg c n ''unknown screen name in switchToScreen'' [] (args ! 0)) (\<lambda>screen.
           Inr (c, adoptAction (Some (SwitchToScreenAction screen)) activate r)))
      else if name = ''toggleScreen'' then Inr (c, adoptAction (Some ToggleScreenAction) activate r)
      else if name = ''switchInDirection'' then
        (if length args \<noteq> 1 then Inl (XConfigRead n ''syntax for action: switchInDirection(<left|right|up|down>)'' [])
         else and_then (direction_arg n (args ! 0)) (\<lambda>d. Inr (c, adoptAction (Some (SwitchInDirectionAction d)) activate r)))
      else if name = ''lockCursorToScreen'' then
        and_then (lock_action n args) (\<lambda>mode.
          Inr (if mode \<noteq> kOff then c\<lparr>cfg_hasLockToScreenAction := True\<rparr> else c,
               adoptAction (Some (LockCursorToScreenAction mode)) activate r))
      else if name = ''keyboardBroadcast'' then
        and_then (broadcast_action c n args) (\<lambda>act. Inr (c, adoptAction (Some act) activate r))
      else Inl (XConfigRead n ''unknown action argument \"%{1}\"'' [name]))"

subsection \<open>Options\<close>

text \<open>The options of the section \<^verbatim>\<open>options\<close>, with the value that is read for them.\<close>

definition global_option :: "nat \<Rightarrow> string \<Rightarrow> string \<Rightarrow> (nat \<times> (read_failure + int)) option" where
  "global_option n name v =
     (if name = ''heartbeat'' then Some (kOptionHeartbeat, parseInt n v)
      else if name = ''switchCorners'' then Some (kOptionScreenSwitchCorners, parseCorners n v)
      else if name = ''switchCornerSize'' then Some (kOptionScreenSwitchCornerSize, parseInt n v)
      else if name = ''switchDelay'' then Some (kOptionScreenSwitchDelay, parseInt n v)
      else if name = ''switchDoubleTap'' then Some (kOptionScreenSwitchTwoTap, parseInt n v)
      else if name = ''switchNeedsShift'' then Some (kOptionScreenSwitchNeedsShift, parseBoolean n v)
      else if name = ''switchNeedsControl'' then Some (kOptionScreenSwitchNeedsControl, parseBoolean n v)
      else if name = ''switchNeedsAlt'' then Some (kOptionScreenSwitchNeedsAlt, parseBoolean n v)
      else if name = ''screenSaverSync'' then Some (kOptionScreenSaverSync, parseBoolean n v)
      else if name = ''relativeMouseMoves'' then Some (kOptionRelativeMouseMoves, parseBoolean n v)
      else if name = ''win32KeepForeground'' then Some (kOptionWin32KeepForeground, parseBoolean n v)
      else if name = ''clipboardSharing'' then Some (kOptionClipboardSharing, parseBoolean n v)
      else if name = ''clipboardSharingSize'' then Some (kOptionClipboardSharingSize, parseInt n v)
      else None)"

definition kDefaultPort :: int where
  "kDefaultPort = 24800"

definition read_address :: "'n arch_net \<Rightarrow> nat \<Rightarrow> string \<Rightarrow> 'n full_config \<Rightarrow> read_failure + 'n full_config" where
  "read_address net n v c =
     (case and_then (NetworkAddress_host v kDefaultPort False) (resolve net) of
        Inl e \<Rightarrow> Inl (XConfigReadAddress n e)
      | Inr a \<Rightarrow> Inr (c\<lparr>cfg_listen_address := a\<rparr>))"

lemma arg_split:
  "(\<forall>c \<in> set s. \<not> ends_arg c) \<or>
   (\<exists>a r. (\<forall>c \<in> set a. \<not> ends_arg c) \<and> (s = a @ CHR '')'' # r \<or> s = a @ CHR '','' # r))"
proof (cases "\<exists>c \<in> set s. ends_arg c")
  case True
  then obtain a c r where "s = a @ c # r" "ends_arg c" "\<forall>x \<in> set a. \<not> ends_arg x" using split_list_first_prop by metis
  then show ?thesis unfolding ends_arg_def by metis
qed blast

lemma args_loop_shorter: "args_loop n s args = Inr (args', r) \<Longrightarrow> length r \<le> length s"
proof (induction "length s" arbitrary: s args rule: less_induct)
  case less
  consider "\<forall>c \<in> set s. \<not> ends_arg c"
    | a r' where "\<forall>c \<in> set a. \<not> ends_arg c" "s = a @ CHR '')'' # r'"
    | a r' where "\<forall>c \<in> set a. \<not> ends_arg c" "s = a @ CHR '','' # r'"
    by (metis arg_split)
  then show ?case
  proof cases
    case 3
    then have "args_loop n r' (args @ [trim_arg a]) = Inr (args', r)" using less.prems args_loop_more by simp
    from less.hyps [OF _ this] show ?thesis using 3(2) by simp
  qed (use less.prems in \<open>auto simp: args_loop_none args_loop_end split: if_splits\<close>)
qed

lemma parseNameWithArgs_shorter:
  assumes "parseNameWithArgs n t s delim = Inr (name, args, r)"
  shows "length r \<le> length s"
proof -
  let ?r = "dropWhile is_blank s"
  let ?r1 = "dropWhile (\<lambda>c. \<not> ends_name delim c) ?r"
  let ?r2 = "dropWhile is_blank ?r1"
  have l: "length ?r2 \<le> length s" using length_dropWhile_le order_trans by (metis (no_types, lifting))
  consider "r = []" | "r = ?r2" | r3 where "args_loop n (tl ?r2) [] = Inr (args, r3)" "r = dropWhile is_blank r3"
    using assms by (auto simp: parseNameWithArgs_def Let_def split: if_splits sum.splits)
  then show ?thesis
  proof cases
    case 3
    have "length r \<le> length r3" using 3(2) length_dropWhile_le by simp
    then show ?thesis using args_loop_shorter [OF 3(1)] l by simp
  qed (use l in simp_all)
qed

function activate_loop :: "nat \<Rightarrow> string \<Rightarrow> 'n full_config \<Rightarrow> rule \<Rightarrow> read_failure + 'n full_config \<times> rule \<times> string" where
  "activate_loop n s c r =
     (if s = [] \<or> hd s = CHR '';'' then Inr (c, r, s)
      else case parseNameWithArgs n ''value'' (tl s) ('',;'' @ [CHR 0x0A]) of
        Inl e \<Rightarrow> Inl e
      | Inr (v, vargs, s') \<Rightarrow>
          (case parseAction c n v vargs r True of
             Inl e \<Rightarrow> Inl e
           | Inr (c', r') \<Rightarrow> activate_loop n s' c' r'))"
  by pat_completeness auto
termination
proof (relation "measure (\<lambda>(n, s, c, r). length s)", goal_cases)
  case (2 n s c r y v x vargs s' z c' r')
  then have "length s' \<le> length (tl s)" using parseNameWithArgs_shorter by metis
  then show ?case using 2(1) by (cases s) auto
qed simp

function deactivate_loop :: "nat \<Rightarrow> string \<Rightarrow> 'n full_config \<Rightarrow> rule \<Rightarrow> read_failure + 'n full_config \<times> rule" where
  "deactivate_loop n s c r =
     (case parseNameWithArgs n ''value'' s ('','' @ [CHR 0x0A]) of
        Inl e \<Rightarrow> Inl e
      | Inr (v, vargs, s') \<Rightarrow>
          (case parseAction c n v vargs r False of
             Inl e \<Rightarrow> Inl e
           | Inr (c', r') \<Rightarrow> if s' = [] then Inr (c', r') else deactivate_loop n (tl s') c' r'))"
  by pat_completeness auto
termination
proof (relation "measure (\<lambda>(n, s, c, r). length s)", goal_cases)
  case (2 n s c r y v x vargs s' z c' r')
  then have "length s' \<le> length s" using parseNameWithArgs_shorter by metis
  then show ?case using 2(6) by (cases s') auto
qed simp

declare activate_loop.simps [simp del] deactivate_loop.simps [simp del]

definition read_rule :: "nat \<Rightarrow> string \<Rightarrow> string list \<Rightarrow> string \<Rightarrow> string list \<Rightarrow> string \<Rightarrow> 'n full_config \<Rightarrow>
    read_failure + 'n full_config" where
  "read_rule n name nameArgs v vargs s c =
     and_then (parseCondition c n name nameArgs) (\<lambda>cond.
     and_then (if v \<noteq> [] \<or> \<not> (s \<noteq> [] \<and> hd s = CHR '';'') then parseAction c n v vargs (Rule_new (Some cond)) True
               else Inr (c, Rule_new (Some cond))) (\<lambda>(c, r).
     and_then (activate_loop n s c r) (\<lambda>(c, r, s).
     and_then (let s' = dropWhile is_blank (tl s) in if s \<noteq> [] \<and> s' \<noteq> [] then deactivate_loop n s' c r else Inr (c, r)) (\<lambda>(c, r).
     Inr (c\<lparr>cfg_rules := cfg_rules c @ [rule_copy r]\<rparr>)))))"

definition options_line :: "'n arch_net \<Rightarrow> nat \<Rightarrow> string \<Rightarrow> 'n full_config \<Rightarrow> read_failure + 'n full_config" where
  "options_line net n line c =
     and_then (parseNameWithArgs n ''name'' line ''='') (\<lambda>(name, nameArgs, s).
     and_then (parseNameWithArgs n ''value'' (tl s) ('',;'' @ [CHR 0x0A])) (\<lambda>(v, vargs, s).
     let done = (\<lambda>c. if s \<noteq> [] \<and> (hd s = CHR '','' \<or> hd s = CHR '';'')
                      then Inl (XConfigRead n ''to many arguments to %s'' [name]) else Inr c)
     in if name = ''address'' then and_then (read_address net n v c) done
        else case global_option n name v of
          Some (i, res) \<Rightarrow> and_then res (\<lambda>x. done (snd (addOption c [] i x)))
        | None \<Rightarrow> read_rule n name nameArgs v vargs s c))"

subsection \<open>Screens, links and aliases\<close>

definition screen_option :: "nat \<Rightarrow> string \<Rightarrow> string \<Rightarrow> (nat \<times> (read_failure + int)) option" where
  "screen_option n name v =
     (if name = ''halfDuplexCapsLock'' then Some (kOptionHalfDuplexCapsLock, parseBoolean n v)
      else if name = ''halfDuplexNumLock'' then Some (kOptionHalfDuplexNumLock, parseBoolean n v)
      else if name = ''halfDuplexScrollLock'' then Some (kOptionHalfDuplexScrollLock, parseBoolean n v)
      else if name = ''shift'' then Some (kOptionModifierMapForShift, parseModifierKey n v)
      else if name = ''ctrl'' then Some (kOptionModifierMapForControl, parseModifierKey n v)
      else if name = ''alt'' then Some (kOptionModifierMapForAlt, parseModifierKey n v)
      else if name = ''altgr'' then Some (kOptionModifierMapForAltGr, parseModifierKey n v)
      else if name = ''meta'' then Some (kOptionModifierMapForMeta, parseModifierKey n v)
      else if name = ''super'' then Some (kOptionModifierMapForSuper, parseModifierKey n v)
      else if name = ''xtestIsXineramaUnaware'' then Some (kOptionXTestXineramaUnaware, parseBoolean n v)
      else if name = ''switchCorners'' then Some (kOptionScreenSwitchCorners, parseCorners n v)
      else if name = ''switchCornerSize'' then Some (kOptionScreenSwitchCornerSize, parseInt n v)
      else if name = ''preserveFocus'' then Some (kOptionScreenPreserveFocus, parseBoolean n v)
      else None)"

definition screen_argument :: "nat \<Rightarrow> string \<Rightarrow> string \<Rightarrow> 'n full_config \<Rightarrow> read_failure + 'n full_config" where
  "screen_argument n line screen c =
     (let name = takeWhile (\<lambda>x. \<not> (is_blank x \<or> x = CHR ''='')) line;
          r = dropWhile (\<lambda>x. \<not> (is_blank x \<or> x = CHR ''='')) line;
          r1 = dropWhile is_blank r;
          v = dropWhile is_blank (tl r1)
      in if name = [] then Inl (XConfigRead n ''missing argument name'' [])
         else if r = [] then Inl (XConfigRead n ''missing ='' [])
         else if r1 = [] \<or> hd r1 \<noteq> CHR ''='' then Inl (XConfigRead n ''missing ='' [])
         else case screen_option n name v of
           Some (i, res) \<Rightarrow> and_then res (\<lambda>x. Inr (snd (addOption c screen i x)))
         | None \<Rightarrow> Inl (XConfigRead n ''unknown argument \"%{1}\"'' [name]))"

definition screens_line :: "nat \<Rightarrow> string \<Rightarrow> 'n full_config \<times> string \<Rightarrow> read_failure + 'n full_config \<times> string" where
  "screens_line n line st =
     (case st of (c, screen) \<Rightarrow>
        if last line = CHR '':'' then
          (let screen = butlast line in
           if \<not> isValidScreenName screen then Inl (XConfigRead n ''invalid screen name \"%{1}\"'' [screen])
           else case addScreen c screen of
             (ok, c') \<Rightarrow> if ok then Inr (c', screen) else Inl (XConfigRead n ''duplicate screen name \"%{1}\"'' [screen]))
        else if screen = [] then Inl (XConfigRead n ''argument before first screen'' [])
        else and_then (screen_argument n line screen c) (\<lambda>c. Inr (c, screen)))"

text \<open>The header of a screen in the sections of links and aliases.\<close>

definition known_screen :: "nat \<Rightarrow> string \<Rightarrow> 'n full_config \<Rightarrow> read_failure + 'n full_config \<times> string" where
  "known_screen n line c =
     (let screen = butlast line in
      if \<not> isScreen c screen then Inl (XConfigRead n ''unknown screen name \"%{1}\"'' [screen])
      else if \<not> isCanonicalName c screen then Inl (XConfigRead n ''cannot use screen name alias here'' [])
      else Inr (c, screen))"

definition side_arg :: "nat \<Rightarrow> string \<Rightarrow> read_failure + EDirection" where
  "side_arg n side =
     (if side = ''left'' then Inr kLeft
      else if side = ''right'' then Inr kRight
      else if side = ''up'' then Inr kTop
      else if side = ''down'' then Inr kBottom
      else Inl (XConfigRead n ''unknown side \"%{1}\" in link'' [side]))"

text \<open>A bound that is not a number fails the assertions of \<^verbatim>\<open>CellEdge\<close>.\<close>

definition connect_read :: "nat \<Rightarrow> string \<Rightarrow> EDirection \<Rightarrow> rat option \<times> rat option \<Rightarrow> string \<Rightarrow> rat option \<times> rat option \<Rightarrow>
    'n full_config \<Rightarrow> read_failure + 'n full_config" where
  "connect_read n screen dir src dst dstI c =
     (case (src, dstI) of
        ((Some a, Some b), (Some a', Some b')) \<Rightarrow>
          (case connect c screen dir a b dst a' b' of
             None \<Rightarrow> Inl ConfigAssertion
           | Some (ok, c') \<Rightarrow> if ok then Inr c' else Inl (XConfigRead n ''overlapping range'' []))
      | _ \<Rightarrow> Inl ConfigAssertion)"

definition links_line :: "nat \<Rightarrow> string \<Rightarrow> 'n full_config \<times> string \<Rightarrow> read_failure + 'n full_config \<times> string" where
  "links_line n line st =
     (case st of (c, screen) \<Rightarrow>
        if last line = CHR '':'' then known_screen n line c
        else if screen = [] then Inl (XConfigRead n ''argument before first screen'' [])
        else and_then (parseNameWithArgs n ''link'' line ''='') (\<lambda>(side, srcArgs, s).
             and_then (parseNameWithArgs n ''screen'' (tl s) []) (\<lambda>(dstScreen, dstArgs, s').
             and_then (parseInterval n srcArgs) (\<lambda>src.
             and_then (parseInterval n dstArgs) (\<lambda>dst.
             and_then (side_arg n side) (\<lambda>dir.
             if \<not> isScreen c dstScreen then Inl (XConfigRead n ''unknown screen name \"%{1}\"'' [dstScreen])
             else and_then (connect_read n screen dir src dstScreen dst c) (\<lambda>c. Inr (c, screen))))))))"

definition aliases_line :: "nat \<Rightarrow> string \<Rightarrow> 'n full_config \<times> string \<Rightarrow> read_failure + 'n full_config \<times> string" where
  "aliases_line n line st =
     (case st of (c, screen) \<Rightarrow>
        if last line = CHR '':'' then known_screen n line c
        else if screen = [] then Inl (XConfigRead n ''argument before first screen'' [])
        else if \<not> isValidScreenName line then Inl (XConfigRead n ''invalid screen alias \"%{1}\"'' [line])
        else case addAlias c screen line of
          (ok, c') \<Rightarrow> if ok then Inr (c', screen) else Inl (XConfigRead n ''alias \"%{1}\" is already used'' [line]))"

subsection \<open>Sections\<close>

lemma readLine_loop_shorter: "readLine_loop s n = Inr (Some l, rd') \<Longrightarrow> length (rc_text rd') < length s"
proof (induction s n rule: readLine_loop.induct)
  case (1 s n)
  then show ?case
    by (subst (asm) (2) readLine_loop.simps)
       (fastforce simp: Let_def split: option.splits prod.splits if_splits dest: getline_shorter)
qed

lemma readLine_shorter: "readLine rd = Inr (Some l, rd') \<Longrightarrow> length (rc_text rd') < length (rc_text rd)"
  by (auto simp: readLine_def split: if_splits dest: readLine_loop_shorter)

function section_loop :: "(nat \<Rightarrow> string \<Rightarrow> 's \<Rightarrow> read_failure + 's) \<Rightarrow> string \<Rightarrow> 's \<Rightarrow> read_context \<Rightarrow> read_failure + 's \<times> read_context" where
  "section_loop line_step sec st rd =
     (case readLine rd of
        Inl e \<Rightarrow> Inl e
      | Inr (None, rd') \<Rightarrow> Inl (XConfigRead (rc_line rd') (''unexpected end of '' @ sec @ '' section'') [])
      | Inr (Some line, rd') \<Rightarrow>
          if line = ''end'' then Inr (st, rd')
          else case line_step (rc_line rd') line st of
            Inl e \<Rightarrow> Inl e
          | Inr st' \<Rightarrow> section_loop line_step sec st' rd')"
  by pat_completeness auto
termination
  by (relation "measure (\<lambda>(f, sec, st, rd). length (rc_text rd))") (auto dest: readLine_shorter)

declare section_loop.simps [simp del]

definition readSectionOptions :: "'n arch_net \<Rightarrow> 'n full_config \<Rightarrow> read_context \<Rightarrow> read_failure + 'n full_config \<times> read_context" where
  "readSectionOptions net c rd = section_loop (options_line net) ''options'' c rd"

definition readSectionScreens :: "'n full_config \<Rightarrow> read_context \<Rightarrow> read_failure + 'n full_config \<times> read_context" where
  "readSectionScreens c rd = and_then (section_loop screens_line ''screens'' (c, []) rd) (\<lambda>((c, screen), rd). Inr (c, rd))"

definition readSectionLinks :: "'n full_config \<Rightarrow> read_context \<Rightarrow> read_failure + 'n full_config \<times> read_context" where
  "readSectionLinks c rd = and_then (section_loop links_line ''links'' (c, []) rd) (\<lambda>((c, screen), rd). Inr (c, rd))"

definition readSectionAliases :: "'n full_config \<Rightarrow> read_context \<Rightarrow> read_failure + 'n full_config \<times> read_context" where
  "readSectionAliases c rd = and_then (section_loop aliases_line ''aliases'' (c, []) rd) (\<lambda>((c, screen), rd). Inr (c, rd))"

definition section_name :: "nat \<Rightarrow> string \<Rightarrow> read_failure + string" where
  "section_name n line =
     (if take 8 line \<noteq> ''section:'' then Inl (XConfigRead n ''found data outside section'' [])
      else let name = dropWhile is_blank (drop 8 line) in
        if name = [] then Inl (XConfigRead n ''section name is missing'' [])
        else if list_ex is_blank name then Inl (XConfigRead n ''unexpected data after section name'' [])
        else Inr name)"

definition readSection :: "'n arch_net \<Rightarrow> 'n full_config \<Rightarrow> read_context \<Rightarrow> read_failure + 'n full_config \<times> read_context" where
  "readSection net c rd =
     and_then (readLine rd) (\<lambda>(l, rd).
     case l of
       None \<Rightarrow> Inr (c, rd)
     | Some line \<Rightarrow>
         and_then (section_name (rc_line rd) line) (\<lambda>name.
         if name = ''options'' then readSectionOptions net c rd
         else if name = ''screens'' then readSectionScreens c rd
         else if name = ''links'' then readSectionLinks c rd
         else if name = ''aliases'' then readSectionAliases c rd
         else Inl (XConfigRead (rc_line rd) ''unknown section name \"%{1}\"'' [name])))"

lemma section_loop_shorter:
  "section_loop f sec st rd = Inr (st', rd') \<Longrightarrow> length (rc_text rd') < length (rc_text rd)"
proof (induction f sec st rd rule: section_loop.induct)
  case (1 f sec st rd)
  from 1(2) obtain line rd1 where l: "readLine rd = Inr (Some line, rd1)"
    by (subst (asm) section_loop.simps) (auto split: sum.splits option.splits)
  show ?case
  proof (cases "line = ''end''")
    case True
    then show ?thesis using 1(2) l readLine_shorter [OF l] by (subst (asm) section_loop.simps) simp
  next
    case False
    then obtain st1 where s: "f (rc_line rd1) line st = Inr st1" "section_loop f sec st1 rd1 = Inr (st', rd')"
      using 1(2) l by (subst (asm) section_loop.simps) (auto split: sum.splits)
    then show ?thesis using 1(1) [OF l] False readLine_shorter [OF l] by fastforce
  qed
qed

definition rd_size :: "read_context \<Rightarrow> nat" where
  "rd_size rd = length (rc_text rd) + (if rc_ok rd then 1 else 0)"

lemma readLine_loop_fails: "readLine_loop s n = Inr (None, rd') \<Longrightarrow> rc_text rd' = [] \<and> \<not> rc_ok rd'"
  by (induction s n rule: readLine_loop.induct)
     (subst (asm) (2) readLine_loop.simps, auto simp: Let_def split: option.splits prod.splits if_splits)

lemma readLine_size:
  assumes "readLine rd = Inr (l, rd')" "rc_ok rd"
  shows "rd_size rd' < rd_size rd"
proof (cases l)
  case None
  then show ?thesis using assms readLine_loop_fails by (fastforce simp: rd_size_def readLine_def)
next
  case (Some x)
  then have "length (rc_text rd') < length (rc_text rd)" using assms(1) readLine_shorter by blast
  then show ?thesis using assms(2) by (simp add: rd_size_def)
qed

lemma readSection_size:
  assumes "readSection net c rd = Inr (c', rd')" "rc_ok rd"
  shows "rd_size rd' < rd_size rd"
proof -
  obtain l rd1 where l: "readLine rd = Inr (l, rd1)" using assms(1) by (auto simp: readSection_def)
  then show ?thesis
  proof (cases l)
    case None
    then show ?thesis using assms l readLine_size [OF l] by (simp add: readSection_def)
  next
    case (Some line)
    have "length (rc_text rd') < length (rc_text rd1)"
      using assms(1) l Some
      by (auto simp: readSection_def readSectionOptions_def readSectionScreens_def readSectionLinks_def readSectionAliases_def
          split: if_splits dest: section_loop_shorter)
    then show ?thesis using readLine_shorter l Some assms(2) by (fastforce simp: rd_size_def)
  qed
qed

function read_loop :: "'n arch_net \<Rightarrow> 'n full_config \<Rightarrow> read_context \<Rightarrow> read_failure + 'n full_config" where
  "read_loop net c rd =
     (if rc_ok rd then
        (case readSection net c rd of
           Inl e \<Rightarrow> Inl e
         | Inr (c', rd') \<Rightarrow> read_loop net c' rd')
      else Inr c)"
  by pat_completeness auto
termination
  by (relation "measure (\<lambda>(net, c, rd). rd_size rd)") (auto dest: readSection_size)

declare read_loop.simps [simp del]

text \<open>\<^verbatim>\<open>operator>>\<close>: a configuration of its own is read and assigned at the end.\<close>

definition Config_read :: "'n arch_net \<Rightarrow> string \<Rightarrow> read_failure + 'n full_config" where
  "Config_read net s = read_loop net (Config_new NetworkAddress_new) (ConfigReadContext_new s)"

subsection \<open>What is read is well formed\<close>

definition read_inv :: "'n full_config \<Rightarrow> bool" where
  "read_inv c \<longleftrightarrow> cfg_inv c \<and> (\<forall>(n, t) \<in> set (cfg_names c). isValidScreenName n)"

lemma read_inv_fields [simp]:
  "read_inv (c\<lparr>cfg_hasLockToScreenAction := b\<rparr>) = read_inv c"
  "read_inv (c\<lparr>cfg_rules := rs\<rparr>) = read_inv c"
  "read_inv (c\<lparr>cfg_listen_address := a\<rparr>) = read_inv c"
  by (simp_all add: read_inv_def cfg_inv_def)

lemma names_addOption [simp]: "cfg_names (snd (addOption c name i v)) = cfg_names c"
  by (simp add: addOption_def on_options_def)

lemma addOption_read_inv: "read_inv c \<Longrightarrow> read_inv (snd (addOption c name i v))"
  by (simp add: read_inv_def options_inv)

lemma addScreen_read_inv: "read_inv c \<Longrightarrow> isValidScreenName name \<Longrightarrow> read_inv (snd (addScreen c name))"
  using addScreen_inv [of c name] nm.set_insert [of name name "cfg_names c"] by (fastforce simp: read_inv_def addScreen_def)

lemma addAlias_read_inv: "read_inv c \<Longrightarrow> isValidScreenName x \<Longrightarrow> read_inv (snd (addAlias c canonical x))"
  using addAlias_inv [of c canonical x] nm.set_insert [of x canonical "cfg_names c"] by (fastforce simp: read_inv_def addAlias_def)

lemma connect_read_inv: "read_inv c \<Longrightarrow> connect c src side a b dst a' b' = Some (ok, d) \<Longrightarrow> read_inv d"
proof -
  assume a: "read_inv c" "connect c src side a b dst a' b' = Some (ok, d)"
  have "cfg_names d = cfg_names c" using a(2) by (auto simp: connect_def split: if_splits option.splits prod.splits)
  then show ?thesis using a connect_inv by (fastforce simp: read_inv_def)
qed

text \<open>An outcome is an exception or a well-formed configuration; the branches of a parser need not be told apart.\<close>

definition inv_outcome :: "read_failure + 'n full_config \<times> 'x \<Rightarrow> bool" where
  "inv_outcome res \<longleftrightarrow> (\<forall>c x. res = Inr (c, x) \<longrightarrow> read_inv c)"

lemma inv_outcome_intros:
  "inv_outcome (Inl e)"
  "read_inv c \<Longrightarrow> inv_outcome (Inr (c, x))"
  "inv_outcome X \<Longrightarrow> inv_outcome Y \<Longrightarrow> inv_outcome (if b then X else Y)"
  "(\<And>y. inv_outcome (k y)) \<Longrightarrow> inv_outcome (and_then res k)"
  "(\<And>y z. inv_outcome (h y z)) \<Longrightarrow> inv_outcome (case p of (y, z) \<Rightarrow> h y z)"
  "inv_outcome X \<Longrightarrow> (\<And>y. inv_outcome (k y)) \<Longrightarrow> inv_outcome (case l of None \<Rightarrow> X | Some y \<Rightarrow> k y)"
  by (auto simp: inv_outcome_def split: prod.splits option.splits)

lemma parseAction_read_inv: "parseAction c n name args r act = Inr (c', r') \<Longrightarrow> read_inv c \<Longrightarrow> read_inv c'"
proof -
  assume i: "read_inv c"
  then have "read_inv (if b then c\<lparr>cfg_hasLockToScreenAction := True\<rparr> else c)" for b by simp
  with i have "inv_outcome (parseAction c n name args r act)"
    unfolding parseAction_def by (intro inv_outcome_intros)
  then show "parseAction c n name args r act = Inr (c', r') \<Longrightarrow> ?thesis" by (simp add: inv_outcome_def)
qed

lemma activate_loop_read_inv: "activate_loop n s c r = Inr (c', r', s') \<Longrightarrow> read_inv c \<Longrightarrow> read_inv c'"
proof (induction n s c r rule: activate_loop.induct)
  case (1 n s c r)
  show ?case
  proof (cases "s = [] \<or> hd s = CHR '';''")
    case True
    then show ?thesis using 1(2,3) by (subst (asm) activate_loop.simps) auto
  next
    case False
    then obtain v vargs s1 c1 r1 where p: "parseNameWithArgs n ''value'' (tl s) ('',;'' @ [CHR 0x0A]) = Inr (v, vargs, s1)"
        "parseAction c n v vargs r True = Inr (c1, r1)" "activate_loop n s1 c1 r1 = Inr (c', r', s')"
      using 1(2) by (subst (asm) activate_loop.simps) (auto split: sum.splits)
    then show ?thesis using 1(1) [OF False p(1) refl refl p(2) refl] 1(3) parseAction_read_inv by blast
  qed
qed

lemma deactivate_loop_read_inv: "deactivate_loop n s c r = Inr (c', r') \<Longrightarrow> read_inv c \<Longrightarrow> read_inv c'"
proof (induction n s c r rule: deactivate_loop.induct)
  case (1 n s c r)
  then obtain v vargs s1 c1 r1 where p: "parseNameWithArgs n ''value'' s ('','' @ [CHR 0x0A]) = Inr (v, vargs, s1)"
      "parseAction c n v vargs r False = Inr (c1, r1)"
      "(if s1 = [] then Inr (c1, r1) else deactivate_loop n (tl s1) c1 r1) = Inr (c', r')"
    by (subst (asm) (3) deactivate_loop.simps) (auto split: sum.splits)
  have "read_inv c1" using parseAction_read_inv [OF p(2)] 1(3) .
  then show ?case using p(3) 1(1) [OF p(1) refl refl p(2) refl] by (cases "s1 = []") auto
qed

lemma read_rule_read_inv:
  assumes "read_rule n name nargs v vargs s c = Inr c'" "read_inv c"
  shows "read_inv c'"
proof -
  obtain cond where p: "parseCondition c n name nargs = Inr cond" using assms(1) by (auto simp: read_rule_def)
  let ?first = "if v \<noteq> [] \<or> \<not> (s \<noteq> [] \<and> hd s = CHR '';'') then parseAction c n v vargs (Rule_new (Some cond)) True
      else Inr (c, Rule_new (Some cond))"
  obtain c1 r1 where 1: "?first = Inr (c1, r1)" using assms(1) p by (auto simp: read_rule_def)
  then have i1: "read_inv c1" using parseAction_read_inv assms(2) by (auto split: if_splits)
  obtain c2 r2 s2 where 2: "activate_loop n s c1 r1 = Inr (c2, r2, s2)"
    using assms(1) p 1 by (auto simp: read_rule_def)
  let ?s = "dropWhile is_blank (tl s2)"
  obtain c3 r3 where 3: "(if s2 \<noteq> [] \<and> ?s \<noteq> [] then deactivate_loop n ?s c2 r2 else Inr (c2, r2)) = Inr (c3, r3)"
      "c' = c3\<lparr>cfg_rules := cfg_rules c3 @ [rule_copy r3]\<rparr>"
    using assms(1) unfolding read_rule_def p 1 2 and_then_simps prod.case Let_def by (auto simp del: dropWhile_eq_Nil_conv)
  have "read_inv c3"
    using 3(1) activate_loop_read_inv [OF 2 i1] deactivate_loop_read_inv by (auto split: if_splits simp del: dropWhile_eq_Nil_conv)
  then show ?thesis using 3(2) by simp
qed

lemma options_line_read_inv:
  assumes "options_line net n line c = Inr c'" "read_inv c"
  shows "read_inv c'"
proof -
  obtain name nargs s v vargs s' where p: "parseNameWithArgs n ''name'' line ''='' = Inr (name, nargs, s)"
      "parseNameWithArgs n ''value'' (tl s) ('',;'' @ [CHR 0x0A]) = Inr (v, vargs, s')"
    using assms(1) unfolding options_line_def by (auto simp: Let_def)
  consider "read_address net n v c = Inr c'" | i x where "c' = snd (addOption c [] i x)" | "read_rule n name nargs v vargs s' c = Inr c'"
    using assms(1) unfolding options_line_def p Let_def and_then_simps prod.case
    by (cases "global_option n name v") (auto split: if_split_asm)
  then show ?thesis
  proof cases
    case 1
    then show ?thesis using assms(2) by (auto simp: read_address_def split: sum.splits)
  qed (use assms(2) in \<open>auto simp: addOption_read_inv read_rule_read_inv\<close>)
qed

lemma screens_line_read_inv: "screens_line n line st = Inr st' \<Longrightarrow> read_inv (fst st) \<Longrightarrow> read_inv (fst st')"
  using addScreen_read_inv [of "fst st" "butlast line"]
  by (auto simp: screens_line_def screen_argument_def Let_def addOption_read_inv split: if_splits option.splits prod.splits)

lemma links_line_read_inv: "links_line n line st = Inr st' \<Longrightarrow> read_inv (fst st) \<Longrightarrow> read_inv (fst st')"
  by (auto simp: links_line_def known_screen_def connect_read_def Let_def connect_read_inv split: if_splits option.splits prod.splits)

lemma aliases_line_read_inv: "aliases_line n line st = Inr st' \<Longrightarrow> read_inv (fst st) \<Longrightarrow> read_inv (fst st')"
  using addAlias_read_inv [of "fst st" line "snd st"]
  by (auto simp: aliases_line_def known_screen_def Let_def split: if_splits prod.splits)

lemma section_loop_inv:
  "section_loop f sec st rd = Inr (st', rd') \<Longrightarrow> (\<And>n line st st'. f n line st = Inr st' \<Longrightarrow> P st \<Longrightarrow> P st') \<Longrightarrow> P st \<Longrightarrow> P st'"
proof (induction f sec st rd rule: section_loop.induct)
  case (1 f sec st rd)
  from 1(2) obtain line rd1 where l: "readLine rd = Inr (Some line, rd1)"
    by (subst (asm) section_loop.simps) (auto split: sum.splits option.splits)
  show ?case
  proof (cases "line = ''end''")
    case True
    then show ?thesis using 1(2,4) l by (subst (asm) section_loop.simps) simp
  next
    case False
    then obtain st1 where st1: "f (rc_line rd1) line st = Inr st1" "section_loop f sec st1 rd1 = Inr (st', rd')"
      using 1(2) l by (subst (asm) section_loop.simps) (auto split: sum.splits)
    have "P st1" using st1(1) 1(3,4) by blast
    then show ?thesis using 1(1) [OF l refl refl False st1(1) st1(2)] 1(3) by blast
  qed
qed

lemma section_outcome:
  assumes "\<And>n line st st'. f n line st = Inr st' \<Longrightarrow> read_inv (fst st) \<Longrightarrow> read_inv (fst st')" "read_inv c"
  shows "inv_outcome (and_then (section_loop f sec (c, []) rd) (\<lambda>((c, screen), rd). Inr (c, rd)))"
proof -
  have "read_inv (fst st')" if "section_loop f sec (c, []) rd = Inr (st', rd')" for st' rd'
    using section_loop_inv [where P = "\<lambda>st. read_inv (fst st)", OF that assms(1)] assms(2) by simp
  then show ?thesis by (fastforce simp: inv_outcome_def)
qed

lemma readSection_read_inv:
  assumes "readSection net c rd = Inr (c', rd')" "read_inv c"
  shows "read_inv c'"
proof -
  have "read_inv d" if "section_loop (options_line net) ''options'' c rd1 = Inr (d, x)" for rd1 d x
    using that by (rule section_loop_inv [where P = read_inv]) (erule (1) options_line_read_inv, rule assms(2))
  then have "inv_outcome (readSectionOptions net c rd1)" for rd1
    unfolding readSectionOptions_def inv_outcome_def by blast
  moreover have "inv_outcome (readSectionScreens c rd1)" for rd1
    unfolding readSectionScreens_def by (rule section_outcome [OF screens_line_read_inv assms(2)])
  moreover have "inv_outcome (readSectionLinks c rd1)" for rd1
    unfolding readSectionLinks_def by (rule section_outcome [OF links_line_read_inv assms(2)])
  moreover have "inv_outcome (readSectionAliases c rd1)" for rd1
    unfolding readSectionAliases_def by (rule section_outcome [OF aliases_line_read_inv assms(2)])
  ultimately have "inv_outcome (readSection net c rd)"
    unfolding readSection_def by (intro inv_outcome_intros assms(2))
  then show ?thesis using assms(1) by (simp add: inv_outcome_def)
qed

lemma read_loop_read_inv: "read_loop net c rd = Inr c' \<Longrightarrow> read_inv c \<Longrightarrow> read_inv c'"
proof (induction net c rd rule: read_loop.induct)
  case (1 net c rd)
  show ?case
  proof (cases "rc_ok rd")
    case True
    then obtain c1 rd1 where s: "readSection net c rd = Inr (c1, rd1)" "read_loop net c1 rd1 = Inr c'"
      using 1(2) by (subst (asm) read_loop.simps) (auto split: sum.splits)
    then show ?thesis using 1(1) [OF True s(1) refl s(2)] readSection_read_inv [OF s(1)] 1(3) by blast
  next
    case False
    then show ?thesis using 1(2,3) by (subst (asm) read_loop.simps) simp
  qed
qed

text \<open>
  C9. Whatever the text of a configuration file, what is read without an exception and without a failed assertion
  is well formed: each screen is its own canonical name, each name leads to a screen and is a valid host
  name, and the links on a side of a screen have intervals that are not empty and do not overlap. The
  assertions are those of \<^verbatim>\<open>CellEdge\<close>; a build without them also stores the empty interval of
  \<open>close_bounds_collapse\<close>.
\<close>

theorem read_config_well_formed:
  assumes "Config_read net s = Inr c"
  shows "cfg_inv c \<and> (\<forall>(n, t) \<in> set (cfg_names c). isValidScreenName n)"
proof -
  have "read_inv (Config_new a :: 'a full_config)" for a
    using Config_new_inv [of a] by (simp add: read_inv_def Config_new_def)
  then show ?thesis using read_loop_read_inv assms unfolding Config_read_def by (metis read_inv_def)
qed

theorem read_config_well_formed_witness:
  "\<exists>c. Config_read (\<lparr>newAnyAddr = (), nameToAddr = (\<lambda>_. Inr ()), setAddrPort = (\<lambda>_ _. ())\<rparr> :: unit arch_net)
      (''section: screens'' @ [CHR 0x0A] @ ''a:'' @ [CHR 0x0A] @ ''end'') = Inr c \<and> cfg_inv c"
proof -
  let ?r = "Config_read (\<lparr>newAnyAddr = (), nameToAddr = (\<lambda>_. Inr ()), setAddrPort = (\<lambda>_ _. ())\<rparr> :: unit arch_net)
      (''section: screens'' @ [CHR 0x0A] @ ''a:'' @ [CHR 0x0A] @ ''end'')"
  have "case ?r of Inl _ \<Rightarrow> False | Inr _ \<Rightarrow> True" by code_simp
  then obtain c where "?r = Inr c" by (simp split: sum.splits)
  then show ?thesis using read_config_well_formed by blast
qed

end
