(* ===== verification/ConfigWrite.thy ===== *)
theory ConfigWrite
  imports ConfigRead
begin

text \<open>
  Writing a configuration, \<^verbatim>\<open>operator<<\<close> of \<^verbatim>\<open>src/lib/server/Config.cpp\<close>, with the names and values of options. \<open>None\<close> is a
  failed assertion. Three things that are written cannot be read back as they were.
\<close>

subsection \<open>Options\<close>

definition getOptionName :: "nat \<Rightarrow> string option" where
  "getOptionName i =
     (if i = kOptionHalfDuplexCapsLock then Some ''halfDuplexCapsLock''
      else if i = kOptionHalfDuplexNumLock then Some ''halfDuplexNumLock''
      else if i = kOptionHalfDuplexScrollLock then Some ''halfDuplexScrollLock''
      else if i = kOptionModifierMapForShift then Some ''shift''
      else if i = kOptionModifierMapForControl then Some ''ctrl''
      else if i = kOptionModifierMapForAlt then Some ''alt''
      else if i = kOptionModifierMapForAltGr then Some ''altgr''
      else if i = kOptionModifierMapForMeta then Some ''meta''
      else if i = kOptionModifierMapForSuper then Some ''super''
      else if i = kOptionHeartbeat then Some ''heartbeat''
      else if i = kOptionScreenSwitchCorners then Some ''switchCorners''
      else if i = kOptionScreenSwitchCornerSize then Some ''switchCornerSize''
      else if i = kOptionScreenSwitchDelay then Some ''switchDelay''
      else if i = kOptionScreenSwitchTwoTap then Some ''switchDoubleTap''
      else if i = kOptionScreenSwitchNeedsShift then Some ''switchNeedsShift''
      else if i = kOptionScreenSwitchNeedsControl then Some ''switchNeedsControl''
      else if i = kOptionScreenSwitchNeedsAlt then Some ''switchNeedsAlt''
      else if i = kOptionScreenSaverSync then Some ''screenSaverSync''
      else if i = kOptionXTestXineramaUnaware then Some ''xtestIsXineramaUnaware''
      else if i = kOptionRelativeMouseMoves then Some ''relativeMouseMoves''
      else if i = kOptionWin32KeepForeground then Some ''win32KeepForeground''
      else if i = kOptionScreenPreserveFocus then Some ''preserveFocus''
      else if i = kOptionClipboardSharing then Some ''clipboardSharing''
      else if i = kOptionClipboardSharingSize then Some ''clipboardSharingSize''
      else None)"

definition boolean_options :: "nat list" where
  "boolean_options = [kOptionHalfDuplexCapsLock, kOptionHalfDuplexNumLock, kOptionHalfDuplexScrollLock,
     kOptionScreenSwitchNeedsShift, kOptionScreenSwitchNeedsControl, kOptionScreenSwitchNeedsAlt, kOptionScreenSaverSync,
     kOptionXTestXineramaUnaware, kOptionRelativeMouseMoves, kOptionWin32KeepForeground, kOptionScreenPreserveFocus,
     kOptionClipboardSharing, kOptionClipboardSharingSize]"

definition modifier_map_options :: "nat list" where
  "modifier_map_options = [kOptionModifierMapForShift, kOptionModifierMapForControl, kOptionModifierMapForAlt,
     kOptionModifierMapForAltGr, kOptionModifierMapForMeta, kOptionModifierMapForSuper]"

definition integer_options :: "nat list" where
  "integer_options = [kOptionHeartbeat, kOptionScreenSwitchCornerSize, kOptionScreenSwitchDelay, kOptionScreenSwitchTwoTap]"

definition modifier_name :: "int \<Rightarrow> string" where
  "modifier_name v =
     (if v = int kKeyModifierIDShift then ''shift''
      else if v = int kKeyModifierIDControl then ''ctrl''
      else if v = int kKeyModifierIDAlt then ''alt''
      else if v = int kKeyModifierIDAltGr then ''altgr''
      else if v = int kKeyModifierIDMeta then ''meta''
      else if v = int kKeyModifierIDSuper then ''super''
      else ''none'')"

definition corners_text :: "int \<Rightarrow> string" where
  "corners_text v =
     ''none'' @
     (if v AND uint kTopLeftMask \<noteq> 0 then '' +top-left'' else []) @
     (if v AND uint kTopRightMask \<noteq> 0 then '' +top-right'' else []) @
     (if v AND uint kBottomLeftMask \<noteq> 0 then '' +bottom-left'' else []) @
     (if v AND uint kBottomRightMask \<noteq> 0 then '' +bottom-right'' else [])"

text \<open>\<^verbatim>\<open>sprintf("%d", v)\<close>\<close>

definition int_text :: "int \<Rightarrow> string" where
  "int_text v = (if v < 0 then CHR ''-'' # sizeTypeToString (nat (- v)) else sizeTypeToString (nat v))"

definition getOptionValue :: "nat \<Rightarrow> int \<Rightarrow> string" where
  "getOptionValue i v =
     (if i \<in> set boolean_options then (if v \<noteq> 0 then ''true'' else ''false'')
      else if i \<in> set modifier_map_options then modifier_name v
      else if i \<in> set integer_options then int_text v
      else if i = kOptionScreenSwitchCorners then corners_text v
      else [])"

subsection \<open>The sections\<close>

abbreviation (input) newline :: char where "newline \<equiv> CHR 0x0A"
abbreviation (input) tabulator :: char where "tabulator \<equiv> CHR 0x09"

definition dirName :: "EDirection \<Rightarrow> string option" where
  "dirName dir =
     (case dir of kNoDirection \<Rightarrow> None | kLeft \<Rightarrow> Some ''left'' | kRight \<Rightarrow> Some ''right'' | kTop \<Rightarrow> Some ''up'' | kBottom \<Rightarrow> Some ''down'')"

text \<open>A bound as a whole percentage, computed in single precision.\<close>

definition to_percent :: "rat \<Rightarrow> int" where
  "to_percent x = truncate_rat (fl32 (fl32 (x * 100) + 1 / 2))"

definition formatInterval :: "rat \<Rightarrow> rat \<Rightarrow> string" where
  "formatInterval a b =
     (if a = 0 \<and> b = 1 then []
      else ''('' @ int_text (to_percent a) @ '','' @ int_text (to_percent b) @ '')'')"

definition option_lines :: "string \<Rightarrow> screen_options \<Rightarrow> string list" where
  "option_lines indent opts =
     concat (map (\<lambda>(i, v). case getOptionName i of
         None \<Rightarrow> []
       | Some name \<Rightarrow> if getOptionValue i v \<noteq> [] then [indent @ name @ '' = '' @ getOptionValue i v @ [newline]] else []) opts)"

definition screen_block :: "('a, 'r) config \<Rightarrow> string \<Rightarrow> string" where
  "screen_block c screen =
     tabulator # screen @ CHR '':'' # newline #
     (case getOptions c screen of None \<Rightarrow> [] | Some opts \<Rightarrow> concat (option_lines [tabulator, tabulator] opts))"

fun concat_all :: "string option list \<Rightarrow> string option" where
  "concat_all [] = Some []"
| "concat_all (x # xs) = (case (x, concat_all xs) of (Some s, Some t) \<Rightarrow> Some (s @ t) | _ \<Rightarrow> None)"

definition neighbors :: "('a, 'r) config \<Rightarrow> string \<Rightarrow> (cell_edge \<times> cell_edge) list option" where
  "neighbors c srcName = map_option (\<lambda>(_, cl). m_neighbors cl) (find_screen c (getCanonicalName c srcName))"

definition link_text :: "cell_edge \<times> cell_edge \<Rightarrow> string option" where
  "link_text l =
     (case l of (k, v) \<Rightarrow>
        map_option (\<lambda>side. tabulator # tabulator # side @ formatInterval (ce_first k) (ce_second k) @ '' = '' @ ce_name v @
          formatInterval (ce_first v) (ce_second v) @ [newline]) (dirName (ce_side k)))"

definition link_block :: "('a, 'r) config \<Rightarrow> string \<Rightarrow> string option" where
  "link_block c screen =
     (case neighbors c screen of
        None \<Rightarrow> None
      | Some ls \<Rightarrow> map_option (\<lambda>t. tabulator # screen @ CHR '':'' # newline # t) (concat_all (map link_text ls)))"

text \<open>\<^verbatim>\<open>std::multimap::insert\<close> puts an entry behind those that it is not less than.\<close>

fun mm_insert :: "('k \<Rightarrow> 'k \<Rightarrow> bool) \<Rightarrow> 'k \<Rightarrow> 'v \<Rightarrow> ('k \<times> 'v) list \<Rightarrow> ('k \<times> 'v) list" where
  "mm_insert lt k v [] = [(k, v)]"
| "mm_insert lt k v ((j, w) # m) = (if lt k j then (k, v) # (j, w) # m else (j, w) # mm_insert lt k v m)"

definition alias_map :: "(string \<times> string) list \<Rightarrow> (string \<times> string) list" where
  "alias_map names = foldl (\<lambda>m (n, t). if n \<noteq> t then mm_insert caseless_less t n m else m) [] names"

fun alias_lines :: "string \<Rightarrow> (string \<times> string) list \<Rightarrow> string" where
  "alias_lines screen [] = []"
| "alias_lines screen ((t, n) # m) =
     (if t \<noteq> screen then tabulator # t @ [CHR '':'', newline] else []) @ tabulator # tabulator # n @ newline # alias_lines t m"

definition alias_section :: "('a, 'r) config \<Rightarrow> string" where
  "alias_section c =
     (if length (cfg_map c) \<noteq> length (cfg_names c)
      then ''section: aliases'' @ newline # alias_lines [] (alias_map (cfg_names c)) @ ''end'' @ [newline] else [])"

definition options_section :: "'n full_config \<Rightarrow> string" where
  "options_section c =
     ''section: options'' @ newline #
     (case getOptions c [] of None \<Rightarrow> [] | Some opts \<Rightarrow> concat (option_lines [tabulator] opts)) @
     (if isValid (cfg_listen_address c)
      then tabulator # ''address = '' @ na_hostname (cfg_listen_address c) @ [newline] else []) @
     format_rules (cfg_rules c) [tabulator] @ ''end'' @ [newline]"

definition Config_write :: "'n full_config \<Rightarrow> string option" where
  "Config_write c =
     (case concat_all (map (\<lambda>(n, _). link_block c n) (cfg_map c)) of
        None \<Rightarrow> None
      | Some links \<Rightarrow> Some (
          ''section: screens'' @ newline # concat (map (\<lambda>(n, _). screen_block c n) (cfg_map c)) @ ''end'' @ newline #
          ''section: links'' @ newline # links @ ''end'' @ newline #
          alias_section c @ options_section c))"

end
