(* ===== verification/ConfigLines.thy ===== *)
theory ConfigLines
  imports ConfigWrite
begin

text \<open>
  What the reader makes of text in the form in which it is written: lines, names with arguments, and values. These
  lemmas carry the round trip of whole configurations.
\<close>

subsection \<open>Lines and sections\<close>

definition good_line :: "string \<Rightarrow> bool" where
  "good_line b \<longleftrightarrow> b \<noteq> [] \<and> (\<forall>c \<in> set b. line_char c \<and> c \<noteq> CHR ''#'') \<and> \<not> is_blank (hd b) \<and> \<not> is_blank (last b)"

lemma valid_not_line [simp]: "\<not> line_char (CHR 0x0A)" "\<not> line_char (CHR 0x0D)"
  by (simp_all add: line_char_def isgraph_def is_blank_def)

lemma blank_not_newline [simp]: "\<not> is_blank (CHR 0x0A)"
  by (simp add: is_blank_def)

lemma dropWhile_blanks: "list_all is_blank ws \<Longrightarrow> dropWhile is_blank (ws @ s) = dropWhile is_blank s"
  by (simp add: list_all_iff dropWhile_append2)

lemma dropWhile_start: "s \<noteq> [] \<Longrightarrow> \<not> P (hd s) \<Longrightarrow> dropWhile P s = s"
  by (cases s) auto

lemma clean_good: "good_line b \<Longrightarrow> list_all is_blank ws \<Longrightarrow> clean_line (ws @ b) = b"
proof -
  assume b: "good_line b" and ws: "list_all is_blank ws"
  then have n: "b \<noteq> []" "\<not> is_blank (hd b)" "\<not> is_blank (last b)" "\<forall>c \<in> set b. line_char c \<and> c \<noteq> CHR ''#''"
    by (auto simp: good_line_def)
  then have h: "hd b \<noteq> CHR 0x0D" "last b \<noteq> CHR 0x0D" using hd_in_set last_in_set valid_not_line by metis+
  have "\<not> list_all is_blank (ws @ b)" using n(1,2) hd_in_set by (auto simp: list_all_iff)
  moreover have "dropWhile is_blank (ws @ b) = b" using n ws by (simp add: dropWhile_blanks dropWhile_start)
  moreover have "takeWhile (\<lambda>c. c \<noteq> CHR ''#'') b = b" using n(4) by (simp add: takeWhile_eq_all_conv)
  moreover have "\<not> list_all (\<lambda>c. is_blank c \<or> c = CHR 0x0D) b" using n(1,2) h hd_in_set by (auto simp: list_all_iff)
  moreover have "dropWhile (\<lambda>c. is_blank c \<or> c = CHR 0x0D) (rev b) = rev b"
    using n(1,3) h by (intro dropWhile_start) (simp_all add: hd_rev)
  ultimately show ?thesis unfolding clean_line_def Let_def by (simp only: if_False rev_rev_ident)
qed

abbreviation rc_at :: "string \<Rightarrow> nat \<Rightarrow> read_context" where
  "rc_at s k \<equiv> \<lparr>rc_text = s, rc_ok = True, rc_line = k\<rparr>"

lemma readLine_good:
  assumes "good_line b" "list_all is_blank ws"
  shows "readLine (rc_at (ws @ b @ newline # rest) k) = Inr (Some b, rc_at rest (Suc k))"
proof -
  have "newline \<notin> set ws" using assms(2) by (auto simp: list_all_iff)
  moreover have "newline \<notin> set b" using assms(1) valid_not_line(1) unfolding good_line_def by blast
  ultimately have "getline ((ws @ b) @ newline # rest) = Some (ws @ b, rest)"
    using takeWhile_until [of newline "ws @ b" rest] by (simp add: getline_def)
  moreover have "List.find (\<lambda>c. \<not> line_char c) b = None" using assms(1) by (simp add: find_None_iff good_line_def)
  moreover have "b \<noteq> []" using assms(1) by (simp add: good_line_def)
  ultimately show ?thesis using clean_good [OF assms] by (simp add: readLine_def readLine_loop.simps)
qed

inductive line_steps :: "(nat \<Rightarrow> string \<Rightarrow> 's \<Rightarrow> read_failure + 's) \<Rightarrow> string list \<Rightarrow> 's \<Rightarrow> 's \<Rightarrow> bool" for f where
  line_steps_nil: "line_steps f [] st st"
| line_steps_cons: "(\<And>n. f n b st = Inr st1) \<Longrightarrow> line_steps f bs st1 st' \<Longrightarrow> line_steps f (b # bs) st st'"

inductive_simps line_steps_Nil [simp]: "line_steps f [] st st'"

lemma line_steps_append: "line_steps f bs st st1 \<Longrightarrow> line_steps f bs' st1 st' \<Longrightarrow> line_steps f (bs @ bs') st st'"
  by (induction rule: line_steps.induct) (auto intro: line_steps.intros)

lemma line_steps_one: "(\<And>n. f n b st = Inr st') \<Longrightarrow> line_steps f [b] st st'"
  by (auto intro: line_steps.intros)

definition render :: "(string \<times> string) list \<Rightarrow> string" where
  "render ls = concat (map (\<lambda>(ws, b). ws @ b @ [newline]) ls)"

lemma render_simps [simp]:
  "render [] = []" "render ((ws, b) # ls) = ws @ b @ newline # render ls" "render (ls @ ls') = render ls @ render ls'"
  by (simp_all add: render_def)

definition good_lines :: "(string \<times> string) list \<Rightarrow> bool" where
  "good_lines ls \<longleftrightarrow> (\<forall>(ws, b) \<in> set ls. good_line b \<and> list_all is_blank ws \<and> b \<noteq> ''end'')"

lemma good_lines_simps [simp]:
  "good_lines []" "good_lines ((ws, b) # ls) \<longleftrightarrow> (good_line b \<and> list_all is_blank ws \<and> b \<noteq> ''end'') \<and> good_lines ls"
  "good_lines (ls @ ls') \<longleftrightarrow> good_lines ls \<and> good_lines ls'"
  by (auto simp: good_lines_def)

lemma good_end: "good_line ''end''"
  by (simp add: good_line_def line_char_def isgraph_def is_blank_def)

lemma section_lines:
  assumes "line_steps f (map snd ls) st st'" "good_lines ls"
  shows "\<exists>k'. section_loop f sec st (rc_at (render ls @ ''end'' @ newline # rest) k) = Inr (st', rc_at rest k')"
  using assms
proof (induction ls arbitrary: st k)
  case Nil
  have "readLine (rc_at (''end'' @ newline # rest) k) = Inr (Some ''end'', rc_at rest (Suc k))"
    using readLine_good [OF good_end, of "[]"] by simp
  then show ?case using Nil by (subst section_loop.simps) simp
next
  case (Cons l ls)
  obtain ws b where l: "l = (ws, b)" by force
  from Cons.prems(1) l obtain st1 where st1: "\<And>n. f n b st = Inr st1" "line_steps f (map snd ls) st1 st'"
    by (auto elim: line_steps.cases)
  have g: "good_line b" "list_all is_blank ws" "b \<noteq> ''end''" "good_lines ls" using Cons.prems(2) l by simp_all
  have "readLine (rc_at (render (l # ls) @ ''end'' @ newline # rest) k) = Inr (Some b, rc_at (render ls @ ''end'' @ newline # rest) (Suc k))"
    using readLine_good [OF g(1,2), of "render ls @ ''end'' @ newline # rest" k] l by simp
  then have "section_loop f sec st (rc_at (render (l # ls) @ ''end'' @ newline # rest) k) =
      section_loop f sec st1 (rc_at (render ls @ ''end'' @ newline # rest) (Suc k))"
    using st1(1) g(3) by (subst section_loop.simps) simp
  then show ?case using Cons.IH [OF st1(2) g(4)] by metis
qed

lemma good_section:
  "good_line ''section: screens''" "good_line ''section: links''" "good_line ''section: aliases''" "good_line ''section: options''"
  by (simp_all add: good_line_def line_char_def isgraph_def is_blank_def)

lemma section_names:
  "section_name n ''section: screens'' = Inr ''screens''" "section_name n ''section: links'' = Inr ''links''"
  "section_name n ''section: aliases'' = Inr ''aliases''" "section_name n ''section: options'' = Inr ''options''"
  by (simp_all add: section_name_def is_blank_def)

lemma section_head:
  assumes "good_line b"
  shows "readLine (rc_at (b @ newline # rest) k) = Inr (Some b, rc_at rest (Suc k))"
  using readLine_good [OF assms, of "[]"] by simp

lemma read_sections:
  shows "line_steps screens_line (map snd ls) (c, []) (c', scr) \<Longrightarrow> good_lines ls \<Longrightarrow>
      \<exists>k'. readSection net c (rc_at (''section: screens'' @ newline # render ls @ ''end'' @ newline # rest) k) = Inr (c', rc_at rest k')"
    and "line_steps links_line (map snd ls) (c, []) (c', scr) \<Longrightarrow> good_lines ls \<Longrightarrow>
      \<exists>k'. readSection net c (rc_at (''section: links'' @ newline # render ls @ ''end'' @ newline # rest) k) = Inr (c', rc_at rest k')"
    and "line_steps aliases_line (map snd ls) (c, []) (c', scr) \<Longrightarrow> good_lines ls \<Longrightarrow>
      \<exists>k'. readSection net c (rc_at (''section: aliases'' @ newline # render ls @ ''end'' @ newline # rest) k) = Inr (c', rc_at rest k')"
    and "line_steps (options_line net) (map snd ls) c c' \<Longrightarrow> good_lines ls \<Longrightarrow>
      \<exists>k'. readSection net c (rc_at (''section: options'' @ newline # render ls @ ''end'' @ newline # rest) k) = Inr (c', rc_at rest k')"
proof -
  note h = section_head [OF good_section(1)] section_head [OF good_section(2)] section_head [OF good_section(3)] section_head [OF good_section(4)]
  show "\<exists>k'. readSection net c (rc_at (''section: screens'' @ newline # render ls @ ''end'' @ newline # rest) k) = Inr (c', rc_at rest k')"
    if "line_steps screens_line (map snd ls) (c, []) (c', scr)" "good_lines ls"
    using section_lines [OF that, of "''screens''" rest "Suc k"]
    by (auto simp only: readSection_def readSectionScreens_def h section_names and_then_simps prod.case option.case) simp
  show "\<exists>k'. readSection net c (rc_at (''section: links'' @ newline # render ls @ ''end'' @ newline # rest) k) = Inr (c', rc_at rest k')"
    if "line_steps links_line (map snd ls) (c, []) (c', scr)" "good_lines ls"
    using section_lines [OF that, of "''links''" rest "Suc k"]
    by (auto simp only: readSection_def readSectionLinks_def h section_names and_then_simps prod.case option.case) simp
  show "\<exists>k'. readSection net c (rc_at (''section: aliases'' @ newline # render ls @ ''end'' @ newline # rest) k) = Inr (c', rc_at rest k')"
    if "line_steps aliases_line (map snd ls) (c, []) (c', scr)" "good_lines ls"
    using section_lines [OF that, of "''aliases''" rest "Suc k"]
    by (auto simp only: readSection_def readSectionAliases_def h section_names and_then_simps prod.case option.case) simp
  show "\<exists>k'. readSection net c (rc_at (''section: options'' @ newline # render ls @ ''end'' @ newline # rest) k) = Inr (c', rc_at rest k')"
    if "line_steps (options_line net) (map snd ls) c c'" "good_lines ls"
    using section_lines [OF that, of "''options''" rest "Suc k"]
    by (auto simp only: readSection_def readSectionOptions_def h section_names and_then_simps prod.case option.case) simp
qed

subsection \<open>Names with arguments\<close>

definition good_arg :: "string \<Rightarrow> bool" where
  "good_arg a \<longleftrightarrow> a \<noteq> [] \<and> (\<forall>c \<in> set a. \<not> ends_arg c \<and> \<not> is_blank c)"

lemma good_arg_trim: "good_arg a \<Longrightarrow> trim_arg a = a \<and> \<not> list_all is_blank a"
  using no_blank_trim [of a] by (cases a) (auto simp: good_arg_def trim_arg_def list_all_iff)

lemma args_loop_list:
  assumes "args \<noteq> []" "\<forall>a \<in> set args. good_arg a"
  shows "args_loop n (arg_list args @ CHR '')'' # rest) acc = Inr (acc @ args, rest)"
  using assms
proof (induction args arbitrary: acc rule: arg_list.induct)
  case (2 x)
  then show ?case using args_loop_end [of x n rest acc] good_arg_trim [of x] by (simp add: good_arg_def)
next
  case (3 x y xs)
  have "args_loop n (x @ CHR '','' # arg_list (y # xs) @ CHR '')'' # rest) acc =
      args_loop n (arg_list (y # xs) @ CHR '')'' # rest) (acc @ [x])"
    using 3(3) good_arg_trim [of x] args_loop_more [of x n _ acc] by (simp add: good_arg_def)
  then show ?case using 3(1) [of "acc @ [x]"] 3(3) by simp
qed simp

lemma pn_split:
  assumes "list_all is_blank ws" "\<forall>c \<in> set name. \<not> ends_name delim c" "name \<noteq> [] \<or> (rest \<noteq> [] \<and> \<not> is_blank (hd rest))"
    and "rest = [] \<or> ends_name delim (hd rest)"
  shows "dropWhile is_blank (ws @ name @ rest) = name @ rest" "takeWhile (\<lambda>c. \<not> ends_name delim c) (name @ rest) = name"
    "dropWhile (\<lambda>c. \<not> ends_name delim c) (name @ rest) = rest" "name @ rest \<noteq> []"
proof -
  have "\<not> is_blank (hd (name @ rest))" using assms(2,3) by (cases name) (auto simp: ends_name_def)
  then show "dropWhile is_blank (ws @ name @ rest) = name @ rest"
    using assms(1,3) dropWhile_start [of "name @ rest" is_blank] by (simp only: dropWhile_blanks) auto
  show "takeWhile (\<lambda>c. \<not> ends_name delim c) (name @ rest) = name" "dropWhile (\<lambda>c. \<not> ends_name delim c) (name @ rest) = rest"
    using assms(2,4) by (cases rest; simp add: takeWhile_append2 dropWhile_append2)+
  show "name @ rest \<noteq> []" using assms(3) by auto
qed

lemma pn_plain:
  assumes "list_all is_blank ws" "\<forall>c \<in> set name. \<not> ends_name delim c" "name \<noteq> [] \<or> (rest \<noteq> [] \<and> \<not> is_blank (hd rest))"
    and "rest = [] \<or> ends_name delim (hd rest)" "dropWhile is_blank rest = r2"
    and "r2 = [] \<Longrightarrow> \<not> need_delim delim" "r2 \<noteq> [] \<Longrightarrow> hd r2 \<noteq> CHR ''(''"
  shows "parseNameWithArgs n t (ws @ name @ rest) delim = Inr (name, [], r2)"
  using assms(5-7) unfolding parseNameWithArgs_def pn_split [OF assms(1-4)] Let_def by (cases "r2 = []") (simp_all add: pn_split(4) [OF assms(1-4), simplified])

lemma pn_args:
  assumes "list_all is_blank ws" "\<forall>c \<in> set name. \<not> ends_name delim c" "name \<noteq> []"
    and "args \<noteq> []" "\<forall>a \<in> set args. good_arg a" "dropWhile is_blank rest = r4"
    and "need_delim delim \<Longrightarrow> r4 \<noteq> [] \<and> hd r4 \<in> set delim"
  shows "parseNameWithArgs n t (ws @ name @ ''('' @ arg_list args @ '')'' @ rest) delim = Inr (name, args, r4)"
proof -
  let ?rest = "''('' @ arg_list args @ '')'' @ rest"
  have s: "name \<noteq> [] \<or> (?rest \<noteq> [] \<and> \<not> is_blank (hd ?rest))" "?rest = [] \<or> ends_name delim (hd ?rest)"
    using assms(3) by (simp_all add: ends_name_def)
  have "dropWhile is_blank ?rest = ?rest" by (simp add: is_blank_def)
  then show ?thesis
    using assms(3,6,7) args_loop_list [OF assms(4,5), of n rest "[]"]
    unfolding parseNameWithArgs_def pn_split [OF assms(1,2) s] Let_def
    by (cases "need_delim delim") (simp_all del: dropWhile_eq_Nil_conv)
qed

subsection \<open>Values\<close>

lemma boolean_read: "v \<in> {0, 1} \<Longrightarrow> parseBoolean n (if v \<noteq> 0 then ''true'' else ''false'') = Inr v"
  by (auto simp: parseBoolean_def caseless_equal_iff tolower_letters)

lemma modifier_read: "0 \<le> v \<Longrightarrow> v \<le> 6 \<Longrightarrow> parseModifierKey n (modifier_name v) = Inr v"
proof -
  assume "0 \<le> v" "v \<le> 6"
  then have "v \<in> {0, 1, 2, 3, 4, 5, 6}" by auto
  then show ?thesis
    by (auto simp: parseModifierKey_def modifier_name_def caseless_equal_iff tolower_letters modifier_ids)
qed

lemma digits_facts: "sizeTypeToString n \<noteq> []" "\<forall>c \<in> set (sizeTypeToString n). is_digit c" "decimal_value (sizeTypeToString n) = n"
  using sizeTypeToString_digits [of n] by (auto simp: list_all_iff)

lemma digits_span [simp]:
  "takeWhile is_digit (sizeTypeToString n) = sizeTypeToString n" "dropWhile is_digit (sizeTypeToString n) = []"
  using digits_facts(2) [of n] by (auto simp: takeWhile_eq_all_conv)

lemma strtol_negative:
  assumes "n \<le> 2 ^ 63"
  shows "strtol (CHR ''-'' # sizeTypeToString n) = (Some (- int n), [])"
proof -
  have "\<not> is_space (CHR ''-'')" by (simp add: is_space_def)
  then show ?thesis using assms digits_facts(1,3) [of n] by (simp add: strtol_def Let_def)
qed

lemma int_read:
  assumes "- (2 ^ 31) \<le> v" "v < 2 ^ 31"
  shows "parseInt n (int_text v) = Inr v"
proof -
  have "strtol (int_text v) = (Some v, [])"
    using strtol_negative [of "nat (- v)"] strtol_decimal [of "nat v"] assms by (simp add: int_text_def)
  then show ?thesis using assms to_int32_id [of v] by (simp add: parseInt_def strtol_value_def)
qed

lemma corners_read: "0 \<le> v \<Longrightarrow> v < 16 \<Longrightarrow> parseCorners n (corners_text v) = Inr v"
proof -
  assume "0 \<le> v" "v < 16"
  then have "v = 0 \<or> v = 1 \<or> v = 2 \<or> v = 3 \<or> v = 4 \<or> v = 5 \<or> v = 6 \<or> v = 7 \<or> v = 8 \<or> v = 9 \<or> v = 10 \<or> v = 11 \<or>
      v = 12 \<or> v = 13 \<or> v = 14 \<or> v = 15" by presburger
  then show ?thesis
    by (elim disjE)
       (simp_all add: corners_text_def parseCorners_def corners_loop.simps parseCorner_def caseless_equal_iff tolower_letters is_blank_def
          kTopLeftMask_def kTopRightMask_def kBottomLeftMask_def kBottomRightMask_def kNoCornerMask_def)
qed

end
