(* ===== verification/ConfigOptions.thy ===== *)
theory ConfigOptions
  imports ConfigLines
begin

text \<open>
  The lines of options, links and screens read back: for every option that the section of screens or of options
  knows, with a value in its range, and for every link whose ends are whole percentages.
\<close>

subsection \<open>Characters of names\<close>

definition word_char :: "char \<Rightarrow> bool" where
  "word_char c \<longleftrightarrow> isalnum c \<or> c \<in> {CHR ''_'', CHR ''-'', CHR ''.''}"

definition name_chars :: "string \<Rightarrow> bool" where
  "name_chars s \<longleftrightarrow> s \<noteq> [] \<and> (\<forall>c \<in> set s. word_char c)"

lemma word_char_facts:
  "word_char c \<Longrightarrow> line_char c" "word_char c \<Longrightarrow> \<not> is_blank c" "word_char c \<Longrightarrow> \<not> ends_arg c"
  "word_char c \<Longrightarrow> c \<notin> {CHR ''#'', CHR ''('', CHR '','', CHR '';'', CHR ''='', CHR '':'', CHR ''*'', CHR ''['', CHR 0x0A, CHR ''+'', CHR '')''}"
  by (auto simp: word_char_def isalnum_def line_char_def isgraph_def is_blank_def ends_arg_def Let_def)

lemma word_char_lower: "word_char (tolower c) = word_char c"
proof (cases "65 \<le> (of_char c :: nat) \<and> (of_char c :: nat) \<le> 90")
  case True
  then have "tolower c = char_of (of_char c + 32 :: nat)" by (simp add: tolower_def)
  moreover have "(of_char (char_of (of_char c + 32 :: nat) :: char) :: nat) = of_char c + 32" using True by simp
  ultimately show ?thesis using True by (simp add: word_char_def isalnum_def)
next
  case False
  then have "tolower c = c" by (auto simp: tolower_def Let_def)
  then show ?thesis by simp
qed

lemma name_chars_lower: "map tolower a = map tolower b \<Longrightarrow> name_chars a \<Longrightarrow> name_chars b"
proof -
  assume a: "map tolower a = map tolower b" "name_chars a"
  have "\<forall>c \<in> set (map tolower b). word_char c" using a by (simp flip: a(1) add: name_chars_def word_char_lower)
  moreover have "b \<noteq> []" using a by (auto simp: name_chars_def)
  ultimately show "name_chars b" by (simp add: name_chars_def word_char_lower)
qed

lemma valid_part_chars: "valid_part p \<Longrightarrow> \<forall>c \<in> set p. word_char c"
  by (auto simp: valid_part_def word_char_def)

lemma valid_parts_chars: "valid_parts s \<Longrightarrow> \<forall>c \<in> set s. word_char c"
proof (induction s rule: valid_parts.induct)
  case (1 s)
  show ?case
  proof (cases "s = []")
    case False
    let ?p = "takeWhile (\<lambda>x. x \<noteq> CHR ''.'') s" and ?r = "dropWhile (\<lambda>x. x \<noteq> CHR ''.'') s"
    have v: "valid_part ?p" "case ?r of [] \<Rightarrow> True | _ # r \<Rightarrow> valid_parts r"
      using 1(2) False by (subst (asm) valid_parts.simps, simp add: Let_def)+
    have "\<forall>c \<in> set ?r. word_char c"
    proof (cases ?r)
      case (Cons x r)
      then have "x = CHR ''.''" by (metis (mono_tags) hd_dropWhile list.distinct(1) list.sel(1))
      then show ?thesis using Cons v(2) 1(1) [OF False refl refl, of x r] by (simp add: word_char_def)
    next
      case Nil
      then show ?thesis unfolding Nil by simp
    qed
    moreover have "s = ?p @ ?r" by simp
    ultimately show ?thesis using valid_part_chars [OF v(1)] by (metis Un_iff set_append)
  qed simp
qed

lemma valid_name_chars: "isValidScreenName s \<Longrightarrow> name_chars s"
  unfolding isValidScreenName_def name_chars_def using valid_parts_chars by blast

lemma name_chars_good: "name_chars s \<Longrightarrow> good_line s" "name_chars s \<Longrightarrow> good_line (s @ '':'')"
proof -
  assume n: "name_chars s"
  then have "word_char (hd s)" "word_char (last s)" by (auto simp: name_chars_def)
  then show "good_line s" "good_line (s @ '':'')"
    using n word_char_facts by (auto simp: good_line_def name_chars_def line_char_def isgraph_def is_blank_def)
qed

lemma name_chars_not_end: "name_chars s \<Longrightarrow> last s \<noteq> CHR '':'' \<and> s @ '':'' \<noteq> ''end'' \<and> last (s @ '':'') = CHR '':'' \<and> butlast (s @ '':'') = s"
proof -
  assume n: "name_chars s"
  then have "word_char (last s)" by (simp add: name_chars_def)
  moreover have "s @ '':'' \<noteq> ''end''"
  proof
    assume "s @ '':'' = ''end''"
    then have "last (s @ '':'') = last ''end''" by metis
    then show False by simp
  qed
  ultimately show ?thesis using word_char_facts(4) by auto
qed

subsection \<open>A name, its arguments and a delimiter\<close>

definition args_text :: "string list \<Rightarrow> string" where
  "args_text args = (if args = [] then [] else ''('' @ arg_list args @ '')'')"

lemma pn_named:
  assumes "list_all is_blank ws" "\<forall>c \<in> set name. \<not> ends_name delim c" "name \<noteq> []" "\<forall>a \<in> set args. good_arg a"
    and "rest = [] \<or> ends_name delim (hd rest)" "dropWhile is_blank rest = r2"
    and "need_delim delim \<Longrightarrow> r2 \<noteq> [] \<and> hd r2 \<in> set delim" "r2 \<noteq> [] \<Longrightarrow> hd r2 \<noteq> CHR ''(''"
  shows "parseNameWithArgs n t (ws @ name @ args_text args @ rest) delim = Inr (name, args, r2)"
proof (cases "args = []")
  case True
  have "parseNameWithArgs n t (ws @ name @ rest) delim = Inr (name, [], r2)"
    using assms by (intro pn_plain) auto
  then show ?thesis using True by (simp add: args_text_def)
next
  case False
  then show ?thesis using pn_args [OF assms(1-3) False assms(4,6,7), of n t] by (simp add: args_text_def)
qed

subsection \<open>Options\<close>

definition int32 :: "int \<Rightarrow> bool" where
  "int32 v \<longleftrightarrow> - (2 ^ 31) \<le> v \<and> v < 2 ^ 31"

definition screen_option_ok :: "nat \<Rightarrow> int \<Rightarrow> bool" where
  "screen_option_ok i v \<longleftrightarrow>
     i \<in> {kOptionHalfDuplexCapsLock, kOptionHalfDuplexNumLock, kOptionHalfDuplexScrollLock, kOptionXTestXineramaUnaware,
          kOptionScreenPreserveFocus} \<and> v \<in> {0, 1} \<or>
     i \<in> set modifier_map_options \<and> 0 \<le> v \<and> v \<le> 6 \<or>
     i = kOptionScreenSwitchCorners \<and> 0 \<le> v \<and> v < 16 \<or>
     i = kOptionScreenSwitchCornerSize \<and> int32 v"

definition global_option_ok :: "nat \<Rightarrow> int \<Rightarrow> bool" where
  "global_option_ok i v \<longleftrightarrow>
     i \<in> {kOptionScreenSwitchNeedsShift, kOptionScreenSwitchNeedsControl, kOptionScreenSwitchNeedsAlt, kOptionScreenSaverSync,
          kOptionRelativeMouseMoves, kOptionWin32KeepForeground, kOptionClipboardSharing} \<and> v \<in> {0, 1} \<or>
     i \<in> {kOptionHeartbeat, kOptionScreenSwitchCornerSize, kOptionScreenSwitchDelay, kOptionScreenSwitchTwoTap} \<and> int32 v \<or>
     i = kOptionScreenSwitchCorners \<and> v = 0"

lemmas all_option_codes = option_codes kOptionModifierMapForShift_def kOptionModifierMapForControl_def
  kOptionModifierMapForAlt_def kOptionModifierMapForAltGr_def kOptionModifierMapForMeta_def kOptionModifierMapForSuper_def
  kOptionHalfDuplexCapsLock_def kOptionHalfDuplexNumLock_def kOptionHalfDuplexScrollLock_def kOptionScreenSaverSync_def
  kOptionXTestXineramaUnaware_def kOptionScreenPreserveFocus_def kOptionWin32KeepForeground_def

lemmas option_kinds = boolean_options_def modifier_map_options_def integer_options_def

lemma screen_option_names:
  "getOptionName kOptionHalfDuplexCapsLock = Some ''halfDuplexCapsLock''"
  "getOptionName kOptionHalfDuplexNumLock = Some ''halfDuplexNumLock''"
  "getOptionName kOptionHalfDuplexScrollLock = Some ''halfDuplexScrollLock''"
  "getOptionName kOptionModifierMapForShift = Some ''shift''"
  "getOptionName kOptionModifierMapForControl = Some ''ctrl''"
  "getOptionName kOptionModifierMapForAlt = Some ''alt''"
  "getOptionName kOptionModifierMapForAltGr = Some ''altgr''"
  "getOptionName kOptionModifierMapForMeta = Some ''meta''"
  "getOptionName kOptionModifierMapForSuper = Some ''super''"
  "getOptionName kOptionHeartbeat = Some ''heartbeat''"
  "getOptionName kOptionScreenSwitchCorners = Some ''switchCorners''"
  "getOptionName kOptionScreenSwitchCornerSize = Some ''switchCornerSize''"
  "getOptionName kOptionScreenSwitchDelay = Some ''switchDelay''"
  "getOptionName kOptionScreenSwitchTwoTap = Some ''switchDoubleTap''"
  "getOptionName kOptionScreenSwitchNeedsShift = Some ''switchNeedsShift''"
  "getOptionName kOptionScreenSwitchNeedsControl = Some ''switchNeedsControl''"
  "getOptionName kOptionScreenSwitchNeedsAlt = Some ''switchNeedsAlt''"
  "getOptionName kOptionScreenSaverSync = Some ''screenSaverSync''"
  "getOptionName kOptionXTestXineramaUnaware = Some ''xtestIsXineramaUnaware''"
  "getOptionName kOptionRelativeMouseMoves = Some ''relativeMouseMoves''"
  "getOptionName kOptionWin32KeepForeground = Some ''win32KeepForeground''"
  "getOptionName kOptionScreenPreserveFocus = Some ''preserveFocus''"
  "getOptionName kOptionClipboardSharing = Some ''clipboardSharing''"
  "getOptionName kOptionClipboardSharingSize = Some ''clipboardSharingSize''"
  by (simp_all add: getOptionName_def all_option_codes)

lemma option_values:
  "i \<in> set boolean_options \<Longrightarrow> getOptionValue i v = (if v \<noteq> 0 then ''true'' else ''false'')"
  "i \<in> set modifier_map_options \<Longrightarrow> getOptionValue i v = modifier_name v"
  "i \<in> set integer_options \<Longrightarrow> getOptionValue i v = int_text v"
  "getOptionValue kOptionScreenSwitchCorners v = corners_text v"
proof -
  have "set boolean_options \<inter> set modifier_map_options = {}" "(set boolean_options \<union> set modifier_map_options) \<inter> set integer_options = {}"
    "kOptionScreenSwitchCorners \<notin> set boolean_options \<union> set modifier_map_options \<union> set integer_options"
    by (simp_all add: option_kinds all_option_codes)
  then show "i \<in> set boolean_options \<Longrightarrow> getOptionValue i v = (if v \<noteq> 0 then ''true'' else ''false'')"
    "i \<in> set modifier_map_options \<Longrightarrow> getOptionValue i v = modifier_name v"
    "i \<in> set integer_options \<Longrightarrow> getOptionValue i v = int_text v"
    "getOptionValue kOptionScreenSwitchCorners v = corners_text v"
    by (auto simp: getOptionValue_def)
qed

text \<open>Text that stands on a line behind an equals sign and is read as one word.\<close>

definition value_text :: "string \<Rightarrow> bool" where
  "value_text v \<longleftrightarrow> v \<noteq> [] \<and> (\<forall>c \<in> set v. line_char c \<and> c \<notin> {CHR ''#'', CHR ''('', CHR '','', CHR '';''} \<and> \<not> is_blank c)"

lemma digit_value: "is_digit c \<Longrightarrow> line_char c \<and> c \<notin> {CHR ''#'', CHR ''('', CHR '','', CHR '';''} \<and> \<not> is_blank c"
  by (auto simp: is_digit_def line_char_def isgraph_def is_blank_def)

lemma int_value_text: "value_text (int_text v)"
  using digits_facts [of "nat v"] digits_facts [of "nat (- v)"] digit_value
  by (auto simp: value_text_def int_text_def line_char_def isgraph_def is_blank_def)

lemma literal_value_text:
  "value_text ''true''" "value_text ''false''" "value_text ''none''"
  by (simp_all add: value_text_def line_char_def isgraph_def is_blank_def)

definition option_body :: "nat \<times> int \<Rightarrow> string" where
  "option_body p = (case p of (i, v) \<Rightarrow> the (getOptionName i) @ '' = '' @ getOptionValue i v)"

lemma global_option_read:
  assumes "global_option_ok i v"
  shows "\<exists>name. getOptionName i = Some name \<and> name_chars name \<and> name \<noteq> ''address'' \<and> value_text (getOptionValue i v) \<and>
    (\<forall>n. global_option n name (getOptionValue i v) = Some (i, Inr v))"
proof -
  note v = option_values(1-3) [of i v]
  have c: "corners_text 0 = ''none''" by (simp add: corners_text_def)
  consider "i \<in> {kOptionScreenSwitchNeedsShift, kOptionScreenSwitchNeedsControl, kOptionScreenSwitchNeedsAlt, kOptionScreenSaverSync,
          kOptionRelativeMouseMoves, kOptionWin32KeepForeground, kOptionClipboardSharing}" "v \<in> {0, 1}"
    | "i \<in> {kOptionHeartbeat, kOptionScreenSwitchCornerSize, kOptionScreenSwitchDelay, kOptionScreenSwitchTwoTap}" "int32 v"
    | "i = kOptionScreenSwitchCorners" "v = 0"
    using assms by (auto simp: global_option_ok_def)
  then show ?thesis
  proof cases
    case 1
    then have "getOptionValue i v = (if v \<noteq> 0 then ''true'' else ''false'')" by (intro v(1)) (auto simp: boolean_options_def)
    moreover have "value_text (getOptionValue i v)" using calculation literal_value_text by simp
    ultimately show ?thesis using 1 boolean_read [OF 1(2)]
      by (elim insertE emptyE) (simp_all add: screen_option_names global_option_def name_chars_def word_char_def isalnum_def)
  next
    case 2
    then have "getOptionValue i v = int_text v" by (intro v(3)) (auto simp: integer_options_def)
    then show ?thesis using 2(1) int_read [of v] 2(2) int_value_text [of v]
      by (elim insertE emptyE) (simp_all add: screen_option_names global_option_def name_chars_def word_char_def isalnum_def int32_def)
  next
    case 3
    then show ?thesis using corners_read [of 0] c literal_value_text
      by (simp add: option_values(4) screen_option_names global_option_def name_chars_def word_char_def isalnum_def)
  qed
qed

text \<open>The value of an option of a screen may hold blanks: it is the rest of the line.\<close>

definition line_value :: "string \<Rightarrow> bool" where
  "line_value v \<longleftrightarrow> good_line v \<and> last v \<noteq> CHR '':''"

lemma value_line: "value_text v \<Longrightarrow> last v \<noteq> CHR '':'' \<Longrightarrow> line_value v"
  by (auto simp: value_text_def line_value_def good_line_def)

lemma int_line_value: "line_value (int_text v)"
proof -
  have "is_digit (last (sizeTypeToString k))" for k using digits_facts(1,2) [of k] last_in_set by blast
  then have "is_digit (last (int_text v))" using digits_facts(1) by (auto simp: int_text_def)
  then show ?thesis by (intro value_line int_value_text) (auto simp: is_digit_def)
qed

lemma literal_line_value:
  "line_value ''true''" "line_value ''false''" "line_value (modifier_name v)"
  by (simp_all add: line_value_def good_line_def line_char_def isgraph_def is_blank_def modifier_name_def)

lemma corners_line_value: "line_value (corners_text v)"
proof -
  have "line_value (''none'' @ (if a then '' +top-left'' else []) @ (if b then '' +top-right'' else []) @
      (if c then '' +bottom-left'' else []) @ (if d then '' +bottom-right'' else []))" for a b c d
    by (cases a; cases b; cases c; cases d; simp add: line_value_def good_line_def line_char_def isgraph_def is_blank_def)
  then show ?thesis unfolding corners_text_def .
qed

lemma screen_option_read:
  assumes "screen_option_ok i v"
  shows "\<exists>name. getOptionName i = Some name \<and> name_chars name \<and> line_value (getOptionValue i v) \<and>
    (\<forall>n. screen_option n name (getOptionValue i v) = Some (i, Inr v))"
proof -
  note v = option_values(1-3) [of i v]
  consider "i \<in> {kOptionHalfDuplexCapsLock, kOptionHalfDuplexNumLock, kOptionHalfDuplexScrollLock, kOptionXTestXineramaUnaware,
          kOptionScreenPreserveFocus}" "v \<in> {0, 1}"
    | "i \<in> set modifier_map_options" "0 \<le> v" "v \<le> 6" | "i = kOptionScreenSwitchCorners" "0 \<le> v" "v < 16"
    | "i = kOptionScreenSwitchCornerSize" "int32 v"
    using assms by (auto simp: screen_option_ok_def)
  then show ?thesis
  proof cases
    case 1
    then have "getOptionValue i v = (if v \<noteq> 0 then ''true'' else ''false'')" by (intro v(1)) (auto simp: boolean_options_def)
    moreover have "line_value (getOptionValue i v)" using calculation literal_line_value by simp
    ultimately show ?thesis using 1 boolean_read [OF 1(2)]
      by (elim insertE emptyE) (simp_all add: screen_option_names screen_option_def name_chars_def word_char_def isalnum_def)
  next
    case 2
    have "i = kOptionModifierMapForShift \<or> i = kOptionModifierMapForControl \<or> i = kOptionModifierMapForAlt \<or>
        i = kOptionModifierMapForAltGr \<or> i = kOptionModifierMapForMeta \<or> i = kOptionModifierMapForSuper"
      using 2(1) by (auto simp: modifier_map_options_def)
    then show ?thesis using v(2) [OF 2(1)] modifier_read [OF 2(2,3)] literal_line_value(3) [of v]
      by (elim disjE) (simp_all add: screen_option_names screen_option_def name_chars_def word_char_def isalnum_def)
  next
    case 3
    then show ?thesis using corners_read [OF 3(2,3)] corners_line_value [of v]
      by (simp add: option_values(4) screen_option_names screen_option_def name_chars_def word_char_def isalnum_def)
  next
    case 4
    then have "getOptionValue i v = int_text v" by (intro v(3)) (auto simp: integer_options_def)
    then show ?thesis using 4(1) int_read [of v] 4(2) int_line_value [of v]
      by (simp add: screen_option_names screen_option_def name_chars_def word_char_def isalnum_def int32_def)
  qed
qed

lemma last_append_value: "v \<noteq> [] \<Longrightarrow> last (name @ '' = '' @ v) = last v"
  by simp

lemma good_append:
  assumes "name_chars name" "\<forall>c \<in> set mid. line_char c \<and> c \<noteq> CHR ''#''" "good_line v"
  shows "good_line (name @ mid @ v)"
proof -
  have n: "word_char (hd name)" "name \<noteq> []" using assms(1) unfolding name_chars_def by auto
  have "\<forall>c \<in> set name. line_char c \<and> c \<noteq> CHR ''#''" using assms(1) word_char_facts(1,4) unfolding name_chars_def by blast
  moreover have "v \<noteq> []" "\<not> is_blank (last v)" "\<forall>c \<in> set v. line_char c \<and> c \<noteq> CHR ''#''"
    using assms(3) unfolding good_line_def by blast+
  ultimately show ?thesis using n(2) word_char_facts(2) [OF n(1)] assms(2) by (simp add: good_line_def ball_Un)
qed

lemma equals_chars: "\<forall>c \<in> set '' = ''. line_char c \<and> c \<noteq> CHR ''#''"
  by (simp add: line_char_def isgraph_def is_blank_def)

lemma option_body_good:
  assumes "name_chars name" "good_line v"
  shows "good_line (name @ '' = '' @ v)" "name @ '' = '' @ v \<noteq> ''end''"
proof -
  show "good_line (name @ '' = '' @ v)" using good_append [OF assms(1) equals_chars assms(2)] .
  have "CHR ''='' \<in> set (name @ '' = '' @ v)" by simp
  moreover have "CHR ''='' \<notin> set ''end''" by simp
  ultimately show "name @ '' = '' @ v \<noteq> ''end''" by metis
qed

lemma screen_option_line:
  assumes "screen_option_ok i v" "screen \<noteq> []"
  shows "screens_line n (option_body (i, v)) (c, screen) = Inr (snd (addOption c screen i v), screen)"
proof -
  obtain name where o: "getOptionName i = Some name" "name_chars name" "line_value (getOptionValue i v)"
      "screen_option n name (getOptionValue i v) = Some (i, Inr v)" using screen_option_read [OF assms(1)] by metis
  let ?v = "getOptionValue i v"
  have v: "?v \<noteq> []" "\<not> is_blank (hd ?v)" "last ?v \<noteq> CHR '':''" using o(3) by (auto simp: line_value_def good_line_def)
  have b: "option_body (i, v) = name @ '' = '' @ ?v" using o(1) by (simp add: option_body_def)
  have w: "\<forall>c \<in> set name. \<not> (is_blank c \<or> c = CHR ''='')" "name \<noteq> []"
    using o(2) word_char_facts by (auto simp: name_chars_def)
  have t: "takeWhile (\<lambda>x. \<not> (is_blank x \<or> x = CHR ''='')) (name @ '' = '' @ ?v) = name"
    "dropWhile (\<lambda>x. \<not> (is_blank x \<or> x = CHR ''='')) (name @ '' = '' @ ?v) = '' = '' @ ?v"
    using w(1) by (simp_all add: takeWhile_append2 dropWhile_append2 is_blank_def)
  have d: "dropWhile is_blank ('' = '' @ ?v) = ''= '' @ ?v" "dropWhile is_blank ('' '' @ ?v) = ?v"
    using v(1,2) dropWhile_start [of ?v is_blank] by (simp_all add: is_blank_def)
  have "screen_argument n (name @ '' = '' @ ?v) screen c = Inr (snd (addOption c screen i v))"
    unfolding screen_argument_def t d Let_def using w(2) d(2) o(4) by simp
  then show ?thesis using b v assms(2) last_append_value [OF v(1), of name] by (simp add: screens_line_def)
qed

lemma delimiters [simp]:
  "need_delim ''=''" "\<not> need_delim ('',;'' @ [CHR 0x0A])" "\<not> need_delim ('','' @ [CHR 0x0A])" "\<not> need_delim []"
  by (simp_all add: need_delim_def)

lemma word_ends_name: "word_char c \<Longrightarrow> \<not> ends_name ''='' c \<and> \<not> ends_name ('',;'' @ [CHR 0x0A]) c \<and> \<not> ends_name ('','' @ [CHR 0x0A]) c \<and>
    \<not> ends_name [] c"
  using word_char_facts(2,4) [of c] by (auto simp: ends_name_def)

lemma value_ends_name: "value_text v \<Longrightarrow> \<forall>c \<in> set v. \<not> ends_name ('',;'' @ [CHR 0x0A]) c"
  using valid_not_line(1) by (fastforce simp: value_text_def ends_name_def)

text \<open>The two halves of a line with an equals sign, when the right one is a single word.\<close>

lemma option_halves:
  assumes "name_chars name" "value_text v"
  shows "parseNameWithArgs n ''name'' (name @ '' = '' @ v) ''='' = Inr (name, [], ''= '' @ v)"
    "parseNameWithArgs n ''value'' ('' '' @ v) ('',;'' @ [CHR 0x0A]) = Inr (v, [], [])"
proof -
  have "parseNameWithArgs n ''name'' ([] @ name @ args_text [] @ '' = '' @ v) ''='' = Inr (name, [], ''= '' @ v)"
  proof (rule pn_named)
    show "\<forall>c \<in> set name. \<not> ends_name ''='' c" "name \<noteq> []" using assms(1) word_ends_name unfolding name_chars_def by blast+
  qed (simp_all add: ends_name_def is_blank_def)
  then show "parseNameWithArgs n ''name'' (name @ '' = '' @ v) ''='' = Inr (name, [], ''= '' @ v)" by (simp add: args_text_def)
  have "parseNameWithArgs n ''value'' ('' '' @ v @ args_text [] @ []) ('',;'' @ [CHR 0x0A]) = Inr (v, [], [])"
  proof (rule pn_named)
    show "\<forall>c \<in> set v. \<not> ends_name ('',;'' @ [CHR 0x0A]) c" "v \<noteq> []"
      using assms(2) value_ends_name unfolding value_text_def by blast+
  qed (simp_all add: is_blank_def need_delim_def)
  then show "parseNameWithArgs n ''value'' ('' '' @ v) ('',;'' @ [CHR 0x0A]) = Inr (v, [], [])" by (simp add: args_text_def)
qed

lemma global_option_line:
  assumes "global_option_ok i v"
  shows "options_line net n (option_body (i, v)) c = Inr (snd (addOption c [] i v))"
proof -
  obtain name where o: "getOptionName i = Some name" "name_chars name" "value_text (getOptionValue i v)" "name \<noteq> ''address''"
      "global_option n name (getOptionValue i v) = Some (i, Inr v)" using global_option_read [OF assms] by metis
  have h: "parseNameWithArgs n ''value'' (tl (''= '' @ getOptionValue i v)) ('',;'' @ [CHR 0x0A]) = Inr (getOptionValue i v, [], [])"
    using option_halves(2) [OF o(2,3)] by simp
  have "options_line net n (name @ '' = '' @ getOptionValue i v) c = Inr (snd (addOption c [] i v))"
    unfolding options_line_def option_halves(1) [OF o(2,3)] and_then_simps prod.case h Let_def
    using o(4,5) by simp
  then show ?thesis using o(1) by (simp add: option_body_def)
qed

end
