(* ===== verification/ConfigLinks.thy ===== *)
theory ConfigLinks
  imports ConfigOptions
begin

text \<open>
  Links between screens and the address to listen on, as they are written, read back: a link whose ends are whole
  percentages, an address under the default port.
\<close>

subsection \<open>Intervals\<close>

text \<open>The float that is read for a whole percentage.\<close>

definition percentage :: "nat \<Rightarrow> rat" where
  "percentage k = fl32 (fl64 (of_nat k / 100))"

definition percent :: "rat \<Rightarrow> bool" where
  "percent x \<longleftrightarrow> (\<exists>k \<le> 100. x = percentage k)"

definition interval_args :: "rat \<Rightarrow> rat \<Rightarrow> string list" where
  "interval_args a b =
     (if a = 0 \<and> b = 1 then [] else [sizeTypeToString (nat (to_percent a)), sizeTypeToString (nat (to_percent b))])"

lemma percentage_error:
  assumes "k \<le> 100"
  shows "0 \<le> percentage k" "\<bar>percentage k - of_nat k / 100\<bar> \<le> 1 / 2 ^ 24"
proof -
  define q where "q = (of_nat k / 100 :: rat)"
  have q: "0 \<le> q" "q \<le> 1" using assms by (simp_all add: q_def)
  have d: "0 \<le> fl64 q" "fl64 q \<le> 1" using q fl64_mono [OF q] by simp_all
  show "0 \<le> percentage k" using d by (simp add: percentage_def q_def)
  have "\<bar>fl32 (fl64 q) - fl64 q\<bar> \<le> 1 / 2 ^ 25" using fl32_error_unit [OF d] .
  moreover have "\<bar>fl64 q - q\<bar> \<le> 1 / 2 ^ 54" using fl64_error_unit [OF q] .
  moreover have "1 / 2 ^ 25 + 1 / 2 ^ 54 \<le> (1 / 2 ^ 24 :: rat)" by simp
  ultimately have "\<bar>fl32 (fl64 q) - q\<bar> \<le> 1 / 2 ^ 24" by linarith
  then show "\<bar>percentage k - of_nat k / 100\<bar> \<le> 1 / 2 ^ 24" by (simp only: percentage_def q_def)
qed

text \<open>Writing a percentage gives back the number it was read from.\<close>

lemma to_percent_percentage:
  assumes "k \<le> 100"
  shows "to_percent (percentage k) = int k"
proof -
  define x where "x = percentage k"
  have x: "0 \<le> x" "\<bar>x - of_nat k / 100\<bar> \<le> 1 / 2 ^ 24" using percentage_error [OF assms] by (simp_all add: x_def)
  have pow: "two_to 7 = 128" "two_to (7 - 25) = 1 / 2 ^ 18" "(1 / 2 ^ 18 :: rat) \<le> 1 / 1000" "(1 / 2 ^ 24 :: rat) \<le> 1 / 1000000"
    by (simp_all add: power_int_def power_divide)
  have b: "\<bar>x * 100 - of_nat k\<bar> \<le> 1 / 10000" "(of_nat k :: rat) \<le> 100" using x(2) pow(4) assms by linarith+
  have "\<bar>fl32 (x * 100) - x * 100\<bar> \<le> two_to (7 - 25)"
    by (rule fl32_error) (use x b pow(1) in linarith)+
  then have c: "\<bar>fl32 (x * 100) - of_nat k\<bar> \<le> 1 / 500" "0 \<le> fl32 (x * 100)" using b pow(2,3) x(1) by (linarith, simp)
  have "\<bar>fl32 (fl32 (x * 100) + 1 / 2) - (fl32 (x * 100) + 1 / 2)\<bar> \<le> two_to (7 - 25)"
    by (rule fl32_error) (use c b pow(1) in linarith)+
  then have d: "\<bar>fl32 (fl32 (x * 100) + 1 / 2) - (of_nat k + 1 / 2)\<bar> \<le> 1 / 4" using c pow(2,3) by linarith
  have "\<lfloor>fl32 (fl32 (x * 100) + 1 / 2)\<rfloor> = int k" by (rule floor_unique) (use d in \<open>simp_all, linarith+\<close>)
  moreover have "0 \<le> fl32 (fl32 (x * 100) + 1 / 2)" using c(2) by simp
  ultimately show ?thesis by (simp add: to_percent_def truncate_rat_def x_def)
qed

lemma percentage_mono: "j \<le> k \<Longrightarrow> percentage j \<le> percentage k"
  unfolding percentage_def by (intro fl32_mono fl64_mono fl64_nonneg divide_right_mono) simp_all

lemma percent_simps: "percent 0" "percent 1" "percent (1 / 2)" "percent (1 / 4)"
  unfolding percent_def percentage_def
  by (rule exI [of _ 0] exI [of _ 100] exI [of _ 50] exI [of _ 25], simp)+

lemma percent_text: "percent x \<Longrightarrow> int_text (to_percent x) = sizeTypeToString (nat (to_percent x))"
  by (auto simp: percent_def to_percent_percentage int_text_def)

lemma interval_text:
  "percent a \<Longrightarrow> percent b \<Longrightarrow> formatInterval a b = args_text (interval_args a b)"
  using percent_text [of a] percent_text [of b] by (simp add: formatInterval_def interval_args_def args_text_def)

lemma digit_lower: "is_digit c \<Longrightarrow> tolower c = c"
  by (auto simp: is_digit_def tolower_def Let_def)

lemma strtod_number:
  assumes "is_digit c" "cs = [] \<or> hd cs \<noteq> CHR ''x'' \<and> hd cs \<noteq> CHR ''X''"
    and m: "mantissa is_digit (\<lambda>ds. of_nat (decimal_value ds)) 10 10 ''eE'' (c # cs) = Some (v, rest)"
  shows "strtod (c # cs) = (to_double v, rest)"
proof -
  have x: "tolower (CHR ''i'') = CHR ''i''" "tolower (CHR ''n'') = CHR ''n''" "\<not> is_digit (CHR ''i'')" "\<not> is_digit (CHR ''n'')"
    by (simp_all add: is_digit_def tolower_letters)
  have t: "\<not> caseless_equal (take (Suc j) (c # cs)) (y # ys)" if "tolower y = y" "\<not> is_digit y" for j y ys
    using that assms(1) digit_lower [OF assms(1)] by (auto simp: caseless_equal_iff)
  have i: "\<not> caseless_equal (take 8 (c # cs)) ''infinity''" "\<not> caseless_equal (take 3 (c # cs)) ''inf''"
    "\<not> caseless_equal (take 3 (c # cs)) ''nan''"
    using t [of _ 7] t [of _ 2] x by (simp_all add: numeral_eq_Suc)
  have h: "\<not> (2 \<le> length (c # cs) \<and> (c # cs) ! 0 = CHR ''0'' \<and> ((c # cs) ! 1 = CHR ''x'' \<or> (c # cs) ! 1 = CHR ''X''))"
    using assms(2) by (cases cs) auto
  have s: "dropWhile is_space (c # cs) = c # cs" "c \<noteq> CHR ''-''" "c \<noteq> CHR ''+''"
    using digit_not_special [OF assms(1)] by auto
  have g: "\<not> (c # cs \<noteq> [] \<and> (hd (c # cs) = CHR ''-'' \<or> hd (c # cs) = CHR ''+''))" "\<not> (c # cs \<noteq> [] \<and> hd (c # cs) = CHR ''-'')"
    using s(2,3) by simp_all
  show ?thesis using m unfolding strtod_def s(1) Let_def by (simp only: g i h if_False option.case prod.case)
qed

lemma strtod_decimal:
  assumes "k \<le> 100"
  shows "strtod (sizeTypeToString k) = (DFinite (of_nat k), [])"
proof -
  have "\<bar>int k\<bar> \<le> 2 ^ 53" "(2 :: rat) ^ 1024 > 100" "(of_nat k :: rat) \<le> 100" using assms by simp_all
  then have r: "to_double (of_nat k) = DFinite (of_nat k)" using fl64_of_int [of "int k"] by (simp add: to_double_def)
  obtain c cs where c: "sizeTypeToString k = c # cs" using digits_facts(1) [of k] by (cases "sizeTypeToString k") auto
  have d: "is_digit c" "\<forall>x \<in> set cs. is_digit x" using digits_facts(2) [of k] c by auto
  have "\<not> is_digit (CHR ''x'')" "\<not> is_digit (CHR ''X'')" by (simp_all add: is_digit_def)
  then have "cs = [] \<or> hd cs \<noteq> CHR ''x'' \<and> hd cs \<noteq> CHR ''X''" using d(2) by (cases cs) auto
  moreover have "mantissa is_digit (\<lambda>ds. of_nat (decimal_value ds)) 10 10 ''eE'' (sizeTypeToString k) = Some (of_nat k, [])"
    using digits_facts(1,3) [of k] by (simp add: mantissa_def exponent_part_def)
  ultimately show ?thesis using strtod_number [OF d(1)] r c by simp
qed

lemma interval_read:
  assumes "percent a" "percent b" "0 \<le> a" "a < b" "b \<le> 1"
  shows "parseInterval n (interval_args a b) = Inr (Some a, Some b)"
proof (cases "a = 0 \<and> b = 1")
  case True
  then show ?thesis by (simp add: parseInterval_def interval_args_def)
next
  case False
  obtain i j where i: "i \<le> 100" "a = percentage i" and j: "j \<le> 100" "b = percentage j"
    using assms(1,2) by (auto simp: percent_def)
  have less: "i < j" using percentage_mono [of j i] assms(4) i(2) j(2) by (cases "i < j") auto
  have ne: "sizeTypeToString k \<noteq> []" for k using digits_facts(1) by simp
  have "parseInterval n [sizeTypeToString i, sizeTypeToString j] = Inr (bound_of (DFinite (of_nat i)), bound_of (DFinite (of_nat j)))"
    using i(1) j(1) less by (simp add: parseInterval_def strtod_decimal ne d_ge_def)
  then show ?thesis unfolding interval_args_def if_not_P [OF False] unfolding i(2) j(2)
    using i(1) j(1) by (simp add: to_percent_percentage bound_of_def percentage_def [symmetric])
qed

lemma digits_good_arg: "good_arg (sizeTypeToString k)"
proof -
  have "\<not> ends_arg c \<and> \<not> is_blank c" if "is_digit c" for c using that by (auto simp: is_digit_def ends_arg_def is_blank_def)
  then show ?thesis using digits_facts [of k] by (simp add: good_arg_def)
qed

lemma interval_good_args: "\<forall>x \<in> set (interval_args a b). good_arg x"
  by (simp add: interval_args_def digits_good_arg)

text \<open>
  Two different bounds may be read as the same float: the range check of \<^verbatim>\<open>parseInterval\<close> compares them before they
  are divided and converted. The empty interval is only noticed by the assertions of \<^verbatim>\<open>CellEdge\<close>.
\<close>

lemma strtod_close: "strtod ''1.00000001'' = (to_double (100000001 / 100000000), [])"
proof (rule strtod_number)
  have "takeWhile is_digit ''1.00000001'' = ''1''" "dropWhile is_digit ''1.00000001'' = ''.00000001''"
    "takeWhile is_digit ''00000001'' = ''00000001''" "dropWhile is_digit ''00000001'' = []"
    by (simp_all add: is_digit_def)
  moreover have "decimal_value ''100000001'' = 100000001" by (simp add: decimal_value_def digit_of_def)
  ultimately show "mantissa is_digit (\<lambda>ds. of_nat (decimal_value ds)) 10 10 ''eE'' ''1.00000001'' = Some (100000001 / 100000000, [])"
    by (simp add: mantissa_def exponent_part_def)
qed (simp_all add: is_digit_def)

lemma close_double:
  defines "v \<equiv> fl64 (100000001 / 100000000)"
  shows "to_double (100000001 / 100000000) = DFinite v" "1 < v" "v \<le> 1 + 2 / 100000000"
proof -
  have le: "100000001 / 100000000 \<le> (two_to 1 :: rat)" by simp
  have e: "\<bar>v - 100000001 / 100000000\<bar> \<le> two_to (1 - 53 - 1)"
    unfolding v_def fl64_def by (rule fl_error_below) (use le in simp_all)
  moreover have "two_to (1 - 53 - 1) \<le> 1 / 1000000000" by (simp add: power_int_def power_divide)
  ultimately show b: "1 < v" "v \<le> 1 + 2 / 100000000" by linarith+
  have "(2 :: rat) ^ 1 < 2 ^ 1024" by (rule power_strict_increasing) simp_all
  then show "to_double (100000001 / 100000000) = DFinite v" using b unfolding to_double_def v_def [symmetric] by simp
qed

lemma close_float:
  assumes "1 \<le> v" "v \<le> 1 + 2 / 100000000"
  shows "fl32 (fl64 (v / 100)) = of_int 10737418 * two_to (- 7 - 23)"
proof (rule fl32_eqI)
  have "\<bar>fl64 (v / 100) - v / 100\<bar> \<le> 1 / 2 ^ 54" using assms by (intro fl64_error_unit) simp_all
  moreover have "1 / 2 ^ 54 \<le> (1 / 10000000000000000 :: rat)" by simp
  ultimately have b: "1 / 100 - 1 / 10000000000000000 \<le> fl64 (v / 100)" "fl64 (v / 100) \<le> 1 / 100 + 21 / 100000000000"
    using assms by linarith+
  have p: "two_to (- 7) = 1 / 128" "two_to (- 7 + 1) = 1 / 64" "two_to (- 7 - 23) = 1 / 1073741824"
    by (simp_all add: power_int_def power_divide)
  show "two_to (- 7) \<le> fl64 (v / 100)" "fl64 (v / 100) < two_to (- 7 + 1)" using b p by linarith+
  have "fl64 (v / 100) / two_to (- 7 - 23) = fl64 (v / 100) * 1073741824" by (simp only: p) simp
  then show "\<bar>fl64 (v / 100) / two_to (- 7 - 23) - of_int 10737418\<bar> < 1 / 2" using b by simp
qed simp

theorem close_bounds_collapse:
  "\<exists>a. parseInterval n [''1'', ''1.00000001''] = Inr (Some a, Some a) \<and> CellEdge_new side a a = None"
proof -
  have "sizeTypeToString 1 = ''1''" by code_simp
  then have one: "strtod ''1'' = (DFinite 1, [])" using strtod_decimal [of 1] by simp
  let ?v = "fl64 (100000001 / 100000000)"
  have "parseInterval n [''1'', ''1.00000001''] = Inr (bound_of (DFinite 1), bound_of (DFinite ?v))"
    using close_double by (simp add: parseInterval_def one strtod_close d_ge_def)
  moreover have "bound_of (DFinite ?v) = bound_of (DFinite 1)"
    using close_float [of ?v] close_float [of 1] close_double(2,3) by (simp add: bound_of_def)
  ultimately show ?thesis by (auto simp: bound_of_def CellEdge_new_def CellEdge_named_def)
qed

subsection \<open>Links\<close>

definition link_ok :: "'n full_config \<Rightarrow> cell_edge \<times> cell_edge \<Rightarrow> bool" where
  "link_ok c l \<longleftrightarrow> (case l of (k, v) \<Rightarrow>
     edge_valid k \<and> edge_valid v \<and> ce_name k = [] \<and> ce_side v = ce_side k \<and> isScreen c (ce_name v) \<and>
     percent (ce_first k) \<and> percent (ce_second k) \<and> percent (ce_first v) \<and> percent (ce_second v))"

definition link_body :: "cell_edge \<times> cell_edge \<Rightarrow> string" where
  "link_body l = (case l of (k, v) \<Rightarrow>
     the (dirName (ce_side k)) @ args_text (interval_args (ce_first k) (ce_second k)) @ '' = '' @
     ce_name v @ args_text (interval_args (ce_first v) (ce_second v)))"

lemma edge_bounds: "edge_valid e \<Longrightarrow> 0 \<le> ce_first e \<and> 0 \<le> ce_second e \<and> ce_first e < ce_second e \<and> ce_second e \<le> 1 \<and> ce_side e \<noteq> kNoDirection"
  by (auto simp: edge_valid_def)

lemma link_text_body: "link_ok c l \<Longrightarrow> link_text l = Some (tabulator # tabulator # link_body l @ [newline])"
proof -
  obtain k v where l: "l = (k, v)" by force
  assume "link_ok c l"
  then have o: "edge_valid k" "edge_valid v" "percent (ce_first k)" "percent (ce_second k)" "percent (ce_first v)" "percent (ce_second v)"
    by (auto simp: link_ok_def l)
  then have "dirName (ce_side k) \<noteq> None" using edge_bounds [of k] by (cases "ce_side k") (auto simp: dirName_def)
  then show ?thesis using o interval_text edge_bounds by (auto simp: link_text_def link_body_def l)
qed

lemma side_read: "d \<noteq> kNoDirection \<Longrightarrow> \<exists>s. dirName d = Some s \<and> name_chars s \<and> side_arg n s = Inr d"
  by (cases d) (simp_all add: dirName_def side_arg_def name_chars_def word_char_def isalnum_def)

lemma link_halves:
  assumes "name_chars side" "name_chars dst" "\<forall>x \<in> set as. good_arg x" "\<forall>x \<in> set bs. good_arg x"
  shows "parseNameWithArgs n ''link'' (side @ args_text as @ '' = '' @ r) ''='' = Inr (side, as, ''= '' @ r)"
    "parseNameWithArgs n ''screen'' ('' '' @ dst @ args_text bs) [] = Inr (dst, bs, [])"
proof -
  have "parseNameWithArgs n ''link'' ([] @ side @ args_text as @ '' = '' @ r) ''='' = Inr (side, as, ''= '' @ r)"
  proof (rule pn_named)
    show "\<forall>c \<in> set side. \<not> ends_name ''='' c" "side \<noteq> []" using assms(1) word_ends_name unfolding name_chars_def by blast+
  qed (use assms(3) in \<open>simp_all add: ends_name_def is_blank_def\<close>)
  then show "parseNameWithArgs n ''link'' (side @ args_text as @ '' = '' @ r) ''='' = Inr (side, as, ''= '' @ r)" by simp
  have "parseNameWithArgs n ''screen'' ('' '' @ dst @ args_text bs @ []) [] = Inr (dst, bs, [])"
  proof (rule pn_named)
    show "\<forall>c \<in> set dst. \<not> ends_name [] c" "dst \<noteq> []" using assms(2) word_ends_name unfolding name_chars_def by blast+
  qed (use assms(4) in \<open>simp_all add: is_blank_def\<close>)
  then show "parseNameWithArgs n ''screen'' ('' '' @ dst @ args_text bs) [] = Inr (dst, bs, [])" by simp
qed

lemma args_text_last: "s \<noteq> [] \<Longrightarrow> last (s @ args_text args) = (if args = [] then last s else CHR '')'')"
  by (simp add: args_text_def)

lemma link_line:
  assumes "link_ok c (k, v)" "name_chars (ce_name v)" "screen \<noteq> []"
  shows "links_line n (link_body (k, v)) (c, screen) =
    and_then (connect_read n screen (ce_side k) (Some (ce_first k), Some (ce_second k)) (ce_name v)
      (Some (ce_first v), Some (ce_second v)) c) (\<lambda>c. Inr (c, screen))"
proof -
  let ?as = "interval_args (ce_first k) (ce_second k)" and ?bs = "interval_args (ce_first v) (ce_second v)"
  have o: "edge_valid k" "edge_valid v" "percent (ce_first k)" "percent (ce_second k)" "percent (ce_first v)" "percent (ce_second v)"
      "isScreen c (ce_name v)"
    using assms(1) by (auto simp: link_ok_def)
  obtain side where s: "dirName (ce_side k) = Some side" "name_chars side" "side_arg n side = Inr (ce_side k)"
    using side_read edge_bounds [OF o(1)] by metis
  have b: "link_body (k, v) = side @ args_text ?as @ '' = '' @ ce_name v @ args_text ?bs" using s(1) by (simp add: link_body_def)
  have "last (ce_name v @ args_text ?bs) \<noteq> CHR '':''"
    using assms(2) name_chars_not_end by (auto simp: args_text_last name_chars_def)
  moreover have "ce_name v @ args_text ?bs \<noteq> []" using assms(2) by (simp add: name_chars_def)
  ultimately have e: "last (link_body (k, v)) \<noteq> CHR '':''" unfolding b by simp
  have i: "parseInterval n ?as = Inr (Some (ce_first k), Some (ce_second k))" "parseInterval n ?bs = Inr (Some (ce_first v), Some (ce_second v))"
    using interval_read o edge_bounds [OF o(1)] edge_bounds [OF o(2)] by blast+
  note h = link_halves [OF s(2) assms(2) interval_good_args interval_good_args]
  have t: "tl (''= '' @ ce_name v @ args_text ?bs) = '' '' @ ce_name v @ args_text ?bs" by simp
  show ?thesis
    unfolding links_line_def prod.case using e assms(3) o(7) unfolding b
    by (simp only: if_False h t and_then_simps prod.case i s(3) simp_thms)
qed

lemma interval_chars: "\<forall>c \<in> set (args_text (interval_args a b)). line_char c \<and> c \<noteq> CHR ''#'' \<and> \<not> is_blank c"
proof -
  have d: "line_char c \<and> c \<noteq> CHR ''#'' \<and> \<not> is_blank c" if "is_digit c" for c using that digit_value by blast
  have "\<forall>c \<in> set (sizeTypeToString m). line_char c \<and> c \<noteq> CHR ''#'' \<and> \<not> is_blank c" for m using digits_facts(2) [of m] d by blast
  moreover have "\<forall>c \<in> {CHR ''('', CHR '','', CHR '')''}. line_char c \<and> c \<noteq> CHR ''#'' \<and> \<not> is_blank c"
    by (simp add: line_char_def isgraph_def is_blank_def)
  ultimately show ?thesis by (simp add: args_text_def interval_args_def ball_Un)
qed

lemma link_body_good:
  assumes "link_ok c (k, v)" "name_chars (ce_name v)"
  shows "good_line (link_body (k, v))" "link_body (k, v) \<noteq> ''end''"
proof -
  let ?as = "args_text (interval_args (ce_first k) (ce_second k))" and ?bs = "args_text (interval_args (ce_first v) (ce_second v))"
  obtain side where s: "dirName (ce_side k) = Some side" "name_chars side"
    using side_read edge_bounds assms(1) by (auto simp: link_ok_def) metis
  have b: "link_body (k, v) = side @ (?as @ '' = '') @ ce_name v @ ?bs" using s(1) by (simp add: link_body_def)
  have n: "\<forall>c \<in> set (ce_name v). line_char c \<and> c \<noteq> CHR ''#'' \<and> \<not> is_blank c" "ce_name v \<noteq> []"
    using assms(2) word_char_facts(1,2,4) unfolding name_chars_def by blast+
  have "good_line (ce_name v @ ?bs)"
    using n interval_chars [of "ce_first v" "ce_second v"] last_in_set [of "ce_name v @ ?bs"] hd_in_set [OF n(2)]
    unfolding good_line_def by (simp only: ball_Un set_append hd_append2 append_is_Nil_conv simp_thms) blast
  moreover have "\<forall>c \<in> set (?as @ '' = ''). line_char c \<and> c \<noteq> CHR ''#''"
    using interval_chars equals_chars unfolding set_append ball_Un by blast
  ultimately show "good_line (link_body (k, v))" unfolding b using good_append [OF s(2)] by blast
  have "CHR ''='' \<in> set (link_body (k, v))" unfolding b by simp
  moreover have "CHR ''='' \<notin> set ''end''" by simp
  ultimately show "link_body (k, v) \<noteq> ''end''" by metis
qed

end
