(* ===== verification/ConfigRules.thy ===== *)
theory ConfigRules
  imports ConfigLinks
begin

text \<open>
  The rules of hot keys, as they are written, read back: the text of a condition or an action is a name with
  arguments that \<open>parseCondition\<close> or \<open>parseAction\<close> turns into the same condition or action.
\<close>

subsection \<open>Texts of keys and buttons\<close>

definition arg_char :: "char \<Rightarrow> bool" where
  "arg_char c \<longleftrightarrow> isgraph c \<and> c \<notin> {CHR ''#'', CHR '','', CHR '')''}"

definition arg_ok :: "string \<Rightarrow> bool" where
  "arg_ok a \<longleftrightarrow> a \<noteq> [] \<and> (\<forall>c \<in> set a. arg_char c)"

lemma arg_char_facts: "arg_char c \<Longrightarrow> line_char c \<and> c \<noteq> CHR ''#'' \<and> \<not> is_blank c \<and> \<not> ends_arg c"
  by (auto simp: arg_char_def line_char_def ends_arg_def is_blank_def isgraph_def)

lemma arg_ok_good: "arg_ok a \<Longrightarrow> good_arg a"
  using arg_char_facts by (auto simp: arg_ok_def good_arg_def)

lemma word_arg_char: "word_char c \<Longrightarrow> arg_char c"
  using word_char_facts(1,2,4) [of c] by (auto simp: arg_char_def line_char_def)

lemma name_arg_ok: "name_chars a \<Longrightarrow> arg_ok a"
  using word_arg_char by (auto simp: name_chars_def arg_ok_def)

lemma digit_arg_char: "is_digit c \<Longrightarrow> arg_char c"
  by (auto simp: is_digit_def arg_char_def isgraph_def)

definition key_ok :: "nat \<Rightarrow> nat \<Rightarrow> bool" where
  "key_ok key m \<longleftrightarrow> m < 64 \<and> (key < 2 ^ 16 \<or> s_keyToNameMap key \<noteq> None) \<and> key \<noteq> 0xEF7E \<and> (key \<noteq> 0 \<or> m \<noteq> 0)"

lemma names_arg: "list_all (\<lambda>(n, k). list_all (\<lambda>c. 48 \<le> (of_char c :: nat) \<and> (of_char c :: nat) \<le> 122) n) kKeyNameMap"
  unfolding kKeyNameMap_def by simp

lemma name_range_arg: "48 \<le> (of_char c :: nat) \<Longrightarrow> (of_char c :: nat) \<le> 122 \<Longrightarrow> arg_char c"
  by (auto simp: arg_char_def isgraph_def)

lemma key_text_arg:
  assumes "key < 2 ^ 16 \<or> s_keyToNameMap key \<noteq> None"
  shows "\<forall>c \<in> set (key_text key). arg_char c"
proof (cases "s_keyToNameMap key")
  case (Some n)
  then have "(n, key) \<in> set kKeyNameMap" by (rule name_member)
  then have "\<forall>c \<in> set n. 48 \<le> (of_char c :: nat) \<and> (of_char c :: nat) \<le> 122" using names_arg by (auto simp: list_all_iff)
  then show ?thesis using Some name_range_arg by (simp add: key_text_def)
next
  case None
  show ?thesis
  proof (cases "33 \<le> key \<and> key < 127")
    case True
    have "(''Number'', 0x23) \<in> set kKeyNameMap" "(''Comma'', 0x2C) \<in> set kKeyNameMap" "(''ParenthesisR'', 0x29) \<in> set kKeyNameMap"
      by (simp_all add: kKeyNameMap_def)
    then have k: "key \<noteq> 0x23" "key \<noteq> 0x2C" "key \<noteq> 0x29" using None name_of_key by fastforce+
    have o: "(of_char (char_of key :: char) :: nat) = key" using True by simp
    then have ne: "(char_of key :: char) \<noteq> c" if "key \<noteq> of_char c" for c using that by metis
    have "arg_char (char_of key)"
      using o True ne [of "CHR ''#''"] ne [of "CHR '',''"] ne [of "CHR '')''"] k by (simp add: arg_char_def isgraph_def)
    then show ?thesis using True None by (simp add: key_text_def)
  next
    case False
    have "arg_char (hex_digit d)" if "d < 16" for d
      using hex_digit_facts [OF that] by (intro name_range_arg) (auto simp: is_hex_def is_digit_def)
    then have h: "\<forall>d < 16. arg_char (hex_digit d)" by blast
    have p: "\<forall>c \<in> set (pad_left 4 (CHR ''0'') (hex_string key)). \<exists>d < 16. c = hex_digit d" using padded_hex [of key] assms None by simp
    have "arg_char c" if c: "c \<in> set (pad_left 4 (CHR ''0'') (hex_string key))" for c
    proof -
      obtain d where "d < 16" "c = hex_digit d" using bspec [OF p c] by (elim exE conjE)
      then show ?thesis using h by simp
    qed
    moreover have "arg_char (CHR 0x5C)" "arg_char (CHR ''u'')" by (simp_all add: arg_char_def isgraph_def)
    moreover have "key_text key = CHR 0x5C # CHR ''u'' # pad_left 4 (CHR ''0'') (hex_string key)"
      using False by (simp only: key_text_def None option.case if_False)
    ultimately show ?thesis by simp
  qed
qed

lemma mods_arg: "\<forall>c \<in> set (format_modifiers m). arg_char c"
proof -
  have "\<forall>(n, i) \<in> set [(''Shift'', 0), (''Control'', 1), (''Alt'', 2), (''Meta'', 3), (''Super'', 4), (''AltGr'', 5)].
      \<forall>c \<in> set (n @ ''+''). arg_char c" by (simp add: arg_char_def isgraph_def)
  then show ?thesis unfolding format_modifiers_mods mods_of_def by auto
qed

lemma key_arg_ok:
  assumes "key_ok key m"
  shows "arg_ok (formatKey key m)"
proof (cases "key = 0")
  case True
  have p: "parseModifiers (formatKey 0 m) = Some ([], m)" using assms True by (intro mods_only) (auto simp: key_ok_def)
  have "parseModifiers [] = Some ([], 0)" by (simp add: parseModifiers_def modifiers_loop.simps)
  then have "formatKey 0 m \<noteq> []" using p assms True by (auto simp: key_ok_def)
  moreover have "\<forall>c \<in> set (formatKey 0 m). arg_char c" using mods_arg [of m] by (auto simp: formatKey_def dest: in_set_butlastD)
  ultimately show ?thesis using True by (simp add: arg_ok_def)
next
  case False
  have k: "key < 2 ^ 16 \<or> s_keyToNameMap key \<noteq> None" "key \<noteq> 0xEF7E" using assms by (auto simp: key_ok_def)
  have "formatKey key m = format_modifiers m @ key_text key" using False by (simp add: formatKey_def key_text_def)
  moreover have "key_text key \<noteq> []" using key_text_facts(1) [OF k] by (simp add: is_word_def)
  ultimately show ?thesis using key_text_arg [OF k(1)] mods_arg [of m] by (simp add: arg_ok_def ball_Un)
qed

lemma keystroke_read:
  assumes "key_ok key m"
  shows "parseKeystroke n (formatKey key m) screens = Inr (KeyInfo_create key m 0 0 screens)"
proof -
  obtain rest where "parseModifiers (formatKey key m) = Some (rest, m)" "parseKey rest = Some key"
  proof (cases "key = 0")
    case True
    have "s_nameToKeyMap [] = None" using lower_names_lexical(1) by (intro no_such_name) (auto simp: list_all_iff)
    then have "parseKey [] = Some 0" by (simp add: parseKey_def)
    then show ?thesis using that True assms mods_only [of m] by (auto simp: key_ok_def)
  next
    case False
    have k: "key < 2 ^ 16 \<or> s_keyToNameMap key \<noteq> None" "key \<noteq> 0xEF7E" "m < 64" using assms by (auto simp: key_ok_def)
    note f = key_text_facts [OF k(1,2)]
    show ?thesis using that parse_format_key [OF k(3) False f(1,2)] word_trim [OF f(1)] f(3) by simp
  qed
  then show ?thesis using assms by (auto simp: parseKeystroke_def key_ok_def)
qed

definition mouse_text :: "nat \<Rightarrow> nat \<Rightarrow> string" where
  "mouse_text b m = format_modifiers m @ sizeTypeToString b"

lemma mouse_text_eq: "(let key = formatKey 0 m in key @ (if key = [] then [] else ''+'') @ sizeTypeToString b) = mouse_text b m"
proof (cases "mods_of m" rule: rev_cases)
  case Nil
  then show ?thesis by (simp add: mouse_text_def formatKey_def format_modifiers_mods)
next
  case (snoc ms p)
  obtain n v where p: "p = (n, v)" by force
  have "is_word n" using mods_facts(1) [of m] snoc p by auto
  then have "n \<noteq> []" by (simp add: is_word_def)
  then show ?thesis using snoc p by (simp add: mouse_text_def formatKey_def format_modifiers_mods butlast_append)
qed

lemma mouse_arg_ok: "arg_ok (mouse_text b m)"
  using mods_arg [of m] digits_facts [of b] digit_arg_char by (auto simp: mouse_text_def arg_ok_def)

lemma digits_word:
  "is_word (sizeTypeToString b)" "s_nameToModifierMap (sizeTypeToString b) = None"
proof -
  have d: "c \<notin> {CHR '' '', CHR 0x09, CHR ''+'', CHR '')''}" if "is_digit c" for c using that by (auto simp: is_digit_def)
  show "is_word (sizeTypeToString b)" using digits_facts [of b] d by (simp add: is_word_def list_all_iff)
  obtain c cs where c: "sizeTypeToString b = c # cs" "is_digit c" using digits_facts [of b] by (cases "sizeTypeToString b") auto
  have "c \<notin> {CHR ''a'', CHR ''c'', CHR ''m'', CHR ''s''}" using c(2) by (auto simp: is_digit_def)
  then show "s_nameToModifierMap (sizeTypeToString b) = None" using digit_lower [OF c(2)] by (auto simp: modifier_iff c(1))
qed

lemma mouse_read:
  assumes "m < 64" "0 < b" "b < 256"
  shows "parseMouse n (mouse_text b m) = Inr (b, m)"
proof -
  let ?d = "sizeTypeToString b"
  obtain c d' where d: "?d = c # d'" "\<not> is_blank c" using word_start [OF digits_word(1)] by blast
  have s: "dropWhile is_blank ?d = ?d" using d by simp
  have "modifiers_loop (concat (map (\<lambda>(n, v). n @ ''+'') (mods_of m)) @ ?d) 0 = modifiers_loop ?d m"
    using loop_modifiers [OF mods_facts [of m] s] mods_value [OF assms(1)] by simp
  moreover have "modifiers_loop ?d m = Some (?d, m)"
    using component_word [OF digits_word(1) [of b], of "[]"] d digits_word(2) [of b] word_trim [OF digits_word(1) [of b]]
    by (subst modifiers_loop.simps) (simp add: Let_def)
  moreover have "dropWhile is_blank (concat (map (\<lambda>(n, v). n @ ''+'') (mods_of m)) @ ?d) = concat (map (\<lambda>(n, v). n @ ''+'') (mods_of m)) @ ?d"
    using mods_facts(1) [of m] s by (intro mods_start) auto
  ultimately have "parseModifiers (mouse_text b m) = Some (?d, m)"
    by (simp add: parseModifiers_def mouse_text_def format_modifiers_mods)
  moreover have "strtol ?d = (Some (int b), [])" using strtol_decimal [of b] assms(3) by simp
  ultimately show ?thesis using assms(2,3) digits_facts(1) [of b] by (simp add: parseMouse_def strtol_value_def)
qed

subsection \<open>Sets of screens\<close>

definition canonical :: "'n full_config \<Rightarrow> string \<Rightarrow> bool" where
  "canonical c s \<longleftrightarrow> isScreen c s \<and> getCanonicalName c s = s \<and> name_chars s"

lemma canonical_trim: "canonical c d \<Longrightarrow> trim d = d \<and> d \<noteq> [] \<and> d \<noteq> ''*'' \<and> CHR '':'' \<notin> set d \<and> getCanonicalName c d = d"
proof -
  assume a: "canonical c d"
  then have w: "\<forall>x \<in> set d. word_char x" "d \<noteq> []" by (auto simp: canonical_def name_chars_def)
  have "list_all (\<lambda>x. \<not> is_blank x) d" using w(1) word_char_facts(2) unfolding list_all_iff by blast
  moreover have "CHR '':'' \<notin> set d" "CHR ''*'' \<notin> set d" using w(1) word_char_facts(4) by blast+
  ultimately show ?thesis using a w(2) no_blank_trim by (auto simp: canonical_def)
qed

lemma screens_name:
  assumes "canonical c d" "s = [] \<or> hd s = CHR '':''"
  shows "parseScreens c n (d @ s) acc = parseScreens c n (drop 1 s) (insort_insert d acc)"
proof -
  note d = canonical_trim [OF assms(1)]
  have "takeWhile (\<lambda>x. x \<noteq> CHR '':'') (d @ s) = d \<and> dropWhile (\<lambda>x. x \<noteq> CHR '':'') (d @ s) = s"
    using d assms(2) takeWhile_until [of "CHR '':''" d "tl s"] dropWhile_absent [of "CHR '':''" d]
    by (cases s) (auto simp: takeWhile_eq_all_conv)
  then show ?thesis using d by (subst parseScreens.simps) (simp add: Let_def)
qed

lemma screens_names:
  "\<forall>d \<in> set ds. canonical c d \<Longrightarrow>
    parseScreens c n (concat (map (\<lambda>d. d @ '':'') ds)) acc = Inr (foldl (\<lambda>a d. insort_insert d a) acc ds)"
proof (induction ds arbitrary: acc)
  case Nil
  show ?case by (subst parseScreens.simps) simp
next
  case (Cons d ds)
  then show ?case using screens_name [of c d "CHR '':'' # concat (map (\<lambda>d. d @ '':'') ds)" n acc] by simp
qed

lemma screens_names_open:
  "\<forall>d \<in> set ds. canonical c d \<Longrightarrow> ds \<noteq> [] \<Longrightarrow>
    parseScreens c n (butlast (concat (map (\<lambda>d. d @ '':'') ds))) acc = Inr (foldl (\<lambda>a d. insort_insert d a) acc ds)"
proof (induction ds arbitrary: acc)
  case (Cons d ds)
  let ?t = "concat (map (\<lambda>d. d @ '':'') ds)"
  have e: "parseScreens c n [] a = Inr a" for a by (subst parseScreens.simps) simp
  show ?case
  proof (cases "ds = []")
    case True
    then show ?thesis using Cons.prems screens_name [of c d "[]" n acc] e by simp
  next
    case False
    then have "?t \<noteq> []" by (cases ds) auto
    then have "butlast (concat (map (\<lambda>d. d @ '':'') (d # ds))) = d @ CHR '':'' # butlast ?t" by (simp add: butlast_append)
    then show ?thesis using Cons False screens_name [of c d "CHR '':'' # butlast ?t" n acc] by simp
  qed
qed simp

definition screen_set_ok :: "'n full_config \<Rightarrow> string list \<Rightarrow> bool" where
  "screen_set_ok c ds \<longleftrightarrow> sorted ds \<and> distinct ds \<and> (\<forall>d \<in> set ds. canonical c d)"

lemma screen_set_fold: "screen_set_ok c ds \<Longrightarrow> foldl (\<lambda>a d. insort_insert d a) [] ds = ds"
  by (rule sorted_distinct_set_unique) (use insert_all [of "[]" ds] in \<open>auto simp: screen_set_ok_def\<close>)

lemma screens_join: "screen_set_ok c ds \<Longrightarrow> ds \<noteq> [] \<Longrightarrow> key_join ds = CHR '':'' # concat (map (\<lambda>d. d @ '':'') ds)"
  using join_plain [of ds] canonical_trim by (auto simp: screen_set_ok_def colons_def)

lemma screens_read:
  assumes "screen_set_ok c ds" "ds \<noteq> []"
  shows "parseScreens c n (key_join ds) [] = Inr ds" "parseScreens c n (butlast (tl (key_join ds))) [] = Inr ds"
proof -
  have d: "\<forall>d \<in> set ds. canonical c d" using assms(1) by (simp add: screen_set_ok_def)
  have "parseScreens c n (CHR '':'' # s) acc = parseScreens c n s acc" for s acc
    by (subst parseScreens.simps) (simp add: Let_def trim_def)
  then show "parseScreens c n (key_join ds) [] = Inr ds"
    using screens_names [OF d, of n "[]"] screen_set_fold [OF assms(1)] screens_join [OF assms] by simp
  show "parseScreens c n (butlast (tl (key_join ds))) [] = Inr ds"
    using screens_names_open [OF d assms(2), of n "[]"] screen_set_fold [OF assms(1)] screens_join [OF assms] by simp
qed

lemma star_read: "parseScreens c n ''*'' [] = Inr [''*'']" "key_join [''*''] = ''*''"
proof -
  have "trim ''*'' = ''*''" by (simp add: trim_def is_blank_def)
  then show "parseScreens c n ''*'' [] = Inr [''*'']" by (subst parseScreens.simps, subst parseScreens.simps) (simp add: insort_insert_key_def)
  show "key_join [''*''] = ''*''" by (simp add: key_join_def)
qed

lemma screens_text_ok:
  assumes "screen_set_ok c ds" "ds \<noteq> []"
  shows "arg_ok (key_join ds)" "arg_ok (butlast (tl (key_join ds)))" "hd (key_join ds) \<noteq> CHR ''*''" "key_join ds \<noteq> []" "key_join ds \<noteq> ''*''"
proof -
  have "\<forall>d \<in> set ds. arg_ok d" using assms(1) name_arg_ok by (auto simp: screen_set_ok_def canonical_def)
  then have a: "\<forall>x \<in> set (concat (map (\<lambda>d. d @ '':'') ds)). arg_char x"
    by (auto simp: arg_ok_def) (simp add: arg_char_def isgraph_def)
  obtain e es where e: "ds = e # es" using assms(2) by (cases ds) auto
  have "e \<noteq> []" using assms(1) e canonical_trim by (auto simp: screen_set_ok_def)
  then have "butlast (concat (map (\<lambda>d. d @ '':'') ds)) \<noteq> []" using e by (cases e) (auto simp: butlast_append)
  moreover have "\<forall>x \<in> set (butlast (concat (map (\<lambda>d. d @ '':'') ds))). arg_char x" using a in_set_butlastD by fast
  ultimately show "arg_ok (butlast (tl (key_join ds)))" by (simp add: arg_ok_def screens_join [OF assms])
  have "arg_char (CHR '':'')" by (simp add: arg_char_def isgraph_def)
  then show "arg_ok (key_join ds)" using a by (simp add: arg_ok_def screens_join [OF assms])
  show "hd (key_join ds) \<noteq> CHR ''*''" "key_join ds \<noteq> []" "key_join ds \<noteq> ''*''" by (simp_all add: screens_join [OF assms])
qed

subsection \<open>Conditions and actions\<close>

fun condition_ok :: "'n full_config \<Rightarrow> condition \<Rightarrow> bool" where
  "condition_ok c (KeystrokeCondition i key m) \<longleftrightarrow> i = 0 \<and> key_ok key m"
| "condition_ok c (MouseButtonCondition b m) \<longleftrightarrow> m < 64 \<and> 0 < b \<and> b < 256"
| "condition_ok c (ScreenConnectedCondition scr) \<longleftrightarrow> canonical c scr"

fun action_ok :: "'n full_config \<Rightarrow> filter_action \<Rightarrow> bool" where
  "action_ok c (LockCursorToScreenAction st) \<longleftrightarrow> True"
| "action_ok c (SwitchToScreenAction scr) \<longleftrightarrow> canonical c scr"
| "action_ok c ToggleScreenAction \<longleftrightarrow> True"
| "action_ok c (SwitchInDirectionAction d) \<longleftrightarrow> d \<noteq> kNoDirection"
| "action_ok c (KeyboardBroadcastAction st screens) \<longleftrightarrow> (\<exists>ds. screen_set_ok c ds \<and> screens = key_join ds)"
| "action_ok c (KeystrokeAction info press) \<longleftrightarrow> key_ok (m_key info) (m_mask info) \<and> m_button info = 0 \<and> m_count info = 0 \<and>
     (m_screens info = ''*'' \<or> (\<exists>ds. screen_set_ok c ds \<and> m_screens info = key_join ds))"
| "action_ok c (MouseButtonAction b m press) \<longleftrightarrow> m < 64 \<and> 0 < b \<and> b < 256"

definition locks :: "filter_action \<Rightarrow> bool" where
  "locks a \<longleftrightarrow> (case a of LockCursorToScreenAction st \<Rightarrow> st \<noteq> kOff | _ \<Rightarrow> False)"

definition set_lock :: "bool \<Rightarrow> 'n full_config \<Rightarrow> 'n full_config" where
  "set_lock b c = (if b then c\<lparr>cfg_hasLockToScreenAction := True\<rparr> else c)"

text \<open>A name and arguments that are printed as a text and read as a condition or an action.\<close>

definition rule_name :: "string \<Rightarrow> bool" where
  "rule_name name \<longleftrightarrow> name_chars name \<and> name \<noteq> ''address'' \<and> (\<forall>n v. global_option n name v = None)"

lemma condition_parts:
  assumes "condition_ok c cond"
  shows "\<exists>name args. format_condition cond = name @ args_text args \<and> rule_name name \<and> (\<forall>a \<in> set args. arg_ok a) \<and>
    (\<forall>n. parseCondition c n name args = Inr cond)"
proof (cases cond)
  case (KeystrokeCondition i key m)
  then have k: "i = 0" "key_ok key m" using assms by auto
  have "rule_name ''keystroke''" by (simp add: rule_name_def name_chars_def word_char_def isalnum_def global_option_def)
  then show ?thesis
    by (intro exI [of _ "''keystroke''"] exI [of _ "[formatKey key m]"])
       (simp add: KeystrokeCondition KeystrokeCondition_format_def args_text_def k(1) key_arg_ok [OF k(2)] parseCondition_def
          keystroke_read [OF k(2)] KeyInfo_create_def)
next
  case (MouseButtonCondition b m)
  have "rule_name ''mousebutton''" by (simp add: rule_name_def name_chars_def word_char_def isalnum_def global_option_def)
  moreover have "MouseButtonCondition_format b m = ''mousebutton('' @ mouse_text b m @ '')''"
    using mouse_text_eq [of m b] by (simp add: MouseButtonCondition_format_def Let_def split: if_splits)
  ultimately show ?thesis using assms MouseButtonCondition
    by (intro exI [of _ "''mousebutton''"] exI [of _ "[mouse_text b m]"])
       (simp add: args_text_def mouse_arg_ok parseCondition_def mouse_read)
next
  case (ScreenConnectedCondition scr)
  have "rule_name ''connect''" by (simp add: rule_name_def name_chars_def word_char_def isalnum_def global_option_def)
  then show ?thesis using assms ScreenConnectedCondition
    by (intro exI [of _ "''connect''"] exI [of _ "[scr]"])
       (simp add: ScreenConnectedCondition_format_def args_text_def parseCondition_def screen_arg_def canonical_def name_arg_ok)
qed

text \<open>What parsing an action has to give.\<close>

definition action_read :: "'n full_config \<Rightarrow> filter_action \<Rightarrow> string \<Rightarrow> string list \<Rightarrow> bool" where
  "action_read c a name args \<longleftrightarrow> format_action a = name @ args_text args \<and> name_chars name \<and> (\<forall>x \<in> set args. arg_ok x) \<and>
     (\<forall>n r act. parseAction c n name args r act = Inr (set_lock (locks a) c, adoptAction (Some a) act r))"

lemma literal_names:
  "name_chars ''lockCursorToScreen''" "name_chars ''switchToScreen''" "name_chars ''toggleScreen''" "name_chars ''switchInDirection''"
  "name_chars ''keyboardBroadcast''" "name_chars ''keyDown''" "name_chars ''keyUp''" "name_chars ''mouseDown''" "name_chars ''mouseUp''"
  "name_chars ''off''" "name_chars ''on''" "name_chars ''toggle''" "name_chars ''left''" "name_chars ''right''" "name_chars ''up''" "name_chars ''down''"
  by (simp_all add: name_chars_def word_char_def isalnum_def)

lemma mode_read: "mode_arg e (s_mode st # xs) = Inr st" "arg_ok (s_mode st)"
  by (cases st; simp add: mode_arg_def s_mode_def name_arg_ok literal_names)+

lemma lock_read: "\<exists>name args. action_read c (LockCursorToScreenAction st) name args"
  by (intro exI [of _ "''lockCursorToScreen''"] exI [of _ "[s_mode st]"])
     (simp add: action_read_def LockCursorToScreenAction_format_def args_text_def literal_names mode_read parseAction_def lock_action_def locks_def
        set_lock_def)

lemma switch_read: "canonical c scr \<Longrightarrow> \<exists>name args. action_read c (SwitchToScreenAction scr) name args"
  by (intro exI [of _ "''switchToScreen''"] exI [of _ "[scr]"])
     (simp add: action_read_def SwitchToScreenAction_format_def args_text_def literal_names name_arg_ok parseAction_def screen_arg_def canonical_def
        locks_def set_lock_def)

lemma toggle_read: "\<exists>name args. action_read c ToggleScreenAction name args"
  by (intro exI [of _ "''toggleScreen''"] exI [of _ "[]"])
     (simp add: action_read_def ToggleScreenAction_format_def args_text_def literal_names parseAction_def locks_def set_lock_def)

lemma direction_read: "d \<noteq> kNoDirection \<Longrightarrow> \<exists>name args. action_read c (SwitchInDirectionAction d) name args"
  by (intro exI [of _ "''switchInDirection''"] exI [of _ "[s_names d]"], cases d)
     (simp_all add: action_read_def SwitchInDirectionAction_format_def args_text_def literal_names name_arg_ok s_names_def parseAction_def
        direction_arg_def locks_def set_lock_def)

lemma broadcast_read:
  assumes "screen_set_ok c ds"
  shows "\<exists>name args. action_read c (KeyboardBroadcastAction st (key_join ds)) name args"
proof (cases "ds = []")
  case True
  then show ?thesis
    by (intro exI [of _ "''keyboardBroadcast''"] exI [of _ "[s_mode st]"])
       (simp add: action_read_def KeyboardBroadcastAction_format_def args_text_def literal_names mode_read parseAction_def broadcast_action_def
          key_join_def locks_def set_lock_def)
next
  case False
  note t = screens_text_ok [OF assms False]
  show ?thesis
    by (intro exI [of _ "''keyboardBroadcast''"] exI [of _ "[s_mode st, butlast (tl (key_join ds))]"])
       (simp add: action_read_def KeyboardBroadcastAction_format_def args_text_def literal_names mode_read parseAction_def broadcast_action_def
          locks_def set_lock_def t screens_read [OF assms False])
qed

lemma keystroke_action_read:
  assumes "action_ok c (KeystrokeAction info press)"
  shows "\<exists>name args. action_read c (KeystrokeAction info press) name args"
proof -
  let ?name = "KeystrokeAction_formatName press" and ?key = "formatKey (m_key info) (m_mask info)"
  have k: "key_ok (m_key info) (m_mask info)" using assms by simp
  have n: "name_chars ?name" by (simp add: KeystrokeAction_formatName_def literal_names)
  have p: "parseAction c n ?name args r act = Inr (set_lock (locks (KeystrokeAction info press)) c, adoptAction (Some (KeystrokeAction info press)) act r)"
    if "keystroke_action c n ?name args r act = Inr (press_actions ''keystroke'' ''keyDown'' (KeystrokeAction info) ?name r act)" for n args r act
    using that by (cases press) (simp_all add: parseAction_def KeystrokeAction_formatName_def press_actions_def locks_def set_lock_def)
  have i: "KeyInfo_create (m_key info) (m_mask info) 0 0 ds = info" if "m_screens info = key_join ds" for ds
    using assms that by (cases info) (simp add: KeyInfo_create_def)
  consider "m_screens info = ''*''" | ds where "screen_set_ok c ds" "m_screens info = key_join ds" "ds \<noteq> []" | "m_screens info = []"
  proof (cases "m_screens info = ''*''")
    case False
    then obtain ds where d: "screen_set_ok c ds" "m_screens info = key_join ds" using assms by auto
    show ?thesis by (cases "ds = []") (use that d in \<open>auto simp: key_join_def\<close>)
  qed (use that in blast)
  then show ?thesis
  proof cases
    case 1
    have "arg_ok ''*''" by (simp add: arg_ok_def arg_char_def isgraph_def)
    moreover have "keystroke_action c n ?name [?key, ''*''] r act = Inr (press_actions ''keystroke'' ''keyDown'' (KeystrokeAction info) ?name r act)" for n r act
      using 1 i [of "[''*'']"] by (simp add: keystroke_action_def star_read keystroke_read [OF k])
    ultimately show ?thesis using 1 p n key_arg_ok [OF k]
      by (intro exI [of _ ?name] exI [of _ "[?key, ''*'']"]) (simp add: action_read_def KeystrokeAction_format_def args_text_def)
  next
    case 2
    note t = screens_text_ok [OF 2(1,3)]
    have "keystroke_action c n ?name [?key, key_join ds] r act = Inr (press_actions ''keystroke'' ''keyDown'' (KeystrokeAction info) ?name r act)" for n r act
      using 2(2) i [of ds] by (simp add: keystroke_action_def screens_read [OF 2(1,3)] keystroke_read [OF k])
    then show ?thesis using 2 p n key_arg_ok [OF k] t
      by (intro exI [of _ ?name] exI [of _ "[?key, key_join ds]"]) (simp add: action_read_def KeystrokeAction_format_def args_text_def)
  next
    case 3
    have "keystroke_action c n ?name [?key] r act = Inr (press_actions ''keystroke'' ''keyDown'' (KeystrokeAction info) ?name r act)" for n r act
      using 3 i [of "[]"] by (simp add: keystroke_action_def keystroke_read [OF k] key_join_def)
    then show ?thesis using 3 p n key_arg_ok [OF k]
      by (intro exI [of _ ?name] exI [of _ "[?key]"]) (simp add: action_read_def KeystrokeAction_format_def args_text_def)
  qed
qed

lemma mouse_action_read:
  assumes "action_ok c (MouseButtonAction b m press)"
  shows "\<exists>name args. action_read c (MouseButtonAction b m press) name args"
proof -
  have "MouseButtonAction_format b m press = MouseButtonAction_formatName press @ ''('' @ mouse_text b m @ '')''"
    using mouse_text_eq [of m b] by (simp add: MouseButtonAction_format_def Let_def split: if_splits)
  then show ?thesis using assms
    by (intro exI [of _ "MouseButtonAction_formatName press"] exI [of _ "[mouse_text b m]"], cases press)
       (simp_all add: action_read_def args_text_def MouseButtonAction_formatName_def literal_names mouse_arg_ok parseAction_def mouse_action_def
          mouse_read press_actions_def locks_def set_lock_def)
qed

lemma action_parts: "action_ok c a \<Longrightarrow> \<exists>name args. action_read c a name args"
proof (cases a)
  case (KeyboardBroadcastAction st screens)
  then show "action_ok c a \<Longrightarrow> ?thesis" using broadcast_read by auto
next
  case (KeystrokeAction info press)
  then show "action_ok c a \<Longrightarrow> ?thesis" using keystroke_action_read by metis
next
  case (MouseButtonAction b m press)
  then show "action_ok c a \<Longrightarrow> ?thesis" using mouse_action_read by metis
qed (use lock_read switch_read toggle_read direction_read in auto)

subsection \<open>Rules\<close>

lemma set_lock_fields [simp]:
  "cfg_names (set_lock b c) = cfg_names c" "cfg_map (set_lock b c) = cfg_map c" "set_lock b (set_lock b' c) = set_lock (b' \<or> b) c"
  "set_lock False c = c"
  by (simp_all add: set_lock_def)

lemma canonical_cong: "cfg_names c' = cfg_names c \<Longrightarrow> canonical c' s = canonical c s"
  by (simp add: canonical_def isScreen_def getCanonicalName_def)

lemma action_ok_cong: "cfg_names c' = cfg_names c \<Longrightarrow> action_ok c' a = action_ok c a"
proof -
  assume "cfg_names c' = cfg_names c"
  then have "canonical c' = canonical c" by (intro ext canonical_cong)
  then show ?thesis by (cases a) (simp_all add: screen_set_ok_def)
qed

lemma condition_ok_cong: "cfg_names c' = cfg_names c \<Longrightarrow> condition_ok c' a = condition_ok c a"
  using canonical_cong [of c' c] by (cases a) simp_all

lemma action_value:
  assumes "action_read c a name args" "list_all is_blank ws"
  shows "rest = [] \<or> hd rest = CHR '','' \<or> hd rest = CHR '';'' \<Longrightarrow>
      parseNameWithArgs n ''value'' (ws @ format_action a @ rest) ('',;'' @ [newline]) = Inr (name, args, rest)"
    and "rest = [] \<or> hd rest = CHR '','' \<Longrightarrow>
      parseNameWithArgs n ''value'' (ws @ format_action a @ rest) ('','' @ [newline]) = Inr (name, args, rest)"
proof -
  have f: "format_action a = name @ args_text args" "name \<noteq> []" using assms(1) by (auto simp: action_read_def name_chars_def)
  have w: "\<forall>x \<in> set name. word_char x" using assms(1) by (auto simp: action_read_def name_chars_def)
  have g: "\<forall>x \<in> set args. good_arg x" using assms(1) arg_ok_good by (auto simp: action_read_def)
  have b: "dropWhile is_blank rest = rest" if "rest = [] \<or> hd rest = CHR '','' \<or> hd rest = CHR '';''"
    using that by (cases rest) (auto simp: is_blank_def)
  show "parseNameWithArgs n ''value'' (ws @ format_action a @ rest) ('',;'' @ [newline]) = Inr (name, args, rest)"
    if r: "rest = [] \<or> hd rest = CHR '','' \<or> hd rest = CHR '';''"
    unfolding f(1) append_assoc
  proof (rule pn_named [OF assms(2) _ f(2) g _ b [OF r]])
    show "\<forall>x \<in> set name. \<not> ends_name ('',;'' @ [newline]) x" using w word_ends_name by blast
  qed (use r in \<open>auto simp: ends_name_def need_delim_def\<close>)
  show "parseNameWithArgs n ''value'' (ws @ format_action a @ rest) ('','' @ [newline]) = Inr (name, args, rest)"
    if r: "rest = [] \<or> hd rest = CHR '',''"
    unfolding f(1) append_assoc
  proof (rule pn_named [OF assms(2) _ f(2) g])
    show "\<forall>x \<in> set name. \<not> ends_name ('','' @ [newline]) x" using w word_ends_name by blast
    show "dropWhile is_blank rest = rest" using r b by blast
  qed (use r in \<open>auto simp: ends_name_def need_delim_def\<close>)
qed

definition more_actions :: "filter_action list \<Rightarrow> string" where
  "more_actions as = concat (map (\<lambda>a. '', '' @ format_action a) as)"

lemma more_simps [simp]: "more_actions [] = []" "more_actions (a # as) = '', '' @ format_action a @ more_actions as"
  by (simp_all add: more_actions_def)

lemma comma_list_more: "comma_list (map format_action (a # as)) = format_action a @ more_actions as"
  by (induction as arbitrary: a) simp_all

lemma more_start: "s = [] \<or> hd s = CHR '';'' \<Longrightarrow> more_actions as @ s = [] \<or> hd (more_actions as @ s) = CHR '','' \<or> hd (more_actions as @ s) = CHR '';''"
  by (cases as) auto

lemma activate_read:
  assumes "\<forall>a \<in> set as. action_ok c a" "s = [] \<or> hd s = CHR '';''"
  shows "activate_loop n (more_actions as @ s) c r = Inr (set_lock (\<exists>a \<in> set as. locks a) c, fold (\<lambda>a. adoptAction (Some a) True) as r, s)"
  using assms(1)
proof (induction as arbitrary: c r)
  case Nil
  then show ?case using assms(2) by (subst activate_loop.simps) auto
next
  case (Cons a as)
  obtain name args where a: "action_read c a name args" using action_parts [of c a] Cons.prems by auto
  have p: "parseNameWithArgs n ''value'' ('' '' @ format_action a @ more_actions as @ s) ('',;'' @ [newline]) = Inr (name, args, more_actions as @ s)"
    using action_value(1) [OF a _ more_start [OF assms(2)], of "'' ''" n as] by (simp add: is_blank_def)
  have q: "parseAction c n name args r True = Inr (set_lock (locks a) c, adoptAction (Some a) True r)" using a by (simp add: action_read_def)
  have t: "tl (more_actions (a # as) @ s) = '' '' @ format_action a @ more_actions as @ s" by simp
  have "\<not> (more_actions (a # as) @ s = [] \<or> hd (more_actions (a # as) @ s) = CHR '';'')" by simp
  then have "activate_loop n (more_actions (a # as) @ s) c r = activate_loop n (more_actions as @ s) (set_lock (locks a) c) (adoptAction (Some a) True r)"
    by (subst activate_loop.simps) (simp only: if_False t p q sum.case prod.case)
  moreover have "\<forall>b \<in> set as. action_ok (set_lock (locks a) c) b"
    using Cons.prems action_ok_cong [of "set_lock (locks a) c" c] by simp
  ultimately show ?case using Cons.IH by simp
qed

lemma deactivate_read:
  assumes "action_ok c a" "\<forall>a \<in> set as. action_ok c a" "list_all is_blank ws"
  shows "deactivate_loop n (ws @ format_action a @ more_actions as) c r =
    Inr (set_lock (\<exists>a \<in> set (a # as). locks a) c, fold (\<lambda>a. adoptAction (Some a) False) (a # as) r)"
  using assms
proof (induction as arbitrary: a c r ws)
  case Nil
  obtain name args where a: "action_read c a name args" using action_parts [OF Nil(1)] by auto
  have q: "parseAction c n name args r False = Inr (set_lock (locks a) c, adoptAction (Some a) False r)" using a by (simp add: action_read_def)
  show ?case using action_value(2) [OF a Nil(3), of "[]"] q by (subst deactivate_loop.simps) simp
next
  case (Cons b as)
  obtain name args where a: "action_read c a name args" using action_parts [OF Cons(2)] by auto
  have q: "parseAction c n name args r False = Inr (set_lock (locks a) c, adoptAction (Some a) False r)" using a by (simp add: action_read_def)
  have p: "parseNameWithArgs n ''value'' (ws @ format_action a @ more_actions (b # as)) ('','' @ [newline]) = Inr (name, args, more_actions (b # as))"
    using action_value(2) [OF a Cons(4), of "more_actions (b # as)"] by simp
  have t: "tl (more_actions (b # as)) = '' '' @ format_action b @ more_actions as" "(more_actions (b # as) = []) = False" by simp_all
  have "deactivate_loop n (ws @ format_action a @ more_actions (b # as)) c r =
      deactivate_loop n ('' '' @ format_action b @ more_actions as) (set_lock (locks a) c) (adoptAction (Some a) False r)"
    by (subst deactivate_loop.simps) (simp only: t p q sum.case prod.case if_False)
  moreover have "action_ok (set_lock (locks a) c) b" "\<forall>x \<in> set as. action_ok (set_lock (locks a) c) x"
    using Cons(3) action_ok_cong [of "set_lock (locks a) c" c] by simp_all
  ultimately show ?case using Cons.IH [of "set_lock (locks a) c" b "'' ''"] by (simp add: is_blank_def)
qed

lemma adopt_fold:
  "fold (\<lambda>a. adoptAction (Some a) True) as r = r\<lparr>r_activateActions := r_activateActions r @ as\<rparr>"
  "fold (\<lambda>a. adoptAction (Some a) False) as r = r\<lparr>r_deactivateActions := r_deactivateActions r @ as\<rparr>"
  by (induction as arbitrary: r) (simp_all add: adoptAction_def)

definition rule_ok :: "'n full_config \<Rightarrow> rule \<Rightarrow> bool" where
  "rule_ok c r \<longleftrightarrow> (case r_condition r of None \<Rightarrow> False | Some cond \<Rightarrow> condition_ok c cond) \<and>
     (\<forall>a \<in> set (r_activateActions r @ r_deactivateActions r). action_ok c a) \<and> r_activateActions r @ r_deactivateActions r \<noteq> []"

definition rule_locks :: "rule \<Rightarrow> bool" where
  "rule_locks r \<longleftrightarrow> list_ex locks (r_activateActions r @ r_deactivateActions r)"

lemma rule_ok_cong: "cfg_names c' = cfg_names c \<Longrightarrow> rule_ok c' r = rule_ok c r"
  using action_ok_cong [of c' c] condition_ok_cong [of c' c] by (simp add: rule_ok_def split: option.splits)

lemma condition_copy: "condition_ok c cond \<Longrightarrow> clone_condition cond = cond"
  by (cases cond) auto

text \<open>The part behind the first value.\<close>

definition tail_text :: "rule \<Rightarrow> string" where
  "tail_text r = (if r_deactivateActions r \<noteq> [] then ''; '' @ comma_list (map format_action (r_deactivateActions r)) else [])"

lemma tail_start: "tail_text r = [] \<or> hd (tail_text r) = CHR '';''"
  by (simp add: tail_text_def)

lemma action_starts: "action_ok c a \<Longrightarrow> dropWhile is_blank (format_action a @ s) = format_action a @ s"
proof -
  assume "action_ok c a"
  then obtain name args where "format_action a = name @ args_text args" "name_chars name" using action_parts unfolding action_read_def by metis
  moreover obtain x xs where "name = x # xs" "word_char x" using calculation(2) by (cases name) (auto simp: name_chars_def)
  ultimately show ?thesis using word_char_facts(2) [of x] by simp
qed

lemma finish_rule:
  assumes "rule_ok c r" "r_condition r = Some cond" "r_activateActions r1 = r_activateActions r" "r_deactivateActions r1 = []" "r_condition r1 = Some cond"
  shows "(let s' = dropWhile is_blank (tl (tail_text r)) in
      if tail_text r \<noteq> [] \<and> s' \<noteq> [] then deactivate_loop n s' c r1 else Inr (c, r1)) = Inr (set_lock (\<exists>a \<in> set (r_deactivateActions r). locks a) c, r)"
proof (cases "r_deactivateActions r")
  case Nil
  then show ?thesis using assms by (simp add: tail_text_def)
next
  case (Cons d ds)
  have ok: "action_ok c d" "\<forall>a \<in> set ds. action_ok c a" using assms(1) Cons by (auto simp: rule_ok_def)
  have t: "tail_text r = ''; '' @ format_action d @ more_actions ds" using Cons comma_list_more [of d ds] by (simp add: tail_text_def)
  have s: "dropWhile is_blank (tl (tail_text r)) = format_action d @ more_actions ds"
    using action_starts [OF ok(1)] unfolding t by (simp add: is_blank_def)
  have ne: "format_action d @ more_actions ds \<noteq> []"
    using action_parts [OF ok(1)] by (auto simp: action_read_def name_chars_def)
  have "deactivate_loop n (format_action d @ more_actions ds) c r1 =
      Inr (set_lock (\<exists>a \<in> set (d # ds). locks a) c, fold (\<lambda>a. adoptAction (Some a) False) (d # ds) r1)"
    using deactivate_read [OF ok, of "[]"] by simp
  moreover have "fold (\<lambda>a. adoptAction (Some a) False) (d # ds) r1 = r"
    unfolding adopt_fold using assms(2-5) Cons by simp
  ultimately show ?thesis unfolding s Let_def using ne t Cons by simp
qed

lemma format_rule_text:
  assumes "r_condition r = Some cond"
  shows "format_rule r = format_condition cond @ '' = '' @ comma_list (map format_action (r_activateActions r)) @ tail_text r"
  using assms by (simp add: format_rule_def tail_text_def)

lemma first_value:
  assumes "rule_ok c r" "r_condition r = Some cond"
  shows "\<exists>v vargs s. parseNameWithArgs n ''value'' ('' '' @ comma_list (map format_action (r_activateActions r)) @ tail_text r) ('',;'' @ [newline]) =
      Inr (v, vargs, s) \<and>
    and_then (if v \<noteq> [] \<or> \<not> (s \<noteq> [] \<and> hd s = CHR '';'') then parseAction c n v vargs (Rule_new (Some cond)) True
        else Inr (c, Rule_new (Some cond))) (\<lambda>(c, r). activate_loop n s c r) =
      Inr (set_lock (\<exists>a \<in> set (r_activateActions r). locks a) c, (Rule_new (Some cond))\<lparr>r_activateActions := r_activateActions r\<rparr>, tail_text r)"
proof (cases "r_activateActions r")
  case Nil
  then have d: "r_deactivateActions r \<noteq> []" using assms(1) by (auto simp: rule_ok_def)
  then obtain t where t: "tail_text r = CHR '';'' # t" by (simp add: tail_text_def)
  have "parseNameWithArgs n ''value'' ('' '' @ [] @ tail_text r) ('',;'' @ [newline]) = Inr ([], [], tail_text r)"
    by (rule pn_plain) (simp_all add: t is_blank_def ends_name_def need_delim_def)
  moreover have "activate_loop n (tail_text r) c (Rule_new (Some cond)) = Inr (c, Rule_new (Some cond), tail_text r)"
    by (subst activate_loop.simps) (simp add: t)
  ultimately show ?thesis using Nil t by (simp add: Rule_new_def)
next
  case (Cons a as)
  have ok: "action_ok c a" "\<forall>a \<in> set as. action_ok c a" using assms(1) Cons by (auto simp: rule_ok_def)
  obtain name args where a: "action_read c a name args" using action_parts [OF ok(1)] by auto
  let ?c = "set_lock (locks a) c" and ?r = "adoptAction (Some a) True (Rule_new (Some cond))"
  have x: "comma_list (map format_action (r_activateActions r)) @ tail_text r = format_action a @ more_actions as @ tail_text r"
    unfolding Cons comma_list_more by simp
  have p: "parseNameWithArgs n ''value'' ('' '' @ format_action a @ more_actions as @ tail_text r) ('',;'' @ [newline]) =
      Inr (name, args, more_actions as @ tail_text r)"
    using action_value(1) [OF a _ more_start [OF tail_start], of "'' ''" n as] by (simp add: is_blank_def)
  have q: "parseAction c n name args (Rule_new (Some cond)) True = Inr (?c, ?r)" using a by (simp add: action_read_def)
  have ne: "name \<noteq> []" using a by (auto simp: action_read_def name_chars_def)
  have "\<forall>b \<in> set as. action_ok ?c b" using ok(2) action_ok_cong [of ?c c] by simp
  from activate_read [OF this tail_start] have l:
    "activate_loop n (more_actions as @ tail_text r) ?c ?r =
      Inr (set_lock (\<exists>a \<in> set (a # as). locks a) c, (Rule_new (Some cond))\<lparr>r_activateActions := a # as\<rparr>, tail_text r)"
    unfolding adopt_fold by (simp add: adoptAction_def Rule_new_def)
  show ?thesis unfolding x
  proof (intro exI conjI)
    show "and_then (if name \<noteq> [] \<or> \<not> (more_actions as @ tail_text r \<noteq> [] \<and> hd (more_actions as @ tail_text r) = CHR '';'')
        then parseAction c n name args (Rule_new (Some cond)) True else Inr (c, Rule_new (Some cond)))
        (\<lambda>(c, r1). activate_loop n (more_actions as @ tail_text r) c r1) =
      Inr (set_lock (\<exists>a \<in> set (r_activateActions r). locks a) c, (Rule_new (Some cond))\<lparr>r_activateActions := r_activateActions r\<rparr>, tail_text r)"
      using q ne l Cons by simp
  qed (rule p)
qed

lemma rule_line:
  assumes "rule_ok c r"
  shows "options_line net n (format_rule r) c =
    Inr ((set_lock (rule_locks r) c)\<lparr>cfg_rules := cfg_rules c @ [r]\<rparr>)"
proof -
  obtain cond where cond: "r_condition r = Some cond" "condition_ok c cond"
    using assms by (auto simp: rule_ok_def split: option.splits)
  obtain name args where n: "format_condition cond = name @ args_text args" "rule_name name" "\<forall>a \<in> set args. arg_ok a"
      "parseCondition c n name args = Inr cond" using condition_parts [OF cond(2)] by metis
  let ?A = "comma_list (map format_action (r_activateActions r))"
  obtain v vargs s where v: "parseNameWithArgs n ''value'' ('' '' @ ?A @ tail_text r) ('',;'' @ [newline]) = Inr (v, vargs, s)"
    "and_then (if v \<noteq> [] \<or> \<not> (s \<noteq> [] \<and> hd s = CHR '';'') then parseAction c n v vargs (Rule_new (Some cond)) True
        else Inr (c, Rule_new (Some cond))) (\<lambda>(c, r). activate_loop n s c r) =
      Inr (set_lock (\<exists>a \<in> set (r_activateActions r). locks a) c, (Rule_new (Some cond))\<lparr>r_activateActions := r_activateActions r\<rparr>, tail_text r)"
    using first_value [OF assms cond(1), of n] by blast
  have h: "parseNameWithArgs n ''name'' (name @ args_text args @ '' = '' @ ?A @ tail_text r) ''='' = Inr (name, args, ''= '' @ ?A @ tail_text r)"
  proof -
    have "parseNameWithArgs n ''name'' ([] @ name @ args_text args @ '' = '' @ ?A @ tail_text r) ''='' = Inr (name, args, ''= '' @ ?A @ tail_text r)"
    proof (rule pn_named)
      show "\<forall>x \<in> set name. \<not> ends_name ''='' x" "name \<noteq> []" using n(2) word_ends_name unfolding rule_name_def name_chars_def by blast+
      show "\<forall>a \<in> set args. good_arg a" using n(3) arg_ok_good by blast
    qed (simp_all add: ends_name_def is_blank_def)
    then show ?thesis by simp
  qed
  have t: "tl (''= '' @ ?A @ tail_text r) = '' '' @ ?A @ tail_text r" by simp
  let ?c1 = "set_lock (\<exists>a \<in> set (r_activateActions r). locks a) c" and ?r1 = "(Rule_new (Some cond))\<lparr>r_activateActions := r_activateActions r\<rparr>"
  obtain c0 r0 where a: "(if v \<noteq> [] \<or> \<not> (s \<noteq> [] \<and> hd s = CHR '';'') then parseAction c n v vargs (Rule_new (Some cond)) True
        else Inr (c, Rule_new (Some cond))) = Inr (c0, r0)" "activate_loop n s c0 r0 = Inr (?c1, ?r1, tail_text r)"
    using v(2) by (auto simp only: and_then_eq_Inr split: prod.splits)
  have "rule_ok ?c1 r" using assms rule_ok_cong [of ?c1 c] by simp
  from finish_rule [OF this cond(1), of ?r1 n]
  have f: "(let s' = dropWhile is_blank (tl (tail_text r)) in
      if tail_text r \<noteq> [] \<and> s' \<noteq> [] then deactivate_loop n s' ?c1 ?r1 else Inr (?c1, ?r1)) = Inr (set_lock (rule_locks r) c, r)"
    by (simp add: Rule_new_def rule_locks_def list_ex_iff bex_Un)
  have "rule_copy r = r" using cond condition_copy [OF cond(2)] by (cases r) (simp add: rule_copy_def)
  then have rr: "read_rule n name args v vargs s c = Inr ((set_lock (rule_locks r) c)\<lparr>cfg_rules := cfg_rules c @ [r]\<rparr>)"
    unfolding read_rule_def n(4) and_then_simps a prod.case f by (simp add: set_lock_def)
  have "name \<noteq> ''address''" "global_option n name v = None" using n(2) by (auto simp: rule_name_def)
  then show ?thesis
    unfolding format_rule_text [OF cond(1)] n(1) append_assoc options_line_def h t v(1) and_then_simps prod.case Let_def by (simp add: rr)
qed

lemma good_join:
  assumes "good_line a" "\<forall>c \<in> set mid. line_char c \<and> c \<noteq> CHR ''#''" "good_line b"
  shows "good_line (a @ mid @ b)"
  using assms unfolding good_line_def by (simp add: ball_Un)

lemma parts_good: "name_chars name \<Longrightarrow> \<forall>a \<in> set args. arg_ok a \<Longrightarrow> good_line (name @ args_text args)"
proof -
  assume a: "name_chars name" "\<forall>a \<in> set args. arg_ok a"
  show ?thesis
  proof (cases "args = []")
    case True
    then show ?thesis using name_chars_good(1) [OF a(1)] by (simp add: args_text_def)
  next
    case False
    have c: "\<forall>c \<in> {CHR ''('', CHR '','', CHR '')''}. line_char c \<and> c \<noteq> CHR ''#'' \<and> \<not> is_blank c"
      by (simp add: line_char_def isgraph_def is_blank_def)
    have "\<forall>c \<in> set (arg_list args). line_char c \<and> c \<noteq> CHR ''#''"
      using a(2)
    proof (induction args rule: arg_list.induct)
      case (2 x)
      then show ?case using arg_char_facts by (auto simp: arg_ok_def)
    next
      case (3 x y xs)
      have "\<forall>c \<in> set x. line_char c \<and> c \<noteq> CHR ''#''" using 3(2) arg_char_facts by (auto simp: arg_ok_def)
      then show ?case using 3 c by (simp add: ball_Un)
    qed simp
    moreover have "good_line '')''" using c by (simp add: good_line_def)
    moreover have "args_text args = (''('' @ arg_list args) @ '')''" using False by (simp add: args_text_def)
    ultimately show ?thesis using good_append [OF a(1), of "''('' @ arg_list args" "'')''"] c by simp
  qed
qed

lemma actions_good: "as \<noteq> [] \<Longrightarrow> \<forall>a \<in> set as. action_ok c a \<Longrightarrow> good_line (comma_list (map format_action as))"
proof (induction as rule: induct_list012)
  case (2 a)
  then obtain name args where "action_read c a name args" using action_parts [of c a] by auto
  then show ?case using parts_good [of name args] by (simp add: action_read_def)
next
  case (3 a b as)
  then obtain name args where "action_read c a name args" using action_parts [of c a] by auto
  then have "good_line (format_action a)" using parts_good [of name args] by (simp add: action_read_def)
  moreover have "\<forall>c \<in> set '', ''. line_char c \<and> c \<noteq> CHR ''#''" by (simp add: line_char_def isgraph_def is_blank_def)
  ultimately show ?case using good_join [of "format_action a" "'', ''" "comma_list (map format_action (b # as))"] 3 by simp
qed simp

lemma rule_good:
  assumes "rule_ok c r"
  shows "good_line (format_rule r)" "format_rule r \<noteq> ''end''"
proof -
  obtain cond where cond: "r_condition r = Some cond" "condition_ok c cond"
    using assms by (auto simp: rule_ok_def split: option.splits)
  obtain name args where n: "format_condition cond = name @ args_text args" "rule_name name" "\<forall>a \<in> set args. arg_ok a"
    using condition_parts [OF cond(2)] by metis
  let ?A = "comma_list (map format_action (r_activateActions r))" and ?D = "comma_list (map format_action (r_deactivateActions r))"
  have g: "good_line (format_condition cond)" using parts_good n by (simp add: rule_name_def)
  have A: "r_activateActions r \<noteq> [] \<Longrightarrow> good_line ?A" and D: "r_deactivateActions r \<noteq> [] \<Longrightarrow> good_line ?D"
    using assms actions_good [of _ c] by (auto simp: rule_ok_def)
  have m: "\<forall>c \<in> set '' = ; ''. line_char c \<and> c \<noteq> CHR ''#''" "\<forall>c \<in> set ''; ''. line_char c \<and> c \<noteq> CHR ''#''"
    by (simp_all add: line_char_def isgraph_def is_blank_def)
  consider "r_activateActions r = []" "r_deactivateActions r \<noteq> []" | "r_activateActions r \<noteq> []" "r_deactivateActions r = []"
    | "r_activateActions r \<noteq> []" "r_deactivateActions r \<noteq> []" using assms by (auto simp: rule_ok_def)
  then show "good_line (format_rule r)"
  proof cases
    case 1
    then show ?thesis using good_join [OF g m(1) D] by (simp add: format_rule_text [OF cond(1)] tail_text_def)
  next
    case 2
    then show ?thesis using good_join [OF g equals_chars A] by (simp add: format_rule_text [OF cond(1)] tail_text_def)
  next
    case 3
    then show ?thesis using good_join [OF g equals_chars good_join [OF A m(2) D]] by (simp add: format_rule_text [OF cond(1)] tail_text_def)
  qed
  have "CHR ''='' \<in> set (format_rule r)" by (simp add: format_rule_text [OF cond(1)])
  moreover have "CHR ''='' \<notin> set ''end''" by simp
  ultimately show "format_rule r \<noteq> ''end''" by metis
qed

end
