(* ===== verification/ConfigRebuild.thy ===== *)
theory ConfigRebuild
  imports ConfigRules "HOL-Library.Multiset"
begin

text \<open>
  The lines of the sections of screens, links and aliases, as they are written for a configuration, and the maps
  that reading them rebuilds entry by entry.
\<close>

subsection \<open>Rebuilding a map\<close>

context strict_weak_order
begin

lemma insert_last: "\<forall>j \<in> set (map fst m). lt j k \<Longrightarrow> sm_insert lt k v m = m @ [(k, v)]"
  by (induction m) (auto simp: less_asym)

lemma update_at: "\<forall>j \<in> set (map fst pre). lt j k \<Longrightarrow> sm_update lt k f (pre @ (k, v) # post) = pre @ (k, f v) # post"
  by (induction pre) (auto simp: sm_equiv_def less_irrefl)

lemma find_at: "\<forall>j \<in> set (map fst pre). lt j k \<Longrightarrow> sm_find lt k (pre @ (k, v) # post) = Some (k, v)"
  by (induction pre) (auto simp: sm_equiv_def less_irrefl)

lemma find_greater: "\<forall>j \<in> set (map fst m). lt j k \<Longrightarrow> sm_find lt k m = None"
  by (induction m) (auto simp: sm_equiv_def)

lemma wf_append: "sm_wf lt (m @ (k, v) # m') \<Longrightarrow> \<forall>j \<in> set (map fst m). lt j k"
  by (auto simp: sm_wf_def sorted_wrt_append)

lemma wf_unique: "sm_wf lt m \<Longrightarrow> sm_wf lt m' \<Longrightarrow> set m = set m' \<Longrightarrow> m = m'"
proof (induction m arbitrary: m')
  case (Cons p m)
  obtain q m1 where m': "m' = q # m1" using Cons.prems(3) by (cases m') auto
  obtain k v j w where p: "p = (k, v)" "q = (j, w)" by force
  have w: "\<forall>x \<in> set (map fst m). lt k x" "\<forall>x \<in> set (map fst m1). lt j x" "sm_wf lt m" "sm_wf lt m1"
    using Cons.prems(1,2) m' p by simp_all
  have "p = q"
  proof (rule ccontr)
    assume "p \<noteq> q"
    then have "p \<in> set m1" "q \<in> set m" using Cons.prems(3) m' by auto
    then have "lt j k" "lt k j" using w(1,2) p by force+
    then show False using less_asym by blast
  qed
  moreover have "p \<notin> set m" "q \<notin> set m1" using w(1,2) p less_irrefl by force+
  then have "set m = set m1" using Cons.prems(3) m' calculation by auto
  ultimately show ?case using Cons.IH [OF w(3,4)] m' by simp
qed simp

end

subsection \<open>The section of screens\<close>

definition screen_lines :: "string \<times> cell \<Rightarrow> (string \<times> string) list" where
  "screen_lines p = (case p of (n, cl) \<Rightarrow> ([tabulator], n @ '':'') # map (\<lambda>x. ([tabulator, tabulator], option_body x)) (m_options cl))"

definition bare :: "(string \<times> cell) list \<Rightarrow> (string \<times> cell) list" where
  "bare xs = map (\<lambda>(n, cl). (n, \<lparr>m_neighbors = [], m_options = m_options cl\<rparr>)) xs"

definition own_names :: "(string \<times> 'a) list \<Rightarrow> (string \<times> string) list" where
  "own_names xs = map (\<lambda>(n, _). (n, n)) xs"

lemma keys_simps [simp]: "map fst (bare xs) = map fst xs" "map fst (own_names xs) = map fst xs"
  "bare (xs @ ys) = bare xs @ bare ys" "own_names (xs @ ys) = own_names xs @ own_names ys"
  by (simp_all add: bare_def own_names_def case_prod_beta comp_def)

definition options_ok :: "cell \<Rightarrow> bool" where
  "options_ok cl \<longleftrightarrow> sm_wf (<) (m_options cl) \<and> (\<forall>(i, v) \<in> set (m_options cl). screen_option_ok i v)"

text \<open>A configuration as it is while it is read.\<close>

definition partial :: "(string \<times> cell) list \<Rightarrow> (string \<times> string) list \<Rightarrow> 'n full_config" where
  "partial m ns = (Config_new NetworkAddress_new)\<lparr>cfg_map := m, cfg_names := ns\<rparr>"

lemma partial_fields [simp]: "cfg_map (partial m ns) = m" "cfg_names (partial m ns) = ns"
  "(partial m ns)\<lparr>cfg_map := m'\<rparr> = partial m' ns" "(partial m ns)\<lparr>cfg_names := ns'\<rparr> = partial m ns'"
  "(partial m ns)\<lparr>cfg_map := m', cfg_names := ns'\<rparr> = partial m' ns'"
  by (simp_all add: partial_def)

lemma option_steps:
  assumes "sm_wf (<) (os @ os')" "\<forall>(i, v) \<in> set os'. screen_option_ok i v" "\<forall>j \<in> set (map fst m). caseless_less j n" "n \<noteq> []"
  shows "line_steps screens_line (map option_body os') (partial (m @ [(n, \<lparr>m_neighbors = [], m_options = os\<rparr>)]) ns :: 'n full_config, n)
    (partial (m @ [(n, \<lparr>m_neighbors = [], m_options = os @ os'\<rparr>)]) ns, n)"
  using assms(1,2)
proof (induction os' arbitrary: os)
  case (Cons p os')
  obtain i v where p: "p = (i, v)" by force
  have i: "\<forall>j \<in> set (map fst os). j < i" using Cons.prems(1) p by (intro op.wf_append) simp
  have s: "screens_line k (option_body p) (partial (m @ [(n, \<lparr>m_neighbors = [], m_options = os\<rparr>)]) ns :: 'n full_config, n) =
      Inr (partial (m @ [(n, \<lparr>m_neighbors = [], m_options = os @ [p]\<rparr>)]) ns, n)" for k
    using screen_option_line [of i v n k "partial (m @ [(n, \<lparr>m_neighbors = [], m_options = os\<rparr>)]) ns"] Cons.prems(2) p assms(4)
      nm.find_at [OF assms(3), of _ "[]"] nm.update_at [OF assms(3), of _ _ "[]"] op.insert_last [OF i]
    by (simp add: addOption_def on_options_def)
  have "line_steps screens_line (map option_body os') (partial (m @ [(n, \<lparr>m_neighbors = [], m_options = os @ [p]\<rparr>)]) ns :: 'n full_config, n)
      (partial (m @ [(n, \<lparr>m_neighbors = [], m_options = (os @ [p]) @ os'\<rparr>)]) ns, n)"
    using Cons.prems by (intro Cons.IH) simp_all
  then show ?case using line_steps_cons [of screens_line, OF s] by simp
qed simp

lemma screen_steps:
  assumes "\<forall>j \<in> set (map fst xs). caseless_less j n" "isValidScreenName n" "options_ok cl"
  shows "line_steps screens_line (map snd (screen_lines (n, cl))) (partial (bare xs) (own_names xs) :: 'n full_config, scr)
    (partial (bare (xs @ [(n, cl)])) (own_names (xs @ [(n, cl)])), n)"
proof -
  have nm: "name_chars n" using valid_name_chars assms(2) .
  let ?c = "partial (bare xs @ [(n, cell_new)]) (own_names xs @ [(n, n)]) :: 'n full_config"
  have s: "screens_line k (n @ '':'') (partial (bare xs) (own_names xs), scr) = Inr (?c, n)" for k
    using name_chars_not_end [OF nm] assms(1,2) nm.find_greater [of "own_names xs" n] nm.insert_last [of "bare xs" n] nm.insert_last [of "own_names xs" n]
    by (simp add: screens_line_def addScreen_def Let_def)
  have "line_steps screens_line (map option_body (m_options cl)) (?c, n)
      (partial (bare xs @ [(n, \<lparr>m_neighbors = [], m_options = m_options cl\<rparr>)]) (own_names xs @ [(n, n)]), n)"
    using option_steps [of "[]" "m_options cl" "bare xs" n "own_names xs @ [(n, n)]"] assms(1,3) nm
    by (simp add: options_ok_def cell_new_def name_chars_def)
  from line_steps_cons [of screens_line, OF s this] show ?thesis
    by (simp add: screen_lines_def comp_def bare_def own_names_def)
qed

lemma screens_steps:
  assumes "sm_wf caseless_less (xs @ ys)" "\<forall>(n, cl) \<in> set ys. isValidScreenName n \<and> options_ok cl"
  shows "\<exists>scr'. line_steps screens_line (map snd (concat (map screen_lines ys))) (partial (bare xs) (own_names xs) :: 'n full_config, scr)
    (partial (bare (xs @ ys)) (own_names (xs @ ys)), scr')"
  using assms
proof (induction ys arbitrary: xs scr)
  case (Cons p ys)
  obtain n cl where p: "p = (n, cl)" by force
  have g: "\<forall>j \<in> set (map fst xs). caseless_less j n" using Cons.prems(1) p by (intro nm.wf_append) simp
  have v: "isValidScreenName n" "options_ok cl" using Cons.prems(2) p by simp_all
  have w: "sm_wf caseless_less ((xs @ [p]) @ ys)" "\<forall>(n, cl) \<in> set ys. isValidScreenName n \<and> options_ok cl" using Cons.prems by simp_all
  from Cons.IH [OF w, of n] obtain scr' where "line_steps screens_line (map snd (concat (map screen_lines ys)))
      (partial (bare (xs @ [p])) (own_names (xs @ [p])) :: 'n full_config, n) (partial (bare ((xs @ [p]) @ ys)) (own_names ((xs @ [p]) @ ys)), scr')" ..
  from line_steps_append [OF screen_steps [OF g v, of scr, folded p] this] show ?case by (auto simp del: keys_simps)
qed auto

subsection \<open>The section of links\<close>

definition link_lines :: "string \<times> cell \<Rightarrow> (string \<times> string) list" where
  "link_lines p = (case p of (n, cl) \<Rightarrow> ([tabulator], n @ '':'') # map (\<lambda>l. ([tabulator, tabulator], link_body l)) (m_neighbors cl))"

lemma cell_add_last:
  assumes "links_ok (ls @ (k, v) # ls')"
  shows "cell_add \<lparr>m_neighbors = ls, m_options = os\<rparr> k v = (True, \<lparr>m_neighbors = ls @ [(k, v)], m_options = os\<rparr>)"
proof -
  have w: "sm_wf edge_less (ls @ (k, v) # ls')" "\<forall>(k, v) \<in> set (ls @ (k, v) # ls'). edge_valid k \<and> edge_valid v"
    "\<forall>p \<in> set (ls @ (k, v) # ls'). \<forall>q \<in> set (ls @ (k, v) # ls'). edge_overlaps (fst p) (fst q) \<longrightarrow> p = q"
    using assms unfolding links_ok_def by blast+
  have l: "\<forall>j \<in> set (map fst ls). edge_less j k" using ed.wf_append [OF w(1)] .
  have "sm_wf edge_less ls" using w(1) by (simp add: sm_wf_def sorted_wrt_append)
  moreover have sub: "set ls \<subseteq> set (ls @ (k, v) # ls')" by auto
  ultimately have ok: "links_ok ls" using w(2,3) unfolding links_ok_def by blast
  have "\<not> edge_overlaps j k" if "(j, w) \<in> set ls" for j w
  proof
    assume "edge_overlaps j k"
    then have "(j, w) = (k, v)" using bspec [OF bspec [OF w(3)], of "(j, w)" "(k, v)"] that sub by simp
    then show False using l that ed.less_irrefl by force
  qed
  then have "\<not> cell_overlaps \<lparr>m_neighbors = ls, m_options = os\<rparr> k"
    using cell_overlaps_iff [of "\<lparr>m_neighbors = ls, m_options = os\<rparr>" k] ok w(2) by auto
  moreover have "sm_erase edge_less k ls = ls" using l by (auto simp: sm_erase_def filter_id_conv sm_equiv_def)
  ultimately show ?thesis using ed.insert_last [OF l] by (simp add: cell_add_def)
qed

lemma edge_again:
  "edge_valid k \<Longrightarrow> ce_name k = [] \<Longrightarrow> CellEdge_new (ce_side k) (ce_first k) (ce_second k) = Some k"
  "edge_valid v \<Longrightarrow> CellEdge_named (ce_name v) (ce_side v) (ce_first v) (ce_second v) = Some v"
  by (simp_all add: CellEdge_new_def CellEdge_named_def edge_valid_def)

lemma link_step:
  assumes "links_ok (ls @ (k, v) # ls')" "link_ok c (k, v)" "name_chars (ce_name v)" "\<forall>j \<in> set (map fst xs). caseless_less j n"
    and "getCanonicalName c n = n" "n \<noteq> []" "c = partial (xs @ (n, \<lparr>m_neighbors = ls, m_options = os\<rparr>) # zs) ns"
  shows "links_line i (link_body (k, v)) (c, n) = Inr (partial (xs @ (n, \<lparr>m_neighbors = ls @ [(k, v)], m_options = os\<rparr>) # zs) ns, n)"
proof -
  have o: "edge_valid k" "edge_valid v" "ce_name k = []" "ce_side v = ce_side k" "ce_side k \<noteq> kNoDirection"
    using assms(2) by (auto simp: link_ok_def edge_valid_def)
  have "connect c n (ce_side k) (ce_first k) (ce_second k) (ce_name v) (ce_first v) (ce_second v) =
      Some (True, partial (xs @ (n, \<lparr>m_neighbors = ls @ [(k, v)], m_options = os\<rparr>) # zs) ns)"
    using o assms(5) edge_again(1) [OF o(1,3)] edge_again(2) [OF o(2)] cell_add_last [OF assms(1), of os]
      nm.find_at [OF assms(4)] nm.update_at [OF assms(4)]
    by (simp add: connect_def assms(7))
  then show ?thesis unfolding link_line [OF assms(2,3,6)] by (simp add: connect_read_def)
qed

text \<open>What a link needs of the configuration that is written: its ends are whole percentages and it leads to a screen.\<close>

definition cell_ok :: "'n full_config \<Rightarrow> cell \<Rightarrow> bool" where
  "cell_ok c cl \<longleftrightarrow> options_ok cl \<and> links_ok (m_neighbors cl) \<and>
     (\<forall>(k, v) \<in> set (m_neighbors cl). link_ok c (k, v) \<and> name_chars (ce_name v) \<and> find_screen c (ce_name v) \<noteq> None)"

lemma own_find: "sm_find caseless_less n (own_names m) = map_option (\<lambda>(j, _). (j, j)) (sm_find caseless_less n m)"
  by (induction m) (auto simp: own_names_def)

lemma links_of_screen:
  assumes "links_ok (ls @ ls')" "\<forall>l \<in> set ls'. link_ok c l \<and> name_chars (ce_name (snd l)) \<and> find_screen c (ce_name (snd l)) \<noteq> None"
    and "\<forall>j \<in> set (map fst xs). caseless_less j n" "n \<noteq> []" "map fst (cfg_map c) = map fst xs @ n # map fst zs"
    and "ns = own_names (cfg_map c)"
  shows "line_steps links_line (map link_body ls') (partial (xs @ (n, \<lparr>m_neighbors = ls, m_options = os\<rparr>) # zs) ns :: 'n full_config, n)
    (partial (xs @ (n, \<lparr>m_neighbors = ls @ ls', m_options = os\<rparr>) # zs) ns, n)"
  using assms(1,2)
proof (induction ls' arbitrary: ls)
  case (Cons l ls')
  obtain k v where l: "l = (k, v)" by force
  let ?c = "partial (xs @ (n, \<lparr>m_neighbors = ls, m_options = os\<rparr>) # zs) ns :: 'n full_config"
  have names: "map fst ns = map fst xs @ n # map fst zs" using assms(5,6) by simp
  then obtain ns1 t ns2 where ns: "ns = ns1 @ (n, t) # ns2" "map fst ns1 = map fst xs"
    by (auto simp: map_eq_append_conv map_eq_Cons_conv)
  have t: "t = n" using ns(1) assms(6) by (auto simp: own_names_def map_eq_append_conv)
  have canon: "getCanonicalName ?c n = n" using nm.find_at [of ns1 n t ns2] ns assms(3) t by (simp add: getCanonicalName_def)
  have f: "find_screen c (ce_name v) \<noteq> None" "link_ok c (k, v)" "name_chars (ce_name v)" using Cons.prems(2) l by auto
  then have "isScreen ?c (ce_name v)" using own_find [of "ce_name v" "cfg_map c"] assms(6) by (auto simp: isScreen_def)
  then have lk: "link_ok ?c (k, v)" using f(2) by (auto simp: link_ok_def)
  have o: "links_ok (ls @ (k, v) # ls')" using Cons.prems(1) l by simp
  have s: "links_line i (link_body l) (?c, n) = Inr (partial (xs @ (n, \<lparr>m_neighbors = ls @ [l], m_options = os\<rparr>) # zs) ns, n)" for i
    using link_step [OF o lk f(3) assms(3) canon assms(4) refl] l by simp
  have "line_steps links_line (map link_body ls') (partial (xs @ (n, \<lparr>m_neighbors = ls @ [l], m_options = os\<rparr>) # zs) ns :: 'n full_config, n)
      (partial (xs @ (n, \<lparr>m_neighbors = (ls @ [l]) @ ls', m_options = os\<rparr>) # zs) ns, n)"
    using Cons.prems by (intro Cons.IH) simp_all
  then show ?case using line_steps_cons [of links_line, OF s] by simp
qed simp

lemma known_screen_line:
  assumes "name_chars n" "find_name c n = Some (j, t)" "caseless_equal t n"
  shows "known_screen i (n @ '':'') c = Inr (c, n)"
  using assms name_chars_not_end [OF assms(1)] by (auto simp: known_screen_def isScreen_def isCanonicalName_def getCanonicalName_def name_chars_def)

lemma cell_eta: "\<lparr>m_neighbors = m_neighbors cl, m_options = m_options cl\<rparr> = cl"
  by simp

lemma links_steps:
  assumes "cfg_map c = xs @ ys" "sm_wf caseless_less (cfg_map c)" "\<forall>(n, cl) \<in> set ys. name_chars n \<and> cell_ok c cl"
  shows "\<exists>scr'. line_steps links_line (map snd (concat (map link_lines ys))) (partial (xs @ bare ys) (own_names (cfg_map c)) :: 'n full_config, scr)
    (partial (xs @ ys) (own_names (cfg_map c)), scr')"
  using assms(1,3)
proof (induction ys arbitrary: xs scr)
  case (Cons p ys)
  obtain n cl where p: "p = (n, cl)" by force
  let ?ns = "own_names (cfg_map c)"
  let ?c = "partial (xs @ bare (p # ys)) ?ns :: 'n full_config"
  have g: "\<forall>j \<in> set (map fst xs). caseless_less j n" using assms(2) Cons.prems(1) p by (intro nm.wf_append) simp
  have ok: "name_chars n" "cell_ok c cl" using Cons.prems(2) p by simp_all
  have b: "bare (p # ys) = (n, \<lparr>m_neighbors = [], m_options = m_options cl\<rparr>) # bare ys" by (simp add: bare_def p)
  have "find_name ?c n = Some (n, n)"
    using own_find [of n "cfg_map c"] nm.find_at [OF g, of cl ys] Cons.prems(1) p by simp
  then have h: "links_line i (n @ '':'') (?c, scr) = Inr (?c, n)" for i
    using known_screen_line [OF ok(1), of ?c n n i] name_chars_not_end [OF ok(1)] by (simp add: links_line_def caseless_equal_iff)
  have "line_steps links_line (map link_body (m_neighbors cl))
      (partial (xs @ (n, \<lparr>m_neighbors = [], m_options = m_options cl\<rparr>) # bare ys) ?ns :: 'n full_config, n)
      (partial (xs @ (n, \<lparr>m_neighbors = [] @ m_neighbors cl, m_options = m_options cl\<rparr>) # bare ys) ?ns, n)"
    using ok Cons.prems(1) p by (intro links_of_screen [OF _ _ g _ _ refl]) (auto simp: cell_ok_def name_chars_def)
  then have "line_steps links_line (map link_body (m_neighbors cl)) (?c, n) (partial (xs @ (n, cl) # bare ys) ?ns, n)"
    unfolding b by (simp add: cell_eta)
  from line_steps_cons [of links_line, OF h this]
  have 1: "line_steps links_line (map snd (link_lines p)) (?c, scr) (partial ((xs @ [p]) @ bare ys) ?ns, n)"
    by (simp add: link_lines_def comp_def p)
  have w: "cfg_map c = (xs @ [p]) @ ys" "\<forall>(n, cl) \<in> set ys. name_chars n \<and> cell_ok c cl" using Cons.prems by simp_all
  from Cons.IH [OF w, of n] obtain scr' where "line_steps links_line (map snd (concat (map link_lines ys)))
      (partial ((xs @ [p]) @ bare ys) ?ns :: 'n full_config, n) (partial ((xs @ [p]) @ ys) ?ns, scr')" ..
  from line_steps_append [OF 1 this] show ?case by auto
qed (auto simp: bare_def)

subsection \<open>The section of aliases\<close>

fun alias_body :: "string \<Rightarrow> (string \<times> string) list \<Rightarrow> (string \<times> string) list" where
  "alias_body scr [] = []"
| "alias_body scr ((t, n) # al) = (if t \<noteq> scr then [([tabulator], t @ '':'')] else []) @ ([tabulator, tabulator], n) # alias_body t al"

lemma alias_text: "alias_lines scr al = render (alias_body scr al)"
  by (induction scr al rule: alias_body.induct) simp_all

lemma alias_header:
  assumes "sm_wf caseless_less ns" "set (own_names m) \<subseteq> set ns" "sm_find caseless_less t m \<noteq> None" "name_chars t"
  shows "known_screen i (t @ '':'') (partial m ns :: 'n full_config) = Inr (partial m ns, t)"
proof -
  obtain j cl where j: "(j, cl) \<in> set m" "sm_equiv caseless_less t j" using assms(3) sm_find_member by fastforce
  then have "(j, j) \<in> set ns" using assms(2) by (force simp: own_names_def)
  then have "find_name (partial m ns :: 'n full_config) t = Some (j, j)" using nm.find_member [OF assms(1) _ j(2)] by simp
  moreover have "caseless_equal j t" using nm.equiv_sym [OF j(2)] by (simp only: caseless_equal_equiv)
  ultimately show ?thesis using known_screen_line [OF assms(4)] by blast
qed

lemma alias_steps:
  assumes "sm_wf caseless_less ns" "set (own_names m) \<subseteq> set ns"
    and "\<forall>(t, n) \<in> set al. isValidScreenName n \<and> name_chars t \<and> sm_find caseless_less t m \<noteq> None \<and> sm_find caseless_less n ns = None"
    and "sorted_wrt (\<lambda>a b. \<not> sm_equiv caseless_less a b) (map snd al)"
  shows "\<exists>ns' scr'. line_steps aliases_line (map snd (alias_body scr al)) (partial m ns :: 'n full_config, scr) (partial m ns', scr') \<and>
    sm_wf caseless_less ns' \<and> set ns' = set ns \<union> (\<lambda>(t, n). (n, t)) ` set al"
  using assms
proof (induction al arbitrary: ns scr)
  case (Cons p al)
  obtain t n where p: "p = (t, n)" by force
  let ?c = "partial m ns :: 'n full_config" and ?ns = "sm_insert caseless_less n t ns"
  have o: "isValidScreenName n" "name_chars t" "sm_find caseless_less t m \<noteq> None" "sm_find caseless_less n ns = None"
    using Cons.prems(3) p by auto
  have set1: "set ?ns = insert (n, t) (set ns)" using nm.set_insert_new [OF o(4)] .
  have wf1: "sm_wf caseless_less ?ns" using nm.wf_insert Cons.prems(1) .
  have new: "sm_find caseless_less n' ?ns = None" if "(t', n') \<in> set al" for t' n'
  proof -
    have "\<not> sm_equiv caseless_less n' n" using Cons.prems(4) p that nm.equiv_sym by fastforce
    then show ?thesis using nm.find_insert [OF Cons.prems(1)] Cons.prems(3) that by fastforce
  qed
  have 1: "line_steps aliases_line (if t \<noteq> scr then [t @ '':''] else []) (?c, scr) (?c, t)"
    using alias_header [OF Cons.prems(1,2) o(3,2)] name_chars_not_end [OF o(2)]
    by (auto intro!: line_steps_one simp: aliases_line_def)
  have nm: "name_chars n" using valid_name_chars [OF o(1)] .
  have 2: "aliases_line i n (?c, t) = Inr (partial m ?ns, t)" for i
    using o name_chars_not_end [OF nm] by (simp add: aliases_line_def addAlias_def name_chars_def)
  have "\<exists>ns' scr'. line_steps aliases_line (map snd (alias_body t al)) (partial m ?ns :: 'n full_config, t) (partial m ns', scr') \<and>
      sm_wf caseless_less ns' \<and> set ns' = set ?ns \<union> (\<lambda>(t, n). (n, t)) ` set al"
    using wf1 set1 Cons.prems(2-4) new by (intro Cons.IH) auto
  then obtain ns' scr' where r: "line_steps aliases_line (map snd (alias_body t al)) (partial m ?ns :: 'n full_config, t) (partial m ns', scr')"
      "sm_wf caseless_less ns'" "set ns' = set ?ns \<union> (\<lambda>(t, n). (n, t)) ` set al" by blast
  have "line_steps aliases_line (map snd (alias_body scr (p # al))) (?c, scr) (partial m ns', scr')"
    using line_steps_append [OF 1 line_steps_cons [OF 2 r(1)]] p by (cases "t = scr") simp_all
  moreover have "set ns' = set ns \<union> (\<lambda>(t, n). (n, t)) ` set (p # al)" using r(3) set1 p by auto
  ultimately show ?case using r(2) by blast
qed auto

lemma mm_insert_mset: "mset (mm_insert lt k v m) = add_mset (k, v) (mset m)"
  by (induction m) auto

lemma alias_map_mset: "mset (alias_map names) = mset (map (\<lambda>(n, t). (t, n)) (filter (\<lambda>(n, t). n \<noteq> t) names))"
proof -
  have "mset (foldl (\<lambda>m (n, t). if n \<noteq> t then mm_insert caseless_less t n m else m) m names) =
      mset m + mset (map (\<lambda>(n, t). (t, n)) (filter (\<lambda>(n, t). n \<noteq> t) names))" for m
    by (induction names arbitrary: m) (auto simp: mm_insert_mset)
  then show ?thesis by (simp add: alias_map_def)
qed

lemma alias_map_set: "set (alias_map names) = {(t, n). (n, t) \<in> set names \<and> n \<noteq> t}"
  using arg_cong [OF alias_map_mset [of names], of set_mset] by force

lemma wf_keys_apart: "sm_wf caseless_less m \<Longrightarrow> (k, v) \<in> set m \<Longrightarrow> (j, w) \<in> set m \<Longrightarrow> sm_equiv caseless_less k j \<Longrightarrow> k = j \<and> v = w"
  using nm.find_member [of m] nm.equiv_refl by (metis Pair_inject option.inject)

lemma wf_keys_distinct: "sm_wf caseless_less m \<Longrightarrow> distinct (map fst m)"
  by (induction m) (force simp: nm.less_irrefl)+

lemma alias_map_apart:
  assumes "sm_wf caseless_less names"
  shows "sorted_wrt (\<lambda>a b. \<not> sm_equiv caseless_less a b) (map snd (alias_map names))"
proof -
  have "mset (map snd (alias_map names)) = mset (map fst (filter (\<lambda>(n, t). n \<noteq> t) names))"
    using arg_cong [OF alias_map_mset [of names], of "image_mset snd"] by (simp add: case_prod_beta image_mset.compositionality comp_def)
  moreover have "distinct (map fst (filter (\<lambda>(n, t). n \<noteq> t) names))" using wf_keys_distinct [OF assms] by (simp add: distinct_map_filter)
  ultimately have d: "distinct (map snd (alias_map names))" using mset_eq_imp_distinct_iff by blast
  have "sorted_wrt (\<lambda>a b. \<not> sm_equiv caseless_less a b) xs" if "distinct xs" "set xs \<subseteq> fst ` set names" for xs
    using that
  proof (induction xs)
    case (Cons x xs)
    have "\<not> sm_equiv caseless_less x y" if y: "y \<in> set xs" for y
    proof
      assume "sm_equiv caseless_less x y"
      moreover obtain v w where "(x, v) \<in> set names" "(y, w) \<in> set names" using Cons.prems(2) y by force
      ultimately have "x = y" using wf_keys_apart [OF assms] by blast
      then show False using Cons.prems(1) y by simp
    qed
    then show ?case using Cons by simp
  qed simp
  moreover have "set (map snd (alias_map names)) \<subseteq> fst ` set names" by (force simp: alias_map_set)
  ultimately show ?thesis using d by blast
qed

lemma own_names_set: "set (own_names m) = {(n, n) | n cl. (n, cl) \<in> set m}"
  by (auto simp: own_names_def)

lemma own_names_wf: "sm_wf caseless_less (m :: (string \<times> cell) list) \<Longrightarrow> sm_wf caseless_less (own_names m)"
  using sm_wf_keys [OF keys_simps(2), of caseless_less m] by blast

text \<open>A name that is its own target is a screen, and an alias is not a screen.\<close>

lemma own_name: "cfg_inv c \<Longrightarrow> (n, t) \<in> set (cfg_names c) \<Longrightarrow> n = t \<longleftrightarrow> find_screen c n \<noteq> None"
proof -
  assume c: "cfg_inv c" "(n, t) \<in> set (cfg_names c)"
  show ?thesis
  proof
    assume "find_screen c n \<noteq> None"
    then obtain j cl where j: "(j, cl) \<in> set (cfg_map c)" "sm_equiv caseless_less n j" using sm_find_member by fastforce
    then show "n = t" using wf_keys_apart [OF cfg_invD(2) [OF c(1)] c(2) cfg_invD(4) [OF c(1) j(1)] j(2)] by simp
  qed (use cfg_invD(5) [OF c] in simp)
qed

lemma names_split: "cfg_inv c \<Longrightarrow> set (cfg_names c) = set (own_names (cfg_map c)) \<union> (\<lambda>(t, n). (n, t)) ` set (alias_map (cfg_names c))"
proof -
  assume c: "cfg_inv c"
  have "(n, n) \<in> set (own_names (cfg_map c))" if n: "(n, n) \<in> set (cfg_names c)" for n
  proof -
    obtain j cl where j: "(j, cl) \<in> set (cfg_map c)" "sm_equiv caseless_less n j"
      using cfg_invD(5) [OF c n] sm_find_member by fastforce
    then show ?thesis using wf_keys_apart [OF cfg_invD(2) [OF c] n cfg_invD(4) [OF c j(1)] j(2)] by (auto simp: own_names_set)
  qed
  moreover have "set (own_names (cfg_map c)) \<subseteq> set (cfg_names c)" using cfg_invD(4) [OF c] by (auto simp: own_names_set)
  ultimately show ?thesis by (fastforce simp: alias_map_set)
qed

lemma alias_targets:
  assumes "read_inv c" "(t, n) \<in> set (alias_map (cfg_names c))"
  shows "isValidScreenName n \<and> name_chars t \<and> find_screen c t \<noteq> None \<and> sm_find caseless_less n (own_names (cfg_map c)) = None"
proof -
  have c: "cfg_inv c" and v: "\<forall>(n, t) \<in> set (cfg_names c). isValidScreenName n" using assms(1) by (simp_all add: read_inv_def)
  have m: "(n, t) \<in> set (cfg_names c)" "n \<noteq> t" using assms(2) by (simp_all add: alias_map_set)
  obtain j cl where j: "(j, cl) \<in> set (cfg_map c)" "sm_equiv caseless_less t j" using cfg_invD(5) [OF c m(1)] sm_find_member by fastforce
  then have "name_chars j" using v cfg_invD(4) [OF c j(1)] valid_name_chars by blast
  then have "name_chars t" using name_chars_lower [of j t] j(2) by (simp add: caseless_equiv)
  moreover have "sm_find caseless_less n (own_names (cfg_map c)) = None"
    using own_find [of n "cfg_map c"] own_name [OF c m(1)] m(2) by (cases "find_screen c n") auto
  ultimately show ?thesis using v m(1) cfg_invD(5) [OF c m(1)] by blast
qed

lemma aliases_rebuilt:
  assumes "read_inv c"
  shows "\<exists>scr. line_steps aliases_line (map snd (alias_body [] (alias_map (cfg_names c))))
    (partial (cfg_map c) (own_names (cfg_map c)) :: 'n full_config, []) (partial (cfg_map c) (cfg_names c), scr)"
proof -
  have c: "cfg_inv c" using assms by (simp add: read_inv_def)
  obtain ns scr where s: "line_steps aliases_line (map snd (alias_body [] (alias_map (cfg_names c))))
      (partial (cfg_map c) (own_names (cfg_map c)) :: 'n full_config, []) (partial (cfg_map c) ns, scr)"
      "sm_wf caseless_less ns" "set ns = set (own_names (cfg_map c)) \<union> (\<lambda>(t, n). (n, t)) ` set (alias_map (cfg_names c))"
    using alias_steps [OF own_names_wf [OF cfg_invD(1) [OF c]] order_refl _ alias_map_apart [OF cfg_invD(2) [OF c]], of "[]"]
      alias_targets [OF assms] by blast
  have "ns = cfg_names c" using nm.wf_unique [OF s(2) cfg_invD(2) [OF c]] s(3) names_split [OF c] by simp
  then show ?thesis using s(1) by blast
qed

lemma no_aliases: "cfg_inv c \<Longrightarrow> length (cfg_map c) = length (cfg_names c) \<Longrightarrow> cfg_names c = own_names (cfg_map c)"
proof -
  assume c: "cfg_inv c" "length (cfg_map c) = length (cfg_names c)"
  have w: "sm_wf caseless_less (own_names (cfg_map c))" using own_names_wf cfg_invD(1) [OF c(1)] .
  have "card (set (own_names (cfg_map c))) = length (own_names (cfg_map c))" "card (set (cfg_names c)) = length (cfg_names c)"
    using w cfg_invD(2) [OF c(1)] wf_keys_distinct distinct_map distinct_card by blast+
  then have "card (set (own_names (cfg_map c))) = card (set (cfg_names c))" using c(2) by (simp add: own_names_def)
  then have "set (own_names (cfg_map c)) = set (cfg_names c)" using names_split [OF c(1)] by (intro card_subset_eq) auto
  then show ?thesis using nm.wf_unique [OF w cfg_invD(2) [OF c(1)]] by simp
qed

end
