(* ===== verification/ConfigRoundtrip.thy ===== *)
theory ConfigRoundtrip
  imports ConfigRebuild
begin

text \<open>
  A configuration that is written reads as itself. The text consists of the lines of four sections;
  reading them rebuilds the configuration. The last part shows what is written or accepted and does not read back.
\<close>

subsection \<open>The section of options\<close>














subsection \<open>The text\<close>







lemma blanks [simp]: "is_blank (CHR 0x09)"
  by (simp add: is_blank_def)










subsection \<open>The round trip\<close>
















subsection \<open>What does not read as it was meant\<close>

lemma corners_start: "\<exists>r. corners_text v = ''none'' @ r \<and> (r = [] \<or> (\<exists>r'. r = CHR '' '' # CHR ''+'' # r'))"
  unfolding corners_text_def by (intro exI conjI) (rule refl, simp)

text \<open>
  C36. Two global options are written and do not read as they were: the limit of the clipboard is written as a truth
  value and read as an integer, which raises an exception whatever the limit, and of the corners only the
  word \<^verbatim>\<open>none\<close> before the first blank is read, so no corner is set whatever the corners were.
\<close>

theorem written_options_not_read:
  "options_line net n (option_body (kOptionClipboardSharingSize, v)) c =
     Inl (XConfigRead n ''invalid integer argument \"%{1}\"'' [if v \<noteq> 0 then ''true'' else ''false'']) \<and>
   options_line net n (option_body (kOptionScreenSwitchCorners, w)) c = Inr (snd (addOption c [] kOptionScreenSwitchCorners 0))"
proof
  let ?v = "if v \<noteq> 0 then ''true'' else ''false''"
  have n: "name_chars ''clipboardSharingSize''" "value_text ?v" "name_chars ''switchCorners''"
    using literal_value_text by (simp_all add: name_chars_def word_char_def isalnum_def)
  have h: "parseNameWithArgs n ''value'' (tl (''= '' @ ?v)) ('',;'' @ [CHR 0x0A]) = Inr (?v, [], [])"
    using option_halves(2) [OF n(1,2)] by simp
  have b: "option_body (kOptionClipboardSharingSize, v) = ''clipboardSharingSize'' @ '' = '' @ ?v"
    using option_values(1) [of kOptionClipboardSharingSize v] screen_option_names by (simp add: option_body_def boolean_options_def)
  have "parseInt n ?v = Inl (XConfigRead n ''invalid integer argument \"%{1}\"'' [?v])"
    by (simp add: parseInt_def strtol_def is_space_def is_digit_def)
  then have "global_option n ''clipboardSharingSize'' ?v = Some (kOptionClipboardSharingSize, Inl (XConfigRead n ''invalid integer argument \"%{1}\"'' [?v]))"
    by (simp add: global_option_def)
  then show "options_line net n (option_body (kOptionClipboardSharingSize, v)) c =
      Inl (XConfigRead n ''invalid integer argument \"%{1}\"'' [?v])"
    unfolding b options_line_def option_halves(1) [OF n(1,2)] and_then_simps prod.case h Let_def by simp
  obtain r where r: "corners_text w = ''none'' @ r" "r = [] \<or> (\<exists>r'. r = CHR '' '' # CHR ''+'' # r')" using corners_start by metis
  have q: "dropWhile is_blank r = [] \<or> hd (dropWhile is_blank r) = CHR ''+''" using r(2) by (elim disjE exE) (simp_all add: is_blank_def)
  have "parseNameWithArgs n ''name'' ([] @ ''switchCorners'' @ '' = '' @ corners_text w) ''='' = Inr (''switchCorners'', [], ''= '' @ corners_text w)"
    by (rule pn_plain) (simp_all add: ends_name_def is_blank_def)
  moreover have "parseNameWithArgs n ''value'' ('' '' @ ''none'' @ r) ('',;'' @ [CHR 0x0A]) = Inr (''none'', [], dropWhile is_blank r)"
  proof (rule pn_plain)
    show "r = [] \<or> ends_name ('',;'' @ [CHR 0x0A]) (hd r)" using r(2) by (elim disjE exE) (simp_all add: ends_name_def is_blank_def)
    show "hd (dropWhile is_blank r) \<noteq> CHR ''(''" if "dropWhile is_blank r \<noteq> []" using that q by (simp only: if_False) auto
    show "\<not> need_delim ('',;'' @ [CHR 0x0A])" by (rule delimiters)
  qed (simp_all add: ends_name_def is_blank_def)
  moreover have "\<not> (dropWhile is_blank r \<noteq> [] \<and> (hd (dropWhile is_blank r) = CHR '','' \<or> hd (dropWhile is_blank r) = CHR '';''))"
    using q by (elim disjE) simp_all
  moreover have "global_option n ''switchCorners'' ''none'' = Some (kOptionScreenSwitchCorners, Inr 0)"
    using corners_read [of 0] by (simp add: global_option_def corners_text_def)
  ultimately show "options_line net n (option_body (kOptionScreenSwitchCorners, w)) c = Inr (snd (addOption c [] kOptionScreenSwitchCorners 0))"
    using option_values(4) [of w] screen_option_names r(1) by (simp add: option_body_def options_line_def del: dropWhile_eq_Nil_conv)
qed

text \<open>
  A line of blanks is not skipped as an empty line is: between sections it raises the exception for data outside a
  section.
\<close>

theorem blank_line_rejected:
  assumes "ws \<noteq> []" "list_all is_blank ws"
  shows "readSection net c (rc_at (ws @ newline # rest) k) = Inl (XConfigRead (Suc k) ''found data outside section'' [])"
proof -
  have b: "\<forall>x \<in> set ws. is_blank x" using assms(2) by (simp add: list_all_iff)
  have "\<not> is_blank newline" "\<not> is_blank (CHR ''#'')" "\<not> is_blank (CHR ''s'')" by (simp_all add: is_blank_def)
  then have n: "newline \<notin> set ws" "CHR ''#'' \<notin> set ws" "CHR ''s'' \<notin> set ws" using b by blast+
  have "getline (ws @ newline # rest) = Some (ws, rest)" using takeWhile_until [OF n(1)] by (simp add: getline_def)
  moreover have "clean_line ws = ws"
  proof -
    have "takeWhile (\<lambda>c. c \<noteq> CHR ''#'') ws = ws" using n(2) by (simp add: takeWhile_eq_all_conv) metis
    moreover have "list_all (\<lambda>c. is_blank c \<or> c = CHR 0x0D) ws" using b by (simp add: list_all_iff)
    ultimately show ?thesis using assms(2) unfolding clean_line_def Let_def by (simp only: if_True)
  qed
  moreover have "List.find (\<lambda>c. \<not> line_char c) ws = None" using b by (simp add: find_None_iff line_char_def)
  moreover have "take 8 ws \<noteq> ''section:''"
  proof
    assume "take 8 ws = ''section:''"
    then have "CHR ''s'' \<in> set ws" using set_take_subset [of 8 ws] by auto
    then show False using n(3) by blast
  qed
  ultimately show ?thesis using assms(1) by (simp add: readSection_def readLine_def readLine_loop.simps section_name_def)
qed

end
