(* ===== verification/IpcMessages.thy ===== *)
theory IpcMessages
  imports ProtocolUtil
begin

text \<open>
  The messages between the daemon, the GUI and the node processes: \<^verbatim>\<open>src/lib/ipc/IpcMessage.cpp\<close> with the formats of
  \<^verbatim>\<open>Ipc.cpp\<close>, and what \<^verbatim>\<open>IpcServerProxy::send\<close> and \<^verbatim>\<open>IpcClientProxy::send\<close> write for them. A constructor that throws
  \<^verbatim>\<open>std::invalid_argument\<close> is a message that is not valid.
\<close>

subsection \<open>Data\<close>

type_synonym u64 = "64 word"

datatype EIpcClientType = kIpcClientUnknown | kIpcClientGui | kIpcClientNode

datatype IpcRuntimeState = RuntimeStopped | RuntimeRunning | RuntimeUnknown

datatype IpcConnectionState = StateAvailable | StateConnected | StateDisconnected

datatype IpcConnectionRole = ClientPeer | ServerPeer

datatype IpcIdentityPresence = IdentityKnown | LegacyUnavailable

record connection_state =
  cs_state :: IpcConnectionState
  cs_role :: IpcConnectionRole
  cs_identityPresence :: IpcIdentityPresence
  cs_technicalName :: bytes
  cs_detail :: bytes

datatype ipc_message =
    IpcHelloMessage EIpcClientType
  | IpcLogLineMessage bytes
  | IpcCommandMessage bytes bool
  | IpcShutdownMessage
  | IpcConnectionStateMessage connection_state
  | IpcCommandAppliedMessage bytes
  | IpcStopRequestMessage bytes bytes
  | IpcStartRequestMessage bytes bytes bool
  | IpcReloadRequestMessage bytes bytes
  | IpcRuntimeStatusRequestMessage bytes
  | IpcRuntimeStatusResponseMessage bytes byte IpcRuntimeState bytes
  | IpcTopologyRequestMessage bytes bytes bytes

text \<open>The checks of the constructors.\<close>

definition state_valid :: "connection_state \<Rightarrow> bool" where
  "state_valid s \<longleftrightarrow>
     \<not> (cs_identityPresence s = IdentityKnown \<and> cs_technicalName s = []) \<and>
     \<not> (cs_identityPresence s = LegacyUnavailable \<and> cs_technicalName s \<noteq> [])"

fun ipc_valid :: "ipc_message \<Rightarrow> bool" where
  "ipc_valid (IpcCommandAppliedMessage nonce) \<longleftrightarrow> length nonce = 16"
| "ipc_valid (IpcStopRequestMessage requestNonce expectedAppliedNonce) \<longleftrightarrow>
     length requestNonce = 16 \<and> length expectedAppliedNonce = 16 \<and> requestNonce \<noteq> expectedAppliedNonce"
| "ipc_valid (IpcReloadRequestMessage requestNonce expectedAppliedNonce) \<longleftrightarrow>
     length requestNonce = 16 \<and> length expectedAppliedNonce = 16"
| "ipc_valid (IpcRuntimeStatusRequestMessage queryNonce) \<longleftrightarrow> length queryNonce = 16"
| "ipc_valid (IpcRuntimeStatusResponseMessage queryNonce schemaVersion runtimeState appliedNonce) \<longleftrightarrow>
     length queryNonce = 16 \<and> schemaVersion = 1 \<and> (appliedNonce = [] \<or> length appliedNonce = 16)"
| "ipc_valid (IpcTopologyRequestMessage requestNonce expectedGeneration payload) \<longleftrightarrow>
     length requestNonce = 16 \<and> length expectedGeneration = 16 \<and> requestNonce \<noteq> expectedGeneration"
| "ipc_valid (IpcStartRequestMessage nonce command elevate) \<longleftrightarrow> length nonce = 16"
| "ipc_valid (IpcConnectionStateMessage s) \<longleftrightarrow> state_valid s"
| "ipc_valid _ \<longleftrightarrow> True"

subsection \<open>The values of the enumerations\<close>

fun client_type_code :: "EIpcClientType \<Rightarrow> nat" where
  "client_type_code kIpcClientUnknown = 0"
| "client_type_code kIpcClientGui = 1"
| "client_type_code kIpcClientNode = 2"

fun runtime_code :: "IpcRuntimeState \<Rightarrow> nat" where
  "runtime_code RuntimeStopped = 0"
| "runtime_code RuntimeRunning = 1"
| "runtime_code RuntimeUnknown = 2"

fun state_code :: "IpcConnectionState \<Rightarrow> nat" where
  "state_code StateAvailable = 0"
| "state_code StateConnected = 1"
| "state_code StateDisconnected = 2"

fun role_code :: "IpcConnectionRole \<Rightarrow> nat" where
  "role_code ClientPeer = 0"
| "role_code ServerPeer = 1"

fun presence_code :: "IpcIdentityPresence \<Rightarrow> nat" where
  "presence_code IdentityKnown = 0"
| "presence_code LegacyUnavailable = 1"

subsection \<open>Writing\<close>

definition kIpcMsgHello :: string where "kIpcMsgHello = ''IHEL%1i''"
definition kIpcMsgLogLine :: string where "kIpcMsgLogLine = ''ILOG%s''"
definition kIpcMsgCommand :: string where "kIpcMsgCommand = ''ICMD%s%1i''"
definition kIpcMsgStartRequest :: string where "kIpcMsgStartRequest = ''ISTR%s%s%1i''"
definition kIpcMsgReloadRequest :: string where "kIpcMsgReloadRequest = ''IRLD%s%s''"
definition kIpcMsgRuntimeStatusRequest :: string where "kIpcMsgRuntimeStatusRequest = ''IGST%s''"
definition kIpcMsgRuntimeStatusResponse :: string where "kIpcMsgRuntimeStatusResponse = ''IRTS%s%1i%1i%s''"
definition kIpcMsgTopologyRequest :: string where "kIpcMsgTopologyRequest = ''ITOP%s%s%s''"
definition kIpcMsgStopRequest :: string where "kIpcMsgStopRequest = ''ISTP%s%s''"
definition kIpcMsgShutdown :: string where "kIpcMsgShutdown = ''ISDN''"
definition kIpcMsgConnectionState :: string where "kIpcMsgConnectionState = ''ISTS%1i%1i%1i%s%s''"
definition kIpcMsgCommandApplied :: string where "kIpcMsgCommandApplied = ''IACK%s''"

lemmas ipc_formats =
  kIpcMsgHello_def kIpcMsgLogLine_def kIpcMsgCommand_def kIpcMsgStartRequest_def kIpcMsgReloadRequest_def
  kIpcMsgRuntimeStatusRequest_def kIpcMsgRuntimeStatusResponse_def kIpcMsgTopologyRequest_def kIpcMsgStopRequest_def
  kIpcMsgShutdown_def kIpcMsgConnectionState_def kIpcMsgCommandApplied_def

abbreviation WText :: "bytes \<Rightarrow> write_arg" where
  "WText s \<equiv> WString (Some s)"

abbreviation WCode :: "nat \<Rightarrow> write_arg" where
  "WCode n \<equiv> WInteger (of_nat n)"

definition connection_state_args :: "connection_state \<Rightarrow> write_arg list" where
  "connection_state_args s =
     [WCode (state_code (cs_state s)), WCode (role_code (cs_role s)), WCode (presence_code (cs_identityPresence s)),
      WText (cs_technicalName s), WText (cs_detail s)]"

text \<open>
  What is written towards the daemon, and what the daemon writes. \<open>None\<close> is a message that the end does not
  support, which is logged and not sent; the left of the sum is an exception of \<^verbatim>\<open>writef\<close>.
\<close>

fun IpcServerProxy_send :: "ipc_message \<Rightarrow> (write_error + bytes) option" where
  "IpcServerProxy_send (IpcHelloMessage clientType) = Some (writefArgs kIpcMsgHello [WCode (client_type_code clientType)])"
| "IpcServerProxy_send (IpcCommandMessage command elevate) =
     Some (writefArgs kIpcMsgCommand [WText command, WInteger (if elevate then 1 else 0)])"
| "IpcServerProxy_send (IpcStartRequestMessage nonce command elevate) =
     Some (writefArgs kIpcMsgStartRequest [WText nonce, WText command, WInteger (if elevate then 1 else 0)])"
| "IpcServerProxy_send (IpcStopRequestMessage requestNonce expectedAppliedNonce) =
     Some (writefArgs kIpcMsgStopRequest [WText requestNonce, WText expectedAppliedNonce])"
| "IpcServerProxy_send (IpcReloadRequestMessage requestNonce expectedAppliedNonce) =
     Some (writefArgs kIpcMsgReloadRequest [WText requestNonce, WText expectedAppliedNonce])"
| "IpcServerProxy_send (IpcRuntimeStatusRequestMessage queryNonce) =
     Some (writefArgs kIpcMsgRuntimeStatusRequest [WText queryNonce])"
| "IpcServerProxy_send (IpcTopologyRequestMessage requestNonce expectedGeneration payload) =
     Some (writefArgs kIpcMsgTopologyRequest [WText requestNonce, WText expectedGeneration, WText payload])"
| "IpcServerProxy_send (IpcConnectionStateMessage s) = Some (writefArgs kIpcMsgConnectionState (connection_state_args s))"
| "IpcServerProxy_send _ = None"

fun IpcClientProxy_send :: "ipc_message \<Rightarrow> (write_error + bytes) option" where
  "IpcClientProxy_send (IpcLogLineMessage logLine) = Some (writefArgs kIpcMsgLogLine [WText logLine])"
| "IpcClientProxy_send IpcShutdownMessage = Some (writefArgs kIpcMsgShutdown [])"
| "IpcClientProxy_send (IpcCommandAppliedMessage nonce) = Some (writefArgs kIpcMsgCommandApplied [WText nonce])"
| "IpcClientProxy_send (IpcRuntimeStatusResponseMessage queryNonce schemaVersion runtimeState appliedNonce) =
     Some (writefArgs kIpcMsgRuntimeStatusResponse
       [WText queryNonce, WInteger (ucast schemaVersion), WCode (runtime_code runtimeState), WText appliedNonce])"
| "IpcClientProxy_send (IpcConnectionStateMessage s) = Some (writefArgs kIpcMsgConnectionState (connection_state_args s))"
| "IpcClientProxy_send _ = None"

subsection \<open>The bytes that are written\<close>

definition text_bytes :: "bytes \<Rightarrow> bytes" where
  "text_bytes s = appendInteger (of_nat (length s)) 4 @ s"

abbreviation short_text :: "bytes \<Rightarrow> bool" where
  "short_text s \<equiv> length s \<le> PROTOCOL_MAX_STRING_LENGTH"

fun ipc_bytes :: "ipc_message \<Rightarrow> bytes" where
  "ipc_bytes (IpcHelloMessage t) = bytes_of ''IHEL'' @ [of_nat (client_type_code t)]"
| "ipc_bytes (IpcCommandMessage command e) = bytes_of ''ICMD'' @ text_bytes command @ [if e then 1 else 0]"
| "ipc_bytes (IpcStartRequestMessage nonce command e) = bytes_of ''ISTR'' @ text_bytes nonce @ text_bytes command @ [if e then 1 else 0]"
| "ipc_bytes (IpcStopRequestMessage a b) = bytes_of ''ISTP'' @ text_bytes a @ text_bytes b"
| "ipc_bytes (IpcReloadRequestMessage a b) = bytes_of ''IRLD'' @ text_bytes a @ text_bytes b"
| "ipc_bytes (IpcRuntimeStatusRequestMessage a) = bytes_of ''IGST'' @ text_bytes a"
| "ipc_bytes (IpcTopologyRequestMessage a b p) = bytes_of ''ITOP'' @ text_bytes a @ text_bytes b @ text_bytes p"
| "ipc_bytes (IpcConnectionStateMessage s) = bytes_of ''ISTS'' @
     [of_nat (state_code (cs_state s)), of_nat (role_code (cs_role s)), of_nat (presence_code (cs_identityPresence s))] @
     text_bytes (cs_technicalName s) @ text_bytes (cs_detail s)"
| "ipc_bytes (IpcLogLineMessage l) = bytes_of ''ILOG'' @ text_bytes l"
| "ipc_bytes IpcShutdownMessage = bytes_of ''ISDN''"
| "ipc_bytes (IpcCommandAppliedMessage a) = bytes_of ''IACK'' @ text_bytes a"
| "ipc_bytes (IpcRuntimeStatusResponseMessage q v st a) =
     bytes_of ''IRTS'' @ text_bytes q @ [v, of_nat (runtime_code st)] @ text_bytes a"

text \<open>The texts of a message, each of which \<^verbatim>\<open>writef\<close> limits.\<close>

fun ipc_texts :: "ipc_message \<Rightarrow> bytes list" where
  "ipc_texts (IpcHelloMessage t) = []"
| "ipc_texts (IpcCommandMessage command e) = [command]"
| "ipc_texts (IpcStartRequestMessage nonce command e) = [nonce, command]"
| "ipc_texts (IpcStopRequestMessage a b) = [a, b]"
| "ipc_texts (IpcReloadRequestMessage a b) = [a, b]"
| "ipc_texts (IpcRuntimeStatusRequestMessage a) = [a]"
| "ipc_texts (IpcTopologyRequestMessage a b p) = [a, b, p]"
| "ipc_texts (IpcConnectionStateMessage s) = [cs_technicalName s, cs_detail s]"
| "ipc_texts (IpcLogLineMessage l) = [l]"
| "ipc_texts IpcShutdownMessage = []"
| "ipc_texts (IpcCommandAppliedMessage a) = [a]"
| "ipc_texts (IpcRuntimeStatusResponseMessage q v st a) = [q, a]"

lemma small_codes:
  "(ucast (of_nat (client_type_code t) :: u32) :: byte) = of_nat (client_type_code t)"
  "(ucast (of_nat (state_code st) :: u32) :: byte) = of_nat (state_code st)"
  "(ucast (of_nat (role_code ro) :: u32) :: byte) = of_nat (role_code ro)"
  "(ucast (of_nat (presence_code pr) :: u32) :: byte) = of_nat (presence_code pr)"
  "(ucast (of_nat (runtime_code rt) :: u32) :: byte) = of_nat (runtime_code rt)"
  subgoal by (cases t) simp_all
  subgoal by (cases st) simp_all
  subgoal by (cases ro) simp_all
  subgoal by (cases pr) simp_all
  subgoal by (cases rt) simp_all
  done

lemmas ipc_write = ipc_formats writefArgs_def check_spec_def emit_spec_def addLength_def digit_value_def protocol_limits Let_def

lemma ucast_byte_u32 [simp]: "(ucast (ucast (x :: byte) :: u32) :: byte) = x"
  by (rule bit_word_eqI) (simp add: bit_simps)

text \<open>A message whose texts are short enough is written, as these bytes.\<close>

lemma server_proxy_writes:
  assumes "IpcServerProxy_send m = Some w" "\<forall>s \<in> set (ipc_texts m). short_text s"
  shows "w = Inr (ipc_bytes m)"
  using assms
  by (cases m) (auto simp: ipc_write text_bytes_def connection_state_args_def wire_codec small_codes byte_of_low split: nat_diff_split_asm)

lemma client_proxy_writes:
  assumes "IpcClientProxy_send m = Some w" "\<forall>s \<in> set (ipc_texts m). short_text s"
  shows "w = Inr (ipc_bytes m)"
  using assms
  by (cases m) (auto simp: ipc_write text_bytes_def connection_state_args_def wire_codec small_codes byte_of_low split: nat_diff_split_asm)

end
