(* ===== verification/IpcFrames.thy ===== *)
theory IpcFrames
  imports IpcMessages
begin

text \<open>
  The reader of frames, \<^verbatim>\<open>src/lib/ipc/IpcFrameReader.cpp\<close>. Bytes arrive in blocks of any size and are collected until
  a frame is complete. A frame that cannot be valid makes the reader invalid for good.
\<close>

subsection \<open>The reader\<close>

datatype ipc_direction = ClientToServer | ServerToClient

record frame_reader =
  fr_direction :: ipc_direction
  fr_buffer :: bytes
  fr_ready :: "ipc_message list"
  fr_invalid :: bool

definition IpcFrameReader_new :: "ipc_direction \<Rightarrow> frame_reader" where
  "IpcFrameReader_new direction = \<lparr>fr_direction = direction, fr_buffer = [], fr_ready = [], fr_invalid = False\<rparr>"

definition kCodeSize :: nat where
  "kCodeSize = 4"

definition kMaximumFrameSize :: nat where
  "kMaximumFrameSize = kCodeSize + 3 + 2 * (4 + PROTOCOL_MAX_STRING_LENGTH)"

text \<open>\<^verbatim>\<open>buffer_.size()\<close> as a \<^verbatim>\<open>size_t\<close> of 64 bits.\<close>

definition size_t :: "nat \<Rightarrow> nat" where
  "size_t n = n mod 2 ^ 64"

definition fr_fail :: "frame_reader \<Rightarrow> frame_reader" where
  "fr_fail r = r\<lparr>fr_invalid := True, fr_buffer := [], fr_ready := []\<rparr>"

definition fr_consume :: "nat \<Rightarrow> frame_reader \<Rightarrow> frame_reader" where
  "fr_consume n r = r\<lparr>fr_buffer := drop n (fr_buffer r)\<rparr>"

definition codeEquals :: "bytes \<Rightarrow> string \<Rightarrow> bool" where
  "codeEquals buffer code \<longleftrightarrow> length buffer \<ge> kCodeSize \<and> take kCodeSize buffer = bytes_of code"

datatype field_status = FieldReady bytes nat | FieldNeedMore | FieldInvalid

definition fr_readString :: "bytes \<Rightarrow> nat \<Rightarrow> field_status" where
  "fr_readString buffer offset =
     (if offset > length buffer \<or> length buffer - offset < 4 then FieldNeedMore
      else case decode_be32 (drop offset buffer) of
        None \<Rightarrow> FieldNeedMore
      | Some len \<Rightarrow>
          if unat len > PROTOCOL_MAX_STRING_LENGTH then FieldInvalid
          else if length buffer - (offset + 4) < unat len then FieldNeedMore
          else FieldReady (take (unat len) (drop (offset + 4) buffer)) (offset + 4 + unat len))"

text \<open>
  The outcome of one attempt to take a frame: an exception of a constructor (on the left), no message, or a
  message.
\<close>

type_synonym frame_outcome = "(unit + ipc_message option) \<times> frame_reader"

abbreviation no_frame :: "frame_reader \<Rightarrow> frame_outcome" where
  "no_frame r \<equiv> (Inr None, r)"

definition make_message :: "ipc_message \<Rightarrow> frame_reader \<Rightarrow> frame_outcome" where
  "make_message m r = (if ipc_valid m then (Inr (Some m), r) else (Inl (), r))"

definition string_field :: "frame_reader \<Rightarrow> nat \<Rightarrow> (bytes \<Rightarrow> nat \<Rightarrow> frame_outcome) \<Rightarrow> frame_outcome" where
  "string_field r offset k =
     (case fr_readString (fr_buffer r) offset of
        FieldNeedMore \<Rightarrow> no_frame r
      | FieldInvalid \<Rightarrow> no_frame (fr_fail r)
      | FieldReady v next_offset \<Rightarrow> k v next_offset)"

definition nonce_field :: "frame_reader \<Rightarrow> nat \<Rightarrow> (bytes \<Rightarrow> nat \<Rightarrow> frame_outcome) \<Rightarrow> frame_outcome" where
  "nonce_field r offset k =
     string_field r offset (\<lambda>v next_offset. if length v \<noteq> 16 then no_frame (fr_fail r) else k v next_offset)"

definition client_type_of :: "byte \<Rightarrow> EIpcClientType option" where
  "client_type_of b = (if b = 1 then Some kIpcClientGui else if b = 2 then Some kIpcClientNode else None)"

definition state_of :: "byte \<Rightarrow> IpcConnectionState option" where
  "state_of b = (if b = 0 then Some StateAvailable else if b = 1 then Some StateConnected else if b = 2 then Some StateDisconnected else None)"

definition role_of :: "byte \<Rightarrow> IpcConnectionRole option" where
  "role_of b = (if b = 0 then Some ClientPeer else if b = 1 then Some ServerPeer else None)"

definition presence_of :: "byte \<Rightarrow> IpcIdentityPresence option" where
  "presence_of b = (if b = 0 then Some IdentityKnown else if b = 1 then Some LegacyUnavailable else None)"

definition runtime_of :: "byte \<Rightarrow> IpcRuntimeState option" where
  "runtime_of b = (if b = 0 then Some RuntimeStopped else if b = 1 then Some RuntimeRunning else if b = 2 then Some RuntimeUnknown else None)"

definition take_hello :: "frame_reader \<Rightarrow> frame_outcome" where
  "take_hello r =
     (if length (fr_buffer r) < 5 then no_frame r
      else case client_type_of (fr_buffer r ! 4) of
        None \<Rightarrow> no_frame (fr_fail r)
      | Some t \<Rightarrow> make_message (IpcHelloMessage t) (fr_consume 5 r))"

definition take_command :: "frame_reader \<Rightarrow> frame_outcome" where
  "take_command r =
     string_field r 4 (\<lambda>command offset.
       if length (fr_buffer r) \<le> offset then no_frame r
       else let elevate = fr_buffer r ! offset in
         if elevate > 1 then no_frame (fr_fail r)
         else make_message (IpcCommandMessage command (elevate \<noteq> 0)) (fr_consume (offset + 1) r))"

definition take_start :: "frame_reader \<Rightarrow> frame_outcome" where
  "take_start r =
     nonce_field r 4 (\<lambda>nonce offset. string_field r offset (\<lambda>command commandEnd.
       if length (fr_buffer r) \<le> commandEnd then no_frame (fr_fail r)
       else let elevate = fr_buffer r ! commandEnd in
         if elevate > 1 then no_frame (fr_fail r)
         else make_message (IpcStartRequestMessage nonce command (elevate \<noteq> 0)) (fr_consume (commandEnd + 1) r)))"

definition take_stop :: "frame_reader \<Rightarrow> frame_outcome" where
  "take_stop r =
     nonce_field r 4 (\<lambda>requestNonce requestEnd. nonce_field r requestEnd (\<lambda>expectedAppliedNonce end_offset.
       if requestNonce = expectedAppliedNonce then no_frame (fr_fail r)
       else make_message (IpcStopRequestMessage requestNonce expectedAppliedNonce) (fr_consume end_offset r)))"

definition take_reload :: "frame_reader \<Rightarrow> frame_outcome" where
  "take_reload r =
     nonce_field r 4 (\<lambda>requestNonce requestEnd. nonce_field r requestEnd (\<lambda>expectedAppliedNonce end_offset.
       make_message (IpcReloadRequestMessage requestNonce expectedAppliedNonce) (fr_consume end_offset r)))"

definition take_status_request :: "frame_reader \<Rightarrow> frame_outcome" where
  "take_status_request r =
     nonce_field r 4 (\<lambda>queryNonce end_offset. make_message (IpcRuntimeStatusRequestMessage queryNonce) (fr_consume end_offset r))"

definition take_topology :: "frame_reader \<Rightarrow> frame_outcome" where
  "take_topology r =
     nonce_field r 4 (\<lambda>requestNonce requestEnd. nonce_field r requestEnd (\<lambda>expectedGeneration expectedEnd.
       if requestNonce = expectedGeneration then no_frame (fr_fail r)
       else string_field r expectedEnd (\<lambda>payload end_offset.
         make_message (IpcTopologyRequestMessage requestNonce expectedGeneration payload) (fr_consume end_offset r))))"

definition take_connection_state :: "frame_reader \<Rightarrow> frame_outcome" where
  "take_connection_state r =
     (if length (fr_buffer r) < 7 then no_frame r
      else case (state_of (fr_buffer r ! 4), role_of (fr_buffer r ! 5), presence_of (fr_buffer r ! 6)) of
        (Some st, Some ro, Some pr) \<Rightarrow>
          string_field r 7 (\<lambda>technicalName offset. string_field r offset (\<lambda>detail end_offset.
            make_message (IpcConnectionStateMessage \<lparr>cs_state = st, cs_role = ro, cs_identityPresence = pr,
              cs_technicalName = technicalName, cs_detail = detail\<rparr>) (fr_consume end_offset r)))
      | _ \<Rightarrow> no_frame (fr_fail r))"

definition takeClientFrame :: "frame_reader \<Rightarrow> frame_outcome" where
  "takeClientFrame r =
     (let b = fr_buffer r in
      if codeEquals b ''IHEL'' then take_hello r
      else if codeEquals b ''ICMD'' then take_command r
      else if codeEquals b ''ISTR'' then take_start r
      else if codeEquals b ''ISTP'' then take_stop r
      else if codeEquals b ''IRLD'' then take_reload r
      else if codeEquals b ''IGST'' then take_status_request r
      else if codeEquals b ''ITOP'' then take_topology r
      else if codeEquals b ''ISTS'' then take_connection_state r
      else no_frame (fr_fail r))"

definition take_log_line :: "frame_reader \<Rightarrow> frame_outcome" where
  "take_log_line r = string_field r 4 (\<lambda>line end_offset. make_message (IpcLogLineMessage line) (fr_consume end_offset r))"

definition take_applied :: "frame_reader \<Rightarrow> frame_outcome" where
  "take_applied r = nonce_field r 4 (\<lambda>nonce end_offset. make_message (IpcCommandAppliedMessage nonce) (fr_consume end_offset r))"

definition take_status_response :: "frame_reader \<Rightarrow> frame_outcome" where
  "take_status_response r =
     nonce_field r 4 (\<lambda>queryNonce offset.
       if length (fr_buffer r) < offset + 2 then no_frame r
       else let schemaVersion = fr_buffer r ! offset in
         case runtime_of (fr_buffer r ! (offset + 1)) of
           None \<Rightarrow> no_frame (fr_fail r)
         | Some runtimeState \<Rightarrow>
             if schemaVersion \<noteq> 1 then no_frame (fr_fail r)
             else string_field r (offset + 2) (\<lambda>appliedNonce end_offset.
               if appliedNonce \<noteq> [] \<and> length appliedNonce \<noteq> 16 then no_frame (fr_fail r)
               else make_message (IpcRuntimeStatusResponseMessage queryNonce schemaVersion runtimeState appliedNonce)
                      (fr_consume end_offset r)))"

text \<open>A connection state is read by the function for the other direction; an exception leaves the direction changed.\<close>

definition takeServerFrame :: "frame_reader \<Rightarrow> frame_outcome" where
  "takeServerFrame r =
     (let b = fr_buffer r in
      if codeEquals b ''ISDN'' then make_message IpcShutdownMessage (fr_consume 4 r)
      else if codeEquals b ''ILOG'' then take_log_line r
      else if codeEquals b ''IACK'' then take_applied r
      else if codeEquals b ''IRTS'' then take_status_response r
      else if codeEquals b ''ISTS'' then
        (case takeClientFrame (r\<lparr>fr_direction := ClientToServer\<rparr>) of
           (Inl e, r') \<Rightarrow> (Inl e, r')
         | (Inr m, r') \<Rightarrow> (Inr m, r'\<lparr>fr_direction := fr_direction r\<rparr>))
      else no_frame (fr_fail r))"

definition takeBufferedFrame :: "frame_reader \<Rightarrow> ipc_message option \<times> frame_reader" where
  "takeBufferedFrame r =
     (if length (fr_buffer r) < kCodeSize then (None, r)
      else case (if fr_direction r = ClientToServer then takeClientFrame r else takeServerFrame r) of
        (Inl _, r') \<Rightarrow> (None, fr_fail r')
      | (Inr m, r') \<Rightarrow> (m, r'))"

subsection \<open>Blocks\<close>

text \<open>The buffer never grows, and a message that is taken is taken from the buffer.\<close>

definition shrinks :: "frame_reader \<Rightarrow> frame_outcome \<Rightarrow> bool" where
  "shrinks r out \<longleftrightarrow> (case out of (res, r') \<Rightarrow>
     length (fr_buffer r') \<le> length (fr_buffer r) \<and> length (fr_ready r') \<le> length (fr_ready r) \<and> (\<forall>m. res = Inr (Some m) \<longrightarrow> length (fr_buffer r') < length (fr_buffer r)))"

lemma shrinks_intros:
  "shrinks r (no_frame r)"
  "shrinks r (no_frame (fr_fail r))"
  "0 < n \<Longrightarrow> fr_buffer r \<noteq> [] \<Longrightarrow> shrinks r (make_message m (fr_consume n r))"
  "(b \<Longrightarrow> shrinks r x) \<Longrightarrow> (\<not> b \<Longrightarrow> shrinks r y) \<Longrightarrow> shrinks r (if b then x else y)"
  "shrinks r x \<Longrightarrow> (\<And>v. shrinks r (k v)) \<Longrightarrow> shrinks r (case opt of None \<Rightarrow> x | Some v \<Rightarrow> k v)"
  by (auto simp: shrinks_def make_message_def fr_consume_def fr_fail_def split: option.splits)

lemma shrinks_fields:
  "(\<And>v n. 0 < n \<Longrightarrow> shrinks r (k v n)) \<Longrightarrow> shrinks r (string_field r offset k)"
  "(\<And>v n. 0 < n \<Longrightarrow> shrinks r (k v n)) \<Longrightarrow> shrinks r (nonce_field r offset k)"
proof -
  show s: "shrinks r (string_field r offset k)" if "\<And>v n. 0 < n \<Longrightarrow> shrinks r (k v n)" for k
    using that by (auto simp: string_field_def fr_readString_def shrinks_intros split: option.splits)
  then show "shrinks r (nonce_field r offset k)" if "\<And>v n. 0 < n \<Longrightarrow> shrinks r (k v n)"
    unfolding nonce_field_def using that by (intro s) (auto intro: shrinks_intros)
qed

lemmas take_defs = take_hello_def take_command_def take_start_def take_stop_def take_reload_def take_status_request_def take_topology_def
  take_connection_state_def take_log_line_def take_applied_def take_status_response_def

lemma client_frame_shrinks: "fr_buffer r \<noteq> [] \<Longrightarrow> shrinks r (takeClientFrame r)"
  unfolding takeClientFrame_def take_defs Let_def prod.case by (intro shrinks_intros shrinks_fields) simp_all

lemma server_frame_shrinks: "fr_buffer r \<noteq> [] \<Longrightarrow> shrinks r (takeServerFrame r)"
proof -
  assume b: "fr_buffer r \<noteq> []"
  then have "shrinks (r\<lparr>fr_direction := ClientToServer\<rparr>) (takeClientFrame (r\<lparr>fr_direction := ClientToServer\<rparr>))" by (intro client_frame_shrinks) simp
  then have "shrinks r (case takeClientFrame (r\<lparr>fr_direction := ClientToServer\<rparr>) of
      (Inl e, r') \<Rightarrow> (Inl e, r') | (Inr m, r') \<Rightarrow> (Inr m, r'\<lparr>fr_direction := fr_direction r\<rparr>))"
    by (auto simp: shrinks_def split: prod.splits sum.splits)
  then show ?thesis
    unfolding takeServerFrame_def take_defs Let_def using b by (intro shrinks_intros shrinks_fields) simp_all
qed

lemma buffered_frame_shrinks:
  assumes "takeBufferedFrame r = (x, r')"
  shows "length (fr_buffer r') \<le> length (fr_buffer r)" "x = Some m \<Longrightarrow> length (fr_buffer r') < length (fr_buffer r)"
    "length (fr_ready r') \<le> length (fr_ready r)"
  using assms client_frame_shrinks [of r] server_frame_shrinks [of r]
  by (cases "fr_buffer r = []"; auto simp: takeBufferedFrame_def shrinks_def kCodeSize_def fr_fail_def split: if_splits prod.splits sum.splits)+

text \<open>Every message that is taken passed the checks of its constructor, and a greeting names a kind of client.\<close>

definition message_ok :: "ipc_message \<Rightarrow> bool" where
  "message_ok m \<longleftrightarrow> ipc_valid m \<and> m \<noteq> IpcHelloMessage kIpcClientUnknown"

definition yields :: "frame_reader \<Rightarrow> frame_outcome \<Rightarrow> bool" where
  "yields r out \<longleftrightarrow> (case out of (res, r') \<Rightarrow> set (fr_ready r') \<subseteq> set (fr_ready r) \<and> (\<forall>m. res = Inr (Some m) \<longrightarrow> message_ok m))"

lemma yields_intros:
  "yields r (no_frame r)"
  "yields r (no_frame (fr_fail r))"
  "m \<noteq> IpcHelloMessage kIpcClientUnknown \<Longrightarrow> yields r (make_message m (fr_consume n r))"
  "(b \<Longrightarrow> yields r x) \<Longrightarrow> (\<not> b \<Longrightarrow> yields r y) \<Longrightarrow> yields r (if b then x else y)"
  "yields r x \<Longrightarrow> (\<And>v. yields r (k v)) \<Longrightarrow> yields r (case opt of None \<Rightarrow> x | Some v \<Rightarrow> k v)"
  "(\<And>v n. yields r (f v n)) \<Longrightarrow> yields r (string_field r offset f)"
  "(\<And>v n. yields r (f v n)) \<Longrightarrow> yields r (nonce_field r offset f)"
  by (auto simp: yields_def make_message_def message_ok_def fr_consume_def fr_fail_def nonce_field_def string_field_def
      split: option.splits field_status.splits)

lemma client_frame_yields: "yields r (takeClientFrame r)"
proof -
  have "yields r (take_hello r)"
    by (auto simp: take_hello_def client_type_of_def yields_intros split: option.splits if_splits)
  then show ?thesis
    unfolding takeClientFrame_def take_command_def take_start_def take_stop_def take_reload_def take_status_request_def take_topology_def
      take_connection_state_def Let_def prod.case
    by (intro yields_intros) simp_all
qed

lemma server_frame_yields: "yields r (takeServerFrame r)"
proof -
  have "yields r (case takeClientFrame (r\<lparr>fr_direction := ClientToServer\<rparr>) of
      (Inl e, r') \<Rightarrow> (Inl e, r') | (Inr m, r') \<Rightarrow> (Inr m, r'\<lparr>fr_direction := fr_direction r\<rparr>))"
    using client_frame_yields [of "r\<lparr>fr_direction := ClientToServer\<rparr>"] by (auto simp: yields_def split: prod.splits sum.splits)
  then show ?thesis
    unfolding takeServerFrame_def take_log_line_def take_applied_def take_status_response_def Let_def by (intro yields_intros) simp_all
qed

lemma buffered_frame_yields:
  assumes "takeBufferedFrame r = (x, r')"
  shows "set (fr_ready r') \<subseteq> set (fr_ready r)" "x = Some m \<Longrightarrow> message_ok m"
  using assms client_frame_yields [of r] server_frame_yields [of r]
  by (auto simp: takeBufferedFrame_def yields_def fr_fail_def split: if_splits prod.splits sum.splits)

text \<open>The inner loop of \<^verbatim>\<open>append\<close>.\<close>

function fr_drain :: "frame_reader \<Rightarrow> frame_reader" where
  "fr_drain r =
     (if fr_invalid r then r
      else case takeBufferedFrame r of
        (None, r') \<Rightarrow> r'
      | (Some m, r') \<Rightarrow> fr_drain (r'\<lparr>fr_ready := fr_ready r' @ [m]\<rparr>))"
  by pat_completeness auto
termination
  by (relation "measure (\<lambda>r. length (fr_buffer r))") (auto dest: buffered_frame_shrinks(2) [OF sym])

declare fr_drain.simps [simp del]

lemma drain_length: "length (fr_buffer (fr_drain r)) \<le> length (fr_buffer r)"
proof (induction r rule: fr_drain.induct)
  case (1 r)
  show ?case
  proof (cases "fr_invalid r")
    case False
    obtain x r' where t: "takeBufferedFrame r = (x, r')" by force
    then show ?thesis
      using False 1 [OF False t [symmetric]] buffered_frame_shrinks [OF t] by (subst fr_drain.simps) (auto split: option.splits)
  qed (simp add: fr_drain.simps)
qed

definition available_space :: "frame_reader \<Rightarrow> nat" where
  "available_space r = nat ((int kMaximumFrameSize - int (size_t (length (fr_buffer r)))) mod 2 ^ 64)"

definition append_chunk :: "bytes \<Rightarrow> frame_reader \<Rightarrow> frame_reader" where
  "append_chunk chunk r =
     (let r = fr_drain (r\<lparr>fr_buffer := fr_buffer r @ chunk\<rparr>)
      in if \<not> fr_invalid r \<and> size_t (length (fr_buffer r)) = kMaximumFrameSize then fr_fail r else r)"

text \<open>A round of the loop that takes no bytes leaves less in the buffer or makes the reader invalid.\<close>

lemma append_nothing:
  assumes "available_space r = 0" "\<not> fr_invalid r"
  shows "length (fr_buffer (append_chunk [] r)) < length (fr_buffer r) \<or>
    length (fr_buffer (append_chunk [] r)) = length (fr_buffer r) \<and> fr_invalid (append_chunk [] r)"
proof -
  let ?r = "fr_drain r"
  have "(int kMaximumFrameSize - int (size_t (length (fr_buffer r)))) mod 2 ^ 64 = 0" using assms(1) by (simp add: available_space_def)
  then have "int kMaximumFrameSize mod 2 ^ 64 = int (size_t (length (fr_buffer r))) mod 2 ^ 64" by (simp only: mod_eq_dvd_iff mod_eq_0_iff_dvd)
  moreover have "int (size_t x) mod 2 ^ 64 = int (size_t x)" for x by (simp add: size_t_def zmod_int)
  moreover have "int kMaximumFrameSize mod 2 ^ 64 = int kMaximumFrameSize"
    by (simp add: kMaximumFrameSize_def kCodeSize_def protocol_limits)
  ultimately have n: "size_t (length (fr_buffer r)) = kMaximumFrameSize" by simp
  then have "fr_buffer r \<noteq> []" by (auto simp: size_t_def kMaximumFrameSize_def kCodeSize_def)
  then show ?thesis using drain_length [of r] n by (auto simp: append_chunk_def Let_def fr_fail_def)
qed

function append_loop :: "bytes \<Rightarrow> frame_reader \<Rightarrow> frame_reader" where
  "append_loop data r =
     (if data = [] \<or> fr_invalid r then r
      else let n = min (length data) (available_space r)
           in append_loop (drop n data) (append_chunk (take n data) r))"
  by pat_completeness auto
termination
proof (relation "measures [\<lambda>(data, r). length data, \<lambda>(data, r). length (fr_buffer r), \<lambda>(data, r). if fr_invalid r then 0 else 1]", goal_cases)
  case (2 data r n)
  then show ?case using append_nothing [of r] by (cases "available_space r = 0") auto
qed simp

declare append_loop.simps [simp del]

text \<open>\<open>None\<close> stands for a null pointer.\<close>

definition fr_append :: "bytes option \<Rightarrow> nat \<Rightarrow> frame_reader \<Rightarrow> frame_reader" where
  "fr_append data n r =
     (if fr_invalid r \<or> n = 0 then r
      else case data of None \<Rightarrow> fr_fail r | Some bs \<Rightarrow> append_loop (take n bs) r)"

definition fr_take :: "frame_reader \<Rightarrow> ipc_message option \<times> frame_reader" where
  "fr_take r =
     (if fr_invalid r then (None, r)
      else case fr_ready r of
        m # ms \<Rightarrow> (Some m, r\<lparr>fr_ready := ms\<rparr>)
      | [] \<Rightarrow> takeBufferedFrame r)"

lemma take_shorter:
  assumes "fr_take r = (Some m, r')"
  shows "length (fr_ready r') + length (fr_buffer r') < length (fr_ready r) + length (fr_buffer r)"
proof (cases "fr_ready r")
  case Nil
  then have "takeBufferedFrame r = (Some m, r')" using assms by (simp add: fr_take_def split: if_splits)
  from buffered_frame_shrinks(2,3) [OF this] show ?thesis using Nil by simp
qed (use assms in \<open>auto simp: fr_take_def split: if_splits\<close>)

definition reader_ok :: "frame_reader \<Rightarrow> bool" where
  "reader_ok r \<longleftrightarrow> (\<forall>m \<in> set (fr_ready r). message_ok m)"

lemma take_ok: "reader_ok r \<Longrightarrow> fr_take r = (x, r') \<Longrightarrow> reader_ok r' \<and> (\<forall>m. x = Some m \<longrightarrow> message_ok m)"
  using buffered_frame_yields [of r x r'] by (auto simp: reader_ok_def fr_take_def split: if_splits list.splits)

lemma drain_ok: "reader_ok r \<Longrightarrow> reader_ok (fr_drain r)"
proof (induction r rule: fr_drain.induct)
  case (1 r)
  obtain x r' where t: "takeBufferedFrame r = (x, r')" by force
  have "reader_ok r'" "\<And>m. x = Some m \<Longrightarrow> message_ok m" using buffered_frame_yields [OF t] 1(2) by (auto simp: reader_ok_def)
  then show ?case using 1 t by (subst fr_drain.simps) (auto simp: reader_ok_def split: option.splits)
qed

lemma append_loop_ok: "reader_ok r \<Longrightarrow> reader_ok (append_loop data r)"
proof (induction data r rule: append_loop.induct)
  case (1 data r)
  have "reader_ok (append_chunk c r)" for c using drain_ok [of "r\<lparr>fr_buffer := fr_buffer r @ c\<rparr>"] 1(2)
    by (auto simp: append_chunk_def reader_ok_def fr_fail_def Let_def)
  then show ?case using 1 by (subst append_loop.simps) (simp add: Let_def)
qed

lemma append_ok: "reader_ok r \<Longrightarrow> reader_ok (fr_append data n r)"
  using append_loop_ok by (auto simp: fr_append_def reader_ok_def fr_fail_def split: option.splits)

subsection \<open>A frame at the front of the buffer\<close>

lemma text_bytes_length [simp]: "length (text_bytes s) = 4 + length s"
  by (simp add: text_bytes_def)

lemma short_length: "short_text s \<Longrightarrow> unat (of_nat (length s) :: u32) = length s"
  by (simp add: unat_of_nat protocol_limits)

lemma readString_eq:
  "decode_be32 (drop offset b) = Some v \<Longrightarrow> unat v \<le> PROTOCOL_MAX_STRING_LENGTH \<Longrightarrow> offset + 4 \<le> length b \<Longrightarrow>
    fr_readString b offset = (if length b < offset + 4 + unat v then FieldNeedMore
      else FieldReady (take (unat v) (drop (offset + 4) b)) (offset + 4 + unat v))"
  by (auto simp: fr_readString_def)

lemma readString_take:
  assumes "length pre = offset" "short_text s"
  shows "fr_readString (take k (pre @ text_bytes s @ post)) offset =
    (if k < offset + 4 + length s then FieldNeedMore else FieldReady s (offset + 4 + length s))"
proof (cases "k < offset + 4")
  case True
  then show ?thesis using assms(1) by (auto simp: fr_readString_def)
next
  case False
  let ?b = "take k (pre @ text_bytes s @ post)"
  have "drop offset ?b = take (k - offset) (text_bytes s @ post)" using assms(1) by (simp only: drop_take) simp
  moreover have "4 \<le> k - offset" using False by simp
  ultimately have d: "decode_be32 (drop offset ?b) = Some (of_nat (length s))"
    by (simp add: decode_be32_take text_bytes_def)
  have "drop (offset + 4) ?b = take (k - (offset + 4)) (s @ post)" using assms(1) by (simp only: drop_take) (simp add: text_bytes_def)
  then have t: "length s \<le> k - (offset + 4) \<Longrightarrow> take (length s) (drop (offset + 4) ?b) = s" by (simp add: min_absorb1)
  have l: "length ?b = min k (offset + 4 + length s + length post)" using assms(1) by simp
  have "offset + 4 \<le> length ?b" unfolding l using False by simp
  from readString_eq [OF d _ this] have e: "fr_readString ?b offset = (if length ?b < offset + 4 + length s then FieldNeedMore
      else FieldReady (take (length s) (drop (offset + 4) ?b)) (offset + 4 + length s))" using assms(2) short_length [OF assms(2)] by simp
  show ?thesis
  proof (cases "k < offset + 4 + length s")
    case True
    then show ?thesis unfolding e l by simp
  next
    case less: False
    then have "\<not> length ?b < offset + 4 + length s" unfolding l by simp
    then show ?thesis using less t unfolding e by (simp only: if_False)
  qed
qed

lemma string_field_take:
  assumes "fr_buffer r = take k (pre @ text_bytes s @ post)" "length pre = offset" "short_text s"
  shows "string_field r offset f = (if k < offset + 4 + length s then no_frame r else f s (offset + 4 + length s))"
  using readString_take [OF assms(2,3), of k post] by (simp add: string_field_def assms(1))

lemma nonce_field_take:
  assumes "fr_buffer r = take k (pre @ text_bytes s @ post)" "length pre = offset" "length s = 16"
  shows "nonce_field r offset f = (if k < offset + 20 then no_frame r else f s (offset + 20))"
  using string_field_take [OF assms(1,2)] assms(3) by (simp add: nonce_field_def protocol_limits add.commute)

lemma byte_take:
  assumes "fr_buffer r = take k (pre @ b # post)" "length pre = i" "i < k"
  shows "fr_buffer r ! i = b"
  using assms by (metis nth_append_length nth_take)

fun frame_size :: "ipc_message \<Rightarrow> nat" where
  "frame_size (IpcHelloMessage t) = 5"
| "frame_size (IpcCommandMessage c e) = 9 + length c"
| "frame_size (IpcStartRequestMessage a c e) = 13 + length a + length c"
| "frame_size (IpcStopRequestMessage a b) = 12 + length a + length b"
| "frame_size (IpcReloadRequestMessage a b) = 12 + length a + length b"
| "frame_size (IpcRuntimeStatusRequestMessage a) = 8 + length a"
| "frame_size (IpcTopologyRequestMessage a b p) = 16 + length a + length b + length p"
| "frame_size (IpcConnectionStateMessage s) = 15 + length (cs_technicalName s) + length (cs_detail s)"
| "frame_size (IpcLogLineMessage l) = 8 + length l"
| "frame_size IpcShutdownMessage = 4"
| "frame_size (IpcCommandAppliedMessage a) = 8 + length a"
| "frame_size (IpcRuntimeStatusResponseMessage q v st a) = 14 + length q + length a"

lemma ipc_bytes_length: "length (ipc_bytes m) = frame_size m"
  by (cases m) simp_all

definition is_start :: "ipc_message \<Rightarrow> bool" where
  "is_start m \<longleftrightarrow> (case m of IpcStartRequestMessage _ _ _ \<Rightarrow> True | _ \<Rightarrow> False)"

text \<open>What the reader makes of the first \<open>k\<close> bytes when they begin with the bytes of a message.\<close>

definition front_outcome :: "ipc_message \<Rightarrow> nat \<Rightarrow> frame_reader \<Rightarrow> frame_outcome" where
  "front_outcome m k r =
     (if k < frame_size m then no_frame (if is_start m \<and> Suc k = frame_size m then fr_fail r else r)
      else (Inr (Some m), fr_consume (frame_size m) r))"

lemma elevate_byte: "\<not> (1 :: byte) < (if e then 1 else 0)" "((if e then 1 else 0 :: byte) \<noteq> 0) = e"
  by simp_all

lemma take_hello_front:
  assumes "fr_buffer r = take k (ipc_bytes (IpcHelloMessage t) @ post)" "t \<noteq> kIpcClientUnknown"
  shows "take_hello r = front_outcome (IpcHelloMessage t) k r"
proof (cases "k < 5")
  case False
  then have "fr_buffer r ! 4 = of_nat (client_type_code t)" using assms(1) byte_take [of r k "bytes_of ''IHEL''"] by simp
  then show ?thesis using False assms by (cases t) (auto simp: take_hello_def front_outcome_def make_message_def client_type_of_def)
qed (use assms in \<open>simp add: take_hello_def front_outcome_def is_start_def\<close>)

lemma take_command_front:
  assumes "fr_buffer r = take k (ipc_bytes (IpcCommandMessage c e) @ post)" "short_text c"
  shows "take_command r = front_outcome (IpcCommandMessage c e) k r"
proof -
  have b: "fr_buffer r = take k (bytes_of ''ICMD'' @ text_bytes c @ [if e then 1 else 0] @ post)" using assms(1) by simp
  have "length (fr_buffer r) = min k (9 + length c + length post)" using b by simp
  moreover have "fr_buffer r ! (8 + length c) = (if e then 1 else 0)" if "8 + length c < k"
    using byte_take [of r k "bytes_of ''ICMD'' @ text_bytes c" "if e then 1 else 0" post "8 + length c"] b that by simp
  ultimately show ?thesis
    using string_field_take [OF b _ assms(2), of 4]
    by (auto simp: take_command_def front_outcome_def make_message_def is_start_def Let_def elevate_byte)
qed

lemma take_start_front:
  assumes "fr_buffer r = take k (ipc_bytes (IpcStartRequestMessage a c e) @ post)" "length a = 16" "short_text c"
  shows "take_start r = front_outcome (IpcStartRequestMessage a c e) k r"
proof -
  have b: "fr_buffer r = take k (bytes_of ''ISTR'' @ text_bytes a @ text_bytes c @ [if e then 1 else 0] @ post)"
      "fr_buffer r = take k ((bytes_of ''ISTR'' @ text_bytes a) @ text_bytes c @ [if e then 1 else 0] @ post)" using assms(1) by simp_all
  have "length (fr_buffer r) = min k (29 + length c + length post)" using b(1) assms(2) by simp
  moreover have "fr_buffer r ! (28 + length c) = (if e then 1 else 0)" if "28 + length c < k"
    using byte_take [of r k "bytes_of ''ISTR'' @ text_bytes a @ text_bytes c" "if e then 1 else 0" post "28 + length c"] b(1) that assms(2) by simp
  ultimately show ?thesis
    using nonce_field_take [OF b(1) _ assms(2), of 4] string_field_take [OF b(2) _ assms(3), of 24] assms(2)
    by (auto simp: take_start_def front_outcome_def make_message_def is_start_def Let_def elevate_byte)
qed

lemma take_pair_front:
  assumes "fr_buffer r = take k (bytes_of code @ text_bytes a @ text_bytes b @ post)" "length code = 4" "length a = 16" "length b = 16"
  shows "nonce_field r 4 (\<lambda>x i. nonce_field r i (f x)) = (if k < 44 then no_frame r else f a b 44)"
proof -
  have b: "fr_buffer r = take k ((bytes_of code @ text_bytes a) @ text_bytes b @ post)" using assms(1) by simp
  show ?thesis using nonce_field_take [OF assms(1) _ assms(3), of 4] nonce_field_take [OF b _ assms(4), of 24] assms(2,3) by simp
qed

lemma take_stop_front:
  assumes "fr_buffer r = take k (ipc_bytes (IpcStopRequestMessage a b) @ post)" "ipc_valid (IpcStopRequestMessage a b)"
  shows "take_stop r = front_outcome (IpcStopRequestMessage a b) k r"
  using take_pair_front [of r k "''ISTP''" a b post] assms
  by (simp add: take_stop_def front_outcome_def make_message_def is_start_def)

lemma take_reload_front:
  assumes "fr_buffer r = take k (ipc_bytes (IpcReloadRequestMessage a b) @ post)" "ipc_valid (IpcReloadRequestMessage a b)"
  shows "take_reload r = front_outcome (IpcReloadRequestMessage a b) k r"
  using take_pair_front [of r k "''IRLD''" a b post] assms
  by (simp add: take_reload_def front_outcome_def make_message_def is_start_def)

lemma take_status_request_front:
  assumes "fr_buffer r = take k (ipc_bytes (IpcRuntimeStatusRequestMessage a) @ post)" "length a = 16"
  shows "take_status_request r = front_outcome (IpcRuntimeStatusRequestMessage a) k r"
  using nonce_field_take [of r k "bytes_of ''IGST''" a post 4] assms
  by (simp add: take_status_request_def front_outcome_def make_message_def is_start_def)

lemma take_topology_front:
  assumes "fr_buffer r = take k (ipc_bytes (IpcTopologyRequestMessage a b p) @ post)" "ipc_valid (IpcTopologyRequestMessage a b p)" "short_text p"
  shows "take_topology r = front_outcome (IpcTopologyRequestMessage a b p) k r"
proof -
  have b: "fr_buffer r = take k (bytes_of ''ITOP'' @ text_bytes a @ text_bytes b @ text_bytes p @ post)"
      "fr_buffer r = take k ((bytes_of ''ITOP'' @ text_bytes a @ text_bytes b) @ text_bytes p @ post)" using assms(1) by simp_all
  show ?thesis
    using take_pair_front [OF b(1)] string_field_take [OF b(2) _ assms(3), of 44] assms(2)
    by (auto simp: take_topology_def front_outcome_def make_message_def is_start_def)
qed

lemma codes_again:
  "state_of (of_nat (state_code st)) = Some st" "role_of (of_nat (role_code ro)) = Some ro"
  "presence_of (of_nat (presence_code pr)) = Some pr" "runtime_of (of_nat (runtime_code rt)) = Some rt"
  subgoal by (cases st) (simp_all add: state_of_def)
  subgoal by (cases ro) (simp_all add: role_of_def)
  subgoal by (cases pr) (simp_all add: presence_of_def)
  subgoal by (cases rt) (simp_all add: runtime_of_def)
  done

lemma take_connection_state_front:
  assumes "fr_buffer r = take k (ipc_bytes (IpcConnectionStateMessage s) @ post)" "state_valid s" "short_text (cs_technicalName s)" "short_text (cs_detail s)"
  shows "take_connection_state r = front_outcome (IpcConnectionStateMessage s) k r"
proof (cases "k < 7")
  case True
  then show ?thesis using assms by (auto simp: take_connection_state_def front_outcome_def is_start_def)
next
  case False
  let ?x = "of_nat (state_code (cs_state s)) :: byte" and ?y = "of_nat (role_code (cs_role s)) :: byte"
    and ?z = "of_nat (presence_code (cs_identityPresence s)) :: byte"
  let ?pre = "bytes_of ''ISTS'' @ [?x, ?y, ?z]"
  have b: "fr_buffer r = take k (?pre @ text_bytes (cs_technicalName s) @ text_bytes (cs_detail s) @ post)"
      "fr_buffer r = take k ((?pre @ text_bytes (cs_technicalName s)) @ text_bytes (cs_detail s) @ post)" using assms(1) by simp_all
  have n: "fr_buffer r ! 4 = ?x" "fr_buffer r ! 5 = ?y" "fr_buffer r ! 6 = ?z"
    using byte_take [of r k "bytes_of ''ISTS''" ?x] byte_take [of r k "bytes_of ''ISTS'' @ [?x]" ?y] byte_take [of r k "bytes_of ''ISTS'' @ [?x, ?y]" ?z] b(1) False
    by simp_all
  have l: "\<not> length (fr_buffer r) < 7" using b(1) False by simp
  have eta: "\<lparr>cs_state = cs_state s, cs_role = cs_role s, cs_identityPresence = cs_identityPresence s,
      cs_technicalName = cs_technicalName s, cs_detail = cs_detail s\<rparr> = s" by simp
  show ?thesis
    unfolding take_connection_state_def n codes_again
    using string_field_take [OF b(1) _ assms(3), of 7] string_field_take [OF b(2) _ assms(4), of "11 + length (cs_technicalName s)"] l False assms(2)
    by (auto simp: front_outcome_def make_message_def is_start_def eta)
qed

lemma take_log_line_front:
  assumes "fr_buffer r = take k (ipc_bytes (IpcLogLineMessage a) @ post)" "short_text a"
  shows "take_log_line r = front_outcome (IpcLogLineMessage a) k r"
  using string_field_take [of r k "bytes_of ''ILOG''" a post 4] assms
  by (simp add: take_log_line_def front_outcome_def make_message_def is_start_def)

lemma take_applied_front:
  assumes "fr_buffer r = take k (ipc_bytes (IpcCommandAppliedMessage a) @ post)" "length a = 16"
  shows "take_applied r = front_outcome (IpcCommandAppliedMessage a) k r"
  using nonce_field_take [of r k "bytes_of ''IACK''" a post 4] assms
  by (simp add: take_applied_def front_outcome_def make_message_def is_start_def)

lemma take_status_response_front:
  assumes "fr_buffer r = take k (ipc_bytes (IpcRuntimeStatusResponseMessage q v st a) @ post)"
    and "ipc_valid (IpcRuntimeStatusResponseMessage q v st a)"
  shows "take_status_response r = front_outcome (IpcRuntimeStatusResponseMessage q v st a) k r"
proof -
  let ?x = "of_nat (runtime_code st) :: byte"
  have v: "length q = 16" "v = 1" "a = [] \<or> length a = 16" using assms(2) by simp_all
  then have a: "short_text a" by (auto simp: protocol_limits)
  have b: "fr_buffer r = take k (bytes_of ''IRTS'' @ text_bytes q @ [v, ?x] @ text_bytes a @ post)"
      "fr_buffer r = take k ((bytes_of ''IRTS'' @ text_bytes q @ [v, ?x]) @ text_bytes a @ post)" using assms(1) by simp_all
  have n: "fr_buffer r ! 24 = v" "fr_buffer r ! 25 = ?x" if "26 \<le> k"
    using byte_take [of r k "bytes_of ''IRTS'' @ text_bytes q" v] byte_take [of r k "bytes_of ''IRTS'' @ text_bytes q @ [v]" ?x] b(1) that v(1)
    by simp_all
  have l: "length (fr_buffer r) = min k (30 + length a + length post)" using b(1) v(1) by simp
  show ?thesis
  proof (cases "k < 26")
    case True
    then show ?thesis using nonce_field_take [OF b(1) _ v(1), of 4] l v
      by (auto simp: take_status_response_def front_outcome_def is_start_def)
  next
    case False
    then show ?thesis
      using nonce_field_take [OF b(1) _ v(1), of 4] string_field_take [OF b(2) _ a, of 26] l v n
      by (auto simp: take_status_response_def front_outcome_def make_message_def is_start_def codes_again Let_def)
  qed
qed

subsection \<open>Frames at any cut\<close>

definition sent_to_daemon :: "ipc_message \<Rightarrow> bool" where
  "sent_to_daemon m \<longleftrightarrow> ipc_valid m \<and> (\<forall>s \<in> set (ipc_texts m). short_text s) \<and> IpcServerProxy_send m \<noteq> None \<and>
     m \<noteq> IpcHelloMessage kIpcClientUnknown"

definition sent_by_daemon :: "ipc_message \<Rightarrow> bool" where
  "sent_by_daemon m \<longleftrightarrow> ipc_valid m \<and> (\<forall>s \<in> set (ipc_texts m). short_text s) \<and> IpcClientProxy_send m \<noteq> None"

definition sent_in :: "ipc_direction \<Rightarrow> ipc_message \<Rightarrow> bool" where
  "sent_in d m \<longleftrightarrow> (if d = ClientToServer then sent_to_daemon m else sent_by_daemon m)"

lemma codeEquals_take:
  "4 \<le> k \<Longrightarrow> length code = 4 \<Longrightarrow> length code' = 4 \<Longrightarrow> codeEquals (take k (bytes_of code @ xs)) code' \<longleftrightarrow> code' = code"
proof -
  assume a: "4 \<le> k" "length code = 4" "length code' = 4"
  have "bytes_of code = bytes_of code' \<Longrightarrow> code = code'" by (metis chars_of_bytes)
  then show ?thesis using a by (auto simp: codeEquals_def kCodeSize_def min_absorb1)
qed

fun frame_code :: "ipc_message \<Rightarrow> string" where
  "frame_code (IpcHelloMessage t) = ''IHEL''"
| "frame_code (IpcCommandMessage c e) = ''ICMD''"
| "frame_code (IpcStartRequestMessage a c e) = ''ISTR''"
| "frame_code (IpcStopRequestMessage a b) = ''ISTP''"
| "frame_code (IpcReloadRequestMessage a b) = ''IRLD''"
| "frame_code (IpcRuntimeStatusRequestMessage a) = ''IGST''"
| "frame_code (IpcTopologyRequestMessage a b p) = ''ITOP''"
| "frame_code (IpcConnectionStateMessage s) = ''ISTS''"
| "frame_code (IpcLogLineMessage l) = ''ILOG''"
| "frame_code IpcShutdownMessage = ''ISDN''"
| "frame_code (IpcCommandAppliedMessage a) = ''IACK''"
| "frame_code (IpcRuntimeStatusResponseMessage q v st a) = ''IRTS''"

lemma front_code:
  assumes "fr_buffer r = take k (ipc_bytes m @ post)" "4 \<le> k" "length code = 4"
  shows "codeEquals (fr_buffer r) code \<longleftrightarrow> code = frame_code m"
proof -
  obtain xs where "ipc_bytes m = bytes_of (frame_code m) @ xs" "length (frame_code m) = 4" by (cases m) simp_all
  then show ?thesis using assms codeEquals_take [of k "frame_code m" code "xs @ post"] by simp
qed

lemma client_front:
  assumes "fr_buffer r = take k (ipc_bytes m @ post)" "4 \<le> k" "sent_to_daemon m"
  shows "takeClientFrame r = front_outcome m k r"
proof -
  note c = front_code [OF assms(1,2)]
  show ?thesis
    unfolding takeClientFrame_def Let_def using assms(1,3) c
    by (cases m) (simp_all add: sent_to_daemon_def take_hello_front take_command_front take_start_front take_stop_front take_reload_front
        take_status_request_front take_topology_front take_connection_state_front del: ipc_bytes.simps)
qed

lemma server_front:
  assumes "fr_buffer r = take k (ipc_bytes m @ post)" "4 \<le> k" "sent_by_daemon m"
  shows "takeServerFrame r = front_outcome m k r"
proof -
  note c = front_code [OF assms(1,2)]
  let ?r = "r\<lparr>fr_direction := ClientToServer\<rparr>"
  have s: "takeClientFrame ?r = front_outcome m k ?r" if "m = IpcConnectionStateMessage s" for s
    using that assms by (intro client_front) (auto simp: sent_by_daemon_def sent_to_daemon_def)
  have "r\<lparr>fr_direction := fr_direction r\<rparr> = r" by simp
  then show ?thesis
    unfolding takeServerFrame_def Let_def using assms(1,3) c s assms(2)
    by (cases m) (auto simp: sent_by_daemon_def take_log_line_front take_applied_front take_status_response_front front_outcome_def
        make_message_def is_start_def fr_consume_def simp del: ipc_bytes.simps)
qed

text \<open>Whatever number of bytes of a message is in the buffer, it is taken as soon as it is complete and not before.\<close>

lemma buffered_front:
  assumes "fr_buffer r = take k (ipc_bytes m @ post)" "sent_in (fr_direction r) m"
  shows "takeBufferedFrame r =
    (if k < frame_size m then (None, if is_start m \<and> Suc k = frame_size m then fr_fail r else r)
     else (Some m, fr_consume (frame_size m) r))"
proof -
  have size: "4 \<le> frame_size m" "is_start m \<Longrightarrow> 13 \<le> frame_size m" by (cases m; simp add: is_start_def)+
  have l: "length (fr_buffer r) = min k (frame_size m + length post)" using assms(1) by (simp add: ipc_bytes_length)
  show ?thesis
  proof (cases "4 \<le> k")
    case True
    then have "\<not> length (fr_buffer r) < kCodeSize" using l size(1) by (simp add: kCodeSize_def)
    moreover have "(if fr_direction r = ClientToServer then takeClientFrame r else takeServerFrame r) = front_outcome m k r"
      using client_front [OF assms(1) True] server_front [OF assms(1) True] assms(2) by (simp add: sent_in_def)
    ultimately show ?thesis unfolding takeBufferedFrame_def by (simp add: front_outcome_def)
  next
    case False
    then have "length (fr_buffer r) < kCodeSize" using l by (simp add: kCodeSize_def)
    then show ?thesis using False size by (auto simp: takeBufferedFrame_def)
  qed
qed

text \<open>
  The messages that are complete in a stream of bytes when the first \<open>k\<close> have arrived; a cut is fine unless it leaves
  a start request with all but its last byte.
\<close>

fun complete :: "ipc_message list \<Rightarrow> nat \<Rightarrow> ipc_message list" where
  "complete [] k = []"
| "complete (m # ms) k = (if k < frame_size m then [] else m # complete ms (k - frame_size m))"

fun good_cut :: "ipc_message list \<Rightarrow> nat \<Rightarrow> bool" where
  "good_cut [] k \<longleftrightarrow> True"
| "good_cut (m # ms) k \<longleftrightarrow> (if k < frame_size m then \<not> (is_start m \<and> Suc k = frame_size m) else good_cut ms (k - frame_size m))"

lemma frame_size_pos [simp]: "0 < frame_size m"
  by (cases m) auto

lemma drain_front:
  assumes "fr_buffer r = take k (concat (map ipc_bytes ms))" "\<forall>m \<in> set ms. sent_in (fr_direction r) m" "\<not> fr_invalid r"
    and "good_cut ms k"
  shows "fr_drain r = r\<lparr>fr_ready := fr_ready r @ complete ms k,
    fr_buffer := drop (length (concat (map ipc_bytes (complete ms k)))) (fr_buffer r)\<rparr>"
  using assms
proof (induction ms arbitrary: r k)
  case Nil
  then have "takeBufferedFrame r = (None, r)" by (simp add: takeBufferedFrame_def kCodeSize_def)
  then show ?case using Nil by (subst fr_drain.simps) simp
next
  case (Cons m ms)
  have b: "fr_buffer r = take k (ipc_bytes m @ concat (map ipc_bytes ms))" "sent_in (fr_direction r) m" using Cons.prems(1,2) by simp_all
  note f = buffered_front [OF this]
  show ?case
  proof (cases "k < frame_size m")
    case True
    then have "takeBufferedFrame r = (None, r)" using f Cons.prems(4) by auto
    then show ?thesis using True Cons.prems(3) by (subst fr_drain.simps) simp
  next
    case False
    let ?r = "(fr_consume (frame_size m) r)\<lparr>fr_ready := fr_ready r @ [m]\<rparr>"
    have d: "drop (frame_size m) (fr_buffer r) = take (k - frame_size m) (concat (map ipc_bytes ms))"
      using b(1) by (simp only: drop_take) (simp add: ipc_bytes_length)
    have "fr_drain ?r = ?r\<lparr>fr_ready := fr_ready ?r @ complete ms (k - frame_size m),
        fr_buffer := drop (length (concat (map ipc_bytes (complete ms (k - frame_size m))))) (fr_buffer ?r)\<rparr>"
      using Cons.prems(2-4) False by (intro Cons.IH) (simp_all add: fr_consume_def d)
    moreover have "fr_drain r = fr_drain ?r" using f False Cons.prems(3) by (subst fr_drain.simps) (simp add: fr_consume_def)
    ultimately show ?thesis using False by (simp add: fr_consume_def ipc_bytes_length add.commute)
  qed
qed

lemma complete_take: "complete ms k = take (length (complete ms k)) ms"
  by (induction ms k rule: complete.induct) auto

lemma complete_all: "length (concat (map ipc_bytes ms)) \<le> k \<Longrightarrow> complete ms k = ms"
  by (induction ms arbitrary: k) (auto simp: ipc_bytes_length)

text \<open>What is left of the bytes behind the complete messages is less than a frame.\<close>

lemma complete_rest:
  "k - length (concat (map ipc_bytes (complete ms k))) < (case drop (length (complete ms k)) ms of [] \<Rightarrow> Suc k | m # _ \<Rightarrow> frame_size m)"
  by (induction ms k rule: complete.induct) (auto simp: ipc_bytes_length less_diff_conv2 split: list.splits)

lemma frame_size_max:
  assumes "sent_in d m"
  shows "frame_size m \<le> kMaximumFrameSize"
  using assms
  by (cases m) (auto simp: sent_in_def sent_to_daemon_def sent_by_daemon_def kMaximumFrameSize_def kCodeSize_def protocol_limits split: if_splits)

subsection \<open>Messages in blocks\<close>

abbreviation stream_of :: "ipc_message list \<Rightarrow> bytes" where
  "stream_of ms \<equiv> concat (map ipc_bytes ms)"

text \<open>A reader that has taken all complete messages and holds the first \<open>k\<close> bytes of what is to come.\<close>

definition awaits :: "ipc_message list \<Rightarrow> nat \<Rightarrow> frame_reader \<Rightarrow> bool" where
  "awaits ms k r \<longleftrightarrow> \<not> fr_invalid r \<and> fr_buffer r = take k (stream_of ms) \<and> (\<forall>m \<in> set ms. sent_in (fr_direction r) m) \<and>
     (case ms of [] \<Rightarrow> k = 0 | m # _ \<Rightarrow> k < frame_size m)"

lemma awaits_length: "awaits ms k r \<Longrightarrow> length (fr_buffer r) = k \<and> k < kMaximumFrameSize"
proof (cases ms)
  case (Cons m ms')
  assume "awaits ms k r"
  then have "fr_buffer r = take k (ipc_bytes m @ stream_of ms')" "k < frame_size m" "sent_in (fr_direction r) m"
    using Cons by (simp_all add: awaits_def)
  then show ?thesis using frame_size_max [of "fr_direction r" m] by (simp add: ipc_bytes_length)
qed (simp add: awaits_def kMaximumFrameSize_def)

lemma complete_stream: "stream_of ms = stream_of (complete ms k) @ stream_of (drop (length (complete ms k)) ms)"
  by (induction ms k rule: complete.induct) auto

lemma complete_size: "k \<le> length (stream_of ms) \<Longrightarrow> length (stream_of (complete ms k)) \<le> k"
proof (induction ms k rule: complete.induct)
  case (2 m ms k)
  then show ?case by (cases "k < frame_size m") (auto simp: ipc_bytes_length le_diff_conv)
qed simp

lemma chunk_taken:
  assumes "awaits ms k r" "drop k (stream_of ms) = c @ rest" "good_cut ms (k + length c)"
  defines "k' \<equiv> k + length c"
  shows "awaits (drop (length (complete ms k')) ms) (k' - length (stream_of (complete ms k'))) (append_chunk c r)"
    "fr_ready (append_chunk c r) = fr_ready r @ complete ms k'" "fr_direction (append_chunk c r) = fr_direction r"
    "drop (k' - length (stream_of (complete ms k'))) (stream_of (drop (length (complete ms k')) ms)) = rest"
proof -
  let ?done = "complete ms k'" and ?left = "drop (length (complete ms k')) ms"
  let ?r = "r\<lparr>fr_buffer := fr_buffer r @ c\<rparr>"
  have l: "length (fr_buffer r) = k" using awaits_length [OF assms(1)] by simp
  have a: "\<not> fr_invalid r" "fr_buffer r = take k (stream_of ms)" "\<forall>m \<in> set ms. sent_in (fr_direction r) m" using assms(1) by (simp_all add: awaits_def)
  have k: "k \<le> length (stream_of ms)" using a(2) l by (metis length_take min.absorb_iff1 min.commute)
  have split: "stream_of ms = take k (stream_of ms) @ c @ rest" using assms(2) append_take_drop_id by metis
  then have b: "fr_buffer r @ c = take k' (stream_of ms)" using a(2) l unfolding k'_def by (metis append.assoc append_eq_conv_conj length_append)
  have k': "k' \<le> length (stream_of ms)" using split k by (metis k'_def le_add1 length_append length_take min.absorb2 add.assoc)
  have d: "fr_drain ?r = ?r\<lparr>fr_ready := fr_ready r @ ?done, fr_buffer := drop (length (stream_of ?done)) (take k' (stream_of ms))\<rparr>"
    using drain_front [of ?r k' ms] a b assms(3) by (simp add: k'_def)
  have e: "drop (length (stream_of ?done)) (take k' (stream_of ms)) = take (k' - length (stream_of ?done)) (stream_of ?left)"
    unfolding drop_take using complete_stream [of ms k'] by (metis append_eq_conv_conj)
  have small: "case ?left of [] \<Rightarrow> k' - length (stream_of ?done) = 0 | m # _ \<Rightarrow> k' - length (stream_of ?done) < frame_size m"
    using complete_rest [of k' ms] complete_stream [of ms k'] k' by (auto split: list.splits)
  have w: "awaits ?left (k' - length (stream_of ?done)) (fr_drain ?r)"
    unfolding awaits_def d using a small e by (auto dest: in_set_dropD)
  then have "size_t (length (fr_buffer (fr_drain ?r))) \<noteq> kMaximumFrameSize"
    using awaits_length [OF w] by (simp add: size_t_def kMaximumFrameSize_def kCodeSize_def protocol_limits)
  then have "append_chunk c r = fr_drain ?r" by (simp add: append_chunk_def Let_def)
  then show "awaits ?left (k' - length (stream_of ?done)) (append_chunk c r)" "fr_ready (append_chunk c r) = fr_ready r @ ?done"
    "fr_direction (append_chunk c r) = fr_direction r"
    using w d by simp_all
  have "drop k' (stream_of ms) = rest" using split a(2) l unfolding k'_def by (metis append.assoc append_eq_conv_conj length_append)
  moreover have "drop k' (stream_of ms) = drop (k' - length (stream_of ?done)) (drop (length (stream_of ?done)) (stream_of ms))"
    using complete_size [OF k'] by simp
  ultimately show "drop (k' - length (stream_of ?done)) (stream_of ?left) = rest"
    using complete_stream [of ms k'] by (metis append_eq_conv_conj)
qed

text \<open>The state after some bytes: the messages taken, the ones to come, and how much of them is there.\<close>

definition moved :: "ipc_message list \<Rightarrow> frame_reader \<Rightarrow> frame_reader \<Rightarrow> bytes \<Rightarrow> bool" where
  "moved ms r r' rest \<longleftrightarrow> (\<exists>dn ms' k'. ms = dn @ ms' \<and> awaits ms' k' r' \<and> fr_ready r' = fr_ready r @ dn \<and> drop k' (stream_of ms') = rest \<and>
     fr_direction r' = fr_direction r)"

lemma no_start_cut: "\<forall>m \<in> set ms. \<not> is_start m \<Longrightarrow> good_cut ms k"
  by (induction ms k rule: good_cut.induct) auto

lemma chunk_moved:
  assumes "awaits ms k r" "drop k (stream_of ms) = c @ rest" "good_cut ms (k + length c)"
  shows "moved ms r (append_chunk c r) rest"
  unfolding moved_def
proof (intro exI conjI)
  let ?n = "length (complete ms (k + length c))"
  show "ms = complete ms (k + length c) @ drop ?n ms" using complete_take [of ms "k + length c"] append_take_drop_id by metis
qed (use chunk_taken [OF assms] in auto)

lemma moved_trans:
  assumes "moved ms r r1 (c @ rest)" "\<And>ms' k'. set ms' \<subseteq> set ms \<Longrightarrow> awaits ms' k' r1 \<Longrightarrow> drop k' (stream_of ms') = c @ rest \<Longrightarrow> moved ms' r1 r2 rest"
  shows "moved ms r r2 rest"
proof -
  from assms(1) obtain dn ms' k' where 1: "ms = dn @ ms'" "awaits ms' k' r1" "fr_ready r1 = fr_ready r @ dn" "drop k' (stream_of ms') = c @ rest"
      "fr_direction r1 = fr_direction r" unfolding moved_def by blast
  then have "moved ms' r1 r2 rest" using assms(2) by auto
  then show ?thesis using 1 unfolding moved_def by (metis append.assoc)
qed

lemma loop_moved:
  assumes "awaits ms k r" "drop k (stream_of ms) = data @ rest" "\<forall>m \<in> set ms. \<not> is_start m"
  shows "moved ms r (append_loop data r) rest"
  using assms
proof (induction data r arbitrary: ms k rule: append_loop.induct)
  case (1 data r)
  show ?case
  proof (cases "data = []")
    case True
    then have "append_loop data r = r" by (subst append_loop.simps) simp
    moreover have "moved ms r r rest" using 1(2,3) True unfolding moved_def by (intro exI [of _ "[]"] exI [of _ ms] exI [of _ k]) simp
    ultimately show ?thesis by simp
  next
    case False
    let ?n = "min (length data) (available_space r)"
    have i: "\<not> (data = [] \<or> fr_invalid r)" using False 1(2) by (simp add: awaits_def)
    have d: "drop k (stream_of ms) = take ?n data @ drop ?n data @ rest" using 1(3) by simp
    have "moved ms r (append_chunk (take ?n data) r) (drop ?n data @ rest)"
      using chunk_moved [OF 1(2) d no_start_cut [OF 1(4)]] .
    then have "moved ms r (append_loop (drop ?n data) (append_chunk (take ?n data) r)) rest"
      by (rule moved_trans) (use 1(1) [OF i refl] 1(4) in blast)
    then show ?thesis using i by (subst append_loop.simps) (simp add: Let_def)
  qed
qed

text \<open>
  The blocks in which the bytes may arrive: any when there is no start request, and otherwise blocks that the buffer
  has space for and that leave no start request with all but its last byte.
\<close>

fun pending :: "ipc_message list \<Rightarrow> nat \<Rightarrow> nat" where
  "pending [] k = k"
| "pending (m # ms) k = (if k < frame_size m then k else pending ms (k - frame_size m))"

definition good_blocks :: "ipc_message list \<Rightarrow> nat \<Rightarrow> bytes list \<Rightarrow> bool" where
  "good_blocks ms k blocks \<longleftrightarrow> (\<forall>m \<in> set ms. \<not> is_start m) \<or>
     (\<forall>i < length blocks. good_cut ms (k + length (concat (take (Suc i) blocks))) \<and>
        pending ms (k + length (concat (take i blocks))) + length (blocks ! i) \<le> kMaximumFrameSize)"

lemma space_left: "awaits ms k r \<Longrightarrow> available_space r = kMaximumFrameSize - k"
proof -
  assume "awaits ms k r"
  then have l: "length (fr_buffer r) = k" "k < kMaximumFrameSize" using awaits_length by simp_all
  moreover have m: "kMaximumFrameSize < 2 ^ 64" by (simp add: kMaximumFrameSize_def kCodeSize_def protocol_limits)
  ultimately have "size_t (length (fr_buffer r)) = k" by (simp add: size_t_def)
  then have "available_space r = nat ((int kMaximumFrameSize - int k) mod 2 ^ 64)" by (simp add: available_space_def)
  moreover have "(int kMaximumFrameSize - int k) mod 2 ^ 64 = int kMaximumFrameSize - int k"
    using l(2) m by (intro mod_pos_pos_trivial) simp_all
  ultimately show ?thesis by simp
qed

lemma stay_moved: "awaits ms k r \<Longrightarrow> drop k (stream_of ms) = rest \<Longrightarrow> moved ms r r rest"
  unfolding moved_def by (intro exI [of _ "[]"] exI [of _ ms] exI [of _ k]) simp

lemma block_moved:
  assumes "awaits ms k r" "drop k (stream_of ms) = b @ rest" "good_blocks ms k (b # bs)"
  shows "moved ms r (fr_append (Some b) (length b) r) rest"
proof (cases "b = []")
  case True
  then show ?thesis using stay_moved [OF assms(1)] assms(2) by (simp add: fr_append_def)
next
  case False
  have i: "\<not> fr_invalid r" using assms(1) by (simp add: awaits_def)
  then have a: "fr_append (Some b) (length b) r = append_loop b r" using False by (simp add: fr_append_def)
  show ?thesis
  proof (cases "\<forall>m \<in> set ms. \<not> is_start m")
    case True
    then show ?thesis unfolding a using loop_moved [OF assms(1,2)] by blast
  next
    case starts: False
    then obtain m ms' where m: "ms = m # ms'" by (cases ms) auto
    have f: "pending ms k + length b \<le> kMaximumFrameSize" "good_cut ms (k + length b)"
      using assms(3) starts unfolding good_blocks_def by (auto dest: spec [of _ 0])
    have "k < frame_size m" using assms(1) m by (simp add: awaits_def)
    then have "length b \<le> available_space r" using f(1) space_left [OF assms(1)] m by simp
    moreover have "append_loop [] q = q" for q by (subst append_loop.simps) simp
    ultimately have "append_loop b r = append_chunk b r" using i False by (subst append_loop.simps) (simp add: Let_def min_absorb1)
    then show ?thesis unfolding a using chunk_moved [OF assms(1,2) f(2)] by simp
  qed
qed

lemma good_cut_shift: "good_cut (dn @ ms) (length (stream_of dn) + j) = good_cut ms j"
  "pending (dn @ ms) (length (stream_of dn) + j) = pending ms j"
  by (induction dn arbitrary: j) (simp_all add: ipc_bytes_length add.assoc)

lemma moved_blocks:
  assumes "awaits ms k r" "drop k (stream_of ms) = b @ rest" "good_blocks ms k (b # bs)" "moved ms r r' rest"
  shows "\<exists>dn ms' k'. ms = dn @ ms' \<and> awaits ms' k' r' \<and> fr_ready r' = fr_ready r @ dn \<and> drop k' (stream_of ms') = rest \<and>
    good_blocks ms' k' bs \<and> fr_direction r' = fr_direction r"
proof -
  from assms(4) obtain dn ms' k' where d: "ms = dn @ ms'" "awaits ms' k' r'" "fr_ready r' = fr_ready r @ dn" "drop k' (stream_of ms') = rest"
      "fr_direction r' = fr_direction r"
    unfolding moved_def by blast
  have below: "k \<le> length (stream_of ms)" if "awaits ms k r" for ms k r
  proof -
    have "fr_buffer r = take k (stream_of ms)" using that unfolding awaits_def by blast
    then have "length (take k (stream_of ms)) = k" using awaits_length [OF that] by metis
    then show ?thesis unfolding length_take by linarith
  qed
  have "length (stream_of ms) = k + length b + length rest" "length (stream_of ms') = k' + length rest"
    using arg_cong [OF assms(2), of length] arg_cong [OF d(4), of length] below [OF assms(1)] below [OF d(2)] by simp_all
  then have p: "k + length b = length (stream_of dn) + k'" using d(1) by simp
  have "good_cut ms' (k' + length (concat (take (Suc i) bs))) \<and> pending ms' (k' + length (concat (take i bs))) + length (bs ! i) \<le> kMaximumFrameSize"
    if "\<not> (\<forall>m \<in> set ms. \<not> is_start m)" "i < length bs" for i
  proof -
    have "good_cut ms (k + length (concat (take (Suc (Suc i)) (b # bs)))) \<and>
        pending ms (k + length (concat (take (Suc i) (b # bs)))) + length ((b # bs) ! Suc i) \<le> kMaximumFrameSize"
      using assms(3) that unfolding good_blocks_def by (auto dest: spec [of _ "Suc i"])
    then show ?thesis
      using p good_cut_shift [of dn ms' "k' + length (concat (take _ bs))"] d(1) by (simp only: take_Suc_Cons concat.simps length_append nth_Cons_Suc add.assoc [symmetric])
  qed
  then have "good_blocks ms' k' bs" using assms(3) d(1) unfolding good_blocks_def by auto
  then show ?thesis using d by blast
qed

definition deliver :: "bytes list \<Rightarrow> frame_reader \<Rightarrow> frame_reader" where
  "deliver blocks r = fold (\<lambda>b. fr_append (Some b) (length b)) blocks r"

lemma blocks_delivered:
  assumes "awaits ms k r" "drop k (stream_of ms) = concat blocks" "good_blocks ms k blocks"
  shows "awaits [] 0 (deliver blocks r) \<and> fr_ready (deliver blocks r) = fr_ready r @ ms \<and> fr_direction (deliver blocks r) = fr_direction r"
  using assms
proof (induction blocks arbitrary: ms k r)
  case Nil
  have "ms = []"
  proof (cases ms)
    case (Cons m ms')
    then have "k < frame_size m" using Nil.prems(1) by (simp add: awaits_def)
    then show ?thesis using Nil.prems(2) Cons by (simp add: ipc_bytes_length)
  qed
  then show ?case using Nil.prems(1) by (simp add: deliver_def awaits_def)
next
  case (Cons b blocks)
  let ?r = "fr_append (Some b) (length b) r"
  have d: "drop k (stream_of ms) = b @ concat blocks" using Cons.prems(2) by simp
  have "moved ms r ?r (concat blocks)" using block_moved [OF Cons.prems(1) d Cons.prems(3)] .
  from moved_blocks [OF Cons.prems(1) d Cons.prems(3) this] obtain dn ms' k' where
    m: "ms = dn @ ms'" "awaits ms' k' ?r" "fr_ready ?r = fr_ready r @ dn" "drop k' (stream_of ms') = concat blocks" "good_blocks ms' k' blocks"
    "fr_direction ?r = fr_direction r" by blast
  from Cons.IH [OF m(2,4,5)] show ?case using m(1,3,6) by (simp add: deliver_def)
qed

lemma sent_short:
  "IpcServerProxy_send m = Some (Inr out) \<Longrightarrow> \<forall>s \<in> set (ipc_texts m). short_text s"
  "IpcClientProxy_send m = Some (Inr out) \<Longrightarrow> \<forall>s \<in> set (ipc_texts m). short_text s"
  by (cases m; auto simp: ipc_write connection_state_args_def split: if_splits)+

definition proxy_send :: "ipc_direction \<Rightarrow> ipc_message \<Rightarrow> (write_error + bytes) option" where
  "proxy_send d m = (if d = ClientToServer then IpcServerProxy_send m else IpcClientProxy_send m)"

lemma proxy_sent:
  assumes "proxy_send d m = Some (Inr out)" "ipc_valid m" "m \<noteq> IpcHelloMessage kIpcClientUnknown"
  shows "sent_in d m" "out = ipc_bytes m"
  using assms sent_short [of m out] server_proxy_writes [of m "Inr out"] client_proxy_writes [of m "Inr out"]
  by (auto simp: proxy_send_def sent_in_def sent_to_daemon_def sent_by_daemon_def split: if_splits)

lemma new_awaits: "\<forall>m \<in> set ms. sent_in d m \<Longrightarrow> awaits ms 0 (IpcFrameReader_new d)"
  by (cases ms) (simp_all add: awaits_def IpcFrameReader_new_def)

text \<open>
  The messages that one end of a connection writes are the messages that the reader of the other end hands
  out, in the order in which they were written and with nothing left over. The bytes may be cut into blocks anywhere, but
  for one place: a start request must not arrive with all but its last byte.
\<close>

theorem ipc_messages_delivered:
  assumes "\<forall>m \<in> set ms. ipc_valid m \<and> m \<noteq> IpcHelloMessage kIpcClientUnknown"
    and "map (proxy_send d) ms = map (\<lambda>out. Some (Inr out)) outs" "concat blocks = concat outs" "good_blocks ms 0 blocks"
  shows "deliver blocks (IpcFrameReader_new d) = (IpcFrameReader_new d)\<lparr>fr_ready := ms\<rparr>"
proof -
  have l: "length ms = length outs" using arg_cong [OF assms(2), of length] by simp
  have "sent_in d (ms ! i) \<and> outs ! i = ipc_bytes (ms ! i)" if "i < length ms" for i
    using proxy_sent [of d "ms ! i" "outs ! i"] assms(1) arg_cong [OF assms(2), of "\<lambda>xs. xs ! i"] that l by auto
  then have "\<forall>m \<in> set ms. sent_in d m" "outs = map ipc_bytes ms" using l by (auto simp: in_set_conv_nth list_eq_iff_nth_eq)
  then have "awaits [] 0 (deliver blocks (IpcFrameReader_new d)) \<and> fr_ready (deliver blocks (IpcFrameReader_new d)) = ms \<and>
      fr_direction (deliver blocks (IpcFrameReader_new d)) = d"
    using blocks_delivered [OF new_awaits, of ms d blocks] assms(3,4) by (simp add: IpcFrameReader_new_def)
  then show ?thesis by (simp add: awaits_def IpcFrameReader_new_def)
qed

theorem ipc_messages_delivered_witness:
  "deliver [bytes_of ''IHE'', bytes_of ''L'' @ [1] @ bytes_of ''ICM'', bytes_of ''D'' @ [0, 0, 0], [1, 97], [1]] (IpcFrameReader_new ClientToServer) =
     (IpcFrameReader_new ClientToServer)\<lparr>fr_ready := [IpcHelloMessage kIpcClientGui, IpcCommandMessage [97] True]\<rparr>"
proof (rule ipc_messages_delivered)
  show "map (proxy_send ClientToServer) [IpcHelloMessage kIpcClientGui, IpcCommandMessage [97] True] =
      map (\<lambda>out. Some (Inr out)) [bytes_of ''IHEL'' @ [1], bytes_of ''ICMD'' @ [0, 0, 0, 1, 97, 1]]"
    by (simp add: proxy_send_def ipc_write wire_codec byte_of_low)
qed (simp_all add: good_blocks_def is_start_def)

text \<open>
  A start request that arrives in one block is handed out; if its last byte, the flag for elevation, arrives in a block of
  its own, the reader becomes invalid and the connection is lost. A command with the same flag is waited for.
\<close>

theorem start_request_cut:
  assumes "ipc_valid (IpcStartRequestMessage a c e)" "IpcServerProxy_send (IpcStartRequestMessage a c e) = Some (Inr out)"
  shows "deliver [out] (IpcFrameReader_new ClientToServer) =
      (IpcFrameReader_new ClientToServer)\<lparr>fr_ready := [IpcStartRequestMessage a c e]\<rparr> \<and>
    fr_invalid (deliver [butlast out, [last out]] (IpcFrameReader_new ClientToServer))"
proof
  let ?m = "IpcStartRequestMessage a c e" and ?r = "IpcFrameReader_new ClientToServer"
  have m: "sent_in ClientToServer ?m" "out = ipc_bytes ?m" using proxy_sent [of ClientToServer ?m out] assms by (simp_all add: proxy_send_def)
  have l: "length out = frame_size ?m" using m(2) ipc_bytes_length by simp
  have max: "frame_size ?m \<le> kMaximumFrameSize" using frame_size_max [OF m(1)] .
  have w: "awaits [?m] 0 ?r" using new_awaits [of "[?m]"] m(1) by simp
  have "good_blocks [?m] 0 [out]" using l max by (simp add: good_blocks_def)
  then have "awaits [] 0 (deliver [out] ?r) \<and> fr_ready (deliver [out] ?r) = fr_ready ?r @ [?m] \<and> fr_direction (deliver [out] ?r) = fr_direction ?r"
    using blocks_delivered [OF w, of "[out]"] m(2) by simp
  then show "deliver [out] ?r = ?r\<lparr>fr_ready := [?m]\<rparr>" by (simp add: awaits_def IpcFrameReader_new_def)
  let ?b = "butlast out"
  have n: "?b = take (frame_size ?m - 1) (ipc_bytes ?m @ [])" "?b \<noteq> []" using l m(2) by (simp_all add: butlast_conv_take flip: length_0_conv)
  have "takeBufferedFrame (?r\<lparr>fr_buffer := ?b\<rparr>) = (None, fr_fail (?r\<lparr>fr_buffer := ?b\<rparr>))"
    using buffered_front [of "?r\<lparr>fr_buffer := ?b\<rparr>" "frame_size ?m - 1" ?m "[]"] n(1) m(1) by (simp add: IpcFrameReader_new_def is_start_def)
  then have "fr_drain (?r\<lparr>fr_buffer := ?b\<rparr>) = fr_fail (?r\<lparr>fr_buffer := ?b\<rparr>)" by (subst fr_drain.simps) (simp add: IpcFrameReader_new_def)
  then have "fr_invalid (append_chunk ?b ?r)" by (simp add: append_chunk_def IpcFrameReader_new_def fr_fail_def)
  moreover have "append_loop ?b ?r = append_chunk ?b ?r"
  proof -
    have "length ?b \<le> available_space ?r" using space_left [OF w] max l by simp
    moreover have "append_loop [] q = q" for q by (subst append_loop.simps) simp
    ultimately show ?thesis using n(2) by (subst append_loop.simps) (simp add: IpcFrameReader_new_def Let_def min_absorb1)
  qed
  ultimately show "fr_invalid (deliver [?b, [last out]] ?r)" using n(2) l by (simp add: deliver_def fr_append_def IpcFrameReader_new_def)
qed

theorem start_request_cut_witness:
  "fr_invalid (deliver [butlast (ipc_bytes (IpcStartRequestMessage (replicate 16 7) [97] False)), [last (ipc_bytes (IpcStartRequestMessage (replicate 16 7) [97] False))]]
     (IpcFrameReader_new ClientToServer))"
proof -
  let ?m = "IpcStartRequestMessage (replicate 16 7) [97] False"
  have "IpcServerProxy_send ?m = Some (Inr (ipc_bytes ?m))"
    using server_proxy_writes [of ?m] by (simp add: protocol_limits)
  then show ?thesis using start_request_cut [of "replicate 16 7" "[97]" False "ipc_bytes ?m"] by simp
qed

end
