(* ===== verification/IpcProxy.thy ===== *)
theory IpcProxy
  imports IpcFrames
begin

text \<open>
  The daemon's end of a connection, \<^verbatim>\<open>src/lib/ipc/IpcClientProxy.cpp\<close>, and the other end,
  \<^verbatim>\<open>IpcServerProxy.cpp\<close>. The stream is the bytes that it has to read; closing it discards them, as
  \<^verbatim>\<open>TCPSocket::close\<close> does. What the operating system answers when the identity of the peer is checked again is a
  parameter, the answer to each call. Only what a peer may send is passed on.
\<close>

subsection \<open>The daemon's end\<close>

datatype proxy_event = ProxyMessageReceived ipc_message | ProxyDisconnected | ProxyWrites bytes

record ipc_proxy =
  ip_input :: bytes
  ip_reader :: frame_reader
  ip_clientType :: EIpcClientType
  ip_expectedClientType :: EIpcClientType
  ip_authenticatedPeer :: bool
  ip_validations :: nat
  ip_disconnecting :: bool
  ip_connectionId :: u64
  ip_trace :: "proxy_event list"

definition IpcClientProxy_new :: "EIpcClientType \<Rightarrow> bool \<Rightarrow> ipc_proxy" where
  "IpcClientProxy_new expectedClientType authenticated =
     \<lparr>ip_input = [], ip_reader = IpcFrameReader_new ClientToServer, ip_clientType = kIpcClientUnknown,
      ip_expectedClientType = expectedClientType, ip_authenticatedPeer = authenticated, ip_validations = 0, ip_disconnecting = False,
      ip_connectionId = 0, ip_trace = []\<rparr>"

definition ip_event :: "proxy_event \<Rightarrow> ipc_proxy \<Rightarrow> ipc_proxy" where
  "ip_event e p = p\<lparr>ip_trace := ip_trace p @ [e]\<rparr>"

definition ip_disconnect :: "ipc_proxy \<Rightarrow> ipc_proxy" where
  "ip_disconnect p = (if ip_disconnecting p then p else ip_event ProxyDisconnected (p\<lparr>ip_disconnecting := True, ip_input := []\<rparr>))"

text \<open>The messages that a peer may send in a state; a greeting sets what the peer is.\<close>

definition ip_authorize :: "ipc_message \<Rightarrow> ipc_proxy \<Rightarrow> ipc_proxy option" where
  "ip_authorize m p =
     (case m of
        IpcHelloMessage t \<Rightarrow>
          if ip_clientType p = kIpcClientUnknown \<and> (ip_expectedClientType p = kIpcClientUnknown \<or> ip_expectedClientType p = t)
          then Some (p\<lparr>ip_clientType := t\<rparr>) else None
      | IpcCommandMessage _ _ \<Rightarrow> if ip_clientType p = kIpcClientGui then Some p else None
      | IpcStartRequestMessage _ _ _ \<Rightarrow> if ip_clientType p = kIpcClientGui then Some p else None
      | IpcStopRequestMessage _ _ \<Rightarrow> if ip_clientType p = kIpcClientGui then Some p else None
      | IpcReloadRequestMessage _ _ \<Rightarrow> if ip_clientType p = kIpcClientGui then Some p else None
      | IpcRuntimeStatusRequestMessage _ \<Rightarrow> if ip_clientType p = kIpcClientGui then Some p else None
      | IpcTopologyRequestMessage _ _ _ \<Rightarrow> if ip_clientType p = kIpcClientGui then Some p else None
      | IpcConnectionStateMessage _ \<Rightarrow> if ip_clientType p = kIpcClientNode then Some p else None
      | _ \<Rightarrow> None)"

text \<open>The call of \<^verbatim>\<open>validatePeer\<close>, when there is an authenticated peer.\<close>

definition ip_validate :: "(nat \<Rightarrow> bool) \<Rightarrow> ipc_proxy \<Rightarrow> bool \<times> ipc_proxy" where
  "ip_validate os p =
     (if ip_authenticatedPeer p then (os (ip_validations p), p\<lparr>ip_validations := Suc (ip_validations p)\<rparr>) else (True, p))"

lemma ip_validate_fields: "ip_validate os p = (ok, p') \<Longrightarrow> \<exists>n. p' = p\<lparr>ip_validations := n\<rparr>"
  by (auto simp: ip_validate_def split: if_splits intro: exI [of _ "ip_validations p"])

lemma ip_authorize_fields: "ip_authorize m p = Some p' \<Longrightarrow> \<exists>t. p' = p\<lparr>ip_clientType := t\<rparr>"
  by (auto simp: ip_authorize_def split: ipc_message.splits if_splits intro: exI [of _ "ip_clientType p"])

function ip_dispatch :: "(nat \<Rightarrow> bool) \<Rightarrow> ipc_proxy \<Rightarrow> ipc_proxy" where
  "ip_dispatch os p =
     (if fr_invalid (ip_reader p) then p
      else case fr_take (ip_reader p) of
        (None, rd) \<Rightarrow> p\<lparr>ip_reader := rd\<rparr>
      | (Some m, rd) \<Rightarrow>
          (case ip_validate os (p\<lparr>ip_reader := rd\<rparr>) of
             (ok, p1) \<Rightarrow>
               if \<not> ok then ip_disconnect p1
               else case ip_authorize m p1 of
                 None \<Rightarrow> ip_disconnect p1
               | Some p2 \<Rightarrow> ip_dispatch os (ip_event (ProxyMessageReceived m) p2)))"
  by pat_completeness auto
termination
  by (relation "measure (\<lambda>(os, p). length (fr_ready (ip_reader p)) + length (fr_buffer (ip_reader p)))")
     (auto simp: ip_event_def dest!: take_shorter [OF sym] ip_validate_fields [OF sym] ip_authorize_fields)

declare ip_dispatch.simps [simp del]

lemma dispatch_input: "length (ip_input (ip_dispatch os p)) \<le> length (ip_input p)"
proof (induction os p rule: ip_dispatch.induct)
  case (1 os p)
  obtain x rd where t: "fr_take (ip_reader p) = (x, rd)" by force
  obtain ok p1 where v: "ip_validate os (p\<lparr>ip_reader := rd\<rparr>) = (ok, p1)" by force
  then have i: "ip_input p1 = ip_input p" using ip_validate_fields by fastforce
  have "length (ip_input (ip_dispatch os (ip_event (ProxyMessageReceived m) p2))) \<le> length (ip_input p)"
    if a: "\<not> fr_invalid (ip_reader p)" "x = Some m" "ok" "ip_authorize m p1 = Some p2" for m p2
    using 1 [OF a(1) t [symmetric] a(2) v [symmetric]] a(3,4) ip_authorize_fields [OF a(4)] i by (auto simp: ip_event_def)
  then show ?case using t v i by (subst ip_dispatch.simps) (auto simp: ip_disconnect_def ip_event_def split: option.splits)
qed

definition kIpcReadSize :: nat where
  "kIpcReadSize = 4096"

function ip_read_loop :: "(nat \<Rightarrow> bool) \<Rightarrow> ipc_proxy \<Rightarrow> ipc_proxy" where
  "ip_read_loop os p =
     (let input = take kIpcReadSize (ip_input p); p1 = p\<lparr>ip_input := drop kIpcReadSize (ip_input p)\<rparr>
      in if input = [] \<or> fr_invalid (ip_reader p) then p1
         else ip_read_loop os (ip_dispatch os (p1\<lparr>ip_reader := fr_append (Some input) (length input) (ip_reader p)\<rparr>)))"
  by pat_completeness auto
termination
proof (relation "measure (\<lambda>(os, p). length (ip_input p))", goal_cases)
  case (2 os p input p1)
  then show ?case using dispatch_input [of os "p1\<lparr>ip_reader := fr_append (Some input) (length input) (ip_reader p)\<rparr>"]
    by (auto simp: kIpcReadSize_def intro: le_less_trans)
qed simp

declare ip_read_loop.simps [simp del]

definition ip_handle_data :: "(nat \<Rightarrow> bool) \<Rightarrow> ipc_proxy \<Rightarrow> ipc_proxy" where
  "ip_handle_data os p = (let p = ip_read_loop os p in if fr_invalid (ip_reader p) then ip_disconnect p else p)"

definition ip_handle_disconnect :: "ipc_proxy \<Rightarrow> ipc_proxy" where
  "ip_handle_disconnect p = ip_disconnect p"

definition ip_handle_write_error :: "ipc_proxy \<Rightarrow> ipc_proxy" where
  "ip_handle_write_error p = ip_disconnect p"

definition ip_send :: "ipc_message \<Rightarrow> ipc_proxy \<Rightarrow> write_error + ipc_proxy" where
  "ip_send m p =
     (case IpcClientProxy_send m of
        None \<Rightarrow> Inr p
      | Some (Inl e) \<Rightarrow> Inl e
      | Some (Inr bs) \<Rightarrow> Inr (ip_event (ProxyWrites bs) p))"

subsection \<open>What a peer may send\<close>

definition from_gui :: "ipc_message \<Rightarrow> bool" where
  "from_gui m \<longleftrightarrow> (case m of IpcCommandMessage _ _ \<Rightarrow> True | IpcStartRequestMessage _ _ _ \<Rightarrow> True | IpcStopRequestMessage _ _ \<Rightarrow> True
     | IpcReloadRequestMessage _ _ \<Rightarrow> True | IpcRuntimeStatusRequestMessage _ \<Rightarrow> True | IpcTopologyRequestMessage _ _ _ \<Rightarrow> True | _ \<Rightarrow> False)"

definition from_node :: "ipc_message \<Rightarrow> bool" where
  "from_node m \<longleftrightarrow> (case m of IpcConnectionStateMessage _ \<Rightarrow> True | _ \<Rightarrow> False)"

text \<open>
  What a proxy has passed on: a greeting first, of the kind of client that the peer was authenticated as, and then
  valid messages of that kind of client.
\<close>

definition received :: "ipc_proxy \<Rightarrow> ipc_message list" where
  "received p = concat (map (\<lambda>e. case e of ProxyMessageReceived m \<Rightarrow> [m] | _ \<Rightarrow> []) (ip_trace p))"

definition permitted :: "EIpcClientType \<Rightarrow> ipc_message \<Rightarrow> bool" where
  "permitted t m \<longleftrightarrow> message_ok m \<and> (if t = kIpcClientGui then from_gui m else t = kIpcClientNode \<and> from_node m)"

definition proxy_ok :: "ipc_proxy \<Rightarrow> bool" where
  "proxy_ok p \<longleftrightarrow> reader_ok (ip_reader p) \<and>
     (case received p of
        [] \<Rightarrow> ip_clientType p = kIpcClientUnknown
      | m # ms \<Rightarrow> m = IpcHelloMessage (ip_clientType p) \<and> ip_clientType p \<noteq> kIpcClientUnknown \<and>
          (ip_expectedClientType p = kIpcClientUnknown \<or> ip_expectedClientType p = ip_clientType p) \<and> (\<forall>x \<in> set ms. permitted (ip_clientType p) x))"

lemma received_event [simp]:
  "received (ip_event (ProxyMessageReceived m) p) = received p @ [m]" "received (ip_event ProxyDisconnected p) = received p"
  "received (ip_event (ProxyWrites bs) p) = received p"
  by (simp_all add: received_def ip_event_def)

lemma received_fields [simp]:
  "received (p\<lparr>ip_reader := rd\<rparr>) = received p" "received (p\<lparr>ip_validations := n\<rparr>) = received p" "received (p\<lparr>ip_input := i\<rparr>) = received p"
  "received (p\<lparr>ip_clientType := t\<rparr>) = received p" "received (p\<lparr>ip_disconnecting := d\<rparr>) = received p"
  by (simp_all add: received_def)

lemma event_fields [simp]:
  "ip_reader (ip_event e p) = ip_reader p" "ip_clientType (ip_event e p) = ip_clientType p" "ip_input (ip_event e p) = ip_input p"
  "ip_expectedClientType (ip_event e p) = ip_expectedClientType p" "ip_disconnecting (ip_event e p) = ip_disconnecting p"
  by (simp_all add: ip_event_def)

text \<open>Only these parts matter.\<close>

lemma proxy_ok_same:
  assumes "proxy_ok p" "received q = received p" "ip_clientType q = ip_clientType p" "ip_expectedClientType q = ip_expectedClientType p"
    and "reader_ok (ip_reader q)"
  shows "proxy_ok q"
  using assms(1,5) unfolding proxy_ok_def assms(2-4) by simp

lemma disconnect_fields [simp]:
  "received (ip_disconnect p) = received p" "ip_clientType (ip_disconnect p) = ip_clientType p"
  "ip_expectedClientType (ip_disconnect p) = ip_expectedClientType p" "ip_reader (ip_disconnect p) = ip_reader p"
  by (simp_all add: ip_disconnect_def)

lemma proxy_reader_ok: "proxy_ok p \<Longrightarrow> reader_ok (ip_reader p)"
  by (simp add: proxy_ok_def)

lemma disconnect_ok: "proxy_ok p \<Longrightarrow> proxy_ok (ip_disconnect p)"
  by (rule proxy_ok_same) (simp_all add: proxy_reader_ok)

lemma authorize_ok:
  assumes "proxy_ok p" "message_ok m" "ip_authorize m p = Some p'"
  shows "proxy_ok (ip_event (ProxyMessageReceived m) p')"
proof (cases "received p")
  case Nil
  then have "ip_clientType p = kIpcClientUnknown" using assms(1) by (simp add: proxy_ok_def)
  then show ?thesis using assms Nil
    by (cases m) (auto simp: proxy_ok_def ip_authorize_def message_ok_def split: if_splits)
next
  case (Cons h ms)
  then have "ip_clientType p \<noteq> kIpcClientUnknown" using assms(1) by (simp add: proxy_ok_def)
  then show ?thesis using assms Cons
    by (cases m) (auto simp: proxy_ok_def ip_authorize_def permitted_def from_gui_def from_node_def split: if_splits)
qed

lemma dispatch_ok: "proxy_ok p \<Longrightarrow> proxy_ok (ip_dispatch os p)"
proof (induction os p rule: ip_dispatch.induct)
  case (1 os p)
  obtain x rd where t: "fr_take (ip_reader p) = (x, rd)" by force
  obtain ok p1 where v: "ip_validate os (p\<lparr>ip_reader := rd\<rparr>) = (ok, p1)" by force
  have rd: "reader_ok rd" "\<And>m. x = Some m \<Longrightarrow> message_ok m" using take_ok [OF _ t] 1(2) by (auto simp: proxy_ok_def)
  then have "proxy_ok (p\<lparr>ip_reader := rd\<rparr>)" using proxy_ok_same [OF 1(2)] by simp
  then have p1: "proxy_ok (p\<lparr>ip_reader := rd\<rparr>)" "proxy_ok p1" using ip_validate_fields [OF v] proxy_ok_same rd(1) by auto
  have "proxy_ok (ip_dispatch os (ip_event (ProxyMessageReceived m) p2))"
    if a: "\<not> fr_invalid (ip_reader p)" "x = Some m" "ok" "ip_authorize m p1 = Some p2" for m p2
    using 1(1) [OF a(1) t [symmetric] a(2) v [symmetric]] a(3,4) authorize_ok [OF p1(2) rd(2) a(4)] a(2) by simp
  then show ?case using t v p1 1(2) disconnect_ok by (subst ip_dispatch.simps) (auto split: option.splits)
qed

lemma read_loop_ok: "proxy_ok p \<Longrightarrow> proxy_ok (ip_read_loop os p)"
proof (induction os p rule: ip_read_loop.induct)
  case (1 os p)
  let ?b = "take kIpcReadSize (ip_input p)" and ?p = "p\<lparr>ip_input := drop kIpcReadSize (ip_input p)\<rparr>"
  let ?q = "?p\<lparr>ip_reader := fr_append (Some ?b) (length ?b) (ip_reader p)\<rparr>"
  show ?case
  proof (cases "?b = [] \<or> fr_invalid (ip_reader p)")
    case True
    have "proxy_ok ?p" using proxy_ok_same [OF 1(2)] proxy_reader_ok [OF 1(2)] by simp
    then show ?thesis using True by (subst ip_read_loop.simps) (simp only: Let_def if_True)
  next
    case False
    have "proxy_ok ?q" using proxy_ok_same [OF 1(2)] append_ok [OF proxy_reader_ok [OF 1(2)]] by simp
    then have "proxy_ok (ip_read_loop os (ip_dispatch os ?q))" using 1(1) [OF refl refl False] dispatch_ok by blast
    then show ?thesis using False by (subst ip_read_loop.simps) (simp only: Let_def if_False)
  qed
qed

lemma handle_data_ok: "proxy_ok p \<Longrightarrow> proxy_ok (ip_handle_data os p)"
  using read_loop_ok disconnect_ok by (simp add: ip_handle_data_def Let_def)

end
