(* ===== verification/IpcRuns.thy ===== *)
theory IpcRuns
  imports IpcProxy
begin

text \<open>
  Runs of the two ends of a connection between the daemon and a local process: what the daemon's end passes on
  whatever the peer sends, and \<^verbatim>\<open>src/lib/ipc/IpcServerProxy.cpp\<close>, the end of the GUI or of a node, which passes on all
  that the daemon sends.
\<close>

subsection \<open>Runs of the daemon's end\<close>

text \<open>
  Bytes arrive only while the stream is open. An exception of \<^verbatim>\<open>writef\<close> leaves the proxy as it is.
\<close>

datatype proxy_step = BytesArrive bytes | InputReady | InputShutdown | OutputError | SendMessage ipc_message

fun ip_step :: "(nat \<Rightarrow> bool) \<Rightarrow> proxy_step \<Rightarrow> ipc_proxy \<Rightarrow> ipc_proxy" where
  "ip_step os (BytesArrive bs) p = (if ip_disconnecting p then p else p\<lparr>ip_input := ip_input p @ bs\<rparr>)"
| "ip_step os InputReady p = ip_handle_data os p"
| "ip_step os InputShutdown p = ip_handle_disconnect p"
| "ip_step os OutputError p = ip_handle_write_error p"
| "ip_step os (SendMessage m) p = (case ip_send m p of Inl _ \<Rightarrow> p | Inr p' \<Rightarrow> p')"

definition ip_run :: "(nat \<Rightarrow> bool) \<Rightarrow> proxy_step list \<Rightarrow> ipc_proxy \<Rightarrow> ipc_proxy" where
  "ip_run os steps p = fold (ip_step os) steps p"

lemma send_event: "ip_send m p = Inr p' \<Longrightarrow> p' = p \<or> (\<exists>bs. p' = ip_event (ProxyWrites bs) p)"
  by (auto simp: ip_send_def split: option.splits sum.splits)

lemma step_ok: "proxy_ok p \<Longrightarrow> proxy_ok (ip_step os e p)"
proof (cases e)
  case (BytesArrive bs)
  assume "proxy_ok p"
  then show ?thesis using BytesArrive proxy_ok_same [of p "p\<lparr>ip_input := ip_input p @ bs\<rparr>"] proxy_reader_ok by simp
next
  case (SendMessage m)
  assume p: "proxy_ok p"
  then have "proxy_ok (ip_event (ProxyWrites bs) p)" for bs by (rule proxy_ok_same) (simp_all add: p proxy_reader_ok)
  then show ?thesis using SendMessage p send_event by (fastforce split: sum.splits)
qed (simp_all add: handle_data_ok disconnect_ok ip_handle_disconnect_def ip_handle_write_error_def)

text \<open>
  The identity of the peer was confirmed for each message that was passed on, and after the end of the connection was
  announced nothing is passed on and its end is not announced again.
\<close>

definition after_end :: "proxy_event list \<Rightarrow> proxy_event list" where
  "after_end tr = tl (dropWhile (\<lambda>e. e \<noteq> ProxyDisconnected) tr)"

definition is_write :: "proxy_event \<Rightarrow> bool" where
  "is_write e \<longleftrightarrow> (case e of ProxyWrites _ \<Rightarrow> True | _ \<Rightarrow> False)"

definition closing_ok :: "(nat \<Rightarrow> bool) \<Rightarrow> ipc_proxy \<Rightarrow> bool" where
  "closing_ok os p \<longleftrightarrow>
     (ip_disconnecting p \<longrightarrow> ip_input p = []) \<and>
     (ip_disconnecting p \<longleftrightarrow> ProxyDisconnected \<in> set (ip_trace p)) \<and>
     (\<forall>e \<in> set (after_end (ip_trace p)). is_write e) \<and>
     (ip_authenticatedPeer p \<longrightarrow> (\<forall>i < length (received p). os i) \<and>
        (\<not> ip_disconnecting p \<longrightarrow> ip_validations p = length (received p)))"

lemma after_end_snoc [simp]:
  "after_end (tr @ [e]) = (if ProxyDisconnected \<in> set tr then after_end tr @ [e] else [])"
proof (cases "ProxyDisconnected \<in> set tr")
  case True
  then have "dropWhile (\<lambda>e. e \<noteq> ProxyDisconnected) tr \<noteq> []" "\<not> (\<forall>e \<in> set tr. e \<noteq> ProxyDisconnected)"
    by (auto simp: dropWhile_eq_Nil_conv)
  then show ?thesis using True by (auto simp: after_end_def dropWhile_append)
qed (auto simp: after_end_def dropWhile_append)

lemma event_trace [simp]: "ip_trace (ip_event e p) = ip_trace p @ [e]" "ip_validations (ip_event e p) = ip_validations p"
  "ip_authenticatedPeer (ip_event e p) = ip_authenticatedPeer p"
  by (simp_all add: ip_event_def)

lemma write_closing: "closing_ok os p \<Longrightarrow> closing_ok os (ip_event (ProxyWrites bs) p)"
  by (auto simp: closing_ok_def is_write_def)

lemma disconnect_closing: "closing_ok os p \<Longrightarrow> closing_ok os (ip_disconnect p)"
  by (auto simp: closing_ok_def ip_disconnect_def)

text \<open>A validation that has just been made is the one for the message that comes next.\<close>

lemma failed_closing:
  assumes "closing_ok os p" "\<not> ip_disconnecting p"
  shows "closing_ok os (ip_disconnect (p\<lparr>ip_reader := rd, ip_validations := n\<rparr>))"
  using assms by (auto simp: closing_ok_def ip_disconnect_def received_def)

lemma passed_closing:
  assumes "closing_ok os p" "\<not> ip_disconnecting p" "ip_authenticatedPeer p \<Longrightarrow> os (ip_validations p) \<and> n = Suc (ip_validations p)"
  shows "closing_ok os (ip_event (ProxyMessageReceived m) (p\<lparr>ip_reader := rd, ip_validations := n, ip_clientType := t\<rparr>))"
  using assms by (auto simp: closing_ok_def received_def less_Suc_eq)

lemma dispatch_closing: "closing_ok os p \<Longrightarrow> \<not> ip_disconnecting p \<Longrightarrow> closing_ok os (ip_dispatch os p)"
proof (induction os p rule: ip_dispatch.induct)
  case (1 os p)
  obtain x rd where t: "fr_take (ip_reader p) = (x, rd)" by force
  obtain ok p1 where v: "ip_validate os (p\<lparr>ip_reader := rd\<rparr>) = (ok, p1)" by force
  then obtain n where p1: "p1 = p\<lparr>ip_reader := rd, ip_validations := n\<rparr>" using ip_validate_fields by blast
  have n: "ok \<Longrightarrow> ip_authenticatedPeer p \<Longrightarrow> os (ip_validations p) \<and> n = Suc (ip_validations p)"
    using v p1 by (auto simp: ip_validate_def split: if_splits dest: arg_cong [of _ _ ip_validations])
  have stop: "closing_ok os (ip_disconnect p1)" using failed_closing [OF 1(2,3)] p1 by simp
  have wait: "closing_ok os (p\<lparr>ip_reader := rd\<rparr>)" using 1(2) by (simp add: closing_ok_def)
  have "closing_ok os (ip_dispatch os (ip_event (ProxyMessageReceived m) p2))"
    if a: "\<not> fr_invalid (ip_reader p)" "x = Some m" "ok" "ip_authorize m p1 = Some p2" for m p2
  proof -
    obtain t where "p2 = p1\<lparr>ip_clientType := t\<rparr>" using ip_authorize_fields [OF a(4)] by blast
    then have "closing_ok os (ip_event (ProxyMessageReceived m) p2)" "\<not> ip_disconnecting p2"
      using passed_closing [OF 1(2,3) n] a(3) 1(3) p1 by simp_all
    then show ?thesis using 1(1) [OF a(1) t [symmetric] a(2) v [symmetric]] a(3,4) by simp
  qed
  then show ?case using t v stop wait 1(2) by (subst ip_dispatch.simps) (auto split: option.splits)
qed

lemma read_loop_closing: "closing_ok os p \<Longrightarrow> closing_ok os (ip_read_loop os p)"
proof (induction os p rule: ip_read_loop.induct)
  case (1 os p)
  let ?b = "take kIpcReadSize (ip_input p)" and ?p = "p\<lparr>ip_input := drop kIpcReadSize (ip_input p)\<rparr>"
  let ?q = "?p\<lparr>ip_reader := fr_append (Some ?b) (length ?b) (ip_reader p)\<rparr>"
  have c: "closing_ok os ?p" "closing_ok os ?q" using 1(2) by (simp_all add: closing_ok_def received_def)
  show ?case
  proof (cases "?b = [] \<or> fr_invalid (ip_reader p)")
    case True
    then show ?thesis using c(1) by (subst ip_read_loop.simps) (simp only: Let_def if_True)
  next
    case False
    then have "\<not> ip_disconnecting ?q" using 1(2) by (auto simp: closing_ok_def)
    then have "closing_ok os (ip_read_loop os (ip_dispatch os ?q))" using 1(1) [OF refl refl False] dispatch_closing c(2) by blast
    then show ?thesis using False by (subst ip_read_loop.simps) (simp only: Let_def if_False)
  qed
qed

lemma step_closing: "closing_ok os p \<Longrightarrow> closing_ok os (ip_step os e p)"
proof (cases e)
  case (BytesArrive bs)
  assume "closing_ok os p"
  then show ?thesis using BytesArrive by (simp add: closing_ok_def)
next
  case InputReady
  assume "closing_ok os p"
  then show ?thesis using InputReady read_loop_closing disconnect_closing by (simp add: ip_handle_data_def Let_def)
next
  case (SendMessage m)
  assume "closing_ok os p"
  then show ?thesis using SendMessage write_closing send_event by (fastforce split: sum.splits)
qed (simp_all add: disconnect_closing ip_handle_disconnect_def ip_handle_write_error_def)

text \<open>What is fixed for the life of a proxy.\<close>

definition peer_of :: "ipc_proxy \<Rightarrow> EIpcClientType \<times> bool \<times> u64" where
  "peer_of p = (ip_expectedClientType p, ip_authenticatedPeer p, ip_connectionId p)"

lemma peer_of_fields [simp]:
  "peer_of (ip_event e p) = peer_of p" "peer_of (ip_disconnect p) = peer_of p" "peer_of (p\<lparr>ip_reader := rd\<rparr>) = peer_of p"
  "peer_of (p\<lparr>ip_input := i\<rparr>) = peer_of p" "peer_of (p\<lparr>ip_validations := n\<rparr>) = peer_of p" "peer_of (p\<lparr>ip_clientType := t\<rparr>) = peer_of p"
  by (simp_all add: peer_of_def ip_event_def ip_disconnect_def)

lemma dispatch_peer [simp]: "peer_of (ip_dispatch os p) = peer_of p"
proof (induction os p rule: ip_dispatch.induct)
  case (1 os p)
  obtain x rd where t: "fr_take (ip_reader p) = (x, rd)" by force
  obtain ok p1 where v: "ip_validate os (p\<lparr>ip_reader := rd\<rparr>) = (ok, p1)" by force
  then have p1: "peer_of p1 = peer_of p" using ip_validate_fields by fastforce
  have "peer_of (ip_dispatch os (ip_event (ProxyMessageReceived m) p2)) = peer_of p"
    if a: "\<not> fr_invalid (ip_reader p)" "x = Some m" "ok" "ip_authorize m p1 = Some p2" for m p2
    using 1 [OF a(1) t [symmetric] a(2) v [symmetric]] a(3,4) ip_authorize_fields [OF a(4)] p1 by auto
  then show ?case using t v p1 by (subst ip_dispatch.simps) (auto split: option.splits)
qed

lemma read_loop_peer [simp]: "peer_of (ip_read_loop os p) = peer_of p"
proof (induction os p rule: ip_read_loop.induct)
  case (1 os p)
  then show ?case by (subst ip_read_loop.simps) (simp add: Let_def)
qed

lemma step_peer: "peer_of (ip_step os e p) = peer_of p"
proof (cases e)
  case (SendMessage m)
  then show ?thesis using send_event by (fastforce split: sum.splits)
qed (simp_all add: ip_handle_data_def ip_handle_disconnect_def ip_handle_write_error_def Let_def)

lemma run_ok:
  assumes "proxy_ok p" "closing_ok os p"
  shows "proxy_ok (ip_run os steps p) \<and> closing_ok os (ip_run os steps p) \<and> peer_of (ip_run os steps p) = peer_of p"
  using assms
proof (induction steps arbitrary: p)
  case (Cons e steps)
  then have "proxy_ok (ip_step os e p)" "closing_ok os (ip_step os e p)" using step_ok step_closing by blast+
  from Cons.IH [OF this] show ?case using step_peer by (simp add: ip_run_def)
qed (simp add: ip_run_def)

lemma new_ok: "proxy_ok (IpcClientProxy_new t a)" "closing_ok os (IpcClientProxy_new t a)"
  by (simp_all add: IpcClientProxy_new_def proxy_ok_def closing_ok_def received_def reader_ok_def IpcFrameReader_new_def after_end_def)

text \<open>
  C5. Whatever bytes a local process sends to the daemon, in whatever blocks, and whatever else happens to the
  connection: the first message that is passed on is a greeting, as the kind of client that the process was authenticated
  as if it was, and every other one is a valid message that this kind of client may send, requests of the GUI and
  connection states of a node. For an authenticated process the identity was confirmed for each of them, and once the
  end of the connection was announced nothing more is passed on and the end is not announced again.
\<close>

theorem peer_sends_only_permitted:
  assumes "p = ip_run os steps (IpcClientProxy_new t a)"
  shows "(case received p of
      [] \<Rightarrow> True
    | m # ms \<Rightarrow> \<exists>k. k \<noteq> kIpcClientUnknown \<and> (t = kIpcClientUnknown \<or> t = k) \<and> m = IpcHelloMessage k \<and> (\<forall>x \<in> set ms. permitted k x)) \<and>
    (a \<longrightarrow> (\<forall>i < length (received p). os i)) \<and> (\<forall>e \<in> set (after_end (ip_trace p)). is_write e)"
proof -
  have r: "proxy_ok p" "closing_ok os p" "ip_expectedClientType p = t" "ip_authenticatedPeer p = a"
    using run_ok [OF new_ok(1) [of t a] new_ok(2) [of os t a], of steps] assms by (simp_all add: peer_of_def IpcClientProxy_new_def)
  then show ?thesis by (auto simp: proxy_ok_def closing_ok_def split: list.splits)
qed

definition misplaced_command :: "proxy_step list" where
  "misplaced_command = [BytesArrive (bytes_of ''IHEL'' @ [2] @ bytes_of ''IC''), InputReady,
     BytesArrive (bytes_of ''MD'' @ [0, 0, 0, 1, 97, 1]), InputReady]"

theorem peer_sends_only_permitted_witness:
  "list_all from_node (tl (received (ip_run (\<lambda>i. i < 2) misplaced_command (IpcClientProxy_new kIpcClientNode True)))) \<and>
   list_all is_write (after_end (ip_trace (ip_run (\<lambda>i. i < 2) misplaced_command (IpcClientProxy_new kIpcClientNode True)))) \<and>
   length (received (ip_run (\<lambda>i. i < 2) misplaced_command (IpcClientProxy_new kIpcClientNode True))) \<le> 2"
proof -
  let ?p = "ip_run (\<lambda>i. i < 2) misplaced_command (IpcClientProxy_new kIpcClientNode True)"
  note r = peer_sends_only_permitted [of ?p "\<lambda>i. i < 2" misplaced_command kIpcClientNode True, OF refl]
  have "\<forall>x \<in> set (tl (received ?p)). from_node x" using conjunct1 [OF r] by (auto simp: permitted_def split: list.splits)
  moreover have "length (received ?p) \<le> 2" using r by (metis linorder_not_less less_irrefl)
  ultimately show ?thesis using r by (simp add: list_all_iff)
qed

subsection \<open>What reaches the daemon\<close>

text \<open>What may come next in a state of the proxy: a greeting and then what is permitted.\<close>

definition conversation :: "EIpcClientType \<Rightarrow> EIpcClientType \<Rightarrow> ipc_message list \<Rightarrow> bool" where
  "conversation ex ct ms \<longleftrightarrow>
     (if ct \<noteq> kIpcClientUnknown then \<forall>x \<in> set ms. permitted ct x
      else case ms of
        [] \<Rightarrow> True
      | m # ms' \<Rightarrow> \<exists>k. k \<noteq> kIpcClientUnknown \<and> (ex = kIpcClientUnknown \<or> ex = k) \<and> m = IpcHelloMessage k \<and> (\<forall>x \<in> set ms'. permitted k x))"

lemma permitted_authorized: "permitted (ip_clientType p) m \<Longrightarrow> ip_authorize m p = Some p"
  by (cases m) (auto simp: permitted_def from_gui_def from_node_def ip_authorize_def split: if_splits)

lemma conversation_step:
  assumes "conversation (ip_expectedClientType p) (ip_clientType p) (m # ms)"
  shows "\<exists>ct. ip_authorize m p = Some (p\<lparr>ip_clientType := ct\<rparr>) \<and> conversation (ip_expectedClientType p) ct ms"
proof (cases "ip_clientType p = kIpcClientUnknown")
  case True
  then obtain k where "k \<noteq> kIpcClientUnknown" "ip_expectedClientType p = kIpcClientUnknown \<or> ip_expectedClientType p = k" "m = IpcHelloMessage k"
      "\<forall>x \<in> set ms. permitted k x" using assms by (auto simp: conversation_def)
  then show ?thesis using True by (intro exI [of _ k]) (auto simp: ip_authorize_def conversation_def)
next
  case False
  then have "permitted (ip_clientType p) m" "conversation (ip_expectedClientType p) (ip_clientType p) ms" using assms by (simp_all add: conversation_def)
  then show ?thesis using permitted_authorized by (intro exI [of _ "ip_clientType p"]) simp
qed

lemma conversation_append: "conversation ex ct (xs @ ys) \<Longrightarrow> conversation ex ct xs"
  by (auto simp: conversation_def split: list.splits if_splits)

text \<open>A reader that waits for the rest of a message has nothing to hand out.\<close>

lemma awaiting_take:
  assumes "awaits ms k r" "\<forall>m \<in> set ms. \<not> is_start m" "fr_ready r = []"
  shows "fr_take r = (None, r)"
proof (cases ms)
  case Nil
  then have "fr_buffer r = []" using assms(1) by (simp add: awaits_def)
  then show ?thesis using assms(3) by (simp add: fr_take_def takeBufferedFrame_def kCodeSize_def)
next
  case (Cons m ms')
  then have "fr_buffer r = take k (ipc_bytes m @ stream_of ms')" "sent_in (fr_direction r) m" "k < frame_size m" "\<not> is_start m"
    using assms(1,2) by (simp_all add: awaits_def)
  then show ?thesis using buffered_front [of r k m "stream_of ms'"] assms(3) by (simp add: fr_take_def)
qed

lemma awaits_ready [simp]: "awaits ms k (r\<lparr>fr_ready := x\<rparr>) = awaits ms k r"
  by (simp add: awaits_def)

lemma received_all: "received (p\<lparr>ip_trace := ip_trace p @ map ProxyMessageReceived ms\<rparr>) = received p @ ms"
  by (induction ms) (simp_all add: received_def comp_def)

text \<open>The proxy waits for the rest of a conversation.\<close>

definition serving :: "ipc_message list \<Rightarrow> nat \<Rightarrow> ipc_proxy \<Rightarrow> bool" where
  "serving ms k p \<longleftrightarrow> awaits ms k (ip_reader p) \<and> fr_ready (ip_reader p) = [] \<and> \<not> ip_disconnecting p \<and>
     conversation (ip_expectedClientType p) (ip_clientType p) ms"

lemma dispatch_serves:
  assumes "awaits ms k (ip_reader p)" "\<forall>m \<in> set ms. \<not> is_start m" "fr_ready (ip_reader p) = dn" "\<not> ip_disconnecting p"
    "conversation (ip_expectedClientType p) (ip_clientType p) (dn @ ms)" "\<forall>i. os i"
  shows "serving ms k (ip_dispatch os p) \<and> received (ip_dispatch os p) = received p @ dn \<and> ip_input (ip_dispatch os p) = ip_input p"
  using assms
proof (induction dn arbitrary: p)
  case Nil
  have i: "\<not> fr_invalid (ip_reader p)" using Nil.prems(1) by (simp add: awaits_def)
  have "fr_take (ip_reader p) = (None, ip_reader p)" using awaiting_take [OF Nil.prems(1-3)] .
  then have "ip_dispatch os p = p" using i by (subst ip_dispatch.simps) simp
  then show ?case using Nil.prems(1,3-5) by (simp add: serving_def)
next
  case (Cons m dn)
  let ?rd = "(ip_reader p)\<lparr>fr_ready := dn\<rparr>"
  have i: "\<not> fr_invalid (ip_reader p)" using Cons.prems(1) by (simp add: awaits_def)
  then have t: "fr_take (ip_reader p) = (Some m, ?rd)" using Cons.prems(3) by (simp add: fr_take_def)
  obtain ok p1 where v: "ip_validate os (p\<lparr>ip_reader := ?rd\<rparr>) = (ok, p1)" by force
  then have ok: "ok" using Cons.prems(6) by (auto simp: ip_validate_def split: if_splits)
  obtain n where p1: "p1 = p\<lparr>ip_reader := ?rd, ip_validations := n\<rparr>" using ip_validate_fields [OF v] by blast
  then obtain ct where a: "ip_authorize m p1 = Some (p1\<lparr>ip_clientType := ct\<rparr>)" "conversation (ip_expectedClientType p) ct (dn @ ms)"
    using conversation_step [of p1 m "dn @ ms"] Cons.prems(5) by auto
  let ?q = "ip_event (ProxyMessageReceived m) (p1\<lparr>ip_clientType := ct\<rparr>)"
  have d: "ip_dispatch os p = ip_dispatch os ?q" using i t v ok a(1) by (subst ip_dispatch.simps) simp
  have "serving ms k (ip_dispatch os ?q) \<and> received (ip_dispatch os ?q) = received ?q @ dn \<and> ip_input (ip_dispatch os ?q) = ip_input ?q"
    by (rule Cons.IH) (use Cons.prems a(2) p1 in simp_all)
  then show ?case unfolding d using p1 by simp
qed

definition served :: "ipc_message list \<Rightarrow> ipc_proxy \<Rightarrow> ipc_proxy \<Rightarrow> bytes \<Rightarrow> bool" where
  "served ms p q rest \<longleftrightarrow> (\<exists>dn ms' k'. ms = dn @ ms' \<and> serving ms' k' q \<and> received q = received p @ dn \<and> drop k' (stream_of ms') = rest \<and>
     ip_input q = [])"

lemma served_trans:
  assumes "ms = dn @ ms'" "received p' = received p @ dn" "served ms' p' q rest"
  shows "served ms p q rest"
  using assms unfolding served_def by (metis append.assoc)

lemma no_start_blocks: "\<forall>m \<in> set ms. \<not> is_start m \<Longrightarrow> good_blocks ms k bs"
  by (simp add: good_blocks_def)

lemma read_loop_serves:
  assumes "serving ms k p" "\<forall>m \<in> set ms. \<not> is_start m" "drop k (stream_of ms) = ip_input p @ rest" "\<forall>i. os i"
  shows "served ms p (ip_read_loop os p) rest"
  using assms
proof (induction os p arbitrary: ms k rule: ip_read_loop.induct)
  case (1 os p)
  let ?b = "take kIpcReadSize (ip_input p)" and ?p = "p\<lparr>ip_input := drop kIpcReadSize (ip_input p)\<rparr>"
  let ?q = "?p\<lparr>ip_reader := fr_append (Some ?b) (length ?b) (ip_reader p)\<rparr>"
  have s: "awaits ms k (ip_reader p)" "fr_ready (ip_reader p) = []" "\<not> ip_disconnecting p" "\<not> fr_invalid (ip_reader p)"
    "conversation (ip_expectedClientType p) (ip_clientType p) ms" using 1(2) by (auto simp: serving_def awaits_def)
  show ?case
  proof (cases "?b = []")
    case True
    then have "ip_input p = []" by (simp add: kIpcReadSize_def)
    moreover from this have "ip_read_loop os p = p" using True by (subst ip_read_loop.simps) (simp add: Let_def)
    ultimately show ?thesis unfolding served_def using 1(2,4) by (intro exI [of _ "[]"] exI [of _ ms] exI [of _ k]) simp
  next
    case False
    then have run: "\<not> (?b = [] \<or> fr_invalid (ip_reader p))" using s(4) by simp
    have d: "drop k (stream_of ms) = ?b @ drop kIpcReadSize (ip_input p) @ rest" using 1(4) by (simp flip: append.assoc)
    from block_moved [OF s(1) d no_start_blocks [OF 1(3)]] obtain dn ms' k' where m: "ms = dn @ ms'" "awaits ms' k' (ip_reader ?q)"
        "fr_ready (ip_reader ?q) = dn" "drop k' (stream_of ms') = drop kIpcReadSize (ip_input p) @ rest"
      unfolding moved_def using s(2) by auto
    have n: "\<forall>m \<in> set ms'. \<not> is_start m" using 1(3) m(1) by simp
    have q: "serving ms' k' (ip_dispatch os ?q)" "received (ip_dispatch os ?q) = received p @ dn"
      "ip_input (ip_dispatch os ?q) = drop kIpcReadSize (ip_input p)"
      using dispatch_serves [OF m(2) n m(3)] s(3,5) m(1) 1(5) by simp_all
    have "served ms' (ip_dispatch os ?q) (ip_read_loop os (ip_dispatch os ?q)) rest"
      by (rule 1(1) [OF refl refl run q(1) n]) (use m(4) q(3) 1(5) in simp_all)
    then have "served ms p (ip_read_loop os (ip_dispatch os ?q)) rest" using served_trans [OF m(1) q(2)] by blast
    then show ?thesis using run by (subst ip_read_loop.simps) (simp only: Let_def if_False)
  qed
qed

definition arrivals :: "bytes list \<Rightarrow> proxy_step list" where
  "arrivals blocks = concat (map (\<lambda>b. [BytesArrive b, InputReady]) blocks)"

lemma handle_data_serves:
  assumes "serving ms k p" "\<forall>m \<in> set ms. \<not> is_start m" "drop k (stream_of ms) = b @ rest" "\<forall>i. os i" "ip_input p = []"
  shows "served ms p (ip_handle_data os (p\<lparr>ip_input := b\<rparr>)) rest"
proof -
  have "serving ms k (p\<lparr>ip_input := b\<rparr>)" using assms(1) by (simp add: serving_def)
  then have s: "served ms p (ip_read_loop os (p\<lparr>ip_input := b\<rparr>)) rest"
    using read_loop_serves [of ms k "p\<lparr>ip_input := b\<rparr>" rest os] assms by (simp add: served_def)
  then have "\<not> fr_invalid (ip_reader (ip_read_loop os (p\<lparr>ip_input := b\<rparr>)))" by (auto simp: served_def serving_def awaits_def)
  then show ?thesis using s by (simp add: ip_handle_data_def)
qed

lemma arrivals_served:
  assumes "serving ms k p" "\<forall>m \<in> set ms. \<not> is_start m" "drop k (stream_of ms) = concat blocks" "\<forall>i. os i" "ip_input p = []"
  shows "served ms p (ip_run os (arrivals blocks) p) []"
  using assms
proof (induction blocks arbitrary: ms k p)
  case Nil
  then show ?case unfolding served_def by (intro exI [of _ "[]"] exI [of _ ms] exI [of _ k]) (simp add: ip_run_def arrivals_def)
next
  case (Cons b blocks)
  let ?q = "ip_handle_data os (p\<lparr>ip_input := b\<rparr>)"
  have r: "ip_run os (arrivals (b # blocks)) p = ip_run os (arrivals blocks) ?q"
    using Cons.prems(1,5) by (simp add: ip_run_def arrivals_def serving_def)
  have "served ms p ?q (concat blocks)" using handle_data_serves [OF Cons.prems(1,2) _ Cons.prems(4,5)] Cons.prems(3) by simp
  then obtain dn ms' k' where m: "ms = dn @ ms'" "serving ms' k' ?q" "received ?q = received p @ dn" "drop k' (stream_of ms') = concat blocks" "ip_input ?q = []"
    unfolding served_def by blast
  then have "served ms' ?q (ip_run os (arrivals blocks) ?q) []" using Cons.prems(2,4) by (intro Cons.IH) simp_all
  then show ?case unfolding r using served_trans [OF m(1,3)] by blast
qed

lemma all_taken: "awaits ms k r \<Longrightarrow> drop k (stream_of ms) = [] \<Longrightarrow> ms = []"
  by (cases ms) (simp_all add: awaits_def ipc_bytes_length)

lemma conversation_message_ok: "conversation ex kIpcClientUnknown ms \<Longrightarrow> \<forall>m \<in> set ms. message_ok m"
  by (auto simp: conversation_def permitted_def message_ok_def split: list.splits)

lemma outs_bytes:
  assumes "\<forall>m \<in> set ms. message_ok m" "map (proxy_send d) ms = map (\<lambda>out. Some (Inr out)) outs"
  shows "\<forall>m \<in> set ms. sent_in d m" "outs = map ipc_bytes ms"
proof -
  have l: "length ms = length outs" using arg_cong [OF assms(2), of length] by simp
  have "sent_in d (ms ! i) \<and> outs ! i = ipc_bytes (ms ! i)" if "i < length ms" for i
    using proxy_sent [of d "ms ! i" "outs ! i"] assms(1) arg_cong [OF assms(2), of "\<lambda>xs. xs ! i"] that l by (auto simp: message_ok_def)
  then show "\<forall>m \<in> set ms. sent_in d m" "outs = map ipc_bytes ms" using l by (auto simp: in_set_conv_nth list_eq_iff_nth_eq)
qed

text \<open>
  C37. A local process that greets the daemon as what it was authenticated as and then sends messages of its kind, no
  start request among them, is heard: cut into whatever blocks, the messages are passed on in the order in which they were
  written, and the daemon does not close the connection, as long as the operating system confirms the identity.
\<close>

theorem requests_reach_daemon:
  assumes "conversation t kIpcClientUnknown ms" "\<forall>m \<in> set ms. \<not> is_start m"
    and "map IpcServerProxy_send ms = map (\<lambda>out. Some (Inr out)) outs" "concat blocks = concat outs" "\<forall>i. os i"
  shows "received (ip_run os (arrivals blocks) (IpcClientProxy_new t a)) = ms \<and>
    \<not> ip_disconnecting (ip_run os (arrivals blocks) (IpcClientProxy_new t a))"
proof -
  let ?p = "IpcClientProxy_new t a"
  have "map (proxy_send ClientToServer) ms = map (\<lambda>out. Some (Inr out)) outs" using assms(3) by (simp add: proxy_send_def cong: map_cong)
  then have o: "\<forall>m \<in> set ms. sent_in ClientToServer m" "outs = map ipc_bytes ms" using outs_bytes conversation_message_ok [OF assms(1)] by blast+
  then have "serving ms 0 ?p" using assms(1) new_awaits by (simp add: serving_def IpcClientProxy_new_def) (simp add: IpcFrameReader_new_def)
  then have "served ms ?p (ip_run os (arrivals blocks) ?p) []"
    using arrivals_served [of ms 0 ?p blocks os] assms(2,4,5) o(2) by (simp add: IpcClientProxy_new_def)
  then obtain dn ms' k' where "ms = dn @ ms'" "serving ms' k' (ip_run os (arrivals blocks) ?p)" "drop k' (stream_of ms') = []"
      "received (ip_run os (arrivals blocks) ?p) = received ?p @ dn" unfolding served_def by blast
  moreover from this have "ms' = []" using all_taken by (auto simp: serving_def)
  ultimately show ?thesis by (simp add: serving_def IpcClientProxy_new_def received_def)
qed

theorem requests_reach_daemon_witness:
  "received (ip_run (\<lambda>_. True) (arrivals [bytes_of ''IHE'', bytes_of ''L'' @ [1] @ bytes_of ''ICM'', bytes_of ''D'' @ [0, 0, 0], [1, 97], [1]])
     (IpcClientProxy_new kIpcClientGui True)) = [IpcHelloMessage kIpcClientGui, IpcCommandMessage [97] True]"
proof -
  let ?ms = "[IpcHelloMessage kIpcClientGui, IpcCommandMessage [97] True]"
  have "map IpcServerProxy_send ?ms = map (\<lambda>out. Some (Inr out)) [bytes_of ''IHEL'' @ [1], bytes_of ''ICMD'' @ [0, 0, 0, 1, 97, 1]]"
    by (simp add: ipc_write wire_codec byte_of_low)
  from requests_reach_daemon [OF _ _ this] show ?thesis
    by (simp add: conversation_def permitted_def from_gui_def message_ok_def is_start_def)
qed

subsection \<open>The other end\<close>

record ipc_server_end =
  sp_input :: bytes
  sp_reader :: frame_reader
  sp_received :: "ipc_message list"
  sp_closes :: nat

definition IpcServerProxy_new :: ipc_server_end where
  "IpcServerProxy_new = \<lparr>sp_input = [], sp_reader = IpcFrameReader_new ServerToClient, sp_received = [], sp_closes = 0\<rparr>"

function sp_read_loop :: "ipc_server_end \<Rightarrow> ipc_server_end" where
  "sp_read_loop p =
     (let input = take kIpcReadSize (sp_input p); p1 = p\<lparr>sp_input := drop kIpcReadSize (sp_input p)\<rparr>
      in if input = [] then p1 else sp_read_loop (p1\<lparr>sp_reader := fr_append (Some input) (length input) (sp_reader p)\<rparr>))"
  by pat_completeness auto
termination
  by (relation "measure (\<lambda>p. length (sp_input p))") (auto simp: kIpcReadSize_def)

declare sp_read_loop.simps [simp del]

text \<open>The kinds of messages that are passed on; another one is dropped.\<close>

definition sp_passes :: "ipc_message \<Rightarrow> bool" where
  "sp_passes m \<longleftrightarrow> (case m of IpcLogLineMessage _ \<Rightarrow> True | IpcShutdownMessage \<Rightarrow> True | IpcConnectionStateMessage _ \<Rightarrow> True
     | IpcCommandAppliedMessage _ \<Rightarrow> True | IpcRuntimeStatusResponseMessage _ _ _ _ \<Rightarrow> True | _ \<Rightarrow> False)"

function sp_dispatch :: "ipc_server_end \<Rightarrow> ipc_server_end" where
  "sp_dispatch p =
     (if fr_invalid (sp_reader p) then p
      else case fr_take (sp_reader p) of
        (None, rd) \<Rightarrow> p\<lparr>sp_reader := rd\<rparr>
      | (Some m, rd) \<Rightarrow>
          sp_dispatch (p\<lparr>sp_reader := rd, sp_received := sp_received p @ (if sp_passes m then [m] else [])\<rparr>))"
  by pat_completeness auto
termination
  by (relation "measure (\<lambda>p. length (fr_ready (sp_reader p)) + length (fr_buffer (sp_reader p)))") (auto dest!: take_shorter [OF sym])

declare sp_dispatch.simps [simp del]

definition sp_disconnect :: "ipc_server_end \<Rightarrow> ipc_server_end" where
  "sp_disconnect p = p\<lparr>sp_input := [], sp_closes := Suc (sp_closes p)\<rparr>"

definition sp_handle_data :: "ipc_server_end \<Rightarrow> ipc_server_end" where
  "sp_handle_data p = (let p = sp_dispatch (sp_read_loop p) in if fr_invalid (sp_reader p) then sp_disconnect p else p)"

definition sp_arrive :: "bytes \<Rightarrow> ipc_server_end \<Rightarrow> ipc_server_end" where
  "sp_arrive bs p = sp_handle_data (p\<lparr>sp_input := sp_input p @ bs\<rparr>)"

lemma sp_read_moved:
  assumes "awaits ms k (sp_reader p)" "\<forall>m \<in> set ms. \<not> is_start m" "drop k (stream_of ms) = sp_input p @ rest"
  shows "moved ms (sp_reader p) (sp_reader (sp_read_loop p)) rest \<and> sp_read_loop p = p\<lparr>sp_input := [], sp_reader := sp_reader (sp_read_loop p)\<rparr>"
  using assms
proof (induction p arbitrary: ms k rule: sp_read_loop.induct)
  case (1 p)
  let ?b = "take kIpcReadSize (sp_input p)" and ?i = "drop kIpcReadSize (sp_input p)"
  let ?q = "p\<lparr>sp_input := ?i, sp_reader := fr_append (Some ?b) (length ?b) (sp_reader p)\<rparr>"
  show ?case
  proof (cases "?b = []")
    case True
    then have "sp_input p = []" by (simp add: kIpcReadSize_def)
    moreover from this have "sp_read_loop p = p" by (subst sp_read_loop.simps) (simp add: Let_def)
    ultimately show ?thesis using stay_moved [OF 1(2)] 1(4) by simp
  next
    case False
    then have r: "sp_read_loop p = sp_read_loop ?q" by (subst sp_read_loop.simps) (simp only: Let_def if_False)
    have d: "drop k (stream_of ms) = ?b @ ?i @ rest" using 1(4) by (simp flip: append.assoc)
    have m: "moved ms (sp_reader p) (sp_reader ?q) (?i @ rest)" using block_moved [OF 1(2) d no_start_blocks [OF 1(3)]] by simp
    have step: "moved ms' (sp_reader ?q) (sp_reader (sp_read_loop ?q)) rest \<and> sp_read_loop ?q = ?q\<lparr>sp_input := [], sp_reader := sp_reader (sp_read_loop ?q)\<rparr>"
      if "set ms' \<subseteq> set ms" "awaits ms' k' (sp_reader ?q)" "drop k' (stream_of ms') = ?i @ rest" for ms' k'
      by (rule 1(1) [OF refl refl False that(2)]) (use that 1(3) in auto)
    have "moved ms (sp_reader p) (sp_reader (sp_read_loop ?q)) rest" by (rule moved_trans [OF m]) (use step in blast)
    moreover have "sp_read_loop ?q = ?q\<lparr>sp_input := [], sp_reader := sp_reader (sp_read_loop ?q)\<rparr>"
      using m step unfolding moved_def by fastforce
    ultimately show ?thesis unfolding r by simp
  qed
qed

lemma sp_dispatch_all:
  assumes "awaits ms k (sp_reader p)" "\<forall>m \<in> set ms. \<not> is_start m" "\<forall>m \<in> set dn. sp_passes m" "fr_ready (sp_reader p) = dn"
  shows "sp_dispatch p = p\<lparr>sp_reader := (sp_reader p)\<lparr>fr_ready := []\<rparr>, sp_received := sp_received p @ dn\<rparr>"
  using assms
proof (induction dn arbitrary: p)
  case Nil
  have "\<not> fr_invalid (sp_reader p)" using Nil.prems(1) by (simp add: awaits_def)
  then show ?case using awaiting_take [OF Nil.prems(1,2,4)] Nil.prems(4) by (subst sp_dispatch.simps) simp
next
  case (Cons m dn)
  let ?q = "p\<lparr>sp_reader := (sp_reader p)\<lparr>fr_ready := dn\<rparr>, sp_received := sp_received p @ [m]\<rparr>"
  have i: "\<not> fr_invalid (sp_reader p)" using Cons.prems(1) by (simp add: awaits_def)
  have "sp_dispatch p = sp_dispatch ?q" using i Cons.prems(3,4) by (subst sp_dispatch.simps) (simp add: fr_take_def)
  moreover have "sp_dispatch ?q = ?q\<lparr>sp_reader := (sp_reader ?q)\<lparr>fr_ready := []\<rparr>, sp_received := sp_received ?q @ dn\<rparr>"
    by (rule Cons.IH) (use Cons.prems in simp_all)
  ultimately show ?case by simp
qed

lemma daemon_message_passes: "sent_in ServerToClient m \<Longrightarrow> sp_passes m \<and> \<not> is_start m"
  by (cases m) (simp_all add: sent_in_def sent_by_daemon_def sp_passes_def is_start_def)

lemma sp_arrivals:
  assumes "awaits ms k (sp_reader p)" "fr_direction (sp_reader p) = ServerToClient" "fr_ready (sp_reader p) = []" "sp_input p = []"
    and "drop k (stream_of ms) = concat blocks"
  shows "sp_received (fold sp_arrive blocks p) = sp_received p @ ms \<and> sp_closes (fold sp_arrive blocks p) = sp_closes p"
  using assms
proof (induction blocks arbitrary: ms k p)
  case Nil
  then show ?case using all_taken by auto
next
  case (Cons b blocks)
  let ?p = "p\<lparr>sp_input := b\<rparr>"
  have kinds: "\<forall>m \<in> set ms. \<not> is_start m" "\<forall>m \<in> set ms. sp_passes m" using Cons.prems(1,2) daemon_message_passes by (auto simp: awaits_def)
  from sp_read_moved [of ms k ?p "concat blocks"] kinds(1) Cons.prems(1,5)
  have r: "moved ms (sp_reader p) (sp_reader (sp_read_loop ?p)) (concat blocks)"
    "sp_read_loop ?p = p\<lparr>sp_input := [], sp_reader := sp_reader (sp_read_loop ?p)\<rparr>" by simp_all
  define rd where "rd = sp_reader (sp_read_loop ?p)"
  from r(1) obtain dn ms' k' where m: "ms = dn @ ms'" "awaits ms' k' rd" "fr_ready rd = dn" "drop k' (stream_of ms') = concat blocks"
      "fr_direction rd = ServerToClient" using Cons.prems(2,3) unfolding moved_def rd_def by auto
  let ?q = "p\<lparr>sp_input := [], sp_reader := rd\<lparr>fr_ready := []\<rparr>, sp_received := sp_received p @ dn\<rparr>"
  have "sp_dispatch (p\<lparr>sp_input := [], sp_reader := rd\<rparr>) = ?q" using sp_dispatch_all [of ms' k' "p\<lparr>sp_input := [], sp_reader := rd\<rparr>" dn] m kinds by simp
  then have "sp_dispatch (sp_read_loop ?p) = ?q" using r(2) unfolding rd_def by simp
  moreover have "\<not> fr_invalid rd" using m(2) by (simp add: awaits_def)
  ultimately have "sp_arrive b p = ?q" using Cons.prems(4) by (simp add: sp_arrive_def sp_handle_data_def)
  moreover have "sp_received (fold sp_arrive blocks ?q) = sp_received ?q @ ms' \<and> sp_closes (fold sp_arrive blocks ?q) = sp_closes ?q"
    by (rule Cons.IH [of ms' k']) (use m in simp_all)
  ultimately show ?case using m(1) by simp
qed

text \<open>
  C38. What the daemon writes to a local process is passed on there, all of it and in order, in whatever blocks it
  arrives, and the stream is not closed.
\<close>

theorem daemon_messages_reach:
  assumes "\<forall>m \<in> set ms. ipc_valid m" "map IpcClientProxy_send ms = map (\<lambda>out. Some (Inr out)) outs" "concat blocks = concat outs"
  shows "sp_received (fold sp_arrive blocks IpcServerProxy_new) = ms \<and> sp_closes (fold sp_arrive blocks IpcServerProxy_new) = 0"
proof -
  have "IpcClientProxy_send m \<noteq> None" if "m \<in> set ms" for m
    using that assms(2) by (metis (no_types, lifting) in_set_conv_nth length_map nth_map option.distinct(1))
  then have "\<forall>m \<in> set ms. message_ok m" using assms(1) by (fastforce simp: message_ok_def)
  moreover have "map (proxy_send ServerToClient) ms = map (\<lambda>out. Some (Inr out)) outs" using assms(2) by (simp add: proxy_send_def cong: map_cong)
  ultimately have o: "\<forall>m \<in> set ms. sent_in ServerToClient m" "outs = map ipc_bytes ms" using outs_bytes by blast+
  then have "awaits ms 0 (sp_reader IpcServerProxy_new)" using new_awaits by (simp add: IpcServerProxy_new_def)
  then show ?thesis using sp_arrivals [of ms 0 IpcServerProxy_new blocks] assms(3) o(2)
    by (simp add: IpcServerProxy_new_def) (simp add: IpcFrameReader_new_def)
qed

theorem daemon_messages_reach_witness:
  "sp_received (fold sp_arrive [bytes_of ''ILOG'' @ [0, 0], [0, 1, 97] @ bytes_of ''I'', bytes_of ''SDN''] IpcServerProxy_new) =
     [IpcLogLineMessage [97], IpcShutdownMessage]"
proof -
  let ?ms = "[IpcLogLineMessage [97], IpcShutdownMessage]"
  have "map IpcClientProxy_send ?ms = map (\<lambda>out. Some (Inr out)) [bytes_of ''ILOG'' @ [0, 0, 0, 1, 97], bytes_of ''ISDN'']"
    by (simp add: ipc_write wire_codec byte_of_low)
  from daemon_messages_reach [OF _ this, of "[bytes_of ''ILOG'' @ [0, 0], [0, 1, 97] @ bytes_of ''I'', bytes_of ''SDN'']"] show ?thesis by simp
qed

end
