(* ===== verification/IpcStore.thy ===== *)
theory IpcStore
  imports IpcMessages StdMap "HOL-Library.List_Lexorder"
begin

text \<open>
  The daemon's record of connection states, \<^verbatim>\<open>src/lib/ipc/IpcConnectionStateStore.cpp\<close>: the last state of each peer
  that the active node reported, and what has to be passed on to the GUI. A message that exists passed the checks of
  its constructor. A GUI that keeps the last state it was told of each peer agrees with the store.
\<close>

subsection \<open>The store\<close>

record relay =
  rl_recipient :: EIpcClientType
  rl_message :: connection_state

record state_store =
  st_snapshot :: "(bytes \<times> connection_state) list"
  st_activeNodeConnectionId :: "u64 option"

definition IpcConnectionStateStore_new :: state_store where
  "IpcConnectionStateStore_new = \<lparr>st_snapshot = [], st_activeNodeConnectionId = None\<rparr>"

text \<open>Both numbers have one digit.\<close>

definition st_key :: "connection_state \<Rightarrow> bytes" where
  "st_key s = [48 + of_nat (role_code (cs_role s)), 58, 48 + of_nat (presence_code (cs_identityPresence s)), 58] @ cs_technicalName s"

abbreviation to_gui :: "connection_state \<Rightarrow> relay" where
  "to_gui s \<equiv> \<lparr>rl_recipient = kIpcClientGui, rl_message = s\<rparr>"

definition insert_or_assign :: "bytes \<Rightarrow> connection_state \<Rightarrow> (bytes \<times> connection_state) list \<Rightarrow> (bytes \<times> connection_state) list" where
  "insert_or_assign k s m = sm_update (<) k (\<lambda>_. s) (sm_insert (<) k s m)"

definition st_receive :: "EIpcClientType \<Rightarrow> u64 \<Rightarrow> connection_state \<Rightarrow> state_store \<Rightarrow> relay list \<times> state_store" where
  "st_receive sender connectionId s st =
     (if sender \<noteq> kIpcClientNode then ([], st)
      else if st_activeNodeConnectionId st \<noteq> Some connectionId then ([], st)
      else ([to_gui s], st\<lparr>st_snapshot := insert_or_assign (st_key s) s (st_snapshot st)\<rparr>))"

definition st_clientConnected :: "EIpcClientType \<Rightarrow> u64 \<Rightarrow> state_store \<Rightarrow> relay list \<times> state_store" where
  "st_clientConnected t connectionId st =
     (if t = kIpcClientNode then ([], st\<lparr>st_activeNodeConnectionId := Some connectionId\<rparr>)
      else if t = kIpcClientGui then (map (\<lambda>(k, s). to_gui s) (st_snapshot st), st)
      else ([], st))"

definition closed_text :: bytes where
  "closed_text = bytes_of ''node IPC connection closed''"

definition st_close :: "connection_state \<Rightarrow> connection_state" where
  "st_close s = (if cs_state s = StateConnected then s\<lparr>cs_state := StateDisconnected, cs_detail := closed_text\<rparr> else s)"

definition st_clientDisconnected :: "EIpcClientType \<Rightarrow> u64 \<Rightarrow> state_store \<Rightarrow> relay list \<times> state_store" where
  "st_clientDisconnected t connectionId st =
     (if t \<noteq> kIpcClientNode \<or> st_activeNodeConnectionId st \<noteq> Some connectionId then ([], st)
      else (map (\<lambda>(k, s). to_gui (st_close s)) (filter (\<lambda>(k, s). cs_state s = StateConnected) (st_snapshot st)),
            \<lparr>st_snapshot = map (\<lambda>(k, s). (k, st_close s)) (st_snapshot st), st_activeNodeConnectionId = None\<rparr>))"

text \<open>The overloads without a connection.\<close>

definition st_receive0 :: "EIpcClientType \<Rightarrow> connection_state \<Rightarrow> state_store \<Rightarrow> relay list \<times> state_store" where
  "st_receive0 sender s st =
     (let st = (if sender = kIpcClientNode \<and> st_activeNodeConnectionId st = None then snd (st_clientConnected sender 0 st) else st)
      in st_receive sender 0 s st)"

definition st_clientConnected0 :: "EIpcClientType \<Rightarrow> state_store \<Rightarrow> relay list \<times> state_store" where
  "st_clientConnected0 t st = st_clientConnected t 0 st"

definition st_clientDisconnected0 :: "EIpcClientType \<Rightarrow> state_store \<Rightarrow> relay list \<times> state_store" where
  "st_clientDisconnected0 t st = st_clientDisconnected t 0 st"

subsection \<open>Runs\<close>

datatype store_call =
    Receive EIpcClientType u64 connection_state
  | ClientConnected EIpcClientType u64
  | ClientDisconnected EIpcClientType u64
  | Receive0 EIpcClientType connection_state
  | ClientConnected0 EIpcClientType
  | ClientDisconnected0 EIpcClientType

fun st_call :: "store_call \<Rightarrow> state_store \<Rightarrow> relay list \<times> state_store" where
  "st_call (Receive t c s) st = st_receive t c s st"
| "st_call (ClientConnected t c) st = st_clientConnected t c st"
| "st_call (ClientDisconnected t c) st = st_clientDisconnected t c st"
| "st_call (Receive0 t s) st = st_receive0 t s st"
| "st_call (ClientConnected0 t) st = st_clientConnected0 t st"
| "st_call (ClientDisconnected0 t) st = st_clientDisconnected0 t st"

fun st_run :: "store_call list \<Rightarrow> state_store \<Rightarrow> relay list \<times> state_store" where
  "st_run [] st = ([], st)"
| "st_run (c # cs) st = (case st_call c st of (out, st') \<Rightarrow> case st_run cs st' of (outs, st'') \<Rightarrow> (out @ outs, st''))"

subsection \<open>What a GUI knows\<close>

type_synonym peer_id = "IpcConnectionRole \<times> IpcIdentityPresence \<times> bytes"

definition peer_id_of :: "connection_state \<Rightarrow> peer_id" where
  "peer_id_of s = (cs_role s, cs_identityPresence s, cs_technicalName s)"

definition gui_hears :: "relay \<Rightarrow> (peer_id \<rightharpoonup> connection_state) \<Rightarrow> (peer_id \<rightharpoonup> connection_state)" where
  "gui_hears r g = (if rl_recipient r = kIpcClientGui then g(peer_id_of (rl_message r) \<mapsto> rl_message r) else g)"

definition known :: "state_store \<Rightarrow> (peer_id \<rightharpoonup> connection_state)" where
  "known st = map_of (map (\<lambda>(k, s). (peer_id_of s, s)) (st_snapshot st))"

definition store_ok :: "state_store \<Rightarrow> bool" where
  "store_ok st \<longleftrightarrow> sm_wf (<) (st_snapshot st) \<and> (\<forall>(k, s) \<in> set (st_snapshot st). k = st_key s)"

interpretation bk: strict_weak_order "(<) :: bytes \<Rightarrow> bytes \<Rightarrow> bool"
  by unfold_locales auto

lemma byte_keys_equiv [simp]: "sm_equiv (<) (a :: bytes) b \<longleftrightarrow> a = b"
  by (auto simp: sm_equiv_def)

lemma key_inj: "st_key s = st_key s' \<longleftrightarrow> peer_id_of s = peer_id_of s'"
proof -
  have "(48 + of_nat (role_code r) :: byte) = 48 + of_nat (role_code r') \<longleftrightarrow> r = r'" for r r' by (cases r; cases r') simp_all
  moreover have "(48 + of_nat (presence_code r) :: byte) = 48 + of_nat (presence_code r') \<longleftrightarrow> r = r'" for r r' by (cases r; cases r') simp_all
  ultimately show ?thesis by (auto simp: st_key_def peer_id_of_def)
qed

lemma assign_find:
  assumes "sm_wf (<) m"
  shows "sm_wf (<) (insert_or_assign k s m)" "sm_find (<) i (insert_or_assign k s m) = (if i = k then Some (k, s) else sm_find (<) i m)"
proof -
  show "sm_wf (<) (insert_or_assign k s m)" using assms bk.wf_insert by (simp add: insert_or_assign_def)
  have "sm_find (<) k m = Some (j, v) \<Longrightarrow> j = k" for j v using sm_find_member by fastforce
  then show "sm_find (<) i (insert_or_assign k s m) = (if i = k then Some (k, s) else sm_find (<) i m)"
    unfolding insert_or_assign_def bk.find_update bk.find_insert [OF assms] by (auto split: option.splits)
qed

lemma find_map_of: "sm_find (<) (k :: bytes) m = map_option (\<lambda>v. (k, v)) (map_of m k)"
  by (induction m) auto

lemma assign_map_of: "sm_wf (<) m \<Longrightarrow> map_of (insert_or_assign k s m) = (map_of m)(k \<mapsto> s)"
proof
  fix i
  assume "sm_wf (<) m"
  from assign_find(2) [OF this, of i k s] show "map_of (insert_or_assign k s m) i = ((map_of m)(k \<mapsto> s)) i"
    by (cases "map_of m i"; cases "map_of (insert_or_assign k s m) i") (auto simp: find_map_of split: if_splits)
qed

text \<open>The key of a peer.\<close>

definition key_of :: "peer_id \<Rightarrow> bytes" where
  "key_of i = st_key \<lparr>cs_state = StateAvailable, cs_role = fst i, cs_identityPresence = fst (snd i), cs_technicalName = snd (snd i), cs_detail = []\<rparr>"

lemma key_of_peer [simp]: "key_of (peer_id_of s) = st_key s"
  by (simp add: key_of_def key_inj) (simp add: peer_id_of_def)

lemma key_of_inj [simp]: "key_of i = key_of j \<longleftrightarrow> i = j"
  by (cases i; cases j) (simp add: key_of_def key_inj, simp add: peer_id_of_def)

lemma known_at: "store_ok st \<Longrightarrow> known st i = map_of (st_snapshot st) (key_of i)"
proof -
  have "\<forall>(k, s) \<in> set m. k = st_key s \<Longrightarrow> map_of (map (\<lambda>(k, s). (peer_id_of s, s)) m) i = map_of m (key_of i)" for m
  proof (induction m)
    case (Cons e m)
    obtain k s where e: "e = (k, s)" by force
    then have "k = key_of (peer_id_of s)" using Cons.prems by simp
    then have "(k = key_of i) = (peer_id_of s = i)" by (simp only: key_of_inj)
    then show ?case using Cons e by auto
  qed simp
  then show "store_ok st \<Longrightarrow> known st i = map_of (st_snapshot st) (key_of i)" by (simp add: known_def store_ok_def)
qed

lemma hears_gui [simp]: "gui_hears (to_gui s) g = g(peer_id_of s \<mapsto> s)"
  by (simp add: gui_hears_def)

lemma receive_known:
  assumes "store_ok st" "st_receive t c s st = (out, st')"
  shows "store_ok st' \<and> known st' = fold gui_hears out (known st)"
proof (cases "out = []")
  case True
  then show ?thesis using assms by (auto simp: st_receive_def split: if_splits)
next
  case False
  then have o: "out = [to_gui s]" "st' = st\<lparr>st_snapshot := insert_or_assign (st_key s) s (st_snapshot st)\<rparr>"
    using assms(2) by (auto simp: st_receive_def split: if_splits)
  have w: "sm_wf (<) (st_snapshot st)" "\<forall>(k, s) \<in> set (st_snapshot st). k = st_key s" using assms(1) by (simp_all add: store_ok_def)
  have m: "map_of (st_snapshot st') = (map_of (st_snapshot st))(st_key s \<mapsto> s)" using assign_map_of [OF w(1)] o(2) by simp
  have wf: "sm_wf (<) (st_snapshot st')" using assign_find(1) [OF w(1)] o(2) by simp
  have "k = st_key v" if "(k, v) \<in> set (st_snapshot st')" for k v
  proof -
    have "sm_find (<) k (st_snapshot st') = Some (k, v)" using bk.find_member [OF wf that] by simp
    then have "map_of (st_snapshot st') k = Some v" by (auto simp: find_map_of)
    then show ?thesis using m w(2) by (auto split: if_splits dest: map_of_SomeD)
  qed
  then have ok: "store_ok st'" using wf by (auto simp: store_ok_def)
  have "known st' i = ((known st)(peer_id_of s \<mapsto> s)) i" for i
    using known_at [OF ok, of i] known_at [OF assms(1), of i] m key_of_inj [of i "peer_id_of s"] by (simp only: key_of_peer fun_upd_apply)
  then show ?thesis using ok o(1) by auto
qed

lemma fold_hears:
  assumes "distinct (map peer_id_of ss)"
  shows "fold gui_hears (map to_gui ss) g = g ++ map_of (map (\<lambda>s. (peer_id_of s, s)) ss)"
  using assms
proof (induction ss arbitrary: g)
  case (Cons s ss)
  then have "peer_id_of s \<notin> dom (map_of (map (\<lambda>s. (peer_id_of s, s)) ss))" by (auto simp: dom_map_of_conv_image_fst)
  then have "g(peer_id_of s \<mapsto> s) ++ map_of (map (\<lambda>s. (peer_id_of s, s)) ss) = g ++ (map_of (map (\<lambda>s. (peer_id_of s, s)) ss))(peer_id_of s \<mapsto> s)"
    by (auto simp: map_add_def fun_eq_iff split: option.splits)
  moreover have "fold gui_hears (map to_gui (s # ss)) g = g(peer_id_of s \<mapsto> s) ++ map_of (map (\<lambda>s. (peer_id_of s, s)) ss)" using Cons by simp
  ultimately show ?case by (simp only: list.map map_of.simps fst_conv snd_conv)
qed simp

lemma snapshot_distinct:
  assumes "store_ok st"
  shows "distinct (map peer_id_of (map snd (filter P (st_snapshot st))))"
proof -
  have "sm_wf (<) m \<Longrightarrow> \<forall>(k, s) \<in> set m. k = st_key s \<Longrightarrow> distinct (map peer_id_of (map snd m))" for m
  proof (induction m)
    case (Cons e m)
    obtain k s where e: "e = (k, s)" by force
    then have "st_key s \<noteq> st_key v" if "(j, v) \<in> set m" for j v using Cons.prems that by force
    then show ?case using Cons e by (force simp: key_inj)
  qed simp
  then show ?thesis using assms sm_wf_filter [of "(<)" "st_snapshot st" P] by (simp add: store_ok_def)
qed

lemma connected_known:
  assumes "store_ok st" "st_clientConnected t c st = (out, st')"
  shows "store_ok st' \<and> known st' = fold gui_hears out (known st) \<and> (t = kIpcClientGui \<longrightarrow> known st' = fold gui_hears out Map.empty)"
proof (cases "t = kIpcClientGui")
  case True
  then have o: "out = map to_gui (map snd (st_snapshot st))" "st' = st" using assms(2) by (auto simp: st_clientConnected_def)
  have m: "map_of (map (\<lambda>s. (peer_id_of s, s)) (map snd (st_snapshot st))) = known st" by (simp add: known_def comp_def split_def)
  have "distinct (map peer_id_of (map snd (st_snapshot st)))" using snapshot_distinct [OF assms(1), of "\<lambda>_. True"] by simp
  from fold_hears [OF this] show ?thesis unfolding o m using assms(1) by (simp add: map_add_def fun_eq_iff split: option.splits)
next
  case False
  then show ?thesis using assms by (auto simp: st_clientConnected_def store_ok_def known_def split: if_splits)
qed

lemma close_peer [simp]: "peer_id_of (st_close s) = peer_id_of s" "st_key (st_close s) = st_key s"
  by (simp_all add: st_close_def peer_id_of_def st_key_def)

lemma closed_relays:
  assumes "distinct (map peer_id_of (map snd m))"
  shows "map_of (map (\<lambda>s. (peer_id_of s, s)) (map st_close (map snd (filter (\<lambda>(k, s). cs_state s = StateConnected) m)))) i =
    (case map_of (map (\<lambda>(k, s). (peer_id_of s, s)) m) i of
       None \<Rightarrow> None | Some s \<Rightarrow> if cs_state s = StateConnected then Some (st_close s) else None)"
  using assms
proof (induction m)
  case (Cons e m)
  obtain k s where e: "e = (k, s)" by force
  have "map_of (map (\<lambda>(k, s). (peer_id_of s, s)) m) (peer_id_of s) = None"
    using Cons.prems e by (force simp: map_of_eq_None_iff)
  then show ?case using Cons e by (cases "i = peer_id_of s") auto
qed simp

lemma disconnected_known:
  assumes "store_ok st" "st_clientDisconnected t c st = (out, st')"
  shows "store_ok st' \<and> known st' = fold gui_hears out (known st)"
proof (cases "t \<noteq> kIpcClientNode \<or> st_activeNodeConnectionId st \<noteq> Some c")
  case True
  then show ?thesis using assms by (simp add: st_clientDisconnected_def)
next
  case False
  let ?on = "\<lambda>(k :: bytes, s). cs_state s = StateConnected"
  let ?ss = "map st_close (map snd (filter ?on (st_snapshot st)))"
  have o: "out = map to_gui ?ss" "st_snapshot st' = map (\<lambda>(k, s). (k, st_close s)) (st_snapshot st)"
    using assms(2) False by (auto simp: st_clientDisconnected_def)
  have "map fst (st_snapshot st') = map fst (st_snapshot st)" using o(2) by auto
  then have ok: "store_ok st'" using assms(1) sm_wf_keys [of "st_snapshot st'" "st_snapshot st" "(<)"] o(2) by (auto simp: store_ok_def)
  have d: "distinct (map peer_id_of ?ss)" using snapshot_distinct [OF assms(1), of ?on] by (simp add: comp_def)
  have k: "known st' i = map_option st_close (known st i)" for i
  proof -
    have "map_of (map (\<lambda>(k, s). (k, st_close s)) m) j = map_option st_close (map_of m j)" for m :: "(bytes \<times> connection_state) list" and j
      by (induction m) auto
    then show ?thesis using known_at [OF ok, of i] known_at [OF assms(1), of i] o(2) by simp
  qed
  have "(known st ++ map_of (map (\<lambda>s. (peer_id_of s, s)) ?ss)) i = map_option st_close (known st i)" for i
    using closed_relays [of "st_snapshot st" i] snapshot_distinct [OF assms(1), of "\<lambda>_. True"]
    by (auto simp: known_def map_add_def st_close_def split: option.splits)
  then show ?thesis using ok fold_hears [OF d] k o(1) by auto
qed

lemma call_known:
  assumes "store_ok st" "st_call c st = (out, st')"
  shows "store_ok st' \<and> known st' = fold gui_hears out (known st)"
proof (cases c)
  case (Receive0 t s)
  show ?thesis
  proof (cases "t = kIpcClientNode \<and> st_activeNodeConnectionId st = None")
    case True
    obtain o2 st2 where c: "st_clientConnected t 0 st = (o2, st2)" by force
    then have "o2 = []" using True by (simp add: st_clientConnected_def)
    then have 2: "store_ok st2" "known st2 = known st" using connected_known [OF assms(1) c] by simp_all
    have "st_receive t 0 s st2 = (out, st')" using assms(2) Receive0 True c by (simp add: st_receive0_def)
    from receive_known [OF 2(1) this] show ?thesis unfolding 2(2) .
  next
    case False
    then have "st_receive t 0 s st = (out, st')" using assms(2) Receive0 by (simp only: st_call.simps st_receive0_def Let_def if_False)
    from receive_known [OF assms(1) this] show ?thesis .
  qed
next
  case (Receive t i s)
  then show ?thesis using assms(2) receive_known [OF assms(1), of t i s] by simp
next
  case (ClientConnected t i)
  then show ?thesis using assms(2) connected_known [OF assms(1), of t i] by simp
next
  case (ClientDisconnected t i)
  then show ?thesis using assms(2) disconnected_known [OF assms(1), of t i] by simp
next
  case (ClientConnected0 t)
  then show ?thesis using assms(2) connected_known [OF assms(1), of t 0] by (simp add: st_clientConnected0_def)
next
  case (ClientDisconnected0 t)
  then show ?thesis using assms(2) disconnected_known [OF assms(1), of t 0] by (simp add: st_clientDisconnected0_def)
qed

lemma run_known:
  assumes "store_ok st" "st_run cs st = (out, st')"
  shows "store_ok st' \<and> known st' = fold gui_hears out (known st)"
  using assms
proof (induction cs arbitrary: st out st')
  case (Cons c cs)
  obtain o1 st1 where c: "st_call c st = (o1, st1)" by force
  obtain o2 st2 where r: "st_run cs st1 = (o2, st2)" by force
  have "out = o1 @ o2" "st' = st2" using Cons.prems(2) c r by simp_all
  then show ?case using call_known [OF Cons.prems(1) c] Cons.IH [OF _ r] by simp
qed simp

lemma new_store_ok: "store_ok IpcConnectionStateStore_new"
  by (simp add: store_ok_def IpcConnectionStateStore_new_def)

text \<open>
  C40. A GUI that connects to the daemon at any time, is told what the store hands out then and afterwards, and keeps the
  last state that it was told of each peer, always knows exactly what the store knows. After the active node's connection
  has ended the store, and with it the GUI, holds no peer for connected.
\<close>

theorem gui_knows_states:
  assumes "st_run before IpcConnectionStateStore_new = (out0, st0)" "st_clientConnected kIpcClientGui c st0 = (out1, st1)"
    and "st_run later st1 = (out2, st2)"
  shows "fold gui_hears (out1 @ out2) Map.empty = known st2 \<and>
    (st_activeNodeConnectionId st2 = Some n \<longrightarrow>
       (\<forall>s \<in> ran (known (snd (st_clientDisconnected kIpcClientNode n st2))). cs_state s \<noteq> StateConnected))"
proof
  have 0: "store_ok st0" using run_known [OF new_store_ok assms(1)] by blast
  have 1: "store_ok st1" "fold gui_hears out1 Map.empty = known st1" using connected_known [OF 0 assms(2)] by auto
  show "fold gui_hears (out1 @ out2) Map.empty = known st2" using run_known [OF 1(1) assms(3)] 1(2) by simp
  show "st_activeNodeConnectionId st2 = Some n \<longrightarrow>
      (\<forall>s \<in> ran (known (snd (st_clientDisconnected kIpcClientNode n st2))). cs_state s \<noteq> StateConnected)"
    by (auto simp: st_clientDisconnected_def known_def ran_def st_close_def dest!: map_of_SomeD split: if_splits)
qed

definition some_peer :: connection_state where
  "some_peer = \<lparr>cs_state = StateConnected, cs_role = ClientPeer, cs_identityPresence = IdentityKnown, cs_technicalName = [97], cs_detail = []\<rparr>"

theorem gui_knows_states_witness:
  "fold gui_hears (fst (st_clientConnected kIpcClientGui 1 (snd (st_run [ClientConnected kIpcClientNode 7, Receive kIpcClientNode 7 some_peer] IpcConnectionStateStore_new)))
      @ fst (st_run [ClientDisconnected kIpcClientNode 7] (snd (st_run [ClientConnected kIpcClientNode 7, Receive kIpcClientNode 7 some_peer] IpcConnectionStateStore_new))))
      Map.empty = [peer_id_of some_peer \<mapsto> some_peer\<lparr>cs_state := StateDisconnected, cs_detail := closed_text\<rparr>]"
proof -
  have 0: "st_run [ClientConnected kIpcClientNode 7, Receive kIpcClientNode 7 some_peer] IpcConnectionStateStore_new =
      ([to_gui some_peer], \<lparr>st_snapshot = [(st_key some_peer, some_peer)], st_activeNodeConnectionId = Some 7\<rparr>)"
    by (simp add: st_clientConnected_def st_receive_def IpcConnectionStateStore_new_def insert_or_assign_def)
  let ?st = "\<lparr>st_snapshot = [(st_key some_peer, some_peer)], st_activeNodeConnectionId = Some (7 :: u64)\<rparr>"
  have 1: "st_clientConnected kIpcClientGui 1 ?st = ([to_gui some_peer], ?st)" by (simp add: st_clientConnected_def)
  let ?s = "some_peer\<lparr>cs_state := StateDisconnected, cs_detail := closed_text\<rparr>"
  have 2: "st_run [ClientDisconnected kIpcClientNode 7] ?st =
      ([to_gui ?s], \<lparr>st_snapshot = [(st_key some_peer, ?s)], st_activeNodeConnectionId = None\<rparr>)"
    by (simp add: st_clientDisconnected_def st_close_def) (simp add: some_peer_def)
  have "peer_id_of ?s = peer_id_of some_peer" by (simp add: peer_id_of_def)
  then show ?thesis using gui_knows_states [OF 0 1 2] 0 1 2 by (simp add: known_def)
qed

end
