(* ===== verification/IpcServer.thy ===== *)
theory IpcServer
  imports IpcRuns IpcStore
begin

text \<open>
  The daemon's list of local connections, \<^verbatim>\<open>src/lib/ipc/IpcServer.cpp\<close>. Each connection has a proxy in the list, under the
  address of the object, and a number. The streams that the listening socket accepts and the peer that the operating
  system names for a stream are arguments. Whether a stream is a TCP socket is part of the second. A reply goes to the
  connection that asked.
\<close>

subsection \<open>The server\<close>

datatype IpcPeerAuthenticationMode = RequireOperatingSystemIdentity | DisabledForTests

record server_message =
  rq_origin :: EIpcClientType
  rq_connectionId :: u64
  rq_message :: "ipc_message option"

datatype server_event =
    ServerClientConnected nat
  | ServerClientDisconnected EIpcClientType u64
  | ServerMessageReceived server_message

record ipc_server =
  sv_clients :: "(nat \<times> ipc_proxy) list"
  sv_nextAddress :: nat
  sv_authenticationMode :: IpcPeerAuthenticationMode
  sv_nextConnectionId :: u64
  sv_trace :: "server_event list"

definition IpcServer_new :: "IpcPeerAuthenticationMode \<Rightarrow> ipc_server" where
  "IpcServer_new mode =
     \<lparr>sv_clients = [], sv_nextAddress = 0, sv_authenticationMode = mode, sv_nextConnectionId = 1, sv_trace = []\<rparr>"

definition copyIpcServerMessageForDispatch :: "ipc_message \<Rightarrow> ipc_message option" where
  "copyIpcServerMessageForDispatch m = (case m of IpcRuntimeStatusResponseMessage _ _ _ _ \<Rightarrow> None | _ \<Rightarrow> Some m)"

definition sv_event :: "server_event \<Rightarrow> ipc_server \<Rightarrow> ipc_server" where
  "sv_event e sv = sv\<lparr>sv_trace := sv_trace sv @ [e]\<rparr>"

text \<open>A new proxy, whose address no other object has had.\<close>

definition sv_add :: "ipc_proxy \<Rightarrow> ipc_server \<Rightarrow> ipc_server" where
  "sv_add p sv =
     sv_event (ServerClientConnected (sv_nextAddress sv))
       (sv\<lparr>sv_clients := sv_clients sv @ [(sv_nextAddress sv, p\<lparr>ip_connectionId := sv_nextConnectionId sv\<rparr>)],
          sv_nextAddress := Suc (sv_nextAddress sv), sv_nextConnectionId := sv_nextConnectionId sv + 1\<rparr>)"

definition sv_handle_client_connecting :: "bool \<Rightarrow> EIpcClientType option \<Rightarrow> ipc_server \<Rightarrow> ipc_server" where
  "sv_handle_client_connecting accepted authenticated sv =
     (if \<not> accepted then sv
      else if sv_authenticationMode sv = RequireOperatingSystemIdentity then
        (case authenticated of
           None \<Rightarrow> sv
         | Some t \<Rightarrow> sv_add (IpcClientProxy_new t True) sv)
      else sv_add (IpcClientProxy_new kIpcClientUnknown False) sv)"

definition removeIpcClientByPointer :: "nat \<Rightarrow> (nat \<times> ipc_proxy) list \<Rightarrow> (nat \<times> ipc_proxy) list" where
  "removeIpcClientByPointer a cs = takeWhile (\<lambda>(b, _). b \<noteq> a) cs @ drop 1 (dropWhile (\<lambda>(b, _). b \<noteq> a) cs)"

text \<open>The handlers of a proxy are removed with it, so that there is none for an address that is not in the list.\<close>

definition sv_handle_client_disconnected :: "nat \<Rightarrow> ipc_server \<Rightarrow> ipc_server" where
  "sv_handle_client_disconnected a sv =
     (case map_of (sv_clients sv) a of
        None \<Rightarrow> sv
      | Some p \<Rightarrow> sv_event (ServerClientDisconnected (ip_clientType p) (ip_connectionId p))
                    (sv\<lparr>sv_clients := removeIpcClientByPointer a (sv_clients sv)\<rparr>))"

definition sv_handle_message_received :: "nat \<Rightarrow> ipc_message \<Rightarrow> ipc_server \<Rightarrow> ipc_server" where
  "sv_handle_message_received a m sv =
     (case map_of (sv_clients sv) a of
        None \<Rightarrow> sv
      | Some p \<Rightarrow>
          (case copyIpcServerMessageForDispatch m of
             None \<Rightarrow> sv
           | Some owned \<Rightarrow> sv_event (ServerMessageReceived \<lparr>rq_origin = ip_clientType p, rq_connectionId = ip_connectionId p,
                              rq_message = Some owned\<rparr>) sv))"

definition sv_hasClients :: "EIpcClientType \<Rightarrow> ipc_server \<Rightarrow> bool" where
  "sv_hasClients clientType sv \<longleftrightarrow> (\<exists>(a, p) \<in> set (sv_clients sv). \<not> ip_disconnecting p \<and> ip_clientType p = clientType)"

text \<open>
  Sending. An exception of \<^verbatim>\<open>writef\<close> leaves the loop, with what was written before.
\<close>

fun send_clients :: "ipc_message \<Rightarrow> EIpcClientType \<Rightarrow> (nat \<times> ipc_proxy) list \<Rightarrow> write_error option \<times> (nat \<times> ipc_proxy) list" where
  "send_clients m t [] = (None, [])"
| "send_clients m t ((a, p) # cs) =
     (if ip_clientType p = t then
        (case ip_send m p of
           Inl e \<Rightarrow> (Some e, (a, p) # cs)
         | Inr p' \<Rightarrow> (case send_clients m t cs of (e, cs') \<Rightarrow> (e, (a, p') # cs')))
      else (case send_clients m t cs of (e, cs') \<Rightarrow> (e, (a, p) # cs')))"

definition sv_send :: "ipc_message \<Rightarrow> EIpcClientType \<Rightarrow> ipc_server \<Rightarrow> write_error option \<times> ipc_server" where
  "sv_send m t sv = (case send_clients m t (sv_clients sv) of (e, cs) \<Rightarrow> (e, sv\<lparr>sv_clients := cs\<rparr>))"

fun send_connection :: "ipc_message \<Rightarrow> u64 \<Rightarrow> EIpcClientType \<Rightarrow> (nat \<times> ipc_proxy) list \<Rightarrow> write_error + bool \<times> (nat \<times> ipc_proxy) list" where
  "send_connection m c t [] = Inr (False, [])"
| "send_connection m c t ((a, p) # cs) =
     (if ip_connectionId p = c \<and> ip_clientType p = t \<and> \<not> ip_disconnecting p then
        (case ip_send m p of Inl e \<Rightarrow> Inl e | Inr p' \<Rightarrow> Inr (True, (a, p') # cs))
      else (case send_connection m c t cs of Inl e \<Rightarrow> Inl e | Inr (b, cs') \<Rightarrow> Inr (b, (a, p) # cs')))"

definition sv_sendToConnection :: "ipc_message \<Rightarrow> u64 \<Rightarrow> EIpcClientType \<Rightarrow> ipc_server \<Rightarrow> write_error + bool \<times> ipc_server" where
  "sv_sendToConnection m c t sv =
     (case send_connection m c t (sv_clients sv) of Inl e \<Rightarrow> Inl e | Inr (b, cs) \<Rightarrow> Inr (b, sv\<lparr>sv_clients := cs\<rparr>))"

definition request_nonce :: "ipc_message \<Rightarrow> bytes option" where
  "request_nonce m =
     (case m of
        IpcStartRequestMessage nonce _ _ \<Rightarrow> Some nonce
      | IpcReloadRequestMessage requestNonce _ \<Rightarrow> Some requestNonce
      | IpcStopRequestMessage requestNonce _ \<Rightarrow> Some requestNonce
      | IpcTopologyRequestMessage requestNonce _ _ \<Rightarrow> Some requestNonce
      | _ \<Rightarrow> None)"

definition sv_sendCommandAppliedResponse :: "server_message \<Rightarrow> bytes \<Rightarrow> ipc_server \<Rightarrow> write_error + bool \<times> ipc_server" where
  "sv_sendCommandAppliedResponse request acceptedNonce sv =
     (if rq_origin request \<noteq> kIpcClientGui \<or> rq_message request = None \<or> length acceptedNonce \<noteq> 16 then Inr (False, sv)
      else case request_nonce (the (rq_message request)) of
        None \<Rightarrow> Inr (False, sv)
      | Some requestNonce \<Rightarrow>
          if requestNonce \<noteq> acceptedNonce then Inr (False, sv)
          else sv_sendToConnection (IpcCommandAppliedMessage acceptedNonce) (rq_connectionId request) kIpcClientGui sv)"

definition sv_sendRuntimeStatusResponse :: "server_message \<Rightarrow> byte \<Rightarrow> IpcRuntimeState \<Rightarrow> bytes \<Rightarrow> ipc_server \<Rightarrow> write_error + bool \<times> ipc_server" where
  "sv_sendRuntimeStatusResponse request schemaVersion runtimeState appliedNonce sv =
     (if rq_origin request \<noteq> kIpcClientGui then Inr (False, sv)
      else case rq_message request of
        Some (IpcRuntimeStatusRequestMessage queryNonce) \<Rightarrow>
          if schemaVersion \<noteq> 1 \<or> (appliedNonce \<noteq> [] \<and> length appliedNonce \<noteq> 16) then Inr (False, sv)
          else if length queryNonce \<noteq> 16 then Inr (False, sv)
          else sv_sendToConnection (IpcRuntimeStatusResponseMessage queryNonce schemaVersion runtimeState appliedNonce)
                 (rq_connectionId request) kIpcClientGui sv
      | _ \<Rightarrow> Inr (False, sv))"

subsection \<open>Runs\<close>

text \<open>
  A proxy handles its own events; an event that it adds is handled by the server later. The operating system's answers are
  given for each step.
\<close>

datatype server_step =
    Connecting bool "EIpcClientType option"
  | ProxyStep nat "nat \<Rightarrow> bool" proxy_step
  | DisconnectedEvent nat
  | MessageEvent nat ipc_message
  | SendTo ipc_message EIpcClientType
  | ReplyApplied server_message bytes
  | ReplyStatus server_message byte IpcRuntimeState bytes

definition on_client :: "nat \<Rightarrow> (ipc_proxy \<Rightarrow> ipc_proxy) \<Rightarrow> (nat \<times> ipc_proxy) list \<Rightarrow> (nat \<times> ipc_proxy) list" where
  "on_client a f cs = map (\<lambda>(b, p). (b, if b = a then f p else p)) cs"

fun sv_step :: "server_step \<Rightarrow> ipc_server \<Rightarrow> ipc_server" where
  "sv_step (Connecting accepted peer) sv = sv_handle_client_connecting accepted peer sv"
| "sv_step (ProxyStep a os e) sv = sv\<lparr>sv_clients := on_client a (ip_step os e) (sv_clients sv)\<rparr>"
| "sv_step (DisconnectedEvent a) sv = sv_handle_client_disconnected a sv"
| "sv_step (MessageEvent a m) sv = sv_handle_message_received a m sv"
| "sv_step (SendTo m t) sv = snd (sv_send m t sv)"
| "sv_step (ReplyApplied r n) sv = (case sv_sendCommandAppliedResponse r n sv of Inl _ \<Rightarrow> sv | Inr (_, sv') \<Rightarrow> sv')"
| "sv_step (ReplyStatus r v st n) sv = (case sv_sendRuntimeStatusResponse r v st n sv of Inl _ \<Rightarrow> sv | Inr (_, sv') \<Rightarrow> sv')"

definition sv_run :: "server_step list \<Rightarrow> ipc_server \<Rightarrow> ipc_server" where
  "sv_run steps sv = fold sv_step steps sv"

subsection \<open>Each connection has a number of its own\<close>

definition sv_numbers :: "ipc_server \<Rightarrow> (nat \<times> u64) list" where
  "sv_numbers sv = map (\<lambda>(a, p). (a, ip_connectionId p)) (sv_clients sv)"

text \<open>No number is given twice before the counter wraps around.\<close>

definition server_ok :: "nat \<Rightarrow> ipc_server \<Rightarrow> bool" where
  "server_ok n sv \<longleftrightarrow> sv_nextConnectionId sv = of_nat (Suc n) \<and>
     distinct (map fst (sv_numbers sv)) \<and> (\<forall>a \<in> set (map fst (sv_numbers sv)). a < sv_nextAddress sv) \<and>
     distinct (map snd (sv_numbers sv)) \<and> (\<forall>c \<in> set (map snd (sv_numbers sv)). \<exists>i. 0 < i \<and> i \<le> n \<and> c = of_nat i)"

lemma sv_event_fields [simp]:
  "sv_clients (sv_event e sv) = sv_clients sv" "sv_nextAddress (sv_event e sv) = sv_nextAddress sv"
  "sv_nextConnectionId (sv_event e sv) = sv_nextConnectionId sv"
  by (simp_all add: sv_event_def)

lemma send_number: "ip_send m p = Inr p' \<Longrightarrow> ip_connectionId p' = ip_connectionId p"
  using send_event by (fastforce simp: ip_event_def)

lemma step_number [simp]: "ip_connectionId (ip_step os e p) = ip_connectionId p"
  using step_peer [of os e p] by (simp add: peer_of_def)

lemma on_client_numbers [simp]:
  "(\<And>p. ip_connectionId (f p) = ip_connectionId p) \<Longrightarrow>
    map (\<lambda>(a, p). (a, ip_connectionId p)) (on_client a f cs) = map (\<lambda>(a, p). (a, ip_connectionId p)) cs"
  by (induction cs) (auto simp: on_client_def)

lemma send_clients_numbers:
  "send_clients m t cs = (e, cs') \<Longrightarrow> map (\<lambda>(a, p). (a, ip_connectionId p)) cs' = map (\<lambda>(a, p). (a, ip_connectionId p)) cs"
  by (induction m t cs arbitrary: e cs' rule: send_clients.induct) (auto split: if_splits sum.splits prod.splits dest: send_number)

lemma send_connection_numbers:
  "send_connection m c t cs = Inr (b, cs') \<Longrightarrow> map (\<lambda>(a, p). (a, ip_connectionId p)) cs' = map (\<lambda>(a, p). (a, ip_connectionId p)) cs"
  by (induction m c t cs arbitrary: b cs' rule: send_connection.induct) (auto split: if_splits sum.splits prod.splits dest: send_number)

lemma server_ok_same:
  "server_ok n sv \<Longrightarrow> sv_numbers sv' = sv_numbers sv \<Longrightarrow> sv_nextAddress sv' = sv_nextAddress sv \<Longrightarrow>
    sv_nextConnectionId sv' = sv_nextConnectionId sv \<Longrightarrow> server_ok n sv'"
  by (simp add: server_ok_def)

lemma remove_filter: "distinct (map fst cs) \<Longrightarrow> removeIpcClientByPointer a cs = filter (\<lambda>(b, _). b \<noteq> a) cs"
proof (induction cs)
  case (Cons e cs)
  have "fst e \<notin> fst ` set cs" using Cons.prems by simp
  then have "fst e = a \<Longrightarrow> filter (\<lambda>(b, _). b \<noteq> a) cs = cs" by (auto intro!: filter_True simp: image_iff)
  then show ?case using Cons by (cases e) (auto simp: removeIpcClientByPointer_def)
qed (simp add: removeIpcClientByPointer_def)

lemma add_ok:
  assumes "server_ok n sv" "Suc n < 2 ^ 64"
  shows "server_ok (Suc n) (sv_add p sv)"
proof -
  have fresh: "(of_nat i :: u64) \<noteq> of_nat (Suc n)" if "i \<le> n" for i
  proof
    assume "(of_nat i :: u64) = of_nat (Suc n)"
    then have "unat (of_nat i :: u64) = unat (of_nat (Suc n) :: u64)" by (rule arg_cong)
    then show False using that assms(2) unfolding unat_of_nat by simp
  qed
  have a: "sv_nextAddress sv \<notin> set (map fst (sv_numbers sv))" using assms(1) unfolding server_ok_def by blast
  have c: "of_nat (Suc n) \<notin> set (map snd (sv_numbers sv))" using assms(1) fresh unfolding server_ok_def by fastforce
  have next_id: "sv_nextConnectionId sv = of_nat (Suc n)" using assms(1) by (simp add: server_ok_def)
  have "sv_numbers (sv_add p sv) = sv_numbers sv @ [(sv_nextAddress sv, of_nat (Suc n))]" using next_id by (simp add: sv_add_def sv_numbers_def)
  moreover have "sv_nextAddress (sv_add p sv) = Suc (sv_nextAddress sv)" "sv_nextConnectionId (sv_add p sv) = of_nat (Suc (Suc n))"
    using next_id by (simp_all add: sv_add_def)
  ultimately show ?thesis using assms(1) a c unfolding server_ok_def by (fastforce intro: le_SucI less_SucI)
qed

definition is_connecting :: "server_step \<Rightarrow> bool" where
  "is_connecting e \<longleftrightarrow> (case e of Connecting _ _ \<Rightarrow> True | _ \<Rightarrow> False)"

lemma reply_numbers: "sv_sendToConnection m c t sv = Inr (b, sv') \<Longrightarrow> \<exists>cs. sv' = sv\<lparr>sv_clients := cs\<rparr> \<and> sv_numbers sv' = sv_numbers sv"
  by (auto simp: sv_sendToConnection_def sv_numbers_def split: sum.splits prod.splits dest: send_connection_numbers)

lemma reply_ok:
  assumes "server_ok n sv"
  shows "sv_sendCommandAppliedResponse r x sv = Inr (b, sv') \<Longrightarrow> server_ok n sv'"
    "sv_sendRuntimeStatusResponse r v st x sv = Inr (b, sv') \<Longrightarrow> server_ok n sv'"
proof -
  have "sv_sendToConnection m c t sv = Inr (b, sv') \<Longrightarrow> server_ok n sv'" for m c t
    using server_ok_same [OF assms, of sv'] reply_numbers by fastforce
  then show "sv_sendCommandAppliedResponse r x sv = Inr (b, sv') \<Longrightarrow> server_ok n sv'"
    "sv_sendRuntimeStatusResponse r v st x sv = Inr (b, sv') \<Longrightarrow> server_ok n sv'"
    using assms by (auto simp: sv_sendCommandAppliedResponse_def sv_sendRuntimeStatusResponse_def split: if_splits option.splits ipc_message.splits)
qed

lemma removed_ok:
  assumes "server_ok n sv"
  shows "server_ok n (sv\<lparr>sv_clients := removeIpcClientByPointer a (sv_clients sv)\<rparr>)"
proof -
  have f: "map fst (sv_numbers sv) = map fst (sv_clients sv)" by (auto simp: sv_numbers_def)
  then have "distinct (map fst (sv_clients sv))" using assms by (simp add: server_ok_def)
  then have "sv_numbers (sv\<lparr>sv_clients := removeIpcClientByPointer a (sv_clients sv)\<rparr>) = filter (\<lambda>(b, _). b \<noteq> a) (sv_numbers sv)"
    by (simp add: remove_filter sv_numbers_def filter_map comp_def split_def)
  then show ?thesis using assms unfolding server_ok_def by (auto simp: distinct_map_filter)
qed

lemma sv_step_ok:
  assumes "server_ok n sv" "Suc n < 2 ^ 64"
  shows "server_ok n (sv_step e sv) \<or> is_connecting e \<and> server_ok (Suc n) (sv_step e sv)"
proof (cases e)
  case (Connecting accepted peer)
  then show ?thesis using assms add_ok by (auto simp: sv_handle_client_connecting_def is_connecting_def split: option.splits)
next
  case (ProxyStep a os st)
  then show ?thesis using server_ok_same [OF assms(1)] by (simp add: sv_numbers_def)
next
  case (DisconnectedEvent a)
  have "server_ok n (sv_event ev sv') = server_ok n sv'" for ev sv' by (simp add: server_ok_def sv_numbers_def)
  then show ?thesis using DisconnectedEvent removed_ok [OF assms(1)] assms(1) by (simp add: sv_handle_client_disconnected_def split: option.splits)
next
  case (MessageEvent a m)
  have "server_ok n (sv_event ev sv') = server_ok n sv'" for ev sv' by (simp add: server_ok_def sv_numbers_def)
  then show ?thesis using MessageEvent assms(1) by (simp add: sv_handle_message_received_def split: option.splits)
next
  case (SendTo m t)
  obtain er cs where c: "send_clients m t (sv_clients sv) = (er, cs)" by force
  then show ?thesis using SendTo server_ok_same [OF assms(1), of "sv\<lparr>sv_clients := cs\<rparr>"] send_clients_numbers [OF c] by (simp add: sv_send_def sv_numbers_def)
next
  case (ReplyApplied r x)
  then show ?thesis using assms(1) reply_ok(1) [OF assms(1), of r x] by (simp split: sum.splits prod.splits)
next
  case (ReplyStatus r v st x)
  then show ?thesis using assms(1) reply_ok(2) [OF assms(1), of r v st x] by (simp split: sum.splits prod.splits)
qed

lemma sv_run_ok:
  assumes "server_ok n sv" "n + length (filter is_connecting steps) < 2 ^ 64 - 1"
  shows "\<exists>n' < 2 ^ 64 - 1. server_ok n' (sv_run steps sv)"
  using assms
proof (induction steps arbitrary: n sv)
  case (Cons e steps)
  have "server_ok n (sv_step e sv) \<or> is_connecting e \<and> server_ok (Suc n) (sv_step e sv)" using sv_step_ok [OF Cons.prems(1)] Cons.prems(2) by simp
  then show ?case
  proof
    assume "server_ok n (sv_step e sv)"
    from Cons.IH [OF this] show ?thesis using Cons.prems(2) by (simp add: sv_run_def split: if_splits)
  next
    assume "is_connecting e \<and> server_ok (Suc n) (sv_step e sv)"
    then show ?thesis using Cons.IH [of "Suc n" "sv_step e sv"] Cons.prems(2) by (simp add: sv_run_def)
  qed
qed (auto simp: sv_run_def)

lemma on_client_absent: "a \<notin> fst ` set cs \<Longrightarrow> on_client a f cs = cs"
  by (induction cs) (auto simp: on_client_def)

lemma send_connection_one:
  assumes "(a, p) \<in> set cs" "distinct (map fst cs)" "distinct (map (\<lambda>(a, p). ip_connectionId p) cs)"
    and "ip_clientType p = t" "\<not> ip_disconnecting p" "ip_send m p = Inr (f p)"
  shows "send_connection m (ip_connectionId p) t cs = Inr (True, on_client a f cs)"
  using assms(1-3)
proof (induction cs)
  case (Cons e cs)
  obtain b q where e: "e = (b, q)" by force
  show ?case
  proof (cases "e = (a, p)")
    case True
    then have "on_client a f cs = cs" using on_client_absent Cons.prems(2) by simp
    then show ?thesis using True assms(4-6) by (simp add: on_client_def)
  next
    case False
    then have m: "(a, p) \<in> set cs" using Cons.prems(1) by auto
    then have "b \<noteq> a" "ip_connectionId q \<noteq> ip_connectionId p" using Cons.prems(2,3) e by force+
    then show ?thesis using Cons.IH [OF m] Cons.prems(2,3) e by (simp add: on_client_def)
  qed
qed simp

lemma new_server_ok: "server_ok 0 (IpcServer_new mode)"
  by (simp add: server_ok_def IpcServer_new_def sv_numbers_def)

lemma applied_sent:
  "length nonce = 16 \<Longrightarrow> ip_send (IpcCommandAppliedMessage nonce) p = Inr (ip_event (ProxyWrites (ipc_bytes (IpcCommandAppliedMessage nonce))) p)"
  using client_proxy_writes [of "IpcCommandAppliedMessage nonce"] by (simp add: ip_send_def protocol_limits)

text \<open>
  C39. A message that a GUI sends is announced with the number of its connection, and the reply to that request, with
  the nonce of the request, is written to that connection and to no other; with another nonce nothing is written. So it is
  after any sequence of steps in which fewer than $2^{64} - 1$ connections were made.
\<close>

theorem reply_reaches_requester:
  assumes "length (filter is_connecting steps) < 2 ^ 64 - 1" "sv = sv_run steps (IpcServer_new mode)"
    and "(a, p) \<in> set (sv_clients sv)" "ip_clientType p = kIpcClientGui" "\<not> ip_disconnecting p"
    and "request_nonce m = Some nonce" "length nonce = 16"
    and "rq = \<lparr>rq_origin = kIpcClientGui, rq_connectionId = ip_connectionId p, rq_message = Some m\<rparr>"
  shows "sv_handle_message_received a m sv = sv_event (ServerMessageReceived rq) sv \<and>
    sv_sendCommandAppliedResponse rq nonce sv =
      Inr (True, sv\<lparr>sv_clients := on_client a (ip_event (ProxyWrites (ipc_bytes (IpcCommandAppliedMessage nonce)))) (sv_clients sv)\<rparr>) \<and>
    (\<forall>x. x \<noteq> nonce \<longrightarrow> sv_sendCommandAppliedResponse rq x sv = Inr (False, sv))"
proof -
  obtain n where "server_ok n sv" using sv_run_ok [OF new_server_ok, of steps mode] assms(1,2) by auto
  then have d: "distinct (map fst (sv_clients sv))" "distinct (map (\<lambda>(a, p). ip_connectionId p) (sv_clients sv))"
    by (simp_all add: server_ok_def sv_numbers_def comp_def split_def)
  have "copyIpcServerMessageForDispatch m = Some m" using assms(6) by (cases m) (simp_all add: copyIpcServerMessageForDispatch_def request_nonce_def)
  then have 1: "sv_handle_message_received a m sv = sv_event (ServerMessageReceived rq) sv"
    using map_of_is_SomeI [OF d(1) assms(3)] assms(4,8) by (simp add: sv_handle_message_received_def)
  have "send_connection (IpcCommandAppliedMessage nonce) (ip_connectionId p) kIpcClientGui (sv_clients sv) =
      Inr (True, on_client a (ip_event (ProxyWrites (ipc_bytes (IpcCommandAppliedMessage nonce)))) (sv_clients sv))"
    by (rule send_connection_one [OF assms(3) d assms(4,5)]) (rule applied_sent [OF assms(7)])
  then have 2: "sv_sendCommandAppliedResponse rq nonce sv =
      Inr (True, sv\<lparr>sv_clients := on_client a (ip_event (ProxyWrites (ipc_bytes (IpcCommandAppliedMessage nonce)))) (sv_clients sv)\<rparr>)"
    using assms(6,7,8) by (simp add: sv_sendCommandAppliedResponse_def sv_sendToConnection_def)
  have "sv_sendCommandAppliedResponse rq x sv = Inr (False, sv)" if "x \<noteq> nonce" for x
    using assms(6,8) that by (simp add: sv_sendCommandAppliedResponse_def)
  then show ?thesis using 1 2 by blast
qed

definition greeting :: bytes where
  "greeting = bytes_of ''IHEL'' @ [1]"

lemma greeted:
  fixes c :: u64
  defines "p \<equiv> (IpcClientProxy_new kIpcClientGui True)\<lparr>ip_connectionId := c\<rparr>"
  defines "q \<equiv> ip_run (\<lambda>_. True) (arrivals [greeting]) p"
  shows "ip_clientType q = kIpcClientGui \<and> \<not> ip_disconnecting q \<and> ip_connectionId q = c"
proof -
  let ?ms = "[IpcHelloMessage kIpcClientGui]"
  have b: "stream_of ?ms = greeting" by (simp add: greeting_def)
  have w: "awaits ?ms 0 (IpcFrameReader_new ClientToServer)"
    by (rule new_awaits) (simp add: sent_in_def sent_to_daemon_def)
  then have "serving ?ms 0 p" by (simp add: p_def serving_def IpcClientProxy_new_def conversation_def) (simp add: IpcFrameReader_new_def)
  then have "served ?ms p q []" unfolding q_def
    by (rule arrivals_served) (use b in \<open>simp_all add: is_start_def p_def IpcClientProxy_new_def\<close>)
  then obtain dn ms' k' where s: "?ms = dn @ ms'" "serving ms' k' q" "drop k' (stream_of ms') = []" "received q = received p @ dn"
    unfolding served_def by blast
  then have "ms' = []" using all_taken by (auto simp: serving_def)
  then have "received q = ?ms" using s(1,4) by (simp add: p_def received_def IpcClientProxy_new_def)
  moreover have "proxy_ok p" "closing_ok (\<lambda>_. True) p"
    by (simp_all add: p_def IpcClientProxy_new_def proxy_ok_def closing_ok_def received_def reader_ok_def IpcFrameReader_new_def after_end_def)
  then have "proxy_ok q" "peer_of q = peer_of p" using run_ok unfolding q_def by blast+
  ultimately show ?thesis using s(2) by (simp add: proxy_ok_def serving_def peer_of_def p_def)
qed

theorem reply_reaches_requester_witness:
  "\<exists>sv'. sv_sendCommandAppliedResponse \<lparr>rq_origin = kIpcClientGui, rq_connectionId = 1, rq_message = Some (IpcReloadRequestMessage (replicate 16 7) (replicate 16 8))\<rparr>
     (replicate 16 7) (sv_run [Connecting True (Some kIpcClientGui), ProxyStep 0 (\<lambda>_. True) (BytesArrive greeting), ProxyStep 0 (\<lambda>_. True) InputReady]
       (IpcServer_new RequireOperatingSystemIdentity)) = Inr (True, sv')"
proof -
  let ?steps = "[Connecting True (Some kIpcClientGui), ProxyStep 0 (\<lambda>_. True) (BytesArrive greeting), ProxyStep 0 (\<lambda>_. True) InputReady]"
  let ?q = "ip_run (\<lambda>_. True) (arrivals [greeting]) ((IpcClientProxy_new kIpcClientGui True)\<lparr>ip_connectionId := 1\<rparr>)"
  let ?m = "IpcReloadRequestMessage (replicate 16 7) (replicate 16 8)"
  have c: "(0, ?q) \<in> set (sv_clients (sv_run ?steps (IpcServer_new RequireOperatingSystemIdentity)))"
    by (simp add: sv_run_def sv_handle_client_connecting_def sv_add_def IpcServer_new_def on_client_def ip_run_def arrivals_def del: ip_step.simps)
  have q: "ip_clientType ?q = kIpcClientGui" "\<not> ip_disconnecting ?q" "ip_connectionId ?q = 1" using greeted [of 1] by simp_all
  have n: "request_nonce ?m = Some (replicate 16 7)" by (simp add: request_nonce_def)
  show ?thesis using reply_reaches_requester [OF _ refl c q(1,2) n _ refl] q(3) by (simp add: is_connecting_def)
qed

end
