(* ===== verification/Spec2Isabelle.thy ===== *)
theory Spec2Isabelle
  imports Chunks Clipboard Unicode ServerSwitching Handshake ConfigRoundtrip IpcServer
begin

text \<open>
  A verification of the core of Input Leap, a program that shares one keyboard and mouse between
  several computers. A \<^emph>\<open>server\<close> owns the devices; \<^emph>\<open>clients\<close> connect over TCP. When the pointer
  crosses an edge of a screen that the configuration links to another screen, the server sends the
  input to that screen's computer; clipboards and files travel over the same connection.

  \<^bold>\<open>Parts and theories.\<close> All paths are below \<^verbatim>\<open>src/lib\<close>.
  \<^item> \<open>Prelude\<close>: bytes, machine words, big-endian conversions, shared collections of lemmas.
  \<^item> \<open>StreamBuffer\<close>: \<^verbatim>\<open>io/StreamBuffer.cpp\<close>, the chunked byte queue under all network input. It is
    shown to implement a plain list of bytes (locale \<open>byte_fifo\<close>).
  \<^item> \<open>EventQueue\<close>: \<^verbatim>\<open>base/EventQueue.cpp\<close> and \<^verbatim>\<open>base/SimpleEventQueueBuffer.cpp\<close>, the table of events
    and the queue of their ids (locale \<open>event_channel\<close>): ids never clash, delivery is in order.
  \<^item> \<open>IStream\<close>: the contract of a stream (locale \<open>istream\<close>), \<^verbatim>\<open>io/IStream.h\<close>.
  \<^item> \<open>ProtocolUtil\<close>: \<^verbatim>\<open>inputleap/ProtocolUtil.cpp\<close> and the formats of \<^verbatim>\<open>inputleap/protocol_types.cpp\<close>:
    both passes of \<open>writef\<close>, and \<open>readf\<close> over any stream with the contract.
  \<^item> \<open>PacketFilter\<close>: \<^verbatim>\<open>inputleap/PacketStreamFilter.cpp\<close>, length-prefixed packets; an interpretation of
    \<open>istream\<close>, built on \<open>byte_fifo\<close>.
  \<^item> \<open>Chunks\<close>: \<^verbatim>\<open>inputleap/ClipboardChunk.cpp\<close>, \<^verbatim>\<open>inputleap/FileChunk.cpp\<close>,
    \<^verbatim>\<open>inputleap/StreamChunker.cpp\<close>, transfers cut into messages and put together again.
  \<^item> \<open>Clipboard\<close>: \<^verbatim>\<open>inputleap/IClipboard.cpp\<close>, \<^verbatim>\<open>inputleap/Clipboard.cpp\<close> (locale \<open>iclipboard\<close>).
  \<^item> \<open>Strings\<close>, \<open>Unicode\<close>: \<^verbatim>\<open>base/String.cpp\<close>, \<^verbatim>\<open>base/Unicode.cpp\<close>.
  \<^item> \<open>StdMap\<close>: \<^verbatim>\<open>std::map\<close> with a comparator (locale \<open>strict_weak_order\<close>), for
  \<^item> \<open>Config\<close>: \<^verbatim>\<open>server/Config.cpp\<close>, screens, aliases, links and options; every configuration that the
    operations build is well formed, and \<open>getNeighbor\<close> follows the links.

  \<^item> \<open>KeyInfo\<close>: \<^verbatim>\<open>inputleap/IKeyState.cpp\<close>, the screens a key is sent to, kept in one string.
  \<^item> \<open>ServerState\<close>: the state of \<^verbatim>\<open>server/Server.cpp\<close>. Proxies of clients live in a heap, a map from addresses to
    proxies, so that a deleted proxy is a missing entry and its use the error \<open>DanglingPointer\<close>; calls that go
    out to a screen and events that are posted are appended to a trace; what the platform screen, the clock
    and the file system answer during one event is the record \<open>env\<close>, with a flag for builds with assertions.
  \<^item> \<open>ServerGeometry\<close>: neighbours and positions across screens. A pointer that leaves a screen lands on the
    connected screen that the links lead to; the search for it returns exactly when no cycle of unconnected
    screens holds it up.
  \<^item> \<open>Server\<close>, \<open>ServerEvents\<close>: switching with its delays, double taps, corners and modifiers, clipboards,
    options; all event handlers, clients that connect, disconnect or are closed, reloading of the configuration,
    and the constructor.
  \<^item> \<open>ServerSafety\<close>, \<open>ServerClients\<close>, \<open>ServerRuns\<close>: one lemma per operation says which references to proxies it
    changes. They give an invariant of all reachable states, and that no input uses a deleted proxy; two runs
    outside the conditions do.
  \<^item> \<open>ServerSwitching\<close>: the order of leaving and entering screens, a locked pointer, the destinations of keys and
    the ownership of clipboards.

  \<^item> \<open>PacketStream\<close>: the packet filter as a sequence of whole packets (locale \<open>packet_stream\<close>, which extends
    \<open>istream\<close>), the contract that both ends of a connection read through.
  \<^item> \<open>ProxyMessages\<close>: \<^verbatim>\<open>server/ClientConnectionByStream.cpp\<close>, one message per call, and the protocol's constants.
  \<^item> \<open>ClientProxy\<close>: the server's end, \<^verbatim>\<open>server/ClientProxy1_6.cpp\<close>, and the greeting of a new connection,
    \<^verbatim>\<open>server/ClientProxyUnknown.cpp\<close>. \<open>ServerProxy\<close>: the client's end, \<^verbatim>\<open>client/ServerProxy.cpp\<close>, with the
    merging of pointer motion and the translation of modifiers. What they write, post and do to timers is
    appended to a trace.
  \<^item> \<open>ProxyLink\<close>: calls of the server on its proxy, sent through the packet filter and handled by the client's
    proxy, leave the same key and button events at the same pointer positions and the same final position.
  \<^item> \<open>ProxyReads\<close>, \<open>ProxyValues\<close>: the loops over arriving messages end on any bytes, and the server's end fails
    only in a malformed clipboard; a format determines the values that a successful read stores.
  \<^item> \<open>Client\<close>, \<open>ClientRuns\<close>: \<^verbatim>\<open>client/Client.cpp\<close>, the life of a connection as a state machine over installed
    handlers; which objects and handlers exist together is an invariant, and a connection that ends leaves
    nothing behind.
  \<^item> \<open>Handshake\<close>: the greeting and the exchange of the screen's shape across both programs.

  \<^item> \<open>KeyNames\<close>: \<^verbatim>\<open>inputleap/key_types.cpp\<close> and the names of keys of \<^verbatim>\<open>inputleap/KeyMap.cpp\<close>: what is printed reads
    back, but for one key.
  \<^item> \<open>InputFilter\<close>: \<^verbatim>\<open>server/InputFilter.cpp\<close>, the hot keys. The capacity of the vector of rules is part of the state;
    the hot keys that are registered are those of the rules, as long as the vector does not grow.

  \<^item> \<open>NetworkAddress\<close>: \<^verbatim>\<open>net/NetworkAddress.cpp\<close>, hosts with ports; the look-up of names is a parameter.
  \<^item> \<open>ConfigContext\<close>, \<open>ConfigRead\<close>: the reader of configuration files in \<^verbatim>\<open>server/Config.cpp\<close>, from lines and values
    to sections. Whatever the text, reading ends, and what is read is well formed.
  \<^item> \<open>ConfigWrite\<close>: the writer, \<^verbatim>\<open>operator<<\<close>. \<open>ConfigLines\<close>, \<open>ConfigOptions\<close>, \<open>ConfigLinks\<close>, \<open>ConfigRules\<close>: what the
    reader makes of the lines that are written for options, links and hot keys. \<open>ConfigRebuild\<close>: reading the
    lines of a section rebuilds its map entry by entry. \<open>ConfigRoundtrip\<close>: a configuration that is written reads as
    itself, and what is written and does not.

  \<^item> \<open>IpcMessages\<close>, \<open>IpcFrames\<close>: the local channel between the daemon, the GUI and the node processes, \<^verbatim>\<open>ipc/IpcMessage.cpp\<close>
    and \<^verbatim>\<open>ipc/IpcFrameReader.cpp\<close>. The messages that one end writes are those that the reader of the other end
    hands out, however the bytes are cut, but for a start request that is cut before its last byte.
  \<^item> \<open>IpcProxy\<close>, \<open>IpcRuns\<close>: the two ends of a connection, \<^verbatim>\<open>ipc/IpcClientProxy.cpp\<close> and \<^verbatim>\<open>ipc/IpcServerProxy.cpp\<close>. The daemon
    passes on only what a peer of the authenticated kind may send, and what it may send is passed on.
  \<^item> \<open>IpcStore\<close>: \<^verbatim>\<open>ipc/IpcConnectionStateStore.cpp\<close>; a GUI that keeps what it is told agrees with the store (an
    interpretation of \<open>strict_weak_order\<close>). \<open>IpcServer\<close>: \<^verbatim>\<open>ipc/IpcServer.cpp\<close>; a reply goes to the connection that asked.

  This theory composes the network layers: a message written by \<open>writef\<close>, framed by the packet filter, cut by the
  network in any way, reassembled and parsed by \<open>readf\<close>, is the message that was sent.

  \<^bold>\<open>Conventions.\<close> Fixed-width unsigned integers of wire formats are words; sizes and counts that the
  code keeps in \<^verbatim>\<open>size_t\<close> and that are bounded by the memory are natural numbers (the space left for a frame is computed modulo the 64 bits of a \<^verbatim>\<open>size_t\<close>). Coordinates of screens are
  integers; the code keeps them in 32 bits and the model does not wrap them. A byte buffer is a
  list of bytes, a name a \<open>string\<close>. An exception is a value of an error type on the left of a sum; a
  failed assertion, an access outside a buffer or the use of an invalid iterator is \<open>None\<close> or an error of
  its own, so that a theorem about a result also says that none of these happens. Values that the code
  leaves uninitialised, the byte order of the host and what arrives from a socket or a file are parameters.
  Loops are recursive functions with termination proofs, but for the two searches of \<open>ServerGeometry\<close> that may run
  forever and the two loops over messages, which are partial functions whose value is then \<open>None\<close>; no definition uses fuel. Positions along an edge
  are \<^verbatim>\<open>float\<close> and delays \<^verbatim>\<open>double\<close> in the code and rational numbers here: comparisons agree, the linear maps are
  computed without rounding; \<^verbatim>\<open>strtod\<close> is exact, and a \<^verbatim>\<open>long\<close> has 64 bits. Locks are not modelled: an operation that the code runs under a lock is one step.

  \<^bold>\<open>Not modelled.\<close> Operating-system and toolkit bindings (\<^verbatim>\<open>platform\<close>, \<^verbatim>\<open>arch\<close>, \<^verbatim>\<open>mt\<close>, sockets and TLS in
  \<^verbatim>\<open>net\<close>), the Qt program in \<^verbatim>\<open>src/gui\<close>, timers of the event queue, the locale-dependent multibyte
  conversions, logging and start-up code; of the server and the client the threads that send and receive dragged
  files. The search for keystrokes of a keyboard layout is not modelled; of the local channel neither the reconnecting
  socket of a local process, the thread that sends the log, nor the questions to the operating system about the
  process at the other end, whose answers are parameters.
\<close>

section \<open>From the sender's message to the receiver's values\<close>

text \<open>
  A receiver that reads one message after the other, each with the format it expects; the results in order.
\<close>

fun read_messages :: "'s reader \<Rightarrow> 's \<Rightarrow> string list \<Rightarrow> ((read_error + bool) \<times> read_val list) list \<times> 's" where
  "read_messages rd s [] = ([], s)"
| "read_messages rd s (fmt # fmts) =
     (case readf rd s fmt of
        (r, vs, s') \<Rightarrow> (let (rs, s'') = read_messages rd s' fmts in ((r, vs) # rs, s'')))"

lemma read_messages_written:
  assumes "list_all2 (\<lambda>(fmt, args) out. writefArgs fmt args = Inr out \<and> memory_ok args \<and> readable fmt) ms outs"
    and "pf_inv s" "pf_avail s = concat outs @ rest"
  shows "\<exists>s'. read_messages pf_read s (map fst ms) =
      (map (\<lambda>(fmt, args). (Inr True, sent_values fmt args)) ms, s') \<and> pf_inv s' \<and> pf_avail s' = rest"
  using assms
proof (induction ms outs arbitrary: s rule: list_all2_induct)
  case (Cons m ms out outs)
  obtain fmt args where m: "m = (fmt, args)" by force
  have w: "writefArgs fmt args = Inr out" "memory_ok args" "readable fmt" using Cons.hyps(1) m by auto
  have "pf_avail s = out @ concat outs @ rest" using Cons.prems(2) by simp
  then obtain s1 where s1: "readf pf_read s fmt = (Inr True, sent_values fmt args, s1)" "pf_inv s1"
      "pf_avail s1 = concat outs @ rest"
    using pf.readf_written [OF w Cons.prems(1)] by blast
  obtain s2 where "read_messages pf_read s1 (map fst ms) =
      (map (\<lambda>(fmt, args). (Inr True, sent_values fmt args)) ms, s2)" "pf_inv s2" "pf_avail s2 = rest"
    using Cons.IH [OF s1(2,3)] by blast
  then show ?case using s1(1) m by simp
qed simp

text \<open>
  C1. Messages arrive as they were sent: any sequence of protocol messages that \<^verbatim>\<open>writef\<close> accepts, framed by
  the packet filter of the sender, cut by the network in any way and reassembled by the packet filter
  of the receiver, is read by \<^verbatim>\<open>readf\<close> with the same formats as exactly the values that were written,
  message by message, with nothing lost, added or reordered.
\<close>

theorem messages_arrive_as_sent:
  assumes "list_all2 (\<lambda>(fmt, args) out. writefArgs fmt args = Inr out \<and> memory_ok args \<and> fmt \<in> set all_formats)
      ms outs"
    and "concat rs = concat (map (\<lambda>out. concat [d. UpWrite d \<leftarrow> pf_write out]) outs)"
    and "[] \<notin> set rs" "[] \<notin> set outs" "length (concat rs) < 2 ^ 32"
  shows "\<exists>changed s s'. pf_readMore pf_new rs = Some (changed, s, []) \<and>
    read_messages pf_read s (map fst ms) =
      (map (\<lambda>(fmt, args). (Inr True, sent_values fmt args)) ms, s') \<and> pf_avail s' = []"
proof -
  have w: "concat rs = concat (map frame outs)" using assms(2) by (simp only: pf_write_frame)
  have "list_all2 (\<lambda>(fmt, args) out. length out \<le> PROTOCOL_MAX_MESSAGE_LENGTH) ms outs"
    using assms(1) by (rule list_all2_mono) (auto dest: writefArgs_length)
  then have "\<forall>out \<in> set outs. length out \<le> PROTOCOL_MAX_MESSAGE_LENGTH"
    by (auto simp: list_all2_conv_all_nth in_set_conv_nth case_prod_beta)
  then have good: "list_all good_payload outs"
    using assms(4) by (auto simp: list_all_iff good_payload_def)
  have rd: "list_all2 (\<lambda>(fmt, args) out. writefArgs fmt args = Inr out \<and> memory_ok args \<and> readable fmt) ms outs"
    using assms(1) all_formats_readable by (elim list_all2_mono) (auto simp: list_all_iff)
  obtain s where s: "pf_fill pf_new rs = Some (s, [])" "pf_inv s" "pf_avail s = concat outs @ []"
    using fresh_filter_delivers [OF good w assms(3,5)] by blast
  from read_messages_written [OF rd s(2,3)] s(1) show ?thesis by (auto simp: pf_readMore_def)
qed

theorem messages_arrive_as_sent_witness:
  "\<exists>changed s s'. pf_readMore pf_new [[0, 0, 0], [8, 68, 77, 77, 86, 0, 3], [0, 4, 0, 0, 0, 4, 67, 79, 85, 84]] =
      Some (changed, s, []) \<and>
    read_messages pf_read s (map fst [(kMsgDMouseMove, [WInteger 3, WInteger 4]), (kMsgCLeave, [])]) =
      (map (\<lambda>(fmt, args). (Inr True, sent_values fmt args))
         [(kMsgDMouseMove, [WInteger 3, WInteger 4]), (kMsgCLeave, [])], s') \<and> pf_avail s' = []"
proof (rule messages_arrive_as_sent)
  show "list_all2 (\<lambda>(fmt, args) out. writefArgs fmt args = Inr out \<and> memory_ok args \<and> fmt \<in> set all_formats)
      [(kMsgDMouseMove, [WInteger 3, WInteger 4]), (kMsgCLeave, [])]
      [[68, 77, 77, 86, 0, 3, 0, 4], [67, 79, 85, 84]]"
  proof -
    have "writefArgs kMsgDMouseMove [WInteger 3, WInteger 4] = Inr [68, 77, 77, 86, 0, 3, 0, 4]"
      "writefArgs kMsgCLeave [] = Inr [67, 79, 85, 84]"
      by (simp_all add: writefArgs_def kMsgDMouseMove_def kMsgCLeave_def check_spec_def emit_spec_def
          addLength_def digit_value_def protocol_limits appendInteger_2)
    then show ?thesis by (simp add: all_formats_def)
  qed
qed (simp_all add: pf_write_def appendInteger_4)

end
